(* ===== verification/Prelude.thy ===== *)
theory Prelude
  imports Main "HOL-Library.Word"
begin

text \<open>
  Shared vocabulary of the development: the C integer types as words of their width, byte
  memories with block reads and writes, the little-endian layout the Cortex-M4 gives a
  \<open>uint32_t\<close> when it is copied with \<open>memcpy\<close>, and the generic facts about lists, words and
  iteration the components use. The collections \<open>mem_simps\<close> and \<open>c_arith\<close> gather the
  rewriting rules for block accesses and for reading word arithmetic as natural numbers.
\<close>

unbundle bit_operations_syntax

named_theorems mem_simps
named_theorems c_arith

type_synonym u8 = "8 word"
type_synonym u16 = "16 word"
type_synonym u32 = "32 word"

section \<open>Byte memories\<close>

text \<open>A memory maps an address to the byte stored there.\<close>

type_synonym bytes = "u8 list"
type_synonym memory = "nat \<Rightarrow> u8"

definition mread :: "memory \<Rightarrow> nat \<Rightarrow> nat \<Rightarrow> bytes" where
  "mread m a n = map (\<lambda>i. m (a + i)) [0..<n]"

definition mwrite :: "memory \<Rightarrow> nat \<Rightarrow> bytes \<Rightarrow> memory" where
  "mwrite m a bs = (\<lambda>x. if a \<le> x \<and> x < a + length bs then bs ! (x - a) else m x)"

definition mfill :: "memory \<Rightarrow> nat \<Rightarrow> nat \<Rightarrow> u8 \<Rightarrow> memory" where
  "mfill m a n b = (\<lambda>x. if a \<le> x \<and> x < a + n then b else m x)"

lemma length_mread [simp]: "length (mread m a n) = n"
  by (simp add: mread_def)

lemma nth_mread [simp]: "i < n \<Longrightarrow> mread m a n ! i = m (a + i)"
  by (simp add: mread_def)

lemma mread_0 [simp]: "mread m a 0 = []"
  by (simp add: mread_def)

lemma mread_cong: "(\<And>i. i < n \<Longrightarrow> m (a + i) = m' (a + i)) \<Longrightarrow> mread m a n = mread m' a n"
  by (simp add: mread_def)

lemma mread_eqI:
  "length bs = n \<Longrightarrow> (\<And>i. i < n \<Longrightarrow> m (a + i) = bs ! i) \<Longrightarrow> mread m a n = bs"
  by (rule nth_equalityI) simp_all

lemma mread_add: "mread m a (n + k) = mread m a n @ mread m (a + n) k"
proof (rule nth_equalityI)
  fix i assume "i < length (mread m a (n + k))"
  then show "mread m a (n + k) ! i = (mread m a n @ mread m (a + n) k) ! i"
    by (cases "i < n") (simp_all add: nth_append)
qed simp

lemma mwrite_Nil [simp]: "mwrite m a [] = m"
  by (rule ext) (simp add: mwrite_def not_less [symmetric])

lemma mwrite_in [mem_simps]: "i < length bs \<Longrightarrow> mwrite m a bs (a + i) = bs ! i"
  by (simp add: mwrite_def)

lemma mwrite_out [mem_simps]: "x < a \<or> a + length bs \<le> x \<Longrightarrow> mwrite m a bs x = m x"
  by (auto simp: mwrite_def)

lemma mread_mwrite_same [mem_simps]: "length bs = n \<Longrightarrow> mread (mwrite m a bs) a n = bs"
  by (rule mread_eqI) (auto simp: mem_simps)

lemma mread_mwrite_disjoint [mem_simps]:
  "b + n \<le> a \<or> a + length bs \<le> b \<Longrightarrow> mread (mwrite m a bs) b n = mread m b n"
  by (rule mread_cong) (auto simp: mwrite_def)

lemma mwrite_append: "mwrite m a (bs @ cs) = mwrite (mwrite m a bs) (a + length bs) cs"
  by (rule ext) (auto simp: mwrite_def nth_append)

lemma mread_mfill_disjoint [mem_simps]:
  "b + n \<le> a \<or> a + k \<le> b \<Longrightarrow> mread (mfill m a k c) b n = mread m b n"
  by (rule mread_cong) (auto simp: mfill_def)

lemma mfill_0 [simp]: "mfill m a 0 b = m"
  by (rule ext) (simp add: mfill_def not_less [symmetric])

lemma mfill_in [mem_simps]: "a \<le> x \<Longrightarrow> x < a + n \<Longrightarrow> mfill m a n b x = b"
  by (simp add: mfill_def)

lemma mfill_out [mem_simps]: "x < a \<or> a + n \<le> x \<Longrightarrow> mfill m a n b x = m x"
  by (auto simp: mfill_def)

section \<open>Buffers\<close>

text \<open>
  \<open>poke buf i xs\<close> is \<open>memcpy(&buf[i], xs, length xs)\<close> into a buffer that is large enough.
\<close>

definition poke :: "'a list \<Rightarrow> nat \<Rightarrow> 'a list \<Rightarrow> 'a list" where
  "poke buf i xs = take i buf @ xs @ drop (i + length xs) buf"

lemma length_poke [simp]: "i + length xs \<le> length buf \<Longrightarrow> length (poke buf i xs) = length buf"
  by (simp add: poke_def)

section \<open>Little-endian layout\<close>

definition le32 :: "u32 \<Rightarrow> bytes" where
  "le32 w = [ucast w, ucast (drop_bit 8 w), ucast (drop_bit 16 w), ucast (drop_bit 24 w)]"

definition of_le32 :: "bytes \<Rightarrow> u32" where
  "of_le32 bs = ucast (bs ! 0) OR push_bit 8 (ucast (bs ! 1)) OR push_bit 16 (ucast (bs ! 2))
      OR push_bit 24 (ucast (bs ! 3))"

lemma length_le32 [simp]: "length (le32 w) = 4"
  by (simp add: le32_def)

lemma not_bit_u8: "8 \<le> n \<Longrightarrow> \<not> bit (w :: u8) n"
  using bit_imp_le_length [of w n] by auto

lemma of_le32_le32 [simp]: "of_le32 (le32 w) = w"
proof (rule bit_word_eqI)
  fix n assume "n < LENGTH(32)"
  then show "bit (of_le32 (le32 w)) n = bit w n"
    by (cases "n < 8"; cases "n < 16"; cases "n < 24") (auto simp: of_le32_def le32_def bit_simps)
qed

lemma le32_of_le32:
  assumes "length bs = 4"
  shows "le32 (of_le32 bs) = bs"
proof -
  from assms obtain a b c d where bs: "bs = [a, b, c, d]"
    by (auto simp: numeral_eq_Suc length_Suc_conv)
  show ?thesis
    unfolding bs of_le32_def le32_def
    by (auto simp: bit_simps not_bit_u8 intro!: bit_word_eqI)
qed

section \<open>Words and lists\<close>

lemma unat_u32_lt [c_arith]: "unat (w :: u32) < 4294967296"
  using unsigned_less [of w] by simp

lemma unat_u8_lt [c_arith]: "unat (w :: u8) < 256"
  using unsigned_less [of w] by simp

lemma unat_add_no_wrap: "unat (a :: u32) + unat b < 4294967296 \<Longrightarrow> unat (a + b) = unat a + unat b"
  by (subst unat_add_lem [THEN iffD1]) simp_all

lemma unat_ucast_u8_u32 [simp]: "unat (ucast (x :: u8) :: u32) = unat x"
  using unat_u8_lt [of x] by (simp add: unsigned_ucast_eq take_bit_nat_eq_self)

lemma unat_of_nat_u32: "n < 4294967296 \<Longrightarrow> unat (of_nat n :: u32) = n"
  by (simp add: unat_of_nat)

lemma unat_add_of_nat: "unat (a :: u32) + k < 4294967296 \<Longrightarrow> unat (a + of_nat k) = unat a + k"
  by (subst unat_add_no_wrap) (simp_all add: unat_of_nat_u32)

lemma word32_eq_iff_unat: "(a :: u32) = b \<longleftrightarrow> unat a = unat b"
  by (simp add: word_unat_eq_iff)

text \<open>Masking and shifting, read as division and remainder.\<close>

lemma and_high: "(w :: u32) AND NOT (mask n) = push_bit n (drop_bit n w)"
  by (rule bit_word_eqI) (auto simp: bit_simps)

lemma unat_and_mask: "unat ((w :: u32) AND mask n) = unat w mod 2 ^ n"
  unfolding take_bit_eq_mask [symmetric] unsigned_take_bit_eq by (rule take_bit_eq_mod)

lemma unat_drop: "unat (drop_bit n (w :: u32)) = unat w div 2 ^ n"
  unfolding unat_drop_bit_eq by (rule drop_bit_eq_div)

lemma unat_and_high: "unat ((w :: u32) AND NOT (mask n)) = unat w div 2 ^ n * 2 ^ n"
proof -
  have "unat w div 2 ^ n * 2 ^ n \<le> unat w" by simp
  then have "unat w div 2 ^ n * 2 ^ n < 4294967296" using unat_u32_lt [of w] by (rule le_less_trans)
  then show ?thesis
    unfolding and_high unsigned_push_bit_eq unat_drop_bit_eq by (simp add: take_bit_nat_eq_self push_bit_eq_mult drop_bit_eq_div)
qed

lemma take_append_drop_chunk: "take n xs @ take k (drop n xs) = take (n + k) xs"
  by (simp add: take_add)

end
