(* ===== verification/Key.thy ===== *)
theory Key
  imports Prelude
begin

text \<open>
  The rotary switch, the handle switches and the off position (\<open>app_key.c\<close>). Every 5 ms the task
  scans the pins and derives the mode flags. A pin may change between the two reads of a scan, so a
  scan takes both values of every pin as its input. The theory shows what the debouncing promises: a
  flag is set exactly when the last 30 scans found the contact closed, and that the mode flags are
  mutually exclusive.
\<close>

section \<open>State\<close>

record TKeyInfoDef =
  Suction_Key_Flag :: u8
  Brush_Key_Flag :: u8
  All_Key_Flag :: u8
  Off_Key_Flag :: u8
  Hand_Key_FLag :: u8
  Work_Status :: u8

record TKey_CountInfoDef =
  B3_Count :: u8
  A1_Count :: u8
  A2_Count :: u8
  Hand_Count :: u8
  B3_Flag :: u8
  A1_Flag :: u8
  A2_Flag :: u8
  Hand_Flag :: u8
  Off_Flag :: u8

abbreviation (input) OFF_MODE :: u8 where "OFF_MODE \<equiv> 0"
abbreviation (input) ALL_MODE :: u8 where "ALL_MODE \<equiv> 1"
abbreviation (input) BRUSH_MODE :: u8 where "BRUSH_MODE \<equiv> 2"
abbreviation (input) SUCTION_MODE :: u8 where "SUCTION_MODE \<equiv> 3"

record keys =
  Key_tInfo :: TKeyInfoDef
  Key_tCount :: TKey_CountInfoDef

definition key_init :: keys where
  "key_init = \<lparr>Key_tInfo = \<lparr>Suction_Key_Flag = 0, Brush_Key_Flag = 0, All_Key_Flag = 0, Off_Key_Flag = 0,
      Hand_Key_FLag = 0, Work_Status = 0\<rparr>,
     Key_tCount = \<lparr>B3_Count = 0, A1_Count = 0, A2_Count = 0, Hand_Count = 0, B3_Flag = 0, A1_Flag = 0,
      A2_Flag = 0, Hand_Flag = 0, Off_Flag = 0\<rparr>\<rparr>"

definition Key_ptGetInfo :: "keys \<Rightarrow> TKeyInfoDef" where
  "Key_ptGetInfo k = Key_tInfo k"

text \<open>
  What one scan reads: two reads of each pin (true is \<open>Set\<close>, an open contact; \<open>Reset\<close> is a closed
  one), for the handle both pins, and the converter value of the supply.
\<close>

record pins =
  pin_B3 :: "bool \<times> bool"
  pin_A2 :: "bool \<times> bool"
  pin_A1 :: "bool \<times> bool"
  pin_hand1 :: "bool \<times> bool"
  pin_hand2 :: "bool \<times> bool"
  off_value :: u32

section \<open>Scanning\<close>

text \<open>One contact: the counter, the flag and the two reads.\<close>

definition debounce :: "bool \<times> bool \<Rightarrow> u8 \<times> u8 \<Rightarrow> u8 \<times> u8" where
  "debounce r cf = (case cf of (count, flag) \<Rightarrow>
     if \<not> fst r then (count + 1, if count + 1 \<ge> 30 then 1 else flag)
     else if snd r then (0, 0)
     else (count, flag))"

definition Key_Scan :: "pins \<Rightarrow> keys \<Rightarrow> keys" where
  "Key_Scan p k =
     (let c = Key_tCount k;
        b3 = debounce (pin_B3 p) (B3_Count c, B3_Flag c);
        a2 = debounce (pin_A2 p) (A2_Count c, A2_Flag c);
        a1 = debounce (pin_A1 p) (A1_Count c, A1_Flag c);
        hand = debounce (fst (pin_hand1 p) \<and> fst (pin_hand2 p), snd (pin_hand1 p) \<and> snd (pin_hand2 p))
          (Hand_Count c, Hand_Flag c);
        off = (if off_value p < 500 then 1 else if off_value p > 500 then 0 else Off_Flag c)
      in k\<lparr>Key_tCount := \<lparr>B3_Count = fst b3, A1_Count = fst a1, A2_Count = fst a2, Hand_Count = fst hand,
          B3_Flag = snd b3, A1_Flag = snd a1, A2_Flag = snd a2, Hand_Flag = snd hand, Off_Flag = off\<rparr>\<rparr>)"

definition Key_Output :: "keys \<Rightarrow> keys" where
  "Key_Output k =
     (let c = Key_tCount k;
        i = (Key_tInfo k)\<lparr>Hand_Key_FLag := (if Hand_Flag c = 1 then 1 else 0)\<rparr>;
        i = i\<lparr>Off_Key_Flag := (if Off_Flag c = 1 then 1 else 0)\<rparr>;
        i = (if Off_Key_Flag i = 1 then
            i\<lparr>All_Key_Flag := 0, Suction_Key_Flag := 0, Brush_Key_Flag := 0, Work_Status := OFF_MODE\<rparr>
          else if B3_Flag c = 1 \<and> A1_Flag c = 0 \<and> A2_Flag c = 0 \<and> Off_Key_Flag i = 0 then
            i\<lparr>All_Key_Flag := 1, Suction_Key_Flag := 0, Brush_Key_Flag := 0, Work_Status := ALL_MODE\<rparr>
          else if B3_Flag c = 1 \<and> A1_Flag c = 0 \<and> A2_Flag c = 1 \<and> Off_Key_Flag i = 0 then
            i\<lparr>All_Key_Flag := 0, Suction_Key_Flag := 0, Brush_Key_Flag := 1, Work_Status := BRUSH_MODE\<rparr>
          else if B3_Flag c = 1 \<and> A1_Flag c = 1 \<and> A2_Flag c = 1 \<and> Off_Key_Flag i = 0 then
            i\<lparr>All_Key_Flag := 0, Suction_Key_Flag := 1, Brush_Key_Flag := 0, Work_Status := SUCTION_MODE\<rparr>
          else i)
      in k\<lparr>Key_tInfo := i\<rparr>)"

text \<open>One round of \<open>Key_vTaskHandler_entry\<close>.\<close>

definition Key_vTaskHandler_entry :: "pins \<Rightarrow> keys \<Rightarrow> keys" where
  "Key_vTaskHandler_entry p k = Key_Output (Key_Scan p k)"

section \<open>Debouncing\<close>

text \<open>
  The abstract contract of a debounced contact, over all its reads since power-on: how many scans
  found it closed since the last scan that found it open twice.
\<close>

definition closed_scans :: "(bool \<times> bool) list \<Rightarrow> nat" where
  "closed_scans rs = length (filter (\<lambda>r. \<not> fst r) (takeWhile (\<lambda>r. \<not> (fst r \<and> snd r)) (rev rs)))"

definition pressed :: "(bool \<times> bool) list \<Rightarrow> bool" where
  "pressed rs \<longleftrightarrow> 30 \<le> closed_scans rs"

lemma closed_scans_snoc:
  "closed_scans (rs @ [r]) = (if fst r \<and> snd r then 0 else if fst r then closed_scans rs else Suc (closed_scans rs))"
  by (simp add: closed_scans_def)

lemma unat_of_nat_u8: "unat (of_nat n :: u8) = n mod 256"
  by (simp add: unat_of_nat)

text \<open>The 8-bit counter wraps around while the contact stays closed; the flag does not follow it.\<close>

lemma debounce_fold:
  "fold debounce rs (0, 0) = (of_nat (closed_scans rs), if pressed rs then 1 else 0)"
proof (induction rs rule: rev_induct)
  case Nil
  then show ?case by (simp add: closed_scans_def pressed_def)
next
  case (snoc r rs)
  let ?n = "closed_scans rs"
  have "(30 :: u8) \<le> of_nat ?n + 1 \<longleftrightarrow> 30 \<le> Suc ?n mod 256"
  proof -
    have u: "unat (30 :: u8) = 30" by simp
    show ?thesis unfolding word_le_nat_alt u using unat_of_nat_u8 [of "Suc ?n"] by (simp add: add.commute)
  qed
  moreover have "30 \<le> Suc ?n mod 256 \<or> 30 \<le> ?n \<longleftrightarrow> 30 \<le> Suc ?n"
    by (cases "?n < 255") (auto dest: order_trans [OF _ mod_less_eq_dividend])
  ultimately show ?case
    using snoc by (auto simp: debounce_def closed_scans_snoc pressed_def)
qed

text \<open>Each counter and its flag are the debounced reads of their contact.\<close>

definition hand_reads :: "pins \<Rightarrow> bool \<times> bool" where
  "hand_reads p = (fst (pin_hand1 p) \<and> fst (pin_hand2 p), snd (pin_hand1 p) \<and> snd (pin_hand2 p))"

abbreviation key_run :: "pins list \<Rightarrow> keys" where
  "key_run ps \<equiv> fold Key_vTaskHandler_entry ps key_init"

lemma key_counts_step:
  "Key_tCount (Key_vTaskHandler_entry p k) = Key_tCount (Key_Scan p k)"
  by (simp add: Key_vTaskHandler_entry_def Key_Output_def Let_def)

lemma key_counts:
  defines "b \<equiv> \<lambda>ps f. fold debounce (map f ps) (0, 0)"
  shows "(B3_Count (Key_tCount (key_run ps)), B3_Flag (Key_tCount (key_run ps))) = b ps pin_B3"
    "(A2_Count (Key_tCount (key_run ps)), A2_Flag (Key_tCount (key_run ps))) = b ps pin_A2"
    "(A1_Count (Key_tCount (key_run ps)), A1_Flag (Key_tCount (key_run ps))) = b ps pin_A1"
    "(Hand_Count (Key_tCount (key_run ps)), Hand_Flag (Key_tCount (key_run ps))) = b ps hand_reads"
  unfolding b_def
  by (induction ps rule: rev_induct)
    (simp_all add: key_counts_step Key_Scan_def Let_def key_init_def hand_reads_def)

lemma key_flags:
  "B3_Flag (Key_tCount (key_run ps)) = (if pressed (map pin_B3 ps) then 1 else 0)"
  "A2_Flag (Key_tCount (key_run ps)) = (if pressed (map pin_A2 ps) then 1 else 0)"
  "A1_Flag (Key_tCount (key_run ps)) = (if pressed (map pin_A1 ps) then 1 else 0)"
  "Hand_Flag (Key_tCount (key_run ps)) = (if pressed (map hand_reads ps) then 1 else 0)"
  using key_counts [of ps] by (simp_all add: debounce_fold)

section \<open>Modes\<close>

definition mode_flags :: "keys \<Rightarrow> u8 \<times> u8 \<times> u8 \<times> u8" where
  "mode_flags k = (let i = Key_tInfo k
     in (Work_Status i, All_Key_Flag i, Brush_Key_Flag i, Suction_Key_Flag i))"

text \<open>
  The off position as a function of the history of the pins, the latest scan first. The code compares the
  converter value with 500 twice, strictly both times, so a scan that reads exactly 500 decides nothing:
  the last scan that read something else does, and before the first one the machine counts as on.
\<close>

fun off_spec :: "pins list \<Rightarrow> bool" where
  "off_spec [] = False"
| "off_spec (p # past) = (if off_value p = 500 then off_spec past else off_value p < 500)"

text \<open>
  The mode as a function of the history: off in the off position; otherwise the three positions of the
  switch that the contacts encode; otherwise the mode before.
\<close>

fun mode_spec :: "pins list \<Rightarrow> u8 \<times> u8 \<times> u8 \<times> u8" where
  "mode_spec [] = (0, 0, 0, 0)"
| "mode_spec (p # past) =
     (let closed = (\<lambda>f. pressed (map f (rev (p # past)))) in
      if off_spec (p # past) then (OFF_MODE, 0, 0, 0)
      else if closed pin_B3 \<and> \<not> closed pin_A1 \<and> \<not> closed pin_A2 then (ALL_MODE, 1, 0, 0)
      else if closed pin_B3 \<and> \<not> closed pin_A1 \<and> closed pin_A2 then (BRUSH_MODE, 0, 1, 0)
      else if closed pin_B3 \<and> closed pin_A1 \<and> closed pin_A2 then (SUCTION_MODE, 0, 0, 1)
      else mode_spec past)"

lemma key_off_flag:
  "Off_Flag (Key_tCount (key_run ps)) = (if off_spec (rev ps) then 1 else 0)"
  by (induction ps rule: rev_induct)
    (auto simp: key_counts_step Key_Scan_def Let_def key_init_def)

lemma key_outputs:
  "Off_Key_Flag (Key_tInfo (Key_Output k)) = (if Off_Flag (Key_tCount k) = 1 then 1 else 0)"
  "Hand_Key_FLag (Key_tInfo (Key_Output k)) = (if Hand_Flag (Key_tCount k) = 1 then 1 else 0)"
  by (simp_all add: Key_Output_def Let_def)

lemma mode_flags_output:
  "mode_flags (Key_Output k) =
     (let c = Key_tCount k in
      if Off_Flag c = 1 then (OFF_MODE, 0, 0, 0)
      else if B3_Flag c = 1 \<and> A1_Flag c = 0 \<and> A2_Flag c = 0 then (ALL_MODE, 1, 0, 0)
      else if B3_Flag c = 1 \<and> A1_Flag c = 0 \<and> A2_Flag c = 1 then (BRUSH_MODE, 0, 1, 0)
      else if B3_Flag c = 1 \<and> A1_Flag c = 1 \<and> A2_Flag c = 1 then (SUCTION_MODE, 0, 0, 1)
      else mode_flags k)"
  by (simp add: mode_flags_def Key_Output_def Let_def)

text \<open>
  C29. The flags of the machine are what its operator selected, debounced: after any sequence of scans, with
  bouncing contacts between and within them and any values of the converter, the mode flags, the off flag and
  the handle flag are those of the specification. A contact counts as closed exactly when 30 scans found it
  closed since the last scan that read it open twice; the off position is below 500 counts in the last scan
  that did not read exactly 500, and it wins at once; a combination the switch does not have keeps the mode
  before. The 8-bit counters wrap without effect.
\<close>

theorem key_mode_debounced:
  "mode_flags (key_run ps) = mode_spec (rev ps) \<and>
   Off_Key_Flag (Key_ptGetInfo (key_run ps)) = (if off_spec (rev ps) then 1 else 0) \<and>
   Hand_Key_FLag (Key_ptGetInfo (key_run ps)) = (if pressed (map hand_reads ps) then 1 else 0)"
proof (induction ps rule: rev_induct)
  case Nil
  then show ?case by (simp add: mode_flags_def key_init_def Key_ptGetInfo_def pressed_def closed_scans_def)
next
  case (snoc p ps)
  let ?s = "Key_Scan p (key_run ps)"
  have run: "key_run (ps @ [p]) = Key_Output ?s" by (simp add: Key_vTaskHandler_entry_def)
  have c: "Key_tCount (key_run (ps @ [p])) = Key_tCount ?s" by (simp add: key_counts_step)
  note f = key_off_flag [of "ps @ [p]", unfolded c] and g = key_flags [of "ps @ [p]", unfolded c]
  have i: "mode_flags ?s = mode_spec (rev ps)"
    using snoc by (simp add: Key_Scan_def Let_def mode_flags_def)
  have "mode_flags (key_run (ps @ [p])) = mode_spec (rev (ps @ [p]))"
    unfolding run mode_flags_output Let_def f i g by simp
  then show ?case unfolding run Key_ptGetInfo_def key_outputs f g by simp
qed

end
