(* ===== verification/SwTimer.thy ===== *)
theory SwTimer
  imports Prelude
begin

text \<open>
  The software timers. Both programs keep an array \<open>TMR_ulTimer\<close> of 32-bit countdown counters,
  one per entry of the enum \<open>TSWTimerIndex\<close>: the application (applications/main.c) lets a 100 ms
  RT-Thread timer count them down, the bootloader (source/sw_timer.c) the zero-match interrupt of
  Timer4. The locale \<open>countdown\<close> states what every client relies on; it is interpreted on both
  implementations.
\<close>

section \<open>The interface\<close>

locale countdown =
  fixes tick :: "'t \<Rightarrow> 't"
    and set_time :: "'t \<Rightarrow> 'i \<Rightarrow> u32 \<Rightarrow> 't"
    and expired :: "'t \<Rightarrow> 'i \<Rightarrow> bool"
    and counter :: "'t \<Rightarrow> 'i \<Rightarrow> u32"
    and wf :: "'t \<Rightarrow> bool"
  assumes wf_tick: "wf t \<Longrightarrow> wf (tick t)"
    and wf_set: "wf t \<Longrightarrow> wf (set_time t i v)"
    and counter_tick: "wf t \<Longrightarrow> counter (tick t) i = (if counter t i = 0 then 0 else counter t i - 1)"
    and counter_set: "wf t \<Longrightarrow> counter (set_time t i v) j = (if j = i then v else counter t j)"
    and expired_counter: "wf t \<Longrightarrow> expired t i \<longleftrightarrow> counter t i = 0"
begin

lemma wf_ticks: "wf t \<Longrightarrow> wf ((tick ^^ n) t)"
  by (induction n) (simp_all add: wf_tick)

lemma unat_counter_ticks: "wf t \<Longrightarrow> unat (counter ((tick ^^ n) t) i) = unat (counter t i) - n"
proof (induction n)
  case (Suc n)
  then have "unat (counter ((tick ^^ Suc n) t) i) = unat (counter ((tick ^^ n) t) i) - 1"
    by (cases "counter ((tick ^^ n) t) i = 0") (simp_all add: counter_tick wf_ticks unat_minus_one)
  with Suc show ?case by simp
qed simp

lemma expired_iff: "wf t \<Longrightarrow> expired ((tick ^^ n) t) i \<longleftrightarrow> unat (counter t i) \<le> n"
  using unat_counter_ticks [of t n i] by (simp add: expired_counter wf_ticks unat_eq_zero [symmetric])

lemma expires_exactly: "wf t \<Longrightarrow> expired ((tick ^^ n) (set_time t i v)) i \<longleftrightarrow> unat v \<le> n"
  by (simp add: expired_iff wf_set counter_set)

lemma set_other: "wf t \<Longrightarrow> j \<noteq> i \<Longrightarrow> expired (set_time t i v) j \<longleftrightarrow> expired t j"
  by (simp add: expired_counter wf_set counter_set)

lemma stays_expired: "wf t \<Longrightarrow> expired t i \<Longrightarrow> expired ((tick ^^ n) t) i"
  by (simp add: expired_iff) (simp add: expired_counter)

end

section \<open>The application's timers\<close>

datatype TSWTimerIndex =
    TMR_BULE_LED | TMR_RED_LED | TMR_DISPLAY_START_VERSION | TMR_DISPLAY_START_LOGO
  | TMR_DISPLAY_WIFI | TMR_SYS_CLOSE_DELAY | TMR_SYS_USART_SEND | TMR_DISPLAY_ERROR | TMR_RGB_PWM

definition TMR_NUM :: nat where
  "TMR_NUM = 9"

primrec tmr_ix :: "TSWTimerIndex \<Rightarrow> nat" where
  "tmr_ix TMR_BULE_LED = 0"
| "tmr_ix TMR_RED_LED = 1"
| "tmr_ix TMR_DISPLAY_START_VERSION = 2"
| "tmr_ix TMR_DISPLAY_START_LOGO = 3"
| "tmr_ix TMR_DISPLAY_WIFI = 4"
| "tmr_ix TMR_SYS_CLOSE_DELAY = 5"
| "tmr_ix TMR_SYS_USART_SEND = 6"
| "tmr_ix TMR_DISPLAY_ERROR = 7"
| "tmr_ix TMR_RGB_PWM = 8"

lemma tmr_ix_less [simp]: "tmr_ix i < TMR_NUM"
  by (cases i) (simp_all add: TMR_NUM_def)

lemma tmr_ix_inj [simp]: "tmr_ix i = tmr_ix j \<longleftrightarrow> i = j"
  by (cases i; cases j) simp_all

type_synonym timers = "u32 list"

text \<open>
  The array is a list; the loop of \<open>TMR_vTickUpdate\<close> runs over the indices from \<open>i\<close> upwards and
  decrements the counters that are not zero. Both programs share the loop's text; they differ in
  the number of timers.
\<close>

function tick_loop :: "nat \<Rightarrow> nat \<Rightarrow> timers \<Rightarrow> timers" where
  "tick_loop n i ts =
     (if i < n
      then tick_loop n (i + 1) (if ts ! i \<noteq> 0 then ts[i := ts ! i - 1] else ts)
      else ts)"
  by pat_completeness auto
termination
  by (relation "measure (\<lambda>(n, i, ts). n - i)") auto

declare tick_loop.simps [simp del]

lemma length_tick_loop [simp]: "length (tick_loop n i ts) = length ts"
  by (induction n i ts rule: tick_loop.induct) (subst tick_loop.simps, simp)

lemma nth_tick_loop:
  "n \<le> length ts \<Longrightarrow> j < length ts \<Longrightarrow>
   tick_loop n i ts ! j = (if i \<le> j \<and> j < n \<and> ts ! j \<noteq> 0 then ts ! j - 1 else ts ! j)"
proof (induction n i ts rule: tick_loop.induct)
  case (1 n i ts)
  show ?case
  proof (cases "i < n")
    case True
    with 1 show ?thesis
      by (subst tick_loop.simps) (auto simp: nth_list_update)
  next
    case False
    then show ?thesis by (subst tick_loop.simps) auto
  qed
qed

definition TMR_vTickUpdate :: "timers \<Rightarrow> timers" where
  "TMR_vTickUpdate ts = tick_loop TMR_NUM 0 ts"

definition TMR_bIsTimeExpired :: "timers \<Rightarrow> TSWTimerIndex \<Rightarrow> bool" where
  "TMR_bIsTimeExpired ts i \<longleftrightarrow> ts ! tmr_ix i = 0"

definition TMR_vSetTime_100msValue :: "timers \<Rightarrow> TSWTimerIndex \<Rightarrow> u32 \<Rightarrow> timers" where
  "TMR_vSetTime_100msValue ts i v = ts[tmr_ix i := v]"

definition timers_init :: timers where
  "timers_init = replicate TMR_NUM 0"

definition timers_wf :: "timers \<Rightarrow> bool" where
  "timers_wf ts \<longleftrightarrow> length ts = TMR_NUM"

interpretation app_tmr: countdown TMR_vTickUpdate TMR_vSetTime_100msValue TMR_bIsTimeExpired
  "\<lambda>ts i. ts ! tmr_ix i" timers_wf
  by unfold_locales
    (auto simp: timers_wf_def TMR_vTickUpdate_def TMR_vSetTime_100msValue_def
      TMR_bIsTimeExpired_def nth_tick_loop nth_list_update)

section \<open>The bootloader's timers\<close>

datatype boot_TSWTimerIndex =
    TMR_SW_WATCH_DOG | TMR_CAN_TX_TIMEOUT | TMR_IAP_POLLING | TMR_FOTA_POLLING
  | TMR_YMODEM_POLLING | TMR_TEST

definition boot_TMR_NUM :: nat where
  "boot_TMR_NUM = 6"

primrec boot_tmr_ix :: "boot_TSWTimerIndex \<Rightarrow> nat" where
  "boot_tmr_ix TMR_SW_WATCH_DOG = 0"
| "boot_tmr_ix TMR_CAN_TX_TIMEOUT = 1"
| "boot_tmr_ix TMR_IAP_POLLING = 2"
| "boot_tmr_ix TMR_FOTA_POLLING = 3"
| "boot_tmr_ix TMR_YMODEM_POLLING = 4"
| "boot_tmr_ix TMR_TEST = 5"

lemma boot_tmr_ix_less [simp]: "boot_tmr_ix i < boot_TMR_NUM"
  by (cases i) (simp_all add: boot_TMR_NUM_def)

lemma boot_tmr_ix_inj [simp]: "boot_tmr_ix i = boot_tmr_ix j \<longleftrightarrow> i = j"
  by (cases i; cases j) simp_all

text \<open>The time base is 100 us, so a millisecond is ten ticks.\<close>

definition TMR_TIME_MS2TICKS :: "u32 \<Rightarrow> u32" where
  "TMR_TIME_MS2TICKS x = x * (1000 div 100)"

definition TMR_TIME_SEC2TICKS :: "u32 \<Rightarrow> u32" where
  "TMR_TIME_SEC2TICKS x = x * (1000000 div 100)"

definition boot_TMR_vTickUpdate :: "timers \<Rightarrow> timers" where
  "boot_TMR_vTickUpdate ts = tick_loop boot_TMR_NUM 0 ts"

definition boot_TMR_bIsTimeExpired :: "timers \<Rightarrow> boot_TSWTimerIndex \<Rightarrow> bool" where
  "boot_TMR_bIsTimeExpired ts i \<longleftrightarrow> ts ! boot_tmr_ix i = 0"

definition boot_TMR_vSetTime :: "timers \<Rightarrow> boot_TSWTimerIndex \<Rightarrow> u32 \<Rightarrow> timers" where
  "boot_TMR_vSetTime ts i v = ts[boot_tmr_ix i := v]"

definition boot_TMR_ulGetTimerValue :: "timers \<Rightarrow> boot_TSWTimerIndex \<Rightarrow> u32" where
  "boot_TMR_ulGetTimerValue ts i = ts ! boot_tmr_ix i"

definition boot_timers_wf :: "timers \<Rightarrow> bool" where
  "boot_timers_wf ts \<longleftrightarrow> length ts = boot_TMR_NUM"

interpretation boot_tmr: countdown boot_TMR_vTickUpdate boot_TMR_vSetTime boot_TMR_bIsTimeExpired
  boot_TMR_ulGetTimerValue boot_timers_wf
  by unfold_locales
    (auto simp: boot_timers_wf_def boot_TMR_vTickUpdate_def boot_TMR_vSetTime_def
      boot_TMR_bIsTimeExpired_def boot_TMR_ulGetTimerValue_def nth_tick_loop nth_list_update)

end
