(* ===== verification/Clock.thy ===== *)
theory Clock
  imports SwTimer
begin

text \<open>
  The operating-hours clock of applications/main.c: the record \<open>TtimeInfo\<close>, the two RT-Thread
  timer callbacks that advance it, and the getters and setters the flash log uses (they sit in
  applications/app_display.c). The abstract clock is one number, the seconds of operation.
\<close>

record TtimeInfo =
  systick_100ms :: u32
  systick_s :: u32
  systick_min :: u32
  systick_hrs :: u32
  IOT_systick_min :: u32

definition time_init :: TtimeInfo where
  "time_init = \<lparr>systick_100ms = 0, systick_s = 0, systick_min = 0, systick_hrs = 0, IOT_systick_min = 0\<rparr>"

definition Main_IotTime_Read :: "TtimeInfo \<Rightarrow> TtimeInfo" where
  "Main_IotTime_Read t = t\<lparr>IOT_systick_min := systick_hrs t * 60 + systick_min t\<rparr>"

definition one_msecond_timeout :: "TtimeInfo \<Rightarrow> TtimeInfo" where
  "one_msecond_timeout t =
    (let t = t\<lparr>systick_s := systick_s t + 1\<rparr>;
         t = t\<lparr>IOT_systick_min := systick_hrs t * 60 + systick_min t\<rparr>
     in if systick_s t mod 60 = 0
        then let t = t\<lparr>systick_s := 0\<rparr>;
                 t = t\<lparr>systick_min := systick_min t + 1\<rparr>
             in if systick_min t mod 60 = 0
                then let t = t\<lparr>systick_min := 0\<rparr>;
                         t = t\<lparr>systick_hrs := systick_hrs t + 1\<rparr>
                     in if systick_hrs t = 10000000
                        then t\<lparr>systick_hrs := 0, IOT_systick_min := 0, systick_min := 0\<rparr>
                        else t
                else t
        else t)"

definition hundreds_millisecond_timeout :: "TtimeInfo \<times> timers \<Rightarrow> TtimeInfo \<times> timers" where
  "hundreds_millisecond_timeout = (\<lambda>(t, ts).
     let ts = TMR_vTickUpdate ts;
         t = t\<lparr>systick_100ms := systick_100ms t + 1\<rparr>;
         t = (if systick_100ms t \<ge> 10 then t\<lparr>systick_100ms := 0\<rparr> else t)
     in (t, ts))"

definition APP_Display_read_hrs_time :: "u32 \<Rightarrow> TtimeInfo \<Rightarrow> TtimeInfo" where
  "APP_Display_read_hrs_time d t = t\<lparr>systick_hrs := d\<rparr>"

definition APP_Display_read_min_time :: "u32 \<Rightarrow> TtimeInfo \<Rightarrow> TtimeInfo" where
  "APP_Display_read_min_time d t = t\<lparr>systick_min := d\<rparr>"

definition APP_Display_save_hrs_time :: "TtimeInfo \<Rightarrow> u32" where
  "APP_Display_save_hrs_time t = systick_hrs t"

definition APP_Display_save_min_time :: "TtimeInfo \<Rightarrow> u32" where
  "APP_Display_save_min_time t = systick_min t"

section \<open>Well-formed clocks and the abstract clock\<close>

definition clock_wf :: "TtimeInfo \<Rightarrow> bool" where
  "clock_wf t \<longleftrightarrow> systick_s t < 60 \<and> systick_min t < 60 \<and> systick_hrs t < 10000000 \<and> systick_100ms t < 10"

definition op_seconds :: "TtimeInfo \<Rightarrow> nat" where
  "op_seconds t = unat (systick_hrs t) * 3600 + unat (systick_min t) * 60 + unat (systick_s t)"

lemma unat_Suc_small: "unat (w :: u32) < k \<Longrightarrow> k < 4294967296 \<Longrightarrow> unat (w + 1) = Suc (unat w)"
  by (simp add: unat_add_no_wrap)

lemma mod60_Suc_iff:
  assumes "(w :: u32) < 60"
  shows "(w + 1) mod 60 = 0 \<longleftrightarrow> unat w = 59"
proof -
  from assms have "unat w < 60" by (simp add: word_less_nat_alt)
  then show ?thesis
    by (simp add: word32_eq_iff_unat unat_mod unat_Suc_small [of w 60])
      (presburger)
qed

lemmas clock_words = word_less_nat_alt word32_eq_iff_unat unat_Suc_small

lemma one_msecond_timeout_cases:
  assumes "clock_wf t"
  shows "(systick_s (one_msecond_timeout t), systick_min (one_msecond_timeout t),
          systick_hrs (one_msecond_timeout t)) =
    (if unat (systick_s t) < 59 then (systick_s t + 1, systick_min t, systick_hrs t)
     else if unat (systick_min t) < 59 then (0, systick_min t + 1, systick_hrs t)
     else if unat (systick_hrs t) < 9999999 then (0, 0, systick_hrs t + 1)
     else (0, 0, 0))"
proof -
  from assms have s: "systick_s t < 60" and m: "systick_min t < 60" and h: "systick_hrs t < 10000000"
    by (auto simp: clock_wf_def)
  have hrs: "systick_hrs t = 9999999 \<longleftrightarrow> unat (systick_hrs t) = 9999999"
    by (simp add: word32_eq_iff_unat)
  show ?thesis
    using s m h
    by (auto simp: one_msecond_timeout_def Let_def mod60_Suc_iff hrs word_less_nat_alt)
qed

text \<open>Seconds within a minute, and the one that completes it.\<close>

lemma seconds_within_minute:
  assumes "systick_s t = 0" "n < 60"
  shows "unat (systick_s ((one_msecond_timeout ^^ n) t)) = n"
    "systick_min ((one_msecond_timeout ^^ n) t) = systick_min t"
proof -
  have "unat (systick_s ((one_msecond_timeout ^^ n) t)) = n \<and> systick_min ((one_msecond_timeout ^^ n) t) = systick_min t"
    using assms(2)
  proof (induction n)
    case (Suc n)
    let ?t = "(one_msecond_timeout ^^ n) t"
    have s: "unat (systick_s ?t) = n" "systick_min ?t = systick_min t" using Suc by simp_all
    then have "systick_s ?t < 60" using Suc.prems by (simp add: word_less_nat_alt)
    then have "(systick_s ?t + 1) mod 60 \<noteq> 0" using s(1) Suc.prems by (simp add: mod60_Suc_iff)
    then have "one_msecond_timeout ?t = ?t\<lparr>systick_s := systick_s ?t + 1,
        IOT_systick_min := systick_hrs ?t * 60 + systick_min ?t\<rparr>"
      by (simp add: one_msecond_timeout_def Let_def)
    then show ?case using s Suc.prems unat_Suc_small [of "systick_s ?t" 60] by simp
  qed (simp add: assms(1))
  then show "unat (systick_s ((one_msecond_timeout ^^ n) t)) = n"
    "systick_min ((one_msecond_timeout ^^ n) t) = systick_min t" by simp_all
qed

lemma minute_completes:
  assumes "systick_s t = 0" "unat (systick_min t) < 59"
  shows "systick_min ((one_msecond_timeout ^^ 60) t) = systick_min t + 1"
proof -
  let ?t = "(one_msecond_timeout ^^ 59) t"
  note s = seconds_within_minute [OF assms(1), of 59, simplified]
  have "systick_s ?t < 60" using s(1) by (simp add: word_less_nat_alt)
  then have "(systick_s ?t + 1) mod 60 = 0" using s(1) by (simp add: mod60_Suc_iff)
  moreover have "(systick_min t + 1) mod 60 \<noteq> 0"
    using assms(2) by (subst mod60_Suc_iff) (simp_all add: word_less_nat_alt)
  moreover have "(one_msecond_timeout ^^ 60) t = one_msecond_timeout ?t" using funpow.simps(2) [of 59 one_msecond_timeout] by (simp add: fun_eq_iff)
  ultimately show ?thesis using s(2) by (simp add: one_msecond_timeout_def Let_def)
qed

lemma systick_100ms_one_msecond [simp]:
  "systick_100ms (one_msecond_timeout t) = systick_100ms t"
  by (simp add: one_msecond_timeout_def Let_def)

text \<open>
  The one-second callback of the operating-hours clock implements a counter of seconds
  modulo ten million hours: on a well-formed clock (seconds and minutes below 60, hours below
  the display limit) the seconds, minutes and hours stay well formed and together read one
  second more, and the wrap at 10000000 hours clears all of them.
\<close>

theorem one_msecond_timeout_counts:
  assumes "clock_wf t"
  shows "clock_wf (one_msecond_timeout t) \<and>
         op_seconds (one_msecond_timeout t) = (op_seconds t + 1) mod 36000000000"
proof -
  from assms have s: "unat (systick_s t) < 60" and m: "unat (systick_min t) < 60"
    and h: "unat (systick_hrs t) < 10000000" and d: "systick_100ms t < 10"
    by (auto simp: clock_wf_def word_less_nat_alt)
  note c = one_msecond_timeout_cases [OF assms]
  consider (sec) "unat (systick_s t) < 59"
    | (minute) "unat (systick_s t) = 59" "unat (systick_min t) < 59"
    | (hour) "unat (systick_s t) = 59" "unat (systick_min t) = 59" "unat (systick_hrs t) < 9999999"
    | (wrap) "unat (systick_s t) = 59" "unat (systick_min t) = 59" "unat (systick_hrs t) = 9999999"
    using s m h by linarith
  then show ?thesis
    by cases (use c d s m h in
      \<open>auto simp: clock_wf_def op_seconds_def word_less_nat_alt
        unat_Suc_small [of _ 60] unat_Suc_small [of _ 10000000]\<close>)
qed

theorem one_msecond_timeout_counts_witness:
  "op_seconds (one_msecond_timeout
     \<lparr>systick_100ms = 3, systick_s = 59, systick_min = 59, systick_hrs = 7, IOT_systick_min = 0\<rparr>) = 28800"
  using one_msecond_timeout_counts
    [of "\<lparr>systick_100ms = 3, systick_s = 59, systick_min = 59, systick_hrs = 7, IOT_systick_min = 0\<rparr>"]
  by (simp add: clock_wf_def op_seconds_def)

lemma clock_wf_hundreds:
  "clock_wf t \<Longrightarrow> clock_wf (fst (hundreds_millisecond_timeout (t, ts)))"
  by (auto simp: hundreds_millisecond_timeout_def Let_def clock_wf_def not_le)

end
