(* ===== verification/Iic.thy ===== *)
theory Iic
  imports Prelude
begin

text \<open>
  The bit-banged two-wire bus of the display (\<open>myiic.c\<close>, \<open>pcf8574.c\<close>). Each macro of \<open>myiic.h\<close> sets
  one port bit; the model keeps the two bits, the direction of the data pin and the waveform they
  draw. What the data pin reads is up to the device: it is a parameter, a function of the waveform so
  far and of the number of reads. The bus protocol is stated as a decoder of waveforms, and the theory
  proves that writing a byte draws a waveform from which a listener decodes exactly the device address
  and this byte, for every device that answers.
\<close>

section \<open>Lines\<close>

text \<open>A point of the waveform: the clock and the data line as the master drives them (released is high).\<close>

type_synonym wave = "(bool \<times> bool) list"

record iic =
  sda_oute :: bool
  sda_pout :: bool
  scl_pout :: bool
  wave :: wave
  polls :: nat

text \<open>The level the device gives the data pin at the n-th read.\<close>

type_synonym iic_device = "wave \<Rightarrow> nat \<Rightarrow> bool"

definition sda_level :: "iic \<Rightarrow> bool" where
  "sda_level s \<longleftrightarrow> \<not> sda_oute s \<or> sda_pout s"

definition record_wave :: "iic \<Rightarrow> iic" where
  "record_wave s = s\<lparr>wave := wave s @ [(scl_pout s, sda_level s)]\<rparr>"

definition SDA_IN :: "iic \<Rightarrow> iic" where
  "SDA_IN s = record_wave (s\<lparr>sda_oute := False\<rparr>)"

definition SDA_OUT :: "iic \<Rightarrow> iic" where
  "SDA_OUT s = record_wave (s\<lparr>sda_oute := True\<rparr>)"

definition IIC_SDA :: "bool \<Rightarrow> iic \<Rightarrow> iic" where
  "IIC_SDA n s = record_wave (s\<lparr>sda_pout := n\<rparr>)"

definition IIC_SCL :: "bool \<Rightarrow> iic \<Rightarrow> iic" where
  "IIC_SCL n s = record_wave (s\<lparr>scl_pout := n\<rparr>)"

definition READ_SDA :: "iic_device \<Rightarrow> iic \<Rightarrow> bool \<times> iic" where
  "READ_SDA dev s = (dev (wave s) (polls s), s\<lparr>polls := polls s + 1\<rparr>)"

section \<open>Bus operations\<close>

definition IIC_Init :: "iic \<Rightarrow> iic" where
  "IIC_Init s = (let s = SDA_OUT s; s = IIC_SDA True s in IIC_SCL True s)"

definition IIC_Start :: "iic \<Rightarrow> iic" where
  "IIC_Start s =
     (let s = SDA_OUT s; s = IIC_SDA True s; s = IIC_SCL True s; s = IIC_SDA False s in IIC_SCL False s)"

definition IIC_Stop :: "iic \<Rightarrow> iic" where
  "IIC_Stop s =
     (let s = SDA_OUT s; s = IIC_SCL False s; s = IIC_SDA False s; s = IIC_SCL True s in IIC_SDA True s)"

text \<open>The polling loop of \<open>IIC_Wait_Ack\<close> with its counter \<open>ucErrTime\<close>; true is the return value 1.\<close>

function wait_poll :: "iic_device \<Rightarrow> nat \<Rightarrow> iic \<Rightarrow> bool \<times> iic" where
  "wait_poll dev e s =
     (case READ_SDA dev s of (high, s) \<Rightarrow>
        if high then (if e + 1 > 250 then (True, IIC_Stop s) else wait_poll dev (e + 1) s)
        else (False, IIC_SCL False s))"
  by pat_completeness auto

termination wait_poll
  by (relation "measure (\<lambda>(dev, e, s). 251 - e)") auto

declare wait_poll.simps [simp del]

definition IIC_Wait_Ack :: "iic_device \<Rightarrow> iic \<Rightarrow> bool \<times> iic" where
  "IIC_Wait_Ack dev s = (let s = SDA_IN s; s = IIC_SDA True s; s = IIC_SCL True s in wait_poll dev 0 s)"

definition IIC_Ack :: "iic \<Rightarrow> iic" where
  "IIC_Ack s = (let s = IIC_SCL False s; s = SDA_OUT s; s = IIC_SDA False s; s = IIC_SCL True s in IIC_SCL False s)"

definition IIC_NAck :: "iic \<Rightarrow> iic" where
  "IIC_NAck s = (let s = IIC_SCL False s; s = SDA_OUT s; s = IIC_SDA True s; s = IIC_SCL True s in IIC_SCL False s)"

text \<open>One turn of the sending loop, and the eight turns.\<close>

definition send_bit :: "u8 \<Rightarrow> iic \<Rightarrow> iic" where
  "send_bit txd s =
     (let s = IIC_SDA (drop_bit 7 (txd AND 0x80) \<noteq> 0) s; s = IIC_SCL True s in IIC_SCL False s)"

primrec send_bits :: "nat \<Rightarrow> u8 \<Rightarrow> iic \<Rightarrow> iic" where
  "send_bits 0 txd s = s"
| "send_bits (Suc n) txd s = send_bits n (push_bit 1 txd) (send_bit txd s)"

definition IIC_Send_Byte :: "u8 \<Rightarrow> iic \<Rightarrow> iic" where
  "IIC_Send_Byte txd s = (let s = SDA_OUT s; s = IIC_SCL False s in send_bits 8 txd s)"

primrec read_bits :: "iic_device \<Rightarrow> nat \<Rightarrow> u8 \<Rightarrow> iic \<Rightarrow> u8 \<times> iic" where
  "read_bits dev 0 receive s = (receive, s)"
| "read_bits dev (Suc n) receive s =
     (let s = IIC_SCL False s; s = IIC_SCL True s; receive = push_bit 1 receive in
      case READ_SDA dev s of (high, s) \<Rightarrow> read_bits dev n (if high then receive + 1 else receive) s)"

definition IIC_Read_Byte :: "iic_device \<Rightarrow> bool \<Rightarrow> iic \<Rightarrow> u8 \<times> iic" where
  "IIC_Read_Byte dev ack s =
     (case read_bits dev 8 0 (SDA_IN s) of (receive, s) \<Rightarrow> (receive, if ack then IIC_Ack s else IIC_NAck s))"

section \<open>Port expander\<close>

abbreviation (input) PCF8574_ADDR :: u8 where "PCF8574_ADDR \<equiv> 0x4E"

definition PCF8574_Init :: "iic_device \<Rightarrow> iic \<Rightarrow> bool \<times> iic" where
  "PCF8574_Init dev s =
     (let s = IIC_Stop s; s = IIC_Init s; s = IIC_Start s; s = IIC_Send_Byte (PCF8574_ADDR OR 0) s in
      case IIC_Wait_Ack dev s of (temp, s) \<Rightarrow> (temp, IIC_Stop s))"

definition PCF8574_ReadOneByte :: "iic_device \<Rightarrow> iic \<Rightarrow> u8 \<times> iic" where
  "PCF8574_ReadOneByte dev s =
     (let s = IIC_Start s; s = IIC_Send_Byte (PCF8574_ADDR OR 1) s; s = snd (IIC_Wait_Ack dev s) in
      case IIC_Read_Byte dev False s of (temp, s) \<Rightarrow> (temp, IIC_Stop s))"

definition PCF8574_WriteOneByte :: "iic_device \<Rightarrow> u8 \<Rightarrow> iic \<Rightarrow> bool \<times> iic" where
  "PCF8574_WriteOneByte dev DataToWrite s =
     (let s = IIC_Start s; s = IIC_Send_Byte (PCF8574_ADDR OR 0) s in
      case IIC_Wait_Ack dev s of (temp, s) \<Rightarrow>
      let s = IIC_Send_Byte DataToWrite s in
      case IIC_Wait_Ack dev s of (temp1, s) \<Rightarrow>
      (\<not> (\<not> temp \<and> \<not> temp1), IIC_Stop s))"

definition PCF8574_WriteBit :: "iic_device \<Rightarrow> nat \<Rightarrow> u8 \<Rightarrow> iic \<Rightarrow> iic" where
  "PCF8574_WriteBit dev b sta s =
     (case PCF8574_ReadOneByte dev s of (data, s) \<Rightarrow>
        snd (PCF8574_WriteOneByte dev
          (if sta = 0 then data AND NOT (push_bit b 1) else data OR push_bit b 1) s))"

definition PCF8574_ReadBit :: "iic_device \<Rightarrow> nat \<Rightarrow> iic \<Rightarrow> u8 \<times> iic" where
  "PCF8574_ReadBit dev b s =
     (case PCF8574_ReadOneByte dev s of (data, s) \<Rightarrow> (if data AND push_bit b 1 \<noteq> 0 then 1 else 0, s))"

section \<open>The protocol\<close>

text \<open>
  What a listener sees in a waveform: with the clock high at two successive points, a fall of the data
  line is a start and a rise a stop; a rise of the clock samples a bit.
\<close>

datatype symbol = Start | Stop | Bit bool

definition symbol_of :: "bool \<times> bool \<Rightarrow> bool \<times> bool \<Rightarrow> symbol list" where
  "symbol_of a b =
     (if fst a \<and> fst b then (if snd a \<and> \<not> snd b then [Start] else if \<not> snd a \<and> snd b then [Stop] else [])
      else if \<not> fst a \<and> fst b then [Bit (snd b)] else [])"

fun decode_from :: "bool \<times> bool \<Rightarrow> wave \<Rightarrow> symbol list" where
  "decode_from a [] = []"
| "decode_from a (b # w) = symbol_of a b @ decode_from b w"

text \<open>The bytes of the messages: after a start, groups of nine bits, the ninth being the answer.\<close>

definition byte_of :: "bool list \<Rightarrow> u8" where
  "byte_of bs = foldl (\<lambda>a b. push_bit 1 a + (if b then 1 else 0)) 0 bs"

fun groups :: "bool list \<Rightarrow> u8 list" where
  "groups (a # b # c # d # e # f # g # h # ack # rest) = byte_of [a, b, c, d, e, f, g, h] # groups rest"
| "groups _ = []"

text \<open>
  The listener: outside a message (\<open>None\<close>) or inside one with its bits so far, and the messages
  that are complete. A stop or another start ends a message; an unfinished group is dropped.
\<close>

type_synonym listener = "bool list option \<times> u8 list list"

fun hear :: "symbol \<Rightarrow> listener \<Rightarrow> listener" where
  "hear Start (None, ms) = (Some [], ms)"
| "hear Start (Some bs, ms) = (Some [], ms @ [groups bs])"
| "hear Stop (None, ms) = (None, ms)"
| "hear Stop (Some bs, ms) = (None, ms @ [groups bs])"
| "hear (Bit b) (None, ms) = (None, ms)"
| "hear (Bit b) (Some bs, ms) = (Some (bs @ [b]), ms)"

definition heard :: "wave \<Rightarrow> listener" where
  "heard w = fold hear (decode_from (True, True) w) (None, [])"

text \<open>
  A device answers when, in the ninth clock of a group, it pulls the data line low within the 251 reads
  of the master.
\<close>

definition answer_slot :: "wave \<Rightarrow> bool" where
  "answer_slot w \<longleftrightarrow> (case fst (heard w) of Some bs \<Rightarrow> bs \<noteq> [] \<and> length bs mod 9 = 0 | None \<Rightarrow> False)"

definition answering :: "iic_device \<Rightarrow> bool" where
  "answering dev \<longleftrightarrow> (\<forall>w p. answer_slot w \<longrightarrow> (\<exists>k < 251. \<not> dev w (p + k)))"

section \<open>Waveforms of the operations\<close>

definition symbols :: "iic \<Rightarrow> symbol list" where
  "symbols s = decode_from (True, True) (wave s)"

definition point :: "iic \<Rightarrow> bool \<times> bool" where
  "point s = last ((True, True) # wave s)"

lemma decode_append: "decode_from a (v @ w) = decode_from a v @ decode_from (last (a # v)) w"
  by (induction v arbitrary: a) simp_all

lemma symbols_record: "symbols (record_wave s) = symbols s @ symbol_of (point s) (scl_pout s, sda_level s)"
  by (simp add: symbols_def record_wave_def decode_append point_def)

lemma point_record: "point (record_wave s) = (scl_pout s, sda_level s)"
  by (simp add: point_def record_wave_def)

lemma line_update [simp]:
  "symbols (s\<lparr>sda_oute := b\<rparr>) = symbols s" "symbols (s\<lparr>sda_pout := b\<rparr>) = symbols s"
  "symbols (s\<lparr>scl_pout := b\<rparr>) = symbols s" "symbols (s\<lparr>polls := n\<rparr>) = symbols s"
  "point (s\<lparr>sda_oute := b\<rparr>) = point s" "point (s\<lparr>sda_pout := b\<rparr>) = point s"
  "point (s\<lparr>scl_pout := b\<rparr>) = point s" "point (s\<lparr>polls := n\<rparr>) = point s"
  by (simp_all add: symbols_def point_def)

lemma macro_symbols [simp]:
  "symbols (SDA_IN s) = symbols s @ symbol_of (point s) (scl_pout s, True)"
  "symbols (SDA_OUT s) = symbols s @ symbol_of (point s) (scl_pout s, sda_pout s)"
  "symbols (IIC_SDA n s) = symbols s @ symbol_of (point s) (scl_pout s, sda_oute s \<longrightarrow> n)"
  "symbols (IIC_SCL n s) = symbols s @ symbol_of (point s) (n, sda_oute s \<longrightarrow> sda_pout s)"
  by (simp_all add: SDA_IN_def SDA_OUT_def IIC_SDA_def IIC_SCL_def symbols_record sda_level_def)

lemma macro_points [simp]:
  "point (SDA_IN s) = (scl_pout s, True)" "point (SDA_OUT s) = (scl_pout s, sda_pout s)"
  "point (IIC_SDA n s) = (scl_pout s, sda_oute s \<longrightarrow> n)" "point (IIC_SCL n s) = (n, sda_oute s \<longrightarrow> sda_pout s)"
  by (simp_all add: SDA_IN_def SDA_OUT_def IIC_SDA_def IIC_SCL_def point_record sda_level_def)

lemma macro_pins [simp]:
  "sda_oute (SDA_IN s) = False" "sda_pout (SDA_IN s) = sda_pout s" "scl_pout (SDA_IN s) = scl_pout s"
  "sda_oute (SDA_OUT s) = True" "sda_pout (SDA_OUT s) = sda_pout s" "scl_pout (SDA_OUT s) = scl_pout s"
  "sda_oute (IIC_SDA n s) = sda_oute s" "sda_pout (IIC_SDA n s) = n" "scl_pout (IIC_SDA n s) = scl_pout s"
  "sda_oute (IIC_SCL n s) = sda_oute s" "sda_pout (IIC_SCL n s) = sda_pout s" "scl_pout (IIC_SCL n s) = n"
  by (simp_all add: SDA_IN_def SDA_OUT_def IIC_SDA_def IIC_SCL_def record_wave_def)

lemma symbol_of_simps [simp]:
  "symbol_of (True, True) (True, False) = [Start]" "symbol_of (True, False) (True, True) = [Stop]"
  "symbol_of (True, x) (True, x) = []" "symbol_of (False, y) (True, x) = [Bit x]" "symbol_of p (False, x) = []"
  by (auto simp: symbol_of_def)

text \<open>The bus is free: both lines released, and the listener sees them so.\<close>

definition bus_free :: "iic \<Rightarrow> bool" where
  "bus_free s \<longleftrightarrow> point s = (True, True) \<and> scl_pout s \<and> sda_pout s"

text \<open>The master holds the clock low.\<close>

definition clock_low :: "iic \<Rightarrow> bool" where
  "clock_low s \<longleftrightarrow> fst (point s) = False \<and> \<not> scl_pout s"

lemma clock_low_point: "clock_low s \<Longrightarrow> \<exists>x. point s = (False, x)"
  by (cases "point s") (simp add: clock_low_def)

lemma start_symbols:
  assumes "bus_free s"
  shows "symbols (IIC_Start s) = symbols s @ [Start]" "clock_low (IIC_Start s)"
  using assms by (simp_all add: bus_free_def IIC_Start_def Let_def clock_low_def)

lemma stop_symbols:
  assumes "clock_low s"
  shows "symbols (IIC_Stop s) = symbols s @ [Bit False, Stop]" "bus_free (IIC_Stop s)"
  using clock_low_point [OF assms] assms by (auto simp: clock_low_def IIC_Stop_def Let_def bus_free_def)

primrec msb_bits :: "nat \<Rightarrow> u8 \<Rightarrow> bool list" where
  "msb_bits 0 txd = []"
| "msb_bits (Suc n) txd = (drop_bit 7 (txd AND 0x80) \<noteq> 0) # msb_bits n (push_bit 1 txd)"

lemma send_bits_symbols:
  assumes "clock_low s" "sda_oute s"
  shows "symbols (send_bits n txd s) = symbols s @ map Bit (msb_bits n txd) \<and> clock_low (send_bits n txd s)"
  using assms
proof (induction n arbitrary: txd s)
  case (Suc n)
  have "symbols (send_bit txd s) = symbols s @ [Bit (drop_bit 7 (txd AND 0x80) \<noteq> 0)]"
    "clock_low (send_bit txd s)" "sda_oute (send_bit txd s)"
    using clock_low_point [OF Suc.prems(1)] Suc.prems by (auto simp: send_bit_def Let_def clock_low_def)
  then show ?case using Suc.IH [of "send_bit txd s" "push_bit 1 txd"] by simp
qed simp

lemma send_byte_symbols:
  assumes "clock_low s"
  shows "symbols (IIC_Send_Byte txd s) = symbols s @ map Bit (msb_bits 8 txd)" "clock_low (IIC_Send_Byte txd s)"
proof -
  let ?s = "IIC_SCL False (SDA_OUT s)"
  have "clock_low ?s" "sda_oute ?s" "symbols ?s = symbols s"
    using clock_low_point [OF assms] assms by (auto simp: clock_low_def)
  then show "symbols (IIC_Send_Byte txd s) = symbols s @ map Bit (msb_bits 8 txd)"
    "clock_low (IIC_Send_Byte txd s)"
    using send_bits_symbols [of ?s 8 txd] by (simp_all add: IIC_Send_Byte_def Let_def)
qed

section \<open>Answers\<close>

abbreviation hearing :: "iic \<Rightarrow> listener" where
  "hearing s \<equiv> heard (wave s)"

lemma hearing_append: "symbols t = symbols s @ xs \<Longrightarrow> hearing t = fold hear xs (hearing s)"
  by (simp add: heard_def symbols_def)

lemma hear_bits: "fold hear (map Bit bs) (Some cs, ms) = (Some (cs @ bs), ms)"
  by (induction bs arbitrary: cs) simp_all

lemma wave_polls [simp]: "wave (s\<lparr>polls := n\<rparr>) = wave s"
  by simp

lemma wait_poll_low:
  "\<not> dev (wave s) (polls s) \<Longrightarrow> wait_poll dev e s = (False, IIC_SCL False (s\<lparr>polls := polls s + 1\<rparr>))"
  by (simp add: wait_poll.simps [of dev e s] READ_SDA_def)

lemma wait_poll_high:
  "dev (wave s) (polls s) \<Longrightarrow> wait_poll dev e s =
     (if e + 1 > 250 then (True, IIC_Stop (s\<lparr>polls := polls s + 1\<rparr>))
      else wait_poll dev (e + 1) (s\<lparr>polls := polls s + 1\<rparr>))"
  by (simp add: wait_poll.simps [of dev e s] READ_SDA_def)

text \<open>The master polls with both lines high; it goes on as soon as the device answers.\<close>

lemma wait_poll_answered:
  assumes "e + k \<le> 250" "\<not> dev (wave s) (polls s + k)"
    and "point s = (True, True)" "scl_pout s" "sda_pout s"
  shows "fst (wait_poll dev e s) = False \<and> symbols (snd (wait_poll dev e s)) = symbols s \<and>
    clock_low (snd (wait_poll dev e s))"
  using assms
proof (induction k arbitrary: e s)
  case 0
  then show ?case by (simp add: wait_poll_low clock_low_def)
next
  case (Suc k)
  show ?case
  proof (cases "dev (wave s) (polls s)")
    case False
    then show ?thesis using Suc.prems by (simp add: wait_poll_low clock_low_def)
  next
    case True
    then show ?thesis
      using Suc.IH [of "e + 1" "s\<lparr>polls := polls s + 1\<rparr>"] Suc.prems by (simp add: wait_poll_high)
  qed
qed

text \<open>Without an answer the master sends a stop after 251 reads and reports a failure.\<close>

lemma wait_poll_unanswered:
  assumes "e + n = 250" "\<forall>k \<le> n. dev (wave s) (polls s + k)"
    and "point s = (True, True)" "scl_pout s" "sda_pout s"
  shows "fst (wait_poll dev e s) \<and> symbols (snd (wait_poll dev e s)) = symbols s @ [Bit False, Stop] \<and>
    bus_free (snd (wait_poll dev e s))"
  using assms
proof (induction n arbitrary: e s)
  case 0
  then show ?case by (simp add: wait_poll_high IIC_Stop_def Let_def bus_free_def)
next
  case (Suc n)
  let ?s = "s\<lparr>polls := polls s + 1\<rparr>"
  have d: "dev (wave s) (polls s)" using Suc.prems(2) [rule_format, of 0] by simp
  have "\<forall>k \<le> n. dev (wave ?s) (polls ?s + k)"
  proof (intro allI impI)
    fix k assume "k \<le> n"
    then show "dev (wave ?s) (polls ?s + k)" using Suc.prems(2) [rule_format, of "Suc k"] by simp
  qed
  then show ?case using Suc.IH [of "e + 1" ?s] Suc.prems d by (simp add: wait_poll_high)
qed

text \<open>A byte and its answer, heard by the listener.\<close>

lemma byte_answered:
  fixes txd :: u8
  assumes "answering dev" "clock_low s" "hearing s = (Some bs, ms)" "length bs mod 9 = 0"
  defines "t \<equiv> snd (IIC_Wait_Ack dev (IIC_Send_Byte txd s))"
  shows "hearing t = (Some (bs @ msb_bits 8 txd @ [True]), ms)" "clock_low t"
    "fst (IIC_Wait_Ack dev (IIC_Send_Byte txd s)) = False"
proof -
  let ?b = "IIC_Send_Byte txd s"
  let ?s = "IIC_SCL True (IIC_SDA True (SDA_IN ?b))"
  note b = send_byte_symbols [OF assms(2), of txd]
  have sy: "symbols ?s = symbols s @ map Bit (msb_bits 8 txd @ [True])"
    using clock_low_point [OF b(2)] b by (auto simp: clock_low_def)
  then have h: "hearing ?s = (Some (bs @ msb_bits 8 txd @ [True]), ms)"
    using hearing_append [OF sy] assms(3) by (simp only: hear_bits)
  have "length (msb_bits 8 txd @ [True]) = 9" by (simp add: eval_nat_numeral)
  then have "answer_slot (wave ?s)" using assms(4) by (simp add: answer_slot_def h)
  then obtain k where "k < 251" "\<not> dev (wave ?s) (polls ?s + k)" using assms(1) unfolding answering_def by blast
  then have w: "fst (wait_poll dev 0 ?s) = False \<and> symbols (snd (wait_poll dev 0 ?s)) = symbols ?s \<and>
      clock_low (snd (wait_poll dev 0 ?s))"
    by (intro wait_poll_answered [of 0 k]) simp_all
  have t: "IIC_Wait_Ack dev ?b = wait_poll dev 0 ?s" by (simp add: IIC_Wait_Ack_def Let_def)
  show "clock_low t" "fst (IIC_Wait_Ack dev ?b) = False" using w by (simp_all add: t_def t)
  show "hearing t = (Some (bs @ msb_bits 8 txd @ [True]), ms)"
    using hearing_append [of t ?s "[]"] w h by (simp add: t_def t)
qed

section \<open>Bytes on the bus\<close>

lemma half_step: "push_bit 1 (drop_bit (Suc k) t) + (if bit t k then 1 else 0) = drop_bit k (t :: u8)"
proof -
  have "drop_bit (Suc k) t = drop_bit k t div 2" by (simp add: drop_bit_Suc drop_bit_half)
  moreover have "bit t k \<longleftrightarrow> odd (drop_bit k t)" by (simp add: bit_iff_odd_drop_bit)
  moreover have "push_bit 1 (x div 2) + (if odd x then 1 else 0) = x" for x :: u8
  proof -
    have p: "push_bit 1 (x div 2) = 2 * (x div 2)" by (simp add: push_bit_eq_mult mult.commute)
    have "2 * (x div 2) + x mod 2 = x" by (rule mult_div_mod_eq)
    moreover have "x mod 2 = (if odd x then 1 else 0)"
      by (simp add: even_iff_mod_2_eq_zero odd_iff_mod_2_eq_one)
    ultimately show ?thesis unfolding p by simp
  qed
  ultimately show ?thesis by simp
qed

lemma msb_bits_eq: "n + k = 8 \<Longrightarrow> msb_bits n (push_bit k t) = map (\<lambda>i. bit (t :: u8) (n - 1 - i)) [0..<n]"
proof (induction n arbitrary: k)
  case (Suc n)
  have k: "k = 7 - n" and n: "n \<le> 7" using Suc.prems by simp_all
  have "drop_bit 7 (push_bit k t AND 0x80) \<noteq> 0 \<longleftrightarrow> bit t n"
  proof -
    have m: "(0x80 :: u8) = push_bit 7 1" by simp
    have "drop_bit 7 (push_bit k t AND 0x80) = (if bit t n then 1 else 0)"
      unfolding m k by (intro bit_word_eqI) (auto simp: bit_simps n intro!: gr0I)
    then show ?thesis by simp
  qed
  moreover have "msb_bits n (push_bit 1 (push_bit k t)) = map (\<lambda>i. bit t (n - 1 - i)) [0..<n]"
    using Suc.IH [of "Suc k"] Suc.prems by simp
  ultimately show ?case
    by (simp add: upt_conv_Cons map_Suc_upt [symmetric] del: upt_Suc)
qed simp

lemma byte_of_bits: "byte_of (msb_bits 8 t) = t"
proof -
  have b: "msb_bits 8 t = map (bit t) [7, 6, 5, 4, 3, 2, 1, 0]"
    using msb_bits_eq [of 8 0 t] by (simp add: upt_rec)
  have top: "drop_bit 8 t = 0" by (rule bit_word_eqI) (simp add: bit_simps not_bit_u8)
  have "byte_of (msb_bits 8 t) =
      foldl (\<lambda>a b. push_bit 1 a + (if b then 1 else 0)) (drop_bit 8 t) (map (bit t) [7, 6, 5, 4, 3, 2, 1, 0])"
    unfolding byte_of_def b top ..
  also have "\<dots> = t"
    using half_step [of 7 t] half_step [of 6 t] half_step [of 5 t] half_step [of 4 t] half_step [of 3 t]
      half_step [of 2 t] half_step [of 1 t] half_step [of 0 t]
    by (simp add: eval_nat_numeral)
  finally show ?thesis .
qed

lemma groups_byte:
  assumes "length bs = 8"
  shows "groups (bs @ [ack] @ rest) = byte_of bs # groups rest"
proof -
  have "length bs = Suc (Suc (Suc (Suc (Suc (Suc (Suc (Suc 0)))))))" using assms by simp
  then obtain a b c d e f g h where "bs = [a, b, c, d, e, f, g, h]"
    unfolding length_Suc_conv length_0_conv by blast
  then show ?thesis by simp
qed

lemma length_msb_bits [simp]: "length (msb_bits n t) = n"
  by (induction n arbitrary: t) simp_all

definition idle :: "iic \<Rightarrow> bool" where
  "idle s \<longleftrightarrow> bus_free s \<and> fst (hearing s) = None"

lemma iic_bytes:
  fixes b :: u8
  assumes "answering dev" "idle s"
  defines "t \<equiv> snd (PCF8574_WriteOneByte dev b s)"
  shows "fst (PCF8574_WriteOneByte dev b s) = False \<and>
    snd (hearing t) = snd (hearing s) @ [[0x4E, b]] \<and> idle t"
proof -
  let ?s0 = "IIC_Start s"
  let ?w1 = "IIC_Wait_Ack dev (IIC_Send_Byte (0x4E OR 0) ?s0)"
  let ?w2 = "IIC_Wait_Ack dev (IIC_Send_Byte b (snd ?w1))"
  obtain ms where ms: "hearing s = (None, ms)" using assms(2) by (cases "hearing s") (simp add: idle_def)
  have f: "bus_free s" using assms(2) by (simp add: idle_def)
  have h0: "hearing ?s0 = (Some [], ms)" using hearing_append [OF start_symbols(1) [OF f]] ms by simp
  note w1 = byte_answered [OF assms(1) start_symbols(2) [OF f] h0, of "0x4E OR 0"]
  note w2 = byte_answered [OF assms(1) w1(2) w1(1), of b]
  have s2: "hearing (snd ?w2) = (Some (msb_bits 8 0x4E @ [True] @ msb_bits 8 b @ [True]), ms)"
    "clock_low (snd ?w2)" "fst ?w2 = False"
    using w1 w2 by simp_all
  have r: "PCF8574_WriteOneByte dev b s = (\<not> (\<not> fst ?w1 \<and> \<not> fst ?w2), IIC_Stop (snd ?w2))"
    by (simp add: PCF8574_WriteOneByte_def Let_def case_prod_beta)
  have g: "groups (msb_bits 8 0x4E @ [True] @ msb_bits 8 b @ [True, False]) = [0x4E, b]"
    using groups_byte [of "msb_bits 8 0x4E" True "msb_bits 8 b @ [True, False]"]
      groups_byte [of "msb_bits 8 b" True "[False]"] by (simp add: byte_of_bits)
  have "hearing (IIC_Stop (snd ?w2)) = (None, ms @ [[0x4E, b]])"
    using hearing_append [OF stop_symbols(1) [OF s2(2)]] s2(1) g by simp
  moreover have "fst ?w1 = False" using w1(3) by simp
  ultimately show ?thesis
    using stop_symbols(2) [OF s2(2)] s2(3) ms by (simp add: t_def r idle_def)
qed

text \<open>
  C26. Writing to the expander: on a free bus and with a device that answers within the 251 reads,
  \<open>PCF8574_WriteOneByte\<close> reports success, and a listener on the two lines hears exactly one more
  message, the device address followed by the byte; afterwards the bus is free again.
\<close>

theorem iic_write_is_heard:
  fixes b :: u8
  assumes "answering dev" "idle s"
  defines "t \<equiv> snd (PCF8574_WriteOneByte dev b s)"
  shows "fst (PCF8574_WriteOneByte dev b s) = False \<and>
    snd (hearing t) = snd (hearing s) @ [[0x4E, b]] \<and> idle t"
  using iic_bytes [OF assms(1,2)] by (simp add: t_def)

definition iic_init :: iic where
  "iic_init = \<lparr>sda_oute = True, sda_pout = True, scl_pout = True, wave = [], polls = 0\<rparr>"

theorem iic_write_is_heard_witness:
  "snd (hearing (snd (PCF8574_WriteOneByte (\<lambda>w n. n mod 7 \<noteq> 6) 0xA5 iic_init))) = [[0x4E, 0xA5]]"
proof -
  have "answering (\<lambda>w n. n mod 7 \<noteq> 6)"
    unfolding answering_def
  proof (intro allI impI)
    fix w :: wave and p :: nat
    have "p + (6 - p mod 7) = 6 + 7 * (p div 7)"
      using div_mult_mod_eq [of p 7] mod_less_divisor [of 7 p] by linarith
    then have "(p + (6 - p mod 7)) mod 7 = 6" by (simp only: mod_mult_self2) simp
    then show "\<exists>k < 251. \<not> (p + k) mod 7 \<noteq> 6" by (intro exI [of _ "6 - p mod 7"]) simp
  qed
  moreover have "idle iic_init" by (simp add: idle_def bus_free_def iic_init_def point_def heard_def)
  ultimately have "snd (hearing (snd (PCF8574_WriteOneByte (\<lambda>w n. n mod 7 \<noteq> 6) 0xA5 iic_init)))
      = snd (hearing iic_init) @ [[0x4E, 0xA5]]"
    using iic_write_is_heard by blast
  then show ?thesis by (simp add: iic_init_def heard_def)
qed

end
