(* ===== verification/Lcd.thy ===== *)
theory Lcd
  imports Iic
begin

text \<open>
  The character display behind the port expander (\<open>lcd1602.c\<close>): commands and characters are sent as
  two nibbles, each clocked by the enable line. The interface a display driver needs of its port is the
  locale \<open>byte_port\<close>, which the bus of theory \<open>Iic\<close> provides. The display itself is stated as a
  decoder of the bytes at the expander: a nibble is taken when the enable line falls, two nibbles make
  a command or a character, and characters go to successive addresses of the display memory.
\<close>

section \<open>Driver\<close>

definition lcd_put :: "iic_device \<Rightarrow> u8 \<Rightarrow> iic \<Rightarrow> iic" where
  "lcd_put dev b s = snd (PCF8574_WriteOneByte dev b s)"

definition IIC_LCD1602_Write_Cmd :: "iic_device \<Rightarrow> u8 \<Rightarrow> iic \<Rightarrow> iic" where
  "IIC_LCD1602_Write_Cmd dev cmd s =
     (let s = lcd_put dev ((cmd OR 0x0F) AND 0xFC) s;
        s = lcd_put dev 0xF8 s;
        s = lcd_put dev ((push_bit 4 cmd OR 0x0F) AND 0xFC) s
      in lcd_put dev 0xF8 s)"

definition IIC_LCD1602_Write_Data :: "iic_device \<Rightarrow> u8 \<Rightarrow> iic \<Rightarrow> iic" where
  "IIC_LCD1602_Write_Data dev data s =
     (let s = lcd_put dev ((data OR 0x0F) AND 0xFD) s;
        s = lcd_put dev 0xF9 s;
        s = lcd_put dev ((push_bit 4 data OR 0x0F) AND 0xFD) s
      in lcd_put dev 0xF8 s)"

definition IIC_LCD1602_Write_Init :: "iic_device \<Rightarrow> iic \<Rightarrow> iic" where
  "IIC_LCD1602_Write_Init dev s =
     (let s = snd (PCF8574_Init dev s) in
      fold (IIC_LCD1602_Write_Cmd dev) [0x33, 0x32, 0x28, 0x06, 0x0C, 0x01] s)"

text \<open>A zero in the buffer is replaced by a blank, in the buffer too.\<close>

definition blank_zero :: "u8 \<Rightarrow> u8" where
  "blank_zero c = (if c = 0 then 0x20 else c)"

definition IIC_LCD1602_Write_String :: "iic_device \<Rightarrow> u8 \<Rightarrow> nat \<Rightarrow> bytes \<Rightarrow> iic \<Rightarrow> bytes \<times> iic" where
  "IIC_LCD1602_Write_String dev ucAddr ucDatalen pucBuf s =
     (let s = IIC_LCD1602_Write_Cmd dev (ucAddr OR 0x80) s;
        cs = map blank_zero (take ucDatalen pucBuf)
      in (cs @ drop ucDatalen pucBuf, fold (IIC_LCD1602_Write_Data dev) cs s))"

primrec read_chars :: "iic_device \<Rightarrow> nat \<Rightarrow> iic \<Rightarrow> bytes \<times> iic" where
  "read_chars dev 0 s = ([], s)"
| "read_chars dev (Suc n) s =
     (let s = lcd_put dev 0xFF (lcd_put dev 0x08 s) in
      case PCF8574_ReadOneByte dev s of (temp1, s) \<Rightarrow>
      let s = lcd_put dev 0xFF (lcd_put dev 0x08 s) in
      case PCF8574_ReadOneByte dev s of (temp2, s) \<Rightarrow>
      case read_chars dev n s of (cs, s) \<Rightarrow> (((temp1 AND 0xF0) OR drop_bit 4 temp2) # cs, s))"

definition IIC_LCD1602_Read_String :: "iic_device \<Rightarrow> u8 \<Rightarrow> nat \<Rightarrow> iic \<Rightarrow> bytes \<times> iic" where
  "IIC_LCD1602_Read_String dev ucAddr ucDatalen s =
     (case read_chars dev ucDatalen (IIC_LCD1602_Write_Cmd dev (ucAddr OR 0x80) s) of
        (cs, s) \<Rightarrow> (cs, lcd_put dev 0xF8 s))"

definition Num :: bytes where
  "Num = [0x30, 0x31, 0x32, 0x33, 0x34, 0x35, 0x36, 0x37, 0x38, 0x39]"

text \<open>The characters of the seven branches of \<open>IIC_LCD1602_Write_Number\<close>; a larger number writes none.\<close>

definition number_chars :: "nat \<Rightarrow> bytes" where
  "number_chars num =
     (if num < 10 then [0x20, 0x20, 0x20, 0x20, 0x20, 0x20, Num ! (num mod 10)]
      else if num < 100 then [0x20, 0x20, 0x20, 0x20, 0x20, Num ! (num mod 100 div 10), Num ! (num mod 10)]
      else if num < 1000 then
        [0x20, 0x20, 0x20, 0x20, Num ! (num div 100), Num ! (num mod 100 div 10), Num ! (num mod 10)]
      else if num < 10000 then
        [0x20, 0x20, 0x20, Num ! (num div 1000), Num ! (num mod 1000 div 100), Num ! (num mod 100 div 10),
         Num ! (num mod 10)]
      else if num < 100000 then
        [0x20, 0x20, Num ! (num div 10000), Num ! (num mod 10000 div 1000), Num ! (num mod 1000 div 100),
         Num ! (num mod 100 div 10), Num ! (num mod 10)]
      else if num < 1000000 then
        [0x20, Num ! (num div 100000), Num ! (num mod 100000 div 10000), Num ! (num mod 10000 div 1000),
         Num ! (num mod 1000 div 100), Num ! (num mod 100 div 10), Num ! (num mod 10)]
      else if num < 10000000 then
        [Num ! (num div 1000000), Num ! (num mod 1000000 div 100000), Num ! (num mod 100000 div 10000),
         Num ! (num mod 10000 div 1000), Num ! (num mod 1000 div 100), Num ! (num mod 100 div 10),
         Num ! (num mod 10)]
      else [])"

definition IIC_LCD1602_Write_Number :: "iic_device \<Rightarrow> u8 \<Rightarrow> u32 \<Rightarrow> iic \<Rightarrow> iic" where
  "IIC_LCD1602_Write_Number dev ucAddr num s =
     fold (IIC_LCD1602_Write_Data dev) (number_chars (unat num)) (IIC_LCD1602_Write_Cmd dev (ucAddr OR 0x80) s)"

definition IIC_LCD1602_Write_Number2 :: "iic_device \<Rightarrow> u8 \<Rightarrow> u8 \<Rightarrow> iic \<Rightarrow> iic" where
  "IIC_LCD1602_Write_Number2 dev ucAddr num s =
     fold (IIC_LCD1602_Write_Data dev) [Num ! (unat num mod 100 div 10), Num ! (unat num mod 10)]
       (IIC_LCD1602_Write_Cmd dev (ucAddr OR 0x80) s)"

definition User1 :: bytes where "User1 = [0x00, 0x00, 0x00, 0x01, 0x05, 0x15, 0x15, 0x15]"
definition User2 :: bytes where "User2 = [0x01, 0x05, 0x15, 0x15, 0x15, 0x15, 0x15, 0x15]"

definition IIC_LCD1602_WIFI_Init :: "iic_device \<Rightarrow> iic \<Rightarrow> iic" where
  "IIC_LCD1602_WIFI_Init dev s =
     (let s = fold (IIC_LCD1602_Write_Data dev) User1 (IIC_LCD1602_Write_Cmd dev 0x40 s)
      in fold (IIC_LCD1602_Write_Data dev) User2 (IIC_LCD1602_Write_Cmd dev 0x48 s))"

definition IIC_LCD1602_WIFI_Display :: "iic_device \<Rightarrow> iic \<Rightarrow> iic" where
  "IIC_LCD1602_WIFI_Display dev s =
     (let s = IIC_LCD1602_Write_Data dev 0x00 (IIC_LCD1602_Write_Cmd dev 0x8E s)
      in IIC_LCD1602_Write_Data dev 0x01 (IIC_LCD1602_Write_Cmd dev 0x8F s))"

definition IIC_LCD1602_WIFI_Not_Display :: "iic_device \<Rightarrow> iic \<Rightarrow> iic" where
  "IIC_LCD1602_WIFI_Not_Display dev s =
     (let s = IIC_LCD1602_Write_Data dev 0x20 (IIC_LCD1602_Write_Cmd dev 0x8E s)
      in IIC_LCD1602_Write_Data dev 0x20 (IIC_LCD1602_Write_Cmd dev 0x8F s))"

section \<open>The port\<close>

locale byte_port =
  fixes put :: "u8 \<Rightarrow> 's \<Rightarrow> 's"
    and sent :: "'s \<Rightarrow> bytes"
    and ready :: "'s \<Rightarrow> bool"
  assumes put_sent: "ready s \<Longrightarrow> sent (put b s) = sent s @ [b]"
    and put_ready: "ready s \<Longrightarrow> ready (put b s)"
begin

lemma puts_sent: "ready s \<Longrightarrow> sent (fold put bs s) = sent s @ bs"
  by (induction bs arbitrary: s) (simp_all add: put_sent put_ready)

lemma puts_ready: "ready s \<Longrightarrow> ready (fold put bs s)"
  by (induction bs arbitrary: s) (simp_all add: put_ready)

end

text \<open>The bytes that reached the expander: the contents of the messages to its write address.\<close>

definition expander_bytes :: "u8 list list \<Rightarrow> bytes" where
  "expander_bytes ms = concat (map (\<lambda>m. if m \<noteq> [] \<and> m ! 0 = PCF8574_ADDR then tl m else []) ms)"

definition port_bytes :: "iic \<Rightarrow> bytes" where
  "port_bytes s = expander_bytes (snd (hearing s))"

definition port_ready :: "iic_device \<Rightarrow> iic \<Rightarrow> bool" where
  "port_ready dev s \<longleftrightarrow> answering dev \<and> idle s"

interpretation pcf: byte_port "lcd_put dev" port_bytes "port_ready dev" for dev :: iic_device
proof
  fix s b assume r: "port_ready dev s"
  then have a: "answering dev" "idle s" by (simp_all add: port_ready_def)
  have "snd (hearing (lcd_put dev b s)) = snd (hearing s) @ [[0x4E, b]] \<and> idle (lcd_put dev b s)"
    using iic_bytes [OF a] by (simp add: lcd_put_def)
  then show "port_bytes (lcd_put dev b s) = port_bytes s @ [b]" "port_ready dev (lcd_put dev b s)"
    using a(1) by (simp_all add: port_bytes_def expander_bytes_def port_ready_def)
qed

section \<open>The display\<close>

text \<open>
  Port bits: 0 the register select, 1 read/write, 2 enable, 4 to 7 the data. The display takes the
  nibble, and the register select, that were present when enable falls.
\<close>

fun latch :: "u8 \<Rightarrow> bytes \<Rightarrow> (bool \<times> u8) list" where
  "latch p [] = []"
| "latch p (b # bs) =
     (if bit p 2 \<and> \<not> bit b 2 \<and> \<not> bit p 1 then [(bit p 0, drop_bit 4 p)] else []) @ latch b bs"

fun nibble_pairs :: "(bool \<times> u8) list \<Rightarrow> (bool \<times> u8) list" where
  "nibble_pairs ((rs, h) # (_, l) # xs) = (rs, push_bit 4 h OR l) # nibble_pairs xs"
| "nibble_pairs _ = []"

text \<open>The commands (first component false) and the characters the display has received.\<close>

definition lcd_ops :: "bytes \<Rightarrow> (bool \<times> u8) list" where
  "lcd_ops bs = nibble_pairs (latch 0 bs)"

definition in_phase :: "bytes \<Rightarrow> bool" where
  "in_phase bs \<longleftrightarrow> even (length (latch 0 bs)) \<and> \<not> bit (last (0 # bs)) 2"

text \<open>Display memory: where characters go, and the characters.\<close>

record lcd =
  to_ddram :: bool
  address :: u8
  ddram :: "u8 \<Rightarrow> u8"

definition lcd_step :: "bool \<times> u8 \<Rightarrow> lcd \<Rightarrow> lcd" where
  "lcd_step op d =
     (if fst op then
        (if to_ddram d then d\<lparr>ddram := (ddram d)(address d := snd op), address := address d + 1\<rparr>
         else d\<lparr>address := address d + 1\<rparr>)
      else if bit (snd op) 7 then d\<lparr>to_ddram := True, address := snd op AND 0x7F\<rparr>
      else if bit (snd op) 6 then d\<lparr>to_ddram := False, address := snd op AND 0x3F\<rparr>
      else if snd op = 1 then d\<lparr>to_ddram := True, address := 0, ddram := (\<lambda>_. 0x20)\<rparr>
      else d)"

definition lcd_blank :: lcd where
  "lcd_blank = \<lparr>to_ddram = True, address = 0, ddram = (\<lambda>_. 0x20)\<rparr>"

definition lcd_of :: "bytes \<Rightarrow> lcd" where
  "lcd_of bs = fold lcd_step (lcd_ops bs) lcd_blank"

section \<open>Commands and characters arrive\<close>

definition cmd_bytes :: "u8 \<Rightarrow> bytes" where
  "cmd_bytes c = [(c OR 0x0F) AND 0xFC, 0xF8, (push_bit 4 c OR 0x0F) AND 0xFC, 0xF8]"

definition data_bytes :: "u8 \<Rightarrow> bytes" where
  "data_bytes c = [(c OR 0x0F) AND 0xFD, 0xF9, (push_bit 4 c OR 0x0F) AND 0xFD, 0xF8]"

lemma write_cmd_fold: "IIC_LCD1602_Write_Cmd dev c s = fold (lcd_put dev) (cmd_bytes c) s"
  by (simp add: IIC_LCD1602_Write_Cmd_def cmd_bytes_def Let_def)

lemma write_data_fold: "IIC_LCD1602_Write_Data dev c s = fold (lcd_put dev) (data_bytes c) s"
  by (simp add: IIC_LCD1602_Write_Data_def data_bytes_def Let_def)

lemma latch_append: "latch p (xs @ ys) = latch p xs @ latch (last (p # xs)) ys"
  by (induction xs arbitrary: p) simp_all

lemma nibble_pairs_append: "even (length xs) \<Longrightarrow> nibble_pairs (xs @ ys) = nibble_pairs xs @ nibble_pairs ys"
  by (induction xs rule: nibble_pairs.induct) auto

text \<open>The bits of the four bytes of a command or a character.\<close>

lemma nibble_facts:
  fixes c :: u8
  shows "bit ((c OR 0x0F) AND 0xFC) 2" "\<not> bit ((c OR 0x0F) AND 0xFC) 1" "\<not> bit ((c OR 0x0F) AND 0xFC) 0"
    "bit ((c OR 0x0F) AND 0xFD) 2" "\<not> bit ((c OR 0x0F) AND 0xFD) 1" "bit ((c OR 0x0F) AND 0xFD) 0"
    "drop_bit 4 ((c OR 0x0F) AND 0xFC) = drop_bit 4 c" "drop_bit 4 ((c OR 0x0F) AND 0xFD) = drop_bit 4 c"
proof -
  have m: "(0x0F :: u8) = mask 4" "(0xFC :: u8) = NOT (mask 2)" "(0xFD :: u8) = NOT (push_bit 1 1)"
    by (simp_all add: mask_eq_exp_minus_1)
  show "bit ((c OR 0x0F) AND 0xFC) 2" "\<not> bit ((c OR 0x0F) AND 0xFC) 1" "\<not> bit ((c OR 0x0F) AND 0xFC) 0"
    "bit ((c OR 0x0F) AND 0xFD) 2" "\<not> bit ((c OR 0x0F) AND 0xFD) 1" "bit ((c OR 0x0F) AND 0xFD) 0"
    unfolding m by (simp_all add: bit_simps)
  show "drop_bit 4 ((c OR 0x0F) AND 0xFC) = drop_bit 4 c" "drop_bit 4 ((c OR 0x0F) AND 0xFD) = drop_bit 4 c"
  proof -
    have "bit ((c OR mask 4) AND NOT (mask 2)) (4 + n) = bit c (4 + n)"
      "bit ((c OR mask 4) AND NOT (push_bit 1 1)) (4 + n) = bit c (4 + n)" for n
      by (cases "n < 4"; simp add: bit_simps not_bit_u8)+
    then show "drop_bit 4 ((c OR 0x0F) AND 0xFC) = drop_bit 4 c" "drop_bit 4 ((c OR 0x0F) AND 0xFD) = drop_bit 4 c"
      unfolding m by (intro bit_word_eqI; simp only: bit_drop_bit_eq o_def)+
  qed
qed

lemma latch_four:
  assumes "\<not> bit p 2" "bit a 2" "\<not> bit a 1" "\<not> bit x 2" "bit b 2" "\<not> bit b 1"
  shows "latch p [a, x, b, y] =
    (bit a 0, drop_bit 4 a) # (if bit y 2 then [] else [(bit b 0, drop_bit 4 b)])"
  using assms by simp

lemma nibbles_join: "push_bit 4 (drop_bit 4 c) OR drop_bit 4 (push_bit 4 c) = (c :: u8)"
  by (rule bit_word_eqI) (auto simp: bit_simps)

lemma fixed_bytes: "\<not> bit (0xF8 :: u8) 2" "\<not> bit (0xF9 :: u8) 2"
  by simp_all

lemma ops_arrive:
  assumes "in_phase bs"
  shows "lcd_ops (bs @ cmd_bytes c) = lcd_ops bs @ [(False, c)]" "in_phase (bs @ cmd_bytes c)"
    "lcd_ops (bs @ data_bytes c) = lcd_ops bs @ [(True, c)]" "in_phase (bs @ data_bytes c)"
proof -
  have l: "\<not> bit (last (0 # bs)) 2" "even (length (latch 0 bs))" using assms by (simp_all add: in_phase_def)
  have c: "latch (last (0 # bs)) (cmd_bytes c) = [(False, drop_bit 4 c), (False, drop_bit 4 (push_bit 4 c))]"
    and d: "latch (last (0 # bs)) (data_bytes c) = [(True, drop_bit 4 c), (True, drop_bit 4 (push_bit 4 c))]"
    unfolding cmd_bytes_def data_bytes_def
    by (subst latch_four; (rule l fixed_bytes nibble_facts)?;
        simp only: nibble_facts fixed_bytes if_False not_False_eq_True)+
  show "lcd_ops (bs @ cmd_bytes c) = lcd_ops bs @ [(False, c)]" "lcd_ops (bs @ data_bytes c) = lcd_ops bs @ [(True, c)]"
    by (simp_all add: lcd_ops_def latch_append c d nibble_pairs_append l(2) nibbles_join del: last.simps)
  show "in_phase (bs @ cmd_bytes c)" "in_phase (bs @ data_bytes c)"
    using l(2) by (simp_all add: in_phase_def latch_append c d del: last.simps)
      (simp_all add: cmd_bytes_def data_bytes_def)
qed

text \<open>The operations the display has seen on a bus, and a driver that is ready to send it another one.\<close>

definition lcd_seen :: "iic \<Rightarrow> (bool \<times> u8) list" where
  "lcd_seen s = lcd_ops (port_bytes s)"

definition lcd_ready :: "iic_device \<Rightarrow> iic \<Rightarrow> bool" where
  "lcd_ready dev s \<longleftrightarrow> port_ready dev s \<and> in_phase (port_bytes s)"

lemma cmd_seen:
  assumes "lcd_ready dev s"
  shows "lcd_seen (IIC_LCD1602_Write_Cmd dev c s) = lcd_seen s @ [(False, c)]"
    "lcd_ready dev (IIC_LCD1602_Write_Cmd dev c s)"
  using assms
  by (simp_all add: lcd_seen_def lcd_ready_def write_cmd_fold pcf.puts_sent pcf.puts_ready ops_arrive)

lemma data_seen:
  assumes "lcd_ready dev s"
  shows "lcd_seen (IIC_LCD1602_Write_Data dev c s) = lcd_seen s @ [(True, c)]"
    "lcd_ready dev (IIC_LCD1602_Write_Data dev c s)"
  using assms
  by (simp_all add: lcd_seen_def lcd_ready_def write_data_fold pcf.puts_sent pcf.puts_ready ops_arrive)

lemma chars_seen:
  assumes "lcd_ready dev s"
  shows "lcd_seen (fold (IIC_LCD1602_Write_Data dev) cs s) = lcd_seen s @ map (Pair True) cs \<and>
    lcd_ready dev (fold (IIC_LCD1602_Write_Data dev) cs s)"
  using assms by (induction cs arbitrary: s) (simp_all add: data_seen)

section \<open>Text at an address\<close>

definition lcd_state :: "iic \<Rightarrow> lcd" where
  "lcd_state s = fold lcd_step (lcd_seen s) lcd_blank"

definition lcd_write :: "u8 \<Rightarrow> bytes \<Rightarrow> lcd \<Rightarrow> lcd" where
  "lcd_write a cs d = d\<lparr>to_ddram := True, address := a + of_nat (length cs),
     ddram := (\<lambda>x. if unat (x - a) < length cs then cs ! unat (x - a) else ddram d x)\<rparr>"

lemma unat_sub_eq: "n < 256 \<Longrightarrow> unat (x - a) = n \<longleftrightarrow> (x :: u8) = a + of_nat n"
  by (auto simp: word_unat_eq_iff [of _ "of_nat n"] unat_of_nat algebra_simps
      dest: word_unat_eq_iff [THEN iffD2])

lemma char_step:
  "lcd_step (True, c) (lcd_write a cs d) = (lcd_write a cs d)\<lparr>address := a + of_nat (length cs) + 1,
     ddram := (ddram (lcd_write a cs d))(a + of_nat (length cs) := c)\<rparr>"
  by (simp add: lcd_step_def lcd_write_def)

lemma chars_written:
  assumes "length cs \<le> 255" "to_ddram d" "address d = a"
  shows "fold lcd_step (map (Pair True) cs) d = lcd_write a cs d"
  using assms
proof (induction cs rule: rev_induct)
  case Nil
  then show ?case by (simp add: lcd_write_def)
next
  case (snoc c cs)
  have IH: "fold lcd_step (map (Pair True) cs) d = lcd_write a cs d" using snoc by simp
  have n: "length cs < 256" using snoc.prems by simp
  then have u: "unat (of_nat (length cs) :: u8) = length cs" by (simp add: unat_of_nat)
  have "(\<lambda>x. if unat (x - a) < length cs then cs ! unat (x - a) else ddram d x)(a + of_nat (length cs) := c)
      = (\<lambda>x. if unat (x - a) < length (cs @ [c]) then (cs @ [c]) ! unat (x - a) else ddram d x)"
    using unat_sub_eq [OF n] by (auto simp: fun_eq_iff nth_append less_Suc_eq u)
  then have "lcd_step (True, c) (lcd_write a cs d) = lcd_write a (cs @ [c]) d"
    unfolding char_step by (simp add: lcd_write_def add.assoc add.commute [of 1])
  then show ?case using IH by simp
qed

lemma address_cmd:
  assumes "a < (0x80 :: u8)"
  shows "lcd_step (False, a OR 0x80) d = d\<lparr>to_ddram := True, address := a\<rparr>"
proof -
  have m: "(0x80 :: u8) = push_bit 7 1" "(0x7F :: u8) = mask 7" by (simp_all add: mask_eq_exp_minus_1)
  have "unat a < 2 ^ 7" using assms by (simp add: word_less_nat_alt)
  then have "take_bit 7 a = a" by (simp add: word_unat_eq_iff unsigned_take_bit_eq take_bit_nat_eq_self)
  then have lt: "bit a n \<Longrightarrow> n < 7" for n by (metis bit_take_bit_iff)
  have "(a OR 0x80) AND 0x7F = a" unfolding m
  proof (rule bit_word_eqI)
    fix n assume "n < LENGTH(8)"
    show "bit ((a OR push_bit 7 1) AND mask 7) n = bit a n"
      unfolding bit_and_iff bit_or_iff bit_push_bit_iff bit_mask_iff bit_1_iff
      using lt [of n] by (cases "n < 7") auto
  qed
  moreover have "bit (a OR 0x80) 7" unfolding m by (simp add: bit_simps)
  ultimately show ?thesis by (simp add: lcd_step_def)
qed

lemma text_written:
  assumes "lcd_ready dev s" "a < 0x80" "length cs \<le> 255"
  defines "t \<equiv> fold (IIC_LCD1602_Write_Data dev) cs (IIC_LCD1602_Write_Cmd dev (a OR 0x80) s)"
  shows "lcd_state t = lcd_write a cs (lcd_state s)" "lcd_ready dev t"
proof -
  note c = cmd_seen [OF assms(1), of "a OR 0x80"]
  note d = chars_seen [OF c(2), of cs]
  show "lcd_ready dev t" using d by (simp add: t_def)
  have "lcd_state t = fold lcd_step (map (Pair True) cs) (lcd_step (False, a OR 0x80) (lcd_state s))"
    using c(1) d by (simp add: t_def lcd_state_def)
  also have "\<dots> = lcd_write a cs ((lcd_state s)\<lparr>to_ddram := True, address := a\<rparr>)"
    using assms(3) by (simp add: address_cmd [OF assms(2)] chars_written)
  finally show "lcd_state t = lcd_write a cs (lcd_state s)" by (simp add: lcd_write_def cong: if_cong)
qed

lemma string_written:
  assumes "lcd_ready dev s" "a < 0x80" "n \<le> 255" "n \<le> length buf"
  shows "lcd_state (snd (IIC_LCD1602_Write_String dev a n buf s))
      = lcd_write a (map blank_zero (take n buf)) (lcd_state s)"
    "lcd_ready dev (snd (IIC_LCD1602_Write_String dev a n buf s))"
  using text_written [OF assms(1,2), of "map blank_zero (take n buf)"] assms(3,4)
  by (simp_all add: IIC_LCD1602_Write_String_def Let_def)

section \<open>Numbers\<close>

definition dig :: "nat \<Rightarrow> u8" where
  "dig d = 0x30 + of_nat d"

text \<open>A number right-justified in seven columns.\<close>

definition padded7 :: "nat \<Rightarrow> bytes" where
  "padded7 n = map (\<lambda>i. if 10 ^ (6 - i) \<le> n \<or> i = 6 then dig (n div 10 ^ (6 - i) mod 10) else 0x20) [0..<7]"

lemma Num_dig: "d < 10 \<Longrightarrow> Num ! d = dig d"
proof -
  assume "d < 10"
  then have "d \<in> {0, 1, 2, 3, 4, 5, 6, 7, 8, 9}" by auto
  then show ?thesis by (auto simp: Num_def dig_def)
qed

lemma mod_div_digit: "n mod (a * b) div a = n div a mod (b :: nat)"
  by (cases "a = 0") (simp_all add: mod_mult2_eq)

lemma digit_of:
  "n mod 100 div 10 = n div 10 mod (10 :: nat)" "n mod 1000 div 100 = n div 100 mod (10 :: nat)"
  "n mod 10000 div 1000 = n div 1000 mod (10 :: nat)" "n mod 100000 div 10000 = n div 10000 mod (10 :: nat)"
  "n mod 1000000 div 100000 = n div 100000 mod (10 :: nat)"
  using mod_div_digit [of n 10 10] mod_div_digit [of n 100 10] mod_div_digit [of n 1000 10]
    mod_div_digit [of n 10000 10] mod_div_digit [of n 100000 10] by simp_all

lemma number_chars_padded:
  assumes "n < 10000000"
  shows "number_chars n = padded7 n"
proof -
  have top: "n < 10 * k \<Longrightarrow> 0 < k \<Longrightarrow> Num ! (n div k) = dig (n div k mod 10)" for k
  proof -
    assume "n < 10 * k" "0 < k"
    then have "n div k < 10" by (simp add: div_less_iff_less_mult mult.commute)
    then show ?thesis by (simp add: Num_dig)
  qed
  have low: "Num ! (n mod 10) = dig (n mod 10)" "Num ! (n div k mod 10) = dig (n div k mod 10)" for k
    by (simp_all add: Num_dig)
  have p: "padded7 n = [if 1000000 \<le> n then dig (n div 1000000 mod 10) else 0x20,
      if 100000 \<le> n then dig (n div 100000 mod 10) else 0x20, if 10000 \<le> n then dig (n div 10000 mod 10) else 0x20,
      if 1000 \<le> n then dig (n div 1000 mod 10) else 0x20, if 100 \<le> n then dig (n div 100 mod 10) else 0x20,
      if 10 \<le> n then dig (n div 10 mod 10) else 0x20, dig (n mod 10)]"
    by (simp add: padded7_def upt_rec)
  show ?thesis
    unfolding p number_chars_def digit_of low
    using assms top [of 100] top [of 1000] top [of 10000] top [of 100000] top [of 1000000] by auto
qed

lemma length_padded7 [simp]: "length (padded7 n) = 7"
  by (simp add: padded7_def)

lemma number_written:
  assumes "lcd_ready dev s" "a < 0x80" "unat num < 10000000"
  shows "lcd_state (IIC_LCD1602_Write_Number dev a num s) = lcd_write a (padded7 (unat num)) (lcd_state s)"
    "lcd_ready dev (IIC_LCD1602_Write_Number dev a num s)"
  using text_written [OF assms(1,2), of "padded7 (unat num)"]
  by (simp_all add: IIC_LCD1602_Write_Number_def number_chars_padded [OF assms(3)])

lemma number2_written:
  assumes "lcd_ready dev s" "a < 0x80" "unat num < 100"
  shows "lcd_state (IIC_LCD1602_Write_Number2 dev a num s)
      = lcd_write a [dig (unat num div 10), dig (unat num mod 10)] (lcd_state s)"
    "lcd_ready dev (IIC_LCD1602_Write_Number2 dev a num s)"
  using text_written [OF assms(1,2), of "[dig (unat num div 10), dig (unat num mod 10)]"] assms(3)
  by (simp_all add: IIC_LCD1602_Write_Number2_def Num_dig div_less_iff_less_mult)

end
