(* ===== verification/Float32.thy ===== *)
theory Float32
  imports Complex_Main "HOL-Library.Log_Nat"
begin

text \<open>
  Single precision arithmetic of the application (the Cortex-M4F, or the compiler's library): every
  operation and every conversion yields the exact result rounded to binary32, to the nearest value and
  to the even one in the middle. The values are rational numbers; the model does not have infinities
  and NaNs, which the quantities of this program (converter counts, volts, amperes) never reach, as
  every divisor is a positive constant or count and every operand is below 2^40.
\<close>

section \<open>Rounding\<close>

definition half_even :: "rat \<Rightarrow> int" where
  "half_even x = (let k = \<lfloor>x\<rfloor>; r = x - of_int k
     in if r < 1 / 2 then k else if r > 1 / 2 then k + 1 else if even k then k else k + 1)"

text \<open>The number of binary digits.\<close>

function ilen :: "int \<Rightarrow> int" where
  "ilen p = (if p \<le> 0 then 0 else 1 + ilen (p div 2))"
  by pat_completeness auto

termination
  by (relation "measure nat") auto

declare ilen.simps [simp del]

lemma ilen_floorlog: "ilen p = int (floorlog 2 (nat p))"
proof (induction p rule: ilen.induct)
  case (1 p)
  show ?case
  proof (cases "p \<le> 0")
    case False
    then have "floorlog 2 (nat p) = Suc (floorlog 2 (nat p div 2))"
      by (subst compute_floorlog) simp
    moreover have "nat p div 2 = nat (p div 2)" by (simp add: nat_div_distrib)
    ultimately show ?thesis using False 1 by (simp add: ilen.simps [of p])
  qed (simp add: ilen.simps [of p] floorlog_def)
qed

definition ilog :: "rat \<Rightarrow> int" where
  "ilog x = (case quotient_of x of (p, q) \<Rightarrow>
     let k = ilen p - ilen q
     in if 2 powi k \<le> x then k else k - 1)"

definition quantum :: "rat \<Rightarrow> rat" where
  "quantum x = 2 powi (max (ilog x) (-126) - 23)"

definition rnd_pos :: "rat \<Rightarrow> rat" where
  "rnd_pos x = (if x = 0 then 0 else of_int (half_even (x / quantum x)) * quantum x)"

definition rnd :: "rat \<Rightarrow> rat" where
  "rnd x = (if x < 0 then - rnd_pos (- x) else rnd_pos x)"

lemma powi_le: "a \<le> b \<Longrightarrow> 2 powi a \<le> (2 powi b :: rat)"
  by (rule power_int_increasing) simp_all

lemma powi_less_cancel: "2 powi a < (2 powi b :: rat) \<Longrightarrow> a < b"
  using powi_le [of b a] by (meson not_le)

lemma powi_shift: "(2 powi (e + int n) :: rat) = 2 ^ n * 2 powi e"
  by (simp add: power_int_add)

lemma half_even_of_int [simp]: "half_even (of_int n) = n"
  by (simp add: half_even_def)

lemma half_even_mono:
  assumes "x \<le> y"
  shows "half_even x \<le> half_even y"
proof (cases "\<lfloor>x\<rfloor> = \<lfloor>y\<rfloor>")
  case True
  then show ?thesis using assms by (auto simp: half_even_def Let_def)
next
  case False
  then have "\<lfloor>x\<rfloor> + 1 \<le> \<lfloor>y\<rfloor>" using floor_mono [OF assms] by simp
  moreover have "half_even x \<le> \<lfloor>x\<rfloor> + 1" "\<lfloor>y\<rfloor> \<le> half_even y" by (auto simp: half_even_def Let_def)
  ultimately show ?thesis by linarith
qed

lemma floorlog_quotient:
  assumes "0 < p" "0 < q"
  defines "k \<equiv> int (floorlog 2 (nat p)) - int (floorlog 2 (nat q))"
  shows "2 powi (k - 1) < (of_int p / of_int q :: rat)" "(of_int p / of_int q :: rat) < 2 powi (k + 1)"
proof -
  let ?a = "floorlog 2 (nat p)" and ?b = "floorlog 2 (nat q)"
  have "2 ^ (?a - 1) \<le> nat p" "nat p < 2 ^ ?a" "2 ^ (?b - 1) \<le> nat q" "nat q < 2 ^ ?b"
    using floorlog_bounds [of "nat p" 2] floorlog_bounds [of "nat q" 2] assms(1,2) by auto
  then have i: "2 ^ (?a - 1) \<le> p" "p < 2 ^ ?a" "2 ^ (?b - 1) \<le> q" "q < 2 ^ ?b"
    using assms(1,2) by (simp_all add: nat_less_iff le_nat_iff)
  have nz: "?a \<noteq> 0" "?b \<noteq> 0" using assms(1,2) by (simp_all add: floorlog_def)
  have p: "2 powi (int ?a - 1) \<le> (of_int p :: rat)" "(of_int p :: rat) < 2 powi int ?a"
  proof -
    have "(of_int (2 ^ (?a - 1)) :: rat) \<le> of_int p" "(of_int p :: rat) < of_int (2 ^ ?a)"
      using i by (simp_all only: of_int_le_iff of_int_less_iff)
    moreover have e: "int ?a - 1 = int (?a - 1)" using nz by simp
    ultimately show "2 powi (int ?a - 1) \<le> (of_int p :: rat)" "(of_int p :: rat) < 2 powi int ?a"
      unfolding e power_int_of_nat by simp_all
  qed
  have q: "2 powi (int ?b - 1) \<le> (of_int q :: rat)" "(of_int q :: rat) < 2 powi int ?b"
  proof -
    have "(of_int (2 ^ (?b - 1)) :: rat) \<le> of_int q" "(of_int q :: rat) < of_int (2 ^ ?b)"
      using i by (simp_all only: of_int_le_iff of_int_less_iff)
    moreover have e: "int ?b - 1 = int (?b - 1)" using nz by simp
    ultimately show "2 powi (int ?b - 1) \<le> (of_int q :: rat)" "(of_int q :: rat) < 2 powi int ?b"
      unfolding e power_int_of_nat by simp_all
  qed
  have qpos: "(0 :: rat) < of_int q" using assms(2) by simp
  have "2 powi (k - 1) * (of_int q :: rat) < 2 powi (k - 1) * 2 powi int ?b"
    using q(2) by (intro mult_strict_left_mono) simp_all
  also have "\<dots> = 2 powi (k - 1 + int ?b)" using powi_shift [of "k - 1" ?b] by simp
  also have "k - 1 + int ?b = int ?a - 1" by (simp add: k_def)
  finally show "2 powi (k - 1) < (of_int p / of_int q :: rat)"
    using p(1) qpos by (simp add: pos_less_divide_eq)
  have "int ?a = (k + 1) + (int ?b - 1)" by (simp add: k_def)
  then have "2 powi int ?a = 2 powi (k + 1) * (2 powi (int ?b - 1) :: rat)"
    using power_int_add [of "2 :: rat" "k + 1" "int ?b - 1"] by simp
  also have "\<dots> \<le> 2 powi (k + 1) * (of_int q :: rat)"
    using q(1) by (intro mult_left_mono) simp_all
  finally have "of_int p < 2 powi (k + 1) * (of_int q :: rat)" by (rule less_le_trans [OF p(2)])
  then show "(of_int p / of_int q :: rat) < 2 powi (k + 1)"
    using qpos by (simp only: pos_divide_less_eq)
qed

lemma ilog_bounds:
  assumes "0 < x"
  shows "2 powi ilog x \<le> x" "x < 2 powi (ilog x + 1)"
proof -
  obtain p q where pq: "quotient_of x = (p, q)" by fastforce
  have q: "0 < q" using quotient_of_denom_pos [OF pq] .
  have x: "x = of_int p / of_int q" using quotient_of_div [OF pq] .
  have p: "0 < p" using assms q unfolding x by (simp add: zero_less_divide_iff)
  note b = floorlog_quotient [OF p q, folded x]
  show "2 powi ilog x \<le> x" "x < 2 powi (ilog x + 1)"
    using b by (auto simp: ilog_def pq Let_def not_le less_imp_le ilen_floorlog)
qed

lemma ilog_mono:
  assumes "0 < x" "x \<le> y"
  shows "ilog x \<le> ilog y"
proof -
  have "2 powi ilog x < (2 powi (ilog y + 1) :: rat)"
    using ilog_bounds(1) [OF assms(1)] ilog_bounds(2) [of y] assms by linarith
  then show ?thesis using powi_less_cancel by fastforce
qed

lemma quantum_pos [simp]: "0 < quantum x"
  by (simp add: quantum_def)

lemma rnd_pos_nonneg: "0 \<le> x \<Longrightarrow> 0 \<le> rnd_pos x"
proof -
  assume "0 \<le> x"
  then have "half_even (of_int 0) \<le> half_even (x / quantum x)"
    by (intro half_even_mono) (simp add: less_imp_le)
  then show ?thesis by (simp add: rnd_pos_def less_imp_le half_even_def)
qed

lemma rnd_pos_mono:
  assumes "0 < x" "x \<le> y"
  shows "rnd_pos x \<le> rnd_pos y"
proof (cases "max (ilog x) (-126) = max (ilog y) (-126)")
  case True
  then have q: "quantum x = quantum y" by (simp add: quantum_def)
  have "half_even (x / quantum y) \<le> half_even (y / quantum y)"
    using assms by (intro half_even_mono) (simp add: divide_right_mono less_imp_le)
  then show ?thesis using assms by (simp add: rnd_pos_def q mult_right_mono less_imp_le)
next
  case False
  let ?e = "max (ilog x) (-126)"
  have e: "?e < ilog y" "max (ilog y) (-126) = ilog y"
    using False ilog_mono [OF assms] by (auto simp: max_def split: if_splits)
  have "x < 2 powi (?e + 1)"
    using ilog_bounds(2) [OF assms(1)] powi_le [of "ilog x + 1" "?e + 1"] by linarith
  also have w: "(2 powi (?e + 1) :: rat) = 2 ^ 24 * quantum x"
    using powi_shift [of "?e - 23" 24] by (simp add: quantum_def algebra_simps)
  finally have "x / quantum x \<le> of_int (2 ^ 24)" by (simp add: pos_divide_le_eq)
  then have "half_even (x / quantum x) \<le> 2 ^ 24" using half_even_mono half_even_of_int by metis
  then have "(of_int (half_even (x / quantum x)) :: rat) \<le> of_int (2 ^ 24)" by (simp only: of_int_le_iff)
  then have "rnd_pos x \<le> 2 ^ 24 * quantum x"
    using assms by (simp add: rnd_pos_def mult_right_mono less_imp_le)
  also have "\<dots> = 2 powi (?e + 1)" using w by simp
  also have "\<dots> \<le> 2 powi ilog y" using e(1) by (intro powi_le) linarith
  also have w': "(2 powi ilog y :: rat) = 2 ^ 23 * quantum y"
    unfolding quantum_def e(2) using powi_shift [of "ilog y - 23" 23] by simp
  also have "\<dots> \<le> rnd_pos y"
  proof -
    have "2 ^ 23 * quantum y \<le> y" using ilog_bounds(1) [of y] assms w' by simp
    then have "of_int (2 ^ 23) \<le> y / quantum y" by (simp add: pos_le_divide_eq)
    then have "2 ^ 23 \<le> half_even (y / quantum y)" using half_even_mono half_even_of_int by metis
    then have "(of_int (2 ^ 23) :: rat) \<le> of_int (half_even (y / quantum y))" by (simp only: of_int_le_iff)
    then show ?thesis using assms by (simp add: rnd_pos_def mult_right_mono less_imp_le)
  qed
  finally show ?thesis .
qed

lemma rnd_mono:
  assumes "x \<le> y"
  shows "rnd x \<le> rnd y"
proof -
  consider "0 < x" | "x = 0" | "x < 0" "y < 0" | "x < 0" "0 \<le> y" by linarith
  then show ?thesis
  proof cases
    case 1
    then show ?thesis using assms rnd_pos_mono by (simp add: rnd_def)
  next
    case 2
    then show ?thesis using assms rnd_pos_nonneg [of y] by (simp add: rnd_def rnd_pos_def)
  next
    case 3
    then show ?thesis using assms rnd_pos_mono [of "- y" "- x"] by (simp add: rnd_def)
  next
    case 4
    then show ?thesis using rnd_pos_nonneg [of "- x"] rnd_pos_nonneg [of y] by (simp add: rnd_def)
  qed
qed

section \<open>Operations\<close>

definition f_of_nat :: "nat \<Rightarrow> rat" where
  "f_of_nat n = rnd (of_nat n)"

definition f_add :: "rat \<Rightarrow> rat \<Rightarrow> rat" where
  "f_add x y = rnd (x + y)"

definition f_sub :: "rat \<Rightarrow> rat \<Rightarrow> rat" where
  "f_sub x y = rnd (x - y)"

definition f_mul :: "rat \<Rightarrow> rat \<Rightarrow> rat" where
  "f_mul x y = rnd (x * y)"

definition f_div :: "rat \<Rightarrow> rat \<Rightarrow> rat" where
  "f_div x y = rnd (x / y)"

text \<open>A literal of the program with its decimal digits \<open>n\<close>, scaled by \<open>10 ^ k\<close>.\<close>

definition f_lit :: "rat \<Rightarrow> nat \<Rightarrow> rat" where
  "f_lit n k = rnd (n / 10 ^ k)"

lemma f_of_nat_numeral [simp]: "f_of_nat (numeral k) = rnd (numeral k)"
  by (simp add: f_of_nat_def)

lemma f_of_nat_mono: "m \<le> n \<Longrightarrow> f_of_nat m \<le> f_of_nat n"
  by (simp add: f_of_nat_def rnd_mono)

end
