(* ===== verification/Adc.thy ===== *)
theory Adc
  imports Prelude Float32 "HOL-Library.Multiset"
begin

text \<open>
  The analog inputs (\<open>adc.c\<close> of the application). The converters' DMA keeps the last four conversions
  in \<open>ADC_uiAdcDmaBuffer\<close>: the buffer is an input of the model, read anew in each round of the task.
  Six rounds make a value of every channel: the sum of the samples without their largest and their
  smallest one, divided by four; the theory proves that this is the mean of the middle four of the
  sorted samples. The values are converted to amperes and volts in single precision (theory
  \<open>Float32\<close>), and a software timer filters the supply voltage that the display and the reports
  show.
\<close>

section \<open>State\<close>

abbreviation (input) ADC_SAMPLE_TIMES :: nat where "ADC_SAMPLE_TIMES \<equiv> 6"
abbreviation (input) ADC_IDX_0 :: nat where "ADC_IDX_0 \<equiv> 0"
abbreviation (input) ADC_IDX_1 :: nat where "ADC_IDX_1 \<equiv> 1"
abbreviation (input) ADC_IDX_2 :: nat where "ADC_IDX_2 \<equiv> 2"
abbreviation (input) ADC_IDX_3 :: nat where "ADC_IDX_3 \<equiv> 3"
abbreviation (input) ADC_IDX_NUM :: nat where "ADC_IDX_NUM \<equiv> 4"

record TAdcInfoDef =
  ulADRawValue :: "u32 list list"
  ulADValue :: "u32 list"
  fConvertValue :: "rat list"
  ulVrefintAD :: u32
  ucAdIndex :: u8
  ucADSampleCount :: u8
  supply_voltage :: rat

text \<open>The information record and the three variables of the supply filter.\<close>

record adc =
  ADC_tInfo :: TAdcInfoDef
  supply_voltage_flag :: u8
  supply_voltage_buff :: rat
  supply_voltage_count :: u8

definition adc_init :: adc where
  "adc_init = \<lparr>ADC_tInfo = \<lparr>ulADRawValue = replicate 4 (replicate 6 0), ulADValue = replicate 4 0,
      fConvertValue = replicate 4 0, ulVrefintAD = 0, ucAdIndex = 0, ucADSampleCount = 0,
      supply_voltage = 0\<rparr>,
     supply_voltage_flag = 0, supply_voltage_buff = 0, supply_voltage_count = 0\<rparr>"

definition ADC_ptGetInfo :: "adc \<Rightarrow> TAdcInfoDef" where
  "ADC_ptGetInfo a = ADC_tInfo a"

section \<open>Conversion\<close>

definition set_convert :: "nat \<Rightarrow> rat \<Rightarrow> adc \<Rightarrow> adc" where
  "set_convert i v a =
     a\<lparr>ADC_tInfo := (ADC_tInfo a)\<lparr>fConvertValue := (fConvertValue (ADC_tInfo a))[i := v]\<rparr>\<rparr>"

definition current_of :: "u32 \<Rightarrow> rat" where
  "current_of v = f_div (f_sub (f_of_nat (unat v)) (f_lit 886663701 6)) (f_mul (f_lit 6327192096 6) (f_lit 28 4))"

definition voltage_of :: "u32 \<Rightarrow> rat" where
  "voltage_of v = f_mul (f_div (f_of_nat (unat v)) (f_of_nat 1241)) (f_of_nat 11)"

definition ADC_vValueHanler0 :: "u32 \<Rightarrow> adc \<Rightarrow> adc" where
  "ADC_vValueHanler0 v a = set_convert ADC_IDX_0 (current_of v) a"

definition ADC_vValueHanler1 :: "u32 \<Rightarrow> adc \<Rightarrow> adc" where
  "ADC_vValueHanler1 v a = set_convert ADC_IDX_1 (current_of v) a"

definition ADC_vValueHanler2 :: "u32 \<Rightarrow> adc \<Rightarrow> adc" where
  "ADC_vValueHanler2 v a = set_convert ADC_IDX_2 (voltage_of v) (a\<lparr>supply_voltage_flag := 1\<rparr>)"

definition ADC_vValueHanler3 :: "u32 \<Rightarrow> adc \<Rightarrow> adc" where
  "ADC_vValueHanler3 v a = a"

section \<open>Sampling\<close>

text \<open>One pass of the inner loop of \<open>ADC_vCalculateADValue\<close> over the samples of a channel.\<close>

definition scan_step :: "u32 \<times> u32 \<times> u32 \<Rightarrow> u32 \<Rightarrow> u32 \<times> u32 \<times> u32" where
  "scan_step s x = (case s of (ulMax, ulMin, ulSum) \<Rightarrow>
     (if x \<le> ulMax then ulMax else x, if ulMin \<le> x then ulMin else x, ulSum + x))"

definition channel_value :: "u32 list \<Rightarrow> u32" where
  "channel_value raw = (case foldl scan_step (raw ! 0, raw ! 0, 0) (take ADC_SAMPLE_TIMES raw) of
     (ulMax, ulMin, ulSum) \<Rightarrow> (ulSum - ulMax - ulMin) div 4)"

definition ADC_vCalculateADValue :: "adc \<Rightarrow> adc" where
  "ADC_vCalculateADValue a =
     (let i = ADC_tInfo a; vs = map channel_value (take ADC_IDX_NUM (ulADRawValue i));
        a = a\<lparr>ADC_tInfo := i\<lparr>ulADValue := vs\<rparr>\<rparr>;
        a = ADC_vValueHanler0 (vs ! ADC_IDX_0) a;
        a = ADC_vValueHanler1 (vs ! ADC_IDX_1) a;
        a = ADC_vValueHanler2 (vs ! ADC_IDX_2) a
      in ADC_vValueHanler3 (vs ! ADC_IDX_3) a)"

text \<open>One round of \<open>ADC_vTaskHandler_Entry\<close>, with the contents of the DMA buffer.\<close>

definition store_samples :: "u16 list \<Rightarrow> nat \<Rightarrow> u32 list list \<Rightarrow> u32 list list" where
  "store_samples dma n raw = map (\<lambda>i. (raw ! i)[n := ucast (dma ! i)]) [0..<ADC_IDX_NUM]"

definition ADC_vTaskHandler_Entry :: "u16 list \<Rightarrow> adc \<Rightarrow> adc" where
  "ADC_vTaskHandler_Entry dma a =
     (let i = ADC_tInfo a; n = ucADSampleCount i in
      if n < 6 then
        let i = i\<lparr>ulADRawValue := store_samples dma (unat n) (ulADRawValue i), ucADSampleCount := n + 1\<rparr> in
        if ucADSampleCount i \<ge> 6 then ADC_vCalculateADValue (a\<lparr>ADC_tInfo := i\<lparr>ucADSampleCount := 0\<rparr>\<rparr>)
        else a\<lparr>ADC_tInfo := i\<rparr>
      else a)"

section \<open>Supply filter\<close>

definition supply_voltage_timeout :: "adc \<Rightarrow> adc" where
  "supply_voltage_timeout a =
     (if supply_voltage_flag a = 1 then
        let v = fConvertValue (ADC_tInfo a) ! ADC_IDX_2;
          s = (if supply_voltage (ADC_tInfo a) < 10 then v else supply_voltage (ADC_tInfo a));
          b = f_add (supply_voltage_buff a) v;
          n = supply_voltage_count a + 1;
          m = f_div b (f_of_nat (unat n))
        in if n = 60
          then a\<lparr>ADC_tInfo := (ADC_tInfo a)\<lparr>supply_voltage := (if s < m then s else m)\<rparr>,
                 supply_voltage_buff := 0, supply_voltage_count := 0\<rparr>
          else a\<lparr>ADC_tInfo := (ADC_tInfo a)\<lparr>supply_voltage := s\<rparr>,
                 supply_voltage_buff := b, supply_voltage_count := n\<rparr>
      else a)"

section \<open>The samples of a value\<close>

definition adc_ok :: "adc \<Rightarrow> bool" where
  "adc_ok a \<longleftrightarrow> length (ulADRawValue (ADC_tInfo a)) = 4 \<and>
     (\<forall>row \<in> set (ulADRawValue (ADC_tInfo a)). length row = 6) \<and>
     length (ulADValue (ADC_tInfo a)) = 4 \<and> length (fConvertValue (ADC_tInfo a)) = 4 \<and>
     unat (ucADSampleCount (ADC_tInfo a)) < 6 \<and> unat (supply_voltage_count a) < 60"

lemma adc_ok_init: "adc_ok adc_init"
  by (simp add: adc_ok_def adc_init_def)

lemma adc_ok_row:
  assumes "adc_ok a" "i < 4"
  shows "length (ulADRawValue (ADC_tInfo a) ! i) = 6"
  using assms by (auto simp: adc_ok_def)

lemma info_set_convert [simp]:
  "ulADRawValue (ADC_tInfo (set_convert i v a)) = ulADRawValue (ADC_tInfo a)"
  "ulADValue (ADC_tInfo (set_convert i v a)) = ulADValue (ADC_tInfo a)"
  "fConvertValue (ADC_tInfo (set_convert i v a)) = (fConvertValue (ADC_tInfo a))[i := v]"
  "ucADSampleCount (ADC_tInfo (set_convert i v a)) = ucADSampleCount (ADC_tInfo a)"
  "supply_voltage (ADC_tInfo (set_convert i v a)) = supply_voltage (ADC_tInfo a)"
  "supply_voltage_flag (set_convert i v a) = supply_voltage_flag a"
  "supply_voltage_buff (set_convert i v a) = supply_voltage_buff a"
  "supply_voltage_count (set_convert i v a) = supply_voltage_count a"
  by (simp_all add: set_convert_def)

lemma calculate_simps [simp]:
  "ulADRawValue (ADC_tInfo (ADC_vCalculateADValue a)) = ulADRawValue (ADC_tInfo a)"
  "ulADValue (ADC_tInfo (ADC_vCalculateADValue a)) = map channel_value (take 4 (ulADRawValue (ADC_tInfo a)))"
  "ucADSampleCount (ADC_tInfo (ADC_vCalculateADValue a)) = ucADSampleCount (ADC_tInfo a)"
  "supply_voltage (ADC_tInfo (ADC_vCalculateADValue a)) = supply_voltage (ADC_tInfo a)"
  "length (fConvertValue (ADC_tInfo (ADC_vCalculateADValue a))) = length (fConvertValue (ADC_tInfo a))"
  "supply_voltage_buff (ADC_vCalculateADValue a) = supply_voltage_buff a"
  "supply_voltage_count (ADC_vCalculateADValue a) = supply_voltage_count a"
  by (simp_all add: ADC_vCalculateADValue_def ADC_vValueHanler0_def ADC_vValueHanler1_def
      ADC_vValueHanler2_def ADC_vValueHanler3_def Let_def)

lemma length_store_samples [simp]: "length (store_samples dma n raw) = 4"
  by (simp add: store_samples_def)

lemma nth_store_samples [simp]: "i < 4 \<Longrightarrow> store_samples dma n raw ! i = (raw ! i)[n := ucast (dma ! i)]"
  by (simp add: store_samples_def)

lemma unat_u8_add1: "unat (n :: u8) < 255 \<Longrightarrow> unat (n + 1) = unat n + 1"
  by (subst unat_add_lem [THEN iffD1]) simp_all

lemma round_shape:
  assumes "adc_ok a"
  shows "\<forall>row \<in> set (store_samples dma n (ulADRawValue (ADC_tInfo a))). length row = 6"
  using adc_ok_row [OF assms] by (auto simp: store_samples_def)

lemma round_early:
  assumes "adc_ok a" "unat (ucADSampleCount (ADC_tInfo a)) < 5"
  shows "ADC_vTaskHandler_Entry dma a = a\<lparr>ADC_tInfo := (ADC_tInfo a)\<lparr>
      ulADRawValue := store_samples dma (unat (ucADSampleCount (ADC_tInfo a))) (ulADRawValue (ADC_tInfo a)),
      ucADSampleCount := ucADSampleCount (ADC_tInfo a) + 1\<rparr>\<rparr>"
  using assms(2) by (simp add: ADC_vTaskHandler_Entry_def Let_def word_less_nat_alt word_le_nat_alt unat_u8_add1)

lemma round_last:
  assumes "adc_ok a" "unat (ucADSampleCount (ADC_tInfo a)) = 5"
  shows "ADC_vTaskHandler_Entry dma a = ADC_vCalculateADValue (a\<lparr>ADC_tInfo := (ADC_tInfo a)\<lparr>
      ulADRawValue := store_samples dma 5 (ulADRawValue (ADC_tInfo a)), ucADSampleCount := 0\<rparr>\<rparr>)"
  using assms(2) by (simp add: ADC_vTaskHandler_Entry_def Let_def word_less_nat_alt word_le_nat_alt unat_u8_add1)

lemma adc_ok_round:
  assumes "adc_ok a"
  shows "adc_ok (ADC_vTaskHandler_Entry dma a)"
proof (cases "unat (ucADSampleCount (ADC_tInfo a)) < 5")
  case True
  show ?thesis using assms True round_shape [OF assms]
    by (simp add: round_early [OF assms True] adc_ok_def unat_u8_add1)
next
  case False
  then have "unat (ucADSampleCount (ADC_tInfo a)) = 5" using assms by (simp add: adc_ok_def)
  then show ?thesis using assms round_shape [OF assms]
    by (simp add: round_last [OF assms] adc_ok_def)
qed

lemma adc_ok_timeout:
  assumes "adc_ok a"
  shows "adc_ok (supply_voltage_timeout a)"
proof -
  have "unat (supply_voltage_count a + 1) = unat (supply_voltage_count a) + 1"
    using assms by (intro unat_u8_add1) (simp add: adc_ok_def)
  moreover have "supply_voltage_count a + 1 \<noteq> 60 \<Longrightarrow> unat (supply_voltage_count a + 1) \<noteq> 60"
    by (simp add: word_unat_eq_iff)
  ultimately show ?thesis using assms by (auto simp: supply_voltage_timeout_def adc_ok_def Let_def)
qed

section \<open>The trimmed mean\<close>

lemma foldl_scan: "foldl scan_step (mx, mn, s) xs = (foldl max mx xs, foldl min mn xs, s + sum_list xs)"
proof (induction xs arbitrary: mx mn s)
  case (Cons x xs)
  have "scan_step (mx, mn, s) x = (max mx x, min mn x, s + x)"
    by (auto simp: scan_step_def max_def min_def)
  then show ?case using Cons.IH by (simp add: add.assoc)
qed simp

lemma unat_foldl_max: "unat (foldl max (m :: u32) xs) = foldl max (unat m) (map unat xs)"
  by (induction xs arbitrary: m) (simp_all add: max_def word_le_nat_alt)

lemma unat_foldl_min: "unat (foldl min (m :: u32) xs) = foldl min (unat m) (map unat xs)"
  by (induction xs arbitrary: m) (simp_all add: min_def word_le_nat_alt)

lemma foldl_max_Max: "foldl max (m :: nat) xs = Max (insert m (set xs))"
proof (induction xs arbitrary: m)
  case (Cons x xs)
  then show ?case by (simp add: insert_commute Max_insert2 max.commute)
     (cases "xs = []"; simp add: max.assoc max.left_commute)
qed simp

lemma foldl_min_Min: "foldl min (m :: nat) xs = Min (insert m (set xs))"
proof (induction xs arbitrary: m)
  case (Cons x xs)
  then show ?case by (cases "xs = []") (simp_all add: min.assoc min.left_commute)
qed simp

lemma unat_sum_u32:
  "sum_list (map unat xs) < 4294967296 \<Longrightarrow> unat (sum_list (xs :: u32 list)) = sum_list (map unat xs)"
  by (induction xs) (simp_all add: unat_add_no_wrap)

text \<open>Without its largest and its smallest element, a list of six sums up to its middle four.\<close>

lemma trimmed_six:
  assumes "length (ns :: nat list) = 6"
  shows "foldl max (ns ! 0) ns + foldl min (ns ! 0) ns + sum_list (take 4 (drop 1 (sort ns))) = sum_list ns"
proof -
  have ne: "ns \<noteq> []" "ns ! 0 \<in> set ns" using assms by auto
  have "length (sort ns) = Suc (Suc (Suc (Suc (Suc (Suc 0)))))" using assms by simp
  then obtain a b c d e f where s: "sort ns = [a, b, c, d, e, f]"
    unfolding length_Suc_conv length_0_conv by blast
  have set: "set ns = {a, b, c, d, e, f}" using s set_sort [where xs = ns] by (metis list.set(1) list.set(2))
  have ord: "a \<le> b" "b \<le> c" "c \<le> d" "d \<le> e" "e \<le> f" using sorted_sort [of ns] s by simp_all
  have "foldl max (ns ! 0) ns = Max (set ns)" "foldl min (ns ! 0) ns = Min (set ns)"
    using ne by (simp_all add: foldl_max_Max foldl_min_Min insert_absorb)
  moreover have "Max (set ns) = f" "Min (set ns) = a"
    unfolding set using ord by (intro Max_eqI Min_eqI; force)+
  moreover have "sum_list ns = sum_list (sort ns)" by (simp flip: sum_mset_sum_list)
  ultimately show ?thesis by (simp add: s)
qed

lemma channel_value_trimmed:
  assumes "length raw = 6" "\<forall>x \<in> set raw. unat x < 65536"
  shows "unat (channel_value raw) = sum_list (take 4 (drop 1 (sort (map unat raw)))) div 4"
proof -
  let ?ns = "map unat raw"
  have len: "length ?ns = 6" using assms(1) by simp
  have "sum_list (map unat raw) \<le> sum_list (map (\<lambda>_. 65536) raw)"
    using assms(2) by (intro sum_list_mono) (auto simp: less_imp_le)
  then have bound: "sum_list ?ns < 4294967296" using assms(1) by (simp add: sum_list_replicate map_replicate_const)
  let ?M = "foldl max (raw ! 0) raw" and ?m = "foldl min (raw ! 0) raw"
  have h: "unat (raw ! 0) = ?ns ! 0" using assms(1) by simp
  have eq: "unat ?M + unat ?m + sum_list (take 4 (drop 1 (sort ?ns))) = sum_list ?ns"
    using trimmed_six [OF len] by (simp add: unat_foldl_max unat_foldl_min h)
  have S: "unat (sum_list raw) = sum_list ?ns" using bound by (rule unat_sum_u32)
  have "unat (sum_list raw - ?M) = sum_list ?ns - unat ?M"
    by (subst unat_sub) (use eq S in \<open>simp_all add: word_le_nat_alt\<close>)
  then have "unat (sum_list raw - ?M - ?m) = sum_list ?ns - unat ?M - unat ?m"
    by (subst unat_sub) (use eq in \<open>simp_all add: word_le_nat_alt\<close>)
  then have "unat (sum_list raw - ?M - ?m) = sum_list (take 4 (drop 1 (sort ?ns)))" using eq by simp
  then show ?thesis using assms(1) by (simp add: channel_value_def foldl_scan unat_div)
qed

section \<open>Six rounds\<close>

lemma take_Suc_update: "n < length xs \<Longrightarrow> take (Suc n) (xs[n := v]) = take n xs @ [v]"
  by (simp add: take_Suc_conv_app_nth)

lemma rounds:
  assumes "adc_ok a" "ucADSampleCount (ADC_tInfo a) = 0" "length ds \<le> 5"
  defines "b \<equiv> fold ADC_vTaskHandler_Entry ds a"
  shows "adc_ok b \<and> unat (ucADSampleCount (ADC_tInfo b)) = length ds \<and>
    (\<forall>i < 4. take (length ds) (ulADRawValue (ADC_tInfo b) ! i) = map (\<lambda>d. ucast (d ! i)) ds)"
  using assms(3) unfolding b_def
proof (induction ds rule: rev_induct)
  case Nil
  then show ?case using assms(1,2) by simp
next
  case (snoc d ds)
  let ?b = "fold ADC_vTaskHandler_Entry ds a"
  have ok: "adc_ok ?b" and n: "unat (ucADSampleCount (ADC_tInfo ?b)) = length ds"
    and rows: "\<forall>i < 4. take (length ds) (ulADRawValue (ADC_tInfo ?b) ! i) = map (\<lambda>d. ucast (d ! i)) ds"
    using snoc by auto
  have lt: "unat (ucADSampleCount (ADC_tInfo ?b)) < 5" using n snoc.prems by simp
  have "take (Suc (length ds)) ((ulADRawValue (ADC_tInfo ?b) ! i)[length ds := ucast (d ! i)])
      = map (\<lambda>d. ucast (d ! i)) (ds @ [d])" if "i < 4" for i
    using that rows adc_ok_row [OF ok that] snoc.prems by (simp add: take_Suc_update)
  then show ?case
    using adc_ok_round [OF ok] n lt by (simp add: round_early [OF ok lt] unat_u8_add1)
qed

text \<open>
  C30. The value of a channel is the mean of the middle four of its last six samples: six rounds of
  the sampling task, whatever the converters deliver, leave in \<open>ulADValue\<close> the sum of the sorted
  samples without the first and the last, divided by four.
\<close>

theorem adc_value_is_trimmed_mean:
  assumes "adc_ok a" "ucADSampleCount (ADC_tInfo a) = 0" "length ds = 6" "i < 4"
  shows "unat (ulADValue (ADC_tInfo (fold ADC_vTaskHandler_Entry ds a)) ! i)
    = sum_list (take 4 (drop 1 (sort (map (\<lambda>d. unat (d ! i)) ds)))) div 4"
proof -
  obtain es d where ds: "ds = es @ [d]" "length es = 5"
    using assms(3) by (cases ds rule: rev_cases) auto
  let ?b = "fold ADC_vTaskHandler_Entry es a"
  have ok: "adc_ok ?b" and n: "unat (ucADSampleCount (ADC_tInfo ?b)) = 5"
    and rows: "take 5 (ulADRawValue (ADC_tInfo ?b) ! i) = map (\<lambda>d. ucast (d ! i)) es"
    using rounds [OF assms(1,2), of es] ds(2) assms(4) by auto
  let ?raw = "(ulADRawValue (ADC_tInfo ?b) ! i)[5 := ucast (d ! i)]"
  have len: "length ?raw = 6" using adc_ok_row [OF ok assms(4)] by simp
  then have "?raw = take (Suc 5) ?raw" by simp
  also have "\<dots> = map (\<lambda>d. ucast (d ! i)) ds"
    using adc_ok_row [OF ok assms(4)] rows ds by (subst take_Suc_update) simp_all
  finally have raw: "?raw = map (\<lambda>d. ucast (d ! i)) ds" .
  have lt: "unat (x :: u16) < 65536" for x using unsigned_less [of x] by simp
  have uc: "unat (ucast (x :: u16) :: u32) = unat x" for x
    using lt [of x] by (simp add: unsigned_ucast_eq take_bit_nat_eq_self)
  have small: "\<forall>x \<in> set ?raw. unat x < 65536"
    unfolding raw using lt by (auto simp: uc)
  have "ulADValue (ADC_tInfo (fold ADC_vTaskHandler_Entry ds a)) ! i = channel_value ?raw"
    using assms(4) by (simp add: ds(1) round_last [OF ok n])
  then show ?thesis
    using channel_value_trimmed [OF len small] by (simp add: raw comp_def uc)
qed

theorem adc_value_is_trimmed_mean_witness:
  "unat (ulADValue (ADC_tInfo (fold ADC_vTaskHandler_Entry
      (map (\<lambda>v. [0, 0, v, 0]) [2700, 2704, 2690, 2705, 900, 4095]) adc_init)) ! 2) = 2699"
proof -
  have "sort [2700, 2704, 2690, 2705, 900, 4095] = [900, 2690, 2700, 2704, 2705, 4095 :: nat]" by simp
  then show ?thesis
    by (subst adc_value_is_trimmed_mean [OF adc_ok_init]) (simp_all add: adc_init_def)
qed

section \<open>The supply voltage\<close>

text \<open>The two activities that change the record: a round of the task and a tick of the filter's timer.\<close>

datatype adc_event = Sample "u16 list" | Supply_tick

primrec adc_event_step :: "adc_event \<Rightarrow> adc \<Rightarrow> adc" where
  "adc_event_step (Sample dma) a = ADC_vTaskHandler_Entry dma a"
| "adc_event_step Supply_tick a = supply_voltage_timeout a"

lemma supply_round [simp]:
  "supply_voltage (ADC_tInfo (ADC_vTaskHandler_Entry dma a)) = supply_voltage (ADC_tInfo a)"
  by (simp add: ADC_vTaskHandler_Entry_def Let_def)

lemma supply_tick_le:
  assumes "10 \<le> supply_voltage (ADC_tInfo a)"
  shows "supply_voltage (ADC_tInfo (supply_voltage_timeout a)) \<le> supply_voltage (ADC_tInfo a)"
  using assms by (simp add: supply_voltage_timeout_def Let_def)

text \<open>The buffer holds the sum of the values since the last full minute, in single precision.\<close>

lemma supply_minute:
  assumes "supply_voltage_flag a = 1" "supply_voltage_count a = 59"
  shows "supply_voltage (ADC_tInfo (supply_voltage_timeout a))
    \<le> f_div (f_add (supply_voltage_buff a) (fConvertValue (ADC_tInfo a) ! 2)) (f_of_nat 60)"
  using assms by (simp add: supply_voltage_timeout_def Let_def)

text \<open>
  The voltage the machine shows and reports never rises while it stays above ten volts: along any
  sequence of sampling rounds and filter ticks in which the filtered supply voltage does not drop
  below 10 V, each later value is at most each earlier one. A battery that recovers or is charged
  while the machine is on keeps its lowest reading.
\<close>

theorem supply_voltage_never_rises:
  assumes "\<forall>k \<le> length evs. 10 \<le> supply_voltage (ADC_tInfo (fold adc_event_step (take k evs) a))"
    and "j \<le> k" "k \<le> length evs"
  shows "supply_voltage (ADC_tInfo (fold adc_event_step (take k evs) a))
    \<le> supply_voltage (ADC_tInfo (fold adc_event_step (take j evs) a))"
  using assms(2,3)
proof (induction k rule: dec_induct)
  case (step k)
  let ?b = "fold adc_event_step (take k evs) a"
  have "10 \<le> supply_voltage (ADC_tInfo ?b)" using assms(1) step by simp
  then have "supply_voltage (ADC_tInfo (adc_event_step (evs ! k) ?b)) \<le> supply_voltage (ADC_tInfo ?b)"
    by (cases "evs ! k") (simp_all add: supply_tick_le)
  moreover have "take (Suc k) evs = take k evs @ [evs ! k]" using step by (simp add: take_Suc_conv_app_nth)
  ultimately show ?case using step by simp
qed simp

text \<open>An example: a tick at 24 V, a round of samples and a tick at 26 V leave 24 V.\<close>

definition example_adc :: adc where
  "example_adc = adc_init\<lparr>ADC_tInfo := (ADC_tInfo adc_init)\<lparr>fConvertValue := [0, 0, 26, 0],
     supply_voltage := 24\<rparr>, supply_voltage_flag := 1, supply_voltage_buff := 1000, supply_voltage_count := 59\<rparr>"

theorem supply_voltage_never_rises_witness:
  "supply_voltage (ADC_tInfo (fold adc_event_step [Sample [0, 0, 0, 0], Supply_tick] example_adc)) \<le> 24"
proof -
  let ?evs = "[Sample [0, 0, 0, 0], Supply_tick]"
  have "list_all (\<lambda>k. 10 \<le> supply_voltage (ADC_tInfo (fold adc_event_step (take k ?evs) example_adc))) [0, 1, 2]"
    by code_simp
  then have "\<forall>k \<le> length ?evs. 10 \<le> supply_voltage (ADC_tInfo (fold adc_event_step (take k ?evs) example_adc))"
    by (auto simp: le_Suc_eq numeral_2_eq_2)
  then show ?thesis
    using supply_voltage_never_rises [of ?evs example_adc 0 2] by (simp add: example_adc_def)
qed

end
