(* ===== verification/ErrorCodes.thy ===== *)
theory ErrorCodes
  imports Adc
begin

text \<open>
  The battery faults (\<open>app_error.c\<close>): every 10 ms the task compares the converted supply voltage with
  three limits and sets or clears the bits of \<open>uiErrorCode\<close>. The motor faults of the file are
  commented out. The theory gives the exact converter counts at which each fault starts, and shows
  that an over-voltage fault stays although the voltage is back to normal.
\<close>

section \<open>Error code\<close>

abbreviation (input) Battery_Empty :: nat where "Battery_Empty \<equiv> 0"
abbreviation (input) Battery_Under :: nat where "Battery_Under \<equiv> 1"
abbreviation (input) Battery_Over :: nat where "Battery_Over \<equiv> 2"
abbreviation (input) ERROR_NUM :: nat where "ERROR_NUM \<equiv> 7"

definition vErrorCodeAdd :: "nat \<Rightarrow> u32 \<Rightarrow> u32" where
  "vErrorCodeAdd codenum c = c OR push_bit codenum 1"

definition vErrorCodeDel :: "nat \<Rightarrow> u32 \<Rightarrow> u32" where
  "vErrorCodeDel codenum c = c AND NOT (push_bit codenum 1)"

definition Error_GetInfo :: "u32 \<Rightarrow> u32" where
  "Error_GetInfo c = c"

text \<open>The four tests of \<open>Error_TaskHandler\<close> in their order; the last one deletes \<open>Battery_Under\<close> twice.\<close>

definition Error_TaskHandler :: "rat \<Rightarrow> u32 \<Rightarrow> u32" where
  "Error_TaskHandler v c =
     (let c = (if v < f_lit 192 1
          then vErrorCodeDel Battery_Over (vErrorCodeDel Battery_Empty (vErrorCodeAdd Battery_Under c)) else c);
        c = (if v > f_lit 192 1 \<and> v < f_lit 220 1
          then vErrorCodeDel Battery_Over (vErrorCodeDel Battery_Under (vErrorCodeAdd Battery_Empty c)) else c);
        c = (if v > f_lit 305 1
          then vErrorCodeDel Battery_Under (vErrorCodeDel Battery_Empty (vErrorCodeAdd Battery_Over c)) else c);
        c = (if v > f_lit 220 1 \<and> v < f_lit 305 1
          then vErrorCodeDel Battery_Under (vErrorCodeDel Battery_Under (vErrorCodeDel Battery_Empty c)) else c)
      in c)"

lemma bit_vErrorCodeAdd: "bit (vErrorCodeAdd n c) k \<longleftrightarrow> bit c k \<or> (k = n \<and> n < 32)"
  by (auto simp: vErrorCodeAdd_def bit_simps)

lemma bit_vErrorCodeDel: "bit (vErrorCodeDel n c) k \<longleftrightarrow> bit c k \<and> k \<noteq> n"
  by (auto simp: vErrorCodeDel_def bit_simps dest: bit_imp_le_length)

lemmas bit_error_code = bit_vErrorCodeAdd bit_vErrorCodeDel

section \<open>Limits in counts\<close>

lemma voltage_of_mono:
  assumes "unat r \<le> unat s"
  shows "voltage_of r \<le> voltage_of s"
proof -
  have c: "0 \<le> f_of_nat 1241" "0 \<le> f_of_nat 11"
    using rnd_mono [of 0 1241] rnd_mono [of 0 11] by (simp_all add: rnd_def rnd_pos_def)
  have "f_of_nat (unat r) / f_of_nat 1241 \<le> f_of_nat (unat s) / f_of_nat 1241"
    using f_of_nat_mono [OF assms] c by (intro divide_right_mono)
  then have "f_div (f_of_nat (unat r)) (f_of_nat 1241) \<le> f_div (f_of_nat (unat s)) (f_of_nat 1241)"
    unfolding f_div_def by (rule rnd_mono)
  then show ?thesis unfolding voltage_of_def f_mul_def using c by (intro rnd_mono mult_right_mono)
qed

text \<open>The conversion at the counts next to each limit.\<close>

lemma volts_2166: "f_mul (f_div (rnd 2166) (rnd 1241)) (rnd 11) < f_lit 192 1"
  by code_simp

lemma volts_2167: "f_lit 192 1 < f_mul (f_div (rnd 2167) (rnd 1241)) (rnd 11)"
  by code_simp

lemma volts_2481: "f_mul (f_div (rnd 2481) (rnd 1241)) (rnd 11) < f_lit 220 1"
  by code_simp

lemma volts_2482: "f_mul (f_div (rnd 2482) (rnd 1241)) (rnd 11) = f_lit 220 1"
  by code_simp

lemma volts_2483: "f_lit 220 1 < f_mul (f_div (rnd 2483) (rnd 1241)) (rnd 11)"
  by code_simp

lemma volts_3440: "f_mul (f_div (rnd 3440) (rnd 1241)) (rnd 11) < f_lit 305 1"
  by code_simp

lemma volts_3441: "f_lit 305 1 < f_mul (f_div (rnd 3441) (rnd 1241)) (rnd 11)"
  by code_simp

lemma limit_counts:
  "voltage_of 2166 < f_lit 192 1" "f_lit 192 1 < voltage_of 2167" "voltage_of 2481 < f_lit 220 1"
  "voltage_of 2482 = f_lit 220 1" "f_lit 220 1 < voltage_of 2483" "voltage_of 3440 < f_lit 305 1"
  "f_lit 305 1 < voltage_of 3441"
  using volts_2166 volts_2167 volts_2481 volts_2482 volts_2483 volts_3440 volts_3441
  by (simp_all add: voltage_of_def)

lemma limits_ordered: "f_lit 192 1 < f_lit 220 1" "f_lit 220 1 < f_lit 305 1"
  by code_simp+

datatype battery_class = Under | Empty | At_22 | Normal | Over

definition class_of_count :: "u32 \<Rightarrow> battery_class" where
  "class_of_count r = (if r \<le> 2166 then Under else if r \<le> 2481 then Empty else if r = 2482 then At_22
     else if r \<le> 3440 then Normal else Over)"

definition class_effect :: "battery_class \<Rightarrow> u32 \<Rightarrow> nat \<Rightarrow> bool" where
  "class_effect k c n = (case k of
     Under \<Rightarrow> n = Battery_Under \<or> n \<notin> {Battery_Empty, Battery_Over} \<and> bit c n
   | Empty \<Rightarrow> n = Battery_Empty \<or> n \<notin> {Battery_Under, Battery_Over} \<and> bit c n
   | At_22 \<Rightarrow> bit c n
   | Normal \<Rightarrow> n \<notin> {Battery_Empty, Battery_Under} \<and> bit c n
   | Over \<Rightarrow> n = Battery_Over \<or> n \<notin> {Battery_Empty, Battery_Under} \<and> bit c n)"

lemma voltage_class:
  "class_of_count r = Under \<longleftrightarrow> voltage_of r < f_lit 192 1"
  "class_of_count r = Empty \<longleftrightarrow> f_lit 192 1 < voltage_of r \<and> voltage_of r < f_lit 220 1"
  "class_of_count r = At_22 \<longleftrightarrow> voltage_of r = f_lit 220 1"
  "class_of_count r = Normal \<longleftrightarrow> f_lit 220 1 < voltage_of r \<and> voltage_of r < f_lit 305 1"
  "class_of_count r = Over \<longleftrightarrow> f_lit 305 1 < voltage_of r"
proof -
  consider "unat r \<le> 2166" | "2167 \<le> unat r" "unat r \<le> 2481" | "unat r = 2482"
    | "2483 \<le> unat r" "unat r \<le> 3440" | "3441 \<le> unat r" by linarith
  note cases = this
  have m: "unat r \<le> unat s \<Longrightarrow> voltage_of r \<le> voltage_of s"
    "unat s \<le> unat r \<Longrightarrow> voltage_of s \<le> voltage_of r" for s
    by (simp_all add: voltage_of_mono)
  have "(class_of_count r = Under \<longleftrightarrow> voltage_of r < f_lit 192 1) \<and>
    (class_of_count r = Empty \<longleftrightarrow> f_lit 192 1 < voltage_of r \<and> voltage_of r < f_lit 220 1) \<and>
    (class_of_count r = At_22 \<longleftrightarrow> voltage_of r = f_lit 220 1) \<and>
    (class_of_count r = Normal \<longleftrightarrow> f_lit 220 1 < voltage_of r \<and> voltage_of r < f_lit 305 1) \<and>
    (class_of_count r = Over \<longleftrightarrow> f_lit 305 1 < voltage_of r)"
  proof (cases rule: cases)
    case 1
    then show ?thesis using m(1) [of 2166] limit_counts limits_ordered
      by (simp add: class_of_count_def word_le_nat_alt)
  next
    case 2
    then show ?thesis using m(1) [of 2481] m(2) [of 2167] limit_counts limits_ordered
      by (simp add: class_of_count_def word_le_nat_alt)
  next
    case 3
    then have "r = 2482" by (simp add: word_unat_eq_iff)
    then show ?thesis using limit_counts limits_ordered by (simp add: class_of_count_def word_le_nat_alt)
  next
    case 4
    then show ?thesis using m(1) [of 3440] m(2) [of 2483] limit_counts limits_ordered
      by (simp add: class_of_count_def word_le_nat_alt word_unat_eq_iff)
  next
    case 5
    then show ?thesis using m(2) [of 3441] limit_counts limits_ordered
      by (simp add: class_of_count_def word_le_nat_alt word_unat_eq_iff)
  qed
  then show "class_of_count r = Under \<longleftrightarrow> voltage_of r < f_lit 192 1"
    "class_of_count r = Empty \<longleftrightarrow> f_lit 192 1 < voltage_of r \<and> voltage_of r < f_lit 220 1"
    "class_of_count r = At_22 \<longleftrightarrow> voltage_of r = f_lit 220 1"
    "class_of_count r = Normal \<longleftrightarrow> f_lit 220 1 < voltage_of r \<and> voltage_of r < f_lit 305 1"
    "class_of_count r = Over \<longleftrightarrow> f_lit 305 1 < voltage_of r"
    by simp_all
qed

text \<open>
  What the fault task does, in converter counts: up to 2166 it reports under-voltage and clears
  the other battery faults, from 2167 to 2481 it reports an empty battery, from 3441 over-voltage; from
  2483 to 3440 it clears the first two and keeps the third; at exactly 2482 (22.0 V) it changes
  nothing, so the last fault stays.
\<close>

theorem error_code_by_count:
  "bit (Error_TaskHandler (voltage_of r) c) n = class_effect (class_of_count r) c n"
proof (cases "class_of_count r")
  case Under
  then show ?thesis using voltage_class [of r] limits_ordered
    by (auto simp: Error_TaskHandler_def Let_def class_effect_def bit_error_code)
next
  case Empty
  then show ?thesis using voltage_class [of r] limits_ordered
    by (auto simp: Error_TaskHandler_def Let_def class_effect_def bit_error_code)
next
  case At_22
  then show ?thesis using voltage_class [of r] limits_ordered
    by (auto simp: Error_TaskHandler_def Let_def class_effect_def bit_error_code)
next
  case Normal
  then show ?thesis using voltage_class [of r] limits_ordered
    by (auto simp: Error_TaskHandler_def Let_def class_effect_def bit_error_code)
next
  case Over
  then show ?thesis using voltage_class [of r] limits_ordered
    by (auto simp: Error_TaskHandler_def Let_def class_effect_def bit_error_code)
qed

section \<open>The latched fault\<close>

lemma over_kept:
  assumes "bit c Battery_Over" "f_lit 220 1 \<le> v"
  shows "bit (Error_TaskHandler v c) Battery_Over"
  using assms limits_ordered by (simp add: Error_TaskHandler_def Let_def bit_error_code)

text \<open>
  An over-voltage fault is latched: once the bit is set, it stays set for as long as the voltage
  does not fall below 22.0 V, however long it has been within the normal range.
\<close>

theorem over_voltage_latched:
  assumes "bit c Battery_Over" "\<forall>v \<in> set vs. f_lit 220 1 \<le> v"
  shows "bit (fold Error_TaskHandler vs c) Battery_Over"
  using assms by (induction vs arbitrary: c) (simp_all add: over_kept)

theorem over_voltage_latched_witness: "bit (fold Error_TaskHandler (replicate 1000 25) 4) 2"
proof (rule over_voltage_latched)
  have "f_lit 220 1 \<le> 25" by code_simp
  then show "\<forall>v \<in> set (replicate 1000 25). f_lit 220 1 \<le> v" by simp
qed simp

end
