(* ===== verification/Display.thy ===== *)
theory Display
  imports Lcd Clock Adc ErrorCodes
begin

text \<open>
  The display task (\<open>app_display.c\<close>): a state machine that writes the start-up texts, the battery and
  the operating hours, the fault texts and the closing texts, and reads the display back every third
  second to restart it when its contents are not what they should be. Inputs are the clock, the
  supply voltage and the fault code; the software timers and the bus are part of the state.
\<close>

section \<open>Texts\<close>

abbreviation (input) LCD_DDRAM_ADDR_LINE1_START :: u8 where "LCD_DDRAM_ADDR_LINE1_START \<equiv> 0x00"
abbreviation (input) LCD_DDRAM_ADDR_LINE2_START :: u8 where "LCD_DDRAM_ADDR_LINE2_START \<equiv> 0x40"
abbreviation (input) LCD_DDRAM_ADDR_TIME_HRS_START :: u8 where "LCD_DDRAM_ADDR_TIME_HRS_START \<equiv> 0x46"
abbreviation (input) LCD_DDRAM_ADDR_TIME_LIN_START :: u8 where "LCD_DDRAM_ADDR_TIME_LIN_START \<equiv> 0x4D"
abbreviation (input) LCD_DDRAM_ADDR_TIME_MIN_START :: u8 where "LCD_DDRAM_ADDR_TIME_MIN_START \<equiv> 0x4E"

definition text_bytes :: "string \<Rightarrow> bytes" where
  "text_bytes cs = map (\<lambda>c. of_char c) cs"

definition company :: bytes where "company = text_bytes ''Taung           ''"
definition version :: bytes where "version = text_bytes ''P2001_0_0_V0.0.2''"
definition time_text :: bytes where "time_text = text_bytes ''OpHrs:''"
definition close_text :: bytes where "close_text = text_bytes ''Please wait ... ''"
definition OTA_text :: bytes where "OTA_text = text_bytes ''App updating ...''"
definition clear_line :: bytes where "clear_line = replicate 16 0x20"
definition clear_1 :: bytes where "clear_1 = replicate 14 0x20"

text \<open>Row \<open>k\<close> of the table \<open>battery\<close> has \<open>k\<close> full blocks of ten, between E and F.\<close>

definition battery :: "nat \<Rightarrow> bytes" where
  "battery k = [0x45] @ replicate k 0xFF @ replicate (10 - k) 0x5F @ [0x46, 0x20, 0x20]"

definition error1 :: "bytes list" where
  "error1 = map text_bytes
     [''     Battery     '', '' Empty  Voltage  '', ''     Battery     '', '' Under  Voltage  '',
      ''     Battery     '', '' Over   Voltage  '', ''     Suction     '', '' Over   Current  '',
      ''     Branch      '', '' Over   Current  '', ''     Suction     '', '' Open   Circuit  '',
      ''     Branch      '', '' Open   Circuit  '']"

section \<open>State\<close>

datatype TDisplayTaskState =
    DISPLAY_TASK_INIT | DISPLAY_TASK_INIT_DONE | DISPLAY_TASK_START_UP | DISPLAY_TASK_START_UP_DONE
  | DISPLAY_TASK_RUN | DISPLAY_TASK_ERROR | DISPLAY_TASK_CLOSE | DISPLAY_TASK_REBOOT | DISPLAY_TASK_OTA

record DisplayTaskDef =
  dp_tTaskState :: TDisplayTaskState
  batter_info :: u8
  wifi_switch :: u8

record display =
  DisplayTaskState :: DisplayTaskDef
  Compare_buff_1 :: bytes
  Compare_buff_2 :: bytes
  error_i :: u8
  dp_iic :: iic
  dp_timers :: timers

definition Display_ptGetInfo :: "display \<Rightarrow> DisplayTaskDef" where
  "Display_ptGetInfo d = DisplayTaskState d"

definition set_display_state :: "TDisplayTaskState \<Rightarrow> display \<Rightarrow> display" where
  "set_display_state s d = d\<lparr>DisplayTaskState := (DisplayTaskState d)\<lparr>dp_tTaskState := s\<rparr>\<rparr>"

definition set_battery :: "u8 \<Rightarrow> display \<Rightarrow> display" where
  "set_battery b d = d\<lparr>DisplayTaskState := (DisplayTaskState d)\<lparr>batter_info := b\<rparr>\<rparr>"

definition on_iic :: "(iic \<Rightarrow> iic) \<Rightarrow> display \<Rightarrow> display" where
  "on_iic f d = d\<lparr>dp_iic := f (dp_iic d)\<rparr>"

definition write_string :: "iic_device \<Rightarrow> u8 \<Rightarrow> nat \<Rightarrow> bytes \<Rightarrow> display \<Rightarrow> display" where
  "write_string dev a n buf = on_iic (\<lambda>s. snd (IIC_LCD1602_Write_String dev a n buf s))"

definition start_timer :: "TSWTimerIndex \<Rightarrow> u32 \<Rightarrow> display \<Rightarrow> display" where
  "start_timer t v d = d\<lparr>dp_timers := TMR_vSetTime_100msValue (dp_timers d) t v\<rparr>"

section \<open>Screens\<close>

definition Display_Empty :: "iic_device \<Rightarrow> display \<Rightarrow> display" where
  "Display_Empty dev d =
     (let d = write_string dev LCD_DDRAM_ADDR_LINE1_START 16 clear_line d
      in write_string dev LCD_DDRAM_ADDR_LINE2_START 16 clear_line d)"

definition Display_Start_up :: "iic_device \<Rightarrow> display \<Rightarrow> display" where
  "Display_Start_up dev d =
     (if \<not> TMR_bIsTimeExpired (dp_timers d) TMR_DISPLAY_START_VERSION then
        let d = write_string dev LCD_DDRAM_ADDR_LINE1_START 16 company d
        in write_string dev LCD_DDRAM_ADDR_LINE2_START 16 clear_line d
      else if \<not> TMR_bIsTimeExpired (dp_timers d) TMR_DISPLAY_START_LOGO then
        let d = write_string dev LCD_DDRAM_ADDR_LINE1_START 16 version d
        in write_string dev LCD_DDRAM_ADDR_LINE2_START 16 clear_line d
      else d)"

definition show_battery :: "iic_device \<Rightarrow> nat \<Rightarrow> display \<Rightarrow> display" where
  "show_battery dev k d =
     set_battery (of_nat k) (write_string dev LCD_DDRAM_ADDR_LINE1_START 14 (battery k) d)"

text \<open>The three lowest levels blink: blank in the second half of a second.\<close>

definition blink_battery :: "iic_device \<Rightarrow> TtimeInfo \<Rightarrow> nat \<Rightarrow> display \<Rightarrow> display" where
  "blink_battery dev clk k d =
     set_battery (of_nat k)
       (if systick_100ms clk < 5 then write_string dev LCD_DDRAM_ADDR_LINE1_START 14 (battery k) d
        else write_string dev LCD_DDRAM_ADDR_LINE1_START 14 clear_1 d)"

definition battery_steps :: "iic_device \<Rightarrow> TtimeInfo \<Rightarrow> rat \<Rightarrow> display \<Rightarrow> display" where
  "battery_steps dev clk v d =
     (let d = (if v \<ge> f_lit 246 1 then show_battery dev 10 d else d);
        d = (if v \<ge> f_lit 244 1 \<and> v < f_lit 246 1 then show_battery dev 9 d else d);
        d = (if v \<ge> f_lit 242 1 \<and> v < f_lit 244 1 then show_battery dev 8 d else d);
        d = (if v \<ge> f_lit 238 1 \<and> v < f_lit 242 1 then show_battery dev 7 d else d);
        d = (if v \<ge> f_lit 234 1 \<and> v < f_lit 238 1 then show_battery dev 6 d else d);
        d = (if v \<ge> f_lit 231 1 \<and> v < f_lit 234 1 then show_battery dev 5 d else d);
        d = (if v \<ge> f_lit 229 1 \<and> v < f_lit 231 1 then show_battery dev 4 d else d);
        d = (if v \<ge> f_lit 226 1 \<and> v < f_lit 229 1 then show_battery dev 3 d else d);
        d = (if v \<ge> f_lit 224 1 \<and> v < f_lit 226 1 then blink_battery dev clk 2 d else d);
        d = (if v \<ge> f_lit 222 1 \<and> v < f_lit 224 1 then blink_battery dev clk 1 d else d)
      in if v < f_lit 222 1 then blink_battery dev clk 0 d else d)"

definition Display_UseTime :: "iic_device \<Rightarrow> TtimeInfo \<Rightarrow> display \<Rightarrow> display" where
  "Display_UseTime dev clk d =
     (let d = write_string dev LCD_DDRAM_ADDR_LINE2_START 6 time_text d;
        d = on_iic (IIC_LCD1602_Write_Number dev LCD_DDRAM_ADDR_TIME_HRS_START (systick_hrs clk)) d;
        d = write_string dev LCD_DDRAM_ADDR_TIME_LIN_START 1 (drop 5 time_text) d
      in on_iic (IIC_LCD1602_Write_Number2 dev LCD_DDRAM_ADDR_TIME_MIN_START (ucast (systick_min clk))) d)"

definition Display_WIFI_ON :: "iic_device \<Rightarrow> display \<Rightarrow> display" where
  "Display_WIFI_ON dev = on_iic (IIC_LCD1602_WIFI_Display dev)"

definition Display_WIFI_OFF :: "iic_device \<Rightarrow> display \<Rightarrow> display" where
  "Display_WIFI_OFF dev = on_iic (IIC_LCD1602_WIFI_Not_Display dev)"

definition Display_WIFI_Filp :: "iic_device \<Rightarrow> TtimeInfo \<Rightarrow> display \<Rightarrow> display" where
  "Display_WIFI_Filp dev clk d =
     (if systick_100ms clk < 5 then on_iic (IIC_LCD1602_WIFI_Display dev) d
      else on_iic (IIC_LCD1602_WIFI_Not_Display dev) d)"

definition Display_Run :: "iic_device \<Rightarrow> TtimeInfo \<Rightarrow> rat \<Rightarrow> display \<Rightarrow> display" where
  "Display_Run dev clk v d =
     (let d = battery_steps dev clk v d; d = Display_UseTime dev clk d
      in if wifi_switch (DisplayTaskState d) = 1 then Display_WIFI_ON dev d
        else if TMR_bIsTimeExpired (dp_timers d) TMR_DISPLAY_WIFI then Display_WIFI_OFF dev d
        else Display_WIFI_Filp dev clk d)"

text \<open>The row a byte index selects; beyond the table there is nothing to show.\<close>

definition error_row :: "u8 \<Rightarrow> bytes" where
  "error_row i = (if unat i < length error1 then error1 ! unat i else [])"

definition Display_Error :: "iic_device \<Rightarrow> u32 \<Rightarrow> display \<Rightarrow> display" where
  "Display_Error dev err d =
     (if drop_bit (unat (error_i d) div 2) err AND 1 \<noteq> 0 then
        let d = (if TMR_bIsTimeExpired (dp_timers d) TMR_DISPLAY_ERROR then
            let d = start_timer TMR_DISPLAY_ERROR 20 d;
              d = write_string dev LCD_DDRAM_ADDR_LINE1_START 16 (error_row (error_i d)) d;
              d = d\<lparr>error_i := error_i d + 1\<rparr>;
              d = write_string dev LCD_DDRAM_ADDR_LINE2_START 16 (error_row (error_i d)) d
            in d\<lparr>error_i := error_i d + 1\<rparr>
          else d)
        in if error_i d \<ge> of_nat ERROR_NUM * 2 then d\<lparr>error_i := 0\<rparr> else d
      else d\<lparr>error_i := error_i d + 1\<rparr>)"

definition Display_Close :: "iic_device \<Rightarrow> display \<Rightarrow> display" where
  "Display_Close dev d =
     (let d = write_string dev LCD_DDRAM_ADDR_LINE1_START 16 close_text d;
        d = write_string dev LCD_DDRAM_ADDR_LINE2_START 16 clear_line d
      in Display_Empty dev d)"

definition Display_OTA :: "iic_device \<Rightarrow> display \<Rightarrow> display" where
  "Display_OTA dev d =
     (let d = write_string dev LCD_DDRAM_ADDR_LINE1_START 16 OTA_text d
      in write_string dev LCD_DDRAM_ADDR_LINE2_START 16 clear_line d)"

section \<open>Reading back\<close>

definition differs :: "bytes \<Rightarrow> bytes \<Rightarrow> nat \<Rightarrow> bool" where
  "differs a b n \<longleftrightarrow> take n a \<noteq> take n b"

text \<open>The switch of \<open>DisplayErrorHandler\<close>: the state after the two lines that were read.\<close>

definition check_lines :: "TDisplayTaskState \<Rightarrow> bytes \<Rightarrow> bytes \<Rightarrow> TDisplayTaskState" where
  "check_lines st l1 l2 = (case st of
     DISPLAY_TASK_START_UP \<Rightarrow>
       if differs l1 company 16 \<and> differs l1 version 16 \<and> differs l1 clear_line 16
       then DISPLAY_TASK_REBOOT else st
   | DISPLAY_TASK_RUN \<Rightarrow>
       if list_all (\<lambda>k. differs l1 (battery k) 14) [0..<11] \<and> differs l1 clear_line 14 then DISPLAY_TASK_REBOOT
       else if differs l2 time_text 6 \<and> differs l2 clear_line 14 then DISPLAY_TASK_REBOOT
       else st
   | DISPLAY_TASK_ERROR \<Rightarrow>
       if differs l1 (error1 ! 0) 16 \<and> differs l1 (error1 ! 2) 16 \<and> differs l1 clear_line 14
       then DISPLAY_TASK_REBOOT
       else if differs l2 (error1 ! 1) 16 \<and> differs l2 (error1 ! 3) 16 \<and> differs l2 clear_line 14
       then DISPLAY_TASK_REBOOT
       else st
   | _ \<Rightarrow> st)"

definition DisplayErrorHandler :: "iic_device \<Rightarrow> display \<Rightarrow> display" where
  "DisplayErrorHandler dev d =
     (case IIC_LCD1602_Read_String dev LCD_DDRAM_ADDR_LINE1_START 16 (dp_iic d) of (l1, s) \<Rightarrow>
      case IIC_LCD1602_Read_String dev LCD_DDRAM_ADDR_LINE2_START 16 s of (l2, s) \<Rightarrow>
      let d = d\<lparr>Compare_buff_1 := l1, Compare_buff_2 := l2, dp_iic := s\<rparr>
      in set_display_state (check_lines (dp_tTaskState (DisplayTaskState d)) l1 l2) d)"

section \<open>The task\<close>

text \<open>The switch of one round of \<open>Display_vTaskHandler_entry\<close>, and the round.\<close>

definition display_switch :: "iic_device \<Rightarrow> TtimeInfo \<Rightarrow> rat \<Rightarrow> u32 \<Rightarrow> display \<Rightarrow> display" where
  "display_switch dev clk v err d = (case dp_tTaskState (DisplayTaskState d) of
     DISPLAY_TASK_INIT \<Rightarrow>
       let d = on_iic (IIC_LCD1602_Write_Init dev) d; d = on_iic (IIC_LCD1602_WIFI_Init dev) d;
         d = start_timer TMR_DISPLAY_START_VERSION 15 d; d = start_timer TMR_DISPLAY_START_LOGO 30 d;
         d = start_timer TMR_DISPLAY_WIFI 100 d
       in set_display_state DISPLAY_TASK_INIT_DONE d
   | DISPLAY_TASK_INIT_DONE \<Rightarrow> d
   | DISPLAY_TASK_START_UP \<Rightarrow>
       let d = Display_Start_up dev d
       in if TMR_bIsTimeExpired (dp_timers d) TMR_DISPLAY_START_LOGO
         then set_display_state DISPLAY_TASK_START_UP_DONE d else d
   | DISPLAY_TASK_START_UP_DONE \<Rightarrow> d
   | DISPLAY_TASK_RUN \<Rightarrow> Display_Run dev clk v d
   | DISPLAY_TASK_ERROR \<Rightarrow> Display_Error dev err d
   | DISPLAY_TASK_CLOSE \<Rightarrow> Display_Close dev d
   | DISPLAY_TASK_REBOOT \<Rightarrow>
       let d = on_iic (IIC_LCD1602_Write_Init dev) d; d = on_iic (IIC_LCD1602_WIFI_Init dev) d
       in set_display_state DISPLAY_TASK_RUN d
   | DISPLAY_TASK_OTA \<Rightarrow> Display_OTA dev d)"

definition Display_vTaskHandler_entry :: "iic_device \<Rightarrow> TtimeInfo \<Rightarrow> rat \<Rightarrow> u32 \<Rightarrow> display \<Rightarrow> display" where
  "Display_vTaskHandler_entry dev clk v err d =
     (let d = display_switch dev clk v err d
      in if systick_s clk mod 3 = 0 then DisplayErrorHandler dev d else d)"

section \<open>The operating hours on the display\<close>

definition lcd_line :: "u8 \<Rightarrow> display \<Rightarrow> bytes" where
  "lcd_line a d = map (\<lambda>i. ddram (lcd_state (dp_iic d)) (a + of_nat i)) [0..<16]"

abbreviation display_ready :: "iic_device \<Rightarrow> display \<Rightarrow> bool" where
  "display_ready dev d \<equiv> lcd_ready dev (dp_iic d)"

lemma write_string_lcd:
  assumes "display_ready dev d" "a < 0x80" "n \<le> 255" "n \<le> length buf"
  shows "lcd_state (dp_iic (write_string dev a n buf d)) = lcd_write a (map blank_zero (take n buf)) (lcd_state (dp_iic d))"
    "display_ready dev (write_string dev a n buf d)"
  using string_written [OF assms] by (simp_all add: write_string_def on_iic_def)

lemma ddram_lcd_write:
  "ddram (lcd_write a cs d) x = (if unat (x - a) < length cs then cs ! unat (x - a) else ddram d x)"
  by (simp add: lcd_write_def)

lemma use_time_lcd:
  assumes "display_ready dev d" "clock_wf clk"
  shows "lcd_line 0x40 (Display_UseTime dev clk d) =
      time_text @ padded7 (unat (systick_hrs clk)) @ [0x3A, dig (unat (systick_min clk) div 10), dig (unat (systick_min clk) mod 10)]"
    "display_ready dev (Display_UseTime dev clk d)"
proof -
  let ?h = "unat (systick_hrs clk)" and ?m = "unat (systick_min clk)"
  have h: "?h < 10000000" and m: "?m < 60" using assms(2) by (simp_all add: clock_wf_def word_less_nat_alt)
  have um: "unat (ucast (systick_min clk) :: u8) = ?m" using m by (simp add: unsigned_ucast_eq take_bit_nat_eq_self)
  have tt: "time_text = [0x4F, 0x70, 0x48, 0x72, 0x73, 0x3A]" by (simp add: time_text_def text_bytes_def)
  let ?d1 = "write_string dev 0x40 6 time_text d"
  let ?s2 = "IIC_LCD1602_Write_Number dev 0x46 (systick_hrs clk) (dp_iic ?d1)"
  let ?d2 = "on_iic (IIC_LCD1602_Write_Number dev 0x46 (systick_hrs clk)) ?d1"
  let ?d3 = "write_string dev 0x4D 1 (drop 5 time_text) ?d2"
  have w1: "lcd_state (dp_iic ?d1) = lcd_write 0x40 time_text (lcd_state (dp_iic d))" "display_ready dev ?d1"
    using write_string_lcd [OF assms(1), of "0x40" 6 time_text] by (simp_all add: tt blank_zero_def)
  have w2: "lcd_state (dp_iic ?d2) = lcd_write 0x46 (padded7 ?h) (lcd_state (dp_iic ?d1))" "display_ready dev ?d2"
    using number_written [OF w1(2) _ h, of "0x46"] by (simp_all add: on_iic_def)
  have w3: "lcd_state (dp_iic ?d3) = lcd_write 0x4D [0x3A] (lcd_state (dp_iic ?d2))" "display_ready dev ?d3"
    using write_string_lcd [OF w2(2), of "0x4D" 1 "drop 5 time_text"] by (simp_all add: tt blank_zero_def)
  have w4: "lcd_state (IIC_LCD1602_Write_Number2 dev 0x4E (ucast (systick_min clk)) (dp_iic ?d3))
      = lcd_write 0x4E [dig (?m div 10), dig (?m mod 10)] (lcd_state (dp_iic ?d3))"
    "lcd_ready dev (IIC_LCD1602_Write_Number2 dev 0x4E (ucast (systick_min clk)) (dp_iic ?d3))"
    using number2_written [OF w3(2), of "0x4E" "ucast (systick_min clk)"] m by (simp_all add: um)
  have u: "Display_UseTime dev clk d = on_iic (IIC_LCD1602_Write_Number2 dev 0x4E (ucast (systick_min clk))) ?d3"
    by (simp add: Display_UseTime_def Let_def)
  show "display_ready dev (Display_UseTime dev clk d)" using w4(2) by (simp add: u on_iic_def)
  have "length (padded7 ?h) = Suc (Suc (Suc (Suc (Suc (Suc (Suc 0))))))" by simp
  then obtain p q r s t v w where p: "padded7 ?h = [p, q, r, s, t, v, w]"
    unfolding length_Suc_conv length_0_conv by blast
  have "dp_iic (on_iic f x) = f (dp_iic x)" for f x by (simp add: on_iic_def)
  then have st: "lcd_state (dp_iic (Display_UseTime dev clk d)) =
      lcd_write 0x4E [dig (?m div 10), dig (?m mod 10)] (lcd_write 0x4D [0x3A]
        (lcd_write 0x46 (padded7 ?h) (lcd_write 0x40 time_text (lcd_state (dp_iic d)))))"
    using w4(1) w3(1) w2(1) w1(1) by (simp only: u)
  have minus: "unat (- 1 :: u8) = 255" by code_simp
  show "lcd_line 0x40 (Display_UseTime dev clk d) =
      time_text @ padded7 ?h @ [0x3A, dig (?m div 10), dig (?m mod 10)]"
    unfolding lcd_line_def st p tt by (simp add: ddram_lcd_write upt_rec minus)
qed

text \<open>
  C27. The operating hours reach the display: on a bus whose expander answers, with a running clock
  (hours below 10,000,000, minutes below 60), \<open>Display_UseTime\<close> leaves in the second line of the
  display's memory the text \<open>OpHrs:\<close>, the hours right-justified in seven columns, a colon and two
  digits of minutes, through the nibbles, the expander bytes and the bits on the two lines.
\<close>

theorem display_shows_hours:
  assumes "display_ready dev d" "clock_wf clk"
  shows "lcd_line 0x40 (Display_UseTime dev clk d) =
    time_text @ padded7 (unat (systick_hrs clk)) @
      [0x3A, dig (unat (systick_min clk) div 10), dig (unat (systick_min clk) mod 10)]"
  by (rule use_time_lcd [OF assms])

definition display_init :: display where
  "display_init = \<lparr>DisplayTaskState = \<lparr>dp_tTaskState = DISPLAY_TASK_INIT, batter_info = 0, wifi_switch = 0\<rparr>,
     Compare_buff_1 = replicate 16 0, Compare_buff_2 = replicate 16 0, error_i = 0, dp_iic = iic_init,
     dp_timers = timers_init\<rparr>"

definition example_dev :: iic_device where
  "example_dev = (\<lambda>w n. n mod 7 \<noteq> 6)"

lemma example_ready: "display_ready example_dev display_init"
proof -
  have "answering example_dev"
    unfolding answering_def
  proof (intro allI impI)
    fix w :: wave and p :: nat
    have "p + (6 - p mod 7) = 6 + 7 * (p div 7)"
      using div_mult_mod_eq [of p 7] mod_less_divisor [of 7 p] by linarith
    then have "(p + (6 - p mod 7)) mod 7 = 6" by (simp only: mod_mult_self2) simp
    then show "\<exists>k < 251. \<not> example_dev w (p + k)"
      by (intro exI [of _ "6 - p mod 7"]) (simp add: example_dev_def)
  qed
  then show ?thesis
    by (simp add: lcd_ready_def port_ready_def display_init_def iic_init_def idle_def bus_free_def
        point_def heard_def port_bytes_def expander_bytes_def in_phase_def)
qed

theorem display_shows_hours_witness:
  "lcd_line 0x40 (Display_UseTime example_dev (time_init\<lparr>systick_hrs := 1234, systick_min := 56\<rparr>) display_init)
    = text_bytes ''OpHrs:   1234:56''"
proof -
  have "padded7 1234 = [0x20, 0x20, 0x20, 0x31, 0x32, 0x33, 0x34]"
    by (simp add: padded7_def upt_rec dig_def)
  then show ?thesis
    by (subst display_shows_hours [OF example_ready])
      (simp_all add: clock_wf_def time_init_def time_text_def text_bytes_def dig_def)
qed

section \<open>The over-voltage screen\<close>

text \<open>
  With the timer of the fault screen expired and the round at the first row of a pending fault, the two
  rows of this fault are written.
\<close>

definition pending_fault :: "nat \<Rightarrow> u32 \<Rightarrow> display \<Rightarrow> bool" where
  "pending_fault k err d \<longleftrightarrow> k < 3 \<and> bit err k \<and> error_i d = of_nat (2 * k) \<and>
     TMR_bIsTimeExpired (dp_timers d) TMR_DISPLAY_ERROR"

lemma error1_length: "length error1 = 14"
  by (simp add: error1_def)

lemma error_rows:
  "k < 3 \<Longrightarrow> length (error1 ! (2 * k)) = 17 \<and> length (error1 ! (2 * k + 1)) = 17 \<and>
     map blank_zero (error1 ! (2 * k)) = error1 ! (2 * k) \<and> map blank_zero (error1 ! (2 * k + 1)) = error1 ! (2 * k + 1)"
proof -
  assume "k < 3"
  then have "k = 0 \<or> k = 1 \<or> k = 2" by auto
  then show ?thesis by (auto simp: error1_def text_bytes_def blank_zero_def)
qed

lemma error_bit: "drop_bit k (err :: u32) AND 1 \<noteq> 0 \<longleftrightarrow> bit err k"
  by (simp add: bit_iff_odd_drop_bit and_one_eq odd_iff_mod_2_eq_one even_iff_mod_2_eq_zero)

lemma lcd_line_written:
  assumes "lcd_state (dp_iic d) = lcd_write a cs (lcd_write b cs' l)" "length cs = 16" "length cs' = 16"
    and "a = 0x40" "b = 0"
  shows "lcd_line 0x40 d = cs" "lcd_line 0 d = cs'"
proof -
  have n: "unat (of_nat i :: u8) = i" if "i < 16" for i using that by (simp add: unat_of_nat)
  have "\<forall>i \<in> set [0..<16]. 16 \<le> unat (of_nat i - 0x40 :: u8)" by code_simp
  then have far: "\<not> unat (of_nat i - 0x40 :: u8) < 16" if "i < 16" for i using that by (simp add: not_less)
  show "lcd_line 0x40 d = cs"
    using assms(2) by (intro nth_equalityI) (simp_all add: lcd_line_def assms(1,4) ddram_lcd_write n)
  show "lcd_line 0 d = cs'"
    using assms(2,3) far by (intro nth_equalityI) (simp_all add: lcd_line_def assms(1,4,5) ddram_lcd_write n)
qed

lemma fault_screen:
  assumes "display_ready dev d" "pending_fault k err d"
  shows "lcd_line 0 (Display_Error dev err d) = take 16 (error1 ! (2 * k))"
    "lcd_line 0x40 (Display_Error dev err d) = take 16 (error1 ! (2 * k + 1))"
proof -
  have k: "k < 3" "bit err k" "error_i d = of_nat (2 * k)"
    and e: "TMR_bIsTimeExpired (dp_timers d) TMR_DISPLAY_ERROR"
    using assms(2) by (simp_all add: pending_fault_def)
  have u: "unat (error_i d) = 2 * k" "unat (error_i d + 1) = 2 * k + 1"
  proof -
    show 1: "unat (error_i d) = 2 * k" using k(1) unfolding k(3) by (simp add: unat_of_nat del: of_nat_mult)
    then show "unat (error_i d + 1) = 2 * k + 1" using k(1) by (simp add: unat_u8_add1)
  qed
  note rows = error_rows [OF k(1)]
  have r: "error_row (error_i d) = error1 ! (2 * k)" "error_row (error_i d + 1) = error1 ! (2 * k + 1)"
    using k(1) by (simp_all add: error_row_def u error1_length)
  let ?d0 = "start_timer TMR_DISPLAY_ERROR 20 d"
  let ?d1 = "write_string dev 0 16 (error1 ! (2 * k)) ?d0"
  let ?d2 = "write_string dev 0x40 16 (error1 ! (2 * k + 1)) (?d1\<lparr>error_i := error_i d + 1\<rparr>)"
  have keep: "error_i (write_string dev a n buf x) = error_i x" "dp_iic (x\<lparr>error_i := i\<rparr>) = dp_iic x"
    "error_i ?d0 = error_i d" "dp_iic ?d0 = dp_iic d" for a n buf x i
    by (simp_all add: write_string_def on_iic_def start_timer_def)
  have w1: "lcd_state (dp_iic ?d1) = lcd_write 0 (take 16 (error1 ! (2 * k))) (lcd_state (dp_iic d))" "display_ready dev ?d1"
    using write_string_lcd [of dev ?d0 0 16 "error1 ! (2 * k)"] assms(1) rows by (simp_all add: keep flip: take_map)
  have w2: "lcd_state (dp_iic ?d2) = lcd_write 0x40 (take 16 (error1 ! (2 * k + 1))) (lcd_state (dp_iic ?d1))"
    using write_string_lcd(1) [of dev "?d1\<lparr>error_i := error_i d + 1\<rparr>" "0x40" 16 "error1 ! (2 * k + 1)"]
      w1(2) rows by (simp flip: take_map)
  have iic: "dp_iic (Display_Error dev err d) = dp_iic ?d2"
    using e k(2) by (simp add: Display_Error_def error_bit u(1) Let_def keep r)
  have "lcd_state (dp_iic (Display_Error dev err d)) = lcd_write 0x40 (take 16 (error1 ! (2 * k + 1)))
      (lcd_write 0 (take 16 (error1 ! (2 * k))) (lcd_state (dp_iic d)))"
    by (simp only: iic w2 w1(1))
  from lcd_line_written [OF this] rows
  show "lcd_line 0 (Display_Error dev err d) = take 16 (error1 ! (2 * k))"
    "lcd_line 0x40 (Display_Error dev err d) = take 16 (error1 ! (2 * k + 1))"
    by simp_all
qed

text \<open>
  The check of the display does not know the over-voltage text: after \<open>Display_Error\<close> has shown the
  two rows of a battery fault, the check made with exactly these two rows accepts the empty and the
  under-voltage screen and restarts the display (to the running screen) on the over-voltage screen.
\<close>

theorem over_voltage_screen_reboots:
  assumes "display_ready dev d" "pending_fault k err d"
  defines "s \<equiv> Display_Error dev err d"
  shows "check_lines DISPLAY_TASK_ERROR (lcd_line 0 s) (lcd_line 0x40 s)
    = (if k = Battery_Over then DISPLAY_TASK_REBOOT else DISPLAY_TASK_ERROR)"
proof -
  have "k = 0 \<or> k = 1 \<or> k = 2" using assms(2) by (auto simp: pending_fault_def)
  moreover have "replicate 14 (0x20 :: u8) = 0x20 # 0x20 # replicate 12 0x20"
    by (simp add: eval_nat_numeral)
  ultimately show ?thesis unfolding s_def fault_screen [OF assms(1,2)]
    by (auto simp: check_lines_def differs_def error1_def text_bytes_def clear_line_def)
qed

theorem over_voltage_screen_reboots_witness:
  "let s = Display_Error example_dev 4 (display_init\<lparr>error_i := 4\<rparr>)
   in check_lines DISPLAY_TASK_ERROR (lcd_line 0 s) (lcd_line 0x40 s) = DISPLAY_TASK_REBOOT"
proof -
  let ?d = "display_init\<lparr>error_i := 4\<rparr>"
  have r: "display_ready example_dev ?d" using example_ready by simp
  have "pending_fault 2 4 ?d"
    by (simp add: pending_fault_def display_init_def TMR_bIsTimeExpired_def timers_init_def TMR_NUM_def)
  then show ?thesis using over_voltage_screen_reboots [OF r, of 2 4] by simp
qed

end
