(* ===== verification/Iot.thy ===== *)
theory Iot
  imports Key Clock Display
begin

text \<open>
  The serial link to the network module (\<open>app_IOT2Board.c\<close>): the status report the board sends and the
  frames it receives into a queue of eight slots. A slot is a structure of 84 bytes (80 data bytes and
  a 32-bit count) and the interrupt clears and copies up to 100 bytes into its start, so the queue is
  modelled as the bytes of the array together with the 16 bytes the linker places behind it. Received
  frames, as the DMA leaves them, are inputs; frames handed to the transmitting DMA are collected.
\<close>

section \<open>State\<close>

abbreviation (input) UART_DMA_BUFF_SIZE :: nat where "UART_DMA_BUFF_SIZE \<equiv> 100"
abbreviation (input) IOT_RX_QUEUE :: u8 where "IOT_RX_QUEUE \<equiv> 8"
abbreviation (input) IOT_RX_BUFFER_SIZE :: nat where "IOT_RX_BUFFER_SIZE \<equiv> 80"
abbreviation (input) IOT_RX_BUFFER_MIN_SIZE :: nat where "IOT_RX_BUFFER_MIN_SIZE \<equiv> 8"
abbreviation (input) IOT_BUFFER_HEAD :: u8 where "IOT_BUFFER_HEAD \<equiv> 0xA5"
abbreviation (input) IOT_BUFFER_TAIL :: u8 where "IOT_BUFFER_TAIL \<equiv> 0x5A"
abbreviation (input) IOT_INFO_REPORT :: u8 where "IOT_INFO_REPORT \<equiv> 0x0A"
abbreviation (input) IOT_MSG_INFO_REPORT :: nat where "IOT_MSG_INFO_REPORT \<equiv> 0"
abbreviation (input) IOT_MSG_ID_NUM :: nat where "IOT_MSG_ID_NUM \<equiv> 1"

text \<open>\<open>sizeof(TIOTRxMessageObjDef)\<close> and the offset of its count.\<close>

abbreviation (input) SLOT_SIZE :: nat where "SLOT_SIZE \<equiv> 84"

record iot =
  IOT_ulMsgToTransmitBits :: u32
  Number_of_Transmit :: u32
  IOT_ucTxBuffer :: bytes
  iot_sent :: "bytes list"
  usart3_tx_sem :: nat
  usart3_rx_sem :: nat
  IOT_tRxMsgQueue :: bytes
  IOT_ucRxMsgHeadIndex :: u8
  IOT_ucRxMsgTailIndex :: u8

definition iot_init :: iot where
  "iot_init = \<lparr>IOT_ulMsgToTransmitBits = 0, Number_of_Transmit = 0, IOT_ucTxBuffer = replicate 100 0,
     iot_sent = [], usart3_tx_sem = 0, usart3_rx_sem = 0, IOT_tRxMsgQueue = replicate 688 0,
     IOT_ucRxMsgHeadIndex = 0, IOT_ucRxMsgTailIndex = 0\<rparr>"

section \<open>Transmission\<close>

text \<open>\<open>DEF_SET\<close>, \<open>DEF_RES\<close> and \<open>DEF_TEST\<close>.\<close>

definition DEF_SET :: "u32 \<Rightarrow> u32 \<Rightarrow> u32" where "DEF_SET a b = a OR b"
definition DEF_RES :: "u32 \<Rightarrow> u32 \<Rightarrow> u32" where "DEF_RES a b = a AND NOT b"
definition DEF_TEST :: "u32 \<Rightarrow> u32 \<Rightarrow> bool" where "DEF_TEST a b \<longleftrightarrow> a AND b = b"

definition IOT_vTransmitMessage :: "nat \<Rightarrow> iot \<Rightarrow> iot" where
  "IOT_vTransmitMessage i s =
     (if i < IOT_MSG_ID_NUM then
        s\<lparr>IOT_ulMsgToTransmitBits := DEF_SET (IOT_ulMsgToTransmitBits s) (push_bit i 1),
          usart3_tx_sem := usart3_tx_sem s + 1\<rparr>
      else s)"

text \<open>The index of the lowest set bit, 255 when there is none.\<close>

definition transmit_index :: "u32 \<Rightarrow> nat" where
  "transmit_index bits = (case filter (\<lambda>i. DEF_TEST bits (push_bit i 1)) [0..<32] of i # _ \<Rightarrow> i | [] \<Rightarrow> 255)"

definition reception_index :: "u8 \<Rightarrow> nat" where
  "reception_index msgid = (if msgid = IOT_INFO_REPORT then 0 else 255)"

definition usChecksumCalculate :: "bytes \<Rightarrow> nat \<Rightarrow> u16" where
  "usChecksumCalculate buf n = foldl (\<lambda>c b. c + ucast b) 0 (take n buf)"

text \<open>\<open>IOT_vTxInfo\<close>: the header fields length, device and sequence number, and the payload.\<close>

definition IOT_vTxInfo :: "keys \<Rightarrow> TtimeInfo \<Rightarrow> display \<Rightarrow> u32 \<Rightarrow> u32 \<Rightarrow> bytes \<times> bytes" where
  "IOT_vTxInfo k clk d err n =
     (let t = IOT_systick_min clk in
      ([10, 2, ucast n],
       [Work_Status (Key_ptGetInfo k), ucast (t AND 0xFF), ucast (drop_bit 8 t AND 0xFF),
        ucast (drop_bit 16 t AND 0xFF), ucast (drop_bit 24 t AND 0xFF), batter_info (Display_ptGetInfo d),
        ucast (Error_GetInfo err AND 0xFF), ucast (drop_bit 8 (Error_GetInfo err) AND 0xFF),
        ucast (drop_bit 16 (Error_GetInfo err) AND 0xFF), ucast (drop_bit 24 (Error_GetInfo err) AND 0xFF)]))"

text \<open>
  The structure is laid out as head, message, length, device, sequence and payload without gaps; the
  checksum (least significant byte first) and the tail are copied from its end.
\<close>

definition report_frame :: "bytes \<times> bytes \<Rightarrow> bytes" where
  "report_frame hp =
     (let body = [IOT_BUFFER_HEAD, IOT_INFO_REPORT] @ fst hp @ snd hp;
        c = usChecksumCalculate body (unat (fst hp ! 0) + 5)
      in body @ [ucast c, ucast (drop_bit 8 c), IOT_BUFFER_TAIL])"

definition IOT_vCheckTransmitTask :: "keys \<Rightarrow> TtimeInfo \<Rightarrow> display \<Rightarrow> u32 \<Rightarrow> iot \<Rightarrow> iot" where
  "IOT_vCheckTransmitTask k clk d err s =
     (if IOT_ulMsgToTransmitBits s \<noteq> 0 then
        let i = transmit_index (IOT_ulMsgToTransmitBits s) in
        if i < 1 then
          let s = s\<lparr>IOT_ulMsgToTransmitBits := DEF_RES (IOT_ulMsgToTransmitBits s) (push_bit i 1)\<rparr>;
            frame = report_frame (IOT_vTxInfo k clk d err (Number_of_Transmit s));
            buf = poke (IOT_ucTxBuffer s) 0 frame
          in s\<lparr>Number_of_Transmit := Number_of_Transmit s + 1, IOT_ucTxBuffer := buf,
               iot_sent := iot_sent s @ [take (length frame) buf]\<rparr>
        else s
      else s)"

text \<open>One round of the transmitting thread.\<close>

definition IOT_vTransmitHandler_entry :: "keys \<Rightarrow> TtimeInfo \<Rightarrow> display \<Rightarrow> u32 \<Rightarrow> iot \<Rightarrow> iot" where
  "IOT_vTransmitHandler_entry k clk d err s =
     (if usart3_tx_sem s > 0 then IOT_vCheckTransmitTask k clk d err (s\<lparr>usart3_tx_sem := usart3_tx_sem s - 1\<rparr>)
      else s)"

section \<open>Reception\<close>

definition slot_base :: "u8 \<Rightarrow> nat" where
  "slot_base i = SLOT_SIZE * unat i"

text \<open>The interrupt at the end of a burst of bytes (at most the size of the DMA buffer).\<close>

definition Usart3RxIrqCallback :: "bytes \<Rightarrow> iot \<Rightarrow> iot" where
  "Usart3RxIrqCallback dma s =
     (let b = slot_base (IOT_ucRxMsgHeadIndex s); n = length dma;
        q = poke (IOT_tRxMsgQueue s) b (replicate UART_DMA_BUFF_SIZE 0);
        q = poke q b dma;
        q = poke q (b + 80) (le32 (of_nat n))
      in s\<lparr>IOT_tRxMsgQueue := q, IOT_ucRxMsgHeadIndex := (IOT_ucRxMsgHeadIndex s + 1) mod IOT_RX_QUEUE,
           usart3_rx_sem := usart3_rx_sem s + 1\<rparr>)"

definition IOT_vRxInfo :: "u8 \<Rightarrow> display \<Rightarrow> display" where
  "IOT_vRxInfo payload0 d = d\<lparr>DisplayTaskState := (DisplayTaskState d)\<lparr>wifi_switch := payload0\<rparr>\<rparr>"

text \<open>
  \<open>IOT_vCheckReceptionTask\<close> on the bytes from a slot's start; \<open>stk\<close> is what the first payload byte of
  the local structure holds when no payload is copied into it.
\<close>

definition IOT_vCheckReceptionTask :: "u8 \<Rightarrow> bytes \<Rightarrow> display \<Rightarrow> display" where
  "IOT_vCheckReceptionTask stk slot d =
     (let count = unat (of_le32 (take 4 (drop 80 slot))); len = unat (slot ! 2) in
      if count < IOT_RX_BUFFER_MIN_SIZE then d
      else if slot ! 0 = IOT_BUFFER_HEAD \<and> slot ! (count - 1) = IOT_BUFFER_TAIL then
        if count \<ge> len + IOT_RX_BUFFER_MIN_SIZE \<and> len \<le> IOT_RX_BUFFER_SIZE - IOT_RX_BUFFER_MIN_SIZE then
          let c = usChecksumCalculate slot (len + 5) in
          if c = push_bit 8 (ucast (slot ! (len + 5))) OR ucast (slot ! (len + 6)) then
            if reception_index (slot ! 1) = 255 then d
            else IOT_vRxInfo (if len = 0 then stk else slot ! 5) d
          else d
        else d
      else d)"

definition IOT_vReceptionHandler_entry :: "u8 \<Rightarrow> iot \<times> display \<Rightarrow> iot \<times> display" where
  "IOT_vReceptionHandler_entry stk sd = (case sd of (s, d) \<Rightarrow>
     if usart3_rx_sem s > 0 then
       let s = s\<lparr>usart3_rx_sem := usart3_rx_sem s - 1\<rparr> in
       if IOT_ucRxMsgTailIndex s \<noteq> IOT_ucRxMsgHeadIndex s then
         (s\<lparr>IOT_ucRxMsgTailIndex := (IOT_ucRxMsgTailIndex s + 1) mod IOT_RX_QUEUE\<rparr>,
          IOT_vCheckReceptionTask stk (drop (slot_base (IOT_ucRxMsgTailIndex s)) (IOT_tRxMsgQueue s)) d)
       else (s, d)
     else (s, d))"

section \<open>Reports\<close>

text \<open>What a module reads from a frame: mode, minutes, battery level and fault code, when it is well-formed.\<close>

definition decode_report :: "bytes \<Rightarrow> (u8 \<times> u32 \<times> u8 \<times> u32) option" where
  "decode_report f =
     (if length f = 18 \<and> f ! 0 = 0xA5 \<and> f ! 1 = 0x0A \<and> f ! 2 = 10 \<and> f ! 17 = 0x5A \<and>
         ucast (f ! 15) + push_bit 8 (ucast (f ! 16)) = (sum_list (map ucast (take 15 f)) :: u16)
      then Some (f ! 5, of_le32 (take 4 (drop 6 f)), f ! 10, of_le32 (take 4 (drop 11 f)))
      else None)"

lemma ucast_mask_byte: "ucast ((w :: u32) AND 0xFF) = (ucast w :: u8)"
proof -
  have m: "(0xFF :: u32) = mask 8" by (simp add: mask_eq_exp_minus_1)
  show ?thesis unfolding m by (rule bit_word_eqI) (auto simp: bit_simps)
qed

lemma checksum_sum: "usChecksumCalculate f n = sum_list (map ucast (take n f))"
proof -
  have "foldl (\<lambda>c b. c + ucast b) a xs = a + sum_list (map ucast (xs :: bytes))" for a :: u16 and xs
    by (induction xs arbitrary: a) (simp_all add: add.assoc)
  then show ?thesis by (simp add: usChecksumCalculate_def)
qed

lemma split_u16: "ucast (ucast (c :: u16) :: u8) + push_bit 8 (ucast (ucast (drop_bit 8 c) :: u8)) = c"
proof -
  have "ucast (ucast c :: u8) + push_bit 8 (ucast (ucast (drop_bit 8 c) :: u8))
      = ucast (ucast c :: u8) OR push_bit 8 (ucast (ucast (drop_bit 8 c) :: u8) :: u16)"
    by (rule disjunctive_add) (auto simp: bit_simps not_bit_u8)
  also have "\<dots> = c" by (rule bit_word_eqI) (auto simp: bit_simps not_bit_u8)
  finally show ?thesis .
qed

lemma txinfo_le32:
  "IOT_vTxInfo k clk d err n = ([10, 2, ucast n],
     [Work_Status (Key_tInfo k)] @ le32 (IOT_systick_min clk) @ [batter_info (DisplayTaskState d)] @ le32 err)"
  by (simp add: IOT_vTxInfo_def Let_def le32_def ucast_mask_byte Key_ptGetInfo_def Display_ptGetInfo_def Error_GetInfo_def)

lemma report_decodes:
  "length p = 3 \<Longrightarrow> p ! 0 = 10 \<Longrightarrow>
   decode_report (report_frame (p, [m] @ le32 t @ [b] @ le32 e)) = Some (m, t, b, e)"
proof -
  assume p: "length p = 3" "p ! 0 = 10"
  obtain x y z where xyz: "p = [x, y, z]"
    using p(1) by (auto simp: eval_nat_numeral length_Suc_conv)
  then have x: "x = 10" using p(2) by simp
  let ?body = "[0xA5, 0x0A] @ p @ [m] @ le32 t @ [b] @ le32 e"
  have l: "length ?body = 15" using p(1) by simp
  let ?c = "usChecksumCalculate ?body 15"
  have f: "report_frame (p, [m] @ le32 t @ [b] @ le32 e) = ?body @ [ucast ?c, ucast (drop_bit 8 ?c), 0x5A]"
    by (simp add: report_frame_def Let_def p(2))
  have c: "?c = sum_list (map ucast ?body)" using l by (simp add: checksum_sum)
  show ?thesis
    unfolding f decode_report_def
    using l x c split_u16 [of ?c] of_le32_le32 [of t, unfolded le32_def] of_le32_le32 [of e, unfolded le32_def]
    by (simp add: xyz le32_def nth_append)
qed

lemma length_report: "length (fst hp) = 3 \<Longrightarrow> length (snd hp) = 10 \<Longrightarrow> length (report_frame hp) = 18"
  by (simp add: report_frame_def Let_def)

lemma transmit_index_request: "transmit_index (DEF_SET bits 1) = 0"
proof -
  have "DEF_TEST (DEF_SET bits 1) (push_bit 0 1)"
    by (simp add: DEF_TEST_def DEF_SET_def bit.conj_disj_distrib2)
  then have "filter (\<lambda>i. DEF_TEST (DEF_SET bits 1) (push_bit i 1)) [0..<32]
      = 0 # filter (\<lambda>i. DEF_TEST (DEF_SET bits 1) (push_bit i 1)) [1..<32]"
    by (simp add: upt_conv_Cons)
  then show ?thesis by (simp add: transmit_index_def)
qed

text \<open>
  C31. A requested status report reaches the line and says what the machine does: after
  \<open>IOT_vTransmitMessage\<close> the transmitting thread hands exactly one more frame to the DMA, and a reader of
  the frame format recovers from it the working mode, the operating minutes, the battery level and the
  fault code of that moment, with a matching checksum. (The checksum goes out least significant byte
  first, while \<open>IOT_vCheckReceptionTask\<close> expects the opposite order of the frames it receives.)
\<close>

theorem iot_report_decodes:
  fixes k :: keys and clk :: TtimeInfo and d :: display and err :: u32
  assumes "length (IOT_ucTxBuffer s) = 100" "IOT_ulMsgToTransmitBits s = 0"
  defines "t \<equiv> IOT_vTransmitHandler_entry k clk d err (IOT_vTransmitMessage IOT_MSG_INFO_REPORT s)"
  shows "\<exists>f. iot_sent t = iot_sent s @ [f] \<and>
    decode_report f = Some (Work_Status (Key_tInfo k), IOT_systick_min clk, batter_info (DisplayTaskState d), err) \<and>
    IOT_ulMsgToTransmitBits t = 0 \<and> usart3_tx_sem t = usart3_tx_sem s"
proof -
  let ?hp = "IOT_vTxInfo k clk d err (Number_of_Transmit s)"
  have len: "length (report_frame ?hp) = 18" by (rule length_report) (simp_all add: txinfo_le32)
  have bits: "DEF_SET 0 1 \<noteq> (0 :: u32)" "DEF_RES (DEF_SET 0 1) 1 = 0" by (simp_all add: DEF_SET_def DEF_RES_def)
  have "iot_sent t = iot_sent s @ [report_frame ?hp]"
    "IOT_ulMsgToTransmitBits t = 0" "usart3_tx_sem t = usart3_tx_sem s"
    using assms(1,2) len bits transmit_index_request [of 0]
    by (simp_all add: t_def IOT_vTransmitHandler_entry_def IOT_vTransmitMessage_def IOT_vCheckTransmitTask_def
        Let_def poke_def)
  moreover have "decode_report (report_frame ?hp) =
      Some (Work_Status (Key_tInfo k), IOT_systick_min clk, batter_info (DisplayTaskState d), err)"
    unfolding txinfo_le32 by (rule report_decodes) simp_all
  ultimately show ?thesis by blast
qed

theorem iot_report_decodes_witness:
  "\<exists>f. iot_sent (IOT_vTransmitHandler_entry key_init time_init display_init 4
        (IOT_vTransmitMessage 0 iot_init)) = [f] \<and> decode_report f = Some (0, 0, 0, 4)"
  using iot_report_decodes [of iot_init key_init time_init display_init 4]
  by (auto simp: iot_init_def key_init_def time_init_def display_init_def)

section \<open>The receive queue\<close>

lemma poke_nth: "i + length xs \<le> length buf \<Longrightarrow> j < length buf \<Longrightarrow>
    poke buf i xs ! j = (if i \<le> j \<and> j < i + length xs then xs ! (j - i) else buf ! j)"
  by (auto simp: poke_def nth_append)

text \<open>
  Every eighth frame writes past the receive queue: when the head stands at the last slot, the
  interrupt, for any received frame, also an empty one, overwrites the 16 bytes behind the array:
  with zeros, and with the bytes of the frame from its 85th on.
\<close>

theorem iot_eighth_frame_overruns:
  assumes "length (IOT_tRxMsgQueue s) = 688" "IOT_ucRxMsgHeadIndex s = 7" "length dma \<le> 100" "i < 16"
  shows "IOT_tRxMsgQueue (Usart3RxIrqCallback dma s) ! (8 * SLOT_SIZE + i) =
    (if 84 + i < length dma then dma ! (84 + i) else 0)"
proof -
  let ?q0 = "poke (IOT_tRxMsgQueue s) 588 (replicate 100 0)"
  let ?q1 = "poke ?q0 588 dma"
  have l: "length ?q0 = 688" "length ?q1 = 688" using assms by simp_all
  have q: "IOT_tRxMsgQueue (Usart3RxIrqCallback dma s) = poke ?q1 668 (le32 (of_nat (length dma)))"
    using assms(2) by (simp add: Usart3RxIrqCallback_def slot_base_def Let_def)
  show ?thesis
    unfolding q using assms l by (simp add: poke_nth)
qed

theorem iot_eighth_frame_overruns_witness:
  "IOT_tRxMsgQueue (Usart3RxIrqCallback [1, 2, 3]
     (iot_init\<lparr>IOT_tRxMsgQueue := replicate 688 0xEE, IOT_ucRxMsgHeadIndex := 7\<rparr>)) ! 675 = 0"
  using iot_eighth_frame_overruns
    [of "iot_init\<lparr>IOT_tRxMsgQueue := replicate 688 0xEE, IOT_ucRxMsgHeadIndex := 7\<rparr>" "[1, 2, 3]" 3]
  by simp

end
