(* ===== verification/Ring.thy ===== *)
theory Ring
  imports Prelude
begin

text \<open>
  The receive queues of both programs are arrays of eight slots with two byte indices: an interrupt
  stores at the head and advances it, the task handles the slot at the tail and advances that
  (\<open>CAN_tRxPacket\<close> of source/CAN/can.c, the queue of applications/app_IOT2Board.c). Nothing checks for
  a full queue. The locale states the queue discipline a writer and a reader follow and derives what
  the reader sees: the elements in arrival order up to seven of them, and nothing at all when an
  eighth arrives.
\<close>

definition RING :: nat where
  "RING = 8"

definition ring_count :: "u8 \<Rightarrow> u8 \<Rightarrow> nat" where
  "ring_count h q = (unat h + RING - unat q) mod RING"

definition ring_items :: "'e list \<Rightarrow> u8 \<Rightarrow> u8 \<Rightarrow> 'e list" where
  "ring_items slots h q = map (\<lambda>k. slots ! ((unat q + k) mod RING)) [0..<ring_count h q]"

lemma unat_ring_next: "unat h < RING \<Longrightarrow> unat ((h + 1) mod 8 :: u8) = (unat h + 1) mod RING"
proof -
  assume "unat h < RING"
  then have "unat (h + 1) = unat h + 1"
    using unat_u8_lt [of h] by (subst unat_add_lem [THEN iffD1]) (simp_all add: RING_def)
  then show ?thesis by (simp add: unat_mod RING_def)
qed

lemma ring_next_less: "unat h < RING \<Longrightarrow> unat ((h + 1) mod 8 :: u8) < RING"
  by (simp add: unat_ring_next RING_def)

lemma length_ring_items [simp]: "length (ring_items slots h q) = ring_count h q"
  by (simp add: ring_items_def)

lemma ring_count_less: "ring_count h q < RING"
  by (simp add: ring_count_def RING_def)

lemma ring_count_0: "unat h < RING \<Longrightarrow> unat q < RING \<Longrightarrow> ring_count h q = 0 \<longleftrightarrow> h = q"
  by (cases "unat h \<le> unat q") (auto simp: ring_count_def RING_def word_unat_eq_iff mod_if)

lemma ring_count_push:
  assumes "unat h < RING" "unat q < RING"
  shows "ring_count ((h + 1) mod 8) q = (ring_count h q + 1) mod RING"
proof -
  have "((i + 1) mod 8 + 8 - j) mod 8 = ((i + 8 - j) mod 8 + 1) mod 8" if "i < 8" "j < 8" for i j :: nat
    using that by (cases "i < j"; cases "i = 7") (auto simp: mod_if)
  then show ?thesis using assms by (simp add: ring_count_def unat_ring_next RING_def)
qed

lemma ring_count_pop:
  assumes "unat h < RING" "unat q < RING" "h \<noteq> q"
  shows "ring_count h q = Suc (ring_count h ((q + 1) mod 8))"
proof -
  have "(i + 8 - j) mod 8 = Suc ((i + 8 - (j + 1) mod 8) mod 8)" if "i < 8" "j < 8" "i \<noteq> j" for i j :: nat
    using that by (cases "i < j"; cases "j = 7") (auto simp: mod_if)
  then show ?thesis using assms by (simp add: ring_count_def unat_ring_next RING_def word_unat_eq_iff)
qed

lemma ring_head_slot:
  assumes "unat h < RING" "unat q < RING"
  shows "(unat q + ring_count h q) mod RING = unat h"
proof -
  have "unat q + (unat h + RING - unat q) = unat h + RING" using assms by simp
  then show ?thesis using assms by (simp add: ring_count_def mod_add_right_eq)
qed

lemma ring_slot_inj:
  assumes "i < RING" "j < RING" "(a + i) mod RING = (a + j) mod RING"
  shows "i = j"
proof -
  have "int (a + i) mod 8 = int (a + j) mod 8"
    using arg_cong [OF assms(3), of int] unfolding RING_def by (simp only: of_nat_mod of_nat_numeral)
  then have "(8 :: int) dvd int i - int j" by (simp add: mod_eq_dvd_iff)
  then show ?thesis
    using zdvd_imp_le [of 8 "int i - int j"] zdvd_imp_le [of 8 "int j - int i"] assms(1,2)
    by (cases i j rule: linorder_cases) (auto simp: RING_def dvd_diff_commute)
qed

lemma ring_items_push:
  assumes "length slots = RING" "unat h < RING" "unat q < RING" "ring_count h q < 7"
  shows "ring_items (slots[unat h := x]) ((h + 1) mod 8) q = ring_items slots h q @ [x]"
proof (rule nth_equalityI)
  have n: "ring_count ((h + 1) mod 8) q = Suc (ring_count h q)"
    using assms by (simp add: ring_count_push RING_def)
  then show "length (ring_items (slots[unat h := x]) ((h + 1) mod 8) q) = length (ring_items slots h q @ [x])"
    by simp
  fix i assume "i < length (ring_items (slots[unat h := x]) ((h + 1) mod 8) q)"
  with n have i: "i < Suc (ring_count h q)" by simp
  have h: "unat h = (unat q + ring_count h q) mod RING" using assms(2,3) by (simp add: ring_head_slot)
  show "ring_items (slots[unat h := x]) ((h + 1) mod 8) q ! i = (ring_items slots h q @ [x]) ! i"
  proof (cases "i < ring_count h q")
    case True
    then have "(unat q + i) mod RING \<noteq> unat h"
      using ring_slot_inj [of i "ring_count h q" "unat q"] ring_count_less [of h q] h by auto
    with True n i show ?thesis by (simp add: ring_items_def nth_append del: upt_Suc)
  next
    case False
    with i have "i = ring_count h q" by simp
    with n h assms(1,2) show ?thesis by (simp add: ring_items_def nth_append del: upt_Suc)
  qed
qed

lemma ring_items_full:
  assumes "unat h < RING" "unat q < RING" "ring_count h q = 7"
  shows "ring_items (slots[unat h := x]) ((h + 1) mod 8) q = []"
  using assms by (simp add: ring_items_def ring_count_push RING_def)

lemma ring_items_pop:
  assumes "unat h < RING" "unat q < RING" "h \<noteq> q"
  shows "ring_items slots h q = slots ! unat q # ring_items slots h ((q + 1) mod 8)"
proof -
  have "ring_items slots h q =
      map (\<lambda>k. slots ! ((unat q + k) mod RING)) (0 # map Suc [0..<ring_count h ((q + 1) mod 8)])"
    using ring_count_pop [OF assms] by (simp add: ring_items_def upt_conv_Cons map_Suc_upt del: upt_Suc)
  also have "\<dots> = slots ! unat q # ring_items slots h ((q + 1) mod 8)"
    unfolding ring_items_def list.map map_map comp_def unat_ring_next [OF assms(2)]
    using assms(2) by (simp add: mod_simps)
  finally show ?thesis .
qed

section \<open>The interface of a receive queue\<close>

locale rx_queue =
  fixes ok :: "'s \<Rightarrow> bool"
    and slots :: "'s \<Rightarrow> 'e list"
    and head :: "'s \<Rightarrow> u8"
    and tail :: "'s \<Rightarrow> u8"
    and isr :: "'e \<Rightarrow> 's \<Rightarrow> 's"
    and handle :: "'e \<Rightarrow> 's \<Rightarrow> 's"
    and advance :: "'s \<Rightarrow> 's"
    and step :: "'s \<Rightarrow> 's"
  assumes ok_ring: "ok s \<Longrightarrow> length (slots s) = RING \<and> unat (head s) < RING \<and> unat (tail s) < RING"
    and isr_queue: "ok s \<Longrightarrow> ok (isr e s) \<and> slots (isr e s) = (slots s)[unat (head s) := e] \<and>
      head (isr e s) = (head s + 1) mod 8 \<and> tail (isr e s) = tail s"
    and handle_queue: "ok s \<Longrightarrow> ok (handle e s) \<and> slots (handle e s) = slots s \<and>
      head (handle e s) = head s \<and> tail (handle e s) = tail s"
    and advance_queue: "ok s \<Longrightarrow> ok (advance s) \<and> slots (advance s) = slots s \<and>
      head (advance s) = head s \<and> tail (advance s) = (tail s + 1) mod 8"
    and handle_advance: "ok s \<Longrightarrow> handle e (advance s) = advance (handle e s)"
    and step_def: "ok s \<Longrightarrow>
      step s = (if tail s \<noteq> head s then advance (handle (slots s ! unat (tail s)) s) else s)"
begin

definition items :: "'s \<Rightarrow> 'e list" where
  "items s = ring_items (slots s) (head s) (tail s)"

lemma items_isr: "ok s \<Longrightarrow> length (items s) < 7 \<Longrightarrow> items (isr e s) = items s @ [e]"
  using ok_ring [of s] isr_queue [of s e] by (simp add: items_def ring_items_push)

lemma items_isr_full: "ok s \<Longrightarrow> length (items s) = 7 \<Longrightarrow> items (isr e s) = []"
  using ok_ring [of s] isr_queue [of s e] by (simp add: items_def ring_items_full)

lemma items_isrs:
  "ok s \<Longrightarrow> length (items s) + length es \<le> 7 \<Longrightarrow>
   ok (fold isr es s) \<and> items (fold isr es s) = items s @ es"
  by (induction es arbitrary: s) (simp_all add: items_isr isr_queue)

lemma items_idle: "ok s \<Longrightarrow> items s = [] \<longleftrightarrow> tail s = head s"
  using ok_ring [of s] ring_count_0 [of "head s" "tail s"]
  by (auto simp: items_def simp flip: length_0_conv)

lemma handle_items: "ok s \<Longrightarrow> items (handle e s) = items s"
  by (simp add: items_def handle_queue)

lemma step_items:
  "ok s \<Longrightarrow> items s = e # es \<Longrightarrow> step s = advance (handle e s) \<and> ok (step s) \<and> items (step s) = es"
  using ok_ring [of s] items_idle [of s] ring_items_pop [of "head s" "tail s" "slots s"]
  by (auto simp: step_def items_def handle_queue advance_queue)

lemma ok_handles: "ok s \<Longrightarrow> ok (fold handle es s)"
  by (induction es arbitrary: s) (simp_all add: handle_queue)

lemma handles_advance: "ok s \<Longrightarrow> fold handle es (advance s) = advance (fold handle es s)"
  by (induction es arbitrary: s) (simp_all add: handle_advance handle_queue)

lemma drain:
  "ok s \<Longrightarrow> items s = es \<Longrightarrow> (step ^^ length es) s = (advance ^^ length es) (fold handle es s)"
proof (induction es arbitrary: s)
  case (Cons e es)
  have "(step ^^ length (e # es)) s = (step ^^ length es) (step s)"
    by (simp add: funpow_swap1)
  also have "\<dots> = (advance ^^ length es) (fold handle es (step s))"
    using step_items [OF Cons.prems] by (intro Cons.IH) auto
  also have "fold handle es (step s) = advance (fold handle es (handle e s))"
    using step_items [OF Cons.prems] Cons.prems(1) by (simp add: handles_advance handle_queue)
  finally show ?case by (simp add: funpow_swap1)
qed simp

lemma in_order:
  assumes "ok s" "tail s = head s" "length es \<le> 7"
  shows "(step ^^ length es) (fold isr es s) = (advance ^^ length es) (fold handle es (fold isr es s))"
  using items_isrs [of s es] items_idle [of s] drain [of "fold isr es s" es] assms by simp

lemma eighth_drops_all:
  assumes "ok s" "tail s = head s" "length es = 8"
  shows "step (fold isr es s) = fold isr es s"
proof -
  from assms(3) have "es = butlast es @ [last es]" by (intro append_butlast_last_id [symmetric]) auto
  then have f: "fold isr es s = isr (last es) (fold isr (butlast es) s)"
    by (metis fold_append comp_apply fold_simps)
  have "ok (fold isr (butlast es) s)" "items (fold isr (butlast es) s) = butlast es"
    using items_isrs [of s "butlast es"] assms items_idle [of s] by simp_all
  then have "items (fold isr es s) = []" "ok (fold isr es s)"
    unfolding f using assms(3) by (simp_all add: items_isr_full isr_queue)
  then show ?thesis using items_idle step_def by metis
qed

end

end
