(* ===== verification/Ota.thy ===== *)
theory Ota
  imports Iot Ring
begin

text \<open>
  The update link of the application (\<open>app_OTA.c\<close>): a two-step handshake on the second serial line.
  Its receive queue is of the same layout as the one of the network module. The service of the last
  handshake message requests the update; what it does to the rest of the application is in theory
  \<open>SysTask\<close>.
\<close>

section \<open>State\<close>

abbreviation (input) OTA_RX_BUFFER_SIZE :: nat where "OTA_RX_BUFFER_SIZE \<equiv> 80"
abbreviation (input) OTA_TX_BUFFER_SIZE :: nat where "OTA_TX_BUFFER_SIZE \<equiv> 80"
abbreviation (input) OTA_MSG_HEADER0 :: u8 where "OTA_MSG_HEADER0 \<equiv> 0xFF"
abbreviation (input) OTA_MSG_HEADER1 :: u8 where "OTA_MSG_HEADER1 \<equiv> 0xEE"
abbreviation (input) OTA_MESSAGE_HAND :: u8 where "OTA_MESSAGE_HAND \<equiv> 0x41"
abbreviation (input) OTA_MSG_MESSAGE_HAND :: nat where "OTA_MSG_MESSAGE_HAND \<equiv> 0"
abbreviation (input) OTA_MSG_ID_NUM :: nat where "OTA_MSG_ID_NUM \<equiv> 1"
abbreviation (input) First_Handshake :: u8 where "First_Handshake \<equiv> 0"
abbreviation (input) Second_Handshake :: u8 where "Second_Handshake \<equiv> 1"

record ota =
  OTA_ulMsgToTransmitBits :: u32
  handshakes :: u8
  OTA_ucTxBuffer :: bytes
  ota_sent :: "bytes list"
  usart2_tx_sem :: nat
  usart2_rx_sem :: nat
  OTA_tRxMsgQueue :: bytes
  OTA_ucRxMsgHeadIndex :: u8
  OTA_ucRxMsgTailIndex :: u8

definition ota_init :: ota where
  "ota_init = \<lparr>OTA_ulMsgToTransmitBits = 0, handshakes = 0, OTA_ucTxBuffer = replicate 100 0, ota_sent = [],
     usart2_tx_sem = 0, usart2_rx_sem = 0, OTA_tRxMsgQueue = replicate 688 0,
     OTA_ucRxMsgHeadIndex = 0, OTA_ucRxMsgTailIndex = 0\<rparr>"

section \<open>Messages\<close>

text \<open>\<open>OTA_ucGetCheckSumResult\<close> over a range that is not empty.\<close>

fun OTA_ucGetCheckSumResult :: "bytes \<Rightarrow> u8" where
  "OTA_ucGetCheckSumResult [] = 0"
| "OTA_ucGetCheckSumResult (b # bs) = foldl (\<lambda>a x. a XOR x) b bs"

definition OTA_vTransmitMessage :: "nat \<Rightarrow> ota \<Rightarrow> ota" where
  "OTA_vTransmitMessage i s =
     (if i < OTA_MSG_ID_NUM then
        s\<lparr>OTA_ulMsgToTransmitBits := DEF_SET (OTA_ulMsgToTransmitBits s) (push_bit i 1),
          usart2_tx_sem := usart2_tx_sem s + 1\<rparr>
      else s)"

definition OTA_vTxInfo :: "bytes \<Rightarrow> bytes" where
  "OTA_vTxInfo payload = payload @ [OTA_MESSAGE_HAND, 0x01]"

definition OTA_vCheckTransmitTask :: "ota \<Rightarrow> ota" where
  "OTA_vCheckTransmitTask s =
     (if OTA_ulMsgToTransmitBits s \<noteq> 0 then
        let i = transmit_index (OTA_ulMsgToTransmitBits s) in
        if i < 1 then
          let s = s\<lparr>OTA_ulMsgToTransmitBits := DEF_RES (OTA_ulMsgToTransmitBits s) (push_bit i 1)\<rparr>;
            payload = OTA_vTxInfo []; n = length payload;
            c = OTA_ucGetCheckSumResult (of_nat n # payload);
            buf = (if n < OTA_TX_BUFFER_SIZE - 4
              then poke (poke (OTA_ucTxBuffer s) 0 ([OTA_MSG_HEADER0, OTA_MSG_HEADER1, of_nat n] @ payload)) (n + 3) [c]
              else OTA_ucTxBuffer s)
          in s\<lparr>OTA_ucTxBuffer := buf, ota_sent := ota_sent s @ [take (n + 4) buf]\<rparr>
        else s
      else s)"

definition OTA_vTransmitHandler_entry :: "ota \<Rightarrow> ota" where
  "OTA_vTransmitHandler_entry s =
     (if usart2_tx_sem s > 0 then OTA_vCheckTransmitTask (s\<lparr>usart2_tx_sem := usart2_tx_sem s - 1\<rparr>) else s)"

definition OTA_ucGetReceptionMessageIndex :: "u8 \<Rightarrow> u8" where
  "OTA_ucGetReceptionMessageIndex msgid = (if msgid = OTA_MESSAGE_HAND then 0 else 0xFF)"

text \<open>The service: the new state, and whether the update is requested.\<close>

definition OTA_vRxInfo :: "u8 \<Rightarrow> ota \<Rightarrow> ota \<times> bool" where
  "OTA_vRxInfo payload1 s =
     (if handshakes s = First_Handshake then
        (if payload1 = 0 then ((OTA_vTransmitMessage OTA_MSG_MESSAGE_HAND s)\<lparr>handshakes := Second_Handshake\<rparr>, False)
         else (s, False))
      else if handshakes s = Second_Handshake then
        (if payload1 = 2 then (s, True) else (s\<lparr>handshakes := Second_Handshake\<rparr>, False))
      else (s\<lparr>handshakes := First_Handshake\<rparr>, False))"

text \<open>
  \<open>OTA_vCheckReceptionTask\<close>: \<open>len + 4\<close> bytes are copied into the local structure of 83 bytes; with
  the largest length the code accepts, 80, the copy is one byte longer than the structure, and the
  checksum byte is read from there.
\<close>

definition OTA_vCheckReceptionTask :: "bytes \<Rightarrow> ota \<Rightarrow> ota \<times> bool" where
  "OTA_vCheckReceptionTask slot s =
     (let count = unat (of_le32 (take 4 (drop 80 slot))); len = unat (slot ! 2) in
      if count < 3 then (s, False)
      else if slot ! 0 = OTA_MSG_HEADER0 \<and> slot ! 1 = OTA_MSG_HEADER1 then
        if count \<ge> len + 4 \<and> len \<le> OTA_RX_BUFFER_SIZE then
          let msg = take (len + 4) slot; c = OTA_ucGetCheckSumResult (take (len + 1) (drop 2 msg)) in
          if c = msg ! (3 + len) then
            if OTA_ucGetReceptionMessageIndex (slot ! 3) = 0xFF then (s, False)
            else OTA_vRxInfo (slot ! 4) s
          else (s, False)
        else (s, False)
      else (s, False))"

definition app_Usart2RxIrqCallback :: "bytes \<Rightarrow> ota \<Rightarrow> ota" where
  "app_Usart2RxIrqCallback dma s =
     (let b = slot_base (OTA_ucRxMsgHeadIndex s); n = length dma;
        q = poke (OTA_tRxMsgQueue s) b (replicate UART_DMA_BUFF_SIZE 0);
        q = poke q b dma;
        q = poke q (b + 80) (le32 (of_nat n))
      in s\<lparr>OTA_tRxMsgQueue := q, OTA_ucRxMsgHeadIndex := (OTA_ucRxMsgHeadIndex s + 1) mod 8,
           usart2_rx_sem := usart2_rx_sem s + 1\<rparr>)"

definition OTA_vReceptionHandler_entry :: "ota \<Rightarrow> ota \<times> bool" where
  "OTA_vReceptionHandler_entry s =
     (if usart2_rx_sem s > 0 then
        let s = s\<lparr>usart2_rx_sem := usart2_rx_sem s - 1\<rparr> in
        if OTA_ucRxMsgTailIndex s \<noteq> OTA_ucRxMsgHeadIndex s then
          (case OTA_vCheckReceptionTask (drop (slot_base (OTA_ucRxMsgTailIndex s)) (OTA_tRxMsgQueue s)) s of
             (s, req) \<Rightarrow> (s\<lparr>OTA_ucRxMsgTailIndex := (OTA_ucRxMsgTailIndex s + 1) mod 8\<rparr>, req))
        else (s, False)
      else (s, False))"

section \<open>The handshake\<close>

text \<open>The frame that carries one handshake code.\<close>

definition hand_frame :: "u8 \<Rightarrow> bytes" where
  "hand_frame v = [0xFF, 0xEE, 2, 0x41, v, 2 XOR 0x41 XOR v]"

definition ota_wf :: "ota \<Rightarrow> bool" where
  "ota_wf s \<longleftrightarrow> length (OTA_tRxMsgQueue s) = 688 \<and> unat (OTA_ucRxMsgHeadIndex s) < 8 \<and>
     OTA_ucRxMsgTailIndex s = OTA_ucRxMsgHeadIndex s"

lemma slot_bound: "unat h < 8 \<Longrightarrow> slot_base h + 100 \<le> 688"
  by (simp add: slot_base_def)

text \<open>A received frame, handled: the service sees its code.\<close>

lemma hand_frame_served:
  fixes v :: u8
  assumes "ota_wf s"
  defines "r \<equiv> OTA_vReceptionHandler_entry (app_Usart2RxIrqCallback (hand_frame v) s)"
  shows "handshakes (fst r) = handshakes (fst (OTA_vRxInfo v s))" "snd r = snd (OTA_vRxInfo v s)" "ota_wf (fst r)"
proof -
  let ?h = "OTA_ucRxMsgHeadIndex s" and ?b = "slot_base (OTA_ucRxMsgHeadIndex s)"
  let ?q = "poke (poke (poke (OTA_tRxMsgQueue s) ?b (replicate 100 0)) ?b (hand_frame v)) (?b + 80) (le32 6)"
  have b: "?b + 100 \<le> 688" and l: "length (OTA_tRxMsgQueue s) = 688" and h: "unat ?h < 8"
    and tl: "OTA_ucRxMsgTailIndex s = ?h"
    using assms(1) slot_bound by (simp_all add: ota_wf_def)
  have lq: "length ?q = 688" using b l by (simp add: hand_frame_def)
  have ne: "?h \<noteq> (?h + 1) mod 8"
    using h unat_ring_next [of ?h] by (auto simp: RING_def word_unat_eq_iff mod_Suc split: if_splits)
  have at: "drop ?b ?q ! i = (if i < 6 then hand_frame v ! i else if 80 \<le> i \<and> i < 84 then le32 6 ! (i - 80) else 0)"
    if "i < 100" for i
    using that b l by (auto simp: poke_nth hand_frame_def)
  define slot where "slot = drop ?b ?q"
  have ls: "100 \<le> length slot" unfolding slot_def length_drop lq using b by linarith
  note at = at [folded slot_def]
  have cnt: "take 4 (drop 80 slot) = le32 6"
  proof (rule nth_equalityI)
    fix i assume "i < length (take 4 (drop 80 slot))"
    then have i: "i < 4" by simp
    then have "slot ! (80 + i) = le32 6 ! i" using at [of "80 + i"] by simp
    then show "take 4 (drop 80 slot) ! i = le32 6 ! i" using i ls by simp
  qed (use ls in simp)
  have six: "take 6 slot = hand_frame v"
  proof (rule nth_equalityI)
    fix i assume "i < length (take 6 slot)"
    then have i: "i < 6" by simp
    then show "take 6 slot ! i = hand_frame v ! i" using at [of i] by simp
  qed (use ls in \<open>simp add: hand_frame_def\<close>)
  have first: "slot ! 0 = 0xFF" "slot ! 1 = 0xEE" "slot ! 2 = 2" "slot ! 3 = 0x41" "slot ! 4 = v"
    by (simp_all add: at hand_frame_def)
  have check: "OTA_vCheckReceptionTask slot s' = OTA_vRxInfo v s'" for s'
    unfolding OTA_vCheckReceptionTask_def cnt Let_def first
    using six by (simp add: OTA_ucGetReceptionMessageIndex_def hand_frame_def bit_simps flip: xor.assoc)
  let ?s = "s\<lparr>OTA_tRxMsgQueue := ?q, OTA_ucRxMsgHeadIndex := (?h + 1) mod 8, usart2_rx_sem := usart2_rx_sem s\<rparr>"
  have r: "r = (case OTA_vRxInfo v ?s of (s, req) \<Rightarrow> (s\<lparr>OTA_ucRxMsgTailIndex := (OTA_ucRxMsgTailIndex s + 1) mod 8\<rparr>, req))"
    using ne check [of ?s, unfolded slot_def] tl
    by (simp add: r_def OTA_vReceptionHandler_entry_def app_Usart2RxIrqCallback_def Let_def hand_frame_def)
  have k: "handshakes (fst (OTA_vRxInfo v ?s)) = handshakes (fst (OTA_vRxInfo v s))"
    "snd (OTA_vRxInfo v ?s) = snd (OTA_vRxInfo v s)"
    "OTA_tRxMsgQueue (fst (OTA_vRxInfo v ?s)) = ?q" "OTA_ucRxMsgHeadIndex (fst (OTA_vRxInfo v ?s)) = (?h + 1) mod 8"
    "OTA_ucRxMsgTailIndex (fst (OTA_vRxInfo v ?s)) = ?h"
    using tl by (simp_all add: OTA_vRxInfo_def OTA_vTransmitMessage_def)
  show "handshakes (fst r) = handshakes (fst (OTA_vRxInfo v s))" "snd r = snd (OTA_vRxInfo v s)" "ota_wf (fst r)"
    using k lq ring_next_less [of ?h] h by (simp_all add: r case_prod_beta ota_wf_def RING_def)
qed

text \<open>Two handshake frames in sequence request the update.\<close>

lemma handshake_requests:
  assumes "ota_wf s" "handshakes s = First_Handshake"
  defines "r1 \<equiv> OTA_vReceptionHandler_entry (app_Usart2RxIrqCallback (hand_frame 0) s)"
  shows "snd r1 = False" "snd (OTA_vReceptionHandler_entry (app_Usart2RxIrqCallback (hand_frame 2) (fst r1))) = True"
proof -
  note f = hand_frame_served [OF assms(1), of 0, folded r1_def]
  have h: "handshakes (fst r1) = Second_Handshake" using f(1) assms(2) by (simp add: OTA_vRxInfo_def)
  show "snd r1 = False" using f(2) assms(2) by (simp add: OTA_vRxInfo_def)
  show "snd (OTA_vReceptionHandler_entry (app_Usart2RxIrqCallback (hand_frame 2) (fst r1))) = True"
    using hand_frame_served(2) [OF f(3), of 2] h by (simp add: OTA_vRxInfo_def)
qed

end
