(* ===== verification/Motor.thy ===== *)
theory Motor
  imports Key
begin

text \<open>
  The two motors, the valve and the light (\<open>app_motor.c\<close>, \<open>timea.c\<close>). Every 10 ms the motor task
  reads the mode flags and moves the speed of each motor one step up or down; the speed is written to
  the PWM timer as an inverted compare value. The theory shows that the speeds stay between 0 and
  200 and the outputs follow them, and that switching the machine off stops both motors, whatever the
  order of the scanning and the motor task.
\<close>

section \<open>PWM outputs\<close>

datatype specify_output = TimeraSpecifyOutputInvalid | TimeraSpecifyOutputHigh

text \<open>What the three driver calls leave in the timer's registers for a channel.\<close>

record pwm =
  specify_out :: specify_output
  compare_val :: u16
  compare_cmd :: bool

record TspeedInfo =
  v_add :: u16
  v_dec :: u16
  v_rt_speed :: u16
  v_next_speed :: u16

record motors =
  Brush_Speed_tInfo :: TspeedInfo
  Suction_Speed_tInfo :: TspeedInfo
  rgb_num :: u16
  rgb_timer_on :: bool
  valve_open :: bool
  brush_pwm :: pwm
  suction_pwm :: pwm
  rgb_pwm :: pwm

abbreviation (input) TIMERA_PERVAL_VAL :: u32 where "TIMERA_PERVAL_VAL \<equiv> 6400"

definition indexWave :: "u16 list" where
  "indexWave = [
    1, 1, 1, 2, 2, 2, 3, 3, 3, 4, 4, 4, 5, 5, 6, 6, 7, 7, 8, 8, 8, 9, 9, 9, 10, 10, 10, 11, 11, 11,
    12, 12, 13, 13, 14, 14, 15, 15, 16, 16, 17, 17, 18, 18, 19, 19, 20, 20, 21, 21, 22, 22, 23, 23,
    24, 24, 25, 25, 26, 26, 27, 27, 28, 28, 29, 29, 30, 30, 31, 31, 32, 32, 33, 33, 34, 34, 35, 35,
    36, 36, 37, 37, 38, 38, 39, 39, 40, 40, 41, 42, 43, 43, 44, 44, 45, 46, 47, 48, 49, 49, 50, 50,
    51, 52, 53, 54, 55, 56, 57, 57, 58, 58, 59, 60, 61, 62, 63, 64, 65, 66, 67, 68, 69, 70, 71, 72,
    73, 74, 75, 76, 77, 78, 79, 80, 81, 82, 83, 84, 85, 86, 87, 88, 90, 91, 92, 94, 95, 97, 98,
    100, 101, 103, 104, 106, 107, 108, 109, 111, 112, 114, 116, 118, 119, 121, 123, 124, 126, 128,
    130, 132, 134, 136, 138, 140, 146, 148, 150, 152, 154, 156, 158, 162, 163, 164, 168, 170, 172,
    174, 176, 178, 180, 182, 184, 186, 188, 190, 192, 194, 196, 199, 200, 200, 199, 196, 194, 192,
    190, 188, 186, 184, 182, 180, 178, 176, 174, 172, 170, 168, 164, 163, 162, 158, 156, 154, 152,
    150, 148, 146, 140, 138, 136, 134, 132, 130, 128, 126, 124, 123, 121, 119, 118, 116, 114, 112,
    111, 109, 108, 107, 106, 104, 103, 101, 100, 98, 97, 95, 94, 92, 91, 90, 88, 87, 86, 85, 84,
    83, 82, 81, 80, 79, 78, 77, 76, 75, 74, 73, 72, 71, 70, 69, 68, 67, 66, 65, 64, 63, 62, 61, 60,
    59, 58, 58, 57, 57, 56, 55, 54, 53, 52, 51, 50, 50, 49, 49, 48, 47, 46, 45, 44, 44, 43, 43, 42,
    41, 40, 40, 39, 39, 38, 38, 37, 37, 36, 36, 35, 35, 34, 34, 33, 33, 32, 32, 31, 31, 30, 30, 29,
    29, 28, 28, 27, 27, 26, 26, 25, 25, 24, 24, 23, 23, 22, 22, 21, 20, 20, 19, 19, 18, 18, 17, 17,
    16, 16, 15, 15, 14, 14, 13, 13, 12, 12, 11, 11, 11, 10, 10, 10, 9, 9, 9, 8, 8, 8, 7, 7, 6, 6,
    5, 5, 4, 4, 4, 3, 3, 3, 2, 2, 2, 1, 1, 1]"

text \<open>
  The initial values, with the channels as \<open>Timera_vInit\<close> leaves them: compare values 6400, 6400 and 0,
  compare disabled.
\<close>

definition pwm_init :: "u16 \<Rightarrow> pwm" where
  "pwm_init v = \<lparr>specify_out = TimeraSpecifyOutputInvalid, compare_val = v, compare_cmd = False\<rparr>"

definition speed_init :: TspeedInfo where
  "speed_init = \<lparr>v_add = 1, v_dec = 1, v_rt_speed = 0, v_next_speed = 0\<rparr>"

definition motor_init :: motors where
  "motor_init = \<lparr>Brush_Speed_tInfo = speed_init, Suction_Speed_tInfo = speed_init, rgb_num = 0,
     rgb_timer_on = False, valve_open = False, brush_pwm = pwm_init 6400, suction_pwm = pwm_init 6400,
     rgb_pwm = pwm_init 0\<rparr>"

definition ptApp_Motor_Branch :: "motors \<Rightarrow> TspeedInfo" where
  "ptApp_Motor_Branch m = Brush_Speed_tInfo m"

definition ptApp_Motor_Suction :: "motors \<Rightarrow> TspeedInfo" where
  "ptApp_Motor_Suction m = Suction_Speed_tInfo m"

text \<open>
  The motor branches of \<open>Timera_Motor_Contorl\<close>, which differ in the channel only: the percentage is
  a \<open>uint8_t\<close>, the product is computed in 32 bits and cut to 16.
\<close>

definition motor_pwm :: "bool \<Rightarrow> u8 \<Rightarrow> pwm" where
  "motor_pwm control percent =
     (let count = ucast ((TIMERA_PERVAL_VAL div 200) * (200 - ucast percent)) :: u16
      in \<lparr>specify_out = (if count \<noteq> 0 then TimeraSpecifyOutputInvalid else TimeraSpecifyOutputHigh),
          compare_val = count, compare_cmd = control\<rparr>)"

datatype Motor_Swicth = Brush_Motor | Suction_Motor | RGB_BULE

definition Timera_Motor_Contorl :: "Motor_Swicth \<Rightarrow> bool \<Rightarrow> u8 \<Rightarrow> motors \<Rightarrow> motors" where
  "Timera_Motor_Contorl motor control percent m = (case motor of
     Brush_Motor \<Rightarrow> m\<lparr>brush_pwm := motor_pwm control percent\<rparr>
   | Suction_Motor \<Rightarrow> m\<lparr>suction_pwm := motor_pwm control percent\<rparr>
   | RGB_BULE \<Rightarrow> m)"

definition Timera_RGB_Contorl :: "bool \<Rightarrow> u16 \<Rightarrow> motors \<Rightarrow> motors" where
  "Timera_RGB_Contorl control percent m =
     m\<lparr>rgb_pwm := \<lparr>specify_out = (if percent \<noteq> 0 then TimeraSpecifyOutputInvalid else TimeraSpecifyOutputHigh),
        compare_val = percent, compare_cmd = control\<rparr>\<rparr>"

section \<open>Speeds\<close>

text \<open>
  The speed is an \<open>int16_t\<close>, read as a signed number; the second component says whether the new
  speed is written to the timer.
\<close>

definition speed_up :: "TspeedInfo \<Rightarrow> TspeedInfo \<times> bool" where
  "speed_up s =
     (if 200 > sint (v_rt_speed s) then
        let s = s\<lparr>v_next_speed := v_rt_speed s + v_add s\<rparr> in
        if sint (v_next_speed s) > 200 then (s\<lparr>v_rt_speed := 200\<rparr>, True)
        else (s\<lparr>v_rt_speed := v_next_speed s\<rparr>, True)
      else (s, False))"

definition speed_down :: "TspeedInfo \<Rightarrow> TspeedInfo \<times> bool" where
  "speed_down s =
     (if sint (v_rt_speed s) > 0 then
        let s = s\<lparr>v_next_speed := v_rt_speed s - v_dec s\<rparr> in
        if sint (v_next_speed s) < 0 then (s\<lparr>v_rt_speed := 0\<rparr>, True)
        else (s\<lparr>v_rt_speed := v_next_speed s\<rparr>, True)
      else (s, False))"

definition brush_result :: "TspeedInfo \<times> bool \<Rightarrow> motors \<Rightarrow> motors" where
  "brush_result r m = (let m = m\<lparr>Brush_Speed_tInfo := fst r\<rparr> in
     if snd r then Timera_Motor_Contorl Brush_Motor True (ucast (v_rt_speed (fst r))) m else m)"

definition suction_result :: "TspeedInfo \<times> bool \<Rightarrow> motors \<Rightarrow> motors" where
  "suction_result r m = (let m = m\<lparr>Suction_Speed_tInfo := fst r\<rparr> in
     if snd r then Timera_Motor_Contorl Suction_Motor True (ucast (v_rt_speed (fst r))) m else m)"

definition Brush_Work_Speed_vTaskHandler :: "motors \<Rightarrow> motors" where
  "Brush_Work_Speed_vTaskHandler m = brush_result (speed_up (Brush_Speed_tInfo m)) m"

definition Brush_Work_Stop_vTaskHandler :: "motors \<Rightarrow> motors" where
  "Brush_Work_Stop_vTaskHandler m = brush_result (speed_down (Brush_Speed_tInfo m)) m"

definition Suction_Work_Speed_vTaskHandler :: "motors \<Rightarrow> motors" where
  "Suction_Work_Speed_vTaskHandler m = suction_result (speed_up (Suction_Speed_tInfo m)) m"

definition Suction_Work_Stop_vTaskHandler :: "motors \<Rightarrow> motors" where
  "Suction_Work_Stop_vTaskHandler m = suction_result (speed_down (Suction_Speed_tInfo m)) m"

section \<open>The task and the light\<close>

definition MOTOR_vTaskHandler_Entry :: "TKeyInfoDef \<Rightarrow> motors \<Rightarrow> motors" where
  "MOTOR_vTaskHandler_Entry i m =
     (let m = (if Hand_Key_FLag i = 1 \<and> (Brush_Key_Flag i = 1 \<or> All_Key_Flag i = 1)
          then Brush_Work_Speed_vTaskHandler
            (Timera_RGB_Contorl True 200 (m\<lparr>valve_open := True, rgb_timer_on := False\<rparr>))
          else Brush_Work_Stop_vTaskHandler (m\<lparr>rgb_timer_on := True, valve_open := False\<rparr>))
      in if Suction_Key_Flag i = 1 \<or> All_Key_Flag i = 1
        then Suction_Work_Speed_vTaskHandler m else Suction_Work_Stop_vTaskHandler m)"

definition RGB_timer_timeout :: "motors \<Rightarrow> motors" where
  "RGB_timer_timeout m =
     (let m = Timera_RGB_Contorl True (indexWave ! unat (rgb_num m)) m;
        n = rgb_num m + 1
      in m\<lparr>rgb_num := (if unat n = length indexWave - 1 then 0 else n)\<rparr>)"

section \<open>Speeds and outputs\<close>

lemma sint_small: "unat (w :: u16) < 32768 \<Longrightarrow> sint w = int (unat w)"
proof -
  assume "unat w < 32768"
  then have "uint w < 32768" by (simp only: uint_nat)
  moreover have "- 32768 \<le> uint w" by (rule order_trans [OF _ uint_ge_0]) simp
  ultimately show "sint w = int (unat w)"
    unfolding uint_nat [symmetric] sint_uint
    by (intro signed_take_bit_int_eq_self) simp_all
qed

lemma sint_compare:
  assumes "unat (w :: u16) < 32768"
  shows "sint w < 200 \<longleftrightarrow> unat w < 200" "200 < sint w \<longleftrightarrow> 200 < unat w" "0 < sint w \<longleftrightarrow> 0 < unat w" "0 \<le> sint w"
  unfolding sint_small [OF assms] by linarith+

lemma unat_u16_add1: "unat (w :: u16) < 65535 \<Longrightarrow> unat (w + 1) = unat w + 1"
  by (subst unat_add_lem [THEN iffD1]) simp_all

lemma unat_u16_sub1: "0 < unat (w :: u16) \<Longrightarrow> unat (w - 1) = unat w - 1"
  by (subst unat_sub) (simp_all add: word_le_nat_alt)

text \<open>A speed in range, with unit steps, and the output that belongs to it.\<close>

definition speed_ok :: "TspeedInfo \<Rightarrow> bool" where
  "speed_ok s \<longleftrightarrow> v_add s = 1 \<and> v_dec s = 1 \<and> unat (v_rt_speed s) \<le> 200"

definition output_ok :: "TspeedInfo \<Rightarrow> pwm \<Rightarrow> bool" where
  "output_ok s p \<longleftrightarrow> unat (compare_val p) = 32 * (200 - unat (v_rt_speed s)) \<and>
     (specify_out p = TimeraSpecifyOutputHigh \<longleftrightarrow> unat (v_rt_speed s) = 200)"

abbreviation speed :: "TspeedInfo \<Rightarrow> nat" where
  "speed s \<equiv> unat (v_rt_speed s)"

lemma speed_up_ok:
  assumes "speed_ok s"
  shows "speed_ok (fst (speed_up s))" "speed (fst (speed_up s)) = min 200 (speed s + 1)"
    "snd (speed_up s) \<longleftrightarrow> speed s < 200"
proof -
  have r: "speed s \<le> 200" "v_add s = 1" "v_dec s = 1" using assms by (simp_all add: speed_ok_def)
  have eq: "speed_up s = (if speed s < 200
      then (s\<lparr>v_next_speed := v_rt_speed s + 1, v_rt_speed := v_rt_speed s + 1\<rparr>, True) else (s, False))"
  proof (cases "speed s < 200")
    case True
    then have "unat (v_rt_speed s + 1) = speed s + 1" by (simp add: unat_u16_add1)
    then show ?thesis
      using True r by (simp add: speed_up_def Let_def sint_compare [of "v_rt_speed s"]
          sint_compare [of "v_rt_speed s + 1"])
  next
    case False
    then show ?thesis using r by (simp add: speed_up_def sint_compare [of "v_rt_speed s"])
  qed
  show "speed_ok (fst (speed_up s))" "speed (fst (speed_up s)) = min 200 (speed s + 1)"
    "snd (speed_up s) \<longleftrightarrow> speed s < 200"
    using r by (auto simp: eq speed_ok_def unat_u16_add1)
qed

lemma speed_down_ok:
  assumes "speed_ok s"
  shows "speed_ok (fst (speed_down s))" "speed (fst (speed_down s)) = speed s - 1"
    "snd (speed_down s) \<longleftrightarrow> 0 < speed s"
proof -
  have r: "speed s \<le> 200" "v_add s = 1" "v_dec s = 1" using assms by (simp_all add: speed_ok_def)
  have eq: "speed_down s = (if 0 < speed s
      then (s\<lparr>v_next_speed := v_rt_speed s - 1, v_rt_speed := v_rt_speed s - 1\<rparr>, True) else (s, False))"
  proof (cases "0 < speed s")
    case True
    then have "unat (v_rt_speed s - 1) = speed s - 1" by (simp add: unat_u16_sub1)
    then have "unat (v_rt_speed s - 1) < 32768" using r by simp
    then have "\<not> sint (v_rt_speed s - 1) < 0" using sint_compare(4) by fastforce
    then show ?thesis
      using True r by (simp add: speed_down_def Let_def sint_compare [of "v_rt_speed s"])
  next
    case False
    then show ?thesis using r by (simp add: speed_down_def sint_compare [of "v_rt_speed s"])
  qed
  show "speed_ok (fst (speed_down s))" "speed (fst (speed_down s)) = speed s - 1"
    "snd (speed_down s) \<longleftrightarrow> 0 < speed s"
    using r by (auto simp: eq speed_ok_def unat_u16_sub1)
qed

lemma motor_pwm_output:
  assumes "speed_ok s"
  shows "output_ok s (motor_pwm c (ucast (v_rt_speed s)))"
proof -
  let ?p = "ucast (v_rt_speed s) :: u8"
  have p: "unat ?p = speed s"
    using assms by (simp add: speed_ok_def unsigned_ucast_eq take_bit_nat_eq_self)
  then have q: "unat (ucast ?p :: u32) = speed s" by simp
  have "unat (200 - ucast ?p :: u32) = 200 - speed s"
    using assms by (subst unat_sub) (simp_all only: q word_le_nat_alt speed_ok_def, simp_all)
  then have "unat (32 * (200 - ucast ?p) :: u32) = 32 * (200 - speed s)"
    by (subst unat_mult_lem [THEN iffD1]) simp_all
  then have v: "unat (ucast (32 * (200 - ucast ?p) :: u32) :: u16) = 32 * (200 - speed s)"
    by (simp add: unsigned_ucast_eq take_bit_nat_eq_self)
  then have "(ucast (32 * (200 - ucast ?p) :: u32) :: u16) = 0 \<longleftrightarrow> speed s = 200"
    using assms by (auto simp: word_unat_eq_iff speed_ok_def)
  then show ?thesis using v by (simp add: output_ok_def motor_pwm_def Let_def)
qed

definition motor_ok :: "motors \<Rightarrow> bool" where
  "motor_ok m \<longleftrightarrow> speed_ok (Brush_Speed_tInfo m) \<and> output_ok (Brush_Speed_tInfo m) (brush_pwm m) \<and>
     speed_ok (Suction_Speed_tInfo m) \<and> output_ok (Suction_Speed_tInfo m) (suction_pwm m)"

lemma motor_ok_init: "motor_ok motor_init"
  by (simp add: motor_ok_def motor_init_def speed_init_def pwm_init_def speed_ok_def output_ok_def)

lemma output_unchanged: "speed s' = speed s \<Longrightarrow> output_ok s p \<Longrightarrow> output_ok s' p"
  by (simp add: output_ok_def)

text \<open>What the motor task makes of the two speeds.\<close>

definition brush_wanted :: "TKeyInfoDef \<Rightarrow> bool" where
  "brush_wanted i \<longleftrightarrow> Hand_Key_FLag i = 1 \<and> (Brush_Key_Flag i = 1 \<or> All_Key_Flag i = 1)"

definition suction_wanted :: "TKeyInfoDef \<Rightarrow> bool" where
  "suction_wanted i \<longleftrightarrow> Suction_Key_Flag i = 1 \<or> All_Key_Flag i = 1"

definition towards :: "bool \<Rightarrow> nat \<Rightarrow> nat" where
  "towards up n = (if up then min 200 (n + 1) else n - 1)"

definition speeds :: "motors \<Rightarrow> nat \<times> nat" where
  "speeds m = (speed (Brush_Speed_tInfo m), speed (Suction_Speed_tInfo m))"

lemma result_fields [simp]:
  "Brush_Speed_tInfo (brush_result r m) = fst r" "Suction_Speed_tInfo (brush_result r m) = Suction_Speed_tInfo m"
  "suction_pwm (brush_result r m) = suction_pwm m" "valve_open (brush_result r m) = valve_open m"
  "brush_pwm (brush_result r m) = (if snd r then motor_pwm True (ucast (v_rt_speed (fst r))) else brush_pwm m)"
  "Suction_Speed_tInfo (suction_result r m) = fst r" "Brush_Speed_tInfo (suction_result r m) = Brush_Speed_tInfo m"
  "brush_pwm (suction_result r m) = brush_pwm m" "valve_open (suction_result r m) = valve_open m"
  "suction_pwm (suction_result r m) = (if snd r then motor_pwm True (ucast (v_rt_speed (fst r))) else suction_pwm m)"
  by (simp_all add: brush_result_def suction_result_def Timera_Motor_Contorl_def Let_def)

lemma rgb_fields [simp]:
  "Brush_Speed_tInfo (Timera_RGB_Contorl c p m) = Brush_Speed_tInfo m"
  "Suction_Speed_tInfo (Timera_RGB_Contorl c p m) = Suction_Speed_tInfo m"
  "brush_pwm (Timera_RGB_Contorl c p m) = brush_pwm m" "suction_pwm (Timera_RGB_Contorl c p m) = suction_pwm m"
  "valve_open (Timera_RGB_Contorl c p m) = valve_open m"
  by (simp_all add: Timera_RGB_Contorl_def)

definition speed_move :: "bool \<Rightarrow> TspeedInfo \<Rightarrow> TspeedInfo \<times> bool" where
  "speed_move up s = (if up then speed_up s else speed_down s)"

lemma speed_move_ok:
  assumes "speed_ok s"
  shows "speed_ok (fst (speed_move up s))" "speed (fst (speed_move up s)) = towards up (speed s)"
    "\<not> snd (speed_move up s) \<Longrightarrow> speed (fst (speed_move up s)) = speed s"
  using speed_up_ok [OF assms] speed_down_ok [OF assms] assms
  by (auto simp: speed_move_def towards_def speed_ok_def)

lemma move_output:
  assumes "speed_ok s" "output_ok s p"
  shows "output_ok (fst (speed_move up s))
    (if snd (speed_move up s) then motor_pwm True (ucast (v_rt_speed (fst (speed_move up s)))) else p)"
  using speed_move_ok [OF assms(1), of up] motor_pwm_output output_unchanged [OF _ assms(2)] by simp

lemma motor_round_fields:
  "Brush_Speed_tInfo (MOTOR_vTaskHandler_Entry i m) = fst (speed_move (brush_wanted i) (Brush_Speed_tInfo m))"
  "Suction_Speed_tInfo (MOTOR_vTaskHandler_Entry i m) = fst (speed_move (suction_wanted i) (Suction_Speed_tInfo m))"
  "brush_pwm (MOTOR_vTaskHandler_Entry i m) = (let r = speed_move (brush_wanted i) (Brush_Speed_tInfo m)
     in if snd r then motor_pwm True (ucast (v_rt_speed (fst r))) else brush_pwm m)"
  "suction_pwm (MOTOR_vTaskHandler_Entry i m) = (let r = speed_move (suction_wanted i) (Suction_Speed_tInfo m)
     in if snd r then motor_pwm True (ucast (v_rt_speed (fst r))) else suction_pwm m)"
  "valve_open (MOTOR_vTaskHandler_Entry i m) = brush_wanted i"
  by (auto simp: MOTOR_vTaskHandler_Entry_def Let_def brush_wanted_def suction_wanted_def speed_move_def
      Brush_Work_Speed_vTaskHandler_def Brush_Work_Stop_vTaskHandler_def
      Suction_Work_Speed_vTaskHandler_def Suction_Work_Stop_vTaskHandler_def)

lemma motor_round:
  assumes "motor_ok m"
  shows "motor_ok (MOTOR_vTaskHandler_Entry i m)"
    "speeds (MOTOR_vTaskHandler_Entry i m)
      = (towards (brush_wanted i) (fst (speeds m)), towards (suction_wanted i) (snd (speeds m)))"
  using assms by (simp_all add: motor_ok_def motor_round_fields Let_def speed_move_ok move_output speeds_def)

lemma rgb_round:
  "motor_ok m \<Longrightarrow> motor_ok (RGB_timer_timeout m)" "speeds (RGB_timer_timeout m) = speeds m"
  "valve_open (RGB_timer_timeout m) = valve_open m"
  by (simp_all add: motor_ok_def RGB_timer_timeout_def Let_def speeds_def)

text \<open>The index into the light's table stays in range; its last entry is never shown.\<close>

lemma rgb_index_range:
  assumes "unat (rgb_num m) < length indexWave - 1"
  shows "unat (rgb_num (RGB_timer_timeout m)) < length indexWave - 1"
  using assms by (auto simp: RGB_timer_timeout_def Let_def Timera_RGB_Contorl_def indexWave_def unat_u16_add1)

section \<open>Scanning, motors and light together\<close>

text \<open>
  The key task, the motor task and the light's timer run in any order; the motor task reads the flags
  the key task has left.
\<close>

datatype drive_event = Scan pins | Motor_round | Rgb_tick

primrec drive_step :: "drive_event \<Rightarrow> keys \<times> motors \<Rightarrow> keys \<times> motors" where
  "drive_step (Scan p) s = (Key_vTaskHandler_entry p (fst s), snd s)"
| "drive_step Motor_round s = (fst s, MOTOR_vTaskHandler_Entry (Key_ptGetInfo (fst s)) (snd s))"
| "drive_step Rgb_tick s = (fst s, RGB_timer_timeout (snd s))"

lemma drive_ok: "motor_ok (snd s) \<Longrightarrow> motor_ok (snd (fold drive_step es s))"
proof (induction es arbitrary: s)
  case (Cons e es)
  then show ?case by (cases e) (simp_all add: motor_round rgb_round)
qed simp

lemma fold_take_Suc: "k < length es \<Longrightarrow> fold f (take (Suc k) es) s = f (es ! k) (fold f (take k es) s)"
  by (simp add: take_Suc_conv_app_nth)

text \<open>
  C28. The motors are driven smoothly and within range: in every order of key scans, motor rounds and
  light ticks from power-on, both speeds stay between 0 and 200 and move by at most one in a step, the
  compare value of each PWM channel is 32 times the missing speed (so 6400, a full period, at
  standstill), and an output is forced high exactly at full speed.
\<close>

theorem motors_follow_speed:
  defines "s \<equiv> \<lambda>k es. snd (fold drive_step (take k es) (key_init, motor_init))"
  shows "motor_ok (s k es) \<and>
    (k < length es \<longrightarrow>
      \<bar>int (fst (speeds (s (Suc k) es))) - int (fst (speeds (s k es)))\<bar> \<le> 1 \<and>
      \<bar>int (snd (speeds (s (Suc k) es))) - int (snd (speeds (s k es)))\<bar> \<le> 1)"
proof -
  have ok: "motor_ok (s k es)" unfolding s_def by (rule drive_ok) (simp add: motor_ok_init)
  then have r: "fst (speeds (s k es)) \<le> 200" "snd (speeds (s k es)) \<le> 200"
    by (simp_all add: motor_ok_def speed_ok_def speeds_def)
  have t: "n \<le> 200 \<Longrightarrow> \<bar>int (towards u n) - int n\<bar> \<le> 1" for u n by (auto simp: towards_def)
  have "\<bar>int (fst (speeds (s (Suc k) es))) - int (fst (speeds (s k es)))\<bar> \<le> 1 \<and>
      \<bar>int (snd (speeds (s (Suc k) es))) - int (snd (speeds (s k es)))\<bar> \<le> 1" if "k < length es"
  proof -
    let ?f = "fold drive_step (take k es) (key_init, motor_init)"
    have e: "s (Suc k) es = snd (drive_step (es ! k) ?f)" using that by (simp add: s_def fold_take_Suc)
    have m: "snd ?f = s k es" by (simp add: s_def)
    show ?thesis unfolding e
      by (cases "es ! k") (simp_all add: m motor_round [OF ok] rgb_round t [OF r(1)] t [OF r(2)])
  qed
  then show ?thesis using ok by blast
qed

theorem motors_follow_speed_witness:
  "let s = \<lambda>k. snd (fold drive_step (take k [Motor_round, Rgb_tick]) (key_init, motor_init))
   in motor_ok (s 1) \<and> \<bar>int (fst (speeds (s 2))) - int (fst (speeds (s 1)))\<bar> \<le> 1"
  using motors_follow_speed [of 1 "[Motor_round, Rgb_tick]"] by (simp add: numeral_2_eq_2)

section \<open>Switching off\<close>

definition all_released :: "keys \<Rightarrow> bool" where
  "all_released k \<longleftrightarrow> (let i = Key_tInfo k in All_Key_Flag i = 0 \<and> Brush_Key_Flag i = 0 \<and> Suction_Key_Flag i = 0)"

lemma off_scan: "off_value p < 500 \<Longrightarrow> all_released (Key_vTaskHandler_entry p k)"
  by (simp add: all_released_def Key_vTaskHandler_entry_def Key_Output_def Key_Scan_def Let_def)

lemma released_wants_nothing:
  "all_released k \<Longrightarrow> \<not> brush_wanted (Key_ptGetInfo k) \<and> \<not> suction_wanted (Key_ptGetInfo k)"
  by (simp add: all_released_def brush_wanted_def suction_wanted_def Key_ptGetInfo_def Let_def)

definition is_off :: "drive_event \<Rightarrow> bool" where
  "is_off e = (case e of Scan p \<Rightarrow> off_value p < 500 | _ \<Rightarrow> True)"

lemma coasting:
  assumes "all_released (fst s)" "motor_ok (snd s)" "\<forall>e \<in> set es. is_off e"
  defines "n \<equiv> length (filter ((=) Motor_round) es)" and "t \<equiv> fold drive_step es s"
  shows "speeds (snd t) = (fst (speeds (snd s)) - n, snd (speeds (snd s)) - n) \<and>
    (0 < n \<longrightarrow> \<not> valve_open (snd t)) \<and> (\<not> valve_open (snd s) \<longrightarrow> \<not> valve_open (snd t))"
  using assms(1-3) unfolding n_def t_def
proof (induction es arbitrary: s)
  case (Cons e es)
  note w = released_wants_nothing [OF Cons.prems(1)]
  show ?case
  proof (cases e)
    case (Scan p)
    then show ?thesis
      using Cons.IH [of "drive_step e s"] Cons.prems off_scan [of p "fst s"] by (simp add: is_off_def)
  next
    case Motor_round
    then show ?thesis
      using Cons.IH [of "drive_step e s"] Cons.prems w
      by (simp add: motor_round [OF Cons.prems(2)] motor_round_fields(5) towards_def)
  next
    case Rgb_tick
    then show ?thesis
      using Cons.IH [of "drive_step e s"] Cons.prems by (simp add: rgb_round)
  qed
qed (simp add: speeds_def)

text \<open>
  C24. The off position stops the machine: whatever happened since power-on, a scan that reads the off
  position, followed by any interleaving of scans that also read it, light ticks and at least 200
  motor rounds (two seconds), leaves both motors at standstill, with compare values of a full period,
  and the valve closed. The off position needs no debouncing time.
\<close>

theorem off_stops_motors:
  fixes past :: "drive_event list"
  assumes "off_value p < 500" "\<forall>e \<in> set es. is_off e" "200 \<le> length (filter ((=) Motor_round) es)"
  defines "m \<equiv> snd (fold drive_step (past @ Scan p # es) (key_init, motor_init))"
  shows "speeds m = (0, 0) \<and> unat (compare_val (brush_pwm m)) = 6400 \<and>
    unat (compare_val (suction_pwm m)) = 6400 \<and> \<not> valve_open m"
proof -
  let ?s = "drive_step (Scan p) (fold drive_step past (key_init, motor_init))"
  have ok: "motor_ok (snd ?s)" using drive_ok [of "(key_init, motor_init)" past] by (simp add: motor_ok_init)
  then have le: "fst (speeds (snd ?s)) \<le> 200" "snd (speeds (snd ?s)) \<le> 200"
    by (simp_all add: motor_ok_def speed_ok_def speeds_def)
  have m: "m = snd (fold drive_step es ?s)" by (simp add: m_def)
  have pos: "0 < length (filter ((=) Motor_round) es)" using assms(3) by linarith
  have "all_released (fst ?s)" using assms(1) by (simp add: off_scan)
  from coasting [OF this ok assms(2)] have c: "speeds m = (0, 0)" "\<not> valve_open m"
    using le assms(3) pos by (simp_all only: m) simp_all
  moreover have "motor_ok m" unfolding m using drive_ok [OF ok] .
  ultimately show ?thesis by (simp add: motor_ok_def output_ok_def speeds_def)
qed

theorem off_stops_motors_witness:
  "speeds (snd (fold drive_step ([Motor_round] @ Scan \<lparr>pin_B3 = (False, False), pin_A2 = (True, True),
      pin_A1 = (True, True), pin_hand1 = (False, False), pin_hand2 = (True, True), off_value = 280\<rparr>
      # replicate 200 Motor_round) (key_init, motor_init))) = (0, 0)"
proof -
  have "(\<forall>e \<in> set (replicate 200 Motor_round). is_off e) \<and>
      200 \<le> length (filter ((=) Motor_round) (replicate 200 Motor_round))"
    by (simp add: is_off_def filter_replicate)
  then show ?thesis by (intro off_stops_motors [THEN conjunct1]) simp_all
qed

end
