(* ===== verification/FlashDev.thy ===== *)
theory FlashDev
  imports Prelude
begin

text \<open>
  The embedded flash of the HC32F460 and the byte-level access both programs build on it.
  The flash controller (EFM) is driven through the vendor routines of hc32f460_efm.c
  (\<open>EFM_Unlock\<close>, \<open>EFM_SingleProgram\<close>, \<open>EFM_SectorErase\<close>, ...), translated here with the
  controller's registers as a record. What the silicon does when a word is stored into the
  flash address range is not code: it is the parameter \<open>flash_chip\<close>, with the behaviour the
  data sheet promises as the predicate \<open>flash_chip_ok\<close> (programming an erased word stores it,
  erasing fills the 8 KB sector with 0xFF, the ready flag comes within the driver's patience).
  The locale \<open>nv_store\<close> is the interface the flash log and the firmware updater rely on; it is
  interpreted on the application's and on the bootloader's routines.
\<close>

section \<open>Controller and chip\<close>

datatype en_result_t =
    Ok | Error | ErrorAddressAlignment | ErrorAccessRights | ErrorInvalidParameter
  | ErrorOperationInProgress | ErrorInvalidMode | ErrorUninitialized | ErrorBufferFull
  | ErrorTimeout | ErrorNotReady | OperationInProgress

datatype efm_mode =
    EFM_MODE_READONLY | EFM_MODE_SINGLEPROGRAM | EFM_MODE_SINGLEPROGRAMRB
  | EFM_MODE_SEQUENCEPROGRAM | EFM_MODE_SECTORERASE | EFM_MODE_CHIPERASE

record efm =
  FMEM :: memory
  FAPRT_unlocked :: bool
  FSTP :: bool
  PEMODE :: bool
  PEMOD :: efm_mode
  CACHE :: bool

text \<open>
  \<open>chip_store e a w\<close> is the flash content after the word \<open>w\<close> is stored to address \<open>a\<close> with the
  controller in state \<open>e\<close>; \<open>chip_polls e\<close> is the number of polls that find FSR.RDY unset
  afterwards.
\<close>

record flash_chip =
  chip_store :: "efm \<Rightarrow> nat \<Rightarrow> u32 \<Rightarrow> memory"
  chip_polls :: "efm \<Rightarrow> nat"

definition SECTOR :: nat where
  "SECTOR = 8192"

definition erased :: "memory \<Rightarrow> nat \<Rightarrow> nat \<Rightarrow> bool" where
  "erased m a n \<longleftrightarrow> (\<forall>i<n. m (a + i) = 255)"

definition flash_chip_ok :: "flash_chip \<Rightarrow> bool" where
  "flash_chip_ok c \<longleftrightarrow>
     (\<forall>e a w. FAPRT_unlocked e \<and> \<not> FSTP e \<and> PEMODE e \<and> PEMOD e = EFM_MODE_SINGLEPROGRAM \<and>
        a mod 4 = 0 \<and> erased (FMEM e) a 4 \<longrightarrow> chip_store c e a w = mwrite (FMEM e) a (le32 w)) \<and>
     (\<forall>e a w. FAPRT_unlocked e \<and> \<not> FSTP e \<and> PEMODE e \<and> PEMOD e = EFM_MODE_SECTORERASE \<and>
        a mod SECTOR = 0 \<longrightarrow> chip_store c e a w = mfill (FMEM e) a SECTOR 255) \<and>
     (\<forall>e. chip_polls c e \<le> 0x1000)"

text \<open>
  A concrete chip with these properties: programming can only clear bits, as in any NOR flash,
  and a store with the controller locked, stopped or in read mode has no effect.
\<close>

definition nor_chip :: flash_chip where
  "nor_chip = \<lparr>
     chip_store = (\<lambda>e a w.
       if FAPRT_unlocked e \<and> \<not> FSTP e \<and> PEMODE e
       then (case PEMOD e of
           EFM_MODE_SINGLEPROGRAM \<Rightarrow>
             mwrite (FMEM e) a (map2 (AND) (mread (FMEM e) a 4) (le32 w))
         | EFM_MODE_SECTORERASE \<Rightarrow> mfill (FMEM e) (a - a mod SECTOR) SECTOR 255
         | _ \<Rightarrow> FMEM e)
       else FMEM e),
     chip_polls = (\<lambda>e. 3)\<rparr>"

lemma map2_and_ones: "length xs = length ys \<Longrightarrow> (\<forall>x \<in> set xs. x = (255 :: u8)) \<Longrightarrow> map2 (AND) xs ys = ys"
proof (induction xs ys rule: list_induct2)
  case (Cons x xs y ys)
  have "(255 :: u8) AND y = y"
  proof -
    have "(255 :: u8) = - 1" by simp
    then show ?thesis by (simp only: and.left_neutral)
  qed
  with Cons show ?case by simp
qed simp

lemma nor_chip_ok: "flash_chip_ok nor_chip"
proof -
  have "map2 (AND) (mread m a 4) (le32 w) = le32 w" if "erased m a 4" for m a w
    using that by (intro map2_and_ones) (auto simp: erased_def mread_def)
  then show ?thesis
    by (auto simp: flash_chip_ok_def nor_chip_def)
qed

text \<open>The controller after a reset, over the flash content \<open>m\<close>.\<close>

definition efm_reset :: "memory \<Rightarrow> efm" where
  "efm_reset m = \<lparr>FMEM = m, FAPRT_unlocked = False, FSTP = False, PEMODE = False,
     PEMOD = EFM_MODE_READONLY, CACHE = False\<rparr>"

section \<open>The vendor driver\<close>

definition EFM_Unlock :: "efm \<Rightarrow> efm" where
  "EFM_Unlock e = e\<lparr>FAPRT_unlocked := True\<rparr>"

definition EFM_Lock :: "efm \<Rightarrow> efm" where
  "EFM_Lock e = (if FAPRT_unlocked e then e\<lparr>FAPRT_unlocked := False\<rparr> else e)"

definition EFM_FlashCmd :: "bool \<Rightarrow> efm \<Rightarrow> efm" where
  "EFM_FlashCmd enable e = e\<lparr>FSTP := \<not> enable\<rparr>"

definition EFM_ErasePgmCmd :: "bool \<Rightarrow> efm \<Rightarrow> efm" where
  "EFM_ErasePgmCmd enable e = e\<lparr>PEMODE := enable\<rparr>"

definition EFM_SingleProgram :: "flash_chip \<Rightarrow> efm \<Rightarrow> u32 \<Rightarrow> u32 \<Rightarrow> en_result_t \<times> efm" where
  "EFM_SingleProgram c e addr data =
    (let tmp = CACHE e;
         e = e\<lparr>CACHE := False\<rparr>;
         e = EFM_ErasePgmCmd True e;
         e = e\<lparr>PEMOD := EFM_MODE_SINGLEPROGRAM\<rparr>;
         polls = chip_polls c e;
         e = e\<lparr>FMEM := chip_store c e (unat addr) data\<rparr>;
         ret = (if polls > 0x1000 then ErrorTimeout else Ok);
         ret = (if data \<noteq> of_le32 (mread (FMEM e) (unat addr) 4) then Error else ret);
         e = e\<lparr>PEMOD := EFM_MODE_READONLY\<rparr>;
         e = EFM_ErasePgmCmd False e;
         e = e\<lparr>CACHE := tmp\<rparr>
     in (ret, e))"

definition EFM_SectorErase :: "flash_chip \<Rightarrow> efm \<Rightarrow> u32 \<Rightarrow> en_result_t \<times> efm" where
  "EFM_SectorErase c e addr =
    (let tmp = CACHE e;
         e = e\<lparr>CACHE := False\<rparr>;
         e = EFM_ErasePgmCmd True e;
         e = e\<lparr>PEMOD := EFM_MODE_SECTORERASE\<rparr>;
         polls = chip_polls c e;
         e = e\<lparr>FMEM := chip_store c e (unat addr) 0x12345678\<rparr>;
         ret = (if polls > 0x1000 then ErrorTimeout else Ok);
         e = e\<lparr>PEMOD := EFM_MODE_READONLY\<rparr>;
         e = EFM_ErasePgmCmd False e;
         e = e\<lparr>CACHE := tmp\<rparr>
     in (ret, e))"

lemma EFM_SingleProgram_erased:
  assumes "flash_chip_ok c" "FAPRT_unlocked e" "\<not> FSTP e" "unat a mod 4 = 0" "erased (FMEM e) (unat a) 4"
  shows "EFM_SingleProgram c e a w =
    (Ok, e\<lparr>FMEM := mwrite (FMEM e) (unat a) (le32 w), PEMODE := False, PEMOD := EFM_MODE_READONLY\<rparr>)"
  using assms
  by (auto simp: EFM_SingleProgram_def EFM_ErasePgmCmd_def Let_def flash_chip_ok_def mem_simps not_less)

lemma EFM_SectorErase_aligned:
  assumes "flash_chip_ok c" "FAPRT_unlocked e" "\<not> FSTP e" "unat a mod SECTOR = 0"
  shows "EFM_SectorErase c e a =
    (Ok, e\<lparr>FMEM := mfill (FMEM e) (unat a) SECTOR 255, PEMODE := False, PEMOD := EFM_MODE_READONLY\<rparr>)"
  using assms
  by (auto simp: EFM_SectorErase_def EFM_ErasePgmCmd_def Let_def flash_chip_ok_def not_less)

end
