(* ===== verification/FlashIo.thy ===== *)
theory FlashIo
  imports FlashDev
begin

text \<open>
  The flash access routines of the two programs: \<open>FLASH_vReadByte\<close>, \<open>FLASH_WriteByte\<close>,
  \<open>FLASH_vEraseSector\<close> of applications/flash.c and \<open>FLASH_vWriteBytes\<close>, \<open>FLASH_vEraseSector\<close> of
  source/flash.c. They differ in how they treat a failed programming step: the application stops
  in an endless loop (the result \<open>None\<close>), the bootloader toggles a LED and goes on. The wait for
  the ready flag before the first word is taken to end.
\<close>

section \<open>The interface of a non-volatile byte store\<close>

locale nv_store =
  fixes dev_ok :: "'d \<Rightarrow> bool"
    and cells :: "'d \<Rightarrow> memory"
    and nv_read :: "'d \<Rightarrow> u32 \<Rightarrow> u32 \<Rightarrow> bytes"
    and nv_write :: "'d \<Rightarrow> u32 \<Rightarrow> bytes \<Rightarrow> u32 \<Rightarrow> 'd option"
    and nv_erase :: "'d \<Rightarrow> u32 \<Rightarrow> u32 \<Rightarrow> 'd"
  assumes read_cells: "nv_read d a n = mread (cells d) (unat a) (unat n)"
    and write_ok: "dev_ok d \<Longrightarrow> unat a mod 4 = 0 \<Longrightarrow> unat n mod 4 = 0 \<Longrightarrow> unat n \<le> length bs \<Longrightarrow>
      unat a + unat n < 4294967296 \<Longrightarrow> erased (cells d) (unat a) (unat n) \<Longrightarrow>
      \<exists>d'. nv_write d a bs n = Some d' \<and> dev_ok d' \<and>
           cells d' = mwrite (cells d) (unat a) (take (unat n) bs)"
    and erase_ok: "dev_ok d \<Longrightarrow> unat a mod SECTOR = 0 \<Longrightarrow> unat n mod SECTOR = 0 \<Longrightarrow>
      unat a + unat n < 4294967296 \<Longrightarrow>
      dev_ok (nv_erase d a n) \<and> cells (nv_erase d a n) = mfill (cells d) (unat a) (unat n) 255"
begin

lemma write_then_read:
  assumes "dev_ok d" "unat a mod 4 = 0" "unat n mod 4 = 0" "unat n \<le> length bs"
    "unat a + unat n < 4294967296" "erased (cells d) (unat a) (unat n)"
  obtains d' where "nv_write d a bs n = Some d'" "dev_ok d'" "nv_read d' a n = take (unat n) bs"
    "\<And>b k. unat b + unat k \<le> unat a \<or> unat a + unat n \<le> unat b \<Longrightarrow> nv_read d' b k = nv_read d b k"
    "cells d' = mwrite (cells d) (unat a) (take (unat n) bs)"
proof -
  obtain d' where d': "nv_write d a bs n = Some d'" "dev_ok d'"
      "cells d' = mwrite (cells d) (unat a) (take (unat n) bs)"
    using write_ok [OF assms] by blast
  show ?thesis
  proof (rule that)
    show "nv_read d' a n = take (unat n) bs"
      using d' assms(4) by (simp add: read_cells mem_simps)
    show "nv_read d' b k = nv_read d b k" if "unat b + unat k \<le> unat a \<or> unat a + unat n \<le> unat b" for b k
      using d' assms(4) that by (simp add: read_cells mem_simps)
  qed (use d' in auto)
qed

lemma erase_erased:
  assumes "dev_ok d" "unat a mod SECTOR = 0" "unat n mod SECTOR = 0" "unat a + unat n < 4294967296"
    "unat a \<le> b" "b + k \<le> unat a + unat n"
  shows "erased (cells (nv_erase d a n)) b k"
  using erase_ok [OF assms(1-4)] assms(5,6) by (auto simp: erased_def mem_simps)

end

section \<open>Little-endian words of a byte list\<close>

text \<open>
  Both programs gather the next word with shifts: \<open>*p++ | *p++ << 8 | *p++ << 16 | *p++ << 24\<close>,
  which is \<open>of_le32\<close> of the next four bytes.
\<close>

lemma erased_split: "erased m a (n + k) \<longleftrightarrow> erased m a n \<and> erased m (a + n) k"
proof
  assume *: "erased m a (n + k)"
  have "m (a + n + i) = 255" if "i < k" for i
    using * that unfolding erased_def by (metis add.assoc nat_add_left_cancel_less)
  with * show "erased m a n \<and> erased m (a + n) k" by (auto simp: erased_def)
next
  assume *: "erased m a n \<and> erased m (a + n) k"
  show "erased m a (n + k)"
    unfolding erased_def
  proof (intro allI impI)
    fix i assume "i < n + k"
    show "m (a + i) = 255"
    proof (cases "i < n")
      case False
      then have "i - n < k" "a + n + (i - n) = a + i" using \<open>i < n + k\<close> by auto
      with * show ?thesis unfolding erased_def by metis
    qed (use * in \<open>auto simp: erased_def\<close>)
  qed
qed

lemma erased_mwrite_later: "a + length bs \<le> b \<Longrightarrow> erased (mwrite m a bs) b n = erased m b n"
  by (simp add: erased_def mem_simps)

lemma erased_mwrite_earlier: "b + n \<le> a \<Longrightarrow> erased (mwrite m a bs) b n = erased m b n"
  by (simp add: erased_def mem_simps)

lemma le32_of_take: "4 \<le> length ds \<Longrightarrow> le32 (of_le32 ds) = take 4 ds"
proof -
  assume "4 \<le> length ds"
  then have "le32 (of_le32 (take 4 ds)) = take 4 ds" by (intro le32_of_le32) simp
  moreover from \<open>4 \<le> length ds\<close> have "of_le32 (take 4 ds) = of_le32 ds" by (simp add: of_le32_def)
  ultimately show ?thesis by simp
qed

section \<open>The application's routines\<close>

definition FLASH_vReadByte :: "efm \<Rightarrow> u32 \<Rightarrow> u32 \<Rightarrow> bytes" where
  "FLASH_vReadByte e addr len = mread (FMEM e) (unat addr) (unat len)"

primrec write_words :: "flash_chip \<Rightarrow> nat \<Rightarrow> efm \<Rightarrow> u32 \<Rightarrow> bytes \<Rightarrow> efm option" where
  "write_words c 0 e addr ds = Some e"
| "write_words c (Suc n) e addr ds =
     (case EFM_SingleProgram c e addr (of_le32 ds) of
        (Ok, e') \<Rightarrow> write_words c n e' (addr + 4) (drop 4 ds)
      | (_, e') \<Rightarrow> None)"

definition FLASH_WriteByte :: "flash_chip \<Rightarrow> efm \<Rightarrow> u32 \<Rightarrow> bytes \<Rightarrow> u32 \<Rightarrow> efm option" where
  "FLASH_WriteByte c e addr ds len =
    (let e = EFM_Unlock e;
         e = EFM_FlashCmd True e
     in map_option EFM_Lock (write_words c (unat (len div 4)) e addr ds))"

definition sector_count :: "u32 \<Rightarrow> u32" where
  "sector_count sz = (if sz mod 0x2000 = 0 then sz div 0x2000 else sz div 0x2000 + 1)"

primrec erase_sectors :: "flash_chip \<Rightarrow> nat \<Rightarrow> efm \<Rightarrow> u32 \<Rightarrow> efm" where
  "erase_sectors c 0 e addr = e"
| "erase_sectors c (Suc n) e addr = erase_sectors c n (snd (EFM_SectorErase c e addr)) (addr + 0x2000)"

definition FLASH_vEraseSector :: "flash_chip \<Rightarrow> efm \<Rightarrow> u32 \<Rightarrow> u32 \<Rightarrow> efm" where
  "FLASH_vEraseSector c e addr sz =
    (let e = EFM_Unlock e;
         e = EFM_FlashCmd True e
     in EFM_Lock (erase_sectors c (unat (sector_count sz)) e addr))"

lemma write_words_erased:
  assumes "flash_chip_ok c"
  shows "FAPRT_unlocked e \<Longrightarrow> \<not> FSTP e \<Longrightarrow> unat a mod 4 = 0 \<Longrightarrow> 4 * n \<le> length ds \<Longrightarrow>
     unat a + 4 * n < 4294967296 \<Longrightarrow> erased (FMEM e) (unat a) (4 * n) \<Longrightarrow>
     \<exists>e'. write_words c n e a ds = Some e' \<and> FAPRT_unlocked e' \<and> \<not> FSTP e' \<and>
          FMEM e' = mwrite (FMEM e) (unat a) (take (4 * n) ds)"
proof (induction n arbitrary: e a ds)
  case (Suc n)
  have a4: "unat (a + 4) = unat a + 4"
    using Suc.prems by (simp add: unat_add_no_wrap)
  have er: "erased (FMEM e) (unat a) 4" "erased (FMEM e) (unat a + 4) (4 * n)"
    using Suc.prems(6) erased_split [of "FMEM e" "unat a" 4 "4 * n"] by simp_all
  let ?m = "mwrite (FMEM e) (unat a) (take 4 ds)"
  let ?e = "e\<lparr>FMEM := ?m, PEMODE := False, PEMOD := EFM_MODE_READONLY\<rparr>"
  have step: "EFM_SingleProgram c e a (of_le32 ds) = (Ok, ?e)"
    using EFM_SingleProgram_erased [OF assms Suc.prems(1-3) er(1)] Suc.prems(4)
    by (simp add: le32_of_take)
  have "\<exists>e'. write_words c n ?e (a + 4) (drop 4 ds) = Some e' \<and> FAPRT_unlocked e' \<and> \<not> FSTP e' \<and>
          FMEM e' = mwrite (FMEM ?e) (unat (a + 4)) (take (4 * n) (drop 4 ds))"
    by (rule Suc.IH)
      (use Suc.prems a4 er(2) in \<open>auto simp: erased_mwrite_later min_def\<close>)
  moreover have "take (4 * Suc n) ds = take 4 ds @ take (4 * n) (drop 4 ds)"
    by (simp add: take_append_drop_chunk)
  ultimately show ?case
    using step a4 Suc.prems(4) by (auto simp: mwrite_append min_def)
qed simp

lemma mfill_mfill: "mfill (mfill m a n b) (a + n) k b = mfill m a (n + k) b"
  by (rule ext) (auto simp: mfill_def)

lemma erase_sectors_aligned:
  assumes "flash_chip_ok c"
  shows "FAPRT_unlocked e \<Longrightarrow> \<not> FSTP e \<Longrightarrow> unat a mod SECTOR = 0 \<Longrightarrow>
     unat a + SECTOR * n < 4294967296 \<Longrightarrow>
     FAPRT_unlocked (erase_sectors c n e a) \<and> \<not> FSTP (erase_sectors c n e a) \<and>
     FMEM (erase_sectors c n e a) = mfill (FMEM e) (unat a) (SECTOR * n) 255"
proof (induction n arbitrary: e a)
  case 0
  then show ?case by simp
next
  case (Suc n)
  let ?e = "e\<lparr>FMEM := mfill (FMEM e) (unat a) SECTOR 255, PEMODE := False, PEMOD := EFM_MODE_READONLY\<rparr>"
  have a': "unat (a + 0x2000) = unat a + SECTOR"
    using Suc.prems by (simp add: unat_add_no_wrap SECTOR_def)
  have step: "snd (EFM_SectorErase c e a) = ?e"
    using EFM_SectorErase_aligned [OF assms Suc.prems(1-3)] by simp
  have "FAPRT_unlocked (erase_sectors c n ?e (a + 0x2000)) \<and> \<not> FSTP (erase_sectors c n ?e (a + 0x2000)) \<and>
     FMEM (erase_sectors c n ?e (a + 0x2000)) = mfill (FMEM ?e) (unat (a + 0x2000)) (SECTOR * n) 255"
    by (rule Suc.IH) (use Suc.prems a' in auto)
  then show ?case
    using step a' by (simp add: mfill_mfill)
qed

lemma unat_sector_count:
  "unat n mod SECTOR = 0 \<Longrightarrow> SECTOR * unat (sector_count n) = unat n"
  by (auto simp: sector_count_def SECTOR_def word32_eq_iff_unat unat_mod unat_div)

interpretation app_nv: nv_store "\<lambda>_. flash_chip_ok c" FMEM FLASH_vReadByte "FLASH_WriteByte c"
  "FLASH_vEraseSector c" for c
proof (unfold_locales, goal_cases)
  case (1 d a n)
  show ?case by (simp add: FLASH_vReadByte_def)
next
  case (2 d a n bs)
  have n: "4 * unat (n div 4) = unat n" using 2(3) by (auto simp: unat_div)
  show ?case
    using write_words_erased [OF 2(1), of "EFM_FlashCmd True (EFM_Unlock d)" a "unat (n div 4)" bs] 2 n
    by (auto simp: FLASH_WriteByte_def Let_def EFM_FlashCmd_def EFM_Unlock_def EFM_Lock_def)
next
  case (3 d a n)
  show ?case
    using erase_sectors_aligned [OF 3(1), of "EFM_FlashCmd True (EFM_Unlock d)" a "unat (sector_count n)"] 3
    by (auto simp: FLASH_vEraseSector_def Let_def EFM_FlashCmd_def EFM_Unlock_def EFM_Lock_def
        unat_sector_count)
qed

section \<open>The bootloader's routines\<close>

text \<open>
  The number of LED toggles (\<open>PORT_Toggle(LED1_PORT, LED1_PIN)\<close>) is kept beside the controller:
  it counts the words whose programming failed.
\<close>

primrec boot_write_words :: "flash_chip \<Rightarrow> nat \<Rightarrow> efm \<times> nat \<Rightarrow> u32 \<Rightarrow> bytes \<Rightarrow> efm \<times> nat" where
  "boot_write_words c 0 s addr ds = s"
| "boot_write_words c (Suc n) s addr ds =
     (case EFM_SingleProgram c (fst s) addr (of_le32 ds) of
        (ret, e') \<Rightarrow> boot_write_words c n (e', if ret \<noteq> Ok then snd s + 1 else snd s) (addr + 4) (drop 4 ds))"

definition boot_FLASH_vWriteBytes :: "flash_chip \<Rightarrow> efm \<times> nat \<Rightarrow> u32 \<Rightarrow> bytes \<Rightarrow> u32 \<Rightarrow> efm \<times> nat" where
  "boot_FLASH_vWriteBytes c s addr ds len =
    (let e = EFM_Unlock (fst s);
         e = EFM_FlashCmd True e;
         (e, led) = boot_write_words c (unat (len div 4)) (e, snd s) addr ds
     in (EFM_Lock e, led))"

definition boot_FLASH_vEraseSector :: "flash_chip \<Rightarrow> efm \<times> nat \<Rightarrow> u32 \<Rightarrow> u32 \<Rightarrow> efm \<times> nat" where
  "boot_FLASH_vEraseSector c s addr sz =
    (let e = EFM_Unlock (fst s);
         e = EFM_FlashCmd True e
     in (EFM_Lock (erase_sectors c (unat (sector_count sz)) e addr), snd s))"

text \<open>Where the application's writer finishes, the bootloader's does the same without toggling.\<close>

lemma boot_write_words_agrees:
  "write_words c n e a ds = Some e' \<Longrightarrow> boot_write_words c n (e, led) a ds = (e', led)"
  by (induction n arbitrary: e a ds) (auto split: prod.splits en_result_t.splits)

interpretation boot_nv: nv_store "\<lambda>_. flash_chip_ok c" "FMEM \<circ> fst"
  "\<lambda>s. FLASH_vReadByte (fst s)" "\<lambda>s a bs n. Some (boot_FLASH_vWriteBytes c s a bs n)"
  "boot_FLASH_vEraseSector c" for c
proof (unfold_locales, goal_cases)
  case (1 d a n)
  show ?case by (simp add: FLASH_vReadByte_def)
next
  case (2 d a n bs)
  then obtain e' where e': "FLASH_WriteByte c (fst d) a bs n = Some e'"
      "FMEM e' = mwrite (FMEM (fst d)) (unat a) (take (unat n) bs)"
    using app_nv.write_ok [of c a n bs "fst d"] by auto
  then have "fst (boot_FLASH_vWriteBytes c d a bs n) = e'"
    by (auto simp: FLASH_WriteByte_def boot_FLASH_vWriteBytes_def Let_def
        dest!: boot_write_words_agrees [where led = "snd d"])
  with 2 e'(2) show ?case by auto
next
  case (3 d a n)
  then show ?case
    using app_nv.erase_ok [of c a n "fst d"]
    by (simp add: FLASH_vEraseSector_def boot_FLASH_vEraseSector_def Let_def)
qed

end
