(* ===== verification/FlashLog.thy ===== *)
theory FlashLog
  imports FlashIo Clock
begin

text \<open>
  The flash log of applications/flash.c: the operating hours are saved in 16-byte records that
  fill the top 16 KB of the flash from slot 0 to slot 1023 (8 pages of 128 segments); a boot
  searches for the last record from the top. The state is \<open>FLASH_tFlashInfo\<close> together with the
  flash controller and the clock the records are loaded into. One iteration of the flash thread's
  endless loop is one step. Runs of the whole application over the log are in theory \<open>SysTask\<close>.
\<close>

section \<open>Data and layout\<close>

datatype TFlashTaskState =
    FLASH_TASK_INIT | FLASH_TASK_INIT_DONE | FLASH_TASK_READ | FLASH_TASK_READ_DONE
  | FLASH_TASK_SAVE | FLASH_TASK_SAVE_DONE

record TFlashInfo =
  ucSegIndex :: u8
  ucPageIndex :: u8
  fl_tTaskState :: TFlashTaskState
  ulNextDataAddr :: u32
  ulWriteCounter :: u32

record flash_world =
  fl_info :: TFlashInfo
  fl_dev :: efm
  fl_clk :: TtimeInfo

abbreviation (input) FLASH_ADDR_START :: u32 where "FLASH_ADDR_START \<equiv> 0x0003C000"
abbreviation (input) FLASH_SEG_INDEX_END :: u8 where "FLASH_SEG_INDEX_END \<equiv> 127"
abbreviation (input) FLASH_PAGE_INDEX_END :: u8 where "FLASH_PAGE_INDEX_END \<equiv> 7"
abbreviation (input) FLASH_PAGE_SIZE :: u32 where "FLASH_PAGE_SIZE \<equiv> 0x800"
abbreviation (input) FLASH_SEG_SIZE :: u32 where "FLASH_SEG_SIZE \<equiv> 0x10"
abbreviation (input) FLASH_DATA_FLAG :: u8 where "FLASH_DATA_FLAG \<equiv> 0xA5"

definition data_addr :: "TFlashInfo \<Rightarrow> u32" where
  "data_addr i = FLASH_ADDR_START + FLASH_PAGE_SIZE * ucast (ucPageIndex i) + FLASH_SEG_SIZE * ucast (ucSegIndex i)"

section \<open>Operations\<close>

definition FLASH_ucSearchFlagFromFlash :: "efm \<Rightarrow> TFlashInfo \<Rightarrow> u8 \<times> TFlashInfo" where
  "FLASH_ucSearchFlagFromFlash e i =
    (let i = i\<lparr>ulNextDataAddr := data_addr i\<rparr>;
         ucData = FLASH_vReadByte e (ulNextDataAddr i) 2
     in if FLASH_DATA_FLAG = ucData ! 0 \<and> 0x10 = ucData ! 1 then (1, i)
        else if ucSegIndex i \<noteq> 0 then (0, i\<lparr>ucSegIndex := ucSegIndex i - 1\<rparr>)
        else let i = i\<lparr>ucSegIndex := FLASH_SEG_INDEX_END\<rparr>
             in if ucPageIndex i \<noteq> 0 then (0, i\<lparr>ucPageIndex := ucPageIndex i - 1\<rparr>)
                else (2, i\<lparr>ucPageIndex := FLASH_PAGE_INDEX_END\<rparr>))"

definition FLASH_vReadData :: "flash_world \<Rightarrow> flash_world" where
  "FLASH_vReadData w =
    (let i = fl_info w;
         ucReadData = FLASH_vReadByte (fl_dev w) (ulNextDataAddr i) FLASH_SEG_SIZE
     in if ucSegIndex i = ucReadData ! 2 \<and> ucPageIndex i = ucReadData ! 3
        then let i = i\<lparr>ulWriteCounter := of_le32 (drop 4 ucReadData)\<rparr>;
                 clk = APP_Display_read_hrs_time (of_le32 (drop 8 ucReadData)) (fl_clk w);
                 clk = APP_Display_read_min_time (of_le32 (drop 12 ucReadData)) clk;
                 clk = Main_IotTime_Read clk
             in w\<lparr>fl_info := i, fl_clk := clk\<rparr>
        else w)"

definition FLASH_ucInitData :: "flash_world \<Rightarrow> u8 \<times> flash_world" where
  "FLASH_ucInitData w =
    (case FLASH_ucSearchFlagFromFlash (fl_dev w) (fl_info w) of
       (ucResult, i) \<Rightarrow>
         let w = w\<lparr>fl_info := i\<rparr>
         in if 1 = ucResult then (1, FLASH_vReadData w)
            else if 2 = ucResult
            then (1, w\<lparr>fl_info := i\<lparr>ulNextDataAddr := FLASH_ADDR_START,
                                    ucSegIndex := FLASH_SEG_INDEX_END,
                                    ucPageIndex := FLASH_PAGE_INDEX_END\<rparr>\<rparr>)
            else (0, w))"

definition save_position :: "TFlashInfo \<Rightarrow> TFlashInfo" where
  "save_position i =
    (if FLASH_SEG_INDEX_END \<le> ucSegIndex i
     then let i = i\<lparr>ucSegIndex := 0\<rparr>
          in if FLASH_PAGE_INDEX_END \<le> ucPageIndex i then i\<lparr>ucPageIndex := 0\<rparr>
             else i\<lparr>ucPageIndex := ucPageIndex i + 1\<rparr>
     else i\<lparr>ucSegIndex := ucSegIndex i + 1\<rparr>)"

text \<open>
  The first four bytes of the stack buffer are uninitialised until the header is stored; the
  buffer is modelled with zeros there.
\<close>

definition FLASH_vSaveData :: "flash_chip \<Rightarrow> flash_world \<Rightarrow> flash_world option" where
  "FLASH_vSaveData c w =
    (let buf = replicate 4 0 @ replicate 12 0xFF;
         i = save_position (fl_info w);
         buf = buf[0 := FLASH_DATA_FLAG, 1 := 0x10, 2 := ucSegIndex i, 3 := ucPageIndex i];
         i = i\<lparr>ulWriteCounter := ulWriteCounter i + 1\<rparr>;
         buf = poke buf 4 (le32 (ulWriteCounter i));
         buf = poke buf 8 (le32 (APP_Display_save_hrs_time (fl_clk w)));
         buf = poke buf 12 (le32 (APP_Display_save_min_time (fl_clk w)));
         i = i\<lparr>ulNextDataAddr := data_addr i\<rparr>;
         e = (if 0 = ucSegIndex i \<and> 0 = ucPageIndex i
              then FLASH_vEraseSector c (fl_dev w) FLASH_ADDR_START (0x2000 * 2)
              else fl_dev w)
     in case FLASH_WriteByte c e (ulNextDataAddr i) buf FLASH_SEG_SIZE of
          None \<Rightarrow> None
        | Some e' \<Rightarrow> Some (w\<lparr>fl_info := i, fl_dev := e'\<rparr>))"

definition set_state :: "TFlashTaskState \<Rightarrow> flash_world \<Rightarrow> flash_world" where
  "set_state s w = w\<lparr>fl_info := (fl_info w)\<lparr>fl_tTaskState := s\<rparr>\<rparr>"

text \<open>
  One iteration of \<open>FLASH_vTaskHandler_Entry\<close>; \<open>None\<close> is the endless loop of a failed write.
\<close>

definition FLASH_vTaskHandler_Entry :: "flash_chip \<Rightarrow> flash_world \<Rightarrow> flash_world option" where
  "FLASH_vTaskHandler_Entry c w =
    (case fl_tTaskState (fl_info w) of
       FLASH_TASK_INIT \<Rightarrow>
         Some (set_state FLASH_TASK_INIT_DONE
                (w\<lparr>fl_info := (fl_info w)\<lparr>ucSegIndex := FLASH_SEG_INDEX_END,
                                         ucPageIndex := FLASH_PAGE_INDEX_END\<rparr>\<rparr>))
     | FLASH_TASK_INIT_DONE \<Rightarrow> Some (set_state FLASH_TASK_READ w)
     | FLASH_TASK_READ \<Rightarrow>
         (case FLASH_ucInitData w of
            (r, w') \<Rightarrow> Some (if r \<noteq> 0 then set_state FLASH_TASK_READ_DONE w' else w'))
     | FLASH_TASK_READ_DONE \<Rightarrow> Some w
     | FLASH_TASK_SAVE \<Rightarrow> map_option (set_state FLASH_TASK_SAVE_DONE) (FLASH_vSaveData c w)
     | FLASH_TASK_SAVE_DONE \<Rightarrow> Some w)"

primrec flash_thread :: "flash_chip \<Rightarrow> nat \<Rightarrow> flash_world \<Rightarrow> flash_world option" where
  "flash_thread c 0 w = Some w"
| "flash_thread c (Suc n) w = Option.bind (FLASH_vTaskHandler_Entry c w) (flash_thread c n)"

text \<open>
  A power cycle clears the RAM (\<open>FLASH_tFlashInfo\<close> and the clock start as zero) and the
  controller's registers; the flash keeps its bytes.
\<close>

definition flash_info_init :: TFlashInfo where
  "flash_info_init = \<lparr>ucSegIndex = 0, ucPageIndex = 0, fl_tTaskState = FLASH_TASK_INIT,
     ulNextDataAddr = 0, ulWriteCounter = 0\<rparr>"

definition power_on :: "memory \<Rightarrow> flash_world" where
  "power_on m = \<lparr>fl_info = flash_info_init, fl_dev = efm_reset m, fl_clk = time_init\<rparr>"

definition power_cycle :: "flash_world \<Rightarrow> flash_world" where
  "power_cycle w = power_on (FMEM (fl_dev w))"

lemma power_on_fields [simp]:
  "fl_tTaskState (fl_info (power_on m)) = FLASH_TASK_INIT" "FMEM (fl_dev (power_on m)) = m"
  "fl_clk (power_on m) = time_init" "ulWriteCounter (fl_info (power_on m)) = 0"
  by (simp_all add: power_on_def flash_info_init_def efm_reset_def)

section \<open>Slots\<close>

definition slot_addr :: "nat \<Rightarrow> nat" where
  "slot_addr k = 0x3C000 + 16 * k"

definition flagged :: "memory \<Rightarrow> nat \<Rightarrow> bool" where
  "flagged m k \<longleftrightarrow> m (slot_addr k) = FLASH_DATA_FLAG \<and> m (slot_addr k + 1) = 0x10"

definition pos_ok :: "TFlashInfo \<Rightarrow> bool" where
  "pos_ok i \<longleftrightarrow> unat (ucSegIndex i) < 128 \<and> unat (ucPageIndex i) < 8"

definition pos :: "TFlashInfo \<Rightarrow> nat" where
  "pos i = unat (ucPageIndex i) * 128 + unat (ucSegIndex i)"

definition at_pos :: "nat \<Rightarrow> TFlashInfo \<Rightarrow> TFlashInfo" where
  "at_pos k i = i\<lparr>ucSegIndex := of_nat (k mod 128), ucPageIndex := of_nat (k div 128)\<rparr>"

lemma unat_data_addr: "pos_ok i \<Longrightarrow> unat (data_addr i) = slot_addr (pos i)"
  by (simp add: data_addr_def pos_ok_def slot_addr_def pos_def unat_word_ariths)

lemma pos_less: "pos_ok i \<Longrightarrow> pos i < 1024"
  by (auto simp: pos_ok_def pos_def)

lemma at_pos_eqI:
  assumes "pos_ok i" "pos i = k"
  shows "at_pos k i = i"
proof -
  from assms have "k mod 128 = unat (ucSegIndex i)" "k div 128 = unat (ucPageIndex i)"
    by (auto simp: pos_ok_def pos_def)
  then show ?thesis by (simp add: at_pos_def)
qed

lemma at_pos [simp]:
  assumes "k < 1024"
  shows "pos_ok (at_pos k i)" "pos (at_pos k i) = k"
proof -
  from assms have "k div 128 < 8" by auto
  then have "unat (of_nat (k mod 128) :: u8) = k mod 128" "unat (of_nat (k div 128) :: u8) = k div 128"
    by (auto simp: unat_of_nat)
  with \<open>k div 128 < 8\<close> show "pos_ok (at_pos k i)" "pos (at_pos k i) = k"
    by (auto simp: pos_ok_def pos_def at_pos_def)
qed

section \<open>The search\<close>

lemma pos_dec:
  assumes "pos_ok i"
  shows "ucSegIndex i \<noteq> 0 \<Longrightarrow> i\<lparr>ucSegIndex := ucSegIndex i - 1\<rparr> = at_pos (pos i - 1) i"
    and "ucSegIndex i = 0 \<Longrightarrow> ucPageIndex i \<noteq> 0 \<Longrightarrow>
      i\<lparr>ucSegIndex := FLASH_SEG_INDEX_END, ucPageIndex := ucPageIndex i - 1\<rparr> = at_pos (pos i - 1) i"
    and "ucSegIndex i = 0 \<Longrightarrow> ucPageIndex i = 0 \<Longrightarrow>
      i\<lparr>ucSegIndex := FLASH_SEG_INDEX_END, ucPageIndex := FLASH_PAGE_INDEX_END\<rparr> = at_pos 1023 i"
proof -
  let ?s = "unat (ucSegIndex i)" and ?p = "unat (ucPageIndex i)"
  have b: "?s < 128" "?p < 8" using assms by (auto simp: pos_ok_def)
  show "i\<lparr>ucSegIndex := ucSegIndex i - 1\<rparr> = at_pos (pos i - 1) i" if "ucSegIndex i \<noteq> 0"
  proof -
    have s: "0 < ?s" using that by (simp add: unat_gt_0)
    then have "pos i - 1 = ?p * 128 + (?s - 1)" by (simp add: pos_def)
    then have "(pos i - 1) mod 128 = ?s - 1" "(pos i - 1) div 128 = ?p"
      using b by auto
    moreover have "of_nat (?s - 1) = ucSegIndex i - 1" using s by simp
    ultimately show ?thesis by (simp add: at_pos_def)
  qed
  show "i\<lparr>ucSegIndex := FLASH_SEG_INDEX_END, ucPageIndex := ucPageIndex i - 1\<rparr> = at_pos (pos i - 1) i"
    if z: "ucSegIndex i = 0" and "ucPageIndex i \<noteq> 0"
  proof -
    have p: "0 < ?p" using that by (simp add: unat_gt_0)
    have "pos i - 1 = (?p - 1) * 128 + 127" using p z by (cases ?p) (auto simp: pos_def)
    then have "(pos i - 1) mod 128 = 127" "(pos i - 1) div 128 = ?p - 1" by auto
    moreover have "of_nat (?p - 1) = ucPageIndex i - 1" using p by simp
    ultimately show ?thesis by (simp add: at_pos_def)
  qed
qed (simp add: at_pos_def)

lemma pos_eq_0: "pos i = 0 \<longleftrightarrow> ucSegIndex i = 0 \<and> ucPageIndex i = 0"
  by (auto simp: pos_def unat_eq_zero)

lemma FLASH_ucSearchFlagFromFlash_pos:
  assumes "pos_ok i"
  shows "FLASH_ucSearchFlagFromFlash e i =
    (let i' = i\<lparr>ulNextDataAddr := data_addr i\<rparr>
     in if flagged (FMEM e) (pos i) then (1, i')
        else if pos i \<noteq> 0 then (0, at_pos (pos i - 1) i')
        else (2, at_pos 1023 i'))"
proof -
  let ?i = "i\<lparr>ulNextDataAddr := data_addr i\<rparr>"
  have i: "pos_ok ?i" "pos ?i = pos i" using assms by (simp_all add: pos_ok_def pos_def)
  have "FLASH_DATA_FLAG = FLASH_vReadByte e (data_addr i) 2 ! 0 \<and> 0x10 = FLASH_vReadByte e (data_addr i) 2 ! 1
     \<longleftrightarrow> flagged (FMEM e) (pos i)"
    by (auto simp: FLASH_vReadByte_def flagged_def unat_data_addr [OF assms])
  then show ?thesis
    using pos_dec [OF i(1)] i(2) pos_eq_0 [of i]
    by (auto simp: FLASH_ucSearchFlagFromFlash_def Let_def)
qed

definition load_at :: "nat \<Rightarrow> flash_world \<Rightarrow> flash_world" where
  "load_at k w = set_state FLASH_TASK_READ_DONE
     (FLASH_vReadData (w\<lparr>fl_info := (at_pos k (fl_info w))\<lparr>ulNextDataAddr := of_nat (slot_addr k)\<rparr>\<rparr>))"

definition load_none :: "flash_world \<Rightarrow> flash_world" where
  "load_none w = set_state FLASH_TASK_READ_DONE
     (w\<lparr>fl_info := (at_pos 1023 (fl_info w))\<lparr>ulNextDataAddr := FLASH_ADDR_START\<rparr>\<rparr>)"

lemma at_pos_twice [simp]: "at_pos k (at_pos j i) = at_pos k i"
  by (simp add: at_pos_def)

lemma at_pos_addr [simp]:
  "at_pos k (i\<lparr>ulNextDataAddr := a\<rparr>) = (at_pos k i)\<lparr>ulNextDataAddr := a\<rparr>"
  "(at_pos k i)\<lparr>ucSegIndex := s, ucPageIndex := p\<rparr> = i\<lparr>ucSegIndex := s, ucPageIndex := p\<rparr>"
  "fl_tTaskState (at_pos k i) = fl_tTaskState i"
  by (simp_all add: at_pos_def)

lemma data_addr_pos: "pos_ok i \<Longrightarrow> data_addr i = of_nat (slot_addr (pos i))"
  by (simp flip: unat_data_addr)

lemma step_read:
  assumes "fl_tTaskState (fl_info w) = FLASH_TASK_READ" "pos_ok (fl_info w)"
  shows "FLASH_vTaskHandler_Entry c w =
    Some (if flagged (FMEM (fl_dev w)) (pos (fl_info w)) then load_at (pos (fl_info w)) w
          else if pos (fl_info w) \<noteq> 0
          then w\<lparr>fl_info := (at_pos (pos (fl_info w) - 1) (fl_info w))
                   \<lparr>ulNextDataAddr := of_nat (slot_addr (pos (fl_info w)))\<rparr>\<rparr>
          else load_none w)"
proof -
  have 1: "at_pos (pos (fl_info w)) (fl_info w) = fl_info w"
    using assms(2) by (rule at_pos_eqI) simp
  have 2: "load_none w = set_state FLASH_TASK_READ_DONE (w\<lparr>fl_info := (fl_info w)
      \<lparr>ulNextDataAddr := FLASH_ADDR_START, ucSegIndex := FLASH_SEG_INDEX_END,
        ucPageIndex := FLASH_PAGE_INDEX_END\<rparr>\<rparr>)"
    by (cases w; cases "fl_info w"; simp add: load_none_def at_pos_def)
  show ?thesis
    using assms
    by (auto simp: FLASH_vTaskHandler_Entry_def FLASH_ucInitData_def FLASH_ucSearchFlagFromFlash_pos
        Let_def load_at_def 1 2 data_addr_pos) (auto simp: at_pos_def)
qed

text \<open>\<open>last_record m n\<close> is the highest flagged slot below \<open>n\<close>.\<close>

primrec last_record :: "memory \<Rightarrow> nat \<Rightarrow> nat option" where
  "last_record m 0 = None"
| "last_record m (Suc n) = (if flagged m n then Some n else last_record m n)"

lemma last_record_Some:
  "last_record m n = Some k \<longleftrightarrow> k < n \<and> flagged m k \<and> (\<forall>j. k < j \<and> j < n \<longrightarrow> \<not> flagged m j)"
  by (induction n) (auto simp: less_Suc_eq)

lemma last_record_None: "last_record m n = None \<longleftrightarrow> (\<forall>j<n. \<not> flagged m j)"
  by (induction n) (auto simp: less_Suc_eq)

lemma load_at_addr [simp]:
  "load_at k (w\<lparr>fl_info := (at_pos j (fl_info w))\<lparr>ulNextDataAddr := a\<rparr>\<rparr>) = load_at k w"
  "load_none (w\<lparr>fl_info := (at_pos j (fl_info w))\<lparr>ulNextDataAddr := a\<rparr>\<rparr>) = load_none w"
  by (cases w; cases "fl_info w"; simp add: load_at_def load_none_def at_pos_def)+

lemma search_from:
  assumes "fl_tTaskState (fl_info w) = FLASH_TASK_READ" "pos_ok (fl_info w)" "pos (fl_info w) = n"
  shows "flash_thread c (case last_record (FMEM (fl_dev w)) (Suc n) of Some k \<Rightarrow> n - k + 1 | None \<Rightarrow> n + 1) w =
    Some (case last_record (FMEM (fl_dev w)) (Suc n) of Some k \<Rightarrow> load_at k w | None \<Rightarrow> load_none w)"
  using assms
proof (induction n arbitrary: w)
  case 0
  then show ?case by (simp add: step_read)
next
  case (Suc n)
  let ?w = "w\<lparr>fl_info := (at_pos n (fl_info w))\<lparr>ulNextDataAddr := of_nat (slot_addr (Suc n))\<rparr>\<rparr>"
  show ?case
  proof (cases "flagged (FMEM (fl_dev w)) (Suc n)")
    case True
    with Suc.prems show ?thesis by (simp add: step_read)
  next
    case False
    have n: "n < 1024" using pos_less [OF Suc.prems(2)] Suc.prems(3) by simp
    have st: "FLASH_vTaskHandler_Entry c w = Some ?w"
      using Suc.prems False by (simp add: step_read)
    have *: "pos_ok (fl_info ?w)" "pos (fl_info ?w) = n"
      using at_pos [OF n, of "fl_info w"] by (simp_all add: pos_ok_def pos_def)
    let ?r = "last_record (FMEM (fl_dev w)) (Suc n)"
    have IH: "flash_thread c (case ?r of Some k \<Rightarrow> n - k + 1 | None \<Rightarrow> n + 1) ?w =
      Some (case ?r of Some k \<Rightarrow> load_at k w | None \<Rightarrow> load_none w)"
      using Suc.IH [OF _ *] Suc.prems(1) by (simp only: load_at_addr) simp
    have r: "last_record (FMEM (fl_dev w)) (Suc (Suc n)) = ?r" using False by simp
    have "(case ?r of Some k \<Rightarrow> Suc n - k + 1 | None \<Rightarrow> Suc n + 1) =
      Suc (case ?r of Some k \<Rightarrow> n - k + 1 | None \<Rightarrow> n + 1)"
    proof (cases ?r)
      case (Some k)
      then have "k \<le> n" by (simp only: last_record_Some) simp
      with Some show ?thesis by (simp add: Suc_diff_le)
    qed simp
    with st IH r show ?thesis by (simp del: last_record.simps)
  qed
qed

section \<open>Booting\<close>

text \<open>What a boot that finds slot \<open>k\<close> (or no slot at all) leaves in the RAM.\<close>

definition boot_steps :: "memory \<Rightarrow> nat" where
  "boot_steps m = (case last_record m 1024 of Some k \<Rightarrow> 1026 - k | None \<Rightarrow> 1026)"

definition boot_result :: "flash_world \<Rightarrow> flash_world" where
  "boot_result w =
    (let w = set_state FLASH_TASK_READ w
     in case last_record (FMEM (fl_dev w)) 1024 of Some k \<Rightarrow> load_at k w | None \<Rightarrow> load_none w)"

lemma flash_thread_add:
  "flash_thread c (n + k) w = Option.bind (flash_thread c n w) (flash_thread c k)"
  by (induction n arbitrary: w) (auto split: Option.bind_splits)

lemma fl_dev_set_state [simp]: "fl_dev (set_state s w) = fl_dev w" "fl_clk (set_state s w) = fl_clk w"
  by (simp_all add: set_state_def)

lemma boot_thread:
  assumes "fl_tTaskState (fl_info w) = FLASH_TASK_INIT"
  shows "flash_thread c (boot_steps (FMEM (fl_dev w))) w = Some (boot_result w)"
proof -
  let ?w = "set_state FLASH_TASK_READ (w\<lparr>fl_info := at_pos 1023 (fl_info w)\<rparr>)"
  have i: "pos_ok (fl_info ?w)" "pos (fl_info ?w) = 1023" "fl_tTaskState (fl_info ?w) = FLASH_TASK_READ"
    using at_pos [of 1023 "fl_info w"] by (simp_all add: set_state_def pos_ok_def pos_def)
  have first: "flash_thread c 2 w = Some ?w"
    using assms by (simp add: numeral_2_eq_2 FLASH_vTaskHandler_Entry_def set_state_def at_pos_def)
  have l: "load_at k ?w = load_at k (set_state FLASH_TASK_READ w)"
       "load_none ?w = load_none (set_state FLASH_TASK_READ w)" for k
    by (cases w; cases "fl_info w"; simp add: load_at_def load_none_def at_pos_def set_state_def)+
  have "boot_steps (FMEM (fl_dev w)) =
      2 + (case last_record (FMEM (fl_dev w)) 1024 of Some k \<Rightarrow> 1023 - k + 1 | None \<Rightarrow> 1023 + 1)"
  proof (cases "last_record (FMEM (fl_dev w)) 1024")
    case (Some k)
    then have "k < 1024" using last_record_Some by blast
    with Some show ?thesis by (simp add: boot_steps_def)
  qed (simp add: boot_steps_def)
  moreover have "FMEM (fl_dev ?w) = FMEM (fl_dev w)" "Suc 1023 = 1024" by simp_all
  ultimately have "flash_thread c (boot_steps (FMEM (fl_dev w))) w =
      Some (case last_record (FMEM (fl_dev w)) 1024 of Some k \<Rightarrow> load_at k ?w | None \<Rightarrow> load_none ?w)"
    using search_from [OF i(3,1,2), of c] first by (simp only: flash_thread_add bind.bind_lunit)
  then show ?thesis by (simp add: l boot_result_def Let_def cong: option.case_cong)
qed

section \<open>Records and the log invariant\<close>

definition log_record :: "nat \<Rightarrow> u32 \<Rightarrow> u32 \<Rightarrow> u32 \<Rightarrow> bytes" where
  "log_record k cnt hrs mins =
     [FLASH_DATA_FLAG, 0x10, of_nat (k mod 128), of_nat (k div 128)] @ le32 cnt @ le32 hrs @ le32 mins"

definition slot_bytes :: "memory \<Rightarrow> nat \<Rightarrow> bytes" where
  "slot_bytes m k = mread m (slot_addr k) 16"

text \<open>\<open>log_mem m n\<close>: slots 0 to \<open>n - 1\<close> hold records of their own position, the others are erased.\<close>

definition log_mem :: "memory \<Rightarrow> nat \<Rightarrow> bool" where
  "log_mem m n \<longleftrightarrow> n \<le> 1024 \<and> (\<forall>j<n. \<exists>c h t. slot_bytes m j = log_record j c h t) \<and>
     (\<forall>j. n \<le> j \<and> j < 1024 \<longrightarrow> erased m (slot_addr j) 16)"

definition next_slot :: "nat \<Rightarrow> nat" where
  "next_slot n = (if n = 1024 then 0 else n)"

lemma length_log_record [simp]: "length (log_record k c h t) = 16"
  by (simp add: log_record_def)

lemma log_record_flagged: "slot_bytes m k = log_record k c h t \<Longrightarrow> flagged m k"
proof -
  assume a: "slot_bytes m k = log_record k c h t"
  have "m (slot_addr k) = slot_bytes m k ! 0" "m (slot_addr k + 1) = slot_bytes m k ! 1"
    by (simp_all add: slot_bytes_def)
  then show ?thesis by (simp add: a flagged_def log_record_def)
qed

lemma erased_not_flagged: "erased m (slot_addr k) 16 \<Longrightarrow> \<not> flagged m k"
  by (auto simp: erased_def flagged_def dest!: spec [of _ 0])

lemma log_mem_last_record:
  assumes "log_mem m n"
  shows "last_record m 1024 = (if n = 0 then None else Some (n - 1))"
proof (cases "n = 0")
  case True
  with assms have "\<forall>j<1024. \<not> flagged m j" by (auto simp: log_mem_def dest: erased_not_flagged)
  then have "last_record m 1024 = None" by (subst last_record_None)
  with True show ?thesis by simp
next
  case False
  with assms have "n - 1 < n" "n - 1 < 1024" by (auto simp: log_mem_def)
  then have "flagged m (n - 1)" using assms unfolding log_mem_def by (metis log_record_flagged)
  note \<open>n - 1 < 1024\<close> this
  moreover have "\<not> flagged m j" if "n - 1 < j" "j < 1024" for j
  proof -
    from that have "n \<le> j" by simp
    with assms that(2) show ?thesis unfolding log_mem_def using erased_not_flagged by blast
  qed
  ultimately have "last_record m 1024 = Some (n - 1)" by (subst last_record_Some) blast
  with False show ?thesis by simp
qed

lemma save_position_pos:
  assumes "pos_ok i"
  shows "save_position i = at_pos (next_slot (pos i + 1)) i"
proof -
  let ?s = "unat (ucSegIndex i)" and ?p = "unat (ucPageIndex i)"
  have b: "?s < 128" "?p < 8" using assms by (auto simp: pos_ok_def)
  have w: "FLASH_SEG_INDEX_END \<le> ucSegIndex i \<longleftrightarrow> ?s = 127" "FLASH_PAGE_INDEX_END \<le> ucPageIndex i \<longleftrightarrow> ?p = 7"
    using b by (auto simp: word_le_nat_alt)
  consider "?s < 127" | "?s = 127" "?p < 7" | "?s = 127" "?p = 7" using b by linarith
  then show ?thesis
  proof cases
    case 1
    then have "(pos i + 1) mod 128 = ?s + 1" "(pos i + 1) div 128 = ?p" "pos i + 1 \<noteq> 1024"
      using b by (auto simp: pos_def)
    with 1 w show ?thesis by (simp add: save_position_def at_pos_def next_slot_def)
  next
    case 2
    then have "pos i + 1 = (?p + 1) * 128" by (simp add: pos_def)
    then have "(pos i + 1) mod 128 = 0" "(pos i + 1) div 128 = ?p + 1" "pos i + 1 \<noteq> 1024"
      using 2 by auto
    with 2 w show ?thesis by (simp add: save_position_def at_pos_def next_slot_def)
  next
    case 3
    then have "pos i + 1 = 1024" by (simp add: pos_def)
    with 3 w show ?thesis by (simp add: save_position_def at_pos_def next_slot_def)
  qed
qed

section \<open>Saving\<close>

definition saved_memory :: "memory \<Rightarrow> nat \<Rightarrow> bytes \<Rightarrow> memory" where
  "saved_memory m k r =
     mwrite (if k = 0 then mfill m (slot_addr 0) (2 * SECTOR) 255 else m) (slot_addr k) r"

lemma save_buffer:
  "poke (poke (poke ((replicate 4 0 @ replicate 12 0xFF)
      [0 := FLASH_DATA_FLAG, 1 := 0x10, 2 := s, 3 := p]) 4 (le32 a)) 8 (le32 b)) 12 (le32 d) =
   [FLASH_DATA_FLAG, 0x10, s, p] @ le32 a @ le32 b @ le32 d"
  by (simp add: poke_def numeral_eq_Suc le32_def)

lemma FLASH_vSaveData_eq:
  assumes "i = (save_position (fl_info w))\<lparr>ulWriteCounter := ulWriteCounter (save_position (fl_info w)) + 1\<rparr>"
  shows "FLASH_vSaveData c w =
    map_option (\<lambda>e. w\<lparr>fl_info := i\<lparr>ulNextDataAddr := data_addr i\<rparr>, fl_dev := e\<rparr>)
      (FLASH_WriteByte c
        (if 0 = ucSegIndex i \<and> 0 = ucPageIndex i
         then FLASH_vEraseSector c (fl_dev w) FLASH_ADDR_START (0x2000 * 2) else fl_dev w)
        (data_addr i)
        ([FLASH_DATA_FLAG, 0x10, ucSegIndex i, ucPageIndex i] @ le32 (ulWriteCounter i) @
          le32 (systick_hrs (fl_clk w)) @ le32 (systick_min (fl_clk w))) FLASH_SEG_SIZE)"
proof -
  have "data_addr (i\<lparr>ulNextDataAddr := a\<rparr>) = data_addr i" for a by (simp add: data_addr_def)
  then show ?thesis
    unfolding FLASH_vSaveData_def APP_Display_save_hrs_time_def APP_Display_save_min_time_def Let_def
      save_buffer
    by (auto simp: assms split: option.split)
qed

lemma slot_addr_bounds: "k < 1024 \<Longrightarrow> slot_addr k + 16 \<le> 0x40000" "0x3C000 \<le> slot_addr k"
  by (auto simp: slot_addr_def)

lemma erased_mfill: "a \<le> b \<Longrightarrow> b + k \<le> a + n \<Longrightarrow> erased (mfill m a n 255) b k"
  by (auto simp: erased_def mem_simps)

lemma FLASH_vSaveData_ok:
  assumes c: "flash_chip_ok c" and i: "pos_ok (fl_info w)"
    and k: "k = next_slot (pos (fl_info w) + 1)"
    and er: "k \<noteq> 0 \<Longrightarrow> erased (FMEM (fl_dev w)) (slot_addr k) 16"
  obtains e where
    "FLASH_vSaveData c w = Some (w\<lparr>fl_info := (at_pos k (fl_info w))
       \<lparr>ulNextDataAddr := of_nat (slot_addr k), ulWriteCounter := ulWriteCounter (fl_info w) + 1\<rparr>,
       fl_dev := e\<rparr>)"
    "FMEM e = saved_memory (FMEM (fl_dev w)) k
       (log_record k (ulWriteCounter (fl_info w) + 1) (systick_hrs (fl_clk w)) (systick_min (fl_clk w)))"
proof -
  have k1: "k < 1024" using k pos_less [OF i] by (auto simp: next_slot_def)
  let ?i = "(at_pos k (fl_info w))\<lparr>ulWriteCounter := ulWriteCounter (fl_info w) + 1\<rparr>"
  let ?r = "log_record k (ulWriteCounter (fl_info w) + 1) (systick_hrs (fl_clk w)) (systick_min (fl_clk w))"
  have i': "pos_ok ?i" "pos ?i = k" using at_pos [OF k1, of "fl_info w"] by (simp_all add: pos_ok_def pos_def)
  have addr: "data_addr ?i = of_nat (slot_addr k)" "unat (of_nat (slot_addr k) :: u32) = slot_addr k"
    using data_addr_pos [OF i'(1)] unat_data_addr [OF i'(1)] i'(2) by simp_all
  have zero: "(0 = ucSegIndex ?i \<and> 0 = ucPageIndex ?i) = (k = 0)"
    using pos_eq_0 [of ?i] i'(2) by auto
  define e where "e = (if k = 0 then FLASH_vEraseSector c (fl_dev w) FLASH_ADDR_START (0x2000 * 2) else fl_dev w)"
  have e: "FMEM e = (if k = 0 then mfill (FMEM (fl_dev w)) (slot_addr 0) (2 * SECTOR) 255 else FMEM (fl_dev w))"
    using app_nv.erase_ok [OF c, of FLASH_ADDR_START "0x2000 * 2" "fl_dev w"]
    by (simp add: e_def SECTOR_def slot_addr_def)
  have "erased (FMEM e) (slot_addr k) 16"
    using er by (auto simp: e SECTOR_def intro: erased_mfill)
  then obtain e' where e': "FLASH_WriteByte c e (of_nat (slot_addr k)) ?r FLASH_SEG_SIZE = Some e'"
      "FMEM e' = mwrite (FMEM e) (slot_addr k) ?r"
    using app_nv.write_ok [OF c, of "of_nat (slot_addr k)" FLASH_SEG_SIZE ?r e] slot_addr_bounds(1) [OF k1]
    by (auto simp: addr(2)) (auto simp: slot_addr_def)
  have buf: "log_record k a b d = [FLASH_DATA_FLAG, 0x10, ucSegIndex ?i, ucPageIndex ?i] @ le32 a @ le32 b @ le32 d"
    for a b d by (simp add: log_record_def at_pos_def)
  show ?thesis
  proof (rule that)
    have s: "save_position (fl_info w) = at_pos k (fl_info w)" using save_position_pos [OF i] k by simp
    then have i_eq: "?i = (save_position (fl_info w))\<lparr>ulWriteCounter := ulWriteCounter (save_position (fl_info w)) + 1\<rparr>"
      by (simp add: at_pos_def)
    show "FLASH_vSaveData c w = Some (w\<lparr>fl_info := (at_pos k (fl_info w))
       \<lparr>ulNextDataAddr := of_nat (slot_addr k), ulWriteCounter := ulWriteCounter (fl_info w) + 1\<rparr>,
       fl_dev := e'\<rparr>)"
      unfolding FLASH_vSaveData_eq [OF i_eq] zero addr(1)
      using e'(1) unfolding buf e_def by (simp add: at_pos_def)
  qed (simp add: e'(2) e saved_memory_def)
qed

lemma slot_bytes_saved:
  "k < 1024 \<Longrightarrow> length r = 16 \<Longrightarrow> slot_bytes (saved_memory m k r) k = r"
  by (simp add: slot_bytes_def saved_memory_def mem_simps)

lemma slot_addr_disjoint: "j \<noteq> k \<Longrightarrow> slot_addr j + 16 \<le> slot_addr k \<or> slot_addr k + 16 \<le> slot_addr j"
  by (auto simp: slot_addr_def)

lemma slot_bytes_saved_other:
  "j \<noteq> k \<Longrightarrow> 0 < k \<Longrightarrow> length r = 16 \<Longrightarrow> slot_bytes (saved_memory m k r) j = slot_bytes m j"
  using slot_addr_disjoint [of j k] by (auto simp: slot_bytes_def saved_memory_def mem_simps)

lemma erased_saved_other:
  assumes "length r = 16" "j < 1024" "j \<noteq> k" "k \<noteq> 0 \<Longrightarrow> erased m (slot_addr j) 16"
  shows "erased (saved_memory m k r) (slot_addr j) 16"
proof -
  have "erased (if k = 0 then mfill m (slot_addr 0) (2 * SECTOR) 255 else m) (slot_addr j) 16"
    using assms(2,4) by (auto simp: slot_addr_def SECTOR_def intro: erased_mfill)
  then show ?thesis
    using slot_addr_disjoint [OF assms(3)] assms(1)
    by (auto simp: saved_memory_def erased_mwrite_later erased_mwrite_earlier)
qed

lemma log_mem_saved:
  assumes "log_mem m n" "k = next_slot n"
  shows "log_mem (saved_memory m k (log_record k a b d)) (k + 1)"
proof -
  have k: "k < 1024" "k = 0 \<or> k = n" using assms by (auto simp: log_mem_def next_slot_def)
  have "\<exists>a' b' d'. slot_bytes (saved_memory m k (log_record k a b d)) j = log_record j a' b' d'" if "j < k + 1" for j
  proof (cases "j = k")
    case True
    then show ?thesis using slot_bytes_saved [OF k(1), of "log_record k a b d" m] by auto
  next
    case False
    with that k assms(1) show ?thesis by (auto simp: slot_bytes_saved_other log_mem_def)
  qed
  moreover have "erased (saved_memory m k (log_record k a b d)) (slot_addr j) 16" if "k + 1 \<le> j" "j < 1024" for j
    using that k assms(1) by (intro erased_saved_other) (auto simp: log_mem_def)
  ultimately show ?thesis using k by (auto simp: log_mem_def)
qed

section \<open>Loading a record\<close>

lemma of_le32_drop_record:
  "of_le32 (drop 4 (log_record k a b d)) = a"
  "of_le32 (drop 8 (log_record k a b d)) = b"
  "of_le32 (drop 12 (log_record k a b d)) = d"
proof -
  have "of_le32 (le32 x @ ys) = x" for x ys
    using of_le32_le32 [of x] by (simp add: of_le32_def le32_def)
  then show "of_le32 (drop 4 (log_record k a b d)) = a" "of_le32 (drop 8 (log_record k a b d)) = b"
    "of_le32 (drop 12 (log_record k a b d)) = d"
    using of_le32_le32 [of d] by (simp_all add: log_record_def)
qed

definition loaded_clock :: "u32 \<Rightarrow> u32 \<Rightarrow> TtimeInfo \<Rightarrow> TtimeInfo" where
  "loaded_clock h m t = t\<lparr>systick_hrs := h, systick_min := m, IOT_systick_min := h * 60 + m\<rparr>"

lemma load_at_record:
  assumes "k < 1024" "slot_bytes (FMEM (fl_dev w)) k = log_record k a b d"
  shows "load_at k w = w\<lparr>fl_info := (at_pos k (fl_info w))\<lparr>fl_tTaskState := FLASH_TASK_READ_DONE,
      ulNextDataAddr := of_nat (slot_addr k), ulWriteCounter := a\<rparr>, fl_clk := loaded_clock b d (fl_clk w)\<rparr>"
proof -
  have "unat (of_nat (slot_addr k) :: u32) = slot_addr k"
    using slot_addr_bounds(1) [OF assms(1)] by (simp add: unat_of_nat_u32)
  then have "FLASH_vReadByte (fl_dev w) (of_nat (slot_addr k)) FLASH_SEG_SIZE = log_record k a b d"
    using assms(2) by (simp add: FLASH_vReadByte_def slot_bytes_def)
  then show ?thesis
    by (cases w; cases "fl_info w"; cases "fl_clk w")
      (simp add: load_at_def FLASH_vReadData_def of_le32_drop_record set_state_def at_pos_def Let_def
        APP_Display_read_hrs_time_def APP_Display_read_min_time_def Main_IotTime_Read_def
        loaded_clock_def, simp add: log_record_def)
qed

section \<open>Reachable states\<close>

text \<open>
  The flash thread runs among other activity: the clock changes the operating time, the system
  task and the update link request a save once the log has been read, the system task sends the thread
  back to its start, and the power may go between two iterations. Requests of the update link that
  come before the log has been read, which the code does not exclude, are in theory \<open>SysTask\<close>, where
  the requests come from the tasks that make them.
\<close>

inductive flash_reach :: "flash_chip \<Rightarrow> flash_world \<Rightarrow> bool" for c where
  first_boot: "\<forall>j<1024. erased m (slot_addr j) 16 \<Longrightarrow>
    flash_reach c (power_on m)"
| thread: "flash_reach c w \<Longrightarrow> FLASH_vTaskHandler_Entry c w = Some w' \<Longrightarrow> flash_reach c w'"
| clock: "flash_reach c w \<Longrightarrow> flash_reach c (w\<lparr>fl_clk := t\<rparr>)"
| save_request: "flash_reach c w \<Longrightarrow>
    fl_tTaskState (fl_info w) = FLASH_TASK_READ_DONE \<or> fl_tTaskState (fl_info w) = FLASH_TASK_SAVE_DONE \<Longrightarrow>
    flash_reach c (set_state FLASH_TASK_SAVE w)"
| reload_request: "flash_reach c w \<Longrightarrow> flash_reach c (set_state FLASH_TASK_INIT w)"
| power: "flash_reach c w \<Longrightarrow> flash_reach c (power_cycle w)"

definition at_end :: "nat \<Rightarrow> TFlashInfo \<Rightarrow> bool" where
  "at_end n i \<longleftrightarrow> pos_ok i \<and> pos i = (if n = 0 then 1023 else n - 1)"

definition flash_inv :: "flash_world \<Rightarrow> bool" where
  "flash_inv w \<longleftrightarrow> (\<exists>n. log_mem (FMEM (fl_dev w)) n \<and>
     (case fl_tTaskState (fl_info w) of
        FLASH_TASK_INIT \<Rightarrow> True
      | FLASH_TASK_INIT_DONE \<Rightarrow> pos_ok (fl_info w) \<and> pos (fl_info w) = 1023
      | FLASH_TASK_READ \<Rightarrow> pos_ok (fl_info w) \<and> n \<le> pos (fl_info w) + 1
      | _ \<Rightarrow> at_end n (fl_info w)))"

lemma next_slot_at_end: "at_end n i \<Longrightarrow> n \<le> 1024 \<Longrightarrow> next_slot (pos i + 1) = next_slot n"
  by (auto simp: at_end_def next_slot_def)

lemma pos_cong [simp]:
  "pos (i\<lparr>fl_tTaskState := s\<rparr>) = pos i" "pos_ok (i\<lparr>fl_tTaskState := s\<rparr>) = pos_ok i"
  "pos (i\<lparr>ulNextDataAddr := a\<rparr>) = pos i" "pos_ok (i\<lparr>ulNextDataAddr := a\<rparr>) = pos_ok i"
  "pos (i\<lparr>ulWriteCounter := n\<rparr>) = pos i" "pos_ok (i\<lparr>ulWriteCounter := n\<rparr>) = pos_ok i"
  by (simp_all add: pos_def pos_ok_def)

lemma at_end_cong [simp]:
  "at_end n (i\<lparr>fl_tTaskState := s\<rparr>) = at_end n i"
  "at_end n (i\<lparr>ulNextDataAddr := a\<rparr>) = at_end n i"
  "at_end n (i\<lparr>ulWriteCounter := x\<rparr>) = at_end n i"
  by (simp_all add: at_end_def)

lemma at_end_at_pos: "n \<le> 1024 \<Longrightarrow> at_end n (at_pos (if n = 0 then 1023 else n - 1) i)"
  by (simp add: at_end_def)

text \<open>What a save does in a state of the invariant.\<close>

lemma save_step:
  assumes c: "flash_chip_ok c" and n: "log_mem (FMEM (fl_dev w)) n" and e: "at_end n (fl_info w)"
    and s: "fl_tTaskState (fl_info w) = FLASH_TASK_SAVE"
  obtains w' where "FLASH_vTaskHandler_Entry c w = Some w'"
    "fl_tTaskState (fl_info w') = FLASH_TASK_SAVE_DONE" "fl_clk w' = fl_clk w"
    "ulWriteCounter (fl_info w') = ulWriteCounter (fl_info w) + 1"
    "at_end (next_slot n + 1) (fl_info w')"
    "FMEM (fl_dev w') = saved_memory (FMEM (fl_dev w)) (next_slot n) (log_record (next_slot n)
       (ulWriteCounter (fl_info w) + 1) (systick_hrs (fl_clk w)) (systick_min (fl_clk w)))"
proof -
  let ?k = "next_slot n"
  have n1: "n \<le> 1024" using n by (simp add: log_mem_def)
  have i: "pos_ok (fl_info w)" "?k = next_slot (pos (fl_info w) + 1)"
    using e next_slot_at_end [OF e n1] by (auto simp: at_end_def)
  have er: "?k \<noteq> 0 \<Longrightarrow> erased (FMEM (fl_dev w)) (slot_addr ?k) 16"
    using n n1 by (auto simp: log_mem_def next_slot_def split: if_splits)
  from FLASH_vSaveData_ok [OF c i er] obtain d where
    d: "FLASH_vSaveData c w = Some (w\<lparr>fl_info := (at_pos ?k (fl_info w))
       \<lparr>ulNextDataAddr := of_nat (slot_addr ?k), ulWriteCounter := ulWriteCounter (fl_info w) + 1\<rparr>,
       fl_dev := d\<rparr>)"
    "FMEM d = saved_memory (FMEM (fl_dev w)) ?k
       (log_record ?k (ulWriteCounter (fl_info w) + 1) (systick_hrs (fl_clk w)) (systick_min (fl_clk w)))"
    by blast
  have "?k < 1024" using n1 by (simp add: next_slot_def)
  then have "at_end (?k + 1) (at_pos ?k (fl_info w))"
    using at_end_at_pos [of "?k + 1" "fl_info w"] by simp
  with d s show ?thesis
    by (intro that [of "set_state FLASH_TASK_SAVE_DONE (w\<lparr>fl_info := (at_pos ?k (fl_info w))
       \<lparr>ulNextDataAddr := of_nat (slot_addr ?k), ulWriteCounter := ulWriteCounter (fl_info w) + 1\<rparr>,
       fl_dev := d\<rparr>)"]) (auto simp: FLASH_vTaskHandler_Entry_def set_state_def)
qed

lemma load_at_fields:
  "fl_dev (load_at k w) = fl_dev w" "fl_tTaskState (fl_info (load_at k w)) = FLASH_TASK_READ_DONE"
  "at_end n (fl_info (load_at k w)) = at_end n (at_pos k (fl_info w))"
  by (simp_all add: load_at_def FLASH_vReadData_def Let_def set_state_def)

lemma load_none_fields:
  "fl_dev (load_none w) = fl_dev w" "fl_tTaskState (fl_info (load_none w)) = FLASH_TASK_READ_DONE"
  "at_end n (fl_info (load_none w)) = at_end n (at_pos 1023 (fl_info w))"
  "fl_clk (load_none w) = fl_clk w" "ulWriteCounter (fl_info (load_none w)) = ulWriteCounter (fl_info w)"
  by (simp_all add: load_none_def set_state_def at_pos_def)

lemma log_mem_flagged:
  assumes "log_mem m n" "k < 1024"
  shows "flagged m k \<longleftrightarrow> k < n"
proof (cases "k < n")
  case True
  with assms show ?thesis unfolding log_mem_def by (metis log_record_flagged)
next
  case False
  with assms have "erased m (slot_addr k) 16" by (auto simp: log_mem_def)
  with False show ?thesis using erased_not_flagged by blast
qed

lemma flash_inv_read:
  assumes "flash_inv w" "fl_tTaskState (fl_info w) = FLASH_TASK_READ"
    and "FLASH_vTaskHandler_Entry c w = Some w'"
  shows "flash_inv w'"
proof -
  let ?p = "pos (fl_info w)"
  from assms(1,2) obtain n where n: "log_mem (FMEM (fl_dev w)) n" "pos_ok (fl_info w)" "n \<le> ?p + 1"
    by (auto simp: flash_inv_def)
  have p: "?p < 1024" and n1: "n \<le> 1024" using pos_less [OF n(2)] n(1) by (auto simp: log_mem_def)
  note step = step_read [OF assms(2) n(2), of c, unfolded assms(3) log_mem_flagged [OF n(1) p]]
  consider (found) "?p < n" | (down) "n \<le> ?p" "?p \<noteq> 0" | (none) "?p = 0" "n = 0" by linarith
  then show ?thesis
  proof cases
    case found
    then have "w' = load_at ?p w" "n = ?p + 1" using step n(3) by auto
    with n(1) at_end_at_pos [OF n1, of "fl_info w"] show ?thesis
      by (auto simp: flash_inv_def load_at_fields intro!: exI [of _ n])
  next
    case down
    then have "w' = w\<lparr>fl_info := (at_pos (?p - 1) (fl_info w))\<lparr>ulNextDataAddr := of_nat (slot_addr ?p)\<rparr>\<rparr>"
      using step by auto
    with n down p assms(2) at_pos [of "?p - 1" "fl_info w"] show ?thesis
      by (auto simp: flash_inv_def intro!: exI [of _ n])
  next
    case none
    then have "w' = load_none w" using step by auto
    with n(1) none at_end_at_pos [of 0 "fl_info w"] show ?thesis
      by (auto simp: flash_inv_def load_none_fields intro!: exI [of _ 0])
  qed
qed

lemma flash_inv_step:
  assumes c: "flash_chip_ok c" and w: "flash_inv w"
  shows "\<exists>w'. FLASH_vTaskHandler_Entry c w = Some w' \<and> flash_inv w'"
proof (cases "fl_tTaskState (fl_info w)")
  case FLASH_TASK_INIT
  with w show ?thesis
    using at_pos [of 1023 "fl_info w"]
    by (auto simp: flash_inv_def FLASH_vTaskHandler_Entry_def set_state_def at_pos_def pos_def pos_ok_def)
next
  case FLASH_TASK_INIT_DONE
  with w show ?thesis
    by (auto simp: flash_inv_def FLASH_vTaskHandler_Entry_def set_state_def log_mem_def)
next
  case FLASH_TASK_READ
  with w have "pos_ok (fl_info w)" by (auto simp: flash_inv_def)
  with FLASH_TASK_READ w show ?thesis
    using step_read [of w c] flash_inv_read [OF w, of c] by auto
next
  case FLASH_TASK_SAVE
  with w obtain n where n: "log_mem (FMEM (fl_dev w)) n" "at_end n (fl_info w)"
    by (auto simp: flash_inv_def)
  then show ?thesis
    using save_step [OF c n FLASH_TASK_SAVE] log_mem_saved [OF n(1) refl]
    by (auto simp: flash_inv_def) (metis TFlashTaskState.simps(36))
qed (use w in \<open>auto simp: FLASH_vTaskHandler_Entry_def\<close>)

lemma flash_reach_inv:
  assumes "flash_reach c w" "flash_chip_ok c"
  shows "flash_inv w"
  using assms
proof (induction rule: flash_reach.induct)
  case (first_boot m)
  then have "log_mem m 0" by (simp add: log_mem_def)
  then show ?case by (auto simp: flash_inv_def)
next
  case (thread w w')
  then show ?case using flash_inv_step [of c w] by auto
next
  case (clock w t)
  then show ?case by (simp add: flash_inv_def cong: TFlashTaskState.case_cong)
next
  case (save_request w)
  then show ?case by (auto simp: flash_inv_def set_state_def)
next
  case (reload_request w)
  then show ?case by (auto simp: flash_inv_def set_state_def)
next
  case (power w)
  then show ?case by (auto simp: flash_inv_def power_cycle_def)
qed

lemma flash_reach_thread: "flash_reach c w \<Longrightarrow> flash_thread c n w = Some w' \<Longrightarrow> flash_reach c w'"
  by (induction n arbitrary: w) (auto split: Option.bind_splits intro: flash_reach.thread)

lemma boot_steps_le: "boot_steps m \<le> 1026"
  by (auto simp: boot_steps_def split: option.split)

lemma boot_result_record:
  assumes "log_mem m n" "n \<noteq> 0" "slot_bytes m (n - 1) = log_record (n - 1) a b d"
  shows "fl_tTaskState (fl_info (boot_result (power_on m))) = FLASH_TASK_READ_DONE"
    "fl_clk (boot_result (power_on m)) = loaded_clock b d time_init"
    "ulWriteCounter (fl_info (boot_result (power_on m))) = a"
proof -
  from assms have "n - 1 < 1024" by (auto simp: log_mem_def)
  with assms show "fl_tTaskState (fl_info (boot_result (power_on m))) = FLASH_TASK_READ_DONE"
    "fl_clk (boot_result (power_on m)) = loaded_clock b d time_init"
    "ulWriteCounter (fl_info (boot_result (power_on m))) = a"
    by (simp_all add: boot_result_def Let_def log_mem_last_record load_at_record)
qed

lemma boot_result_blank:
  assumes "log_mem m 0"
  shows "boot_result (power_on m) = load_none (set_state FLASH_TASK_READ (power_on m))"
  using assms by (simp add: boot_result_def Let_def log_mem_last_record)

lemma log_mem_blank: "log_mem (\<lambda>_. 255) 0"
  by (simp add: log_mem_def erased_def)

text \<open>A reachable state after the first boot, for the witnesses.\<close>

definition fresh_world :: flash_world where
  "fresh_world = boot_result (power_on (\<lambda>_. 255))"

lemma fresh_world: "flash_reach c fresh_world" "fl_tTaskState (fl_info fresh_world) = FLASH_TASK_READ_DONE"
  "ulWriteCounter (fl_info fresh_world) = 0" "fl_clk fresh_world = time_init"
  "FMEM (fl_dev fresh_world) = (\<lambda>_. 255)"
proof -
  have "flash_reach c (power_on (\<lambda>_. 255))"
    by (rule flash_reach.first_boot) (simp add: erased_def)
  then show "flash_reach c fresh_world"
    unfolding fresh_world_def by (rule flash_reach_thread) (rule boot_thread, simp)
qed (simp_all add: fresh_world_def boot_result_blank [OF log_mem_blank] load_none_fields,
     simp add: set_state_def)

section \<open>Properties\<close>

text \<open>
  C8. Saving the operating hours and cutting the power loses nothing: from every state the flash
  thread can reach on a chip of the documented behaviour, once the log has been read, a requested
  save finishes in one iteration, and after a power cycle the thread is ready again within 1026
  iterations with the saved hours and minutes (and the IoT minute count computed from them) in the
  clock and the write counter one higher.
\<close>

theorem flash_save_roundtrip:
  assumes "flash_chip_ok c" "flash_reach c w"
    and "fl_tTaskState (fl_info w) = FLASH_TASK_READ_DONE \<or> fl_tTaskState (fl_info w) = FLASH_TASK_SAVE_DONE"
  shows "\<exists>w' n w''.
    flash_thread c 1 (set_state FLASH_TASK_SAVE w) = Some w' \<and>
    fl_tTaskState (fl_info w') = FLASH_TASK_SAVE_DONE \<and>
    n \<le> 1026 \<and> flash_thread c n (power_cycle w') = Some w'' \<and>
    fl_tTaskState (fl_info w'') = FLASH_TASK_READ_DONE \<and>
    systick_hrs (fl_clk w'') = systick_hrs (fl_clk w) \<and>
    systick_min (fl_clk w'') = systick_min (fl_clk w) \<and>
    IOT_systick_min (fl_clk w'') = systick_hrs (fl_clk w) * 60 + systick_min (fl_clk w) \<and>
    ulWriteCounter (fl_info w'') = ulWriteCounter (fl_info w) + 1"
proof -
  let ?w = "set_state FLASH_TASK_SAVE w"
  have "flash_inv ?w" "fl_tTaskState (fl_info ?w) = FLASH_TASK_SAVE"
    using flash_reach_inv [OF _ assms(1)] flash_reach.save_request [OF assms(2,3)]
    by (auto simp: set_state_def)
  then obtain n where n: "log_mem (FMEM (fl_dev ?w)) n" "at_end n (fl_info ?w)"
    by (auto simp: flash_inv_def)
  let ?k = "next_slot n" and ?cnt = "ulWriteCounter (fl_info w) + 1"
  let ?r = "log_record ?k ?cnt (systick_hrs (fl_clk w)) (systick_min (fl_clk w))"
  obtain w' where w': "FLASH_vTaskHandler_Entry c ?w = Some w'"
      "fl_tTaskState (fl_info w') = FLASH_TASK_SAVE_DONE"
      "FMEM (fl_dev w') = saved_memory (FMEM (fl_dev w)) ?k ?r"
    using save_step [OF assms(1) n] by (auto simp: set_state_def)
  have k: "?k < 1024" using n(1) by (auto simp: next_slot_def log_mem_def)
  have m: "log_mem (FMEM (fl_dev w')) (?k + 1)" "slot_bytes (FMEM (fl_dev w')) ?k = ?r"
    using log_mem_saved [OF n(1) refl] slot_bytes_saved [OF k] w'(3) by simp_all
  let ?n = "boot_steps (FMEM (fl_dev w'))" and ?b = "boot_result (power_on (FMEM (fl_dev w')))"
  have b: "fl_tTaskState (fl_info ?b) = FLASH_TASK_READ_DONE" "ulWriteCounter (fl_info ?b) = ?cnt"
    "fl_clk ?b = loaded_clock (systick_hrs (fl_clk w)) (systick_min (fl_clk w)) time_init"
    using boot_result_record [OF m(1)] m(2) by simp_all
  have "flash_thread c ?n (power_cycle w') = Some ?b"
    using boot_thread [of "power_cycle w'" c] by (simp add: power_cycle_def)
  moreover have "flash_thread c 1 ?w = Some w'" using w'(1) by simp
  ultimately show ?thesis
    using w'(2) boot_steps_le [of "FMEM (fl_dev w')"] b
    by (intro exI [of _ w'] exI [of _ ?n] exI [of _ ?b]) (simp add: loaded_clock_def)
qed

theorem flash_save_roundtrip_witness:
  "\<exists>w' n w''. flash_thread nor_chip 1 (set_state FLASH_TASK_SAVE
       (fresh_world\<lparr>fl_clk := time_init\<lparr>systick_hrs := 12, systick_min := 34\<rparr>\<rparr>)) = Some w' \<and>
    flash_thread nor_chip n (power_cycle w') = Some w'' \<and>
    systick_hrs (fl_clk w'') = 12 \<and> IOT_systick_min (fl_clk w'') = 754"
  using flash_save_roundtrip [OF nor_chip_ok flash_reach.clock [OF fresh_world(1)],
      of "time_init\<lparr>systick_hrs := 12, systick_min := 34\<rparr>"] fresh_world(2)
  by fastforce

text \<open>
  C32. Whatever bytes the flash holds, a boot ends its search: within 1026 iterations the flash
  thread reaches \<open>FLASH_TASK_READ_DONE\<close>, the flash itself is unchanged, the write position is
  within the 8 pages of 128 segments, it is the highest slot that carries the two flag bytes (the
  last slot when none does), and without such a slot the clock is untouched.
\<close>

theorem flash_boot_completes:
  "\<exists>n w. n \<le> 1026 \<and> flash_thread c n (power_on m) = Some w \<and>
     fl_tTaskState (fl_info w) = FLASH_TASK_READ_DONE \<and> FMEM (fl_dev w) = m \<and>
     pos_ok (fl_info w) \<and>
     (if \<exists>k<1024. flagged m k then flagged m (pos (fl_info w)) \<and> (\<forall>j<1024. flagged m j \<longrightarrow> j \<le> pos (fl_info w))
      else pos (fl_info w) = 1023 \<and> fl_clk w = time_init)"
proof -
  let ?w = "boot_result (power_on m)"
  have r: "flash_thread c (boot_steps m) (power_on m) = Some ?w"
    using boot_thread [of "power_on m" c] by simp
  have "fl_tTaskState (fl_info ?w) = FLASH_TASK_READ_DONE \<and> FMEM (fl_dev ?w) = m \<and> pos_ok (fl_info ?w) \<and>
     (if \<exists>k<1024. flagged m k then flagged m (pos (fl_info ?w)) \<and> (\<forall>j<1024. flagged m j \<longrightarrow> j \<le> pos (fl_info ?w))
      else pos (fl_info ?w) = 1023 \<and> fl_clk ?w = time_init)"
  proof (cases "last_record m 1024")
    case None
    then have "?w = load_none (set_state FLASH_TASK_READ (power_on m))"
      by (simp add: boot_result_def Let_def)
    note w = this load_none_fields [where w = "set_state FLASH_TASK_READ (power_on m)"]
    have "at_end 0 (fl_info ?w)"
      using at_end_at_pos [of 0 "fl_info (set_state FLASH_TASK_READ (power_on m))"] by (simp add: w)
    then have "pos_ok (fl_info ?w)" "pos (fl_info ?w) = 1023" by (auto simp: at_end_def)
    with None w show ?thesis
      using last_record_None [of m 1024] by auto
  next
    case (Some k)
    then have k: "k < 1024" "flagged m k" "\<And>j. k < j \<Longrightarrow> j < 1024 \<Longrightarrow> \<not> flagged m j"
      using last_record_Some [of m 1024 k] by auto
    have w: "?w = load_at k (set_state FLASH_TASK_READ (power_on m))"
      using Some by (simp add: boot_result_def Let_def)
    have "at_end (k + 1) (fl_info ?w)"
      using load_at_fields(3) [of "k + 1" k] at_end_at_pos [of "k + 1"] k(1) by (simp add: w)
    then have "pos (fl_info ?w) = k" "pos_ok (fl_info ?w)" by (auto simp: at_end_def)
    with k show ?thesis
      using load_at_fields(1,2) [of k "set_state FLASH_TASK_READ (power_on m)"]
      by (auto simp: w not_less [symmetric])
  qed
  with r boot_steps_le [of m] show ?thesis by blast
qed

lemma saved_memory_outside:
  assumes "k < 1024" "length r = 16" "x < 0x3C000 \<or> 0x40000 \<le> x"
  shows "saved_memory m k r x = m x"
proof -
  have "x < slot_addr k \<or> slot_addr k + length r \<le> x" "x < slot_addr 0 \<or> slot_addr 0 + 2 * SECTOR \<le> x"
    using assms by (auto simp: slot_addr_def SECTOR_def)
  then show ?thesis by (simp add: saved_memory_def mem_simps)
qed

lemma FLASH_read_dev: "fl_dev (snd (FLASH_ucInitData w)) = fl_dev w"
  by (simp add: FLASH_ucInitData_def FLASH_vReadData_def Let_def split: prod.split)

text \<open>An iteration of the flash thread stays inside its 16 KB.\<close>

lemma flash_step_frame:
  assumes "flash_chip_ok c" "flash_inv w" "FLASH_vTaskHandler_Entry c w = Some w'" "x < 0x3C000 \<or> 0x40000 \<le> x"
  shows "FMEM (fl_dev w') x = FMEM (fl_dev w) x"
proof (cases "fl_tTaskState (fl_info w)")
  case FLASH_TASK_SAVE
  with assms(2) obtain n where n: "log_mem (FMEM (fl_dev w)) n" "at_end n (fl_info w)"
    by (auto simp: flash_inv_def)
  then have "next_slot n < 1024" by (auto simp: next_slot_def log_mem_def)
  then show ?thesis
    using save_step [OF assms(1) n FLASH_TASK_SAVE] saved_memory_outside assms(3,4) by (metis length_log_record option.inject)
next
  case FLASH_TASK_READ
  then show ?thesis
    using assms(3) FLASH_read_dev [of w] by (auto simp: FLASH_vTaskHandler_Entry_def split: prod.splits)
qed (use assms(3) in \<open>auto simp: FLASH_vTaskHandler_Entry_def\<close>)

text \<open>
  A save from a position the search has not reached. From the position a search starts at, the save
  begins a new round and erases the log; from the position after power-up it goes to slot 1, and on a
  flash that clears bits it does not verify over the second record of the first round.
\<close>

lemma save_at_last:
  assumes c: "flash_chip_ok c" and s: "fl_tTaskState (fl_info w) = FLASH_TASK_SAVE"
    and i: "pos_ok (fl_info w)" "pos (fl_info w) = 1023"
  obtains w' where "FLASH_vTaskHandler_Entry c w = Some w'" "fl_tTaskState (fl_info w') = FLASH_TASK_SAVE_DONE"
    "FMEM (fl_dev w') = saved_memory (FMEM (fl_dev w)) 0
       (log_record 0 (ulWriteCounter (fl_info w) + 1) (systick_hrs (fl_clk w)) (systick_min (fl_clk w)))"
proof -
  have k: "0 = next_slot (pos (fl_info w) + 1)" using i(2) by (simp add: next_slot_def)
  obtain e where "FLASH_vSaveData c w = Some (w\<lparr>fl_info := (at_pos 0 (fl_info w))
       \<lparr>ulNextDataAddr := of_nat (slot_addr 0), ulWriteCounter := ulWriteCounter (fl_info w) + 1\<rparr>, fl_dev := e\<rparr>)"
    "FMEM e = saved_memory (FMEM (fl_dev w)) 0
       (log_record 0 (ulWriteCounter (fl_info w) + 1) (systick_hrs (fl_clk w)) (systick_min (fl_clk w)))"
    by (rule FLASH_vSaveData_ok [OF c i(1) k]) simp
  then show ?thesis
    by (intro that [of "set_state FLASH_TASK_SAVE_DONE (w\<lparr>fl_info := (at_pos 0 (fl_info w))
       \<lparr>ulNextDataAddr := of_nat (slot_addr 0), ulWriteCounter := ulWriteCounter (fl_info w) + 1\<rparr>, fl_dev := e\<rparr>)"])
      (simp_all add: s FLASH_vTaskHandler_Entry_def set_state_def)
qed

lemma nor_program:
  assumes "FAPRT_unlocked e" "\<not> FSTP e"
  shows "EFM_SingleProgram nor_chip e a w =
    (let r = map2 (AND) (mread (FMEM e) (unat a) 4) (le32 w)
     in (if of_le32 r = w then Ok else Error, e\<lparr>FMEM := mwrite (FMEM e) (unat a) r, PEMODE := False, PEMOD := EFM_MODE_READONLY\<rparr>))"
  using assms
  by (auto simp: EFM_SingleProgram_def EFM_ErasePgmCmd_def nor_chip_def Let_def mem_simps)

lemma nor_other_word:
  assumes "FAPRT_unlocked e" "\<not> FSTP e" "mread (FMEM e) (unat a) 4 = take 4 ds" "4 \<le> length ds" "unat a + 8 < 4294967296"
    and "of_le32 (map2 (AND) (mread (FMEM e) (unat a + 4) 4) (take 4 (drop 4 ds))) \<noteq> of_le32 (drop 4 ds)" "8 \<le> length ds"
  shows "write_words nor_chip (Suc (Suc n)) e a ds = None"
proof -
  have l: "le32 (of_le32 ds) = take 4 ds" "le32 (of_le32 (drop 4 ds)) = take 4 (drop 4 ds)"
    using assms(4,7) by (simp_all add: le32_of_take)
  have s: "map2 (AND) xs xs = (xs :: u8 list)" for xs by (induction xs) simp_all
  have t: "of_le32 (take 4 ds) = of_le32 ds" by (simp add: of_le32_def)
  have a: "unat (a + 4) = unat a + 4" using assms(5) by (simp add: unat_word_ariths)
  have "mread (mwrite (FMEM e) (unat a) (take 4 ds)) (unat a + 4) 4 = mread (FMEM e) (unat a + 4) 4"
    using assms(4) by (intro mread_mwrite_disjoint) simp
  then show ?thesis
    using assms(1-3,6) by (simp add: nor_program Let_def l s t a)
qed

lemma save_over_record:
  assumes "slot_bytes m 1 = log_record 1 2 h t"
  shows "FLASH_vSaveData nor_chip (set_state FLASH_TASK_SAVE (power_on m)) = None"
proof -
  let ?w = "set_state FLASH_TASK_SAVE (power_on m)"
  let ?i = "(save_position (fl_info ?w))\<lparr>ulWriteCounter := ulWriteCounter (save_position (fl_info ?w)) + 1\<rparr>"
  have i: "ucSegIndex ?i = 1" "ucPageIndex ?i = 0" "ulWriteCounter ?i = 1" "data_addr ?i = 0x3C010"
    by (simp_all add: save_position_def set_state_def power_on_def flash_info_init_def data_addr_def)
  have "mread m 0x3C010 4 = take 4 (slot_bytes m 1)" "mread m 0x3C014 4 = take 4 (drop 4 (slot_bytes m 1))"
    by (simp_all add: slot_bytes_def slot_addr_def mread_def upt_conv_Cons)
  then have "mread m 0x3C010 4 = [FLASH_DATA_FLAG, 0x10, 1, 0]" "mread m 0x3C014 4 = le32 2"
    using assms by (simp_all add: log_record_def le32_def)
  moreover have "of_le32 (map2 (AND) (le32 2) (le32 1)) \<noteq> (1 :: u32)" by code_simp
  ultimately have w: "write_words nor_chip (Suc (Suc 2)) (EFM_FlashCmd True (EFM_Unlock (fl_dev ?w))) 0x3C010
      ([FLASH_DATA_FLAG, 0x10, 1, 0] @ le32 1 @ le32 (systick_hrs (fl_clk ?w)) @ le32 (systick_min (fl_clk ?w))) = None"
    by (intro nor_other_word) (simp_all add: EFM_FlashCmd_def EFM_Unlock_def power_on_def efm_reset_def set_state_def le32_def of_le32_def)
  have four: "unat ((0x10 :: u32) div 4) = Suc (Suc 2)" by simp
  show ?thesis
    unfolding FLASH_vSaveData_eq [OF refl] FLASH_WriteByte_def Let_def i four using w by (simp del: write_words.simps)
qed

lemma torn_header:
  assumes "n < 1024" "erased m (slot_addr n) 16"
  shows "slot_bytes (mwrite m (slot_addr n) (take 4 (log_record n a b d))) n = log_record n 0xFFFFFFFF 0xFFFFFFFF 0xFFFFFFFF"
proof (rule nth_equalityI)
  let ?m = "mwrite m (slot_addr n) (take 4 (log_record n a b d))"
  fix i assume "i < length (slot_bytes ?m n)"
  then have i: "i < 16" by (simp add: slot_bytes_def)
  have ones: "le32 0xFFFFFFFF = replicate 4 255" by code_simp
  have split: "log_record n 0xFFFFFFFF 0xFFFFFFFF 0xFFFFFFFF = take 4 (log_record n a b d) @ replicate 12 255"
    by (simp add: log_record_def ones flip: replicate_add)
  show "slot_bytes ?m n ! i = log_record n 0xFFFFFFFF 0xFFFFFFFF 0xFFFFFFFF ! i"
  proof (cases "i < 4")
    case True
    then have "?m (slot_addr n + i) = take 4 (log_record n a b d) ! i" by (intro mwrite_in) simp
    with True i show ?thesis by (simp add: slot_bytes_def split nth_append)
  next
    case False
    then have "?m (slot_addr n + i) = 255"
      using assms(2) i by (simp add: mem_simps erased_def)
    with False i show ?thesis by (simp add: slot_bytes_def split nth_append)
  qed
qed (simp add: slot_bytes_def)

text \<open>
  C40. A save is not atomic. When the power goes after the first of the four words of a record has
  been programmed into the next slot of a well-formed log, the flag bytes are already there: the
  next boot takes the torn record, and the hours, the minutes and the write counter come up as
  0xFFFFFFFF, which is no valid clock, although the previous records are intact.
\<close>

theorem torn_save_is_loaded:
  assumes "flash_chip_ok c" "FAPRT_unlocked e" "\<not> FSTP e" "log_mem (FMEM e) n" "n < 1024"
  shows "\<exists>e' w. write_words c 1 e (of_nat (slot_addr n)) (log_record n a b d) = Some e' \<and>
    flash_thread c (boot_steps (FMEM e')) (power_on (FMEM e')) = Some w \<and>
    fl_tTaskState (fl_info w) = FLASH_TASK_READ_DONE \<and>
    systick_hrs (fl_clk w) = 0xFFFFFFFF \<and> systick_min (fl_clk w) = 0xFFFFFFFF \<and>
    ulWriteCounter (fl_info w) = 0xFFFFFFFF \<and> \<not> clock_wf (fl_clk w)"
proof -
  have er: "erased (FMEM e) (slot_addr n) 16" using assms(4,5) by (auto simp: log_mem_def)
  have a: "unat (of_nat (slot_addr n) :: u32) = slot_addr n"
    using slot_addr_bounds(1) [OF assms(5)] by (simp add: unat_of_nat_u32)
  obtain e' where e': "write_words c 1 e (of_nat (slot_addr n)) (log_record n a b d) = Some e'"
      "FMEM e' = mwrite (FMEM e) (slot_addr n) (take 4 (log_record n a b d))"
    using write_words_erased [OF assms(1-3), of "of_nat (slot_addr n)" 1 "log_record n a b d"]
      er slot_addr_bounds(1) [OF assms(5)]
    by (auto simp: a erased_def) (auto simp: slot_addr_def)
  have t: "slot_bytes (FMEM e') n = log_record n 0xFFFFFFFF 0xFFFFFFFF 0xFFFFFFFF"
    using torn_header [OF assms(5) er] e'(2) by simp
  have "flagged (FMEM e') n" using log_record_flagged [OF t] .
  moreover have "\<not> flagged (FMEM e') j" if "n < j" "j < 1024" for j
  proof -
    have "erased (FMEM e) (slot_addr j) 16" using assms(4) that by (auto simp: log_mem_def)
    then have "erased (FMEM e') (slot_addr j) 16"
      using slot_addr_disjoint [of j n] that by (auto simp: e'(2) erased_mwrite_later erased_mwrite_earlier)
    then show ?thesis by (rule erased_not_flagged)
  qed
  ultimately have "last_record (FMEM e') 1024 = Some n"
    using assms(5) by (subst last_record_Some) blast
  then have w: "boot_result (power_on (FMEM e')) = load_at n (set_state FLASH_TASK_READ (power_on (FMEM e')))"
    by (simp add: boot_result_def Let_def)
  show ?thesis
    using e'(1) boot_thread [of "power_on (FMEM e')" c] load_at_record [OF assms(5)] t
    by (intro exI [of _ e'] exI [of _ "boot_result (power_on (FMEM e'))"])
      (simp add: w loaded_clock_def clock_wf_def)
qed

theorem torn_save_is_loaded_witness:
  "\<exists>e' w. write_words nor_chip 1 ((efm_reset (\<lambda>_. 255))\<lparr>FAPRT_unlocked := True\<rparr>) (of_nat (slot_addr 0))
      (log_record 0 1 12 34) = Some e' \<and>
    flash_thread nor_chip (boot_steps (FMEM e')) (power_on (FMEM e')) = Some w \<and>
    systick_hrs (fl_clk w) = 0xFFFFFFFF"
  using torn_save_is_loaded [OF nor_chip_ok, of "(efm_reset (\<lambda>_. 255))\<lparr>FAPRT_unlocked := True\<rparr>" 0 1 12 34]
    log_mem_blank
  by (fastforce simp: efm_reset_def)

text \<open>
  The erase before the first slot of a new round opens a second window: a power cut between
  \<open>FLASH_vEraseSector\<close> and the write that follows it in \<open>FLASH_vSaveData\<close> loses the whole log. The
  next boot finds no record and starts the operating time at zero, whatever was saved before.
\<close>

theorem wrap_erase_window:
  assumes "flash_chip_ok c"
  shows "\<exists>w. flash_thread c 1026 (power_on (FMEM (FLASH_vEraseSector c e FLASH_ADDR_START (0x2000 * 2)))) = Some w \<and>
    fl_tTaskState (fl_info w) = FLASH_TASK_READ_DONE \<and> fl_clk w = time_init"
proof -
  let ?m = "FMEM (FLASH_vEraseSector c e FLASH_ADDR_START (0x2000 * 2))"
  have "?m = mfill (FMEM e) 0x3C000 0x4000 255"
    using app_nv.erase_ok [OF assms, of FLASH_ADDR_START "0x2000 * 2" e] by (simp add: SECTOR_def)
  then have m: "log_mem ?m 0" by (auto simp: log_mem_def slot_addr_def intro: erased_mfill)
  have "boot_steps ?m = 1026" using log_mem_last_record [OF m] by (simp add: boot_steps_def)
  then show ?thesis
    using boot_thread [of "power_on ?m" c] load_none_fields [where w = "set_state FLASH_TASK_READ (power_on ?m)"]
    by (simp only: boot_result_blank [OF m] power_on_fields) simp
qed

theorem wrap_erase_window_witness:
  "\<exists>w. flash_thread nor_chip 1026 (power_on (FMEM (FLASH_vEraseSector nor_chip (efm_reset (\<lambda>_. 0))
      FLASH_ADDR_START (0x2000 * 2)))) = Some w \<and> systick_hrs (fl_clk w) = 0"
  using wrap_erase_window [OF nor_chip_ok, of "efm_reset (\<lambda>_. 0)"] by (auto simp: time_init_def)

theorem flash_boot_completes_witness:
  "\<exists>n w. n \<le> 1026 \<and> flash_thread nor_chip n (power_on (mwrite (\<lambda>_. 255) (slot_addr 5) [0xA5, 0x10])) = Some w \<and>
     pos (fl_info w) = 5"
proof -
  have "flagged (mwrite (\<lambda>_. 255) (slot_addr 5) [0xA5, 0x10]) k \<longleftrightarrow> k = 5" for k
    by (auto simp: flagged_def mwrite_def slot_addr_def nth_Cons') presburger
  then show ?thesis
    using flash_boot_completes [of nor_chip "mwrite (\<lambda>_. 255) (slot_addr 5) [0xA5, 0x10]"]
    by (auto split: if_splits)
qed

end
