(* ===== verification/SysTask.thy ===== *)
theory SysTask
  imports Ota Motor FlashLog
begin

text \<open>
  The system task (\<open>app_task.c\<close>) and its composition with the tasks it talks to. The tasks share
  their state directly: the system task sets the states of the display and of the flash thread, reads
  the key flags and the fault code, and starts network reports; the service of the update link sets
  all three task states. One event is one round of one task, one timer callback or one interrupt.
  A run is one power-up: after a reset of the processor, or when the supply is gone, the program begins
  again with \<open>app_init\<close> over the flash as it is then.
\<close>

section \<open>The state of the application\<close>

datatype SysTaskDef =
    SYS_TASK_INIT | SYS_TASK_START | SYS_TASK_IDLE | STS_TASK_RUN | SYS_TASK_ERROR | SYS_TASK_CLOSE
  | SYS_TASK_OTA

text \<open>
  The software timers are those of \<open>ap_display\<close>, the clock is that of \<open>ap_flash\<close>. The last six fields
  are the output pins and the reset register.
\<close>

record app =
  SysTaskState :: SysTaskDef
  ap_display :: display
  ap_flash :: flash_world
  ap_keys :: keys
  ap_error :: u32
  ap_iot :: iot
  ap_ota :: ota
  ap_motors :: motors
  blue_led :: bool
  red_led :: bool
  brush_enabled :: bool
  suction_enabled :: bool
  power_enabled :: bool
  cpu_reset :: bool

definition app_init :: "memory \<Rightarrow> app" where
  "app_init m = \<lparr>SysTaskState = SYS_TASK_INIT, ap_display = display_init, ap_flash = power_on m, ap_keys = key_init,
     ap_error = 0, ap_iot = iot_init, ap_ota = ota_init, ap_motors = motor_init, blue_led = False,
     red_led = False, brush_enabled = False, suction_enabled = False, power_enabled = False, cpu_reset = False\<rparr>"

definition App_Task :: "SysTaskDef \<Rightarrow> app \<Rightarrow> app" where
  "App_Task st s = s\<lparr>SysTaskState := st\<rparr>"

definition set_flash :: "TFlashTaskState \<Rightarrow> app \<Rightarrow> app" where
  "set_flash st s = s\<lparr>ap_flash := set_state st (ap_flash s)\<rparr>"

definition set_display :: "TDisplayTaskState \<Rightarrow> app \<Rightarrow> app" where
  "set_display st s = s\<lparr>ap_display := set_display_state st (ap_display s)\<rparr>"

definition sys_timer :: "TSWTimerIndex \<Rightarrow> u32 \<Rightarrow> app \<Rightarrow> app" where
  "sys_timer i v s = s\<lparr>ap_display := start_timer i v (ap_display s)\<rparr>"

definition expired :: "TSWTimerIndex \<Rightarrow> app \<Rightarrow> bool" where
  "expired i s \<longleftrightarrow> TMR_bIsTimeExpired (dp_timers (ap_display s)) i"

definition send_report :: "app \<Rightarrow> app" where
  "send_report s = s\<lparr>ap_iot := IOT_vTransmitMessage 0 (ap_iot s)\<rparr>"

definition off_flag :: "app \<Rightarrow> u8" where
  "off_flag s = Off_Key_Flag (Key_ptGetInfo (ap_keys s))"

definition flash_task :: "app \<Rightarrow> TFlashTaskState" where
  "flash_task s = fl_tTaskState (fl_info (ap_flash s))"

definition display_task :: "app \<Rightarrow> TDisplayTaskState" where
  "display_task s = dp_tTaskState (Display_ptGetInfo (ap_display s))"

section \<open>The system task\<close>

text \<open>The lights and the periodic report at the start of a round.\<close>

definition sys_timers :: "app \<Rightarrow> app" where
  "sys_timers s =
     (let s = (if expired TMR_BULE_LED s then (sys_timer TMR_BULE_LED 5 s)\<lparr>blue_led := \<not> blue_led s\<rparr> else s);
        s = (if expired TMR_RED_LED s \<and> Error_GetInfo (ap_error s) \<noteq> 0
          then (sys_timer TMR_RED_LED 5 s)\<lparr>red_led := \<not> red_led s\<rparr> else s)
      in if expired TMR_SYS_USART_SEND s \<and> SysTaskState s \<noteq> SYS_TASK_INIT
        then send_report (sys_timer TMR_SYS_USART_SEND 200 s) else s)"

text \<open>What the off key starts, in the idle and in the fault state.\<close>

definition request_close :: "app \<Rightarrow> app" where
  "request_close s =
     App_Task SYS_TASK_CLOSE (send_report (sys_timer TMR_SYS_CLOSE_DELAY 15 (set_flash FLASH_TASK_SAVE s)))"

definition app_hw_cpu_reset :: "app \<Rightarrow> app" where
  "app_hw_cpu_reset s = s\<lparr>cpu_reset := True\<rparr>"

definition sys_switch :: "app \<Rightarrow> app" where
  "sys_switch s = (case SysTaskState s of
     SYS_TASK_INIT \<Rightarrow>
       let s = s\<lparr>brush_enabled := True, suction_enabled := True, power_enabled := True\<rparr>
       in if display_task s = DISPLAY_TASK_INIT_DONE \<and> flash_task s = FLASH_TASK_READ_DONE
         then App_Task SYS_TASK_START s else s
   | SYS_TASK_START \<Rightarrow> App_Task SYS_TASK_IDLE (set_display DISPLAY_TASK_START_UP s)
   | SYS_TASK_IDLE \<Rightarrow>
       if off_flag s = 1 then request_close s
       else if display_task s = DISPLAY_TASK_START_UP_DONE \<or> display_task s = DISPLAY_TASK_ERROR \<or>
          display_task s = DISPLAY_TASK_RUN then App_Task STS_TASK_RUN s
       else s
   | STS_TASK_RUN \<Rightarrow>
       if Error_GetInfo (ap_error s) \<noteq> 0 then App_Task SYS_TASK_ERROR s
       else App_Task SYS_TASK_IDLE (set_display DISPLAY_TASK_RUN s)
   | SYS_TASK_ERROR \<Rightarrow>
       let s = set_display DISPLAY_TASK_ERROR s;
         s = (if off_flag s = 1 then request_close s else s)
       in if Error_GetInfo (ap_error s) = 0 then App_Task SYS_TASK_IDLE s else s
   | SYS_TASK_CLOSE \<Rightarrow>
       let s = set_display DISPLAY_TASK_CLOSE s;
         s = (if flash_task s = FLASH_TASK_SAVE_DONE \<and> expired TMR_SYS_CLOSE_DELAY s
           then s\<lparr>brush_enabled := False, suction_enabled := False, power_enabled := False\<rparr> else s)
       in if off_flag s = 0
         then App_Task SYS_TASK_INIT (set_flash FLASH_TASK_INIT (set_display DISPLAY_TASK_INIT s)) else s
   | SYS_TASK_OTA \<Rightarrow>
       if flash_task s = FLASH_TASK_SAVE_DONE \<and> display_task s = DISPLAY_TASK_OTA then app_hw_cpu_reset s else s)"

definition Task_vTaskHandler_Entry :: "app \<Rightarrow> app" where
  "Task_vTaskHandler_Entry s = sys_switch (sys_timers s)"

text \<open>The request of the update link's service.\<close>

definition ota_request :: "app \<Rightarrow> app" where
  "ota_request s = App_Task SYS_TASK_OTA (set_display DISPLAY_TASK_OTA (set_flash FLASH_TASK_SAVE s))"

section \<open>All tasks\<close>

text \<open>
  The supply voltage, the pins and the bytes of the two serial lines are inputs. The round of a task is
  atomic; \<open>None\<close> is the flash thread's endless loop after a failed write.
\<close>

datatype app_event =
    Ev_sys | Ev_flash | Ev_display rat | Ev_key pins | Ev_error rat | Ev_motor | Ev_rgb | Ev_second | Ev_tick
  | Ev_iot_tx | Ev_iot_rx u8 | Ev_iot_irq bytes | Ev_ota_tx | Ev_ota_rx | Ev_ota_irq bytes

definition app_clock :: "app \<Rightarrow> TtimeInfo" where
  "app_clock s = fl_clk (ap_flash s)"

definition set_clock :: "TtimeInfo \<Rightarrow> app \<Rightarrow> app" where
  "set_clock t s = s\<lparr>ap_flash := (ap_flash s)\<lparr>fl_clk := t\<rparr>\<rparr>"

definition app_step :: "flash_chip \<Rightarrow> iic_device \<Rightarrow> app_event \<Rightarrow> app \<Rightarrow> app option" where
  "app_step c dev e s = (case e of
     Ev_sys \<Rightarrow> Some (Task_vTaskHandler_Entry s)
   | Ev_flash \<Rightarrow> map_option (\<lambda>w. s\<lparr>ap_flash := w\<rparr>) (FLASH_vTaskHandler_Entry c (ap_flash s))
   | Ev_display v \<Rightarrow>
       Some (s\<lparr>ap_display := Display_vTaskHandler_entry dev (app_clock s) v (ap_error s) (ap_display s)\<rparr>)
   | Ev_key p \<Rightarrow> Some (s\<lparr>ap_keys := Key_vTaskHandler_entry p (ap_keys s)\<rparr>)
   | Ev_error v \<Rightarrow> Some (s\<lparr>ap_error := Error_TaskHandler v (ap_error s)\<rparr>)
   | Ev_motor \<Rightarrow> Some (s\<lparr>ap_motors := MOTOR_vTaskHandler_Entry (Key_ptGetInfo (ap_keys s)) (ap_motors s)\<rparr>)
   | Ev_rgb \<Rightarrow> Some (s\<lparr>ap_motors := RGB_timer_timeout (ap_motors s)\<rparr>)
   | Ev_second \<Rightarrow> Some (set_clock (one_msecond_timeout (app_clock s)) s)
   | Ev_tick \<Rightarrow>
       (case hundreds_millisecond_timeout (app_clock s, dp_timers (ap_display s)) of
          (t, ts) \<Rightarrow> Some ((set_clock t s)\<lparr>ap_display := (ap_display s)\<lparr>dp_timers := ts\<rparr>\<rparr>))
   | Ev_iot_tx \<Rightarrow>
       Some (s\<lparr>ap_iot := IOT_vTransmitHandler_entry (ap_keys s) (app_clock s) (ap_display s) (ap_error s) (ap_iot s)\<rparr>)
   | Ev_iot_rx stk \<Rightarrow>
       (case IOT_vReceptionHandler_entry stk (ap_iot s, ap_display s) of
          (i, d) \<Rightarrow> Some (s\<lparr>ap_iot := i, ap_display := d\<rparr>))
   | Ev_iot_irq bs \<Rightarrow> Some (s\<lparr>ap_iot := Usart3RxIrqCallback bs (ap_iot s)\<rparr>)
   | Ev_ota_tx \<Rightarrow> Some (s\<lparr>ap_ota := OTA_vTransmitHandler_entry (ap_ota s)\<rparr>)
   | Ev_ota_rx \<Rightarrow>
       (case OTA_vReceptionHandler_entry (ap_ota s) of
          (l, req) \<Rightarrow> Some (if req then ota_request (s\<lparr>ap_ota := l\<rparr>) else s\<lparr>ap_ota := l\<rparr>))
   | Ev_ota_irq bs \<Rightarrow> Some (s\<lparr>ap_ota := app_Usart2RxIrqCallback bs (ap_ota s)\<rparr>))"

primrec app_run :: "flash_chip \<Rightarrow> iic_device \<Rightarrow> app_event list \<Rightarrow> app \<Rightarrow> app option" where
  "app_run c dev [] s = Some s"
| "app_run c dev (e # es) s = Option.bind (app_step c dev e s) (app_run c dev es)"
section \<open>What the events keep\<close>

lemma set_fields [simp]:
  "ap_flash (set_flash t s) = set_state t (ap_flash s)" "SysTaskState (set_flash t s) = SysTaskState s"
  "ap_flash (set_display st s) = ap_flash s" "SysTaskState (set_display st s) = SysTaskState s"
  "ap_flash (sys_timer i v s) = ap_flash s" "SysTaskState (sys_timer i v s) = SysTaskState s"
  "ap_flash (send_report s) = ap_flash s" "SysTaskState (send_report s) = SysTaskState s"
  "ap_flash (App_Task x s) = ap_flash s" "SysTaskState (App_Task x s) = x"
  "ap_flash (app_hw_cpu_reset s) = ap_flash s" "SysTaskState (app_hw_cpu_reset s) = SysTaskState s"
  "ap_keys (set_flash t s) = ap_keys s" "ap_keys (set_display st s) = ap_keys s"
  "ap_keys (sys_timer i v s) = ap_keys s" "ap_keys (send_report s) = ap_keys s" "ap_keys (App_Task x s) = ap_keys s"
  "ap_error (set_flash t s) = ap_error s" "ap_error (set_display st s) = ap_error s"
  "ap_error (sys_timer i v s) = ap_error s" "ap_error (send_report s) = ap_error s" "ap_error (App_Task x s) = ap_error s"
  "power_enabled (set_flash t s) = power_enabled s" "power_enabled (set_display st s) = power_enabled s"
  "power_enabled (sys_timer i v s) = power_enabled s" "power_enabled (send_report s) = power_enabled s"
  "power_enabled (App_Task x s) = power_enabled s"
  "ap_display (set_flash t s) = ap_display s" "ap_display (send_report s) = ap_display s"
  "ap_display (App_Task x s) = ap_display s"
  by (simp_all add: set_flash_def set_display_def sys_timer_def send_report_def App_Task_def app_hw_cpu_reset_def)

lemma sys_timers_fields [simp]:
  "ap_flash (sys_timers s) = ap_flash s" "SysTaskState (sys_timers s) = SysTaskState s"
  "ap_keys (sys_timers s) = ap_keys s" "ap_error (sys_timers s) = ap_error s" "power_enabled (sys_timers s) = power_enabled s"
  by (simp_all add: sys_timers_def Let_def)

lemma set_state_state [simp]: "fl_tTaskState (fl_info (set_state t w)) = t"
  by (simp add: set_state_def)

lemma request_close_fields [simp]:
  "ap_flash (request_close s) = set_state FLASH_TASK_SAVE (ap_flash s)" "SysTaskState (request_close s) = SYS_TASK_CLOSE"
  "ap_keys (request_close s) = ap_keys s" "ap_error (request_close s) = ap_error s"
  "power_enabled (request_close s) = power_enabled s"
  by (simp_all add: request_close_def)

text \<open>The events that touch neither the system state nor the flash thread.\<close>

definition aside :: "app_event \<Rightarrow> bool" where
  "aside e \<longleftrightarrow> e \<noteq> Ev_sys \<and> e \<noteq> Ev_flash \<and> e \<noteq> Ev_ota_rx"

lemma aside_step:
  assumes "aside e"
  obtains s' t where "app_step c dev e s = Some s'" "SysTaskState s' = SysTaskState s"
    "ap_flash s' = (ap_flash s)\<lparr>fl_clk := t\<rparr>" "power_enabled s' = power_enabled s"
proof -
  have "\<exists>s'. app_step c dev e s = Some s' \<and> SysTaskState s' = SysTaskState s \<and> power_enabled s' = power_enabled s \<and>
      (\<exists>t. ap_flash s' = (ap_flash s)\<lparr>fl_clk := t\<rparr>)"
    using assms by (cases e) (auto simp: aside_def app_step_def set_clock_def split: prod.split
      intro: exI [of _ "fl_clk (ap_flash s)"])
  with that show ?thesis by blast
qed

lemma ota_rx_step:
  obtains s' where "app_step c dev Ev_ota_rx s = Some s'" "power_enabled s' = power_enabled s"
    "SysTaskState s' = SYS_TASK_OTA \<or> SysTaskState s' = SysTaskState s \<and> ap_flash s' = ap_flash s"
proof -
  have "\<exists>s'. app_step c dev Ev_ota_rx s = Some s' \<and> power_enabled s' = power_enabled s \<and>
      (SysTaskState s' = SYS_TASK_OTA \<or> SysTaskState s' = SysTaskState s \<and> ap_flash s' = ap_flash s)"
    by (auto simp: app_step_def ota_request_def split: prod.split)
  with that show ?thesis by blast
qed

text \<open>The switch, by the state it starts from: the next state and what it does to the flash thread.\<close>

lemma sys_switch_flow:
  "SysTaskState (sys_switch s) = (case SysTaskState s of
     SYS_TASK_INIT \<Rightarrow> if display_task s = DISPLAY_TASK_INIT_DONE \<and> flash_task s = FLASH_TASK_READ_DONE
       then SYS_TASK_START else SYS_TASK_INIT
   | SYS_TASK_START \<Rightarrow> SYS_TASK_IDLE
   | SYS_TASK_IDLE \<Rightarrow> if off_flag s = 1 then SYS_TASK_CLOSE
       else if display_task s = DISPLAY_TASK_START_UP_DONE \<or> display_task s = DISPLAY_TASK_ERROR \<or>
          display_task s = DISPLAY_TASK_RUN then STS_TASK_RUN else SYS_TASK_IDLE
   | STS_TASK_RUN \<Rightarrow> if ap_error s \<noteq> 0 then SYS_TASK_ERROR else SYS_TASK_IDLE
   | SYS_TASK_ERROR \<Rightarrow> if ap_error s = 0 then SYS_TASK_IDLE
       else if off_flag s = 1 then SYS_TASK_CLOSE else SYS_TASK_ERROR
   | SYS_TASK_CLOSE \<Rightarrow> if off_flag s = 0 then SYS_TASK_INIT else SYS_TASK_CLOSE
   | SYS_TASK_OTA \<Rightarrow> SYS_TASK_OTA)"
  by (cases "SysTaskState s")
    (simp_all add: sys_switch_def Let_def display_task_def flash_task_def off_flag_def Error_GetInfo_def)

lemma sys_switch_flash:
  "ap_flash (sys_switch s) =
     (if (SysTaskState s = SYS_TASK_IDLE \<or> SysTaskState s = SYS_TASK_ERROR) \<and> off_flag s = 1
      then set_state FLASH_TASK_SAVE (ap_flash s)
      else if SysTaskState s = SYS_TASK_CLOSE \<and> off_flag s = 0 then set_state FLASH_TASK_INIT (ap_flash s)
      else ap_flash s)"
  by (cases "SysTaskState s") (simp_all add: sys_switch_def Let_def off_flag_def)

lemma sys_switch_power:
  "power_enabled s \<Longrightarrow> \<not> power_enabled (sys_switch s) \<Longrightarrow>
     SysTaskState s = SYS_TASK_CLOSE \<and> flash_task s = FLASH_TASK_SAVE_DONE"
  by (cases "SysTaskState s")
    (simp_all add: sys_switch_def Let_def flash_task_def app_hw_cpu_reset_def split: if_splits)

lemma sys_round_simps [simp]:
  "flash_task (sys_timers s) = flash_task s" "off_flag (sys_timers s) = off_flag s"
  by (simp_all add: flash_task_def off_flag_def)

lemma sys_round:
  "app_step c dev Ev_sys s = Some (sys_switch (sys_timers s))"
  by (simp add: app_step_def Task_vTaskHandler_Entry_def)

section \<open>Reachable states\<close>

definition log_loaded :: "TFlashTaskState \<Rightarrow> bool" where
  "log_loaded t \<longleftrightarrow> t = FLASH_TASK_READ_DONE \<or> t = FLASH_TASK_SAVE \<or> t = FLASH_TASK_SAVE_DONE"

definition app_inv :: "app \<Rightarrow> bool" where
  "app_inv s \<longleftrightarrow> SysTaskState s = SYS_TASK_OTA \<or>
     flash_inv (ap_flash s) \<and> (SysTaskState s \<noteq> SYS_TASK_INIT \<longrightarrow> log_loaded (flash_task s))"

inductive app_reach :: "flash_chip \<Rightarrow> iic_device \<Rightarrow> app \<Rightarrow> bool" for c dev where
  boot: "log_mem m n \<Longrightarrow> app_reach c dev (app_init m)"
| event: "app_reach c dev s \<Longrightarrow> app_step c dev e s = Some s' \<Longrightarrow> app_reach c dev s'"

lemma app_reach_run: "app_reach c dev s \<Longrightarrow> app_run c dev es s = Some s' \<Longrightarrow> app_reach c dev s'"
  by (induction es arbitrary: s) (auto split: Option.bind_splits intro: app_reach.event)

lemma app_run_append: "app_run c dev (es @ fs) s = Option.bind (app_run c dev es s) (app_run c dev fs)"
  by (induction es arbitrary: s) (auto split: Option.bind_splits)

lemma app_run_snoc:
  "app_run c dev (es @ [e]) s = Some s' \<longleftrightarrow> (\<exists>u. app_run c dev es s = Some u \<and> app_step c dev e u = Some s')"
  by (auto simp: app_run_append bind_eq_Some_conv)

text \<open>The reachable states are those of the runs from power-up over a well-formed log.\<close>

lemma app_reach_runs:
  assumes "app_reach c dev s"
  obtains m n es where "log_mem m n" "app_run c dev es (app_init m) = Some s"
  using assms
proof (induction arbitrary: thesis rule: app_reach.induct)
  case (boot m n)
  show ?case by (rule boot.prems [of m n "[]"]) (use boot.hyps in simp_all)
next
  case (event s e s')
  show ?case
  proof (rule event.IH)
    fix m n es assume "log_mem m n" "app_run c dev es (app_init m) = Some s"
    then show ?thesis using event.prems [of m n "es @ [e]"] event.hyps(2) by (simp add: app_run_snoc)
  qed
qed

lemma flash_inv_state:
  "flash_inv w \<Longrightarrow> log_loaded (fl_tTaskState (fl_info w)) \<Longrightarrow> flash_inv (set_state FLASH_TASK_SAVE w)"
  "flash_inv w \<Longrightarrow> flash_inv (set_state FLASH_TASK_INIT w)"
  by (auto simp: flash_inv_def log_loaded_def set_state_def)

lemma flash_inv_clock: "flash_inv (w\<lparr>fl_clk := t\<rparr>) = flash_inv w"
  by (simp add: flash_inv_def cong: TFlashTaskState.case_cong)

lemma flash_stays_loaded:
  assumes "FLASH_vTaskHandler_Entry c w = Some w'" "log_loaded (fl_tTaskState (fl_info w))"
  shows "log_loaded (fl_tTaskState (fl_info w'))"
  using assms by (auto simp: log_loaded_def FLASH_vTaskHandler_Entry_def)

lemma app_inv_sys:
  assumes "app_inv s"
  shows "app_inv (sys_switch (sys_timers s))"
proof -
  let ?t = "sys_timers s"
  have i: "app_inv ?t" using assms by (simp add: app_inv_def)
  have f: "flash_task (sys_switch ?t) =
     (if (SysTaskState s = SYS_TASK_IDLE \<or> SysTaskState s = SYS_TASK_ERROR) \<and> off_flag s = 1 then FLASH_TASK_SAVE
      else if SysTaskState s = SYS_TASK_CLOSE \<and> off_flag s = 0 then FLASH_TASK_INIT else flash_task s)"
    by (simp add: flash_task_def sys_switch_flash)
  have "SysTaskState s \<noteq> SYS_TASK_OTA \<Longrightarrow> flash_inv (ap_flash (sys_switch ?t))"
  proof -
    assume "SysTaskState s \<noteq> SYS_TASK_OTA"
    then have w: "flash_inv (ap_flash s)" "SysTaskState s \<noteq> SYS_TASK_INIT \<Longrightarrow> log_loaded (fl_tTaskState (fl_info (ap_flash s)))"
      using assms by (simp_all add: app_inv_def flash_task_def)
    show "flash_inv (ap_flash (sys_switch ?t))"
      using w(1) flash_inv_state(1) [OF w(1) w(2)] flash_inv_state(2) [OF w(1)]
      by (auto simp add: sys_switch_flash)
  qed
  moreover have "SysTaskState s \<noteq> SYS_TASK_OTA \<Longrightarrow> SysTaskState (sys_switch ?t) \<noteq> SYS_TASK_INIT \<Longrightarrow>
      log_loaded (flash_task (sys_switch ?t))"
    using i unfolding f by (cases "SysTaskState s") (auto simp: app_inv_def sys_switch_flow log_loaded_def split: if_splits)
  moreover have "SysTaskState s = SYS_TASK_OTA \<Longrightarrow> SysTaskState (sys_switch ?t) = SYS_TASK_OTA"
    by (simp add: sys_switch_flow)
  ultimately show ?thesis unfolding app_inv_def by blast
qed

lemma app_inv_step:
  assumes c: "flash_chip_ok c" and i: "app_inv s" and e: "app_step c dev e s = Some s'"
  shows "app_inv s'"
proof (cases "aside e")
  case True
  then obtain t where "SysTaskState s' = SysTaskState s" "ap_flash s' = (ap_flash s)\<lparr>fl_clk := t\<rparr>"
    using e by (metis aside_step option.inject)
  then show ?thesis using i by (simp add: app_inv_def flash_inv_clock flash_task_def)
next
  case False
  then consider "e = Ev_sys" | "e = Ev_flash" | "e = Ev_ota_rx" by (auto simp: aside_def)
  then show ?thesis
  proof cases
    case 1
    with e app_inv_sys [OF i] show ?thesis by (simp add: sys_round)
  next
    case 2
    then obtain w where w: "FLASH_vTaskHandler_Entry c (ap_flash s) = Some w" "s' = s\<lparr>ap_flash := w\<rparr>"
      using e by (auto simp: app_step_def)
    show ?thesis
      using i flash_inv_step [OF c, of "ap_flash s"] flash_stays_loaded [OF w(1)] w
      by (auto simp: app_inv_def flash_task_def)
  next
    case 3
    then have "SysTaskState s' = SYS_TASK_OTA \<or> SysTaskState s' = SysTaskState s \<and> ap_flash s' = ap_flash s"
      using e by (metis ota_rx_step option.inject)
    then show ?thesis using i by (auto simp: app_inv_def flash_task_def)
  qed
qed

lemma app_reach_inv: "app_reach c dev s \<Longrightarrow> flash_chip_ok c \<Longrightarrow> app_inv s"
proof (induction rule: app_reach.induct)
  case (boot m n)
  then show ?case by (auto simp: app_inv_def app_init_def flash_inv_def)
next
  case (event s e s')
  then show ?case using app_inv_step by blast
qed
section \<open>Closing\<close>

text \<open>
  \<open>closing_run es u\<close>: the events \<open>es\<close> happen from \<open>u\<close> on, and the system task is in the closing
  state at \<open>u\<close>, at the end and all the time between.
\<close>

primrec closing_run :: "flash_chip \<Rightarrow> iic_device \<Rightarrow> app_event list \<Rightarrow> app \<Rightarrow> bool" where
  "closing_run c dev [] s \<longleftrightarrow> SysTaskState s = SYS_TASK_CLOSE"
| "closing_run c dev (e # es) s \<longleftrightarrow> SysTaskState s = SYS_TASK_CLOSE \<and>
     (case app_step c dev e s of None \<Rightarrow> False | Some s' \<Rightarrow> closing_run c dev es s')"

lemma closing_run_snoc:
  "closing_run c dev es u \<Longrightarrow> app_run c dev es u = Some s \<Longrightarrow> app_step c dev e s = Some s' \<Longrightarrow>
     SysTaskState s' = SYS_TASK_CLOSE \<Longrightarrow> closing_run c dev (es @ [e]) u"
  by (induction es arbitrary: u) (auto split: option.splits Option.bind_splits)

text \<open>
  The save of this closing: the events \<open>es\<close> from power-up contain an iteration of the flash thread that
  found the request, at \<open>u\<close>; the closing state has not been left since, and the log now holds
  the hours and minutes the clock showed at \<open>u\<close>.
\<close>

definition save_made :: "flash_chip \<Rightarrow> iic_device \<Rightarrow> memory \<Rightarrow> app_event list \<Rightarrow> app \<Rightarrow> bool" where
  "save_made c dev m es s \<longleftrightarrow> (\<exists>as bs u n a. es = as @ Ev_flash # bs \<and> app_run c dev as (app_init m) = Some u \<and>
     flash_task u = FLASH_TASK_SAVE \<and> closing_run c dev (Ev_flash # bs) u \<and> log_mem (FMEM (fl_dev (ap_flash s))) (Suc n) \<and>
     slot_bytes (FMEM (fl_dev (ap_flash s))) n = log_record n a (systick_hrs (app_clock u)) (systick_min (app_clock u)))"

lemma save_made_snoc:
  assumes "save_made c dev m es s" "app_run c dev es (app_init m) = Some s" "app_step c dev e s = Some s'"
    "SysTaskState s' = SYS_TASK_CLOSE" "fl_dev (ap_flash s') = fl_dev (ap_flash s)"
  shows "save_made c dev m (es @ [e]) s'"
proof -
  obtain as bs u n a where s: "es = as @ Ev_flash # bs" "app_run c dev as (app_init m) = Some u"
    "flash_task u = FLASH_TASK_SAVE" "closing_run c dev (Ev_flash # bs) u" "log_mem (FMEM (fl_dev (ap_flash s))) (Suc n)"
    "slot_bytes (FMEM (fl_dev (ap_flash s))) n = log_record n a (systick_hrs (app_clock u)) (systick_min (app_clock u))"
    using assms(1) unfolding save_made_def by blast
  have "app_run c dev (Ev_flash # bs) u = Some s" using assms(2) s(1,2) by (simp add: app_run_append)
  from closing_run_snoc [OF s(4) this assms(3,4)] show ?thesis
    using s unfolding save_made_def assms(5) by (metis append_Cons append_assoc)
qed

text \<open>The closing state is entered by a round of the system task, which requests a save.\<close>

lemma enters_by_sys:
  assumes "app_step c dev e s = Some s'" "SysTaskState s \<noteq> SYS_TASK_CLOSE" "SysTaskState s' = SYS_TASK_CLOSE"
  shows "e = Ev_sys" "flash_task s' = FLASH_TASK_SAVE"
proof -
  show e: "e = Ev_sys"
  proof (rule ccontr)
    assume n: "e \<noteq> Ev_sys"
    show False
    proof (cases "aside e")
      case True
      then have "SysTaskState s' = SysTaskState s" using assms(1) by (metis aside_step option.inject)
      with assms show False by simp
    next
      case False
      then consider "e = Ev_flash" | "e = Ev_ota_rx" using n by (auto simp: aside_def)
      then show False
      proof cases
        case 1
        then show False using assms by (auto simp: app_step_def)
      next
        case 2
        then have "SysTaskState s' = SYS_TASK_OTA \<or> SysTaskState s' = SysTaskState s"
          using assms(1) by (metis ota_rx_step option.inject)
        with assms show False by auto
      qed
    qed
  qed
  then show "flash_task s' = FLASH_TASK_SAVE"
    using assms by (cases "SysTaskState s")
      (auto simp: sys_round sys_switch_flow sys_switch_flash flash_task_def split: if_splits)
qed

text \<open>The round of the flash thread that serves the request.\<close>

lemma save_event:
  assumes c: "flash_chip_ok c" and s: "flash_inv (ap_flash s)" "flash_task s = FLASH_TASK_SAVE"
  obtains w n a where "app_step c dev Ev_flash s = Some (s\<lparr>ap_flash := w\<rparr>)"
    "fl_tTaskState (fl_info w) = FLASH_TASK_SAVE_DONE" "fl_clk w = app_clock s" "log_mem (FMEM (fl_dev w)) (Suc n)"
    "slot_bytes (FMEM (fl_dev w)) n = log_record n a (systick_hrs (app_clock s)) (systick_min (app_clock s))"
proof -
  from s obtain n where n: "log_mem (FMEM (fl_dev (ap_flash s))) n" "at_end n (fl_info (ap_flash s))"
    by (auto simp: flash_inv_def flash_task_def)
  have k: "next_slot n < 1024" using n(1) by (auto simp: next_slot_def log_mem_def)
  from save_step [OF c n] s(2) obtain w where "FLASH_vTaskHandler_Entry c (ap_flash s) = Some w"
    "fl_tTaskState (fl_info w) = FLASH_TASK_SAVE_DONE" "fl_clk w = app_clock s"
    "FMEM (fl_dev w) = saved_memory (FMEM (fl_dev (ap_flash s))) (next_slot n) (log_record (next_slot n)
       (ulWriteCounter (fl_info (ap_flash s)) + 1) (systick_hrs (app_clock s)) (systick_min (app_clock s)))"
    by (auto simp: flash_task_def app_clock_def)
  then show ?thesis
    using log_mem_saved [OF n(1) refl] slot_bytes_saved [OF k]
    by (intro that [of w "next_slot n" "ulWriteCounter (fl_info (ap_flash s)) + 1"]) (simp_all add: app_step_def)
qed

lemma closing_saves:
  assumes c: "flash_chip_ok c" and m: "log_mem m n0"
  shows "app_run c dev es (app_init m) = Some s \<Longrightarrow> SysTaskState s = SYS_TASK_CLOSE \<Longrightarrow>
    flash_task s = FLASH_TASK_SAVE \<or> flash_task s = FLASH_TASK_SAVE_DONE \<and> save_made c dev m es s"
proof (induction es arbitrary: s rule: rev_induct)
  case Nil
  then show ?case by (auto simp: app_init_def)
next
  case (snoc e es s')
  then obtain s where run: "app_run c dev es (app_init m) = Some s" and step: "app_step c dev e s = Some s'"
    by (auto simp: app_run_snoc)
  show ?case
  proof (cases "SysTaskState s = SYS_TASK_CLOSE")
    case False
    then show ?thesis using enters_by_sys(2) [OF step] snoc.prems(2) by blast
  next
    case s: True
    note IH = snoc.IH [OF run s]
    have same: ?thesis if f: "fl_info (ap_flash s') = fl_info (ap_flash s)" "fl_dev (ap_flash s') = fl_dev (ap_flash s)"
      using IH save_made_snoc [OF _ run step snoc.prems(2) f(2)] by (auto simp: f flash_task_def)
    show ?thesis
    proof (cases "aside e")
      case True
      then obtain t where "ap_flash s' = (ap_flash s)\<lparr>fl_clk := t\<rparr>" using step by (metis aside_step option.inject)
      then show ?thesis by (intro same) simp_all
    next
      case False
      then consider "e = Ev_sys" | "e = Ev_flash" | "e = Ev_ota_rx" by (auto simp: aside_def)
      then show ?thesis
      proof cases
        case 1
        then have "ap_flash s' = ap_flash s"
          using step snoc.prems(2) s by (auto simp: sys_round sys_switch_flow sys_switch_flash split: if_splits)
        then show ?thesis by (intro same) simp_all
      next
        case 3
        then have "SysTaskState s' = SYS_TASK_OTA \<or> ap_flash s' = ap_flash s" using step by (metis ota_rx_step option.inject)
        then show ?thesis using snoc.prems(2) by (intro same) auto
      next
        case 2
        show ?thesis
        proof (cases "flash_task s = FLASH_TASK_SAVE")
          case False
          then have "ap_flash s' = ap_flash s"
            using IH 2 step by (auto simp: app_step_def flash_task_def FLASH_vTaskHandler_Entry_def)
          then show ?thesis by (intro same) simp_all
        next
          case True
          have "flash_inv (ap_flash s)"
            using app_reach_inv [OF app_reach_run [OF app_reach.boot [OF m] run] c] s by (simp add: app_inv_def)
          then obtain w n a where w': "app_step c dev Ev_flash s = Some (s\<lparr>ap_flash := w\<rparr>)"
            "fl_tTaskState (fl_info w) = FLASH_TASK_SAVE_DONE" "log_mem (FMEM (fl_dev w)) (Suc n)"
            "slot_bytes (FMEM (fl_dev w)) n = log_record n a (systick_hrs (app_clock s)) (systick_min (app_clock s))"
            by (rule save_event [OF c _ True, of dev])
          note w = w' [unfolded step [unfolded 2] option.inject]
          have "closing_run c dev [Ev_flash] s" using step 2 s w(1) by simp
          then have "save_made c dev m (es @ [e]) s'"
            unfolding save_made_def using run True w 2
            by (intro exI [of _ es] exI [of _ "[]"] exI [of _ s] exI [of _ n] exI [of _ a]) simp
          then show ?thesis using w(1,2) by (simp add: flash_task_def)
        qed
      qed
    qed
  qed
qed

lemma power_falls:
  assumes "app_step c dev e s = Some s'" "power_enabled s" "\<not> power_enabled s'"
  shows "e = Ev_sys" "SysTaskState s = SYS_TASK_CLOSE" "flash_task s = FLASH_TASK_SAVE_DONE"
proof -
  show e: "e = Ev_sys"
  proof (rule ccontr)
    assume n: "e \<noteq> Ev_sys"
    consider "aside e" | "e = Ev_flash" | "e = Ev_ota_rx" using n by (auto simp: aside_def)
    then have "power_enabled s' = power_enabled s"
    proof cases
      case 1
      then show ?thesis using assms(1) by (metis aside_step option.inject)
    next
      case 2
      then show ?thesis using assms(1) by (auto simp: app_step_def)
    next
      case 3
      then show ?thesis using assms(1) by (metis ota_rx_step option.inject)
    qed
    with assms show False by simp
  qed
  then show "SysTaskState s = SYS_TASK_CLOSE" "flash_task s = FLASH_TASK_SAVE_DONE"
    using assms sys_switch_power [of "sys_timers s"] by (simp_all add: sys_round)
qed

text \<open>
  C9. The supply is only cut after the operating hours are safe: in every run of the application from
  power-up over a well-formed log, on a chip of the documented behaviour, an event that takes the
  power-hold pin away is a round of the system task. Before it, in the same run and in the same stay in the
  closing state, the flash thread found the save request and served it, and the next boot, from the
  flash as it is at the cut, ends within 1026 iterations with the hours and minutes the clock showed
  in the state in which the flash thread served that request.
\<close>

theorem power_cut_after_save:
  assumes "flash_chip_ok c" "log_mem m k" "app_run c dev es (app_init m) = Some s"
    and "app_step c dev e s = Some s'" "power_enabled s" "\<not> power_enabled s'"
  shows "e = Ev_sys \<and> (\<exists>as bs u n w. es = as @ Ev_flash # bs \<and> app_run c dev as (app_init m) = Some u \<and>
    flash_task u = FLASH_TASK_SAVE \<and> closing_run c dev (Ev_flash # bs) u \<and>
    n \<le> 1026 \<and> flash_thread c n (power_cycle (ap_flash s')) = Some w \<and>
    fl_tTaskState (fl_info w) = FLASH_TASK_READ_DONE \<and>
    systick_hrs (fl_clk w) = systick_hrs (app_clock u) \<and> systick_min (fl_clk w) = systick_min (app_clock u))"
proof -
  note p = power_falls [OF assms(4-6)]
  obtain as bs u n a where u: "es = as @ Ev_flash # bs" "app_run c dev as (app_init m) = Some u"
    "flash_task u = FLASH_TASK_SAVE" "closing_run c dev (Ev_flash # bs) u" "log_mem (FMEM (fl_dev (ap_flash s))) (Suc n)"
    "slot_bytes (FMEM (fl_dev (ap_flash s))) n = log_record n a (systick_hrs (app_clock u)) (systick_min (app_clock u))"
    using closing_saves [OF assms(1-3) p(2)] p(3) by (auto simp: save_made_def)
  have f: "FMEM (fl_dev (ap_flash s')) = FMEM (fl_dev (ap_flash s))"
    using assms(4) p(1) by (auto simp: sys_round sys_switch_flash set_state_def)
  note b = boot_thread [of "power_cycle (ap_flash s')" c, unfolded power_cycle_def power_on_fields f]
  note l = boot_result_record [of "FMEM (fl_dev (ap_flash s))" "Suc n", simplified, OF u(5,6)]
  have "\<exists>n w. n \<le> 1026 \<and> flash_thread c n (power_cycle (ap_flash s')) = Some w \<and>
    fl_tTaskState (fl_info w) = FLASH_TASK_READ_DONE \<and>
    systick_hrs (fl_clk w) = systick_hrs (app_clock u) \<and> systick_min (fl_clk w) = systick_min (app_clock u)"
    using b l boot_steps_le [of "FMEM (fl_dev (ap_flash s))"]
    by (intro exI [of _ "boot_steps (FMEM (fl_dev (ap_flash s)))"]
        exI [of _ "boot_result (power_on (FMEM (fl_dev (ap_flash s))))"])
      (simp add: loaded_clock_def power_cycle_def f)
  then show ?thesis using p(1) u(1-4) by blast
qed

section \<open>Runs\<close>

lemma flash_run:
  "app_run c dev (replicate n Ev_flash) s = map_option (\<lambda>w. s\<lparr>ap_flash := w\<rparr>) (flash_thread c n (ap_flash s))"
proof (induction n arbitrary: s)
  case (Suc n)
  then show ?case by (cases "FLASH_vTaskHandler_Entry c (ap_flash s)") (simp_all add: app_step_def)
qed simp

lemma key_event: "app_step c dev (Ev_key p) s = Some (s\<lparr>ap_keys := Key_vTaskHandler_entry p (ap_keys s)\<rparr>)"
  by (simp add: app_step_def)

lemma off_key_flag:
  "off_value p < 500 \<Longrightarrow> Off_Key_Flag (Key_tInfo (Key_vTaskHandler_entry p k)) = 1"
  "off_value p > 500 \<Longrightarrow> Off_Key_Flag (Key_tInfo (Key_vTaskHandler_entry p k)) = 0"
  by (auto simp add: Key_vTaskHandler_entry_def Key_Scan_def Key_Output_def Let_def)

abbreviation app_timers :: "app \<Rightarrow> timers" where
  "app_timers s \<equiv> dp_timers (ap_display s)"

lemma timers_wf_fields [simp]:
  "timers_wf (app_timers (sys_timer i v s)) = timers_wf (app_timers s)"
  "timers_wf (app_timers (set_display st s)) = timers_wf (app_timers s)"
  "app_timers (set_display st s) = app_timers s" "app_timers (sys_timer i v s) = TMR_vSetTime_100msValue (app_timers s) i v"
  by (simp_all add: sys_timer_def set_display_def start_timer_def set_display_state_def timers_wf_def
      TMR_vSetTime_100msValue_def)

lemma sys_timers_wf: "timers_wf (app_timers s) \<Longrightarrow> timers_wf (app_timers (sys_timers s))"
  by (simp add: sys_timers_def Let_def timers_wf_def TMR_vSetTime_100msValue_def)

lemma sys_timers_close_delay:
  "expired TMR_SYS_CLOSE_DELAY (sys_timers s) = expired TMR_SYS_CLOSE_DELAY s"
  by (simp add: sys_timers_def Let_def expired_def TMR_bIsTimeExpired_def TMR_vSetTime_100msValue_def)

lemma tick_run:
  "\<exists>s' t. app_run c dev (replicate n Ev_tick) s = Some s' \<and> SysTaskState s' = SysTaskState s \<and>
     ap_flash s' = (ap_flash s)\<lparr>fl_clk := t\<rparr> \<and> power_enabled s' = power_enabled s \<and>
     app_timers s' = (TMR_vTickUpdate ^^ n) (app_timers s)"
proof (induction n arbitrary: s)
  case 0
  show ?case by (auto intro: exI [of _ "fl_clk (ap_flash s)"])
next
  case (Suc n)
  obtain t where t: "app_step c dev Ev_tick s =
      Some ((set_clock t s)\<lparr>ap_display := (ap_display s)\<lparr>dp_timers := TMR_vTickUpdate (app_timers s)\<rparr>\<rparr>)"
    by (simp add: app_step_def hundreds_millisecond_timeout_def Let_def)
  show ?case
    using Suc [of "(set_clock t s)\<lparr>ap_display := (ap_display s)\<lparr>dp_timers := TMR_vTickUpdate (app_timers s)\<rparr>\<rparr>"]
    by (simp add: t set_clock_def funpow_swap1)
qed

lemma read_back_state:
  assumes "dp_tTaskState (DisplayTaskState d) = DISPLAY_TASK_INIT_DONE"
  shows "dp_tTaskState (DisplayTaskState (DisplayErrorHandler dev d)) = DISPLAY_TASK_INIT_DONE"
    "dp_timers (DisplayErrorHandler dev d) = dp_timers d"
  using assms by (simp_all add: DisplayErrorHandler_def set_display_state_def check_lines_def Let_def split: prod.split)

lemma display_boot:
  assumes "dp_tTaskState (DisplayTaskState d) = DISPLAY_TASK_INIT" "timers_wf (dp_timers d)"
  shows "dp_tTaskState (DisplayTaskState (Display_vTaskHandler_entry dev clk v err d)) = DISPLAY_TASK_INIT_DONE"
    "timers_wf (dp_timers (Display_vTaskHandler_entry dev clk v err d))"
proof -
  let ?d = "display_switch dev clk v err d"
  have d: "dp_tTaskState (DisplayTaskState ?d) = DISPLAY_TASK_INIT_DONE" "timers_wf (dp_timers ?d)"
    using assms by (simp_all add: display_switch_def Let_def set_display_state_def start_timer_def on_iic_def
        timers_wf_def TMR_vSetTime_100msValue_def)
  show "dp_tTaskState (DisplayTaskState (Display_vTaskHandler_entry dev clk v err d)) = DISPLAY_TASK_INIT_DONE"
    "timers_wf (dp_timers (Display_vTaskHandler_entry dev clk v err d))"
    using d read_back_state [OF d(1)] by (simp_all add: Display_vTaskHandler_entry_def Let_def)
qed
section \<open>The flash in whole runs\<close>

text \<open>
  The service of the update link sets the state of the flash thread to \<open>FLASH_TASK_SAVE\<close> whatever it is.
  \<open>early_request\<close>: the event serves a handshake that completes before the log has been read.
  \<open>timely\<close>: no event of a run does.
\<close>

definition early_request :: "app_event \<Rightarrow> app \<Rightarrow> bool" where
  "early_request e s \<longleftrightarrow> e = Ev_ota_rx \<and> snd (OTA_vReceptionHandler_entry (ap_ota s)) \<and> \<not> log_loaded (flash_task s)"

primrec timely :: "flash_chip \<Rightarrow> iic_device \<Rightarrow> app_event list \<Rightarrow> app \<Rightarrow> bool" where
  "timely c dev [] s \<longleftrightarrow> True"
| "timely c dev (e # es) s \<longleftrightarrow> \<not> early_request e s \<and>
     (case app_step c dev e s of None \<Rightarrow> True | Some s' \<Rightarrow> timely c dev es s')"

definition app_safe :: "app \<Rightarrow> bool" where
  "app_safe s \<longleftrightarrow> flash_inv (ap_flash s) \<and> (SysTaskState s \<noteq> SYS_TASK_INIT \<longrightarrow> log_loaded (flash_task s))"

lemma ota_event:
  "app_step c dev Ev_ota_rx s = Some (let r = OTA_vReceptionHandler_entry (ap_ota s)
     in if snd r then ota_request (s\<lparr>ap_ota := fst r\<rparr>) else s\<lparr>ap_ota := fst r\<rparr>)"
  by (simp add: app_step_def split: prod.split)

lemma ota_request_fields [simp]:
  "ap_flash (ota_request s) = set_state FLASH_TASK_SAVE (ap_flash s)" "SysTaskState (ota_request s) = SYS_TASK_OTA"
  by (simp_all add: ota_request_def)

lemma set_state_dev [simp]: "fl_dev (set_state t w) = fl_dev w" "fl_clk (set_state t w) = fl_clk w"
  by (simp_all add: set_state_def)

lemma app_safe_step:
  assumes c: "flash_chip_ok c" and i: "app_safe s" and e: "\<not> early_request e s"
  obtains s' where "app_step c dev e s = Some s'" "app_safe s'"
    "\<And>x. x < 0x3C000 \<or> 0x40000 \<le> x \<Longrightarrow> FMEM (fl_dev (ap_flash s')) x = FMEM (fl_dev (ap_flash s)) x"
proof -
  have w: "flash_inv (ap_flash s)" and l: "SysTaskState s \<noteq> SYS_TASK_INIT \<Longrightarrow> log_loaded (flash_task s)"
    using i by (simp_all add: app_safe_def)
  consider "aside e" | "e = Ev_sys" | "e = Ev_flash" | "e = Ev_ota_rx" by (auto simp: aside_def)
  then show ?thesis
  proof cases
    case 1
    obtain s' t where s': "app_step c dev e s = Some s'" "SysTaskState s' = SysTaskState s"
      "ap_flash s' = (ap_flash s)\<lparr>fl_clk := t\<rparr>" by (rule aside_step [OF 1])
    show ?thesis by (rule that [OF s'(1)]) (use i s' in \<open>simp_all add: app_safe_def flash_inv_clock flash_task_def\<close>)
  next
    case 2
    let ?u = "sys_switch (sys_timers s)"
    have "app_safe ?u"
    proof (cases "SysTaskState s = SYS_TASK_OTA")
      case True
      then show ?thesis using w l by (simp add: app_safe_def sys_switch_flow sys_switch_flash flash_task_def)
    next
      case False
      then have "SysTaskState ?u \<noteq> SYS_TASK_OTA"
        by (auto simp: sys_switch_flow split: SysTaskDef.split)
      moreover have "app_inv ?u" using app_inv_sys [of s] i by (simp add: app_inv_def app_safe_def)
      ultimately show ?thesis by (simp add: app_inv_def app_safe_def)
    qed
    then show ?thesis
      by (intro that [of ?u]) (use 2 in \<open>simp_all add: sys_round sys_switch_flash set_state_def\<close>)
  next
    case 3
    obtain w' where w': "FLASH_vTaskHandler_Entry c (ap_flash s) = Some w'" "flash_inv w'"
      using flash_inv_step [OF c w] by blast
    show ?thesis
    proof (rule that)
      show "app_step c dev e s = Some (s\<lparr>ap_flash := w'\<rparr>)" using 3 w'(1) by (simp add: app_step_def)
      show "app_safe (s\<lparr>ap_flash := w'\<rparr>)"
        using w'(2) l flash_stays_loaded [OF w'(1)] by (auto simp: app_safe_def flash_task_def)
    qed (use flash_step_frame [OF c w w'(1)] in simp)
  next
    case 4
    let ?r = "OTA_vReceptionHandler_entry (ap_ota s)"
    show ?thesis
    proof (cases "snd ?r")
      case True
      then have "log_loaded (flash_task s)" using e 4 by (simp add: early_request_def)
      then have "flash_inv (set_state FLASH_TASK_SAVE (ap_flash s))"
        using flash_inv_state(1) [OF w] by (simp add: flash_task_def)
      then show ?thesis
        by (intro that [of "ota_request (s\<lparr>ap_ota := fst ?r\<rparr>)"])
          (use True 4 in \<open>simp_all add: ota_event Let_def app_safe_def flash_task_def log_loaded_def\<close>)
    next
      case False
      show ?thesis
        by (rule that [of "s\<lparr>ap_ota := fst ?r\<rparr>"])
          (use False 4 i in \<open>simp_all add: ota_event Let_def app_safe_def flash_task_def\<close>)
    qed
  qed
qed

lemma app_safe_run:
  assumes c: "flash_chip_ok c"
  shows "app_safe s \<Longrightarrow> timely c dev es s \<Longrightarrow> \<exists>s'. app_run c dev es s = Some s' \<and> app_safe s' \<and>
    (\<forall>x. x < 0x3C000 \<or> 0x40000 \<le> x \<longrightarrow> FMEM (fl_dev (ap_flash s')) x = FMEM (fl_dev (ap_flash s)) x)"
proof (induction es arbitrary: s)
  case (Cons e es)
  then have "\<not> early_request e s" by simp
  then obtain u where u: "app_step c dev e s = Some u" "app_safe u"
    "\<And>x. x < 0x3C000 \<or> 0x40000 \<le> x \<Longrightarrow> FMEM (fl_dev (ap_flash u)) x = FMEM (fl_dev (ap_flash s)) x"
    using app_safe_step [OF c Cons.prems(1), of e dev] by blast
  then show ?case using Cons.IH [OF u(2)] Cons.prems(2) by auto
qed simp

text \<open>
  C23. The application never reaches the endless loop of a failed flash write and keeps the firmware image:
  every run of its tasks, timers and interrupts, in any order, from power-up over a well-formed log,
  with save requests of the system task and of the update link and new starts of the flash thread by the
  system task, returns; it leaves every byte of the flash outside 0x3C000 to 0x3FFFF as it was, and a
  well-formed log, from which the next power-up may start. The one thing asked of the run is that the
  handshake of the update link does not complete before the log has been read.
\<close>

theorem flash_thread_safe:
  assumes "flash_chip_ok c" "log_mem m n" "timely c dev es (app_init m)"
  shows "\<exists>s. app_run c dev es (app_init m) = Some s \<and> (\<exists>k. log_mem (FMEM (fl_dev (ap_flash s))) k) \<and>
    (\<forall>x. x < 0x3C000 \<or> 0x40000 \<le> x \<longrightarrow> FMEM (fl_dev (ap_flash s)) x = m x)"
proof -
  have "app_safe (app_init m)" using assms(2) by (auto simp: app_safe_def app_init_def flash_inv_def)
  from app_safe_run [OF assms(1) this assms(3)] show ?thesis
    by (auto simp: app_safe_def flash_inv_def app_init_def)
qed

text \<open>
  The condition is needed. The handshake that completes while the log is still being searched makes the
  flash thread save from the search position: the last slot, so the whole log is erased and
  zero hours and minutes are saved in its place.
\<close>

definition handshake :: "app_event list" where
  "handshake = [Ev_ota_irq (hand_frame 0), Ev_ota_rx, Ev_ota_irq (hand_frame 2), Ev_ota_rx]"

lemma handshake_run:
  assumes "ota_wf (ap_ota s)" "handshakes (ap_ota s) = First_Handshake"
  obtains l where "app_run c dev handshake s = Some (ota_request (s\<lparr>ap_ota := l\<rparr>))"
proof -
  let ?r1 = "OTA_vReceptionHandler_entry (app_Usart2RxIrqCallback (hand_frame 0) (ap_ota s))"
  let ?r2 = "OTA_vReceptionHandler_entry (app_Usart2RxIrqCallback (hand_frame 2) (fst ?r1))"
  have irq: "app_step c dev (Ev_ota_irq bs) u = Some (u\<lparr>ap_ota := app_Usart2RxIrqCallback bs (ap_ota u)\<rparr>)" for bs u
    by (simp add: app_step_def)
  note h = handshake_requests [OF assms]
  show ?thesis
    by (rule that [of "fst ?r2"]) (simp add: handshake_def irq ota_event Let_def h)
qed

theorem early_update_request_wipes_log:
  assumes c: "flash_chip_ok c"
  shows "\<exists>s. app_run c dev (Ev_flash # handshake @ [Ev_flash]) (app_init m) = Some s \<and> flash_task s = FLASH_TASK_SAVE_DONE \<and>
    slot_bytes (FMEM (fl_dev (ap_flash s))) 0 = log_record 0 1 0 0 \<and>
    (\<forall>k. 0 < k \<and> k < 1024 \<longrightarrow> erased (FMEM (fl_dev (ap_flash s))) (slot_addr k) 16)"
proof -
  define w where "w = (let v = set_state FLASH_TASK_INIT_DONE (power_on m) in v\<lparr>fl_info := at_pos 1023 (fl_info v)\<rparr>)"
  have w: "pos_ok (fl_info w)" "pos (fl_info w) = 1023" "FMEM (fl_dev w) = m" "fl_clk w = time_init" "ulWriteCounter (fl_info w) = 0"
    by (simp_all add: w_def Let_def set_state_def) (simp add: at_pos_def power_on_def flash_info_init_def)
  let ?s = "(app_init m)\<lparr>ap_flash := w\<rparr>"
  have 1: "app_step c dev Ev_flash (app_init m) = Some ?s"
    by (simp add: app_step_def app_init_def FLASH_vTaskHandler_Entry_def set_state_def at_pos_def w_def Let_def)
  have o: "ota_wf (ap_ota ?s)" "handshakes (ap_ota ?s) = First_Handshake"
    by (simp_all add: app_init_def ota_init_def ota_wf_def)
  obtain l where l: "app_run c dev handshake ?s = Some (ota_request (?s\<lparr>ap_ota := l\<rparr>))" by (rule handshake_run [OF o])
  obtain w' where w': "FLASH_vTaskHandler_Entry c (set_state FLASH_TASK_SAVE w) = Some w'"
    "fl_tTaskState (fl_info w') = FLASH_TASK_SAVE_DONE" "FMEM (fl_dev w') = saved_memory m 0 (log_record 0 1 0 0)"
    by (rule save_at_last [OF c, of "set_state FLASH_TASK_SAVE w"])
      (use w in \<open>simp_all add: set_state_def time_init_def\<close>)
  let ?u = "(ota_request (?s\<lparr>ap_ota := l\<rparr>))\<lparr>ap_flash := w'\<rparr>"
  have "app_run c dev (Ev_flash # handshake @ [Ev_flash]) (app_init m) = Some ?u"
    using w'(1) by (simp add: 1 app_run_append l) (simp add: app_step_def)
  moreover have "erased (saved_memory m 0 (log_record 0 1 0 0)) (slot_addr k) 16" if "0 < k" "k < 1024" for k
    using that by (intro erased_saved_other) simp_all
  ultimately show ?thesis
    using w'(2) slot_bytes_saved [of 0 "log_record 0 1 0 0" m] by (auto simp: flash_task_def w'(3))
qed

text \<open>
  Before the flash thread has run at all the position is that of slot 0, and the save goes to slot 1. When
  a log in its first round has a record there, the words that differ do not verify, and the flash thread
  loops for ever. The flash here clears bits as a NOR flash does.
\<close>

theorem early_update_request_hangs:
  assumes "slot_bytes m 1 = log_record 1 2 h t"
  shows "app_run nor_chip dev (handshake @ [Ev_flash]) (app_init m) = None"
proof -
  let ?s = "app_init m"
  have o: "ota_wf (ap_ota ?s)" "handshakes (ap_ota ?s) = First_Handshake"
    by (simp_all add: app_init_def ota_init_def ota_wf_def)
  obtain l where l: "app_run nor_chip dev handshake ?s = Some (ota_request (?s\<lparr>ap_ota := l\<rparr>))" by (rule handshake_run [OF o])
  have "FLASH_vTaskHandler_Entry nor_chip (set_state FLASH_TASK_SAVE (power_on m)) = None"
    using save_over_record [OF assms] by (simp add: FLASH_vTaskHandler_Entry_def)
  then have "app_step nor_chip dev Ev_flash (ota_request (?s\<lparr>ap_ota := l\<rparr>)) = None"
    by (simp add: app_step_def app_init_def)
  then show ?thesis by (simp add: app_run_append l)
qed

lemma timely_append:
  "timely c dev es s \<Longrightarrow> (\<And>s'. app_run c dev es s = Some s' \<Longrightarrow> timely c dev fs s') \<Longrightarrow> timely c dev (es @ fs) s"
  by (induction es arbitrary: s) (auto split: option.split)

lemma timely_quiet: "Ev_ota_rx \<notin> set es \<Longrightarrow> timely c dev es s"
  by (induction es arbitrary: s) (auto simp: early_request_def split: option.split)

lemma timely_link:
  "\<forall>e\<in>set es. e = Ev_ota_rx \<or> (\<exists>bs. e = Ev_ota_irq bs) \<Longrightarrow> log_loaded (flash_task s) \<Longrightarrow> timely c dev es s"
proof (induction es arbitrary: s)
  case (Cons e es)
  consider (rx) "e = Ev_ota_rx" | (irq) bs where "e = Ev_ota_irq bs" using Cons.prems(1) by auto
  then obtain s' where s': "app_step c dev e s = Some s'" "log_loaded (flash_task s')"
  proof cases
    case rx
    show ?thesis
      by (rule that [OF ota_event [of c dev s, folded rx]])
        (use Cons.prems(2) in \<open>simp add: Let_def flash_task_def log_loaded_def\<close>)
  next
    case irq
    show ?thesis
      by (rule that [of "s\<lparr>ap_ota := app_Usart2RxIrqCallback bs (ap_ota s)\<rparr>"])
        (use Cons.prems(2) irq in \<open>simp_all add: app_step_def flash_task_def\<close>)
  qed
  then show ?case using Cons by (simp add: early_request_def)
qed simp

section \<open>The off key\<close>

lemma idle_off:
  assumes "SysTaskState s = SYS_TASK_IDLE" "off_flag s = 1"
  shows "app_step c dev Ev_sys s = Some (request_close (sys_timers s))"
  using assms by (simp add: sys_round sys_switch_def)

lemma request_close_flash [simp]:
  "flash_task (request_close s) = FLASH_TASK_SAVE" "app_clock (request_close s) = app_clock s"
  by (simp_all add: flash_task_def app_clock_def)

lemma app_clock_sys_timers [simp]: "app_clock (sys_timers s) = app_clock s"
  by (simp add: app_clock_def)

text \<open>Reading the log again without a power cycle: the clock takes the logged hours.\<close>

lemma reload_run:
  assumes "flash_task s = FLASH_TASK_INIT" "log_mem (FMEM (fl_dev (ap_flash s))) (Suc k)"
    "slot_bytes (FMEM (fl_dev (ap_flash s))) k = log_record k a h t"
  shows "\<exists>n s'. app_run c dev (replicate n Ev_flash) s = Some s' \<and> flash_task s' = FLASH_TASK_READ_DONE \<and>
    systick_hrs (app_clock s') = h \<and> systick_min (app_clock s') = t"
proof -
  have k: "k < 1024" using assms(2) by (simp add: log_mem_def)
  let ?w = "boot_result (ap_flash s)"
  have "?w = load_at k (set_state FLASH_TASK_READ (ap_flash s))"
    using log_mem_last_record [OF assms(2)] by (simp add: boot_result_def Let_def)
  then have "fl_tTaskState (fl_info ?w) = FLASH_TASK_READ_DONE" "fl_clk ?w = loaded_clock h t (app_clock s)"
    using load_at_record [OF k, of "set_state FLASH_TASK_READ (ap_flash s)"] assms(3) by (simp_all add: app_clock_def)
  then show ?thesis
    using boot_thread [of "ap_flash s" c] assms(1)
    by (intro exI [of _ "boot_steps (FMEM (fl_dev (ap_flash s)))"] exI [of _ "s\<lparr>ap_flash := ?w\<rparr>"])
      (simp add: flash_run flash_task_def app_clock_def loaded_clock_def)
qed

text \<open>The round of the system task that finds the off key released in the closing state.\<close>

lemma released:
  assumes "SysTaskState s = SYS_TASK_CLOSE" "off_value p > 500"
  shows "\<exists>s'. app_run c dev [Ev_key p, Ev_sys] s = Some s' \<and> SysTaskState s' = SYS_TASK_INIT \<and>
    ap_flash s' = set_state FLASH_TASK_INIT (ap_flash s)"
proof -
  let ?s = "s\<lparr>ap_keys := Key_vTaskHandler_entry p (ap_keys s)\<rparr>"
  have "off_flag ?s = 0" using off_key_flag(2) [OF assms(2)] by (simp add: off_flag_def Key_ptGetInfo_def)
  then show ?thesis using assms(1)
    by (intro exI [of _ "sys_switch (sys_timers ?s)"])
      (simp add: key_event sys_round sys_switch_flow sys_switch_flash)
qed

text \<open>
  C38. A bounce of the off key loses the operating time of the session. The off key sits on an analog
  input without hysteresis; when it reads off in one scan and on in the next, the closing state is
  left and the flash thread is sent back to its start, whether or not it has served the save request
  (it looks at its state every 40 ms, the key is scanned every 5 ms). If it has not, the log is read
  again and the clock falls back to the last logged hours and minutes, whatever it showed; if it has,
  the clock keeps what it showed.
\<close>

theorem key_flicker_loses_hours:
  assumes "flash_chip_ok c" "app_reach c dev s" "SysTaskState s = SYS_TASK_IDLE" "off_flag s = 1" "off_value p > 500"
    and "log_mem (FMEM (fl_dev (ap_flash s))) (Suc k)" "slot_bytes (FMEM (fl_dev (ap_flash s))) k = log_record k a h t"
  shows "(\<exists>n s'. app_run c dev ([Ev_sys, Ev_key p, Ev_sys] @ replicate n Ev_flash) s = Some s' \<and>
      flash_task s' = FLASH_TASK_READ_DONE \<and> systick_hrs (app_clock s') = h \<and> systick_min (app_clock s') = t) \<and>
    (\<exists>n s'. app_run c dev ([Ev_sys, Ev_flash, Ev_key p, Ev_sys] @ replicate n Ev_flash) s = Some s' \<and>
      flash_task s' = FLASH_TASK_READ_DONE \<and> systick_hrs (app_clock s') = systick_hrs (app_clock s) \<and>
      systick_min (app_clock s') = systick_min (app_clock s))"
proof (intro conjI)
  let ?s = "request_close (sys_timers s)"
  note first = idle_off [OF assms(3,4), of c dev]
  have go: "\<exists>n s'. app_run c dev (es @ replicate n Ev_flash) s = Some s' \<and> flash_task s' = FLASH_TASK_READ_DONE \<and>
      systick_hrs (app_clock s') = h' \<and> systick_min (app_clock s') = t'"
    if "app_run c dev es s = Some r" "flash_task r = FLASH_TASK_INIT" "log_mem (FMEM (fl_dev (ap_flash r))) (Suc k')"
      "slot_bytes (FMEM (fl_dev (ap_flash r))) k' = log_record k' a' h' t'" for es r k' a' h' t'
    using reload_run [OF that(2-4), of c dev] that(1) by (auto simp: app_run_append)
  obtain s1 where s1: "app_run c dev [Ev_key p, Ev_sys] ?s = Some s1"
      "ap_flash s1 = set_state FLASH_TASK_INIT (ap_flash ?s)"
    using released [OF _ assms(5), of ?s c dev] by auto
  show "\<exists>n s'. app_run c dev ([Ev_sys, Ev_key p, Ev_sys] @ replicate n Ev_flash) s = Some s' \<and>
      flash_task s' = FLASH_TASK_READ_DONE \<and> systick_hrs (app_clock s') = h \<and> systick_min (app_clock s') = t"
    by (rule go [where r = s1]) (use s1 first assms(6,7) in \<open>simp_all add: flash_task_def\<close>)
  have "log_loaded (flash_task s)" "flash_inv (ap_flash s)"
    using app_reach_inv [OF assms(2,1)] assms(3) by (auto simp: app_inv_def)
  then have "flash_inv (ap_flash ?s)" using flash_inv_state(1) [of "ap_flash s"] by (simp add: flash_task_def)
  then obtain w n b where w: "app_step c dev Ev_flash ?s = Some (?s\<lparr>ap_flash := w\<rparr>)" "log_mem (FMEM (fl_dev w)) (Suc n)"
    "slot_bytes (FMEM (fl_dev w)) n = log_record n b (systick_hrs (app_clock s)) (systick_min (app_clock s))"
    by (rule save_event [OF assms(1), of ?s dev]) simp_all
  obtain s2 where s2: "app_run c dev [Ev_key p, Ev_sys] (?s\<lparr>ap_flash := w\<rparr>) = Some s2"
      "ap_flash s2 = set_state FLASH_TASK_INIT w"
    using released [OF _ assms(5), of "?s\<lparr>ap_flash := w\<rparr>" c dev] by auto
  show "\<exists>n s'. app_run c dev ([Ev_sys, Ev_flash, Ev_key p, Ev_sys] @ replicate n Ev_flash) s = Some s' \<and>
      flash_task s' = FLASH_TASK_READ_DONE \<and> systick_hrs (app_clock s') = systick_hrs (app_clock s) \<and>
      systick_min (app_clock s') = systick_min (app_clock s)"
    by (rule go [where r = s2]) (use s2 first w in \<open>simp_all add: flash_task_def\<close>)
qed
section \<open>Concrete runs\<close>

text \<open>Power-on, the start-up of the display, the search of the log, \<open>j\<close> seconds, and the off key.\<close>

definition off_pins :: pins where
  "off_pins = \<lparr>pin_B3 = (True, True), pin_A2 = (True, True), pin_A1 = (True, True), pin_hand1 = (True, True),
     pin_hand2 = (True, True), off_value = 0\<rparr>"

lemma seconds_run:
  "app_run c dev (replicate j Ev_second) s = Some (set_clock ((one_msecond_timeout ^^ j) (app_clock s)) s)"
  by (induction j arbitrary: s) (simp_all add: app_step_def set_clock_def app_clock_def funpow_swap1)

lemma boot_result_fields:
  assumes "log_mem m n"
  shows "fl_tTaskState (fl_info (boot_result (power_on m))) = FLASH_TASK_READ_DONE"
    "FMEM (fl_dev (boot_result (power_on m))) = m"
  by (simp_all add: boot_result_def Let_def load_at_fields load_none_fields split: option.split)

lemma off_key_reachable:
  assumes "log_mem m n"
  obtains s where "app_reach c dev s" "SysTaskState s = SYS_TASK_IDLE" "off_flag s = 1" "power_enabled s"
    "timers_wf (app_timers s)" "FMEM (fl_dev (ap_flash s)) = m"
    "app_clock s = (one_msecond_timeout ^^ j) (fl_clk (boot_result (power_on m)))"
proof -
  let ?d = "Display_vTaskHandler_entry dev time_init 0 0 display_init"
  let ?w = "boot_result (power_on m)"
  let ?w' = "?w\<lparr>fl_clk := (one_msecond_timeout ^^ j) (fl_clk ?w)\<rparr>"
  let ?a = "(app_init m)\<lparr>ap_display := ?d\<rparr>" and ?b = "(app_init m)\<lparr>ap_display := ?d, ap_flash := ?w'\<rparr>"
  have d: "dp_tTaskState (DisplayTaskState ?d) = DISPLAY_TASK_INIT_DONE" "timers_wf (dp_timers ?d)"
    by (rule display_boot; simp add: display_init_def timers_wf_def timers_init_def)+
  note w = boot_result_fields [OF assms]
  have "app_run c dev [Ev_display 0] (app_init m) = Some ?a"
    by (simp add: app_step_def app_clock_def app_init_def)
  moreover have "app_run c dev (replicate (boot_steps m) Ev_flash) ?a = Some ((app_init m)\<lparr>ap_display := ?d, ap_flash := ?w\<rparr>)"
    using boot_thread [of "power_on m" c] by (simp add: flash_run app_init_def)
  moreover have "app_run c dev (replicate j Ev_second) ((app_init m)\<lparr>ap_display := ?d, ap_flash := ?w\<rparr>) = Some ?b"
    by (simp add: seconds_run set_clock_def app_clock_def app_init_def)
  ultimately have run: "app_run c dev ([Ev_display 0] @ replicate (boot_steps m) Ev_flash @ replicate j Ev_second) (app_init m) = Some ?b"
    by (simp only: app_run_append bind.bind_lunit)
  let ?c = "sys_switch (sys_timers ?b)"
  let ?e = "sys_switch (sys_timers ?c)"
  let ?s = "?e\<lparr>ap_keys := Key_vTaskHandler_entry off_pins (ap_keys ?e)\<rparr>"
  have dt: "display_task (sys_timers ?b) = DISPLAY_TASK_INIT_DONE" "timers_wf (app_timers (sys_timers ?b))"
    using d sys_timers_wf [of ?b] by (simp_all add: sys_timers_def Let_def display_task_def Display_ptGetInfo_def
        sys_timer_def start_timer_def send_report_def)
  have c: "?c = App_Task SYS_TASK_START ((sys_timers ?b)\<lparr>brush_enabled := True, suction_enabled := True, power_enabled := True\<rparr>)"
    using dt(1) w(1) by (simp add: sys_switch_def Let_def app_init_def display_task_def flash_task_def)
  have c': "SysTaskState ?c = SYS_TASK_START" "power_enabled ?c" "timers_wf (app_timers ?c)" "ap_flash ?c = ?w'"
    using dt(2) by (simp_all add: c App_Task_def)
  have e: "?e = App_Task SYS_TASK_IDLE (set_display DISPLAY_TASK_START_UP (sys_timers ?c))"
    using c'(1) by (simp add: sys_switch_def)
  have e': "SysTaskState ?e = SYS_TASK_IDLE" "power_enabled ?e" "timers_wf (app_timers ?e)" "ap_flash ?e = ?w'"
    using c' sys_timers_wf [of ?c] by (simp_all add: e)
  show ?thesis
  proof (rule that)
    have "app_reach c dev ?b" using app_reach_run [OF app_reach.boot [OF assms] run] .
    then show "app_reach c dev ?s"
      by (rule app_reach_run [of _ _ _ "[Ev_sys, Ev_sys, Ev_key off_pins]"]) (simp add: sys_round key_event)
    show "off_flag ?s = 1"
      using off_key_flag(1) [of off_pins] by (simp add: off_flag_def Key_ptGetInfo_def off_pins_def)
  qed (use e' w(2) in \<open>simp_all add: app_clock_def\<close>)
qed

lemma close_cuts:
  assumes "SysTaskState s = SYS_TASK_CLOSE" "flash_task s = FLASH_TASK_SAVE_DONE" "expired TMR_SYS_CLOSE_DELAY s"
  shows "\<not> power_enabled (sys_switch (sys_timers s))"
proof -
  have "expired i (set_display st x) = expired i x" "flash_task (set_display st x) = flash_task x" for i st x
    by (simp_all add: expired_def flash_task_def)
  then show ?thesis using assms by (simp add: sys_switch_def Let_def sys_timers_close_delay)
qed

text \<open>From there the closing runs to its end: the save, 1.5 s, and the cut.\<close>

lemma cut_reachable:
  assumes "flash_chip_ok c" "app_reach c dev s" "SysTaskState s = SYS_TASK_IDLE" "off_flag s = 1" "power_enabled s"
    "timers_wf (app_timers s)"
  obtains s1 s2 where "app_reach c dev s1" "app_step c dev Ev_sys s1 = Some s2" "power_enabled s1" "\<not> power_enabled s2"
proof -
  let ?s = "request_close (sys_timers s)"
  have 1: "app_run c dev [Ev_sys] s = Some ?s" using idle_off [OF assms(3,4)] by simp
  have "flash_inv (ap_flash ?s)"
    using app_reach_inv [OF app_reach_run [OF assms(2) 1] assms(1)] by (simp add: app_inv_def)
  then obtain w where w: "app_step c dev Ev_flash ?s = Some (?s\<lparr>ap_flash := w\<rparr>)"
      "fl_tTaskState (fl_info w) = FLASH_TASK_SAVE_DONE"
    by (rule save_event [OF assms(1), of ?s dev]) simp_all
  obtain s1 t where s1: "app_run c dev (replicate 15 Ev_tick) (?s\<lparr>ap_flash := w\<rparr>) = Some s1"
      "SysTaskState s1 = SYS_TASK_CLOSE" "ap_flash s1 = w\<lparr>fl_clk := t\<rparr>" "power_enabled s1"
      "app_timers s1 = (TMR_vTickUpdate ^^ 15) (app_timers ?s)"
    using tick_run [of c dev 15 "?s\<lparr>ap_flash := w\<rparr>"] assms(5) by auto
  have "app_timers ?s = TMR_vSetTime_100msValue (app_timers (sys_timers s)) TMR_SYS_CLOSE_DELAY 15"
    by (simp add: request_close_def)
  then have "expired TMR_SYS_CLOSE_DELAY s1"
    using app_tmr.expires_exactly [OF sys_timers_wf [OF assms(6)], of 15 TMR_SYS_CLOSE_DELAY 15]
    by (simp add: expired_def s1(5))
  moreover have "app_run c dev ([Ev_sys] @ [Ev_flash] @ replicate 15 Ev_tick) s = Some s1"
    using 1 w(1) s1(1) by (simp only: app_run_append) simp
  ultimately have "app_reach c dev s1" "\<not> power_enabled (sys_switch (sys_timers s1))"
    using app_reach_run [OF assms(2)] close_cuts [of s1] s1(2,3) w(2) by (blast, simp add: flash_task_def)
  then show ?thesis using s1(4) by (intro that [of s1 "sys_switch (sys_timers s1)"]) (simp_all add: sys_round)
qed

text \<open>Power-up over an empty log, its search, the handshake and the save it requests.\<close>

theorem flash_thread_safe_witness:
  "\<exists>s. app_run nor_chip example_dev (replicate (boot_steps (\<lambda>_. 255)) Ev_flash @ handshake @ [Ev_flash]) (app_init (\<lambda>_. 255)) = Some s \<and>
    FMEM (fl_dev (ap_flash s)) 0x8000 = 255"
proof -
  let ?m = "\<lambda>_. 255 :: u8"
  have "timely nor_chip example_dev (replicate (boot_steps ?m) Ev_flash @ handshake @ [Ev_flash]) (app_init ?m)"
  proof (intro timely_append)
    fix s' assume "app_run nor_chip example_dev (replicate (boot_steps ?m) Ev_flash) (app_init ?m) = Some s'"
    then have "ap_flash s' = boot_result (power_on ?m)"
      using boot_thread [of "power_on ?m" nor_chip] by (auto simp: flash_run app_init_def)
    then show "timely nor_chip example_dev handshake s'"
      using boot_result_fields(1) [OF log_mem_blank] by (intro timely_link) (auto simp: handshake_def log_loaded_def flash_task_def)
  qed (auto intro: timely_quiet simp del: timely.simps)
  from flash_thread_safe [OF nor_chip_ok log_mem_blank this] show ?thesis by auto
qed

theorem power_cut_after_save_witness:
  "\<exists>m es s s' as bs u n w. app_run nor_chip example_dev es (app_init m) = Some s \<and>
     app_step nor_chip example_dev Ev_sys s = Some s' \<and> power_enabled s \<and> \<not> power_enabled s' \<and>
     es = as @ Ev_flash # bs \<and> app_run nor_chip example_dev as (app_init m) = Some u \<and> flash_task u = FLASH_TASK_SAVE \<and>
     flash_thread nor_chip n (power_cycle (ap_flash s')) = Some w \<and> systick_min (fl_clk w) = systick_min (app_clock u)"
proof -
  obtain s where "app_reach nor_chip example_dev s" "SysTaskState s = SYS_TASK_IDLE" "off_flag s = 1" "power_enabled s"
    "timers_wf (app_timers s)"
    by (rule off_key_reachable [OF log_mem_blank])
  then obtain s1 s2 where s1: "app_reach nor_chip example_dev s1" "app_step nor_chip example_dev Ev_sys s1 = Some s2"
    "power_enabled s1" "\<not> power_enabled s2"
    by (rule cut_reachable [OF nor_chip_ok])
  obtain m n es where m: "log_mem m n" "app_run nor_chip example_dev es (app_init m) = Some s1"
    by (rule app_reach_runs [OF s1(1)])
  show ?thesis using power_cut_after_save [OF nor_chip_ok m s1(2-4)] m(2) s1(2-4) by blast
qed

text \<open>
  A machine with 100 hours and 20 minutes in its log runs for an hour; then the off key bounces.
\<close>

theorem key_flicker_loses_hours_witness:
  "\<exists>s n s' n' s''. app_reach nor_chip example_dev s \<and> systick_min (app_clock s) = 21 \<and>
     app_run nor_chip example_dev ([Ev_sys, Ev_key (off_pins\<lparr>off_value := 600\<rparr>), Ev_sys] @ replicate n Ev_flash) s = Some s' \<and>
     systick_min (app_clock s') = 20 \<and>
     app_run nor_chip example_dev ([Ev_sys, Ev_flash, Ev_key (off_pins\<lparr>off_value := 600\<rparr>), Ev_sys] @ replicate n' Ev_flash) s = Some s'' \<and>
     systick_min (app_clock s'') = 21"
proof -
  let ?r = "log_record 0 1 100 20"
  let ?m = "saved_memory (\<lambda>_. 255) 0 ?r"
  have m: "log_mem ?m (Suc 0)" "slot_bytes ?m 0 = ?r"
    using log_mem_saved [OF log_mem_blank, of 0] slot_bytes_saved [of 0 ?r] by (simp_all add: next_slot_def)
  obtain s where s: "app_reach nor_chip example_dev s" "SysTaskState s = SYS_TASK_IDLE" "off_flag s = 1"
    "FMEM (fl_dev (ap_flash s)) = ?m" "app_clock s = (one_msecond_timeout ^^ 60) (fl_clk (boot_result (power_on ?m)))"
    by (rule off_key_reachable [OF m(1)])
  have "fl_clk (boot_result (power_on ?m)) = loaded_clock 100 20 time_init"
    using boot_result_record(2) [of ?m "Suc 0"] m by simp
  moreover have "systick_min ((one_msecond_timeout ^^ 60) (loaded_clock 100 20 time_init)) = 21"
    using minute_completes [of "loaded_clock 100 20 time_init"] by (simp add: loaded_clock_def time_init_def)
  ultimately have t: "systick_min (app_clock s) = 21" using s(5) by simp
  have p: "500 < off_value (off_pins\<lparr>off_value := 600\<rparr>)" by simp
  note k = key_flicker_loses_hours [OF nor_chip_ok s(1-3) p, of 0 1 100 20, unfolded s(4), OF m, unfolded t]
  then show ?thesis using s(1) t by blast
qed

end
