(* ===== verification/AdcPins.thy ===== *)
theory AdcPins
  imports Prelude
begin

text \<open>
  The analog pins: the channel-to-pin multiplexer of the converters (\<open>ADC_ChannelRemap\<close> and
  \<open>ADC_GetChannelPinNum\<close> of the driver library) and the functions of \<open>adc.c\<close> that switch the pins of
  the used channels to analog mode. The calls of \<open>PORT_Init\<close> are collected in a list. The theory
  shows that a remapped channel is read back, that other channels keep their pin, and which four
  pins the configuration makes analog.
\<close>

section \<open>Channel multiplexer\<close>

datatype adc_unit = M4_ADC1 | M4_ADC2

text \<open>The registers \<open>CHMUXR0\<close> to \<open>CHMUXR3\<close> of both units, four bits per channel.\<close>

type_synonym mux = "adc_unit \<Rightarrow> u16 list"

abbreviation (input) ADC1_PIN_MASK_ALL :: u32 where "ADC1_PIN_MASK_ALL \<equiv> 0xFFFF"
abbreviation (input) ADC2_PIN_MASK_ALL :: u32 where "ADC2_PIN_MASK_ALL \<equiv> 0xFF"

text \<open>The loops over the set bits of a channel mask, lowest first, with the 8-bit channel index.\<close>

function each_channel :: "(u8 \<Rightarrow> 's \<Rightarrow> 's) \<Rightarrow> u32 \<Rightarrow> u8 \<Rightarrow> 's \<Rightarrow> 's" where
  "each_channel f ch i s =
     (if ch = 0 then s else each_channel f (drop_bit 1 ch) (i + 1) (if ch AND 1 \<noteq> 0 then f i s else s))"
  by pat_completeness auto

lemma unat_drop_less: "ch \<noteq> 0 \<Longrightarrow> unat (drop_bit 1 (ch :: u32)) < unat ch"
  using unat_drop [of 1 ch] by (simp add: unat_gt_0)

termination each_channel
  by (relation "measure (\<lambda>(f, ch, i, s). unat ch)") (use unat_drop_less in auto)

declare each_channel.simps [simp del]

definition set_mux :: "u16 \<Rightarrow> u8 \<Rightarrow> u16 list \<Rightarrow> u16 list" where
  "set_mux pin i regs =
     (let r = unat i div 4; p = (unat i mod 4) * 4; w = regs ! r AND NOT (push_bit p 0xF)
      in regs[r := w OR push_bit p pin])"

text \<open>\<open>None\<close> is \<open>ErrorInvalidParameter\<close>: nothing is written.\<close>

definition ADC_ChannelRemap :: "adc_unit \<Rightarrow> u32 \<Rightarrow> u8 \<Rightarrow> mux \<Rightarrow> mux option" where
  "ADC_ChannelRemap u ch pin m = (case u of
     M4_ADC1 \<Rightarrow> if pin \<le> 15
       then Some (m(u := each_channel (set_mux (ucast pin)) (ch AND ADC1_PIN_MASK_ALL) 0 (m u))) else None
   | M4_ADC2 \<Rightarrow> if pin > 4 \<and> pin < 11
       then Some (m(u := each_channel (set_mux (ucast pin - 4)) (ch AND ADC2_PIN_MASK_ALL) 0 (m u))) else None)"

definition ADC_GetChannelPinNum :: "adc_unit \<Rightarrow> mux \<Rightarrow> u8 \<Rightarrow> u8" where
  "ADC_GetChannelPinNum u m i =
     ucast (drop_bit ((unat i mod 4) * 4) (m u ! (unat i div 4)) AND 0xF)
       + (case u of M4_ADC1 \<Rightarrow> 0 | M4_ADC2 \<Rightarrow> 4)"

section \<open>Pin modes\<close>

datatype en_port = PortA | PortB | PortC
datatype en_pin_mode = Pin_Mode_Ana | Pin_Mode_In

type_synonym port_init = "en_port \<times> nat \<times> en_pin_mode"

definition AdcSetPinMode :: "u8 \<Rightarrow> en_pin_mode \<Rightarrow> port_init list \<Rightarrow> port_init list" where
  "AdcSetPinMode pin mode calls =
     (if pin = 0 then calls @ [(PortA, 0, mode)]
      else if pin = 1 then calls @ [(PortA, 1, mode)]
      else if pin = 2 then calls @ [(PortA, 2, mode)]
      else if pin = 3 then calls @ [(PortA, 3, mode)]
      else if pin = 4 then calls @ [(PortA, 4, mode)]
      else if pin = 5 then calls @ [(PortA, 5, mode)]
      else if pin = 6 then calls @ [(PortA, 6, mode)]
      else if pin = 7 then calls @ [(PortA, 7, mode)]
      else if pin = 8 then calls @ [(PortB, 0, mode)]
      else if pin = 9 then calls @ [(PortB, 1, mode)]
      else if pin = 10 then calls @ [(PortC, 0, mode)]
      else if pin = 11 then calls @ [(PortC, 1, mode)]
      else if pin = 12 then calls @ [(PortC, 2, mode)]
      else if pin = 13 then calls @ [(PortC, 3, mode)]
      else if pin = 14 then calls @ [(PortC, 4, mode)]
      else if pin = 15 then calls @ [(PortC, 5, mode)]
      else calls)"

definition AdcSetChannelPinMode ::
    "mux \<Rightarrow> adc_unit \<Rightarrow> u32 \<Rightarrow> en_pin_mode \<Rightarrow> port_init list \<Rightarrow> port_init list" where
  "AdcSetChannelPinMode m u ch mode calls =
     each_channel (\<lambda>i. AdcSetPinMode (ADC_GetChannelPinNum u m i) mode)
       (ch AND (case u of M4_ADC1 \<Rightarrow> ADC1_PIN_MASK_ALL | M4_ADC2 \<Rightarrow> ADC2_PIN_MASK_ALL)) 0 calls"

text \<open>The part of \<open>AdcChannelConfig\<close> that selects the pins; an invalid remapping leaves the registers.\<close>

definition remap :: "adc_unit \<Rightarrow> u32 \<Rightarrow> u8 \<Rightarrow> mux \<Rightarrow> mux" where
  "remap u ch pin m = (case ADC_ChannelRemap u ch pin m of Some m' \<Rightarrow> m' | None \<Rightarrow> m)"

definition AdcChannelConfig :: "mux \<Rightarrow> mux \<times> port_init list" where
  "AdcChannelConfig m =
     (let m = remap M4_ADC1 1 14 m; m = remap M4_ADC1 2 15 m;
        m = remap M4_ADC2 1 6 m; m = remap M4_ADC2 2 9 m;
        calls = AdcSetChannelPinMode m M4_ADC1 3 Pin_Mode_Ana [];
        calls = AdcSetChannelPinMode m M4_ADC2 3 Pin_Mode_Ana calls
      in (m, calls))"

section \<open>The configured pins\<close>

lemma each_channel_steps:
  "each_channel f 1 i s = f i s" "each_channel f 2 i s = f (i + 1) s" "each_channel f 3 i s = f (i + 1) (f i s)"
  by (simp_all add: each_channel.simps)

text \<open>Setting the four bits of one channel, and reading them or those of another channel.\<close>

lemma nibble_mask: "(0xF :: u16) = mask 4"
  by (simp add: mask_eq_exp_minus_1)

lemma nibble_same:
  assumes "\<And>n. bit (pin :: u16) n \<Longrightarrow> n < 4" "p \<le> 12"
  shows "drop_bit p ((w AND NOT (push_bit p 0xF)) OR push_bit p pin) AND 0xF = pin"
proof (rule bit_word_eqI)
  fix n assume "n < LENGTH(16)"
  then show "bit (drop_bit p ((w AND NOT (push_bit p 0xF)) OR push_bit p pin) AND 0xF) n = bit pin n"
    using assms(1) [of n] assms(2) unfolding nibble_mask
    by (cases "n < 4") (auto simp: bit_simps)
qed

lemma nibble_other:
  assumes "\<And>n. bit (pin :: u16) n \<Longrightarrow> n < 4" "p + 4 \<le> q \<or> q + 4 \<le> p" "q \<le> 12"
  shows "drop_bit q ((w AND NOT (push_bit p 0xF)) OR push_bit p pin) AND 0xF = drop_bit q w AND 0xF"
proof (rule bit_word_eqI)
  fix n assume "n < LENGTH(16)"
  then show "bit (drop_bit q ((w AND NOT (push_bit p 0xF)) OR push_bit p pin) AND 0xF) n
      = bit (drop_bit q w AND 0xF) n"
    using assms(1) [of "q + n - p"] assms(2,3) unfolding nibble_mask
    by (cases "n < 4") (auto simp: bit_simps)
qed

lemma small_pin_bits: "pin \<le> 15 \<Longrightarrow> bit (pin :: u16) n \<Longrightarrow> n < 4"
proof -
  assume "pin \<le> 15" "bit pin n"
  then have "unat pin < 2 ^ 4" by (simp add: word_le_nat_alt)
  then have "take_bit 4 pin = pin" by (simp add: word_unat_eq_iff unsigned_take_bit_eq take_bit_nat_eq_self)
  then show "n < 4" using \<open>bit pin n\<close> by (metis bit_take_bit_iff)
qed

definition channel_pin :: "u16 list \<Rightarrow> u8 \<Rightarrow> u16" where
  "channel_pin regs i = drop_bit ((unat i mod 4) * 4) (regs ! (unat i div 4)) AND 0xF"

lemma channel_pin_same:
  assumes "pin \<le> 15" "unat i < 16" "length regs = 4"
  shows "channel_pin (set_mux pin i regs) i = pin"
proof -
  have "unat i div 4 < 4" "unat i mod 4 * 4 \<le> 12" using assms(2) by auto
  then show ?thesis
    unfolding channel_pin_def set_mux_def Let_def using assms(3) nibble_same [OF small_pin_bits [OF assms(1)]] by simp
qed

lemma channel_pin_other:
  assumes "pin \<le> 15" "unat i < 16" "i \<noteq> j" "length regs = 4"
  shows "channel_pin (set_mux pin i regs) j = channel_pin regs j"
proof (cases "unat i div 4 = unat j div 4")
  case True
  have "unat i \<noteq> unat j" using assms(3) by (simp add: word_unat_eq_iff)
  then have "unat i mod 4 \<noteq> unat j mod 4" using True by (metis div_mult_mod_eq)
  then have "unat i mod 4 * 4 + 4 \<le> unat j mod 4 * 4 \<or> unat j mod 4 * 4 + 4 \<le> unat i mod 4 * 4" by linarith
  moreover have "unat j mod 4 * 4 \<le> 12" "unat j div 4 < 4" using assms(2) True by auto
  ultimately show ?thesis
    unfolding channel_pin_def set_mux_def Let_def
    using True assms(4) nibble_other [OF small_pin_bits [OF assms(1)]] by simp
next
  case False
  then show ?thesis by (simp add: channel_pin_def set_mux_def Let_def)
qed

lemma length_set_mux [simp]: "length (set_mux pin i regs) = length regs"
  by (simp add: set_mux_def Let_def)

lemma ADC_GetChannelPinNum_channel_pin:
  "ADC_GetChannelPinNum u m i = ucast (channel_pin (m u) i) + (case u of M4_ADC1 \<Rightarrow> 0 | M4_ADC2 \<Rightarrow> 4)"
  by (simp add: ADC_GetChannelPinNum_def channel_pin_def)

text \<open>
  The configuration makes exactly the pins PC4, PC5 (motor currents), PA6 and PB1 (supply, reserve)
  analog, whatever the multiplexer held before.
\<close>

lemma configured_pins:
  assumes "length (m M4_ADC1) = 4" "length (m M4_ADC2) = 4"
  shows "snd (AdcChannelConfig m) =
    [(PortC, 4, Pin_Mode_Ana), (PortC, 5, Pin_Mode_Ana), (PortA, 6, Pin_Mode_Ana), (PortB, 1, Pin_Mode_Ana)]"
proof -
  have m1: "fst (AdcChannelConfig m) M4_ADC1 = set_mux 15 1 (set_mux 14 0 (m M4_ADC1))"
    and m2: "fst (AdcChannelConfig m) M4_ADC2 = set_mux 5 1 (set_mux 2 0 (m M4_ADC2))"
    by (simp_all add: AdcChannelConfig_def Let_def remap_def ADC_ChannelRemap_def each_channel_steps)
  let ?p = "\<lambda>u. ADC_GetChannelPinNum u (fst (AdcChannelConfig m))"
  have p: "?p M4_ADC1 0 = 14" "?p M4_ADC1 1 = 15" "?p M4_ADC2 0 = 6" "?p M4_ADC2 1 = 9"
    using assms by (simp_all add: ADC_GetChannelPinNum_channel_pin m1 m2 channel_pin_same channel_pin_other)
  have "snd (AdcChannelConfig m) =
      (let calls = AdcSetChannelPinMode (fst (AdcChannelConfig m)) M4_ADC1 3 Pin_Mode_Ana []
       in AdcSetChannelPinMode (fst (AdcChannelConfig m)) M4_ADC2 3 Pin_Mode_Ana calls)"
    by (simp add: AdcChannelConfig_def Let_def)
  then show ?thesis
    by (simp add: AdcSetChannelPinMode_def each_channel_steps p AdcSetPinMode_def)
qed

text \<open>The driver rejects the pins 4 and 11 for the second unit, although they exist there.\<close>

lemma remap_rejects_outer_pins:
  "ADC_ChannelRemap M4_ADC2 ch 4 m = None" "ADC_ChannelRemap M4_ADC2 ch 11 m = None"
  by (simp_all add: ADC_ChannelRemap_def)

end
