(* ===== verification/Crc.thy ===== *)
theory Crc
  imports Prelude
begin

text \<open>
  The table-driven checksums of the bootloader: \<open>CRC16\<close> with \<open>ccitt_table\<close> of ymodem_ota.c and
  \<open>CRC_vROMCalculateCRC\<close> with \<open>CRC_ulCRCTable\<close> of crc.c. The reference is the bitwise shift register
  of the generator polynomial (0x1021 and 0x04C11DB7). The locale \<open>crc_table\<close> holds for every table
  that lists the register's values for the 256 bytes; it is interpreted on both tables.
\<close>

section \<open>The shift register\<close>

definition shl1 :: "'w::len word \<Rightarrow> 'w word" where
  "shl1 c = push_bit 1 c"

definition crc_shift :: "'w::len word \<Rightarrow> 'w word \<Rightarrow> 'w word" where
  "crc_shift p c = (if bit c (LENGTH('w) - 1) then shl1 c XOR p else shl1 c)"

primrec crc_bits :: "'w::len word \<Rightarrow> nat \<Rightarrow> 'w word \<Rightarrow> 'w word" where
  "crc_bits p 0 c = c"
| "crc_bits p (Suc k) c = crc_bits p k (crc_shift p c)"

definition crc_byte :: "'w::len word \<Rightarrow> 'w word \<Rightarrow> u8 \<Rightarrow> 'w word" where
  "crc_byte p c b = crc_bits p 8 (c XOR push_bit (LENGTH('w) - 8) (ucast b))"

definition crc_spec :: "'w::len word \<Rightarrow> 'w word \<Rightarrow> bytes \<Rightarrow> 'w word" where
  "crc_spec p c bs = foldl (crc_byte p) c bs"

lemma bit_shl1: "bit (shl1 (c :: 'w::len word)) n \<longleftrightarrow> 0 < n \<and> n < LENGTH('w) \<and> bit c (n - 1)"
  unfolding shl1_def by (auto simp only: bit_push_bit_iff) auto

lemma shl1_xor: "shl1 (c XOR d) = shl1 c XOR shl1 d"
  by (rule bit_word_eqI) (auto simp: bit_shl1 bit_xor_iff)

lemma shl1_0 [simp]: "shl1 0 = 0"
  by (simp add: shl1_def)

lemma push_bit_shl1: "push_bit k (shl1 c) = push_bit (Suc k) c"
  unfolding shl1_def by (simp only: push_bit_push_bit) simp

text \<open>The register is linear.\<close>

lemma crc_shift_xor:
  fixes c :: "'w::len word"
  shows "crc_shift p (c XOR d) = crc_shift p c XOR crc_shift p d"
  by (rule bit_word_eqI) (auto simp: crc_shift_def shl1_xor bit_xor_iff)

lemma crc_bits_xor: "crc_bits p k (c XOR d) = crc_bits p k c XOR crc_bits p k d"
  by (induction k arbitrary: c d) (simp_all add: crc_shift_xor)

lemma crc_shift_0 [simp]: "crc_shift p 0 = 0"
  by (simp add: crc_shift_def)

lemma crc_bits_0 [simp]: "crc_bits p k 0 = 0"
  by (induction k) simp_all

lemma crc_bits_low:
  fixes c :: "'w::len word"
  assumes "k \<le> LENGTH('w)" "\<And>i. LENGTH('w) - k \<le> i \<Longrightarrow> \<not> bit c i"
  shows "crc_bits p k c = push_bit k c"
  using assms
proof (induction k arbitrary: c)
  case (Suc k)
  have "\<not> bit c (LENGTH('w) - 1)" using Suc.prems by auto
  then have s: "crc_shift p c = shl1 c" by (simp add: crc_shift_def)
  have "\<not> bit (shl1 c) i" if "LENGTH('w) - k \<le> i" for i
    using that Suc.prems by (auto simp: bit_shl1)
  with Suc.IH [of "shl1 c"] Suc.prems(1) s show ?case by (simp only: crc_bits.simps push_bit_shl1) simp
qed simp

lemma xor_0_eq: "(c :: 'w::len word) XOR d = 0 \<Longrightarrow> c = d"
  by (metis xor.assoc xor.left_neutral xor.right_neutral xor_self_eq)

text \<open>With an odd polynomial the register loses no information.\<close>

lemma crc_shift_eq_0:
  fixes p :: "'w::len word"
  assumes "bit p 0" "crc_shift p c = 0"
  shows "c = 0"
proof (cases "bit c (LENGTH('w) - 1)")
  case True
  then have "shl1 c XOR p = 0" using assms(2) by (simp add: crc_shift_def)
  then have "bit (shl1 c XOR p) 0 = False" by simp
  then show ?thesis using assms(1) by (simp add: bit_xor_iff bit_shl1)
next
  case False
  then have z: "shl1 c = 0" using assms(2) by (simp add: crc_shift_def)
  show ?thesis
  proof (rule bit_word_eqI)
    fix n assume n: "n < LENGTH('w)"
    show "bit c n = bit (0 :: 'w word) n"
    proof (cases "n = LENGTH('w) - 1")
      case False
      with n have "Suc n < LENGTH('w)" by linarith
      then have "bit (shl1 c) (Suc n) = bit c n" by (simp add: bit_shl1)
      then show ?thesis by (simp add: z)
    qed (use False in simp)
  qed
qed

lemma crc_bits_eq_0: "bit p 0 \<Longrightarrow> crc_bits p k c = 0 \<Longrightarrow> c = 0"
  by (induction k arbitrary: c) (auto dest: crc_shift_eq_0)

section \<open>Table-driven computation\<close>

locale crc_table =
  fixes poly :: "'w::len word" and tab :: "'w word list"
  assumes byte_wide: "8 \<le> LENGTH('w)"
    and tab: "i < 256 \<Longrightarrow> tab ! i = crc_bits poly 8 (push_bit (LENGTH('w) - 8) (of_nat i))"
begin

text \<open>One step of the table-driven loop.\<close>

definition step :: "'w word \<Rightarrow> u8 \<Rightarrow> 'w word" where
  "step c b = push_bit 8 c XOR tab ! unat ((ucast (drop_bit (LENGTH('w) - 8) c) :: u8) XOR b)"

lemma step_crc_byte: "step c b = crc_byte poly c b"
proof -
  let ?n = "LENGTH('w)" and ?t = "(ucast (drop_bit (LENGTH('w) - 8) c) :: u8) XOR b"
  let ?lo = "take_bit (LENGTH('w) - 8) c"
  have split: "c XOR push_bit (?n - 8) (ucast b) = push_bit (?n - 8) (ucast ?t) XOR ?lo"
    by (rule bit_word_eqI) (use byte_wide in \<open>auto simp: bit_simps not_bit_u8 dest: bit_imp_le_length\<close>)
  have low: "crc_bits poly 8 ?lo = push_bit 8 c"
  proof -
    have "crc_bits poly 8 ?lo = push_bit 8 ?lo"
      by (rule crc_bits_low) (use byte_wide in \<open>auto simp: bit_simps\<close>)
    also have "\<dots> = push_bit 8 c"
      by (rule bit_word_eqI) (auto simp: bit_simps)
    finally show ?thesis .
  qed
  have "(of_nat (unat ?t) :: 'w word) = ucast ?t" by simp
  then have "tab ! unat ?t = crc_bits poly 8 (push_bit (?n - 8) (ucast ?t))"
    using tab [of "unat ?t"] unat_u8_lt [of ?t] by simp
  then show ?thesis
    by (simp add: step_def crc_byte_def split crc_bits_xor low xor.commute)
qed

lemma foldl_step: "foldl step c bs = crc_spec poly c bs"
proof -
  have "step = crc_byte poly" by (intro ext) (rule step_crc_byte)
  then show ?thesis by (simp add: crc_spec_def)
qed

end

locale crc_odd = crc_table +
  assumes odd_poly: "bit poly 0"
begin

text \<open>
  Two messages of the same length that differ in exactly one byte have different checksums: after
  the differing byte the register differs, and equal bytes never make it equal again.
\<close>

lemma crc_byte_inj: "crc_byte poly c b = crc_byte poly d b \<Longrightarrow> c = d"
proof -
  assume "crc_byte poly c b = crc_byte poly d b"
  then have "crc_bits poly 8 (c XOR push_bit (LENGTH('a) - 8) (ucast b)) XOR
      crc_bits poly 8 (d XOR push_bit (LENGTH('a) - 8) (ucast b)) = 0"
    by (simp add: crc_byte_def)
  then have "crc_bits poly 8 ((c XOR push_bit (LENGTH('a) - 8) (ucast b)) XOR
      (d XOR push_bit (LENGTH('a) - 8) (ucast b))) = 0"
    by (simp only: crc_bits_xor)
  then have "(c XOR push_bit (LENGTH('a) - 8) (ucast b)) XOR (d XOR push_bit (LENGTH('a) - 8) (ucast b)) = 0"
    using odd_poly crc_bits_eq_0 by blast
  then have "d XOR c = 0" by (simp add: xor.assoc xor.left_commute)
  then show "c = d" using xor_0_eq by blast
qed

lemma crc_byte_neq:
  assumes "b \<noteq> b'"
  shows "crc_byte poly c b \<noteq> crc_byte poly c b'"
proof
  let ?p = "\<lambda>b. push_bit (LENGTH('a) - 8) (ucast b) :: 'a word"
  assume "crc_byte poly c b = crc_byte poly c b'"
  then have "crc_bits poly 8 ((c XOR ?p b) XOR (c XOR ?p b')) = 0"
    by (simp only: crc_bits_xor crc_byte_def xor_self_eq)
  then have "(c XOR ?p b) XOR (c XOR ?p b') = 0" using odd_poly crc_bits_eq_0 by blast
  then have "(c XOR c) XOR (?p b XOR ?p b') = 0" by (simp only: xor.assoc xor.left_commute)
  then have e: "?p b = ?p b'" using xor_0_eq by simp
  have "b = b'"
  proof (rule bit_word_eqI)
    fix n assume "n < LENGTH(8)"
    then have "bit (?p b) (LENGTH('a) - 8 + n) = bit b n" "bit (?p b') (LENGTH('a) - 8 + n) = bit b' n"
      using byte_wide by (auto simp: bit_simps)
    with e show "bit b n = bit b' n" by simp
  qed
  with assms show False by simp
qed

lemma crc_spec_inj: "crc_spec poly c bs = crc_spec poly d bs \<Longrightarrow> c = d"
  by (induction bs arbitrary: c d) (auto simp: crc_spec_def dest: crc_byte_inj)

lemma one_byte_changes:
  "b \<noteq> b' \<Longrightarrow> crc_spec poly c (xs @ b # ys) \<noteq> crc_spec poly c (xs @ b' # ys)"
  using crc_byte_neq [of b b'] crc_spec_inj by (fastforce simp: crc_spec_def)

end

section \<open>Checking a table row by row\<close>

text \<open>
  Row \<open>2 i\<close> of a table is the shifted row \<open>i\<close>, row \<open>2 i + 1\<close> has the polynomial added; seven
  doublings of the first two rows give all 256.
\<close>

primrec dbl_row :: "'w::len word \<Rightarrow> 'w word list \<Rightarrow> 'w word list" where
  "dbl_row p [] = []"
| "dbl_row p (x # xs) = crc_shift p x # (crc_shift p x XOR p) # dbl_row p xs"

primrec crc_rows :: "'w::len word \<Rightarrow> nat \<Rightarrow> 'w word list" where
  "crc_rows p 0 = [0, p]"
| "crc_rows p (Suc k) = dbl_row p (crc_rows p k)"

lemma length_dbl_row [simp]: "length (dbl_row p xs) = 2 * length xs"
  by (induction xs) simp_all

lemma nth_dbl_row:
  "j < length xs \<Longrightarrow> dbl_row p xs ! (2 * j) = crc_shift p (xs ! j) \<and>
     dbl_row p xs ! Suc (2 * j) = crc_shift p (xs ! j) XOR p"
  by (induction xs arbitrary: j) (auto simp: less_Suc_eq_0_disj)

lemma length_crc_rows [simp]: "length (crc_rows p k) = 2 ^ Suc k"
  by (induction k) simp_all

lemma crc_bits_add: "crc_bits p (j + k) c = crc_bits p k (crc_bits p j c)"
  by (induction j arbitrary: c) simp_all

definition crc_row :: "'w::len word \<Rightarrow> nat \<Rightarrow> 'w word" where
  "crc_row p i = crc_bits p 8 (push_bit (LENGTH('w) - 8) (of_nat i))"

lemma crc_row_1:
  fixes p :: "'w::len word"
  assumes "8 \<le> LENGTH('w)"
  shows "crc_row p 1 = p"
proof -
  let ?x = "push_bit (LENGTH('w) - 8) 1 :: 'w word"
  have "crc_bits p 7 ?x = push_bit 7 ?x"
    by (rule crc_bits_low) (use assms in \<open>auto simp: bit_simps\<close>)
  also have "\<dots> = push_bit (7 + (LENGTH('w) - 8)) 1" by (simp only: push_bit_push_bit)
  also have "7 + (LENGTH('w) - 8) = LENGTH('w) - 1" using assms by simp
  finally have 7: "crc_bits p 7 ?x = push_bit (LENGTH('w) - 1) 1" .
  have top: "bit (push_bit (LENGTH('w) - 1) 1 :: 'w word) (LENGTH('w) - 1)"
    using assms by (simp add: bit_simps)
  have "shl1 (push_bit (LENGTH('w) - 1) 1 :: 'w word) = 0"
    by (rule bit_word_eqI) (auto simp: bit_shl1 bit_simps)
  with top have "crc_shift p (push_bit (LENGTH('w) - 1) 1) = p" by (simp add: crc_shift_def)
  with 7 show ?thesis
    using crc_bits_add [of p 7 1 ?x] by (simp add: crc_row_def)
qed

lemma crc_row_double:
  fixes p :: "'w::len word"
  assumes "8 \<le> LENGTH('w)" "i < 128"
  shows "crc_row p (2 * i) = crc_shift p (crc_row p i)"
    "crc_row p (Suc (2 * i)) = crc_shift p (crc_row p i) XOR p"
proof -
  let ?x = "push_bit (LENGTH('w) - 8) (of_nat i) :: 'w word"
  have bits: "bit (of_nat i :: 'w word) j \<Longrightarrow> j < 7" for j
  proof -
    assume "bit (of_nat i :: 'w word) j"
    then have "bit i j" by (simp add: bit_simps)
    then have "2 ^ j \<le> i" by (auto simp: bit_nat_def intro: ccontr)
    with assms(2) have "(2 :: nat) ^ j < 2 ^ 7" by simp
    then show "j < 7" by (rule power_less_imp_less_exp [rotated]) simp
  qed
  have "\<not> bit ?x (LENGTH('w) - 1)"
    using assms(1) bits [of 7] by (auto simp: bit_simps)
  then have s: "crc_shift p ?x = shl1 ?x" by (simp add: crc_shift_def)
  have "push_bit (LENGTH('w) - 8) (of_nat (2 * i)) = shl1 ?x"
    unfolding shl1_def by (simp add: push_bit_eq_mult ac_simps)
  with s have "crc_row p (2 * i) = crc_bits p (Suc 8) ?x" by (simp only: crc_row_def crc_bits.simps)
  also have "\<dots> = crc_bits p 1 (crc_bits p 8 ?x)" using crc_bits_add [of p 8 1 ?x] by simp
  finally show d: "crc_row p (2 * i) = crc_shift p (crc_row p i)" by (simp add: crc_row_def)
  have even: "of_nat (Suc (2 * i)) = (of_nat (2 * i) :: 'w word) XOR 1"
  proof (rule bit_word_eqI)
    fix n assume "n < LENGTH('w)"
    moreover have "bit (Suc (2 * i)) n \<longleftrightarrow> bit (2 * i) n \<noteq> (n = 0)"
      by (cases n) (simp_all add: bit_Suc bit_0)
    ultimately show "bit (of_nat (Suc (2 * i)) :: 'w word) n = bit ((of_nat (2 * i) :: 'w word) XOR 1) n"
      by (simp only: bit_of_nat_iff bit_xor_iff bit_1_iff possible_bit_word simp_thms)
  qed
  have "crc_row p (Suc (2 * i)) = crc_row p (2 * i) XOR crc_row p 1"
    unfolding crc_row_def even push_bit_xor crc_bits_xor by simp
  with d show "crc_row p (Suc (2 * i)) = crc_shift p (crc_row p i) XOR p"
    using crc_row_1 [OF assms(1), of p] by simp
qed

lemma nth_crc_rows:
  fixes p :: "'w::len word"
  assumes "8 \<le> LENGTH('w)"
  shows "k \<le> 7 \<Longrightarrow> i < 2 ^ Suc k \<Longrightarrow> crc_rows p k ! i = crc_row p i"
proof (induction k arbitrary: i)
  case 0
  then have "i = 0 \<or> i = 1" by auto
  then show ?case using crc_row_1 [OF assms, of p] by (auto simp: crc_row_def)
next
  case (Suc k)
  define j where "j = i div 2"
  have j: "j < 2 ^ Suc k" using Suc.prems(2) by (auto simp: j_def)
  also have "(2 :: nat) ^ Suc k \<le> 2 ^ 7" using Suc.prems(1) by (intro power_increasing) auto
  finally have "j < 128" by simp
  note row = crc_row_double [OF assms this, of p]
  have IH: "crc_rows p k ! j = crc_row p j" using Suc.IH [OF _ j] Suc.prems(1) by simp
  have "i = 2 * j \<or> i = Suc (2 * j)" by (auto simp: j_def)
  then show ?case
    using nth_dbl_row [of j "crc_rows p k" p] j IH row by auto
qed

lemma crc_rows_7:
  "crc_rows p 7 = dbl_row p (dbl_row p (dbl_row p (dbl_row p (dbl_row p (dbl_row p (dbl_row p [0, p]))))))"
  by (simp add: numeral_eq_Suc)

lemma crc_rows_256:
  "8 \<le> LENGTH('w) \<Longrightarrow> i < 256 \<Longrightarrow>
   crc_rows p 7 ! i = crc_bits p 8 (push_bit (LENGTH('w) - 8) (of_nat i))" for p :: "'w::len word"
  using nth_crc_rows [of 7 i p] by (simp add: crc_row_def)

section \<open>CRC16 of ymodem_ota.c\<close>

definition ccitt_table :: "u16 list" where
  "ccitt_table = [
    0x0000, 0x1021, 0x2042, 0x3063, 0x4084, 0x50A5, 0x60C6, 0x70E7,
    0x8108, 0x9129, 0xA14A, 0xB16B, 0xC18C, 0xD1AD, 0xE1CE, 0xF1EF,
    0x1231, 0x0210, 0x3273, 0x2252, 0x52B5, 0x4294, 0x72F7, 0x62D6,
    0x9339, 0x8318, 0xB37B, 0xA35A, 0xD3BD, 0xC39C, 0xF3FF, 0xE3DE,
    0x2462, 0x3443, 0x0420, 0x1401, 0x64E6, 0x74C7, 0x44A4, 0x5485,
    0xA56A, 0xB54B, 0x8528, 0x9509, 0xE5EE, 0xF5CF, 0xC5AC, 0xD58D,
    0x3653, 0x2672, 0x1611, 0x0630, 0x76D7, 0x66F6, 0x5695, 0x46B4,
    0xB75B, 0xA77A, 0x9719, 0x8738, 0xF7DF, 0xE7FE, 0xD79D, 0xC7BC,
    0x48C4, 0x58E5, 0x6886, 0x78A7, 0x0840, 0x1861, 0x2802, 0x3823,
    0xC9CC, 0xD9ED, 0xE98E, 0xF9AF, 0x8948, 0x9969, 0xA90A, 0xB92B,
    0x5AF5, 0x4AD4, 0x7AB7, 0x6A96, 0x1A71, 0x0A50, 0x3A33, 0x2A12,
    0xDBFD, 0xCBDC, 0xFBBF, 0xEB9E, 0x9B79, 0x8B58, 0xBB3B, 0xAB1A,
    0x6CA6, 0x7C87, 0x4CE4, 0x5CC5, 0x2C22, 0x3C03, 0x0C60, 0x1C41,
    0xEDAE, 0xFD8F, 0xCDEC, 0xDDCD, 0xAD2A, 0xBD0B, 0x8D68, 0x9D49,
    0x7E97, 0x6EB6, 0x5ED5, 0x4EF4, 0x3E13, 0x2E32, 0x1E51, 0x0E70,
    0xFF9F, 0xEFBE, 0xDFDD, 0xCFFC, 0xBF1B, 0xAF3A, 0x9F59, 0x8F78,
    0x9188, 0x81A9, 0xB1CA, 0xA1EB, 0xD10C, 0xC12D, 0xF14E, 0xE16F,
    0x1080, 0x00A1, 0x30C2, 0x20E3, 0x5004, 0x4025, 0x7046, 0x6067,
    0x83B9, 0x9398, 0xA3FB, 0xB3DA, 0xC33D, 0xD31C, 0xE37F, 0xF35E,
    0x02B1, 0x1290, 0x22F3, 0x32D2, 0x4235, 0x5214, 0x6277, 0x7256,
    0xB5EA, 0xA5CB, 0x95A8, 0x8589, 0xF56E, 0xE54F, 0xD52C, 0xC50D,
    0x34E2, 0x24C3, 0x14A0, 0x0481, 0x7466, 0x6447, 0x5424, 0x4405,
    0xA7DB, 0xB7FA, 0x8799, 0x97B8, 0xE75F, 0xF77E, 0xC71D, 0xD73C,
    0x26D3, 0x36F2, 0x0691, 0x16B0, 0x6657, 0x7676, 0x4615, 0x5634,
    0xD94C, 0xC96D, 0xF90E, 0xE92F, 0x99C8, 0x89E9, 0xB98A, 0xA9AB,
    0x5844, 0x4865, 0x7806, 0x6827, 0x18C0, 0x08E1, 0x3882, 0x28A3,
    0xCB7D, 0xDB5C, 0xEB3F, 0xFB1E, 0x8BF9, 0x9BD8, 0xABBB, 0xBB9A,
    0x4A75, 0x5A54, 0x6A37, 0x7A16, 0x0AF1, 0x1AD0, 0x2AB3, 0x3A92,
    0xFD2E, 0xED0F, 0xDD6C, 0xCD4D, 0xBDAA, 0xAD8B, 0x9DE8, 0x8DC9,
    0x7C26, 0x6C07, 0x5C64, 0x4C45, 0x3CA2, 0x2C83, 0x1CE0, 0x0CC1,
    0xEF1F, 0xFF3E, 0xCF5D, 0xDF7C, 0xAF9B, 0xBFBA, 0x8FD9, 0x9FF8,
    0x6E17, 0x7E36, 0x4E55, 0x5E74, 0x2E93, 0x3EB2, 0x0ED1, 0x1EF0]"

definition CRC16 :: "bytes \<Rightarrow> u16" where
  "CRC16 q = foldl (\<lambda>crc b. push_bit 8 crc XOR
     ccitt_table ! unat ((drop_bit 8 crc XOR ucast b) AND 0xff)) 0 q"

lemma ccitt_table_rows: "ccitt_table = crc_rows 0x1021 7"
  by (simp add: ccitt_table_def crc_rows_7 crc_shift_def shl1_def)

interpretation ccitt: crc_odd "0x1021 :: u16" ccitt_table
proof unfold_locales
  show "i < 256 \<Longrightarrow> ccitt_table ! i = crc_bits 0x1021 8 (push_bit (LENGTH(16) - 8) (of_nat i))" for i
    unfolding ccitt_table_rows by (rule crc_rows_256) simp_all
qed simp_all

text \<open>The table index of the C code is the byte the locale's step uses.\<close>

lemma CRC16_step:
  "push_bit 8 crc XOR ccitt_table ! unat ((drop_bit 8 crc XOR ucast b) AND 0xff) = ccitt.step crc b"
proof -
  have "(drop_bit 8 crc XOR ucast b) AND 0xff = (ucast ((ucast (drop_bit 8 crc) :: u8) XOR b) :: u16)"
  proof (rule bit_word_eqI)
    fix n assume "n < LENGTH(16)"
    have "(x :: u16) AND 0xff = take_bit 8 x" for x by (simp add: take_bit_eq_mask mask_eq_exp_minus_1)
    then show "bit ((drop_bit 8 crc XOR ucast b) AND 0xff) n =
        bit (ucast ((ucast (drop_bit 8 crc) :: u8) XOR b) :: u16) n"
      by (auto simp: bit_simps not_bit_u8)
  qed
  moreover have "unat (ucast x :: u16) = unat x" for x :: u8
    using unat_u8_lt [of x] by (simp add: unsigned_ucast_eq take_bit_nat_eq_self)
  ultimately show ?thesis by (simp add: ccitt.step_def)
qed

lemma CRC16_foldl_step: "CRC16 q = foldl ccitt.step 0 q"
  unfolding CRC16_def CRC16_step by simp

text \<open>
  C22. The table-driven \<open>CRC16\<close> of the Y-modem receiver computes the CCITT checksum: for every
  message it equals the shift register of the polynomial 0x1021 fed bit by bit, so all 256 entries of
  \<open>ccitt_table\<close> are right.
\<close>

theorem CRC16_bitwise: "CRC16 q = crc_spec 0x1021 0 q"
  by (simp add: CRC16_foldl_step ccitt.foldl_step)

text \<open>
  C34. \<open>CRC16\<close> detects every corruption confined to one byte: two messages that differ in one byte
  have different checksums.
\<close>

theorem CRC16_detects_one_byte:
  assumes "b \<noteq> b'"
  shows "CRC16 (xs @ b # ys) \<noteq> CRC16 (xs @ b' # ys)"
  unfolding CRC16_foldl_step ccitt.foldl_step by (rule ccitt.one_byte_changes [OF assms])

theorem CRC16_detects_one_byte_witness: "CRC16 ([1, 2] @ 3 # [4]) \<noteq> CRC16 ([1, 2] @ 7 # [4])"
  by (rule CRC16_detects_one_byte) simp

section \<open>The ROM checksum of crc.c\<close>

definition CRC_ulCRCTable :: "u32 list" where
  "CRC_ulCRCTable = [
    0x00000000, 0x04c11db7, 0x09823b6e, 0x0d4326d9,
    0x130476dc, 0x17c56b6b, 0x1a864db2, 0x1e475005,
    0x2608edb8, 0x22c9f00f, 0x2f8ad6d6, 0x2b4bcb61,
    0x350c9b64, 0x31cd86d3, 0x3c8ea00a, 0x384fbdbd,
    0x4c11db70, 0x48d0c6c7, 0x4593e01e, 0x4152fda9,
    0x5f15adac, 0x5bd4b01b, 0x569796c2, 0x52568b75,
    0x6a1936c8, 0x6ed82b7f, 0x639b0da6, 0x675a1011,
    0x791d4014, 0x7ddc5da3, 0x709f7b7a, 0x745e66cd,
    0x9823b6e0, 0x9ce2ab57, 0x91a18d8e, 0x95609039,
    0x8b27c03c, 0x8fe6dd8b, 0x82a5fb52, 0x8664e6e5,
    0xbe2b5b58, 0xbaea46ef, 0xb7a96036, 0xb3687d81,
    0xad2f2d84, 0xa9ee3033, 0xa4ad16ea, 0xa06c0b5d,
    0xd4326d90, 0xd0f37027, 0xddb056fe, 0xd9714b49,
    0xc7361b4c, 0xc3f706fb, 0xceb42022, 0xca753d95,
    0xf23a8028, 0xf6fb9d9f, 0xfbb8bb46, 0xff79a6f1,
    0xe13ef6f4, 0xe5ffeb43, 0xe8bccd9a, 0xec7dd02d,
    0x34867077, 0x30476dc0, 0x3d044b19, 0x39c556ae,
    0x278206ab, 0x23431b1c, 0x2e003dc5, 0x2ac12072,
    0x128e9dcf, 0x164f8078, 0x1b0ca6a1, 0x1fcdbb16,
    0x018aeb13, 0x054bf6a4, 0x0808d07d, 0x0cc9cdca,
    0x7897ab07, 0x7c56b6b0, 0x71159069, 0x75d48dde,
    0x6b93dddb, 0x6f52c06c, 0x6211e6b5, 0x66d0fb02,
    0x5e9f46bf, 0x5a5e5b08, 0x571d7dd1, 0x53dc6066,
    0x4d9b3063, 0x495a2dd4, 0x44190b0d, 0x40d816ba,
    0xaca5c697, 0xa864db20, 0xa527fdf9, 0xa1e6e04e,
    0xbfa1b04b, 0xbb60adfc, 0xb6238b25, 0xb2e29692,
    0x8aad2b2f, 0x8e6c3698, 0x832f1041, 0x87ee0df6,
    0x99a95df3, 0x9d684044, 0x902b669d, 0x94ea7b2a,
    0xe0b41de7, 0xe4750050, 0xe9362689, 0xedf73b3e,
    0xf3b06b3b, 0xf771768c, 0xfa325055, 0xfef34de2,
    0xc6bcf05f, 0xc27dede8, 0xcf3ecb31, 0xcbffd686,
    0xd5b88683, 0xd1799b34, 0xdc3abded, 0xd8fba05a,
    0x690ce0ee, 0x6dcdfd59, 0x608edb80, 0x644fc637,
    0x7a089632, 0x7ec98b85, 0x738aad5c, 0x774bb0eb,
    0x4f040d56, 0x4bc510e1, 0x46863638, 0x42472b8f,
    0x5c007b8a, 0x58c1663d, 0x558240e4, 0x51435d53,
    0x251d3b9e, 0x21dc2629, 0x2c9f00f0, 0x285e1d47,
    0x36194d42, 0x32d850f5, 0x3f9b762c, 0x3b5a6b9b,
    0x0315d626, 0x07d4cb91, 0x0a97ed48, 0x0e56f0ff,
    0x1011a0fa, 0x14d0bd4d, 0x19939b94, 0x1d528623,
    0xf12f560e, 0xf5ee4bb9, 0xf8ad6d60, 0xfc6c70d7,
    0xe22b20d2, 0xe6ea3d65, 0xeba91bbc, 0xef68060b,
    0xd727bbb6, 0xd3e6a601, 0xdea580d8, 0xda649d6f,
    0xc423cd6a, 0xc0e2d0dd, 0xcda1f604, 0xc960ebb3,
    0xbd3e8d7e, 0xb9ff90c9, 0xb4bcb610, 0xb07daba7,
    0xae3afba2, 0xaafbe615, 0xa7b8c0cc, 0xa379dd7b,
    0x9b3660c6, 0x9ff77d71, 0x92b45ba8, 0x9675461f,
    0x8832161a, 0x8cf30bad, 0x81b02d74, 0x857130c3,
    0x5d8a9099, 0x594b8d2e, 0x5408abf7, 0x50c9b640,
    0x4e8ee645, 0x4a4ffbf2, 0x470cdd2b, 0x43cdc09c,
    0x7b827d21, 0x7f436096, 0x7200464f, 0x76c15bf8,
    0x68860bfd, 0x6c47164a, 0x61043093, 0x65c52d24,
    0x119b4be9, 0x155a565e, 0x18197087, 0x1cd86d30,
    0x029f3d35, 0x065e2082, 0x0b1d065b, 0x0fdc1bec,
    0x3793a651, 0x3352bbe6, 0x3e119d3f, 0x3ad08088,
    0x2497d08d, 0x2056cd3a, 0x2d15ebe3, 0x29d4f654,
    0xc5a92679, 0xc1683bce, 0xcc2b1d17, 0xc8ea00a0,
    0xd6ad50a5, 0xd26c4d12, 0xdf2f6bcb, 0xdbee767c,
    0xe3a1cbc1, 0xe760d676, 0xea23f0af, 0xeee2ed18,
    0xf0a5bd1d, 0xf464a0aa, 0xf9278673, 0xfde69bc4,
    0x89b8fd09, 0x8d79e0be, 0x803ac667, 0x84fbdbd0,
    0x9abc8bd5, 0x9e7d9662, 0x933eb0bb, 0x97ffad0c,
    0xafb010b1, 0xab710d06, 0xa6322bdf, 0xa2f33668,
    0xbcb4666d, 0xb8757bda, 0xb5365d03, 0xb1f740b4]"

lemma CRC_ulCRCTable_rows: "CRC_ulCRCTable = crc_rows 0x04C11DB7 7"
  by (simp add: CRC_ulCRCTable_def crc_rows_7 crc_shift_def shl1_def)

interpretation rom: crc_odd "0x04C11DB7 :: u32" CRC_ulCRCTable
proof unfold_locales
  show "i < 256 \<Longrightarrow> CRC_ulCRCTable ! i = crc_bits 0x04C11DB7 8 (push_bit (LENGTH(32) - 8) (of_nat i))" for i
    unfolding CRC_ulCRCTable_rows by (rule crc_rows_256) simp_all
qed simp_all

text \<open>
  The checksum of the application image is computed incrementally: a call of
  \<open>CRC_ucCalculateFlashCrc\<close> adds one block of 32 bytes and reports 1 after the last segment.
\<close>

record crc_rom =
  CRC_ulRomCrcAll :: u32
  CRC_ucRomBlockIndex_all :: u8
  CRC_ucRomSegIndex_all :: u8

definition CRC_vROMCalculateCRC :: "memory \<Rightarrow> u32 \<Rightarrow> u32 \<Rightarrow> u32" where
  "CRC_vROMCalculateCRC m crc blockAddr =
    foldl (\<lambda>crcReg currentData. push_bit 8 crcReg XOR
        CRC_ulCRCTable ! unat ((ucast (drop_bit 24 crcReg) :: u8) XOR currentData))
      crc (mread m (unat blockAddr) 32)"

definition CRC_vCrcInit :: crc_rom where
  "CRC_vCrcInit = \<lparr>CRC_ulRomCrcAll = 0xFFFFFFFF, CRC_ucRomBlockIndex_all = 0, CRC_ucRomSegIndex_all = 0\<rparr>"

definition CRC_ucCalculateFlashCrc :: "memory \<Rightarrow> crc_rom \<Rightarrow> u8 \<times> crc_rom" where
  "CRC_ucCalculateFlashCrc m s =
    (let blockAddr = 0x8000 + (ucast (CRC_ucRomSegIndex_all s) * 128 * 32) + (32 * ucast (CRC_ucRomBlockIndex_all s));
         s = s\<lparr>CRC_ulRomCrcAll := CRC_vROMCalculateCRC m (CRC_ulRomCrcAll s) blockAddr\<rparr>
     in if 128 = CRC_ucRomBlockIndex_all s
        then let s = s\<lparr>CRC_ucRomBlockIndex_all := 0, CRC_ucRomSegIndex_all := CRC_ucRomSegIndex_all s + 1\<rparr>
             in if 12 = CRC_ucRomSegIndex_all s
                then (1, s\<lparr>CRC_ucRomSegIndex_all := 0, CRC_ulRomCrcAll := CRC_ulRomCrcAll s XOR 0xFFFFFFFF\<rparr>)
                else (0, s)
        else (0, s\<lparr>CRC_ucRomBlockIndex_all := CRC_ucRomBlockIndex_all s + 1\<rparr>))"

definition CRC_ucUpdateCalculatedCrc :: "memory \<Rightarrow> crc_rom \<Rightarrow> u8 \<times> crc_rom" where
  "CRC_ucUpdateCalculatedCrc m s =
    (case CRC_ucCalculateFlashCrc m s of (r, s') \<Rightarrow> (if r \<noteq> 0 then 1 else 0, s'))"

primrec rom_calls :: "memory \<Rightarrow> nat \<Rightarrow> crc_rom \<Rightarrow> u8 list \<times> crc_rom" where
  "rom_calls m 0 s = ([], s)"
| "rom_calls m (Suc n) s =
     (case CRC_ucUpdateCalculatedCrc m s of (r, s') \<Rightarrow>
        case rom_calls m n s' of (rs, s'') \<Rightarrow> (r # rs, s''))"

lemma CRC_vROMCalculateCRC_spec:
  "CRC_vROMCalculateCRC m crc a = crc_spec 0x04C11DB7 crc (mread m (unat a) 32)"
proof -
  have "(\<lambda>c b. push_bit 8 c XOR CRC_ulCRCTable ! unat ((ucast (drop_bit 24 c) :: u8) XOR b)) = rom.step"
    by (intro ext) (simp add: rom.step_def)
  then show ?thesis by (simp only: CRC_vROMCalculateCRC_def rom.foldl_step)
qed

lemma crc_spec_append: "crc_spec p c (xs @ ys) = crc_spec p (crc_spec p c xs) ys"
  by (simp add: crc_spec_def)

text \<open>The bytes of one segment as the index walk visits them: blocks 0 to 128.\<close>

lemma rom_calls_append:
  "rom_calls m (n + k) s = (case rom_calls m n s of (rs, s') \<Rightarrow>
     case rom_calls m k s' of (rs', s'') \<Rightarrow> (rs @ rs', s''))"
  by (induction n arbitrary: s) (auto split: prod.splits)

lemma rom_block:
  assumes "b < 128" "g < 12"
  shows "CRC_ucUpdateCalculatedCrc m \<lparr>CRC_ulRomCrcAll = c, CRC_ucRomBlockIndex_all = of_nat b, CRC_ucRomSegIndex_all = of_nat g\<rparr> =
    (0, \<lparr>CRC_ulRomCrcAll = crc_spec 0x04C11DB7 c (mread m (0x8000 + 4096 * g + 32 * b) 32),
         CRC_ucRomBlockIndex_all = of_nat (Suc b), CRC_ucRomSegIndex_all = of_nat g\<rparr>)"
proof -
  have ub: "unat (of_nat b :: u8) = b" "unat (of_nat g :: u8) = g" using assms by (auto simp: unat_of_nat)
  then have ne: "of_nat b \<noteq> (128 :: u8)" using assms by auto
  have a: "unat (0x8000 + 4096 * ucast (of_nat g :: u8) + 32 * ucast (of_nat b :: u8) :: u32) =
      0x8000 + 4096 * g + 32 * b"
    using assms ub by (simp add: unat_word_ariths)
  show ?thesis
    using ne a by (simp add: CRC_ucUpdateCalculatedCrc_def CRC_ucCalculateFlashCrc_def Let_def
        CRC_vROMCalculateCRC_spec)
qed

lemma rom_blocks:
  assumes "g < 12"
  shows "b + k \<le> 128 \<Longrightarrow>
    rom_calls m k \<lparr>CRC_ulRomCrcAll = c, CRC_ucRomBlockIndex_all = of_nat b, CRC_ucRomSegIndex_all = of_nat g\<rparr> =
    (replicate k 0, \<lparr>CRC_ulRomCrcAll = crc_spec 0x04C11DB7 c (mread m (0x8000 + 4096 * g + 32 * b) (32 * k)),
         CRC_ucRomBlockIndex_all = of_nat (b + k), CRC_ucRomSegIndex_all = of_nat g\<rparr>)"
proof (induction k arbitrary: b c)
  case 0
  then show ?case by (simp add: crc_spec_def)
next
  case (Suc k)
  let ?a = "0x8000 + 4096 * g + 32 * b"
  have "rom_calls m k \<lparr>CRC_ulRomCrcAll = crc_spec 0x04C11DB7 c (mread m ?a 32),
        CRC_ucRomBlockIndex_all = of_nat (Suc b), CRC_ucRomSegIndex_all = of_nat g\<rparr> =
     (replicate k 0, \<lparr>CRC_ulRomCrcAll = crc_spec 0x04C11DB7 (crc_spec 0x04C11DB7 c (mread m ?a 32))
          (mread m (0x8000 + 4096 * g + 32 * Suc b) (32 * k)),
        CRC_ucRomBlockIndex_all = of_nat (Suc b + k), CRC_ucRomSegIndex_all = of_nat g\<rparr>)"
    by (rule Suc.IH) (use Suc.prems in simp)
  moreover have "mread m ?a (32 * Suc k) = mread m ?a 32 @ mread m (0x8000 + 4096 * g + 32 * Suc b) (32 * k)"
    using mread_add [of m ?a 32 "32 * k"] by (simp add: ac_simps)
  ultimately show ?case
    using rom_block [OF _ assms, of b m c] Suc.prems by (simp add: crc_spec_append)
qed

definition rom_state :: "u32 \<Rightarrow> nat \<Rightarrow> crc_rom" where
  "rom_state c g = \<lparr>CRC_ulRomCrcAll = c, CRC_ucRomBlockIndex_all = 0, CRC_ucRomSegIndex_all = of_nat g\<rparr>"

lemma rom_last_block:
  assumes "g < 12"
  shows "CRC_ucUpdateCalculatedCrc m \<lparr>CRC_ulRomCrcAll = c, CRC_ucRomBlockIndex_all = 128, CRC_ucRomSegIndex_all = of_nat g\<rparr> =
    (let c' = crc_spec 0x04C11DB7 c (mread m (0x9000 + 4096 * g) 32)
     in if g = 11 then (1, rom_state (c' XOR 0xFFFFFFFF) 0) else (0, rom_state c' (Suc g)))"
proof -
  have ug: "unat (of_nat g :: u8) = g" using assms by (auto simp: unat_of_nat)
  have g12: "(of_nat g :: u8) + 1 = of_nat (Suc g)" by simp
  have g11: "(12 :: u8) = of_nat (Suc g) \<longleftrightarrow> g = 11"
  proof
    assume "(12 :: u8) = of_nat (Suc g)"
    then have "unat (12 :: u8) = unat (of_nat (Suc g) :: u8)" by (rule arg_cong)
    with assms show "g = 11" by (simp only: unat_of_nat) simp
  qed simp
  have a: "unat (0x8000 + ucast (of_nat g :: u8) * 128 * 32 + 32 * ucast (128 :: u8) :: u32) = 0x9000 + 4096 * g"
    using assms ug by (simp add: unat_word_ariths)
  have "CRC_ucUpdateCalculatedCrc m \<lparr>CRC_ulRomCrcAll = c, CRC_ucRomBlockIndex_all = 128, CRC_ucRomSegIndex_all = of_nat g\<rparr> =
    (let c' = CRC_vROMCalculateCRC m c (0x8000 + ucast (of_nat g :: u8) * 128 * 32 + 32 * ucast (128 :: u8))
     in if g = 11 then (1, rom_state (c' XOR 0xFFFFFFFF) 0) else (0, rom_state c' (Suc g)))"
    unfolding CRC_ucUpdateCalculatedCrc_def CRC_ucCalculateFlashCrc_def Let_def crc_rom.select_convs
      crc_rom.update_convs g12 g11 rom_state_def
    by (cases "g = 11") simp_all
  then show ?thesis by (simp only: CRC_vROMCalculateCRC_spec a)
qed

lemma rom_segment:
  assumes "g < 12"
  shows "rom_calls m 129 (rom_state c g) =
    (let c' = crc_spec 0x04C11DB7 c (mread m (0x8000 + 4096 * g) 4128)
     in if g = 11 then (replicate 128 0 @ [1], rom_state (c' XOR 0xFFFFFFFF) 0)
        else (replicate 128 0 @ [0], rom_state c' (Suc g)))"
proof -
  let ?c = "crc_spec 0x04C11DB7 c (mread m (0x8000 + 4096 * g) 4096)"
  let ?s = "\<lparr>CRC_ulRomCrcAll = ?c, CRC_ucRomBlockIndex_all = 128, CRC_ucRomSegIndex_all = of_nat g\<rparr>"
  have 1: "rom_calls m 128 (rom_state c g) = (replicate 128 0, ?s)"
    using rom_blocks [OF assms, of 0 128 m c] by (simp add: rom_state_def)
  have 2: "crc_spec 0x04C11DB7 c (mread m (0x8000 + 4096 * g) 4128) =
      crc_spec 0x04C11DB7 ?c (mread m (0x9000 + 4096 * g) 32)"
    using mread_add [of m "0x8000 + 4096 * g" 4096 32] by (simp add: crc_spec_append)
  have 3: "rom_calls m 1 ?s = (case CRC_ucUpdateCalculatedCrc m ?s of (r, s') \<Rightarrow> ([r], s'))"
    by (simp split: prod.split)
  have "rom_calls m 129 (rom_state c g) = (case rom_calls m 128 (rom_state c g) of (rs, s') \<Rightarrow>
     case rom_calls m 1 s' of (rs', s'') \<Rightarrow> (rs @ rs', s''))"
    using rom_calls_append [of m 128 1 "rom_state c g"] by simp
  also have "\<dots> = (case CRC_ucUpdateCalculatedCrc m ?s of (r, s') \<Rightarrow> (replicate 128 0 @ [r], s'))"
    by (simp only: 1 3 prod.case) (simp split: prod.split)
  finally show ?thesis
    unfolding rom_last_block [OF assms] 2 Let_def by (cases "g = 11") (simp_all only: simp_thms if_True if_False prod.case)
qed

primrec rom_bytes :: "memory \<Rightarrow> nat \<Rightarrow> bytes" where
  "rom_bytes m 0 = []"
| "rom_bytes m (Suc n) = rom_bytes m n @ mread m (0x8000 + 4096 * n) 4128"

lemma rom_segments:
  "n < 12 \<Longrightarrow> rom_calls m (129 * n) (rom_state 0xFFFFFFFF 0) =
    (replicate (129 * n) 0, rom_state (crc_spec 0x04C11DB7 0xFFFFFFFF (rom_bytes m n)) n)"
proof (induction n)
  case 0
  then show ?case by (simp add: crc_spec_def)
next
  case (Suc n)
  have r: "replicate (129 * Suc n) (0 :: u8) = replicate (129 * n) 0 @ replicate 128 0 @ [0]"
  proof -
    have "129 * Suc n = 129 * n + (128 + 1)" by simp
    then have "replicate (129 * Suc n) (0 :: u8) = replicate (129 * n) 0 @ replicate (128 + 1) 0"
      by (simp only: replicate_add)
    then show ?thesis by (simp only: replicate_add) simp
  qed
  have "rom_calls m (129 * Suc n) (rom_state 0xFFFFFFFF 0) =
    (case rom_calls m (129 * n) (rom_state 0xFFFFFFFF 0) of (rs, s') \<Rightarrow>
     case rom_calls m 129 s' of (rs', s'') \<Rightarrow> (rs @ rs', s''))"
    using rom_calls_append [of m "129 * n" 129] by (simp only: mult_Suc_right add.commute)
  moreover have "n \<noteq> 11" "n < 12" using Suc.prems by auto
  ultimately show ?case
    using Suc.IH by (simp only: rom_segment [of n] Let_def prod.case if_False r rom_bytes.simps crc_spec_append)
qed

text \<open>
  The incremental checksum of the application image walks 129 blocks of 32 bytes in each of the
  12 segments of 4 KB: 1548 calls, of which only the last reports the end, compute the CRC-32
  register over the twelve 4128-byte stretches that start at the segments, inverted at the end. The
  first block of every segment but the first is thus counted twice, and so is not the plain
  checksum of the 48 KB image.
\<close>

theorem CRC_flash_walk:
  "rom_calls m 1548 CRC_vCrcInit =
    (replicate 1547 0 @ [1],
     rom_state (crc_spec 0x04C11DB7 0xFFFFFFFF
       (concat (map (\<lambda>g. mread m (0x8000 + 4096 * g) (4096 + 32)) [0..<12])) XOR 0xFFFFFFFF) 0)"
proof -
  have b: "rom_bytes m n = concat (map (\<lambda>g. mread m (0x8000 + 4096 * g) (4096 + 32)) [0..<n])" for n
    by (induction n) simp_all
  have r: "replicate 1547 (0 :: u8) = replicate (129 * 11) 0 @ replicate 128 0"
    by (simp flip: replicate_add)
  have init: "CRC_vCrcInit = rom_state 0xFFFFFFFF 0" by (simp add: CRC_vCrcInit_def rom_state_def)
  have 12: "[0..<12] = [0..<11] @ [11]" by (simp add: upt_rec)
  have last: "rom_calls m 129 (rom_state c 11) = (replicate 128 0 @ [1],
      rom_state (crc_spec 0x04C11DB7 c (mread m (0x8000 + 4096 * 11) (4096 + 32)) XOR 0xFFFFFFFF) 0)" for c
    using rom_segment [of 11 m c] by (simp add: Let_def)
  have "rom_calls m 1548 CRC_vCrcInit =
    (case rom_calls m (129 * 11) (rom_state 0xFFFFFFFF 0) of (rs, s') \<Rightarrow>
     case rom_calls m 129 s' of (rs', s'') \<Rightarrow> (rs @ rs', s''))"
    using rom_calls_append [of m "129 * 11" 129 "rom_state 0xFFFFFFFF 0"] by (simp add: init)
  also have "\<dots> = (replicate (129 * 11) 0 @ replicate 128 0 @ [1],
     rom_state (crc_spec 0x04C11DB7 (crc_spec 0x04C11DB7 0xFFFFFFFF (rom_bytes m 11))
       (mread m (0x8000 + 4096 * 11) (4096 + 32)) XOR 0xFFFFFFFF) 0)"
    using rom_segments [of 11 m] by (simp only: last prod.case)
  finally show ?thesis
    unfolding r 12 b by (simp add: crc_spec_append)
qed

end
