(* ===== verification/Ymodem.thy ===== *)
theory Ymodem
  imports Crc FlashIo SwTimer
begin

text \<open>
  The Y-modem receiver of the bootloader (source/ymodem_ota.c) and the UART callback that feeds it
  (source/AlgorithmBoard/AlgorithmBoard.c). The state is a record of the bootloader's shared devices
  (software timers, flash, the bytes sent on USART2, the reset request) extended by the static
  variables of ymodem_ota.c; theory Fota extends it again. A result \<open>None\<close> is an access outside the
  receive buffer \<open>ymodem_ota_msg.msg_data\<close>, whose effect C does not define.
\<close>

section \<open>State\<close>

datatype rym_stage =
    RYM_STAGE_NONE | RYM_STAGE_ESTABLISHING | RYM_STAGE_ESTABLISHED | RYM_STAGE_TRANSMITTING
  | RYM_STAGE_FINISHING | RYM_STAGE_FINISH_PACKET | RYM_STAGE_FINISHED | RYM_STAGE_RESET
  | RYM_STAGE_IDLE

record bootio =
  b_tmr :: timers
  b_flash :: "efm \<times> nat"
  b_uart :: bytes
  b_reset :: bool

record ymodem = bootio +
  ymodem_ota_sem :: u8
  ymodem_ota_task_state :: rym_stage
  msg_len :: u32
  msg_data :: bytes
  ymodem_next_packet_index :: u8
  ymodem_code :: int
  update_file_total_size :: u32
  update_file_cur_size :: u32

abbreviation (input) YMODEM_DMA_SIZE :: nat where "YMODEM_DMA_SIZE \<equiv> 1040"
abbreviation (input) RYM_CODE_SOH :: u8 where "RYM_CODE_SOH \<equiv> 0x01"
abbreviation (input) RYM_CODE_STX :: u8 where "RYM_CODE_STX \<equiv> 0x02"
abbreviation (input) RYM_CODE_EOT :: u8 where "RYM_CODE_EOT \<equiv> 0x04"
abbreviation (input) RYM_CODE_ACK :: u8 where "RYM_CODE_ACK \<equiv> 0x06"
abbreviation (input) RYM_CODE_NAK :: u8 where "RYM_CODE_NAK \<equiv> 0x15"
abbreviation (input) RYM_CODE_CAN :: u8 where "RYM_CODE_CAN \<equiv> 0x18"
abbreviation (input) RYM_CODE_C :: u8 where "RYM_CODE_C \<equiv> 0x43"
abbreviation (input) RYM_ERR_CODE :: int where "RYM_ERR_CODE \<equiv> 0x71"
abbreviation (input) RYM_ERR_SEQ :: int where "RYM_ERR_SEQ \<equiv> 0x72"
abbreviation (input) RYM_ERR_CRC :: int where "RYM_ERR_CRC \<equiv> 0x73"
abbreviation (input) RYM_ERR_CAN :: int where "RYM_ERR_CAN \<equiv> 0x75"
abbreviation (input) FLASH_DOWNLOAD_START_ADDR :: u32 where "FLASH_DOWNLOAD_START_ADDR \<equiv> 0x22000"
abbreviation (input) FLASH_DOWNLOAD_SIZE :: u32 where "FLASH_DOWNLOAD_SIZE \<equiv> 0x1A000"

section \<open>Helpers\<close>

text \<open>Requesting a reset of the processor (\<open>hw_cpu_reset\<close> of can_iap.c).\<close>

definition hw_cpu_reset :: "'a bootio_scheme \<Rightarrow> 'a bootio_scheme" where
  "hw_cpu_reset s = s\<lparr>b_reset := True\<rparr>"

definition rym_putchar :: "u8 \<Rightarrow> 'a bootio_scheme \<Rightarrow> 'a bootio_scheme" where
  "rym_putchar code s = s\<lparr>b_uart := b_uart s @ [code]\<rparr>"

text \<open>\<open>memset(&ymodem_ota_msg, 0, sizeof(_ymodem_ota_msg))\<close>\<close>

definition clear_msg :: "'a ymodem_scheme \<Rightarrow> 'a ymodem_scheme" where
  "clear_msg s = s\<lparr>msg_len := 0, msg_data := replicate YMODEM_DMA_SIZE 0\<rparr>"

definition be16 :: "u8 \<Rightarrow> u8 \<Rightarrow> u16" where
  "be16 hi lo = push_bit 8 (ucast hi) OR ucast lo"

text \<open>
  \<open>atol\<close> of a C string: white space, a sign, digits; a value outside the 32-bit range is limited as
  \<open>strtol\<close> does it. \<open>None\<close> when the scan runs off the end of the buffer.
\<close>

definition is_space :: "u8 \<Rightarrow> bool" where
  "is_space c \<longleftrightarrow> c = 0x20 \<or> (0x09 \<le> c \<and> c \<le> 0x0D)"

definition is_digit :: "u8 \<Rightarrow> bool" where
  "is_digit c \<longleftrightarrow> 0x30 \<le> c \<and> c \<le> 0x39"

definition digits_value :: "bytes \<Rightarrow> int" where
  "digits_value ds = foldl (\<lambda>v d. 10 * v + (int (unat d) - 48)) 0 ds"

definition clamp_long :: "int \<Rightarrow> int" where
  "clamp_long v = (if v > 2147483647 then 2147483647 else if v < - 2147483648 then - 2147483648 else v)"

definition unsigned_value :: "bytes \<Rightarrow> int option" where
  "unsigned_value cs = (case dropWhile is_digit cs of [] \<Rightarrow> None
     | _ # _ \<Rightarrow> Some (digits_value (takeWhile is_digit cs)))"

definition atol :: "bytes \<Rightarrow> int option" where
  "atol cs = map_option clamp_long (case dropWhile is_space cs of
       [] \<Rightarrow> None
     | c # cs' \<Rightarrow> if c = 0x2D then map_option uminus (unsigned_value cs')
                  else if c = 0x2B then unsigned_value cs'
                  else unsigned_value (c # cs'))"

text \<open>The string after the terminator of the first string of a buffer.\<close>

definition second_string :: "bytes \<Rightarrow> bytes option" where
  "second_string buf = (case dropWhile (\<lambda>c. c \<noteq> 0) buf of [] \<Rightarrow> None | _ # rest \<Rightarrow> Some rest)"

section \<open>The callbacks on a packet\<close>

definition ymodem_on_begin :: "flash_chip \<Rightarrow> bytes \<Rightarrow> 'a ymodem_scheme \<Rightarrow> (u8 \<times> 'a ymodem_scheme) option" where
  "ymodem_on_begin c buf s =
    (case Option.bind (second_string buf) atol of
       None \<Rightarrow> None
     | Some v \<Rightarrow>
         let s = s\<lparr>update_file_total_size := of_int v\<rparr>;
             s = s\<lparr>update_file_cur_size := 0\<rparr>
         in if update_file_total_size s > FLASH_DOWNLOAD_SIZE then Some (RYM_CODE_CAN, s)
            else let s = s\<lparr>b_flash := boot_FLASH_vEraseSector c (b_flash s)
                                        FLASH_DOWNLOAD_START_ADDR FLASH_DOWNLOAD_SIZE\<rparr>;
                     s = s\<lparr>ymodem_ota_sem := 2\<rparr>
                 in Some (RYM_CODE_ACK, s))"

definition ymodem_on_data :: "flash_chip \<Rightarrow> bytes \<Rightarrow> u32 \<Rightarrow> 'a ymodem_scheme \<Rightarrow> u8 \<times> 'a ymodem_scheme" where
  "ymodem_on_data c buf len s =
    (let s = s\<lparr>b_flash := boot_FLASH_vWriteBytes c (b_flash s)
                 (FLASH_DOWNLOAD_START_ADDR + update_file_cur_size s) buf len\<rparr>;
         s = s\<lparr>update_file_cur_size := update_file_cur_size s + len\<rparr>
     in (RYM_CODE_ACK, s))"

section \<open>The stages\<close>

text \<open>
  \<open>data_sz\<close> is an uninitialised automatic variable when the packet starts with neither SOH nor STX:
  its value is the argument \<open>junk\<close>. The packet is then read at the offsets this value gives.
\<close>

definition rym_do_handshake ::
  "flash_chip \<Rightarrow> u32 \<Rightarrow> 'a ymodem_scheme \<Rightarrow> (int \<times> 'a ymodem_scheme) option" where
  "rym_do_handshake c junk s =
    (let s = (if boot_TMR_bIsTimeExpired (b_tmr s) TMR_YMODEM_POLLING
              then let s = s\<lparr>b_tmr := boot_TMR_vSetTime (b_tmr s) TMR_YMODEM_POLLING (TMR_TIME_MS2TICKS 40)\<rparr>
                   in rym_putchar RYM_CODE_C (clear_msg s)
              else s);
         d = msg_data s
     in if msg_len s \<noteq> 0
        then let data_sz = (if d ! 0 = RYM_CODE_SOH then 133
                            else if d ! 0 = RYM_CODE_STX then 1029 else junk)
             in if d ! 1 \<noteq> 0 \<or> d ! 2 \<noteq> 0xFF then Some (- RYM_ERR_SEQ, s)
                else if data_sz < 2 \<or> 1040 < data_sz then None
                else let n = unat data_sz;
                         recv_crc = be16 (d ! (n - 2)) (d ! (n - 1));
                         cal_crc = CRC16 (take (n - 5) (drop 3 d))
                     in if recv_crc \<noteq> cal_crc
                        then Some (- RYM_ERR_CRC, rym_putchar RYM_CODE_NAK s)
                        else let s = s\<lparr>ymodem_next_packet_index := ymodem_next_packet_index s + 1\<rparr>
                             in case ymodem_on_begin c (drop 3 d) s of
                                  None \<Rightarrow> None
                                | Some (r, s) \<Rightarrow>
                                    if r \<noteq> RYM_CODE_ACK then Some (- RYM_ERR_CAN, s) else Some (0, s)
        else Some (1, s))"

text \<open>The part of \<open>_rym_trans_data\<close> that answers a packet (label \<open>__exit_reception\<close>).\<close>

definition exit_reception :: "u8 \<Rightarrow> 'a ymodem_scheme \<Rightarrow> int \<times> 'a ymodem_scheme" where
  "exit_reception code s =
    (let s = s\<lparr>ymodem_code := int (unat code)\<rparr>
     in if code = RYM_CODE_CAN
        then (- RYM_ERR_CAN, (rym_putchar RYM_CODE_CAN ^^ 5) (clear_msg s))
        else if code = RYM_CODE_ACK then (1, rym_putchar RYM_CODE_ACK (clear_msg s))
        else if code = RYM_CODE_NAK then (1, rym_putchar RYM_CODE_NAK (clear_msg s))
        else (1, s))"

definition rym_trans_data :: "flash_chip \<Rightarrow> 'a ymodem_scheme \<Rightarrow> int \<times> 'a ymodem_scheme" where
  "rym_trans_data c s =
    (let d = msg_data s
     in if msg_len s = 0 then (1, s)
        else if d ! 0 = RYM_CODE_EOT then (0, s)
        else if d ! 0 \<noteq> RYM_CODE_SOH \<and> d ! 0 \<noteq> RYM_CODE_STX then exit_reception RYM_CODE_NAK s
        else let data_sz = (if d ! 0 = RYM_CODE_SOH then 128 else 1024)
             in if msg_len s \<noteq> 1 + 2 + data_sz + 2 then exit_reception RYM_CODE_NAK s
                else if unat (d ! 1) + unat (d ! 2) \<noteq> 0xFF then exit_reception RYM_CODE_NAK s
                else let n = unat (msg_len s);
                         recv_crc = be16 (d ! (n - 2)) (d ! (n - 1))
                     in if recv_crc \<noteq> CRC16 (take (unat data_sz) (drop 3 d))
                        then exit_reception RYM_CODE_NAK s
                        else if ymodem_next_packet_index s = d ! 1
                        then let s = s\<lparr>ymodem_next_packet_index := ymodem_next_packet_index s + 1\<rparr>
                             in case ymodem_on_data c (drop 3 d) data_sz s of
                                  (r, s) \<Rightarrow> exit_reception (if r \<noteq> RYM_CODE_ACK then RYM_CODE_CAN else RYM_CODE_ACK) s
                        else exit_reception RYM_CODE_ACK s)"

definition rym_do_trans :: "'a ymodem_scheme \<Rightarrow> int \<times> 'a ymodem_scheme" where
  "rym_do_trans s = (0, rym_putchar RYM_CODE_C (clear_msg (rym_putchar RYM_CODE_ACK s)))"

definition rym_do_fin :: "'a ymodem_scheme \<Rightarrow> int \<times> 'a ymodem_scheme" where
  "rym_do_fin s = (0, rym_putchar RYM_CODE_NAK (clear_msg s))"

definition rym_trans_fin_packet :: "'a ymodem_scheme \<Rightarrow> int \<times> 'a ymodem_scheme" where
  "rym_trans_fin_packet s =
    (if msg_len s \<noteq> 0
     then if msg_data s ! 0 \<noteq> RYM_CODE_EOT then (1, rym_putchar RYM_CODE_NAK (clear_msg s))
          else (0, rym_putchar RYM_CODE_C (rym_putchar RYM_CODE_ACK (clear_msg s)))
     else (1, s))"

definition rym_trans_fin :: "'a ymodem_scheme \<Rightarrow> int \<times> 'a ymodem_scheme" where
  "rym_trans_fin s =
    (let d = msg_data s
     in if msg_len s \<noteq> 0
        then if d ! 0 \<noteq> RYM_CODE_SOH \<and> d ! 0 \<noteq> RYM_CODE_STX then (- RYM_ERR_CODE, s)
             else if d ! 1 \<noteq> 0 \<or> d ! 2 \<noteq> 0xFF then (- RYM_ERR_SEQ, s)
             else if be16 (d ! 131) (d ! 132) \<noteq> CRC16 (take 128 (drop 3 d)) then (- RYM_ERR_CRC, s)
             else (0, rym_putchar RYM_CODE_ACK s)
        else (1, s))"

section \<open>The task\<close>

text \<open>
  \<open>ALGO_vReceptionInit\<close> only arms the receive DMA and is left out of the state. \<open>hw_cpu_reset\<close> sets
  \<open>b_reset\<close>.
\<close>

definition set_stage :: "rym_stage \<Rightarrow> 'a ymodem_scheme \<Rightarrow> 'a ymodem_scheme" where
  "set_stage g s = s\<lparr>ymodem_ota_task_state := g\<rparr>"

definition stage_if_zero :: "rym_stage \<Rightarrow> int \<times> 'a ymodem_scheme \<Rightarrow> 'a ymodem_scheme" where
  "stage_if_zero g p = (if fst p = 0 then set_stage g (snd p) else snd p)"

definition ymodem_ota :: "flash_chip \<Rightarrow> u32 \<Rightarrow> 'a ymodem_scheme \<Rightarrow> 'a ymodem_scheme option" where
  "ymodem_ota c junk s =
    (if ymodem_ota_sem s = 0 then Some s
     else case ymodem_ota_task_state s of
       RYM_STAGE_NONE \<Rightarrow>
         Some ((set_stage RYM_STAGE_ESTABLISHING s)\<lparr>ymodem_next_packet_index := 0\<rparr>)
     | RYM_STAGE_ESTABLISHING \<Rightarrow> map_option (stage_if_zero RYM_STAGE_ESTABLISHED) (rym_do_handshake c junk s)
     | RYM_STAGE_ESTABLISHED \<Rightarrow> Some (stage_if_zero RYM_STAGE_TRANSMITTING (rym_do_trans s))
     | RYM_STAGE_TRANSMITTING \<Rightarrow> Some (stage_if_zero RYM_STAGE_FINISHING (rym_trans_data c s))
     | RYM_STAGE_FINISHING \<Rightarrow> Some (stage_if_zero RYM_STAGE_FINISH_PACKET (rym_do_fin s))
     | RYM_STAGE_FINISH_PACKET \<Rightarrow> Some (stage_if_zero RYM_STAGE_FINISHED (rym_trans_fin_packet s))
     | RYM_STAGE_FINISHED \<Rightarrow>
         (case rym_trans_fin s of (r, s) \<Rightarrow>
            let s = s\<lparr>ymodem_code := r\<rparr>
            in Some (if r = 0
                     then (set_stage RYM_STAGE_RESET s)\<lparr>b_tmr :=
                        boot_TMR_vSetTime (b_tmr s) TMR_YMODEM_POLLING (TMR_TIME_MS2TICKS 40)\<rparr>
                     else s))
     | RYM_STAGE_RESET \<Rightarrow>
         Some (if boot_TMR_bIsTimeExpired (b_tmr s) TMR_YMODEM_POLLING then hw_cpu_reset s else s)
     | RYM_STAGE_IDLE \<Rightarrow> Some s)"

section \<open>The other entry points\<close>

definition ymodem_ota_set_received_data :: "u32 \<Rightarrow> bytes \<Rightarrow> 'a ymodem_scheme \<Rightarrow> 'a ymodem_scheme" where
  "ymodem_ota_set_received_data len data s =
    (let s = s\<lparr>msg_len := (if len \<le> 1040 then len else 1040)\<rparr>
     in s\<lparr>msg_data := poke (msg_data s) 0 (take (unat (msg_len s)) data)\<rparr>)"

text \<open>The receive-timeout interrupt: the DMA counter tells how many bytes of the buffer were filled.\<close>

definition Usart2RxIrqCallback :: "u32 \<Rightarrow> bytes \<Rightarrow> 'a ymodem_scheme \<Rightarrow> 'a ymodem_scheme" where
  "Usart2RxIrqCallback dma_count ucData s = ymodem_ota_set_received_data (1040 - dma_count) ucData s"

definition ymodem_start_ota :: "'a ymodem_scheme \<Rightarrow> 'a ymodem_scheme" where
  "ymodem_start_ota s = s\<lparr>ymodem_ota_sem := 1\<rparr>"

definition ymodem_ota_task_init :: "'a ymodem_scheme \<Rightarrow> 'a ymodem_scheme" where
  "ymodem_ota_task_init s = s\<lparr>ymodem_ota_sem := 1, ymodem_ota_task_state := RYM_STAGE_ESTABLISHING\<rparr>"

definition ymodem_is_ota_data_received :: "'a ymodem_scheme \<Rightarrow> bool" where
  "ymodem_is_ota_data_received s \<longleftrightarrow>
    ymodem_ota_task_state s \<noteq> RYM_STAGE_NONE \<and> ymodem_ota_task_state s \<noteq> RYM_STAGE_ESTABLISHING"

section \<open>A sender\<close>

text \<open>
  What a Y-modem sender puts on the wire: a data packet with its number, the complement of the
  number, 128 or 1024 bytes and the checksum; a packet arrives through the receive callback and is
  looked at by the next run of the task.
\<close>

definition ym_packet :: "u8 \<Rightarrow> bytes \<Rightarrow> bytes" where
  "ym_packet i p = [if length p = 128 then RYM_CODE_SOH else RYM_CODE_STX, i, NOT i] @ p @
     [ucast (drop_bit 8 (CRC16 p)), ucast (CRC16 p)]"

definition block_ok :: "bytes \<Rightarrow> bool" where
  "block_ok p \<longleftrightarrow> length p = 128 \<or> length p = 1024"

definition deliver :: "flash_chip \<Rightarrow> u32 \<Rightarrow> bytes \<Rightarrow> 'a ymodem_scheme \<Rightarrow> 'a ymodem_scheme option" where
  "deliver c junk m s = ymodem_ota c junk (ymodem_ota_set_received_data (of_nat (length m)) m s)"

definition received :: "bytes \<Rightarrow> 'a ymodem_scheme \<Rightarrow> bool" where
  "received m s \<longleftrightarrow> msg_len s = of_nat (length m) \<and> take (length m) (msg_data s) = m"

lemma be16_split: "be16 (ucast (drop_bit 8 w)) (ucast w) = w"
  by (rule bit_word_eqI) (auto simp: be16_def bit_simps)

lemma length_ym_packet [simp]: "length (ym_packet i p) = length p + 5"
  by (simp add: ym_packet_def)

lemma unat_complement: "unat (i :: u8) + unat (NOT i) = 255"
proof -
  have "NOT i = 255 - i" by (simp add: not_eq_complement)
  moreover have "i \<le> 255" by (simp add: word_le_nat_alt) (use unat_u8_lt [of i] in simp)
  ultimately show ?thesis by (simp add: unat_sub word_le_nat_alt)
qed

lemma nth_received: "received m s \<Longrightarrow> j < length m \<Longrightarrow> msg_data s ! j = m ! j"
  by (metis received_def nth_take)

lemma received_packet:
  assumes "received (ym_packet i p) s" "block_ok p"
  shows "msg_data s ! 0 = (if length p = 128 then RYM_CODE_SOH else RYM_CODE_STX)"
    "msg_data s ! 1 = i" "msg_data s ! 2 = NOT i"
    "take (length p) (drop 3 (msg_data s)) = p"
    "be16 (msg_data s ! (length p + 3)) (msg_data s ! (length p + 4)) = CRC16 p"
    "msg_len s = 1 + 2 + (if length p = 128 then 128 else 1024) + 2"
    "unat (msg_len s) = length p + 5"
proof -
  let ?m = "ym_packet i p"
  have m: "msg_data s ! j = ?m ! j" if "j < length p + 5" for j
    using nth_received [OF assms(1)] that by simp
  show "msg_data s ! 0 = (if length p = 128 then RYM_CODE_SOH else RYM_CODE_STX)"
    "msg_data s ! 1 = i" "msg_data s ! 2 = NOT i"
    using m [of 0] m [of 1] m [of 2] by (simp_all add: ym_packet_def)
  have "take (length p) (drop 3 (take (length p + 5) (msg_data s))) = take (length p) (drop 3 ?m)"
    using assms(1) by (simp add: received_def)
  then show "take (length p) (drop 3 (msg_data s)) = p"
    by (simp add: take_drop min_def ym_packet_def)
  have "msg_data s ! (length p + 3) = ucast (drop_bit 8 (CRC16 p))" "msg_data s ! (length p + 4) = ucast (CRC16 p)"
    using m [of "length p + 3"] m [of "length p + 4"] by (simp_all add: ym_packet_def nth_append)
  then show "be16 (msg_data s ! (length p + 3)) (msg_data s ! (length p + 4)) = CRC16 p"
    by (simp add: be16_split)
  show "msg_len s = 1 + 2 + (if length p = 128 then 128 else 1024) + 2" "unat (msg_len s) = length p + 5"
    using assms by (auto simp: received_def block_ok_def)
qed

lemma received_set:
  assumes "length (msg_data s) = 1040" "length m \<le> 1040"
  shows "received m (ymodem_ota_set_received_data (of_nat (length m)) m s)"
    "length (msg_data (ymodem_ota_set_received_data (of_nat (length m)) m s)) = 1040"
proof -
  have u: "unat (of_nat (length m) :: u32) = length m" using assms(2) by (simp add: unat_of_nat_u32)
  then have "(of_nat (length m) :: u32) \<le> 1040" using assms(2) by (simp add: word_le_nat_alt)
  with u assms show "received m (ymodem_ota_set_received_data (of_nat (length m)) m s)"
    "length (msg_data (ymodem_ota_set_received_data (of_nat (length m)) m s)) = 1040"
    by (simp_all add: received_def ymodem_ota_set_received_data_def Let_def poke_def)
qed

section \<open>Receiving data packets\<close>

lemma exit_reception_ACK:
  "exit_reception RYM_CODE_ACK s = (1, rym_putchar RYM_CODE_ACK (clear_msg (s\<lparr>ymodem_code := 6\<rparr>)))"
  by (simp add: exit_reception_def)

lemma exit_reception_NAK:
  "exit_reception RYM_CODE_NAK s = (1, rym_putchar RYM_CODE_NAK (clear_msg (s\<lparr>ymodem_code := 21\<rparr>)))"
  by (simp add: exit_reception_def)

lemma rym_trans_data_packet:
  assumes "received (ym_packet i p) s" "block_ok p"
  shows "rym_trans_data c s =
    exit_reception RYM_CODE_ACK
      (if ymodem_next_packet_index s = i
       then snd (ymodem_on_data c (drop 3 (msg_data s)) (of_nat (length p))
              (s\<lparr>ymodem_next_packet_index := ymodem_next_packet_index s + 1\<rparr>))
       else s)"
proof -
  note r = received_packet [OF assms]
  have n: "unat (msg_len s) - 2 = length p + 3" "unat (msg_len s) - 1 = length p + 4" "msg_len s \<noteq> 0"
    using r(7) by (auto simp: unat_eq_zero [symmetric])
  have c: "unat (msg_data s ! 1) + unat (msg_data s ! 2) = 0xFF"
    unfolding r(2,3) by (rule unat_complement)
  consider "length p = 128" | "length p = 1024" using assms(2) by (auto simp: block_ok_def)
  then show ?thesis
  proof cases
    case 1
    then have "msg_len s = 133" using r(6) by simp
    moreover note r(1,2,4,5) c n
    ultimately show ?thesis using 1
      by (simp add: rym_trans_data_def Let_def ymodem_on_data_def)
  next
    case 2
    then have "msg_len s = 1029" using r(6) by simp
    moreover note r(1,2,4,5) c n
    ultimately show ?thesis using 2
      by (simp add: rym_trans_data_def Let_def ymodem_on_data_def)
  qed
qed

definition transmitting :: "'a ymodem_scheme \<Rightarrow> bool" where
  "transmitting s \<longleftrightarrow> ymodem_ota_sem s \<noteq> 0 \<and> ymodem_ota_task_state s = RYM_STAGE_TRANSMITTING \<and>
     length (msg_data s) = 1040 \<and> unat (update_file_cur_size s) mod 128 = 0"

abbreviation (input) b_mem :: "'a bootio_scheme \<Rightarrow> memory" where "b_mem s \<equiv> FMEM (fst (b_flash s))"

lemma deliver_fields [simp]:
  "ymodem_ota_sem (ymodem_ota_set_received_data n m s) = ymodem_ota_sem s"
  "ymodem_ota_task_state (ymodem_ota_set_received_data n m s) = ymodem_ota_task_state s"
  "ymodem_next_packet_index (ymodem_ota_set_received_data n m s) = ymodem_next_packet_index s"
  "update_file_cur_size (ymodem_ota_set_received_data n m s) = update_file_cur_size s"
  "update_file_total_size (ymodem_ota_set_received_data n m s) = update_file_total_size s"
  "b_flash (ymodem_ota_set_received_data n m s) = b_flash s"
  "b_uart (ymodem_ota_set_received_data n m s) = b_uart s"
  "b_tmr (ymodem_ota_set_received_data n m s) = b_tmr s"
  "b_reset (ymodem_ota_set_received_data n m s) = b_reset s"
  by (simp_all add: ymodem_ota_set_received_data_def Let_def)

lemma deliver_transmitting:
  assumes "transmitting s"
  shows "deliver c junk m s = Some (stage_if_zero RYM_STAGE_FINISHING
    (rym_trans_data c (ymodem_ota_set_received_data (of_nat (length m)) m s)))"
  using assms by (simp add: deliver_def ymodem_ota_def transmitting_def)

text \<open>The packet that is due: it is written behind the data received so far and acknowledged.\<close>

lemma deliver_next:
  assumes c: "flash_chip_ok c" and s: "transmitting s" and p: "block_ok p"
    and room: "unat (update_file_cur_size s) + length p < 4294828032"
    and er: "erased (b_mem s) (0x22000 + unat (update_file_cur_size s)) (length p)"
  obtains s' where "deliver c junk (ym_packet (ymodem_next_packet_index s) p) s = Some s'"
    "transmitting s'"
    "ymodem_next_packet_index s' = ymodem_next_packet_index s + 1"
    "unat (update_file_cur_size s') = unat (update_file_cur_size s) + length p"
    "b_mem s' = mwrite (b_mem s) (0x22000 + unat (update_file_cur_size s)) p"
    "b_uart s' = b_uart s @ [RYM_CODE_ACK]" "b_tmr s' = b_tmr s" "b_reset s' = b_reset s"
proof -
  let ?m = "ym_packet (ymodem_next_packet_index s) p"
  let ?s = "ymodem_ota_set_received_data (of_nat (length ?m)) ?m s"
  let ?cur = "update_file_cur_size s" and ?n = "of_nat (length p) :: u32"
  let ?b = "drop 3 (msg_data ?s)"
  have len: "length ?m \<le> 1040" "length (msg_data s) = 1040"
    using p s by (auto simp: block_ok_def transmitting_def)
  note rec = received_set [OF len(2,1)]
  have un: "unat ?n = length p" using p by (auto simp: block_ok_def)
  have a: "unat (FLASH_DOWNLOAD_START_ADDR + ?cur) = 0x22000 + unat ?cur"
    using room by (subst unat_add_no_wrap) simp_all
  have "take (length p) ?b = p" using received_packet(4) [OF rec(1) p] .
  then obtain d where d: "boot_FLASH_vWriteBytes c (b_flash s) (FLASH_DOWNLOAD_START_ADDR + ?cur) ?b ?n = d"
      "FMEM (fst d) = mwrite (b_mem s) (0x22000 + unat ?cur) p"
    using boot_nv.write_ok [OF c, of "FLASH_DOWNLOAD_START_ADDR + ?cur" ?n ?b "b_flash s"]
      a un er room p s rec(2) len
    by (auto simp: transmitting_def block_ok_def mod_add_eq [symmetric, of _ _ 4])
  have cur: "unat (?cur + ?n) = unat ?cur + length p"
    using room un by (subst unat_add_no_wrap) simp_all
  have t: "rym_trans_data c ?s = exit_reception RYM_CODE_ACK (?s\<lparr>ymodem_next_packet_index := ymodem_next_packet_index s + 1,
      b_flash := d, update_file_cur_size := ?cur + ?n\<rparr>)"
    using rym_trans_data_packet [OF rec(1) p, of c] d(1) by (simp add: ymodem_on_data_def Let_def)
  show ?thesis
    by (rule that [OF deliver_transmitting [OF s, of c junk ?m, unfolded t exit_reception_ACK]])
      (use s d(2) cur p in \<open>auto simp: stage_if_zero_def transmitting_def rym_putchar_def clear_msg_def block_ok_def\<close>)
qed

text \<open>A packet with another number is acknowledged and dropped.\<close>

lemma deliver_other:
  assumes s: "transmitting s" and p: "block_ok p" and i: "i \<noteq> ymodem_next_packet_index s"
  obtains s' where "deliver c junk (ym_packet i p) s = Some s'" "transmitting s'"
    "ymodem_next_packet_index s' = ymodem_next_packet_index s"
    "update_file_cur_size s' = update_file_cur_size s" "b_flash s' = b_flash s"
    "b_uart s' = b_uart s @ [RYM_CODE_ACK]" "b_tmr s' = b_tmr s" "b_reset s' = b_reset s"
proof -
  let ?m = "ym_packet i p"
  let ?s = "ymodem_ota_set_received_data (of_nat (length ?m)) ?m s"
  have len: "length ?m \<le> 1040" "length (msg_data s) = 1040"
    using p s by (auto simp: block_ok_def transmitting_def)
  have t: "rym_trans_data c ?s = exit_reception RYM_CODE_ACK ?s"
    using rym_trans_data_packet [OF received_set(1) [OF len(2,1)] p, of c] i by simp
  show ?thesis
    by (rule that [OF deliver_transmitting [OF s, of c junk ?m, unfolded t exit_reception_ACK]])
      (use s in \<open>auto simp: stage_if_zero_def transmitting_def rym_putchar_def clear_msg_def\<close>)
qed

primrec deliver_all :: "flash_chip \<Rightarrow> u32 \<Rightarrow> bytes list \<Rightarrow> 'a ymodem_scheme \<Rightarrow> 'a ymodem_scheme option" where
  "deliver_all c junk [] s = Some s"
| "deliver_all c junk (m # ms) s = Option.bind (deliver c junk m s) (deliver_all c junk ms)"

lemma deliver_all_append:
  "deliver_all c junk (ms @ ns) s = Option.bind (deliver_all c junk ms s) (deliver_all c junk ns)"
  by (induction ms arbitrary: s) (auto split: Option.bind_splits)

text \<open>A file in blocks; block \<open>(p, k)\<close> is sent once and repeated \<open>k\<close> times, as after lost replies.\<close>

primrec packets :: "u8 \<Rightarrow> (bytes \<times> nat) list \<Rightarrow> bytes list" where
  "packets i [] = []"
| "packets i (b # bs) = replicate (Suc (snd b)) (ym_packet i (fst b)) @ packets (i + 1) bs"

abbreviation file_of :: "(bytes \<times> nat) list \<Rightarrow> bytes" where
  "file_of bs \<equiv> concat (map fst bs)"

lemma u8_succ_neq: "(i :: u8) + 1 \<noteq> i"
  by simp

lemma deliver_repeats:
  assumes "transmitting s" "block_ok p" "i \<noteq> ymodem_next_packet_index s"
  shows "\<exists>s'. deliver_all c junk (replicate k (ym_packet i p)) s = Some s' \<and> transmitting s' \<and>
    ymodem_next_packet_index s' = ymodem_next_packet_index s \<and>
    update_file_cur_size s' = update_file_cur_size s \<and> b_flash s' = b_flash s \<and>
    b_uart s' = b_uart s @ replicate k RYM_CODE_ACK \<and> b_tmr s' = b_tmr s \<and> b_reset s' = b_reset s"
  using assms
proof (induction k arbitrary: s)
  case (Suc k)
  obtain s1 where s1: "deliver c junk (ym_packet i p) s = Some s1" "transmitting s1"
    "ymodem_next_packet_index s1 = ymodem_next_packet_index s"
    "update_file_cur_size s1 = update_file_cur_size s" "b_flash s1 = b_flash s"
    "b_uart s1 = b_uart s @ [RYM_CODE_ACK]" "b_tmr s1 = b_tmr s" "b_reset s1 = b_reset s"
    using deliver_other [OF Suc.prems] by metis
  with Suc.IH [OF s1(2) Suc.prems(2)] Suc.prems(3) show ?case by fastforce
qed simp

lemma room_wide: "n \<le> 0x1A000 \<Longrightarrow> n < (4294828032 :: nat)"
  by simp

lemma deliver_packets:
  assumes c: "flash_chip_ok c"
  shows "transmitting s \<Longrightarrow> \<forall>b \<in> set bs. block_ok (fst b) \<Longrightarrow>
    unat (update_file_cur_size s) + length (file_of bs) \<le> 0x1A000 \<Longrightarrow>
    erased (b_mem s) (0x22000 + unat (update_file_cur_size s)) (length (file_of bs)) \<Longrightarrow>
    \<exists>s'. deliver_all c junk (packets (ymodem_next_packet_index s) bs) s = Some s' \<and> transmitting s' \<and>
      ymodem_next_packet_index s' = ymodem_next_packet_index s + of_nat (length bs) \<and>
      b_mem s' = mwrite (b_mem s) (0x22000 + unat (update_file_cur_size s)) (file_of bs) \<and>
      b_tmr s' = b_tmr s \<and> b_reset s' = b_reset s"
proof (induction bs arbitrary: s)
  case (Cons b bs)
  obtain p k where b: "b = (p, k)" by (cases b)
  let ?i = "ymodem_next_packet_index s" and ?cur = "unat (update_file_cur_size s)"
  have p: "block_ok p" and room: "?cur + length p \<le> 0x1A000" using Cons.prems(2,3) b by auto
  have er: "erased (b_mem s) (0x22000 + ?cur) (length p)"
    "erased (b_mem s) (0x22000 + ?cur + length p) (length (file_of bs))"
    using Cons.prems(4) erased_split [of "b_mem s" "0x22000 + ?cur" "length p"] b by auto
  obtain s1 where s1: "deliver c junk (ym_packet ?i p) s = Some s1" "transmitting s1"
    "ymodem_next_packet_index s1 = ?i + 1" "unat (update_file_cur_size s1) = ?cur + length p"
    "b_mem s1 = mwrite (b_mem s) (0x22000 + ?cur) p" "b_tmr s1 = b_tmr s" "b_reset s1 = b_reset s"
    using deliver_next [OF c Cons.prems(1) p _ er(1)] room by (metis (no_types, lifting) room_wide)
  have "?i \<noteq> ymodem_next_packet_index s1" unfolding s1(3) by (metis u8_succ_neq)
  then obtain s2 where s2: "deliver_all c junk (replicate k (ym_packet ?i p)) s1 = Some s2" "transmitting s2"
    "ymodem_next_packet_index s2 = ?i + 1" "unat (update_file_cur_size s2) = ?cur + length p"
    "b_flash s2 = b_flash s1" "b_tmr s2 = b_tmr s" "b_reset s2 = b_reset s"
    using deliver_repeats [OF s1(2) p, of ?i c junk k] s1 by auto
  have er2: "erased (b_mem s2) (0x22000 + unat (update_file_cur_size s2)) (length (file_of bs))"
    using er(2) by (simp add: s2 s1(5) erased_mwrite_later add.assoc)
  obtain s3 where s3: "deliver_all c junk (packets (?i + 1) bs) s2 = Some s3" "transmitting s3"
    "ymodem_next_packet_index s3 = ?i + 1 + of_nat (length bs)"
    "b_mem s3 = mwrite (b_mem s2) (0x22000 + unat (update_file_cur_size s2)) (file_of bs)"
    "b_tmr s3 = b_tmr s" "b_reset s3 = b_reset s"
    using Cons.IH [OF s2(2) _ _ er2] Cons.prems(2,3) s2 b by auto
  have "deliver_all c junk (packets ?i (b # bs)) s = Some s3"
    using s1(1) s2(1) s3(1) by (simp add: b deliver_all_append)
  moreover have "b_mem s3 = mwrite (b_mem s) (0x22000 + ?cur) (file_of (b # bs))"
    using s3(4) s2(4,5) s1(5) by (simp add: b mwrite_append add.assoc)
  moreover have "ymodem_next_packet_index s3 = ?i + of_nat (length (b # bs))"
    using s3(3) by (simp add: add.assoc)
  ultimately show ?case using s3(2,5,6) by blast
qed simp

section \<open>The header packet\<close>

text \<open>The file size a header packet with payload \<open>p\<close> announces.\<close>

definition header_size :: "bytes \<Rightarrow> int option" where
  "header_size p = Option.bind (second_string p) atol"

lemma dropWhile_append_Some: "dropWhile P xs = y # ys \<Longrightarrow> dropWhile P (xs @ zs) = y # ys @ zs"
  by (induction xs) (auto split: if_splits)

lemma second_string_append: "second_string p = Some r \<Longrightarrow> second_string (p @ q) = Some (r @ q)"
  by (cases "dropWhile (\<lambda>c. c \<noteq> 0) p")
    (simp_all only: second_string_def dropWhile_append_Some list.case option.inject option.distinct)

lemma unsigned_value_append: "unsigned_value cs = Some v \<Longrightarrow> unsigned_value (cs @ q) = Some v"
proof (cases "dropWhile is_digit cs")
  case (Cons d ds)
  have "takeWhile is_digit (cs @ q) = takeWhile is_digit cs"
    using Cons by (induction cs) (auto split: if_splits)
  then show "unsigned_value cs = Some v \<Longrightarrow> unsigned_value (cs @ q) = Some v"
    by (simp only: unsigned_value_def Cons dropWhile_append_Some [OF Cons] list.case)
qed (simp only: unsigned_value_def list.case option.distinct)

lemma atol_append: "atol cs = Some v \<Longrightarrow> atol (cs @ q) = Some v"
proof (cases "dropWhile is_space cs")
  case (Cons d ds)
  show "atol cs = Some v \<Longrightarrow> atol (cs @ q) = Some v"
    unfolding atol_def dropWhile_append_Some [OF Cons] Cons list.case
    using unsigned_value_append [of ds _ q] unsigned_value_append [of "d # ds" _ q]
    by (auto split: if_splits)
qed (simp only: atol_def list.case option.map option.distinct)

lemma header_size_append: "header_size p = Some v \<Longrightarrow> header_size (p @ q) = Some v"
  by (auto simp: header_size_def second_string_append atol_append split: Option.bind_splits)

lemma ymodem_on_begin_size:
  "header_size buf = Some v \<Longrightarrow> ymodem_on_begin c buf s =
    (let s = s\<lparr>update_file_total_size := of_int v, update_file_cur_size := 0\<rparr>
     in if of_int v > FLASH_DOWNLOAD_SIZE then Some (RYM_CODE_CAN, s)
        else Some (RYM_CODE_ACK, s\<lparr>b_flash := boot_FLASH_vEraseSector c (b_flash s)
               FLASH_DOWNLOAD_START_ADDR FLASH_DOWNLOAD_SIZE, ymodem_ota_sem := 2\<rparr>))"
  by (simp add: ymodem_on_begin_def header_size_def Let_def)

lemma handshake_header:
  assumes r: "received (ym_packet 0 p) s" and p: "block_ok p" and v: "header_size p = Some v"
    and t: "\<not> boot_TMR_bIsTimeExpired (b_tmr s) TMR_YMODEM_POLLING"
  shows "rym_do_handshake c junk s =
    (let s = s\<lparr>ymodem_next_packet_index := ymodem_next_packet_index s + 1,
               update_file_total_size := of_int v, update_file_cur_size := 0\<rparr>
     in if of_int v > FLASH_DOWNLOAD_SIZE then Some (- RYM_ERR_CAN, s)
        else Some (0, s\<lparr>b_flash := boot_FLASH_vEraseSector c (b_flash s)
               FLASH_DOWNLOAD_START_ADDR FLASH_DOWNLOAD_SIZE, ymodem_ota_sem := 2\<rparr>))"
proof -
  note f = received_packet [OF r p]
  have "drop 3 (msg_data s) = p @ drop (length p) (drop 3 (msg_data s))"
    using f(4) by (metis append_take_drop_id)
  then have hs: "header_size (drop 3 (msg_data s)) = Some v" using header_size_append [OF v] by metis
  have nz: "msg_len s \<noteq> 0" using f(7) by (auto simp: unat_eq_zero [symmetric])
  have ff: "msg_data s ! 1 = 0" "msg_data s ! 2 = 0xFF" using f(2,3) by simp_all
  consider "length p = 128" | "length p = 1024" using p by (auto simp: block_ok_def)
  then show ?thesis
    by cases (use f(1,4,5) nz ff t hs in
      \<open>simp add: rym_do_handshake_def Let_def ymodem_on_begin_size\<close>)+
qed

section \<open>Sessions\<close>

datatype ym_event = Poll | Msg bytes | Ticks nat

primrec ym_step :: "flash_chip \<Rightarrow> u32 \<Rightarrow> ym_event \<Rightarrow> 'a ymodem_scheme \<Rightarrow> 'a ymodem_scheme option" where
  "ym_step c junk Poll s = ymodem_ota c junk s"
| "ym_step c junk (Msg m) s = deliver c junk m s"
| "ym_step c junk (Ticks n) s = Some (s\<lparr>b_tmr := (boot_TMR_vTickUpdate ^^ n) (b_tmr s)\<rparr>)"

primrec ym_run :: "flash_chip \<Rightarrow> u32 \<Rightarrow> ym_event list \<Rightarrow> 'a ymodem_scheme \<Rightarrow> 'a ymodem_scheme option" where
  "ym_run c junk [] s = Some s"
| "ym_run c junk (e # es) s = Option.bind (ym_step c junk e s) (ym_run c junk es)"

lemma ym_run_append: "ym_run c junk (es @ fs) s = Option.bind (ym_run c junk es s) (ym_run c junk fs)"
  by (induction es arbitrary: s) (auto split: Option.bind_splits)

lemma ym_run_msgs: "ym_run c junk (map Msg ms) s = deliver_all c junk ms s"
  by (induction ms arbitrary: s) (auto split: Option.bind_splits)

text \<open>A complete transfer as the sender sees it.\<close>

definition session_open :: "nat \<Rightarrow> bytes \<Rightarrow> ym_event list" where
  "session_open n hp = [Poll, Poll, Ticks n, Msg (ym_packet 0 hp), Poll]"

definition session_close :: "bytes \<Rightarrow> ym_event list" where
  "session_close fp = [Msg [RYM_CODE_EOT], Poll, Msg [RYM_CODE_EOT], Msg (ym_packet 0 fp), Ticks 400, Poll]"

definition session :: "nat \<Rightarrow> bytes \<Rightarrow> (bytes \<times> nat) list \<Rightarrow> bytes \<Rightarrow> ym_event list" where
  "session n hp bs fp = session_open n hp @ map Msg (packets 1 bs) @ session_close fp"

definition receiver_ready :: "'a ymodem_scheme \<Rightarrow> bool" where
  "receiver_ready s \<longleftrightarrow> ymodem_ota_sem s \<noteq> 0 \<and> ymodem_ota_task_state s = RYM_STAGE_NONE \<and> msg_len s = 0 \<and>
     boot_timers_wf (b_tmr s) \<and> boot_TMR_bIsTimeExpired (b_tmr s) TMR_YMODEM_POLLING \<and> \<not> b_reset s"

lemma of_int_le_download: "0 \<le> v \<Longrightarrow> v \<le> 0x1A000 \<Longrightarrow> \<not> FLASH_DOWNLOAD_SIZE < of_int v"
proof -
  assume "0 \<le> v" "v \<le> 0x1A000"
  then have "uint (of_int v :: u32) = v" by (simp add: uint_word_of_int)
  with \<open>v \<le> 0x1A000\<close> show ?thesis by (simp add: not_less word_le_def)
qed

lemma session_opens:
  assumes c: "flash_chip_ok c" and s: "receiver_ready s" and n: "n < 400"
    and hp: "block_ok hp" "header_size hp = Some v" "0 \<le> v" "v \<le> 0x1A000"
  obtains s' where "ym_run c junk (session_open n hp) s = Some s'" "transmitting s'"
    "ymodem_next_packet_index s' = 1" "update_file_cur_size s' = 0"
    "b_mem s' = mfill (b_mem s) 0x22000 0x1A000 255" "boot_timers_wf (b_tmr s')" "\<not> b_reset s'"
proof -
  define s2 where "s2 = rym_putchar RYM_CODE_C (clear_msg ((set_stage RYM_STAGE_ESTABLISHING s)
    \<lparr>ymodem_next_packet_index := 0, b_tmr := boot_TMR_vSetTime (b_tmr s) TMR_YMODEM_POLLING (TMR_TIME_MS2TICKS 40)\<rparr>))"
  define s3 where "s3 = s2\<lparr>b_tmr := (boot_TMR_vTickUpdate ^^ n) (b_tmr s2)\<rparr>"
  have run2: "ym_run c junk [Poll, Poll, Ticks n] s = Some s3"
    using s by (simp add: receiver_ready_def ymodem_ota_def set_stage_def rym_do_handshake_def Let_def
        stage_if_zero_def s3_def s2_def clear_msg_def rym_putchar_def)
  have wf: "boot_timers_wf (b_tmr s)" using s by (simp add: receiver_ready_def)
  have f3: "ymodem_ota_sem s3 \<noteq> 0" "ymodem_ota_task_state s3 = RYM_STAGE_ESTABLISHING"
    "length (msg_data s3) = 1040" "ymodem_next_packet_index s3 = 0" "b_flash s3 = b_flash s"
    "boot_timers_wf (b_tmr s3)" "\<not> b_reset s3"
    using s wf by (simp_all add: s3_def s2_def receiver_ready_def set_stage_def clear_msg_def rym_putchar_def
        boot_tmr.wf_ticks boot_tmr.wf_set)
  have t3: "\<not> boot_TMR_bIsTimeExpired (b_tmr s3) TMR_YMODEM_POLLING"
    using boot_tmr.expires_exactly [OF wf, of n TMR_YMODEM_POLLING "TMR_TIME_MS2TICKS 40"] n
    by (simp add: s3_def s2_def clear_msg_def rym_putchar_def set_stage_def TMR_TIME_MS2TICKS_def)
  let ?m = "ym_packet 0 hp"
  let ?r = "ymodem_ota_set_received_data (of_nat (length ?m)) ?m s3"
  have len: "length ?m \<le> 1040" using hp(1) by (auto simp: block_ok_def)
  note rec = received_set [OF f3(3) len]
  let ?e = "boot_FLASH_vEraseSector c (b_flash s) FLASH_DOWNLOAD_START_ADDR FLASH_DOWNLOAD_SIZE"
  have e: "FMEM (fst ?e) = mfill (b_mem s) 0x22000 0x1A000 255"
    using boot_nv.erase_ok [OF c, of FLASH_DOWNLOAD_START_ADDR FLASH_DOWNLOAD_SIZE "b_flash s"]
    by (simp add: SECTOR_def)
  define s4 where "s4 = set_stage RYM_STAGE_ESTABLISHED (?r\<lparr>ymodem_next_packet_index := 1,
     update_file_total_size := of_int v, update_file_cur_size := 0, b_flash := ?e, ymodem_ota_sem := 2\<rparr>)"
  have run4: "ym_step c junk (Msg ?m) s3 = Some s4"
    using handshake_header [OF rec(1) hp(1,2), of c junk] t3 f3 of_int_le_download [OF hp(3,4)]
    by (simp add: deliver_def ymodem_ota_def stage_if_zero_def s4_def Let_def)
  define s5 where "s5 = stage_if_zero RYM_STAGE_TRANSMITTING (rym_do_trans s4)"
  have run5: "ym_step c junk Poll s4 = Some s5"
    by (simp add: ymodem_ota_def s4_def s5_def set_stage_def)
  have "ym_run c junk (session_open n hp) s = Some s5"
  proof -
    have "session_open n hp = [Poll, Poll, Ticks n] @ [Msg ?m, Poll]" by (simp add: session_open_def)
    then show ?thesis using run2 run4 run5 by (simp only: ym_run_append) simp
  qed
  moreover have "transmitting s5" "ymodem_next_packet_index s5 = 1" "update_file_cur_size s5 = 0"
    "b_mem s5 = mfill (b_mem s) 0x22000 0x1A000 255" "boot_timers_wf (b_tmr s5)" "\<not> b_reset s5"
    using f3 e by (simp_all add: s5_def s4_def stage_if_zero_def rym_do_trans_def set_stage_def
        rym_putchar_def clear_msg_def transmitting_def)
  ultimately show ?thesis by (rule that)
qed

lemma received_single: "received [x] s \<Longrightarrow> msg_data s ! 0 = x \<and> msg_len s = 1"
  using nth_received [of "[x]" s 0] by (simp add: received_def)

lemma session_closes:
  assumes s: "transmitting s" and wf: "boot_timers_wf (b_tmr s)" and fp: "length fp = 128"
  obtains s' where "ym_run c junk (session_close fp) s = Some s'"
    "ymodem_ota_task_state s' = RYM_STAGE_RESET" "b_reset s'" "b_flash s' = b_flash s"
proof -
  have s1: "length (msg_data s) = 1040" "ymodem_ota_sem s \<noteq> 0" using s by (auto simp: transmitting_def)
  let ?recv = "\<lambda>m s. ymodem_ota_set_received_data (of_nat (length m)) m s"
  have r1: "received [RYM_CODE_EOT] (?recv [RYM_CODE_EOT] s)"
    using received_set(1) [of s "[RYM_CODE_EOT]"] s1 by simp
  define a where "a = set_stage RYM_STAGE_FINISHING (?recv [RYM_CODE_EOT] s)"
  have ra: "ym_step c junk (Msg [RYM_CODE_EOT]) s = Some a"
    using received_single [OF r1] deliver_transmitting [OF s, of c junk "[RYM_CODE_EOT]"]
    by (simp add: rym_trans_data_def Let_def stage_if_zero_def a_def)
  define b where "b = set_stage RYM_STAGE_FINISH_PACKET (rym_putchar RYM_CODE_NAK (clear_msg a))"
  have rb: "ym_step c junk Poll a = Some b"
    using s1 by (simp add: ymodem_ota_def a_def b_def set_stage_def stage_if_zero_def rym_do_fin_def)
  have b: "length (msg_data b) = 1040" "ymodem_ota_sem b \<noteq> 0" "ymodem_ota_task_state b = RYM_STAGE_FINISH_PACKET"
    "b_flash b = b_flash s" "b_tmr b = b_tmr s"
    using s1 by (simp_all add: b_def a_def set_stage_def rym_putchar_def clear_msg_def)
  have r2: "received [RYM_CODE_EOT] (?recv [RYM_CODE_EOT] b)"
    using received_set(1) [of b "[RYM_CODE_EOT]"] b by simp
  define d where "d = set_stage RYM_STAGE_FINISHED (rym_putchar RYM_CODE_C (rym_putchar RYM_CODE_ACK
      (clear_msg (?recv [RYM_CODE_EOT] b))))"
  have rd: "ym_step c junk (Msg [RYM_CODE_EOT]) b = Some d"
    using received_single [OF r2] b
    by (simp add: deliver_def ymodem_ota_def rym_trans_fin_packet_def stage_if_zero_def d_def)
  have d: "length (msg_data d) = 1040" "ymodem_ota_sem d \<noteq> 0" "ymodem_ota_task_state d = RYM_STAGE_FINISHED"
    "b_flash d = b_flash s" "b_tmr d = b_tmr s"
    using b by (simp_all add: d_def set_stage_def rym_putchar_def clear_msg_def)
  let ?m = "ym_packet 0 fp"
  have r3: "received ?m (?recv ?m d)" using received_set(1) [of d ?m] d fp by simp
  note f = received_packet [OF r3, unfolded block_ok_def fp, simplified]
  define e where "e = (set_stage RYM_STAGE_RESET ((rym_putchar RYM_CODE_ACK (?recv ?m d))\<lparr>ymodem_code := 0\<rparr>))
     \<lparr>b_tmr := boot_TMR_vSetTime (b_tmr d) TMR_YMODEM_POLLING (TMR_TIME_MS2TICKS 40)\<rparr>"
  have nz: "msg_len (?recv ?m d) \<noteq> 0" using f(6) by simp
  have re: "ym_step c junk (Msg ?m) d = Some e"
    using d f nz by (simp add: deliver_def ymodem_ota_def rym_trans_fin_def Let_def e_def rym_putchar_def)
  define g where "g = e\<lparr>b_tmr := (boot_TMR_vTickUpdate ^^ 400) (b_tmr e)\<rparr>"
  have "boot_TMR_bIsTimeExpired (b_tmr g) TMR_YMODEM_POLLING"
    using boot_tmr.expires_exactly [OF wf, of 400 TMR_YMODEM_POLLING "TMR_TIME_MS2TICKS 40"] d(5)
    by (simp add: g_def e_def TMR_TIME_MS2TICKS_def)
  then have rg: "ym_step c junk Poll g = Some (g\<lparr>b_reset := True\<rparr>)"
    using d by (simp add: ymodem_ota_def g_def e_def set_stage_def rym_putchar_def hw_cpu_reset_def)
  show ?thesis
  proof (rule that)
    show "ym_run c junk (session_close fp) s = Some (g\<lparr>b_reset := True\<rparr>)"
      using ra rb rd re rg by (simp add: session_close_def g_def)
  qed (use d in \<open>simp_all add: g_def e_def set_stage_def rym_putchar_def\<close>)
qed

section \<open>Properties\<close>

lemma session_stores:
  assumes "flash_chip_ok c" "receiver_ready s" "n < 400"
    and "block_ok hp" "header_size hp = Some v" "0 \<le> v" "v \<le> 0x1A000"
    and "\<forall>b \<in> set bs. block_ok (fst b)" "length (file_of bs) \<le> 0x1A000" "length fp = 128"
  shows "\<exists>s'. ym_run c junk (session n hp bs fp) s = Some s' \<and> b_reset s' \<and>
    b_mem s' = mwrite (mfill (b_mem s) 0x22000 0x1A000 255) 0x22000 (file_of bs)"
proof -
  obtain s1 where s1: "ym_run c junk (session_open n hp) s = Some s1" "transmitting s1"
    "ymodem_next_packet_index s1 = 1" "update_file_cur_size s1 = 0"
    "b_mem s1 = mfill (b_mem s) 0x22000 0x1A000 255" "boot_timers_wf (b_tmr s1)"
    using session_opens [OF assms(1-7)] by metis
  have er: "erased (b_mem s1) (0x22000 + unat (update_file_cur_size s1)) (length (file_of bs))"
    using assms(9) by (auto simp: s1(4,5) erased_def mem_simps)
  have room: "unat (update_file_cur_size s1) + length (file_of bs) \<le> 0x1A000"
    using assms(9) by (simp add: s1(4))
  obtain s2 where s2: "deliver_all c junk (packets 1 bs) s1 = Some s2" "transmitting s2"
    "b_mem s2 = mwrite (b_mem s1) 0x22000 (file_of bs)" "b_tmr s2 = b_tmr s1"
    using deliver_packets [OF assms(1) s1(2) assms(8) room er, of junk] s1(3,4) by auto
  obtain s3 where s3: "ym_run c junk (session_close fp) s2 = Some s3" "b_reset s3" "b_flash s3 = b_flash s2"
    using session_closes [OF s2(2) _ assms(10)] s1(6) s2(4) by metis
  have "ym_run c junk (session n hp bs fp) s = Some s3"
    using s1(1) s2(1) s3(1) by (simp add: session_def ym_run_append ym_run_msgs)
  with s3(2,3) s2(3) s1(5) show ?thesis by auto
qed

text \<open>
  C5. A Y-modem transfer delivers the file: a receiver that was just started, a sender that answers
  within 40 ms with a header announcing at most 104 KB, then sends the blocks of the file in order
  (of 128 or 1024 bytes, each repeated any number of times), ends with EOT twice and the closing
  packet: the receiver resets the processor after 40 ms, and the download area of the flash then
  holds exactly the file, followed by erased bytes.
\<close>

theorem ymodem_session_delivers:
  assumes "flash_chip_ok c" "receiver_ready s" "n < 400"
    and "block_ok hp" "header_size hp = Some v" "0 \<le> v" "v \<le> 0x1A000"
    and "\<forall>b \<in> set bs. block_ok (fst b)" "length (file_of bs) \<le> 0x1A000" "length fp = 128"
  shows "\<exists>s'. ym_run c junk (session n hp bs fp) s = Some s' \<and> b_reset s' \<and>
    b_mem s' = mwrite (mfill (b_mem s) 0x22000 0x1A000 255) 0x22000 (file_of bs)"
  by (rule session_stores [OF assms])

text \<open>The static variables at power-up, with the flash content \<open>m\<close>.\<close>

definition ymodem_init :: "memory \<Rightarrow> ymodem" where
  "ymodem_init m = \<lparr>b_tmr = replicate boot_TMR_NUM 0, b_flash = (efm_reset m, 0), b_uart = [], b_reset = False,
     ymodem_ota_sem = 0, ymodem_ota_task_state = RYM_STAGE_NONE, msg_len = 0,
     msg_data = replicate YMODEM_DMA_SIZE 0, ymodem_next_packet_index = 0, ymodem_code = 0,
     update_file_total_size = 0, update_file_cur_size = 0\<rparr>"

lemma receiver_ready_init: "receiver_ready (ymodem_start_ota (ymodem_init m))"
  by (simp add: receiver_ready_def ymodem_start_ota_def ymodem_init_def boot_timers_wf_def
      boot_TMR_bIsTimeExpired_def boot_TMR_NUM_def)

text \<open>A header: the name \<open>a\<close>, the size \<open>128\<close>.\<close>

definition example_header :: bytes where
  "example_header = [0x61, 0, 0x31, 0x32, 0x38, 0] @ replicate 122 0"

lemma example_header: "block_ok example_header" "header_size example_header = Some 128"
  by (simp_all add: example_header_def block_ok_def header_size_def second_string_def atol_def
      unsigned_value_def is_space_def is_digit_def digits_value_def clamp_long_def)

theorem ymodem_session_delivers_witness:
  "\<exists>s'. ym_run nor_chip 0 (session 5 example_header [(replicate 128 7, 2)] (replicate 128 0))
      (ymodem_start_ota (ymodem_init (\<lambda>_. 0))) = Some s' \<and> b_reset s' \<and>
    b_mem s' 0x2207F = 7 \<and> b_mem s' 0x22080 = 255 \<and> b_mem s' 0x21FFF = 0"
proof -
  obtain s' where s': "ym_run nor_chip 0 (session 5 example_header [(replicate 128 7, 2)] (replicate 128 0))
      (ymodem_start_ota (ymodem_init (\<lambda>_. 0))) = Some s'" "b_reset s'"
    "b_mem s' = mwrite (mfill (\<lambda>_. 0) 0x22000 0x1A000 255) 0x22000 (replicate 128 7)"
    using ymodem_session_delivers [OF nor_chip_ok receiver_ready_init _ example_header,
        where n = 5 and bs = "[(replicate 128 7, 2)]" and fp = "replicate 128 0" and junk = 0]
    by (fastforce simp: block_ok_def ymodem_start_ota_def ymodem_init_def efm_reset_def)
  then show ?thesis by (intro exI [of _ s']) (simp add: mwrite_def mfill_def)
qed

lemma corrupted_crc:
  assumes r: "received ((ym_packet i p)[3 + j := x]) s"
    and p: "block_ok p" "j < length p" "x \<noteq> p ! j"
  shows "msg_data s ! 0 = (if length p = 128 then RYM_CODE_SOH else RYM_CODE_STX)"
    "msg_data s ! 1 = i" "msg_data s ! 2 = NOT i" "unat (msg_len s) = length p + 5"
    "be16 (msg_data s ! (length p + 3)) (msg_data s ! (length p + 4)) \<noteq>
       CRC16 (take (length p) (drop 3 (msg_data s)))"
proof -
  define q where "q = p[j := x]"
  let ?m = "(ym_packet i p)[3 + j := x]"
  have q: "length q = length p" using p(2) by (simp add: q_def)
  have m: "?m = [if length p = 128 then RYM_CODE_SOH else RYM_CODE_STX, i, NOT i] @ q @
     [ucast (drop_bit 8 (CRC16 p)), ucast (CRC16 p)]"
    using p(2) by (simp add: ym_packet_def q_def list_update_append numeral_3_eq_3)
  note n = nth_received [OF r, unfolded m]
  show "msg_data s ! 0 = (if length p = 128 then RYM_CODE_SOH else RYM_CODE_STX)"
    "msg_data s ! 1 = i" "msg_data s ! 2 = NOT i"
    using n [of 0] n [of 1] n [of 2] by simp_all
  have len: "length ?m = length p + 5" unfolding m using q by simp
  have "length p \<le> 1024" using p(1) by (auto simp: block_ok_def)
  moreover have "msg_len s = of_nat (length p + 5)" using r len by (simp only: received_def)
  ultimately show "unat (msg_len s) = length p + 5" by (simp only: unat_of_nat_u32)
  have "take (length p) (drop 3 (take (length p + 5) (msg_data s))) = q"
  proof -
    have "take (length p + 5) (msg_data s) = ?m" using r len by (simp only: received_def)
    then show ?thesis unfolding m using q by simp
  qed
  then have t: "take (length p) (drop 3 (msg_data s)) = q" by (simp add: take_drop min_def)
  have "msg_data s ! (length p + 3) = ucast (drop_bit 8 (CRC16 p))" "msg_data s ! (length p + 4) = ucast (CRC16 p)"
    using n [of "length p + 3"] n [of "length p + 4"] q by (simp_all add: nth_append)
  then have "be16 (msg_data s ! (length p + 3)) (msg_data s ! (length p + 4)) = CRC16 p"
    by (simp add: be16_split)
  moreover have "CRC16 p \<noteq> CRC16 q"
  proof -
    have "p = take j p @ p ! j # drop (Suc j) p" using p(2) by (simp add: id_take_nth_drop)
    moreover have "CRC16 (take j p @ p ! j # drop (Suc j) p) \<noteq> CRC16 q"
      unfolding q_def upd_conv_take_nth_drop [OF p(2)] CRC16_foldl_step ccitt.foldl_step using p(3) by (intro ccitt.one_byte_changes) simp
    ultimately show ?thesis by simp
  qed
  ultimately show "be16 (msg_data s ! (length p + 3)) (msg_data s ! (length p + 4)) \<noteq>
       CRC16 (take (length p) (drop 3 (msg_data s)))" using t by simp
qed

text \<open>
  C25. The checksum protects the flash: when one payload byte of a correct data packet is corrupted on
  the line, the receiver answers NAK, keeps waiting for the same packet number and leaves the flash
  and the received size alone.
\<close>

theorem corrupted_packet_rejected:
  assumes "transmitting s" "block_ok p" "j < length p" "x \<noteq> p ! j"
  shows "\<exists>s'. deliver c junk ((ym_packet i p)[3 + j := x]) s = Some s' \<and> transmitting s' \<and>
    b_flash s' = b_flash s \<and> b_uart s' = b_uart s @ [RYM_CODE_NAK] \<and>
    ymodem_next_packet_index s' = ymodem_next_packet_index s \<and>
    update_file_cur_size s' = update_file_cur_size s"
proof -
  let ?m = "(ym_packet i p)[3 + j := x]"
  let ?s = "ymodem_ota_set_received_data (of_nat (length ?m)) ?m s"
  have len: "length ?m \<le> 1040" "length (msg_data s) = 1040"
    using assms by (auto simp: block_ok_def transmitting_def)
  note f = corrupted_crc [OF received_set(1) [OF len(2,1)] assms(2-4)]
  have n: "unat (msg_len ?s) - 2 = length p + 3" "unat (msg_len ?s) - 1 = length p + 4" "msg_len ?s \<noteq> 0"
    using f(4) by (auto simp: unat_eq_zero [symmetric])
  have c: "unat (msg_data ?s ! 1) + unat (msg_data ?s ! 2) = 0xFF"
    unfolding f(2,3) by (rule unat_complement)
  have "rym_trans_data c ?s = exit_reception RYM_CODE_NAK ?s"
  proof -
    consider "length p = 128" | "length p = 1024" using assms(2) by (auto simp: block_ok_def)
    then show ?thesis
      by cases (use f(1,5) n c in \<open>simp add: rym_trans_data_def Let_def\<close>)+
  qed
  then show ?thesis
    using deliver_transmitting [OF assms(1), of c junk ?m] assms(1)
    by (auto simp: exit_reception_NAK stage_if_zero_def transmitting_def rym_putchar_def clear_msg_def)
qed

text \<open>A receiver in the transmission stage, for the witnesses.\<close>

definition example_transmitting :: "memory \<Rightarrow> u32 \<Rightarrow> ymodem" where
  "example_transmitting m cur = (ymodem_init m)\<lparr>ymodem_ota_sem := 2, ymodem_ota_task_state := RYM_STAGE_TRANSMITTING,
     ymodem_next_packet_index := 1, update_file_cur_size := cur\<rparr>"

lemma example_transmitting:
  "unat cur mod 128 = 0 \<Longrightarrow> transmitting (example_transmitting m cur)"
  "ymodem_next_packet_index (example_transmitting m cur) = 1"
  "update_file_cur_size (example_transmitting m cur) = cur" "b_mem (example_transmitting m cur) = m"
  "b_flash (example_transmitting m cur) = (efm_reset m, 0)" "b_uart (example_transmitting m cur) = []"
  by (simp_all add: example_transmitting_def transmitting_def ymodem_init_def efm_reset_def)

theorem corrupted_packet_rejected_witness:
  "\<exists>s'. deliver nor_chip 0 ((ym_packet 1 (replicate 128 7))[3 + 9 := 8]) (example_transmitting (\<lambda>_. 255) 0) = Some s' \<and>
    b_uart s' = [RYM_CODE_NAK]"
  using corrupted_packet_rejected [of "example_transmitting (\<lambda>_. 255) 0" "replicate 128 7" 9 8 nor_chip 0 1]
  by (fastforce simp: example_transmitting block_ok_def)

text \<open>
  A skipped packet goes unnoticed: in the transmission stage a correct data packet whose number
  is not the expected one is acknowledged like any other, but nothing is written and the expected
  number stays. When packet \<open>i\<close> is lost, the sender sees every later packet confirmed while the
  receiver stores none of them.
\<close>

theorem skipped_packet_acknowledged:
  assumes "transmitting s" "block_ok p" "i \<noteq> ymodem_next_packet_index s"
  shows "\<exists>s'. deliver c junk (ym_packet i p) s = Some s' \<and> transmitting s' \<and>
    b_uart s' = b_uart s @ [RYM_CODE_ACK] \<and> b_flash s' = b_flash s \<and>
    ymodem_next_packet_index s' = ymodem_next_packet_index s \<and>
    update_file_cur_size s' = update_file_cur_size s"
  using deliver_other [OF assms, of c junk] by metis

theorem skipped_packet_acknowledged_witness:
  "\<exists>s'. deliver nor_chip 0 (ym_packet 2 (replicate 128 7)) (example_transmitting (\<lambda>_. 255) 0) = Some s' \<and>
    b_uart s' = [RYM_CODE_ACK] \<and> b_mem s' = (\<lambda>_. 255)"
  using skipped_packet_acknowledged [of "example_transmitting (\<lambda>_. 255) 0" "replicate 128 7" 2 nor_chip 0]
  by (fastforce simp: example_transmitting block_ok_def efm_reset_def)

definition handshaking :: "'a ymodem_scheme \<Rightarrow> bool" where
  "handshaking s \<longleftrightarrow> ymodem_ota_sem s \<noteq> 0 \<and> ymodem_ota_task_state s = RYM_STAGE_ESTABLISHING \<and>
     length (msg_data s) = 1040 \<and> \<not> boot_TMR_bIsTimeExpired (b_tmr s) TMR_YMODEM_POLLING"

lemma deliver_big_header:
  assumes s: "handshaking s" and hp: "block_ok hp" "header_size hp = Some v"
    and big: "FLASH_DOWNLOAD_SIZE < of_int v"
  obtains s' where "deliver c junk (ym_packet 0 hp) s = Some s'" "handshaking s'"
    "ymodem_next_packet_index s' = ymodem_next_packet_index s + 1"
    "b_flash s' = b_flash s" "b_uart s' = b_uart s"
proof -
  let ?m = "ym_packet 0 hp"
  let ?r = "ymodem_ota_set_received_data (of_nat (length ?m)) ?m s"
  have len: "length ?m \<le> 1040" "length (msg_data s) = 1040"
    using hp(1) s by (auto simp: block_ok_def handshaking_def)
  note rec = received_set [OF len(2,1)]
  have "deliver c junk ?m s = Some (?r\<lparr>ymodem_next_packet_index := ymodem_next_packet_index s + 1,
     update_file_total_size := of_int v, update_file_cur_size := 0\<rparr>)"
    using handshake_header [OF rec(1) hp, of c junk] s big
    by (simp add: deliver_def ymodem_ota_def handshaking_def stage_if_zero_def Let_def)
  then show ?thesis
    by (rule that) (use rec(2) s in \<open>auto simp: handshaking_def\<close>)
qed

lemma deliver_good_header:
  assumes c: "flash_chip_ok c" and s: "handshaking s" and hp: "block_ok hp" "header_size hp = Some v"
    and v: "0 \<le> v" "v \<le> 0x1A000"
  obtains s' where "ym_run c junk [Msg (ym_packet 0 hp), Poll] s = Some s'" "transmitting s'"
    "ymodem_next_packet_index s' = ymodem_next_packet_index s + 1" "update_file_cur_size s' = 0"
    "b_mem s' = mfill (b_mem s) 0x22000 0x1A000 255" "b_uart s' = b_uart s @ [RYM_CODE_ACK, RYM_CODE_C]"
proof -
  let ?m = "ym_packet 0 hp"
  let ?r = "ymodem_ota_set_received_data (of_nat (length ?m)) ?m s"
  have len: "length ?m \<le> 1040" "length (msg_data s) = 1040"
    using hp(1) s by (auto simp: block_ok_def handshaking_def)
  note rec = received_set [OF len(2,1)]
  let ?e = "boot_FLASH_vEraseSector c (b_flash s) FLASH_DOWNLOAD_START_ADDR FLASH_DOWNLOAD_SIZE"
  have e: "FMEM (fst ?e) = mfill (b_mem s) 0x22000 0x1A000 255"
    using boot_nv.erase_ok [OF c, of FLASH_DOWNLOAD_START_ADDR FLASH_DOWNLOAD_SIZE "b_flash s"]
    by (simp add: SECTOR_def)
  define s1 where "s1 = set_stage RYM_STAGE_ESTABLISHED (?r\<lparr>ymodem_next_packet_index := ymodem_next_packet_index s + 1,
     update_file_total_size := of_int v, update_file_cur_size := 0, b_flash := ?e, ymodem_ota_sem := 2\<rparr>)"
  have 1: "ym_step c junk (Msg ?m) s = Some s1"
    using handshake_header [OF rec(1) hp, of c junk] s of_int_le_download [OF v]
    by (simp add: deliver_def ymodem_ota_def handshaking_def stage_if_zero_def s1_def Let_def)
  have 2: "ym_step c junk Poll s1 = Some (stage_if_zero RYM_STAGE_TRANSMITTING (rym_do_trans s1))"
    by (simp add: ymodem_ota_def s1_def set_stage_def)
  show ?thesis
    by (rule that [of "stage_if_zero RYM_STAGE_TRANSMITTING (rym_do_trans s1)"])
      (use 1 2 e in \<open>simp_all add: s1_def stage_if_zero_def rym_do_trans_def set_stage_def
        rym_putchar_def clear_msg_def transmitting_def\<close>)
qed

text \<open>
  A rejected header spoils the next transfer. After a header whose announced size exceeds the
  download area the receiver stays in the handshake but has already counted the packet; when the
  sender then offers a file that fits, its first data packet is acknowledged without being stored and
  its second one is written to the start of the download area.
\<close>

theorem rejected_header_shifts_file:
  assumes "flash_chip_ok c" "handshaking s" "ymodem_next_packet_index s = 0"
    and "block_ok hp" "header_size hp = Some v" "FLASH_DOWNLOAD_SIZE < of_int v"
    and "block_ok gp" "header_size gp = Some w" "0 \<le> w" "w \<le> 0x1A000"
    and "block_ok p1" "block_ok p2"
  shows "\<exists>s'. ym_run c junk [Msg (ym_packet 0 hp), Msg (ym_packet 0 gp), Poll,
       Msg (ym_packet 1 p1), Msg (ym_packet 2 p2)] s = Some s' \<and> transmitting s' \<and>
     b_uart s' = b_uart s @ [RYM_CODE_ACK, RYM_CODE_C, RYM_CODE_ACK, RYM_CODE_ACK] \<and>
     mread (b_mem s') 0x22000 (length p2) = p2"
proof -
  obtain s1 where s1: "deliver c junk (ym_packet 0 hp) s = Some s1" "handshaking s1"
    "ymodem_next_packet_index s1 = 1" "b_uart s1 = b_uart s"
    using deliver_big_header [OF assms(2,4,5,6)] assms(3) by (metis add.left_neutral)
  obtain s2 where s2: "ym_run c junk [Msg (ym_packet 0 gp), Poll] s1 = Some s2" "transmitting s2"
    "ymodem_next_packet_index s2 = 2" "update_file_cur_size s2 = 0"
    "b_mem s2 = mfill (b_mem s1) 0x22000 0x1A000 255" "b_uart s2 = b_uart s @ [RYM_CODE_ACK, RYM_CODE_C]"
    using deliver_good_header [OF assms(1) s1(2) assms(7-10)] s1(3,4) by (metis one_add_one)
  obtain s3 where s3: "deliver c junk (ym_packet 1 p1) s2 = Some s3" "transmitting s3"
    "ymodem_next_packet_index s3 = 2" "update_file_cur_size s3 = 0" "b_flash s3 = b_flash s2"
    "b_uart s3 = b_uart s2 @ [RYM_CODE_ACK]"
  proof -
    have "(1 :: u8) \<noteq> ymodem_next_packet_index s2" using s2(3) by simp
    from deliver_other [OF s2(2) assms(11) this, of c junk] s2(3,4) show ?thesis using that by metis
  qed
  have "length p2 \<le> 1024" using assms(12) by (auto simp: block_ok_def)
  then have er: "erased (b_mem s3) (0x22000 + unat (update_file_cur_size s3)) (length p2)"
    by (simp add: s3(4,5) s2(5) erased_def mem_simps)
  obtain s4 where s4: "deliver c junk (ym_packet 2 p2) s3 = Some s4" "transmitting s4"
    "b_mem s4 = mwrite (b_mem s3) 0x22000 p2" "b_uart s4 = b_uart s3 @ [RYM_CODE_ACK]"
    using deliver_next [OF assms(1) s3(2) assms(12) _ er] s3(3,4) \<open>length p2 \<le> 1024\<close> by auto
  from s2(1) obtain t where t: "deliver c junk (ym_packet 0 gp) s1 = Some t" "ymodem_ota c junk t = Some s2"
    by (auto split: Option.bind_splits)
  show ?thesis
    using s1(1) t s3(1) s4 s3(6) s2(6) by (intro exI [of _ s4]) (simp add: mem_simps)
qed

text \<open>A header with the name \<open>a\<close> and the size 200000, more than 104 KB.\<close>

definition big_header :: bytes where
  "big_header = [0x61, 0, 0x32, 0x30, 0x30, 0x30, 0x30, 0x30, 0] @ replicate 119 0"

lemma big_header: "block_ok big_header" "header_size big_header = Some 200000"
  by (simp_all add: big_header_def block_ok_def header_size_def second_string_def atol_def
      unsigned_value_def is_space_def is_digit_def digits_value_def clamp_long_def)

definition example_handshaking :: ymodem where
  "example_handshaking = (ymodem_init (\<lambda>_. 0))\<lparr>ymodem_ota_sem := 1,
     ymodem_ota_task_state := RYM_STAGE_ESTABLISHING, b_tmr := replicate boot_TMR_NUM 7\<rparr>"

lemma example_handshaking: "handshaking example_handshaking" "ymodem_next_packet_index example_handshaking = 0"
  "b_uart example_handshaking = []" "msg_data example_handshaking = replicate 1040 0"
  by (simp_all add: example_handshaking_def handshaking_def ymodem_init_def boot_TMR_bIsTimeExpired_def
      boot_TMR_NUM_def)

theorem rejected_header_shifts_file_witness:
  "\<exists>s'. ym_run nor_chip 0 [Msg (ym_packet 0 big_header), Msg (ym_packet 0 example_header), Poll,
       Msg (ym_packet 1 (replicate 128 1)), Msg (ym_packet 2 (replicate 128 2))] example_handshaking = Some s' \<and>
     mread (b_mem s') 0x22000 128 = replicate 128 2"
  using rejected_header_shifts_file [OF nor_chip_ok example_handshaking(1,2) big_header _ example_header,
      of "replicate 128 1" "replicate 128 2" 0]
  by (fastforce simp: block_ok_def)

lemma CRC16_zeros: "CRC16 (replicate k 0) = 0"
  unfolding CRC16_foldl_step
proof (induction k)
  case (Suc k)
  have "ccitt.step 0 0 = 0" by (simp add: ccitt.step_crc_byte crc_byte_def)
  with Suc show ?case by simp
qed simp

lemma header_size_zeros: "3 \<le> k \<Longrightarrow> header_size (replicate k 0) = Some 0"
proof -
  assume "3 \<le> k"
  then obtain j where "k = Suc (Suc (Suc j))" by (metis le_Suc_ex numeral_3_eq_3 add_Suc)
  then show ?thesis
    by (simp add: header_size_def second_string_def atol_def unsigned_value_def is_space_def is_digit_def
        digits_value_def clamp_long_def)
qed

text \<open>
  The handshake reads an uninitialised variable. A three-byte message \<open>[b, 0, 0xFF]\<close> whose first
  byte is neither SOH nor STX is examined with whatever length \<open>junk\<close> the stack holds: between 5 and
  1040 it passes as a header (the checksum of zero bytes is zero), so the download area is erased and
  the handshake is over; below 2 or above 1040 the receive buffer is left.
\<close>

theorem garbage_header_accepted:
  assumes "flash_chip_ok c" "handshaking s" "msg_data s = replicate 1040 0" "b \<noteq> 1" "b \<noteq> 2"
  shows "(5 \<le> junk \<and> junk \<le> 1040 \<longrightarrow>
      (\<exists>s'. deliver c junk [b, 0, 0xFF] s = Some s' \<and> ymodem_ota_task_state s' = RYM_STAGE_ESTABLISHED \<and>
         b_mem s' = mfill (b_mem s) 0x22000 0x1A000 255)) \<and>
    (junk < 2 \<or> 1040 < junk \<longrightarrow> deliver c junk [b, 0, 0xFF] s = None)"
proof -
  let ?r = "ymodem_ota_set_received_data 3 [b, 0, 0xFF] s"
  have d: "msg_data ?r = [b, 0, 0xFF] @ replicate 1037 0" "msg_len ?r = 3"
  proof -
    have "drop 3 (replicate 1040 (0 :: u8)) = replicate 1037 0" by simp
    then show "msg_data ?r = [b, 0, 0xFF] @ replicate 1037 0" "msg_len ?r = 3"
      using assms(3) by (simp_all add: ymodem_ota_set_received_data_def Let_def poke_def)
  qed
  have hs: "header_size (replicate 1037 0) = Some 0" by (rule header_size_zeros) simp
  have t: "\<not> boot_TMR_bIsTimeExpired (b_tmr s) TMR_YMODEM_POLLING" "ymodem_ota_sem s \<noteq> 0"
    "ymodem_ota_task_state s = RYM_STAGE_ESTABLISHING"
    using assms(2) by (auto simp: handshaking_def)
  let ?e = "boot_FLASH_vEraseSector c (b_flash s) FLASH_DOWNLOAD_START_ADDR FLASH_DOWNLOAD_SIZE"
  have e: "FMEM (fst ?e) = mfill (b_mem s) 0x22000 0x1A000 255"
    using boot_nv.erase_ok [OF assms(1), of FLASH_DOWNLOAD_START_ADDR FLASH_DOWNLOAD_SIZE "b_flash s"]
    by (simp add: SECTOR_def)
  have acc: "\<exists>s'. deliver c junk [b, 0, 0xFF] s = Some s' \<and> ymodem_ota_task_state s' = RYM_STAGE_ESTABLISHED \<and>
         b_mem s' = mfill (b_mem s) 0x22000 0x1A000 255" if j: "5 \<le> junk" "junk \<le> 1040"
  proof -
    define n where "n = unat junk"
    have n: "5 \<le> n" "n \<le> 1040" using j by (auto simp: n_def word_le_nat_alt)
    have z: "msg_data ?r ! (n - 2) = 0" "msg_data ?r ! (n - 1) = 0"
      using n by (auto simp: d nth_Cons' )
    have crc: "CRC16 (take (n - 5) (drop 3 (msg_data ?r))) = 0"
      using n by (simp add: d CRC16_zeros)
    have nj: "\<not> junk < 2" "\<not> 1040 < junk" using n by (auto simp: n_def word_less_nat_alt)
    have dr: "drop 3 (msg_data ?r) = replicate 1037 0" by (simp add: d)
    have "rym_do_handshake c junk ?r =
        Some (0, ?r\<lparr>ymodem_next_packet_index := ymodem_next_packet_index s + 1, update_file_total_size := 0,
          update_file_cur_size := 0, b_flash := ?e, ymodem_ota_sem := 2\<rparr>)"
      using t assms(4,5) nj z crc hs dr
      by (simp add: rym_do_handshake_def Let_def ymodem_on_begin_size d(2) n_def [symmetric] be16_def)
        (simp add: d(1))
    then show ?thesis
      using t e by (auto simp: deliver_def ymodem_ota_def stage_if_zero_def set_stage_def)
  qed
  have "deliver c junk [b, 0, 0xFF] s = None" if "junk < 2 \<or> 1040 < junk"
    using t assms(4,5) that
    by (auto simp: deliver_def ymodem_ota_def rym_do_handshake_def Let_def d)
  with acc show ?thesis by blast
qed

theorem garbage_header_accepted_witness:
  "deliver nor_chip 0 [0x41, 0, 0xFF] example_handshaking = None"
  using garbage_header_accepted [OF nor_chip_ok example_handshaking(1,4), where b = "0x41" and junk = 0] by simp

end
