(* ===== verification/CanIap.thy ===== *)
theory CanIap
  imports Ymodem Ring
begin

text \<open>
  The CAN stack of the bootloader: message scheduling and dispatch (source/CAN/can.c), the message
  tables and services (source/Board2Board/Board2Board.c) and the in-application programming protocol
  in both roles, client and server (source/can_iap.c). The state extends the record of theory Ymodem.
  The CAN controller is hardware: a received frame and the answer "transmit buffer full" are arguments,
  the frames handed to it are collected in \<open>can_sent\<close>. A result \<open>None\<close> is an access behind the
  one-entry table \<open>CAN_tObjectTable\<close>.
\<close>

section \<open>State\<close>

datatype TCanStatusDef =
    CAN_STATUS_INITIALISING | CAN_STATUS_DISCONNECTED | CAN_STATUS_CONNECTING | CAN_STATUS_PREPARING
  | CAN_STATUS_STOPPED | CAN_STATUS_OPERATIONAL | CAN_STATUS_PRE_OPERATIONAL | CAN_STATUS_NUM

primrec can_status_ix :: "TCanStatusDef \<Rightarrow> u8" where
  "can_status_ix CAN_STATUS_INITIALISING = 0"
| "can_status_ix CAN_STATUS_DISCONNECTED = 1"
| "can_status_ix CAN_STATUS_CONNECTING = 2"
| "can_status_ix CAN_STATUS_PREPARING = 3"
| "can_status_ix CAN_STATUS_STOPPED = 4"
| "can_status_ix CAN_STATUS_OPERATIONAL = 5"
| "can_status_ix CAN_STATUS_PRE_OPERATIONAL = 6"
| "can_status_ix CAN_STATUS_NUM = 7"

datatype TCanTaskStateDef = CAN_TASK_INIT | CAN_TASK_RUN

datatype iap_stage =
    IAP_STAGE_NONE | IAP_STAGE_ESTABLISHING | IAP_STAGE_ESTABLISHED | IAP_STAGE_TRANSMITTING
  | IAP_STAGE_FINISHING | IAP_STAGE_FINISHED | IAP_SERVER_STAGE_OFFLINE | IAP_SERVER_STAGE_ESTABLISHING
  | IAP_SERVER_STAGE_TRANSMITTING | IAP_SERVER_STAGE_FINISHING | IAP_SERVER_STAGE_FINISHED

text \<open>
  The driver keeps the standard and the extended identifier of a frame in one word (a union) and \<open>IDE\<close>
  says which it is; here they are two fields, of which the code only uses the one that \<open>IDE\<close> names.
\<close>

record can_frame =
  StdID :: u32
  ExtID :: u32
  IDE :: bool
  RTR :: u32
  DLC :: u32
  Data :: bytes

record TIapCmdDef =
  opcode :: u8
  node_addr :: u8
  status :: u8

record canstack = ymodem +
  CAN_tTxPacket :: can_frame
  can_sent :: "can_frame list"
  CAN_tRxPacket :: "can_frame list"
  CAN_ucRxPacketHeadIndex :: u8
  CAN_ucRxPacketTailIndex :: u8
  CAN_tTaskState :: TCanTaskStateDef
  CAN_tBusStatus :: u8
  CAN_uiTransmitFlagSubsystemIndex :: u16
  CAN_ucSubsystemIndex :: u8
  CAN_tNodeStatus :: TCanStatusDef
  B2B_ucTransmitFlags :: bytes
  iap_cmd :: TIapCmdDef
  iap_data :: bytes
  can_iap_sem :: u8
  can_task_state :: iap_stage
  next_packet_index :: u8
  iap_update_file_cur_size :: u32
  can_msg_transfer_count :: u8
  can_iap_target_device :: u8
  can_iap_handshake :: u8
  can_iap_next_data_address :: u32
  iap_msg_id :: u32
  iap_msg_data :: bytes
  app_file_size :: u32

abbreviation (input) CAN_NODE_BOARDS :: u8 where "CAN_NODE_BOARDS \<equiv> 0"
abbreviation (input) CAN_NODE_ID_BROADCAST :: u8 where "CAN_NODE_ID_BROADCAST \<equiv> 0"
abbreviation (input) CAN_NODE_ID_TND_CTL :: u8 where "CAN_NODE_ID_TND_CTL \<equiv> 1"
abbreviation (input) CAN_NODE_ID_TND_INT :: u8 where "CAN_NODE_ID_TND_INT \<equiv> 2"
abbreviation (input) CAN_NODE_ID_TND_DRV :: u8 where "CAN_NODE_ID_TND_DRV \<equiv> 3"
abbreviation (input) CAN_NODE_ID_TND_SNR :: u8 where "CAN_NODE_ID_TND_SNR \<equiv> 4"
abbreviation (input) CAN_NODE_ID :: u8 where "CAN_NODE_ID \<equiv> CAN_NODE_ID_TND_SNR"
abbreviation (input) CAN_MSG_ID_END :: u32 where "CAN_MSG_ID_END \<equiv> 0xFFFFFFFF"
abbreviation (input) CAN_MSG_ID_NMT_GUARDING :: u32 where "CAN_MSG_ID_NMT_GUARDING \<equiv> 0x704"
abbreviation (input) CAN_MSG_ID_NMT_CTRL :: u32 where "CAN_MSG_ID_NMT_CTRL \<equiv> 0x000"
abbreviation (input) CAN_MSG_ID_IAP_DATA :: u32 where "CAN_MSG_ID_IAP_DATA \<equiv> 0x10000000"
abbreviation (input) CAN_MSG_ID_IAP_CMD :: u32 where "CAN_MSG_ID_IAP_CMD \<equiv> 0x11000000"
abbreviation (input) CAN_RTR_DATA :: u32 where "CAN_RTR_DATA \<equiv> 0"
abbreviation (input) CAN_RTR_REMOTE :: u32 where "CAN_RTR_REMOTE \<equiv> 1"
abbreviation (input) B2B_MSGIDX_SEND_NMT_STATUS :: u8 where "B2B_MSGIDX_SEND_NMT_STATUS \<equiv> 0"
abbreviation (input) B2B_MSGIDX_SEND_IAP_CMD :: u8 where "B2B_MSGIDX_SEND_IAP_CMD \<equiv> 1"
abbreviation (input) B2B_MSGIDX_SEND_IAP_DATA :: u8 where "B2B_MSGIDX_SEND_IAP_DATA \<equiv> 2"
abbreviation (input) B2B_MSGIDX_NMT_CTRL :: u8 where "B2B_MSGIDX_NMT_CTRL \<equiv> 3"
abbreviation (input) B2B_TXIDX_COUNT :: u8 where "B2B_TXIDX_COUNT \<equiv> 4"
abbreviation (input) CAN_IAP_REQUEST :: u8 where "CAN_IAP_REQUEST \<equiv> 0"
abbreviation (input) CAN_IAP_REQUEST_ACK :: u8 where "CAN_IAP_REQUEST_ACK \<equiv> 1"
abbreviation (input) CAN_IAP_REQUEST_ACK_CONFIRM :: u8 where "CAN_IAP_REQUEST_ACK_CONFIRM \<equiv> 2"
abbreviation (input) CAN_IAP_STATUS :: u8 where "CAN_IAP_STATUS \<equiv> 3"
abbreviation (input) CAN_IAP_CLENT_MODE :: u8 where "CAN_IAP_CLENT_MODE \<equiv> 1"
abbreviation (input) CAN_IAP_CLENT_MODE_DATA :: u8 where "CAN_IAP_CLENT_MODE_DATA \<equiv> 2"
abbreviation (input) CAN_IAP_SERVER_MODE :: u8 where "CAN_IAP_SERVER_MODE \<equiv> 3"
abbreviation (input) IAP_CODE_EOT :: u8 where "IAP_CODE_EOT \<equiv> 0x04"
abbreviation (input) IAP_CODE_ACK :: u8 where "IAP_CODE_ACK \<equiv> 0x06"
abbreviation (input) IAP_CODE_NAK :: u8 where "IAP_CODE_NAK \<equiv> 0x15"
abbreviation (input) IAP_CODE_CAN :: u8 where "IAP_CODE_CAN \<equiv> 0x18"
abbreviation (input) IAP_CODE_C :: u8 where "IAP_CODE_C \<equiv> 0x43"
abbreviation (input) IAP_ERR_SEQ :: int where "IAP_ERR_SEQ \<equiv> 0x72"
abbreviation (input) IAP_ERR_CAN :: int where "IAP_ERR_CAN \<equiv> 0x75"

section \<open>Bits of a byte field\<close>

definition CAN_vSetBit :: "bytes \<Rightarrow> u16 \<Rightarrow> bool \<Rightarrow> bytes" where
  "CAN_vSetBit f uiBitId on =
    (let ucByte = unat (uiBitId div 8);
         ucBitMask = push_bit (unat (uiBitId mod 8)) 1
     in f[ucByte := (if on then f ! ucByte OR ucBitMask else f ! ucByte AND NOT ucBitMask)])"

definition CAN_ucGetBit :: "bytes \<Rightarrow> u16 \<Rightarrow> u8" where
  "CAN_ucGetBit f uiBitId =
    (let ucByte = unat (uiBitId div 8);
         ucBitMask = push_bit (unat (uiBitId mod 8)) 1
     in f ! ucByte AND ucBitMask)"

section \<open>Scheduling a message\<close>

text \<open>The loop over the one-entry table \<open>CAN_tObjectTable\<close>.\<close>

definition CAN_tObjectTable :: "u8 list" where
  "CAN_tObjectTable = [CAN_NODE_BOARDS]"

fun subsystem_from :: "u8 \<Rightarrow> u8 list \<Rightarrow> u8 \<Rightarrow> u8" where
  "subsystem_from i [] ucSubsystem = 0xFF"
| "subsystem_from i (t # ts) ucSubsystem = (if t = ucSubsystem then i else subsystem_from (i + 1) ts ucSubsystem)"

definition CAN_ucGetSubsystemIndex :: "u8 \<Rightarrow> u8" where
  "CAN_ucGetSubsystemIndex ucSubsystem = subsystem_from 0 CAN_tObjectTable ucSubsystem"

definition CAN_vTransmitMessage :: "u8 \<Rightarrow> u8 \<Rightarrow> 'a canstack_scheme \<Rightarrow> 'a canstack_scheme" where
  "CAN_vTransmitMessage ucSubsystem ucMessageNumber s =
    (if CAN_NODE_BOARDS \<noteq> ucSubsystem \<or>
        (CAN_STATUS_STOPPED = CAN_tNodeStatus s \<and> ucMessageNumber < B2B_MSGIDX_SEND_NMT_STATUS)
     then s
     else let ucSubsystemIndex = CAN_ucGetSubsystemIndex ucSubsystem
          in if ucSubsystemIndex \<noteq> 0xFF
             then if ucMessageNumber < B2B_TXIDX_COUNT
                  then s\<lparr>CAN_uiTransmitFlagSubsystemIndex :=
                           CAN_uiTransmitFlagSubsystemIndex s OR push_bit (unat ucSubsystemIndex) 1,
                         B2B_ucTransmitFlags := CAN_vSetBit (B2B_ucTransmitFlags s) (ucast ucMessageNumber) True\<rparr>
                  else s
             else s)"

definition CAN_vSetCanStatus :: "TCanStatusDef \<Rightarrow> 'a canstack_scheme \<Rightarrow> 'a canstack_scheme" where
  "CAN_vSetCanStatus t s = (if can_status_ix t < can_status_ix CAN_STATUS_NUM then s\<lparr>CAN_tNodeStatus := t\<rparr> else s)"

definition CAN_tGetCanStatus :: "'a canstack_scheme \<Rightarrow> TCanStatusDef" where
  "CAN_tGetCanStatus s = CAN_tNodeStatus s"

definition set_iap_cmd :: "TIapCmdDef \<Rightarrow> 'a canstack_scheme \<Rightarrow> 'a canstack_scheme" where
  "set_iap_cmd cmd s = (if opcode cmd \<le> CAN_IAP_STATUS then s\<lparr>iap_cmd := cmd\<rparr> else s)"

definition set_iap_data :: "u32 \<Rightarrow> 'a canstack_scheme \<Rightarrow> 'a canstack_scheme" where
  "set_iap_data addr s = s\<lparr>iap_data := mread (b_mem s) (unat addr) 8\<rparr>"

section \<open>The small entry points of can_iap.c\<close>

definition can_start_iap :: "u8 \<Rightarrow> 'a canstack_scheme \<Rightarrow> 'a canstack_scheme" where
  "can_start_iap sem_value s = s\<lparr>can_iap_sem := sem_value\<rparr>"

definition can_iap_task_init :: "'a canstack_scheme \<Rightarrow> 'a canstack_scheme" where
  "can_iap_task_init s = s\<lparr>can_iap_sem := CAN_IAP_CLENT_MODE, can_task_state := IAP_STAGE_ESTABLISHING\<rparr>"

definition can_is_data_received :: "'a canstack_scheme \<Rightarrow> bool" where
  "can_is_data_received s \<longleftrightarrow> can_iap_sem s = CAN_IAP_CLENT_MODE_DATA"

definition can_set_received_data :: "u32 \<Rightarrow> bytes \<Rightarrow> 'a canstack_scheme \<Rightarrow> 'a canstack_scheme" where
  "can_set_received_data msg_id d s = s\<lparr>iap_msg_id := msg_id, iap_msg_data := take 8 d\<rparr>"

definition can_set_target_device :: "u8 \<Rightarrow> 'a canstack_scheme \<Rightarrow> 'a canstack_scheme" where
  "can_set_target_device device_id s = s\<lparr>can_iap_target_device := device_id\<rparr>"

definition can_get_msg_exd_id :: "'a canstack_scheme \<Rightarrow> u32" where
  "can_get_msg_exd_id s = CAN_MSG_ID_IAP_DATA + push_bit 16 (ucast (can_iap_target_device s))
     + push_bit 8 (ucast (next_packet_index s)) + (255 - ucast (next_packet_index s))"

definition can_iap_get_task_state :: "'a canstack_scheme \<Rightarrow> iap_stage" where
  "can_iap_get_task_state s = can_task_state s"

definition clear_iap_msg :: "'a canstack_scheme \<Rightarrow> 'a canstack_scheme" where
  "clear_iap_msg s = s\<lparr>iap_msg_id := 0, iap_msg_data := replicate 8 0\<rparr>"

section \<open>Services of Board2Board.c\<close>

definition for_this_node :: "u8 \<Rightarrow> bool" where
  "for_this_node n \<longleftrightarrow> CAN_NODE_ID_BROADCAST = n \<or> CAN_NODE_ID_TND_SNR = n"

definition B2B_vRxNMTControl :: "can_frame \<Rightarrow> 'a canstack_scheme \<Rightarrow> 'a canstack_scheme" where
  "B2B_vRxNMTControl f s =
    (if for_this_node (Data f ! 1)
     then let cmd = Data f ! 0
          in if 1 = cmd then CAN_vSetCanStatus CAN_STATUS_OPERATIONAL s
             else if 2 = cmd then CAN_vSetCanStatus CAN_STATUS_STOPPED s else s
     else s)"

definition B2B_vRxNMTGuarding :: "can_frame \<Rightarrow> 'a canstack_scheme \<Rightarrow> 'a canstack_scheme" where
  "B2B_vRxNMTGuarding f s = CAN_vTransmitMessage CAN_NODE_BOARDS B2B_MSGIDX_SEND_NMT_STATUS s"

definition B2B_vRxIapData :: "can_frame \<Rightarrow> 'a canstack_scheme \<Rightarrow> 'a canstack_scheme" where
  "B2B_vRxIapData f s = can_set_received_data (ExtID f) (Data f) s"

definition B2B_vRxCanIapCmd :: "can_frame \<Rightarrow> 'a canstack_scheme \<Rightarrow> 'a canstack_scheme" where
  "B2B_vRxCanIapCmd f s =
    (let op = Data f ! 0
     in if op = CAN_IAP_REQUEST
        then if for_this_node (Data f ! 1)
             then CAN_vTransmitMessage CAN_NODE_BOARDS B2B_MSGIDX_SEND_IAP_CMD
                    (s\<lparr>iap_cmd := (iap_cmd s)\<lparr>opcode := CAN_IAP_REQUEST_ACK\<rparr>\<rparr>)
             else s
        else if op = CAN_IAP_REQUEST_ACK then can_set_received_data (ExtID f) (Data f) s
        else if op = CAN_IAP_REQUEST_ACK_CONFIRM
        then if for_this_node (Data f ! 1) then can_start_iap CAN_IAP_CLENT_MODE s else s
        else if op = CAN_IAP_STATUS then can_set_received_data (ExtID f) (Data f) s
        else s)"

definition put_data :: "(nat \<times> u8) list \<Rightarrow> 'a canstack_scheme \<Rightarrow> 'a canstack_scheme" where
  "put_data ws s = s\<lparr>CAN_tTxPacket := (CAN_tTxPacket s)
     \<lparr>Data := foldl (\<lambda>d (i, b). d[i := b]) (Data (CAN_tTxPacket s)) ws\<rparr>\<rparr>"

definition B2B_vTxNMTStatus :: "'a canstack_scheme \<Rightarrow> 'a canstack_scheme" where
  "B2B_vTxNMTStatus s = put_data [(0, can_status_ix (CAN_tGetCanStatus s))] s"

definition B2B_vTxCanIapCmd :: "'a canstack_scheme \<Rightarrow> 'a canstack_scheme" where
  "B2B_vTxCanIapCmd s =
    (let c = iap_cmd s
     in if opcode c = CAN_IAP_REQUEST then put_data [(0, opcode c), (1, node_addr c), (2, 0)] s
        else if opcode c = CAN_IAP_REQUEST_ACK then put_data [(0, opcode c), (1, CAN_NODE_ID_TND_SNR), (2, 0)] s
        else if opcode c = CAN_IAP_REQUEST_ACK_CONFIRM then put_data [(0, opcode c), (1, node_addr c), (2, 0)] s
        else if opcode c = CAN_IAP_STATUS then put_data [(0, opcode c), (1, node_addr c), (2, status c)] s
        else s)"

definition B2B_vTxCanIapData :: "'a canstack_scheme \<Rightarrow> 'a canstack_scheme" where
  "B2B_vTxCanIapData s =
    (let s = s\<lparr>CAN_tTxPacket := (CAN_tTxPacket s)\<lparr>Data := poke (Data (CAN_tTxPacket s)) 0 (take 8 (iap_data s))\<rparr>\<rparr>
     in s\<lparr>iap_data := replicate 8 0\<rparr>)"

definition B2B_vTxNMTControl :: "'a canstack_scheme \<Rightarrow> 'a canstack_scheme" where
  "B2B_vTxNMTControl s = put_data [(0, 2), (1, CAN_NODE_ID_BROADCAST)] s"

section \<open>The message tables\<close>

datatype rx_service = B2B_RxNMTControl | B2B_RxNMTGuarding | B2B_RxIapData | B2B_RxCanIapCmd | RxNull

datatype tx_service = B2B_TxNMTStatus | B2B_TxCanIapCmd | B2B_TxCanIapData | B2B_TxNMTControl

record 'f msg_tbl =
  tbl_ulMsgID :: u32
  tbl_ulExtID :: u32
  tbl_ulDLC :: u32
  tbl_ulRTR :: u32
  tbl_pvServiceFunc :: 'f

definition row :: "u32 \<Rightarrow> u32 \<Rightarrow> u32 \<Rightarrow> u32 \<Rightarrow> 'f \<Rightarrow> 'f msg_tbl" where
  "row m e d r f = \<lparr>tbl_ulMsgID = m, tbl_ulExtID = e, tbl_ulDLC = d, tbl_ulRTR = r, tbl_pvServiceFunc = f\<rparr>"

definition B2B_tReceiveTbl :: "rx_service msg_tbl list" where
  "B2B_tReceiveTbl = [
     row CAN_MSG_ID_NMT_CTRL 0 2 CAN_RTR_DATA B2B_RxNMTControl,
     row CAN_MSG_ID_NMT_GUARDING 0 0 CAN_RTR_REMOTE B2B_RxNMTGuarding,
     row 0 CAN_MSG_ID_IAP_DATA 8 CAN_RTR_DATA B2B_RxIapData,
     row 0 CAN_MSG_ID_IAP_CMD 3 CAN_RTR_DATA B2B_RxCanIapCmd,
     row CAN_MSG_ID_END 0 8 CAN_RTR_DATA RxNull]"

definition B2B_tTransmitTbl :: "tx_service msg_tbl list" where
  "B2B_tTransmitTbl = [
     row CAN_MSG_ID_NMT_GUARDING 0 1 CAN_RTR_DATA B2B_TxNMTStatus,
     row 0 CAN_MSG_ID_IAP_CMD 3 CAN_RTR_DATA B2B_TxCanIapCmd,
     row 0 CAN_MSG_ID_IAP_DATA 8 CAN_RTR_DATA B2B_TxCanIapData,
     row CAN_MSG_ID_NMT_CTRL 0 2 CAN_RTR_DATA B2B_TxNMTControl]"

primrec call_rx :: "rx_service \<Rightarrow> can_frame \<Rightarrow> 'a canstack_scheme \<Rightarrow> 'a canstack_scheme" where
  "call_rx B2B_RxNMTControl f s = B2B_vRxNMTControl f s"
| "call_rx B2B_RxNMTGuarding f s = B2B_vRxNMTGuarding f s"
| "call_rx B2B_RxIapData f s = B2B_vRxIapData f s"
| "call_rx B2B_RxCanIapCmd f s = B2B_vRxCanIapCmd f s"
| "call_rx RxNull f s = s"

primrec call_tx :: "tx_service \<Rightarrow> 'a canstack_scheme \<Rightarrow> 'a canstack_scheme" where
  "call_tx B2B_TxNMTStatus s = B2B_vTxNMTStatus s"
| "call_tx B2B_TxCanIapCmd s = B2B_vTxCanIapCmd s"
| "call_tx B2B_TxCanIapData s = B2B_vTxCanIapData s"
| "call_tx B2B_TxNMTControl s = B2B_vTxNMTControl s"

section \<open>Reception\<close>

primrec find_row :: "u32 \<Rightarrow> u32 \<Rightarrow> u32 \<Rightarrow> u32 \<Rightarrow> rx_service msg_tbl list \<Rightarrow> rx_service option" where
  "find_row m e d r [] = None"
| "find_row m e d r (t # ts) =
     (if m = tbl_ulMsgID t \<and> e = tbl_ulExtID t \<and> d = tbl_ulDLC t \<and> r = tbl_ulRTR t
      then Some (tbl_pvServiceFunc t)
      else if CAN_MSG_ID_END = tbl_ulMsgID t then None
      else find_row m e d r ts)"

text \<open>The key under which a frame is looked up: subsystem, standard and extended identifier.\<close>

definition frame_key :: "can_frame \<Rightarrow> u8 \<times> u32 \<times> u32" where
  "frame_key f =
    (if IDE f then (CAN_NODE_BOARDS, 0, ExtID f AND 0xFF000000)
     else if 0x2F0 \<le> StdID f \<and> 0x2FF \<ge> StdID f then (CAN_NODE_BOARDS, StdID f, 0)
     else (ucast (StdID f AND 0xF), StdID f, 0))"

definition frame_service :: "can_frame \<Rightarrow> rx_service option" where
  "frame_service f = (case frame_key f of (ucSubsystem, ulMsgID, ulExtID) \<Rightarrow>
     if unat (CAN_ucGetSubsystemIndex ucSubsystem) < length CAN_tObjectTable
     then find_row ulMsgID ulExtID (DLC f) (RTR f) B2B_tReceiveTbl
     else None)"

definition CAN_vReceptionHandler :: "can_frame \<Rightarrow> 'a canstack_scheme \<Rightarrow> 'a canstack_scheme" where
  "CAN_vReceptionHandler f s = (case frame_service f of None \<Rightarrow> s | Some g \<Rightarrow> call_rx g f s)"

text \<open>The receive part of \<open>CAN_vIrqCallBack\<close>, with the frame \<open>CAN_Receive\<close> delivers, and its transmit part.\<close>

definition CAN_vIrqCallBack_rx :: "can_frame \<Rightarrow> 'a canstack_scheme \<Rightarrow> 'a canstack_scheme" where
  "CAN_vIrqCallBack_rx f s =
    s\<lparr>CAN_tRxPacket := (CAN_tRxPacket s)[unat (CAN_ucRxPacketHeadIndex s) := f],
      CAN_ucRxPacketHeadIndex := (CAN_ucRxPacketHeadIndex s + 1) mod 8\<rparr>"

definition CAN_vIrqCallBack_tx :: "'a canstack_scheme \<Rightarrow> 'a canstack_scheme" where
  "CAN_vIrqCallBack_tx s = s\<lparr>CAN_tBusStatus := CAN_tBusStatus s AND NOT 0x01\<rparr>"

section \<open>Transmission\<close>

text \<open>The first pending message at or after index \<open>i\<close>, as the loop over \<open>ucMessageIndex\<close> finds it.\<close>

primrec first_pending :: "bytes \<Rightarrow> nat \<Rightarrow> u16 \<Rightarrow> u16 option" where
  "first_pending f 0 i = None"
| "first_pending f (Suc n) i = (if CAN_ucGetBit f i \<noteq> 0 then Some i else first_pending f n (i + 1))"

definition fill_header :: "tx_service msg_tbl \<Rightarrow> 'a canstack_scheme \<Rightarrow> 'a canstack_scheme" where
  "fill_header t s =
    (let p = CAN_tTxPacket s;
         p = p\<lparr>ExtID := (if CAN_MSG_ID_IAP_DATA = tbl_ulExtID t then can_get_msg_exd_id s else tbl_ulExtID t)\<rparr>;
         p = p\<lparr>RTR := tbl_ulRTR t\<rparr>;
         p = (if ExtID p \<noteq> 0 then p\<lparr>IDE := True\<rparr>
              else p\<lparr>IDE := False, StdID := tbl_ulMsgID t OR ucast CAN_NODE_BOARDS\<rparr>);
         p = p\<lparr>DLC := tbl_ulDLC t\<rparr>
     in s\<lparr>CAN_tTxPacket := p\<rparr>)"

definition CAN_vCheckTransmitTask :: "bool \<Rightarrow> 'a canstack_scheme \<Rightarrow> 'a canstack_scheme option" where
  "CAN_vCheckTransmitTask full s =
    (if CAN_tBusStatus s AND 0x01 \<noteq> 0
     then Some (if boot_TMR_bIsTimeExpired (b_tmr s) TMR_CAN_TX_TIMEOUT
                then s\<lparr>CAN_tBusStatus := CAN_tBusStatus s AND NOT 0x01\<rparr> else s)
     else if CAN_uiTransmitFlagSubsystemIndex s \<noteq> 0
     then if CAN_uiTransmitFlagSubsystemIndex s AND 0x0001 = 0 then None
          else let s = s\<lparr>CAN_ucSubsystemIndex := 0\<rparr>
               in case first_pending (B2B_ucTransmitFlags s) 4 0 of
                    Some i \<Rightarrow>
                      let t = B2B_tTransmitTbl ! unat i;
                          s = call_tx (tbl_pvServiceFunc t) (fill_header t s)
                      in Some (if full then s
                               else s\<lparr>can_sent := can_sent s @ [CAN_tTxPacket s],
                                      B2B_ucTransmitFlags := CAN_vSetBit (B2B_ucTransmitFlags s) i False,
                                      CAN_tBusStatus := CAN_tBusStatus s OR 0x01,
                                      b_tmr := boot_TMR_vSetTime (b_tmr s) TMR_CAN_TX_TIMEOUT (TMR_TIME_MS2TICKS 4)\<rparr>)
                  | None \<Rightarrow>
                      Some (s\<lparr>CAN_uiTransmitFlagSubsystemIndex :=
                                CAN_uiTransmitFlagSubsystemIndex s AND NOT 1\<rparr>)
     else Some s)"

text \<open>The receive half of the task: one frame per run.\<close>

definition can_rx_advance :: "'a canstack_scheme \<Rightarrow> 'a canstack_scheme" where
  "can_rx_advance s = s\<lparr>CAN_ucRxPacketTailIndex := (CAN_ucRxPacketTailIndex s + 1) mod 8\<rparr>"

definition can_rx_task :: "'a canstack_scheme \<Rightarrow> 'a canstack_scheme" where
  "can_rx_task s =
    (if CAN_ucRxPacketTailIndex s \<noteq> CAN_ucRxPacketHeadIndex s
     then can_rx_advance (CAN_vReceptionHandler (CAN_tRxPacket s ! unat (CAN_ucRxPacketTailIndex s)) s)
     else s)"

definition CAN_vTaskHandler :: "bool \<Rightarrow> 'a canstack_scheme \<Rightarrow> 'a canstack_scheme option" where
  "CAN_vTaskHandler full s =
    (case CAN_tTaskState s of
       CAN_TASK_INIT \<Rightarrow> Some (s\<lparr>CAN_tTaskState := CAN_TASK_RUN\<rparr>)
     | CAN_TASK_RUN \<Rightarrow> map_option can_rx_task (CAN_vCheckTransmitTask full s))"

section \<open>The programming protocol: client\<close>

definition send_status :: "u8 \<Rightarrow> 'a canstack_scheme \<Rightarrow> 'a canstack_scheme" where
  "send_status code s =
    CAN_vTransmitMessage CAN_NODE_BOARDS B2B_MSGIDX_SEND_IAP_CMD
      (clear_iap_msg (set_iap_cmd \<lparr>opcode = CAN_IAP_STATUS, node_addr = CAN_NODE_ID, status = code\<rparr> s))"

definition iap_do_handshake :: "flash_chip \<Rightarrow> 'a canstack_scheme \<Rightarrow> int \<times> 'a canstack_scheme" where
  "iap_do_handshake c s =
    (let s = (if boot_TMR_bIsTimeExpired (b_tmr s) TMR_IAP_POLLING
              then send_status IAP_CODE_C
                     (s\<lparr>b_tmr := boot_TMR_vSetTime (b_tmr s) TMR_IAP_POLLING (TMR_TIME_MS2TICKS 20)\<rparr>)
              else s);
         id = iap_msg_id s; d = iap_msg_data s
     in if id = 0 then (1, s)
        else if id AND 0xFFFF0000 = 0x10000000 + push_bit 16 (ucast CAN_NODE_ID)
        then if drop_bit 8 id AND 0xFF \<noteq> 0 \<or> id AND 0xFF \<noteq> 0xFF then (- IAP_ERR_SEQ, s)
             else let s = s\<lparr>iap_update_file_cur_size := 0\<rparr>;
                      s = s\<lparr>b_flash := boot_FLASH_vEraseSector c (b_flash s)
                                        FLASH_DOWNLOAD_START_ADDR FLASH_DOWNLOAD_SIZE\<rparr>;
                      s = s\<lparr>can_iap_sem := CAN_IAP_CLENT_MODE_DATA\<rparr>
                  in (0, send_status IAP_CODE_NAK s)
        else if id AND 0xFFFF0000 = 0x11000000 \<and>
                d ! 0 = CAN_IAP_STATUS \<and> d ! 1 = CAN_NODE_ID \<and> d ! 2 = IAP_CODE_EOT
        then (IAP_ERR_CAN, s)
        else (1, s))"

text \<open>
  The answer of \<open>_iap_do_trans\<close>. After a command frame other than EOT the variable \<open>code\<close> is not
  initialised; its value is the argument \<open>junk\<close>.
\<close>

definition iap_answer :: "u8 \<Rightarrow> 'a canstack_scheme \<Rightarrow> int \<times> 'a canstack_scheme" where
  "iap_answer code s =
    (if code = IAP_CODE_CAN then (- IAP_ERR_CAN, send_status IAP_CODE_CAN s)
     else if code = IAP_CODE_ACK then (1, send_status IAP_CODE_ACK s)
     else if code = IAP_CODE_NAK then (1, send_status IAP_CODE_NAK s)
     else (1, s))"

definition iap_do_trans :: "flash_chip \<Rightarrow> u8 \<Rightarrow> 'a canstack_scheme \<Rightarrow> int \<times> 'a canstack_scheme" where
  "iap_do_trans c junk s =
    (let id = iap_msg_id s; d = iap_msg_data s
     in if id = 0 then (1, s)
        else if id AND 0xFFFF0000 = 0x10000000 + push_bit 16 (ucast CAN_NODE_ID)
        then if (drop_bit 8 id AND 0xFF) + (id AND 0xFF) \<noteq> 0xFF then iap_answer IAP_CODE_NAK s
             else iap_answer IAP_CODE_ACK
               (if ucast (next_packet_index s) = drop_bit 8 id AND 0xFF
                then let s = s\<lparr>next_packet_index := next_packet_index s + 1\<rparr>;
                         s = s\<lparr>b_flash := boot_FLASH_vWriteBytes c (b_flash s)
                                (FLASH_DOWNLOAD_START_ADDR + iap_update_file_cur_size s) d 8\<rparr>
                     in s\<lparr>iap_update_file_cur_size := iap_update_file_cur_size s + 8\<rparr>
                else s)
        else if id AND 0xFFFF0000 = 0x11000000
        then if d ! 0 = CAN_IAP_STATUS \<and> d ! 1 = CAN_NODE_ID \<and> d ! 2 = IAP_CODE_EOT then (0, s)
             else iap_answer junk s
        else iap_answer IAP_CODE_NAK s)"

definition iap_do_fin :: "'a canstack_scheme \<Rightarrow> int \<times> 'a canstack_scheme" where
  "iap_do_fin s = (0, send_status IAP_CODE_ACK s)"

section \<open>The programming protocol: server\<close>

definition iap_server_set_offline :: "'a canstack_scheme \<Rightarrow> int \<times> 'a canstack_scheme" where
  "iap_server_set_offline s =
    (let s = (if boot_TMR_bIsTimeExpired (b_tmr s) TMR_IAP_POLLING
              then let s = s\<lparr>b_tmr := boot_TMR_vSetTime (b_tmr s) TMR_IAP_POLLING (TMR_TIME_MS2TICKS 50)\<rparr>;
                       s = CAN_vTransmitMessage CAN_NODE_BOARDS B2B_MSGIDX_NMT_CTRL s
                   in if can_msg_transfer_count s \<noteq> 0
                      then s\<lparr>can_msg_transfer_count := can_msg_transfer_count s - 1\<rparr> else s
              else s)
     in (if can_msg_transfer_count s \<noteq> 0 then 1 else 0, s))"

text \<open>The status byte of the local command is not initialised here (\<open>junk\<close>); it is not transmitted.\<close>

definition iap_server_do_handshake :: "u8 \<Rightarrow> 'a canstack_scheme \<Rightarrow> int \<times> 'a canstack_scheme" where
  "iap_server_do_handshake junk s =
    (let s = (if boot_TMR_bIsTimeExpired (b_tmr s) TMR_IAP_POLLING
              then let s = s\<lparr>b_tmr := boot_TMR_vSetTime (b_tmr s) TMR_IAP_POLLING (TMR_TIME_MS2TICKS 1000)\<rparr>
                   in CAN_vTransmitMessage CAN_NODE_BOARDS B2B_MSGIDX_SEND_IAP_CMD
                        (clear_iap_msg (set_iap_cmd \<lparr>opcode = can_iap_handshake s,
                            node_addr = can_iap_target_device s, status = junk\<rparr> s))
              else s);
         d = iap_msg_data s
     in if iap_msg_id s \<noteq> 0 \<and> iap_msg_id s AND 0xFFFF0000 = 0x11000000
        then if d ! 0 = CAN_IAP_REQUEST_ACK \<and> d ! 1 = can_iap_target_device s \<and> d ! 2 = 0
             then let s = s\<lparr>can_iap_handshake := CAN_IAP_REQUEST_ACK_CONFIRM\<rparr>
                  in (1, CAN_vTransmitMessage CAN_NODE_BOARDS B2B_MSGIDX_SEND_IAP_CMD
                        (clear_iap_msg (set_iap_cmd \<lparr>opcode = CAN_IAP_REQUEST_ACK_CONFIRM,
                            node_addr = can_iap_target_device s, status = junk\<rparr> s)))
             else if d ! 0 = CAN_IAP_STATUS \<and> d ! 1 = can_iap_target_device s \<and> d ! 2 = IAP_CODE_C
             then (0, s)
             else (1, s)
        else (1, s))"

definition send_packet :: "'a canstack_scheme \<Rightarrow> 'a canstack_scheme" where
  "send_packet s =
    CAN_vTransmitMessage CAN_NODE_BOARDS B2B_MSGIDX_SEND_IAP_DATA
      (clear_iap_msg (set_iap_data (can_iap_next_data_address s) s))"

definition iap_server_answer :: "u8 \<Rightarrow> 'a canstack_scheme \<Rightarrow> int \<times> 'a canstack_scheme" where
  "iap_server_answer code s =
    (if code = IAP_CODE_CAN then (0, s)
     else if code = IAP_CODE_ACK
     then let s = s\<lparr>next_packet_index := next_packet_index s + 1\<rparr>;
              s = s\<lparr>can_iap_next_data_address := can_iap_next_data_address s + 8\<rparr>
          in if can_iap_next_data_address s \<ge> FLASH_DOWNLOAD_START_ADDR + app_file_size s
             then (0, CAN_vTransmitMessage CAN_NODE_BOARDS B2B_MSGIDX_SEND_IAP_CMD
                        (clear_iap_msg (set_iap_cmd \<lparr>opcode = CAN_IAP_STATUS,
                            node_addr = can_iap_target_device s, status = IAP_CODE_EOT\<rparr> s)))
             else (1, send_packet s)
     else if code = IAP_CODE_NAK then (1, send_packet s)
     else if code = IAP_CODE_C
     then (1, send_packet (s\<lparr>next_packet_index := 0, can_iap_next_data_address := FLASH_DOWNLOAD_START_ADDR\<rparr>))
     else (1, s))"

definition iap_server_do_trans :: "u8 \<Rightarrow> 'a canstack_scheme \<Rightarrow> int \<times> 'a canstack_scheme" where
  "iap_server_do_trans junk s =
    (let d = iap_msg_data s;
         from_target = (d ! 0 = CAN_IAP_STATUS \<and> d ! 1 = can_iap_target_device s)
     in if iap_msg_id s = 0 then (1, s)
        else if iap_msg_id s AND 0xFFFF0000 = 0x11000000
        then if from_target \<and> d ! 2 = IAP_CODE_ACK then iap_server_answer IAP_CODE_ACK s
             else if from_target \<and> d ! 2 = IAP_CODE_NAK then iap_server_answer IAP_CODE_NAK s
             else if from_target \<and> d ! 2 = IAP_CODE_C then iap_server_answer IAP_CODE_C s
             else if from_target \<and> d ! 2 = IAP_CODE_EOT then (0, s)
             else iap_server_answer junk s
        else iap_server_answer IAP_CODE_NAK s)"

definition iap_server_do_fin :: "'a canstack_scheme \<Rightarrow> int \<times> 'a canstack_scheme" where
  "iap_server_do_fin s =
    (let d = iap_msg_data s
     in if iap_msg_id s \<noteq> 0 \<and> iap_msg_id s AND 0xFFFF0000 = 0x11000000 \<and>
           d ! 0 = CAN_IAP_STATUS \<and> d ! 1 = can_iap_target_device s \<and> d ! 2 = IAP_CODE_ACK
        then (0, s) else (1, s))"

section \<open>The task\<close>

definition iap_goto :: "iap_stage \<Rightarrow> int \<times> 'a canstack_scheme \<Rightarrow> 'a canstack_scheme" where
  "iap_goto g p = (if fst p = 0 then (snd p)\<lparr>can_task_state := g\<rparr> else snd p)"

definition iap_establish :: "flash_chip \<Rightarrow> 'a canstack_scheme \<Rightarrow> 'a canstack_scheme" where
  "iap_establish c s =
    (case iap_do_handshake c s of (r, s) \<Rightarrow>
       let s = (if r = 0 then s\<lparr>can_task_state := IAP_STAGE_TRANSMITTING, next_packet_index := 0\<rparr> else s)
       in if CAN_IAP_SERVER_MODE = can_iap_sem s
          then s\<lparr>can_task_state := IAP_SERVER_STAGE_OFFLINE, can_msg_transfer_count := 8\<rparr> else s)"

definition can_iap :: "flash_chip \<Rightarrow> u8 \<Rightarrow> 'a canstack_scheme \<Rightarrow> 'a canstack_scheme" where
  "can_iap c junk s =
    (if can_iap_sem s = 0 then s
     else case can_task_state s of
       IAP_STAGE_NONE \<Rightarrow> iap_establish c s
     | IAP_STAGE_ESTABLISHING \<Rightarrow> iap_establish c s
     | IAP_STAGE_ESTABLISHED \<Rightarrow> s
     | IAP_STAGE_TRANSMITTING \<Rightarrow> iap_goto IAP_STAGE_FINISHING (iap_do_trans c junk s)
     | IAP_STAGE_FINISHING \<Rightarrow>
         (case iap_do_fin s of (r, s) \<Rightarrow>
            if r = 0
            then s\<lparr>can_task_state := IAP_STAGE_FINISHED,
                   b_tmr := boot_TMR_vSetTime (b_tmr s) TMR_IAP_POLLING (TMR_TIME_MS2TICKS 50)\<rparr>
            else s)
     | IAP_STAGE_FINISHED \<Rightarrow>
         (if boot_TMR_bIsTimeExpired (b_tmr s) TMR_IAP_POLLING then hw_cpu_reset s else s)
     | IAP_SERVER_STAGE_OFFLINE \<Rightarrow>
         (case iap_server_set_offline s of (r, s) \<Rightarrow>
            if r = 0 then s\<lparr>can_task_state := IAP_SERVER_STAGE_ESTABLISHING, can_iap_handshake := CAN_IAP_REQUEST\<rparr>
            else s)
     | IAP_SERVER_STAGE_ESTABLISHING \<Rightarrow> iap_goto IAP_SERVER_STAGE_TRANSMITTING (iap_server_do_handshake junk s)
     | IAP_SERVER_STAGE_TRANSMITTING \<Rightarrow> iap_goto IAP_SERVER_STAGE_FINISHING (iap_server_do_trans junk s)
     | IAP_SERVER_STAGE_FINISHING \<Rightarrow> iap_goto IAP_SERVER_STAGE_FINISHED (iap_server_do_fin s)
     | IAP_SERVER_STAGE_FINISHED \<Rightarrow> s)"

section \<open>What a scheduled message changes\<close>

lemma CAN_ucGetSubsystemIndex_boards [simp]: "CAN_ucGetSubsystemIndex CAN_NODE_BOARDS = 0"
  by (simp add: CAN_ucGetSubsystemIndex_def CAN_tObjectTable_def)

lemma CAN_vTransmitMessage_known:
  "n < 4 \<Longrightarrow> CAN_vTransmitMessage CAN_NODE_BOARDS n s =
     s\<lparr>CAN_uiTransmitFlagSubsystemIndex := CAN_uiTransmitFlagSubsystemIndex s OR 1,
       B2B_ucTransmitFlags := CAN_vSetBit (B2B_ucTransmitFlags s) (ucast n) True\<rparr>"
  by (simp add: CAN_vTransmitMessage_def)

lemmas rx_service_defs =
  B2B_vRxNMTControl_def B2B_vRxNMTGuarding_def B2B_vRxIapData_def B2B_vRxCanIapCmd_def
  CAN_vSetCanStatus_def can_set_received_data_def can_start_iap_def CAN_vTransmitMessage_known

lemma dispatch_queue [simp]:
  "CAN_tRxPacket (CAN_vReceptionHandler f s) = CAN_tRxPacket s"
  "CAN_ucRxPacketHeadIndex (CAN_vReceptionHandler f s) = CAN_ucRxPacketHeadIndex s"
  "CAN_ucRxPacketTailIndex (CAN_vReceptionHandler f s) = CAN_ucRxPacketTailIndex s"
  by (cases "frame_service f"; cases "the (frame_service f)";
      simp add: CAN_vReceptionHandler_def rx_service_defs Let_def split: if_split)+

lemma dispatch_advance:
  "CAN_vReceptionHandler f (can_rx_advance s) = can_rx_advance (CAN_vReceptionHandler f s)"
  by (cases "frame_service f"; cases "the (frame_service f)";
      simp add: CAN_vReceptionHandler_def rx_service_defs can_rx_advance_def Let_def split: if_split)

definition can_queue_ok :: "'a canstack_scheme \<Rightarrow> bool" where
  "can_queue_ok s \<longleftrightarrow> length (CAN_tRxPacket s) = RING \<and>
     unat (CAN_ucRxPacketHeadIndex s) < RING \<and> unat (CAN_ucRxPacketTailIndex s) < RING"

interpretation can_rx: rx_queue can_queue_ok CAN_tRxPacket CAN_ucRxPacketHeadIndex
  CAN_ucRxPacketTailIndex CAN_vIrqCallBack_rx CAN_vReceptionHandler can_rx_advance can_rx_task
  by unfold_locales
    (auto simp: can_queue_ok_def CAN_vIrqCallBack_rx_def can_rx_advance_def can_rx_task_def
      dispatch_advance [unfolded can_rx_advance_def] ring_next_less)

text \<open>
  The receive queue of the CAN driver: up to seven frames that arrive while the task is away are
  dispatched in their arrival order, one per run of the task.
\<close>

theorem can_frames_dispatched_in_order:
  assumes "can_queue_ok s" "CAN_ucRxPacketTailIndex s = CAN_ucRxPacketHeadIndex s" "length fs \<le> 7"
  shows "(can_rx_task ^^ length fs) (fold CAN_vIrqCallBack_rx fs s) =
    (can_rx_advance ^^ length fs) (fold CAN_vReceptionHandler fs (fold CAN_vIrqCallBack_rx fs s))"
  using assms by (rule can_rx.in_order)

text \<open>
  With an eighth frame the head index meets the tail index again: the task sees an empty queue
  and none of the eight frames is dispatched.
\<close>

theorem can_eighth_frame_drops_all:
  assumes "can_queue_ok s" "CAN_ucRxPacketTailIndex s = CAN_ucRxPacketHeadIndex s" "length fs = 8"
  shows "can_rx_task (fold CAN_vIrqCallBack_rx fs s) = fold CAN_vIrqCallBack_rx fs s"
  using assms by (rule can_rx.eighth_drops_all)

section \<open>The power-up state\<close>

definition zero_frame :: can_frame where
  "zero_frame = \<lparr>StdID = 0, ExtID = 0, IDE = False, RTR = 0, DLC = 0, Data = replicate 8 0\<rparr>"

definition canstack_init :: "memory \<Rightarrow> canstack" where
  "canstack_init m = ymodem.extend (ymodem_init m) (canstack.fields
     zero_frame [] (replicate 8 zero_frame) 0 0 CAN_TASK_INIT 0 0 0 CAN_STATUS_INITIALISING [0, 0]
     \<lparr>opcode = 0, node_addr = 0, status = 0\<rparr> (replicate 8 0)
     0 IAP_STAGE_NONE 0 0 0 0 0 0 0 (replicate 8 0) 0)"

lemma canstack_init_queue:
  "can_queue_ok (canstack_init m)" "CAN_ucRxPacketTailIndex (canstack_init m) = CAN_ucRxPacketHeadIndex (canstack_init m)"
  by (simp_all add: canstack_init_def ymodem_init_def ymodem.defs canstack.defs can_queue_ok_def RING_def)

definition stop_node :: can_frame where
  "stop_node = zero_frame\<lparr>DLC := 2, Data := [2, 4, 0, 0, 0, 0, 0, 0]\<rparr>"

lemma stop_node_Data: "Data stop_node = [2, 4, 0, 0, 0, 0, 0, 0]"
  by (simp add: stop_node_def)

lemma stop_node_service: "frame_service stop_node = Some B2B_RxNMTControl"
  by (simp add: frame_service_def frame_key_def stop_node_def zero_frame_def CAN_tObjectTable_def
      B2B_tReceiveTbl_def row_def)

theorem can_frames_dispatched_in_order_witness:
  "CAN_tNodeStatus (can_rx_task (CAN_vIrqCallBack_rx stop_node (canstack_init (\<lambda>_. 0)))) = CAN_STATUS_STOPPED"
  using can_frames_dispatched_in_order [OF canstack_init_queue, of "[stop_node]" "\<lambda>_. 0"]
  by (simp add: CAN_vReceptionHandler_def stop_node_service B2B_vRxNMTControl_def CAN_vSetCanStatus_def
      can_rx_advance_def stop_node_Data for_this_node_def)

theorem can_eighth_frame_drops_all_witness:
  "can_rx_task (fold CAN_vIrqCallBack_rx (replicate 8 stop_node) (canstack_init (\<lambda>_. 0))) =
   fold CAN_vIrqCallBack_rx (replicate 8 stop_node) (canstack_init (\<lambda>_. 0))"
  by (rule can_eighth_frame_drops_all [OF canstack_init_queue]) simp

section \<open>Transmission of a message\<close>

definition bus_idle :: "'a canstack_scheme \<Rightarrow> bool" where
  "bus_idle s \<longleftrightarrow> CAN_tBusStatus s AND 1 = 0"

definition pending_some :: "'a canstack_scheme \<Rightarrow> bool" where
  "pending_some s \<longleftrightarrow> CAN_uiTransmitFlagSubsystemIndex s AND 1 \<noteq> 0"

text \<open>The frame the task builds for the message of index \<open>i\<close>, and the state once it is built.\<close>

definition built :: "u16 \<Rightarrow> 'a canstack_scheme \<Rightarrow> 'a canstack_scheme" where
  "built i s = (let t = B2B_tTransmitTbl ! unat i
     in call_tx (tbl_pvServiceFunc t) (fill_header t (s\<lparr>CAN_ucSubsystemIndex := 0\<rparr>)))"

definition after_sending :: "u16 \<Rightarrow> 'a canstack_scheme \<Rightarrow> 'a canstack_scheme" where
  "after_sending i s = s\<lparr>can_sent := can_sent s @ [CAN_tTxPacket s],
      B2B_ucTransmitFlags := CAN_vSetBit (B2B_ucTransmitFlags s) i False,
      CAN_tBusStatus := CAN_tBusStatus s OR 0x01,
      b_tmr := boot_TMR_vSetTime (b_tmr s) TMR_CAN_TX_TIMEOUT (TMR_TIME_MS2TICKS 4)\<rparr>"

lemma check_transmit_pending:
  assumes "bus_idle s" "pending_some s" "first_pending (B2B_ucTransmitFlags s) 4 0 = Some i"
  shows "CAN_vCheckTransmitTask full s = Some (if full then built i s else after_sending i (built i s))"
  using assms by (auto simp: CAN_vCheckTransmitTask_def bus_idle_def pending_some_def built_def
      after_sending_def Let_def)

lemma bus_released: "bus_idle (CAN_vIrqCallBack_tx s)"
  by (simp add: bus_idle_def CAN_vIrqCallBack_tx_def and.assoc)

lemmas tx_service_defs =
  B2B_vTxNMTStatus_def B2B_vTxCanIapCmd_def B2B_vTxCanIapData_def B2B_vTxNMTControl_def
  put_data_def fill_header_def B2B_tTransmitTbl_def row_def

definition msg_bits :: "bytes \<Rightarrow> nat list" where
  "msg_bits f = filter (\<lambda>i. CAN_ucGetBit f (of_nat i) \<noteq> 0) [0..<4]"

text \<open>The table index each frame on the bus carries, and a run of the task on a bus that is never busy.\<close>

primrec tx_runs :: "nat \<Rightarrow> 'a canstack_scheme \<Rightarrow> 'a canstack_scheme option" where
  "tx_runs 0 s = Some s"
| "tx_runs (Suc n) s = Option.bind (CAN_vCheckTransmitTask False s) (\<lambda>s. tx_runs n (CAN_vIrqCallBack_tx s))"

definition tx_header :: "can_frame \<Rightarrow> u32 \<times> u32 \<times> u32" where
  "tx_header f = (if IDE f then (0, ExtID f AND 0xFF000000, DLC f) else (StdID f, 0, DLC f))"

definition table_header :: "nat \<Rightarrow> u32 \<times> u32 \<times> u32" where
  "table_header i = (let t = B2B_tTransmitTbl ! i in (tbl_ulMsgID t, tbl_ulExtID t, tbl_ulDLC t))"

section \<open>Every pending message is sent once, in the order of the table\<close>

lemma getbit_bit:
  assumes "i < 8"
  shows "CAN_ucGetBit f (of_nat i) \<noteq> 0 \<longleftrightarrow> bit (f ! 0) i"
proof -
  have "unat (of_nat i div 8 :: u16) = 0" "unat (of_nat i mod 8 :: u16) = i"
    using assms by (simp_all add: unat_div unat_mod unat_of_nat)
  then show ?thesis by (simp add: CAN_ucGetBit_def Let_def bit_iff_and_push_bit_not_eq_0)
qed

lemma clearbit_bit:
  assumes "i < 8" "f \<noteq> []" "j < 8"
  shows "bit (CAN_vSetBit f (of_nat i) False ! 0) j \<longleftrightarrow> bit (f ! 0) j \<and> j \<noteq> i"
proof -
  have "unat (of_nat i div 8 :: u16) = 0" "unat (of_nat i mod 8 :: u16) = i"
    using assms by (simp_all add: unat_div unat_mod unat_of_nat)
  then show ?thesis using assms(2,3) by (auto simp: CAN_vSetBit_def Let_def bit_simps)
qed

lemma length_CAN_vSetBit [simp]: "length (CAN_vSetBit f i b) = length f"
  by (simp add: CAN_vSetBit_def Let_def)

lemma msg_bits_bit: "msg_bits f = filter (bit (f ! 0)) [0..<4]"
  unfolding msg_bits_def by (rule filter_cong) (simp_all add: getbit_bit)

lemma upt_4: "[0..<4] = [0, 1, 2, 3 :: nat]"
  by (simp add: upt_conv_Cons)

lemma first_pending_least:
  assumes "msg_bits f = i # is"
  shows "first_pending f 4 0 = Some (of_nat i)" "i < 4"
proof -
  have "i \<in> set (msg_bits f)" using assms by simp
  then show "i < 4" by (simp add: msg_bits_def)
  have g: "CAN_ucGetBit f 0 \<noteq> 0 \<longleftrightarrow> bit (f ! 0) 0" "CAN_ucGetBit f 1 \<noteq> 0 \<longleftrightarrow> bit (f ! 0) 1"
    "CAN_ucGetBit f 2 \<noteq> 0 \<longleftrightarrow> bit (f ! 0) 2" "CAN_ucGetBit f 3 \<noteq> 0 \<longleftrightarrow> bit (f ! 0) 3"
    using getbit_bit [of 0 f] getbit_bit [of 1 f] getbit_bit [of 2 f] getbit_bit [of 3 f] by simp_all
  have "4 = Suc (Suc (Suc (Suc 0)))" by simp
  then show "first_pending f 4 0 = Some (of_nat i)"
    using assms unfolding msg_bits_bit upt_4
    by (simp only: first_pending.simps) (auto simp: g split: if_splits)
qed

lemma msg_bits_sent:
  assumes "msg_bits f = i # is" "f \<noteq> []"
  shows "msg_bits (CAN_vSetBit f (of_nat i) False) = is"
proof -
  have "i < 8" using first_pending_least(2) [OF assms(1)] by simp
  then have "msg_bits (CAN_vSetBit f (of_nat i) False) = filter (\<lambda>j. j \<noteq> i) (msg_bits f)"
    unfolding msg_bits_bit filter_filter by (intro filter_cong) (auto simp: clearbit_bit assms(2))
  moreover have "distinct (msg_bits f)" unfolding msg_bits_def by simp
  then have "i \<notin> set is" using assms(1) by simp
  then have "filter (\<lambda>j. j \<noteq> i) is = is" by (auto simp: filter_id_conv)
  ultimately show ?thesis using assms(1) by simp
qed

lemma iap_id_fields:
  fixes t n :: u8
  defines "w \<equiv> (0x10000000 :: u32) + push_bit 16 (ucast t) + push_bit 8 (ucast n) + (255 - ucast n)"
  shows "w AND 0xFF000000 = 0x10000000" "w AND 0xFFFF0000 = 0x10000000 + push_bit 16 (ucast t)"
    "drop_bit 8 w AND 0xFF = ucast n" "w AND 0xFF = 255 - ucast n" "w \<noteq> 0"
proof -
  have t: "unat t < 256" and n: "unat n < 256" by (rule unat_u8_lt)+
  have p16: "unat (push_bit 16 (ucast t) :: u32) = 65536 * unat t"
    using t by (simp add: push_bit_eq_mult unat_mult_lem [THEN iffD1])
  have p8: "unat (push_bit 8 (ucast n) :: u32) = 256 * unat n"
    using n by (simp add: push_bit_eq_mult unat_mult_lem [THEN iffD1])
  have c: "unat (255 - ucast n :: u32) = 255 - unat n"
    using n by (simp add: unat_sub word_le_nat_alt)
  have w: "unat w = 268435456 + 65536 * unat t + 256 * unat n + (255 - unat n)"
  proof -
    have s: "unat (k + a + b + d) = unat k + unat a + unat b + unat d"
      if "unat k + unat a + unat b + unat d < 4294967296" for k a b d :: u32
      using that by (simp add: unat_add_no_wrap)
    from s [of "0x10000000" "push_bit 16 (ucast t)" "push_bit 8 (ucast n)" "255 - ucast n"]
    show ?thesis unfolding w_def p16 p8 c using t n by simp
  qed
  have m: "(0xFFFF0000 :: u32) = NOT (mask 16)" "(0xFF000000 :: u32) = NOT (mask 24)" "(0xFF :: u32) = mask 8"
    by (simp_all add: mask_eq_exp_minus_1)
  have h: "unat ((0x10000000 :: u32) + push_bit 16 (ucast t)) = 268435456 + 65536 * unat t"
    using t p16 by (simp add: unat_add_no_wrap)
  show "w AND 0xFF000000 = 0x10000000"
    unfolding word32_eq_iff_unat m unat_and_high w using t n by simp
  show "w AND 0xFFFF0000 = 0x10000000 + push_bit 16 (ucast t)"
  proof -
    have "unat w = (255 * unat n + 255) + (4096 + unat t) * 65536" using n by (simp add: w)
    then have "unat w div 65536 = 4096 + unat t" using n by simp
    then show ?thesis unfolding word32_eq_iff_unat m unat_and_high h by simp
  qed
  show "drop_bit 8 w AND 0xFF = ucast n"
  proof -
    have "unat w = (255 - unat n) + (unat n + (4096 + unat t) * 256) * 256" using n by (simp add: w)
    then have "unat w div 256 = unat n + (4096 + unat t) * 256" using n by simp
    then have "unat w div 256 mod 256 = unat n" using n by (simp only: mod_mult_self1 mod_less)
    then show ?thesis unfolding word32_eq_iff_unat m unat_and_mask unat_drop by simp
  qed
  show "w AND 0xFF = 255 - ucast n"
  proof -
    have "unat w = (255 - unat n) + (1048576 + 256 * unat t + unat n) * 256" using n by (simp add: w)
    then have "unat w mod 256 = 255 - unat n" by (simp only: mod_mult_self1) simp
    then show ?thesis unfolding word32_eq_iff_unat c unfolding m unat_and_mask by simp
  qed
  show "w \<noteq> 0" unfolding word32_eq_iff_unat w by simp
qed

lemmas exd_id_fields = iap_id_fields [of "can_iap_target_device s" "next_packet_index s" for s,
  folded can_get_msg_exd_id_def]

lemma call_tx_fields [simp]:
  "StdID (CAN_tTxPacket (call_tx g s)) = StdID (CAN_tTxPacket s)"
  "ExtID (CAN_tTxPacket (call_tx g s)) = ExtID (CAN_tTxPacket s)"
  "IDE (CAN_tTxPacket (call_tx g s)) = IDE (CAN_tTxPacket s)"
  "RTR (CAN_tTxPacket (call_tx g s)) = RTR (CAN_tTxPacket s)"
  "DLC (CAN_tTxPacket (call_tx g s)) = DLC (CAN_tTxPacket s)"
  "can_sent (call_tx g s) = can_sent s"
  "B2B_ucTransmitFlags (call_tx g s) = B2B_ucTransmitFlags s"
  "CAN_uiTransmitFlagSubsystemIndex (call_tx g s) = CAN_uiTransmitFlagSubsystemIndex s"
  by (cases g; simp add: B2B_vTxNMTStatus_def B2B_vTxCanIapCmd_def B2B_vTxCanIapData_def
      B2B_vTxNMTControl_def put_data_def Let_def)+

lemma fill_header_fields [simp]:
  "can_sent (fill_header t s) = can_sent s"
  "B2B_ucTransmitFlags (fill_header t s) = B2B_ucTransmitFlags s"
  "CAN_uiTransmitFlagSubsystemIndex (fill_header t s) = CAN_uiTransmitFlagSubsystemIndex s"
  by (simp_all add: fill_header_def Let_def)

lemma built_fields [simp]:
  "can_sent (built i s) = can_sent s"
  "B2B_ucTransmitFlags (built i s) = B2B_ucTransmitFlags s"
  "CAN_uiTransmitFlagSubsystemIndex (built i s) = CAN_uiTransmitFlagSubsystemIndex s"
  by (simp_all add: built_def Let_def)

lemma filled_header:
  assumes "i < 4"
  shows "tx_header (CAN_tTxPacket (fill_header (B2B_tTransmitTbl ! i) s)) = table_header i"
proof -
  from assms consider "i = 0" | "i = 1" | "i = 2" | "i = 3" by linarith
  then show ?thesis
    by cases (simp_all add: fill_header_def tx_header_def table_header_def B2B_tTransmitTbl_def row_def
        Let_def exd_id_fields)
qed

lemma built_header:
  assumes "i < 4"
  shows "tx_header (CAN_tTxPacket (built (of_nat i) s)) = table_header i"
proof -
  have "unat (of_nat i :: u16) = i" using assms by (simp add: unat_of_nat)
  then have "tx_header (CAN_tTxPacket (built (of_nat i) s)) =
      tx_header (CAN_tTxPacket (fill_header (B2B_tTransmitTbl ! i) (s\<lparr>CAN_ucSubsystemIndex := 0\<rparr>)))"
    by (simp add: built_def Let_def tx_header_def)
  then show ?thesis using filled_header [OF assms] by simp
qed

text \<open>
  C33. The messages scheduled for transmission go out in the order of the transmit table, the lowest
  index first, each exactly once: on a bus that takes every frame, as many runs of the task as
  messages are pending send their frames, with the identifier and the length of their table entries,
  and leave nothing pending.
\<close>

theorem can_pending_sent_in_order:
  assumes "bus_idle s" "pending_some s" "B2B_ucTransmitFlags s \<noteq> []"
  shows "\<exists>s'. tx_runs (length (msg_bits (B2B_ucTransmitFlags s))) s = Some s' \<and>
    msg_bits (B2B_ucTransmitFlags s') = [] \<and>
    map tx_header (can_sent s') =
      map tx_header (can_sent s) @ map table_header (msg_bits (B2B_ucTransmitFlags s))"
  using assms
proof (induction "msg_bits (B2B_ucTransmitFlags s)" arbitrary: s)
  case Nil
  then show ?case by (simp flip: Nil.hyps)
next
  case (Cons i "is")
  note first = first_pending_least [OF Cons.hyps(2) [symmetric]]
  let ?t = "CAN_vIrqCallBack_tx (after_sending (of_nat i) (built (of_nat i) s))"
  have step: "CAN_vCheckTransmitTask False s = Some (after_sending (of_nat i) (built (of_nat i) s))"
    using check_transmit_pending [OF Cons.prems(1,2) first(1)] by simp
  have flags: "B2B_ucTransmitFlags ?t = CAN_vSetBit (B2B_ucTransmitFlags s) (of_nat i) False"
    by (simp add: CAN_vIrqCallBack_tx_def after_sending_def)
  have bits: "msg_bits (B2B_ucTransmitFlags ?t) = is"
    unfolding flags using msg_bits_sent [OF Cons.hyps(2) [symmetric] Cons.prems(3)] .
  have "pending_some ?t" using Cons.prems(2)
    by (simp add: pending_some_def CAN_vIrqCallBack_tx_def after_sending_def)
  moreover have "B2B_ucTransmitFlags ?t \<noteq> []"
    using Cons.prems(3) unfolding flags by (metis length_0_conv length_CAN_vSetBit)
  ultimately obtain s' where s': "tx_runs (length is) ?t = Some s'" "msg_bits (B2B_ucTransmitFlags s') = []"
    "map tx_header (can_sent s') = map tx_header (can_sent ?t) @ map table_header is"
    using Cons.hyps(1) [OF bits [symmetric] bus_released] unfolding bits by metis
  have "tx_runs (length (msg_bits (B2B_ucTransmitFlags s))) s = Some s'"
    using step s'(1) by (simp flip: Cons.hyps(2))
  moreover have "map tx_header (can_sent ?t) = map tx_header (can_sent s) @ [table_header i]"
    using built_header [OF first(2)] by (simp add: CAN_vIrqCallBack_tx_def after_sending_def)
  ultimately show ?case using s'(2,3) by (auto simp flip: Cons.hyps(2))
qed

lemma can_pending_example:
  fixes m :: memory
  defines "s \<equiv> (canstack_init m)\<lparr>CAN_uiTransmitFlagSubsystemIndex := 1, B2B_ucTransmitFlags := [0x0A, 0]\<rparr>"
  shows "bus_idle s" "pending_some s" "B2B_ucTransmitFlags s = [0x0A, 0]" "can_sent s = []"
  by (simp_all add: s_def bus_idle_def pending_some_def canstack_init_def ymodem_init_def
      ymodem.defs canstack.defs)

theorem can_pending_sent_in_order_witness:
  "\<exists>s'. tx_runs 2 ((canstack_init (\<lambda>_. 0))\<lparr>CAN_uiTransmitFlagSubsystemIndex := 1, B2B_ucTransmitFlags := [0x0A, 0]\<rparr>) = Some s' \<and>
     map tx_header (can_sent s') = [(0, 0x11000000, 3), (0, 0, 2)]"
proof -
  have b: "msg_bits [0x0A, 0] = [1, 3]"
    unfolding msg_bits_bit upt_4 by (simp add: bit_word_iff_drop_bit_and)
  show ?thesis
    using can_pending_sent_in_order [OF can_pending_example(1,2) [of "\<lambda>_. 0"]]
    unfolding can_pending_example(3,4) b
    by (auto simp: numeral_2_eq_2 table_header_def B2B_tTransmitTbl_def row_def numeral_3_eq_3)
qed

text \<open>
  When the controller has no free transmit buffer the message stays pending, but the eight data
  bytes are cleared already while the frame is built: the repetition sends eight zero bytes under the
  number of the lost packet.
\<close>

theorem full_buffer_sends_zeros:
  assumes "bus_idle s" "pending_some s" "msg_bits (B2B_ucTransmitFlags s) = [2]"
    and "length (Data (CAN_tTxPacket s)) = 8" "length (iap_data s) = 8"
  shows "\<exists>sent s1 s2. CAN_vCheckTransmitTask False s = Some sent \<and> Data (last (can_sent sent)) = iap_data s \<and>
    CAN_vCheckTransmitTask True s = Some s1 \<and> can_sent s1 = can_sent s \<and>
    CAN_vCheckTransmitTask False s1 = Some s2 \<and> Data (last (can_sent s2)) = replicate 8 0 \<and>
    ExtID (last (can_sent s2)) = ExtID (last (can_sent sent))"
proof -
  note first = first_pending_least [OF assms(3)]
  have two: "(of_nat 2 :: u16) = 2" by simp
  let ?b = "built 2 s"
  have data: "Data (CAN_tTxPacket (built 2 t)) = poke (Data (CAN_tTxPacket t)) 0 (take 8 (iap_data t))"
    "iap_data (built 2 t) = replicate 8 0" "ExtID (CAN_tTxPacket (built 2 t)) = can_get_msg_exd_id t"
    "can_get_msg_exd_id (built 2 t) = can_get_msg_exd_id t" "CAN_tBusStatus (built 2 t) = CAN_tBusStatus t"
    for t :: "'a canstack_scheme"
    by (simp_all add: built_def B2B_tTransmitTbl_def row_def fill_header_def Let_def B2B_vTxCanIapData_def
        can_get_msg_exd_id_def)
  have s1: "CAN_vCheckTransmitTask full s = Some (if full then ?b else after_sending 2 ?b)" for full
    using check_transmit_pending [OF assms(1,2) first(1)] by (simp only: two)
  have "bus_idle ?b" "pending_some ?b" using assms(1,2) by (simp_all add: bus_idle_def pending_some_def data)
  moreover have "first_pending (B2B_ucTransmitFlags ?b) 4 0 = Some 2"
    using first(1) by (simp add: two)
  ultimately have s2: "CAN_vCheckTransmitTask False ?b = Some (after_sending 2 (built 2 ?b))"
    by (simp add: check_transmit_pending)
  show ?thesis
    using s1 s2 assms(4,5) by (simp add: after_sending_def data poke_def)
qed

definition example_data_pending :: canstack where
  "example_data_pending = (canstack_init (\<lambda>_. 0))\<lparr>CAN_uiTransmitFlagSubsystemIndex := 1,
     B2B_ucTransmitFlags := [4, 0], iap_data := replicate 8 7\<rparr>"

theorem full_buffer_sends_zeros_witness:
  "\<exists>sent s1 s2. CAN_vCheckTransmitTask False example_data_pending = Some sent \<and>
    Data (last (can_sent sent)) = replicate 8 7 \<and>
    CAN_vCheckTransmitTask True example_data_pending = Some s1 \<and>
    CAN_vCheckTransmitTask False s1 = Some s2 \<and> Data (last (can_sent s2)) = replicate 8 0"
proof -
  have b: "msg_bits [4, 0] = [2]" unfolding msg_bits_bit upt_4 by (simp add: bit_word_iff_drop_bit_and)
  have e: "bus_idle example_data_pending" "pending_some example_data_pending"
    "B2B_ucTransmitFlags example_data_pending = [4, 0]" "length (Data (CAN_tTxPacket example_data_pending)) = 8"
    "iap_data example_data_pending = replicate 8 7"
    by (simp_all add: example_data_pending_def bus_idle_def pending_some_def canstack_init_def ymodem_init_def
        ymodem.defs canstack.defs zero_frame_def)
  show ?thesis using full_buffer_sends_zeros [OF e(1,2) _ e(4)] by (auto simp: e(3,5) b)
qed

text \<open>
  A node guarding request (identifier 0x704, the address of this node) reaches no service: its low
  four bits give subsystem 4, which is not in the object table, although the receive table has a row
  for it. No such frame changes anything.
\<close>

theorem nmt_guarding_never_served:
  assumes "\<not> IDE f" "StdID f = 0x704"
  shows "CAN_vReceptionHandler f s = s \<and>
    row CAN_MSG_ID_NMT_GUARDING 0 0 CAN_RTR_REMOTE B2B_RxNMTGuarding \<in> set B2B_tReceiveTbl"
  using assms by (simp add: CAN_vReceptionHandler_def frame_service_def frame_key_def
      CAN_ucGetSubsystemIndex_def CAN_tObjectTable_def B2B_tReceiveTbl_def)

theorem nmt_guarding_never_served_witness:
  "CAN_vReceptionHandler (zero_frame\<lparr>StdID := 0x704, RTR := 1\<rparr>) (canstack_init (\<lambda>_. 0)) = canstack_init (\<lambda>_. 0)"
  using nmt_guarding_never_served [of "zero_frame\<lparr>StdID := 0x704, RTR := 1\<rparr>" "canstack_init (\<lambda>_. 0)"]
  by (simp add: zero_frame_def)

end
