(* ===== verification/Fota.thy ===== *)
theory Fota
  imports CanIap
begin

text \<open>
  The firmware updater of the bootloader (source/tnd_fota.c): it checks the image in the download area
  of the flash, copies it over the application, forwards it to another board or starts the application.
  The state extends the record of theory CanIap, which holds the size of the image. The CRC unit of the
  processor is hardware: \<open>crc32b v ws\<close> is the value of its result register after it was loaded with
  \<open>v\<close> and the words \<open>ws\<close> were written to its data register. A result \<open>None\<close> is a loop that does
  not end.
\<close>

section \<open>State\<close>

datatype TfotaTaskStateDef =
    FOTA_TASK_INIT | FOTA_TASK_CHECK_UPDATE | FOTA_TASK_DOWNLOADING | FOTA_TASK_CHECK_FW
  | FOTA_TASK_FW_UPDATE | FOTA_TASK_FW_FORWARD | FOTA_TASK_START_APP

text \<open>The header of an RBL file, 96 bytes.\<close>

record rt_fota_part_head =
  head_type :: bytes
  fota_algo :: u16
  fm_time :: bytes
  app_part_name :: bytes
  download_version :: bytes
  current_version :: bytes
  code_crc :: u32
  hash_val :: u32
  raw_size :: u32
  com_size :: u32
  head_crc_field :: u32

text \<open>What the jump into the application loads: stack pointer, entry point, vector table.\<close>

record started_app =
  app_msp :: u32
  app_entry :: u32
  app_vtor :: u32

record fota = canstack +
  FOTA_tTaskState :: TfotaTaskStateDef
  app_file_cur_size :: u32
  crc_rom_value :: u32
  crc_rom_cur_size :: u32
  fota_part_head :: rt_fota_part_head
  head_crc :: u32
  file_crc :: u32
  fota_started :: "started_app option"

type_synonym crc_unit = "u32 \<Rightarrow> u32 list \<Rightarrow> u32"

abbreviation (input) FLASH_APP_START_ADDR :: u32 where "FLASH_APP_START_ADDR \<equiv> 0x8000"
abbreviation (input) FLASH_APP_SIZE :: u32 where "FLASH_APP_SIZE \<equiv> 0x1A000"
abbreviation (input) FLASH_APP_INFO_ADDR :: u32 where "FLASH_APP_INFO_ADDR \<equiv> 0x21FE0"
abbreviation (input) FLASH_DOWNLOAD_MAGIC_WORD_BEGIN_OFFSET :: u32 where "FLASH_DOWNLOAD_MAGIC_WORD_BEGIN_OFFSET \<equiv> 0"
abbreviation (input) FLASH_DOWNLOAD_FILE_SIZE_OFFSET :: u32 where "FLASH_DOWNLOAD_FILE_SIZE_OFFSET \<equiv> 4"
abbreviation (input) FLASH_DOWNLOAD_CRC32_OFFSET :: u32 where "FLASH_DOWNLOAD_CRC32_OFFSET \<equiv> 8"
abbreviation (input) FLASH_DOWNLOAD_TARGET_DEVICE_OFFSET :: u32 where "FLASH_DOWNLOAD_TARGET_DEVICE_OFFSET \<equiv> 12"
abbreviation (input) FLASH_DOWNLOAD_RAM_VETOR_OFFSET :: u32 where "FLASH_DOWNLOAD_RAM_VETOR_OFFSET \<equiv> 32"
abbreviation (input) IAP_MAGIC_WORD_BEGIN :: u32 where "IAP_MAGIC_WORD_BEGIN \<equiv> 0xf0a55a0f"
abbreviation (input) CRC_INIT :: u32 where "CRC_INIT \<equiv> 0xFFFFFFFF"
abbreviation (input) PART_HEAD_SIZE :: u32 where "PART_HEAD_SIZE \<equiv> 96"

section \<open>Reading the flash\<close>

definition word_at :: "memory \<Rightarrow> u32 \<Rightarrow> u32" where
  "word_at m a = of_le32 (mread m (unat a) 4)"

definition words_at :: "memory \<Rightarrow> u32 \<Rightarrow> nat \<Rightarrow> u32 list" where
  "words_at m a n = map (\<lambda>i. word_at m (a + 4 * of_nat i)) [0..<n]"

definition part_head_at :: "memory \<Rightarrow> u32 \<Rightarrow> rt_fota_part_head" where
  "part_head_at m a =
    \<lparr>head_type = mread m (unat a) 4,
     fota_algo = ucast (m (unat (a + 4))) OR push_bit 8 (ucast (m (unat (a + 5)))),
     fm_time = mread m (unat (a + 6)) 6,
     app_part_name = mread m (unat (a + 12)) 16,
     download_version = mread m (unat (a + 28)) 24,
     current_version = mread m (unat (a + 52)) 24,
     code_crc = word_at m (a + 76),
     hash_val = word_at m (a + 80),
     raw_size = word_at m (a + 84),
     com_size = word_at m (a + 88),
     head_crc_field = word_at m (a + 92)\<rparr>"

text \<open>\<open>strcmp(p, name) == 0\<close> for a name of the program: its characters, then the terminator.\<close>

definition FOTA_DEVICE_NAME :: bytes where
  "FOTA_DEVICE_NAME = [0x50, 0x32, 0x30, 0x30, 0x31, 0x5F, 0x44, 0x52, 0x56]"

definition TND_CTL_DEVICE_NAME :: bytes where
  "TND_CTL_DEVICE_NAME = [0x54, 0x4E, 0x44, 0x5F, 0x43, 0x54, 0x4C]"

definition TND_DRV_DEVICE_NAME :: bytes where
  "TND_DRV_DEVICE_NAME = [0x54, 0x4E, 0x44, 0x5F, 0x44, 0x52, 0x56]"

definition TND_INT_DEVICE_NAME :: bytes where
  "TND_INT_DEVICE_NAME = [0x54, 0x4E, 0x44, 0x5F, 0x49, 0x4E, 0x54]"

definition str_is :: "memory \<Rightarrow> u32 \<Rightarrow> bytes \<Rightarrow> bool" where
  "str_is m a name \<longleftrightarrow> mread m (unat a) (length name + 1) = name @ [0]"

section \<open>Checksums\<close>

text \<open>
  The loop passes the whole image to the CRC unit at once and then adds the whole size.
\<close>

partial_function (option) crc_flash_loop ::
  "crc_unit \<Rightarrow> u32 \<Rightarrow> 'a fota_scheme \<Rightarrow> 'a fota_scheme option" where
  "crc_flash_loop crc32b ulFlashAddr s =
    (if crc_rom_cur_size s < app_file_size s
     then crc_flash_loop crc32b ulFlashAddr
       (s\<lparr>crc_rom_value := crc32b (crc_rom_value s)
            (words_at (b_mem s) (ulFlashAddr + FLASH_DOWNLOAD_RAM_VETOR_OFFSET + crc_rom_cur_size s)
               (unat (app_file_size s div 4))),
          crc_rom_cur_size := crc_rom_cur_size s + app_file_size s\<rparr>)
     else Some s)"

definition FOTA_ucCheckFlashCrc ::
  "crc_unit \<Rightarrow> u32 \<Rightarrow> 'a fota_scheme \<Rightarrow> (bool \<times> 'a fota_scheme) option" where
  "FOTA_ucCheckFlashCrc crc32b ulFlashAddr s =
    (let crc_in_flash = word_at (b_mem s) (ulFlashAddr + FLASH_DOWNLOAD_CRC32_OFFSET);
         s = s\<lparr>crc_rom_value := CRC_INIT\<rparr>;
         s = s\<lparr>app_file_size := word_at (b_mem s) (FLASH_DOWNLOAD_START_ADDR + FLASH_DOWNLOAD_FILE_SIZE_OFFSET)\<rparr>;
         s = s\<lparr>crc_rom_cur_size := 0\<rparr>
     in map_option (\<lambda>s. (crc_in_flash = crc_rom_value s, s)) (crc_flash_loop crc32b ulFlashAddr s))"

definition FOTA_ulCalculateCrc :: "crc_unit \<Rightarrow> memory \<Rightarrow> u32 \<Rightarrow> u32 \<Rightarrow> u32" where
  "FOTA_ulCalculateCrc crc32b m ulAddr ulDataLen = crc32b CRC_INIT (words_at m ulAddr (unat (ulDataLen div 4)))"

section \<open>Starting the application\<close>

text \<open>
  A jump that is taken is recorded in \<open>fota_started\<close>; the interrupts are off and their handlers
  resigned by then. The value 0 is what the function returns if the application ever did.
\<close>

definition FOTA_ucStartApplication :: "u32 \<Rightarrow> 'a fota_scheme \<Rightarrow> u8 \<times> 'a fota_scheme" where
  "FOTA_ucStartApplication ulAppAddr s =
    (if word_at (b_mem s) ulAppAddr AND 0xffff0000 \<noteq> 0x1fff0000 then (1, s)
     else (0, s\<lparr>fota_started := Some \<lparr>app_msp = word_at (b_mem s) ulAppAddr,
                  app_entry = word_at (b_mem s) (ulAppAddr + 4),
                  app_vtor = ulAppAddr AND 0xFFFFFF80\<rparr>\<rparr>))"

section \<open>Checking the downloaded image\<close>

text \<open>
  The result 0 starts the application, 1 updates it, 2 forwards the image.
\<close>

definition target_of :: "memory \<Rightarrow> u32 \<Rightarrow> u8 option" where
  "target_of m file_name =
    (if str_is m file_name TND_CTL_DEVICE_NAME then Some CAN_NODE_ID_TND_CTL
     else if str_is m file_name TND_DRV_DEVICE_NAME then Some CAN_NODE_ID_TND_DRV
     else if str_is m file_name TND_INT_DEVICE_NAME then Some CAN_NODE_ID_TND_INT
     else None)"

definition FOTA_ucCheckFirmware ::
  "flash_chip \<Rightarrow> crc_unit \<Rightarrow> u32 \<Rightarrow> 'a fota_scheme \<Rightarrow> (u8 \<times> 'a fota_scheme) option" where
  "FOTA_ucCheckFirmware c crc32b ulDownloadAddr s =
    (let m = b_mem s;
         s = s\<lparr>fota_part_head := part_head_at m ulDownloadAddr\<rparr>
     in if str_is m ulDownloadAddr [0x52, 0x42, 0x4C]
        then let s = s\<lparr>head_crc := FOTA_ulCalculateCrc crc32b m ulDownloadAddr (PART_HEAD_SIZE - 4)\<rparr>
             in if head_crc s \<noteq> head_crc_field (fota_part_head s) then Some (0, s)
                else let s = s\<lparr>file_crc := FOTA_ulCalculateCrc crc32b m (ulDownloadAddr + PART_HEAD_SIZE)
                                             (com_size (fota_part_head s))\<rparr>
                     in if file_crc s \<noteq> code_crc (fota_part_head s) then Some (0, s)
                        else let s = s\<lparr>app_file_size := com_size (fota_part_head s) + PART_HEAD_SIZE\<rparr>
                             in Some (2, can_set_target_device CAN_NODE_ID_TND_CTL s)
        else if word_at m (ulDownloadAddr + FLASH_DOWNLOAD_MAGIC_WORD_BEGIN_OFFSET) \<noteq> IAP_MAGIC_WORD_BEGIN
        then Some (0, s)
        else case FOTA_ucCheckFlashCrc crc32b FLASH_DOWNLOAD_START_ADDR s of
               None \<Rightarrow> None
             | Some (ok, s) \<Rightarrow>
                 if \<not> ok
                 then Some (0, s\<lparr>b_flash := boot_FLASH_vEraseSector c (b_flash s)
                                              FLASH_DOWNLOAD_START_ADDR FLASH_DOWNLOAD_SIZE\<rparr>)
                 else let file_name = ulDownloadAddr + FLASH_DOWNLOAD_TARGET_DEVICE_OFFSET
                      in if \<not> str_is m file_name FOTA_DEVICE_NAME
                         then case target_of m file_name of
                                Some d \<Rightarrow> Some (2, can_set_target_device d s)
                              | None \<Rightarrow> Some (0, s)
                         else Some (1, s))"

section \<open>Copying the image\<close>

partial_function (option) fota_copy_loop ::
  "flash_chip \<Rightarrow> u32 \<Rightarrow> 'a fota_scheme \<Rightarrow> 'a fota_scheme option" where
  "fota_copy_loop c ulDownloadAddr s =
    (if app_file_cur_size s < app_file_size s
     then let ulData = word_at (b_mem s) (ulDownloadAddr + FLASH_DOWNLOAD_RAM_VETOR_OFFSET + app_file_cur_size s)
          in fota_copy_loop c ulDownloadAddr
               (s\<lparr>b_flash := boot_FLASH_vWriteBytes c (b_flash s)
                    (FLASH_APP_START_ADDR + app_file_cur_size s) (le32 ulData) 4,
                  app_file_cur_size := app_file_cur_size s + 4\<rparr>)
     else Some s)"

definition FOTA_ucFirmwareUpdate ::
  "flash_chip \<Rightarrow> u32 \<Rightarrow> 'a fota_scheme \<Rightarrow> (u8 \<times> 'a fota_scheme) option" where
  "FOTA_ucFirmwareUpdate c ulDownloadAddr s =
    (let s = s\<lparr>app_file_cur_size := 0\<rparr>;
         s = s\<lparr>b_flash := boot_FLASH_vEraseSector c (b_flash s) FLASH_APP_START_ADDR FLASH_APP_SIZE\<rparr>
     in map_option (\<lambda>s.
          let s = s\<lparr>b_flash := boot_FLASH_vWriteBytes c (b_flash s) FLASH_APP_INFO_ADDR
                       (mread (b_mem s) (unat ulDownloadAddr) 32) 32\<rparr>;
              s = s\<lparr>b_flash := boot_FLASH_vEraseSector c (b_flash s)
                       FLASH_DOWNLOAD_START_ADDR FLASH_DOWNLOAD_SIZE\<rparr>
          in (0, s)) (fota_copy_loop c ulDownloadAddr s))"

definition FOTA_ucFirmwareForward :: "flash_chip \<Rightarrow> 'a fota_scheme \<Rightarrow> u8 \<times> 'a fota_scheme" where
  "FOTA_ucFirmwareForward c s =
    (let s = can_start_iap CAN_IAP_SERVER_MODE s
     in if IAP_SERVER_STAGE_FINISHED = can_iap_get_task_state s
        then (0, s\<lparr>b_flash := boot_FLASH_vEraseSector c (b_flash s)
                                FLASH_DOWNLOAD_START_ADDR FLASH_DOWNLOAD_SIZE\<rparr>)
        else (1, s))"

section \<open>The task\<close>

definition FOTA_vTaskHandler :: "flash_chip \<Rightarrow> crc_unit \<Rightarrow> 'a fota_scheme \<Rightarrow> 'a fota_scheme option" where
  "FOTA_vTaskHandler c crc32b s =
    (case FOTA_tTaskState s of
       FOTA_TASK_INIT \<Rightarrow>
         (let s = s\<lparr>FOTA_tTaskState := FOTA_TASK_CHECK_UPDATE\<rparr>;
              s = ymodem_start_ota s
          in Some (s\<lparr>b_tmr := boot_TMR_vSetTime (b_tmr s) TMR_FOTA_POLLING (TMR_TIME_MS2TICKS 200)\<rparr>))
     | FOTA_TASK_CHECK_UPDATE \<Rightarrow>
         (let s = (if boot_TMR_bIsTimeExpired (b_tmr s) TMR_FOTA_POLLING
                   then s\<lparr>FOTA_tTaskState := FOTA_TASK_CHECK_FW\<rparr> else s)
          in Some (if ymodem_is_ota_data_received s then s\<lparr>FOTA_tTaskState := FOTA_TASK_DOWNLOADING\<rparr> else s))
     | FOTA_TASK_DOWNLOADING \<Rightarrow> Some s
     | FOTA_TASK_CHECK_FW \<Rightarrow>
         map_option (\<lambda>(result, s).
           if result = 0 then s\<lparr>FOTA_tTaskState := FOTA_TASK_START_APP\<rparr>
           else if result = 1 then s\<lparr>FOTA_tTaskState := FOTA_TASK_FW_UPDATE\<rparr>
           else if result = 2 then s\<lparr>FOTA_tTaskState := FOTA_TASK_FW_FORWARD\<rparr>
           else s) (FOTA_ucCheckFirmware c crc32b FLASH_DOWNLOAD_START_ADDR s)
     | FOTA_TASK_FW_UPDATE \<Rightarrow>
         map_option (\<lambda>(result, s). if result = 0 then s\<lparr>FOTA_tTaskState := FOTA_TASK_START_APP\<rparr> else s)
           (FOTA_ucFirmwareUpdate c FLASH_DOWNLOAD_START_ADDR s)
     | FOTA_TASK_FW_FORWARD \<Rightarrow>
         (case FOTA_ucFirmwareForward c s of (result, s) \<Rightarrow>
           Some (if result = 0 then s\<lparr>FOTA_tTaskState := FOTA_TASK_START_APP\<rparr> else s))
     | FOTA_TASK_START_APP \<Rightarrow>
         (case FOTA_ucStartApplication FLASH_APP_START_ADDR s of (result, s) \<Rightarrow>
           Some (if result \<noteq> 0
                 then let s = s\<lparr>FOTA_tTaskState := FOTA_TASK_CHECK_UPDATE\<rparr>;
                          s = can_iap_task_init s;
                          s = ymodem_ota_task_init s
                      in s\<lparr>b_tmr := boot_TMR_vSetTime (b_tmr s) TMR_FOTA_POLLING (TMR_TIME_SEC2TICKS 3600)\<rparr>
                 else s)))"

definition FOTA_ulGetAppFileSize :: "'a fota_scheme \<Rightarrow> u32" where
  "FOTA_ulGetAppFileSize s = app_file_size s"

section \<open>What counts as an image for this device\<close>

definition image_size :: "memory \<Rightarrow> u32" where
  "image_size m = word_at m (FLASH_DOWNLOAD_START_ADDR + FLASH_DOWNLOAD_FILE_SIZE_OFFSET)"

definition image_crc :: "crc_unit \<Rightarrow> memory \<Rightarrow> u32" where
  "image_crc crc32b m = (if image_size m = 0 then CRC_INIT
     else crc32b CRC_INIT (words_at m (FLASH_DOWNLOAD_START_ADDR + FLASH_DOWNLOAD_RAM_VETOR_OFFSET)
            (unat (image_size m div 4))))"

definition image_ok :: "crc_unit \<Rightarrow> memory \<Rightarrow> bool" where
  "image_ok crc32b m \<longleftrightarrow>
     word_at m FLASH_DOWNLOAD_START_ADDR = IAP_MAGIC_WORD_BEGIN \<and>
     word_at m (FLASH_DOWNLOAD_START_ADDR + FLASH_DOWNLOAD_CRC32_OFFSET) = image_crc crc32b m \<and>
     str_is m (FLASH_DOWNLOAD_START_ADDR + FLASH_DOWNLOAD_TARGET_DEVICE_OFFSET) FOTA_DEVICE_NAME"

lemma crc_flash_loop_once:
  assumes "crc_rom_cur_size s = 0"
  shows "crc_flash_loop crc32b a s = Some (if app_file_size s = 0 then s
     else s\<lparr>crc_rom_value := crc32b (crc_rom_value s)
              (words_at (b_mem s) (a + FLASH_DOWNLOAD_RAM_VETOR_OFFSET) (unat (app_file_size s div 4))),
            crc_rom_cur_size := app_file_size s\<rparr>)"
proof (cases "app_file_size s = 0")
  case True
  then show ?thesis using assms by (subst crc_flash_loop.simps) simp
next
  case False
  then have "0 < app_file_size s" by (simp add: word_gt_0)
  with False assms show ?thesis
    by (subst crc_flash_loop.simps) (simp add: crc_flash_loop.simps [of _ _ "s\<lparr>crc_rom_value := _, crc_rom_cur_size := _\<rparr>"])
qed

lemma check_flash_crc:
  obtains s' where "FOTA_ucCheckFlashCrc crc32b FLASH_DOWNLOAD_START_ADDR s =
      Some (word_at (b_mem s) (FLASH_DOWNLOAD_START_ADDR + FLASH_DOWNLOAD_CRC32_OFFSET) = image_crc crc32b (b_mem s), s')"
    "b_flash s' = b_flash s" "app_file_size s' = image_size (b_mem s)" "b_tmr s' = b_tmr s"
    "FOTA_tTaskState s' = FOTA_tTaskState s" "fota_started s' = fota_started s"
  by (rule that [of "let s = s\<lparr>crc_rom_value := image_crc crc32b (b_mem s), app_file_size := image_size (b_mem s),
        crc_rom_cur_size := image_size (b_mem s)\<rparr> in s"])
    (simp_all add: FOTA_ucCheckFlashCrc_def Let_def crc_flash_loop_once image_crc_def image_size_def)

text \<open>An image begins with the magic word, so it is not an RBL file.\<close>

lemma magic_not_RBL:
  assumes "word_at m a = IAP_MAGIC_WORD_BEGIN"
  shows "\<not> str_is m a [0x52, 0x42, 0x4C]"
proof
  assume "str_is m a [0x52, 0x42, 0x4C]"
  then have "mread m (unat a) 4 = [0x52, 0x42, 0x4C, 0]" by (simp add: str_is_def eval_nat_numeral)
  then have "word_at m a = of_le32 [0x52, 0x42, 0x4C, 0]" by (simp add: word_at_def)
  moreover have "of_le32 [0x52, 0x42, 0x4C, 0] \<noteq> IAP_MAGIC_WORD_BEGIN" by (simp add: of_le32_def)
  ultimately show False using assms by simp
qed

lemma erase_download:
  assumes "flash_chip_ok c"
  shows "FMEM (fst (boot_FLASH_vEraseSector c d FLASH_DOWNLOAD_START_ADDR FLASH_DOWNLOAD_SIZE)) =
    mfill (FMEM (fst d)) 0x22000 0x1A000 255"
  using boot_nv.erase_ok [OF assms, of FLASH_DOWNLOAD_START_ADDR FLASH_DOWNLOAD_SIZE d]
  by (simp add: SECTOR_def)

lemma erase_app:
  assumes "flash_chip_ok c"
  shows "FMEM (fst (boot_FLASH_vEraseSector c d FLASH_APP_START_ADDR FLASH_APP_SIZE)) =
    mfill (FMEM (fst d)) 0x8000 0x1A000 255"
  using boot_nv.erase_ok [OF assms, of FLASH_APP_START_ADDR FLASH_APP_SIZE d]
  by (simp add: SECTOR_def)

lemma check_firmware_image:
  assumes "image_ok crc32b (b_mem s)"
  obtains s' where "FOTA_ucCheckFirmware c crc32b FLASH_DOWNLOAD_START_ADDR s = Some (1, s')"
    "b_flash s' = b_flash s" "app_file_size s' = image_size (b_mem s)"
proof -
  let ?s = "s\<lparr>fota_part_head := part_head_at (b_mem s) FLASH_DOWNLOAD_START_ADDR\<rparr>"
  have i: "word_at (b_mem s) FLASH_DOWNLOAD_START_ADDR = IAP_MAGIC_WORD_BEGIN"
     "word_at (b_mem s) (FLASH_DOWNLOAD_START_ADDR + FLASH_DOWNLOAD_CRC32_OFFSET) = image_crc crc32b (b_mem s)"
     "str_is (b_mem s) (FLASH_DOWNLOAD_START_ADDR + FLASH_DOWNLOAD_TARGET_DEVICE_OFFSET) FOTA_DEVICE_NAME"
    using assms unfolding image_ok_def by blast+
  obtain s' where s': "FOTA_ucCheckFlashCrc crc32b FLASH_DOWNLOAD_START_ADDR ?s =
      Some (word_at (b_mem ?s) (FLASH_DOWNLOAD_START_ADDR + FLASH_DOWNLOAD_CRC32_OFFSET) = image_crc crc32b (b_mem ?s), s')"
    "b_flash s' = b_flash ?s" "app_file_size s' = image_size (b_mem ?s)"
    by (rule check_flash_crc)
  have m: "b_mem ?s = b_mem s" by simp
  show ?thesis
  proof (rule that)
    show "FOTA_ucCheckFirmware c crc32b FLASH_DOWNLOAD_START_ADDR s = Some (1, s')"
      using i s'(1) magic_not_RBL [OF i(1)] unfolding FOTA_ucCheckFirmware_def Let_def m
      by simp
  qed (use s' in simp_all)
qed

lemma check_firmware_total:
  assumes "flash_chip_ok c"
  shows "\<exists>r s'. FOTA_ucCheckFirmware c crc32b FLASH_DOWNLOAD_START_ADDR s = Some (r, s') \<and>
    (r = 1 \<longleftrightarrow> image_ok crc32b (b_mem s)) \<and> r \<le> 2 \<and>
    (b_mem s' = b_mem s \<or> b_mem s' = mfill (b_mem s) 0x22000 0x1A000 255)"
proof -
  let ?s = "s\<lparr>fota_part_head := part_head_at (b_mem s) FLASH_DOWNLOAD_START_ADDR\<rparr>"
  have m: "b_mem ?s = b_mem s" by simp
  obtain s' where s': "FOTA_ucCheckFlashCrc crc32b FLASH_DOWNLOAD_START_ADDR ?s =
      Some (word_at (b_mem ?s) (FLASH_DOWNLOAD_START_ADDR + FLASH_DOWNLOAD_CRC32_OFFSET) = image_crc crc32b (b_mem ?s), s')"
    "b_flash s' = b_flash ?s"
    by (rule check_flash_crc)
  show ?thesis
  proof (cases "str_is (b_mem s) FLASH_DOWNLOAD_START_ADDR [0x52, 0x42, 0x4C]")
    case True
    then have "\<not> image_ok crc32b (b_mem s)" using magic_not_RBL unfolding image_ok_def by blast
    with True show ?thesis
      by (simp add: FOTA_ucCheckFirmware_def Let_def can_set_target_device_def)
  next
    case False
    show ?thesis
    proof (cases "word_at (b_mem s) FLASH_DOWNLOAD_START_ADDR = IAP_MAGIC_WORD_BEGIN")
      case True
      with False s' m erase_download [OF assms] show ?thesis
        unfolding FOTA_ucCheckFirmware_def Let_def m
        by (simp add: image_ok_def can_set_target_device_def split: option.split)
    qed (use False in \<open>simp add: FOTA_ucCheckFirmware_def Let_def image_ok_def\<close>)
  qed
qed

text \<open>
  C12. The check of the download area decides as it should and harms nothing else: the update is
  chosen exactly when the magic word, the checksum over the announced size and the device name are
  right, and whatever it finds, flash outside the download area keeps its content.
\<close>

theorem fota_check_decides:
  assumes "flash_chip_ok c" "FOTA_tTaskState s = FOTA_TASK_CHECK_FW"
  shows "\<exists>s'. FOTA_vTaskHandler c crc32b s = Some s' \<and>
    (FOTA_tTaskState s' = FOTA_TASK_FW_UPDATE \<longleftrightarrow> image_ok crc32b (b_mem s)) \<and>
    (\<forall>x. x < 0x22000 \<or> 0x3C000 \<le> x \<longrightarrow> b_mem s' x = b_mem s x)"
proof -
  obtain r s' where r: "FOTA_ucCheckFirmware c crc32b FLASH_DOWNLOAD_START_ADDR s = Some (r, s')"
    "r = 1 \<longleftrightarrow> image_ok crc32b (b_mem s)" "r \<le> 2"
    "b_mem s' = b_mem s \<or> b_mem s' = mfill (b_mem s) 0x22000 0x1A000 255"
    using check_firmware_total [OF assms(1)] by blast
  have m: "\<forall>x. x < 0x22000 \<or> 0x3C000 \<le> x \<longrightarrow> b_mem s' x = b_mem s x"
    using r(4) by (auto simp: mem_simps)
  have "unat r < 3" using r(3) by (simp add: word_le_nat_alt)
  then have "unat r = 0 \<or> unat r = 1 \<or> unat r = 2" by linarith
  then have "r = 0 \<or> r = 1 \<or> r = 2" by (auto simp: word_unat_eq_iff)
  then show ?thesis using assms(2) r(1,2) m by (auto simp: FOTA_vTaskHandler_def)
qed

section \<open>The copy\<close>

definition image_words :: "u32 \<Rightarrow> nat" where
  "image_words n = (unat n + 3) div 4"

lemma le32_word_at: "le32 (word_at m a) = mread m (unat a) 4"
  by (simp add: word_at_def le32_of_le32)

lemma app_address: "4 * i < 0x1A000 \<Longrightarrow> unat (FLASH_APP_START_ADDR + of_nat (4 * i)) = 0x8000 + 4 * i"
  by (subst unat_add_no_wrap) (simp_all only: unat_of_nat_u32, simp_all)

lemma image_address:
  assumes "4 * i < 0x1A000"
  shows "unat (FLASH_DOWNLOAD_START_ADDR + FLASH_DOWNLOAD_RAM_VETOR_OFFSET + of_nat (4 * i)) = 0x22020 + 4 * i"
  by (subst unat_add_no_wrap) (use assms in \<open>simp_all only: unat_of_nat_u32, simp_all\<close>)

lemma image_words_bound: "n \<le> 0x19FE0 \<Longrightarrow> 4 * ((n + 3) div 4) \<le> (0x19FE0 :: nat)"
  using div_le_mono [of "n + 3" "0x19FE3" 4] by simp

lemma fota_copy:
  assumes "flash_chip_ok c" "n \<le> 0x19FE0"
  shows "app_file_cur_size s = of_nat (4 * i) \<Longrightarrow> app_file_size s = of_nat n \<Longrightarrow> k = (n + 3) div 4 - i \<Longrightarrow>
    i \<le> (n + 3) div 4 \<Longrightarrow> erased (b_mem s) (0x8000 + 4 * i) (4 * k) \<Longrightarrow>
    \<exists>s'. fota_copy_loop c FLASH_DOWNLOAD_START_ADDR s = Some s' \<and>
      b_mem s' = mwrite (b_mem s) (0x8000 + 4 * i) (mread (b_mem s) (0x22020 + 4 * i) (4 * k)) \<and>
      FOTA_tTaskState s' = FOTA_tTaskState s"
proof (induction k arbitrary: s i)
  case 0
  then have i: "i = (n + 3) div 4" by simp
  have "n \<le> 4 * ((n + 3) div 4)" by linarith
  moreover have "4 * ((n + 3) div 4) \<le> 0x19FE0" using image_words_bound [OF assms(2)] .
  ultimately have "\<not> app_file_cur_size s < app_file_size s"
    unfolding 0(1,2) word_less_nat_alt i by (simp only: unat_of_nat_u32 not_less)
  then show ?case by (subst fota_copy_loop.simps) simp
next
  case (Suc k)
  have i: "4 * i < n" "4 * i < 0x19FE0" using Suc.prems(3) assms(2) by linarith+
  let ?a = "FLASH_APP_START_ADDR + app_file_cur_size s"
  let ?w = "word_at (b_mem s) (FLASH_DOWNLOAD_START_ADDR + FLASH_DOWNLOAD_RAM_VETOR_OFFSET + app_file_cur_size s)"
  let ?s = "s\<lparr>b_flash := boot_FLASH_vWriteBytes c (b_flash s) ?a (le32 ?w) 4,
      app_file_cur_size := app_file_cur_size s + 4\<rparr>"
  have less: "app_file_cur_size s < app_file_size s"
    unfolding Suc.prems(1,2) word_less_nat_alt using i assms(2) by (simp only: unat_of_nat_u32)
  have a: "unat ?a = 0x8000 + 4 * i"
    unfolding Suc.prems(1) using app_address i(2) by simp
  have w: "le32 ?w = mread (b_mem s) (0x22020 + 4 * i) 4"
    unfolding Suc.prems(1) le32_word_at using image_address [of i] i(2) by simp
  have er: "erased (b_mem s) (0x8000 + 4 * i) 4" "erased (b_mem s) (0x8000 + 4 * Suc i) (4 * k)"
    using Suc.prems(5) erased_split [of "b_mem s" "0x8000 + 4 * i" 4 "4 * k"] by (simp_all add: add.commute)
  have mem: "b_mem ?s = mwrite (b_mem s) (0x8000 + 4 * i) (mread (b_mem s) (0x22020 + 4 * i) 4)"
    using boot_nv.write_ok [OF assms(1), of ?a 4 "le32 ?w" "b_flash s"] er(1) i(2) a w
    by simp
  have er': "erased (b_mem ?s) (0x8000 + 4 * Suc i) (4 * k)"
    unfolding mem by (subst erased_mwrite_later) (use er(2) in simp_all)
  have cur: "app_file_cur_size ?s = of_nat (4 * Suc i)" "app_file_size ?s = of_nat n"
    using Suc.prems(1,2) by simp_all
  have k: "k = (n + 3) div 4 - Suc i" "Suc i \<le> (n + 3) div 4" using Suc.prems(3,4) by simp_all
  obtain s' where s': "fota_copy_loop c FLASH_DOWNLOAD_START_ADDR ?s = Some s'"
    "b_mem s' = mwrite (b_mem ?s) (0x8000 + 4 * Suc i) (mread (b_mem ?s) (0x22020 + 4 * Suc i) (4 * k))"
    "FOTA_tTaskState s' = FOTA_tTaskState ?s"
    using Suc.IH [OF cur k er'] by blast
  have src: "mread (b_mem ?s) (0x22020 + 4 * Suc i) (4 * k) = mread (b_mem s) (0x22020 + 4 * Suc i) (4 * k)"
    unfolding mem by (rule mread_mwrite_disjoint) (use i(2) in simp)
  have "mread (b_mem s) (0x22020 + 4 * i) (4 * Suc k) =
      mread (b_mem s) (0x22020 + 4 * i) 4 @ mread (b_mem s) (0x22020 + 4 * Suc i) (4 * k)"
    using mread_add [of "b_mem s" "0x22020 + 4 * i" 4 "4 * k"] by (simp add: add.commute)
  then have "b_mem s' = mwrite (b_mem s) (0x8000 + 4 * i) (mread (b_mem s) (0x22020 + 4 * i) (4 * Suc k))"
    unfolding s'(2) src unfolding mem by (simp add: mwrite_append add.commute)
  with less s'(1,3) show ?case by (subst fota_copy_loop.simps) (simp add: Let_def)
qed

text \<open>The flash after the image of \<open>n\<close> bytes that \<open>m\<close> holds has been installed.\<close>

definition installed :: "memory \<Rightarrow> nat \<Rightarrow> memory" where
  "installed m n = mfill (mwrite (mwrite (mfill m 0x8000 0x1A000 255) 0x8000 (mread m 0x22020 (4 * ((n + 3) div 4))))
     0x21FE0 (mread m 0x22000 32)) 0x22000 0x1A000 255"

lemma info_erased:
  assumes "n \<le> 0x19FE0"
  shows "erased (mwrite (mfill m 0x8000 0x1A000 255) 0x8000 (mread m' 0x22020 (4 * ((n + 3) div 4)))) 0x21FE0 32"
proof (subst erased_mwrite_later)
  show "0x8000 + length (mread m' 0x22020 (4 * ((n + 3) div 4))) \<le> 0x21FE0"
    using image_words_bound [OF assms] by simp
  show "erased (mfill m 0x8000 0x1A000 255) 0x21FE0 32" by (simp add: erased_def mem_simps)
qed

lemma firmware_update:
  assumes "flash_chip_ok c" "unat (app_file_size s) = n" "n \<le> 0x19FE0"
  obtains s' where "FOTA_ucFirmwareUpdate c FLASH_DOWNLOAD_START_ADDR s = Some (0, s')"
    "b_mem s' = installed (b_mem s) n"
proof -
  let ?K = "(n + 3) div 4"
  let ?s = "s\<lparr>app_file_cur_size := 0, b_flash := boot_FLASH_vEraseSector c (b_flash s) FLASH_APP_START_ADDR FLASH_APP_SIZE\<rparr>"
  have e: "b_mem ?s = mfill (b_mem s) 0x8000 0x1A000 255" using erase_app [OF assms(1)] by simp
  have er: "erased (b_mem ?s) (0x8000 + 4 * 0) (4 * ?K)"
    unfolding e using image_words_bound [OF assms(3)] by (simp add: erased_def mem_simps)
  have "app_file_size ?s = of_nat n" using assms(2) by (simp flip: assms(2))
  then obtain s1 where s1: "fota_copy_loop c FLASH_DOWNLOAD_START_ADDR ?s = Some s1"
    "b_mem s1 = mwrite (b_mem ?s) 0x8000 (mread (b_mem ?s) 0x22020 (4 * ?K))"
    using fota_copy [OF assms(1,3), of ?s 0 ?K] er by auto
  have src: "mread (b_mem ?s) 0x22020 (4 * ?K) = mread (b_mem s) 0x22020 (4 * ?K)"
    unfolding e by (rule mread_mfill_disjoint) simp
  have m1: "b_mem s1 = mwrite (mfill (b_mem s) 0x8000 0x1A000 255) 0x8000 (mread (b_mem s) 0x22020 (4 * ?K))"
    unfolding s1(2) src unfolding e ..
  have hd: "mread (b_mem s1) 0x22000 32 = mread (b_mem s) 0x22000 32"
    unfolding m1 using image_words_bound [OF assms(3)] by (simp add: mem_simps)
  let ?t = "s1\<lparr>b_flash := boot_FLASH_vWriteBytes c (b_flash s1) FLASH_APP_INFO_ADDR (mread (b_mem s1) 0x22000 32) 32\<rparr>"
  have "erased ((FMEM \<circ> fst) (b_flash s1)) (unat FLASH_APP_INFO_ADDR) (unat (32 :: u32))"
    using info_erased [OF assms(3)] by (simp add: m1)
  then have t: "b_mem ?t = mwrite (b_mem s1) 0x21FE0 (mread (b_mem s) 0x22000 32)"
    using boot_nv.write_ok [OF assms(1), of FLASH_APP_INFO_ADDR 32 "mread (b_mem s1) 0x22000 32" "b_flash s1"]
    by (auto simp: hd)
  show ?thesis
  proof (rule that)
    show "FOTA_ucFirmwareUpdate c FLASH_DOWNLOAD_START_ADDR s =
        Some (0, ?t\<lparr>b_flash := boot_FLASH_vEraseSector c (b_flash ?t) FLASH_DOWNLOAD_START_ADDR FLASH_DOWNLOAD_SIZE\<rparr>)"
      using s1(1) by (simp add: FOTA_ucFirmwareUpdate_def Let_def)
    show "b_mem (?t\<lparr>b_flash := boot_FLASH_vEraseSector c (b_flash ?t) FLASH_DOWNLOAD_START_ADDR FLASH_DOWNLOAD_SIZE\<rparr>) =
        installed (b_mem s) n"
      using erase_download [OF assms(1), of "b_flash ?t"] t m1 by (simp add: installed_def)
  qed
qed

text \<open>The task from the check of the download area until the application is to be started.\<close>

definition fota_boot :: "flash_chip \<Rightarrow> crc_unit \<Rightarrow> 'a fota_scheme \<Rightarrow> 'a fota_scheme option" where
  "fota_boot c crc32b s = Option.bind (FOTA_vTaskHandler c crc32b s)
     (\<lambda>s. if FOTA_tTaskState s = FOTA_TASK_FW_UPDATE then FOTA_vTaskHandler c crc32b s else Some s)"

lemma fota_boot_image:
  assumes "flash_chip_ok c" "FOTA_tTaskState s = FOTA_TASK_CHECK_FW" "image_ok crc32b (b_mem s)"
    and "unat (image_size (b_mem s)) \<le> 0x19FE0"
  obtains s' where "fota_boot c crc32b s = Some s'" "FOTA_tTaskState s' = FOTA_TASK_START_APP"
    "b_mem s' = installed (b_mem s) (unat (image_size (b_mem s)))"
proof -
  obtain s1 where s1: "FOTA_ucCheckFirmware c crc32b FLASH_DOWNLOAD_START_ADDR s = Some (1, s1)"
    "b_flash s1 = b_flash s" "app_file_size s1 = image_size (b_mem s)"
    using check_firmware_image [OF assms(3)] .
  let ?s1 = "s1\<lparr>FOTA_tTaskState := FOTA_TASK_FW_UPDATE\<rparr>"
  obtain s2 where s2: "FOTA_ucFirmwareUpdate c FLASH_DOWNLOAD_START_ADDR ?s1 = Some (0, s2)"
    "b_mem s2 = installed (b_mem ?s1) (unat (image_size (b_mem s)))"
    using firmware_update [OF assms(1), of ?s1 "unat (image_size (b_mem s))"] assms(4) s1(3) by auto
  show ?thesis
  proof (rule that [of "s2\<lparr>FOTA_tTaskState := FOTA_TASK_START_APP\<rparr>"])
    show "fota_boot c crc32b s = Some (s2\<lparr>FOTA_tTaskState := FOTA_TASK_START_APP\<rparr>)"
      using assms(2) s1(1) s2(1) by (simp add: fota_boot_def FOTA_vTaskHandler_def)
  qed (use s1(2) s2(2) in simp_all)
qed

lemma installed_parts:
  assumes "n \<le> 0x19FE0"
  shows "mread (installed m n) 0x8000 n = mread m 0x22020 n"
    "mread (installed m n) 0x21FE0 32 = mread m 0x22000 32"
    "erased (installed m n) 0x22000 0x1A000"
    "x < 0x8000 \<or> 0x3C000 \<le> x \<Longrightarrow> installed m n x = m x"
proof -
  let ?k = "4 * ((n + 3) div 4)"
  have k: "n \<le> ?k" "?k \<le> 0x19FE0" using image_words_bound [OF assms] by linarith+
  show "mread (installed m n) 0x8000 n = mread m 0x22020 n"
  proof (rule mread_eqI)
    fix i assume "i < n"
    then show "installed m n (0x8000 + i) = mread m 0x22020 n ! i"
      using k by (simp add: installed_def mfill_def mwrite_def)
  qed simp
  show "mread (installed m n) 0x21FE0 32 = mread m 0x22000 32"
    unfolding installed_def by (simp add: mem_simps)
  show "erased (installed m n) 0x22000 0x1A000"
    unfolding installed_def by (simp add: erased_def mem_simps)
  show "installed m n x = m x" if "x < 0x8000 \<or> 0x3C000 \<le> x"
    using that k by (auto simp: installed_def mfill_def mwrite_def)
qed

lemma word_at_mread_cong:
  assumes "mread m (unat a) n = mread m' (unat b) n" "i + 4 \<le> n"
    "unat a + n < 4294967296" "unat b + n < 4294967296"
  shows "word_at m (a + of_nat i) = word_at m' (b + of_nat i)"
proof -
  have u: "unat (a + of_nat i) = unat a + i" "unat (b + of_nat i) = unat b + i"
    using assms(2-4) by (subst unat_add_no_wrap; simp add: unat_of_nat_u32)+
  have "mread m (unat a + i) 4 = take 4 (drop i (mread m (unat a) n))" for m and a :: u32
    using assms(2) by (intro nth_equalityI) (simp_all add: add.assoc)
  then show ?thesis unfolding word_at_def u using assms(1) by metis
qed

text \<open>The start of an application that was copied from \<open>0x22020\<close> of the flash \<open>m\<close>.\<close>

lemma started_application:
  assumes "FOTA_tTaskState s = FOTA_TASK_START_APP" "mread (b_mem s) 0x8000 n = mread m 0x22020 n"
    and "8 \<le> n" "n \<le> 0x19FE0" "word_at m 0x22020 AND 0xffff0000 = 0x1fff0000"
  shows "FOTA_vTaskHandler c crc32b s = Some (s\<lparr>fota_started := Some \<lparr>app_msp = word_at m 0x22020,
      app_entry = word_at m 0x22024, app_vtor = 0x8000\<rparr>\<rparr>)"
proof -
  have "word_at (b_mem s) FLASH_APP_START_ADDR = word_at m 0x22020"
    "word_at (b_mem s) (FLASH_APP_START_ADDR + 4) = word_at m 0x22024"
    using word_at_mread_cong [where m = "b_mem s" and a = "0x8000" and n = n and m' = m and b = "0x22020" and i = 0]
      word_at_mread_cong [where m = "b_mem s" and a = "0x8000" and n = n and m' = m and b = "0x22020" and i = 4]
      assms(2-4) by simp_all
  then show ?thesis using assms(1,5) by (simp add: FOTA_vTaskHandler_def FOTA_ucStartApplication_def)
qed

text \<open>
  C10. A valid image is installed and started: the check and the update leave the image at the
  application's address byte for byte, its 32-byte header in the information block, the download area
  erased and the rest of the flash (boot loader, operating-hours log) as it was; the next run of the
  task then jumps to the image's entry point with the image's stack pointer.
\<close>

theorem fota_installs_image:
  assumes "flash_chip_ok c" "FOTA_tTaskState s = FOTA_TASK_CHECK_FW" "image_ok crc32b (b_mem s)"
    and "unat (image_size (b_mem s)) = n" "8 \<le> n" "n \<le> 0x19FE0"
    and "word_at (b_mem s) 0x22020 AND 0xffff0000 = 0x1fff0000"
  shows "\<exists>s' s''. fota_boot c crc32b s = Some s' \<and> FOTA_vTaskHandler c crc32b s' = Some s'' \<and>
    mread (b_mem s'') 0x8000 n = mread (b_mem s) 0x22020 n \<and>
    mread (b_mem s'') 0x21FE0 32 = mread (b_mem s) 0x22000 32 \<and>
    erased (b_mem s'') 0x22000 0x1A000 \<and>
    (\<forall>x. x < 0x8000 \<or> 0x3C000 \<le> x \<longrightarrow> b_mem s'' x = b_mem s x) \<and>
    fota_started s'' = Some \<lparr>app_msp = word_at (b_mem s) 0x22020, app_entry = word_at (b_mem s) 0x22024,
      app_vtor = 0x8000\<rparr>"
proof -
  obtain s' where s': "fota_boot c crc32b s = Some s'" "FOTA_tTaskState s' = FOTA_TASK_START_APP"
    "b_mem s' = installed (b_mem s) n"
    using fota_boot_image [OF assms(1-3)] assms(4,6) by auto
  note parts = installed_parts [OF assms(6), where m = "b_mem s", folded s'(3)]
  show ?thesis
    using s'(1) parts started_application [OF s'(2) parts(1) assms(5-7), of c crc32b] by fastforce
qed

section \<open>An example image\<close>

text \<open>A word-wise exclusive or in place of the CRC unit, and an image of eight bytes.\<close>

definition xor_unit :: crc_unit where
  "xor_unit v ws = foldl (XOR) v ws"

definition example_image :: bytes where
  "example_image = le32 IAP_MAGIC_WORD_BEGIN @ le32 8 @ le32 (0xFFFFFFFF XOR 0x1FFF8000 XOR 0x8101) @
     FOTA_DEVICE_NAME @ [0] @ replicate 10 255 @ le32 0x1FFF8000 @ le32 0x8101"

definition example_flash :: memory where
  "example_flash = mwrite (\<lambda>_. 255) 0x22000 example_image"

definition fota_init :: "memory \<Rightarrow> fota" where
  "fota_init m = canstack.extend (canstack_init m) (fota.fields FOTA_TASK_INIT 0 0 0
     (part_head_at m 0) 0 0 None)"

definition example_fota :: "memory \<Rightarrow> fota" where
  "example_fota m = (fota_init m)\<lparr>FOTA_tTaskState := FOTA_TASK_CHECK_FW\<rparr>"

lemma length_example_image: "length example_image = 40"
  by (simp add: example_image_def FOTA_DEVICE_NAME_def)

lemma example_mread:
  assumes "i + n \<le> 40"
  shows "mread example_flash (0x22000 + i) n = take n (drop i example_image)"
  using assms by (intro nth_equalityI) (simp_all add: example_flash_def length_example_image mwrite_def)

lemma example_words:
  "word_at example_flash 0x22000 = IAP_MAGIC_WORD_BEGIN"
  "word_at example_flash 0x22004 = 8"
  "word_at example_flash 0x22008 = 0xFFFFFFFF XOR 0x1FFF8000 XOR 0x8101"
  "word_at example_flash 0x22020 = 0x1FFF8000"
  "word_at example_flash 0x22024 = 0x8101"
  using example_mread [of 0 4] example_mread [of 4 4] example_mread [of 8 4] example_mread [of 32 4] example_mread [of 36 4]
  by (simp_all add: word_at_def example_image_def FOTA_DEVICE_NAME_def of_le32_def le32_def)

lemma example_image_ok:
  "image_ok xor_unit example_flash" "image_size example_flash = 8"
proof -
  show sz: "image_size example_flash = 8" by (simp add: image_size_def example_words)
  have "words_at example_flash 0x22020 2 = [0x1FFF8000, 0x8101]"
    by (simp add: words_at_def example_words upt_conv_Cons)
  then have "image_crc xor_unit example_flash = 0xFFFFFFFF XOR 0x1FFF8000 XOR 0x8101"
    by (simp add: image_crc_def sz xor_unit_def)
  moreover have "str_is example_flash 0x2200C FOTA_DEVICE_NAME"
  proof -
    have len: "length FOTA_DEVICE_NAME + 1 = 10" by (simp add: FOTA_DEVICE_NAME_def)
    show ?thesis
      using example_mread [of 12 10] unfolding str_is_def len by (simp add: example_image_def FOTA_DEVICE_NAME_def)
  qed
  ultimately show "image_ok xor_unit example_flash"
    by (simp add: image_ok_def example_words)
qed

lemma example_fota:
  "FOTA_tTaskState (example_fota m) = FOTA_TASK_CHECK_FW" "b_mem (example_fota m) = m"
  by (simp_all add: example_fota_def fota_init_def canstack_init_def ymodem_init_def
      ymodem.defs canstack.defs fota.defs efm_reset_def)

theorem fota_check_decides_witness:
  "\<exists>s'. FOTA_vTaskHandler nor_chip xor_unit (example_fota (\<lambda>_. 0)) = Some s' \<and>
    FOTA_tTaskState s' \<noteq> FOTA_TASK_FW_UPDATE \<and> b_mem s' 0x8000 = 0"
proof -
  have "\<not> image_ok xor_unit (\<lambda>_. 0)"
    by (simp add: image_ok_def word_at_def mread_def of_le32_def)
  then show ?thesis
    using fota_check_decides [OF nor_chip_ok example_fota(1), of xor_unit "\<lambda>_. 0"] by (auto simp: example_fota(2))
qed

theorem fota_installs_image_witness:
  "\<exists>s' s''. fota_boot nor_chip xor_unit (example_fota example_flash) = Some s' \<and>
    FOTA_vTaskHandler nor_chip xor_unit s' = Some s'' \<and>
    fota_started s'' = Some \<lparr>app_msp = 0x1FFF8000, app_entry = 0x8101, app_vtor = 0x8000\<rparr>"
proof -
  have "image_ok xor_unit (b_mem (example_fota example_flash))" "unat (image_size (b_mem (example_fota example_flash))) = 8"
    by (simp_all add: example_fota example_image_ok)
  from fota_installs_image [OF nor_chip_ok example_fota(1) this]
  show ?thesis by (auto simp: example_fota(2) example_words)
qed

end
