(* ===== verification/FotaPower.thy ===== *)
theory FotaPower
  imports Fota
begin

text \<open>
  The firmware update of theory Fota under power loss. The update is a sequence of flash operations,
  each a sector erase or the programming of one word; the supply may fail between any two of them. The
  start of the bootloader after that finds the application area complete, or repeats the update.
\<close>

section \<open>The update as a sequence of flash operations\<close>

datatype flash_op = EraseOp u32 | ProgramOp u32 u32

primrec op_run :: "flash_chip \<Rightarrow> flash_op \<Rightarrow> efm \<times> nat \<Rightarrow> efm \<times> nat" where
  "op_run c (EraseOp a) d = boot_FLASH_vEraseSector c d a 0x2000"
| "op_run c (ProgramOp a w) d = boot_FLASH_vWriteBytes c d a (le32 w) 4"

definition erase_ops :: "u32 \<Rightarrow> nat \<Rightarrow> flash_op list" where
  "erase_ops a n = map (\<lambda>i. EraseOp (a + of_nat (SECTOR * i))) [0..<n]"

definition program_ops :: "u32 \<Rightarrow> memory \<Rightarrow> u32 \<Rightarrow> nat \<Rightarrow> flash_op list" where
  "program_ops a m src n = map (\<lambda>i. ProgramOp (a + of_nat (4 * i)) (word_at m (src + of_nat (4 * i)))) [0..<n]"

definition update_ops :: "memory \<Rightarrow> nat \<Rightarrow> flash_op list" where
  "update_ops m n = erase_ops FLASH_APP_START_ADDR 13 @ program_ops FLASH_APP_START_ADDR m 0x22020 ((n + 3) div 4) @
     program_ops FLASH_APP_INFO_ADDR m 0x22000 8 @ erase_ops FLASH_DOWNLOAD_START_ADDR 13"

abbreviation flash_mem :: "efm \<times> nat \<Rightarrow> memory" where "flash_mem d \<equiv> FMEM (fst d)"

lemma take_erase_ops: "take k (erase_ops a n) = erase_ops a (min k n)"
  by (simp add: erase_ops_def take_map min_def)

lemma take_program_ops: "take k (program_ops a m src n) = program_ops a m src (min k n)"
  by (simp add: program_ops_def take_map min_def)

lemma length_ops [simp]: "length (erase_ops a n) = n" "length (program_ops a m src n) = n"
  by (simp_all add: erase_ops_def program_ops_def)

lemma run_erase_ops:
  assumes "flash_chip_ok c" "unat a mod SECTOR = 0" "unat a + SECTOR * n < 4294967296"
  shows "flash_mem (fold (op_run c) (erase_ops a n) d) = mfill (flash_mem d) (unat a) (SECTOR * n) 255"
  using assms(3)
proof (induction n)
  case 0
  then show ?case by (simp add: erase_ops_def)
next
  case (Suc n)
  let ?a = "a + of_nat (SECTOR * n)" and ?d = "fold (op_run c) (erase_ops a n) d"
  have a: "unat ?a = unat a + SECTOR * n"
    using Suc.prems by (intro unat_add_of_nat) simp
  have "unat ?a mod SECTOR = 0" unfolding a using assms(2) by simp
  then have "flash_mem (boot_FLASH_vEraseSector c ?d ?a 0x2000) = mfill (flash_mem ?d) (unat ?a) SECTOR 255"
    using boot_nv.erase_ok [OF assms(1), of ?a "0x2000" ?d] Suc.prems unfolding a by (simp add: SECTOR_def)
  moreover have "fold (op_run c) (erase_ops a (Suc n)) d = boot_FLASH_vEraseSector c ?d ?a 0x2000"
    by (simp add: erase_ops_def)
  ultimately show ?case using Suc a by (simp add: mfill_mfill add.commute)
qed

lemma run_program_ops:
  assumes "flash_chip_ok c" "unat a mod 4 = 0" "unat a + 4 * n < 4294967296" "unat src + 4 * n < 4294967296"
    and "erased (flash_mem d) (unat a) (4 * n)"
  shows "flash_mem (fold (op_run c) (program_ops a m src n) d) =
    mwrite (flash_mem d) (unat a) (mread m (unat src) (4 * n))"
  using assms(3-5)
proof (induction n)
  case 0
  then show ?case by (simp add: program_ops_def)
next
  case (Suc n)
  let ?a = "a + of_nat (4 * n)" and ?s = "src + of_nat (4 * n)" and ?d = "fold (op_run c) (program_ops a m src n) d"
  have a: "unat ?a = unat a + 4 * n"
    using Suc.prems(1) by (intro unat_add_of_nat) simp
  have s: "unat ?s = unat src + 4 * n"
    using Suc.prems(2) by (intro unat_add_of_nat) simp
  have er: "erased (flash_mem d) (unat a) (4 * n)" "erased (flash_mem d) (unat a + 4 * n) 4"
    using Suc.prems(3) erased_split [of "flash_mem d" "unat a" "4 * n" 4] by (simp_all add: add.commute)
  have IH: "flash_mem ?d = mwrite (flash_mem d) (unat a) (mread m (unat src) (4 * n))"
    using Suc.IH Suc.prems(1,2) er(1) by simp
  have w: "le32 (word_at m ?s) = mread m (unat src + 4 * n) 4" unfolding le32_word_at s ..
  have "erased ((FMEM \<circ> fst) ?d) (unat ?a) (unat (4 :: u32))"
    unfolding a comp_def IH using er(2) by (simp add: erased_mwrite_later)
  moreover have "unat ?a mod 4 = 0" unfolding a using assms(2) by (simp add: mod_add_eq)
  ultimately have "flash_mem (boot_FLASH_vWriteBytes c ?d ?a (le32 (word_at m ?s)) 4) =
      mwrite (flash_mem ?d) (unat a + 4 * n) (mread m (unat src + 4 * n) 4)"
    using boot_nv.write_ok [OF assms(1), of ?a 4 "le32 (word_at m ?s)" ?d] Suc.prems(1) unfolding a w by auto
  moreover have "fold (op_run c) (program_ops a m src (Suc n)) d =
      boot_FLASH_vWriteBytes c ?d ?a (le32 (word_at m ?s)) 4"
    by (simp add: program_ops_def)
  moreover have "mread m (unat src) (4 * Suc n) = mread m (unat src) (4 * n) @ mread m (unat src + 4 * n) 4"
    using mread_add [of m "unat src" "4 * n" 4] by (simp add: add.commute)
  ultimately show ?case unfolding IH by (simp add: mwrite_append)
qed

section \<open>The content of the flash when the supply fails\<close>

lemma update_ops_below:
  assumes "flash_chip_ok c" "n \<le> 0x19FE0" "k \<le> 21 + (n + 3) div 4" "x < 0x8000 \<or> 0x22000 \<le> x"
  shows "flash_mem (fold (op_run c) (take k (update_ops (flash_mem d) n)) d) x = flash_mem d x"
proof -
  let ?K = "(n + 3) div 4" and ?m = "flash_mem d"
  have K: "4 * ?K \<le> 0x19FE0" using image_words_bound [OF assms(2)] .
  define e where "e = fold (op_run c) (erase_ops FLASH_APP_START_ADDR (min k 13)) d"
  define p where "p = fold (op_run c) (program_ops FLASH_APP_START_ADDR ?m 0x22020 (min (k - 13) ?K)) e"
  define q where "q = fold (op_run c) (program_ops FLASH_APP_INFO_ADDR ?m 0x22000 (min (k - 13 - ?K) 8)) p"
  have ops: "fold (op_run c) (take k (update_ops ?m n)) d = q"
  proof -
    have "erase_ops FLASH_DOWNLOAD_START_ADDR 0 = []" by (simp add: erase_ops_def)
    then show ?thesis using assms(3)
      by (simp add: update_ops_def take_erase_ops take_program_ops q_def p_def e_def)
  qed
  have e: "flash_mem e = mfill ?m 0x8000 (SECTOR * min k 13) 255"
    unfolding e_def by (subst run_erase_ops [OF assms(1)]) (simp_all add: SECTOR_def min_def)
  have p: "flash_mem p = mwrite (flash_mem e) 0x8000 (mread ?m 0x22020 (4 * min (k - 13) ?K))"
  proof (cases "k \<le> 13")
    case True
    then show ?thesis by (simp add: p_def program_ops_def)
  next
    case False
    then have "min k 13 = 13" by simp
    then have "erased (flash_mem e) 0x8000 (4 * min (k - 13) ?K)"
      unfolding e using K by (simp add: erased_def mem_simps SECTOR_def)
    then show ?thesis
      unfolding p_def by (subst run_program_ops [OF assms(1)]) (use K in simp_all)
  qed
  have q: "flash_mem q = mwrite (flash_mem p) 0x21FE0 (mread ?m 0x22000 (4 * min (k - 13 - ?K) 8))"
  proof (cases "k \<le> 13 + ?K")
    case True
    then show ?thesis by (simp add: q_def program_ops_def)
  next
    case False
    then have "min k 13 = 13" "min (k - 13) ?K = ?K" by simp_all
    then have "flash_mem p = mwrite (mfill ?m 0x8000 0x1A000 255) 0x8000 (mread ?m 0x22020 (4 * ?K))"
      unfolding p e by (simp add: SECTOR_def)
    then have "erased (flash_mem p) 0x21FE0 32" using info_erased [OF assms(2), of ?m ?m] by simp
    then have "erased (flash_mem p) 0x21FE0 (4 * min (k - 13 - ?K) 8)" by (simp add: erased_def)
    then show ?thesis
      unfolding q_def by (subst run_program_ops [OF assms(1)]) simp_all
  qed
  have "4 * min (k - 13) ?K \<le> 0x19FE0" using K by (simp add: min_def)
  then have "flash_mem p x = flash_mem e x"
    unfolding p using assms(4) by (intro mwrite_out) auto
  moreover have "4 * min (k - 13 - ?K) 8 \<le> 32" by (simp add: min_def)
  then have "flash_mem q x = flash_mem p x"
    unfolding q using assms(4) by (intro mwrite_out) auto
  moreover have "SECTOR * min k 13 \<le> 0x1A000" by (simp add: SECTOR_def min_def)
  then have "flash_mem e x = ?m x"
    unfolding e using assms(4) by (intro mfill_out) auto
  ultimately show ?thesis unfolding ops by simp
qed

lemma update_ops_done:
  assumes "flash_chip_ok c" "n \<le> 0x19FE0" "21 + (n + 3) div 4 < k"
  shows "flash_mem (fold (op_run c) (take k (update_ops (flash_mem d) n)) d) =
    mfill (mwrite (mwrite (mfill (flash_mem d) 0x8000 0x1A000 255) 0x8000
        (mread (flash_mem d) 0x22020 (4 * ((n + 3) div 4)))) 0x21FE0 (mread (flash_mem d) 0x22000 32))
      0x22000 (SECTOR * min (k - 21 - (n + 3) div 4) 13) 255"
proof -
  let ?K = "(n + 3) div 4" and ?m = "flash_mem d"
  have K: "4 * ?K \<le> 0x19FE0" using image_words_bound [OF assms(2)] .
  define e where "e = fold (op_run c) (erase_ops FLASH_APP_START_ADDR 13) d"
  define p where "p = fold (op_run c) (program_ops FLASH_APP_START_ADDR ?m 0x22020 ?K) e"
  define q where "q = fold (op_run c) (program_ops FLASH_APP_INFO_ADDR ?m 0x22000 8) p"
  let ?j = "min (k - 21 - ?K) 13"
  have ops: "fold (op_run c) (take k (update_ops ?m n)) d =
      fold (op_run c) (erase_ops FLASH_DOWNLOAD_START_ADDR ?j) q"
  proof -
    obtain j where k: "k = 13 + (?K + (8 + j))" using that [of "k - 21 - ?K"] assms(3) by simp
    show ?thesis
      unfolding k update_ops_def take_append length_ops add_diff_cancel_left' fold_append comp_def
      by (simp add: take_erase_ops take_program_ops q_def p_def e_def)
  qed
  have e: "flash_mem e = mfill ?m 0x8000 0x1A000 255"
    unfolding e_def by (subst run_erase_ops [OF assms(1)]) (simp_all add: SECTOR_def)
  have "erased (flash_mem e) 0x8000 (4 * ?K)" unfolding e using K by (simp add: erased_def mem_simps)
  then have p: "flash_mem p = mwrite (mfill ?m 0x8000 0x1A000 255) 0x8000 (mread ?m 0x22020 (4 * ?K))"
    unfolding p_def by (subst run_program_ops [OF assms(1)]) (use K e in simp_all)
  have q: "flash_mem q = mwrite (flash_mem p) 0x21FE0 (mread ?m 0x22000 32)"
    unfolding q_def
    by (subst run_program_ops [OF assms(1)]) (use info_erased [OF assms(2), of ?m ?m] in \<open>simp_all add: p\<close>)
  show ?thesis
    unfolding ops
    by (subst run_erase_ops [OF assms(1)]) (simp_all add: q p SECTOR_def min_def)
qed

section \<open>The next start of the bootloader\<close>

definition same_outside_app :: "memory \<Rightarrow> memory \<Rightarrow> bool" where
  "same_outside_app m m' \<longleftrightarrow> (\<forall>x. x < 0x8000 \<or> 0x22000 \<le> x \<longrightarrow> m x = m' x)"

lemma same_mread: "same_outside_app m m' \<Longrightarrow> 0x22000 \<le> a \<Longrightarrow> mread m a k = mread m' a k"
  by (rule mread_cong) (simp add: same_outside_app_def)

lemma same_word_at: "same_outside_app m m' \<Longrightarrow> 0x22000 \<le> unat a \<Longrightarrow> word_at m a = word_at m' a"
  by (simp add: word_at_def same_mread)

lemma same_image:
  assumes "same_outside_app m m'" "unat (image_size m) \<le> 0x19FE0"
  shows "image_size m' = image_size m" "image_ok crc32b m' \<longleftrightarrow> image_ok crc32b m"
proof -
  have w: "word_at m' a = word_at m a" if "0x22000 \<le> unat a" for a
    using same_word_at [OF assms(1) that] by simp
  show sz: "image_size m' = image_size m" by (simp add: image_size_def w)
  have "words_at m' 0x22020 (unat (image_size m div 4)) = words_at m 0x22020 (unat (image_size m div 4))"
    unfolding words_at_def
  proof (rule map_cong [OF refl])
    fix i assume "i \<in> set [0..<unat (image_size m div 4)]"
    then have "4 * i < 0x1A000" using assms(2) by (auto simp: unat_div)
    then have "unat ((0x22020 :: u32) + of_nat (4 * i)) = 0x22020 + 4 * i"
      using unat_add_of_nat [of "0x22020" "4 * i"] by simp
    then show "word_at m' (0x22020 + 4 * of_nat i) = word_at m (0x22020 + 4 * of_nat i)"
      by (intro w) simp
  qed
  then have "image_crc crc32b m' = image_crc crc32b m" by (simp add: image_crc_def sz)
  moreover have "str_is m' 0x2200C FOTA_DEVICE_NAME = str_is m 0x2200C FOTA_DEVICE_NAME"
    using same_mread [OF assms(1)] by (simp add: str_is_def)
  ultimately show "image_ok crc32b m' \<longleftrightarrow> image_ok crc32b m" by (simp add: image_ok_def w)
qed

lemma same_installed:
  assumes "same_outside_app m m'"
  shows "installed m' n = installed m n"
proof -
  have "mfill m' 0x8000 0x1A000 255 = mfill m 0x8000 0x1A000 255"
    using assms by (intro ext) (auto simp: mfill_def same_outside_app_def)
  moreover have "mread m' 0x22020 (4 * ((n + 3) div 4)) = mread m 0x22020 (4 * ((n + 3) div 4))"
    "mread m' 0x22000 32 = mread m 0x22000 32"
    using same_mread [OF assms] by simp_all
  ultimately show ?thesis by (simp only: installed_def)
qed

lemma erased_download_ignored:
  assumes "FOTA_tTaskState s = FOTA_TASK_CHECK_FW" "erased (b_mem s) 0x22000 4"
  obtains s' where "fota_boot c crc32b s = Some s'" "FOTA_tTaskState s' = FOTA_TASK_START_APP" "b_mem s' = b_mem s"
proof -
  have r: "mread (b_mem s) 0x22000 4 = [255, 255, 255, 255]"
  proof -
    have e: "b_mem s (0x22000 + i) = 255" if "i < 4" for i using assms(2) that by (simp add: erased_def)
    show ?thesis using e [of 0] e [of 1] e [of 2] e [of 3] by (simp add: mread_def upt_conv_Cons)
  qed
  have "word_at (b_mem s) 0x22000 \<noteq> IAP_MAGIC_WORD_BEGIN"
    by (simp add: word_at_def r of_le32_def)
  moreover have "\<not> str_is (b_mem s) 0x22000 [0x52, 0x42, 0x4C]"
  proof -
    have len: "length [0x52, 0x42, 0x4C :: u8] + 1 = 4" by simp
    show ?thesis unfolding str_is_def len using r by simp
  qed
  ultimately have c: "FOTA_ucCheckFirmware c crc32b FLASH_DOWNLOAD_START_ADDR s =
      Some (0, s\<lparr>fota_part_head := part_head_at (b_mem s) FLASH_DOWNLOAD_START_ADDR\<rparr>)"
    by (simp add: FOTA_ucCheckFirmware_def Let_def)
  show ?thesis
  proof (rule that)
    show "fota_boot c crc32b s = Some (s\<lparr>fota_part_head := part_head_at (b_mem s) FLASH_DOWNLOAD_START_ADDR,
        FOTA_tTaskState := FOTA_TASK_START_APP\<rparr>)"
      using assms(1) c by (simp add: fota_boot_def FOTA_vTaskHandler_def)
  qed simp_all
qed

lemma update_resumes:
  assumes "flash_chip_ok c" "image_ok crc32b m" "unat (image_size m) = n" "n \<le> 0x19FE0"
    and "flash_mem d = m" "b_mem s = flash_mem (fold (op_run c) (take k (update_ops m n)) d)"
    and "FOTA_tTaskState s = FOTA_TASK_CHECK_FW"
  shows "\<exists>s'. fota_boot c crc32b s = Some s' \<and> FOTA_tTaskState s' = FOTA_TASK_START_APP \<and>
    (\<forall>x. x < 0x22000 \<or> 0x3C000 \<le> x \<longrightarrow> b_mem s' x = installed m n x)"
proof (cases "k \<le> 21 + (n + 3) div 4")
  case True
  have same: "same_outside_app m (b_mem s)"
    unfolding same_outside_app_def assms(6)
    using update_ops_below [OF assms(1,4) True, of _ d] by (simp add: assms(5))
  have "unat (image_size m) \<le> 0x19FE0" using assms(3,4) by simp
  note img = same_image [OF same this]
  have "image_ok crc32b (b_mem s)" "unat (image_size (b_mem s)) \<le> 0x19FE0"
    using img assms(2-4) by simp_all
  then obtain s' where "fota_boot c crc32b s = Some s'" "FOTA_tTaskState s' = FOTA_TASK_START_APP"
    "b_mem s' = installed (b_mem s) (unat (image_size (b_mem s)))"
    using fota_boot_image [OF assms(1,7)] by metis
  then show ?thesis using same_installed [OF same] img(1) assms(3) by auto
next
  case False
  let ?j = "min (k - 21 - (n + 3) div 4) 13"
  have m: "b_mem s = mfill (mwrite (mwrite (mfill m 0x8000 0x1A000 255) 0x8000 (mread m 0x22020 (4 * ((n + 3) div 4))))
      0x21FE0 (mread m 0x22000 32)) 0x22000 (SECTOR * ?j) 255"
    unfolding assms(6) using update_ops_done [OF assms(1,4), of k d] False by (simp add: assms(5))
  have j: "0 < ?j" "SECTOR * ?j \<le> 0x1A000" using False by (auto simp: SECTOR_def min_def)
  have "erased (b_mem s) 0x22000 4"
    unfolding m erased_def using j(1) by (auto simp: mfill_def SECTOR_def)
  then obtain s' where "fota_boot c crc32b s = Some s'" "FOTA_tTaskState s' = FOTA_TASK_START_APP" "b_mem s' = b_mem s"
    using erased_download_ignored [OF assms(7)] by metis
  moreover have "b_mem s x = installed m n x" if "x < 0x22000 \<or> 0x3C000 \<le> x" for x
    unfolding m installed_def using that j(2) by (auto simp: mfill_def)
  ultimately show ?thesis by auto
qed

text \<open>
  C6. The update survives a power failure at any point: whichever number \<open>k\<close> of its flash operations
  were done when the supply failed, the next start repeats the update or finds it complete, and before
  the application is started every byte outside the download area is what an uninterrupted update
  would have left there.
\<close>

theorem fota_survives_power_loss:
  assumes "flash_chip_ok c" "image_ok crc32b m" "unat (image_size m) = n" "n \<le> 0x19FE0"
    and "flash_mem d = m" "b_mem s = flash_mem (fold (op_run c) (take k (update_ops m n)) d)"
    and "FOTA_tTaskState s = FOTA_TASK_CHECK_FW"
  shows "\<exists>s'. fota_boot c crc32b s = Some s' \<and> FOTA_tTaskState s' = FOTA_TASK_START_APP \<and>
    (\<forall>x. x < 0x22000 \<or> 0x3C000 \<le> x \<longrightarrow> b_mem s' x = installed m n x)"
  by (rule update_resumes [OF assms])

text \<open>The supply fails after the application area is erased and one word of the example is copied.\<close>

theorem fota_survives_power_loss_witness:
  "\<exists>s'. fota_boot nor_chip xor_unit (example_fota (flash_mem (fold (op_run nor_chip)
      (take 14 (update_ops example_flash 8)) (efm_reset example_flash, 0)))) = Some s' \<and>
    b_mem s' 0x8003 = 0x1F"
proof -
  have n: "unat (image_size example_flash) = 8" by (simp add: example_image_ok)
  have m: "flash_mem (efm_reset example_flash, 0 :: nat) = example_flash" by (simp add: efm_reset_def)
  have "installed example_flash 8 0x8003 = mread (installed example_flash 8) 0x8000 8 ! 3" by simp
  also have "\<dots> = 0x1F"
    using installed_parts(1) [of 8 example_flash] example_mread [of 32 8]
    by (simp add: example_image_def FOTA_DEVICE_NAME_def le32_def)
  finally have "installed example_flash 8 0x8003 = 0x1F" .
  then show ?thesis
    using fota_survives_power_loss [OF nor_chip_ok example_image_ok(1) n _ m example_fota(2) example_fota(1)]
    by fastforce
qed

text \<open>The operations, all done, are what \<open>FOTA_ucFirmwareUpdate\<close> does.\<close>

lemma update_ops_complete:
  assumes "flash_chip_ok c" "unat (app_file_size s) = n" "n \<le> 0x19FE0"
  shows "map_option (\<lambda>(r, s'). b_mem s') (FOTA_ucFirmwareUpdate c FLASH_DOWNLOAD_START_ADDR s) =
    Some (flash_mem (fold (op_run c) (update_ops (b_mem s) n) (b_flash s)))"
proof -
  obtain s' where s': "FOTA_ucFirmwareUpdate c FLASH_DOWNLOAD_START_ADDR s = Some (0, s')"
    "b_mem s' = installed (b_mem s) n"
    using firmware_update [OF assms] .
  have len: "length (update_ops (b_mem s) n) = 34 + (n + 3) div 4" by (simp add: update_ops_def)
  then have "take (34 + (n + 3) div 4) (update_ops (b_mem s) n) = update_ops (b_mem s) n" by simp
  then have "flash_mem (fold (op_run c) (update_ops (b_mem s) n) (b_flash s)) = installed (b_mem s) n"
    using update_ops_done [OF assms(1,3), of "34 + (n + 3) div 4" "b_flash s"]
    by (simp add: installed_def SECTOR_def)
  with s' show ?thesis by simp
qed

end
