(* ===== verification/IapTransfer.thy ===== *)
theory IapTransfer
  imports CanIap
begin

text \<open>
  Two boards running the programming protocol of source/can_iap.c with each other: the server, which
  forwards the image of its download area, and the client, which stores it in its own. A round is what
  happens on the bus between two data packets: the server's task sends its pending frame, the client
  receives it and runs \<open>can_iap\<close>, the client's task sends its answer and the server handles that.
\<close>

section \<open>A round on the bus\<close>

definition send_pending :: "'a canstack_scheme \<Rightarrow> (can_frame \<times> 'a canstack_scheme) option" where
  "send_pending s = map_option (\<lambda>s. (last (can_sent s), CAN_vIrqCallBack_tx s)) (CAN_vCheckTransmitTask False s)"

definition take_frame :: "flash_chip \<Rightarrow> u8 \<Rightarrow> can_frame \<Rightarrow> 'a canstack_scheme \<Rightarrow> 'a canstack_scheme" where
  "take_frame c junk f s = can_iap c junk (CAN_vReceptionHandler f s)"

definition bus_round ::
  "flash_chip \<Rightarrow> u8 \<Rightarrow> 'a canstack_scheme \<times> 'b canstack_scheme \<Rightarrow> ('a canstack_scheme \<times> 'b canstack_scheme) option" where
  "bus_round c junk p = (case p of (s, k) \<Rightarrow>
     Option.bind (send_pending s) (\<lambda>(f, s).
     Option.bind (send_pending (take_frame c junk f k)) (\<lambda>(g, k).
       Some (take_frame c junk g s, k))))"

primrec bus_rounds ::
  "flash_chip \<Rightarrow> u8 \<Rightarrow> nat \<Rightarrow> 'a canstack_scheme \<times> 'b canstack_scheme \<Rightarrow> ('a canstack_scheme \<times> 'b canstack_scheme) option" where
  "bus_rounds c junk 0 p = Some p"
| "bus_rounds c junk (Suc n) p = Option.bind (bus_round c junk p) (bus_rounds c junk n)"

text \<open>
  The end: the server's EOT, two runs of the client's task (transmitting, finishing), its last ACK.
\<close>

definition bus_close ::
  "flash_chip \<Rightarrow> u8 \<Rightarrow> 'a canstack_scheme \<times> 'b canstack_scheme \<Rightarrow> ('a canstack_scheme \<times> 'b canstack_scheme) option" where
  "bus_close c junk p = (case p of (s, k) \<Rightarrow>
     Option.bind (send_pending s) (\<lambda>(f, s).
     Option.bind (send_pending (can_iap c junk (take_frame c junk f k))) (\<lambda>(g, k).
       Some (take_frame c junk g s, k))))"

section \<open>Frames\<close>

definition status_frame :: "can_frame \<Rightarrow> u8 \<Rightarrow> u8 \<Rightarrow> bool" where
  "status_frame f n x \<longleftrightarrow> IDE f \<and> ExtID f = CAN_MSG_ID_IAP_CMD \<and> DLC f = 3 \<and> RTR f = 0 \<and> length (Data f) = 8 \<and>
     Data f ! 0 = CAN_IAP_STATUS \<and> Data f ! 1 = n \<and> Data f ! 2 = x"

definition data_frame :: "can_frame \<Rightarrow> u8 \<Rightarrow> u8 \<Rightarrow> bytes \<Rightarrow> bool" where
  "data_frame f t i bs \<longleftrightarrow> IDE f \<and> DLC f = 8 \<and> RTR f = 0 \<and> Data f = bs \<and> length bs = 8 \<and>
     ExtID f = CAN_MSG_ID_IAP_DATA + push_bit 16 (ucast t) + push_bit 8 (ucast i) + (255 - ucast i)"

lemma status_frame_received:
  "status_frame f n x \<Longrightarrow> CAN_vReceptionHandler f s = can_set_received_data CAN_MSG_ID_IAP_CMD (Data f) s"
  by (simp add: status_frame_def CAN_vReceptionHandler_def frame_service_def frame_key_def
      CAN_tObjectTable_def B2B_tReceiveTbl_def row_def B2B_vRxCanIapCmd_def)

lemma data_frame_received:
  assumes "data_frame f t i bs"
  shows "CAN_vReceptionHandler f s = can_set_received_data (ExtID f) bs s"
proof -
  have "ExtID f AND 0xFF000000 = 0x10000000"
    using assms by (simp only: data_frame_def iap_id_fields)
  then show ?thesis using assms
    by (simp add: data_frame_def CAN_vReceptionHandler_def frame_service_def frame_key_def
        CAN_tObjectTable_def B2B_tReceiveTbl_def row_def B2B_vRxIapData_def)
qed

definition bus_ready :: "'a canstack_scheme \<Rightarrow> u8 \<Rightarrow> bool" where
  "bus_ready s f \<longleftrightarrow> bus_idle s \<and> B2B_ucTransmitFlags s = [f, 0] \<and> (f \<noteq> 0 \<longrightarrow> pending_some s) \<and>
     length (Data (CAN_tTxPacket s)) = 8 \<and> length (iap_data s) = 8"

text \<open>What a sent frame leaves of the sender's state.\<close>

definition after_bus :: "'a canstack_scheme \<Rightarrow> 'a canstack_scheme \<Rightarrow> bool" where
  "after_bus s s' \<longleftrightarrow> bus_ready s' 0 \<and> (\<exists>p l b d. s' = s\<lparr>CAN_ucSubsystemIndex := 0, CAN_tTxPacket := p,
     can_sent := l, B2B_ucTransmitFlags := [0, 0], CAN_tBusStatus := b, iap_data := d,
     b_tmr := boot_TMR_vSetTime (b_tmr s) TMR_CAN_TX_TIMEOUT (TMR_TIME_MS2TICKS 4)\<rparr>)"

lemma single_bit:
  "msg_bits [2, 0] = [1]" "msg_bits [4, 0] = [2]"
  unfolding msg_bits_bit upt_4 by (simp_all add: bit_word_iff_drop_bit_and)

lemma status_sent:
  assumes "bus_ready s 2" "iap_cmd s = \<lparr>opcode = CAN_IAP_STATUS, node_addr = n, status = x\<rparr>"
  obtains f s' where "send_pending s = Some (f, s')" "status_frame f n x" "after_bus s s'"
proof -
  have first: "first_pending (B2B_ucTransmitFlags s) 4 0 = Some 1"
    using first_pending_least(1) [of "[2, 0]" 1 "[]"] assms(1) by (simp add: bus_ready_def single_bit)
  let ?s = "after_sending 1 (built 1 s)"
  have step: "CAN_vCheckTransmitTask False s = Some ?s"
    using assms(1) first by (simp add: check_transmit_pending bus_ready_def)
  show ?thesis
  proof (rule that)
    show "send_pending s = Some (CAN_tTxPacket (built 1 s), CAN_vIrqCallBack_tx ?s)"
      by (simp add: send_pending_def step after_sending_def)
    have l: "length (Data (CAN_tTxPacket s)) = 8" using assms(1) by (simp add: bus_ready_def)
    show "status_frame (CAN_tTxPacket (built 1 s)) n x"
      using l by (simp add: status_frame_def built_def B2B_tTransmitTbl_def row_def fill_header_def Let_def
          B2B_vTxCanIapCmd_def put_data_def assms(2))
    have e: "CAN_vIrqCallBack_tx ?s = s\<lparr>CAN_ucSubsystemIndex := 0, CAN_tTxPacket := CAN_tTxPacket (built 1 s),
        can_sent := can_sent s @ [CAN_tTxPacket (built 1 s)], B2B_ucTransmitFlags := [0, 0],
        CAN_tBusStatus := (CAN_tBusStatus s OR 1) AND NOT 1, iap_data := iap_data s,
        b_tmr := boot_TMR_vSetTime (b_tmr s) TMR_CAN_TX_TIMEOUT (TMR_TIME_MS2TICKS 4)\<rparr>"
      using assms(1) by (simp add: after_sending_def built_def B2B_tTransmitTbl_def row_def fill_header_def
          Let_def B2B_vTxCanIapCmd_def put_data_def assms(2) CAN_vIrqCallBack_tx_def bus_ready_def
          CAN_vSetBit_def)
    have "length (Data (CAN_tTxPacket (built 1 s))) = 8"
      using l by (simp add: built_def B2B_tTransmitTbl_def row_def fill_header_def Let_def
          B2B_vTxCanIapCmd_def put_data_def assms(2))
    then have "bus_ready (CAN_vIrqCallBack_tx ?s) 0"
      using assms(1) bus_released [of ?s] unfolding bus_ready_def e by simp
    then show "after_bus s (CAN_vIrqCallBack_tx ?s)" unfolding after_bus_def using e by blast
  qed
qed

lemma data_sent:
  assumes "bus_ready s 4"
  obtains f s' where "send_pending s = Some (f, s')" "after_bus s s'"
    "data_frame f (can_iap_target_device s) (next_packet_index s) (iap_data s)"
proof -
  have first: "first_pending (B2B_ucTransmitFlags s) 4 0 = Some 2"
    using first_pending_least(1) [of "[4, 0]" 2 "[]"] assms(1) by (simp add: bus_ready_def single_bit)
  let ?s = "after_sending 2 (built 2 s)"
  have step: "CAN_vCheckTransmitTask False s = Some ?s"
    using assms(1) first by (simp add: check_transmit_pending bus_ready_def)
  have l: "length (Data (CAN_tTxPacket s)) = 8" "length (iap_data s) = 8"
    using assms(1) by (simp_all add: bus_ready_def)
  have p: "Data (CAN_tTxPacket (built 2 s)) = iap_data s" "IDE (CAN_tTxPacket (built 2 s))"
    "DLC (CAN_tTxPacket (built 2 s)) = 8" "RTR (CAN_tTxPacket (built 2 s)) = 0"
    "ExtID (CAN_tTxPacket (built 2 s)) = can_get_msg_exd_id s"
    using l exd_id_fields(5) [of s]
    by (simp_all add: built_def B2B_tTransmitTbl_def row_def fill_header_def Let_def
        B2B_vTxCanIapData_def poke_def can_get_msg_exd_id_def)
  show ?thesis
  proof (rule that)
    show "send_pending s = Some (CAN_tTxPacket (built 2 s), CAN_vIrqCallBack_tx ?s)"
      by (simp add: send_pending_def step after_sending_def)
    show "data_frame (CAN_tTxPacket (built 2 s)) (can_iap_target_device s) (next_packet_index s) (iap_data s)"
      using p l by (simp add: data_frame_def can_get_msg_exd_id_def)
    have e: "CAN_vIrqCallBack_tx ?s = s\<lparr>CAN_ucSubsystemIndex := 0, CAN_tTxPacket := CAN_tTxPacket (built 2 s),
        can_sent := can_sent s @ [CAN_tTxPacket (built 2 s)], B2B_ucTransmitFlags := [0, 0],
        CAN_tBusStatus := (CAN_tBusStatus s OR 1) AND NOT 1, iap_data := replicate 8 0,
        b_tmr := boot_TMR_vSetTime (b_tmr s) TMR_CAN_TX_TIMEOUT (TMR_TIME_MS2TICKS 4)\<rparr>"
      using assms(1) by (simp add: after_sending_def built_def B2B_tTransmitTbl_def row_def fill_header_def
          Let_def B2B_vTxCanIapData_def CAN_vIrqCallBack_tx_def bus_ready_def CAN_vSetBit_def)
    have "bus_ready (CAN_vIrqCallBack_tx ?s) 0"
      using p(1) l bus_released [of ?s] unfolding bus_ready_def e by simp
    then show "after_bus s (CAN_vIrqCallBack_tx ?s)" unfolding after_bus_def using e by blast
  qed
qed

lemma after_bus_fields:
  assumes "after_bus s s'"
  shows "bus_ready s' 0" "can_iap_sem s' = can_iap_sem s" "can_task_state s' = can_task_state s"
    "next_packet_index s' = next_packet_index s" "iap_update_file_cur_size s' = iap_update_file_cur_size s"
    "can_iap_target_device s' = can_iap_target_device s" "b_flash s' = b_flash s"
    "can_iap_next_data_address s' = can_iap_next_data_address s" "app_file_size s' = app_file_size s"
    "b_tmr s' = boot_TMR_vSetTime (b_tmr s) TMR_CAN_TX_TIMEOUT (TMR_TIME_MS2TICKS 4)"
    "b_reset s' = b_reset s"
  using assms by (auto simp: after_bus_def)

lemma bus_ready_set [simp]:
  "bus_ready (can_set_received_data m d s) f = bus_ready s f"
  "bus_ready (s\<lparr>can_task_state := g\<rparr>) f = bus_ready s f"
  "bus_ready (s\<lparr>can_task_state := g, b_tmr := tm\<rparr>) f = bus_ready s f"
  "bus_ready (s\<lparr>next_packet_index := i\<rparr>) f = bus_ready s f"
  "bus_ready (s\<lparr>b_flash := fl\<rparr>) f = bus_ready s f"
  "bus_ready (s\<lparr>iap_update_file_cur_size := n\<rparr>) f = bus_ready s f"
  "bus_ready (s\<lparr>can_iap_next_data_address := a\<rparr>) f = bus_ready s f"
  by (simp_all add: bus_ready_def can_set_received_data_def bus_idle_def pending_some_def)

lemma schedule_status:
  assumes "bus_ready s 0" "opcode cmd = CAN_IAP_STATUS"
  defines "s' \<equiv> CAN_vTransmitMessage CAN_NODE_BOARDS B2B_MSGIDX_SEND_IAP_CMD (clear_iap_msg (set_iap_cmd cmd s))"
  shows "bus_ready s' 2" "iap_cmd s' = cmd" "can_iap_sem s' = can_iap_sem s" "can_task_state s' = can_task_state s"
    "next_packet_index s' = next_packet_index s" "iap_update_file_cur_size s' = iap_update_file_cur_size s"
    "can_iap_target_device s' = can_iap_target_device s" "b_flash s' = b_flash s"
    "can_iap_next_data_address s' = can_iap_next_data_address s" "app_file_size s' = app_file_size s"
    "b_tmr s' = b_tmr s" "b_reset s' = b_reset s"
  using assms(1,2)
  by (simp_all add: s'_def CAN_vTransmitMessage_known set_iap_cmd_def clear_iap_msg_def bus_ready_def
      bus_idle_def pending_some_def CAN_vSetBit_def word_ao_dist)

lemma schedule_packet:
  assumes "bus_ready s 0"
  shows "bus_ready (send_packet s) 4"
    "iap_data (send_packet s) = mread (b_mem s) (unat (can_iap_next_data_address s)) 8"
    "can_iap_sem (send_packet s) = can_iap_sem s" "can_task_state (send_packet s) = can_task_state s"
    "next_packet_index (send_packet s) = next_packet_index s"
    "can_iap_target_device (send_packet s) = can_iap_target_device s" "b_flash (send_packet s) = b_flash s"
    "can_iap_next_data_address (send_packet s) = can_iap_next_data_address s"
    "app_file_size (send_packet s) = app_file_size s"
  using assms
  by (simp_all add: send_packet_def CAN_vTransmitMessage_known set_iap_data_def clear_iap_msg_def bus_ready_def
      bus_idle_def pending_some_def CAN_vSetBit_def word_ao_dist)

section \<open>A data packet at the client\<close>

text \<open>The client after \<open>i\<close> packets of the image \<open>src\<close>, its flash having been \<open>m\<close> before.\<close>

definition client_waiting :: "'a canstack_scheme \<Rightarrow> memory \<Rightarrow> memory \<Rightarrow> nat \<Rightarrow> bool" where
  "client_waiting k m src i \<longleftrightarrow> bus_ready k 0 \<and> can_iap_sem k \<noteq> 0 \<and> can_task_state k = IAP_STAGE_TRANSMITTING \<and>
     next_packet_index k = of_nat i \<and> iap_update_file_cur_size k = of_nat (8 * i) \<and> boot_timers_wf (b_tmr k) \<and>
     b_mem k = mwrite m 0x22000 (mread src 0x22000 (8 * i))"

lemma client_writes:
  assumes "flash_chip_ok c" "erased m 0x22000 0x1A000" "8 * i + 8 \<le> 0x1A000"
    "FMEM (fst d) = mwrite m 0x22000 (mread src 0x22000 (8 * i))"
  shows "FMEM (fst (boot_FLASH_vWriteBytes c d (FLASH_DOWNLOAD_START_ADDR + of_nat (8 * i))
      (mread src (0x22000 + 8 * i) 8) 8)) = mwrite m 0x22000 (mread src 0x22000 (8 * Suc i))"
proof -
  have a: "unat (FLASH_DOWNLOAD_START_ADDR + of_nat (8 * i)) = 0x22000 + 8 * i"
    using assms(3) by (subst unat_add_no_wrap) (simp_all only: unat_of_nat_u32, simp_all)
  have "erased m (0x22000 + 8 * i) 8"
    using assms(2,3) erased_split [of m "0x22000" "8 * i" "0x1A000 - 8 * i"] erased_split [of m "0x22000 + 8 * i" 8 "0x1A000 - 8 * i - 8"]
    by simp
  then have er: "erased ((FMEM \<circ> fst) d) (0x22000 + 8 * i) 8"
    by (simp add: assms(4) erased_mwrite_later)
  obtain d' where "boot_FLASH_vWriteBytes c d (FLASH_DOWNLOAD_START_ADDR + of_nat (8 * i))
      (mread src (0x22000 + 8 * i) 8) 8 = d'"
    "(FMEM \<circ> fst) d' = mwrite ((FMEM \<circ> fst) d) (0x22000 + 8 * i) (mread src (0x22000 + 8 * i) 8)"
    using boot_nv.write_ok [OF assms(1), of "FLASH_DOWNLOAD_START_ADDR + of_nat (8 * i)" 8
        "mread src (0x22000 + 8 * i) 8" d] er assms(3) unfolding a by auto
  moreover have "mread src 0x22000 (8 * Suc i) = mread src 0x22000 (8 * i) @ mread src (0x22000 + 8 * i) 8"
    using mread_add [of src "0x22000" "8 * i" 8] by (simp add: add.commute)
  ultimately show ?thesis using assms(4) by (simp add: mwrite_append)
qed

lemma client_step:
  assumes "flash_chip_ok c" "erased m 0x22000 0x1A000" "8 * i + 8 \<le> 0x1A000"
    and "client_waiting k m src i" "data_frame f CAN_NODE_ID (of_nat i) (mread src (0x22000 + 8 * i) 8)"
  obtains g k' where "send_pending (take_frame c junk f k) = Some (g, k')" "client_waiting k' m src (Suc i)"
    "status_frame g CAN_NODE_ID IAP_CODE_ACK" "b_reset k' = b_reset k"
proof -
  let ?bs = "mread src (0x22000 + 8 * i) 8"
  let ?r = "can_set_received_data (ExtID f) ?bs k"
  note w = assms(4) [unfolded client_waiting_def]
  have id: "ExtID f AND 0xFFFF0000 = 0x10000000 + push_bit 16 (ucast CAN_NODE_ID)"
    "drop_bit 8 (ExtID f) AND 0xFF = ucast (of_nat i :: u8)" "ExtID f AND 0xFF = 255 - ucast (of_nat i :: u8)"
    "ExtID f \<noteq> 0"
    using assms(5) by (simp_all only: data_frame_def iap_id_fields, simp_all)
  have sum: "(drop_bit 8 (ExtID f) AND 0xFF) + (ExtID f AND 0xFF) = 0xFF"
    unfolding id by simp
  have data: "take 8 ?bs = ?bs" by simp
  define q where "q = (?r\<lparr>next_packet_index := next_packet_index ?r + 1\<rparr>)
    \<lparr>b_flash := boot_FLASH_vWriteBytes c (b_flash k) (FLASH_DOWNLOAD_START_ADDR + of_nat (8 * i)) ?bs 8\<rparr>"
  define q' where "q' = q\<lparr>iap_update_file_cur_size := of_nat (8 * i) + 8\<rparr>"
  have r: "iap_msg_id ?r = ExtID f" "iap_msg_data ?r = ?bs" "next_packet_index ?r = of_nat i"
    "iap_update_file_cur_size ?r = of_nat (8 * i)" "b_flash ?r = b_flash k"
    "can_iap_sem ?r \<noteq> 0" "can_task_state ?r = IAP_STAGE_TRANSMITTING"
    using w by (simp_all add: can_set_received_data_def)
  have trans: "iap_do_trans c junk ?r = iap_answer IAP_CODE_ACK q'"
    unfolding iap_do_trans_def Let_def r(1,2) using id(1,4) sum id(2) r
    by (simp add: q'_def q_def)
  have st: "can_iap c junk ?r = send_status IAP_CODE_ACK q'"
    using r(6,7) by (simp add: can_iap_def trans iap_answer_def iap_goto_def)
  have ready: "bus_ready q' 0" using w by (simp add: q'_def q_def)
  note sch = schedule_status [OF ready, of "\<lparr>opcode = CAN_IAP_STATUS, node_addr = CAN_NODE_ID, status = IAP_CODE_ACK\<rparr>",
      folded send_status_def, simplified]
  obtain g k' where k': "send_pending (send_status IAP_CODE_ACK q') = Some (g, k')"
    "status_frame g CAN_NODE_ID IAP_CODE_ACK" "after_bus (send_status IAP_CODE_ACK q') k'"
    using status_sent [OF sch(1,2)] .
  note ab = after_bus_fields [OF k'(3)]
  have "client_waiting k' m src (Suc i)"
    unfolding client_waiting_def ab sch
    using w client_writes [OF assms(1-3), of "b_flash k" src] r(3) ab(1)
    by (simp add: q'_def q_def can_set_received_data_def boot_tmr.wf_set algebra_simps)
  moreover have "b_reset k' = b_reset k" unfolding ab sch by (simp add: q'_def q_def can_set_received_data_def)
  moreover have "take_frame c junk f k = send_status IAP_CODE_ACK q'"
    unfolding take_frame_def data_frame_received [OF assms(5)] by (rule st)
  ultimately show ?thesis using that k'(1,2) by simp
qed

section \<open>The server\<close>

definition server_at :: "'a canstack_scheme \<Rightarrow> nat \<Rightarrow> memory \<Rightarrow> nat \<Rightarrow> bool" where
  "server_at s fs src i \<longleftrightarrow> can_iap_sem s \<noteq> 0 \<and> can_task_state s = IAP_SERVER_STAGE_TRANSMITTING \<and>
     next_packet_index s = of_nat i \<and> can_iap_next_data_address s = FLASH_DOWNLOAD_START_ADDR + of_nat (8 * i) \<and>
     can_iap_target_device s = CAN_NODE_ID \<and> unat (app_file_size s) = fs \<and> b_mem s = src"

text \<open>Packet \<open>i\<close> of the image is pending, or the whole image is acknowledged and EOT is pending.\<close>

definition server_sending :: "'a canstack_scheme \<Rightarrow> nat \<Rightarrow> memory \<Rightarrow> nat \<Rightarrow> bool" where
  "server_sending s fs src i \<longleftrightarrow> server_at s fs src i \<and> bus_ready s 4 \<and> iap_data s = mread src (0x22000 + 8 * i) 8"

definition server_ending :: "'a canstack_scheme \<Rightarrow> bool" where
  "server_ending s \<longleftrightarrow> bus_ready s 2 \<and> can_iap_sem s \<noteq> 0 \<and> can_task_state s = IAP_SERVER_STAGE_FINISHING \<and>
     can_iap_target_device s = CAN_NODE_ID \<and>
     iap_cmd s = \<lparr>opcode = CAN_IAP_STATUS, node_addr = CAN_NODE_ID, status = IAP_CODE_EOT\<rparr>"

lemma packet_address:
  "8 * i + 8 \<le> 0x1A000 \<Longrightarrow>
   unat (FLASH_DOWNLOAD_START_ADDR + of_nat (8 * i) + 8) = 0x22000 + 8 * Suc i"
  by (subst unat_add_no_wrap; subst unat_add_no_wrap) (simp_all only: unat_of_nat_u32, simp_all)

lemma server_acknowledged:
  assumes "server_at s fs src i" "bus_ready s 0" "status_frame g CAN_NODE_ID IAP_CODE_ACK"
    "8 * i + 8 \<le> 0x1A000" "fs \<le> 0x1A000"
  shows "if fs \<le> 8 * Suc i then server_ending (take_frame c junk g s)
    else server_sending (take_frame c junk g s) fs src (Suc i)"
proof -
  let ?r = "can_set_received_data CAN_MSG_ID_IAP_CMD (Data g) s"
  let ?q = "?r\<lparr>next_packet_index := next_packet_index s + 1\<rparr>
      \<lparr>can_iap_next_data_address := can_iap_next_data_address s + 8\<rparr>"
  note s = assms(1) [unfolded server_at_def]
  have r: "iap_msg_id ?r = CAN_MSG_ID_IAP_CMD" "iap_msg_data ?r = Data g"
    "can_iap_target_device ?r = CAN_NODE_ID" "can_iap_sem ?r \<noteq> 0"
    "can_task_state ?r = IAP_SERVER_STAGE_TRANSMITTING" "next_packet_index ?r = next_packet_index s"
    "can_iap_next_data_address ?r = can_iap_next_data_address s"
    using s assms(3) by (simp_all add: can_set_received_data_def status_frame_def)
  have g: "Data g ! 0 = CAN_IAP_STATUS" "Data g ! 1 = CAN_NODE_ID" "Data g ! 2 = IAP_CODE_ACK"
    using assms(3) by (simp_all add: status_frame_def)
  have q: "bus_ready ?q 0" using assms(2) by simp
  have trans: "iap_server_do_trans junk ?r = iap_server_answer IAP_CODE_ACK ?r"
    unfolding iap_server_do_trans_def Let_def r g by simp
  have take: "take_frame c junk g s = iap_goto IAP_SERVER_STAGE_FINISHING (iap_server_answer IAP_CODE_ACK ?r)"
    unfolding take_frame_def status_frame_received [OF assms(3)] can_iap_def r using r(4) trans by simp
  have addr: "unat (can_iap_next_data_address s + 8) = 0x22000 + 8 * Suc i"
    using s packet_address [OF assms(4)] by simp
  have size: "unat (FLASH_DOWNLOAD_START_ADDR + app_file_size s) = 0x22000 + fs"
    using s assms(5) by (subst unat_add_no_wrap) simp_all
  have le: "FLASH_DOWNLOAD_START_ADDR + app_file_size s \<le> can_iap_next_data_address s + 8 \<longleftrightarrow> fs \<le> 8 * Suc i"
    unfolding word_le_nat_alt addr size by simp
  have app: "app_file_size ?q = app_file_size s" by (simp add: can_set_received_data_def)
  show ?thesis
  proof (cases "fs \<le> 8 * Suc i")
    case True
    let ?cmd = "\<lparr>opcode = CAN_IAP_STATUS, node_addr = CAN_NODE_ID, status = IAP_CODE_EOT\<rparr>"
    note sch = schedule_status [OF q, of ?cmd, simplified]
    have "iap_server_answer IAP_CODE_ACK ?r =
        (0, CAN_vTransmitMessage CAN_NODE_BOARDS B2B_MSGIDX_SEND_IAP_CMD (clear_iap_msg (set_iap_cmd ?cmd ?q)))"
      using True le r app by (simp add: iap_server_answer_def Let_def)
    with True s sch r show ?thesis by (simp add: take iap_goto_def server_ending_def)
  next
    case False
    note sch = schedule_packet [OF q]
    have "iap_server_answer IAP_CODE_ACK ?r = (1, send_packet ?q)"
      using False le r app by (simp add: iap_server_answer_def Let_def)
    with False s sch r addr show ?thesis
      by (simp add: take iap_goto_def server_sending_def server_at_def can_set_received_data_def algebra_simps)
  qed
qed

lemma round_step:
  assumes "flash_chip_ok c" "erased m 0x22000 0x1A000" "8 * i + 8 \<le> 0x1A000" "fs \<le> 0x1A000"
    and "server_sending s fs src i" "client_waiting k m src i"
  obtains s' k' where "bus_round c junk (s, k) = Some (s', k')" "client_waiting k' m src (Suc i)"
    "b_reset k' = b_reset k"
    "if fs \<le> 8 * Suc i then server_ending s' else server_sending s' fs src (Suc i)"
proof -
  note s = assms(5) [unfolded server_sending_def server_at_def]
  obtain f s1 where f: "send_pending s = Some (f, s1)" "after_bus s s1"
    "data_frame f (can_iap_target_device s) (next_packet_index s) (iap_data s)"
    using data_sent [of s] s by blast
  then have df: "data_frame f CAN_NODE_ID (of_nat i) (mread src (0x22000 + 8 * i) 8)" using s by simp
  obtain g k1 where k1: "send_pending (take_frame c junk f k) = Some (g, k1)" "client_waiting k1 m src (Suc i)"
    "status_frame g CAN_NODE_ID IAP_CODE_ACK" "b_reset k1 = b_reset k"
    using client_step [OF assms(1-3) assms(6) df] .
  have "server_at s1 fs src i" using s unfolding server_at_def after_bus_fields [OF f(2)] by simp
  from server_acknowledged [OF this after_bus_fields(1) [OF f(2)] k1(3) assms(3,4)]
  show ?thesis using that [of "take_frame c junk g s1" k1] f(1) k1 by (simp add: bus_round_def)
qed

lemma rounds_run:
  assumes "flash_chip_ok c" "erased m 0x22000 0x1A000" "fs \<le> 0x1A000"
  shows "server_sending s fs src i \<Longrightarrow> client_waiting k m src i \<Longrightarrow> 8 * i < fs \<Longrightarrow> n = (fs + 7) div 8 - i \<Longrightarrow>
    \<exists>s' k'. bus_rounds c junk n (s, k) = Some (s', k') \<and> server_ending s' \<and>
      client_waiting k' m src ((fs + 7) div 8) \<and> b_reset k' = b_reset k"
proof (induction n arbitrary: s k i)
  case 0
  then show ?case by linarith
next
  case (Suc n)
  have "i < 13312" using Suc.prems(3) assms(3) by linarith
  then have i: "8 * i + 8 \<le> 0x1A000" by simp
  obtain s1 k1 where r: "bus_round c junk (s, k) = Some (s1, k1)" "client_waiting k1 m src (Suc i)"
    "b_reset k1 = b_reset k" "if fs \<le> 8 * Suc i then server_ending s1 else server_sending s1 fs src (Suc i)"
    using round_step [OF assms(1,2) i assms(3) Suc.prems(1,2)] .
  show ?case
  proof (cases "fs \<le> 8 * Suc i")
    case True
    have "(fs + 7) div 8 = Suc i"
      by (rule div_nat_eqI) (use True Suc.prems(3) in simp_all)
    moreover from this have "n = 0" using Suc.prems(4) by simp
    ultimately show ?thesis using True r by simp
  next
    case False
    then have n: "n = (fs + 7) div 8 - Suc i" "8 * Suc i < fs" using Suc.prems(4) by simp_all
    from Suc.IH [OF _ r(2) n(2,1)] False r show ?thesis by simp
  qed
qed

lemma eot_at_client:
  assumes "status_frame f CAN_NODE_ID IAP_CODE_EOT" "client_waiting k m src i"
  obtains g k' where "send_pending (can_iap c junk (take_frame c junk f k)) = Some (g, k')"
    "status_frame g CAN_NODE_ID IAP_CODE_ACK" "can_task_state k' = IAP_STAGE_FINISHED" "b_flash k' = b_flash k"
    "can_iap_sem k' \<noteq> 0" "boot_timers_wf (b_tmr k')" "boot_TMR_ulGetTimerValue (b_tmr k') TMR_IAP_POLLING = 500"
proof -
  let ?r = "can_set_received_data CAN_MSG_ID_IAP_CMD (Data f) k"
  let ?p = "?r\<lparr>can_task_state := IAP_STAGE_FINISHING\<rparr>"
  let ?q = "(send_status IAP_CODE_ACK ?p)\<lparr>can_task_state := IAP_STAGE_FINISHED,
      b_tmr := boot_TMR_vSetTime (b_tmr (send_status IAP_CODE_ACK ?p)) TMR_IAP_POLLING (TMR_TIME_MS2TICKS 50)\<rparr>"
  note k = assms(2) [unfolded client_waiting_def]
  have r: "can_iap_sem ?r \<noteq> 0" "can_task_state ?r = IAP_STAGE_TRANSMITTING" "iap_msg_id ?r = CAN_MSG_ID_IAP_CMD"
    "iap_msg_data ?r = Data f"
    using k assms(1) by (simp_all add: can_set_received_data_def status_frame_def)
  have f: "Data f ! 0 = CAN_IAP_STATUS" "Data f ! 1 = CAN_NODE_ID" "Data f ! 2 = IAP_CODE_EOT"
    using assms(1) by (simp_all add: status_frame_def)
  have "iap_do_trans c junk ?r = (0, ?r)" unfolding iap_do_trans_def Let_def r f by simp
  then have one: "take_frame c junk f k = ?p"
    using r unfolding take_frame_def status_frame_received [OF assms(1)] by (simp add: can_iap_def iap_goto_def)
  have two: "can_iap c junk ?p = ?q"
    using r(1) by (simp add: can_iap_def iap_do_fin_def Let_def)
  have ready: "bus_ready ?p 0" using k by simp
  note sch = schedule_status [OF ready, of "\<lparr>opcode = CAN_IAP_STATUS, node_addr = CAN_NODE_ID, status = IAP_CODE_ACK\<rparr>",
      folded send_status_def, simplified]
  have "bus_ready ?q 2" using sch(1) by simp
  then obtain g k' where k': "send_pending ?q = Some (g, k')"
    "status_frame g CAN_NODE_ID IAP_CODE_ACK" "after_bus ?q k'"
    using status_sent [of ?q] sch(2) by auto
  note ab = after_bus_fields [OF k'(3)]
  show ?thesis
  proof (rule that)
    show "send_pending (can_iap c junk (take_frame c junk f k)) = Some (g, k')"
      unfolding one two by (rule k'(1))
    show "boot_TMR_ulGetTimerValue (b_tmr k') TMR_IAP_POLLING = 500" "boot_timers_wf (b_tmr k')"
      unfolding ab using k sch(11)
      by (simp_all add: boot_tmr.counter_set boot_tmr.wf_set can_set_received_data_def TMR_TIME_MS2TICKS_def)
    show "b_flash k' = b_flash k" "can_iap_sem k' \<noteq> 0"
      unfolding ab using sch(3,8) r by (simp_all add: can_set_received_data_def)
    show "can_task_state k' = IAP_STAGE_FINISHED" unfolding ab by simp
  qed (rule k'(2))
qed

lemma close_run:
  assumes "server_ending s" "client_waiting k m src i"
  obtains s' k' where "bus_close c junk (s, k) = Some (s', k')" "can_task_state s' = IAP_SERVER_STAGE_FINISHED"
    "b_flash k' = b_flash k" "can_iap_sem k' \<noteq> 0" "boot_timers_wf (b_tmr k')"
    "boot_TMR_ulGetTimerValue (b_tmr k') TMR_IAP_POLLING = 500" "can_task_state k' = IAP_STAGE_FINISHED"
proof -
  note s = assms(1) [unfolded server_ending_def]
  obtain f s1 where f: "send_pending s = Some (f, s1)" "status_frame f CAN_NODE_ID IAP_CODE_EOT" "after_bus s s1"
    using status_sent [of s] s by blast
  obtain g k' where k': "send_pending (can_iap c junk (take_frame c junk f k)) = Some (g, k')"
    "status_frame g CAN_NODE_ID IAP_CODE_ACK" "can_task_state k' = IAP_STAGE_FINISHED" "b_flash k' = b_flash k"
    "can_iap_sem k' \<noteq> 0" "boot_timers_wf (b_tmr k')" "boot_TMR_ulGetTimerValue (b_tmr k') TMR_IAP_POLLING = 500"
    using eot_at_client [OF f(2) assms(2)] .
  let ?r = "can_set_received_data CAN_MSG_ID_IAP_CMD (Data g) s1"
  have r: "iap_msg_id ?r = CAN_MSG_ID_IAP_CMD" "iap_msg_data ?r = Data g" "can_iap_target_device ?r = CAN_NODE_ID"
    "can_iap_sem ?r \<noteq> 0" "can_task_state ?r = IAP_SERVER_STAGE_FINISHING"
    using s k'(2) after_bus_fields [OF f(3)] by (simp_all add: can_set_received_data_def status_frame_def)
  have "iap_server_do_fin ?r = (0, ?r)"
    unfolding iap_server_do_fin_def Let_def r using k'(2) by (simp add: status_frame_def)
  then have "can_task_state (take_frame c junk g s1) = IAP_SERVER_STAGE_FINISHED"
    unfolding take_frame_def status_frame_received [OF k'(2)] using r by (simp add: can_iap_def iap_goto_def)
  with that [of "take_frame c junk g s1" k'] f(1) k' show ?thesis by (simp add: bus_close_def)
qed

text \<open>
  C11. Forwarding over CAN is a faithful copy: a server with the first packet of an image of \<open>fs\<close> bytes
  pending and a client ready to receive end, after one round per eight bytes and the closing exchange,
  both in their finished stages; the client's download area then holds the server's image (rounded up
  to the next multiple of eight bytes), and the client resets its processor after 50 ms. The packet
  number wraps around every 256 packets.
\<close>

theorem can_forward_copies_image:
  assumes "flash_chip_ok c" "erased (b_mem k) 0x22000 0x1A000" "0 < fs" "fs \<le> 0x1A000"
    and "server_sending s fs src 0" "client_waiting k (b_mem k) src 0"
  shows "\<exists>s1 k1 s2 k2. bus_rounds c junk ((fs + 7) div 8) (s, k) = Some (s1, k1) \<and>
    bus_close c junk (s1, k1) = Some (s2, k2) \<and>
    can_task_state s2 = IAP_SERVER_STAGE_FINISHED \<and> can_task_state k2 = IAP_STAGE_FINISHED \<and>
    b_mem k2 = mwrite (b_mem k) 0x22000 (mread src 0x22000 (8 * ((fs + 7) div 8))) \<and>
    b_reset (can_iap c junk (k2\<lparr>b_tmr := (boot_TMR_vTickUpdate ^^ 500) (b_tmr k2)\<rparr>))"
proof -
  obtain s1 k1 where r: "bus_rounds c junk ((fs + 7) div 8) (s, k) = Some (s1, k1)" "server_ending s1"
    "client_waiting k1 (b_mem k) src ((fs + 7) div 8)"
    using rounds_run [OF assms(1,2,4-6)] assms(3) by (metis diff_zero mult_0_right)
  obtain s2 k2 where e: "bus_close c junk (s1, k1) = Some (s2, k2)" "can_task_state s2 = IAP_SERVER_STAGE_FINISHED"
    "b_flash k2 = b_flash k1" "can_iap_sem k2 \<noteq> 0" "boot_timers_wf (b_tmr k2)"
    "boot_TMR_ulGetTimerValue (b_tmr k2) TMR_IAP_POLLING = 500" "can_task_state k2 = IAP_STAGE_FINISHED"
    using close_run [OF r(2,3)] .
  have "boot_TMR_bIsTimeExpired ((boot_TMR_vTickUpdate ^^ 500) (b_tmr k2)) TMR_IAP_POLLING"
    using e(5,6) by (simp add: boot_tmr.expired_iff)
  then have "b_reset (can_iap c junk (k2\<lparr>b_tmr := (boot_TMR_vTickUpdate ^^ 500) (b_tmr k2)\<rparr>))"
    using e(4,7) by (simp add: can_iap_def hw_cpu_reset_def)
  with r(1,3) e show ?thesis by (auto simp: client_waiting_def)
qed

text \<open>A server with the image \<open>[5, \<dots>, 5]\<close> of ten bytes, and a client, both from power-up.\<close>

definition example_server :: canstack where
  "example_server = send_packet ((canstack_init (\<lambda>_. 5))\<lparr>can_iap_sem := CAN_IAP_SERVER_MODE,
     can_task_state := IAP_SERVER_STAGE_TRANSMITTING, can_iap_target_device := CAN_NODE_ID,
     can_iap_next_data_address := FLASH_DOWNLOAD_START_ADDR, app_file_size := 10\<rparr>)"

definition example_client :: canstack where
  "example_client = (canstack_init (\<lambda>_. 255))\<lparr>can_iap_sem := CAN_IAP_CLENT_MODE_DATA,
     can_task_state := IAP_STAGE_TRANSMITTING\<rparr>"

lemma example_bus_ready: "bus_ready (canstack_init m) 0"
  by (simp add: bus_ready_def bus_idle_def canstack_init_def ymodem_init_def ymodem.defs canstack.defs zero_frame_def)

lemma example_transfer:
  "server_sending example_server 10 (\<lambda>_. 5) 0" "client_waiting example_client (\<lambda>_. 255) src 0"
proof -
  let ?s = "(canstack_init (\<lambda>_. 5))\<lparr>can_iap_sem := CAN_IAP_SERVER_MODE,
     can_task_state := IAP_SERVER_STAGE_TRANSMITTING, can_iap_target_device := CAN_NODE_ID,
     can_iap_next_data_address := FLASH_DOWNLOAD_START_ADDR, app_file_size := 10\<rparr>"
  have r: "bus_ready ?s 0"
    using example_bus_ready [of "\<lambda>_. 5"] by (simp add: bus_ready_def bus_idle_def pending_some_def)
  have m: "b_mem (canstack_init m) = m" "next_packet_index (canstack_init m) = 0" for m
    by (simp_all add: canstack_init_def ymodem_init_def ymodem.defs canstack.defs efm_reset_def)
  show "server_sending example_server 10 (\<lambda>_. 5) 0"
    unfolding example_server_def server_sending_def server_at_def using schedule_packet [OF r] m by simp
  have "bus_ready example_client 0"
    using example_bus_ready [of "\<lambda>_. 255"] by (simp add: example_client_def bus_ready_def bus_idle_def pending_some_def)
  then show "client_waiting example_client (\<lambda>_. 255) src 0"
    by (simp add: client_waiting_def example_client_def canstack_init_def ymodem_init_def ymodem.defs canstack.defs
        efm_reset_def boot_timers_wf_def boot_TMR_NUM_def)
qed

theorem can_forward_copies_image_witness:
  "\<exists>s1 k1 s2 k2. bus_rounds nor_chip 0 2 (example_server, example_client) = Some (s1, k1) \<and>
    bus_close nor_chip 0 (s1, k1) = Some (s2, k2) \<and> b_mem k2 0x2200F = 5 \<and> b_mem k2 0x22010 = 255"
proof -
  have m: "b_mem example_client = (\<lambda>_. 255)"
    by (simp add: example_client_def canstack_init_def ymodem_init_def ymodem.defs canstack.defs efm_reset_def)
  have er: "erased (b_mem example_client) 0x22000 0x1A000" by (simp add: m erased_def)
  obtain s1 k1 s2 k2 where t: "bus_rounds nor_chip 0 2 (example_server, example_client) = Some (s1, k1)"
    "bus_close nor_chip 0 (s1, k1) = Some (s2, k2)"
    "b_mem k2 = mwrite (\<lambda>_. 255) 0x22000 (mread (\<lambda>_. 5) 0x22000 16)"
    using can_forward_copies_image [OF nor_chip_ok er, of 10 example_server "\<lambda>_. 5" 0, unfolded m,
        OF _ _ example_transfer] by auto
  then show ?thesis by (auto simp: mwrite_def)
qed

end
