(* ===== verification/BootTask.thy ===== *)
theory BootTask
  imports Fota
begin

text \<open>
  The main loop of the bootloader: the task table and its scheduler (source/task.c) and the loop of
  source/main.c. Three tasks are scheduled: the firmware updater, the Y-modem receiver and a working
  time counter; the CAN tasks of theory CanIap are commented out in the table. The interrupts are the
  other steps of the system: the 100 us timer, the millisecond tick, and a Y-modem message. They happen
  between two passes of the loop here; a pass that ends with the reset requested is followed by a start
  as after power-up. The watchdog and the LED are hardware.
\<close>

section \<open>Scheduler\<close>

datatype boot_task = Task_FOTA_vTaskHandler | Task_ymodem_ota | Task_TASK_vUpdateWorkingTime

record TaskStruct =
  ulTimestampLast :: u32
  ulTimePeriod :: u32
  pvTaskPointer :: boot_task

record boot = fota +
  TASK_tTaskTbl :: "TaskStruct list"
  b_systick :: u32
  work_systick :: u32
  led0_toggles :: nat

definition TASK_MS2TICK :: "u32 \<Rightarrow> u32" where
  "TASK_MS2TICK x = x div 1"

definition task_table_init :: "TaskStruct list" where
  "task_table_init =
    [\<lparr>ulTimestampLast = TASK_MS2TICK 0, ulTimePeriod = TASK_MS2TICK 0, pvTaskPointer = Task_FOTA_vTaskHandler\<rparr>,
     \<lparr>ulTimestampLast = TASK_MS2TICK 0, ulTimePeriod = TASK_MS2TICK 0, pvTaskPointer = Task_ymodem_ota\<rparr>,
     \<lparr>ulTimestampLast = TASK_MS2TICK 0, ulTimePeriod = TASK_MS2TICK 1000, pvTaskPointer = Task_TASK_vUpdateWorkingTime\<rparr>]"

definition TASK_vUpdateWorkingTime :: "'a boot_scheme \<Rightarrow> 'a boot_scheme" where
  "TASK_vUpdateWorkingTime s = s\<lparr>work_systick := work_systick s + 1\<rparr>"

primrec run_task :: "flash_chip \<Rightarrow> crc_unit \<Rightarrow> u32 \<Rightarrow> boot_task \<Rightarrow> 'a boot_scheme \<Rightarrow> 'a boot_scheme option" where
  "run_task c crc32b junk Task_FOTA_vTaskHandler s = FOTA_vTaskHandler c crc32b s"
| "run_task c crc32b junk Task_ymodem_ota s = ymodem_ota c junk s"
| "run_task c crc32b junk Task_TASK_vUpdateWorkingTime s = Some (TASK_vUpdateWorkingTime s)"

definition schedule_task :: "flash_chip \<Rightarrow> crc_unit \<Rightarrow> u32 \<Rightarrow> nat \<Rightarrow> 'a boot_scheme \<Rightarrow> 'a boot_scheme option" where
  "schedule_task c crc32b junk i s =
    (let t = TASK_tTaskTbl s ! i
     in if b_systick s - ulTimestampLast t \<ge> ulTimePeriod t
        then run_task c crc32b junk (pvTaskPointer t)
               (s\<lparr>TASK_tTaskTbl := (TASK_tTaskTbl s)[i := t\<lparr>ulTimestampLast := b_systick s\<rparr>]\<rparr>)
        else Some s)"

primrec schedule_from :: "flash_chip \<Rightarrow> crc_unit \<Rightarrow> u32 \<Rightarrow> nat list \<Rightarrow> 'a boot_scheme \<Rightarrow> 'a boot_scheme option" where
  "schedule_from c crc32b junk [] s = Some s"
| "schedule_from c crc32b junk (i # is) s =
     Option.bind (schedule_task c crc32b junk i s) (schedule_from c crc32b junk is)"

definition TASK_vScheduleTasks :: "flash_chip \<Rightarrow> crc_unit \<Rightarrow> u32 \<Rightarrow> 'a boot_scheme \<Rightarrow> 'a boot_scheme option" where
  "TASK_vScheduleTasks c crc32b junk s = schedule_from c crc32b junk [0, 1, 2] s"

section \<open>The main loop\<close>

definition main_pass :: "flash_chip \<Rightarrow> crc_unit \<Rightarrow> u32 \<Rightarrow> 'a boot_scheme \<Rightarrow> 'a boot_scheme option" where
  "main_pass c crc32b junk s = map_option (\<lambda>s.
     if boot_TMR_bIsTimeExpired (b_tmr s) TMR_SW_WATCH_DOG
     then s\<lparr>b_tmr := boot_TMR_vSetTime (b_tmr s) TMR_SW_WATCH_DOG
              (if ymodem_is_ota_data_received s then TMR_TIME_MS2TICKS 50 else TMR_TIME_MS2TICKS 200),
            led0_toggles := led0_toggles s + 1\<rparr>
     else s) (TASK_vScheduleTasks c crc32b junk s)"

definition SysTick_IrqHandler :: "'a boot_scheme \<Rightarrow> 'a boot_scheme" where
  "SysTick_IrqHandler s = s\<lparr>b_systick := b_systick s + 1\<rparr>"

definition timer4_tick :: "'a boot_scheme \<Rightarrow> 'a boot_scheme" where
  "timer4_tick s = s\<lparr>b_tmr := boot_TMR_vTickUpdate (b_tmr s)\<rparr>"

text \<open>Power-up of the bootloader over the flash content \<open>m\<close>.\<close>

definition boot_init :: "memory \<Rightarrow> boot" where
  "boot_init m = fota.extend (fota_init m) (boot.fields task_table_init 0 0 0)"

text \<open>
  A reset requested in a pass restarts the processor: what is left is the flash, and the bootloader
  begins again as after power-up. The rest of the pass only touches the RAM, which is lost.
\<close>

definition restart :: "boot \<Rightarrow> boot" where
  "restart s = (if b_reset s then boot_init (b_mem s) else s)"

section \<open>The system as a step relation\<close>

inductive boot_step :: "flash_chip \<Rightarrow> crc_unit \<Rightarrow> boot \<Rightarrow> boot \<Rightarrow> bool"
  for c :: flash_chip and crc32b :: crc_unit where
  Pass: "main_pass c crc32b junk s = Some s' \<Longrightarrow> boot_step c crc32b s (restart s')"
| Tick: "boot_step c crc32b s (timer4_tick s)"
| Millisecond: "boot_step c crc32b s (SysTick_IrqHandler s)"
| Message: "boot_step c crc32b s (Usart2RxIrqCallback remaining buf s)"

inductive boot_reach :: "flash_chip \<Rightarrow> crc_unit \<Rightarrow> boot \<Rightarrow> boot \<Rightarrow> bool"
  for c :: flash_chip and crc32b :: crc_unit where
  reach_refl: "boot_reach c crc32b s s"
| reach_step: "boot_reach c crc32b s s' \<Longrightarrow> boot_step c crc32b s' s'' \<Longrightarrow> boot_reach c crc32b s s''"

inductive_cases boot_stepE: "boot_step c crc32b s s'"

section \<open>What the Y-modem task leaves alone\<close>

definition same_boot :: "'a boot_scheme \<Rightarrow> 'a boot_scheme \<Rightarrow> bool" where
  "same_boot s s' \<longleftrightarrow> FOTA_tTaskState s' = FOTA_tTaskState s \<and> can_task_state s' = can_task_state s \<and>
     fota_started s' = fota_started s \<and> TASK_tTaskTbl s' = TASK_tTaskTbl s \<and> b_systick s' = b_systick s"

lemma same_boot_refl [simp]: "same_boot s s"
  by (simp add: same_boot_def)

lemma same_boot_trans: "same_boot s s' \<Longrightarrow> same_boot s' s'' \<Longrightarrow> same_boot s s''"
  by (simp add: same_boot_def)

lemma putchars_same: "same_boot s ((rym_putchar x ^^ n) s)"
proof (induction n)
  case (Suc n)
  then show ?case by (simp add: same_boot_def rym_putchar_def)
qed simp

lemma begin_same: "ymodem_on_begin c buf s = Some (r, s') \<Longrightarrow> same_boot s s'"
  by (auto simp: ymodem_on_begin_def Let_def same_boot_def split: option.splits if_splits)

lemma exit_same: "same_boot s (snd (exit_reception code s))"
  by (auto simp: exit_reception_def Let_def same_boot_def rym_putchar_def clear_msg_def numeral_eq_Suc)

lemma trans_data_same: "same_boot s (snd (rym_trans_data c s))"
proof -
  have e: "same_boot s t \<Longrightarrow> same_boot s (snd (exit_reception code t))" for code and t :: "'a boot_scheme"
    using exit_same same_boot_trans by blast
  have u: "same_boot s (s\<lparr>ymodem_next_packet_index := i, b_flash := f, update_file_cur_size := n\<rparr>)" for i f n
    by (simp add: same_boot_def)
  show ?thesis
    unfolding rym_trans_data_def Let_def ymodem_on_data_def
    by (simp add: e u)
qed

lemma handshake_same: "rym_do_handshake c junk s = Some (r, s') \<Longrightarrow> same_boot s s'"
proof -
  assume a: "rym_do_handshake c junk s = Some (r, s')"
  let ?p = "if boot_TMR_bIsTimeExpired (b_tmr s) TMR_YMODEM_POLLING
            then rym_putchar RYM_CODE_C (clear_msg
              (s\<lparr>b_tmr := boot_TMR_vSetTime (b_tmr s) TMR_YMODEM_POLLING (TMR_TIME_MS2TICKS 40)\<rparr>))
            else s"
  have p: "same_boot s ?p" "same_boot ?p (?p\<lparr>ymodem_next_packet_index := i\<rparr>)" "same_boot ?p (rym_putchar x ?p)" for i x
    by (simp_all add: same_boot_def rym_putchar_def clear_msg_def)
  define q where "q = ?p"
  note p = p [folded q_def]
  have "same_boot q s'"
    using a p(2,3) unfolding rym_do_handshake_def Let_def q_def [symmetric]
    by (auto simp: same_boot_def rym_putchar_def split: if_splits option.splits dest!: begin_same)
  then show ?thesis using p(1) same_boot_trans by blast
qed

lemma stage_same: "same_boot s (snd p) \<Longrightarrow> same_boot s (stage_if_zero g p)"
  by (simp add: same_boot_def stage_if_zero_def set_stage_def)

lemma ymodem_ota_same: "ymodem_ota c junk s = Some s' \<Longrightarrow> same_boot s s'"
proof (cases "ymodem_ota_task_state s")
  case RYM_STAGE_ESTABLISHING
  assume "ymodem_ota c junk s = Some s'"
  then show ?thesis using RYM_STAGE_ESTABLISHING
    by (auto simp: ymodem_ota_def split: if_splits intro!: stage_same dest!: handshake_same)
next
  case RYM_STAGE_TRANSMITTING
  assume "ymodem_ota c junk s = Some s'"
  then show ?thesis using RYM_STAGE_TRANSMITTING
    by (auto simp: ymodem_ota_def split: if_splits intro!: stage_same trans_data_same)
qed (auto simp: ymodem_ota_def rym_do_trans_def rym_do_fin_def rym_trans_fin_packet_def rym_trans_fin_def Let_def
    stage_if_zero_def set_stage_def same_boot_def rym_putchar_def clear_msg_def hw_cpu_reset_def split: if_splits)

text \<open>
  Only the last stage of the Y-modem receiver asks for the reset, and it stays in that stage.
\<close>

definition reset_at_end :: "'a boot_scheme \<Rightarrow> bool" where
  "reset_at_end s \<longleftrightarrow> (b_reset s \<longrightarrow> ymodem_ota_task_state s = RYM_STAGE_RESET)"

lemma putchars_reset: "b_reset ((rym_putchar x ^^ n) s) = b_reset s"
  by (induction n) (simp_all add: rym_putchar_def)

lemma begin_reset: "ymodem_on_begin c buf s = Some (r, s') \<Longrightarrow> b_reset s' = b_reset s"
  by (auto simp: ymodem_on_begin_def Let_def split: option.splits if_splits)

lemma exit_reset [simp]: "b_reset (snd (exit_reception code s)) = b_reset s"
  by (simp add: exit_reception_def Let_def putchars_reset rym_putchar_def clear_msg_def)

lemma trans_data_reset [simp]: "b_reset (snd (rym_trans_data c s)) = b_reset s"
  by (simp add: rym_trans_data_def Let_def ymodem_on_data_def)

lemma handshake_reset:
  assumes "rym_do_handshake c junk s = Some (r, s')"
  shows "b_reset s' = b_reset s"
proof -
  define q where "q = (if boot_TMR_bIsTimeExpired (b_tmr s) TMR_YMODEM_POLLING
            then rym_putchar RYM_CODE_C (clear_msg
              (s\<lparr>b_tmr := boot_TMR_vSetTime (b_tmr s) TMR_YMODEM_POLLING (TMR_TIME_MS2TICKS 40)\<rparr>))
            else s)"
  have "b_reset q = b_reset s" by (simp add: q_def rym_putchar_def clear_msg_def)
  moreover have "b_reset s' = b_reset q"
    using assms unfolding rym_do_handshake_def Let_def q_def [symmetric]
    by (auto simp: rym_putchar_def split: if_splits option.splits dest!: begin_reset)
  ultimately show ?thesis by simp
qed

lemma stage_reset [simp]: "b_reset (stage_if_zero g p) = b_reset (snd p)"
  by (simp add: stage_if_zero_def set_stage_def)

lemma ymodem_ota_reset:
  assumes "ymodem_ota c junk s = Some s'" "reset_at_end s"
  shows "reset_at_end s'"
proof (cases "ymodem_ota_task_state s = RYM_STAGE_RESET")
  case True
  then show ?thesis using assms by (auto simp: ymodem_ota_def reset_at_end_def hw_cpu_reset_def split: if_splits)
next
  case False
  then have "\<not> b_reset s" using assms(2) by (simp add: reset_at_end_def)
  moreover have "b_reset s' = b_reset s"
    using assms(1) False
    by (auto simp: ymodem_ota_def rym_do_trans_def rym_do_fin_def rym_trans_fin_packet_def rym_trans_fin_def Let_def
        set_stage_def rym_putchar_def clear_msg_def handshake_reset split: if_splits rym_stage.splits)
  ultimately show ?thesis by (simp add: reset_at_end_def)
qed

section \<open>Invariants of the system\<close>

lemma schedule_task_inv:
  assumes "\<And>t s s' junk. Q s \<Longrightarrow> run_task c crc32b junk t s = Some s' \<Longrightarrow> Q s'"
    and "\<And>s tbl. Q s \<Longrightarrow> Q (s\<lparr>TASK_tTaskTbl := tbl\<rparr>)"
    and "Q s" "schedule_task c crc32b junk i s = Some s'"
  shows "Q s'"
proof (cases "b_systick s - ulTimestampLast (TASK_tTaskTbl s ! i) \<ge> ulTimePeriod (TASK_tTaskTbl s ! i)")
  case True
  then have "run_task c crc32b junk (pvTaskPointer (TASK_tTaskTbl s ! i)) (s\<lparr>TASK_tTaskTbl :=
      (TASK_tTaskTbl s)[i := (TASK_tTaskTbl s ! i)\<lparr>ulTimestampLast := b_systick s\<rparr>]\<rparr>) = Some s'"
    using assms(4) by (simp add: schedule_task_def Let_def)
  then show ?thesis using assms(1) [OF assms(2) [OF assms(3)]] by blast
next
  case False
  then show ?thesis using assms(3,4) by (simp add: schedule_task_def Let_def)
qed

lemma schedule_from_inv:
  assumes "\<And>t s s' junk. Q s \<Longrightarrow> run_task c crc32b junk t s = Some s' \<Longrightarrow> Q s'"
    and "\<And>s tbl. Q s \<Longrightarrow> Q (s\<lparr>TASK_tTaskTbl := tbl\<rparr>)"
  shows "Q s \<Longrightarrow> schedule_from c crc32b junk is s = Some s' \<Longrightarrow> Q s'"
proof (induction "is" arbitrary: s)
  case (Cons i "is")
  from Cons.prems(2) obtain s1 where "schedule_task c crc32b junk i s = Some s1"
    "schedule_from c crc32b junk is s1 = Some s'" by (auto simp: bind_eq_Some_conv)
  moreover have "Q s1" if "schedule_task c crc32b junk i s = Some s1" for s1
    using schedule_task_inv [of Q, OF assms Cons.prems(1) that] .
  ultimately show ?case using Cons.IH by blast
qed simp

text \<open>
  A predicate that every task and every device keeps holds after every pass, and in every reachable
  state up to the first reset, which it still holds at.
\<close>

lemma pass_inv:
  assumes task: "\<And>t s s' junk. Q s \<Longrightarrow> run_task c crc32b junk t s = Some s' \<Longrightarrow> Q s'"
    and tbl: "\<And>s tbl. Q s \<Longrightarrow> Q (s\<lparr>TASK_tTaskTbl := tbl\<rparr>)"
    and led: "\<And>s tm n. Q s \<Longrightarrow> Q (s\<lparr>b_tmr := tm, led0_toggles := n\<rparr>)"
    and "main_pass c crc32b junk s = Some s'" "Q s"
  shows "Q s'"
proof -
  obtain t where t: "schedule_from c crc32b junk [0, 1, 2] s = Some t"
    and s': "s' = t \<or> (\<exists>tm n. s' = t\<lparr>b_tmr := tm, led0_toggles := n\<rparr>)"
    using assms(4) by (auto simp: main_pass_def TASK_vScheduleTasks_def simp del: schedule_from.simps split: if_splits)
  have "Q t" using schedule_from_inv [of Q, OF task tbl assms(5) t] .
  then show ?thesis using s' led by blast
qed

lemma left_by_reset:
  assumes task: "\<And>t s s' junk. Q s \<Longrightarrow> run_task c crc32b junk t s = Some s' \<Longrightarrow> Q s'"
    and tbl: "\<And>s tbl. Q s \<Longrightarrow> Q (s\<lparr>TASK_tTaskTbl := tbl\<rparr>)"
    and led: "\<And>s tm n. Q s \<Longrightarrow> Q (s\<lparr>b_tmr := tm, led0_toggles := n\<rparr>)"
    and tick: "\<And>s tm. Q s \<Longrightarrow> Q (s\<lparr>b_tmr := tm\<rparr>)"
    and ms: "\<And>s n. Q s \<Longrightarrow> Q (s\<lparr>b_systick := n\<rparr>)"
    and msg: "\<And>s n d. Q s \<Longrightarrow> Q (s\<lparr>msg_len := n, msg_data := d\<rparr>)"
  shows "boot_reach c crc32b s s' \<Longrightarrow> Q s \<and> \<not> b_reset s \<Longrightarrow> Q s' \<and> \<not> b_reset s' \<or>
    (\<exists>r j r'. boot_reach c crc32b s r \<and> main_pass c crc32b j r = Some r' \<and> Q r' \<and> b_reset r' \<and>
      boot_reach c crc32b (boot_init (b_mem r')) s')"
proof (induction rule: boot_reach.induct)
  case (reach_step s s' s'')
  then consider (before) "Q s'" "\<not> b_reset s'"
    | (after) r j r' where "boot_reach c crc32b s r" "main_pass c crc32b j r = Some r'" "Q r'" "b_reset r'"
      "boot_reach c crc32b (boot_init (b_mem r')) s'" by blast
  then show ?case
  proof cases
    case after
    then show ?thesis using boot_reach.reach_step [OF after(5) reach_step.hyps(2)] by blast
  next
    case before
    from reach_step.hyps(2) show ?thesis
    proof cases
      case (Pass junk t)
      have "Q t" using pass_inv [of Q, OF task tbl led Pass(2) before(1)] .
      then show ?thesis
        using Pass reach_step.hyps(1) reach_refl [of c crc32b "boot_init (b_mem t)"] by (auto simp: restart_def)
    next
      case Tick
      then show ?thesis using tick before by (simp add: timer4_tick_def)
    next
      case Millisecond
      then show ?thesis using ms before by (simp add: SysTick_IrqHandler_def)
    next
      case (Message remaining buf)
      then show ?thesis using msg before
        by (simp add: Usart2RxIrqCallback_def ymodem_ota_set_received_data_def Let_def)
    qed
  qed
qed simp

text \<open>
  A download holds the bootloader: once the updater has seen the reception begin, it never looks
  at the download area or the application again, and only the reset in the last stage of a Y-modem
  session leads on, to a start as after power-up. A sender that goes away leaves the board in the
  bootloader although the installed application is intact.
\<close>

theorem broken_download_never_starts:
  assumes "boot_reach c crc32b s s'" "FOTA_tTaskState s = FOTA_TASK_DOWNLOADING" "fota_started s = None" "\<not> b_reset s"
  shows "FOTA_tTaskState s' = FOTA_TASK_DOWNLOADING \<and> fota_started s' = None \<or>
    (\<exists>r j r'. boot_reach c crc32b s r \<and> main_pass c crc32b j r = Some r' \<and> b_reset r' \<and>
      ymodem_ota_task_state r' = RYM_STAGE_RESET \<and> boot_reach c crc32b (boot_init (b_mem r')) s')"
proof -
  let ?Q = "\<lambda>s. FOTA_tTaskState s = FOTA_TASK_DOWNLOADING \<and> fota_started s = None \<and> reset_at_end s"
  have "?Q s \<and> \<not> b_reset s" using assms(2-4) by (simp add: reset_at_end_def)
  note l = left_by_reset [of ?Q c crc32b, OF _ _ _ _ _ _ assms(1) this]
  have "?Q s' \<and> \<not> b_reset s' \<or>
    (\<exists>r j r'. boot_reach c crc32b s r \<and> main_pass c crc32b j r = Some r' \<and> ?Q r' \<and> b_reset r' \<and>
      boot_reach c crc32b (boot_init (b_mem r')) s')"
  proof (rule l, goal_cases)
    case (1 t s s' junk)
    then show ?case
    proof (cases t)
      case Task_ymodem_ota
      then show ?thesis using 1 ymodem_ota_same [of c junk s s'] ymodem_ota_reset [of c junk s s'] by (simp add: same_boot_def)
    qed (auto simp: FOTA_vTaskHandler_def TASK_vUpdateWorkingTime_def reset_at_end_def)
  qed (simp_all add: reset_at_end_def)
  then show ?thesis unfolding reset_at_end_def by blast
qed

section \<open>Starting without a sender\<close>

datatype boot_event = EvTick | EvMillisecond | EvPass u32

primrec boot_handle :: "flash_chip \<Rightarrow> crc_unit \<Rightarrow> boot_event \<Rightarrow> 'a boot_scheme \<Rightarrow> 'a boot_scheme option" where
  "boot_handle c crc32b EvTick s = Some (timer4_tick s)"
| "boot_handle c crc32b EvMillisecond s = Some (SysTick_IrqHandler s)"
| "boot_handle c crc32b (EvPass junk) s = main_pass c crc32b junk s"

primrec boot_run :: "flash_chip \<Rightarrow> crc_unit \<Rightarrow> boot_event list \<Rightarrow> 'a boot_scheme \<Rightarrow> 'a boot_scheme option" where
  "boot_run c crc32b [] s = Some s"
| "boot_run c crc32b (e # es) s = Option.bind (boot_handle c crc32b e s) (boot_run c crc32b es)"

lemma boot_run_append:
  "boot_run c crc32b (es @ fs) s = Option.bind (boot_run c crc32b es s) (boot_run c crc32b fs)"
  by (induction es arbitrary: s) (simp_all split: Option.bind_split)

definition table_ok :: "TaskStruct list \<Rightarrow> bool" where
  "table_ok tbl \<longleftrightarrow> map pvTaskPointer tbl = [Task_FOTA_vTaskHandler, Task_ymodem_ota, Task_TASK_vUpdateWorkingTime] \<and>
     map ulTimePeriod tbl = [0, 0, 1000]"

lemma table_ok_cases:
  assumes "table_ok tbl"
  obtains a b d where "tbl = [\<lparr>ulTimestampLast = a, ulTimePeriod = 0, pvTaskPointer = Task_FOTA_vTaskHandler\<rparr>,
     \<lparr>ulTimestampLast = b, ulTimePeriod = 0, pvTaskPointer = Task_ymodem_ota\<rparr>,
     \<lparr>ulTimestampLast = d, ulTimePeriod = 1000, pvTaskPointer = Task_TASK_vUpdateWorkingTime\<rparr>]"
proof -
  obtain x y z where t: "tbl = [x, y, z]"
    using assms by (auto simp: table_ok_def map_eq_Cons_conv)
  show ?thesis
    by (rule that [of "ulTimestampLast x" "ulTimestampLast y" "ulTimestampLast z"])
      (use assms in \<open>simp add: t table_ok_def\<close>)
qed

text \<open>No message, no reception, the flash content \<open>m\<close>.\<close>

definition quiet :: "memory \<Rightarrow> 'a boot_scheme \<Rightarrow> bool" where
  "quiet m s \<longleftrightarrow> b_mem s = m \<and> \<not> ymodem_is_ota_data_received s \<and> msg_len s = 0 \<and>
     boot_timers_wf (b_tmr s) \<and> table_ok (TASK_tTaskTbl s)"

definition no_image :: "memory \<Rightarrow> bool" where
  "no_image m \<longleftrightarrow> word_at m FLASH_DOWNLOAD_START_ADDR \<noteq> IAP_MAGIC_WORD_BEGIN \<and>
     \<not> str_is m FLASH_DOWNLOAD_START_ADDR [0x52, 0x42, 0x4C]"

definition app_at :: "memory \<Rightarrow> started_app" where
  "app_at m = \<lparr>app_msp = word_at m 0x8000, app_entry = word_at m 0x8004, app_vtor = 0x8000\<rparr>"

abbreviation fota_wait :: "'a bootio_scheme \<Rightarrow> nat" where "fota_wait s \<equiv> unat (boot_TMR_ulGetTimerValue (b_tmr s) TMR_FOTA_POLLING)"

text \<open>The progress of the updater: its waiting time has at most \<open>n\<close> ticks left, or it is past it.\<close>

definition waiting_or_past :: "nat \<Rightarrow> 'a boot_scheme \<Rightarrow> bool" where
  "waiting_or_past n s \<longleftrightarrow> FOTA_tTaskState s = FOTA_TASK_CHECK_UPDATE \<and> fota_wait s \<le> n \<or>
     FOTA_tTaskState s = FOTA_TASK_CHECK_FW \<or> FOTA_tTaskState s = FOTA_TASK_START_APP"

lemma quiet_ymodem:
  assumes "quiet m s"
  obtains s' where "ymodem_ota c junk s = Some s'" "quiet m s'" "fota_wait s' = fota_wait s"
    "FOTA_tTaskState s' = FOTA_tTaskState s" "fota_started s' = fota_started s"
    "can_task_state s' = can_task_state s" "b_reset s' = b_reset s"
proof -
  note q = assms [unfolded quiet_def ymodem_is_ota_data_received_def]
  consider "ymodem_ota_sem s = 0" | "ymodem_ota_sem s \<noteq> 0" "ymodem_ota_task_state s = RYM_STAGE_NONE"
    | "ymodem_ota_sem s \<noteq> 0" "ymodem_ota_task_state s = RYM_STAGE_ESTABLISHING" using q by blast
  then show ?thesis
  proof cases
    case 1
    then show ?thesis using that assms by (simp add: ymodem_ota_def)
  next
    case 2
    then show ?thesis
      using that [of "s\<lparr>ymodem_ota_task_state := RYM_STAGE_ESTABLISHING, ymodem_next_packet_index := 0\<rparr>"] q
      by (simp add: ymodem_ota_def set_stage_def quiet_def ymodem_is_ota_data_received_def)
  next
    case 3
    define t where "t = (if boot_TMR_bIsTimeExpired (b_tmr s) TMR_YMODEM_POLLING
      then rym_putchar RYM_CODE_C (clear_msg
        (s\<lparr>b_tmr := boot_TMR_vSetTime (b_tmr s) TMR_YMODEM_POLLING (TMR_TIME_MS2TICKS 40)\<rparr>)) else s)"
    have t: "msg_len t = 0" "b_mem t = m" "boot_timers_wf (b_tmr t)" "fota_wait t = fota_wait s"
      "FOTA_tTaskState t = FOTA_tTaskState s" "fota_started t = fota_started s"
      "ymodem_ota_task_state t = RYM_STAGE_ESTABLISHING" "TASK_tTaskTbl t = TASK_tTaskTbl s"
      "can_task_state t = can_task_state s" "b_reset t = b_reset s"
      using q 3 by (simp_all add: t_def rym_putchar_def clear_msg_def boot_tmr.wf_set boot_tmr.counter_set)
    have "rym_do_handshake c junk s = Some (1, t)"
      using t(1) unfolding rym_do_handshake_def Let_def t_def [symmetric] by simp
    then have "ymodem_ota c junk s = Some t" using 3 by (simp add: ymodem_ota_def stage_if_zero_def)
    then show ?thesis using that [of t] t q by (simp add: quiet_def ymodem_is_ota_data_received_def)
  qed
qed

lemma quiet_fota:
  assumes "quiet m s" "no_image m" "waiting_or_past n s" "word_at m 0x8000 AND 0xffff0000 = 0x1fff0000"
  obtains s' where "FOTA_vTaskHandler c crc32b s = Some s'" "quiet m s'" "waiting_or_past n s'"
    "FOTA_tTaskState s = FOTA_TASK_CHECK_UPDATE \<Longrightarrow> fota_wait s = 0 \<Longrightarrow> FOTA_tTaskState s' = FOTA_TASK_CHECK_FW"
    "FOTA_tTaskState s = FOTA_TASK_CHECK_FW \<Longrightarrow> FOTA_tTaskState s' = FOTA_TASK_START_APP"
    "FOTA_tTaskState s = FOTA_TASK_START_APP \<Longrightarrow> FOTA_tTaskState s' = FOTA_TASK_START_APP \<and> fota_started s' = Some (app_at m)"
proof -
  note q = assms(1) [unfolded quiet_def]
  consider (wait) "FOTA_tTaskState s = FOTA_TASK_CHECK_UPDATE" "fota_wait s \<le> n"
    | (check) "FOTA_tTaskState s = FOTA_TASK_CHECK_FW" | (start) "FOTA_tTaskState s = FOTA_TASK_START_APP"
    using assms(3) unfolding waiting_or_past_def by blast
  then show ?thesis
  proof cases
    case wait
    have e: "boot_TMR_bIsTimeExpired (b_tmr s) TMR_FOTA_POLLING \<longleftrightarrow> fota_wait s = 0"
      using q by (simp add: boot_tmr.expired_counter unat_eq_0)
    have n: "\<not> ymodem_is_ota_data_received s" using q by blast
    show ?thesis
    proof (cases "fota_wait s = 0")
      case True
      have "FOTA_vTaskHandler c crc32b s = Some (s\<lparr>FOTA_tTaskState := FOTA_TASK_CHECK_FW\<rparr>)"
        using wait(1) e True n by (simp add: FOTA_vTaskHandler_def Let_def ymodem_is_ota_data_received_def)
      then show ?thesis
        by (rule that) (use wait(1) q in \<open>simp_all add: quiet_def ymodem_is_ota_data_received_def waiting_or_past_def\<close>)
    next
      case False
      have "FOTA_vTaskHandler c crc32b s = Some s"
        using wait(1) e False n by (simp add: FOTA_vTaskHandler_def Let_def)
      then show ?thesis
        by (rule that) (use wait(1) False assms(1,3) in simp_all)
    qed
  next
    case check
    show ?thesis
      by (rule that [of "s\<lparr>fota_part_head := part_head_at (b_mem s) FLASH_DOWNLOAD_START_ADDR,
            FOTA_tTaskState := FOTA_TASK_START_APP\<rparr>"])
        (use check q assms(2) in \<open>simp_all add: FOTA_vTaskHandler_def FOTA_ucCheckFirmware_def Let_def quiet_def
          ymodem_is_ota_data_received_def waiting_or_past_def no_image_def\<close>)
  next
    case start
    show ?thesis
      by (rule that [of "s\<lparr>fota_started := Some (app_at m)\<rparr>"])
        (use start q assms(4) in \<open>simp_all add: FOTA_vTaskHandler_def FOTA_ucStartApplication_def quiet_def
          ymodem_is_ota_data_received_def waiting_or_past_def app_at_def\<close>)
  qed
qed

lemma schedule_tasks:
  assumes "table_ok (TASK_tTaskTbl s)"
  obtains tbl where "table_ok tbl" "schedule_task c crc32b junk 0 s = FOTA_vTaskHandler c crc32b (s\<lparr>TASK_tTaskTbl := tbl\<rparr>)"
proof -
  obtain a b d where "TASK_tTaskTbl s = [\<lparr>ulTimestampLast = a, ulTimePeriod = 0, pvTaskPointer = Task_FOTA_vTaskHandler\<rparr>,
     \<lparr>ulTimestampLast = b, ulTimePeriod = 0, pvTaskPointer = Task_ymodem_ota\<rparr>,
     \<lparr>ulTimestampLast = d, ulTimePeriod = 1000, pvTaskPointer = Task_TASK_vUpdateWorkingTime\<rparr>]"
    using table_ok_cases [OF assms] .
  then show ?thesis
    using that [of "(TASK_tTaskTbl s)[0 := (TASK_tTaskTbl s ! 0)\<lparr>ulTimestampLast := b_systick s\<rparr>]"]
    by (simp add: schedule_task_def Let_def table_ok_def)
qed

lemma schedule_ymodem:
  assumes "table_ok (TASK_tTaskTbl s)"
  obtains tbl where "table_ok tbl" "schedule_task c crc32b junk 1 s = ymodem_ota c junk (s\<lparr>TASK_tTaskTbl := tbl\<rparr>)"
proof -
  obtain a b d where "TASK_tTaskTbl s = [\<lparr>ulTimestampLast = a, ulTimePeriod = 0, pvTaskPointer = Task_FOTA_vTaskHandler\<rparr>,
     \<lparr>ulTimestampLast = b, ulTimePeriod = 0, pvTaskPointer = Task_ymodem_ota\<rparr>,
     \<lparr>ulTimestampLast = d, ulTimePeriod = 1000, pvTaskPointer = Task_TASK_vUpdateWorkingTime\<rparr>]"
    using table_ok_cases [OF assms] .
  then show ?thesis
    using that [of "(TASK_tTaskTbl s)[1 := (TASK_tTaskTbl s ! 1)\<lparr>ulTimestampLast := b_systick s\<rparr>]"]
    by (simp add: schedule_task_def Let_def table_ok_def)
qed

lemma schedule_work:
  assumes "table_ok (TASK_tTaskTbl s)"
  obtains tbl w where "table_ok tbl" "schedule_task c crc32b junk 2 s = Some (s\<lparr>TASK_tTaskTbl := tbl, work_systick := w\<rparr>)"
proof -
  obtain a b d where t: "TASK_tTaskTbl s = [\<lparr>ulTimestampLast = a, ulTimePeriod = 0, pvTaskPointer = Task_FOTA_vTaskHandler\<rparr>,
     \<lparr>ulTimestampLast = b, ulTimePeriod = 0, pvTaskPointer = Task_ymodem_ota\<rparr>,
     \<lparr>ulTimestampLast = d, ulTimePeriod = 1000, pvTaskPointer = Task_TASK_vUpdateWorkingTime\<rparr>]"
    using table_ok_cases [OF assms] .
  show ?thesis
  proof (cases "1000 \<le> b_systick s - d")
    case True
    then show ?thesis
      using that [of "(TASK_tTaskTbl s)[2 := (TASK_tTaskTbl s ! 2)\<lparr>ulTimestampLast := b_systick s\<rparr>]" "work_systick s + 1"] t
      by (simp add: schedule_task_def Let_def table_ok_def TASK_vUpdateWorkingTime_def)
  next
    case False
    then show ?thesis
      using that [of "TASK_tTaskTbl s" "work_systick s"] t assms by (simp add: schedule_task_def Let_def)
  qed
qed

text \<open>A pass keeps what the updater's step establishes.\<close>

lemma pass_after_fota:
  assumes "quiet m s"
    and "\<And>tbl. table_ok tbl \<Longrightarrow> \<exists>s1. FOTA_vTaskHandler c crc32b (s\<lparr>TASK_tTaskTbl := tbl\<rparr>) = Some s1 \<and> quiet m s1 \<and>
      P (fota_wait s1) (FOTA_tTaskState s1) (fota_started s1) (can_task_state s1, b_reset s1)"
  obtains s' where "main_pass c crc32b junk s = Some s'" "quiet m s'"
    "P (fota_wait s') (FOTA_tTaskState s') (fota_started s') (can_task_state s', b_reset s')"
proof -
  have tbl0: "table_ok (TASK_tTaskTbl s)" using assms(1) by (simp add: quiet_def)
  obtain t0 where t0: "table_ok t0" "schedule_task c crc32b junk 0 s = FOTA_vTaskHandler c crc32b (s\<lparr>TASK_tTaskTbl := t0\<rparr>)"
    by (rule schedule_tasks [OF tbl0])
  obtain s1 where s1: "FOTA_vTaskHandler c crc32b (s\<lparr>TASK_tTaskTbl := t0\<rparr>) = Some s1" "quiet m s1"
    "P (fota_wait s1) (FOTA_tTaskState s1) (fota_started s1) (can_task_state s1, b_reset s1)"
    using assms(2) [OF t0(1)] by blast
  have tbl1: "table_ok (TASK_tTaskTbl s1)" using s1(2) by (simp add: quiet_def)
  obtain t1 where t1: "table_ok t1" "schedule_task c crc32b junk 1 s1 = ymodem_ota c junk (s1\<lparr>TASK_tTaskTbl := t1\<rparr>)"
    by (rule schedule_ymodem [OF tbl1])
  have "quiet m (s1\<lparr>TASK_tTaskTbl := t1\<rparr>)"
    using s1(2) t1(1) by (simp add: quiet_def ymodem_is_ota_data_received_def)
  then obtain s2 where s2: "ymodem_ota c junk (s1\<lparr>TASK_tTaskTbl := t1\<rparr>) = Some s2" "quiet m s2"
    "fota_wait s2 = fota_wait s1" "FOTA_tTaskState s2 = FOTA_tTaskState s1" "fota_started s2 = fota_started s1"
    "can_task_state s2 = can_task_state s1" "b_reset s2 = b_reset s1"
    using quiet_ymodem [of m "s1\<lparr>TASK_tTaskTbl := t1\<rparr>" c junk] by auto
  have tbl2: "table_ok (TASK_tTaskTbl s2)" using s2(2) by (simp add: quiet_def)
  obtain t2 w where t2: "table_ok t2" "schedule_task c crc32b junk 2 s2 = Some (s2\<lparr>TASK_tTaskTbl := t2, work_systick := w\<rparr>)"
    by (rule schedule_work [OF tbl2])
  let ?t = "s2\<lparr>TASK_tTaskTbl := t2, work_systick := w\<rparr>"
  have run: "TASK_vScheduleTasks c crc32b junk s = Some ?t"
    using t0(2) s1(1) t1(2) s2(1) t2(2) unfolding TASK_vScheduleTasks_def by simp
  define u where "u = (if boot_TMR_bIsTimeExpired (b_tmr ?t) TMR_SW_WATCH_DOG
     then ?t\<lparr>b_tmr := boot_TMR_vSetTime (b_tmr ?t) TMR_SW_WATCH_DOG
              (if ymodem_is_ota_data_received ?t then TMR_TIME_MS2TICKS 50 else TMR_TIME_MS2TICKS 200),
            led0_toggles := led0_toggles ?t + 1\<rparr> else ?t)"
  have wf: "boot_timers_wf (b_tmr s2)" using s2(2) by (simp add: quiet_def)
  have f: "fota_wait u = fota_wait s2" "FOTA_tTaskState u = FOTA_tTaskState s2" "fota_started u = fota_started s2"
    "can_task_state u = can_task_state s2" "b_reset u = b_reset s2"
    using wf by (simp_all add: u_def boot_tmr.counter_set)
  show ?thesis
  proof (rule that)
    show "main_pass c crc32b junk s = Some u" unfolding main_pass_def run u_def by simp
    show "quiet m u"
      using s2(2) t2(1) by (simp add: u_def quiet_def ymodem_is_ota_data_received_def boot_tmr.wf_set)
    show "P (fota_wait u) (FOTA_tTaskState u) (fota_started u) (can_task_state u, b_reset u)"
      unfolding f s2(3-7) by (rule s1(3))
  qed
qed

lemma quiet_pass:
  assumes "quiet m s" "no_image m" "waiting_or_past n s" "word_at m 0x8000 AND 0xffff0000 = 0x1fff0000"
  obtains s' where "main_pass c crc32b junk s = Some s'" "quiet m s'" "waiting_or_past n s'"
    "FOTA_tTaskState s = FOTA_TASK_CHECK_UPDATE \<Longrightarrow> fota_wait s = 0 \<Longrightarrow> FOTA_tTaskState s' = FOTA_TASK_CHECK_FW"
    "FOTA_tTaskState s = FOTA_TASK_CHECK_FW \<Longrightarrow> FOTA_tTaskState s' = FOTA_TASK_START_APP"
    "FOTA_tTaskState s = FOTA_TASK_START_APP \<Longrightarrow> FOTA_tTaskState s' = FOTA_TASK_START_APP \<and> fota_started s' = Some (app_at m)"
proof -
  let ?P = "\<lambda>w g a _. (g = FOTA_TASK_CHECK_UPDATE \<and> w \<le> n \<or> g = FOTA_TASK_CHECK_FW \<or> g = FOTA_TASK_START_APP) \<and>
    (FOTA_tTaskState s = FOTA_TASK_CHECK_UPDATE \<longrightarrow> fota_wait s = 0 \<longrightarrow> g = FOTA_TASK_CHECK_FW) \<and>
    (FOTA_tTaskState s = FOTA_TASK_CHECK_FW \<longrightarrow> g = FOTA_TASK_START_APP) \<and>
    (FOTA_tTaskState s = FOTA_TASK_START_APP \<longrightarrow> g = FOTA_TASK_START_APP \<and> a = Some (app_at m))"
  have step: "\<exists>s1. FOTA_vTaskHandler c crc32b (s\<lparr>TASK_tTaskTbl := tbl\<rparr>) = Some s1 \<and> quiet m s1 \<and>
      ?P (fota_wait s1) (FOTA_tTaskState s1) (fota_started s1) (can_task_state s1, b_reset s1)" if "table_ok tbl" for tbl
  proof -
    let ?s = "s\<lparr>TASK_tTaskTbl := tbl\<rparr>"
    have "quiet m ?s" "waiting_or_past n ?s"
      using assms(1,3) that by (simp_all add: quiet_def waiting_or_past_def ymodem_is_ota_data_received_def)
    then show ?thesis
    proof (rule quiet_fota [OF _ assms(2) _ assms(4), of ?s n c crc32b], goal_cases)
      case (1 s1)
      then show ?case by (intro exI [of _ s1]) (auto simp: waiting_or_past_def)
    qed
  qed
  show ?thesis
  proof (rule pass_after_fota [of m s c crc32b ?P junk, OF assms(1) step], assumption, goal_cases)
    case (1 s')
    then show ?case by (intro that [of s']) (simp_all add: waiting_or_past_def)
  qed
qed

lemma init_pass:
  assumes "FOTA_tTaskState s = FOTA_TASK_INIT" "quiet m s"
  obtains s' where "main_pass c crc32b junk s = Some s'" "quiet m s'" "waiting_or_past 2000 s'"
proof -
  have step: "\<exists>s1. FOTA_vTaskHandler c crc32b (s\<lparr>TASK_tTaskTbl := tbl\<rparr>) = Some s1 \<and> quiet m s1 \<and>
      (FOTA_tTaskState s1 = FOTA_TASK_CHECK_UPDATE \<and> fota_wait s1 \<le> 2000)" if "table_ok tbl" for tbl
    using assms that
    by (simp add: FOTA_vTaskHandler_def Let_def ymodem_start_ota_def quiet_def ymodem_is_ota_data_received_def
        boot_tmr.wf_set boot_tmr.counter_set TMR_TIME_MS2TICKS_def)
  show ?thesis
    using pass_after_fota [of m s c crc32b "\<lambda>w g a _. g = FOTA_TASK_CHECK_UPDATE \<and> w \<le> 2000" junk, OF assms(2) step] that
    unfolding waiting_or_past_def by blast
qed

lemma quiet_event:
  assumes "quiet m s" "no_image m" "waiting_or_past n s" "word_at m 0x8000 AND 0xffff0000 = 0x1fff0000"
  obtains s' where "boot_handle c crc32b e s = Some s'" "quiet m s'"
    "waiting_or_past (if e = EvTick then n - 1 else n) s'"
proof (cases e)
  case EvTick
  have wf: "boot_timers_wf (b_tmr s)" using assms(1) by (simp add: quiet_def)
  have "fota_wait (timer4_tick s) = fota_wait s - 1"
    using boot_tmr.unat_counter_ticks [OF wf, of 1] by (simp add: timer4_tick_def)
  moreover have "quiet m (timer4_tick s)"
    using assms(1) wf by (simp add: quiet_def timer4_tick_def ymodem_is_ota_data_received_def boot_tmr.wf_tick)
  moreover have "FOTA_tTaskState (timer4_tick s) = FOTA_tTaskState s" by (simp add: timer4_tick_def)
  ultimately show ?thesis using that [of "timer4_tick s"] assms(3) EvTick by (auto simp: waiting_or_past_def)
next
  case EvMillisecond
  then show ?thesis using that [of "SysTick_IrqHandler s"] assms(1,3)
    by (simp add: SysTick_IrqHandler_def quiet_def ymodem_is_ota_data_received_def waiting_or_past_def)
next
  case (EvPass junk)
  show ?thesis
  proof (rule quiet_pass [OF assms, of c crc32b junk], goal_cases)
    case (1 s')
    then show ?case using that [of s'] EvPass by simp
  qed
qed

lemma quiet_run:
  assumes "no_image m" "word_at m 0x8000 AND 0xffff0000 = 0x1fff0000"
  shows "quiet m s \<Longrightarrow> waiting_or_past n s \<Longrightarrow>
    \<exists>s'. boot_run c crc32b es s = Some s' \<and> quiet m s' \<and> waiting_or_past (n - count_list es EvTick) s'"
proof (induction es arbitrary: s n)
  case (Cons e es)
  obtain s1 where s1: "boot_handle c crc32b e s = Some s1" "quiet m s1"
    "waiting_or_past (if e = EvTick then n - 1 else n) s1"
    using quiet_event [OF Cons.prems(1) assms(1) Cons.prems(2) assms(2)] .
  from Cons.IH [OF s1(2,3)] s1(1) show ?case by (auto split: if_splits)
qed simp

text \<open>
  C13. Without a sender the bootloader starts the installed application: after its first pass, once 200
  milliseconds (2000 ticks of the timer) have gone by, three passes lead to the jump, with the stack
  pointer and the entry point of the application's vector table, and the flash is not touched. Passes,
  timer ticks and millisecond ticks may come in any order before.
\<close>

theorem boot_starts_application:
  assumes "FOTA_tTaskState s = FOTA_TASK_INIT" "quiet m s" "no_image m"
    and "word_at m 0x8000 AND 0xffff0000 = 0x1fff0000" "2000 \<le> count_list es EvTick"
  shows "\<exists>s'. boot_run c crc32b ([EvPass j] @ es @ [EvPass j, EvPass j, EvPass j]) s = Some s' \<and>
    fota_started s' = Some (app_at m) \<and> b_mem s' = m"
proof -
  obtain s0 where s0: "main_pass c crc32b j s = Some s0" "quiet m s0" "waiting_or_past 2000 s0"
    using init_pass [OF assms(1,2)] .
  obtain s1 where s1: "boot_run c crc32b es s0 = Some s1" "quiet m s1" "waiting_or_past 0 s1"
    using quiet_run [OF assms(3,4) s0(2,3), of c crc32b es] assms(5) by auto
  obtain s2 where s2: "main_pass c crc32b j s1 = Some s2" "quiet m s2" "waiting_or_past 0 s2"
    "FOTA_tTaskState s2 \<noteq> FOTA_TASK_CHECK_UPDATE"
  proof (rule quiet_pass [OF s1(2) assms(3) s1(3) assms(4), of c crc32b j], goal_cases)
    case (1 s2)
    then show ?case using that [of s2] s1(3) unfolding waiting_or_past_def by auto
  qed
  obtain s3 where s3: "main_pass c crc32b j s2 = Some s3" "quiet m s3" "waiting_or_past 0 s3"
    "FOTA_tTaskState s3 = FOTA_TASK_START_APP"
  proof (rule quiet_pass [OF s2(2) assms(3) s2(3) assms(4), of c crc32b j], goal_cases)
    case (1 s3)
    then show ?case using that [of s3] s2(3,4) unfolding waiting_or_past_def by auto
  qed
  obtain s4 where s4: "main_pass c crc32b j s3 = Some s4" "quiet m s4" "fota_started s4 = Some (app_at m)"
  proof (rule quiet_pass [OF s3(2) assms(3) s3(3) assms(4), of c crc32b j], goal_cases)
    case (1 s4)
    then show ?case using that [of s4] s3(4) by blast
  qed
  have "boot_run c crc32b ([EvPass j] @ es @ [EvPass j, EvPass j, EvPass j]) s = Some s4"
    using s0(1) s1(1) s2(1) s3(1) s4(1) by (simp add: boot_run_append)
  then show ?thesis using s4(2,3) by (auto simp: quiet_def)
qed

lemma boot_init:
  "FOTA_tTaskState (boot_init m) = FOTA_TASK_INIT" "quiet m (boot_init m)" "fota_started (boot_init m) = None"
  "can_task_state (boot_init m) = IAP_STAGE_NONE" "\<not> b_reset (boot_init m)"
  by (simp_all add: boot_init_def fota_init_def canstack_init_def ymodem_init_def ymodem.defs canstack.defs
      fota.defs boot.defs quiet_def efm_reset_def ymodem_is_ota_data_received_def boot_timers_wf_def
      boot_TMR_NUM_def table_ok_def task_table_init_def TASK_MS2TICK_def)

text \<open>A flash with an application whose stack lies at 0x1FFFFFFF and nothing in the download area.\<close>

definition app_flash :: memory where
  "app_flash x = (if 0x8002 \<le> x \<and> x < 0x8004 then (if x = 0x8002 then 0xFF else 0x1F) else 255)"

lemma app_flash:
  "no_image app_flash" "word_at app_flash 0x8000 AND 0xffff0000 = 0x1fff0000"
proof -
  have w: "mread app_flash 0x22000 4 = [255, 255, 255, 255]" "mread app_flash 0x8000 4 = [255, 255, 255, 0x1F]"
    by (simp_all add: app_flash_def mread_def upt_conv_Cons)
  have len: "length [0x52, 0x42, 0x4C :: u8] + 1 = 4" by simp
  show "no_image app_flash"
    unfolding no_image_def str_is_def len using w(1) by (simp add: word_at_def of_le32_def)
  show "word_at app_flash 0x8000 AND 0xffff0000 = 0x1fff0000"
    using w(2) by (simp add: word_at_def of_le32_def)
qed

lemma count_ticks: "count_list (replicate n EvTick) EvTick = n"
  by (induction n) simp_all

text \<open>
  Forwarding, with no message from the serial line: one pass, whatever the timers do, leaves everything
  that matters as it is.
\<close>

definition forwarding :: "memory \<Rightarrow> 'a boot_scheme \<Rightarrow> bool" where
  "forwarding m s \<longleftrightarrow> quiet m s \<and> FOTA_tTaskState s = FOTA_TASK_FW_FORWARD \<and>
     can_task_state s \<noteq> IAP_SERVER_STAGE_FINISHED \<and> fota_started s = None \<and> \<not> b_reset s"

lemma forwarding_fota:
  "forwarding m s \<Longrightarrow> FOTA_vTaskHandler c crc32b s = Some (s\<lparr>can_iap_sem := CAN_IAP_SERVER_MODE\<rparr>)"
  by (auto simp add: forwarding_def FOTA_vTaskHandler_def FOTA_ucFirmwareForward_def can_start_iap_def can_iap_get_task_state_def Let_def)

lemma forwarding_pass:
  assumes "forwarding m s"
  obtains s' where "main_pass c crc32b junk s = Some s'" "forwarding m s'"
proof -
  let ?P = "\<lambda>_ g a x. g = FOTA_TASK_FW_FORWARD \<and> a = None \<and> fst x \<noteq> IAP_SERVER_STAGE_FINISHED \<and> \<not> snd x"
  have "\<exists>s1. FOTA_vTaskHandler c crc32b (s\<lparr>TASK_tTaskTbl := tbl\<rparr>) = Some s1 \<and> quiet m s1 \<and>
      ?P (fota_wait s1) (FOTA_tTaskState s1) (fota_started s1) (can_task_state s1, b_reset s1)" if "table_ok tbl" for tbl
  proof -
    have "forwarding m (s\<lparr>TASK_tTaskTbl := tbl\<rparr>)"
      using assms that by (simp add: forwarding_def quiet_def ymodem_is_ota_data_received_def)
    from forwarding_fota [OF this, of c crc32b] this show ?thesis
      by (simp add: forwarding_def quiet_def ymodem_is_ota_data_received_def)
  qed
  moreover have "quiet m s" using assms by (simp add: forwarding_def)
  ultimately show ?thesis
    using that pass_after_fota [of m s c crc32b ?P junk] unfolding forwarding_def by (metis fst_conv snd_conv)
qed

lemma forwarding_run: "forwarding m s \<Longrightarrow> \<exists>s'. boot_run c crc32b es s = Some s' \<and> forwarding m s'"
proof (induction es arbitrary: s)
  case (Cons e es)
  have "\<exists>s1. boot_handle c crc32b e s = Some s1 \<and> forwarding m s1"
  proof (cases e)
    case (EvPass junk)
    then show ?thesis using forwarding_pass [OF Cons.prems, of c crc32b junk] by auto
  qed (use Cons.prems in \<open>simp_all add: forwarding_def quiet_def timer4_tick_def SysTick_IrqHandler_def
      ymodem_is_ota_data_received_def boot_tmr.wf_tick\<close>)
  then show ?case using Cons.IH by auto
qed simp

text \<open>
  C39. Forwarding never finishes by itself in this configuration: once the updater has chosen to forward an
  image it waits for the CAN server to finish, but no task runs that server. With no reception under way and
  no message on the serial line every run of passes, timer ticks and milliseconds, however long, returns,
  stays in forwarding, does not start the application of this board and leaves the flash as it is. With
  messages the only way out is the reset that the Y-modem receiver requests in its last stage: every run
  stays in forwarding, without a start of the application, until a pass with the receiver in that stage
  resets the board, which then begins again as after power-up.
\<close>

theorem forward_never_finishes:
  assumes "FOTA_tTaskState s = FOTA_TASK_FW_FORWARD" "can_task_state s \<noteq> IAP_SERVER_STAGE_FINISHED"
    and "fota_started s = None" "\<not> b_reset s"
  shows "(\<forall>m es. quiet m s \<longrightarrow> (\<exists>s'. boot_run c crc32b es s = Some s' \<and> FOTA_tTaskState s' = FOTA_TASK_FW_FORWARD \<and>
      fota_started s' = None \<and> b_mem s' = m \<and> \<not> b_reset s')) \<and>
    (\<forall>s'. boot_reach c crc32b s s' \<longrightarrow> FOTA_tTaskState s' = FOTA_TASK_FW_FORWARD \<and> fota_started s' = None \<or>
      (\<exists>r j r'. boot_reach c crc32b s r \<and> main_pass c crc32b j r = Some r' \<and> b_reset r' \<and>
        ymodem_ota_task_state r' = RYM_STAGE_RESET \<and> FOTA_tTaskState r' = FOTA_TASK_FW_FORWARD \<and> fota_started r' = None \<and>
        boot_reach c crc32b (boot_init (b_mem r')) s'))"
proof (intro conjI allI impI)
  fix m es assume "quiet m s"
  then have "forwarding m s" using assms by (simp add: forwarding_def)
  from forwarding_run [OF this, of c crc32b es] show "\<exists>s'. boot_run c crc32b es s = Some s' \<and>
      FOTA_tTaskState s' = FOTA_TASK_FW_FORWARD \<and> fota_started s' = None \<and> b_mem s' = m \<and> \<not> b_reset s'"
    by (auto simp: forwarding_def quiet_def)
next
  fix s' assume r: "boot_reach c crc32b s s'"
  let ?Q = "\<lambda>s. FOTA_tTaskState s = FOTA_TASK_FW_FORWARD \<and> can_task_state s \<noteq> IAP_SERVER_STAGE_FINISHED \<and>
    fota_started s = None \<and> reset_at_end s"
  have "?Q s \<and> \<not> b_reset s" using assms by (simp add: reset_at_end_def)
  note l = left_by_reset [of ?Q c crc32b, OF _ _ _ _ _ _ r this]
  have "?Q s' \<and> \<not> b_reset s' \<or>
    (\<exists>r j r'. boot_reach c crc32b s r \<and> main_pass c crc32b j r = Some r' \<and> ?Q r' \<and> b_reset r' \<and>
      boot_reach c crc32b (boot_init (b_mem r')) s')"
  proof (rule l, goal_cases)
    case (1 t s s' junk)
    then show ?case
    proof (cases t)
      case Task_ymodem_ota
      then show ?thesis using 1 ymodem_ota_same [of c junk s s'] ymodem_ota_reset [of c junk s s'] by (simp add: same_boot_def)
    qed (auto simp: FOTA_vTaskHandler_def FOTA_ucFirmwareForward_def can_start_iap_def can_iap_get_task_state_def
        TASK_vUpdateWorkingTime_def reset_at_end_def Let_def)
  qed (simp_all add: reset_at_end_def)
  then show "FOTA_tTaskState s' = FOTA_TASK_FW_FORWARD \<and> fota_started s' = None \<or>
      (\<exists>r j r'. boot_reach c crc32b s r \<and> main_pass c crc32b j r = Some r' \<and> b_reset r' \<and>
        ymodem_ota_task_state r' = RYM_STAGE_RESET \<and> FOTA_tTaskState r' = FOTA_TASK_FW_FORWARD \<and> fota_started r' = None \<and>
        boot_reach c crc32b (boot_init (b_mem r')) s')"
    unfolding reset_at_end_def by blast
qed

theorem boot_starts_application_witness:
  "\<exists>s'. boot_run nor_chip xor_unit ([EvPass 0] @ replicate 2000 EvTick @ [EvPass 0, EvPass 0, EvPass 0])
     (boot_init app_flash) = Some s' \<and> fota_started s' = Some (app_at app_flash)"
  using boot_starts_application [OF boot_init(1,2) app_flash, of "replicate 2000 EvTick" nor_chip xor_unit 0]
  by (auto simp: count_ticks)

theorem forward_never_finishes_witness:
  "\<exists>s'. boot_run nor_chip xor_unit (concat (replicate 1000 [EvTick, EvMillisecond, EvPass 0]))
     ((boot_init app_flash)\<lparr>FOTA_tTaskState := FOTA_TASK_FW_FORWARD\<rparr>) = Some s' \<and>
     FOTA_tTaskState s' = FOTA_TASK_FW_FORWARD \<and> fota_started s' = None"
proof -
  let ?s = "(boot_init app_flash)\<lparr>FOTA_tTaskState := FOTA_TASK_FW_FORWARD\<rparr>"
  have "FOTA_tTaskState ?s = FOTA_TASK_FW_FORWARD" "can_task_state ?s \<noteq> IAP_SERVER_STAGE_FINISHED"
    "fota_started ?s = None" "\<not> b_reset ?s" "quiet app_flash ?s"
    using boot_init [of app_flash] by (simp_all add: quiet_def ymodem_is_ota_data_received_def)
  from conjunct1 [OF forward_never_finishes [OF this(1-4), of nor_chip xor_unit]] this(5) show ?thesis by blast
qed

end
