(* ===== verification/KList.thy ===== *)
theory KList
  imports Prelude
begin

text \<open>
  The intrusive doubly linked rings of the RT-Thread kernel (\<open>include/rtservice.h\<close>). A node is
  an address; the heap \<open>rt_list_heap\<close> holds the two pointers of every node. The operations are
  the sequences of pointer assignments of the C code. \<open>ring h l xs\<close> says that following
  \<open>next\<close> from the head \<open>l\<close> visits the nodes \<open>xs\<close> and comes back, \<open>prev\<close> being the inverse.

  The kernel theories do not carry pointers: they keep, for every list head of the kernel, the
  list of the nodes queued there, and change it with \<open>lists_remove\<close>, \<open>lists_append\<close>,
  \<open>lists_push\<close> and \<open>lists_before\<close>. The relation \<open>represents\<close> connects the two, and the
  refinement lemmas show that each pointer operation implements its abstract counterpart: a node
  is taken out of whatever list it is queued in, without naming that list.
\<close>

section \<open>Pointer operations\<close>

record rt_list_heap =
  nxt :: "nat \<Rightarrow> nat"
  prv :: "nat \<Rightarrow> nat"

definition set_nxt :: "nat \<Rightarrow> nat \<Rightarrow> rt_list_heap \<Rightarrow> rt_list_heap" where
  "set_nxt a b h = h\<lparr>nxt := (nxt h)(a := b)\<rparr>"

definition set_prv :: "nat \<Rightarrow> nat \<Rightarrow> rt_list_heap \<Rightarrow> rt_list_heap" where
  "set_prv a b h = h\<lparr>prv := (prv h)(a := b)\<rparr>"

definition rt_list_init :: "nat \<Rightarrow> rt_list_heap \<Rightarrow> rt_list_heap" where
  "rt_list_init l h = set_nxt l l (set_prv l l h)"

definition rt_list_insert_after :: "nat \<Rightarrow> nat \<Rightarrow> rt_list_heap \<Rightarrow> rt_list_heap" where
  "rt_list_insert_after l n h =
     (let h = set_prv (nxt h l) n h;
          h = set_nxt n (nxt h l) h;
          h = set_nxt l n h
      in set_prv n l h)"

definition rt_list_insert_before :: "nat \<Rightarrow> nat \<Rightarrow> rt_list_heap \<Rightarrow> rt_list_heap" where
  "rt_list_insert_before l n h =
     (let h = set_nxt (prv h l) n h;
          h = set_prv n (prv h l) h;
          h = set_prv l n h
      in set_nxt n l h)"

definition rt_list_remove :: "nat \<Rightarrow> rt_list_heap \<Rightarrow> rt_list_heap" where
  "rt_list_remove n h =
     (let h = set_prv (nxt h n) (prv h n) h;
          h = set_nxt (prv h n) (nxt h n) h
      in set_nxt n n (set_prv n n h))"

definition rt_list_isempty :: "nat \<Rightarrow> rt_list_heap \<Rightarrow> bool" where
  "rt_list_isempty l h \<longleftrightarrow> nxt h l = l"

text \<open>The loop of \<open>rt_list_len\<close> from the node \<open>p\<close>; it ends when it comes back to the head.\<close>

partial_function (option) rt_list_len_from :: "nat \<Rightarrow> nat \<Rightarrow> u32 \<Rightarrow> rt_list_heap \<Rightarrow> u32 option" where
  "rt_list_len_from l p len h =
     (if nxt h p \<noteq> l then rt_list_len_from l (nxt h p) (len + 1) h else Some len)"

definition rt_list_len :: "nat \<Rightarrow> rt_list_heap \<Rightarrow> u32 option" where
  "rt_list_len l h = rt_list_len_from l l 0 h"

lemmas list_ops = set_nxt_def set_prv_def rt_list_init_def rt_list_insert_after_def
  rt_list_insert_before_def rt_list_remove_def Let_def

section \<open>Rings\<close>

text \<open>\<open>linked h a xs b\<close>: a chain of forward and backward pointers from \<open>a\<close> over \<open>xs\<close> to \<open>b\<close>.\<close>

primrec linked :: "rt_list_heap \<Rightarrow> nat \<Rightarrow> nat list \<Rightarrow> nat \<Rightarrow> bool" where
  "linked h a [] b \<longleftrightarrow> nxt h a = b \<and> prv h b = a"
| "linked h a (x # xs) b \<longleftrightarrow> nxt h a = x \<and> prv h x = a \<and> linked h x xs b"

definition ring :: "rt_list_heap \<Rightarrow> nat \<Rightarrow> nat list \<Rightarrow> bool" where
  "ring h l xs \<longleftrightarrow> distinct (l # xs) \<and> linked h l xs l"

lemma linked_append [simp]:
  "linked h a (xs @ y # ys) b \<longleftrightarrow> linked h a xs y \<and> linked h y ys b"
  by (induction xs arbitrary: a) auto

lemma linked_cong:
  assumes "linked h a xs b"
    and "\<And>x. x \<in> insert a (set xs) \<Longrightarrow> nxt h' x = nxt h x"
    and "\<And>x. x \<in> insert b (set xs) \<Longrightarrow> prv h' x = prv h x"
  shows "linked h' a xs b"
  using assms by (induction xs arbitrary: a) auto

lemma ring_cong:
  assumes "ring h l xs"
    and "\<And>x. x \<in> insert l (set xs) \<Longrightarrow> nxt h' x = nxt h x \<and> prv h' x = prv h x"
  shows "ring h' l xs"
  using assms linked_cong [of h l xs l h'] by (auto simp: ring_def)

lemma ring_init: "ring (rt_list_init l h) l []"
  by (simp add: ring_def list_ops)

lemma ring_isempty: "ring h l xs \<Longrightarrow> rt_list_isempty l h \<longleftrightarrow> xs = []"
  by (cases xs) (auto simp: ring_def rt_list_isempty_def)

lemma ring_first: "ring h l (x # xs) \<Longrightarrow> nxt h l = x"
  by (simp add: ring_def)

text \<open>The two pointer maps after each operation.\<close>

lemma nxt_insert_after: "nxt (rt_list_insert_after a n h) = (nxt h)(n := nxt h a, a := n)"
  and prv_insert_after: "prv (rt_list_insert_after a n h) = (prv h)(nxt h a := n, n := a)"
  by (simp_all add: list_ops)

lemma insert_before_after:
  assumes "nxt h (prv h l) = l" and "n \<noteq> l" and "n \<noteq> prv h l"
  shows "rt_list_insert_before l n h = rt_list_insert_after (prv h l) n h"
  using assms by (simp add: list_ops fun_upd_twist)

lemma nxt_remove: "nxt (rt_list_remove n h) = (nxt h)((prv (set_prv (nxt h n) (prv h n) h) n) := nxt h n, n := n)"
  and prv_remove: "prv (rt_list_remove n h) = (prv h)(nxt h n := prv h n, n := n)"
  by (simp_all add: list_ops)

text \<open>
  A node is inserted between two linked neighbours; the assignments touch only the neighbours
  and the new node, so the chains on both sides are kept.
\<close>

lemma linked_nxt: "linked h a (us @ p # vs) b \<Longrightarrow> nxt h p = hd (vs @ [b])"
  by (cases vs) auto

lemma linked_push:
  assumes "linked h a xs b" and "distinct (a # xs)" and "b \<notin> set xs" and "n \<notin> insert a (insert b (set xs))"
  shows "linked (rt_list_insert_after a n h) a (n # xs) b"
proof (cases xs)
  case Nil
  with assms show ?thesis by (auto simp: nxt_insert_after prv_insert_after)
next
  case (Cons x ys)
  with assms have x: "nxt h a = x" and l: "linked h x ys b" by auto
  have "linked (rt_list_insert_after a n h) x ys b"
    by (rule linked_cong [OF l]) (use assms Cons x in \<open>auto simp: nxt_insert_after prv_insert_after\<close>)
  with assms Cons x show ?thesis by (auto simp: nxt_insert_after prv_insert_after)
qed

lemma linked_insert_after:
  assumes "linked h a (us @ p # vs) b" and "distinct (a # us @ p # vs)" and "b \<notin> set (us @ p # vs)"
    and "n \<notin> insert a (insert b (set (us @ p # vs)))"
  shows "linked (rt_list_insert_after p n h) a (us @ p # n # vs) b"
proof -
  have nx: "nxt h p = hd (vs @ [b])" using linked_nxt [OF assms(1)] .
  have "linked (rt_list_insert_after p n h) p (n # vs) b"
    by (rule linked_push) (use assms in auto)
  moreover have "linked (rt_list_insert_after p n h) a us p"
  proof (rule linked_cong)
    show "linked h a us p" using assms by simp
    show "nxt (rt_list_insert_after p n h) x = nxt h x" if "x \<in> insert a (set us)" for x
      using that assms by (auto simp: nxt_insert_after)
    have "hd (vs @ [b]) \<notin> insert p (set us)"
      using assms by (cases vs) auto
    then show "prv (rt_list_insert_after p n h) x = prv h x" if "x \<in> insert p (set us)" for x
      using that assms nx by (auto simp: prv_insert_after)
  qed
  ultimately show ?thesis by simp
qed

lemma linked_prv: "linked h a (us @ p # vs) b \<Longrightarrow> prv h p = last (a # us)"
  by (cases us rule: rev_cases) auto

lemma linked_retarget:
  assumes "linked h a us n" and "nxt h' (last (a # us)) = q" and "prv h' q = last (a # us)"
    and "\<And>x. x \<in> set (butlast (a # us)) \<Longrightarrow> nxt h' x = nxt h x"
    and "\<And>x. x \<in> set us \<Longrightarrow> prv h' x = prv h x"
  shows "linked h' a us q"
  using assms by (induction us arbitrary: a) auto

lemma linked_remove:
  assumes l: "linked h a (us @ n # vs) b" and d: "distinct (a # us @ n # vs)" "b \<notin> set (us @ n # vs)"
  shows "linked (rt_list_remove n h) a (us @ vs) b"
proof -
  let ?h = "rt_list_remove n h"
  let ?p = "last (a # us)" and ?q = "hd (vs @ [b])"
  have p: "prv h n = ?p" and q: "nxt h n = ?q" using linked_prv [OF l] linked_nxt [OF l] .
  have nq: "n \<noteq> ?q" and nb: "n \<noteq> b" using d by (cases vs; auto)+
  have np: "n \<noteq> ?p" using d by (cases us rule: rev_cases) auto
  have nx: "nxt ?h = (nxt h)(?p := ?q, n := n)" and pv: "prv ?h = (prv h)(?q := ?p, n := n)"
    using nq unfolding nxt_remove prv_remove p q by (auto simp: set_prv_def p)
  have left: "linked ?h a us ?q"
  proof (rule linked_retarget)
    show "linked h a us n" using l by simp
    show "nxt ?h ?p = ?q" using np unfolding nx by auto
    show "prv ?h ?q = ?p" using nq unfolding pv by auto
    have "?p \<notin> set (butlast (a # us))" using d by (cases us rule: rev_cases) auto
    moreover have "n \<notin> set (butlast (a # us))" using d by (auto dest: in_set_butlastD)
    ultimately show "nxt ?h x = nxt h x" if "x \<in> set (butlast (a # us))" for x
      using that unfolding nx by auto
    have "?q \<notin> set us" using d by (cases vs) auto
    then show "prv ?h x = prv h x" if "x \<in> set us" for x
      using that d unfolding pv by auto
  qed
  show ?thesis
  proof (cases vs)
    case Nil
    with left show ?thesis by simp
  next
    case (Cons c ws)
    have "linked h c ws b" using l Cons by simp
    then have "linked ?h c ws b"
    proof (rule linked_cong)
      have "?p \<notin> insert c (set ws)" using d Cons by (cases us rule: rev_cases) auto
      then show "nxt ?h x = nxt h x" if "x \<in> insert c (set ws)" for x
        using that d Cons unfolding nx by auto
      show "prv ?h x = prv h x" if "x \<in> insert b (set ws)" for x
        using that d Cons nb unfolding pv by auto
    qed
    with left Cons show ?thesis by simp
  qed
qed

section \<open>The lists of the kernel\<close>

text \<open>
  \<open>represents addr N h L\<close>: the head of list \<open>k\<close> is the address \<open>addr k\<close>, the nodes \<open>N\<close> are queued
  as \<open>L\<close> says, and a node of \<open>N\<close> that is in no list points to itself.
\<close>

definition represents :: "('k \<Rightarrow> nat) \<Rightarrow> nat set \<Rightarrow> rt_list_heap \<Rightarrow> ('k \<Rightarrow> nat list) \<Rightarrow> bool" where
  "represents addr N h L \<longleftrightarrow>
     inj addr \<and> (\<forall>k. addr k \<notin> N \<and> set (L k) \<subseteq> N \<and> ring h (addr k) (L k)) \<and>
     (\<forall>x j k. x \<in> set (L j) \<longrightarrow> x \<in> set (L k) \<longrightarrow> j = k) \<and>
     (\<forall>n\<in>N. (\<forall>k. n \<notin> set (L k)) \<longrightarrow> nxt h n = n \<and> prv h n = n)"

definition lists_remove :: "'n \<Rightarrow> ('k \<Rightarrow> 'n list) \<Rightarrow> 'k \<Rightarrow> 'n list" where
  "lists_remove n L = (\<lambda>k. removeAll n (L k))"

definition lists_append :: "'k \<Rightarrow> 'n \<Rightarrow> ('k \<Rightarrow> 'n list) \<Rightarrow> 'k \<Rightarrow> 'n list" where
  "lists_append k n L = L(k := L k @ [n])"

definition lists_push :: "'k \<Rightarrow> 'n \<Rightarrow> ('k \<Rightarrow> 'n list) \<Rightarrow> 'k \<Rightarrow> 'n list" where
  "lists_push k n L = L(k := n # L k)"
lemma represents_ring: "represents addr N h L \<Longrightarrow> ring h (addr k) (L k)"
  by (simp add: represents_def)

lemma represents_free:
  "represents addr N h L \<Longrightarrow> n \<in> N \<Longrightarrow> (\<And>k. n \<notin> set (L k)) \<Longrightarrow> nxt h n = n \<and> prv h n = n"
  by (simp add: represents_def)

lemma represents_update:
  assumes r: "represents addr N h L" and ring: "ring h' (addr k) ys"
    and ys: "set ys \<subseteq> N" "\<And>j x. x \<in> set ys \<Longrightarrow> x \<in> set (L j) \<Longrightarrow> j = k"
    and frame: "\<And>x. x \<notin> insert (addr k) (set ys \<union> set (L k)) \<Longrightarrow> nxt h' x = nxt h x \<and> prv h' x = prv h x"
    and loose: "\<And>x. x \<in> set (L k) - set ys \<Longrightarrow> nxt h' x = x \<and> prv h' x = x"
  shows "represents addr N h' (L(k := ys))"
proof -
  have inj: "inj addr" using r by (simp add: represents_def)
  have other: "ring h' (addr j) (L j)" if "j \<noteq> k" for j
  proof (rule ring_cong)
    show "ring h (addr j) (L j)" using r by (simp add: represents_def)
    fix x assume x: "x \<in> insert (addr j) (set (L j))"
    have "addr j \<noteq> addr k" using inj that by (auto dest: injD)
    moreover have "addr j \<notin> N" "set (L j) \<subseteq> N" "set (L k) \<subseteq> N" "addr k \<notin> N"
      using r by (auto simp: represents_def)
    moreover have "x \<in> set (L j) \<Longrightarrow> x \<notin> set (L k)" using r that by (auto simp: represents_def)
    ultimately have "x \<notin> insert (addr k) (set ys \<union> set (L k))" using x ys(1) ys(2) that by auto
    then show "nxt h' x = nxt h x \<and> prv h' x = prv h x" by (rule frame)
  qed
  have free: "nxt h' n = n \<and> prv h' n = n" if "n \<in> N" "\<forall>j. n \<notin> set ((L(k := ys)) j)" for n
  proof (cases "n \<in> set (L k)")
    case True
    moreover have "n \<notin> set ys" using that(2) by (auto split: if_splits dest: spec [of _ k])
    ultimately show ?thesis using loose [of n] by simp
  next
    case False
    with that have "n \<notin> set (L j)" for j by (cases "j = k") (auto split: if_splits dest: spec [of _ j])
    moreover have "addr k \<notin> N" using r by (simp add: represents_def)
    moreover have "n \<notin> set ys" using that(2) by (auto split: if_splits dest: spec [of _ k])
    ultimately show ?thesis using that(1) False frame [of n] represents_free [OF r] by auto
  qed
  have uniq: "i = j" if "x \<in> set ((L(k := ys)) i)" "x \<in> set ((L(k := ys)) j)" for x i j
    using that ys(2) [of x] r unfolding represents_def by (metis fun_upd_def)
  have nodes: "addr j \<notin> N" "set ((L(k := ys)) j) \<subseteq> N" for j
    using r ys(1) by (auto simp: represents_def)
  have rings: "ring h' (addr j) ((L(k := ys)) j)" for j
    using other [of j] ring by (cases "j = k") simp_all
  show ?thesis
    unfolding represents_def using inj nodes rings uniq free by blast
qed

lemma represents_insert:
  assumes r: "represents addr N h L" and n: "n \<in> N" "\<And>j. n \<notin> set (L j)"
    and p: "p = addr k \<and> ys = n # L k \<or> L k = us @ p # vs \<and> ys = us @ p # n # vs"
  shows "represents addr N (rt_list_insert_after p n h) (L(k := ys))"
proof (rule represents_update [OF r])
  have k: "addr k \<notin> N" "set (L k) \<subseteq> N" "ring h (addr k) (L k)" using r by (auto simp: represents_def)
  have nk: "n \<notin> insert (addr k) (set (L k))" using n k by auto
  show "ring (rt_list_insert_after p n h) (addr k) ys"
    using p
  proof (elim disjE conjE)
    assume "p = addr k" "ys = n # L k"
    then show ?thesis using k nk linked_push [of h "addr k" "L k" "addr k" n] by (auto simp: ring_def)
  next
    assume "L k = us @ p # vs" "ys = us @ p # n # vs"
    then show ?thesis using k nk linked_insert_after [of h "addr k" us p vs "addr k" n] by (auto simp: ring_def)
  qed
  have pk: "p \<in> insert (addr k) (set (L k))" using p by auto
  have nx: "nxt h p \<in> insert (addr k) (set (L k))"
    using p
  proof (elim disjE conjE)
    assume "p = addr k"
    then show ?thesis using k(3) by (cases "L k") (auto simp: ring_def)
  next
    assume L: "L k = us @ p # vs"
    then have "nxt h p = hd (vs @ [addr k])" using k(3) by (intro linked_nxt) (auto simp: ring_def)
    then show ?thesis using L by (cases vs) auto
  qed
  show "nxt (rt_list_insert_after p n h) x = nxt h x \<and> prv (rt_list_insert_after p n h) x = prv h x"
    if "x \<notin> insert (addr k) (set ys \<union> set (L k))" for x
  proof -
    have "x \<noteq> n" "x \<notin> insert (addr k) (set (L k))" using that p by auto
    then show ?thesis using nx pk by (auto simp: nxt_insert_after prv_insert_after)
  qed
  show "set ys \<subseteq> N" using p k n by auto
  show "j = k" if "x \<in> set ys" "x \<in> set (L j)" for j x
  proof -
    have "x \<in> set (L k)" using p n(2) [of j] that by auto
    then show ?thesis using r that(2) by (auto simp: represents_def)
  qed
  show "nxt (rt_list_insert_after p n h) x = x \<and> prv (rt_list_insert_after p n h) x = x"
    if "x \<in> set (L k) - set ys" for x using that p by auto
qed

text \<open>The pointer operations implement the abstract ones.\<close>

lemma lists_remove_update:
  assumes "represents addr N h L" and "n \<in> set (L k)"
  shows "lists_remove n L = L(k := removeAll n (L k))"
proof (rule ext)
  fix j
  have "j \<noteq> k \<Longrightarrow> n \<notin> set (L j)" using assms by (auto simp: represents_def)
  then show "lists_remove n L j = (L(k := removeAll n (L k))) j"
    by (auto simp: lists_remove_def)
qed

theorem remove_refines:
  assumes r: "represents addr N h L" and n: "n \<in> N"
  shows "represents addr N (rt_list_remove n h) (lists_remove n L)"
proof (cases "\<exists>k. n \<in> set (L k)")
  case False
  then have "nxt h n = n" "prv h n = n" using represents_free [OF r n] by auto
  then have "rt_list_remove n h = h" by (cases h) (simp add: list_ops fun_upd_idem)
  moreover have "lists_remove n L = L" using False by (auto simp: lists_remove_def)
  ultimately show ?thesis using r by simp
next
  case True
  then obtain k us vs where L: "L k = us @ n # vs" by (auto dest: split_list)
  have k: "addr k \<notin> N" "set (L k) \<subseteq> N" and rk: "ring h (addr k) (L k)" using r by (auto simp: represents_def)
  have d: "distinct (addr k # us @ n # vs)" and l: "linked h (addr k) (us @ n # vs) (addr k)"
    using rk L by (auto simp: ring_def)
  have ys: "removeAll n (L k) = us @ vs" using d L by auto
  have p: "prv h n = last (addr k # us)" and q: "nxt h n = hd (vs @ [addr k])"
    using linked_prv [OF l] linked_nxt [OF l] .
  have "represents addr N (rt_list_remove n h) (L(k := us @ vs))"
  proof (rule represents_update [OF r])
    show "ring (rt_list_remove n h) (addr k) (us @ vs)"
      using linked_remove [OF l d] d by (auto simp: ring_def)
    show "set (us @ vs) \<subseteq> N" using k L by auto
    show "j = k" if "x \<in> set (us @ vs)" "x \<in> set (L j)" for j x
    proof -
      have "x \<in> set (L k)" using L that by auto
      then show ?thesis using r that(2) by (auto simp: represents_def)
    qed
    have pk: "last (addr k # us) \<in> insert (addr k) (set us)" "hd (vs @ [addr k]) \<in> insert (addr k) (set vs)"
      by (cases us rule: rev_cases; cases vs; simp)+
    have "prv (set_prv (nxt h n) (prv h n) h) n = prv h n"
      using d pk(2) unfolding q by (auto simp: set_prv_def)
    then have nx: "nxt (rt_list_remove n h) = (nxt h)(prv h n := nxt h n, n := n)"
      and pv: "prv (rt_list_remove n h) = (prv h)(nxt h n := prv h n, n := n)"
      by (simp_all add: nxt_remove prv_remove)
    show "nxt (rt_list_remove n h) x = nxt h x \<and> prv (rt_list_remove n h) x = prv h x"
      if "x \<notin> insert (addr k) (set (us @ vs) \<union> set (L k))" for x
      using that L pk unfolding nx pv p q by auto
    show "nxt (rt_list_remove n h) x = x \<and> prv (rt_list_remove n h) x = x"
      if "x \<in> set (L k) - set (us @ vs)" for x
      using that L unfolding nx pv by auto
  qed
  moreover have "n \<in> set (L k)" using L by simp
  ultimately show ?thesis using lists_remove_update [OF r] ys by simp
qed

theorem append_refines:
  assumes r: "represents addr N h L" and n: "n \<in> N" "\<And>j. n \<notin> set (L j)"
  shows "represents addr N (rt_list_insert_before (addr k) n h) (lists_append k n L)"
proof -
  have k: "addr k \<notin> N" "set (L k) \<subseteq> N" and rk: "ring h (addr k) (L k)" using r by (auto simp: represents_def)
  show ?thesis
  proof (cases "L k" rule: rev_cases)
    case Nil
    then have "prv h (addr k) = addr k" "nxt h (addr k) = addr k" using rk by (auto simp: ring_def)
    then have "rt_list_insert_before (addr k) n h = rt_list_insert_after (addr k) n h"
      using k n by (subst insert_before_after) auto
    then show ?thesis using represents_insert [OF r n, of "addr k" k "[n]"] Nil by (simp add: lists_append_def)
  next
    case (snoc us u)
    then have "prv h (addr k) = u" "nxt h u = addr k" using rk by (auto simp: ring_def)
    moreover have "n \<noteq> u" using n(2) [of k] snoc by auto
    ultimately have "rt_list_insert_before (addr k) n h = rt_list_insert_after u n h"
      using k n by (subst insert_before_after) auto
    then show ?thesis
      using represents_insert [OF r n, of u k "us @ [u, n]" us "[]"] snoc by (simp add: lists_append_def)
  qed
qed

theorem push_refines:
  assumes r: "represents addr N h L" and n: "n \<in> N" "\<And>j. n \<notin> set (L j)"
  shows "represents addr N (rt_list_insert_after (addr k) n h) (lists_push k n L)"
  using represents_insert [OF r n, of "addr k" k] by (simp add: lists_push_def)
text \<open>Insertion before a queued node, as the priority ordered wait lists need it.\<close>

definition lists_before :: "'n \<Rightarrow> 'n \<Rightarrow> ('k \<Rightarrow> 'n list) \<Rightarrow> 'k \<Rightarrow> 'n list" where
  "lists_before m n L = (\<lambda>k. if m \<in> set (L k) then takeWhile ((\<noteq>) m) (L k) @ n # dropWhile ((\<noteq>) m) (L k) else L k)"

lemma lists_before_split:
  assumes "L k = us @ m # vs" and "distinct (us @ m # vs)" and "\<And>j. m \<in> set (L j) \<Longrightarrow> j = k"
  shows "lists_before m n L = L(k := us @ n # m # vs)"
proof (rule ext)
  fix j
  have us: "m \<noteq> x" if "x \<in> set us" for x using assms(2) that by auto
  have take: "takeWhile ((\<noteq>) m) (us @ m # vs) = us" by (simp only: takeWhile_append2 [OF us]) simp
  have drop: "dropWhile ((\<noteq>) m) (us @ m # vs) = m # vs" by (simp only: dropWhile_append2 [OF us]) simp
  have at_k: "lists_before m n L k = us @ n # m # vs"
    unfolding lists_before_def assms(1) by (simp only: take drop) simp
  show "lists_before m n L j = (L(k := us @ n # m # vs)) j"
  proof (cases "j = k")
    case False
    then have "m \<notin> set (L j)" using assms(3) by auto
    then show ?thesis using False by (simp add: lists_before_def)
  qed (simp add: at_k)
qed

theorem before_refines:
  assumes r: "represents addr N h L" and n: "n \<in> N" "\<And>j. n \<notin> set (L j)" and m: "m \<in> set (L k)"
  shows "represents addr N (rt_list_insert_before m n h) (lists_before m n L)"
proof -
  obtain us vs where L: "L k = us @ m # vs" using m by (auto dest: split_list)
  have k: "addr k \<notin> N" "set (L k) \<subseteq> N" and rk: "ring h (addr k) (L k)" using r by (auto simp: represents_def)
  have d: "distinct (us @ m # vs)" and l: "linked h (addr k) (us @ m # vs) (addr k)"
    using rk L by (auto simp: ring_def)
  have p: "prv h m = last (addr k # us)" using linked_prv [OF l] .
  have "nxt h (prv h m) = m" using l p by (cases us rule: rev_cases) auto
  moreover have nm: "n \<notin> insert (addr k) (set (us @ m # vs))" using k n(1) n(2) [of k] L by auto
  moreover have "n \<noteq> prv h m" using nm p by (cases us rule: rev_cases) auto
  ultimately have "rt_list_insert_before m n h = rt_list_insert_after (last (addr k # us)) n h"
    using p by (subst insert_before_after) auto
  moreover have "represents addr N (rt_list_insert_after (last (addr k # us)) n h) (L(k := us @ n # m # vs))"
  proof (cases us rule: rev_cases)
    case Nil
    then show ?thesis using represents_insert [OF r n, of "addr k" k] L by simp
  next
    case (snoc ws w)
    then show ?thesis
      using represents_insert [OF r n, of w k "us @ n # m # vs" ws "m # vs"] L by simp
  qed
  moreover have "lists_before m n L = L(k := us @ n # m # vs)"
    by (rule lists_before_split [where L = L and k = k and us = us and vs = vs, OF L d])
      (use r m in \<open>auto simp: represents_def\<close>)
  ultimately show ?thesis by simp
qed

text \<open>The length loop ends after one turn of the ring.\<close>

lemma list_len_from:
  assumes "linked h p xs l" and "l \<notin> set xs"
  shows "rt_list_len_from l p len h = Some (len + of_nat (length xs))"
  using assms
proof (induction xs arbitrary: p len)
  case Nil
  then show ?case by (subst rt_list_len_from.simps) simp
next
  case (Cons x xs)
  then have "rt_list_len_from l p len h = rt_list_len_from l x (len + 1) h"
    by (subst rt_list_len_from.simps) auto
  then show ?case using Cons by (simp add: algebra_simps)
qed

theorem list_len_returns:
  "represents addr N h L \<Longrightarrow> rt_list_len (addr k) h = Some (of_nat (length (L k)))"
  using list_len_from [of h "addr k" "L k" "addr k" 0]
  by (auto simp: rt_list_len_def represents_def ring_def)

text \<open>
  C20. The lists of the kernel are what its pointers say: on a heap that represents the abstract lists
  \<open>L\<close>, \<open>rt_list_remove\<close> takes a node out of whatever list it is queued in; inserting a free node
  before or after a list head appends or prepends it, inserting it before a queued node puts it there;
  no other list changes, the test for emptiness is right and the length loop returns the length.
\<close>

theorem kernel_lists_refined:
  assumes "represents addr N h L" and "n \<in> N"
  shows "represents addr N (rt_list_remove n h) (lists_remove n L) \<and>
    rt_list_isempty (addr k) h = (L k = []) \<and> rt_list_len (addr k) h = Some (of_nat (length (L k))) \<and>
    ((\<forall>j. n \<notin> set (L j)) \<longrightarrow>
      represents addr N (rt_list_insert_before (addr k) n h) (lists_append k n L) \<and>
      represents addr N (rt_list_insert_after (addr k) n h) (lists_push k n L) \<and>
      (\<forall>m. m \<in> set (L k) \<longrightarrow> represents addr N (rt_list_insert_before m n h) (lists_before m n L)))"
proof (intro conjI impI allI)
  assume free: "\<forall>j. n \<notin> set (L j)"
  note f = free [rule_format]
  show "represents addr N (rt_list_insert_before (addr k) n h) (lists_append k n L)"
    "represents addr N (rt_list_insert_after (addr k) n h) (lists_push k n L)"
    by (rule append_refines [OF assms f] push_refines [OF assms f])+
  show "represents addr N (rt_list_insert_before m n h) (lists_before m n L)" if "m \<in> set (L k)" for m
    by (rule before_refines [OF assms f that])
qed (rule remove_refines [OF assms] ring_isempty [OF represents_ring [OF assms(1)]] list_len_returns [OF assms(1)])+

text \<open>Two lists with the heads 10 and 11; the nodes 1 and 2 are in the first, the node 3 in none.\<close>

definition two_heads :: "bool \<Rightarrow> nat" where
  "two_heads b = (if b then 11 else 10)"

definition two_lists :: "bool \<Rightarrow> nat list" where
  "two_lists b = (if b then [] else [1, 2])"

definition two_rings :: rt_list_heap where
  "two_rings = \<lparr>nxt = id(10 := 1, 1 := 2, 2 := 10), prv = id(10 := 2, 2 := 1, 1 := 10)\<rparr>"

theorem kernel_lists_refined_witness:
  "represents two_heads {1, 2, 3} (rt_list_insert_before 2 3 two_rings) (two_lists(False := [1, 3, 2])) \<and>
    represents two_heads {1, 2, 3} (rt_list_insert_before 11 3 two_rings) (two_lists(True := [3])) \<and>
    represents two_heads {1, 2, 3} (rt_list_remove 1 two_rings) (two_lists(False := [2])) \<and> rt_list_len 10 two_rings = Some 2"
proof -
  have r: "represents two_heads {1, 2, 3} two_rings two_lists"
    by (auto simp: represents_def two_heads_def two_lists_def two_rings_def ring_def inj_def split: if_splits)
  have b: "lists_before 2 3 two_lists = two_lists(False := [1, 3, 2])" "lists_append True 3 two_lists = two_lists(True := [3])"
    "lists_remove 1 two_lists = two_lists(False := [2])"
    by (auto simp: lists_before_def lists_append_def lists_remove_def two_lists_def fun_eq_iff)
  note k3 = kernel_lists_refined [OF r, of 3] and k1 = kernel_lists_refined [OF r, of 1]
  show ?thesis
    using k3 [of False] k3 [of True] k1 [of False] unfolding b [symmetric] by (simp add: two_heads_def two_lists_def)
qed

section \<open>Ordered insertion\<close>

text \<open>
  The timer lists and the priority ordered wait lists are both filled by a walk that stops at the
  first entry that must come after the new one: an entry that compares equal stays in front, so
  that equals are served in the order of their arrival.
\<close>

locale stable_insertion =
  fixes ins :: "'n \<Rightarrow> 'n list \<Rightarrow> 'n list"
    and stays :: "'n \<Rightarrow> 'n \<Rightarrow> bool"
  assumes ins_walk: "ins x xs = takeWhile (\<lambda>y. stays y x) xs @ x # dropWhile (\<lambda>y. stays y x) xs"
begin

lemma set_ins: "set (ins x xs) = insert x (set xs)"
proof -
  have "set (takeWhile (\<lambda>y. stays y x) xs) \<union> set (dropWhile (\<lambda>y. stays y x) xs) = set xs"
    by (metis set_append takeWhile_dropWhile_id)
  then show ?thesis by (auto simp: ins_walk)
qed

lemma distinct_ins: "distinct xs \<Longrightarrow> x \<notin> set xs \<Longrightarrow> distinct (ins x xs)"
proof -
  assume d: "distinct xs" and x: "x \<notin> set xs"
  have "distinct (takeWhile (\<lambda>y. stays y x) xs @ dropWhile (\<lambda>y. stays y x) xs)" using d by simp
  moreover have "x \<notin> set (takeWhile (\<lambda>y. stays y x) xs)" "x \<notin> set (dropWhile (\<lambda>y. stays y x) xs)"
    using x by (meson set_takeWhileD set_dropWhileD)+
  ultimately show ?thesis unfolding ins_walk distinct_append by auto
qed

lemma sorted_ins:
  assumes s: "sorted_wrt stays xs"
    and total: "\<And>y. y \<in> set xs \<Longrightarrow> stays y x \<or> stays x y"
    and trans: "\<And>y z. y \<in> set xs \<Longrightarrow> z \<in> set xs \<Longrightarrow> stays x y \<Longrightarrow> stays y z \<Longrightarrow> stays x z"
  shows "sorted_wrt stays (ins x xs)"
  using assms
proof (induction xs)
  case Nil
  then show ?case by (simp add: ins_walk)
next
  case (Cons a xs)
  show ?case
  proof (cases "stays a x")
    case True
    then have "ins x (a # xs) = a # ins x xs" by (simp add: ins_walk)
    moreover have "sorted_wrt stays (ins x xs)"
    proof (rule Cons.IH)
      show "stays y x \<or> stays x y" if "y \<in> set xs" for y using that Cons.prems(2) [of y] by simp
      show "stays x z" if "y \<in> set xs" "z \<in> set xs" "stays x y" "stays y z" for y z
        using that Cons.prems(3) [of y z] by simp
    qed (use Cons.prems(1) in simp)
    moreover have "stays a y" if "y \<in> set (ins x xs)" for y
      using that True Cons.prems(1) by (auto simp: set_ins)
    ultimately show ?thesis by simp
  next
    case False
    then have "ins x (a # xs) = x # a # xs" by (simp add: ins_walk)
    moreover have "stays x a" using False Cons.prems(2) [of a] by simp
    moreover have "stays x y" if "y \<in> set xs" for y
      using that Cons.prems(1) Cons.prems(3) [of a y] \<open>stays x a\<close> by auto
    ultimately show ?thesis using Cons.prems(1) by simp
  qed
qed

text \<open>Among the entries that tie with the new one, the new one is last.\<close>

lemma fifo_ins:
  assumes "sorted_wrt stays xs"
    and "\<And>y z. y \<in> set xs \<Longrightarrow> z \<in> set xs \<Longrightarrow> stays y z \<Longrightarrow> stays z x \<Longrightarrow> stays y x"
  shows "filter (\<lambda>y. stays y x) xs = takeWhile (\<lambda>y. stays y x) xs"
  using assms by (induction xs) (auto simp: filter_empty_conv)

end

end
