(* ===== verification/KSched.thy ===== *)
theory KSched
  imports KList "HOL-Library.Monad_Syntax"
begin

text \<open>
  The scheduler of the RT-Thread kernel (\<open>src/scheduler.c\<close>, one processor, 32 priorities) and the
  kernel state shared by the kernel theories: the threads, the lists their nodes are queued in
  (ready table, wait lists, defunct list), the bitmap of the non-empty ready lists, the current
  thread, the timers and the tick. A thread, a timer and a wait list are addressed by numbers.

  Every operation is a function on the kernel state; \<open>None\<close> is the value of a run that does not
  return normally, because an \<open>RT_ASSERT\<close> fails (the handler loops for ever) or a null pointer or
  an empty list is dereferenced. \<open>kernel_wf\<close> is the invariant of the scheduler data; the lemmas
  \<open>table_wf_remove\<close>, \<open>table_wf_insert\<close>, \<open>table_wf_wait\<close>, \<open>table_wf_prio\<close> are its preservation under
  the four elementary changes every kernel operation is made of. \<open>schedule_urgent\<close> states what
  \<open>rt_schedule\<close> achieves: afterwards the running thread is one of the most urgent ones.

  Not modelled: the stack overflow check (the stacks are not part of the state), the hooks (the
  application sets none), the register save and restore of the context switch.
\<close>

section \<open>Kernel state\<close>

text \<open>The states of a thread, and the bit that marks a used up time slice.\<close>

abbreviation (input) RT_THREAD_INIT :: u8 where "RT_THREAD_INIT \<equiv> 0"
abbreviation (input) RT_THREAD_READY :: u8 where "RT_THREAD_READY \<equiv> 1"
abbreviation (input) RT_THREAD_SUSPEND :: u8 where "RT_THREAD_SUSPEND \<equiv> 2"
abbreviation (input) RT_THREAD_RUNNING :: u8 where "RT_THREAD_RUNNING \<equiv> 3"
abbreviation (input) RT_THREAD_CLOSE :: u8 where "RT_THREAD_CLOSE \<equiv> 4"
abbreviation (input) RT_THREAD_STAT_MASK :: u8 where "RT_THREAD_STAT_MASK \<equiv> 7"
abbreviation (input) RT_THREAD_STAT_YIELD :: u8 where "RT_THREAD_STAT_YIELD \<equiv> 8"

text \<open>Error numbers.\<close>

abbreviation (input) RT_EOK :: int where "RT_EOK \<equiv> 0"
abbreviation (input) RT_ERROR :: int where "RT_ERROR \<equiv> 1"
abbreviation (input) RT_ETIMEOUT :: int where "RT_ETIMEOUT \<equiv> 2"
abbreviation (input) RT_EFULL :: int where "RT_EFULL \<equiv> 3"

record rt_thread =
  th_error :: int
  th_stat :: u8
  th_current_priority :: u8
  th_init_priority :: u8
  th_number_mask :: u32
  th_event_set :: u32
  th_event_info :: u8
  th_init_tick :: u32
  th_remaining_tick :: u32

text \<open>
  The heads a thread node can be queued at: the ready table, the suspend lists of the IPC objects
  (a mailbox and a message queue have one for the readers and one for the writers), the list of
  the dead threads.
\<close>

datatype ipc_list = Sem_list nat | Mutex_list nat | Event_list nat | Mb_list nat | Mb_senders nat | Mq_list nat | Mq_senders nat

datatype thread_head = Ready nat | Wait ipc_list | Defunct

text \<open>
  A timer is built into a thread or stands alone. Its time-out function and parameter are
  \<open>rt_thread_timeout\<close> with the thread, or a function of the application.
\<close>

datatype timer_id = Thread_timer nat | Timer nat

datatype timeout_func = Thread_timeout nat | Callback nat

record rt_timer =
  tm_flag :: u8
  tm_func :: timeout_func
  tm_init_tick :: u32
  tm_timeout_tick :: u32

text \<open>
  The heads a timer node can be queued at: the two timer lists of the kernel and the temporary
  lists on the stacks of the two check routines.
\<close>

datatype timer_head = Hard | Soft | Hard_temp | Soft_temp

record kernel =
  rt_tick :: u32
  rt_threads :: "nat \<Rightarrow> rt_thread"
  tlists :: "thread_head \<Rightarrow> nat list"
  rt_thread_ready_priority_group :: u32
  rt_current_thread :: "nat option"
  rt_current_priority :: u8
  rt_scheduler_lock_nest :: "16 word"
  rt_timers :: "timer_id \<Rightarrow> rt_timer"
  rows :: "timer_head \<Rightarrow> timer_id list"
  soft_timer_busy :: bool

definition th_upd :: "nat \<Rightarrow> (rt_thread \<Rightarrow> rt_thread) \<Rightarrow> 'a kernel_scheme \<Rightarrow> 'a kernel_scheme" where
  "th_upd t f s = s\<lparr>rt_threads := (rt_threads s)(t := f (rt_threads s t))\<rparr>"

definition th_state :: "'a kernel_scheme \<Rightarrow> nat \<Rightarrow> u8" where
  "th_state s t = th_stat (rt_threads s t) AND RT_THREAD_STAT_MASK"

definition th_prio :: "'a kernel_scheme \<Rightarrow> nat \<Rightarrow> nat" where
  "th_prio s t = unat (th_current_priority (rt_threads s t))"

definition th_mask :: "'a kernel_scheme \<Rightarrow> nat \<Rightarrow> u32" where
  "th_mask s t = th_number_mask (rt_threads s t)"

definition set_state :: "u8 \<Rightarrow> rt_thread \<Rightarrow> rt_thread" where
  "set_state x th = th\<lparr>th_stat := x OR (th_stat th AND NOT RT_THREAD_STAT_MASK)\<rparr>"

definition clear_yield :: "rt_thread \<Rightarrow> rt_thread" where
  "clear_yield th = th\<lparr>th_stat := th_stat th AND NOT RT_THREAD_STAT_YIELD\<rparr>"

definition yielded :: "rt_thread \<Rightarrow> bool" where
  "yielded th \<longleftrightarrow> th_stat th AND RT_THREAD_STAT_YIELD \<noteq> 0"

section \<open>Operations\<close>

text \<open>
  \<open>__rt_ffs\<close> of the Cortex-M4 port: reverse the bits, count the leading zeros, add one; zero for
  the argument zero.
\<close>

definition RBIT :: "u32 \<Rightarrow> u32" where
  "RBIT w = word_reverse w"

definition CLZ :: "u32 \<Rightarrow> nat" where
  "CLZ w = length (takeWhile (\<lambda>i. \<not> bit w (31 - i)) [0..<32])"

definition rt_ffs :: "u32 \<Rightarrow> nat" where
  "rt_ffs w = (if w = 0 then 0 else CLZ (RBIT w) + 1)"

definition scheduler_get_highest_priority_thread :: "'a kernel_scheme \<Rightarrow> (nat \<times> nat) option" where
  "scheduler_get_highest_priority_thread s =
     (let highest_ready_priority = rt_ffs (rt_thread_ready_priority_group s) - 1
      in case tlists s (Ready highest_ready_priority) of
           [] \<Rightarrow> None
         | t # _ \<Rightarrow> Some (t, highest_ready_priority))"

definition rt_schedule_insert_thread :: "nat \<Rightarrow> 'a kernel_scheme \<Rightarrow> 'a kernel_scheme" where
  "rt_schedule_insert_thread t s =
     (if rt_current_thread s = Some t then th_upd t (set_state RT_THREAD_RUNNING) s
      else
        let s = th_upd t (set_state RT_THREAD_READY) s;
            s = s\<lparr>tlists := lists_append (Ready (th_prio s t)) t (tlists s)\<rparr>
        in s\<lparr>rt_thread_ready_priority_group := rt_thread_ready_priority_group s OR th_mask s t\<rparr>)"

definition rt_schedule_remove_thread :: "nat \<Rightarrow> 'a kernel_scheme \<Rightarrow> 'a kernel_scheme" where
  "rt_schedule_remove_thread t s =
     (let s = s\<lparr>tlists := lists_remove t (tlists s)\<rparr>
      in if tlists s (Ready (th_prio s t)) = []
         then s\<lparr>rt_thread_ready_priority_group := rt_thread_ready_priority_group s AND NOT (th_mask s t)\<rparr>
         else s)"

text \<open>
  \<open>rt_schedule\<close>: the running thread keeps the processor when it is more urgent than every ready
  thread, or as urgent and has not used up its time slice; \<open>switch_to\<close> is the change to another
  thread, with \<open>need_insert_from_thread\<close> telling that the old one is still able to run.
\<close>

definition keeps_running :: "nat \<Rightarrow> nat \<Rightarrow> 'a kernel_scheme \<Rightarrow> bool" where
  "keeps_running cur p s \<longleftrightarrow> th_state s cur = RT_THREAD_RUNNING \<and>
     (th_prio s cur < p \<or> th_prio s cur = p \<and> \<not> yielded (rt_threads s cur))"

definition switch_to :: "nat \<Rightarrow> nat \<Rightarrow> nat \<Rightarrow> bool \<Rightarrow> 'a kernel_scheme \<Rightarrow> 'a kernel_scheme" where
  "switch_to from_thread to_thread p need_insert_from_thread s =
     (let s = s\<lparr>rt_current_priority := of_nat p, rt_current_thread := Some to_thread\<rparr>;
          s = (if need_insert_from_thread then rt_schedule_insert_thread from_thread s else s);
          s = rt_schedule_remove_thread to_thread s
      in th_upd to_thread (set_state RT_THREAD_RUNNING) s)"

definition stay_on :: "nat \<Rightarrow> 'a kernel_scheme \<Rightarrow> 'a kernel_scheme" where
  "stay_on cur s = th_upd cur (set_state RT_THREAD_RUNNING) (rt_schedule_remove_thread cur s)"

definition rt_schedule :: "'a kernel_scheme \<Rightarrow> 'a kernel_scheme option" where
  "rt_schedule s =
     (if rt_scheduler_lock_nest s = 0 \<and> rt_thread_ready_priority_group s \<noteq> 0 then do {
        (to_thread, highest_ready_priority) \<leftarrow> scheduler_get_highest_priority_thread s;
        cur \<leftarrow> rt_current_thread s;
        let running = (th_state s cur = RT_THREAD_RUNNING);
        let keep = keeps_running cur highest_ready_priority s;
        let s = (if running then th_upd cur clear_yield s else s);
        Some (if keep \<or> to_thread = cur then stay_on cur s
              else switch_to cur to_thread highest_ready_priority running s)
      } else Some s)"

definition rt_system_scheduler_init :: "'a kernel_scheme \<Rightarrow> 'a kernel_scheme" where
  "rt_system_scheduler_init s =
     s\<lparr>rt_scheduler_lock_nest := 0,
       tlists := (\<lambda>h. case h of Ready p \<Rightarrow> if p < 32 then [] else tlists s h | _ \<Rightarrow> tlists s h),
       rt_thread_ready_priority_group := 0\<rparr>"

definition rt_system_scheduler_start :: "'a kernel_scheme \<Rightarrow> 'a kernel_scheme option" where
  "rt_system_scheduler_start s = do {
     (to_thread, _) \<leftarrow> scheduler_get_highest_priority_thread s;
     let s = s\<lparr>rt_current_thread := Some to_thread\<rparr>;
     let s = rt_schedule_remove_thread to_thread s;
     Some (th_upd to_thread (\<lambda>th. th\<lparr>th_stat := RT_THREAD_RUNNING\<rparr>) s)
   }"

definition rt_enter_critical :: "'a kernel_scheme \<Rightarrow> 'a kernel_scheme" where
  "rt_enter_critical s = s\<lparr>rt_scheduler_lock_nest := rt_scheduler_lock_nest s + 1\<rparr>"

definition rt_exit_critical :: "'a kernel_scheme \<Rightarrow> 'a kernel_scheme option" where
  "rt_exit_critical s =
     (let s = s\<lparr>rt_scheduler_lock_nest := rt_scheduler_lock_nest s - 1\<rparr>
      in if sint (rt_scheduler_lock_nest s) \<le> 0 then
           let s = s\<lparr>rt_scheduler_lock_nest := 0\<rparr>
           in if rt_current_thread s \<noteq> None then rt_schedule s else Some s
         else Some s)"

section \<open>The bitmap\<close>

lemma upt_takeWhile_least:
  assumes "\<exists>i<n. P i"
  shows "P (length (takeWhile (\<lambda>i. \<not> P i) [0..<n]))"
    and "length (takeWhile (\<lambda>i. \<not> P i) [0..<n]) < n"
    and "i < length (takeWhile (\<lambda>i. \<not> P i) [0..<n]) \<Longrightarrow> \<not> P i"
proof -
  let ?k = "length (takeWhile (\<lambda>i. \<not> P i) [0..<n])"
  have "?k \<noteq> length [0..<n]"
  proof
    assume "?k = length [0..<n]"
    then have "takeWhile (\<lambda>i. \<not> P i) [0..<n] = [0..<n]" by (metis takeWhile_eq_take take_all le_refl)
    then have "\<forall>i\<in>set [0..<n]. \<not> P i" by (simp only: takeWhile_eq_all_conv)
    with assms show False by auto
  qed
  moreover have "?k \<le> n" using length_takeWhile_le [of "\<lambda>i. \<not> P i" "[0..<n]"] by simp
  ultimately show k: "?k < n" by simp
  then show "P ?k" using nth_length_takeWhile [of "\<lambda>i. \<not> P i" "[0..<n]"] by simp
  show "\<not> P i" if "i < ?k" for i
  proof -
    have "[0..<n] ! i = takeWhile (\<lambda>i. \<not> P i) [0..<n] ! i" using that by (simp add: takeWhile_nth)
    moreover have "takeWhile (\<lambda>i. \<not> P i) [0..<n] ! i \<in> set (takeWhile (\<lambda>i. \<not> P i) [0..<n])"
      using that by simp
    ultimately show ?thesis using that k by (auto dest: set_takeWhileD)
  qed
qed

lemma CLZ_RBIT: "CLZ (RBIT w) = length (takeWhile (\<lambda>i. \<not> bit w i) [0..<32])"
proof -
  have "takeWhile (\<lambda>i. \<not> bit (word_reverse w) (31 - i)) [0..<32] = takeWhile (\<lambda>i. \<not> bit w i) [0..<32]"
    by (rule takeWhile_cong) (auto simp: bit_simps)
  then show ?thesis by (simp add: CLZ_def RBIT_def)
qed

text \<open>\<open>rt_ffs w - 1\<close> is the lowest set bit.\<close>

lemma rt_ffs_least:
  assumes "w \<noteq> 0"
  shows "bit w (rt_ffs w - 1)" and "rt_ffs w - 1 < 32" and "i < rt_ffs w - 1 \<Longrightarrow> \<not> bit w i"
proof -
  have "\<exists>i<32. bit w i"
  proof (rule ccontr)
    assume "\<not> (\<exists>i<32. bit w i)"
    then have "w = 0" by (intro bit_word_eqI) auto
    with assms show False by simp
  qed
  from upt_takeWhile_least [OF this] show "bit w (rt_ffs w - 1)" "rt_ffs w - 1 < 32" "i < rt_ffs w - 1 \<Longrightarrow> \<not> bit w i"
    using assms by (simp_all add: rt_ffs_def CLZ_RBIT)
qed

section \<open>The invariant of the scheduler\<close>

text \<open>
  The part of the state the scheduler relies on: the state, priority and priority mask of every
  thread, the lists, the bitmap and the current thread. Every thread is queued at most once;
  exactly the ready threads are in the ready table, at their priority; a waiting thread is
  suspended; the bitmap has the bits of the non-empty ready lists; only the current thread is
  running, and it is not in the ready table.
\<close>

definition mask_ok :: "nat \<Rightarrow> u32 \<Rightarrow> bool" where
  "mask_ok p m \<longleftrightarrow> p < 32 \<and> m = push_bit p 1"

fun head_ok :: "(nat \<Rightarrow> u8) \<Rightarrow> (nat \<Rightarrow> nat) \<Rightarrow> nat \<Rightarrow> thread_head \<Rightarrow> bool" where
  "head_ok st pr t (Ready p) \<longleftrightarrow> st t = RT_THREAD_READY \<and> p = pr t"
| "head_ok st pr t (Wait i) \<longleftrightarrow> st t = RT_THREAD_SUSPEND"
| "head_ok st pr t Defunct \<longleftrightarrow> st t = RT_THREAD_CLOSE"

definition lists_wf :: "(nat \<Rightarrow> u8) \<Rightarrow> (nat \<Rightarrow> nat) \<Rightarrow> (thread_head \<Rightarrow> nat list) \<Rightarrow> bool" where
  "lists_wf st pr L \<longleftrightarrow>
     (\<forall>h. distinct (L h)) \<and>
     (\<forall>h. \<forall>t\<in>set (L h). head_ok st pr t h) \<and>
     (\<forall>t h h'. t \<in> set (L h) \<longrightarrow> t \<in> set (L h') \<longrightarrow> h = h') \<and>
     (\<forall>t. st t = RT_THREAD_READY \<longrightarrow> t \<in> set (L (Ready (pr t))))"

definition table_wf :: "(nat \<Rightarrow> u8) \<Rightarrow> (nat \<Rightarrow> nat) \<Rightarrow> (nat \<Rightarrow> u32) \<Rightarrow> (thread_head \<Rightarrow> nat list) \<Rightarrow> u32 \<Rightarrow> bool" where
  "table_wf st pr mk L g \<longleftrightarrow>
     lists_wf st pr L \<and>
     (\<forall>t. mk t = 0 \<or> mask_ok (pr t) (mk t)) \<and>
     (\<forall>t. st t \<in> {RT_THREAD_READY, RT_THREAD_SUSPEND, RT_THREAD_RUNNING} \<longrightarrow> mk t \<noteq> 0) \<and>
     (\<forall>p<32. bit g p \<longleftrightarrow> L (Ready p) \<noteq> [])"

definition current_ok :: "(nat \<Rightarrow> u8) \<Rightarrow> nat option \<Rightarrow> bool" where
  "current_ok st c \<longleftrightarrow>
     (\<forall>t. st t = RT_THREAD_RUNNING \<longrightarrow> c = Some t) \<and> (\<forall>t. c = Some t \<longrightarrow> st t \<noteq> RT_THREAD_READY)"

definition kernel_wf :: "'a kernel_scheme \<Rightarrow> bool" where
  "kernel_wf s \<longleftrightarrow>
     table_wf (th_state s) (th_prio s) (th_mask s) (tlists s) (rt_thread_ready_priority_group s) \<and>
     current_ok (th_state s) (rt_current_thread s)"

lemma lists_remove_apply [simp]: "lists_remove t L h = removeAll t (L h)"
  by (simp add: lists_remove_def)

lemma lists_append_apply: "lists_append k t L h = (if h = k then L k @ [t] else L h)"
  by (simp add: lists_append_def)

lemma lists_wf_state:
  "lists_wf st pr L \<Longrightarrow> t \<in> set (L (Ready p)) \<Longrightarrow> st t = RT_THREAD_READY \<and> p = pr t"
  "lists_wf st pr L \<Longrightarrow> t \<in> set (L (Wait i)) \<Longrightarrow> st t = RT_THREAD_SUSPEND"
  "lists_wf st pr L \<Longrightarrow> t \<in> set (L Defunct) \<Longrightarrow> st t = RT_THREAD_CLOSE"
  unfolding lists_wf_def by force+

lemma lists_wf_free:
  assumes "lists_wf st pr L" and "st t \<notin> {RT_THREAD_READY, RT_THREAD_SUSPEND, RT_THREAD_CLOSE}"
  shows "t \<notin> set (L h)"
  using assms lists_wf_state [of st pr L t] by (cases h) auto

lemma head_ok_other: "t \<noteq> u \<Longrightarrow> head_ok (st(t := x)) pr u h = head_ok st pr u h"
  and head_ok_prio: "t \<noteq> u \<or> st t \<noteq> RT_THREAD_READY \<Longrightarrow> head_ok st pr u h \<Longrightarrow> head_ok st (pr(t := p)) u h"
  by (cases h; auto)+

lemma lists_wf_remove:
  assumes "lists_wf st pr L" and "x \<noteq> RT_THREAD_READY"
  shows "lists_wf (st(t := x)) pr (lists_remove t L)"
  using assms by (auto simp: lists_wf_def head_ok_other distinct_removeAll)

lemma lists_wf_enqueue:
  assumes w: "lists_wf st pr L" and f: "\<And>h. t \<notin> set (L h)"
    and k: "head_ok (st(t := x)) pr t k" "x = RT_THREAD_READY \<Longrightarrow> k = Ready (pr t)"
    and ys: "distinct ys" "set ys = insert t (set (L k))"
  shows "lists_wf (st(t := x)) pr (L(k := ys))"
proof -
  have at: "set ((L(k := ys)) h) = (if h = k then insert t (set (L k)) else set (L h))" for h
    using ys by simp
  have other: "head_ok (st(t := x)) pr u h" if "u \<in> set (L h)" for u h
  proof -
    have "u \<noteq> t" using that f [of h] by auto
    then show ?thesis using w that by (simp add: lists_wf_def head_ok_other)
  qed
  have d: "distinct ((L(k := ys)) h)" for h using w ys by (simp add: lists_wf_def)
  have ok: "head_ok (st(t := x)) pr u h" if "u \<in> set ((L(k := ys)) h)" for u h
    using that other [of u h] other [of u k] k(1) unfolding at by (cases "h = k") auto
  have uniq: "h = h'" if "u \<in> set ((L(k := ys)) h)" "u \<in> set ((L(k := ys)) h')" for u h h'
    using that w f unfolding at lists_wf_def by (metis insert_iff)
  have ready: "u \<in> set ((L(k := ys)) (Ready (pr u)))" if "(st(t := x)) u = RT_THREAD_READY" for u
  proof (cases "u = t")
    case True
    then have "k = Ready (pr u)" using that k(2) by simp
    then show ?thesis using True unfolding at by simp
  next
    case False
    then have "u \<in> set (L (Ready (pr u)))" using that w by (simp add: lists_wf_def)
    then show ?thesis unfolding at by auto
  qed
  show ?thesis unfolding lists_wf_def using d ok uniq ready by blast
qed

lemma lists_wf_ready:
  assumes "lists_wf st pr L" and "\<And>h. t \<notin> set (L h)"
  shows "lists_wf (st(t := RT_THREAD_READY)) pr (lists_append (Ready (pr t)) t L)"
  unfolding lists_append_def
  using assms(1) by (intro lists_wf_enqueue [OF assms]) (use assms(2) in \<open>auto simp: lists_wf_def\<close>)

lemma lists_wf_wait:
  assumes w: "lists_wf st pr L" and f: "\<And>h. t \<notin> set (L h)" and s: "st t = RT_THREAD_SUSPEND"
    and ys: "distinct ys" "set ys = insert t (set (L (Wait i)))"
  shows "lists_wf st pr (L(Wait i := ys))"
proof -
  have "lists_wf (st(t := RT_THREAD_SUSPEND)) pr (L(Wait i := ys))"
    by (intro lists_wf_enqueue [OF w f]) (use s ys in auto)
  moreover have "st(t := RT_THREAD_SUSPEND) = st" using s by auto
  ultimately show ?thesis by simp
qed

lemma lists_wf_defunct:
  assumes "lists_wf st pr L" and "\<And>h. t \<notin> set (L h)"
  shows "lists_wf (st(t := RT_THREAD_CLOSE)) pr (lists_push Defunct t L)"
  unfolding lists_push_def
  using assms(1) by (intro lists_wf_enqueue [OF assms]) (use assms(2) in \<open>auto simp: lists_wf_def\<close>)

lemma lists_wf_prio:
  assumes "lists_wf st pr L" and "st t \<noteq> RT_THREAD_READY"
  shows "lists_wf st (pr(t := p)) L"
  using assms by (auto simp: lists_wf_def intro: head_ok_prio)

text \<open>The mask of a thread meets the bitmap exactly at its priority.\<close>

lemma bit_mask: "mask_ok p m \<Longrightarrow> bit m i \<longleftrightarrow> i = p"
  by (auto simp: mask_ok_def bit_simps)

lemma mask_nonzero: "mask_ok p m \<Longrightarrow> m \<noteq> 0"
  using bit_mask [of p m p] by auto

text \<open>The elementary changes.\<close>

lemma table_wf_remove:
  assumes w: "table_wf st pr mk L g"
    and x: "x \<noteq> RT_THREAD_READY" "x \<in> {RT_THREAD_SUSPEND, RT_THREAD_RUNNING} \<Longrightarrow> mk t \<noteq> 0"
  shows "table_wf (st(t := x)) pr mk (lists_remove t L)
    (if lists_remove t L (Ready (pr t)) = [] then g AND NOT (mk t) else g)"
proof -
  let ?L = "lists_remove t L" and ?g = "if lists_remove t L (Ready (pr t)) = [] then g AND NOT (mk t) else g"
  have L: "lists_wf st pr L" using w by (simp add: table_wf_def)
  have "bit ?g p \<longleftrightarrow> ?L (Ready p) \<noteq> []" if p: "p < 32" for p
  proof (cases "p = pr t")
    case True
    have "bit g p \<longleftrightarrow> L (Ready p) \<noteq> []" using w p by (simp add: table_wf_def)
    moreover have "mk t = 0 \<Longrightarrow> L (Ready p) \<noteq> [] \<Longrightarrow> ?L (Ready p) \<noteq> []"
    proof -
      assume "mk t = 0" "L (Ready p) \<noteq> []"
      then have "t \<notin> set (L (Ready p))"
        using w lists_wf_state(1) [OF L, of t p] by (auto simp: table_wf_def)
      then show ?thesis using \<open>L (Ready p) \<noteq> []\<close> by simp
    qed
    moreover have "mk t = 0 \<or> mask_ok (pr t) (mk t)" using w by (simp add: table_wf_def)
    ultimately show ?thesis
      using True p bit_mask [of "pr t" "mk t"] by (auto simp: bit_simps)
  next
    case False
    then have "t \<notin> set (L (Ready p))" using lists_wf_state(1) [OF L] by auto
    then have "?L (Ready p) = L (Ready p)" by simp
    moreover have "\<not> bit (mk t) p"
      using w False bit_mask [of "pr t" "mk t" p] by (cases "mk t = 0") (auto simp: table_wf_def)
    then have "bit ?g p = bit g p" using p by (auto simp: bit_simps)
    ultimately show ?thesis using w p by (simp add: table_wf_def)
  qed
  then show ?thesis
    using w x lists_wf_remove [OF L x(1)] unfolding table_wf_def by auto
qed

lemma table_wf_insert:
  assumes w: "table_wf st pr mk L g" and f: "\<And>h. t \<notin> set (L h)" and m: "mk t \<noteq> 0"
  shows "table_wf (st(t := RT_THREAD_READY)) pr mk (lists_append (Ready (pr t)) t L) (g OR mk t)"
proof -
  have "mask_ok (pr t) (mk t)" using w m by (auto simp: table_wf_def)
  then have "bit (g OR mk t) p \<longleftrightarrow> lists_append (Ready (pr t)) t L (Ready p) \<noteq> []" if "p < 32" for p
    using w that by (auto simp: table_wf_def bit_or_iff bit_mask lists_append_apply)
  then show ?thesis
    using w m lists_wf_ready [of st pr L t] f unfolding table_wf_def by auto
qed

lemma table_wf_wait:
  assumes w: "table_wf st pr mk L g" and f: "\<And>h. t \<notin> set (L h)" and s: "st t = RT_THREAD_SUSPEND"
    and ys: "distinct ys" "set ys = insert t (set (L (Wait i)))"
  shows "table_wf st pr mk (L(Wait i := ys)) g"
proof -
  have "lists_wf st pr (L(Wait i := ys))"
    by (rule lists_wf_wait [where t = t]) (use w f s ys in \<open>simp_all add: table_wf_def\<close>)
  then show ?thesis using w by (auto simp: table_wf_def)
qed

lemma table_wf_defunct:
  assumes "table_wf st pr mk L g" and "\<And>h. t \<notin> set (L h)"
  shows "table_wf (st(t := RT_THREAD_CLOSE)) pr mk (lists_push Defunct t L) g"
  using assms lists_wf_defunct [of st pr L t] by (auto simp: table_wf_def lists_push_def)

lemma table_wf_prio:
  assumes w: "table_wf st pr mk L g" and s: "st t \<noteq> RT_THREAD_READY" and m: "mask_ok p m"
  shows "table_wf st (pr(t := p)) (mk(t := m)) L g"
  using w lists_wf_prio [of st pr L t p] s m mask_nonzero [OF m] unfolding table_wf_def by auto

lemma table_wf_free_state:
  assumes w: "table_wf st pr mk L g" and f: "\<And>h. t \<notin> set (L h)"
    and x: "x \<noteq> RT_THREAD_READY" "x \<in> {RT_THREAD_SUSPEND, RT_THREAD_RUNNING} \<Longrightarrow> mk t \<noteq> 0"
  shows "table_wf (st(t := x)) pr mk L g"
proof -
  have "lists_remove t L = L" using f by (auto simp: lists_remove_def)
  then have "lists_wf (st(t := x)) pr L"
    using lists_wf_remove [of st pr L x t] w x by (simp add: table_wf_def)
  then show ?thesis using w x by (auto simp: table_wf_def)
qed

section \<open>The views of the state under updates\<close>

lemma th_views_upd:
  "th_state (th_upd t f s) = (th_state s)(t := th_stat (f (rt_threads s t)) AND RT_THREAD_STAT_MASK)"
  "th_prio (th_upd t f s) = (th_prio s)(t := unat (th_current_priority (f (rt_threads s t))))"
  "th_mask (th_upd t f s) = (th_mask s)(t := th_number_mask (f (rt_threads s t)))"
  by (auto simp: th_state_def th_prio_def th_mask_def th_upd_def)

lemma th_views_frame [simp]:
  "th_state (s\<lparr>tlists := L\<rparr>) = th_state s" "th_prio (s\<lparr>tlists := L\<rparr>) = th_prio s" "th_mask (s\<lparr>tlists := L\<rparr>) = th_mask s"
  "th_state (s\<lparr>rt_thread_ready_priority_group := g\<rparr>) = th_state s"
  "th_prio (s\<lparr>rt_thread_ready_priority_group := g\<rparr>) = th_prio s"
  "th_mask (s\<lparr>rt_thread_ready_priority_group := g\<rparr>) = th_mask s"
  "th_state (s\<lparr>rt_current_thread := c\<rparr>) = th_state s" "th_prio (s\<lparr>rt_current_thread := c\<rparr>) = th_prio s"
  "th_mask (s\<lparr>rt_current_thread := c\<rparr>) = th_mask s"
  "th_state (s\<lparr>rt_current_priority := p\<rparr>) = th_state s" "th_prio (s\<lparr>rt_current_priority := p\<rparr>) = th_prio s"
  "th_mask (s\<lparr>rt_current_priority := p\<rparr>) = th_mask s"
  "th_state (s\<lparr>rt_scheduler_lock_nest := n\<rparr>) = th_state s" "th_prio (s\<lparr>rt_scheduler_lock_nest := n\<rparr>) = th_prio s"
  "th_mask (s\<lparr>rt_scheduler_lock_nest := n\<rparr>) = th_mask s"
  by (simp_all add: th_state_def th_prio_def th_mask_def fun_eq_iff)

lemma th_upd_frame [simp]:
  "tlists (th_upd t f s) = tlists s" "rt_thread_ready_priority_group (th_upd t f s) = rt_thread_ready_priority_group s"
  "rt_current_thread (th_upd t f s) = rt_current_thread s" "rt_scheduler_lock_nest (th_upd t f s) = rt_scheduler_lock_nest s"
  "rt_tick (th_upd t f s) = rt_tick s" "rt_timers (th_upd t f s) = rt_timers s" "rows (th_upd t f s) = rows s"
  "soft_timer_busy (th_upd t f s) = soft_timer_busy s"
  by (simp_all add: th_upd_def)

lemma set_state_stat: "x AND 7 = x \<Longrightarrow> th_stat (set_state x th) AND RT_THREAD_STAT_MASK = x"
proof -
  assume x: "x AND 7 = x"
  have "(x OR (th_stat th AND NOT 7)) AND 7 = x AND 7"
    by (rule bit_word_eqI) (auto simp: bit_simps)
  with x show ?thesis by (simp add: set_state_def)
qed

lemma set_state_frame [simp]:
  "th_current_priority (set_state x th) = th_current_priority th" "th_number_mask (set_state x th) = th_number_mask th"
  "th_error (set_state x th) = th_error th" "th_init_priority (set_state x th) = th_init_priority th"
  "th_init_tick (set_state x th) = th_init_tick th" "th_remaining_tick (set_state x th) = th_remaining_tick th"
  by (simp_all add: set_state_def)

lemma th_views_state:
  "x AND 7 = x \<Longrightarrow> th_state (th_upd t (set_state x) s) = (th_state s)(t := x)"
  "th_prio (th_upd t (set_state x) s) = th_prio s" "th_mask (th_upd t (set_state x) s) = th_mask s"
  by (auto simp: th_views_upd set_state_stat) (auto simp: th_prio_def th_mask_def)

lemma th_views_clear_yield:
  "th_state (th_upd t clear_yield s) = th_state s"
  "th_prio (th_upd t clear_yield s) = th_prio s"
  "th_mask (th_upd t clear_yield s) = th_mask s"
proof -
  have "(w AND NOT 8) AND 7 = w AND 7" for w :: u8
  proof -
    have "(NOT 8 :: u8) AND 7 = 7" by simp
    then show ?thesis by (simp only: and.assoc)
  qed
  then show "th_state (th_upd t clear_yield s) = th_state s"
    by (auto simp: th_views_upd clear_yield_def) (auto simp: th_state_def)
qed (auto simp: th_views_upd th_prio_def th_mask_def clear_yield_def)
section \<open>What the operations do to the views\<close>

lemma insert_views:
  assumes "rt_current_thread s \<noteq> Some t"
  shows "th_state (rt_schedule_insert_thread t s) = (th_state s)(t := RT_THREAD_READY)"
    and "tlists (rt_schedule_insert_thread t s) = lists_append (Ready (th_prio s t)) t (tlists s)"
    and "rt_thread_ready_priority_group (rt_schedule_insert_thread t s) = rt_thread_ready_priority_group s OR th_mask s t"
  using assms by (simp_all add: rt_schedule_insert_thread_def Let_def th_views_state)

lemma insert_current:
  "rt_current_thread s = Some t \<Longrightarrow> rt_schedule_insert_thread t s = th_upd t (set_state RT_THREAD_RUNNING) s"
  by (simp add: rt_schedule_insert_thread_def)

lemma insert_frame [simp]:
  "th_prio (rt_schedule_insert_thread t s) = th_prio s" "th_mask (rt_schedule_insert_thread t s) = th_mask s"
  "rt_current_thread (rt_schedule_insert_thread t s) = rt_current_thread s"
  "rt_scheduler_lock_nest (rt_schedule_insert_thread t s) = rt_scheduler_lock_nest s"
  "rt_tick (rt_schedule_insert_thread t s) = rt_tick s" "rt_timers (rt_schedule_insert_thread t s) = rt_timers s"
  "rows (rt_schedule_insert_thread t s) = rows s" "soft_timer_busy (rt_schedule_insert_thread t s) = soft_timer_busy s"
  by (simp_all add: rt_schedule_insert_thread_def Let_def th_views_state)

lemma remove_views:
  "tlists (rt_schedule_remove_thread t s) = lists_remove t (tlists s)"
  "rt_thread_ready_priority_group (rt_schedule_remove_thread t s) =
     (if lists_remove t (tlists s) (Ready (th_prio s t)) = []
      then rt_thread_ready_priority_group s AND NOT (th_mask s t) else rt_thread_ready_priority_group s)"
  by (simp_all add: rt_schedule_remove_thread_def Let_def)

lemma remove_frame [simp]:
  "rt_threads (rt_schedule_remove_thread t s) = rt_threads s"
  "th_state (rt_schedule_remove_thread t s) = th_state s" "th_prio (rt_schedule_remove_thread t s) = th_prio s"
  "th_mask (rt_schedule_remove_thread t s) = th_mask s"
  "rt_current_thread (rt_schedule_remove_thread t s) = rt_current_thread s"
  "rt_scheduler_lock_nest (rt_schedule_remove_thread t s) = rt_scheduler_lock_nest s"
  "rt_tick (rt_schedule_remove_thread t s) = rt_tick s" "rt_timers (rt_schedule_remove_thread t s) = rt_timers s"
  "rows (rt_schedule_remove_thread t s) = rows s" "soft_timer_busy (rt_schedule_remove_thread t s) = soft_timer_busy s"
  by (simp_all add: rt_schedule_remove_thread_def Let_def)

lemma kernel_wf_queued:
  assumes "kernel_wf s" and "t \<in> set (tlists s h)"
  shows "head_ok (th_state s) (th_prio s) t h"
  using assms by (simp add: kernel_wf_def table_wf_def lists_wf_def)

lemma kernel_wf_free:
  assumes "kernel_wf s" and "th_state s t \<notin> {RT_THREAD_READY, RT_THREAD_SUSPEND, RT_THREAD_CLOSE}"
  shows "t \<notin> set (tlists s h)"
  using kernel_wf_queued [OF assms(1), of t h] assms(2) by (cases h) auto

lemma kernel_wf_mask:
  "kernel_wf s \<Longrightarrow> th_state s t \<in> {RT_THREAD_READY, RT_THREAD_SUSPEND, RT_THREAD_RUNNING} \<Longrightarrow> th_mask s t \<noteq> 0"
  by (auto simp: kernel_wf_def table_wf_def)

lemma kernel_wf_prio:
  "kernel_wf s \<Longrightarrow> th_state s t \<in> {RT_THREAD_READY, RT_THREAD_SUSPEND, RT_THREAD_RUNNING} \<Longrightarrow> th_prio s t < 32"
  by (auto simp: kernel_wf_def table_wf_def mask_ok_def)

lemma kernel_wf_ready: "kernel_wf s \<Longrightarrow> th_state s t = RT_THREAD_READY \<Longrightarrow> t \<in> set (tlists s (Ready (th_prio s t)))"
  by (simp add: kernel_wf_def table_wf_def lists_wf_def)

lemma kernel_wf_distinct: "kernel_wf s \<Longrightarrow> distinct (tlists s h)"
  by (simp add: kernel_wf_def table_wf_def lists_wf_def)

lemma kernel_wf_bit: "kernel_wf s \<Longrightarrow> p < 32 \<Longrightarrow> bit (rt_thread_ready_priority_group s) p \<longleftrightarrow> tlists s (Ready p) \<noteq> []"
  by (simp add: kernel_wf_def table_wf_def)

lemma kernel_wf_running: "kernel_wf s \<Longrightarrow> th_state s t = RT_THREAD_RUNNING \<Longrightarrow> rt_current_thread s = Some t"
  by (simp add: kernel_wf_def current_ok_def)

lemma kernel_wf_current: "kernel_wf s \<Longrightarrow> rt_current_thread s = Some t \<Longrightarrow> th_state s t \<noteq> RT_THREAD_READY"
  by (simp add: kernel_wf_def current_ok_def)

lemma group_zero_no_ready:
  assumes w: "kernel_wf s" and g: "rt_thread_ready_priority_group s = 0"
  shows "th_state s t \<noteq> RT_THREAD_READY"
proof
  assume r: "th_state s t = RT_THREAD_READY"
  then have "t \<in> set (tlists s (Ready (th_prio s t)))" "th_prio s t < 32"
    using kernel_wf_ready [OF w r] kernel_wf_prio [OF w] by auto
  then have "bit (rt_thread_ready_priority_group s) (th_prio s t)" using kernel_wf_bit [OF w] by auto
  with g show False by simp
qed

text \<open>The lookup finds the first thread of the most urgent non-empty list.\<close>

lemma highest_priority_thread:
  assumes w: "kernel_wf s" and g: "rt_thread_ready_priority_group s \<noteq> 0"
  obtains t ts p where "scheduler_get_highest_priority_thread s = Some (t, p)" "tlists s (Ready p) = t # ts"
    "p < 32" "th_state s t = RT_THREAD_READY" "th_prio s t = p"
    "\<And>u. th_state s u = RT_THREAD_READY \<Longrightarrow> p \<le> th_prio s u"
proof -
  let ?p = "rt_ffs (rt_thread_ready_priority_group s) - 1"
  note least = rt_ffs_least [OF g]
  have p: "?p < 32" by (rule least)
  then have "tlists s (Ready ?p) \<noteq> []" using kernel_wf_bit [OF w p] least(1) by simp
  then obtain t ts where l: "tlists s (Ready ?p) = t # ts" by (auto simp: neq_Nil_conv)
  have "head_ok (th_state s) (th_prio s) t (Ready ?p)" using kernel_wf_queued [OF w, of t "Ready ?p"] l by simp
  moreover have "?p \<le> th_prio s u" if r: "th_state s u = RT_THREAD_READY" for u
  proof (rule ccontr)
    assume "\<not> ?p \<le> th_prio s u"
    then have "\<not> bit (rt_thread_ready_priority_group s) (th_prio s u)" using least(3) by simp
    moreover have "u \<in> set (tlists s (Ready (th_prio s u)))" "th_prio s u < 32"
      using kernel_wf_ready [OF w r] kernel_wf_prio [OF w] r by auto
    ultimately show False using kernel_wf_bit [OF w] by fastforce
  qed
  moreover have "scheduler_get_highest_priority_thread s = Some (t, ?p)"
    using l by (simp add: scheduler_get_highest_priority_thread_def Let_def)
  ultimately show ?thesis using that l p by simp
qed

lemma kernel_wf_insert:
  assumes w: "kernel_wf s" and f: "\<And>h. t \<notin> set (tlists s h)" and m: "th_mask s t \<noteq> 0"
  shows "kernel_wf (rt_schedule_insert_thread t s)"
proof (cases "rt_current_thread s = Some t")
  case True
  have "table_wf ((th_state s)(t := RT_THREAD_RUNNING)) (th_prio s) (th_mask s) (tlists s) (rt_thread_ready_priority_group s)"
    by (rule table_wf_free_state) (use w f m in \<open>simp_all add: kernel_wf_def\<close>)
  then show ?thesis
    using w True by (auto simp: insert_current kernel_wf_def th_views_state current_ok_def)
next
  case False
  have "table_wf ((th_state s)(t := RT_THREAD_READY)) (th_prio s) (th_mask s)
    (lists_append (Ready (th_prio s t)) t (tlists s)) (rt_thread_ready_priority_group s OR th_mask s t)"
    by (rule table_wf_insert) (use w f m in \<open>simp_all add: kernel_wf_def\<close>)
  then show ?thesis
    using w False by (auto simp: insert_views kernel_wf_def current_ok_def)
qed

lemma kernel_wf_remove_state:
  assumes w: "kernel_wf s" and x: "x AND 7 = x" "x \<noteq> RT_THREAD_READY"
    "x \<in> {RT_THREAD_SUSPEND, RT_THREAD_RUNNING} \<Longrightarrow> th_mask s t \<noteq> 0" "x = RT_THREAD_RUNNING \<Longrightarrow> rt_current_thread s = Some t"
  shows "kernel_wf (th_upd t (set_state x) (rt_schedule_remove_thread t s))"
  using w x table_wf_remove [of "th_state s" "th_prio s" "th_mask s" "tlists s" "rt_thread_ready_priority_group s" x t]
  by (auto simp: kernel_wf_def th_views_state remove_views current_ok_def)

section \<open>Scheduling\<close>

text \<open>
  The rescheduling decision, spelled out: nothing happens when the scheduler is locked or no
  thread is ready; the current thread goes on when it runs and is more urgent than every ready
  thread, or as urgent and has not yielded; otherwise the first thread of the most urgent list
  takes over, and a preempted thread goes to the end of its list.
\<close>

lemma rt_schedule_idle:
  "rt_scheduler_lock_nest s \<noteq> 0 \<or> rt_thread_ready_priority_group s = 0 \<Longrightarrow> rt_schedule s = Some s"
  by (auto simp: rt_schedule_def)

abbreviation (input) if_running :: "nat \<Rightarrow> 'a kernel_scheme \<Rightarrow> 'a kernel_scheme" where
  "if_running cur s \<equiv> (if th_state s cur = RT_THREAD_RUNNING then th_upd cur clear_yield s else s)"

lemma rt_schedule_eq:
  assumes "rt_scheduler_lock_nest s = 0" and "rt_thread_ready_priority_group s \<noteq> 0"
    and "scheduler_get_highest_priority_thread s = Some (t, p)" and "rt_current_thread s = Some cur" and "t \<noteq> cur"
  shows "rt_schedule s = Some (if keeps_running cur p s then stay_on cur (if_running cur s)
      else switch_to cur t p (th_state s cur = RT_THREAD_RUNNING) (if_running cur s))"
  using assms by (simp add: rt_schedule_def Let_def)

lemma if_running_views [simp]:
  "th_state (if_running cur s) = th_state s" "th_prio (if_running cur s) = th_prio s"
  "th_mask (if_running cur s) = th_mask s" "tlists (if_running cur s) = tlists s"
  "rt_thread_ready_priority_group (if_running cur s) = rt_thread_ready_priority_group s"
  "rt_current_thread (if_running cur s) = rt_current_thread s"
  by (simp_all add: th_views_clear_yield)

lemma switch_to_views:
  assumes w: "kernel_wf s" and c: "rt_current_thread s = Some cur" and t: "th_state s t = RT_THREAD_READY"
    and i: "i \<longleftrightarrow> th_state s cur = RT_THREAD_RUNNING"
  shows "th_state (switch_to cur t p i s) =
      (if i then (th_state s)(cur := RT_THREAD_READY, t := RT_THREAD_RUNNING) else (th_state s)(t := RT_THREAD_RUNNING))"
    and "th_prio (switch_to cur t p i s) = th_prio s" and "th_mask (switch_to cur t p i s) = th_mask s"
    and "rt_current_thread (switch_to cur t p i s) = Some t"
    and "tlists (switch_to cur t p i s) =
      lists_remove t (if i then lists_append (Ready (th_prio s cur)) cur (tlists s) else tlists s)"
    and "kernel_wf (switch_to cur t p i s)"
proof -
  have n: "t \<noteq> cur" using kernel_wf_current [OF w c] t by auto
  show st: "th_state (switch_to cur t p i s) =
      (if i then (th_state s)(cur := RT_THREAD_READY, t := RT_THREAD_RUNNING) else (th_state s)(t := RT_THREAD_RUNNING))"
    using n by (simp add: switch_to_def Let_def th_views_state insert_views)
  show pr: "th_prio (switch_to cur t p i s) = th_prio s" and mk: "th_mask (switch_to cur t p i s) = th_mask s"
    and cu: "rt_current_thread (switch_to cur t p i s) = Some t"
    by (simp_all add: switch_to_def Let_def th_views_state)
  show L: "tlists (switch_to cur t p i s) =
      lists_remove t (if i then lists_append (Ready (th_prio s cur)) cur (tlists s) else tlists s)"
    using n by (simp add: switch_to_def Let_def remove_views insert_views)
  let ?g = "if i then rt_thread_ready_priority_group s OR th_mask s cur else rt_thread_ready_priority_group s"
  have g: "rt_thread_ready_priority_group (switch_to cur t p i s) =
      (if tlists (switch_to cur t p i s) (Ready (th_prio s t)) = [] then ?g AND NOT (th_mask s t) else ?g)"
    using n by (simp add: switch_to_def Let_def remove_views insert_views)
  have m: "th_mask s t \<noteq> 0" using kernel_wf_mask [OF w] t by simp
  have table: "table_wf (th_state s) (th_prio s) (th_mask s) (tlists s) (rt_thread_ready_priority_group s)"
    using w by (simp add: kernel_wf_def)
  have tab: "table_wf (th_state (switch_to cur t p i s)) (th_prio s) (th_mask s) (tlists (switch_to cur t p i s))
      (rt_thread_ready_priority_group (switch_to cur t p i s))"
  proof (cases i)
    case True
    then have r: "th_state s cur = RT_THREAD_RUNNING" using i by simp
    have "table_wf ((th_state s)(cur := RT_THREAD_READY)) (th_prio s) (th_mask s)
        (lists_append (Ready (th_prio s cur)) cur (tlists s)) (rt_thread_ready_priority_group s OR th_mask s cur)"
      by (rule table_wf_insert [OF table]) (use kernel_wf_free [OF w] kernel_wf_mask [OF w] r in auto)
    from table_wf_remove [OF this, of RT_THREAD_RUNNING t] m show ?thesis
      unfolding g st L using True by (simp split: if_split_asm)
  next
    case False
    with table_wf_remove [OF table, of RT_THREAD_RUNNING t] m show ?thesis
      unfolding g st L by (simp split: if_split_asm)
  qed
  have only: "th_state s u \<noteq> RT_THREAD_RUNNING" if "u \<noteq> cur \<or> \<not> i" for u
    using kernel_wf_running [OF w, of u] c i that by auto
  have "current_ok (th_state (switch_to cur t p i s)) (Some t)"
    unfolding st current_ok_def using n only by (cases i) simp_all
  with tab show "kernel_wf (switch_to cur t p i s)"
    unfolding kernel_wf_def cu pr mk by blast
qed

lemma stay_on_views:
  assumes w: "kernel_wf s" and c: "rt_current_thread s = Some cur" and r: "th_state s cur = RT_THREAD_RUNNING"
  shows "th_state (stay_on cur s) = th_state s" and "th_prio (stay_on cur s) = th_prio s"
    and "rt_current_thread (stay_on cur s) = Some cur" and "kernel_wf (stay_on cur s)"
proof -
  show "th_state (stay_on cur s) = th_state s" "th_prio (stay_on cur s) = th_prio s"
    "rt_current_thread (stay_on cur s) = Some cur"
    using r c by (auto simp: stay_on_def th_views_state)
  show "kernel_wf (stay_on cur s)"
    unfolding stay_on_def using kernel_wf_mask [OF w] r c w
    by (intro kernel_wf_remove_state) auto
qed

definition most_urgent :: "'a kernel_scheme \<Rightarrow> nat \<Rightarrow> bool" where
  "most_urgent s t \<longleftrightarrow> (\<forall>u. th_state s u = RT_THREAD_READY \<longrightarrow> th_prio s t \<le> th_prio s u)"

text \<open>
  \<open>rt_schedule\<close> always returns once the scheduler has been started, and keeps the invariant.
  When it is not locked, a running current thread is one of the most urgent threads afterwards;
  it runs if any thread is ready or the caller was still running.
\<close>

lemma schedule_cases:
  assumes w: "kernel_wf s" and c: "rt_current_thread s = Some cur"
  obtains (same) "rt_scheduler_lock_nest s \<noteq> 0 \<or> rt_thread_ready_priority_group s = 0" "rt_schedule s = Some s"
  | (stay) p where "rt_schedule s = Some (stay_on cur (th_upd cur clear_yield s))" "keeps_running cur p s"
      "th_state s cur = RT_THREAD_RUNNING" "most_urgent s cur"
  | (switch) t ts p where "rt_schedule s = Some (switch_to cur t p (th_state s cur = RT_THREAD_RUNNING) (if_running cur s))"
      "tlists s (Ready p) = t # ts" "th_state s t = RT_THREAD_READY" "th_prio s t = p" "most_urgent s t" "t \<noteq> cur"
      "th_state s cur = RT_THREAD_RUNNING \<Longrightarrow> p \<le> th_prio s cur" "\<not> keeps_running cur p s"
proof (cases "rt_scheduler_lock_nest s = 0 \<and> rt_thread_ready_priority_group s \<noteq> 0")
  case False
  then show ?thesis using same rt_schedule_idle [of s] by auto
next
  case True
  then have l: "rt_scheduler_lock_nest s = 0" and g: "rt_thread_ready_priority_group s \<noteq> 0" by auto
  obtain t ts p where h: "scheduler_get_highest_priority_thread s = Some (t, p)" "tlists s (Ready p) = t # ts"
    "p < 32" "th_state s t = RT_THREAD_READY" "th_prio s t = p"
    "\<And>u. th_state s u = RT_THREAD_READY \<Longrightarrow> p \<le> th_prio s u"
    using highest_priority_thread [OF w g] by metis
  have n: "t \<noteq> cur" using kernel_wf_current [OF w c] h(4) by auto
  note eq = rt_schedule_eq [OF l g h(1) c n]
  show ?thesis
  proof (cases "keeps_running cur p s")
    case True
    then have r: "th_state s cur = RT_THREAD_RUNNING" and le: "th_prio s cur \<le> p" by (auto simp: keeps_running_def)
    have "most_urgent s cur" unfolding most_urgent_def using h(6) le order_trans by blast
    then show ?thesis using stay [OF _ True r] eq True r by simp
  next
    case False
    have u: "most_urgent s t" unfolding most_urgent_def using h(5,6) by simp
    have le: "p \<le> th_prio s cur" if "th_state s cur = RT_THREAD_RUNNING"
      using False that by (auto simp: keeps_running_def)
    show ?thesis using eq False by (intro switch [OF _ h(2,4,5) u n le False]) simp_all
  qed
qed

lemma schedule_total:
  assumes "kernel_wf s" and "rt_current_thread s = Some cur"
  obtains s' where "rt_schedule s = Some s'"
  using assms by (cases rule: schedule_cases) auto

lemma kernel_wf_clear_yield: "kernel_wf s \<Longrightarrow> kernel_wf (th_upd t clear_yield s)"
  by (simp add: kernel_wf_def th_views_clear_yield)

lemma kernel_wf_if_running: "kernel_wf s \<Longrightarrow> kernel_wf (if_running t s)"
  by (simp add: kernel_wf_clear_yield)

lemma kernel_wf_schedule:
  assumes w: "kernel_wf s" and c: "rt_current_thread s = Some cur" and s: "rt_schedule s = Some s'"
  shows "kernel_wf s'"
  using w c
proof (cases rule: schedule_cases)
  case same
  then show ?thesis using s w by simp
next
  case (stay p)
  then show ?thesis
    using s c stay_on_views(4) [OF kernel_wf_clear_yield [OF w]] by (simp add: th_views_clear_yield)
next
  case (switch t ts p)
  then have "s' = switch_to cur t p (th_state s cur = RT_THREAD_RUNNING) (if_running cur s)" using s by simp
  then show ?thesis
    using switch_to_views(6) [OF kernel_wf_if_running [OF w]] c switch by (simp only: if_running_views)
qed

lemma schedule_picks:
  assumes w: "kernel_wf s" and c: "rt_current_thread s = Some cur" and s: "rt_schedule s = Some s'"
    and l: "rt_scheduler_lock_nest s = 0"
    and r: "th_state s cur = RT_THREAD_RUNNING \<or> rt_thread_ready_priority_group s \<noteq> 0"
  shows "\<exists>c'. rt_current_thread s' = Some c' \<and> th_state s' c' = RT_THREAD_RUNNING \<and> most_urgent s' c'"
  using w c
proof (cases rule: schedule_cases)
  case same
  then have "s' = s" "th_state s cur = RT_THREAD_RUNNING" using s l r by simp_all
  then show ?thesis using c group_zero_no_ready [OF w] same l by (simp add: most_urgent_def)
next
  case (stay p)
  let ?s = "th_upd cur clear_yield s"
  have "rt_current_thread ?s = Some cur" "th_state ?s cur = RT_THREAD_RUNNING"
    using c stay by (simp_all add: th_views_clear_yield)
  note v = stay_on_views [OF kernel_wf_clear_yield [OF w] this]
  show ?thesis using stay s v by (simp add: most_urgent_def th_views_clear_yield)
next
  case (switch t ts p)
  let ?i = "th_state s cur = RT_THREAD_RUNNING"
  have s': "s' = switch_to cur t p ?i (if_running cur s)" using s switch by simp
  note v = switch_to_views [OF kernel_wf_if_running [OF w], unfolded if_running_views, OF c switch(3) refl, of p]
  have le: "th_prio s t \<le> th_prio s u" if "th_state s u = RT_THREAD_READY \<or> u = cur \<and> ?i" for u
    using that switch(4,5,7) by (auto simp: most_urgent_def)
  show ?thesis
    unfolding s' most_urgent_def v using le by auto
qed

end
