(* ===== verification/KTimer.thy ===== *)
theory KTimer
  imports KSched
begin

text \<open>
  The timers of the RT-Thread kernel (\<open>src/timer.c\<close>, one skip list level) as far as they do not
  involve threads: initialisation, removal, stop, control, the next time-out of a list, and the
  first half of \<open>rt_timer_start\<close>, which computes the time-out and inserts the timer into the hard
  or the soft list. The starts that wake the timer thread, and the check routines that call the
  time-out functions, are in theory \<open>KThread\<close>.

  Ticks wrap around. \<open>timer_walk\<close> is the insertion loop with its comparison of wrapped
  differences; \<open>stays_window\<close> shows that it is the comparison of the distances from a common
  base as long as all time-outs lie within half the range of it, and \<open>timer_walk_ordered\<close> that the
  lists stay ordered by these distances, equal time-outs in the order of their start.
\<close>

section \<open>Operations\<close>

abbreviation (input) RT_TICK_MAX :: u32 where "RT_TICK_MAX \<equiv> 0xFFFFFFFF"
abbreviation (input) RT_TIMER_FLAG_ACTIVATED :: u8 where "RT_TIMER_FLAG_ACTIVATED \<equiv> 1"
abbreviation (input) RT_TIMER_FLAG_PERIODIC :: u8 where "RT_TIMER_FLAG_PERIODIC \<equiv> 2"
abbreviation (input) RT_TIMER_FLAG_SOFT_TIMER :: u8 where "RT_TIMER_FLAG_SOFT_TIMER \<equiv> 4"

definition tm_upd :: "timer_id \<Rightarrow> (rt_timer \<Rightarrow> rt_timer) \<Rightarrow> 'a kernel_scheme \<Rightarrow> 'a kernel_scheme" where
  "tm_upd t f s = s\<lparr>rt_timers := (rt_timers s)(t := f (rt_timers s t))\<rparr>"

definition set_flag :: "u8 \<Rightarrow> rt_timer \<Rightarrow> rt_timer" where
  "set_flag m tm = tm\<lparr>tm_flag := tm_flag tm OR m\<rparr>"

definition clear_flag :: "u8 \<Rightarrow> rt_timer \<Rightarrow> rt_timer" where
  "clear_flag m tm = tm\<lparr>tm_flag := tm_flag tm AND NOT m\<rparr>"

definition tm_active :: "rt_timer \<Rightarrow> bool" where
  "tm_active tm \<longleftrightarrow> tm_flag tm AND RT_TIMER_FLAG_ACTIVATED \<noteq> 0"

definition tm_periodic :: "rt_timer \<Rightarrow> bool" where
  "tm_periodic tm \<longleftrightarrow> tm_flag tm AND RT_TIMER_FLAG_PERIODIC \<noteq> 0"

definition tm_soft :: "rt_timer \<Rightarrow> bool" where
  "tm_soft tm \<longleftrightarrow> tm_flag tm AND RT_TIMER_FLAG_SOFT_TIMER \<noteq> 0"

definition timer_init :: "timer_id \<Rightarrow> timeout_func \<Rightarrow> u32 \<Rightarrow> u8 \<Rightarrow> 'a kernel_scheme \<Rightarrow> 'a kernel_scheme" where
  "timer_init t timeout time flag =
     tm_upd t (\<lambda>_. \<lparr>tm_flag = flag AND NOT RT_TIMER_FLAG_ACTIVATED, tm_func = timeout,
       tm_init_tick = time, tm_timeout_tick = 0\<rparr>)"

definition timer_list_next_timeout :: "timer_head \<Rightarrow> 'a kernel_scheme \<Rightarrow> u32" where
  "timer_list_next_timeout h s = (case rows s h of [] \<Rightarrow> RT_TICK_MAX | t # _ \<Rightarrow> tm_timeout_tick (rt_timers s t))"

definition timer_remove :: "timer_id \<Rightarrow> 'a kernel_scheme \<Rightarrow> 'a kernel_scheme" where
  "timer_remove t s = s\<lparr>rows := lists_remove t (rows s)\<rparr>"

definition rt_timer_detach :: "timer_id \<Rightarrow> 'a kernel_scheme \<Rightarrow> 'a kernel_scheme" where
  "rt_timer_detach t s = tm_upd t (clear_flag RT_TIMER_FLAG_ACTIVATED) (timer_remove t s)"

definition rt_timer_stop :: "timer_id \<Rightarrow> 'a kernel_scheme \<Rightarrow> int \<times> 'a kernel_scheme" where
  "rt_timer_stop t s =
     (if \<not> tm_active (rt_timers s t) then (- RT_ERROR, s)
      else (RT_EOK, tm_upd t (clear_flag RT_TIMER_FLAG_ACTIVATED) (timer_remove t s)))"

datatype timer_cmd = RT_TIMER_CTRL_SET_TIME | RT_TIMER_CTRL_GET_TIME | RT_TIMER_CTRL_SET_ONESHOT
  | RT_TIMER_CTRL_SET_PERIODIC | RT_TIMER_CTRL_GET_STATE | Unknown_cmd

text \<open>The value the argument points to is passed in and returned.\<close>

fun rt_timer_control :: "timer_id \<Rightarrow> timer_cmd \<Rightarrow> u32 \<Rightarrow> 'a kernel_scheme \<Rightarrow> u32 \<times> 'a kernel_scheme" where
  "rt_timer_control t RT_TIMER_CTRL_GET_TIME arg s = (tm_init_tick (rt_timers s t), s)"
| "rt_timer_control t RT_TIMER_CTRL_SET_TIME arg s = (arg, tm_upd t (\<lambda>tm. tm\<lparr>tm_init_tick := arg\<rparr>) s)"
| "rt_timer_control t RT_TIMER_CTRL_SET_ONESHOT arg s = (arg, tm_upd t (clear_flag RT_TIMER_FLAG_PERIODIC) s)"
| "rt_timer_control t RT_TIMER_CTRL_SET_PERIODIC arg s = (arg, tm_upd t (set_flag RT_TIMER_FLAG_PERIODIC) s)"
| "rt_timer_control t RT_TIMER_CTRL_GET_STATE arg s =
     ((if tm_active (rt_timers s t) then 1 else 0), s)"
| "rt_timer_control t Unknown_cmd arg s = (arg, s)"

text \<open>The insertion loop of \<open>rt_timer_start\<close>: \<open>x\<close> goes before the first timer that is due later.\<close>

fun timer_walk :: "(timer_id \<Rightarrow> u32) \<Rightarrow> timer_id \<Rightarrow> timer_id list \<Rightarrow> timer_id list" where
  "timer_walk key x [] = [x]"
| "timer_walk key x (t # ts) =
     (if key t - key x = 0 then t # timer_walk key x ts
      else if key t - key x < RT_TICK_MAX div 2 then x # t # ts
      else t # timer_walk key x ts)"

definition timer_keys :: "'a kernel_scheme \<Rightarrow> timer_id \<Rightarrow> u32" where
  "timer_keys s t = tm_timeout_tick (rt_timers s t)"

definition timer_head_of :: "rt_timer \<Rightarrow> timer_head" where
  "timer_head_of tm = (if tm_soft tm then Soft else Hard)"

text \<open>\<open>rt_timer_start\<close> up to the point where the timer is queued and marked active.\<close>

definition timer_arm :: "timer_id \<Rightarrow> 'a kernel_scheme \<Rightarrow> 'a kernel_scheme option" where
  "timer_arm t s =
     (let s = tm_upd t (clear_flag RT_TIMER_FLAG_ACTIVATED) (timer_remove t s)
      in if tm_init_tick (rt_timers s t) < RT_TICK_MAX div 2 then
           let s = tm_upd t (\<lambda>tm. tm\<lparr>tm_timeout_tick := rt_tick s + tm_init_tick tm\<rparr>) s;
               h = timer_head_of (rt_timers s t);
               s = s\<lparr>rows := (rows s)(h := timer_walk (timer_keys s) t (rows s h))\<rparr>
           in Some (tm_upd t (set_flag RT_TIMER_FLAG_ACTIVATED) s)
         else None)"

section \<open>Order of the timer lists\<close>

definition timer_stays :: "(timer_id \<Rightarrow> u32) \<Rightarrow> timer_id \<Rightarrow> timer_id \<Rightarrow> bool" where
  "timer_stays key y x \<longleftrightarrow> key y - key x = 0 \<or> \<not> key y - key x < RT_TICK_MAX div 2"

interpretation timer_rows: stable_insertion "timer_walk key" "timer_stays key" for key
proof
  show "timer_walk key x xs = takeWhile (\<lambda>y. timer_stays key y x) xs @ x # dropWhile (\<lambda>y. timer_stays key y x) xs" for x xs
    by (induction xs) (auto simp: timer_stays_def)
qed

lemma unat_sub_wrap: "unat (x :: u32) < unat y \<Longrightarrow> unat (x - y) = 4294967296 + unat x - unat y"
  by (simp add: unat_sub_if_size word_size)

text \<open>Within half the range of a base the wrapped comparison is the comparison of distances.\<close>

lemma diff_window:
  assumes "a - b < (0x7FFFFFFF :: u32)" and "c - b < 0x7FFFFFFF"
  shows "a - c = 0 \<or> \<not> a - c < 0x7FFFFFFF \<longleftrightarrow> unat (a - b) \<le> unat (c - b)"
proof -
  let ?x = "a - b" and ?y = "c - b"
  have d: "a - c = ?x - ?y" by simp
  have x: "unat ?x < 2147483647" and y: "unat ?y < 2147483647"
    using assms by (simp_all add: word_less_nat_alt)
  show ?thesis
  proof (cases "unat ?y < unat ?x")
    case True
    then have "unat (?x - ?y) = unat ?x - unat ?y" by (intro unat_sub) (simp add: word_le_nat_alt)
    then show ?thesis using True x unfolding d by (simp add: word_less_nat_alt unat_eq_0 [symmetric])
  next
    case False
    show ?thesis
    proof (cases "?x = ?y")
      case True
      then show ?thesis by simp
    next
      case ne: False
      then have lt: "unat ?x < unat ?y" using False by (metis linorder_neqE_nat word_unat_eq_iff)
      have "\<not> unat (?x - ?y) < 2147483647" using unat_sub_wrap [OF lt] lt y by linarith
      then show ?thesis using lt y unfolding d word_less_nat_alt by simp
    qed
  qed
qed

lemma stays_window:
  assumes "key y - b < 0x7FFFFFFF" and "key x - b < 0x7FFFFFFF"
  shows "timer_stays key y x \<longleftrightarrow> unat (key y - b) \<le> unat (key x - b)"
  using diff_window [OF assms] by (simp add: timer_stays_def)

text \<open>A list is ordered from a base when all its time-outs are within half the range of it and increase.\<close>

definition ordered_from :: "u32 \<Rightarrow> (timer_id \<Rightarrow> u32) \<Rightarrow> timer_id list \<Rightarrow> bool" where
  "ordered_from b key xs \<longleftrightarrow>
     (\<forall>t\<in>set xs. key t - b < 0x7FFFFFFF) \<and> sorted_wrt (\<lambda>y x. unat (key y - b) \<le> unat (key x - b)) xs"

lemma ordered_from_Nil [simp]: "ordered_from b key []"
  by (simp add: ordered_from_def)

lemma ordered_from_stays:
  assumes "\<And>t. t \<in> set xs \<Longrightarrow> key t - b < 0x7FFFFFFF"
  shows "sorted_wrt (timer_stays key) xs \<longleftrightarrow> sorted_wrt (\<lambda>y x. unat (key y - b) \<le> unat (key x - b)) xs"
  using assms by (induction xs) (auto simp: stays_window [where b = b])

lemma timer_walk_ordered:
  assumes o: "ordered_from b key xs" and x: "key x - b < 0x7FFFFFFF"
  shows "ordered_from b key (timer_walk key x xs)"
proof -
  have w: "key t - b < 0x7FFFFFFF" if "t \<in> set (timer_walk key x xs)" for t
    using that o x by (auto simp: ordered_from_def timer_rows.set_ins)
  have s: "sorted_wrt (timer_stays key) xs"
    using o ordered_from_stays [of xs key b] by (auto simp: ordered_from_def)
  have "sorted_wrt (timer_stays key) (timer_walk key x xs)"
  proof (rule timer_rows.sorted_ins [OF s])
    show "timer_stays key y x \<or> timer_stays key x y" if "y \<in> set xs" for y
      using stays_window [of key y b x] stays_window [of key x b y] that w by (auto simp: timer_rows.set_ins)
    show "timer_stays key x z" if "y \<in> set xs" "z \<in> set xs" "timer_stays key x y" "timer_stays key y z" for y z
      using stays_window [of key x b y] stays_window [of key y b z] stays_window [of key x b z] that w
      by (auto simp: timer_rows.set_ins)
  qed
  then show ?thesis
    using w ordered_from_stays [of "timer_walk key x xs" key b] by (auto simp: ordered_from_def)
qed

lemma ordered_from_remove: "ordered_from b key xs \<Longrightarrow> ordered_from b key (removeAll t xs)"
  by (auto simp: ordered_from_def removeAll_filter_not_eq intro: sorted_wrt_filter)

lemma ordered_from_cong:
  "(\<And>t. t \<in> set xs \<Longrightarrow> key t = key' t) \<Longrightarrow> ordered_from b key xs = ordered_from b key' xs"
  unfolding ordered_from_def by (auto simp: sorted_wrt_iff_nth_less)

text \<open>The base may move up to the first time-out.\<close>

lemma ordered_from_shift:
  assumes o: "ordered_from b key xs" and b: "b' - b < 0x7FFFFFFF" and "\<And>t. t \<in> set xs \<Longrightarrow> unat (b' - b) \<le> unat (key t - b)"
  shows "ordered_from b' key xs"
proof -
  have d: "unat (key t - b') = unat (key t - b) - unat (b' - b)" if "t \<in> set xs" for t
  proof -
    have "key t - b' = (key t - b) - (b' - b)" by simp
    then show ?thesis using assms(3) [OF that] by (simp only: unat_sub word_le_nat_alt)
  qed
  have "key t - b' < 0x7FFFFFFF" if "t \<in> set xs" for t
  proof -
    have "unat (key t - b) < 2147483647" using o that by (auto simp: ordered_from_def word_less_nat_alt)
    then show ?thesis using d [OF that] by (simp add: word_less_nat_alt)
  qed
  moreover have "sorted_wrt (\<lambda>y x. unat (key y - b') \<le> unat (key x - b')) xs"
    using o d unfolding ordered_from_def sorted_wrt_iff_nth_less by (auto intro: diff_le_mono)
  ultimately show ?thesis by (simp add: ordered_from_def)
qed
section \<open>The invariant of the timers\<close>

lemma tm_flags_bit:
  "tm_active tm \<longleftrightarrow> bit (tm_flag tm) 0" "tm_periodic tm \<longleftrightarrow> bit (tm_flag tm) 1" "tm_soft tm \<longleftrightarrow> bit (tm_flag tm) 2"
  using and_exp_eq_0_iff_not_bit [of "tm_flag tm" 0] and_exp_eq_0_iff_not_bit [of "tm_flag tm" 1]
    and_exp_eq_0_iff_not_bit [of "tm_flag tm" 2]
  by (simp_all add: tm_active_def tm_periodic_def tm_soft_def)

lemma bits_1_2: "bit (1 :: u8) n \<longleftrightarrow> n = 0" "bit (2 :: u8) n \<longleftrightarrow> n = 1"
proof -
  show "bit (1 :: u8) n \<longleftrightarrow> n = 0" by (simp add: bit_1_iff)
  have "bit (push_bit 1 1 :: u8) n \<longleftrightarrow> n = 1" by (auto simp: bit_simps)
  then show "bit (2 :: u8) n \<longleftrightarrow> n = 1" by simp
qed

lemma flags_clear_active [simp]:
  "\<not> tm_active (clear_flag RT_TIMER_FLAG_ACTIVATED tm)"
  "tm_periodic (clear_flag RT_TIMER_FLAG_ACTIVATED tm) = tm_periodic tm"
  "tm_soft (clear_flag RT_TIMER_FLAG_ACTIVATED tm) = tm_soft tm"
  by (simp_all add: tm_flags_bit clear_flag_def bit_and_iff bit_not_iff bits_1_2)

lemma flags_set_active [simp]:
  "tm_active (set_flag RT_TIMER_FLAG_ACTIVATED tm)"
  "tm_periodic (set_flag RT_TIMER_FLAG_ACTIVATED tm) = tm_periodic tm"
  "tm_soft (set_flag RT_TIMER_FLAG_ACTIVATED tm) = tm_soft tm"
  by (simp_all add: tm_flags_bit set_flag_def bit_or_iff bits_1_2)

lemma flags_periodic [simp]:
  "tm_active (set_flag RT_TIMER_FLAG_PERIODIC tm) = tm_active tm" "tm_soft (set_flag RT_TIMER_FLAG_PERIODIC tm) = tm_soft tm"
  "tm_active (clear_flag RT_TIMER_FLAG_PERIODIC tm) = tm_active tm" "tm_soft (clear_flag RT_TIMER_FLAG_PERIODIC tm) = tm_soft tm"
  by (simp_all add: tm_flags_bit set_flag_def clear_flag_def bit_or_iff bit_and_iff bit_not_iff bits_1_2)

lemma flag_fields [simp]:
  "tm_func (set_flag m tm) = tm_func tm" "tm_init_tick (set_flag m tm) = tm_init_tick tm"
  "tm_timeout_tick (set_flag m tm) = tm_timeout_tick tm"
  "tm_func (clear_flag m tm) = tm_func tm" "tm_init_tick (clear_flag m tm) = tm_init_tick tm"
  "tm_timeout_tick (clear_flag m tm) = tm_timeout_tick tm"
  by (simp_all add: set_flag_def clear_flag_def)

lemma tick_fields [simp]:
  "tm_active (tm\<lparr>tm_timeout_tick := k\<rparr>) = tm_active tm" "tm_periodic (tm\<lparr>tm_timeout_tick := k\<rparr>) = tm_periodic tm"
  "tm_soft (tm\<lparr>tm_timeout_tick := k\<rparr>) = tm_soft tm"
  "tm_active (tm\<lparr>tm_init_tick := k\<rparr>) = tm_active tm" "tm_periodic (tm\<lparr>tm_init_tick := k\<rparr>) = tm_periodic tm"
  "tm_soft (tm\<lparr>tm_init_tick := k\<rparr>) = tm_soft tm"
  by (simp_all add: tm_active_def tm_periodic_def tm_soft_def)

text \<open>
  Every timer is queued at most once; the timers in the two lists are active and of the kind of
  their list. \<open>tm_wf\<close> is this on the components. (An active timer need not be queued: a periodic
  timer that is made a one shot timer by its own time-out function keeps the flag.)
\<close>

definition tm_wf :: "(timer_id \<Rightarrow> rt_timer) \<Rightarrow> (timer_head \<Rightarrow> timer_id list) \<Rightarrow> bool" where
  "tm_wf T R \<longleftrightarrow>
     (\<forall>h. distinct (R h)) \<and> (\<forall>t h h'. t \<in> set (R h) \<longrightarrow> t \<in> set (R h') \<longrightarrow> h = h') \<and>
     (\<forall>t\<in>set (R Hard). tm_active (T t) \<and> \<not> tm_soft (T t)) \<and>
     (\<forall>t\<in>set (R Soft). tm_active (T t) \<and> tm_soft (T t))"

definition timers_wf :: "'a kernel_scheme \<Rightarrow> bool" where
  "timers_wf s \<longleftrightarrow> tm_wf (rt_timers s) (rows s)"

lemma tm_upd_views [simp]:
  "rows (tm_upd t f s) = rows s" "rt_timers (tm_upd t f s) = (rt_timers s)(t := f (rt_timers s t))"
  "rt_tick (tm_upd t f s) = rt_tick s" "tlists (tm_upd t f s) = tlists s" "rt_threads (tm_upd t f s) = rt_threads s"
  "rt_thread_ready_priority_group (tm_upd t f s) = rt_thread_ready_priority_group s"
  "rt_current_thread (tm_upd t f s) = rt_current_thread s" "rt_scheduler_lock_nest (tm_upd t f s) = rt_scheduler_lock_nest s"
  "soft_timer_busy (tm_upd t f s) = soft_timer_busy s"
  "th_state (tm_upd t f s) = th_state s" "th_prio (tm_upd t f s) = th_prio s" "th_mask (tm_upd t f s) = th_mask s"
  by (simp_all add: tm_upd_def th_state_def th_prio_def th_mask_def fun_eq_iff)

lemma timer_remove_views [simp]:
  "rows (timer_remove t s) = lists_remove t (rows s)" "rt_timers (timer_remove t s) = rt_timers s"
  "rt_tick (timer_remove t s) = rt_tick s" "tlists (timer_remove t s) = tlists s" "rt_threads (timer_remove t s) = rt_threads s"
  "rt_thread_ready_priority_group (timer_remove t s) = rt_thread_ready_priority_group s"
  "rt_current_thread (timer_remove t s) = rt_current_thread s" "rt_scheduler_lock_nest (timer_remove t s) = rt_scheduler_lock_nest s"
  "soft_timer_busy (timer_remove t s) = soft_timer_busy s"
  "th_state (timer_remove t s) = th_state s" "th_prio (timer_remove t s) = th_prio s" "th_mask (timer_remove t s) = th_mask s"
  by (simp_all add: timer_remove_def th_state_def th_prio_def th_mask_def fun_eq_iff)

lemma tm_wf_stop:
  assumes "tm_wf T R"
  shows "tm_wf (T(t := clear_flag RT_TIMER_FLAG_ACTIVATED (T t))) (lists_remove t R)"
  using assms by (auto simp: tm_wf_def distinct_removeAll)

lemma tm_wf_upd:
  assumes "tm_wf T R" and "tm_active (f (T t)) = tm_active (T t)" and "tm_soft (f (T t)) = tm_soft (T t)"
  shows "tm_wf (T(t := f (T t))) R"
  using assms by (auto simp: tm_wf_def)

text \<open>A timer that is in no list is queued in the list of its kind and marked active.\<close>

lemma tm_wf_queue:
  assumes w: "tm_wf T R" and f: "\<And>h. t \<notin> set (R h)" and a: "tm_active tm" and k: "h = timer_head_of tm"
    and ys: "distinct ys" "set ys = insert t (set (R h))"
  shows "tm_wf (T(t := tm)) (R(h := ys))"
proof -
  have at: "set ((R(h := ys)) j) = (if j = h then insert t (set (R h)) else set (R j))" for j using ys by simp
  have "i = j" if "u \<in> set ((R(h := ys)) i)" "u \<in> set ((R(h := ys)) j)" for u i j
    using that w f unfolding at tm_wf_def by (metis insert_iff)
  moreover have "distinct ((R(h := ys)) j)" for j using w ys by (simp add: tm_wf_def)
  moreover have "tm_active ((T(t := tm)) u) \<and> (j = Hard \<longrightarrow> \<not> tm_soft ((T(t := tm)) u)) \<and> (j = Soft \<longrightarrow> tm_soft ((T(t := tm)) u))"
    if "u \<in> set ((R(h := ys)) j)" "j \<in> {Hard, Soft}" for u j
  proof (cases "u = t")
    case True
    then have "j = h" using that(1) f unfolding at by (auto split: if_splits)
    then show ?thesis using True a k by (auto simp: timer_head_of_def)
  next
    case False
    then have "u \<in> set (R j)" using that(1) unfolding at by (auto split: if_splits)
    then show ?thesis using False w that(2) by (auto simp: tm_wf_def)
  qed
  ultimately show ?thesis unfolding tm_wf_def by blast
qed

lemma timers_wf_free: "timers_wf s \<Longrightarrow> \<not> tm_active (rt_timers s t) \<Longrightarrow> t \<notin> set (rows s Hard) \<and> t \<notin> set (rows s Soft)"
  by (auto simp: timers_wf_def tm_wf_def)

definition armed :: "timer_id \<Rightarrow> 'a kernel_scheme \<Rightarrow> rt_timer" where
  "armed t s = set_flag RT_TIMER_FLAG_ACTIVATED ((clear_flag RT_TIMER_FLAG_ACTIVATED (rt_timers s t))
     \<lparr>tm_timeout_tick := rt_tick s + tm_init_tick (rt_timers s t)\<rparr>)"

lemma armed_views [simp]:
  "tm_active (armed t s)" "tm_periodic (armed t s) = tm_periodic (rt_timers s t)"
  "tm_soft (armed t s) = tm_soft (rt_timers s t)" "tm_func (armed t s) = tm_func (rt_timers s t)"
  "tm_init_tick (armed t s) = tm_init_tick (rt_timers s t)"
  "tm_timeout_tick (armed t s) = rt_tick s + tm_init_tick (rt_timers s t)"
  by (simp_all add: armed_def)

lemma timer_keys_upd [simp]:
  "timer_keys (tm_upd t f s) = (timer_keys s)(t := tm_timeout_tick (f (rt_timers s t)))"
  "timer_keys (timer_remove t s) = timer_keys s" "timer_keys (th_upd u g s) = timer_keys s"
  by (auto simp: timer_keys_def)

text \<open>Starting a timer fails only for an interval of half the tick range or more.\<close>

lemma timer_arm_eq:
  "timer_arm t s = (if tm_init_tick (rt_timers s t) < 0x7FFFFFFF then
     Some (s\<lparr>rt_timers := (rt_timers s)(t := armed t s),
       rows := (lists_remove t (rows s))(timer_head_of (rt_timers s t) :=
         timer_walk ((timer_keys s)(t := rt_tick s + tm_init_tick (rt_timers s t))) t
           (removeAll t (rows s (timer_head_of (rt_timers s t)))))\<rparr>)
   else None)"
  by (simp add: timer_arm_def Let_def timer_head_of_def) (simp add: tm_upd_def timer_remove_def armed_def)

lemma timers_wf_arm:
  assumes w: "timers_wf s" and a: "timer_arm t s = Some s'"
  shows "timers_wf s'"
proof -
  let ?h = "timer_head_of (rt_timers s t)"
  have "tm_wf ((rt_timers s)(t := clear_flag RT_TIMER_FLAG_ACTIVATED (rt_timers s t))) (lists_remove t (rows s))"
    using w tm_wf_stop by (simp add: timers_wf_def)
  then have "tm_wf (((rt_timers s)(t := clear_flag RT_TIMER_FLAG_ACTIVATED (rt_timers s t)))(t := armed t s))
    ((lists_remove t (rows s))(?h := timer_walk ((timer_keys s)(t := rt_tick s + tm_init_tick (rt_timers s t))) t (removeAll t (rows s ?h))))"
  proof (rule tm_wf_queue)
    have "distinct (removeAll t (rows s ?h))" using w by (simp add: timers_wf_def tm_wf_def distinct_removeAll)
    then show "distinct (timer_walk ((timer_keys s)(t := rt_tick s + tm_init_tick (rt_timers s t))) t (removeAll t (rows s ?h)))"
      by (rule timer_rows.distinct_ins) simp
  qed (simp_all add: timer_head_of_def timer_rows.set_ins)
  then show ?thesis using a by (auto simp: timer_arm_eq timers_wf_def split: if_splits)
qed

lemma timers_wf_stop: "timers_wf s \<Longrightarrow> timers_wf (snd (rt_timer_stop t s))"
  using tm_wf_stop [of "rt_timers s" "rows s" t] by (simp add: timers_wf_def rt_timer_stop_def)

lemma timers_wf_detach: "timers_wf s \<Longrightarrow> timers_wf (rt_timer_detach t s)"
  using tm_wf_stop [of "rt_timers s" "rows s" t] by (simp add: timers_wf_def rt_timer_detach_def)

lemma timers_wf_control: "timers_wf s \<Longrightarrow> timers_wf (snd (rt_timer_control t cmd arg s))"
  by (cases cmd) (auto simp: timers_wf_def intro!: tm_wf_upd)

end
