(* ===== verification/KThread.thy ===== *)
theory KThread
  imports KTimer
begin

text \<open>
  The threads of the RT-Thread kernel (\<open>src/thread.c\<close>), the timer routines that deal with threads
  and time-out functions (\<open>src/timer.c\<close>), the tick (\<open>src/clock.c\<close>) and the list of the dead threads
  (\<open>src/idle.c\<close>).

  A call that gives the processor away ends the modelled operation at \<open>rt_schedule\<close>; the code after
  it runs when the thread is scheduled again and is a separate definition (\<open>rt_thread_sleep_return\<close>).
  A time-out function is \<open>rt_thread_timeout\<close> or, for \<open>Callback n\<close>, the function \<open>cb n\<close> of the
  application, an argument of the check routines: it may use every kernel operation, so the loops
  of the checks need not end and are partial functions.

  Not modelled: stacks and entry functions, object names and types, signals, \<open>RT_USING_SMP\<close>.
\<close>

section \<open>Suspending and resuming\<close>

text \<open>The thread that runs the soft timers, and the thread that runs when no other is ready.\<close>

definition timer_thread :: nat where "timer_thread = 0"
definition idle_thread :: nat where "idle_thread = 1"

definition tlist_remove :: "nat \<Rightarrow> 'a kernel_scheme \<Rightarrow> 'a kernel_scheme" where
  "tlist_remove t s = s\<lparr>tlists := lists_remove t (tlists s)\<rparr>"

definition rt_thread_resume :: "nat \<Rightarrow> 'a kernel_scheme \<Rightarrow> int \<times> 'a kernel_scheme" where
  "rt_thread_resume t s =
     (if th_state s t \<noteq> RT_THREAD_SUSPEND then (- RT_ERROR, s)
      else
        let s = tlist_remove t s;
            s = snd (rt_timer_stop (Thread_timer t) s)
        in (RT_EOK, rt_schedule_insert_thread t s))"

definition rt_thread_suspend :: "nat \<Rightarrow> 'a kernel_scheme \<Rightarrow> (int \<times> 'a kernel_scheme) option" where
  "rt_thread_suspend t s =
     (let stat = th_state s t
      in if stat \<noteq> RT_THREAD_READY \<and> stat \<noteq> RT_THREAD_RUNNING then Some (- RT_ERROR, s)
         else if stat = RT_THREAD_RUNNING \<and> rt_current_thread s \<noteq> Some t then None
         else
           let s = rt_schedule_remove_thread t s;
               s = th_upd t (set_state RT_THREAD_SUSPEND) s
           in Some (RT_EOK, snd (rt_timer_stop (Thread_timer t) s)))"

text \<open>\<open>rt_timer_start\<close>: a soft timer wakes the timer thread when it sleeps outside a time-out function.\<close>

definition rt_timer_start :: "timer_id \<Rightarrow> 'a kernel_scheme \<Rightarrow> 'a kernel_scheme option" where
  "rt_timer_start t s = do {
     s \<leftarrow> timer_arm t s;
     if tm_soft (rt_timers s t) \<and> \<not> soft_timer_busy s \<and> th_state s timer_thread = RT_THREAD_SUSPEND
     then rt_schedule (snd (rt_thread_resume timer_thread s))
     else Some s
   }"

section \<open>Life of a thread\<close>

definition thread_init :: "nat \<Rightarrow> u8 \<Rightarrow> u32 \<Rightarrow> 'a kernel_scheme \<Rightarrow> 'a kernel_scheme option" where
  "thread_init t priority tick s =
     (if priority < 32 then
        let s = th_upd t (\<lambda>th. th\<lparr>th_init_priority := priority, th_current_priority := priority, th_number_mask := 0,
              th_init_tick := tick, th_remaining_tick := tick, th_error := RT_EOK, th_stat := RT_THREAD_INIT\<rparr>) s
        in Some (timer_init (Thread_timer t) (Thread_timeout t) 0 0 s)
      else None)"

definition prio_mask :: "u8 \<Rightarrow> u32" where
  "prio_mask p = push_bit (unat p) 1"

definition rt_thread_startup :: "nat \<Rightarrow> 'a kernel_scheme \<Rightarrow> 'a kernel_scheme option" where
  "rt_thread_startup t s =
     (if th_state s t = RT_THREAD_INIT then
        let s = th_upd t (\<lambda>th. th\<lparr>th_current_priority := th_init_priority th,
              th_number_mask := prio_mask (th_init_priority th), th_stat := RT_THREAD_SUSPEND\<rparr>) s;
            s = snd (rt_thread_resume t s)
        in if rt_current_thread s \<noteq> None then rt_schedule s else Some s
      else None)"

definition rt_thread_defunct_enqueue :: "nat \<Rightarrow> 'a kernel_scheme \<Rightarrow> 'a kernel_scheme" where
  "rt_thread_defunct_enqueue t s = s\<lparr>tlists := lists_push Defunct t (tlists s)\<rparr>"

definition rt_thread_defunct_dequeue :: "'a kernel_scheme \<Rightarrow> nat option \<times> 'a kernel_scheme" where
  "rt_thread_defunct_dequeue s =
     (case tlists s Defunct of [] \<Rightarrow> (None, s) | t # _ \<Rightarrow> (Some t, tlist_remove t s))"

text \<open>\<open>rt_thread_detach\<close> and \<open>rt_thread_delete\<close> differ only in the object they expect.\<close>

definition rt_thread_delete :: "nat \<Rightarrow> 'a kernel_scheme \<Rightarrow> 'a kernel_scheme" where
  "rt_thread_delete t s =
     (if th_state s t = RT_THREAD_CLOSE then s
      else
        let s = (if th_state s t \<noteq> RT_THREAD_INIT then rt_schedule_remove_thread t s else s);
            s = rt_timer_detach (Thread_timer t) s;
            s = th_upd t (\<lambda>th. th\<lparr>th_stat := RT_THREAD_CLOSE\<rparr>) s
        in rt_thread_defunct_enqueue t s)"

definition thread_exit :: "'a kernel_scheme \<Rightarrow> 'a kernel_scheme option" where
  "thread_exit s = do {
     t \<leftarrow> rt_current_thread s;
     let s = rt_schedule_remove_thread t s;
     let s = rt_timer_detach (Thread_timer t) s;
     let s = th_upd t (\<lambda>th. th\<lparr>th_stat := RT_THREAD_CLOSE\<rparr>) s;
     rt_schedule (rt_thread_defunct_enqueue t s)
   }"

definition rt_thread_yield :: "'a kernel_scheme \<Rightarrow> 'a kernel_scheme option" where
  "rt_thread_yield s = do {
     t \<leftarrow> rt_current_thread s;
     rt_schedule (th_upd t (\<lambda>th. th\<lparr>th_remaining_tick := th_init_tick th,
       th_stat := th_stat th OR RT_THREAD_STAT_YIELD\<rparr>) s)
   }"

definition change_priority :: "nat \<Rightarrow> u8 \<Rightarrow> 'a kernel_scheme \<Rightarrow> 'a kernel_scheme" where
  "change_priority t p s =
     (let set = (\<lambda>th. th\<lparr>th_current_priority := p, th_number_mask := prio_mask p\<rparr>)
      in if th_state s t = RT_THREAD_READY
         then rt_schedule_insert_thread t (th_upd t set (rt_schedule_remove_thread t s))
         else th_upd t set s)"

datatype thread_cmd = RT_THREAD_CTRL_CHANGE_PRIORITY u8 | RT_THREAD_CTRL_STARTUP | RT_THREAD_CTRL_CLOSE | Other_cmd

fun rt_thread_control :: "nat \<Rightarrow> thread_cmd \<Rightarrow> 'a kernel_scheme \<Rightarrow> 'a kernel_scheme option" where
  "rt_thread_control t (RT_THREAD_CTRL_CHANGE_PRIORITY p) s = Some (change_priority t p s)"
| "rt_thread_control t RT_THREAD_CTRL_STARTUP s = rt_thread_startup t s"
| "rt_thread_control t RT_THREAD_CTRL_CLOSE s = rt_schedule (rt_thread_delete t s)"
| "rt_thread_control t Other_cmd s = Some s"

section \<open>Sleeping\<close>

definition start_thread_timer :: "nat \<Rightarrow> u32 \<Rightarrow> 'a kernel_scheme \<Rightarrow> 'a kernel_scheme option" where
  "start_thread_timer t time s =
     rt_timer_start (Thread_timer t) (snd (rt_timer_control (Thread_timer t) RT_TIMER_CTRL_SET_TIME time s))"

definition rt_thread_sleep :: "u32 \<Rightarrow> 'a kernel_scheme \<Rightarrow> 'a kernel_scheme option" where
  "rt_thread_sleep tick s = do {
     t \<leftarrow> rt_current_thread s;
     (_, s) \<leftarrow> rt_thread_suspend t s;
     s \<leftarrow> start_thread_timer t tick s;
     rt_schedule s
   }"

definition rt_thread_sleep_return :: "nat \<Rightarrow> 'a kernel_scheme \<Rightarrow> 'a kernel_scheme" where
  "rt_thread_sleep_return t s =
     (if th_error (rt_threads s t) = - RT_ETIMEOUT then th_upd t (\<lambda>th. th\<lparr>th_error := RT_EOK\<rparr>) s else s)"

text \<open>\<open>rt_thread_delay_until\<close> returns the new value of the reference tick.\<close>

definition rt_thread_delay_until :: "u32 \<Rightarrow> u32 \<Rightarrow> 'a kernel_scheme \<Rightarrow> (u32 \<times> 'a kernel_scheme) option" where
  "rt_thread_delay_until tick inc_tick s = do {
     t \<leftarrow> rt_current_thread s;
     let cur_tick = rt_tick s;
     if cur_tick - tick < inc_tick then do {
       let tick = tick + inc_tick;
       (_, s) \<leftarrow> rt_thread_suspend t s;
       s \<leftarrow> start_thread_timer t (tick - cur_tick) s;
       s \<leftarrow> rt_schedule s;
       Some (tick, s)
     }
     else Some (cur_tick, s)
   }"

text \<open>100 ticks a second; a negative time waits for ever.\<close>

definition rt_tick_from_millisecond :: "32 word \<Rightarrow> u32" where
  "rt_tick_from_millisecond ms =
     (if ms <s 0 then 0xFFFFFFFF
      else 100 * (ms div 1000) + (100 * (ms mod 1000) + 999) div 1000)"

definition rt_thread_mdelay :: "32 word \<Rightarrow> 'a kernel_scheme \<Rightarrow> 'a kernel_scheme option" where
  "rt_thread_mdelay ms s = rt_thread_sleep (rt_tick_from_millisecond ms) s"

definition rt_thread_timeout :: "nat \<Rightarrow> 'a kernel_scheme \<Rightarrow> 'a kernel_scheme option" where
  "rt_thread_timeout t s =
     (if th_state s t = RT_THREAD_SUSPEND then
        let s = th_upd t (\<lambda>th. th\<lparr>th_error := - RT_ETIMEOUT\<rparr>) s
        in rt_schedule (rt_schedule_insert_thread t (tlist_remove t s))
      else None)"

section \<open>Timer checks and the tick\<close>

type_synonym 'a callbacks = "nat \<Rightarrow> 'a kernel_scheme \<Rightarrow> 'a kernel_scheme option"

definition run_timeout :: "'a callbacks \<Rightarrow> timeout_func \<Rightarrow> 'a kernel_scheme \<Rightarrow> 'a kernel_scheme option" where
  "run_timeout cb f s = (case f of Thread_timeout t \<Rightarrow> rt_thread_timeout t s | Callback n \<Rightarrow> cb n s)"

text \<open>
  One round of the check loops for the due timer \<open>t\<close>: it is moved to the temporary list, its
  time-out function is called, and a periodic timer that is still there is started again.
\<close>

definition begin_fire :: "timer_head \<Rightarrow> timer_id \<Rightarrow> 'a kernel_scheme \<Rightarrow> 'a kernel_scheme" where
  "begin_fire temp t s =
     (let s = timer_remove t s;
          s = (if \<not> tm_periodic (rt_timers s t) then tm_upd t (clear_flag RT_TIMER_FLAG_ACTIVATED) s else s)
      in s\<lparr>rows := lists_push temp t (rows s)\<rparr>)"

definition end_fire :: "timer_head \<Rightarrow> timer_id \<Rightarrow> 'a kernel_scheme \<Rightarrow> 'a kernel_scheme option" where
  "end_fire temp t s =
     (if rows s temp = [] then Some s
      else
        let s = timer_remove t s
        in if tm_periodic (rt_timers s t) \<and> tm_active (rt_timers s t)
           then rt_timer_start t (tm_upd t (clear_flag RT_TIMER_FLAG_ACTIVATED) s)
           else Some s)"

definition timer_fire :: "'a callbacks \<Rightarrow> timer_id \<Rightarrow> 'a kernel_scheme \<Rightarrow> 'a kernel_scheme option" where
  "timer_fire cb t s = do {
     let s = begin_fire Hard_temp t s;
     s \<leftarrow> run_timeout cb (tm_func (rt_timers s t)) s;
     end_fire Hard_temp t s
   }"

definition soft_timer_fire :: "'a callbacks \<Rightarrow> timer_id \<Rightarrow> 'a kernel_scheme \<Rightarrow> 'a kernel_scheme option" where
  "soft_timer_fire cb t s = do {
     let s = begin_fire Soft_temp t s;
     s \<leftarrow> run_timeout cb (tm_func (rt_timers s t)) (s\<lparr>soft_timer_busy := True\<rparr>);
     end_fire Soft_temp t (s\<lparr>soft_timer_busy := False\<rparr>)
   }"

definition timer_due :: "u32 \<Rightarrow> timer_id \<Rightarrow> 'a kernel_scheme \<Rightarrow> bool" where
  "timer_due current_tick t s \<longleftrightarrow> current_tick - tm_timeout_tick (rt_timers s t) < RT_TICK_MAX div 2"

partial_function (option) rt_timer_check :: "'a callbacks \<Rightarrow> 'a kernel_scheme \<Rightarrow> 'a kernel_scheme option" where
  "rt_timer_check cb s =
     (case rows s Hard of
        [] \<Rightarrow> Some s
      | t # _ \<Rightarrow>
          if timer_due (rt_tick s) t s then Option.bind (timer_fire cb t s) (rt_timer_check cb)
          else Some s)"

partial_function (option) rt_soft_timer_check :: "'a callbacks \<Rightarrow> 'a kernel_scheme \<Rightarrow> 'a kernel_scheme option" where
  "rt_soft_timer_check cb s =
     (case rows s Soft of
        [] \<Rightarrow> Some s
      | t # _ \<Rightarrow>
          if timer_due (rt_tick s) t s then Option.bind (soft_timer_fire cb t s) (rt_soft_timer_check cb)
          else Some s)"

declare rt_timer_check.simps [code] rt_soft_timer_check.simps [code]

text \<open>The clock interrupt.\<close>

definition rt_tick_increase :: "'a callbacks \<Rightarrow> 'a kernel_scheme \<Rightarrow> 'a kernel_scheme option" where
  "rt_tick_increase cb s = do {
     let s = s\<lparr>rt_tick := rt_tick s + 1\<rparr>;
     t \<leftarrow> rt_current_thread s;
     let s = th_upd t (\<lambda>th. th\<lparr>th_remaining_tick := th_remaining_tick th - 1\<rparr>) s;
     s \<leftarrow> (if th_remaining_tick (rt_threads s t) = 0
            then rt_schedule (th_upd t (\<lambda>th. th\<lparr>th_remaining_tick := th_init_tick th,
                   th_stat := th_stat th OR RT_THREAD_STAT_YIELD\<rparr>) s)
            else Some s);
     rt_timer_check cb s
   }"

text \<open>
  One round of the timer thread: what it does before \<open>rt_soft_timer_check\<close>. It suspends itself when
  no soft timer is running, sleeps until the next time-out, or goes on at once.
\<close>

definition timer_thread_wait :: "'a kernel_scheme \<Rightarrow> 'a kernel_scheme option" where
  "timer_thread_wait s =
     (let next_timeout = timer_list_next_timeout Soft s
      in if next_timeout = RT_TICK_MAX then do {
           t \<leftarrow> rt_current_thread s;
           (_, s) \<leftarrow> rt_thread_suspend t s;
           rt_schedule s
         }
         else if next_timeout - rt_tick s < RT_TICK_MAX div 2
         then rt_thread_sleep (next_timeout - rt_tick s) s
         else Some s)"
section \<open>The kernel invariant\<close>

text \<open>
  Besides the scheduler data and the timer lists: the timer built into a started thread is a one
  shot hard timer with the time-out function of that thread, and it is active only while the
  thread is suspended; no other timer has such a time-out function. This makes the assertion of \<open>rt_thread_timeout\<close> hold.
\<close>

definition thread_timers_ok :: "'a kernel_scheme \<Rightarrow> bool" where
  "thread_timers_ok s \<longleftrightarrow>
     (\<forall>t. th_mask s t \<noteq> 0 \<longrightarrow> tm_func (rt_timers s (Thread_timer t)) = Thread_timeout t \<and>
        \<not> tm_periodic (rt_timers s (Thread_timer t)) \<and> \<not> tm_soft (rt_timers s (Thread_timer t))) \<and>
     (\<forall>t. tm_active (rt_timers s (Thread_timer t)) \<longrightarrow> th_state s t = RT_THREAD_SUSPEND) \<and>
     (\<forall>n t. tm_func (rt_timers s (Timer n)) \<noteq> Thread_timeout t)"

definition kernel_ok :: "'a kernel_scheme \<Rightarrow> bool" where
  "kernel_ok s \<longleftrightarrow> kernel_wf s \<and> timers_wf s \<and> thread_timers_ok s"

lemma kernel_wf_cong:
  assumes "th_state s' = th_state s" "th_prio s' = th_prio s" "th_mask s' = th_mask s" "tlists s' = tlists s"
    "rt_thread_ready_priority_group s' = rt_thread_ready_priority_group s" "rt_current_thread s' = rt_current_thread s"
  shows "kernel_wf s' = kernel_wf s"
  using assms by (simp add: kernel_wf_def)

lemma frame_rows [simp]:
  "th_state (s\<lparr>rows := R\<rparr>) = th_state s" "th_prio (s\<lparr>rows := R\<rparr>) = th_prio s" "th_mask (s\<lparr>rows := R\<rparr>) = th_mask s"
  "th_state (s\<lparr>rt_timers := T\<rparr>) = th_state s" "th_prio (s\<lparr>rt_timers := T\<rparr>) = th_prio s" "th_mask (s\<lparr>rt_timers := T\<rparr>) = th_mask s"
  "th_state (s\<lparr>rt_tick := k\<rparr>) = th_state s" "th_prio (s\<lparr>rt_tick := k\<rparr>) = th_prio s" "th_mask (s\<lparr>rt_tick := k\<rparr>) = th_mask s"
  "th_state (s\<lparr>soft_timer_busy := b\<rparr>) = th_state s" "th_prio (s\<lparr>soft_timer_busy := b\<rparr>) = th_prio s"
  "th_mask (s\<lparr>soft_timer_busy := b\<rparr>) = th_mask s"
  by (simp_all add: th_state_def th_prio_def th_mask_def fun_eq_iff)

text \<open>What \<open>rt_schedule\<close> leaves alone: the timers, the tick, every thread that is not able to run.\<close>

lemma schedule_frame:
  assumes "rt_schedule s = Some s'"
  shows "rows s' = rows s" "rt_timers s' = rt_timers s" "rt_tick s' = rt_tick s" "soft_timer_busy s' = soft_timer_busy s"
    "rt_scheduler_lock_nest s' = rt_scheduler_lock_nest s" "th_prio s' = th_prio s" "th_mask s' = th_mask s"
  using assms
  by (auto simp: rt_schedule_def stay_on_def switch_to_def Let_def th_views_state th_views_clear_yield
      split: if_splits Option.bind_splits)

lemma schedule_state:
  assumes w: "kernel_wf s" and c: "rt_current_thread s = Some cur" and s: "rt_schedule s = Some s'"
    and t: "th_state s t \<notin> {RT_THREAD_READY, RT_THREAD_RUNNING}"
  shows "th_state s' t = th_state s t"
  using w c
proof (cases rule: schedule_cases)
  case same
  then show ?thesis using s by simp
next
  case (stay p)
  then show ?thesis using s t by (auto simp: stay_on_def th_views_state th_views_clear_yield)
next
  case (switch u us p)
  let ?i = "th_state s cur = RT_THREAD_RUNNING"
  have "s' = switch_to cur u p ?i (if_running cur s)" using s switch by simp
  moreover note switch_to_views(1) [OF kernel_wf_if_running [OF w], unfolded if_running_views, OF c switch(3) refl, of p]
  ultimately show ?thesis using t switch(3) by auto
qed

lemma kernel_ok_schedule:
  assumes k: "kernel_ok s" and c: "rt_current_thread s = Some cur" and s: "rt_schedule s = Some s'"
  shows "kernel_ok s'"
proof -
  have w: "kernel_wf s" using k by (simp add: kernel_ok_def)
  have "th_state s' t = RT_THREAD_SUSPEND" if "th_state s t = RT_THREAD_SUSPEND" for t
    using schedule_state [OF w c s, of t] that by simp
  then show ?thesis
    using k kernel_wf_schedule [OF w c s] schedule_frame [OF s]
    by (simp add: kernel_ok_def timers_wf_def thread_timers_ok_def)
qed

text \<open>Stopping a timer, and the timer of a thread in particular.\<close>

lemma stop_views [simp]:
  "tlists (snd (rt_timer_stop t s)) = tlists s" "rt_threads (snd (rt_timer_stop t s)) = rt_threads s"
  "rt_tick (snd (rt_timer_stop t s)) = rt_tick s" "rt_current_thread (snd (rt_timer_stop t s)) = rt_current_thread s"
  "rt_thread_ready_priority_group (snd (rt_timer_stop t s)) = rt_thread_ready_priority_group s"
  "rt_scheduler_lock_nest (snd (rt_timer_stop t s)) = rt_scheduler_lock_nest s"
  "soft_timer_busy (snd (rt_timer_stop t s)) = soft_timer_busy s"
  "th_state (snd (rt_timer_stop t s)) = th_state s" "th_prio (snd (rt_timer_stop t s)) = th_prio s"
  "th_mask (snd (rt_timer_stop t s)) = th_mask s"
  by (simp_all add: rt_timer_stop_def)

lemma stop_timers:
  "rt_timers (snd (rt_timer_stop t s)) = (rt_timers s)(t := (if tm_active (rt_timers s t)
     then clear_flag RT_TIMER_FLAG_ACTIVATED (rt_timers s t) else rt_timers s t))"
  "rows (snd (rt_timer_stop t s)) = (if tm_active (rt_timers s t) then lists_remove t (rows s) else rows s)"
  by (simp_all add: rt_timer_stop_def)

lemma stop_inactive: "\<not> tm_active (rt_timers (snd (rt_timer_stop t s)) t)"
  by (simp add: stop_timers)

lemma thread_timers_stop: "thread_timers_ok s \<Longrightarrow> thread_timers_ok (snd (rt_timer_stop t s))"
  by (auto simp: thread_timers_ok_def stop_timers split: if_splits)

lemma tlist_remove_views [simp]:
  "tlists (tlist_remove t s) = lists_remove t (tlists s)" "rt_threads (tlist_remove t s) = rt_threads s"
  "rt_tick (tlist_remove t s) = rt_tick s" "rt_current_thread (tlist_remove t s) = rt_current_thread s"
  "rt_thread_ready_priority_group (tlist_remove t s) = rt_thread_ready_priority_group s"
  "rt_scheduler_lock_nest (tlist_remove t s) = rt_scheduler_lock_nest s"
  "soft_timer_busy (tlist_remove t s) = soft_timer_busy s" "rt_timers (tlist_remove t s) = rt_timers s"
  "rows (tlist_remove t s) = rows s"
  "th_state (tlist_remove t s) = th_state s" "th_prio (tlist_remove t s) = th_prio s" "th_mask (tlist_remove t s) = th_mask s"
  by (simp_all add: tlist_remove_def)

text \<open>A suspended thread can be taken out of its wait list: the ready table does not change.\<close>

lemma kernel_wf_tlist_remove:
  assumes w: "kernel_wf s" and t: "th_state s t = RT_THREAD_SUSPEND"
  shows "kernel_wf (tlist_remove t s)"
proof -
  have same: "lists_remove t (tlists s) (Ready p) = tlists s (Ready p)" for p
    using kernel_wf_queued [OF w, of t "Ready p"] t by (cases "t \<in> set (tlists s (Ready p))") simp_all
  have "lists_wf ((th_state s)(t := RT_THREAD_SUSPEND)) (th_prio s) (lists_remove t (tlists s))"
    using w by (intro lists_wf_remove) (simp_all add: kernel_wf_def table_wf_def)
  moreover have "(th_state s)(t := RT_THREAD_SUSPEND) = th_state s" using t by auto
  ultimately show ?thesis
    using w same unfolding kernel_wf_def table_wf_def by simp
qed

lemma thread_timers_insert:
  assumes "thread_timers_ok s" and "\<not> tm_active (rt_timers s (Thread_timer t))"
  shows "thread_timers_ok (rt_schedule_insert_thread t s)"
proof -
  have "th_state (rt_schedule_insert_thread t s) u = th_state s u" if "u \<noteq> t" for u
    using that by (cases "rt_current_thread s = Some t") (auto simp: insert_views insert_current th_views_state)
  then show ?thesis using assms unfolding thread_timers_ok_def insert_frame by metis
qed

lemma kernel_ok_resume:
  assumes k: "kernel_ok s"
  shows "kernel_ok (snd (rt_thread_resume t s))"
proof (cases "th_state s t = RT_THREAD_SUSPEND")
  case True
  let ?s = "snd (rt_timer_stop (Thread_timer t) (tlist_remove t s))"
  have w: "kernel_wf s" using k by (simp add: kernel_ok_def)
  have "kernel_wf ?s"
    using kernel_wf_tlist_remove [OF w True] kernel_wf_cong [of ?s "tlist_remove t s"] by simp
  then have "kernel_wf (rt_schedule_insert_thread t ?s)"
    by (rule kernel_wf_insert) (use kernel_wf_mask [OF w] True in auto)
  moreover have "timers_wf ?s" using k by (intro timers_wf_stop) (simp add: kernel_ok_def timers_wf_def)
  moreover have "thread_timers_ok ?s"
    using k by (intro thread_timers_stop) (simp add: kernel_ok_def thread_timers_ok_def)
  then have "thread_timers_ok (rt_schedule_insert_thread t ?s)"
    by (rule thread_timers_insert) (rule stop_inactive)
  ultimately show ?thesis
    using True by (simp add: rt_thread_resume_def Let_def kernel_ok_def timers_wf_def)
qed (use k in \<open>simp add: rt_thread_resume_def\<close>)
lemma suspend_cases:
  assumes s: "rt_thread_suspend t s = Some (e, s')"
  obtains "th_state s t \<notin> {RT_THREAD_READY, RT_THREAD_RUNNING}" "e = - RT_ERROR" "s' = s"
  | "th_state s t \<in> {RT_THREAD_READY, RT_THREAD_RUNNING}" "e = RT_EOK"
    "s' = snd (rt_timer_stop (Thread_timer t) (th_upd t (set_state RT_THREAD_SUSPEND) (rt_schedule_remove_thread t s)))"
  using s by (auto simp: rt_thread_suspend_def Let_def split: if_splits)

lemma suspend_total:
  assumes "kernel_wf s"
  obtains e s' where "rt_thread_suspend t s = Some (e, s')"
proof -
  have "rt_thread_suspend t s \<noteq> None"
    using kernel_wf_running [OF assms, of t] by (auto simp: rt_thread_suspend_def Let_def)
  then show ?thesis using that by (cases "rt_thread_suspend t s") auto
qed

lemma suspend_views:
  assumes "rt_thread_suspend t s = Some (e, s')"
  shows "rt_current_thread s' = rt_current_thread s" "rt_scheduler_lock_nest s' = rt_scheduler_lock_nest s"
    "rt_tick s' = rt_tick s" "th_prio s' = th_prio s" "th_mask s' = th_mask s" "soft_timer_busy s' = soft_timer_busy s"
  using assms by (cases rule: suspend_cases; simp add: th_views_state)+

lemma suspend_state:
  assumes "rt_thread_suspend t s = Some (e, s')"
  shows "th_state s' = (if th_state s t \<in> {RT_THREAD_READY, RT_THREAD_RUNNING} then (th_state s)(t := RT_THREAD_SUSPEND) else th_state s)"
  using assms by (cases rule: suspend_cases) (simp_all add: th_views_state)

lemma suspend_lists:
  assumes "rt_thread_suspend t s = Some (e, s')"
  shows "tlists s' = (if th_state s t \<in> {RT_THREAD_READY, RT_THREAD_RUNNING} then lists_remove t (tlists s) else tlists s)"
  using assms by (cases rule: suspend_cases) (simp_all add: remove_views)

lemma kernel_ok_suspend:
  assumes k: "kernel_ok s" and s: "rt_thread_suspend t s = Some (e, s')"
  shows "kernel_ok s'"
  using s
proof (cases rule: suspend_cases)
  case 2
  let ?s = "th_upd t (set_state RT_THREAD_SUSPEND) (rt_schedule_remove_thread t s)"
  have w: "kernel_wf s" using k by (simp add: kernel_ok_def)
  have "kernel_wf ?s"
    by (rule kernel_wf_remove_state [OF w]) (use kernel_wf_mask [OF w] 2 in auto)
  then have "kernel_wf s'" using kernel_wf_cong [of s' ?s] 2 by simp
  moreover have "timers_wf ?s" "thread_timers_ok ?s"
    using k by (auto simp: kernel_ok_def timers_wf_def thread_timers_ok_def th_views_state)
  then have "timers_wf s'" "thread_timers_ok s'" using timers_wf_stop thread_timers_stop 2(3) by blast+
  ultimately show ?thesis by (simp add: kernel_ok_def)
qed (use k in simp)

text \<open>Arming a timer; for the timer of a thread the thread must be suspended.\<close>

lemma arm_views:
  assumes "timer_arm t s = Some s'"
  shows "rt_threads s' = rt_threads s" "tlists s' = tlists s" "rt_tick s' = rt_tick s"
    "rt_current_thread s' = rt_current_thread s" "rt_thread_ready_priority_group s' = rt_thread_ready_priority_group s"
    "rt_scheduler_lock_nest s' = rt_scheduler_lock_nest s" "soft_timer_busy s' = soft_timer_busy s"
    "th_state s' = th_state s" "th_prio s' = th_prio s" "th_mask s' = th_mask s"
    "rt_timers s' = (rt_timers s)(t := armed t s)"
    "rows s' = (lists_remove t (rows s))(timer_head_of (rt_timers s t) :=
         timer_walk ((timer_keys s)(t := rt_tick s + tm_init_tick (rt_timers s t))) t
           (removeAll t (rows s (timer_head_of (rt_timers s t)))))"
  using assms by (auto simp: timer_arm_eq split: if_splits)

lemma kernel_ok_arm:
  assumes k: "kernel_ok s" and a: "timer_arm t s = Some s'"
    and t: "\<And>u. t = Thread_timer u \<Longrightarrow> th_state s u = RT_THREAD_SUSPEND"
  shows "kernel_ok s'"
proof -
  note v = arm_views [OF a]
  have "kernel_wf s'" using k v kernel_wf_cong [of s' s] by (simp add: kernel_ok_def)
  moreover have "timers_wf s'" using k timers_wf_arm [OF _ a] by (simp add: kernel_ok_def)
  moreover have "thread_timers_ok s'"
    using k t unfolding kernel_ok_def thread_timers_ok_def v by auto
  ultimately show ?thesis by (simp add: kernel_ok_def)
qed

lemma resume_views:
  "rt_current_thread (snd (rt_thread_resume t s)) = rt_current_thread s"
  "rt_scheduler_lock_nest (snd (rt_thread_resume t s)) = rt_scheduler_lock_nest s"
  "rt_tick (snd (rt_thread_resume t s)) = rt_tick s"
  "soft_timer_busy (snd (rt_thread_resume t s)) = soft_timer_busy s"
  "th_prio (snd (rt_thread_resume t s)) = th_prio s" "th_mask (snd (rt_thread_resume t s)) = th_mask s"
  by (simp_all add: rt_thread_resume_def Let_def)

lemma start_cases:
  assumes "rt_timer_start t s = Some s'"
  obtains s1 where "timer_arm t s = Some s1" "s' = s1"
  | s1 where "timer_arm t s = Some s1" "tm_soft (rt_timers s t)" "\<not> soft_timer_busy s"
    "th_state s timer_thread = RT_THREAD_SUSPEND" "rt_schedule (snd (rt_thread_resume timer_thread s1)) = Some s'"
proof -
  obtain s1 where a: "timer_arm t s = Some s1"
    and r: "(if tm_soft (rt_timers s1 t) \<and> \<not> soft_timer_busy s1 \<and> th_state s1 timer_thread = RT_THREAD_SUSPEND
      then rt_schedule (snd (rt_thread_resume timer_thread s1)) else Some s1) = Some s'"
    using assms unfolding rt_timer_start_def by (auto split: Option.bind_splits)
  note v = arm_views [OF a]
  show ?thesis
    using that(1) [OF a] that(2) [OF a] r v by (auto split: if_splits)
qed

lemma kernel_ok_start:
  assumes k: "kernel_ok s" and c: "rt_current_thread s = Some cur" and s: "rt_timer_start t s = Some s'"
    and t: "\<And>u. t = Thread_timer u \<Longrightarrow> th_state s u = RT_THREAD_SUSPEND"
  shows "kernel_ok s'"
  using s
proof (cases rule: start_cases)
  case (1 s1)
  then show ?thesis using kernel_ok_arm [OF k _ t] by simp
next
  case (2 s1)
  have "kernel_ok s1" using kernel_ok_arm [OF k 2(1) t] by simp
  then have "kernel_ok (snd (rt_thread_resume timer_thread s1))" by (rule kernel_ok_resume)
  moreover have "rt_current_thread (snd (rt_thread_resume timer_thread s1)) = Some cur"
    using c arm_views [OF 2(1)] by (simp add: resume_views)
  ultimately show ?thesis using kernel_ok_schedule 2(5) by blast
qed

text \<open>The timer of a thread is a hard timer: starting it only queues it.\<close>

lemma start_thread_timer_eq:
  assumes k: "kernel_ok s" and t: "th_mask s t \<noteq> 0"
  shows "start_thread_timer t time s =
    timer_arm (Thread_timer t) (tm_upd (Thread_timer t) (\<lambda>tm. tm\<lparr>tm_init_tick := time\<rparr>) s)"
proof -
  let ?s = "tm_upd (Thread_timer t) (\<lambda>tm. tm\<lparr>tm_init_tick := time\<rparr>) s"
  have "\<not> tm_soft (rt_timers ?s (Thread_timer t))" using k t by (simp add: kernel_ok_def thread_timers_ok_def)
  then have "\<not> tm_soft (rt_timers s1 (Thread_timer t))" if "timer_arm (Thread_timer t) ?s = Some s1" for s1
    using arm_views(11) [OF that] by simp
  then show ?thesis
    unfolding start_thread_timer_def rt_timer_start_def rt_timer_control.simps snd_conv
    by (cases "timer_arm (Thread_timer t) ?s") simp_all
qed

lemma kernel_ok_set_time:
  assumes "kernel_ok s"
  shows "kernel_ok (tm_upd t (\<lambda>tm. tm\<lparr>tm_init_tick := time\<rparr>) s)"
proof -
  have "kernel_wf (tm_upd t (\<lambda>tm. tm\<lparr>tm_init_tick := time\<rparr>) s)"
    using assms kernel_wf_cong [of "tm_upd t (\<lambda>tm. tm\<lparr>tm_init_tick := time\<rparr>) s" s] by (simp add: kernel_ok_def)
  moreover have "timers_wf (tm_upd t (\<lambda>tm. tm\<lparr>tm_init_tick := time\<rparr>) s)"
    using assms by (auto simp: kernel_ok_def timers_wf_def intro: tm_wf_upd)
  moreover have "thread_timers_ok (tm_upd t (\<lambda>tm. tm\<lparr>tm_init_tick := time\<rparr>) s)"
    using assms by (auto simp: kernel_ok_def thread_timers_ok_def)
  ultimately show ?thesis by (simp add: kernel_ok_def)
qed

lemma kernel_ok_start_thread_timer:
  assumes k: "kernel_ok s" and t: "th_state s t = RT_THREAD_SUSPEND" and s: "start_thread_timer t time s = Some s'"
  shows "kernel_ok s'"
proof -
  have m: "th_mask s t \<noteq> 0" using k t kernel_wf_mask by (auto simp: kernel_ok_def)
  show ?thesis
    using s unfolding start_thread_timer_eq [OF k m]
    by (rule kernel_ok_arm [OF kernel_ok_set_time [OF k]]) (use t in simp)
qed

section \<open>The operations keep the invariant\<close>

lemma th_upd_ok:
  assumes k: "kernel_ok s" and f: "th_stat (f (rt_threads s t)) AND 7 = th_stat (rt_threads s t) AND 7"
    "th_current_priority (f (rt_threads s t)) = th_current_priority (rt_threads s t)"
    "th_number_mask (f (rt_threads s t)) = th_number_mask (rt_threads s t)"
  shows "kernel_ok (th_upd t f s)"
proof -
  have v: "th_state (th_upd t f s) = th_state s" "th_prio (th_upd t f s) = th_prio s" "th_mask (th_upd t f s) = th_mask s"
    using f by (auto simp: th_views_upd) (auto simp: th_state_def th_prio_def th_mask_def)
  then show ?thesis using k kernel_wf_cong [of "th_upd t f s" s] by (simp add: kernel_ok_def timers_wf_def thread_timers_ok_def)
qed

lemma yield_bit: "(w OR 8) AND 7 = w AND (7 :: u8)"
proof -
  have "(8 :: u8) AND 7 = 0" by simp
  then show ?thesis by (simp only: bit.conj_disj_distrib2 or.right_neutral)
qed

text \<open>\<open>RUNNING\<close> is the state of the current thread whenever it calls the kernel.\<close>

lemma sleep_cases:
  assumes k: "kernel_ok s" and c: "rt_current_thread s = Some t" and s: "rt_thread_sleep time s = Some s'"
    and r: "th_state s t = RT_THREAD_RUNNING"
  obtains s1 s2 where "rt_thread_suspend t s = Some (RT_EOK, s1)" "kernel_ok s1" "th_state s1 t = RT_THREAD_SUSPEND"
    "start_thread_timer t time s1 = Some s2" "kernel_ok s2" "th_state s2 t = RT_THREAD_SUSPEND"
    "rt_current_thread s2 = Some t" "rt_schedule s2 = Some s'" "kernel_ok s'"
proof -
  obtain e s1 s2 where 1: "rt_thread_suspend t s = Some (e, s1)" "start_thread_timer t time s1 = Some s2" "rt_schedule s2 = Some s'"
    using s c by (auto simp: rt_thread_sleep_def split: Option.bind_splits prod.splits)
  have e: "e = RT_EOK" using suspend_cases [OF 1(1)] r by (metis insertCI)
  have k1: "kernel_ok s1" using kernel_ok_suspend [OF k 1(1)] .
  have t1: "th_state s1 t = RT_THREAD_SUSPEND" using suspend_state [OF 1(1)] r by simp
  have m: "th_mask s1 t \<noteq> 0" using k1 t1 kernel_wf_mask by (auto simp: kernel_ok_def)
  note v = arm_views [OF 1(2) [unfolded start_thread_timer_eq [OF k1 m]]]
  have k2: "kernel_ok s2" using kernel_ok_start_thread_timer [OF k1 t1 1(2)] .
  have c2: "rt_current_thread s2 = Some t" using v suspend_views [OF 1(1)] c by simp
  have "th_state s2 t = RT_THREAD_SUSPEND" using v t1 by simp
  then show ?thesis
    using that 1 e k1 t1 k2 c2 kernel_ok_schedule [OF k2 c2 1(3)] by simp
qed

lemma kernel_ok_sleep:
  assumes "kernel_ok s" and "rt_current_thread s = Some t" and "rt_thread_sleep time s = Some s'"
    and "th_state s t = RT_THREAD_RUNNING"
  shows "kernel_ok s'"
  using sleep_cases [OF assms] by metis

definition timeout_ready :: "nat \<Rightarrow> 'a kernel_scheme \<Rightarrow> 'a kernel_scheme" where
  "timeout_ready t s = rt_schedule_insert_thread t (tlist_remove t (th_upd t (\<lambda>th. th\<lparr>th_error := - RT_ETIMEOUT\<rparr>) s))"

lemma timeout_ready_views:
  "rows (timeout_ready t s) = rows s" "rt_timers (timeout_ready t s) = rt_timers s" "rt_tick (timeout_ready t s) = rt_tick s"
  "rt_current_thread (timeout_ready t s) = rt_current_thread s" "soft_timer_busy (timeout_ready t s) = soft_timer_busy s"
  "rt_scheduler_lock_nest (timeout_ready t s) = rt_scheduler_lock_nest s"
  "th_prio (timeout_ready t s) = th_prio s" "th_mask (timeout_ready t s) = th_mask s"
  "th_state (timeout_ready t s) = (th_state s)(t := if rt_current_thread s = Some t then RT_THREAD_RUNNING else RT_THREAD_READY)"
proof -
  let ?u = "th_upd t (\<lambda>th. th\<lparr>th_error := - RT_ETIMEOUT\<rparr>) s"
  have u: "th_state ?u = th_state s" "th_prio ?u = th_prio s" "th_mask ?u = th_mask s"
    by (auto simp: th_views_upd) (auto simp: th_state_def th_prio_def th_mask_def)
  show "rows (timeout_ready t s) = rows s" "rt_timers (timeout_ready t s) = rt_timers s" "rt_tick (timeout_ready t s) = rt_tick s"
    "rt_current_thread (timeout_ready t s) = rt_current_thread s" "soft_timer_busy (timeout_ready t s) = soft_timer_busy s"
    "rt_scheduler_lock_nest (timeout_ready t s) = rt_scheduler_lock_nest s"
    "th_prio (timeout_ready t s) = th_prio s" "th_mask (timeout_ready t s) = th_mask s"
    by (simp_all add: timeout_ready_def u)
  show "th_state (timeout_ready t s) = (th_state s)(t := if rt_current_thread s = Some t then RT_THREAD_RUNNING else RT_THREAD_READY)"
    by (simp add: timeout_ready_def insert_views insert_current th_views_state u)
qed

lemma timeout_eq:
  "rt_thread_timeout t s = (if th_state s t = RT_THREAD_SUSPEND then rt_schedule (timeout_ready t s) else None)"
  by (simp add: rt_thread_timeout_def timeout_ready_def Let_def)

lemma kernel_ok_timeout_ready:
  assumes k: "kernel_ok s" and t: "th_state s t = RT_THREAD_SUSPEND"
    and a: "\<not> tm_active (rt_timers s (Thread_timer t))"
  shows "kernel_ok (timeout_ready t s)"
proof -
  let ?u = "th_upd t (\<lambda>th. th\<lparr>th_error := - RT_ETIMEOUT\<rparr>) s"
  have k0: "kernel_ok ?u" by (rule th_upd_ok [OF k]) simp_all
  then have w0: "kernel_wf ?u" by (simp add: kernel_ok_def)
  have t0: "th_state ?u t = RT_THREAD_SUSPEND" using t by (simp add: th_state_def th_upd_def)
  have "kernel_wf (timeout_ready t s)"
    unfolding timeout_ready_def
    by (rule kernel_wf_insert [OF kernel_wf_tlist_remove [OF w0 t0]]) (use kernel_wf_mask [OF w0] t0 in auto)
  moreover have "thread_timers_ok (timeout_ready t s)"
    unfolding timeout_ready_def
    by (rule thread_timers_insert) (use k0 a in \<open>auto simp: kernel_ok_def thread_timers_ok_def\<close>)
  moreover have "timers_wf (timeout_ready t s)" using k by (simp add: kernel_ok_def timers_wf_def timeout_ready_views)
  ultimately show ?thesis by (simp add: kernel_ok_def)
qed

lemma yield_ok:
  "kernel_ok s \<Longrightarrow> kernel_ok (th_upd t (\<lambda>th. th\<lparr>th_remaining_tick := f th, th_stat := th_stat th OR RT_THREAD_STAT_YIELD\<rparr>) s)"
  by (rule th_upd_ok) (simp_all add: yield_bit)

lemma kernel_ok_yield:
  assumes "kernel_ok s" and "rt_current_thread s = Some t" and "rt_thread_yield s = Some s'"
  shows "kernel_ok s'"
  using assms kernel_ok_schedule [OF yield_ok [OF assms(1), where t = t]] by (simp add: rt_thread_yield_def)

lemma th_views_close:
  "th_state (th_upd t (\<lambda>th. th\<lparr>th_stat := RT_THREAD_CLOSE\<rparr>) s) = (th_state s)(t := RT_THREAD_CLOSE)"
  "th_prio (th_upd t (\<lambda>th. th\<lparr>th_stat := RT_THREAD_CLOSE\<rparr>) s) = th_prio s"
  "th_mask (th_upd t (\<lambda>th. th\<lparr>th_stat := RT_THREAD_CLOSE\<rparr>) s) = th_mask s"
  by (auto simp: th_views_upd) (auto simp: th_prio_def th_mask_def)

lemma detach_views [simp]:
  "rt_threads (rt_timer_detach t s) = rt_threads s" "tlists (rt_timer_detach t s) = tlists s"
  "rt_current_thread (rt_timer_detach t s) = rt_current_thread s" "rt_tick (rt_timer_detach t s) = rt_tick s"
  "rt_thread_ready_priority_group (rt_timer_detach t s) = rt_thread_ready_priority_group s"
  "rt_scheduler_lock_nest (rt_timer_detach t s) = rt_scheduler_lock_nest s"
  "soft_timer_busy (rt_timer_detach t s) = soft_timer_busy s"
  "th_state (rt_timer_detach t s) = th_state s" "th_prio (rt_timer_detach t s) = th_prio s"
  "th_mask (rt_timer_detach t s) = th_mask s"
  "rt_timers (rt_timer_detach t s) = (rt_timers s)(t := clear_flag RT_TIMER_FLAG_ACTIVATED (rt_timers s t))"
  by (simp_all add: rt_timer_detach_def)

text \<open>A thread that is taken out of the schedule for good goes to the list of the dead threads.\<close>

lemma kernel_ok_close:
  assumes k: "kernel_ok s" and f: "remove \<or> (\<forall>h. t \<notin> set (tlists s h))"
  shows "kernel_ok (rt_thread_defunct_enqueue t (th_upd t (\<lambda>th. th\<lparr>th_stat := RT_THREAD_CLOSE\<rparr>)
    (rt_timer_detach (Thread_timer t) (if remove then rt_schedule_remove_thread t s else s))))" (is "kernel_ok ?s")
proof -
  let ?r = "if remove then rt_schedule_remove_thread t s else s"
  have w: "table_wf (th_state s) (th_prio s) (th_mask s) (tlists s) (rt_thread_ready_priority_group s)"
    and c: "current_ok (th_state s) (rt_current_thread s)" using k by (auto simp: kernel_ok_def kernel_wf_def)
  have "table_wf ((th_state s)(t := RT_THREAD_CLOSE)) (th_prio s) (th_mask s)
      (lists_push Defunct t (tlists ?r)) (rt_thread_ready_priority_group ?r)"
  proof (cases remove)
    case True
    have "table_wf (((th_state s)(t := RT_THREAD_CLOSE))(t := RT_THREAD_CLOSE)) (th_prio s) (th_mask s)
      (lists_push Defunct t (tlists ?r)) (rt_thread_ready_priority_group ?r)"
      using table_wf_remove [OF w, of RT_THREAD_CLOSE t] True
      by (intro table_wf_defunct) (simp_all add: remove_views)
    then show ?thesis by simp
  next
    case False
    then show ?thesis using table_wf_defunct [OF w, of t] f by simp
  qed
  moreover have "current_ok ((th_state s)(t := RT_THREAD_CLOSE)) (rt_current_thread s)"
    using c by (auto simp: current_ok_def)
  ultimately have "kernel_wf ?s" by (simp add: kernel_wf_def rt_thread_defunct_enqueue_def th_views_close split: if_split_asm)
  moreover have "timers_wf ?s"
    using k timers_wf_detach [of ?r "Thread_timer t"]
    by (auto simp: kernel_ok_def timers_wf_def rt_thread_defunct_enqueue_def)
  moreover have "thread_timers_ok ?s"
    using k by (auto simp: kernel_ok_def thread_timers_ok_def rt_thread_defunct_enqueue_def th_views_close)
  ultimately show ?thesis by (simp add: kernel_ok_def)
qed

lemma kernel_ok_delete:
  assumes k: "kernel_ok s"
  shows "kernel_ok (rt_thread_delete t s)"
proof (cases "th_state s t = RT_THREAD_CLOSE")
  case False
  have "th_state s t \<noteq> RT_THREAD_INIT \<or> (\<forall>h. t \<notin> set (tlists s h))"
    using k kernel_wf_free [of s t] by (auto simp: kernel_ok_def)
  from kernel_ok_close [OF k this] False show ?thesis by (simp add: rt_thread_delete_def Let_def)
qed (use k in \<open>simp add: rt_thread_delete_def\<close>)

lemma delete_current [simp]: "rt_current_thread (rt_thread_delete t s) = rt_current_thread s"
  by (simp add: rt_thread_delete_def Let_def rt_thread_defunct_enqueue_def)

lemma kernel_ok_exit:
  assumes k: "kernel_ok s" and c: "rt_current_thread s = Some t" and s: "thread_exit s = Some s'"
  shows "kernel_ok s'"
proof -
  let ?s = "rt_thread_defunct_enqueue t (th_upd t (\<lambda>th. th\<lparr>th_stat := RT_THREAD_CLOSE\<rparr>)
    (rt_timer_detach (Thread_timer t) (rt_schedule_remove_thread t s)))"
  have "kernel_ok ?s" using kernel_ok_close [OF k, of True t] by simp
  moreover have "rt_current_thread ?s = Some t" using c by (simp add: rt_thread_defunct_enqueue_def)
  ultimately show ?thesis using kernel_ok_schedule s c by (simp add: thread_exit_def)
qed

lemma mask_ok_prio: "p < 32 \<Longrightarrow> mask_ok (unat p) (prio_mask p)"
  by (simp add: mask_ok_def prio_mask_def word_less_nat_alt)

lemma kernel_ok_change_priority:
  assumes k: "kernel_ok s" and p: "p < 32" and m: "th_mask s t \<noteq> 0"
  shows "kernel_ok (change_priority t p s)"
proof -
  let ?set = "\<lambda>th. th\<lparr>th_current_priority := p, th_number_mask := prio_mask p\<rparr>"
  have w: "table_wf (th_state s) (th_prio s) (th_mask s) (tlists s) (rt_thread_ready_priority_group s)"
    and kw: "kernel_wf s" and c: "current_ok (th_state s) (rt_current_thread s)"
    using k by (auto simp: kernel_ok_def kernel_wf_def)
  have v: "th_state (th_upd t ?set s1) = th_state s1" "th_prio (th_upd t ?set s1) = (th_prio s1)(t := unat p)"
    "th_mask (th_upd t ?set s1) = (th_mask s1)(t := prio_mask p)" for s1 :: "'a kernel_scheme"
    by (auto simp: th_views_upd) (auto simp: th_state_def)
  have th: "thread_timers_ok s" "timers_wf s" using k by (auto simp: kernel_ok_def)
  show ?thesis
  proof (cases "th_state s t = RT_THREAD_READY")
    case True
    have nc: "rt_current_thread s \<noteq> Some t" using kernel_wf_current [OF kw] True by blast
    let ?r = "rt_schedule_remove_thread t s"
    have "table_wf ((th_state s)(t := RT_THREAD_SUSPEND)) (th_prio s) (th_mask s) (tlists ?r) (rt_thread_ready_priority_group ?r)"
      using table_wf_remove [OF w, of RT_THREAD_SUSPEND t] m by (simp add: remove_views)
    then have "table_wf ((th_state s)(t := RT_THREAD_SUSPEND)) ((th_prio s)(t := unat p)) ((th_mask s)(t := prio_mask p))
        (tlists ?r) (rt_thread_ready_priority_group ?r)"
      by (rule table_wf_prio) (use mask_ok_prio [OF p] in auto)
    then have "table_wf (((th_state s)(t := RT_THREAD_SUSPEND))(t := RT_THREAD_READY)) ((th_prio s)(t := unat p))
        ((th_mask s)(t := prio_mask p)) (lists_append (Ready (((th_prio s)(t := unat p)) t)) t (tlists ?r))
        (rt_thread_ready_priority_group ?r OR ((th_mask s)(t := prio_mask p)) t)"
      by (rule table_wf_insert) (use mask_nonzero [OF mask_ok_prio [OF p]] in \<open>auto simp: remove_views\<close>)
    moreover have "(th_state s)(t := RT_THREAD_READY) = th_state s" using True by auto
    ultimately have "kernel_wf (change_priority t p s)"
      using True nc c by (simp add: change_priority_def Let_def kernel_wf_def insert_views v)
    moreover have "th_state (change_priority t p s) = th_state s"
      using True nc by (auto simp: change_priority_def Let_def insert_views v)
    ultimately show ?thesis
      using True th m by (auto simp: kernel_ok_def timers_wf_def thread_timers_ok_def change_priority_def Let_def v)
  next
    case False
    have "kernel_wf (change_priority t p s)"
      using table_wf_prio [OF w False mask_ok_prio [OF p]] False c
      by (simp add: change_priority_def Let_def kernel_wf_def v)
    then show ?thesis
      using False th m by (auto simp: kernel_ok_def timers_wf_def thread_timers_ok_def change_priority_def Let_def v)
  qed
qed

lemma startup_cases:
  assumes "rt_thread_startup t s = Some s'"
  defines "s1 \<equiv> th_upd t (\<lambda>th. th\<lparr>th_current_priority := th_init_priority th,
      th_number_mask := prio_mask (th_init_priority th), th_stat := RT_THREAD_SUSPEND\<rparr>) s"
  shows "th_state s t = RT_THREAD_INIT"
    and "(if rt_current_thread s \<noteq> None then rt_schedule (snd (rt_thread_resume t s1)) = Some s' else s' = snd (rt_thread_resume t s1))"
  using assms(1) by (auto simp: rt_thread_startup_def Let_def s1_def resume_views split: if_splits)

text \<open>Starting an initialised thread with a valid priority makes it ready.\<close>

lemma kernel_ok_started:
  assumes k: "kernel_ok s" and i: "th_state s t = RT_THREAD_INIT" and p: "th_init_priority (rt_threads s t) < 32"
    and tm: "tm_func (rt_timers s (Thread_timer t)) = Thread_timeout t" "\<not> tm_periodic (rt_timers s (Thread_timer t))"
      "\<not> tm_soft (rt_timers s (Thread_timer t))"
  shows "kernel_ok (th_upd t (\<lambda>th. th\<lparr>th_current_priority := th_init_priority th,
      th_number_mask := prio_mask (th_init_priority th), th_stat := RT_THREAD_SUSPEND\<rparr>) s)" (is "kernel_ok ?u")
proof -
  let ?p = "th_init_priority (rt_threads s t)"
  have v: "th_state ?u = (th_state s)(t := RT_THREAD_SUSPEND)" "th_prio ?u = (th_prio s)(t := unat ?p)"
    "th_mask ?u = (th_mask s)(t := prio_mask ?p)"
    by (auto simp: th_views_upd)
  have w: "table_wf (th_state s) (th_prio s) (th_mask s) (tlists s) (rt_thread_ready_priority_group s)"
    and kw: "kernel_wf s" and c: "current_ok (th_state s) (rt_current_thread s)"
    using k by (auto simp: kernel_ok_def kernel_wf_def)
  have free: "t \<notin> set (tlists s h)" for h using kernel_wf_free [OF kw] i by simp
  have "table_wf (th_state s) ((th_prio s)(t := unat ?p)) ((th_mask s)(t := prio_mask ?p)) (tlists s) (rt_thread_ready_priority_group s)"
    by (rule table_wf_prio [OF w]) (use i mask_ok_prio [OF p] in auto)
  then have "table_wf ((th_state s)(t := RT_THREAD_SUSPEND)) ((th_prio s)(t := unat ?p)) ((th_mask s)(t := prio_mask ?p))
      (tlists s) (rt_thread_ready_priority_group s)"
    by (rule table_wf_free_state) (use free mask_nonzero [OF mask_ok_prio [OF p]] in auto)
  then have "kernel_wf ?u" using c by (auto simp: kernel_wf_def v current_ok_def)
  moreover have "thread_timers_ok ?u"
    using k tm by (auto simp: kernel_ok_def thread_timers_ok_def v)
  moreover have "timers_wf ?u" using k by (simp add: kernel_ok_def timers_wf_def)
  ultimately show ?thesis by (simp add: kernel_ok_def)
qed

lemma kernel_ok_startup:
  assumes k: "kernel_ok s" and s: "rt_thread_startup t s = Some s'"
    and p: "th_init_priority (rt_threads s t) < 32"
    and tm: "tm_func (rt_timers s (Thread_timer t)) = Thread_timeout t" "\<not> tm_periodic (rt_timers s (Thread_timer t))"
      "\<not> tm_soft (rt_timers s (Thread_timer t))"
  shows "kernel_ok s'"
proof -
  let ?u = "th_upd t (\<lambda>th. th\<lparr>th_current_priority := th_init_priority th,
      th_number_mask := prio_mask (th_init_priority th), th_stat := RT_THREAD_SUSPEND\<rparr>) s"
  note sc = startup_cases [OF s]
  have "kernel_ok (snd (rt_thread_resume t ?u))"
    by (rule kernel_ok_resume) (rule kernel_ok_started [OF k sc(1) p tm])
  then show ?thesis
    using sc(2) kernel_ok_schedule [of "snd (rt_thread_resume t ?u)"]
    by (cases "rt_current_thread s") (auto simp: resume_views)
qed

lemma kernel_ok_thread_init:
  assumes k: "kernel_ok s" and s: "thread_init t p tick s = Some s'" and i: "th_state s t = RT_THREAD_INIT"
    and r: "\<And>h. Thread_timer t \<notin> set (rows s h)"
  shows "kernel_ok s'"
proof -
  let ?th = "\<lambda>th. th\<lparr>th_init_priority := p, th_current_priority := p, th_number_mask := 0,
    th_init_tick := tick, th_remaining_tick := tick, th_error := RT_EOK, th_stat := RT_THREAD_INIT\<rparr>"
  let ?tm = "\<lparr>tm_flag = 0, tm_func = Thread_timeout t, tm_init_tick = 0, tm_timeout_tick = 0\<rparr>"
  have s': "s' = tm_upd (Thread_timer t) (\<lambda>_. ?tm) (th_upd t ?th s)"
    using s by (auto simp: thread_init_def timer_init_def Let_def split: if_splits)
  have v: "th_state s' = th_state s" "th_prio s' = (th_prio s)(t := unat p)" "th_mask s' = (th_mask s)(t := 0)"
    using i unfolding s' by (auto simp: th_views_upd)
  have L: "lists_wf (th_state s) ((th_prio s)(t := unat p)) (tlists s)"
    using k i by (intro lists_wf_prio) (auto simp: kernel_ok_def kernel_wf_def table_wf_def)
  have "kernel_wf s'"
    using k L i unfolding kernel_ok_def kernel_wf_def v by (auto simp: s' table_wf_def)
  moreover have "timers_wf s'"
    using k r by (auto simp: s' kernel_ok_def timers_wf_def tm_wf_def tm_active_def)
  moreover have "thread_timers_ok s'"
    using k unfolding kernel_ok_def thread_timers_ok_def v by (auto simp: s' tm_active_def)
  ultimately show ?thesis by (simp add: kernel_ok_def)
qed

section \<open>Firing timers\<close>

lemma tm_wf_temp:
  assumes w: "tm_wf T R" and f: "\<And>h. t \<notin> set (R h)" and k: "k \<in> {Hard_temp, Soft_temp}"
    and T': "\<And>u. u \<noteq> t \<Longrightarrow> T' u = T u"
  shows "tm_wf T' (lists_push k t R)"
proof -
  have at: "set (lists_push k t R j) = (if j = k then insert t (set (R k)) else set (R j))" for j
    by (simp add: lists_push_def)
  have "i = j" if "u \<in> set (lists_push k t R i)" "u \<in> set (lists_push k t R j)" for u i j
    using that w f unfolding at tm_wf_def by (metis insert_iff)
  moreover have "distinct (lists_push k t R j)" for j using w f by (simp add: tm_wf_def lists_push_def)
  moreover have "tm_active (T' u) \<and> \<not> tm_soft (T' u)" if "u \<in> set (lists_push k t R Hard)" for u
  proof -
    have u: "u \<in> set (R Hard)" using that k unfolding at by (auto split: if_splits)
    then have "u \<noteq> t" using f by auto
    then show ?thesis using w u T' by (simp add: tm_wf_def)
  qed
  moreover have "tm_active (T' u) \<and> tm_soft (T' u)" if "u \<in> set (lists_push k t R Soft)" for u
  proof -
    have u: "u \<in> set (R Soft)" using that k unfolding at by (auto split: if_splits)
    then have "u \<noteq> t" using f by auto
    then show ?thesis using w u T' by (simp add: tm_wf_def)
  qed
  ultimately show ?thesis unfolding tm_wf_def by blast
qed

lemma begin_fire_views [simp]:
  "rt_threads (begin_fire h t s) = rt_threads s" "tlists (begin_fire h t s) = tlists s" "rt_tick (begin_fire h t s) = rt_tick s"
  "rt_current_thread (begin_fire h t s) = rt_current_thread s" "soft_timer_busy (begin_fire h t s) = soft_timer_busy s"
  "rt_thread_ready_priority_group (begin_fire h t s) = rt_thread_ready_priority_group s"
  "rt_scheduler_lock_nest (begin_fire h t s) = rt_scheduler_lock_nest s"
  "th_state (begin_fire h t s) = th_state s" "th_prio (begin_fire h t s) = th_prio s" "th_mask (begin_fire h t s) = th_mask s"
  by (simp_all add: begin_fire_def Let_def)

lemma begin_fire_timers:
  "rt_timers (begin_fire h t s) = (rt_timers s)(t := (if tm_periodic (rt_timers s t) then rt_timers s t
     else clear_flag RT_TIMER_FLAG_ACTIVATED (rt_timers s t)))"
  "rows (begin_fire h t s) = lists_push h t (lists_remove t (rows s))"
  by (simp_all add: begin_fire_def Let_def)

lemma kernel_ok_begin_fire:
  assumes k: "kernel_ok s" and h: "h \<in> {Hard_temp, Soft_temp}"
  shows "kernel_ok (begin_fire h t s)"
proof -
  have w: "tm_wf ((rt_timers s)(t := clear_flag RT_TIMER_FLAG_ACTIVATED (rt_timers s t))) (lists_remove t (rows s))"
    using k tm_wf_stop by (simp add: kernel_ok_def timers_wf_def)
  have "timers_wf (begin_fire h t s)"
    unfolding timers_wf_def begin_fire_timers by (rule tm_wf_temp [OF w]) (use h in auto)
  moreover have "kernel_wf (begin_fire h t s)"
    using k kernel_wf_cong [of "begin_fire h t s" s] by (simp add: kernel_ok_def)
  moreover have "thread_timers_ok (begin_fire h t s)"
    using k by (auto simp: kernel_ok_def thread_timers_ok_def begin_fire_timers)
  ultimately show ?thesis by (simp add: kernel_ok_def)
qed

text \<open>Taking a timer out of the lists is harmless when it is not active, or is restarted at once.\<close>

lemma kernel_ok_unqueue:
  assumes "kernel_ok s"
  shows "kernel_ok (tm_upd t (clear_flag RT_TIMER_FLAG_ACTIVATED) (timer_remove t s))" (is "kernel_ok ?s")
  using assms tm_wf_stop [of "rt_timers s" "rows s" t] kernel_wf_cong [of ?s s]
  by (auto simp: kernel_ok_def timers_wf_def thread_timers_ok_def)

lemma kernel_ok_timer_remove: "kernel_ok s \<Longrightarrow> kernel_ok (timer_remove t s)"
  using kernel_wf_cong [of "timer_remove t s" s]
  by (auto simp: kernel_ok_def timers_wf_def thread_timers_ok_def tm_wf_def distinct_removeAll)

lemma kernel_ok_busy: "kernel_ok (s\<lparr>soft_timer_busy := b\<rparr>) = kernel_ok s"
  using kernel_wf_cong [of "s\<lparr>soft_timer_busy := b\<rparr>" s]
  by (simp add: kernel_ok_def timers_wf_def thread_timers_ok_def)

lemma schedule_current:
  assumes "kernel_wf s" and "rt_current_thread s = Some cur" and "rt_schedule s = Some s'"
  shows "rt_current_thread s' \<noteq> None"
  using assms(1,2)
proof (cases rule: schedule_cases)
  case (switch t ts p)
  then have "s' = switch_to cur t p (th_state s cur = RT_THREAD_RUNNING) (if_running cur s)" using assms(3) by simp
  then show ?thesis by (simp add: switch_to_def Let_def)
qed (use assms in \<open>simp_all add: stay_on_def\<close>)

lemma start_current:
  assumes k: "kernel_ok s" and c: "rt_current_thread s = Some cur" and s: "rt_timer_start t s = Some s'"
    and t: "\<And>u. t = Thread_timer u \<Longrightarrow> th_state s u = RT_THREAD_SUSPEND"
  shows "rt_current_thread s' \<noteq> None"
  using s
proof (cases rule: start_cases)
  case (1 s1)
  then show ?thesis using c arm_views [OF 1(1)] by simp
next
  case (2 s1)
  have "kernel_ok s1" using kernel_ok_arm [OF k 2(1) t] by simp
  then have "kernel_ok (snd (rt_thread_resume timer_thread s1))" by (rule kernel_ok_resume)
  moreover have "rt_current_thread (snd (rt_thread_resume timer_thread s1)) = Some cur"
    using c arm_views [OF 2(1)] by (simp add: resume_views)
  ultimately show ?thesis using schedule_current 2(5) by (auto simp: kernel_ok_def)
qed

lemma kernel_ok_end_fire:
  assumes k: "kernel_ok s" and c: "rt_current_thread s = Some cur" and s: "end_fire h t s = Some s'"
  shows "kernel_ok s' \<and> rt_current_thread s' \<noteq> None"
proof (cases "rows s h = []")
  case True
  then show ?thesis using k c s by (simp add: end_fire_def)
next
  case False
  show ?thesis
  proof (cases "tm_periodic (rt_timers s t) \<and> tm_active (rt_timers s t)")
    case True
    let ?s = "tm_upd t (clear_flag RT_TIMER_FLAG_ACTIVATED) (timer_remove t s)"
    have st: "rt_timer_start t ?s = Some s'" using s False True by (simp add: end_fire_def Let_def)
    have t: "th_state ?s u = RT_THREAD_SUSPEND" if "t = Thread_timer u" for u
      using that True k by (simp add: kernel_ok_def thread_timers_ok_def)
    show ?thesis
      using kernel_ok_start [OF kernel_ok_unqueue [OF k] _ st t] start_current [OF kernel_ok_unqueue [OF k] _ st t] c
      by simp
  next
    case False': False
    then have "s' = timer_remove t s" using s False by (auto simp: end_fire_def Let_def)
    then show ?thesis using kernel_ok_timer_remove [OF k] c by simp
  qed
qed

lemma kernel_ok_tick: "kernel_ok (s\<lparr>rt_tick := k\<rparr>) = kernel_ok s"
  using kernel_wf_cong [of "s\<lparr>rt_tick := k\<rparr>" s]
  by (simp add: kernel_ok_def timers_wf_def thread_timers_ok_def)

text \<open>
  The contract the kernel has with the time-out functions of the application: called with the
  kernel in order, a function that returns leaves it in order, with a current thread.
\<close>

locale timer_callbacks =
  fixes cb :: "'a callbacks"
  assumes cb_ok: "kernel_ok s \<Longrightarrow> rt_current_thread s = Some c \<Longrightarrow> cb n s = Some s' \<Longrightarrow>
    kernel_ok s' \<and> rt_current_thread s' \<noteq> None"
begin

lemma run_timeout_ok:
  assumes k: "kernel_ok s" and c: "rt_current_thread s = Some cur" and r: "run_timeout cb f s = Some s'"
    and f: "\<And>t. f = Thread_timeout t \<Longrightarrow> \<not> tm_active (rt_timers s (Thread_timer t))"
  shows "kernel_ok s' \<and> rt_current_thread s' \<noteq> None"
proof (cases f)
  case (Thread_timeout t)
  then have t: "th_state s t = RT_THREAD_SUSPEND" and r: "rt_schedule (timeout_ready t s) = Some s'"
    using r by (auto simp: run_timeout_def timeout_eq split: if_splits)
  have u: "kernel_ok (timeout_ready t s)" using kernel_ok_timeout_ready [OF k t] f Thread_timeout by simp
  moreover have "rt_current_thread (timeout_ready t s) = Some cur" using c by (simp add: timeout_ready_views)
  ultimately show ?thesis
    using kernel_ok_schedule [OF u _ r] schedule_current [OF _ _ r] by (simp add: kernel_ok_def)
next
  case (Callback n)
  then show ?thesis using cb_ok [OF k c] r by (simp add: run_timeout_def)
qed

lemma fire_ok:
  assumes k: "kernel_ok s" and c: "rt_current_thread s = Some cur" and t: "t \<in> set (rows s Hard) \<union> set (rows s Soft)"
    and h: "h \<in> {Hard_temp, Soft_temp}"
    and r: "run_timeout cb (tm_func (rt_timers (begin_fire h t s) t)) ((begin_fire h t s)\<lparr>soft_timer_busy := b\<rparr>) = Some s1"
    and e: "end_fire h t (s1\<lparr>soft_timer_busy := b'\<rparr>) = Some s'"
  shows "kernel_ok s' \<and> rt_current_thread s' \<noteq> None"
proof -
  let ?b = "(begin_fire h t s)\<lparr>soft_timer_busy := b\<rparr>"
  have k1: "kernel_ok ?b" using kernel_ok_begin_fire [OF k h] by (simp add: kernel_ok_busy)
  have "\<not> tm_active (rt_timers ?b (Thread_timer u))" if f: "tm_func (rt_timers (begin_fire h t s) t) = Thread_timeout u" for u
  proof -
    have fu: "tm_func (rt_timers s t) = Thread_timeout u" using f by (simp add: begin_fire_timers split: if_splits)
    have tt: "thread_timers_ok s" and w: "kernel_wf s" and a: "tm_active (rt_timers s t)"
      using k t by (auto simp: kernel_ok_def timers_wf_def tm_wf_def)
    obtain v where v: "t = Thread_timer v" using fu tt by (cases t) (auto simp: thread_timers_ok_def)
    have "th_mask s v \<noteq> 0" using kernel_wf_mask [OF w, of v] tt a v by (auto simp: thread_timers_ok_def)
    then have "v = u" "\<not> tm_periodic (rt_timers s t)" using fu tt v by (auto simp: thread_timers_ok_def)
    then show ?thesis using v by (simp add: begin_fire_timers)
  qed
  then have "kernel_ok s1 \<and> rt_current_thread s1 \<noteq> None"
    using run_timeout_ok [OF k1 _ r] c by simp
  then show ?thesis using kernel_ok_end_fire [OF _ _ e] kernel_ok_busy by auto
qed

lemma timer_fire_ok:
  assumes k: "kernel_ok s" and c: "rt_current_thread s = Some cur" and t: "t \<in> set (rows s Hard)"
    and f: "timer_fire cb t s = Some s'"
  shows "kernel_ok s' \<and> rt_current_thread s' \<noteq> None"
proof -
  obtain s1 where s1: "run_timeout cb (tm_func (rt_timers (begin_fire Hard_temp t s) t)) (begin_fire Hard_temp t s) = Some s1"
    "end_fire Hard_temp t s1 = Some s'"
    using f by (auto simp: timer_fire_def Let_def bind_eq_Some_conv)
  have id: "x\<lparr>soft_timer_busy := b\<rparr> = x" if "b = soft_timer_busy x" for x :: "'a kernel_scheme" and b using that by simp
  show ?thesis
    by (rule fire_ok [OF k c, of t Hard_temp "soft_timer_busy s" s1 "soft_timer_busy s1" s'])
      (use t s1 in \<open>simp_all add: id\<close>)
qed

lemma soft_timer_fire_ok:
  assumes k: "kernel_ok s" and c: "rt_current_thread s = Some cur" and t: "t \<in> set (rows s Soft)"
    and f: "soft_timer_fire cb t s = Some s'"
  shows "kernel_ok s' \<and> rt_current_thread s' \<noteq> None"
  using f fire_ok [OF k c, of t Soft_temp True _ False s'] t
  by (auto simp: soft_timer_fire_def Let_def bind_eq_Some_conv)

text \<open>The check routines keep the kernel in order, whatever the time-out functions do.\<close>

lemma timer_check_ok:
  assumes "rt_timer_check cb s = Some s'" and "kernel_ok s" and "rt_current_thread s \<noteq> None"
  shows "kernel_ok s' \<and> rt_current_thread s' \<noteq> None"
proof -
  have "cb = cb \<longrightarrow> kernel_ok s \<longrightarrow> rt_current_thread s \<noteq> None \<longrightarrow> kernel_ok s' \<and> rt_current_thread s' \<noteq> None"
  proof (rule rt_timer_check.raw_induct [where P = "\<lambda>c s s'. c = cb \<longrightarrow> kernel_ok s \<longrightarrow> rt_current_thread s \<noteq> None \<longrightarrow>
      kernel_ok s' \<and> rt_current_thread s' \<noteq> None", OF _ assms(1)])
    fix check c s s'
    assume IH: "\<And>c s s'. check c s = Some s' \<Longrightarrow>
        c = cb \<longrightarrow> kernel_ok s \<longrightarrow> rt_current_thread s \<noteq> None \<longrightarrow> kernel_ok s' \<and> rt_current_thread s' \<noteq> None"
      and eq: "(case rows s Hard of [] \<Rightarrow> Some s
        | t # _ \<Rightarrow> if timer_due (rt_tick s) t s then Option.bind (timer_fire c t s) (check c) else Some s) = Some s'"
    show "c = cb \<longrightarrow> kernel_ok s \<longrightarrow> rt_current_thread s \<noteq> None \<longrightarrow> kernel_ok s' \<and> rt_current_thread s' \<noteq> None"
    proof (intro impI)
      assume c: "c = cb" and k: "kernel_ok s" and cur: "rt_current_thread s \<noteq> None"
      show "kernel_ok s' \<and> rt_current_thread s' \<noteq> None"
      proof (cases "s' = s")
        case False
        then obtain t ts s1 where "rows s Hard = t # ts" "timer_fire cb t s = Some s1" "check cb s1 = Some s'"
          using eq c by (auto simp: bind_eq_Some_conv split: list.splits if_splits)
        then show ?thesis using timer_fire_ok [OF k, of _ t s1] cur IH [of cb s1 s'] by auto
      qed (use k cur in simp)
    qed
  qed
  then show ?thesis using assms by simp
qed

lemma soft_timer_check_ok:
  assumes "rt_soft_timer_check cb s = Some s'" and "kernel_ok s" and "rt_current_thread s \<noteq> None"
  shows "kernel_ok s' \<and> rt_current_thread s' \<noteq> None"
proof -
  have "cb = cb \<longrightarrow> kernel_ok s \<longrightarrow> rt_current_thread s \<noteq> None \<longrightarrow> kernel_ok s' \<and> rt_current_thread s' \<noteq> None"
  proof (rule rt_soft_timer_check.raw_induct [where P = "\<lambda>c s s'. c = cb \<longrightarrow> kernel_ok s \<longrightarrow> rt_current_thread s \<noteq> None \<longrightarrow>
      kernel_ok s' \<and> rt_current_thread s' \<noteq> None", OF _ assms(1)])
    fix check c s s'
    assume IH: "\<And>c s s'. check c s = Some s' \<Longrightarrow>
        c = cb \<longrightarrow> kernel_ok s \<longrightarrow> rt_current_thread s \<noteq> None \<longrightarrow> kernel_ok s' \<and> rt_current_thread s' \<noteq> None"
      and eq: "(case rows s Soft of [] \<Rightarrow> Some s
        | t # _ \<Rightarrow> if timer_due (rt_tick s) t s then Option.bind (soft_timer_fire c t s) (check c) else Some s) = Some s'"
    show "c = cb \<longrightarrow> kernel_ok s \<longrightarrow> rt_current_thread s \<noteq> None \<longrightarrow> kernel_ok s' \<and> rt_current_thread s' \<noteq> None"
    proof (intro impI)
      assume c: "c = cb" and k: "kernel_ok s" and cur: "rt_current_thread s \<noteq> None"
      show "kernel_ok s' \<and> rt_current_thread s' \<noteq> None"
      proof (cases "s' = s")
        case False
        then obtain t ts s1 where "rows s Soft = t # ts" "soft_timer_fire cb t s = Some s1" "check cb s1 = Some s'"
          using eq c by (auto simp: bind_eq_Some_conv split: list.splits if_splits)
        then show ?thesis using soft_timer_fire_ok [OF k, of _ t s1] cur IH [of cb s1 s'] by auto
      qed (use k cur in simp)
    qed
  qed
  then show ?thesis using assms by simp
qed

lemma tick_increase_ok:
  assumes k: "kernel_ok s" and s: "rt_tick_increase cb s = Some s'"
  shows "kernel_ok s' \<and> rt_current_thread s' \<noteq> None"
proof -
  obtain t where c: "rt_current_thread s = Some t" using s by (cases "rt_current_thread s") (auto simp: rt_tick_increase_def)
  let ?u = "th_upd t (\<lambda>th. th\<lparr>th_remaining_tick := th_remaining_tick th - 1\<rparr>) (s\<lparr>rt_tick := rt_tick s + 1\<rparr>)"
  have ku: "kernel_ok ?u" by (rule th_upd_ok) (simp_all add: kernel_ok_tick k)
  obtain s1 where s1: "(if th_remaining_tick (rt_threads ?u t) = 0
      then rt_schedule (th_upd t (\<lambda>th. th\<lparr>th_remaining_tick := th_init_tick th, th_stat := th_stat th OR RT_THREAD_STAT_YIELD\<rparr>) ?u)
      else Some ?u) = Some s1" "rt_timer_check cb s1 = Some s'"
    using s c by (auto simp: rt_tick_increase_def Let_def bind_eq_Some_conv)
  have "kernel_ok s1 \<and> rt_current_thread s1 \<noteq> None"
  proof (cases "th_remaining_tick (rt_threads ?u t) = 0")
    case True
    note ky = yield_ok [OF ku, of t th_init_tick]
    show ?thesis
      using True s1(1) kernel_ok_schedule [OF ky] schedule_current [of "th_upd t (\<lambda>th. th\<lparr>th_remaining_tick := th_init_tick th,
          th_stat := th_stat th OR RT_THREAD_STAT_YIELD\<rparr>) ?u" t s1] ky c by (simp add: kernel_ok_def)
  qed (use s1(1) ku c in auto)
  then show ?thesis using timer_check_ok [OF s1(2)] by simp
qed

end

end
