(* ===== verification/KSleep.thy ===== *)
theory KSleep
  imports KThread
begin

text \<open>
  Time in the RT-Thread kernel: what the clock interrupt does to sleeping threads. All timers of
  the hard list belong to threads, as in this program, whose own timers are soft timers. Then the
  check of the clock interrupt returns, takes exactly the expired timers off the list and makes
  exactly their threads able to run; a thread that sleeps \<open>n\<close> ticks is woken by the \<open>n\<close>-th clock
  interrupt and by no earlier one, whatever the other threads do in between.
\<close>

section \<open>Able to run\<close>

definition able :: "'a kernel_scheme \<Rightarrow> nat \<Rightarrow> bool" where
  "able s t \<longleftrightarrow> th_state s t \<in> {RT_THREAD_READY, RT_THREAD_RUNNING}"

lemma able_suspended: "th_state s t = RT_THREAD_SUSPEND \<Longrightarrow> \<not> able s t"
  by (simp add: able_def)

lemma schedule_able:
  assumes w: "kernel_wf s" and c: "rt_current_thread s = Some cur" and s: "rt_schedule s = Some s'"
  shows "able s' t \<longleftrightarrow> able s t" and "\<not> able s t \<Longrightarrow> th_state s' t = th_state s t"
proof -
  show n: "th_state s' t = th_state s t" if "\<not> able s t"
    using schedule_state [OF w c s] that by (simp add: able_def)
  have y: "able s' t" if a: "able s t"
    using w c
  proof (cases rule: schedule_cases)
    case same
    then show ?thesis using s a by simp
  next
    case (stay p)
    then show ?thesis using s a by (auto simp: able_def stay_on_def th_views_state th_views_clear_yield)
  next
    case (switch u us p)
    let ?i = "th_state s cur = RT_THREAD_RUNNING"
    have "s' = switch_to cur u p ?i (if_running cur s)" using s switch by simp
    moreover note switch_to_views(1) [OF kernel_wf_if_running [OF w], unfolded if_running_views, OF c switch(3) refl, of p]
    ultimately show ?thesis using a by (auto simp: able_def)
  qed
  show "able s' t \<longleftrightarrow> able s t"
  proof (cases "able s t")
    case False
    then show ?thesis using n by (simp add: able_def)
  qed (simp add: y)
qed

text \<open>What every thread remembers about the event it waits for or has received.\<close>

definition ev_info :: "'a kernel_scheme \<Rightarrow> nat \<Rightarrow> u32 \<times> u8" where
  "ev_info s t = (th_event_set (rt_threads s t), th_event_info (rt_threads s t))"

lemma ev_info_upd:
  assumes "\<And>th. th_event_set (f th) = th_event_set th" "\<And>th. th_event_info (f th) = th_event_info th"
  shows "ev_info (th_upd t f s) = ev_info s"
  using assms by (simp add: ev_info_def th_upd_def fun_eq_iff)

lemma ev_info_views [simp]:
  "ev_info (th_upd t (set_state x) s) = ev_info s" "ev_info (th_upd t clear_yield s) = ev_info s"
  "ev_info (rt_schedule_insert_thread t s) = ev_info s" "ev_info (rt_schedule_remove_thread t s) = ev_info s"
  "ev_info (s\<lparr>rt_current_thread := c\<rparr>) = ev_info s" "ev_info (s\<lparr>rt_current_priority := p\<rparr>) = ev_info s"
proof -
  have s: "ev_info (th_upd t (set_state x) s) = ev_info s" for t x and s :: "'a kernel_scheme"
    by (rule ev_info_upd) (simp_all add: set_state_def)
  show "ev_info (th_upd t (set_state x) s) = ev_info s" by (rule s)
  show "ev_info (th_upd t clear_yield s) = ev_info s" by (rule ev_info_upd) (simp_all add: clear_yield_def)
  show "ev_info (rt_schedule_insert_thread t s) = ev_info s"
    by (auto simp: rt_schedule_insert_thread_def Let_def ev_info_def fun_eq_iff th_upd_def set_state_def)
  show "ev_info (rt_schedule_remove_thread t s) = ev_info s"
    "ev_info (s\<lparr>rt_current_thread := c\<rparr>) = ev_info s" "ev_info (s\<lparr>rt_current_priority := p\<rparr>) = ev_info s"
    by (simp_all add: ev_info_def fun_eq_iff)
qed

lemma ev_info_resume [simp]: "ev_info (snd (rt_thread_resume t s)) = ev_info s"
  by (simp add: rt_thread_resume_def Let_def) (simp add: ev_info_def fun_eq_iff)

lemma ev_info_schedule: "rt_schedule s = Some s' \<Longrightarrow> ev_info s' = ev_info s"
  by (auto simp: rt_schedule_def Let_def bind_eq_Some_conv switch_to_def stay_on_def split: if_splits)

section \<open>Waking threads\<close>

definition cur_running :: "'a kernel_scheme \<Rightarrow> bool" where
  "cur_running s \<longleftrightarrow> (\<exists>c. rt_current_thread s = Some c \<and> th_state s c = RT_THREAD_RUNNING)"

text \<open>
  From \<open>s\<close> to \<open>s'\<close> the threads of \<open>W\<close> have been woken and taken from the lists where they waited;
  nothing else has happened but rescheduling.
\<close>

definition woke :: "nat set \<Rightarrow> 'a kernel_scheme \<Rightarrow> 'a kernel_scheme \<Rightarrow> bool" where
  "woke W s s' \<longleftrightarrow>
     kernel_ok s' \<and> rt_current_thread s' \<noteq> None \<and> (cur_running s \<longrightarrow> cur_running s') \<and>
     rt_tick s' = rt_tick s \<and> timer_keys s' = timer_keys s \<and> kernel.more s' = kernel.more s \<and>
     (\<forall>u. able s' u \<longleftrightarrow> able s u \<or> u \<in> W) \<and> (\<forall>u. \<not> able s' u \<longrightarrow> th_state s' u = th_state s u) \<and>
     (\<forall>l. tlists s' (Wait l) = filter (\<lambda>u. u \<notin> W) (tlists s (Wait l))) \<and>
     th_prio s' = th_prio s \<and> th_mask s' = th_mask s \<and> ev_info s' = ev_info s \<and>
     soft_timer_busy s' = soft_timer_busy s \<and> rt_scheduler_lock_nest s' = rt_scheduler_lock_nest s"

lemma woke_refl: "kernel_ok s \<Longrightarrow> rt_current_thread s \<noteq> None \<Longrightarrow> woke {} s s"
  by (simp add: woke_def)

lemma woke_trans: "woke W s u \<Longrightarrow> woke V u s' \<Longrightarrow> woke (W \<union> V) s s'"
  by (auto simp: woke_def conj_commute intro!: filter_cong)

lemma schedule_wait:
  assumes w: "kernel_wf s" and c: "rt_current_thread s = Some cur" and s: "rt_schedule s = Some s'"
  shows "tlists s' (Wait l) = tlists s (Wait l)"
  using w c
proof (cases rule: schedule_cases)
  case same
  then show ?thesis using s by simp
next
  case (stay p)
  have "cur \<notin> set (tlists s (Wait l))" using kernel_wf_free [OF w] stay by simp
  then show ?thesis using s stay by (auto simp: stay_on_def remove_views)
next
  case (switch t ts p)
  let ?i = "th_state s cur = RT_THREAD_RUNNING"
  have "t \<notin> set (tlists s (Wait l))" using kernel_wf_queued [OF w, of t "Wait l"] switch by auto
  moreover have "s' = switch_to cur t p ?i (if_running cur s)" using s switch by simp
  moreover note switch_to_views(5) [OF kernel_wf_if_running [OF w], unfolded if_running_views, OF c switch(3) refl, of p]
  ultimately show ?thesis by (simp add: lists_append_apply)
qed

lemma schedule_more: "rt_schedule s = Some s' \<Longrightarrow> kernel.more s' = kernel.more s"
  by (auto simp: rt_schedule_def Let_def bind_eq_Some_conv switch_to_def stay_on_def th_upd_def
      rt_schedule_remove_thread_def rt_schedule_insert_thread_def split: if_splits)

text \<open>Rescheduling wakes nobody, and a running thread is current afterwards if one was.\<close>

lemma schedule_running:
  assumes w: "kernel_wf s" and c: "rt_current_thread s = Some cur" and s: "rt_schedule s = Some s'"
    and r: "th_state s cur = RT_THREAD_RUNNING"
  shows "cur_running s'"
proof (cases "rt_scheduler_lock_nest s = 0")
  case True
  then show ?thesis using schedule_picks [OF w c s] r by (auto simp: cur_running_def)
next
  case False
  then show ?thesis using rt_schedule_idle [of s] s c r by (auto simp: cur_running_def)
qed

lemma schedule_woke:
  assumes k: "kernel_ok s" and c: "rt_current_thread s = Some cur" and s: "rt_schedule s = Some s'"
  shows "woke {} s s'"
proof -
  have w: "kernel_wf s" using k by (simp add: kernel_ok_def)
  show ?thesis
    using kernel_ok_schedule [OF k c s] schedule_current [OF w c s] schedule_running [OF w c s] schedule_able [OF w c s]
      schedule_frame [OF s] schedule_more [OF s] schedule_wait [OF w c s] ev_info_schedule [OF s] c
    by (auto simp: woke_def cur_running_def timer_keys_def)
qed

text \<open>With the scheduler unlocked the current thread runs, and no ready thread is more urgent.\<close>

definition urgent :: "'a kernel_scheme \<Rightarrow> bool" where
  "urgent s \<longleftrightarrow> (rt_scheduler_lock_nest s = 0 \<longrightarrow>
     (\<exists>c. rt_current_thread s = Some c \<and> th_state s c = RT_THREAD_RUNNING \<and> most_urgent s c))"

lemma urgent_cong:
  assumes "th_state s' = th_state s" and "th_prio s' = th_prio s" and "rt_current_thread s' = rt_current_thread s"
    and "rt_scheduler_lock_nest s' = rt_scheduler_lock_nest s"
  shows "urgent s' = urgent s"
  using assms by (simp add: urgent_def most_urgent_def)

lemma schedule_urgent:
  assumes w: "kernel_wf s" and c: "rt_current_thread s = Some cur" and s: "rt_schedule s = Some s'" and r: "cur_running s'"
  shows "urgent s'"
proof (cases "th_state s cur = RT_THREAD_RUNNING \<or> rt_thread_ready_priority_group s \<noteq> 0")
  case True
  then show ?thesis using schedule_picks [OF w c s] schedule_frame(5) [OF s] by (simp add: urgent_def)
next
  case False
  then have "s' = s" using rt_schedule_idle [of s] s by simp
  then show ?thesis using r c False by (simp add: cur_running_def)
qed

section \<open>The hard check\<close>

definition hard_threads :: "'a kernel_scheme \<Rightarrow> bool" where
  "hard_threads s \<longleftrightarrow> (\<forall>t\<in>set (rows s Hard). \<exists>u. t = Thread_timer u)"

lemma woke_remove:
  assumes "woke W u s"
  shows "woke W u (timer_remove x s)"
proof -
  have "able (timer_remove x s) = able s" "ev_info (timer_remove x s) = ev_info s" "timer_keys (timer_remove x s) = timer_keys s"
    "kernel.more (timer_remove x s) = kernel.more s" "cur_running (timer_remove x s) = cur_running s"
    by (simp_all add: able_def ev_info_def timer_keys_def fun_eq_iff cur_running_def) (simp add: timer_remove_def)
  then show ?thesis using assms by (simp add: woke_def kernel_ok_timer_remove)
qed

lemma ev_info_timeout_ready [simp]: "ev_info (timeout_ready t s) = ev_info s"
proof -
  have "ev_info (timeout_ready t s) = ev_info (tlist_remove t (th_upd t (\<lambda>th. th\<lparr>th_error := - RT_ETIMEOUT\<rparr>) s))"
    by (simp add: timeout_ready_def)
  also have "\<dots> = ev_info (th_upd t (\<lambda>th. th\<lparr>th_error := - RT_ETIMEOUT\<rparr>) s)" by (simp add: ev_info_def fun_eq_iff)
  also have "\<dots> = ev_info s" by (rule ev_info_upd) simp_all
  finally show ?thesis .
qed

lemma timeout_ready_woke:
  assumes k: "kernel_ok s" and c: "rt_current_thread s = Some cur" and st: "th_state s t = RT_THREAD_SUSPEND"
    and np: "\<not> tm_periodic (rt_timers s (Thread_timer t))"
  shows "woke {t} s (timeout_ready t (begin_fire Hard_temp (Thread_timer t) s))"
proof -
  let ?b = "begin_fire Hard_temp (Thread_timer t) s"
  have "kernel_ok ?b" by (rule kernel_ok_begin_fire [OF k]) simp
  then have "kernel_ok (timeout_ready t ?b)"
    by (rule kernel_ok_timeout_ready) (use st np in \<open>auto simp: begin_fire_timers\<close>)
  moreover have "tlists (timeout_ready t ?b) (Wait l) = filter (\<lambda>u. u \<noteq> t) (tlists s (Wait l))" for l
    by (cases "rt_current_thread s = Some t")
      (simp_all add: timeout_ready_def insert_views insert_current lists_append_apply removeAll_filter_not_eq eq_commute)
  moreover have "kernel.more (timeout_ready t ?b) = kernel.more s"
    by (simp add: timeout_ready_def begin_fire_def Let_def rt_schedule_insert_thread_def th_upd_def tlist_remove_def
        timer_remove_def tm_upd_def)
  moreover have "ev_info ?b = ev_info s" by (simp add: ev_info_def fun_eq_iff)
  ultimately show ?thesis
    using c st by (auto simp: woke_def timeout_ready_views cur_running_def able_def timer_keys_def begin_fire_timers fun_eq_iff)
qed

text \<open>One round for the expired timer of a thread.\<close>

lemma fire_thread_timer:
  assumes k: "kernel_ok s" and c: "rt_current_thread s = Some cur"
    and h: "rows s Hard = Thread_timer t # ts" and temp: "rows s Hard_temp = []"
  obtains s' where "timer_fire cb (Thread_timer t) s = Some s'" "rows s' = (rows s)(Hard := ts)" "woke {t} s s'"
    "cur_running s \<Longrightarrow> urgent s'"
proof -
  let ?t = "Thread_timer t"
  let ?b = "begin_fire Hard_temp ?t s"
  have w: "kernel_wf s" and tt: "thread_timers_ok s" and tw: "tm_wf (rt_timers s) (rows s)"
    using k by (auto simp: kernel_ok_def timers_wf_def)
  have a: "tm_active (rt_timers s ?t)" using tw h by (simp add: tm_wf_def)
  then have st: "th_state s t = RT_THREAD_SUSPEND" using tt by (simp add: thread_timers_ok_def)
  then have "th_mask s t \<noteq> 0" using kernel_wf_mask [OF w] by simp
  then have f: "tm_func (rt_timers s ?t) = Thread_timeout t" and np: "\<not> tm_periodic (rt_timers s ?t)"
    using tt by (auto simp: thread_timers_ok_def)
  have kb: "kernel_ok ?b" by (rule kernel_ok_begin_fire [OF k]) simp
  have bt: "rt_timers ?b = (rt_timers s)(?t := clear_flag RT_TIMER_FLAG_ACTIVATED (rt_timers s ?t))"
    using np by (simp add: begin_fire_timers)
  have ku: "kernel_ok (timeout_ready t ?b)"
    by (rule kernel_ok_timeout_ready [OF kb]) (use st bt in auto)
  have cu: "rt_current_thread (timeout_ready t ?b) = Some cur" using c by (simp add: timeout_ready_views)
  obtain s1 where s1: "rt_schedule (timeout_ready t ?b) = Some s1"
    using schedule_total [OF _ cu] ku by (auto simp: kernel_ok_def)
  have fr: "rows s1 = rows ?b" "rt_timers s1 = rt_timers ?b"
    using schedule_frame(1,2) [OF s1] by (simp_all add: timeout_ready_views)
  have run: "run_timeout cb (tm_func (rt_timers ?b ?t)) ?b = Some s1"
    using s1 st f bt by (simp add: run_timeout_def timeout_eq)
  have r1: "rows s1 = lists_push Hard_temp ?t (lists_remove ?t (rows s))"
    using fr(1) by (simp add: begin_fire_timers)
  have e: "end_fire Hard_temp ?t s1 = Some (timer_remove ?t s1)"
    using r1 np fr(2) bt by (simp add: end_fire_def Let_def lists_push_def)
  have fire: "timer_fire cb ?t s = Some (timer_remove ?t s1)"
    using run e by (simp add: timer_fire_def Let_def)
  have once: "?t \<notin> set (rows s x)" if "x \<noteq> Hard" for x
    using tw h that unfolding tm_wf_def by (metis list.set_intros(1))
  have "?t \<notin> set ts" using tw h unfolding tm_wf_def by (metis distinct.simps(2))
  then have rows': "rows (timer_remove ?t s1) = (rows s)(Hard := ts)"
    using once temp h by (auto simp: r1 lists_push_def fun_eq_iff)
  have "woke {} (timeout_ready t ?b) s1" by (rule schedule_woke [OF ku cu s1])
  then have w1: "woke {} (timeout_ready t ?b) (timer_remove ?t s1)" by (rule woke_remove)
  from woke_trans [OF timeout_ready_woke [OF k c st np] w1] have "woke ({t} \<union> {}) s (timer_remove ?t s1)" .
  moreover have "urgent (timer_remove ?t s1)" if r: "cur_running s"
  proof -
    have "kernel_wf (timeout_ready t ?b)" using ku by (simp add: kernel_ok_def)
    moreover have "cur_running s1"
      using \<open>woke {} (timeout_ready t ?b) s1\<close> timeout_ready_woke [OF k c st np] r by (simp add: woke_def)
    ultimately have "urgent s1" using schedule_urgent [OF _ cu s1] by simp
    then show ?thesis using urgent_cong [of "timer_remove ?t s1" s1] by simp
  qed
  ultimately show ?thesis using that [OF fire rows'] by simp
qed

text \<open>Which timers the check takes: those whose distance from the tick before is at most one.\<close>

lemma due_iff:
  assumes "key - b < (0x7FFFFFFF :: u32)"
  shows "(b + 1) - key < 0x7FFFFFFF \<longleftrightarrow> unat (key - b) \<le> 1"
proof -
  let ?d = "key - b"
  have e: "(b + 1) - key = 1 - ?d" by simp
  have d: "unat ?d < 2147483647" using assms by (simp add: word_less_nat_alt)
  show ?thesis
  proof (cases "unat ?d \<le> 1")
    case True
    then have "unat (1 - ?d) = 1 - unat ?d" by (subst unat_sub) (simp_all add: word_le_nat_alt)
    then show ?thesis using True unfolding e word_less_nat_alt by simp
  next
    case False
    then have "unat (1 :: u32) < unat ?d" by simp
    then have "unat (1 - ?d) = 4294967296 + unat (1 :: u32) - unat ?d" by (rule unat_sub_wrap)
    then have "\<not> unat (1 - ?d) < 2147483647" using d False by simp
    then show ?thesis using False unfolding e word_less_nat_alt by simp
  qed
qed

definition expired_by :: "u32 \<Rightarrow> 'a kernel_scheme \<Rightarrow> timer_id \<Rightarrow> bool" where
  "expired_by b s t \<longleftrightarrow> unat (timer_keys s t - b) \<le> 1"

lemma ordered_prefix:
  assumes o: "ordered_from b key xs"
  shows "takeWhile (\<lambda>t. unat (key t - b) \<le> n) xs = filter (\<lambda>t. unat (key t - b) \<le> n) xs"
    and "dropWhile (\<lambda>t. unat (key t - b) \<le> n) xs = filter (\<lambda>t. \<not> unat (key t - b) \<le> n) xs"
proof -
  have "sorted_wrt (\<lambda>y x. unat (key y - b) \<le> unat (key x - b)) xs" using o by (simp add: ordered_from_def)
  then have "takeWhile (\<lambda>t. unat (key t - b) \<le> n) xs = filter (\<lambda>t. unat (key t - b) \<le> n) xs \<and>
      dropWhile (\<lambda>t. unat (key t - b) \<le> n) xs = filter (\<lambda>t. \<not> unat (key t - b) \<le> n) xs"
  proof (induction xs)
    case (Cons x xs)
    then show ?case
    proof (cases "unat (key x - b) \<le> n")
      case False
      then have "\<forall>t\<in>set xs. \<not> unat (key t - b) \<le> n" using Cons.prems by fastforce
      then show ?thesis using False by (simp add: filter_id_conv filter_empty_conv)
    qed simp
  qed simp
  then show "takeWhile (\<lambda>t. unat (key t - b) \<le> n) xs = filter (\<lambda>t. unat (key t - b) \<le> n) xs"
    and "dropWhile (\<lambda>t. unat (key t - b) \<le> n) xs = filter (\<lambda>t. \<not> unat (key t - b) \<le> n) xs" by auto
qed

text \<open>
  The hard check returns. It removes the expired timers from the list and wakes their threads.
\<close>

definition hard_ready :: "u32 \<Rightarrow> 'a kernel_scheme \<Rightarrow> bool" where
  "hard_ready b s \<longleftrightarrow> hard_threads s \<and> rows s Hard_temp = [] \<and> ordered_from b (timer_keys s) (rows s Hard)"

definition expired :: "u32 \<Rightarrow> 'a kernel_scheme \<Rightarrow> nat set" where
  "expired b s = {u. Thread_timer u \<in> set (rows s Hard) \<and> expired_by b s (Thread_timer u)}"

lemma check_threads:
  assumes "kernel_ok s" and "rt_current_thread s \<noteq> None" and "hard_ready b s" and "rt_tick s = b + 1"
  shows "\<exists>s'. rt_timer_check cb s = Some s' \<and>
    rows s' = (rows s)(Hard := filter (\<lambda>t. \<not> expired_by b s t) (rows s Hard)) \<and> woke (expired b s) s s' \<and>
    (cur_running s \<longrightarrow> urgent s \<longrightarrow> urgent s')"
  using assms
proof (induction "rows s Hard" arbitrary: s)
  case Nil
  then have "expired b s = {}" by (auto simp: expired_def)
  then show ?case using Nil woke_refl [of s] by (subst rt_timer_check.simps) (auto simp: fun_upd_idem)
next
  case (Cons x ts)
  note prem = Cons.prems and h = Cons.hyps(2) [symmetric]
  note ready = prem(3) [unfolded hard_ready_def]
  obtain t where t: "x = Thread_timer t" using ready h by (auto simp: hard_threads_def)
  have due: "timer_due (rt_tick s) x s \<longleftrightarrow> expired_by b s x"
    using due_iff [of "timer_keys s x" b] ready prem(4) h
    by (auto simp: timer_due_def expired_by_def timer_keys_def ordered_from_def)
  show ?case
  proof (cases "expired_by b s x")
    case False
    then have "\<not> timer_due (rt_tick s) x s" using due by simp
    then have r: "rt_timer_check cb s = Some s" by (subst rt_timer_check.simps) (simp add: h)
    have f: "filter (\<lambda>t. \<not> expired_by b s t) (rows s Hard) = rows s Hard"
      using ordered_prefix(2) [of b "timer_keys s" "rows s Hard" 1] ready False h by (simp add: expired_by_def)
    then have "\<not> expired_by b s u" if "u \<in> set (rows s Hard)" for u
      using that by (metis filter_id_conv)
    then have "expired b s = {}" by (auto simp: expired_def)
    then show ?thesis using r f woke_refl [OF prem(1,2)] by (auto simp: fun_upd_idem)
  next
    case True
    obtain cur where c: "rt_current_thread s = Some cur" using prem(2) by auto
    obtain s1 where f: "timer_fire cb (Thread_timer t) s = Some s1" "rows s1 = (rows s)(Hard := ts)" "woke {t} s s1" "cur_running s \<Longrightarrow> urgent s1"
      using fire_thread_timer [OF prem(1) c h [unfolded t], of cb] ready by blast
    have keys: "timer_keys s1 = timer_keys s" and tick: "rt_tick s1 = rt_tick s" and k1: "kernel_ok s1"
      and c1: "rt_current_thread s1 \<noteq> None" using f(3) by (auto simp: woke_def)
    have r: "rt_timer_check cb s = rt_timer_check cb s1"
      using f(1) True due t by (subst rt_timer_check.simps) (simp add: h)
    have ex: "expired_by b s1 = expired_by b s" using keys by (simp add: expired_by_def fun_eq_iff)
    have "hard_ready b s1"
      using ready h f(2) keys by (auto simp: hard_ready_def ordered_from_def hard_threads_def)
    then have "\<exists>s'. rt_timer_check cb s1 = Some s' \<and>
        rows s' = (rows s1)(Hard := filter (\<lambda>t. \<not> expired_by b s1 t) (rows s1 Hard)) \<and> woke (expired b s1) s1 s' \<and>
        (cur_running s1 \<longrightarrow> urgent s1 \<longrightarrow> urgent s')"
      by (intro Cons.hyps(1)) (use f(2) k1 c1 tick prem(4) in simp_all)
    then obtain s' where s': "rt_timer_check cb s1 = Some s'" "rows s' = (rows s1)(Hard := filter (\<lambda>t. \<not> expired_by b s t) ts)"
      "woke (expired b s1) s1 s'" "cur_running s1 \<Longrightarrow> urgent s1 \<Longrightarrow> urgent s'" using f(2) ex by auto
    have "{t} \<union> expired b s1 = expired b s" using ex f(2) h t True by (auto simp: expired_def)
    then have "woke (expired b s) s s'" using woke_trans [OF f(3) s'(3)] by simp
    moreover have "urgent s'" if "cur_running s" using f(3,4) s'(4) that by (simp add: woke_def)
    ultimately show ?thesis using r s'(1,2) f(2) h True by (intro exI [of _ s']) auto
  qed
qed

end
