(* ===== verification/KIpc.thy ===== *)
theory KIpc
  imports KSleep
begin

text \<open>
  Communication between threads (\<open>src/ipc.c\<close>): the suspend lists, semaphores, mutexes with priority
  inheritance; event sets follow in theory \<open>KEvent\<close>. A call that may block ends the modelled operation at
  \<open>rt_schedule\<close> with the result \<open>None\<close>; when the thread runs again, its error number is the result.
  \<open>Some e\<close> is the result of a call that returns at once.

  The invariants: a semaphore with a positive value has no waiters; a mutex is owned exactly when
  its value is zero, is then held at least once, and has waiters only then. Wake-ups follow the
  order of the suspend list: arrival, or priority and among equals arrival.

  Not modelled: mailboxes and message queues (the program does not use them), object
  allocation and names.
\<close>

section \<open>Suspend lists\<close>

abbreviation (input) RT_IPC_FLAG_FIFO :: u8 where "RT_IPC_FLAG_FIFO \<equiv> 0"
abbreviation (input) RT_IPC_FLAG_PRIO :: u8 where "RT_IPC_FLAG_PRIO \<equiv> 1"

record semaphore =
  sem_value :: u16
  sem_flag :: u8

record mutex =
  mx_value :: u16
  mx_owner :: "nat option"
  mx_original_priority :: u8
  mx_hold :: u8
  mx_flag :: u8

record event =
  ev_set :: u32
  ev_flag :: u8

record ipc = kernel +
  sems :: "nat \<Rightarrow> semaphore"
  mutexes :: "nat \<Rightarrow> mutex"
  events :: "nat \<Rightarrow> event"

text \<open>The walk of \<open>_ipc_list_suspend\<close> for a priority ordered list.\<close>

fun prio_walk :: "(nat \<Rightarrow> nat) \<Rightarrow> nat \<Rightarrow> nat list \<Rightarrow> nat list" where
  "prio_walk pr x [] = [x]"
| "prio_walk pr x (y # ys) = (if pr x < pr y then x # y # ys else y # prio_walk pr x ys)"

interpretation wait_list: stable_insertion "prio_walk pr" "\<lambda>y x. \<not> pr x < pr y" for pr
proof
  show "prio_walk pr x xs = takeWhile (\<lambda>y. \<not> pr x < pr y) xs @ x # dropWhile (\<lambda>y. \<not> pr x < pr y) xs" for x xs
    by (induction xs) auto
qed

definition ipc_list_suspend :: "ipc_list \<Rightarrow> nat \<Rightarrow> u8 \<Rightarrow> 'a kernel_scheme \<Rightarrow> 'a kernel_scheme option" where
  "ipc_list_suspend l t flag s = do {
     (_, s) \<leftarrow> rt_thread_suspend t s;
     if flag = RT_IPC_FLAG_FIFO then Some (s\<lparr>tlists := lists_append (Wait l) t (tlists s)\<rparr>)
     else if flag = RT_IPC_FLAG_PRIO
     then Some (s\<lparr>tlists := (tlists s)(Wait l := prio_walk (th_prio s) t (tlists s (Wait l)))\<rparr>)
     else None
   }"

definition ipc_list_resume :: "ipc_list \<Rightarrow> 'a kernel_scheme \<Rightarrow> 'a kernel_scheme option" where
  "ipc_list_resume l s = (case tlists s (Wait l) of [] \<Rightarrow> None | t # _ \<Rightarrow> Some (snd (rt_thread_resume t s)))"

partial_function (option) ipc_list_resume_all :: "ipc_list \<Rightarrow> 'a kernel_scheme \<Rightarrow> 'a kernel_scheme option" where
  "ipc_list_resume_all l s =
     (case tlists s (Wait l) of
        [] \<Rightarrow> Some s
      | t # _ \<Rightarrow> ipc_list_resume_all l (snd (rt_thread_resume t (th_upd t (\<lambda>th. th\<lparr>th_error := - RT_ERROR\<rparr>) s))))"

declare ipc_list_resume_all.simps [code]

text \<open>
  The part every blocking call ends with: the thread is put to the suspend list, its timer is
  started for a positive waiting time, and another thread is scheduled. A negative time waits for
  ever.
\<close>

definition ipc_block :: "ipc_list \<Rightarrow> nat \<Rightarrow> u8 \<Rightarrow> 32 word \<Rightarrow> 'a kernel_scheme \<Rightarrow> 'a kernel_scheme option" where
  "ipc_block l t flag time s = do {
     s \<leftarrow> ipc_list_suspend l t flag s;
     s \<leftarrow> (if 0 <s time then start_thread_timer t time s else Some s);
     rt_schedule s
   }"

section \<open>Semaphores\<close>

definition sem_upd :: "nat \<Rightarrow> (semaphore \<Rightarrow> semaphore) \<Rightarrow> 'a ipc_scheme \<Rightarrow> 'a ipc_scheme" where
  "sem_upd i f s = s\<lparr>sems := (sems s)(i := f (sems s i))\<rparr>"

definition rt_sem_init :: "nat \<Rightarrow> u32 \<Rightarrow> u8 \<Rightarrow> 'a ipc_scheme \<Rightarrow> 'a ipc_scheme option" where
  "rt_sem_init i value flag s =
     (if value < 0x10000 \<and> (flag = RT_IPC_FLAG_FIFO \<or> flag = RT_IPC_FLAG_PRIO)
      then Some (sem_upd i (\<lambda>_. \<lparr>sem_value = ucast value, sem_flag = flag\<rparr>)
        (s\<lparr>tlists := (tlists s)(Wait (Sem_list i) := [])\<rparr>))
      else None)"

definition rt_sem_take :: "nat \<Rightarrow> 32 word \<Rightarrow> 'a ipc_scheme \<Rightarrow> (int option \<times> 'a ipc_scheme) option" where
  "rt_sem_take i time s =
     (if sem_value (sems s i) > 0 then Some (Some RT_EOK, sem_upd i (\<lambda>m. m\<lparr>sem_value := sem_value m - 1\<rparr>) s)
      else if time = 0 then Some (Some (- RT_ETIMEOUT), s)
      else do {
        t \<leftarrow> rt_current_thread s;
        let s = th_upd t (\<lambda>th. th\<lparr>th_error := RT_EOK\<rparr>) s;
        s \<leftarrow> ipc_block (Sem_list i) t (sem_flag (sems s i)) time s;
        Some (None, s)
      })"

definition rt_sem_trytake :: "nat \<Rightarrow> 'a ipc_scheme \<Rightarrow> (int option \<times> 'a ipc_scheme) option" where
  "rt_sem_trytake i s = rt_sem_take i 0 s"

text \<open>The result of a call that blocked.\<close>

definition wait_result :: "nat \<Rightarrow> 'a kernel_scheme \<Rightarrow> int" where
  "wait_result t s = (if th_error (rt_threads s t) \<noteq> RT_EOK then th_error (rt_threads s t) else RT_EOK)"

definition rt_sem_release :: "nat \<Rightarrow> 'a ipc_scheme \<Rightarrow> (int \<times> 'a ipc_scheme) option" where
  "rt_sem_release i s =
     (if tlists s (Wait (Sem_list i)) \<noteq> [] then do {
        s \<leftarrow> ipc_list_resume (Sem_list i) s;
        s \<leftarrow> rt_schedule s;
        Some (RT_EOK, s)
      }
      else if sem_value (sems s i) < 0xFFFF
      then Some (RT_EOK, sem_upd i (\<lambda>m. m\<lparr>sem_value := sem_value m + 1\<rparr>) s)
      else Some (- RT_EFULL, s))"

text \<open>\<open>RT_IPC_CMD_RESET\<close>; every other command fails.\<close>

definition rt_sem_reset :: "nat \<Rightarrow> u32 \<Rightarrow> 'a ipc_scheme \<Rightarrow> 'a ipc_scheme option" where
  "rt_sem_reset i value s = do {
     s \<leftarrow> ipc_list_resume_all (Sem_list i) s;
     rt_schedule (sem_upd i (\<lambda>m. m\<lparr>sem_value := ucast value\<rparr>) s)
   }"

definition rt_sem_detach :: "nat \<Rightarrow> 'a ipc_scheme \<Rightarrow> 'a ipc_scheme option" where
  "rt_sem_detach i s = ipc_list_resume_all (Sem_list i) s"

section \<open>Mutexes\<close>

definition mx_upd :: "nat \<Rightarrow> (mutex \<Rightarrow> mutex) \<Rightarrow> 'a ipc_scheme \<Rightarrow> 'a ipc_scheme" where
  "mx_upd i f s = s\<lparr>mutexes := (mutexes s)(i := f (mutexes s i))\<rparr>"

definition rt_mutex_init :: "nat \<Rightarrow> u8 \<Rightarrow> 'a ipc_scheme \<Rightarrow> 'a ipc_scheme" where
  "rt_mutex_init i flag s =
     mx_upd i (\<lambda>_. \<lparr>mx_value = 1, mx_owner = None, mx_original_priority = 0xFF, mx_hold = 0, mx_flag = RT_IPC_FLAG_PRIO\<rparr>)
       (s\<lparr>tlists := (tlists s)(Wait (Mutex_list i) := [])\<rparr>)"

definition rt_mutex_take :: "nat \<Rightarrow> 32 word \<Rightarrow> 'a ipc_scheme \<Rightarrow> (int option \<times> 'a ipc_scheme) option" where
  "rt_mutex_take i time s = do {
     t \<leftarrow> rt_current_thread s;
     let s = th_upd t (\<lambda>th. th\<lparr>th_error := RT_EOK\<rparr>) s;
     let m = mutexes s i;
     if mx_owner m = Some t then
       (if mx_hold m < 0xFF then Some (Some RT_EOK, mx_upd i (\<lambda>m. m\<lparr>mx_hold := mx_hold m + 1\<rparr>) s)
        else Some (Some (- RT_EFULL), s))
     else if mx_value m > 0 then
       let s = mx_upd i (\<lambda>m. m\<lparr>mx_value := mx_value m - 1, mx_owner := Some t,
             mx_original_priority := th_current_priority (rt_threads s t)\<rparr>) s
       in (if mx_hold m < 0xFF then Some (Some RT_EOK, mx_upd i (\<lambda>m. m\<lparr>mx_hold := mx_hold m + 1\<rparr>) s)
           else Some (Some (- RT_EFULL), s))
     else if time = 0 then Some (Some (- RT_ETIMEOUT), th_upd t (\<lambda>th. th\<lparr>th_error := - RT_ETIMEOUT\<rparr>) s)
     else do {
       owner \<leftarrow> mx_owner m;
       let s = (if th_prio s t < th_prio s owner
                then change_priority owner (th_current_priority (rt_threads s t)) s else s);
       s \<leftarrow> ipc_block (Mutex_list i) t (mx_flag m) time s;
       Some (None, s)
     }
   }"

definition rt_mutex_trytake :: "nat \<Rightarrow> 'a ipc_scheme \<Rightarrow> (int option \<times> 'a ipc_scheme) option" where
  "rt_mutex_trytake i s = rt_mutex_take i 0 s"

definition rt_mutex_release :: "nat \<Rightarrow> 'a ipc_scheme \<Rightarrow> (int \<times> 'a ipc_scheme) option" where
  "rt_mutex_release i s = do {
     t \<leftarrow> rt_current_thread s;
     if mx_owner (mutexes s i) \<noteq> Some t then Some (- RT_ERROR, th_upd t (\<lambda>th. th\<lparr>th_error := - RT_ERROR\<rparr>) s)
     else do {
       let s = mx_upd i (\<lambda>m. m\<lparr>mx_hold := mx_hold m - 1\<rparr>) s;
       if mx_hold (mutexes s i) \<noteq> 0 then Some (RT_EOK, s)
       else do {
         let orig = mx_original_priority (mutexes s i);
         let s = (if orig \<noteq> th_current_priority (rt_threads s t) then change_priority t orig s else s);
         (case tlists s (Wait (Mutex_list i)) of
            u # _ \<Rightarrow>
              let s = mx_upd i (\<lambda>m. m\<lparr>mx_owner := Some u, mx_original_priority := th_current_priority (rt_threads s u)\<rparr>) s
              in if mx_hold (mutexes s i) < 0xFF then do {
                   let s = mx_upd i (\<lambda>m. m\<lparr>mx_hold := mx_hold m + 1\<rparr>) s;
                   s \<leftarrow> ipc_list_resume (Mutex_list i) s;
                   s \<leftarrow> rt_schedule s;
                   Some (RT_EOK, s)
                 }
                 else Some (- RT_EFULL, s)
          | [] \<Rightarrow>
              if mx_value (mutexes s i) < 0xFFFF
              then Some (RT_EOK, mx_upd i (\<lambda>m. m\<lparr>mx_value := mx_value m + 1, mx_owner := None, mx_original_priority := 0xFF\<rparr>) s)
              else Some (- RT_EFULL, s))
       }
     }
   }"

definition rt_mutex_detach :: "nat \<Rightarrow> 'a ipc_scheme \<Rightarrow> 'a ipc_scheme option" where
  "rt_mutex_detach i s = ipc_list_resume_all (Mutex_list i) s"
section \<open>What the kernel operations leave alone\<close>

text \<open>
  The IPC objects live in the extension of the kernel record, which the operations on threads and
  timers do not touch; and no operation but \<open>_ipc_list_suspend\<close> adds a thread to a suspend list.
\<close>

definition quiet :: "'a kernel_scheme \<Rightarrow> 'a kernel_scheme \<Rightarrow> bool" where
  "quiet s s' \<longleftrightarrow> kernel.more s' = kernel.more s \<and> (\<forall>l. set (tlists s' (Wait l)) \<subseteq> set (tlists s (Wait l)))"

lemma quiet_refl [simp]: "quiet s s"
  by (simp add: quiet_def)

lemma quiet_trans: "quiet s s1 \<Longrightarrow> quiet s1 s2 \<Longrightarrow> quiet s s2"
  unfolding quiet_def by (auto dest: subset_trans)

lemma quiet_steps:
  assumes "quiet s u"
  shows "quiet s (th_upd t f u)" "quiet s (tm_upd tm g u)" "quiet s (timer_remove tm u)" "quiet s (tlist_remove t u)"
    "quiet s (rt_schedule_remove_thread t u)" "quiet s (rt_schedule_insert_thread t u)" "quiet s (u\<lparr>rt_tick := k\<rparr>)"
    "quiet s (u\<lparr>rt_current_thread := c\<rparr>)" "quiet s (u\<lparr>rt_current_priority := p\<rparr>)" "quiet s (u\<lparr>rows := R\<rparr>)"
    "quiet s (u\<lparr>rt_scheduler_lock_nest := n\<rparr>)" "quiet s (u\<lparr>soft_timer_busy := b\<rparr>)" "quiet s (u\<lparr>rt_timers := T\<rparr>)"
  using assms
  by (auto simp: quiet_def th_upd_def tm_upd_def timer_remove_def tlist_remove_def rt_schedule_remove_thread_def
      rt_schedule_insert_thread_def Let_def lists_append_def)

lemma quiet_schedule: "rt_schedule s = Some s' \<Longrightarrow> quiet s s'"
  by (auto simp: rt_schedule_def Let_def bind_eq_Some_conv switch_to_def stay_on_def quiet_steps split: if_splits)

lemma quiet_stop: "quiet s u \<Longrightarrow> quiet s (snd (rt_timer_stop t u))"
  by (simp add: rt_timer_stop_def quiet_steps)

lemma quiet_resume: "quiet s u \<Longrightarrow> quiet s (snd (rt_thread_resume t u))"
  by (simp add: rt_thread_resume_def Let_def quiet_steps quiet_stop)

lemma quiet_suspend: "rt_thread_suspend t s = Some (e, s') \<Longrightarrow> quiet s s'"
  by (erule suspend_cases) (simp_all add: quiet_steps quiet_stop)

lemma quiet_arm: "timer_arm t s = Some s' \<Longrightarrow> quiet s s'"
  by (auto simp: timer_arm_eq quiet_def split: if_splits)

lemma quiet_start: "rt_timer_start t s = Some s' \<Longrightarrow> quiet s s'"
  by (erule start_cases) (use quiet_arm quiet_schedule quiet_resume quiet_trans in blast)+

lemma quiet_start_thread_timer: "start_thread_timer t time s = Some s' \<Longrightarrow> quiet s s'"
  unfolding start_thread_timer_def rt_timer_control.simps snd_conv
  by (rule quiet_trans [OF quiet_steps(2) [OF quiet_refl] quiet_start])

lemma quiet_sems:
  assumes "quiet s (s' :: 'a ipc_scheme)"
  shows "sems s' = sems s" "mutexes s' = mutexes s" "events s' = events s"
proof -
  have "kernel.more s' = kernel.more s" using assms by (simp add: quiet_def)
  then show "sems s' = sems s" "mutexes s' = mutexes s" "events s' = events s"
    by (cases s; cases s'; simp)+
qed

section \<open>The suspend lists keep the kernel in order\<close>

lemma ipc_suspend_cases:
  assumes k: "kernel_ok s" and r: "th_state s t = RT_THREAD_RUNNING" and s: "ipc_list_suspend l t flag s = Some s'"
  shows "kernel_ok s'" and "th_state s' = (th_state s)(t := RT_THREAD_SUSPEND)"
    and "rt_current_thread s' = rt_current_thread s" and "th_mask s' = th_mask s" and "th_prio s' = th_prio s"
    and "rt_tick s' = rt_tick s" and "rt_scheduler_lock_nest s' = rt_scheduler_lock_nest s"
    and "kernel.more s' = kernel.more s"
    and "tlists s' (Wait l) = (if flag = RT_IPC_FLAG_FIFO then tlists s (Wait l) @ [t] else prio_walk (th_prio s) t (tlists s (Wait l)))"
    and "\<And>m. m \<noteq> l \<Longrightarrow> tlists s' (Wait m) = tlists s (Wait m)"
proof -
  obtain e s1 where s1: "rt_thread_suspend t s = Some (e, s1)"
    and rest: "(if flag = RT_IPC_FLAG_FIFO then Some (s1\<lparr>tlists := lists_append (Wait l) t (tlists s1)\<rparr>)
     else if flag = RT_IPC_FLAG_PRIO
     then Some (s1\<lparr>tlists := (tlists s1)(Wait l := prio_walk (th_prio s1) t (tlists s1 (Wait l)))\<rparr>)
     else None) = Some s'"
    using s by (auto simp: ipc_list_suspend_def bind_eq_Some_conv split: prod.splits)
  have k1: "kernel_ok s1" using kernel_ok_suspend [OF k s1] .
  then have w1: "kernel_wf s1" by (simp add: kernel_ok_def)
  have st1: "th_state s1 = (th_state s)(t := RT_THREAD_SUSPEND)" using suspend_state [OF s1] r by simp
  have L1: "tlists s1 = lists_remove t (tlists s)" using suspend_lists [OF s1] r by simp
  have w: "kernel_wf s" using k by (simp add: kernel_ok_def)
  have free: "t \<notin> set (tlists s h)" for h using kernel_wf_free [OF w] r by simp
  then have same: "tlists s1 = tlists s" using L1 by (simp add: lists_remove_def)
  let ?ys = "if flag = RT_IPC_FLAG_FIFO then tlists s1 (Wait l) @ [t] else prio_walk (th_prio s1) t (tlists s1 (Wait l))"
  have s': "s' = s1\<lparr>tlists := (tlists s1)(Wait l := ?ys)\<rparr>"
    using rest by (cases "flag = RT_IPC_FLAG_FIFO"; cases "flag = RT_IPC_FLAG_PRIO") (simp_all add: lists_append_def)
  have d: "distinct (tlists s1 (Wait l))" using kernel_wf_distinct [OF w1] .
  have ys: "distinct ?ys" "set ?ys = insert t (set (tlists s1 (Wait l)))"
    using d free wait_list.distinct_ins [OF d, of t] by (simp_all add: same wait_list.set_ins)
  have "table_wf (th_state s1) (th_prio s1) (th_mask s1) ((tlists s1)(Wait l := ?ys)) (rt_thread_ready_priority_group s1)"
    by (rule table_wf_wait [where t = t]) (use w1 free st1 ys in \<open>simp_all add: kernel_wf_def same\<close>)
  then have "kernel_wf s'" using w1 by (simp add: s' kernel_wf_def)
  then show "kernel_ok s'" using k1 by (simp add: s' kernel_ok_def timers_wf_def thread_timers_ok_def)
  note v = suspend_views [OF s1]
  show "th_state s' = (th_state s)(t := RT_THREAD_SUSPEND)" "rt_current_thread s' = rt_current_thread s" "th_mask s' = th_mask s"
    "th_prio s' = th_prio s" "rt_tick s' = rt_tick s" "rt_scheduler_lock_nest s' = rt_scheduler_lock_nest s"
    using v st1 by (simp_all add: s')
  show "kernel.more s' = kernel.more s" using quiet_suspend [OF s1] by (simp add: s' quiet_def)
  show "tlists s' (Wait l) = (if flag = RT_IPC_FLAG_FIFO then tlists s (Wait l) @ [t] else prio_walk (th_prio s) t (tlists s (Wait l)))"
    using v by (simp add: s' same)
  show "tlists s' (Wait m) = tlists s (Wait m)" if "m \<noteq> l" for m using that by (simp add: s' same)
qed

lemma block_ok:
  assumes k: "kernel_ok s" and c: "rt_current_thread s = Some t" and r: "th_state s t = RT_THREAD_RUNNING"
    and s: "ipc_block l t flag time s = Some s'"
  shows "kernel_ok s'" and "rt_current_thread s' \<noteq> None" and "th_state s' t = RT_THREAD_SUSPEND"
    and "kernel.more s' = kernel.more s"
    and "tlists s' (Wait l) = (if flag = RT_IPC_FLAG_FIFO then tlists s (Wait l) @ [t] else prio_walk (th_prio s) t (tlists s (Wait l)))"
    and "\<And>m. m \<noteq> l \<Longrightarrow> tlists s' (Wait m) = tlists s (Wait m)"
    and "rt_scheduler_lock_nest s' = rt_scheduler_lock_nest s"
proof -
  obtain s1 s2 where s1: "ipc_list_suspend l t flag s = Some s1"
    and s2: "(if 0 <s time then start_thread_timer t time s1 else Some s1) = Some s2" and sch: "rt_schedule s2 = Some s'"
    using s by (auto simp: ipc_block_def bind_eq_Some_conv)
  note b = ipc_suspend_cases [OF k r s1]
  have t1: "th_state s1 t = RT_THREAD_SUSPEND" using b(2) by simp
  have m1: "th_mask s1 t \<noteq> 0" using kernel_wf_mask [of s t] k r b(4) by (auto simp: kernel_ok_def)
  have k2: "kernel_ok s2" using s2 kernel_ok_start_thread_timer [OF b(1) t1] b(1) by (auto split: if_splits)
  have v: "tlists s2 = tlists s1 \<and> th_state s2 = th_state s1 \<and> rt_current_thread s2 = rt_current_thread s1 \<and>
      kernel.more s2 = kernel.more s1 \<and> rt_scheduler_lock_nest s2 = rt_scheduler_lock_nest s1"
  proof (cases "0 <s time")
    case True
    then have a: "timer_arm (Thread_timer t) (tm_upd (Thread_timer t) (\<lambda>tm. tm\<lparr>tm_init_tick := time\<rparr>) s1) = Some s2"
      using s2 start_thread_timer_eq [OF b(1) m1] by simp
    show ?thesis using arm_views [OF a] quiet_arm [OF a] by (simp add: quiet_def tm_upd_def)
  qed (use s2 in simp)
  have c2: "rt_current_thread s2 = Some t" using v b(3) c by simp
  have w2: "kernel_wf s2" using k2 by (simp add: kernel_ok_def)
  show "kernel_ok s'" using kernel_ok_schedule [OF k2 c2 sch] .
  show "rt_current_thread s' \<noteq> None" using schedule_current [OF w2 c2 sch] .
  show "th_state s' t = RT_THREAD_SUSPEND" using schedule_state [OF w2 c2 sch, of t] v t1 by simp
  show "kernel.more s' = kernel.more s" using quiet_schedule [OF sch] v b(8) by (simp add: quiet_def)
  show "tlists s' (Wait l) = (if flag = RT_IPC_FLAG_FIFO then tlists s (Wait l) @ [t] else prio_walk (th_prio s) t (tlists s (Wait l)))"
    using schedule_wait [OF w2 c2 sch] v b(9) by simp
  show "tlists s' (Wait m) = tlists s (Wait m)" if "m \<noteq> l" for m
    using schedule_wait [OF w2 c2 sch] v b(10) that by simp
  show "rt_scheduler_lock_nest s' = rt_scheduler_lock_nest s" using schedule_frame [OF sch] v b(7) by simp
qed

text \<open>The call never fails by itself: it returns whenever the waiting time is a valid timer interval.\<close>

lemma block_total:
  assumes k: "kernel_ok s" and c: "rt_current_thread s = Some t" and r: "th_state s t = RT_THREAD_RUNNING"
    and f: "flag = RT_IPC_FLAG_FIFO \<or> flag = RT_IPC_FLAG_PRIO" and time: "\<not> 0 <s time \<or> time < 0x7FFFFFFF"
  obtains s' where "ipc_block l t flag time s = Some s'"
proof -
  have w: "kernel_wf s" using k by (simp add: kernel_ok_def)
  obtain e s0 where "rt_thread_suspend t s = Some (e, s0)" using suspend_total [OF w] .
  then obtain s1 where s1: "ipc_list_suspend l t flag s = Some s1"
    using f by (auto simp: ipc_list_suspend_def bind_eq_Some_conv)
  note b = ipc_suspend_cases [OF k r s1]
  have t1: "th_state s1 t = RT_THREAD_SUSPEND" using b(2) by simp
  have m1: "th_mask s1 t \<noteq> 0" using kernel_wf_mask [of s t] k r b(4) by (auto simp: kernel_ok_def)
  have "(if 0 <s time then start_thread_timer t time s1 else Some s1) \<noteq> None"
    using time start_thread_timer_eq [OF b(1) m1, of time] by (auto simp: timer_arm_eq)
  then obtain s2 where s2: "(if 0 <s time then start_thread_timer t time s1 else Some s1) = Some s2" by blast
  have k2: "kernel_ok s2" using s2 kernel_ok_start_thread_timer [OF b(1) t1] b(1) by (auto split: if_splits)
  have c2: "rt_current_thread s2 = Some t"
    using s2 b(3) c arm_views(4) [of "Thread_timer t" "tm_upd (Thread_timer t) (\<lambda>tm. tm\<lparr>tm_init_tick := time\<rparr>) s1" s2]
      start_thread_timer_eq [OF b(1) m1, of time] by (auto split: if_splits)
  obtain s' where "rt_schedule s2 = Some s'" using schedule_total [OF _ c2] k2 by (auto simp: kernel_ok_def)
  then show ?thesis using that s1 s2 by (simp add: ipc_block_def)
qed

section \<open>Semaphores: no waiter while the value is positive\<close>

definition sem_ok :: "'a ipc_scheme \<Rightarrow> bool" where
  "sem_ok s \<longleftrightarrow> (\<forall>i. sem_value (sems s i) > 0 \<longrightarrow> tlists s (Wait (Sem_list i)) = [])"

lemma sem_ok_quiet: "quiet s s' \<Longrightarrow> sem_ok s \<Longrightarrow> sem_ok s'"
  using quiet_sems(1) [of s s'] unfolding sem_ok_def quiet_def by (metis set_empty subset_empty)

lemma sem_upd_views [simp]:
  "th_state (sem_upd i f s) = th_state s" "th_prio (sem_upd i f s) = th_prio s" "th_mask (sem_upd i f s) = th_mask s"
  "tlists (sem_upd i f s) = tlists s" "rt_current_thread (sem_upd i f s) = rt_current_thread s"
  "rt_threads (sem_upd i f s) = rt_threads s" "rt_tick (sem_upd i f s) = rt_tick s" "rows (sem_upd i f s) = rows s"
  "rt_timers (sem_upd i f s) = rt_timers s" "rt_scheduler_lock_nest (sem_upd i f s) = rt_scheduler_lock_nest s"
  "rt_thread_ready_priority_group (sem_upd i f s) = rt_thread_ready_priority_group s"
  "sems (sem_upd i f s) = (sems s)(i := f (sems s i))" "mutexes (sem_upd i f s) = mutexes s"
  "soft_timer_busy (sem_upd i f s) = soft_timer_busy s"
  by (simp_all add: sem_upd_def th_state_def th_prio_def th_mask_def fun_eq_iff)

lemma kernel_ok_sem_upd [simp]: "kernel_ok (sem_upd i f s) = kernel_ok s"
  using kernel_wf_cong [of "sem_upd i f s" s] by (simp add: kernel_ok_def timers_wf_def thread_timers_ok_def)

lemma kernel_ok_set_error: "kernel_ok s \<Longrightarrow> kernel_ok (th_upd t (\<lambda>th. th\<lparr>th_error := e\<rparr>) s)"
  by (rule th_upd_ok) simp_all

lemma set_error_state [simp]: "th_state (th_upd t (\<lambda>th. th\<lparr>th_error := e\<rparr>) s) = th_state s"
  "th_prio (th_upd t (\<lambda>th. th\<lparr>th_error := e\<rparr>) s) = th_prio s" "th_mask (th_upd t (\<lambda>th. th\<lparr>th_error := e\<rparr>) s) = th_mask s"
  by (auto simp: th_views_upd) (auto simp: th_state_def th_prio_def th_mask_def)

lemma th_upd_sems [simp]: "sems (th_upd t f s) = sems s" "mutexes (th_upd t f s) = mutexes s"
  by (simp_all add: th_upd_def)

lemma sem_take_ok:
  assumes k: "kernel_ok s" and m: "sem_ok s" and c: "rt_current_thread s = Some t"
    and r: "th_state s t = RT_THREAD_RUNNING" and s: "rt_sem_take i time s = Some (e, s')"
  shows "kernel_ok s'" and "sem_ok s'" and "rt_current_thread s' \<noteq> None"
    and "e = None \<longleftrightarrow> sem_value (sems s i) = 0 \<and> time \<noteq> 0"
    and "e = None \<Longrightarrow> th_state s' t = RT_THREAD_SUSPEND \<and> t \<in> set (tlists s' (Wait (Sem_list i)))"
    and "e = Some RT_EOK \<longleftrightarrow> sem_value (sems s i) > 0"
proof -
  have "kernel_ok s' \<and> sem_ok s' \<and> rt_current_thread s' \<noteq> None \<and> (e = None \<longleftrightarrow> sem_value (sems s i) = 0 \<and> time \<noteq> 0) \<and>
    (e = None \<longrightarrow> th_state s' t = RT_THREAD_SUSPEND \<and> t \<in> set (tlists s' (Wait (Sem_list i)))) \<and>
    (e = Some RT_EOK \<longleftrightarrow> sem_value (sems s i) > 0)"
  proof (cases "sem_value (sems s i) > 0 \<or> time = 0")
    case True
    then show ?thesis using s k m c by (auto simp: rt_sem_take_def sem_ok_def split: if_splits)
  next
    case False
    then have v: "sem_value (sems s i) = 0" by (simp add: word_gt_0)
    let ?u = "th_upd t (\<lambda>th. th\<lparr>th_error := RT_EOK\<rparr>) s"
    from False s c v obtain e: "e = None" and b: "ipc_block (Sem_list i) t (sem_flag (sems s i)) time ?u = Some s'"
      by (auto simp: rt_sem_take_def Let_def bind_eq_Some_conv)
    note bo = block_ok [OF kernel_ok_set_error [OF k] _ _ b]
    have c': "rt_current_thread ?u = Some t" "th_state ?u t = RT_THREAD_RUNNING" using c r by simp_all
    have "kernel.more s' = kernel.more s" using bo(4) [OF c'] by (simp add: th_upd_def)
    then have sm: "sems s' = sems s" by (cases s; cases s'; simp)
    have "tlists s' (Wait (Sem_list j)) = []" if "sem_value (sems s j) > 0" for j
      using that m v bo(6) [OF c', of "Sem_list j"] by (cases "j = i") (auto simp: sem_ok_def)
    then have "sem_ok s'" by (simp add: sem_ok_def sm)
    moreover have "t \<in> set (tlists s' (Wait (Sem_list i)))" using bo(5) [OF c'] by (simp add: wait_list.set_ins)
    ultimately show ?thesis using bo(1-3) [OF c'] e v False by simp
  qed
  then show "kernel_ok s'" "sem_ok s'" "rt_current_thread s' \<noteq> None" "e = None \<longleftrightarrow> sem_value (sems s i) = 0 \<and> time \<noteq> 0"
    "e = None \<Longrightarrow> th_state s' t = RT_THREAD_SUSPEND \<and> t \<in> set (tlists s' (Wait (Sem_list i)))"
    "e = Some RT_EOK \<longleftrightarrow> sem_value (sems s i) > 0" by auto
qed

text \<open>A release hands the semaphore to the first waiter, or counts up, or reports the overflow.\<close>

lemma ipc_list_resume_eq:
  assumes k: "kernel_ok s" and l: "tlists s (Wait l) = u # us"
  shows "ipc_list_resume l s = Some (snd (rt_thread_resume u s))"
    and "tlists (snd (rt_thread_resume u s)) (Wait l) = us"
    and "able (snd (rt_thread_resume u s)) u"
    and "th_error (rt_threads (snd (rt_thread_resume u s)) u) = th_error (rt_threads s u)"
proof -
  have w: "kernel_wf s" using k by (simp add: kernel_ok_def)
  have st: "th_state s u = RT_THREAD_SUSPEND" using kernel_wf_queued [OF w, of u "Wait l"] l by simp
  have d: "u \<notin> set us" using kernel_wf_distinct [OF w, of "Wait l"] l by simp
  let ?v = "snd (rt_timer_stop (Thread_timer u) (tlist_remove u s))"
  have e: "snd (rt_thread_resume u s) = rt_schedule_insert_thread u ?v"
    using st by (simp add: rt_thread_resume_def Let_def)
  show "ipc_list_resume l s = Some (snd (rt_thread_resume u s))" using l by (simp add: ipc_list_resume_def)
  show "tlists (snd (rt_thread_resume u s)) (Wait l) = us"
    unfolding e using l d
    by (cases "rt_current_thread s = Some u") (simp_all add: insert_views insert_current lists_append_apply)
  show "able (snd (rt_thread_resume u s)) u"
    unfolding e by (cases "rt_current_thread s = Some u") (simp_all add: insert_views insert_current able_def th_views_state)
  show "th_error (rt_threads (snd (rt_thread_resume u s)) u) = th_error (rt_threads s u)"
    unfolding e by (simp add: rt_schedule_insert_thread_def Let_def th_upd_def)
qed

lemma sem_release_ok:
  assumes k: "kernel_ok s" and m: "sem_ok s" and c: "rt_current_thread s = Some cur" and s: "rt_sem_release i s = Some (e, s')"
  shows "kernel_ok s'" and "sem_ok s'" and "rt_current_thread s' \<noteq> None"
    and "tlists s (Wait (Sem_list i)) = u # us \<Longrightarrow> e = RT_EOK \<and> able s' u \<and> tlists s' (Wait (Sem_list i)) = us \<and>
      sems s' = sems s \<and> th_error (rt_threads s' u) = th_error (rt_threads s u)"
    and "tlists s (Wait (Sem_list i)) = [] \<Longrightarrow>
      (if sem_value (sems s i) < 0xFFFF then e = RT_EOK \<and> s' = sem_upd i (\<lambda>m. m\<lparr>sem_value := sem_value m + 1\<rparr>) s
       else e = - RT_EFULL \<and> s' = s)"
proof -
  have empty: "kernel_ok s' \<and> sem_ok s' \<and> rt_current_thread s' \<noteq> None \<and>
      (if sem_value (sems s i) < 0xFFFF then e = RT_EOK \<and> s' = sem_upd i (\<lambda>m. m\<lparr>sem_value := sem_value m + 1\<rparr>) s
       else e = - RT_EFULL \<and> s' = s)" if "tlists s (Wait (Sem_list i)) = []"
    using that s k m c by (auto simp: rt_sem_release_def sem_ok_def split: if_splits)
  have wake: "kernel_ok s' \<and> sem_ok s' \<and> rt_current_thread s' \<noteq> None \<and> e = RT_EOK \<and> able s' u \<and>
      tlists s' (Wait (Sem_list i)) = us \<and> sems s' = sems s \<and> th_error (rt_threads s' u) = th_error (rt_threads s u)"
    if l: "tlists s (Wait (Sem_list i)) = u # us" for u us
  proof -
    let ?r = "snd (rt_thread_resume u s)"
    note res = ipc_list_resume_eq [OF k l]
    have e: "e = RT_EOK" and sch: "rt_schedule ?r = Some s'"
      using s l res(1) by (auto simp: rt_sem_release_def bind_eq_Some_conv)
    have kr: "kernel_ok ?r" using kernel_ok_resume [OF k] .
    then have wr: "kernel_wf ?r" by (simp add: kernel_ok_def)
    have cr: "rt_current_thread ?r = Some cur" using c by (simp add: resume_views)
    have q: "quiet s s'" using quiet_resume [OF quiet_refl] quiet_schedule [OF sch] quiet_trans by blast
    have "th_error (rt_threads s' t) = th_error (rt_threads ?r t)" for t
      using sch by (auto simp: rt_schedule_def Let_def bind_eq_Some_conv switch_to_def stay_on_def th_upd_def
          rt_schedule_insert_thread_def clear_yield_def split: if_splits)
    then show ?thesis
      using e kernel_ok_schedule [OF kr cr sch] sem_ok_quiet [OF q m] schedule_current [OF wr cr sch]
        schedule_able(1) [OF wr cr sch, of u] res(3,4) schedule_wait [OF wr cr sch] res(2) quiet_sems(1) [OF q]
      by simp
  qed
  show "kernel_ok s'" "sem_ok s'" "rt_current_thread s' \<noteq> None"
    using empty wake by (cases "tlists s (Wait (Sem_list i))"; blast)+
  show "tlists s (Wait (Sem_list i)) = u # us \<Longrightarrow> e = RT_EOK \<and> able s' u \<and> tlists s' (Wait (Sem_list i)) = us \<and>
      sems s' = sems s \<and> th_error (rt_threads s' u) = th_error (rt_threads s u)" using wake by blast
  show "tlists s (Wait (Sem_list i)) = [] \<Longrightarrow>
      (if sem_value (sems s i) < 0xFFFF then e = RT_EOK \<and> s' = sem_upd i (\<lambda>m. m\<lparr>sem_value := sem_value m + 1\<rparr>) s
       else e = - RT_EFULL \<and> s' = s)" using empty by blast
qed

section \<open>Resetting and deleting\<close>

text \<open>\<open>_ipc_list_resume_all\<close> returns with an empty list.\<close>

lemma resume_all_ok:
  assumes "kernel_ok s"
  shows "\<exists>s'. ipc_list_resume_all l s = Some s' \<and> kernel_ok s' \<and> tlists s' (Wait l) = [] \<and>
    rt_current_thread s' = rt_current_thread s \<and> quiet s s' \<and> rt_scheduler_lock_nest s' = rt_scheduler_lock_nest s"
  using assms
proof (induction "tlists s (Wait l)" arbitrary: s)
  case Nil
  then show ?case by (subst ipc_list_resume_all.simps) simp
next
  case (Cons u us)
  let ?u = "th_upd u (\<lambda>th. th\<lparr>th_error := - RT_ERROR\<rparr>) s"
  let ?r = "snd (rt_thread_resume u ?u)"
  have ku: "kernel_ok ?u" using kernel_ok_set_error [OF Cons.prems] .
  have lu: "tlists ?u (Wait l) = u # us" using Cons.hyps(2) by simp
  have "\<exists>s'. ipc_list_resume_all l ?r = Some s' \<and> kernel_ok s' \<and> tlists s' (Wait l) = [] \<and>
      rt_current_thread s' = rt_current_thread ?r \<and> quiet ?r s' \<and> rt_scheduler_lock_nest s' = rt_scheduler_lock_nest ?r"
    by (rule Cons.hyps(1)) (use ipc_list_resume_eq(2) [OF ku lu] kernel_ok_resume [OF ku] in simp_all)
  moreover have "ipc_list_resume_all l s = ipc_list_resume_all l ?r"
    using Cons.hyps(2) [symmetric] by (subst ipc_list_resume_all.simps) simp
  moreover have "quiet s ?r" by (rule quiet_resume) (simp add: quiet_steps)
  ultimately show ?case using quiet_trans [of s ?r] by (auto simp: resume_views)
qed

section \<open>Mutexes: one owner\<close>

text \<open>
  A mutex is free, with value one and nobody waiting, or it has an owner that holds it at least
  once, and the value is zero.
\<close>

definition mutex_ok :: "'a ipc_scheme \<Rightarrow> bool" where
  "mutex_ok s \<longleftrightarrow> (\<forall>i. let m = mutexes s i in
     mx_flag m = RT_IPC_FLAG_PRIO \<and>
     (case mx_owner m of
        None \<Rightarrow> mx_value m = 1 \<and> mx_hold m = 0 \<and> tlists s (Wait (Mutex_list i)) = []
      | Some t \<Rightarrow> mx_value m = 0 \<and> mx_hold m > 0 \<and> mx_original_priority m < 32 \<and> th_mask s t \<noteq> 0))"

lemma mutex_ok_quiet:
  assumes "quiet s s'" and "\<And>t. th_mask s t \<noteq> 0 \<Longrightarrow> th_mask s' t \<noteq> 0" and "mutex_ok s"
  shows "mutex_ok s'"
  unfolding mutex_ok_def
proof
  fix i
  have "tlists s' (Wait (Mutex_list i)) = []" if "tlists s (Wait (Mutex_list i)) = []"
    using assms(1) that unfolding quiet_def by (metis set_empty subset_empty)
  then show "let m = mutexes s' i in mx_flag m = RT_IPC_FLAG_PRIO \<and> (case mx_owner m of
        None \<Rightarrow> mx_value m = 1 \<and> mx_hold m = 0 \<and> tlists s' (Wait (Mutex_list i)) = []
      | Some t \<Rightarrow> mx_value m = 0 \<and> mx_hold m > 0 \<and> mx_original_priority m < 32 \<and> th_mask s' t \<noteq> 0)"
    using assms(2,3) quiet_sems(2) [OF assms(1)] by (auto simp: mutex_ok_def Let_def split: option.splits dest!: spec [of _ i])
qed

lemma mutex_ok_D:
  assumes "mutex_ok s"
  shows "mx_flag (mutexes s i) = RT_IPC_FLAG_PRIO"
    and "mx_owner (mutexes s i) = None \<Longrightarrow> mx_value (mutexes s i) = 1 \<and> mx_hold (mutexes s i) = 0 \<and> tlists s (Wait (Mutex_list i)) = []"
    and "mx_owner (mutexes s i) = Some t \<Longrightarrow>
      mx_value (mutexes s i) = 0 \<and> mx_hold (mutexes s i) > 0 \<and> mx_original_priority (mutexes s i) < 32 \<and> th_mask s t \<noteq> 0"
  using assms by (auto simp: mutex_ok_def Let_def split: option.splits dest!: spec [of _ i])

lemma mx_upd_views [simp]:
  "th_state (mx_upd i f s) = th_state s" "th_prio (mx_upd i f s) = th_prio s" "th_mask (mx_upd i f s) = th_mask s"
  "tlists (mx_upd i f s) = tlists s" "rt_current_thread (mx_upd i f s) = rt_current_thread s"
  "rt_threads (mx_upd i f s) = rt_threads s" "rt_tick (mx_upd i f s) = rt_tick s" "rows (mx_upd i f s) = rows s"
  "rt_timers (mx_upd i f s) = rt_timers s" "rt_scheduler_lock_nest (mx_upd i f s) = rt_scheduler_lock_nest s"
  "rt_thread_ready_priority_group (mx_upd i f s) = rt_thread_ready_priority_group s"
  "mutexes (mx_upd i f s) = (mutexes s)(i := f (mutexes s i))" "sems (mx_upd i f s) = sems s"
  "soft_timer_busy (mx_upd i f s) = soft_timer_busy s"
  by (simp_all add: mx_upd_def th_state_def th_prio_def th_mask_def fun_eq_iff)

lemma kernel_ok_mx_upd [simp]: "kernel_ok (mx_upd i f s) = kernel_ok s"
  using kernel_wf_cong [of "mx_upd i f s" s] by (simp add: kernel_ok_def timers_wf_def thread_timers_ok_def)

lemma mutex_ok_upd:
  assumes "mutex_ok s" and "\<And>j. j \<noteq> i \<Longrightarrow> mutexes s' j = mutexes s j \<and> (tlists s (Wait (Mutex_list j)) = [] \<longrightarrow> tlists s' (Wait (Mutex_list j)) = [])"
    and "\<And>t. th_mask s t \<noteq> 0 \<Longrightarrow> th_mask s' t \<noteq> 0"
    and "mx_flag (mutexes s' i) = RT_IPC_FLAG_PRIO"
    and "case mx_owner (mutexes s' i) of
        None \<Rightarrow> mx_value (mutexes s' i) = 1 \<and> mx_hold (mutexes s' i) = 0 \<and> tlists s' (Wait (Mutex_list i)) = []
      | Some t \<Rightarrow> mx_value (mutexes s' i) = 0 \<and> mx_hold (mutexes s' i) > 0 \<and> mx_original_priority (mutexes s' i) < 32 \<and> th_mask s' t \<noteq> 0"
  shows "mutex_ok s'"
  unfolding mutex_ok_def
proof
  fix j
  show "let m = mutexes s' j in mx_flag m = RT_IPC_FLAG_PRIO \<and> (case mx_owner m of
        None \<Rightarrow> mx_value m = 1 \<and> mx_hold m = 0 \<and> tlists s' (Wait (Mutex_list j)) = []
      | Some t \<Rightarrow> mx_value m = 0 \<and> mx_hold m > 0 \<and> mx_original_priority m < 32 \<and> th_mask s' t \<noteq> 0)"
  proof (cases "j = i")
    case False
    then show ?thesis using assms(1) assms(2) [OF False] assms(3)
      by (auto simp: mutex_ok_def Let_def split: option.splits dest!: spec [of _ j])
  next
    case True
    show ?thesis unfolding True using assms(4,5) by (simp add: Let_def)
  qed
qed

lemma change_priority_views:
  assumes "kernel_wf s"
  shows "th_state (change_priority t p s) = th_state s" and "th_prio (change_priority t p s) = (th_prio s)(t := unat p)"
    and "th_mask (change_priority t p s) = (th_mask s)(t := prio_mask p)"
    and "rt_current_thread (change_priority t p s) = rt_current_thread s"
    and "rt_scheduler_lock_nest (change_priority t p s) = rt_scheduler_lock_nest s"
    and "quiet s (change_priority t p s)"
    and "rows (change_priority t p s) = rows s" "rt_timers (change_priority t p s) = rt_timers s"
    and "rt_tick (change_priority t p s) = rt_tick s"
proof -
  let ?set = "\<lambda>th. th\<lparr>th_current_priority := p, th_number_mask := prio_mask p\<rparr>"
  have v: "th_state (th_upd t ?set u) = th_state u" "th_prio (th_upd t ?set u) = (th_prio u)(t := unat p)"
    "th_mask (th_upd t ?set u) = (th_mask u)(t := prio_mask p)" for u :: "'a kernel_scheme"
    by (auto simp: th_views_upd) (auto simp: th_state_def)
  have "rt_current_thread s \<noteq> Some t" if "th_state s t = RT_THREAD_READY"
    using kernel_wf_current [OF assms] that by blast
  then show "th_state (change_priority t p s) = th_state s"
    by (auto simp: change_priority_def Let_def insert_views v)
  show "th_prio (change_priority t p s) = (th_prio s)(t := unat p)" "th_mask (change_priority t p s) = (th_mask s)(t := prio_mask p)"
    "rt_current_thread (change_priority t p s) = rt_current_thread s"
    "rt_scheduler_lock_nest (change_priority t p s) = rt_scheduler_lock_nest s"
    "quiet s (change_priority t p s)" "rows (change_priority t p s) = rows s" "rt_timers (change_priority t p s) = rt_timers s"
    "rt_tick (change_priority t p s) = rt_tick s"
    by (simp_all add: change_priority_def Let_def v quiet_steps)
qed

lemma prio_mask_nonzero: "p < 32 \<Longrightarrow> prio_mask p \<noteq> 0"
  using mask_nonzero [OF mask_ok_prio] .

section \<open>Taking a mutex\<close>

text \<open>What a call of \<open>rt_mutex_take\<close> does, by the owner of the mutex.\<close>

definition boost :: "nat \<Rightarrow> nat \<Rightarrow> 'a kernel_scheme \<Rightarrow> 'a kernel_scheme" where
  "boost t w s = (if th_prio s t < th_prio s w then change_priority w (th_current_priority (rt_threads s t)) s else s)"

lemma mx_upd_twice: "mx_upd i f (mx_upd i g s) = mx_upd i (\<lambda>m. f (g m)) s"
  by (simp add: mx_upd_def)

lemma th_upd_mx_upd [simp]: "th_upd t f (mx_upd i g s) = mx_upd i g (th_upd t f s)"
  by (simp add: mx_upd_def th_upd_def)

lemma mutex_take_eq:
  assumes m: "mutex_ok s" and c: "rt_current_thread s = Some t"
  defines "u \<equiv> th_upd t (\<lambda>th. th\<lparr>th_error := RT_EOK\<rparr>) s"
  shows "rt_mutex_take i time s = (case mx_owner (mutexes s i) of
      None \<Rightarrow> Some (Some RT_EOK, mx_upd i (\<lambda>m. m\<lparr>mx_value := 0, mx_owner := Some t,
          mx_original_priority := th_current_priority (rt_threads s t), mx_hold := 1\<rparr>) u)
    | Some w \<Rightarrow>
        if w = t then
          if mx_hold (mutexes s i) < 0xFF then Some (Some RT_EOK, mx_upd i (\<lambda>m. m\<lparr>mx_hold := mx_hold m + 1\<rparr>) u)
          else Some (Some (- RT_EFULL), u)
        else if time = 0 then Some (Some (- RT_ETIMEOUT), th_upd t (\<lambda>th. th\<lparr>th_error := - RT_ETIMEOUT\<rparr>) u)
        else map_option (Pair None) (ipc_block (Mutex_list i) t RT_IPC_FLAG_PRIO time (boost t w u)))"
proof -
  have f: "mx_flag (mutexes s i) = RT_IPC_FLAG_PRIO" using mutex_ok_D(1) [OF m] .
  show ?thesis
  proof (cases "mx_owner (mutexes s i)")
    case None
    then have "mx_value (mutexes s i) = 1" "mx_hold (mutexes s i) = 0" using mutex_ok_D(2) [OF m] by auto
    then show ?thesis using None c by (simp add: rt_mutex_take_def Let_def u_def mx_upd_twice th_upd_def mx_upd_def)
  next
    case (Some w)
    then have v: "mx_value (mutexes s i) = 0" using mutex_ok_D(3) [OF m] by auto
    have bind: "Option.bind x (\<lambda>s. Some (None, s)) = map_option (Pair None) x" for x :: "'a ipc_scheme option"
      by (cases x) simp_all
    show ?thesis
      using Some c v f by (simp add: rt_mutex_take_def Let_def u_def boost_def bind)
  qed
qed

lemma kernel_wf_prio8: "kernel_wf s \<Longrightarrow> th_mask s t \<noteq> 0 \<Longrightarrow> th_current_priority (rt_threads s t) < 32"
  by (auto simp: kernel_wf_def table_wf_def mask_ok_def th_prio_def word_less_nat_alt dest!: spec [of _ t])

lemma boost_ok:
  assumes k: "kernel_ok s" and t: "th_mask s t \<noteq> 0" and w: "th_mask s w \<noteq> 0"
  shows "kernel_ok (boost t w s)" and "th_state (boost t w s) = th_state s"
    and "rt_current_thread (boost t w s) = rt_current_thread s" and "quiet s (boost t w s)"
    and "kernel.more (boost t w s) = kernel.more s"
    and "th_prio (boost t w s) = (th_prio s)(w := min (th_prio s t) (th_prio s w))"
    and "\<And>u. th_mask s u \<noteq> 0 \<Longrightarrow> th_mask (boost t w s) u \<noteq> 0"
    and "rt_scheduler_lock_nest (boost t w s) = rt_scheduler_lock_nest s"
proof -
  have kw: "kernel_wf s" using k by (simp add: kernel_ok_def)
  have p: "th_current_priority (rt_threads s t) < 32" using kernel_wf_prio8 [OF kw t] .
  note v = change_priority_views [OF kw, of w "th_current_priority (rt_threads s t)"]
  show "kernel_ok (boost t w s)" using kernel_ok_change_priority [OF k p w] k by (simp add: boost_def)
  show "th_state (boost t w s) = th_state s" "rt_current_thread (boost t w s) = rt_current_thread s" "quiet s (boost t w s)"
    "rt_scheduler_lock_nest (boost t w s) = rt_scheduler_lock_nest s"
    by (simp_all add: boost_def v)
  then show "kernel.more (boost t w s) = kernel.more s" by (simp add: quiet_def)
  show "th_prio (boost t w s) = (th_prio s)(w := min (th_prio s t) (th_prio s w))"
    using v(2) th_prio_def [of s t] by (auto simp: boost_def min_def fun_eq_iff)
  show "th_mask (boost t w s) u \<noteq> 0" if "th_mask s u \<noteq> 0" for u
    using that prio_mask_nonzero [OF p] by (simp add: boost_def v)
qed

text \<open>Blocking changes no priority; changing the priority of a thread changes no suspend list.\<close>

lemma block_frame:
  assumes k: "kernel_ok s" and c: "rt_current_thread s = Some t" and r: "th_state s t = RT_THREAD_RUNNING"
    and s: "ipc_block l t flag time s = Some s'"
  shows "th_prio s' = th_prio s" and "th_mask s' = th_mask s"
proof -
  obtain s1 s2 where s1: "ipc_list_suspend l t flag s = Some s1"
    and s2: "(if 0 <s time then start_thread_timer t time s1 else Some s1) = Some s2" and sch: "rt_schedule s2 = Some s'"
    using s by (auto simp: ipc_block_def bind_eq_Some_conv)
  note b = ipc_suspend_cases [OF k r s1]
  have m1: "th_mask s1 t \<noteq> 0" using kernel_wf_mask [of s t] k r b(4) by (auto simp: kernel_ok_def)
  have "th_prio s2 = th_prio s1 \<and> th_mask s2 = th_mask s1"
  proof (cases "0 <s time")
    case True
    then have a: "timer_arm (Thread_timer t) (tm_upd (Thread_timer t) (\<lambda>tm. tm\<lparr>tm_init_tick := time\<rparr>) s1) = Some s2"
      using s2 start_thread_timer_eq [OF b(1) m1] by simp
    show ?thesis using arm_views [OF a] by simp
  qed (use s2 in simp)
  then show "th_prio s' = th_prio s" "th_mask s' = th_mask s" using schedule_frame [OF sch] b(4,5) by simp_all
qed

lemma change_priority_wait:
  assumes "kernel_wf s"
  shows "tlists (change_priority t p s) (Wait l) = tlists s (Wait l)"
proof -
  have "t \<notin> set (tlists s (Wait l))" if "th_state s t = RT_THREAD_READY"
    using kernel_wf_queued [OF assms, of t "Wait l"] that by auto
  moreover have "rt_current_thread s \<noteq> Some t" if "th_state s t = RT_THREAD_READY"
    using kernel_wf_current [OF assms, of t] that by auto
  ultimately show ?thesis
    by (auto simp: change_priority_def Let_def insert_views remove_views lists_append_apply)
qed

lemma boost_wait: "kernel_wf s \<Longrightarrow> tlists (boost t w s) (Wait l) = tlists s (Wait l)"
  by (simp add: boost_def change_priority_wait)

lemma hold_next: "x < 0xFF \<Longrightarrow> x + 1 \<noteq> (0 :: u8)"
  by (auto simp: eq_neg_iff_add_eq_0 [symmetric])

lemma mutex_views_more:
  assumes "kernel.more s' = kernel.more (s :: 'a ipc_scheme)"
  shows "sems s' = sems s" "mutexes s' = mutexes s" "events s' = events s"
  using assms by (cases s; cases s'; simp)+

text \<open>
  The call keeps the kernel and the mutexes in order. It returns at once with the mutex taken or
  with an error, or it leaves the caller among the waiters, and then the owner is at least as
  urgent as the caller.
\<close>

lemma mutex_take_ok:
  assumes k: "kernel_ok s" and m: "mutex_ok s" and c: "rt_current_thread s = Some t"
    and r: "th_state s t = RT_THREAD_RUNNING" and s: "rt_mutex_take i time s = Some (e, s')"
  shows "kernel_ok s'" and "mutex_ok s'" and "rt_current_thread s' \<noteq> None" and "sems s' = sems s"
    and "e = Some RT_EOK \<Longrightarrow> mx_owner (mutexes s' i) = Some t \<and>
      mx_hold (mutexes s' i) = mx_hold (mutexes s i) + 1 \<and> mx_owner (mutexes s i) \<in> {None, Some t}"
    and "e = None \<Longrightarrow> th_state s' t = RT_THREAD_SUSPEND \<and> t \<in> set (tlists s' (Wait (Mutex_list i))) \<and>
      mutexes s' = mutexes s \<and> time \<noteq> 0 \<and> (\<exists>w. mx_owner (mutexes s i) = Some w \<and> w \<noteq> t \<and> th_prio s' w \<le> th_prio s t)"
proof -
  let ?u = "th_upd t (\<lambda>th. th\<lparr>th_error := RT_EOK\<rparr>) s"
  have kw: "kernel_wf s" using k by (simp add: kernel_ok_def)
  have mt: "th_mask s t \<noteq> 0" using kernel_wf_mask [OF kw] r by simp
  have ku: "kernel_ok ?u" using kernel_ok_set_error [OF k] .
  have mu: "mutex_ok ?u" by (rule mutex_ok_quiet [OF _ _ m]) (simp_all add: quiet_steps)
  note eq = mutex_take_eq [OF m c, of i time]
  have goal: "kernel_ok s' \<and> mutex_ok s' \<and> rt_current_thread s' \<noteq> None \<and> sems s' = sems s \<and>
    (e = Some RT_EOK \<longrightarrow> mx_owner (mutexes s' i) = Some t \<and> mx_hold (mutexes s' i) = mx_hold (mutexes s i) + 1 \<and>
      mx_owner (mutexes s i) \<in> {None, Some t}) \<and>
    (e = None \<longrightarrow> th_state s' t = RT_THREAD_SUSPEND \<and> t \<in> set (tlists s' (Wait (Mutex_list i))) \<and>
      mutexes s' = mutexes s \<and> time \<noteq> 0 \<and> (\<exists>w. mx_owner (mutexes s i) = Some w \<and> w \<noteq> t \<and> th_prio s' w \<le> th_prio s t))"
  proof (cases "mx_owner (mutexes s i)")
    case None
    note d = mutex_ok_D(2) [OF m None]
    have s': "e = Some RT_EOK" "s' = mx_upd i (\<lambda>m. m\<lparr>mx_value := 0, mx_owner := Some t,
          mx_original_priority := th_current_priority (rt_threads s t), mx_hold := 1\<rparr>) ?u" using s eq None by auto
    have "mutex_ok s'"
      by (rule mutex_ok_upd [OF m, of i]) (use s' mutex_ok_D(1) [OF m] mt kernel_wf_prio8 [OF kw mt] in \<open>simp_all\<close>)
    then show ?thesis using s' ku c None d by simp
  next
    case (Some w)
    note d = mutex_ok_D(3) [OF m Some]
    consider (own) "w = t" | (busy) "w \<noteq> t" "time = 0" | (block) "w \<noteq> t" "time \<noteq> 0" by blast
    then show ?thesis
    proof cases
      case own
      show ?thesis
      proof (cases "mx_hold (mutexes s i) < 0xFF")
        case True
        then have s': "e = Some RT_EOK" "s' = mx_upd i (\<lambda>m. m\<lparr>mx_hold := mx_hold m + 1\<rparr>) ?u" using s eq Some own by auto
        have "mx_hold (mutexes s i) + 1 \<noteq> 0" using True hold_next by simp
        then have "mutex_ok s'"
          by (intro mutex_ok_upd [OF m, of i]) (use s' mutex_ok_D(1) [OF m] d Some in \<open>simp_all add: word_gt_0\<close>)
        then show ?thesis using s' ku c Some own by simp
      next
        case False
        then have "e = Some (- RT_EFULL)" "s' = ?u" using s eq Some own by auto
        then show ?thesis using ku mu c by simp
      qed
    next
      case busy
      then have s': "e = Some (- RT_ETIMEOUT)" "s' = th_upd t (\<lambda>th. th\<lparr>th_error := - RT_ETIMEOUT\<rparr>) ?u"
        using s eq Some by auto
      have "mutex_ok s'" by (rule mutex_ok_quiet [OF _ _ mu]) (simp_all add: s' quiet_steps)
      then show ?thesis using s' kernel_ok_set_error [OF ku] c by simp
    next
      case block
      have mu': "th_mask ?u t \<noteq> 0" "th_mask ?u w \<noteq> 0" using mt d by simp_all
      note b = boost_ok [OF ku mu']
      let ?v = "boost t w ?u"
      from block s eq Some have e: "e = None" and bl: "ipc_block (Mutex_list i) t RT_IPC_FLAG_PRIO time ?v = Some s'" by auto
      have cv: "rt_current_thread ?v = Some t" "th_state ?v t = RT_THREAD_RUNNING" using b c r by simp_all
      note o = block_ok [OF b(1) cv bl]
      have mm: "kernel.more s' = kernel.more s" using o(4) b(5) by (simp add: th_upd_def)
      note mv = mutex_views_more [OF mm]
      have fr: "th_prio s' = th_prio ?v \<and> th_mask s' = th_mask ?v" using block_frame [OF b(1) cv bl] by simp
      have L: "tlists s' (Wait (Mutex_list j)) = tlists s (Wait (Mutex_list j))" if "j \<noteq> i" for j
        using o(6) [of "Mutex_list j"] that b(4) boost_wait [of ?u t w] ku by (simp add: kernel_ok_def)
      have "mutex_ok s'"
        by (rule mutex_ok_upd [OF m, of i]) (use L mv fr b(7) mutex_ok_D(1) [OF m] d Some in simp_all)
      moreover have "t \<in> set (tlists s' (Wait (Mutex_list i)))" using o(5) by (simp add: wait_list.set_ins)
      moreover have "th_prio s' w \<le> th_prio s t" using fr b(6) by simp
      ultimately show ?thesis using e o(1-3) mv Some block by auto
    qed
  qed
  then show "kernel_ok s'" "mutex_ok s'" "rt_current_thread s' \<noteq> None" "sems s' = sems s"
    "e = Some RT_EOK \<Longrightarrow> mx_owner (mutexes s' i) = Some t \<and>
      mx_hold (mutexes s' i) = mx_hold (mutexes s i) + 1 \<and> mx_owner (mutexes s i) \<in> {None, Some t}"
    "e = None \<Longrightarrow> th_state s' t = RT_THREAD_SUSPEND \<and> t \<in> set (tlists s' (Wait (Mutex_list i))) \<and>
      mutexes s' = mutexes s \<and> time \<noteq> 0 \<and> (\<exists>w. mx_owner (mutexes s i) = Some w \<and> w \<noteq> t \<and> th_prio s' w \<le> th_prio s t)"
    by blast+
qed

section \<open>Releasing a mutex\<close>

text \<open>The owner gets the priority back that the mutex has recorded.\<close>

definition unboost :: "nat \<Rightarrow> u8 \<Rightarrow> 'a kernel_scheme \<Rightarrow> 'a kernel_scheme" where
  "unboost t orig s = (if orig \<noteq> th_current_priority (rt_threads s t) then change_priority t orig s else s)"

lemma unboost_ok:
  assumes k: "kernel_ok s" and t: "th_mask s t \<noteq> 0" and p: "orig < 32"
  shows "kernel_ok (unboost t orig s)" and "th_state (unboost t orig s) = th_state s"
    and "rt_current_thread (unboost t orig s) = rt_current_thread s" and "quiet s (unboost t orig s)"
    and "th_prio (unboost t orig s) = (th_prio s)(t := unat orig)"
    and "\<And>u. th_mask s u \<noteq> 0 \<Longrightarrow> th_mask (unboost t orig s) u \<noteq> 0"
    and "rt_scheduler_lock_nest (unboost t orig s) = rt_scheduler_lock_nest s"
    and "tlists (unboost t orig s) (Wait l) = tlists s (Wait l)"
proof -
  have kw: "kernel_wf s" using k by (simp add: kernel_ok_def)
  note v = change_priority_views [OF kw, of t orig]
  show "kernel_ok (unboost t orig s)" using kernel_ok_change_priority [OF k p t] k by (simp add: unboost_def)
  show "th_state (unboost t orig s) = th_state s" "rt_current_thread (unboost t orig s) = rt_current_thread s"
    "quiet s (unboost t orig s)" "rt_scheduler_lock_nest (unboost t orig s) = rt_scheduler_lock_nest s"
    by (simp_all add: unboost_def v)
  show "th_prio (unboost t orig s) = (th_prio s)(t := unat orig)"
    using v(2) th_prio_def [of s t] by (auto simp: unboost_def fun_eq_iff)
  show "th_mask (unboost t orig s) u \<noteq> 0" if "th_mask s u \<noteq> 0" for u
    using that prio_mask_nonzero [OF p] by (simp add: unboost_def v)
  show "tlists (unboost t orig s) (Wait l) = tlists s (Wait l)"
    by (simp add: unboost_def change_priority_wait [OF kw])
qed

text \<open>What a call of \<open>rt_mutex_release\<close> by the owner does, by the number of holds and the waiters.\<close>

definition hand_over :: "nat \<Rightarrow> nat \<Rightarrow> nat \<Rightarrow> 'a ipc_scheme \<Rightarrow> 'a ipc_scheme" where
  "hand_over i t u s =
     (let s = unboost t (mx_original_priority (mutexes s i)) (mx_upd i (\<lambda>m. m\<lparr>mx_hold := 0\<rparr>) s)
      in mx_upd i (\<lambda>m. m\<lparr>mx_owner := Some u, mx_original_priority := th_current_priority (rt_threads s u), mx_hold := 1\<rparr>) s)"

definition set_free :: "nat \<Rightarrow> nat \<Rightarrow> 'a ipc_scheme \<Rightarrow> 'a ipc_scheme" where
  "set_free i t s =
     mx_upd i (\<lambda>m. m\<lparr>mx_value := 1, mx_owner := None, mx_original_priority := 0xFF\<rparr>)
       (unboost t (mx_original_priority (mutexes s i)) (mx_upd i (\<lambda>m. m\<lparr>mx_hold := 0\<rparr>) s))"

lemma hold_pred: "x > (0 :: u8) \<Longrightarrow> x - 1 = 0 \<longleftrightarrow> x = 1"
  by auto

lemma mx_upd_cong: "f (mutexes s i) = g (mutexes s i) \<Longrightarrow> mx_upd i f s = mx_upd i g s"
  by (simp add: mx_upd_def)

lemma hold_pred_mx:
  assumes "mx_hold (mutexes s i) = 1"
  shows "mx_upd i (\<lambda>m. m\<lparr>mx_hold := mx_hold m - 1\<rparr>) s = mx_upd i (\<lambda>m. m\<lparr>mx_hold := 0\<rparr>) s"
  using assms by (simp add: mx_upd_def)

lemma mutex_release_eq:
  assumes k: "kernel_ok s" and m: "mutex_ok s" and c: "rt_current_thread s = Some t" and o: "mx_owner (mutexes s i) = Some t"
  shows "rt_mutex_release i s = (if mx_hold (mutexes s i) \<noteq> 1 then Some (RT_EOK, mx_upd i (\<lambda>m. m\<lparr>mx_hold := mx_hold m - 1\<rparr>) s)
    else case tlists s (Wait (Mutex_list i)) of
      [] \<Rightarrow> Some (RT_EOK, set_free i t s)
    | u # _ \<Rightarrow> Option.bind (ipc_list_resume (Mutex_list i) (hand_over i t u s)) (\<lambda>s. map_option (Pair RT_EOK) (rt_schedule s)))"
proof (cases "mx_hold (mutexes s i) = 1")
  case False
  have "mx_hold (mutexes s i) > 0" using mutex_ok_D(3) [OF m o] by simp
  then show ?thesis using False c o hold_pred by (simp add: rt_mutex_release_def Let_def)
next
  case True
  note d = mutex_ok_D(3) [OF m o]
  let ?a = "mx_upd i (\<lambda>m. m\<lparr>mx_hold := 0\<rparr>) s"
  have ka: "kernel_ok ?a" "th_mask ?a t \<noteq> 0" using k d by simp_all
  have p: "mx_original_priority (mutexes s i) < 32" using d by simp
  let ?b = "unboost t (mx_original_priority (mutexes s i)) ?a"
  note u = unboost_ok [OF ka p]
  have b: "tlists ?b (Wait (Mutex_list i)) = tlists s (Wait (Mutex_list i))" using u(8) by simp
  have mb: "mutexes ?b = (mutexes s)(i := (mutexes s i)\<lparr>mx_hold := 0\<rparr>)" using quiet_sems(2) [OF u(4)] by simp
  have bind: "Option.bind x (\<lambda>s. Some (RT_EOK, s)) = map_option (Pair RT_EOK) x" for x :: "'a ipc_scheme option"
    by (cases x) simp_all
  have orig: "mx_original_priority (mutexes ?a i) = mx_original_priority (mutexes s i)" by simp
  have r: "rt_mutex_release i s = (case tlists ?b (Wait (Mutex_list i)) of
            u # _ \<Rightarrow>
              let s = mx_upd i (\<lambda>m. m\<lparr>mx_owner := Some u, mx_original_priority := th_current_priority (rt_threads ?b u)\<rparr>) ?b
              in if mx_hold (mutexes s i) < 0xFF then do {
                   let s = mx_upd i (\<lambda>m. m\<lparr>mx_hold := mx_hold m + 1\<rparr>) s;
                   s \<leftarrow> ipc_list_resume (Mutex_list i) s;
                   s \<leftarrow> rt_schedule s;
                   Some (RT_EOK, s)
                 }
                 else Some (- RT_EFULL, s)
          | [] \<Rightarrow>
              if mx_value (mutexes ?b i) < 0xFFFF
              then Some (RT_EOK, mx_upd i (\<lambda>m. m\<lparr>mx_value := mx_value m + 1, mx_owner := None, mx_original_priority := 0xFF\<rparr>) ?b)
              else Some (- RT_EFULL, ?b))"
    unfolding rt_mutex_release_def Let_def unboost_def c Option.bind.simps hold_pred_mx [OF True] orig
    using o by simp
  show ?thesis
  proof (cases "tlists s (Wait (Mutex_list i))")
    case Nil
    have "mx_upd i (\<lambda>m. m\<lparr>mx_value := mx_value m + 1, mx_owner := None, mx_original_priority := 0xFF\<rparr>) ?b = set_free i t s"
      unfolding set_free_def by (rule mx_upd_cong) (use d in \<open>simp add: mb\<close>)
    then show ?thesis using r b Nil True mb d by simp
  next
    case (Cons u us)
    have "mx_upd i (\<lambda>m. m\<lparr>mx_hold := mx_hold m + 1\<rparr>)
        (mx_upd i (\<lambda>m. m\<lparr>mx_owner := Some u, mx_original_priority := th_current_priority (rt_threads ?b u)\<rparr>) ?b) = hand_over i t u s"
      unfolding hand_over_def Let_def mx_upd_twice by (rule mx_upd_cong) (simp add: mb)
    then show ?thesis using r b Cons True mb by (simp add: Let_def bind)
  qed
qed

lemma wake_first:
  assumes k: "kernel_ok s" and l: "tlists s (Wait l) = u # us" and c: "rt_current_thread s = Some cur"
    and s: "Option.bind (ipc_list_resume l s) (\<lambda>s. map_option (Pair RT_EOK) (rt_schedule s)) = Some (e, s')"
  shows "kernel_ok s'" "rt_current_thread s' \<noteq> None" "e = RT_EOK" "able s' u" "tlists s' (Wait l) = us" "quiet s s'"
    and "th_prio s' = th_prio s" "th_mask s' = th_mask s"
proof -
  let ?r = "snd (rt_thread_resume u s)"
  note res = ipc_list_resume_eq [OF k l]
  from s res(1) have e: "e = RT_EOK" and sch: "rt_schedule ?r = Some s'" by auto
  have kr: "kernel_ok ?r" using kernel_ok_resume [OF k] .
  then have wr: "kernel_wf ?r" by (simp add: kernel_ok_def)
  have cr: "rt_current_thread ?r = Some cur" using c by (simp add: resume_views)
  show "kernel_ok s'" using kernel_ok_schedule [OF kr cr sch] .
  show "rt_current_thread s' \<noteq> None" using schedule_current [OF wr cr sch] .
  show "e = RT_EOK" using e .
  show "able s' u" using schedule_able(1) [OF wr cr sch] res(3) by simp
  show "tlists s' (Wait l) = us" using schedule_wait [OF wr cr sch] res(2) by simp
  show "quiet s s'" using quiet_resume [OF quiet_refl] quiet_schedule [OF sch] quiet_trans by blast
  show "th_prio s' = th_prio s" "th_mask s' = th_mask s" using schedule_frame [OF sch] by (simp_all add: resume_views)
qed

lemma release_steps:
  assumes k: "kernel_ok s" and m: "mutex_ok s" and o: "mx_owner (mutexes s i) = Some t"
  defines "orig \<equiv> mx_original_priority (mutexes s i)"
  shows "kernel_ok (set_free i t s)" and "rt_current_thread (set_free i t s) = rt_current_thread s"
    and "sems (set_free i t s) = sems s" and "th_prio (set_free i t s) = (th_prio s)(t := unat orig)"
    and "tlists (set_free i t s) (Wait l) = tlists s (Wait l)" and "th_mask s u \<noteq> 0 \<Longrightarrow> th_mask (set_free i t s) u \<noteq> 0"
    and "mutexes (set_free i t s) = (mutexes s)(i := (mutexes s i)\<lparr>mx_hold := 0, mx_value := 1, mx_owner := None, mx_original_priority := 0xFF\<rparr>)"
    and "kernel_ok (hand_over i t v s)" and "rt_current_thread (hand_over i t v s) = rt_current_thread s"
    and "sems (hand_over i t v s) = sems s" and "th_prio (hand_over i t v s) = (th_prio s)(t := unat orig)"
    and "tlists (hand_over i t v s) (Wait l) = tlists s (Wait l)" and "th_mask s u \<noteq> 0 \<Longrightarrow> th_mask (hand_over i t v s) u \<noteq> 0"
    and "th_mask s v \<noteq> 0 \<Longrightarrow> \<exists>p<32. mutexes (hand_over i t v s) =
        (mutexes s)(i := (mutexes s i)\<lparr>mx_owner := Some v, mx_original_priority := p, mx_hold := 1\<rparr>)"
proof -
  note d = mutex_ok_D(3) [OF m o]
  let ?a = "mx_upd i (\<lambda>m. m\<lparr>mx_hold := 0\<rparr>) s"
  have ka: "kernel_ok ?a" "th_mask ?a t \<noteq> 0" and p: "orig < 32" using k d by (simp_all add: orig_def)
  note b = unboost_ok [OF ka p, simplified mx_upd_views] and q = quiet_sems [OF unboost_ok(4) [OF ka p]]
  show "kernel_ok (set_free i t s)" "rt_current_thread (set_free i t s) = rt_current_thread s"
    "sems (set_free i t s) = sems s" "th_prio (set_free i t s) = (th_prio s)(t := unat orig)"
    "tlists (set_free i t s) (Wait l) = tlists s (Wait l)" "th_mask s u \<noteq> 0 \<Longrightarrow> th_mask (set_free i t s) u \<noteq> 0"
    "mutexes (set_free i t s) = (mutexes s)(i := (mutexes s i)\<lparr>mx_hold := 0, mx_value := 1, mx_owner := None, mx_original_priority := 0xFF\<rparr>)"
    using b q by (simp_all add: set_free_def orig_def)
  show "kernel_ok (hand_over i t v s)" "rt_current_thread (hand_over i t v s) = rt_current_thread s"
    "sems (hand_over i t v s) = sems s" "th_prio (hand_over i t v s) = (th_prio s)(t := unat orig)"
    "tlists (hand_over i t v s) (Wait l) = tlists s (Wait l)" "th_mask s u \<noteq> 0 \<Longrightarrow> th_mask (hand_over i t v s) u \<noteq> 0"
    using b q by (simp_all add: hand_over_def orig_def Let_def)
  show "\<exists>p<32. mutexes (hand_over i t v s) =
        (mutexes s)(i := (mutexes s i)\<lparr>mx_owner := Some v, mx_original_priority := p, mx_hold := 1\<rparr>)" if "th_mask s v \<noteq> 0"
  proof (intro exI conjI)
    show "th_current_priority (rt_threads (unboost t orig ?a) v) < 32"
      by (rule kernel_wf_prio8) (use b(1) b(6) that in \<open>simp_all add: kernel_ok_def\<close>)
  qed (use q in \<open>simp add: hand_over_def orig_def Let_def\<close>)
qed

text \<open>
  The release keeps the kernel and the mutexes in order. The last release gives the owner its
  recorded priority back, and hands the mutex to the first waiter, which becomes able to run, or
  sets it free.
\<close>

lemma mutex_release_ok:
  assumes k: "kernel_ok s" and m: "mutex_ok s" and c: "rt_current_thread s = Some t" and s: "rt_mutex_release i s = Some (e, s')"
  shows "kernel_ok s'" and "mutex_ok s'" and "rt_current_thread s' \<noteq> None" and "sems s' = sems s"
    and "\<And>l. tlists s (Wait l) = [] \<Longrightarrow> tlists s' (Wait l) = []"
    and "mx_owner (mutexes s i) \<noteq> Some t \<Longrightarrow> e = - RT_ERROR \<and> mutexes s' = mutexes s"
    and "mx_owner (mutexes s i) = Some t \<Longrightarrow> mx_hold (mutexes s i) \<noteq> 1 \<Longrightarrow>
      e = RT_EOK \<and> s' = mx_upd i (\<lambda>m. m\<lparr>mx_hold := mx_hold m - 1\<rparr>) s"
    and "mx_owner (mutexes s i) = Some t \<Longrightarrow> mx_hold (mutexes s i) = 1 \<Longrightarrow>
      e = RT_EOK \<and> th_prio s' t = unat (mx_original_priority (mutexes s i)) \<and>
      (case tlists s (Wait (Mutex_list i)) of
         [] \<Rightarrow> mx_owner (mutexes s' i) = None
       | u # us \<Rightarrow> mx_owner (mutexes s' i) = Some u \<and> mx_hold (mutexes s' i) = 1 \<and> able s' u \<and> tlists s' (Wait (Mutex_list i)) = us)"
proof -
  have goal: "kernel_ok s' \<and> mutex_ok s' \<and> rt_current_thread s' \<noteq> None \<and> sems s' = sems s \<and>
    (\<forall>l. tlists s (Wait l) = [] \<longrightarrow> tlists s' (Wait l) = []) \<and>
    (mx_owner (mutexes s i) \<noteq> Some t \<longrightarrow> e = - RT_ERROR \<and> mutexes s' = mutexes s) \<and>
    (mx_owner (mutexes s i) = Some t \<longrightarrow> mx_hold (mutexes s i) \<noteq> 1 \<longrightarrow>
      e = RT_EOK \<and> s' = mx_upd i (\<lambda>m. m\<lparr>mx_hold := mx_hold m - 1\<rparr>) s) \<and>
    (mx_owner (mutexes s i) = Some t \<longrightarrow> mx_hold (mutexes s i) = 1 \<longrightarrow>
      e = RT_EOK \<and> th_prio s' t = unat (mx_original_priority (mutexes s i)) \<and>
      (case tlists s (Wait (Mutex_list i)) of
         [] \<Rightarrow> mx_owner (mutexes s' i) = None
       | u # us \<Rightarrow> mx_owner (mutexes s' i) = Some u \<and> mx_hold (mutexes s' i) = 1 \<and> able s' u \<and> tlists s' (Wait (Mutex_list i)) = us))"
    (is ?G)
  proof (cases "mx_owner (mutexes s i) = Some t")
    case False
    then have s': "e = - RT_ERROR" "s' = th_upd t (\<lambda>th. th\<lparr>th_error := - RT_ERROR\<rparr>) s"
      using s c by (auto simp: rt_mutex_release_def)
    have "mutex_ok s'" by (rule mutex_ok_quiet [OF _ _ m]) (simp_all add: s' quiet_steps)
    then show ?thesis using s' False kernel_ok_set_error [OF k] c by simp
  next
    case o: True
    note d = mutex_ok_D(3) [OF m o] and st = release_steps [OF k m o] and eq = mutex_release_eq [OF k m c o]
    show ?thesis
    proof (cases "mx_hold (mutexes s i) = 1")
      case False
      have s': "e = RT_EOK" "s' = mx_upd i (\<lambda>m. m\<lparr>mx_hold := mx_hold m - 1\<rparr>) s" using s eq False by auto
      have "mx_hold (mutexes s i) - 1 \<noteq> 0" using False d hold_pred by simp
      then have "mutex_ok s'"
        by (intro mutex_ok_upd [OF m, of i]) (use s' mutex_ok_D(1) [OF m] d o in \<open>simp_all add: word_gt_0\<close>)
      then show ?thesis using s' k c o False by simp
    next
      case h: True
      show ?thesis
      proof (cases "tlists s (Wait (Mutex_list i))")
        case Nil
        have s': "e = RT_EOK" "s' = set_free i t s" using s eq h Nil by auto
        have "mutex_ok s'"
          by (rule mutex_ok_upd [OF m, of i]) (use s' st(5-7) mutex_ok_D(1) [OF m] Nil in simp_all)
        then show ?thesis using s' st(1-5,7) c o h Nil by simp
      next
        case (Cons u us)
        have r: "Option.bind (ipc_list_resume (Mutex_list i) (hand_over i t u s)) (\<lambda>s. map_option (Pair RT_EOK) (rt_schedule s)) = Some (e, s')"
          using s eq h Cons by simp
        note w = wake_first [OF st(8) _ _ r, of u us t, unfolded st(9,12), OF Cons c]
        have "th_mask s u \<noteq> 0"
          using kernel_wf_queued [of s u "Wait (Mutex_list i)"] kernel_wf_mask [of s u] k Cons by (simp add: kernel_ok_def)
        then obtain p where p: "p < 32" "mutexes (hand_over i t u s) =
            (mutexes s)(i := (mutexes s i)\<lparr>mx_owner := Some u, mx_original_priority := p, mx_hold := 1\<rparr>)"
          and mu: "th_mask (hand_over i t u s) u \<noteq> 0" using st(13,14) by blast
        note q = quiet_sems [OF w(6)]
        have L: "tlists s' (Wait l) = []" if "tlists s (Wait l) = []" for l
          using w(6) that st(12) by (metis quiet_def set_empty subset_empty)
        have "mutex_ok s'"
          by (rule mutex_ok_upd [OF m, of i]) (use L q p mu w(8) st(13) mutex_ok_D(1) [OF m] d in simp_all)
        then show ?thesis using w(1-5,7) q p st(10,11) L Cons o h by simp
      qed
    qed
  qed
  show "kernel_ok s'" "mutex_ok s'" "rt_current_thread s' \<noteq> None" "sems s' = sems s"
    "\<And>l. tlists s (Wait l) = [] \<Longrightarrow> tlists s' (Wait l) = []"
    "mx_owner (mutexes s i) \<noteq> Some t \<Longrightarrow> e = - RT_ERROR \<and> mutexes s' = mutexes s"
    "mx_owner (mutexes s i) = Some t \<Longrightarrow> mx_hold (mutexes s i) \<noteq> 1 \<Longrightarrow>
      e = RT_EOK \<and> s' = mx_upd i (\<lambda>m. m\<lparr>mx_hold := mx_hold m - 1\<rparr>) s"
    using goal by blast+
  show "mx_owner (mutexes s i) = Some t \<Longrightarrow> mx_hold (mutexes s i) = 1 \<Longrightarrow>
      e = RT_EOK \<and> th_prio s' t = unat (mx_original_priority (mutexes s i)) \<and>
      (case tlists s (Wait (Mutex_list i)) of
         [] \<Rightarrow> mx_owner (mutexes s' i) = None
       | u # us \<Rightarrow> mx_owner (mutexes s' i) = Some u \<and> mx_hold (mutexes s' i) = 1 \<and> able s' u \<and> tlists s' (Wait (Mutex_list i)) = us)"
    using goal by blast
qed

end
