(* ===== verification/KEvent.thy ===== *)
theory KEvent
  imports KIpc
begin

text \<open>
  Event sets (\<open>src/ipc.c\<close>, \<open>rt_event_*\<close>): a thread waits for all or for any of the bits of a set,
  and may clear them when it gets them. \<open>event_ok\<close> says that no wake-up is lost: whoever still
  waits for an event waits for bits that are not there. \<open>event_walk\<close> is the loop of
  \<open>rt_event_send\<close> over the suspend list.
\<close>

abbreviation (input) RT_EVENT_FLAG_AND :: u8 where "RT_EVENT_FLAG_AND \<equiv> 1"
abbreviation (input) RT_EVENT_FLAG_OR :: u8 where "RT_EVENT_FLAG_OR \<equiv> 2"
abbreviation (input) RT_EVENT_FLAG_CLEAR :: u8 where "RT_EVENT_FLAG_CLEAR \<equiv> 4"
abbreviation (input) RT_EINVAL :: int where "RT_EINVAL \<equiv> 10"

definition ev_upd :: "nat \<Rightarrow> (event \<Rightarrow> event) \<Rightarrow> 'a ipc_scheme \<Rightarrow> 'a ipc_scheme" where
  "ev_upd i f s = s\<lparr>events := (events s)(i := f (events s i))\<rparr>"

definition rt_event_init :: "nat \<Rightarrow> u8 \<Rightarrow> 'a ipc_scheme \<Rightarrow> 'a ipc_scheme option" where
  "rt_event_init i flag s =
     (if flag = RT_IPC_FLAG_FIFO \<or> flag = RT_IPC_FLAG_PRIO
      then Some (ev_upd i (\<lambda>_. \<lparr>ev_set = 0, ev_flag = flag\<rparr>) (s\<lparr>tlists := (tlists s)(Wait (Event_list i) := [])\<rparr>))
      else None)"

definition rt_event_detach :: "nat \<Rightarrow> 'a ipc_scheme \<Rightarrow> 'a ipc_scheme option" where
  "rt_event_detach i s = ipc_list_resume_all (Event_list i) s"

text \<open>
  What a thread with the wanted bits \<open>want\<close> gets from the bits \<open>bits\<close>; \<open>None\<close> when the option of
  the thread has neither \<open>RT_EVENT_FLAG_AND\<close> nor \<open>RT_EVENT_FLAG_OR\<close>.
\<close>

definition event_match :: "u8 \<Rightarrow> u32 \<Rightarrow> u32 \<Rightarrow> u32 option option" where
  "event_match info want bits =
     (if info AND RT_EVENT_FLAG_AND \<noteq> 0 then Some (if want AND bits = want then Some want else None)
      else if info AND RT_EVENT_FLAG_OR \<noteq> 0 then Some (if want AND bits \<noteq> 0 then Some (want AND bits) else None)
      else None)"

definition event_give :: "nat \<Rightarrow> nat \<Rightarrow> u32 \<Rightarrow> 'a ipc_scheme \<Rightarrow> 'a ipc_scheme" where
  "event_give i t got s =
     (let s = th_upd t (\<lambda>th. th\<lparr>th_event_set := got\<rparr>) s;
          s = (if th_event_info (rt_threads s t) AND RT_EVENT_FLAG_CLEAR \<noteq> 0
               then ev_upd i (\<lambda>e. e\<lparr>ev_set := ev_set e AND NOT got\<rparr>) s else s)
      in snd (rt_thread_resume t s))"

text \<open>The loop of \<open>rt_event_send\<close>: the flag says whether a thread has been resumed; \<open>None\<close> is the
  return with \<open>-RT_EINVAL\<close>.\<close>

primrec event_walk :: "nat \<Rightarrow> nat list \<Rightarrow> bool \<Rightarrow> 'a ipc_scheme \<Rightarrow> bool option \<times> 'a ipc_scheme" where
  "event_walk i [] need s = (Some need, s)"
| "event_walk i (t # ts) need s =
     (case event_match (th_event_info (rt_threads s t)) (th_event_set (rt_threads s t)) (ev_set (events s i)) of
        None \<Rightarrow> (None, s)
      | Some None \<Rightarrow> event_walk i ts need s
      | Some (Some got) \<Rightarrow> event_walk i ts True (event_give i t got s))"

definition rt_event_send :: "nat \<Rightarrow> u32 \<Rightarrow> 'a ipc_scheme \<Rightarrow> (int \<times> 'a ipc_scheme) option" where
  "rt_event_send i bits s =
     (if bits = 0 then Some (- RT_ERROR, s)
      else
        let s = ev_upd i (\<lambda>e. e\<lparr>ev_set := ev_set e OR bits\<rparr>) s
        in case event_walk i (tlists s (Wait (Event_list i))) False s of
             (None, s) \<Rightarrow> Some (- RT_EINVAL, s)
           | (Some True, s) \<Rightarrow> do { s \<leftarrow> rt_schedule s; Some (RT_EOK, s) }
           | (Some False, s) \<Rightarrow> Some (RT_EOK, s))"

text \<open>
  \<open>rt_event_recv\<close>: the result is \<open>None\<close> when the thread waits, otherwise the error number and what
  is written to \<open>recved\<close>. A thread that has waited returns \<open>event_result\<close>.
\<close>

definition rt_event_recv :: "nat \<Rightarrow> u32 \<Rightarrow> u8 \<Rightarrow> 32 word \<Rightarrow> 'a ipc_scheme \<Rightarrow> ((int \<times> u32 option) option \<times> 'a ipc_scheme) option" where
  "rt_event_recv i bits opt timeout s =
     (if bits = 0 then Some (Some (- RT_ERROR, None), s)
      else do {
        t \<leftarrow> rt_current_thread s;
        let s = th_upd t (\<lambda>th. th\<lparr>th_error := RT_EOK\<rparr>) s;
        let here = ev_set (events s i);
        ok \<leftarrow> (if opt AND RT_EVENT_FLAG_AND \<noteq> 0 then Some (here AND bits = bits)
               else if opt AND RT_EVENT_FLAG_OR \<noteq> 0 then Some (here AND bits \<noteq> 0)
               else None);
        if ok then
          let s = th_upd t (\<lambda>th. th\<lparr>th_event_set := here AND bits, th_event_info := opt\<rparr>) s
          in Some (Some (RT_EOK, Some (here AND bits)),
               if opt AND RT_EVENT_FLAG_CLEAR \<noteq> 0 then ev_upd i (\<lambda>e. e\<lparr>ev_set := ev_set e AND NOT bits\<rparr>) s else s)
        else if timeout = 0 then Some (Some (- RT_ETIMEOUT, None), th_upd t (\<lambda>th. th\<lparr>th_error := - RT_ETIMEOUT\<rparr>) s)
        else do {
          let s = th_upd t (\<lambda>th. th\<lparr>th_event_set := bits, th_event_info := opt\<rparr>) s;
          s \<leftarrow> ipc_block (Event_list i) t (ev_flag (events s i)) timeout s;
          Some (None, s)
        }
      })"

definition event_result :: "nat \<Rightarrow> 'a kernel_scheme \<Rightarrow> int \<times> u32 option" where
  "event_result t s =
     (if th_error (rt_threads s t) \<noteq> RT_EOK then (th_error (rt_threads s t), None)
      else (RT_EOK, Some (th_event_set (rt_threads s t))))"

text \<open>\<open>RT_IPC_CMD_RESET\<close>.\<close>

definition rt_event_reset :: "nat \<Rightarrow> 'a ipc_scheme \<Rightarrow> 'a ipc_scheme option" where
  "rt_event_reset i s = do {
     s \<leftarrow> ipc_list_resume_all (Event_list i) s;
     rt_schedule (ev_upd i (\<lambda>e. e\<lparr>ev_set := 0\<rparr>) s)
   }"

section \<open>Resuming a waiter\<close>

lemma ev_upd_views [simp]:
  "th_state (ev_upd i f s) = th_state s" "th_prio (ev_upd i f s) = th_prio s" "th_mask (ev_upd i f s) = th_mask s"
  "tlists (ev_upd i f s) = tlists s" "rt_current_thread (ev_upd i f s) = rt_current_thread s"
  "rt_threads (ev_upd i f s) = rt_threads s" "rt_tick (ev_upd i f s) = rt_tick s" "rows (ev_upd i f s) = rows s"
  "rt_timers (ev_upd i f s) = rt_timers s" "rt_scheduler_lock_nest (ev_upd i f s) = rt_scheduler_lock_nest s"
  "rt_thread_ready_priority_group (ev_upd i f s) = rt_thread_ready_priority_group s"
  "sems (ev_upd i f s) = sems s" "mutexes (ev_upd i f s) = mutexes s" "events (ev_upd i f s) = (events s)(i := f (events s i))"
  "soft_timer_busy (ev_upd i f s) = soft_timer_busy s"
  by (simp_all add: ev_upd_def th_state_def th_prio_def th_mask_def fun_eq_iff)

lemma kernel_ok_ev_upd [simp]: "kernel_ok (ev_upd i f s) = kernel_ok s"
  using kernel_wf_cong [of "ev_upd i f s" s] by (simp add: kernel_ok_def timers_wf_def thread_timers_ok_def)

lemma able_ev_upd [simp]: "able (ev_upd i f s) = able s"
  by (simp add: able_def fun_eq_iff)

lemma resume_waiter:
  assumes k: "kernel_ok s" and u: "u \<in> set (tlists s (Wait l))"
  shows "tlists (snd (rt_thread_resume u s)) (Wait m) = removeAll u (tlists s (Wait m))"
    and "able (snd (rt_thread_resume u s)) = (able s)(u := True)"
    and "th_error (rt_threads (snd (rt_thread_resume u s)) t) = th_error (rt_threads s t)"
proof -
  have w: "kernel_wf s" using k by (simp add: kernel_ok_def)
  have st: "th_state s u = RT_THREAD_SUSPEND" using kernel_wf_queued [OF w u] by simp
  let ?v = "snd (rt_timer_stop (Thread_timer u) (tlist_remove u s))"
  have e: "snd (rt_thread_resume u s) = rt_schedule_insert_thread u ?v"
    using st by (simp add: rt_thread_resume_def Let_def)
  show "tlists (snd (rt_thread_resume u s)) (Wait m) = removeAll u (tlists s (Wait m))"
    unfolding e by (cases "rt_current_thread s = Some u") (simp_all add: insert_views insert_current lists_append_apply)
  show "able (snd (rt_thread_resume u s)) = (able s)(u := True)"
    unfolding e by (cases "rt_current_thread s = Some u")
      (auto simp: insert_views insert_current able_def th_views_state fun_eq_iff)
  show "th_error (rt_threads (snd (rt_thread_resume u s)) t) = th_error (rt_threads s t)"
    unfolding e by (simp add: rt_schedule_insert_thread_def Let_def th_upd_def)
qed
section \<open>No wake-up is lost\<close>

text \<open>Nobody waits for bits that are there.\<close>

definition event_ok :: "'a ipc_scheme \<Rightarrow> bool" where
  "event_ok s \<longleftrightarrow> (\<forall>i. \<forall>t\<in>set (tlists s (Wait (Event_list i))).
     event_match (snd (ev_info s t)) (fst (ev_info s t)) (ev_set (events s i)) = Some None)"

lemma match_shrink:
  assumes "event_match info want bits = Some None" and "bits' = bits AND m"
  shows "event_match info want bits' = Some None"
proof -
  have w: "want AND (bits AND m) = (want AND bits) AND m" by (simp add: and.assoc)
  have "want AND (bits AND m) \<noteq> want" if "want AND bits \<noteq> want"
  proof
    assume e: "want AND (bits AND m) = want"
    then have "want AND bits = (want AND (bits AND m)) AND bits" by simp
    also have "\<dots> = want AND (bits AND m)" by (simp add: and.assoc and.commute and.left_commute)
    finally show False using e that by simp
  qed
  moreover have "want AND (bits AND m) = 0" if "want AND bits = 0" using w that by simp
  ultimately show ?thesis using assms by (auto simp: event_match_def split: if_splits)
qed

lemma give_views:
  assumes k: "kernel_ok s" and u: "t \<in> set (tlists s (Wait (Event_list i)))"
    and s'_def: "s' = event_give i t got s"
  shows "kernel_ok s'" and "tlists s' (Wait m) = removeAll t (tlists s (Wait m))" and "able s' = (able s)(t := True)"
    and "th_error (rt_threads s' u) = th_error (rt_threads s u)" and "ev_info s' = (ev_info s)(t := (got, snd (ev_info s t)))"
    and "\<exists>m. events s' = (events s)(i := (events s i)\<lparr>ev_set := ev_set (events s i) AND m\<rparr>)"
    and "rt_current_thread s' = rt_current_thread s" and "sems s' = sems s" and "mutexes s' = mutexes s"
    and "th_prio s' = th_prio s" and "th_mask s' = th_mask s"
proof -
  let ?u = "th_upd t (\<lambda>th. th\<lparr>th_event_set := got\<rparr>) s"
  let ?v = "if th_event_info (rt_threads ?u t) AND RT_EVENT_FLAG_CLEAR \<noteq> 0
      then ev_upd i (\<lambda>e. e\<lparr>ev_set := ev_set e AND NOT got\<rparr>) ?u else ?u"
  have s': "s' = snd (rt_thread_resume t ?v)" by (simp add: s'_def event_give_def)
  have v: "th_state ?u = th_state s" "th_prio ?u = th_prio s" "th_mask ?u = th_mask s"
    by (auto simp: th_views_upd) (auto simp: th_state_def th_prio_def th_mask_def)
  have ku: "kernel_ok ?u" by (rule th_upd_ok [OF k]) simp_all
  then have kv: "kernel_ok ?v" by simp
  have uv: "t \<in> set (tlists ?v (Wait (Event_list i)))" using u by simp
  note r = resume_waiter [OF kv uv]
  show "kernel_ok s'" unfolding s' by (rule kernel_ok_resume [OF kv])
  show "tlists s' (Wait m) = removeAll t (tlists s (Wait m))" using r(1) [of m] by (simp add: s')
  show "able s' = (able s)(t := True)" using r(2) by (simp add: s' able_def v fun_eq_iff)
  show "th_error (rt_threads s' u) = th_error (rt_threads s u)" using r(3) [of u] by (simp add: s' th_upd_def)
  show "ev_info s' = (ev_info s)(t := (got, snd (ev_info s t)))"
  proof -
    have "ev_info s' = ev_info ?v" unfolding s' by simp
    then show ?thesis by (simp add: ev_info_def th_upd_def fun_eq_iff)
  qed
  have q: "quiet ?v s'" unfolding s' by (rule quiet_resume) simp
  show "sems s' = sems s" "mutexes s' = mutexes s" using quiet_sems [OF q] by simp_all
  have "events s' = (events s)(i := (events s i)\<lparr>ev_set := ev_set (events s i) AND (if th_event_info (rt_threads ?u t) AND RT_EVENT_FLAG_CLEAR \<noteq> 0 then NOT got else - 1)\<rparr>)"
    using quiet_sems(3) [OF q] by (simp add: th_upd_def)
  then show "\<exists>m. events s' = (events s)(i := (events s i)\<lparr>ev_set := ev_set (events s i) AND m\<rparr>)" by blast
  show "rt_current_thread s' = rt_current_thread s" "th_prio s' = th_prio s" "th_mask s' = th_mask s"
    by (simp_all add: s' resume_views v)
qed

text \<open>
  The loop: the threads that stay are those for which the bits left over are not enough; every
  other waiter is able to run and has got bits that were there.
\<close>

definition walk_done :: "nat \<Rightarrow> nat list \<Rightarrow> nat list \<Rightarrow> 'a ipc_scheme \<Rightarrow> 'a ipc_scheme \<Rightarrow> bool" where
  "walk_done i ts stay s s' \<longleftrightarrow>
     kernel_ok s' \<and> rt_current_thread s' = rt_current_thread s \<and> sems s' = sems s \<and> mutexes s' = mutexes s \<and>
     th_prio s' = th_prio s \<and> th_mask s' = th_mask s \<and>
     (\<forall>t. th_error (rt_threads s' t) = th_error (rt_threads s t)) \<and>
     (\<forall>m. tlists s' (Wait m) = filter (\<lambda>t. t \<notin> set ts - set stay) (tlists s (Wait m))) \<and>
     (\<exists>m. events s' = (events s)(i := (events s i)\<lparr>ev_set := ev_set (events s i) AND m\<rparr>)) \<and>
     (\<forall>t. able s' t \<longleftrightarrow> able s t \<or> t \<in> set ts - set stay) \<and>
     (\<forall>t. t \<notin> set ts - set stay \<longrightarrow> ev_info s' t = ev_info s t) \<and>
     (\<forall>t\<in>set stay. event_match (snd (ev_info s t)) (fst (ev_info s t)) (ev_set (events s' i)) = Some None) \<and>
     (\<forall>t\<in>set ts - set stay. \<exists>m. event_match (snd (ev_info s t)) (fst (ev_info s t)) (ev_set (events s i) AND m) =
        Some (Some (fst (ev_info s' t))))"

lemma and_chain: "(b AND m) AND n = b AND (m AND n :: u32)"
  by (simp add: and.assoc)

lemma walk_done_give:
  assumes k: "kernel_ok s" and t: "t \<in> set (tlists s (Wait (Event_list i)))"
    and d: "walk_done i ts stay (event_give i t got s) s'" and n: "t \<notin> set ts" and sub: "set stay \<subseteq> set ts"
    and m: "event_match (snd (ev_info s t)) (fst (ev_info s t)) (ev_set (events s i)) = Some (Some got)"
  shows "walk_done i (t # ts) stay s s'"
proof -
  let ?g = "event_give i t got s"
  note g = give_views [OF k t refl, of got]
  obtain a where a: "events ?g = (events s)(i := (events s i)\<lparr>ev_set := ev_set (events s i) AND a\<rparr>)" using g(6) by blast
  obtain b where b: "events s' = (events ?g)(i := (events ?g i)\<lparr>ev_set := ev_set (events ?g i) AND b\<rparr>)"
    using d by (auto simp: walk_done_def)
  have ev: "events s' = (events s)(i := (events s i)\<lparr>ev_set := ev_set (events s i) AND (a AND b)\<rparr>)"
    unfolding b a by (simp add: and_chain)
  have woken: "\<exists>m. event_match (snd (ev_info s u)) (fst (ev_info s u)) (ev_set (events s i) AND m) = Some (Some (fst (ev_info s' u)))"
    if u: "u \<in> set (t # ts) - set stay" for u
  proof (cases "u = t")
    case True
    have "ev_info s' t = ev_info ?g t" using d n unfolding walk_done_def by blast
    then have "fst (ev_info s' t) = got" using g(5) by simp
    then show ?thesis using True m by (intro exI [of _ "- 1"]) simp
  next
    case False
    then have "u \<in> set ts - set stay" using u by simp
    then obtain c where "event_match (snd (ev_info ?g u)) (fst (ev_info ?g u)) (ev_set (events ?g i) AND c) = Some (Some (fst (ev_info s' u)))"
      using d unfolding walk_done_def by blast
    then have "event_match (snd (ev_info s u)) (fst (ev_info s u)) (ev_set (events s i) AND (a AND c)) = Some (Some (fst (ev_info s' u)))"
      using False g(5) a by (simp add: and_chain)
    then show ?thesis by blast
  qed
  have lists: "tlists s' (Wait l) = filter (\<lambda>u. u \<notin> set (t # ts) - set stay) (tlists s (Wait l))" for l
  proof -
    have "tlists s' (Wait l) = filter (\<lambda>u. u \<notin> set ts - set stay) (removeAll t (tlists s (Wait l)))"
      using d g(2) unfolding walk_done_def by simp
    also have "\<dots> = filter (\<lambda>u. u \<notin> set (t # ts) - set stay) (tlists s (Wait l))"
      using n sub by (auto simp: removeAll_filter_not_eq intro!: filter_cong)
    finally show ?thesis .
  qed
  have stay: "event_match (snd (ev_info s u)) (fst (ev_info s u)) (ev_set (events s' i)) = Some None" if "u \<in> set stay" for u
  proof -
    have "u \<noteq> t" using that n sub by auto
    moreover have "event_match (snd (ev_info ?g u)) (fst (ev_info ?g u)) (ev_set (events s' i)) = Some None"
      using d that unfolding walk_done_def by blast
    ultimately show ?thesis using g(5) by simp
  qed
  have ab: "able s' u \<longleftrightarrow> able s u \<or> u \<in> set (t # ts) - set stay" for u
    using d g(3) n sub unfolding walk_done_def by auto
  have info: "ev_info s' u = ev_info s u" if "u \<notin> set (t # ts) - set stay" for u
  proof -
    have "u \<noteq> t" "u \<notin> set ts - set stay" using that n sub by auto
    then show ?thesis using d g(5) unfolding walk_done_def by simp
  qed
  show ?thesis
    unfolding walk_done_def
    using d g woken lists stay ab info ev by (auto simp: walk_done_def)
qed

lemma walk_ok:
  assumes "kernel_ok s" and "set ts \<subseteq> set (tlists s (Wait (Event_list i)))" and "distinct ts"
    and "\<And>t. t \<in> set ts \<Longrightarrow> event_match (snd (ev_info s t)) (fst (ev_info s t)) 0 \<noteq> None"
  shows "\<exists>stay s'. event_walk i ts need s = (Some (need \<or> stay \<noteq> ts), s') \<and> set stay \<subseteq> set ts \<and>
    length stay \<le> length ts \<and> walk_done i ts stay s s'"
  using assms
proof (induction ts arbitrary: s need)
  case Nil
  have "\<exists>m. events s = (events s)(i := (events s i)\<lparr>ev_set := ev_set (events s i) AND m\<rparr>)"
    by (rule exI [of _ "- 1"]) simp
  then show ?case using Nil by (auto simp: walk_done_def)
next
  case (Cons t ts)
  let ?info = "snd (ev_info s t)" and ?want = "fst (ev_info s t)" and ?bits = "ev_set (events s i)"
  have valid: "event_match info want bits \<noteq> None \<longleftrightarrow> event_match info want 0 \<noteq> None" for info want bits
    by (simp add: event_match_def)
  have w: "event_walk i (t # ts) need s = (case event_match ?info ?want ?bits of
        None \<Rightarrow> (None, s) | Some None \<Rightarrow> event_walk i ts need s
      | Some (Some got) \<Rightarrow> event_walk i ts True (event_give i t got s))"
    by (simp add: ev_info_def)
  show ?case
  proof (cases "event_match ?info ?want ?bits")
    case None
    then have False using Cons.prems(4) [of t] valid [of ?info ?want ?bits] by simp
    then show ?thesis ..
  next
    case (Some r)
    show ?thesis
    proof (cases r)
      case None
      have "\<exists>stay s'. event_walk i ts need s = (Some (need \<or> stay \<noteq> ts), s') \<and> set stay \<subseteq> set ts \<and>
          length stay \<le> length ts \<and> walk_done i ts stay s s'"
        by (rule Cons.IH) (use Cons.prems in simp_all)
      then obtain stay s' where ih: "event_walk i ts need s = (Some (need \<or> stay \<noteq> ts), s')" "set stay \<subseteq> set ts"
        "length stay \<le> length ts" "walk_done i ts stay s s'" by blast
      obtain m where m: "ev_set (events s' i) = ?bits AND m" using ih(4) by (auto simp: walk_done_def)
      have "event_match ?info ?want (ev_set (events s' i)) = Some None"
        by (rule match_shrink [OF _ m]) (use Some None in simp)
      then have "walk_done i (t # ts) (t # stay) s s'"
        using ih(2,4) Cons.prems(3) by (auto simp: walk_done_def cong: filter_cong)
      then show ?thesis using w Some None ih by (intro exI [of _ "t # stay"] exI [of _ s']) auto
    next
      case (Some got)
      let ?g = "event_give i t got s"
      have tin: "t \<in> set (tlists s (Wait (Event_list i)))" using Cons.prems(2) by simp
      note g = give_views [OF Cons.prems(1) tin refl, of got]
      have tn: "t \<notin> set ts" using Cons.prems(3) by simp
      have "\<exists>stay s'. event_walk i ts True ?g = (Some (True \<or> stay \<noteq> ts), s') \<and> set stay \<subseteq> set ts \<and>
          length stay \<le> length ts \<and> walk_done i ts stay ?g s'"
        by (rule Cons.IH) (use Cons.prems g tn in auto)
      then obtain stay s' where ih: "event_walk i ts True ?g = (Some True, s')" "set stay \<subseteq> set ts"
        "length stay \<le> length ts" "walk_done i ts stay ?g s'" by auto
      have "walk_done i (t # ts) stay s s'"
        using walk_done_give [OF Cons.prems(1) tin ih(4) tn ih(2)] \<open>event_match ?info ?want ?bits = Some r\<close> Some by simp
      moreover have "stay \<noteq> t # ts" using ih(3) by auto
      ultimately show ?thesis using w \<open>event_match ?info ?want ?bits = Some r\<close> Some ih
        by (intro exI [of _ stay] exI [of _ s']) auto
    qed
  qed
qed

lemma event_ok_frame:
  assumes "\<And>i. set (tlists s' (Wait (Event_list i))) \<subseteq> set (tlists s (Wait (Event_list i)))"
    and "ev_info s' = ev_info s" and "events s' = events s" and "event_ok s"
  shows "event_ok s'"
  using assms unfolding event_ok_def by (metis subsetD)

lemma schedule_error:
  assumes "rt_schedule s = Some s'"
  shows "th_error (rt_threads s' t) = th_error (rt_threads s t)"
  using assms by (auto simp: rt_schedule_def Let_def bind_eq_Some_conv switch_to_def stay_on_def th_upd_def
      rt_schedule_insert_thread_def clear_yield_def split: if_splits)

text \<open>Sending bits always succeeds; the waiters that can be served are, and no other.\<close>

definition event_served :: "nat \<Rightarrow> u32 \<Rightarrow> 'a ipc_scheme \<Rightarrow> 'a ipc_scheme \<Rightarrow> nat \<Rightarrow> bool" where
  "event_served i bits s s' t \<longleftrightarrow>
     able s' t \<and> th_error (rt_threads s' t) = th_error (rt_threads s t) \<and>
     (\<exists>m. event_match (snd (ev_info s t)) (fst (ev_info s t)) ((ev_set (events s i) OR bits) AND m) =
        Some (Some (fst (ev_info s' t))))"

lemma event_send_ok:
  assumes k: "kernel_ok s" and e: "event_ok s" and c: "rt_current_thread s = Some cur" and b: "bits \<noteq> 0"
  obtains s' where "rt_event_send i bits s = Some (RT_EOK, s')" "kernel_ok s'" "event_ok s'" "rt_current_thread s' \<noteq> None"
    "sems s' = sems s" "mutexes s' = mutexes s" "th_mask s' = th_mask s" "\<And>m. set (tlists s' (Wait m)) \<subseteq> set (tlists s (Wait m))"
    "\<And>t. t \<in> set (tlists s (Wait (Event_list i))) \<Longrightarrow> t \<notin> set (tlists s' (Wait (Event_list i))) \<Longrightarrow> event_served i bits s s' t"
    "\<And>t. able s' t \<Longrightarrow> \<not> able s t \<Longrightarrow> t \<in> set (tlists s (Wait (Event_list i)))"
proof -
  let ?u = "ev_upd i (\<lambda>e. e\<lparr>ev_set := ev_set e OR bits\<rparr>) s"
  let ?ts = "tlists s (Wait (Event_list i))"
  have w: "kernel_wf s" using k by (simp add: kernel_ok_def)
  have iu: "ev_info ?u = ev_info s" by (simp add: ev_info_def fun_eq_iff)
  have "\<exists>stay u. event_walk i ?ts False ?u = (Some (False \<or> stay \<noteq> ?ts), u) \<and> set stay \<subseteq> set ?ts \<and>
      length stay \<le> length ?ts \<and> walk_done i ?ts stay ?u u"
  proof (rule walk_ok)
    show "event_match (snd (ev_info ?u t)) (fst (ev_info ?u t)) 0 \<noteq> None" if "t \<in> set ?ts" for t
      using e that unfolding event_ok_def iu by (force simp: event_match_def)
  qed (use k kernel_wf_distinct [OF w] in simp_all)
  then obtain stay u where u: "event_walk i ?ts False ?u = (Some (stay \<noteq> ?ts), u)" "set stay \<subseteq> set ?ts" "walk_done i ?ts stay ?u u"
    by auto
  note d = u(3)[unfolded walk_done_def]
  obtain a where a: "events u = (events ?u)(i := (events ?u i)\<lparr>ev_set := ev_set (events ?u i) AND a\<rparr>)" using d by blast
  have lu: "tlists u (Wait m) = filter (\<lambda>t. t \<notin> set ?ts - set stay) (tlists s (Wait m))" for m using d by simp
  have left: "set (tlists u (Wait (Event_list i))) = set stay" using lu u(2) by auto
  have cu: "rt_current_thread u = Some cur" and ku: "kernel_ok u" using d c by auto
  then have wu: "kernel_wf u" by (simp add: kernel_ok_def)
  have eu: "event_ok u"
    unfolding event_ok_def
  proof (intro allI ballI)
    fix j t assume t: "t \<in> set (tlists u (Wait (Event_list j)))"
    then have ts: "t \<in> set (tlists s (Wait (Event_list j)))" "t \<notin> set ?ts - set stay" using lu by auto
    have info: "ev_info u t = ev_info s t" using d ts(2) iu by auto
    show "event_match (snd (ev_info u t)) (fst (ev_info u t)) (ev_set (events u j)) = Some None"
    proof (cases "j = i")
      case True
      then have "t \<in> set stay" using t left by simp
      then show ?thesis using d True info iu by auto
    next
      case False
      then show ?thesis using e ts info a by (auto simp: event_ok_def)
    qed
  qed
  have served: "event_served i bits s s' t" if t: "t \<in> set ?ts - set stay" and s': "able s' = able u"
    "th_error (rt_threads s' t) = th_error (rt_threads u t)" "ev_info s' = ev_info u" for s' t
  proof -
    have "able u t" "th_error (rt_threads u t) = th_error (rt_threads s t)" using d t by auto
    moreover have "\<exists>m. event_match (snd (ev_info s t)) (fst (ev_info s t)) ((ev_set (events s i) OR bits) AND m) =
        Some (Some (fst (ev_info u t)))" using d t unfolding iu by auto
    ultimately show ?thesis using s' by (simp add: event_served_def)
  qed
  have woken: "t \<in> set ?ts" if "able u t" "\<not> able s t" for t using d that by auto
  show ?thesis
  proof (cases "stay = ?ts")
    case True
    then have "rt_event_send i bits s = Some (RT_EOK, u)" using u b by (simp add: rt_event_send_def Let_def)
    then show ?thesis
      by (rule that) (use ku eu cu d lu left served woken in auto)
  next
    case False
    obtain s' where sch: "rt_schedule u = Some s'" using schedule_total [OF wu cu] .
    have r: "rt_event_send i bits s = Some (RT_EOK, s')" using u b False sch by (simp add: rt_event_send_def Let_def)
    have ab: "able s' = able u" using schedule_able(1) [OF wu cu sch] by (simp add: fun_eq_iff)
    note q = quiet_sems [OF quiet_schedule [OF sch]]
    have ls: "tlists s' (Wait m) = tlists u (Wait m)" for m using schedule_wait [OF wu cu sch] .
    have "event_ok s'" by (rule event_ok_frame [OF _ _ _ eu]) (use ls q ev_info_schedule [OF sch] in simp_all)
    show ?thesis
    proof (rule that [OF r kernel_ok_schedule [OF ku cu sch] \<open>event_ok s'\<close> schedule_current [OF wu cu sch]])
      show "sems s' = sems s" "mutexes s' = mutexes s" "th_mask s' = th_mask s"
        using q d schedule_frame(7) [OF sch] by simp_all
      show "set (tlists s' (Wait m)) \<subseteq> set (tlists s (Wait m))" for m unfolding ls lu by auto
      show "event_served i bits s s' t"
        if "t \<in> set ?ts" "t \<notin> set (tlists s' (Wait (Event_list i)))" for t
        using that left by (intro served ab schedule_error [OF sch] ev_info_schedule [OF sch]) (simp add: ls)
      show "t \<in> set ?ts" if "able s' t" "\<not> able s t" for t using woken that ab by simp
    qed
  qed
qed

section \<open>Receiving\<close>

lemma ev_info_threads: "rt_threads s' = rt_threads s \<Longrightarrow> ev_info s' = ev_info s"
  by (simp add: ev_info_def fun_eq_iff)

lemma ev_info_ev_upd [simp]: "ev_info (ev_upd i f s) = ev_info s"
  by (rule ev_info_threads) simp

lemma ev_info_suspend:
  assumes "rt_thread_suspend t s = Some (e, s')"
  shows "ev_info s' = ev_info s"
  using assms
proof (cases rule: suspend_cases)
  case 2
  then have "ev_info s' = ev_info (th_upd t (set_state RT_THREAD_SUSPEND) (rt_schedule_remove_thread t s))"
    by (intro ev_info_threads) simp
  then show ?thesis by simp
qed simp

lemma ev_info_arm: "timer_arm t s = Some s' \<Longrightarrow> ev_info s' = ev_info s"
  by (rule ev_info_threads) (rule arm_views)

lemma ev_info_start: "rt_timer_start t s = Some s' \<Longrightarrow> ev_info s' = ev_info s"
  by (erule start_cases) (use ev_info_arm in blast, use ev_info_arm ev_info_schedule ev_info_resume in metis)

lemma ev_info_start_thread_timer: "start_thread_timer t time s = Some s' \<Longrightarrow> ev_info s' = ev_info s"
  unfolding start_thread_timer_def rt_timer_control.simps snd_conv
  by (rule trans [OF ev_info_start ev_info_threads], assumption) simp

lemma ev_info_block:
  assumes "ipc_block l t flag time s = Some s'"
  shows "ev_info s' = ev_info s"
proof -
  obtain s1 s2 where s1: "ipc_list_suspend l t flag s = Some s1"
    and s2: "(if 0 <s time then start_thread_timer t time s1 else Some s1) = Some s2" and sch: "rt_schedule s2 = Some s'"
    using assms by (auto simp: ipc_block_def bind_eq_Some_conv)
  obtain e s0 where s0: "rt_thread_suspend t s = Some (e, s0)" and r: "rt_threads s1 = rt_threads s0"
    using s1 by (auto simp: ipc_list_suspend_def bind_eq_Some_conv split: if_splits)
  have "ev_info s1 = ev_info s" using ev_info_threads [OF r] ev_info_suspend [OF s0] by simp
  moreover have "ev_info s2 = ev_info s1" using s2 ev_info_start_thread_timer by (auto split: if_splits)
  ultimately show ?thesis using ev_info_schedule [OF sch] by simp
qed

lemma ev_info_set_error: "ev_info (th_upd t (\<lambda>th. th\<lparr>th_error := x\<rparr>) z) = ev_info z"
  by (rule ev_info_upd) simp_all

lemma th_upd_events [simp]: "events (th_upd t f s) = events s"
  by (simp add: th_upd_def)

lemma set_event_info:
  defines "f \<equiv> \<lambda>a b th. th\<lparr>th_event_set := a, th_event_info := b\<rparr>"
  shows "th_state (th_upd t (f a b) z) = th_state z" and "th_prio (th_upd t (f a b) z) = th_prio z"
    and "th_mask (th_upd t (f a b) z) = th_mask z" and "kernel_ok (th_upd t (f a b) z) = kernel_ok z"
    and "ev_info (th_upd t (f a b) z) = (ev_info z)(t := (a, b))"
proof -
  let ?z = "th_upd t (f a b) z"
  show views: "th_state ?z = th_state z" "th_prio ?z = th_prio z" "th_mask ?z = th_mask z"
    by (auto simp: th_views_upd f_def) (auto simp: th_state_def th_prio_def th_mask_def)
  then show "kernel_ok ?z = kernel_ok z"
    using kernel_wf_cong [of ?z z] by (simp add: kernel_ok_def timers_wf_def thread_timers_ok_def)
  show "ev_info ?z = (ev_info z)(t := (a, b))" by (simp add: ev_info_def th_upd_def f_def fun_eq_iff)
qed

lemma event_ok_shrink:
  assumes v: "event_ok s" and free: "\<And>m. t \<notin> set (tlists s (Wait m))"
    and z: "ev_info z = (ev_info s)(t := p)" "tlists z = tlists s" "\<And>j. \<exists>m. ev_set (events z j) = ev_set (events s j) AND m"
  shows "event_ok z"
  unfolding event_ok_def
proof (intro allI ballI)
  fix j x assume x: "x \<in> set (tlists z (Wait (Event_list j)))"
  then have xt: "x \<noteq> t" using free [of "Event_list j"] z(2) by auto
  obtain m where "ev_set (events z j) = ev_set (events s j) AND m" using z(3) by blast
  moreover have "event_match (snd (ev_info s x)) (fst (ev_info s x)) (ev_set (events s j)) = Some None"
    using v x z(2) by (simp add: event_ok_def)
  ultimately show "event_match (snd (ev_info z x)) (fst (ev_info z x)) (ev_set (events z j)) = Some None"
    using match_shrink z(1) xt by simp
qed

lemma event_recv_eq:
  assumes "bits \<noteq> 0" and "rt_current_thread s = Some t"
  defines "u \<equiv> th_upd t (\<lambda>th. th\<lparr>th_error := RT_EOK\<rparr>) s"
  shows "rt_event_recv i bits opt time s = (case event_match opt bits (ev_set (events s i)) of
      None \<Rightarrow> None
    | Some (Some got) \<Rightarrow>
        let v = th_upd t (\<lambda>th. th\<lparr>th_event_set := got, th_event_info := opt\<rparr>) u
        in Some (Some (RT_EOK, Some got),
             if opt AND RT_EVENT_FLAG_CLEAR \<noteq> 0 then ev_upd i (\<lambda>e. e\<lparr>ev_set := ev_set e AND NOT bits\<rparr>) v else v)
    | Some None \<Rightarrow>
        if time = 0 then Some (Some (- RT_ETIMEOUT, None), th_upd t (\<lambda>th. th\<lparr>th_error := - RT_ETIMEOUT\<rparr>) u)
        else map_option (Pair None) (ipc_block (Event_list i) t (ev_flag (events s i)) time
               (th_upd t (\<lambda>th. th\<lparr>th_event_set := bits, th_event_info := opt\<rparr>) u)))"
proof -
  have bind: "Option.bind x (\<lambda>s. Some (None, s)) = map_option (Pair None) x" for x :: "'a ipc_scheme option"
    by (cases x) simp_all
  consider "opt AND RT_EVENT_FLAG_AND \<noteq> 0" | "\<not> opt AND RT_EVENT_FLAG_AND \<noteq> 0" "opt AND RT_EVENT_FLAG_OR \<noteq> 0"
    | "\<not> opt AND RT_EVENT_FLAG_AND \<noteq> 0" "\<not> opt AND RT_EVENT_FLAG_OR \<noteq> 0" by blast
  then show ?thesis
    unfolding rt_event_recv_def Let_def assms(2) Option.bind.simps th_upd_events u_def bind
    by cases (use assms(1) in \<open>simp_all add: event_match_def and.commute [of "ev_set (events s i)"]\<close>)
qed

text \<open>
  A call of \<open>rt_event_recv\<close> with a valid option returns at once with bits that match, or with
  \<open>-RT_ETIMEOUT\<close>, or it leaves the caller among the waiters.
\<close>

lemma event_recv_ok:
  assumes k: "kernel_ok s" and v: "event_ok s" and c: "rt_current_thread s = Some t" and r: "th_state s t = RT_THREAD_RUNNING"
    and s: "rt_event_recv i bits opt time s = Some (e, s')"
  shows "kernel_ok s'" and "event_ok s'" and "rt_current_thread s' \<noteq> None" and "sems s' = sems s" and "mutexes s' = mutexes s"
    and "\<And>t. th_mask s t \<noteq> 0 \<Longrightarrow> th_mask s' t \<noteq> 0"
    and "\<And>m. m \<noteq> Event_list i \<Longrightarrow> tlists s' (Wait m) = tlists s (Wait m)"
    and "bits \<noteq> 0 \<Longrightarrow> e = Some (RT_EOK, Some got) \<longleftrightarrow> event_match opt bits (ev_set (events s i)) = Some (Some got)"
    and "e = None \<Longrightarrow> th_state s' t = RT_THREAD_SUSPEND \<and> t \<in> set (tlists s' (Wait (Event_list i))) \<and> ev_info s' t = (bits, opt)"
proof -
  let ?u = "th_upd t (\<lambda>th. th\<lparr>th_error := RT_EOK\<rparr>) s"
  let ?bits = "ev_set (events s i)"
  have w: "kernel_wf s" using k by (simp add: kernel_ok_def)
  have free: "t \<notin> set (tlists s (Wait m))" for m using kernel_wf_free [OF w] r by simp
  have ku: "kernel_ok ?u" using kernel_ok_set_error [OF k] .
  note iu = ev_info_set_error and set_info = set_event_info
  have keep: "event_ok z" if "ev_info z = (ev_info s)(t := p)" "tlists z = tlists s"
    "\<forall>j. \<exists>m. ev_set (events z j) = ev_set (events s j) AND m" for p and z :: "'a ipc_scheme"
    using event_ok_shrink [OF v free that(1,2)] that(3) by blast
  have goal: "kernel_ok s' \<and> event_ok s' \<and> rt_current_thread s' \<noteq> None \<and> sems s' = sems s \<and> mutexes s' = mutexes s \<and>
    (\<forall>t. th_mask s t \<noteq> 0 \<longrightarrow> th_mask s' t \<noteq> 0) \<and> (\<forall>m. m \<noteq> Event_list i \<longrightarrow> tlists s' (Wait m) = tlists s (Wait m)) \<and>
    (bits \<noteq> 0 \<longrightarrow> (e = Some (RT_EOK, Some got) \<longleftrightarrow> event_match opt bits ?bits = Some (Some got))) \<and>
    (e = None \<longrightarrow> th_state s' t = RT_THREAD_SUSPEND \<and> t \<in> set (tlists s' (Wait (Event_list i))) \<and> ev_info s' t = (bits, opt))"
  proof (cases "bits = 0")
    case True
    then show ?thesis using s k v c by (auto simp: rt_event_recv_def)
  next
    case b: False
    let ?got = "?bits AND bits"
    note eq = event_recv_eq [OF b c, of i opt time]
    have mg: "x = ?got" if "event_match opt bits ?bits = Some (Some x)" for x
      using that by (auto simp: event_match_def and.commute split: if_splits)
    obtain g where g: "event_match opt bits ?bits = Some g"
      using s eq by (cases "event_match opt bits ?bits") auto
    show ?thesis
    proof (cases g)
      case (Some x)
      let ?v = "th_upd t (\<lambda>th. th\<lparr>th_event_set := x, th_event_info := opt\<rparr>) ?u"
      have s': "e = Some (RT_EOK, Some x)"
        "s' = (if opt AND RT_EVENT_FLAG_CLEAR \<noteq> 0 then ev_upd i (\<lambda>e. e\<lparr>ev_set := ev_set e AND NOT bits\<rparr>) ?v else ?v)"
        using s eq g Some by (simp_all add: Let_def)
      have "event_ok s'"
      proof (rule keep [of _ "(x, opt)"])
        show "ev_info s' = (ev_info s)(t := (x, opt))" "tlists s' = tlists s" using s'(2) by (simp_all add: set_info iu)
        show "\<forall>j. \<exists>m. ev_set (events s' j) = ev_set (events s j) AND m"
        proof
          fix j
          show "\<exists>m. ev_set (events s' j) = ev_set (events s j) AND m"
            by (rule exI [of _ "if opt AND RT_EVENT_FLAG_CLEAR \<noteq> 0 \<and> j = i then NOT bits else - 1"]) (simp add: s'(2))
        qed
      qed
      then show ?thesis
        using s' c ku mg g Some b by (simp add: set_info)
    next
      case None
      show ?thesis
      proof (cases "time = 0")
        case True
        then have s': "e = Some (- RT_ETIMEOUT, None)" "s' = th_upd t (\<lambda>th. th\<lparr>th_error := - RT_ETIMEOUT\<rparr>) ?u"
          using s eq g None by simp_all
        have "event_ok s'" by (rule event_ok_frame [OF _ _ _ v]) (simp_all add: s'(2) iu)
        then show ?thesis using s' c kernel_ok_set_error [OF ku] g None by simp
      next
        case False
        let ?v = "th_upd t (\<lambda>th. th\<lparr>th_event_set := bits, th_event_info := opt\<rparr>) ?u"
        have s': "e = None" "ipc_block (Event_list i) t (ev_flag (events s i)) time ?v = Some s'"
          using s eq g None False by auto
        have kv: "kernel_ok ?v" "rt_current_thread ?v = Some t" "th_state ?v t = RT_THREAD_RUNNING"
          using ku c r by (simp_all add: set_info)
        note o = block_ok [OF kv s'(2)]
        note mv = mutex_views_more [OF o(4)]
        have iv: "ev_info s' = (ev_info s)(t := (bits, opt))" using ev_info_block [OF s'(2)] by (simp add: set_info iu)
        have "event_ok s'"
          unfolding event_ok_def
        proof (intro allI ballI)
          fix j x assume x: "x \<in> set (tlists s' (Wait (Event_list j)))"
          have "x \<in> set (tlists s (Wait (Event_list j))) \<or> j = i \<and> x = t"
            using x o(5) o(6) [of "Event_list j"] by (cases "j = i") (auto simp: wait_list.set_ins split: if_splits)
          then show "event_match (snd (ev_info s' x)) (fst (ev_info s' x)) (ev_set (events s' j)) = Some None"
            using v iv mv g None free [of "Event_list j"] by (auto simp: event_ok_def)
        qed
        moreover have "t \<in> set (tlists s' (Wait (Event_list i)))" using o(5) by (simp add: wait_list.set_ins)
        ultimately show ?thesis
          using s'(1) o(1-3,6) mv iv g None block_frame [OF kv s'(2)] by (simp add: set_info)
      qed
    qed
  qed
  show "kernel_ok s'" "event_ok s'" "rt_current_thread s' \<noteq> None" "sems s' = sems s" "mutexes s' = mutexes s"
    "\<And>t. th_mask s t \<noteq> 0 \<Longrightarrow> th_mask s' t \<noteq> 0" "\<And>m. m \<noteq> Event_list i \<Longrightarrow> tlists s' (Wait m) = tlists s (Wait m)"
    "bits \<noteq> 0 \<Longrightarrow> e = Some (RT_EOK, Some got) \<longleftrightarrow> event_match opt bits ?bits = Some (Some got)"
    "e = None \<Longrightarrow> th_state s' t = RT_THREAD_SUSPEND \<and> t \<in> set (tlists s' (Wait (Event_list i))) \<and> ev_info s' t = (bits, opt)"
    using goal by blast+
qed

end
