(* ===== verification/KEffect.thy ===== *)
theory KEffect
  imports KEvent
begin

text \<open>
  What the operations of the kernel leave alone. \<open>effect T s s'\<close> says that from \<open>s\<close> to \<open>s'\<close> no thread
  outside \<open>T\<close> has been stopped or woken, and those that were not able to run have kept their timer
  and their place in the wait lists; the kernel is in order afterwards and the list of the hard
  timers still ordered from the current tick. The relation is transitive, so the effect of a call
  is put together from those of its elementary steps.
\<close>

section \<open>What a call leaves alone\<close>

definition same_thread :: "nat \<Rightarrow> 'a kernel_scheme \<Rightarrow> 'a kernel_scheme \<Rightarrow> bool" where
  "same_thread t s s' \<longleftrightarrow>
     th_state s' t = th_state s t \<and>
     (Thread_timer t \<in> set (rows s' Hard) \<longleftrightarrow> Thread_timer t \<in> set (rows s Hard)) \<and>
     timer_keys s' (Thread_timer t) = timer_keys s (Thread_timer t) \<and>
     (\<forall>l. t \<in> set (tlists s' (Wait l)) \<longleftrightarrow> t \<in> set (tlists s (Wait l)))"

definition effect :: "nat set \<Rightarrow> 'a kernel_scheme \<Rightarrow> 'a kernel_scheme \<Rightarrow> bool" where
  "effect T s s' \<longleftrightarrow>
     kernel_ok s' \<and> rt_current_thread s' \<noteq> None \<and> rt_tick s' = rt_tick s \<and>
     (hard_ready (rt_tick s) s \<longrightarrow> hard_ready (rt_tick s) s') \<and>
     (\<forall>t. t \<notin> T \<longrightarrow> (able s' t \<longleftrightarrow> able s t) \<and> (\<not> able s t \<longrightarrow> same_thread t s s')) \<and>
     (\<forall>t. th_mask s t \<noteq> 0 \<longrightarrow> th_mask s' t \<noteq> 0)"

lemma same_thread_refl [simp]: "same_thread t s s"
  by (simp add: same_thread_def)

lemma same_thread_trans: "same_thread t s u \<Longrightarrow> same_thread t u s' \<Longrightarrow> same_thread t s s'"
  by (simp add: same_thread_def)

lemma effect_refl: "kernel_ok s \<Longrightarrow> rt_current_thread s \<noteq> None \<Longrightarrow> effect T s s"
  by (simp add: effect_def)

lemma effect_trans:
  assumes a: "effect T s u" and b: "effect V u s'"
  shows "effect (T \<union> V) s s'"
proof -
  have "same_thread t s s'" if t: "t \<notin> T \<union> V" "\<not> able s t" for t
  proof (rule same_thread_trans)
    show "same_thread t s u" using a t unfolding effect_def by blast
    have "\<not> able u t" using a t unfolding effect_def by blast
    then show "same_thread t u s'" using b t unfolding effect_def by blast
  qed
  moreover have "able s' t \<longleftrightarrow> able s t" if "t \<notin> T \<union> V" for t using a b that unfolding effect_def by blast
  moreover have "hard_ready (rt_tick s) s'" if "hard_ready (rt_tick s) s" using a b that unfolding effect_def by metis
  moreover have "rt_tick s' = rt_tick s" using a b by (simp add: effect_def)
  ultimately show ?thesis using a b unfolding effect_def by blast
qed

lemma effect_more: "effect T s s' \<Longrightarrow> T \<subseteq> V \<Longrightarrow> effect V s s'"
  unfolding effect_def by blast

lemma effect_ok: "effect T s s' \<Longrightarrow> kernel_ok s'" "effect T s s' \<Longrightarrow> rt_current_thread s' \<noteq> None"
  by (auto simp: effect_def)

section \<open>The elementary steps\<close>

lemma hard_ready_cong:
  "rows s' = rows s \<Longrightarrow> timer_keys s' = timer_keys s \<Longrightarrow> hard_ready b s' = hard_ready b s"
  by (simp add: hard_ready_def hard_threads_def)

lemma hard_ready_remove:
  assumes "hard_ready b s" and "rows s' Hard = removeAll t (rows s Hard)" and "rows s' Hard_temp = removeAll t (rows s Hard_temp)"
    and "\<And>u. u \<noteq> t \<Longrightarrow> timer_keys s' u = timer_keys s u"
  shows "hard_ready b s'"
proof -
  have "ordered_from b (timer_keys s) (removeAll t (rows s Hard))"
    using assms(1) by (simp add: hard_ready_def ordered_from_remove)
  then have "ordered_from b (timer_keys s') (removeAll t (rows s Hard))"
    using ordered_from_cong [of "removeAll t (rows s Hard)" "timer_keys s" "timer_keys s'" b] assms(4) by auto
  then show ?thesis using assms(1-3) by (auto simp: hard_ready_def hard_threads_def)
qed

lemma hard_ready_stop:
  assumes "hard_ready b s"
  shows "hard_ready b (snd (rt_timer_stop t s))"
proof (cases "tm_active (rt_timers s t)")
  case True
  then show ?thesis
    by (intro hard_ready_remove [OF assms, of _ t]) (simp_all add: stop_timers timer_keys_def)
next
  case False
  then have "hard_ready b (snd (rt_timer_stop t s)) = hard_ready b s"
    by (intro hard_ready_cong) (simp_all add: stop_timers timer_keys_def fun_eq_iff)
  then show ?thesis using assms by simp
qed

lemma hard_ready_arm:
  assumes h: "hard_ready (rt_tick s) s" and a: "timer_arm t s = Some s'"
    and t: "tm_soft (rt_timers s t) \<or> (\<exists>u. t = Thread_timer u)"
  shows "hard_ready (rt_tick s) s'"
proof -
  let ?key = "(timer_keys s)(t := rt_tick s + tm_init_tick (rt_timers s t))"
  note v = arm_views [OF a]
  have i: "tm_init_tick (rt_timers s t) < 0x7FFFFFFF" using a by (auto simp: timer_arm_eq split: if_splits)
  have k: "timer_keys s' = ?key" using v(11) by (auto simp: timer_keys_def)
  have o: "ordered_from (rt_tick s) ?key (removeAll t (rows s Hard))"
    using ordered_from_remove [of "rt_tick s" "timer_keys s" "rows s Hard" t] h
      ordered_from_cong [of "removeAll t (rows s Hard)" "timer_keys s" ?key "rt_tick s"] by (auto simp: hard_ready_def)
  have w: "ordered_from (rt_tick s) ?key (timer_walk ?key t (removeAll t (rows s Hard)))"
    by (rule timer_walk_ordered [OF o]) (use i in simp)
  show ?thesis
  proof (cases "tm_soft (rt_timers s t)")
    case True
    then show ?thesis using h o v(12) k by (auto simp: hard_ready_def hard_threads_def timer_head_of_def)
  next
    case False
    then show ?thesis using h w v(12) k t
      by (auto simp: hard_ready_def hard_threads_def timer_head_of_def timer_rows.set_ins)
  qed
qed

text \<open>Changes that touch neither the states of the threads nor timers nor lists.\<close>

lemma effect_cong:
  assumes "kernel_ok s'" and "rt_current_thread s' \<noteq> None" and "rt_tick s' = rt_tick s" and "rows s' = rows s"
    and "timer_keys s' = timer_keys s" and "th_state s' = th_state s" and "tlists s' = tlists s"
    and "\<And>t. th_mask s t \<noteq> 0 \<Longrightarrow> th_mask s' t \<noteq> 0"
  shows "effect T s s'"
proof -
  have "hard_ready (rt_tick s) s' = hard_ready (rt_tick s) s" using assms(4,5) by (rule hard_ready_cong)
  then show ?thesis using assms by (simp add: effect_def same_thread_def able_def)
qed

lemma effect_schedule:
  assumes k: "kernel_ok s" and c: "rt_current_thread s = Some cur" and s: "rt_schedule s = Some s'"
  shows "effect T s s'"
proof -
  have w: "kernel_wf s" using k by (simp add: kernel_ok_def)
  note f = schedule_frame [OF s]
  have keys: "timer_keys s' = timer_keys s" using f by (auto simp: timer_keys_def)
  show ?thesis
    using kernel_ok_schedule [OF k c s] schedule_current [OF w c s] f keys schedule_able [OF w c s] schedule_wait [OF w c s]
      hard_ready_cong [OF f(1) keys]
    by (simp add: effect_def same_thread_def)
qed

lemma stop_same:
  assumes "x \<noteq> Thread_timer t"
  shows "same_thread t s (snd (rt_timer_stop x s))"
  using assms by (auto simp: same_thread_def stop_timers timer_keys_def)

lemma effect_stop:
  assumes k: "kernel_ok s" and c: "rt_current_thread s \<noteq> None"
  shows "effect {u. x = Thread_timer u} s (snd (rt_timer_stop x s))"
proof -
  have "timers_wf (snd (rt_timer_stop x s))" "thread_timers_ok (snd (rt_timer_stop x s))"
    using k timers_wf_stop thread_timers_stop by (auto simp: kernel_ok_def)
  moreover have "kernel_wf (snd (rt_timer_stop x s))" using k kernel_wf_cong [of "snd (rt_timer_stop x s)" s] by (simp add: kernel_ok_def)
  ultimately have "kernel_ok (snd (rt_timer_stop x s))" by (simp add: kernel_ok_def)
  then show ?thesis
    using c hard_ready_stop [of "rt_tick s" s x] stop_same [of x _ s] by (auto simp: effect_def able_def)
qed

lemma effect_resume:
  assumes k: "kernel_ok s" and c: "rt_current_thread s \<noteq> None"
  shows "effect {t} s (snd (rt_thread_resume t s))"
proof (cases "th_state s t = RT_THREAD_SUSPEND")
  case True
  let ?u = "tlist_remove t s" and ?v = "snd (rt_timer_stop (Thread_timer t) (tlist_remove t s))"
  have e: "snd (rt_thread_resume t s) = rt_schedule_insert_thread t ?v"
    using True by (simp add: rt_thread_resume_def Let_def)
  have st: "th_state (rt_schedule_insert_thread t ?v) x = th_state s x" if "x \<noteq> t" for x
    using that by (cases "rt_current_thread s = Some t") (simp_all add: insert_views insert_current th_views_state)
  have w: "set (tlists (rt_schedule_insert_thread t ?v) (Wait l)) = set (tlists s (Wait l)) - {t}" for l
    by (cases "rt_current_thread s = Some t") (auto simp: insert_views insert_current lists_append_apply)
  have "hard_ready b ?u = hard_ready b s" for b by (rule hard_ready_cong) (simp_all add: timer_keys_def fun_eq_iff)
  then have h: "hard_ready b s \<Longrightarrow> hard_ready b (rt_schedule_insert_thread t ?v)" for b
    using hard_ready_stop [of b ?u "Thread_timer t"] hard_ready_cong [of "rt_schedule_insert_thread t ?v" ?v b]
    by (simp add: timer_keys_def fun_eq_iff)
  have "same_thread x s (rt_schedule_insert_thread t ?v)" if "x \<noteq> t" for x
    using that st w stop_same [of "Thread_timer t" x ?u] by (auto simp: same_thread_def timer_keys_def)
  then show ?thesis
    unfolding effect_def e using kernel_ok_resume [OF k, of t, unfolded e] c st h
    by (auto simp: able_def)
qed (use effect_refl [OF k c] in \<open>simp add: rt_thread_resume_def\<close>)

lemma effect_suspend:
  assumes k: "kernel_ok s" and c: "rt_current_thread s \<noteq> None" and s: "rt_thread_suspend t s = Some (e, s')"
  shows "effect {t} s s'"
  using s
proof (cases rule: suspend_cases)
  case 1
  then show ?thesis using effect_refl [OF k c] by simp
next
  case 2
  let ?u = "th_upd t (set_state RT_THREAD_SUSPEND) (rt_schedule_remove_thread t s)"
  have "hard_ready b ?u = hard_ready b s" for b by (rule hard_ready_cong) (simp_all add: timer_keys_def fun_eq_iff)
  then have h: "hard_ready b s \<Longrightarrow> hard_ready b s'" for b using hard_ready_stop [of b ?u "Thread_timer t"] 2(3) by simp
  have "same_thread x s s'" if "x \<noteq> t" for x
    using that suspend_state [OF s] suspend_lists [OF s] stop_same [of "Thread_timer t" x ?u] 2(3)
    by (auto simp: same_thread_def timer_keys_def)
  moreover have "able s' x \<longleftrightarrow> able s x" if "x \<noteq> t" for x using that suspend_state [OF s] by (simp add: able_def)
  ultimately show ?thesis
    using kernel_ok_suspend [OF k s] suspend_views [OF s] c h by (auto simp: effect_def)
qed

lemma effect_arm:
  assumes k: "kernel_ok s" and c: "rt_current_thread s \<noteq> None" and a: "timer_arm x s = Some s'"
    and x: "tm_soft (rt_timers s x) \<or> (\<exists>u. x = Thread_timer u)"
    and t: "\<And>u. x = Thread_timer u \<Longrightarrow> th_state s u = RT_THREAD_SUSPEND"
  shows "effect {u. x = Thread_timer u} s s'"
proof -
  note v = arm_views [OF a]
  have "same_thread t s s'" if "x \<noteq> Thread_timer t" for t
    using that v by (auto simp: same_thread_def timer_keys_def timer_rows.set_ins)
  then show ?thesis
    using kernel_ok_arm [OF k a t] c v hard_ready_arm [OF _ a x] by (auto simp: effect_def able_def)
qed

lemma effect_set_time:
  assumes "kernel_ok s" and "rt_current_thread s \<noteq> None"
  shows "effect T s (tm_upd x (\<lambda>tm. tm\<lparr>tm_init_tick := time\<rparr>) s)"
  by (rule effect_cong) (use assms kernel_ok_set_time in \<open>auto simp: timer_keys_def\<close>)

lemma effect_start_thread_timer:
  assumes k: "kernel_ok s" and c: "rt_current_thread s \<noteq> None" and t: "th_state s t = RT_THREAD_SUSPEND"
    and s: "start_thread_timer t time s = Some s'"
  shows "effect {t} s s'"
proof -
  let ?u = "tm_upd (Thread_timer t) (\<lambda>tm. tm\<lparr>tm_init_tick := time\<rparr>) s"
  have m: "th_mask s t \<noteq> 0" using k t kernel_wf_mask by (auto simp: kernel_ok_def)
  have a: "timer_arm (Thread_timer t) ?u = Some s'" using s start_thread_timer_eq [OF k m] by simp
  have "effect {u. Thread_timer t = Thread_timer u} ?u s'"
    by (rule effect_arm [OF kernel_ok_set_time [OF k] _ a]) (use c t in simp_all)
  then have "effect {t} ?u s'" by (rule effect_more) auto
  from effect_trans [OF effect_set_time [OF k c, of "{}"] this] show ?thesis by simp
qed

lemma th_upd_effect:
  assumes k: "kernel_ok s" and c: "rt_current_thread s \<noteq> None"
    and f: "\<And>th. th_stat (f th) AND 7 = th_stat th AND 7" "\<And>th. th_current_priority (f th) = th_current_priority th"
      "\<And>th. th_number_mask (f th) = th_number_mask th"
  shows "effect T s (th_upd t f s)"
proof -
  have "th_state (th_upd t f s) = th_state s" "th_mask (th_upd t f s) = th_mask s"
    using f by (auto simp: th_views_upd) (auto simp: th_state_def th_mask_def)
  then show ?thesis using th_upd_ok [OF k, of f t] f c by (intro effect_cong) (simp_all add: timer_keys_def fun_eq_iff)
qed

lemma effect_list_suspend:
  assumes k: "kernel_ok s" and c: "rt_current_thread s \<noteq> None" and r: "th_state s t = RT_THREAD_RUNNING"
    and s: "ipc_list_suspend l t flag s = Some s'"
  shows "effect {t} s s'"
proof -
  note b = ipc_suspend_cases [OF k r s]
  obtain e s0 where s0: "rt_thread_suspend t s = Some (e, s0)" and r0: "rows s' = rows s0 \<and> rt_timers s' = rt_timers s0"
    using s by (auto simp: ipc_list_suspend_def bind_eq_Some_conv split: if_splits)
  have e0: "effect {t} s s0" by (rule effect_suspend [OF k c s0])
  have keys: "timer_keys s' = timer_keys s0" using r0 by (auto simp: timer_keys_def)
  have wait: "x \<in> set (tlists s' (Wait m)) \<longleftrightarrow> x \<in> set (tlists s (Wait m))" if "x \<noteq> t" for x m
    using b(9) b(10) [of m] that by (cases "m = l") (auto simp: wait_list.set_ins)
  have "same_thread x s s'" if "x \<noteq> t" "\<not> able s x" for x
  proof -
    have "same_thread x s s0" using e0 that unfolding effect_def by blast
    then show ?thesis using b(2) wait that r0 keys by (simp add: same_thread_def)
  qed
  then show ?thesis
    using b e0 r0 hard_ready_cong [of s' s0 "rt_tick s"] keys c by (auto simp: effect_def able_def)
qed

lemma effect_block:
  assumes k: "kernel_ok s" and c: "rt_current_thread s = Some t" and r: "th_state s t = RT_THREAD_RUNNING"
    and s: "ipc_block l t flag time s = Some s'"
  shows "effect {t} s s'"
proof -
  obtain s1 s2 where s1: "ipc_list_suspend l t flag s = Some s1"
    and s2: "(if 0 <s time then start_thread_timer t time s1 else Some s1) = Some s2" and sch: "rt_schedule s2 = Some s'"
    using s by (auto simp: ipc_block_def bind_eq_Some_conv)
  have c0: "rt_current_thread s \<noteq> None" using c by simp
  have e1: "effect {t} s s1" by (rule effect_list_suspend [OF k c0 r s1])
  note b = ipc_suspend_cases [OF k r s1]
  have e2: "effect {t} s1 s2"
    using s2 effect_start_thread_timer [of s1 t time s2] effect_refl [of s1 "{t}"] b(1,2) effect_ok [OF e1] by (auto split: if_splits)
  then obtain cur where "rt_current_thread s2 = Some cur" by (auto simp: effect_def)
  then have "effect {} s2 s'" using effect_schedule sch effect_ok(1) [OF e2] by blast
  from effect_trans [OF effect_trans [OF e1 e2] this] show ?thesis by simp
qed

end
