(* ===== verification/KCalls.thy ===== *)
theory KCalls
  imports KEffect
begin

text \<open>
  The calls of the kernel as one system: \<open>call\<close> and \<open>do_call\<close> collect what the threads can ask for,
  \<open>allowed\<close> states what the application has to respect, \<open>sys_ok\<close> is the invariant. Every allowed call
  returns, so no assertion of the kernel fails, keeps the invariant and touches only the threads it
  names (\<open>calls_ok\<close>).
\<close>

section \<open>Calls and the invariant of the system\<close>

text \<open>
  The calls of the threads. \<open>Timer_start\<close> and \<open>Timer_stop\<close> deal with the timers of the application,
  which are soft timers. \<open>Timer_wait\<close> is one round of the timer thread up to its sleep,
  \<open>Soft_begin\<close> and \<open>Soft_end\<close> are the parts of \<open>soft_timer_fire\<close> before and after the time-out
  function, which itself is a sequence of calls of the timer thread.
\<close>

datatype call =
    Sleep u32 | Delay_until u32 u32 | Yield | Exit | Reschedule
  | Resume nat | Delete nat | Startup nat | Change_priority nat u8 | Lock | Unlock
  | Sem_take nat "32 word" | Sem_release nat | Mutex_take nat "32 word" | Mutex_release nat
  | Event_send nat u32 | Event_recv nat u32 u8 "32 word"
  | Thread_init nat u8 u32 | Timer_init nat u32 u8
  | Timer_start nat | Timer_stop nat | Timer_wait | Soft_begin | Soft_end nat

fun do_call :: "call \<Rightarrow> 'a ipc_scheme \<Rightarrow> 'a ipc_scheme option" where
  "do_call (Sleep n) s = rt_thread_sleep n s"
| "do_call (Delay_until tick n) s = map_option snd (rt_thread_delay_until tick n s)"
| "do_call Yield s = rt_thread_yield s"
| "do_call Exit s = thread_exit s"
| "do_call Reschedule s = rt_schedule s"
| "do_call (Resume t) s = Some (snd (rt_thread_resume t s))"
| "do_call (Delete t) s = Some (rt_thread_delete t s)"
| "do_call (Startup t) s = rt_thread_startup t s"
| "do_call (Change_priority t p) s = rt_thread_control t (RT_THREAD_CTRL_CHANGE_PRIORITY p) s"
| "do_call Lock s = Some (rt_enter_critical s)"
| "do_call Unlock s = rt_exit_critical s"
| "do_call (Sem_take i time) s = map_option snd (rt_sem_take i time s)"
| "do_call (Sem_release i) s = map_option snd (rt_sem_release i s)"
| "do_call (Mutex_take i time) s = map_option snd (rt_mutex_take i time s)"
| "do_call (Mutex_release i) s = map_option snd (rt_mutex_release i s)"
| "do_call (Event_send i bits) s = map_option snd (rt_event_send i bits s)"
| "do_call (Event_recv i bits opt time) s = map_option snd (rt_event_recv i bits opt time s)"
| "do_call (Thread_init t p tick) s = thread_init t p tick s"
| "do_call (Timer_init n time flag) s = Some (timer_init (Timer n) (Callback n) time flag s)"
| "do_call (Timer_start n) s = rt_timer_start (Timer n) s"
| "do_call (Timer_stop n) s = Some (snd (rt_timer_stop (Timer n) s))"
| "do_call Timer_wait s = timer_thread_wait s"
| "do_call Soft_begin s =
     Some (case rows s Soft of
       [] \<Rightarrow> s
     | x # _ \<Rightarrow> if timer_due (rt_tick s) x s then (begin_fire Soft_temp x s)\<lparr>soft_timer_busy := True\<rparr> else s)"
| "do_call (Soft_end n) s = end_fire Soft_temp (Timer n) (s\<lparr>soft_timer_busy := False\<rparr>)"

text \<open>
  What the application has to respect: only a thread other than the idle thread gives the
  processor away, and only with the scheduler unlocked; times and intervals are less than half
  the range of the tick; priorities are valid; the lock count does not overflow; nobody deletes itself or
  the idle thread.
\<close>

definition may_block :: "'a kernel_scheme \<Rightarrow> bool" where
  "may_block s \<longleftrightarrow> rt_scheduler_lock_nest s = 0 \<and> rt_current_thread s \<noteq> Some idle_thread"

definition may_wait :: "32 word \<Rightarrow> u8 \<Rightarrow> 'a kernel_scheme \<Rightarrow> bool" where
  "may_wait time flag s \<longleftrightarrow>
     time = 0 \<or> may_block s \<and> (\<not> 0 <s time \<or> time < 0x7FFFFFFF) \<and> (flag = RT_IPC_FLAG_FIFO \<or> flag = RT_IPC_FLAG_PRIO)"

definition startable :: "nat \<Rightarrow> 'a kernel_scheme \<Rightarrow> bool" where
  "startable t s \<longleftrightarrow> th_state s t = RT_THREAD_INIT \<and> th_init_priority (rt_threads s t) < 32 \<and>
     tm_func (rt_timers s (Thread_timer t)) = Thread_timeout t \<and>
     \<not> tm_periodic (rt_timers s (Thread_timer t)) \<and> \<not> tm_soft (rt_timers s (Thread_timer t))"

fun allowed :: "call \<Rightarrow> 'a ipc_scheme \<Rightarrow> bool" where
  "allowed (Sleep n) s \<longleftrightarrow> may_block s \<and> n < 0x7FFFFFFF"
| "allowed (Delay_until tick n) s \<longleftrightarrow> may_block s \<and> n < 0x7FFFFFFF"
| "allowed Exit s \<longleftrightarrow> may_block s"
| "allowed Lock s \<longleftrightarrow> rt_scheduler_lock_nest s + 1 \<noteq> 0"
| "allowed (Delete t) s \<longleftrightarrow> t \<noteq> idle_thread \<and> rt_current_thread s \<noteq> Some t"
| "allowed (Startup t) s \<longleftrightarrow> startable t s"
| "allowed (Change_priority t p) s \<longleftrightarrow> p < 32 \<and> th_mask s t \<noteq> 0"
| "allowed (Sem_take i time) s \<longleftrightarrow> may_wait time (sem_flag (sems s i)) s"
| "allowed (Mutex_take i time) s \<longleftrightarrow> may_wait time (mx_flag (mutexes s i)) s"
| "allowed (Event_recv i bits opt time) s \<longleftrightarrow>
     may_wait time (ev_flag (events s i)) s \<and> (bits = 0 \<or> event_match opt bits 0 \<noteq> None)"
| "allowed (Thread_init t p tick) s \<longleftrightarrow>
     p < 32 \<and> th_state s t = RT_THREAD_INIT \<and> th_mask s t = 0 \<and> (\<forall>h. Thread_timer t \<notin> set (rows s h))"
| "allowed (Timer_init n time flag) s \<longleftrightarrow> (\<forall>h. Timer n \<notin> set (rows s h))"
| "allowed (Timer_start n) s \<longleftrightarrow> tm_soft (rt_timers s (Timer n)) \<and> tm_init_tick (rt_timers s (Timer n)) < 0x7FFFFFFF"
| "allowed Timer_wait s \<longleftrightarrow> may_block s"
| "allowed (Soft_end n) s \<longleftrightarrow> tm_soft (rt_timers s (Timer n)) \<and> tm_init_tick (rt_timers s (Timer n)) < 0x7FFFFFFF"
| "allowed _ s \<longleftrightarrow> True"

definition sys_ok :: "'a ipc_scheme \<Rightarrow> bool" where
  "sys_ok s \<longleftrightarrow>
     kernel_ok s \<and> cur_running s \<and> able s idle_thread \<and> hard_ready (rt_tick s) s \<and>
     sem_ok s \<and> mutex_ok s \<and> event_ok s"

text \<open>The threads a call may stop or wake.\<close>

fun touched :: "call \<Rightarrow> 'a ipc_scheme \<Rightarrow> nat set" where
  "touched (Resume t) s = {t}"
| "touched (Delete t) s = {t}"
| "touched (Startup t) s = {t}"
| "touched (Thread_init t p tick) s = {t}"
| "touched (Sem_release i) s = set (tlists s (Wait (Sem_list i)))"
| "touched (Mutex_release i) s = set (tlists s (Wait (Mutex_list i)))"
| "touched (Event_send i bits) s = set (tlists s (Wait (Event_list i)))"
| "touched (Timer_start n) s = {timer_thread}"
| "touched (Soft_end n) s = {timer_thread}"
| "touched Yield s = {}" | "touched Reschedule s = {}" | "touched (Change_priority t p) s = {}"
| "touched Lock s = {}" | "touched Unlock s = {}" | "touched (Timer_stop n) s = {}" | "touched (Timer_init n time flag) s = {}" | "touched Soft_begin s = {}"
| "touched _ s = set_option (rt_current_thread s)"

text \<open>Two states between which the IPC objects have not changed and no thread has begun to wait.\<close>

definition calm :: "'a kernel_scheme \<Rightarrow> 'a kernel_scheme \<Rightarrow> bool" where
  "calm s s' \<longleftrightarrow> quiet s s' \<and> ev_info s' = ev_info s"

lemma calm_refl [simp]: "calm s s"
  by (simp add: calm_def)

lemma calm_trans: "calm s u \<Longrightarrow> calm u s' \<Longrightarrow> calm s s'"
  using quiet_trans by (auto simp: calm_def)

lemma calm_schedule: "rt_schedule s = Some s' \<Longrightarrow> calm s s'"
  by (simp add: calm_def quiet_schedule ev_info_schedule)

lemma calm_resume: "calm s (snd (rt_thread_resume t s))"
  by (simp add: calm_def quiet_resume)

lemma calm_suspend: "rt_thread_suspend t s = Some (e, s') \<Longrightarrow> calm s s'"
  by (simp add: calm_def quiet_suspend ev_info_suspend)

lemma calm_start: "rt_timer_start t s = Some s' \<Longrightarrow> calm s s'"
  by (simp add: calm_def quiet_start ev_info_start)

lemma calm_start_thread_timer: "start_thread_timer t time s = Some s' \<Longrightarrow> calm s s'"
  by (simp add: calm_def quiet_start_thread_timer ev_info_start_thread_timer)

lemma sys_ok_calm:
  assumes s: "sys_ok s" and e: "effect T s s'" and c: "calm s s'" and r: "cur_running s'"
    and i: "idle_thread \<notin> T \<or> able s' idle_thread"
  shows "sys_ok s'"
proof -
  have q: "quiet s s'" and ev: "ev_info s' = ev_info s" using c by (auto simp: calm_def)
  have m: "th_mask s t \<noteq> 0 \<Longrightarrow> th_mask s' t \<noteq> 0" for t using e by (simp add: effect_def)
  have "event_ok s'"
    by (rule event_ok_frame [OF _ ev]) (use q quiet_sems [OF q] s in \<open>auto simp: quiet_def sys_ok_def\<close>)
  moreover have "able s' idle_thread" using e i s by (auto simp: effect_def sys_ok_def)
  moreover have "hard_ready (rt_tick s') s'" using e s by (simp add: effect_def sys_ok_def)
  ultimately show ?thesis
    using sem_ok_quiet [OF q] mutex_ok_quiet [OF q m] effect_ok [OF e] r s by (simp add: sys_ok_def)
qed

section \<open>Every allowed call returns and keeps the invariant\<close>

definition call_ok :: "call \<Rightarrow> 'a ipc_scheme \<Rightarrow> bool" where
  "call_ok c s \<longleftrightarrow> (\<exists>s'. do_call c s = Some s' \<and> sys_ok s' \<and> effect (touched c s) s s')"

lemma call_okI: "do_call c s = Some s' \<Longrightarrow> sys_ok s' \<Longrightarrow> effect (touched c s) s s' \<Longrightarrow> call_ok c s"
  by (auto simp: call_ok_def)

lemma sys_running:
  assumes "sys_ok s"
  obtains cur where "rt_current_thread s = Some cur" "th_state s cur = RT_THREAD_RUNNING" "kernel_ok s" "kernel_wf s"
  using assms by (auto simp: sys_ok_def cur_running_def kernel_ok_def)

lemma sched_running:
  assumes k: "kernel_ok s" and c: "rt_current_thread s = Some cur" and s: "rt_schedule s = Some s'"
    and r: "th_state s cur = RT_THREAD_RUNNING \<or> rt_scheduler_lock_nest s = 0 \<and> able s idle_thread \<and> cur \<noteq> idle_thread"
  shows "cur_running s'"
proof (cases "th_state s cur = RT_THREAD_RUNNING")
  case True
  then show ?thesis using schedule_running [OF _ c s] k by (simp add: kernel_ok_def)
next
  case False
  have w: "kernel_wf s" using k by (simp add: kernel_ok_def)
  have "th_state s idle_thread = RT_THREAD_READY"
    using False r c kernel_wf_running [OF w, of idle_thread] by (auto simp: able_def)
  then have "rt_thread_ready_priority_group s \<noteq> 0" using group_zero_no_ready [OF w] by metis
  then show ?thesis using schedule_picks [OF w c s] False r by (auto simp: cur_running_def)
qed

text \<open>The end of a blocking call: the caller is no longer able to run, the idle thread is.\<close>

lemma give_away:
  assumes s: "sys_ok s" and b: "may_block s" and c: "rt_current_thread s = Some cur"
    and e: "effect {cur} s u" and cu: "rt_current_thread u = Some cur" and l: "rt_scheduler_lock_nest u = rt_scheduler_lock_nest s"
  obtains s' where "rt_schedule u = Some s'" "cur_running s'" "effect {cur} s s'"
proof -
  have k: "kernel_ok u" using effect_ok [OF e] by simp
  then obtain s' where s': "rt_schedule u = Some s'" using schedule_total [OF _ cu] by (auto simp: kernel_ok_def)
  have n: "cur \<noteq> idle_thread" using b c by (simp add: may_block_def)
  then have "able u idle_thread" using e s by (auto simp: effect_def sys_ok_def)
  then have "cur_running s'" using sched_running [OF k cu s'] n l b by (simp add: may_block_def)
  moreover have "effect {cur} s s'" using effect_trans [OF e effect_schedule [OF k cu s', of "{}"]] by simp
  ultimately show ?thesis using that s' by blast
qed

lemma suspend_self:
  assumes s: "sys_ok s" and c: "rt_current_thread s = Some cur"
  obtains s1 where "rt_thread_suspend cur s = Some (RT_EOK, s1)" "effect {cur} s s1" "calm s s1"
    "rt_current_thread s1 = Some cur" "th_state s1 cur = RT_THREAD_SUSPEND" "rt_scheduler_lock_nest s1 = rt_scheduler_lock_nest s"
proof -
  have k: "kernel_ok s" and w: "kernel_wf s" and r: "th_state s cur = RT_THREAD_RUNNING"
    using sys_running [OF s] c by (metis, metis, metis option.inject)
  obtain e s1 where s1: "rt_thread_suspend cur s = Some (e, s1)" using suspend_total [OF w] .
  have "e = RT_EOK" using suspend_cases [OF s1] r by (metis insertCI)
  then show ?thesis
    using that s1 effect_suspend [OF k _ s1] calm_suspend [OF s1] suspend_views [OF s1] suspend_state [OF s1] c r by simp
qed

lemma start_total:
  assumes e: "kernel_ok s" and t: "th_state s t = RT_THREAD_SUSPEND" and n: "time < 0x7FFFFFFF" and c: "rt_current_thread s = Some cur"
  obtains s' where "start_thread_timer t time s = Some s'" "effect {t} s s'" "calm s s'" "rt_current_thread s' = Some cur"
    "rt_scheduler_lock_nest s' = rt_scheduler_lock_nest s"
proof -
  let ?u = "tm_upd (Thread_timer t) (\<lambda>tm. tm\<lparr>tm_init_tick := time\<rparr>) s"
  have m: "th_mask s t \<noteq> 0" using e t kernel_wf_mask by (auto simp: kernel_ok_def)
  obtain s' where s': "timer_arm (Thread_timer t) ?u = Some s'" using n by (simp add: timer_arm_eq)
  then have st: "start_thread_timer t time s = Some s'" using start_thread_timer_eq [OF e m] by simp
  show ?thesis
    using that [OF st effect_start_thread_timer [OF e _ t st] calm_start_thread_timer [OF st]] arm_views [OF s'] c by simp
qed

lemma asleep_steps:
  assumes s: "sys_ok s" and b: "may_block s" and c: "rt_current_thread s = Some cur" and n: "n < 0x7FFFFFFF"
  obtains s1 s2 s' where "rt_thread_suspend cur s = Some (RT_EOK, s1)" "start_thread_timer cur n s1 = Some s2"
    "rt_schedule s2 = Some s'" "sys_ok s'" "effect {cur} s s'"
proof -
  obtain s1 where s1: "rt_thread_suspend cur s = Some (RT_EOK, s1)" "effect {cur} s s1" "calm s s1"
    "rt_current_thread s1 = Some cur" "th_state s1 cur = RT_THREAD_SUSPEND" "rt_scheduler_lock_nest s1 = rt_scheduler_lock_nest s"
    using suspend_self [OF s c] .
  obtain s2 where s2: "start_thread_timer cur n s1 = Some s2" "effect {cur} s1 s2" "calm s1 s2" "rt_current_thread s2 = Some cur"
    "rt_scheduler_lock_nest s2 = rt_scheduler_lock_nest s1"
    using start_total [OF effect_ok(1) [OF s1(2)] s1(5) n s1(4)] .
  have e: "effect {cur} s s2" using effect_trans [OF s1(2) s2(2)] by simp
  obtain s' where s': "rt_schedule s2 = Some s'" "cur_running s'" "effect {cur} s s'"
    using give_away [OF s b c e s2(4)] s2(5) s1(6) by auto
  have "calm s s'" using calm_trans [OF calm_trans [OF s1(3) s2(3)] calm_schedule [OF s'(1)]] .
  then have "sys_ok s'" using sys_ok_calm [OF s s'(3) _ s'(2)] b c by (simp add: may_block_def)
  then show ?thesis using that s1 s2 s' by blast
qed

lemma call_sleep:
  assumes s: "sys_ok s" and a: "allowed (Sleep n) s"
  shows "call_ok (Sleep n) s"
proof -
  obtain cur where c: "rt_current_thread s = Some cur" using sys_running [OF s] .
  have b: "may_block s" "n < 0x7FFFFFFF" using a by simp_all
  obtain s1 s2 s' where p: "rt_thread_suspend cur s = Some (RT_EOK, s1)" "start_thread_timer cur n s1 = Some s2"
    "rt_schedule s2 = Some s'" "sys_ok s'" "effect {cur} s s'" using asleep_steps [OF s b(1) c b(2)] .
  show ?thesis by (rule call_okI [OF _ p(4)]) (use p c in \<open>simp_all add: rt_thread_sleep_def\<close>)
qed

lemma call_delay_until:
  assumes s: "sys_ok s" and a: "allowed (Delay_until tick n) s"
  shows "call_ok (Delay_until tick n) s"
proof -
  obtain cur where c: "rt_current_thread s = Some cur" and k: "kernel_ok s" using sys_running [OF s] .
  show ?thesis
  proof (cases "rt_tick s - tick < n")
    case False
    then have "do_call (Delay_until tick n) s = Some s" using c by (simp add: rt_thread_delay_until_def Let_def)
    then show ?thesis using call_okI [of "Delay_until tick n" s s] s effect_refl [OF k] c by simp
  next
    case True
    have b: "may_block s" "n < 0x7FFFFFFF" using a by simp_all
    have le: "n - (rt_tick s - tick) \<le> n" using True by (simp add: word_le_nat_alt unat_sub word_less_nat_alt)
    have eq: "tick + n - rt_tick s = n - (rt_tick s - tick)" by simp
    have i: "tick + n - rt_tick s < 0x7FFFFFFF" unfolding eq using le b(2) by (rule order_le_less_trans)
    obtain s1 s2 s' where p: "rt_thread_suspend cur s = Some (RT_EOK, s1)" "start_thread_timer cur (tick + n - rt_tick s) s1 = Some s2"
      "rt_schedule s2 = Some s'" "sys_ok s'" "effect {cur} s s'" using asleep_steps [OF s b(1) c i] .
    show ?thesis
      by (rule call_okI [OF _ p(4)]) (use p c True in \<open>simp_all add: rt_thread_delay_until_def Let_def\<close>)
  qed
qed

text \<open>The calls of a running thread that only reschedule.\<close>

lemma reschedule:
  assumes s: "sys_ok s" and c: "rt_current_thread s = Some cur" and e: "effect T s u" and q: "calm s u"
    and cu: "rt_current_thread u = Some cur" and r: "th_state u cur = RT_THREAD_RUNNING" and i: "idle_thread \<notin> T \<or> able u idle_thread"
  obtains s' where "rt_schedule u = Some s'" "sys_ok s'" "effect T s s'"
proof -
  have k: "kernel_ok u" using effect_ok [OF e] by simp
  then have w: "kernel_wf u" by (simp add: kernel_ok_def)
  obtain s' where s': "rt_schedule u = Some s'" using schedule_total [OF w cu] .
  have "effect T s s'" using effect_trans [OF e effect_schedule [OF k cu s', of "{}"]] by simp
  moreover have "idle_thread \<notin> T \<or> able s' idle_thread" using i schedule_able(1) [OF w cu s'] by simp
  ultimately show ?thesis
    using that [OF s'] sys_ok_calm [OF s _ calm_trans [OF q calm_schedule [OF s']]] schedule_running [OF w cu s' r] by blast
qed

lemma call_reschedule:
  assumes s: "sys_ok s"
  shows "call_ok Reschedule s"
proof -
  obtain cur where c: "rt_current_thread s = Some cur" "th_state s cur = RT_THREAD_RUNNING" "kernel_ok s" using sys_running [OF s] .
  obtain s' where "rt_schedule s = Some s'" "sys_ok s'" "effect {} s s'"
    by (rule reschedule [OF s c(1) effect_refl [OF c(3)] calm_refl c(1,2)]) (use c(1) in auto)
  then show ?thesis by (intro call_okI) simp_all
qed

lemma yield_effect:
  assumes k: "kernel_ok s" and c: "rt_current_thread s \<noteq> None"
  defines "f \<equiv> \<lambda>th. th\<lparr>th_remaining_tick := th_init_tick th, th_stat := th_stat th OR RT_THREAD_STAT_YIELD\<rparr>"
  shows "effect T s (th_upd t f s)" and "calm s (th_upd t f s)" and "th_state (th_upd t f s) = th_state s"
proof -
  show "effect T s (th_upd t f s)" by (rule th_upd_effect [OF k c]) (simp_all add: f_def yield_bit)
  have "ev_info (th_upd t f s) = ev_info s" by (rule ev_info_upd) (simp_all add: f_def)
  then show "calm s (th_upd t f s)" by (simp add: calm_def quiet_steps)
  show "th_state (th_upd t f s) = th_state s" by (auto simp: th_views_upd f_def) (auto simp: th_state_def yield_bit)
qed

lemma call_yield:
  assumes s: "sys_ok s"
  shows "call_ok Yield s"
proof -
  obtain cur where c: "rt_current_thread s = Some cur" "th_state s cur = RT_THREAD_RUNNING" "kernel_ok s" using sys_running [OF s] .
  have c0: "rt_current_thread s \<noteq> None" using c by simp
  note y = yield_effect [OF c(3) c0, where t = cur]
  obtain s' where "rt_schedule (th_upd cur (\<lambda>th. th\<lparr>th_remaining_tick := th_init_tick th, th_stat := th_stat th OR RT_THREAD_STAT_YIELD\<rparr>) s) = Some s'"
    "sys_ok s'" "effect {} s s'"
    by (rule reschedule [OF s c(1) y(1,2)]) (use c y(3) in auto)
  then show ?thesis by (intro call_okI) (use c in \<open>simp_all add: rt_thread_yield_def\<close>)
qed

abbreviation (input) closed :: "nat \<Rightarrow> bool \<Rightarrow> 'a kernel_scheme \<Rightarrow> 'a kernel_scheme" where
  "closed t remove s \<equiv> rt_thread_defunct_enqueue t (th_upd t (\<lambda>th. th\<lparr>th_stat := RT_THREAD_CLOSE\<rparr>)
    (rt_timer_detach (Thread_timer t) (if remove then rt_schedule_remove_thread t s else s)))"

lemma effect_close:
  assumes k: "kernel_ok s" and c: "rt_current_thread s \<noteq> None" and f: "remove \<or> (\<forall>h. t \<notin> set (tlists s h))"
  shows "effect {t} s (closed t remove s)" and "calm s (closed t remove s)"
    and "rt_current_thread (closed t remove s) = rt_current_thread s"
    and "rt_scheduler_lock_nest (closed t remove s) = rt_scheduler_lock_nest s"
    and "th_state (closed t remove s) = (th_state s)(t := RT_THREAD_CLOSE)"
proof -
  let ?u = "closed t remove s"
  have st: "th_state ?u = (th_state s)(t := RT_THREAD_CLOSE)"
    using th_views_close(1) [of t "rt_timer_detach (Thread_timer t) (if remove then rt_schedule_remove_thread t s else s)"]
    by (simp add: rt_thread_defunct_enqueue_def)
  have mk: "th_mask ?u = th_mask s"
    using th_views_close(3) [of t "rt_timer_detach (Thread_timer t) (if remove then rt_schedule_remove_thread t s else s)"]
    by (simp add: rt_thread_defunct_enqueue_def)
  have rows: "rows ?u h = removeAll (Thread_timer t) (rows s h)" for h
    by (simp add: rt_thread_defunct_enqueue_def rt_timer_detach_def)
  have keys: "timer_keys ?u = timer_keys s" by (auto simp: timer_keys_def rt_thread_defunct_enqueue_def rt_timer_detach_def)
  have L: "set (tlists ?u (Wait l)) = set (tlists s (Wait l)) - (if remove then {t} else {})" for l
    by (simp add: rt_thread_defunct_enqueue_def lists_push_def remove_views)
  show cu: "rt_current_thread ?u = rt_current_thread s" and "rt_scheduler_lock_nest ?u = rt_scheduler_lock_nest s"
    by (simp_all add: rt_thread_defunct_enqueue_def)
  show "th_state ?u = (th_state s)(t := RT_THREAD_CLOSE)" using st .
  have "hard_ready b s \<Longrightarrow> hard_ready b ?u" for b
    by (rule hard_ready_remove [of b s _ "Thread_timer t"]) (simp_all add: rows keys)
  moreover have "same_thread x s ?u" if "x \<noteq> t" for x using that by (auto simp: same_thread_def st rows keys L)
  moreover have "able ?u x \<longleftrightarrow> able s x" if "x \<noteq> t" for x using that st by (simp add: able_def)
  moreover have "rt_tick ?u = rt_tick s" by (simp add: rt_thread_defunct_enqueue_def)
  ultimately show "effect {t} s ?u"
    unfolding effect_def mk cu using kernel_ok_close [OF k f] c by blast
  have "kernel.more ?u = kernel.more s"
    by (simp add: rt_thread_defunct_enqueue_def rt_timer_detach_def th_upd_def tm_upd_def timer_remove_def rt_schedule_remove_thread_def Let_def)
  moreover have "ev_info ?u = ev_info s"
    by (simp add: ev_info_def rt_thread_defunct_enqueue_def th_upd_def fun_eq_iff)
  ultimately show "calm s ?u" using L by (auto simp: calm_def quiet_def)
qed

lemma call_delete:
  assumes s: "sys_ok s" and a: "allowed (Delete t) s"
  shows "call_ok (Delete t) s"
proof -
  obtain cur where c: "rt_current_thread s = Some cur" "th_state s cur = RT_THREAD_RUNNING" "kernel_ok s" "kernel_wf s"
    using sys_running [OF s] .
  have c0: "rt_current_thread s \<noteq> None" using c by simp
  show ?thesis
  proof (cases "th_state s t = RT_THREAD_CLOSE")
    case True
    then show ?thesis
      using call_okI [of "Delete t" s s] s effect_refl [OF c(3) c0] by (simp add: rt_thread_delete_def)
  next
    case False
    have f: "th_state s t \<noteq> RT_THREAD_INIT \<or> (\<forall>h. t \<notin> set (tlists s h))" using kernel_wf_free [OF c(4)] by auto
    note e = effect_close [OF c(3) c0 f]
    have d: "rt_thread_delete t s = closed t (th_state s t \<noteq> RT_THREAD_INIT) s" using False by (simp add: rt_thread_delete_def Let_def)
    have "cur_running (rt_thread_delete t s)" using e(3,5) c a d by (simp add: cur_running_def)
    then have "sys_ok (rt_thread_delete t s)" using sys_ok_calm [OF s e(1,2)] a d by simp
    then show ?thesis using e(1) d by (intro call_okI) simp_all
  qed
qed

lemma call_exit:
  assumes s: "sys_ok s" and a: "allowed Exit s"
  shows "call_ok Exit s"
proof -
  obtain cur where c: "rt_current_thread s = Some cur" "th_state s cur = RT_THREAD_RUNNING" "kernel_ok s" "kernel_wf s"
    using sys_running [OF s] .
  have c0: "rt_current_thread s \<noteq> None" and b: "may_block s" using c a by simp_all
  have f: "True \<or> (\<forall>h. cur \<notin> set (tlists s h))" by simp
  note e = effect_close [OF c(3) c0 f]
  obtain s' where s': "rt_schedule (closed cur True s) = Some s'" "cur_running s'" "effect {cur} s s'"
    using give_away [OF s b c(1) e(1)] e(3,4) c(1) by auto
  have "sys_ok s'"
    using sys_ok_calm [OF s s'(3) calm_trans [OF e(2) calm_schedule [OF s'(1)]] s'(2)] b c(1) by (simp add: may_block_def)
  then show ?thesis by (intro call_okI) (use s' c in \<open>simp_all add: thread_exit_def\<close>)
qed

lemma lock_effect:
  assumes k: "kernel_ok s" and c: "rt_current_thread s \<noteq> None"
  shows "effect {} s (s\<lparr>rt_scheduler_lock_nest := n\<rparr>)" and "calm s (s\<lparr>rt_scheduler_lock_nest := n\<rparr>)"
    and "th_state (s\<lparr>rt_scheduler_lock_nest := n\<rparr>) = th_state s"
proof -
  let ?u = "s\<lparr>rt_scheduler_lock_nest := n\<rparr>"
  have v: "th_state ?u = th_state s" "th_prio ?u = th_prio s" "th_mask ?u = th_mask s"
    by (simp_all add: th_state_def th_prio_def th_mask_def fun_eq_iff)
  have "kernel_ok ?u"
    using k kernel_wf_cong [of ?u s] v by (simp add: kernel_ok_def timers_wf_def thread_timers_ok_def)
  then show "effect {} s ?u" by (rule effect_cong) (use v c in \<open>simp_all add: timer_keys_def fun_eq_iff\<close>)
  show "calm s ?u" by (simp add: calm_def quiet_steps) (simp add: ev_info_def fun_eq_iff)
  show "th_state ?u = th_state s" using v by simp
qed

lemma call_lock:
  assumes s: "sys_ok s"
  shows "call_ok Lock s"
proof -
  obtain cur where c: "rt_current_thread s = Some cur" "th_state s cur = RT_THREAD_RUNNING" "kernel_ok s" using sys_running [OF s] .
  have c0: "rt_current_thread s \<noteq> None" using c by simp
  note l = lock_effect [OF c(3) c0, where n = "rt_scheduler_lock_nest s + 1"]
  have "cur_running (rt_enter_critical s)" using c l(3) by (simp add: cur_running_def rt_enter_critical_def)
  then have "sys_ok (rt_enter_critical s)" using sys_ok_calm [OF s l(1)] l(2) by (simp add: rt_enter_critical_def)
  then show ?thesis by (intro call_okI) (use l(1) in \<open>simp_all add: rt_enter_critical_def\<close>)
qed

lemma call_unlock:
  assumes s: "sys_ok s"
  shows "call_ok Unlock s"
proof -
  obtain cur where c: "rt_current_thread s = Some cur" "th_state s cur = RT_THREAD_RUNNING" "kernel_ok s" using sys_running [OF s] .
  have c0: "rt_current_thread s \<noteq> None" using c by simp
  let ?n = "rt_scheduler_lock_nest s - 1"
  show ?thesis
  proof (cases "sint ?n \<le> 0")
    case True
    note l = lock_effect [OF c(3) c0, where n = 0]
    obtain s' where "rt_schedule (s\<lparr>rt_scheduler_lock_nest := 0\<rparr>) = Some s'" "sys_ok s'" "effect {} s s'"
      by (rule reschedule [OF s c(1) l(1) l(2)]) (use c l(3) in auto)
    then show ?thesis by (intro call_okI) (use True c in \<open>simp_all add: rt_exit_critical_def\<close>)
  next
    case False
    note l = lock_effect [OF c(3) c0, where n = ?n]
    have r: "rt_exit_critical s = Some (s\<lparr>rt_scheduler_lock_nest := ?n\<rparr>)" using False by (simp add: rt_exit_critical_def)
    have "cur_running (s\<lparr>rt_scheduler_lock_nest := ?n\<rparr>)" using c l(3) by (simp add: cur_running_def)
    then have "sys_ok (s\<lparr>rt_scheduler_lock_nest := ?n\<rparr>)" using sys_ok_calm [OF s l(1) l(2)] by simp
    then show ?thesis by (intro call_okI) (use r l(1) in simp_all)
  qed
qed

lemma able_resume: "able s u \<Longrightarrow> able (snd (rt_thread_resume t s)) u"
proof (cases "u = t")
  case True
  assume "able s u"
  then show ?thesis using True by (auto simp: rt_thread_resume_def able_def)
next
  case False
  assume a: "able s u"
  show ?thesis
  proof (cases "th_state s t = RT_THREAD_SUSPEND")
    case True
    then show ?thesis using a False
      by (cases "rt_current_thread s = Some t")
        (simp_all add: rt_thread_resume_def Let_def able_def insert_views insert_current th_views_state)
  qed (use a in \<open>simp add: rt_thread_resume_def\<close>)
qed

lemma running_resume:
  assumes "kernel_ok s" and "rt_current_thread s = Some cur" and "th_state s cur = RT_THREAD_RUNNING"
  shows "rt_current_thread (snd (rt_thread_resume t s)) = Some cur" and "th_state (snd (rt_thread_resume t s)) cur = RT_THREAD_RUNNING"
proof -
  let ?r = "snd (rt_thread_resume t s)"
  show c: "rt_current_thread ?r = Some cur" using assms by (simp add: resume_views)
  have "able ?r cur" using able_resume assms(3) by (auto simp: able_def)
  then show "th_state ?r cur = RT_THREAD_RUNNING"
    using kernel_wf_current [of ?r cur] kernel_ok_resume [OF assms(1)] c by (auto simp: able_def kernel_ok_def)
qed

lemma call_resume:
  assumes s: "sys_ok s"
  shows "call_ok (Resume t) s"
proof -
  obtain cur where c: "rt_current_thread s = Some cur" "th_state s cur = RT_THREAD_RUNNING" "kernel_ok s" using sys_running [OF s] .
  let ?r = "snd (rt_thread_resume t s)"
  have e: "effect {t} s ?r" using effect_resume [OF c(3)] c(1) by simp
  have "cur_running ?r" using running_resume [OF c(3,1,2)] by (simp add: cur_running_def)
  then have "sys_ok ?r" using sys_ok_calm [OF s e calm_resume] able_resume s by (auto simp: sys_ok_def)
  then show ?thesis by (intro call_okI) (use e in simp_all)
qed

lemma call_timer_stop:
  assumes s: "sys_ok s"
  shows "call_ok (Timer_stop n) s"
proof -
  obtain cur where c: "rt_current_thread s = Some cur" "th_state s cur = RT_THREAD_RUNNING" "kernel_ok s" using sys_running [OF s] .
  let ?u = "snd (rt_timer_stop (Timer n) s)"
  have e: "effect {} s ?u" using effect_stop [OF c(3), of "Timer n"] c by simp
  have q: "calm s ?u" by (simp add: calm_def quiet_stop) (simp add: ev_info_def fun_eq_iff)
  have "cur_running ?u" using c by (simp add: cur_running_def)
  then have "sys_ok ?u" using sys_ok_calm [OF s e q] by simp
  then show ?thesis by (intro call_okI) (use e in simp_all)
qed

text \<open>Starting a soft timer wakes the timer thread when that sleeps.\<close>

lemma soft_start:
  assumes k: "kernel_ok s" and c: "rt_current_thread s = Some cur" and r: "th_state s cur = RT_THREAD_RUNNING"
    and n: "tm_soft (rt_timers s (Timer n))" "tm_init_tick (rt_timers s (Timer n)) < 0x7FFFFFFF"
  obtains s' where "rt_timer_start (Timer n) s = Some s'" "effect {timer_thread} s s'" "calm s s'" "cur_running s'"
    "\<And>u. able s u \<Longrightarrow> able s' u"
proof -
  obtain s1 where a: "timer_arm (Timer n) s = Some s1" using n by (simp add: timer_arm_eq)
  note v = arm_views [OF a]
  have e1: "effect {} s s1" using effect_arm [OF k _ a] n c by simp
  have k1: "kernel_ok s1" using effect_ok [OF e1] by simp
  have soft: "tm_soft (rt_timers s1 (Timer n))" using n v(11) by simp
  have q1: "calm s s1" using quiet_arm [OF a] ev_info_arm [OF a] by (simp add: calm_def)
  show ?thesis
  proof (cases "\<not> soft_timer_busy s1 \<and> th_state s1 timer_thread = RT_THREAD_SUSPEND")
    case False
    then have st: "rt_timer_start (Timer n) s = Some s1" using a by (auto simp: rt_timer_start_def)
    show ?thesis
      using that [OF st effect_more [OF e1] q1] v c r by (simp add: cur_running_def able_def)
  next
    case True
    let ?r = "snd (rt_thread_resume timer_thread s1)"
    have c1: "rt_current_thread s1 = Some cur" "th_state s1 cur = RT_THREAD_RUNNING" using v c r by simp_all
    have e2: "effect {timer_thread} s1 ?r" using effect_resume [OF k1] c1 by simp
    have kr: "kernel_ok ?r" using kernel_ok_resume [OF k1] .
    then have wr: "kernel_wf ?r" by (simp add: kernel_ok_def)
    note rr = running_resume [OF k1 c1, of timer_thread]
    obtain s' where s': "rt_schedule ?r = Some s'" using schedule_total [OF wr rr(1)] .
    have st: "rt_timer_start (Timer n) s = Some s'" using a True soft s' by (simp add: rt_timer_start_def)
    have e: "effect {timer_thread} s s'"
      using effect_trans [OF e1 effect_trans [OF e2 effect_schedule [OF kr rr(1) s', of "{}"]]] by simp
    have "able s' u" if "able s u" for u
      using schedule_able(1) [OF wr rr(1) s', of u] able_resume [of s1 u timer_thread] that v by (simp add: able_def)
    then show ?thesis
      using that [OF st e calm_trans [OF q1 calm_trans [OF calm_resume calm_schedule [OF s']]] schedule_running [OF wr rr(1) s' rr(2)]]
      by blast
  qed
qed

lemma call_timer_start:
  assumes s: "sys_ok s" and a: "allowed (Timer_start n) s"
  shows "call_ok (Timer_start n) s"
proof -
  obtain cur where c: "rt_current_thread s = Some cur" "th_state s cur = RT_THREAD_RUNNING" "kernel_ok s" using sys_running [OF s] .
  have n: "tm_soft (rt_timers s (Timer n))" "tm_init_tick (rt_timers s (Timer n)) < 0x7FFFFFFF" using a by auto
  obtain s' where s': "rt_timer_start (Timer n) s = Some s'" "effect {timer_thread} s s'" "calm s s'" "cur_running s'"
    "\<And>u. able s u \<Longrightarrow> able s' u" using soft_start [OF c(3,1,2) n] by blast
  have "sys_ok s'" using sys_ok_calm [OF s s'(2-4)] s'(5) s unfolding sys_ok_def by blast
  then show ?thesis by (intro call_okI) (use s' in simp_all)
qed

lemma call_thread_init:
  assumes s: "sys_ok s" and a: "allowed (Thread_init t p tick) s"
  shows "call_ok (Thread_init t p tick) s"
proof -
  obtain cur where c: "rt_current_thread s = Some cur" "th_state s cur = RT_THREAD_RUNNING" "kernel_ok s" using sys_running [OF s] .
  have i: "th_state s t = RT_THREAD_INIT" and m: "th_mask s t = 0" and r: "\<And>h. Thread_timer t \<notin> set (rows s h)" using a by auto
  obtain s' where s': "thread_init t p tick s = Some s'" using a by (simp add: thread_init_def Let_def)
  have k: "kernel_ok s'" by (rule kernel_ok_thread_init [OF c(3) s' i r])
  let ?th = "\<lambda>th. th\<lparr>th_init_priority := p, th_current_priority := p, th_number_mask := 0,
    th_init_tick := tick, th_remaining_tick := tick, th_error := RT_EOK, th_stat := RT_THREAD_INIT\<rparr>"
  let ?tm = "\<lparr>tm_flag = 0, tm_func = Thread_timeout t, tm_init_tick = 0, tm_timeout_tick = 0\<rparr>"
  have e: "s' = tm_upd (Thread_timer t) (\<lambda>_. ?tm) (th_upd t ?th s)"
    using s' by (auto simp: thread_init_def timer_init_def Let_def split: if_splits)
  have st: "th_state s' = th_state s" "th_mask s' = (th_mask s)(t := 0)" using i unfolding e by (auto simp: th_views_upd)
  have "hard_ready b s'" if "hard_ready b s" for b
    by (rule hard_ready_remove [OF that, of _ "Thread_timer t"]) (use r in \<open>simp_all add: e timer_keys_def\<close>)
  then have ef: "effect {t} s s'"
    using k c(1) st m by (auto simp: effect_def able_def same_thread_def) (auto simp: e timer_keys_def)
  have "ev_info (th_upd t ?th s) = ev_info s" by (rule ev_info_upd) simp_all
  then have q: "calm s s'" unfolding e calm_def by (intro conjI quiet_steps quiet_refl) (simp add: ev_info_def fun_eq_iff)
  have "cur_running s'" using c st by (simp add: cur_running_def e)
  moreover have "able s' idle_thread" using s st by (simp add: sys_ok_def able_def)
  ultimately have "sys_ok s'" using sys_ok_calm [OF s ef q] by simp
  then show ?thesis by (intro call_okI) (use s' ef in simp_all)
qed

lemma call_timer_init:
  assumes s: "sys_ok s" and a: "allowed (Timer_init n time flag) s"
  shows "call_ok (Timer_init n time flag) s"
proof -
  obtain cur where c: "rt_current_thread s = Some cur" "th_state s cur = RT_THREAD_RUNNING" "kernel_ok s" using sys_running [OF s] .
  have r: "\<And>h. Timer n \<notin> set (rows s h)" using a by auto
  let ?u = "timer_init (Timer n) (Callback n) time flag s"
  have e: "?u = tm_upd (Timer n) (\<lambda>_. \<lparr>tm_flag = flag AND NOT RT_TIMER_FLAG_ACTIVATED, tm_func = Callback n,
      tm_init_tick = time, tm_timeout_tick = 0\<rparr>) s" by (simp add: timer_init_def)
  have k: "kernel_ok ?u"
  proof -
    have "kernel_wf ?u" using c(3) kernel_wf_cong [of ?u s] by (simp add: e kernel_ok_def)
    moreover have "timers_wf ?u" using c(3) r by (auto simp: e kernel_ok_def timers_wf_def tm_wf_def)
    moreover have "thread_timers_ok ?u" using c(3) by (auto simp: e kernel_ok_def thread_timers_ok_def)
    ultimately show ?thesis by (simp add: kernel_ok_def)
  qed
  have "hard_ready b ?u" if "hard_ready b s" for b
    by (rule hard_ready_remove [OF that, of _ "Timer n"]) (use r in \<open>simp_all add: e timer_keys_def\<close>)
  then have ef: "effect {} s ?u" using k c(1) by (auto simp: effect_def able_def same_thread_def timer_init_def timer_keys_def)
  have q: "calm s ?u" by (simp add: e calm_def quiet_steps) (simp add: ev_info_def fun_eq_iff)
  have "cur_running ?u" using c by (simp add: e cur_running_def)
  then have "sys_ok ?u" using sys_ok_calm [OF s ef q] by simp
  then show ?thesis by (intro call_okI) (use ef in simp_all)
qed

lemma call_timer_wait:
  assumes s: "sys_ok s" and a: "allowed Timer_wait s"
  shows "call_ok Timer_wait s"
proof -
  obtain cur where c: "rt_current_thread s = Some cur" "th_state s cur = RT_THREAD_RUNNING" "kernel_ok s" using sys_running [OF s] .
  have b: "may_block s" using a by simp
  let ?next = "timer_list_next_timeout Soft s"
  consider (none) "?next = RT_TICK_MAX" | (sleep) "?next \<noteq> RT_TICK_MAX" "?next - rt_tick s < 0x7FFFFFFF"
    | (go) "?next \<noteq> RT_TICK_MAX" "\<not> ?next - rt_tick s < 0x7FFFFFFF" by blast
  then show ?thesis
  proof cases
    case none
    obtain s1 where s1: "rt_thread_suspend cur s = Some (RT_EOK, s1)" "effect {cur} s s1" "calm s s1"
      "rt_current_thread s1 = Some cur" "rt_scheduler_lock_nest s1 = rt_scheduler_lock_nest s"
      using suspend_self [OF s c(1)] by blast
    obtain s' where s': "rt_schedule s1 = Some s'" "cur_running s'" "effect {cur} s s'"
      using give_away [OF s b c(1) s1(2,4,5)] .
    have "sys_ok s'"
      using sys_ok_calm [OF s s'(3) calm_trans [OF s1(3) calm_schedule [OF s'(1)]] s'(2)] b c by (simp add: may_block_def)
    then show ?thesis
      by (intro call_okI [of Timer_wait s s']) (use none c s1 s' in \<open>simp_all add: timer_thread_wait_def Let_def\<close>)
  next
    case sleep
    then have "do_call Timer_wait s = do_call (Sleep (?next - rt_tick s)) s" by (simp add: timer_thread_wait_def Let_def)
    then show ?thesis using call_sleep [OF s, of "?next - rt_tick s"] b sleep by (simp add: call_ok_def)
  next
    case go
    then have "do_call Timer_wait s = Some s" by (simp add: timer_thread_wait_def Let_def)
    then show ?thesis using call_okI [of Timer_wait s s] s effect_refl [OF c(3)] c(1) by simp
  qed
qed

lemma call_startup:
  assumes s: "sys_ok s" and a: "allowed (Startup t) s"
  shows "call_ok (Startup t) s"
proof -
  obtain cur where c: "rt_current_thread s = Some cur" "th_state s cur = RT_THREAD_RUNNING" "kernel_ok s" "kernel_wf s"
    using sys_running [OF s] .
  have st: "th_state s t = RT_THREAD_INIT" "th_init_priority (rt_threads s t) < 32"
    "tm_func (rt_timers s (Thread_timer t)) = Thread_timeout t"
    "\<not> tm_periodic (rt_timers s (Thread_timer t))" "\<not> tm_soft (rt_timers s (Thread_timer t))" using a by (simp_all add: startable_def)
  let ?set = "\<lambda>th. th\<lparr>th_current_priority := th_init_priority th, th_number_mask := prio_mask (th_init_priority th),
    th_stat := RT_THREAD_SUSPEND\<rparr>"
  let ?u = "th_upd t ?set s" and ?r = "snd (rt_thread_resume t (th_upd t ?set s))"
  have v: "th_state ?u = (th_state s)(t := RT_THREAD_SUSPEND)" "th_mask ?u = (th_mask s)(t := prio_mask (th_init_priority (rt_threads s t)))"
    by (auto simp: th_views_upd)
  have ku: "kernel_ok ?u" by (rule kernel_ok_started [OF c(3) st])
  have tc: "t \<noteq> cur" "t \<noteq> idle_thread" using st c s by (auto simp: sys_ok_def able_def)
  have "hard_ready b ?u = hard_ready b s" for b by (rule hard_ready_cong) (simp_all add: timer_keys_def fun_eq_iff)
  then have e1: "effect {t} s ?u"
    using ku c v prio_mask_nonzero [OF st(2)]
    by (auto simp: effect_def able_def same_thread_def timer_keys_def)
  have q1: "calm s ?u" using ev_info_upd [of ?set t s] by (simp add: calm_def quiet_steps)
  have e2: "effect {t} ?u ?r" using effect_resume [OF ku] c by simp
  have cu: "rt_current_thread ?u = Some cur" "th_state ?u cur = RT_THREAD_RUNNING" using c v tc by simp_all
  have ef: "effect {t} s ?r" using effect_trans [OF e1 e2] by simp
  have ir: "idle_thread \<notin> {t} \<or> able ?r idle_thread" using tc by simp
  obtain s' where s': "rt_schedule ?r = Some s'" "sys_ok s'" "effect {t} s s'"
    using reschedule [OF s c(1) ef calm_trans [OF q1 calm_resume] running_resume [OF ku cu] ir] .
  then show ?thesis
    by (intro call_okI) (use st c in \<open>simp_all add: rt_thread_startup_def Let_def resume_views\<close>)
qed

text \<open>A soft timer fires.\<close>

lemma hard_ready_soft_push:
  assumes h: "hard_ready b s" and r: "rows s' = lists_push Soft_temp x (lists_remove x (rows s))" and k: "timer_keys s' = timer_keys s"
  shows "hard_ready b s'"
  by (rule hard_ready_remove [OF h, of _ x]) (simp_all add: r k lists_push_def)

lemma call_soft_begin:
  assumes s: "sys_ok s"
  shows "call_ok Soft_begin s"
proof -
  obtain cur where c: "rt_current_thread s = Some cur" "th_state s cur = RT_THREAD_RUNNING" "kernel_ok s" using sys_running [OF s] .
  have trivial: "do_call Soft_begin s = Some s \<Longrightarrow> ?thesis"
    using call_okI [of Soft_begin s s] s effect_refl [OF c(3)] c(1) by simp
  show ?thesis
  proof (cases "rows s Soft")
    case Nil
    then show ?thesis using trivial by simp
  next
    case (Cons x xs)
    let ?u = "(begin_fire Soft_temp x s)\<lparr>soft_timer_busy := True\<rparr>"
    have soft: "tm_soft (rt_timers s x)" using c(3) Cons by (simp add: kernel_ok_def timers_wf_def tm_wf_def)
    have act: "tm_active (rt_timers s x)" using c(3) Cons by (simp add: kernel_ok_def timers_wf_def tm_wf_def)
    have x: "x \<noteq> Thread_timer t" for t
    proof
      assume e: "x = Thread_timer t"
      then have "th_state s t = RT_THREAD_SUSPEND" using c(3) act by (simp add: kernel_ok_def thread_timers_ok_def)
      then have "th_mask s t \<noteq> 0" using c(3) kernel_wf_mask by (auto simp: kernel_ok_def)
      then show False using c(3) soft e by (simp add: kernel_ok_def thread_timers_ok_def)
    qed
    have k: "kernel_ok ?u" using kernel_ok_begin_fire [OF c(3)] by (simp add: kernel_ok_busy)
    have keys: "timer_keys ?u = timer_keys s" by (auto simp: timer_keys_def begin_fire_timers)
    have "hard_ready (rt_tick s) s \<Longrightarrow> hard_ready (rt_tick s) ?u"
      by (rule hard_ready_soft_push [where x = x]) (simp_all add: begin_fire_timers keys)
    moreover have "same_thread t s ?u" for t
      using x [of t] by (auto simp: same_thread_def keys begin_fire_timers lists_push_def)
    ultimately have e: "effect {} s ?u" using k c(1) by (simp add: effect_def able_def)
    have "kernel.more ?u = kernel.more s"
      by (simp add: begin_fire_def Let_def tm_upd_def timer_remove_def)
    then have q: "calm s ?u" by (simp add: calm_def quiet_def) (simp add: ev_info_def fun_eq_iff)
    have "cur_running ?u" using c by (simp add: cur_running_def)
    then have "sys_ok ?u" using sys_ok_calm [OF s e q] by simp
    then show ?thesis using trivial e Cons call_okI [of Soft_begin s ?u] by (cases "timer_due (rt_tick s) x s") simp_all
  qed
qed

lemma busy_effect:
  assumes k: "kernel_ok s" and c: "rt_current_thread s \<noteq> None"
  shows "effect {} s (s\<lparr>soft_timer_busy := b\<rparr>)" and "calm s (s\<lparr>soft_timer_busy := b\<rparr>)"
proof -
  show "effect {} s (s\<lparr>soft_timer_busy := b\<rparr>)"
    by (rule effect_cong) (use k c in \<open>simp_all add: kernel_ok_busy timer_keys_def fun_eq_iff\<close>)
  show "calm s (s\<lparr>soft_timer_busy := b\<rparr>)" by (simp add: calm_def quiet_steps) (simp add: ev_info_def fun_eq_iff)
qed

lemma unqueue_effect:
  fixes s :: "'a kernel_scheme"
  assumes k: "kernel_ok s" and c: "rt_current_thread s \<noteq> None"
  shows "effect {} s (timer_remove (Timer n) s)" and "calm s (timer_remove (Timer n) s)"
    and "effect {} s (tm_upd (Timer n) (clear_flag RT_TIMER_FLAG_ACTIVATED) (timer_remove (Timer n) s))"
    and "calm s (tm_upd (Timer n) (clear_flag RT_TIMER_FLAG_ACTIVATED) (timer_remove (Timer n) s))"
proof -
  let ?r = "timer_remove (Timer n) s"
  have h: "hard_ready b s \<Longrightarrow> hard_ready b u" if "rows u = lists_remove (Timer n) (rows s)" "timer_keys u = timer_keys s"
    for b and u :: "'a kernel_scheme"
    by (rule hard_ready_remove [of b s u "Timer n"]) (simp_all add: that)
  show "effect {} s ?r"
    using kernel_ok_timer_remove [OF k] c h [of ?r] by (auto simp: effect_def able_def same_thread_def)
  show "effect {} s (tm_upd (Timer n) (clear_flag RT_TIMER_FLAG_ACTIVATED) ?r)" (is "effect {} s ?u")
    using kernel_ok_unqueue [OF k, of "Timer n"] c h [of ?u]
    by (auto simp: effect_def able_def same_thread_def timer_keys_def fun_eq_iff)
  show "calm s ?r" "calm s ?u" by (auto simp: calm_def quiet_steps) (auto simp: ev_info_def fun_eq_iff)
qed

lemma call_soft_end:
  assumes s: "sys_ok s" and a: "allowed (Soft_end n) s"
  shows "call_ok (Soft_end n) s"
proof -
  obtain cur where c: "rt_current_thread s = Some cur" "th_state s cur = RT_THREAD_RUNNING" "kernel_ok s" using sys_running [OF s] .
  let ?b = "s\<lparr>soft_timer_busy := False\<rparr>"
  have c0: "rt_current_thread s \<noteq> None" "rt_current_thread ?b \<noteq> None" using c by simp_all
  have kb: "kernel_ok ?b" using c(3) by (simp add: kernel_ok_busy)
  note be = busy_effect [OF c(3) c0(1), of False] and ue = unqueue_effect [OF kb c0(2), of n]
  have fin: "?thesis" if d: "do_call (Soft_end n) s = Some u" and e: "effect {timer_thread} s u" and q: "calm s u"
    and r: "cur_running u" and i: "able u idle_thread" for u
    using call_okI [OF d sys_ok_calm [OF s e q r]] e i by simp
  have idle: "able s idle_thread" and soft: "tm_soft (rt_timers s (Timer n))" using s a by (simp_all add: sys_ok_def)
  consider (empty) "rows s Soft_temp = []"
    | (over) "rows s Soft_temp \<noteq> []" "\<not> (tm_periodic (rt_timers s (Timer n)) \<and> tm_active (rt_timers s (Timer n)))"
    | (again) "rows s Soft_temp \<noteq> []" "tm_periodic (rt_timers s (Timer n))" "tm_active (rt_timers s (Timer n))" by blast
  then show ?thesis
  proof cases
    case empty
    then show ?thesis
      by (intro fin [of ?b]) (use effect_more [OF be(1)] be(2) c idle in \<open>simp_all add: end_fire_def cur_running_def able_def\<close>)
  next
    case over
    have e: "effect {} s (timer_remove (Timer n) ?b)" using effect_trans [OF be(1) ue(1)] by simp
    show ?thesis
      by (rule fin [of "timer_remove (Timer n) ?b"])
        (use over effect_more [OF e] calm_trans [OF be(2) ue(2)] c idle in \<open>auto simp: end_fire_def Let_def cur_running_def able_def\<close>)
  next
    case again
    let ?u = "tm_upd (Timer n) (clear_flag RT_TIMER_FLAG_ACTIVATED) (timer_remove (Timer n) ?b)"
    have e: "effect {} s ?u" using effect_trans [OF be(1) ue(3)] by simp
    have u: "rt_current_thread ?u = Some cur" "th_state ?u cur = RT_THREAD_RUNNING" "tm_soft (rt_timers ?u (Timer n))"
      "tm_init_tick (rt_timers ?u (Timer n)) < 0x7FFFFFFF" using c soft a by simp_all
    obtain s' where s': "rt_timer_start (Timer n) ?u = Some s'" "effect {timer_thread} ?u s'" "calm ?u s'" "cur_running s'"
      "\<And>x. able ?u x \<Longrightarrow> able s' x" using soft_start [OF effect_ok(1) [OF e] u] by blast
    have e': "effect {timer_thread} s s'" using effect_trans [OF e s'(2)] by simp
    have "able ?u idle_thread" using idle by (simp add: able_def)
    then show ?thesis
      by (intro fin [OF _ e' calm_trans [OF calm_trans [OF be(2) ue(4)] s'(3)] s'(4) s'(5)])
        (use again s'(1) in \<open>simp_all add: end_fire_def Let_def\<close>)
  qed
qed

section \<open>The IPC calls\<close>

lemma sys_ok_ipc:
  assumes "sys_ok s" and "effect T s s'" and "cur_running s'" and "idle_thread \<notin> T \<or> able s' idle_thread"
    and "sem_ok s'" and "mutex_ok s'" and "event_ok s'"
  shows "sys_ok s'"
proof -
  have "able s' idle_thread" using assms(1,2,4) by (auto simp: effect_def sys_ok_def)
  moreover have "hard_ready (rt_tick s') s'" using assms(1,2) by (simp add: effect_def sys_ok_def)
  ultimately show ?thesis using assms effect_ok [OF assms(2)] by (simp add: sys_ok_def)
qed

lemma mutex_ok_frame:
  assumes "mutexes s' = mutexes s" and "\<And>i. tlists s (Wait (Mutex_list i)) = [] \<Longrightarrow> tlists s' (Wait (Mutex_list i)) = []"
    and "\<And>t. th_mask s t \<noteq> 0 \<Longrightarrow> th_mask s' t \<noteq> 0" and m: "mutex_ok s"
  shows "mutex_ok s'"
  unfolding mutex_ok_def
proof
  fix i
  show "let m = mutexes s' i in mx_flag m = RT_IPC_FLAG_PRIO \<and> (case mx_owner m of
        None \<Rightarrow> mx_value m = 1 \<and> mx_hold m = 0 \<and> tlists s' (Wait (Mutex_list i)) = []
      | Some t \<Rightarrow> mx_value m = 0 \<and> mx_hold m > 0 \<and> mx_original_priority m < 32 \<and> th_mask s' t \<noteq> 0)"
    using mutex_ok_D [OF m, of i] assms(1-3) by (auto simp: Let_def split: option.split)
qed

lemma sem_ok_frame:
  assumes "sems s' = sems s" and "\<And>i. tlists s (Wait (Sem_list i)) = [] \<Longrightarrow> tlists s' (Wait (Sem_list i)) = []" and "sem_ok s"
  shows "sem_ok s'"
  using assms by (simp add: sem_ok_def)

lemma block_call:
  assumes k: "kernel_ok s" and c: "rt_current_thread s = Some cur" and r: "th_state s cur = RT_THREAD_RUNNING"
    and i: "able s idle_thread" and b: "may_block s" and w: "may_wait time flag s" "time \<noteq> 0"
  obtains s' where "ipc_block l cur flag time s = Some s'" "effect {cur} s s'" "cur_running s'"
proof -
  have f: "flag = RT_IPC_FLAG_FIFO \<or> flag = RT_IPC_FLAG_PRIO" "\<not> 0 <s time \<or> time < 0x7FFFFFFF"
    using w by (auto simp: may_wait_def)
  obtain s' where s': "ipc_block l cur flag time s = Some s'" using block_total [OF k c r f] .
  obtain s1 s2 where s1: "ipc_list_suspend l cur flag s = Some s1"
    and s2: "(if 0 <s time then start_thread_timer cur time s1 else Some s1) = Some s2" and sch: "rt_schedule s2 = Some s'"
    using s' by (auto simp: ipc_block_def bind_eq_Some_conv)
  have c0: "rt_current_thread s \<noteq> None" using c by simp
  have e1: "effect {cur} s s1" by (rule effect_list_suspend [OF k c0 r s1])
  note v = ipc_suspend_cases [OF k r s1]
  have t1: "th_state s1 cur = RT_THREAD_SUSPEND" using v(2) by simp
  have c1: "rt_current_thread s1 = Some cur" using v(3) c by simp
  have "effect {cur} s1 s2 \<and> rt_current_thread s2 = Some cur \<and> rt_scheduler_lock_nest s2 = rt_scheduler_lock_nest s1"
  proof (cases "0 <s time")
    case True
    then have st: "start_thread_timer cur time s1 = Some s2" and n: "time < 0x7FFFFFFF" using s2 f by auto
    obtain u where u: "start_thread_timer cur time s1 = Some u" "effect {cur} s1 u" "rt_current_thread u = Some cur"
      "rt_scheduler_lock_nest u = rt_scheduler_lock_nest s1" using start_total [OF v(1) t1 n c1] .
    then show ?thesis using st by simp
  next
    case False
    then show ?thesis using s2 effect_refl [OF v(1)] c1 by simp
  qed
  then have e2: "effect {cur} s1 s2" and c2: "rt_current_thread s2 = Some cur"
    and l2: "rt_scheduler_lock_nest s2 = rt_scheduler_lock_nest s" using v(7) by auto
  have e: "effect {cur} s s2" using effect_trans [OF e1 e2] by simp
  have n: "cur \<noteq> idle_thread" using b c by (simp add: may_block_def)
  then have "able s2 idle_thread" using e i by (auto simp: effect_def)
  then have "cur_running s'" using sched_running [OF effect_ok(1) [OF e] c2 sch] n l2 b by (simp add: may_block_def)
  then show ?thesis using that s' effect_block [OF k c r s'] by blast
qed

lemma set_error_effect:
  assumes "kernel_ok s" and "rt_current_thread s \<noteq> None"
  shows "effect T s (th_upd t (\<lambda>th. th\<lparr>th_error := e\<rparr>) s)"
  by (rule th_upd_effect [OF assms]) simp_all

lemma sem_upd_effect: "kernel_ok s \<Longrightarrow> rt_current_thread s \<noteq> None \<Longrightarrow> effect T s (sem_upd i f s)"
  by (rule effect_cong) (simp_all add: timer_keys_def fun_eq_iff)

lemma mx_upd_effect: "kernel_ok s \<Longrightarrow> rt_current_thread s \<noteq> None \<Longrightarrow> effect T s (mx_upd i f s)"
  by (rule effect_cong) (simp_all add: timer_keys_def fun_eq_iff)

lemma ev_upd_effect: "kernel_ok s \<Longrightarrow> rt_current_thread s \<noteq> None \<Longrightarrow> effect T s (ev_upd i f s)"
  by (rule effect_cong) (simp_all add: timer_keys_def fun_eq_iff)

lemma upd_views [simp]:
  "able (sem_upd i f s) = able s" "ev_info (sem_upd i f s) = ev_info s" "cur_running (sem_upd i f s) = cur_running s"
  "events (sem_upd i f s) = events s"
  "able (mx_upd i g s) = able s" "ev_info (mx_upd i g s) = ev_info s" "cur_running (mx_upd i g s) = cur_running s"
  "events (mx_upd i g s) = events s" "cur_running (ev_upd i h s) = cur_running s"
  by (simp_all add: able_def ev_info_def cur_running_def fun_eq_iff) (simp_all add: sem_upd_def mx_upd_def)

lemma error_views [simp]:
  "able (th_upd t (\<lambda>th. th\<lparr>th_error := e\<rparr>) s) = able s"
  "cur_running (th_upd t (\<lambda>th. th\<lparr>th_error := e\<rparr>) s) = cur_running s"
  "ev_info (th_upd t (\<lambda>th. th\<lparr>th_error := e\<rparr>) s) = ev_info s"
  by (simp_all add: able_def cur_running_def fun_eq_iff ev_info_set_error)

lemma call_sem_take:
  assumes s: "sys_ok s" and a: "allowed (Sem_take i time) s"
  shows "call_ok (Sem_take i time) s"
proof -
  obtain cur where c: "rt_current_thread s = Some cur" "th_state s cur = RT_THREAD_RUNNING" "kernel_ok s" using sys_running [OF s] .
  have ok: "sem_ok s" "mutex_ok s" "event_ok s" "able s idle_thread" using s by (simp_all add: sys_ok_def)
  have c0: "rt_current_thread s \<noteq> None" using c by simp
  have "\<exists>e s'. rt_sem_take i time s = Some (e, s') \<and> effect {cur} s s' \<and> cur_running s' \<and> mutexes s' = mutexes s \<and> events s' = events s \<and>
    ev_info s' = ev_info s \<and> (\<forall>m. m \<noteq> Sem_list i \<longrightarrow> tlists s' (Wait m) = tlists s (Wait m)) \<and> (cur \<noteq> idle_thread \<or> able s' idle_thread)"
  proof (cases "sem_value (sems s i) > 0 \<or> time = 0")
    case True
    consider (now) "sem_value (sems s i) > 0" | (no) "\<not> sem_value (sems s i) > 0" "time = 0" using True by blast
    then show ?thesis
    proof cases
      case now
      let ?u = "sem_upd i (\<lambda>m. m\<lparr>sem_value := sem_value m - 1\<rparr>) s"
      have "rt_sem_take i time s = Some (Some RT_EOK, ?u)" using now by (simp add: rt_sem_take_def)
      then show ?thesis using s ok(4) sem_upd_effect [OF c(3) c0, of "{cur}" i] by (simp add: sys_ok_def)
    next
      case no
      then have "rt_sem_take i time s = Some (Some (- RT_ETIMEOUT), s)" by (simp add: rt_sem_take_def)
      then show ?thesis using s ok(4) effect_refl [OF c(3) c0] by (simp add: sys_ok_def)
    qed
  next
    case False
    let ?u = "th_upd cur (\<lambda>th. th\<lparr>th_error := RT_EOK\<rparr>) s"
    have w: "may_wait time (sem_flag (sems s i)) s" "time \<noteq> 0" and b: "may_block s" using a False by (auto simp: may_wait_def)
    have eu: "effect {} s ?u" by (rule set_error_effect [OF c(3) c0])
    have u: "kernel_ok ?u" "rt_current_thread ?u = Some cur" "th_state ?u cur = RT_THREAD_RUNNING" "able ?u idle_thread"
      using effect_ok [OF eu] c ok(4) by (simp_all add: able_def)
    obtain s' where s': "ipc_block (Sem_list i) cur (sem_flag (sems s i)) time ?u = Some s'" "effect {cur} ?u s'" "cur_running s'"
      using block_call [OF u _ _ w(2)] w b by (auto simp: may_wait_def may_block_def)
    have take: "rt_sem_take i time s = Some (None, s')" using False c s'(1) by (simp add: rt_sem_take_def Let_def)
    note bo = block_ok [OF u(1-3) s'(1)]
    have ev: "ev_info s' = ev_info s" using ev_info_block [OF s'(1)] by (simp add: ev_info_set_error)
    have e: "effect {cur} s s'" using effect_trans [OF eu s'(2)] by simp
    show ?thesis
      using take e s'(3) mutex_views_more [OF bo(4)] ev bo(6) b c by (simp add: may_block_def)
  qed
  then obtain e s' where p: "rt_sem_take i time s = Some (e, s')" "effect {cur} s s'" "cur_running s'" "mutexes s' = mutexes s"
    "events s' = events s" "ev_info s' = ev_info s" "\<And>m. m \<noteq> Sem_list i \<Longrightarrow> tlists s' (Wait m) = tlists s (Wait m)"
    "cur \<noteq> idle_thread \<or> able s' idle_thread" by blast
  have "mutex_ok s'" by (rule mutex_ok_frame [OF p(4) _ _ ok(2)]) (use p(2,7) in \<open>simp_all add: effect_def\<close>)
  moreover have "event_ok s'" by (rule event_ok_frame [OF _ p(6,5) ok(3)]) (use p(7) in simp)
  ultimately have "sys_ok s'"
    using sys_ok_ipc [OF s p(2,3)] p(8) sem_take_ok(2) [OF c(3) ok(1) c(1,2) p(1)] by simp
  then show ?thesis using call_okI [of "Sem_take i time" s s'] p(1,2) c(1) by simp
qed

lemma wake_call:
  assumes k: "kernel_ok s" and c: "rt_current_thread s = Some cur" and r: "th_state s cur = RT_THREAD_RUNNING"
    and l: "tlists s (Wait l) = u # us"
  obtains s1 s' where "ipc_list_resume l s = Some s1" "rt_schedule s1 = Some s'" "effect {u} s s'" "calm s s'" "cur_running s'"
    "\<And>x. able s x \<Longrightarrow> able s' x"
proof -
  let ?r = "snd (rt_thread_resume u s)"
  have c0: "rt_current_thread s \<noteq> None" using c by simp
  have res: "ipc_list_resume l s = Some ?r" using ipc_list_resume_eq(1) [OF k l] .
  note rr = running_resume [OF k c r, of u]
  have kr: "kernel_ok ?r" using kernel_ok_resume [OF k] .
  then have wr: "kernel_wf ?r" by (simp add: kernel_ok_def)
  obtain s' where s': "rt_schedule ?r = Some s'" using schedule_total [OF wr rr(1)] .
  have "effect {u} s s'" using effect_trans [OF effect_resume [OF k c0] effect_schedule [OF kr rr(1) s', of "{}"]] by simp
  moreover have "able s' x" if "able s x" for x
    using schedule_able(1) [OF wr rr(1) s', of x] able_resume [OF that] by simp
  ultimately show ?thesis
    using that [OF res s' _ calm_trans [OF calm_resume calm_schedule [OF s']] schedule_running [OF wr rr(1) s' rr(2)]] by blast
qed

lemma call_sem_release:
  assumes s: "sys_ok s"
  shows "call_ok (Sem_release i) s"
proof -
  obtain cur where c: "rt_current_thread s = Some cur" "th_state s cur = RT_THREAD_RUNNING" "kernel_ok s" using sys_running [OF s] .
  have ok: "sem_ok s" "mutex_ok s" "event_ok s" "able s idle_thread" using s by (simp_all add: sys_ok_def)
  have c0: "rt_current_thread s \<noteq> None" using c by simp
  show ?thesis
  proof (cases "tlists s (Wait (Sem_list i))")
    case (Cons u us)
    obtain s1 s' where p: "ipc_list_resume (Sem_list i) s = Some s1" "rt_schedule s1 = Some s'" "effect {u} s s'" "calm s s'"
      "cur_running s'" "\<And>x. able s x \<Longrightarrow> able s' x" using wake_call [OF c(3,1,2) Cons] by blast
    have "sys_ok s'" using sys_ok_calm [OF s p(3-5)] p(6) ok(4) by blast
    moreover have "effect (set (tlists s (Wait (Sem_list i)))) s s'" using effect_more [OF p(3)] Cons by simp
    ultimately show ?thesis using call_okI [of "Sem_release i" s s'] p(1,2) Cons by (simp add: rt_sem_release_def)
  next
    case Nil
    show ?thesis
    proof (cases "sem_value (sems s i) < 0xFFFF")
      case True
      let ?u = "sem_upd i (\<lambda>m. m\<lparr>sem_value := sem_value m + 1\<rparr>) s"
      have d: "rt_sem_release i s = Some (RT_EOK, ?u)" using Nil True by (simp add: rt_sem_release_def)
      have e: "effect {} s ?u" by (rule sem_upd_effect [OF c(3) c0])
      have "mutex_ok ?u" by (rule mutex_ok_frame [OF _ _ _ ok(2)]) simp_all
      moreover have "event_ok ?u" by (rule event_ok_frame [OF _ _ _ ok(3)]) simp_all
      ultimately have "sys_ok ?u"
        using sys_ok_ipc [OF s e] s sem_release_ok(2) [OF c(3) ok(1) c(1) d] by (simp add: sys_ok_def)
      then show ?thesis using call_okI [of "Sem_release i" s ?u] d e Nil by simp
    next
      case False
      then have "rt_sem_release i s = Some (- RT_EFULL, s)" using Nil by (simp add: rt_sem_release_def)
      then show ?thesis using call_okI [of "Sem_release i" s s] s effect_refl [OF c(3) c0] by simp
    qed
  qed
qed

text \<open>Priority inheritance touches no thread but for its priority.\<close>

lemma change_priority_effect:
  assumes k: "kernel_ok s" and c: "rt_current_thread s \<noteq> None" and p: "p < 32" and m: "th_mask s t \<noteq> 0"
  shows "effect {} s (change_priority t p s)" and "calm s (change_priority t p s)"
proof -
  have w: "kernel_wf s" using k by (simp add: kernel_ok_def)
  let ?u = "change_priority t p s"
  note v = change_priority_views [OF w, of t p]
  have ku: "kernel_ok ?u" using kernel_ok_change_priority [OF k p m] .
  have "ev_info (th_upd t (\<lambda>th. th\<lparr>th_current_priority := p, th_number_mask := prio_mask p\<rparr>) x) = ev_info x"
    for x :: "'a kernel_scheme" by (rule ev_info_upd) simp_all
  then have ev: "ev_info ?u = ev_info s" by (simp add: change_priority_def Let_def)
  have keys: "timer_keys ?u = timer_keys s" using v(8) by (auto simp: timer_keys_def)
  have "hard_ready b ?u = hard_ready b s" for b by (rule hard_ready_cong [OF v(7) keys])
  then show "effect {} s ?u"
    using ku v keys change_priority_wait [OF w] c prio_mask_nonzero [OF p]
    by (auto simp: effect_def able_def same_thread_def)
  show "calm s ?u" using v(6) ev by (simp add: calm_def)
qed

lemma call_change_priority:
  assumes s: "sys_ok s" and a: "allowed (Change_priority t p) s"
  shows "call_ok (Change_priority t p) s"
proof -
  obtain cur where c: "rt_current_thread s = Some cur" "th_state s cur = RT_THREAD_RUNNING" "kernel_ok s" "kernel_wf s"
    using sys_running [OF s] .
  have p: "p < 32" and m: "th_mask s t \<noteq> 0" and c0: "rt_current_thread s \<noteq> None" using a c by simp_all
  note e = change_priority_effect [OF c(3) c0 p m]
  have "cur_running (change_priority t p s)" using change_priority_views(1,4) [OF c(4), of t p] c by (simp add: cur_running_def)
  then have "sys_ok (change_priority t p s)" using sys_ok_calm [OF s e] by simp
  then show ?thesis by (intro call_okI) (use e in simp_all)
qed

lemma boost_effect:
  assumes k: "kernel_ok s" and c: "rt_current_thread s \<noteq> None" and t: "th_mask s t \<noteq> 0" and w: "th_mask s w \<noteq> 0"
  shows "effect {} s (boost t w s)" and "calm s (boost t w s)"
  using change_priority_effect [OF k c kernel_wf_prio8 [OF _ t] w] k effect_refl [OF k c] by (simp_all add: boost_def kernel_ok_def)

lemma unboost_effect:
  assumes "kernel_ok s" and "rt_current_thread s \<noteq> None" and "orig < 32" and "th_mask s t \<noteq> 0"
  shows "effect {} s (unboost t orig s)" and "calm s (unboost t orig s)"
  using change_priority_effect [OF assms] effect_refl [OF assms(1,2)] by (simp_all add: unboost_def)

lemma mutex_blocks:
  assumes s: "sys_ok s" and c: "rt_current_thread s = Some cur" and o: "mx_owner (mutexes s i) = Some w" and b: "may_block s"
    and wt: "may_wait time RT_IPC_FLAG_PRIO s" "time \<noteq> 0"
  obtains s' where "ipc_block (Mutex_list i) cur RT_IPC_FLAG_PRIO time (boost cur w (th_upd cur (\<lambda>th. th\<lparr>th_error := RT_EOK\<rparr>) s)) = Some s'"
    "effect {cur} s s'" "cur_running s'" "ev_info s' = ev_info s" "sems s' = sems s" "events s' = events s"
    "\<And>m. m \<noteq> Mutex_list i \<Longrightarrow> tlists s' (Wait m) = tlists s (Wait m)"
proof -
  let ?u = "th_upd cur (\<lambda>th. th\<lparr>th_error := RT_EOK\<rparr>) s" and ?v = "boost cur w (th_upd cur (\<lambda>th. th\<lparr>th_error := RT_EOK\<rparr>) s)"
  have k: "kernel_ok s" and r: "th_state s cur = RT_THREAD_RUNNING" using s c by (auto simp: sys_ok_def cur_running_def)
  have c0: "rt_current_thread s \<noteq> None" using c by simp
  have eu: "effect {} s ?u" by (rule set_error_effect [OF k c0])
  have ku: "kernel_ok ?u" and cu: "rt_current_thread ?u \<noteq> None" using effect_ok [OF eu] .
  have m: "th_mask ?u cur \<noteq> 0" "th_mask ?u w \<noteq> 0"
    using kernel_wf_mask [of s cur] k r mutex_ok_D(3) [OF _ o] s by (simp_all add: kernel_ok_def sys_ok_def)
  note be = boost_effect [OF ku cu m] and bo = boost_ok [OF ku m]
  have v: "rt_current_thread ?v = Some cur" "th_state ?v cur = RT_THREAD_RUNNING" "able ?v idle_thread" "may_block ?v"
    "may_wait time RT_IPC_FLAG_PRIO ?v"
    using bo c r s b wt by (simp_all add: able_def sys_ok_def may_block_def may_wait_def)
  obtain s' where s': "ipc_block (Mutex_list i) cur RT_IPC_FLAG_PRIO time ?v = Some s'" "effect {cur} ?v s'" "cur_running s'"
    using block_call [OF bo(1) v wt(2)] .
  note o = block_ok [OF bo(1) v(1,2) s'(1)]
  have mm: "kernel.more s' = kernel.more s" using o(4) bo(5) by (simp add: th_upd_def)
  have ev: "ev_info s' = ev_info s" using ev_info_block [OF s'(1)] be(2) by (simp add: calm_def ev_info_set_error)
  have e: "effect {cur} s s'" using effect_trans [OF effect_trans [OF eu be(1)] s'(2)] by simp
  show ?thesis
    by (rule that [OF s'(1) e s'(3) ev mutex_views_more(1,3) [OF mm]])
      (use o(6) boost_wait [of ?u cur w] ku in \<open>simp add: kernel_ok_def\<close>)
qed

lemma call_mutex_take:
  assumes s: "sys_ok s" and a: "allowed (Mutex_take i time) s"
  shows "call_ok (Mutex_take i time) s"
proof -
  obtain cur where c: "rt_current_thread s = Some cur" "th_state s cur = RT_THREAD_RUNNING" "kernel_ok s" using sys_running [OF s] .
  have ok: "sem_ok s" "mutex_ok s" "event_ok s" "able s idle_thread" "cur_running s" using s by (simp_all add: sys_ok_def)
  have c0: "rt_current_thread s \<noteq> None" using c by simp
  note eq = mutex_take_eq [OF ok(2) c(1), of i time]
  let ?u = "th_upd cur (\<lambda>th. th\<lparr>th_error := RT_EOK\<rparr>) s"
  have eu: "effect {cur} s ?u" by (rule set_error_effect [OF c(3) c0])
  have ku: "kernel_ok ?u" and cu: "rt_current_thread ?u \<noteq> None" using effect_ok [OF eu] .
  have mxe: "effect {cur} s (mx_upd i f ?u)" for f using effect_trans [OF eu mx_upd_effect [OF ku cu, of "{}"]] by simp
  have "\<exists>e s'. rt_mutex_take i time s = Some (e, s') \<and> effect {cur} s s' \<and> cur_running s' \<and> events s' = events s \<and>
    ev_info s' = ev_info s \<and> (\<forall>m. m \<noteq> Mutex_list i \<longrightarrow> tlists s' (Wait m) = tlists s (Wait m)) \<and> (cur \<noteq> idle_thread \<or> able s' idle_thread)"
  proof (cases "mx_owner (mutexes s i)")
    case None
    then show ?thesis using eq mxe ok(4,5) by simp
  next
    case (Some w)
    consider (own) "w = cur" | (busy) "w \<noteq> cur" "time = 0" | (block) "w \<noteq> cur" "time \<noteq> 0" by blast
    then show ?thesis
    proof cases
      case own
      then show ?thesis using eq Some mxe eu ok(4,5) by (cases "mx_hold (mutexes s i) < 0xFF") simp_all
    next
      case busy
      have "effect {cur} s (th_upd cur (\<lambda>th. th\<lparr>th_error := - RT_ETIMEOUT\<rparr>) ?u)"
        using effect_trans [OF eu set_error_effect [OF ku cu, of "{}"]] by simp
      then show ?thesis using eq Some busy ok(4,5) by simp
    next
      case block
      have b: "may_block s" "may_wait time RT_IPC_FLAG_PRIO s"
        using a block mutex_ok_D(1) [OF ok(2), of i] by (auto simp: may_wait_def)
      obtain s' where s': "ipc_block (Mutex_list i) cur RT_IPC_FLAG_PRIO time (boost cur w ?u) = Some s'" "effect {cur} s s'"
        "cur_running s'" "ev_info s' = ev_info s" "events s' = events s"
        "\<And>m. m \<noteq> Mutex_list i \<Longrightarrow> tlists s' (Wait m) = tlists s (Wait m)"
        using mutex_blocks [OF s c(1) Some b block(2)] by blast
      then show ?thesis using eq Some block b(1) c(1) by (simp add: may_block_def)
    qed
  qed
  then obtain e s' where p: "rt_mutex_take i time s = Some (e, s')" "effect {cur} s s'" "cur_running s'" "events s' = events s"
    "ev_info s' = ev_info s" "\<And>m. m \<noteq> Mutex_list i \<Longrightarrow> tlists s' (Wait m) = tlists s (Wait m)"
    "cur \<noteq> idle_thread \<or> able s' idle_thread" by blast
  note m = mutex_take_ok [OF c(3) ok(2) c(1,2) p(1)]
  have "sem_ok s'" by (rule sem_ok_frame [OF m(4) _ ok(1)]) (use p(6) in simp)
  moreover have "event_ok s'" by (rule event_ok_frame [OF _ p(5,4) ok(3)]) (use p(6) in simp)
  ultimately have "sys_ok s'" using sys_ok_ipc [OF s p(2,3)] p(7) m(2) by simp
  then show ?thesis using call_okI [of "Mutex_take i time" s s'] p(1,2) c(1) by simp
qed

lemma released_effect:
  assumes k: "kernel_ok s" and c: "rt_current_thread s \<noteq> None" and m: "mutex_ok s" and o: "mx_owner (mutexes s i) = Some t"
  shows "effect {} s (set_free i t s)" and "effect {} s (hand_over i t u s)"
    and "ev_info (set_free i t s) = ev_info s" and "ev_info (hand_over i t u s) = ev_info s"
    and "events (set_free i t s) = events s" and "events (hand_over i t u s) = events s"
    and "th_state (set_free i t s) = th_state s" and "th_state (hand_over i t u s) = th_state s"
proof -
  let ?a = "mx_upd i (\<lambda>m. m\<lparr>mx_hold := 0\<rparr>) s" and ?orig = "mx_original_priority (mutexes s i)"
  let ?b = "unboost t ?orig ?a"
  have ea: "effect {} s ?a" by (rule mx_upd_effect [OF k c])
  have ka: "kernel_ok ?a" and ca: "rt_current_thread ?a \<noteq> None" using effect_ok [OF ea] .
  have p: "?orig < 32" "th_mask ?a t \<noteq> 0" using mutex_ok_D(3) [OF m o] by simp_all
  note b = unboost_effect [OF ka ca p]
  have kb: "kernel_ok ?b" and cb: "rt_current_thread ?b \<noteq> None" using effect_ok [OF b(1)] .
  have e: "effect {} s (mx_upd i f ?b)" for f
    using effect_trans [OF effect_trans [OF ea b(1)] mx_upd_effect [OF kb cb, of "{}"]] by simp
  have ev: "ev_info ?b = ev_info s" "events ?b = events s" using b(2) quiet_sems(3) [of ?a ?b] by (simp_all add: calm_def)
  have st: "th_state ?b = th_state s" using unboost_ok(2) [OF ka p(2,1)] by simp
  show "effect {} s (set_free i t s)" "effect {} s (hand_over i t u s)" "ev_info (set_free i t s) = ev_info s"
    "ev_info (hand_over i t u s) = ev_info s" "events (set_free i t s) = events s" "events (hand_over i t u s) = events s"
    "th_state (set_free i t s) = th_state s" "th_state (hand_over i t u s) = th_state s"
    using e ev st by (simp_all add: set_free_def hand_over_def Let_def)
qed

lemma mutex_release_lists:
  assumes k: "kernel_ok s" and m: "mutex_ok s" and c: "rt_current_thread s = Some t" and s: "rt_mutex_release i s = Some (e, s')"
  shows "set (tlists s' (Wait l)) \<subseteq> set (tlists s (Wait l))"
proof (cases "mx_owner (mutexes s i) = Some t")
  case False
  then show ?thesis using s c by (auto simp: rt_mutex_release_def)
next
  case o: True
  note eq = mutex_release_eq [OF k m c o] and st = release_steps [OF k m o]
  show ?thesis
  proof (cases "mx_hold (mutexes s i) \<noteq> 1")
    case True
    then show ?thesis using s eq by auto
  next
    case h: False
    show ?thesis
    proof (cases "tlists s (Wait (Mutex_list i))")
      case Nil
      then show ?thesis using s eq h st(5) by auto
    next
      case (Cons u us)
      then have r: "Option.bind (ipc_list_resume (Mutex_list i) (hand_over i t u s)) (\<lambda>s. map_option (Pair RT_EOK) (rt_schedule s)) = Some (e, s')"
        using s eq h by simp
      have "quiet (hand_over i t u s) s'" using wake_first(6) [OF st(8) _ _ r] st(9,12) Cons c by metis
      then show ?thesis using st(12) by (auto simp: quiet_def)
    qed
  qed
qed

lemma call_mutex_release:
  assumes s: "sys_ok s"
  shows "call_ok (Mutex_release i) s"
proof -
  obtain cur where c: "rt_current_thread s = Some cur" "th_state s cur = RT_THREAD_RUNNING" "kernel_ok s" using sys_running [OF s] .
  have ok: "sem_ok s" "mutex_ok s" "event_ok s" "able s idle_thread" "cur_running s" using s by (simp_all add: sys_ok_def)
  have c0: "rt_current_thread s \<noteq> None" using c by simp
  let ?W = "set (tlists s (Wait (Mutex_list i)))"
  have "\<exists>e s'. rt_mutex_release i s = Some (e, s') \<and> effect ?W s s' \<and> cur_running s' \<and> events s' = events s \<and>
    ev_info s' = ev_info s \<and> able s' idle_thread"
  proof (cases "mx_owner (mutexes s i) = Some cur")
    case False
    let ?u = "th_upd cur (\<lambda>th. th\<lparr>th_error := - RT_ERROR\<rparr>) s"
    have "rt_mutex_release i s = Some (- RT_ERROR, ?u)" using False c by (simp add: rt_mutex_release_def)
    then show ?thesis using set_error_effect [OF c(3) c0, of ?W cur] ok(4,5) by simp
  next
    case o: True
    note eq = mutex_release_eq [OF c(3) ok(2) c(1) o] and rel = released_effect [OF c(3) c0 ok(2) o]
      and st = release_steps [OF c(3) ok(2) o]
    consider (more) "mx_hold (mutexes s i) \<noteq> 1" | (free) "mx_hold (mutexes s i) = 1" "tlists s (Wait (Mutex_list i)) = []"
      | (wake) u us where "mx_hold (mutexes s i) = 1" "tlists s (Wait (Mutex_list i)) = u # us"
      by (cases "tlists s (Wait (Mutex_list i))") blast+
    then show ?thesis
    proof cases
      case more
      then show ?thesis using eq mx_upd_effect [OF c(3) c0, of ?W i] ok(4,5) by simp
    next
      case free
      then show ?thesis
        using eq rel(1,3,5,7) ok(4,5) st(2) by (simp add: able_def cur_running_def)
    next
      case wake
      let ?h = "hand_over i cur u s"
      have h: "rt_current_thread ?h = Some cur" "th_state ?h cur = RT_THREAD_RUNNING" "tlists ?h (Wait (Mutex_list i)) = u # us"
        using st(9,12) rel(8) c wake by simp_all
      obtain s1 s' where p: "ipc_list_resume (Mutex_list i) ?h = Some s1" "rt_schedule s1 = Some s'" "effect {u} ?h s'"
        "calm ?h s'" "cur_running s'" "\<And>x. able ?h x \<Longrightarrow> able s' x" using wake_call [OF st(8) h] by blast
      have "effect ?W s s'" by (rule effect_more [OF effect_trans [OF rel(2) p(3)]]) (use wake in auto)
      moreover have "ev_info s' = ev_info s" "events s' = events s"
        using p(4) rel(4,6) quiet_sems(3) [of ?h s'] by (simp_all add: calm_def)
      moreover have "able s' idle_thread" using p(6) ok(4) rel(8) by (simp add: able_def)
      ultimately show ?thesis using eq wake p(1,2,5) by simp
    qed
  qed
  then obtain e s' where p: "rt_mutex_release i s = Some (e, s')" "effect ?W s s'" "cur_running s'" "events s' = events s"
    "ev_info s' = ev_info s" "able s' idle_thread" by blast
  note m = mutex_release_ok [OF c(3) ok(2) c(1) p(1)]
  have sub: "set (tlists s' (Wait l)) \<subseteq> set (tlists s (Wait l))" for l by (rule mutex_release_lists [OF c(3) ok(2) c(1) p(1)])
  have "sem_ok s'" by (rule sem_ok_frame [OF m(4) _ ok(1)]) (use m(5) in simp)
  moreover have "event_ok s'" by (rule event_ok_frame [OF sub p(5,4) ok(3)])
  ultimately have "sys_ok s'" using sys_ok_ipc [OF s p(2,3)] p(6) m(2) by simp
  then show ?thesis using call_okI [of "Mutex_release i" s s'] p(1,2) by simp
qed

lemma set_event_effect:
  assumes "kernel_ok s" and "rt_current_thread s \<noteq> None"
  shows "effect T s (th_upd t (\<lambda>th. th\<lparr>th_event_set := a\<rparr>) s)"
    and "effect T s (th_upd t (\<lambda>th. th\<lparr>th_event_set := a, th_event_info := b\<rparr>) s)"
  by (rule th_upd_effect [OF assms]; simp)+

lemma give_effect:
  assumes k: "kernel_ok s" and c: "rt_current_thread s = Some cur" and r: "th_state s cur = RT_THREAD_RUNNING"
  shows "effect {t} s (event_give i t got s)" and "rt_current_thread (event_give i t got s) = Some cur"
    and "th_state (event_give i t got s) cur = RT_THREAD_RUNNING" and "able s x \<Longrightarrow> able (event_give i t got s) x"
proof -
  let ?u = "th_upd t (\<lambda>th. th\<lparr>th_event_set := got\<rparr>) s"
  let ?v = "if th_event_info (rt_threads ?u t) AND RT_EVENT_FLAG_CLEAR \<noteq> 0
      then ev_upd i (\<lambda>e. e\<lparr>ev_set := ev_set e AND NOT got\<rparr>) ?u else ?u"
  have g: "event_give i t got s = snd (rt_thread_resume t ?v)" by (simp add: event_give_def)
  have c0: "rt_current_thread s \<noteq> None" using c by simp
  have eu: "effect {} s ?u" by (rule set_event_effect [OF k c0])
  note ou = effect_ok [OF eu]
  have ev: "effect {} s ?v" using effect_trans [OF eu ev_upd_effect [OF ou, of "{}"]] eu by simp
  note ov = effect_ok [OF ev]
  have st: "th_state ?v = th_state s" by (auto simp: th_views_upd) (auto simp: th_state_def)
  have cv: "rt_current_thread ?v = Some cur" "th_state ?v cur = RT_THREAD_RUNNING" using c r st by simp_all
  show "effect {t} s (event_give i t got s)" unfolding g using effect_trans [OF ev effect_resume [OF ov, of t]] by simp
  show "rt_current_thread (event_give i t got s) = Some cur" "th_state (event_give i t got s) cur = RT_THREAD_RUNNING"
    unfolding g using running_resume [OF ov(1) cv] by simp_all
  show "able (event_give i t got s) x" if "able s x"
    unfolding g by (rule able_resume) (use that st in \<open>simp add: able_def\<close>)
qed

lemma walk_effect:
  assumes "event_walk i ts need s = (r, s')" and "kernel_ok s" and "rt_current_thread s = Some cur"
    and "th_state s cur = RT_THREAD_RUNNING"
  shows "effect (set ts) s s' \<and> rt_current_thread s' = Some cur \<and> th_state s' cur = RT_THREAD_RUNNING \<and> (\<forall>x. able s x \<longrightarrow> able s' x)"
  using assms
proof (induction ts arbitrary: s need)
  case Nil
  then show ?case using effect_refl [of s "{}"] by auto
next
  case (Cons t ts)
  show ?case
  proof (cases "event_match (th_event_info (rt_threads s t)) (th_event_set (rt_threads s t)) (ev_set (events s i))")
    case None
    then show ?thesis using Cons.prems effect_refl [of s] by auto
  next
    case (Some m)
    show ?thesis
    proof (cases m)
      case None
      then have "event_walk i ts need s = (r, s')" using Cons.prems(1) Some by simp
      from Cons.IH [OF this Cons.prems(2-4)] show ?thesis using effect_more [of "set ts" s s' "set (t # ts)"] by auto
    next
      case (Some got)
      let ?g = "event_give i t got s"
      note g = give_effect [OF Cons.prems(2-4), where i = i and t = t and got = got]
      have "event_walk i ts True ?g = (r, s')" using Cons.prems(1) \<open>_ = Some m\<close> Some by simp
      from Cons.IH [OF this effect_ok(1) [OF g(1)] g(2,3)]
      show ?thesis using effect_trans [OF g(1)] g(4) by auto
    qed
  qed
qed

lemma call_event_send:
  assumes s: "sys_ok s"
  shows "call_ok (Event_send i bits) s"
proof (cases "bits = 0")
  case True
  obtain cur where c: "rt_current_thread s = Some cur" "kernel_ok s" using sys_running [OF s] .
  have "do_call (Event_send i bits) s = Some s" using True by (simp add: rt_event_send_def)
  then show ?thesis using call_okI [of "Event_send i bits" s s] s effect_refl [OF c(2)] c(1) by simp
next
  case b: False
  obtain cur where c: "rt_current_thread s = Some cur" "th_state s cur = RT_THREAD_RUNNING" "kernel_ok s" using sys_running [OF s] .
  have ok: "sem_ok s" "mutex_ok s" "event_ok s" "able s idle_thread" using s by (simp_all add: sys_ok_def)
  have c0: "rt_current_thread s \<noteq> None" using c by simp
  let ?u = "ev_upd i (\<lambda>e. e\<lparr>ev_set := ev_set e OR bits\<rparr>) s" and ?W = "set (tlists s (Wait (Event_list i)))"
  obtain s' where s': "rt_event_send i bits s = Some (RT_EOK, s')" "event_ok s'" "sems s' = sems s" "mutexes s' = mutexes s"
    "th_mask s' = th_mask s" "\<And>m. set (tlists s' (Wait m)) \<subseteq> set (tlists s (Wait m))"
    using event_send_ok [OF c(3) ok(3) c(1) b, of i] by metis
  have eu: "effect {} s ?u" by (rule ev_upd_effect [OF c(3) c0])
  obtain r v where w: "event_walk i (tlists s (Wait (Event_list i))) False ?u = (r, v)" by fastforce
  have v: "effect ?W ?u v" "rt_current_thread v = Some cur" "th_state v cur = RT_THREAD_RUNNING" "\<And>x. able ?u x \<Longrightarrow> able v x"
    using walk_effect [OF w] effect_ok(1) [OF eu] c by simp_all
  have kv: "kernel_ok v" "kernel_wf v" using effect_ok(1) [OF v(1)] by (simp_all add: kernel_ok_def)
  have e: "effect ?W s v" using effect_trans [OF eu v(1)] by simp
  have "r = Some True \<and> rt_schedule v = Some s' \<or> s' = v"
    using s'(1) b w by (auto simp: rt_event_send_def Let_def bind_eq_Some_conv split: option.splits bool.splits)
  then have "effect ?W s s' \<and> cur_running s' \<and> able s' idle_thread"
  proof
    assume "s' = v"
    then show ?thesis using e v ok(4) by (simp add: cur_running_def)
  next
    assume "r = Some True \<and> rt_schedule v = Some s'"
    then have sch: "rt_schedule v = Some s'" by simp
    show ?thesis
      using effect_trans [OF e effect_schedule [OF kv(1) v(2) sch, of "{}"]] schedule_running [OF kv(2) v(2) sch v(3)]
        schedule_able(1) [OF kv(2) v(2) sch] v(4) [of idle_thread] ok(4) by simp
  qed
  then have p: "effect ?W s s'" "cur_running s'" "able s' idle_thread" by auto
  have sub: "tlists s' (Wait m) = []" if "tlists s (Wait m) = []" for m using s'(6) [of m] that by simp
  have "sem_ok s'" by (rule sem_ok_frame [OF s'(3) _ ok(1)]) (rule sub)
  moreover have "mutex_ok s'" by (rule mutex_ok_frame [OF s'(4) _ _ ok(2)]) (use sub s'(5) in simp_all)
  ultimately have "sys_ok s'" using sys_ok_ipc [OF s p(1,2)] p(3) s'(2) by simp
  then show ?thesis using call_okI [of "Event_send i bits" s s'] s'(1) p(1) by simp
qed

lemma call_event_recv:
  assumes s: "sys_ok s" and a: "allowed (Event_recv i bits opt time) s"
  shows "call_ok (Event_recv i bits opt time) s"
proof (cases "bits = 0")
  case True
  obtain cur where c: "rt_current_thread s = Some cur" "kernel_ok s" using sys_running [OF s] .
  have "do_call (Event_recv i bits opt time) s = Some s" using True by (simp add: rt_event_recv_def)
  then show ?thesis using call_okI [of "Event_recv i bits opt time" s s] s effect_refl [OF c(2)] c(1) by simp
next
  case b: False
  obtain cur where c: "rt_current_thread s = Some cur" "th_state s cur = RT_THREAD_RUNNING" "kernel_ok s" using sys_running [OF s] .
  have ok: "sem_ok s" "mutex_ok s" "event_ok s" "able s idle_thread" "cur_running s" using s by (simp_all add: sys_ok_def)
  have c0: "rt_current_thread s \<noteq> None" using c by simp
  note eq = event_recv_eq [OF b c(1), of i opt time]
  let ?u = "th_upd cur (\<lambda>th. th\<lparr>th_error := RT_EOK\<rparr>) s"
  have eu: "effect {} s ?u" by (rule set_error_effect [OF c(3) c0])
  note ou = effect_ok [OF eu]
  have ei: "effect {cur} s (th_upd cur (\<lambda>th. th\<lparr>th_event_set := x, th_event_info := y\<rparr>) ?u)" for x y
    using effect_trans [OF eu set_event_effect(2) [OF ou, of "{cur}"]] by simp
  have st: "th_state (th_upd cur (\<lambda>th. th\<lparr>th_event_set := x, th_event_info := y\<rparr>) ?u) = th_state s" for x y
    using set_event_info(1) [where t = cur and a = x and b = y and z = ?u] by simp
  obtain g where g: "event_match opt bits (ev_set (events s i)) = Some g"
    using a b by (auto simp: event_match_def split: if_splits)
  have "\<exists>e s'. rt_event_recv i bits opt time s = Some (e, s') \<and> effect {cur} s s' \<and> cur_running s' \<and> (cur \<noteq> idle_thread \<or> able s' idle_thread)"
  proof (cases g)
    case (Some got)
    let ?v = "th_upd cur (\<lambda>th. th\<lparr>th_event_set := got, th_event_info := opt\<rparr>) ?u"
    have ev: "effect {cur} s (ev_upd i f ?v)" for f
      using effect_trans [OF ei ev_upd_effect [OF effect_ok [OF ei], of "{}"]] by simp
    have v: "able ?v idle_thread" "cur_running ?v" using st [of opt got] ok(4) c by (simp_all add: able_def cur_running_def)
    have fin: ?thesis if "rt_event_recv i bits opt time s = Some (e, w)" "effect {cur} s w" "cur_running w" "able w idle_thread" for e w
      using that by blast
    show ?thesis
    proof (cases "opt AND RT_EVENT_FLAG_CLEAR = 0")
      case True
      show ?thesis by (rule fin [OF _ ei v(2,1)]) (use eq g Some True in \<open>simp add: Let_def\<close>)
    next
      case False
      show ?thesis by (rule fin [OF _ ev]) (use eq g Some False v in \<open>simp_all add: Let_def\<close>)
    qed
  next
    case None
    show ?thesis
    proof (cases "time = 0")
      case True
      have "effect {cur} s (th_upd cur (\<lambda>th. th\<lparr>th_error := - RT_ETIMEOUT\<rparr>) ?u)"
        using effect_trans [OF eu set_error_effect [OF ou, of "{cur}"]] by simp
      then show ?thesis using eq g None True ok(4,5) by simp
    next
      case False
      let ?v = "th_upd cur (\<lambda>th. th\<lparr>th_event_set := bits, th_event_info := opt\<rparr>) ?u"
      have bl: "may_block s" "may_wait time (ev_flag (events s i)) ?v" "may_block ?v" using a False
        by (auto simp: may_wait_def may_block_def)
      have v: "kernel_ok ?v" "rt_current_thread ?v = Some cur" "th_state ?v cur = RT_THREAD_RUNNING" "able ?v idle_thread"
        using effect_ok(1) [OF ei] c st ok(4) by (simp_all add: able_def)
      obtain s' where s': "ipc_block (Event_list i) cur (ev_flag (events s i)) time ?v = Some s'" "effect {cur} ?v s'" "cur_running s'"
        using block_call [OF v bl(3,2) False] .
      have "effect {cur} s s'" using effect_trans [OF ei s'(2)] by simp
      then show ?thesis using eq g None False s' bl(1) c(1) by (simp add: may_block_def)
    qed
  qed
  then obtain e s' where p: "rt_event_recv i bits opt time s = Some (e, s')" "effect {cur} s s'" "cur_running s'"
    "cur \<noteq> idle_thread \<or> able s' idle_thread" by blast
  note r = event_recv_ok [OF c(3) ok(3) c(1,2) p(1)]
  have "sem_ok s'" by (rule sem_ok_frame [OF r(4) _ ok(1)]) (use r(7) in simp)
  moreover have "mutex_ok s'" by (rule mutex_ok_frame [OF r(5) _ r(6) ok(2)]) (use r(7) in simp_all)
  ultimately have "sys_ok s'" using sys_ok_ipc [OF s p(2,3)] p(4) r(2) by simp
  then show ?thesis using call_okI [of "Event_recv i bits opt time" s s'] p(1,2) c(1) by simp
qed

text \<open>Every allowed call returns, keeps the invariant and touches only the threads it names.\<close>

lemmas call_oks = call_sleep call_delay_until call_yield call_exit call_reschedule call_resume call_delete call_startup
  call_change_priority call_lock call_unlock call_sem_take call_sem_release call_mutex_take call_mutex_release
  call_event_send call_event_recv call_thread_init call_timer_init
  call_timer_start call_timer_stop call_timer_wait call_soft_begin call_soft_end

lemma calls_ok:
  assumes "sys_ok s" and "allowed c s"
  obtains s' where "do_call c s = Some s'" "sys_ok s'" "effect (touched c s) s s'"
proof -
  have "call_ok c s"
    using assms by (cases c) (simp_all only: call_oks)
  then show ?thesis using that by (auto simp: call_ok_def)
qed

end
