(* ===== verification/KSystem.thy ===== *)
theory KSystem
  imports KCalls
begin

text \<open>
  The kernel over time: the start of the system (\<open>src/components.c\<close>), the clock interrupt and
  sequences of calls and clock interrupts. A thread that sleeps \<open>n\<close> ticks is able to run after the
  \<open>n\<close>-th clock interrupt and not before, whatever the other threads do in between. That a most urgent
  thread runs is the subject of theory \<open>KPriority\<close>.
\<close>

section \<open>The clock interrupt\<close>

definition tick_begin :: "nat \<Rightarrow> 'a kernel_scheme \<Rightarrow> 'a kernel_scheme" where
  "tick_begin t s = th_upd t (\<lambda>th. th\<lparr>th_remaining_tick := th_remaining_tick th - 1\<rparr>) (s\<lparr>rt_tick := rt_tick s + 1\<rparr>)"

lemma tick_begin_views:
  "th_state (tick_begin t s) = th_state s" "th_prio (tick_begin t s) = th_prio s" "th_mask (tick_begin t s) = th_mask s"
  "tlists (tick_begin t s) = tlists s" "rows (tick_begin t s) = rows s" "rt_timers (tick_begin t s) = rt_timers s"
  "rt_current_thread (tick_begin t s) = rt_current_thread s" "rt_tick (tick_begin t s) = rt_tick s + 1"
  "ev_info (tick_begin t s) = ev_info s" "kernel.more (tick_begin t s) = kernel.more s"
  "rt_scheduler_lock_nest (tick_begin t s) = rt_scheduler_lock_nest s"
proof -
  show "th_state (tick_begin t s) = th_state s" "th_prio (tick_begin t s) = th_prio s" "th_mask (tick_begin t s) = th_mask s"
    by (auto simp: tick_begin_def th_views_upd) (auto simp: th_state_def th_prio_def th_mask_def)
  have "ev_info (tick_begin t s) = ev_info (s\<lparr>rt_tick := rt_tick s + 1\<rparr>)"
    unfolding tick_begin_def by (rule ev_info_upd) simp_all
  then show "ev_info (tick_begin t s) = ev_info s" by (simp add: ev_info_def fun_eq_iff)
  show "kernel.more (tick_begin t s) = kernel.more s" by (simp add: tick_begin_def th_upd_def)
qed (simp_all add: tick_begin_def)

lemma tick_begin_ok: "kernel_ok s \<Longrightarrow> kernel_ok (tick_begin t s)"
  unfolding tick_begin_def by (rule th_upd_ok) (simp_all add: kernel_ok_tick)

text \<open>
  The clock interrupt returns. It moves the tick on, wakes exactly the threads whose timer expires
  and reschedules.
\<close>

lemma tick_woke:
  assumes k: "kernel_ok s" and c: "rt_current_thread s = Some cur" and h: "hard_ready (rt_tick s) s"
  obtains s' where "rt_tick_increase cb s = Some s'" "woke (expired (rt_tick s) s) (tick_begin cur s) s'"
    "rows s' = (rows s)(Hard := filter (\<lambda>t. \<not> expired_by (rt_tick s) s t) (rows s Hard))"
    "cur_running s \<longrightarrow> urgent s \<longrightarrow> urgent s'"
proof -
  let ?u = "tick_begin cur s" and ?b = "rt_tick s"
  have uu: "urgent ?u = urgent s" and ru: "cur_running ?u = cur_running s"
    by (rule urgent_cong) (simp_all add: tick_begin_views cur_running_def)
  have ku: "kernel_ok ?u" using tick_begin_ok [OF k] .
  have cu: "rt_current_thread ?u = Some cur" using c by (simp add: tick_begin_views)
  obtain v where v: "(if th_remaining_tick (rt_threads ?u cur) = 0
      then rt_schedule (th_upd cur (\<lambda>th. th\<lparr>th_remaining_tick := th_init_tick th, th_stat := th_stat th OR RT_THREAD_STAT_YIELD\<rparr>) ?u)
      else Some ?u) = Some v" "woke {} ?u v" "rows v = rows ?u" "timer_keys v = timer_keys ?u"
      "cur_running ?u \<longrightarrow> urgent ?u \<longrightarrow> urgent v"
  proof (cases "th_remaining_tick (rt_threads ?u cur) = 0")
    case False
    then show ?thesis using that [of ?u] woke_refl [OF ku] cu by simp
  next
    case True
    let ?y = "th_upd cur (\<lambda>th. th\<lparr>th_remaining_tick := th_init_tick th, th_stat := th_stat th OR RT_THREAD_STAT_YIELD\<rparr>) ?u"
    have c0: "rt_current_thread ?u \<noteq> None" using cu by simp
    note y = yield_effect [OF ku c0, where t = cur]
    have ky: "kernel_ok ?y" using effect_ok(1) [OF y(1)] .
    have cy: "rt_current_thread ?y = Some cur" using cu by simp
    obtain v where sch: "rt_schedule ?y = Some v" using schedule_total [OF _ cy] ky by (auto simp: kernel_ok_def)
    have "woke {} ?u ?y"
      using ky cy y(2,3) by (auto simp: woke_def calm_def cur_running_def able_def timer_keys_def fun_eq_iff th_upd_def
          th_prio_def th_mask_def)
    then have w: "woke {} ?u v" using woke_trans [OF _ schedule_woke [OF ky cy sch]] by fastforce
    note f = schedule_frame [OF sch]
    have "rows v = rows ?u" "timer_keys v = timer_keys ?u" using f(1,2) by (simp_all add: timer_keys_def fun_eq_iff)
    moreover have "cur_running ?u \<longrightarrow> urgent v"
      using schedule_urgent [OF _ cy sch] ky w by (simp add: kernel_ok_def woke_def)
    ultimately show ?thesis using that [of v] True sch w by simp
  qed
  have kv: "kernel_ok v" and cv: "rt_current_thread v \<noteq> None" and tv: "rt_tick v = ?b + 1"
    using v(2) by (auto simp: woke_def tick_begin_views)
  have rv: "rows v = rows s" "timer_keys v = timer_keys s" using v(3,4) by (auto simp: tick_begin_views timer_keys_def)
  have hv: "hard_ready ?b v" using hard_ready_cong [OF rv] h by simp
  have ex: "expired_by ?b v = expired_by ?b s" "expired ?b v = expired ?b s"
    using rv by (auto simp: expired_by_def expired_def fun_eq_iff)
  obtain s' where s': "rt_timer_check cb v = Some s'"
    "rows s' = (rows v)(Hard := filter (\<lambda>t. \<not> expired_by ?b v t) (rows v Hard))" "woke (expired ?b v) v s'"
    "cur_running v \<longrightarrow> urgent v \<longrightarrow> urgent s'"
    using check_threads [OF kv cv hv tv, of cb] by blast
  have "rt_tick_increase cb s = Option.bind (if th_remaining_tick (rt_threads ?u cur) = 0
      then rt_schedule (th_upd cur (\<lambda>th. th\<lparr>th_remaining_tick := th_init_tick th, th_stat := th_stat th OR RT_THREAD_STAT_YIELD\<rparr>) ?u)
      else Some ?u) (rt_timer_check cb)"
    unfolding rt_tick_increase_def Let_def tick_begin_def by (simp add: c)
  then have "rt_tick_increase cb s = Some s'" using v(1) s'(1) by simp
  moreover have "woke (expired ?b s) ?u s'" using woke_trans [OF v(2) s'(3)] ex by simp
  moreover have "cur_running s \<longrightarrow> urgent s \<longrightarrow> urgent s'"
    using s'(4) v(2,5) uu ru by (simp add: woke_def)
  ultimately show ?thesis using that s'(2) rv ex by simp
qed

lemma tick_sys_ok:
  assumes s: "sys_ok s"
  obtains s' where "rt_tick_increase cb s = Some s'" "sys_ok s'" "rt_tick s' = rt_tick s + 1"
    "\<And>t. able s' t \<longleftrightarrow> able s t \<or> t \<in> expired (rt_tick s) s"
    "\<And>t. \<not> able s' t \<Longrightarrow> same_thread t s s'" "urgent s \<longrightarrow> urgent s'"
proof -
  obtain cur where c: "rt_current_thread s = Some cur" "th_state s cur = RT_THREAD_RUNNING" "kernel_ok s" using sys_running [OF s] .
  let ?b = "rt_tick s" and ?u = "tick_begin cur s"
  have h: "hard_ready ?b s" using s by (simp add: sys_ok_def)
  obtain s' where s': "rt_tick_increase cb s = Some s'" "woke (expired ?b s) ?u s'"
    "rows s' = (rows s)(Hard := filter (\<lambda>t. \<not> expired_by ?b s t) (rows s Hard))"
    "cur_running s \<longrightarrow> urgent s \<longrightarrow> urgent s'" using tick_woke [OF c(3,1) h] .
  note v = tick_begin_views [where t = cur and s = s] and w = s'(2)[unfolded woke_def]
  have tick: "rt_tick s' = ?b + 1" using w v by simp
  have keys: "timer_keys s' = timer_keys s" using w v(6) by (simp add: timer_keys_def fun_eq_iff)
  have ab: "able s' t \<longleftrightarrow> able s t \<or> t \<in> expired ?b s" for t using w v(1) by (simp add: able_def)
  have st: "th_state s' t = th_state s t" if "\<not> able s' t" for t using w v(1) that by simp
  have lists: "tlists s' (Wait l) = filter (\<lambda>t. t \<notin> expired ?b s) (tlists s (Wait l))" for l using w v(4) by simp
  have same: "same_thread t s s'" if n: "\<not> able s' t" for t
  proof -
    have e: "t \<notin> expired ?b s" using n ab by simp
    then show ?thesis using st [OF n] lists keys s'(3) by (auto simp: same_thread_def expired_def)
  qed
  have "hard_ready (?b + 1) s'"
  proof -
    let ?xs = "filter (\<lambda>t. \<not> expired_by ?b s t) (rows s Hard)"
    have "ordered_from ?b (timer_keys s) ?xs"
      using h by (auto simp: hard_ready_def ordered_from_def intro: sorted_wrt_filter)
    then have "ordered_from (?b + 1) (timer_keys s) ?xs"
      by (rule ordered_from_shift) (auto simp: expired_by_def)
    then show ?thesis using h s'(3) keys by (auto simp: hard_ready_def hard_threads_def)
  qed
  moreover have mo: "kernel.more s' = kernel.more s" using w v(10) by simp
  have q: "quiet s s'" using lists mo by (auto simp: quiet_def)
  moreover have "cur_running s'" using w v(1,7) c by (simp add: cur_running_def)
  moreover have "event_ok s'" by (rule event_ok_frame [where s = s]) (use lists w v s quiet_sems(3) [OF q] in \<open>auto simp: sys_ok_def\<close>)
  moreover have "mutex_ok s'" by (rule mutex_ok_quiet [OF q]) (use w v s in \<open>simp_all add: sys_ok_def\<close>)
  moreover have "able s' idle_thread" using s ab by (simp add: sys_ok_def)
  moreover have "sem_ok s'" using s sem_ok_quiet [OF q] by (simp add: sys_ok_def)
  ultimately have "sys_ok s'" using w tick unfolding sys_ok_def by simp
  moreover have "cur_running s" using s by (simp add: sys_ok_def)
  ultimately show ?thesis using that s'(1,4) tick ab same by blast
qed

section \<open>Sequences of calls and clock interrupts\<close>

datatype kevent = Call call | Clock

definition kstep :: "unit ipc_ext callbacks \<Rightarrow> kevent \<Rightarrow> ipc \<Rightarrow> ipc option" where
  "kstep cb e s = (case e of Call c \<Rightarrow> do_call c s | Clock \<Rightarrow> rt_tick_increase cb s)"

primrec krun :: "unit ipc_ext callbacks \<Rightarrow> kevent list \<Rightarrow> ipc \<Rightarrow> ipc option" where
  "krun cb [] s = Some s"
| "krun cb (e # es) s = Option.bind (kstep cb e s) (krun cb es)"

text \<open>The application respects the rules and touches no thread of \<open>T\<close>.\<close>

definition fair :: "nat set \<Rightarrow> kevent \<Rightarrow> ipc \<Rightarrow> bool" where
  "fair T e s \<longleftrightarrow> (case e of Call c \<Rightarrow> allowed c s \<and> T \<inter> touched c s = {} | Clock \<Rightarrow> True)"

primrec lawful :: "nat set \<Rightarrow> unit ipc_ext callbacks \<Rightarrow> kevent list \<Rightarrow> ipc \<Rightarrow> bool" where
  "lawful T cb [] s \<longleftrightarrow> True"
| "lawful T cb (e # es) s \<longleftrightarrow> fair T e s \<and> (case kstep cb e s of None \<Rightarrow> True | Some s' \<Rightarrow> lawful T cb es s')"

lemma kstep_ok:
  assumes s: "sys_ok s" and f: "fair T e s"
  obtains s' where "kstep cb e s = Some s'" "sys_ok s'"
proof (cases e)
  case (Call c)
  then have a: "allowed c s" using f by (simp add: fair_def)
  show ?thesis by (rule calls_ok [OF s a]) (use that Call in \<open>simp add: kstep_def\<close>)
next
  case Clock
  show ?thesis by (rule tick_sys_ok [OF s, of cb]) (use that Clock in \<open>simp add: kstep_def\<close>)
qed

lemma krun_ok:
  assumes "sys_ok s" and "lawful T cb es s"
  shows "\<exists>s'. krun cb es s = Some s' \<and> sys_ok s'"
  using assms
proof (induction es arbitrary: s)
  case (Cons e es)
  have f: "fair T e s" using Cons.prems(2) by simp
  obtain s1 where s1: "kstep cb e s = Some s1" "sys_ok s1" using kstep_ok [OF Cons.prems(1) f] .
  then show ?case using Cons.IH [OF s1(2)] Cons.prems(2) by simp
qed simp

lemma krun_append: "krun cb (es @ fs) s = Option.bind (krun cb es s) (krun cb fs)"
  by (induction es arbitrary: s) (auto split: Option.bind_splits)

section \<open>Sleeping\<close>

text \<open>The thread sleeps and will be woken by the \<open>k\<close>-th clock interrupt (by the next one for \<open>k = 0\<close>).\<close>

definition asleep :: "nat \<Rightarrow> nat \<Rightarrow> 'a kernel_scheme \<Rightarrow> bool" where
  "asleep t k s \<longleftrightarrow> th_state s t = RT_THREAD_SUSPEND \<and> Thread_timer t \<in> set (rows s Hard) \<and>
     unat (timer_keys s (Thread_timer t) - rt_tick s) = k"

lemma asleep_not_able: "asleep t k s \<Longrightarrow> \<not> able s t"
  by (simp add: asleep_def able_def)

lemma asleep_call:
  assumes "sys_ok s" and "allowed c s" and "t \<notin> touched c s" and "asleep t k s" and "do_call c s = Some s'"
  shows "asleep t k s'"
proof -
  obtain u where u: "do_call c s = Some u" "effect (touched c s) s u" using calls_ok [OF assms(1,2)] .
  then have "same_thread t s s'" "rt_tick s' = rt_tick s"
    using assms(3,5) asleep_not_able [OF assms(4)] by (auto simp: effect_def)
  then show ?thesis using assms(4) by (simp add: asleep_def same_thread_def)
qed

lemma asleep_tick:
  assumes s: "sys_ok s" and a: "asleep t k s" and r: "rt_tick_increase cb s = Some s'"
  shows "if k \<le> 1 then able s' t else asleep t (k - 1) s'"
proof -
  obtain u where u: "rt_tick_increase cb s = Some u" "rt_tick u = rt_tick s + 1"
    "\<And>t. able u t \<longleftrightarrow> able s t \<or> t \<in> expired (rt_tick s) s" "\<And>t. \<not> able u t \<Longrightarrow> same_thread t s u" using tick_sys_ok [OF s] by metis
  have s': "s' = u" using r u(1) by simp
  have e: "t \<in> expired (rt_tick s) s \<longleftrightarrow> k \<le> 1" using a by (simp add: expired_def expired_by_def asleep_def)
  show ?thesis
  proof (cases "k \<le> 1")
    case True
    then show ?thesis using u(3) e s' by simp
  next
    case False
    then have n: "\<not> able u t" using u(3) e asleep_not_able [OF a] by simp
    let ?d = "timer_keys s (Thread_timer t) - rt_tick s"
    have k: "timer_keys u (Thread_timer t) - rt_tick u = ?d - 1"
      using u(2,4) n by (simp add: same_thread_def)
    have "unat ?d = k" using a by (simp add: asleep_def)
    then have "unat (?d - 1) = k - 1" using False by (subst unat_sub) (simp_all add: word_le_nat_alt)
    then have "unat (timer_keys u (Thread_timer t) - rt_tick u) = k - 1" by (simp only: k)
    then show ?thesis using False s' u(4) [OF n] a by (simp add: asleep_def same_thread_def)
  qed
qed
lemma sleep_asleep:
  assumes s: "sys_ok s" and a: "allowed (Sleep n) s" and c: "rt_current_thread s = Some cur"
    and r: "do_call (Sleep n) s = Some s'"
  shows "asleep cur (unat n) s'"
proof -
  have k: "kernel_ok s" and run: "th_state s cur = RT_THREAD_RUNNING" using sys_running [OF s] c by (metis, metis option.inject)
  obtain s1 s2 where p: "rt_thread_suspend cur s = Some (RT_EOK, s1)" "kernel_ok s1" "th_state s1 cur = RT_THREAD_SUSPEND"
    "start_thread_timer cur n s1 = Some s2" "kernel_ok s2" "th_state s2 cur = RT_THREAD_SUSPEND"
    "rt_current_thread s2 = Some cur" "rt_schedule s2 = Some s'"
    using sleep_cases [OF k c r [unfolded do_call.simps] run] by metis
  let ?t = "Thread_timer cur" and ?u = "tm_upd (Thread_timer cur) (\<lambda>tm. tm\<lparr>tm_init_tick := n\<rparr>) s1"
  have m: "th_mask s1 cur \<noteq> 0" using p(2,3) kernel_wf_mask by (auto simp: kernel_ok_def)
  then have f: "tm_soft (rt_timers s1 ?t) = False" using p(2) by (auto simp: kernel_ok_def thread_timers_ok_def)
  have arm: "timer_arm ?t ?u = Some s2" using p(4) start_thread_timer_eq [OF p(2) m] by simp
  have w: "kernel_wf s2" using p(5) by (simp add: kernel_ok_def)
  have st: "th_state s' cur = RT_THREAD_SUSPEND" using schedule_state [OF w p(7,8)] p(6) by simp
  note fr = schedule_frame [OF p(8)]
  have "?t \<in> set (rows s2 Hard) \<and> timer_keys s2 ?t = rt_tick s2 + n"
    using arm f by (auto simp: timer_arm_eq timer_head_of_def armed_def timer_keys_def timer_rows.set_ins split: if_splits)
  then show ?thesis using st fr by (simp add: asleep_def timer_keys_def)
qed

abbreviation (input) clocks :: "kevent list \<Rightarrow> nat" where "clocks es \<equiv> count_list es Clock"

lemma able_step:
  assumes s: "sys_ok s" and f: "fair {t} e s" and r: "kstep cb e s = Some s'" and a: "able s t"
  shows "able s' t"
proof (cases e)
  case (Call c)
  then have "allowed c s" "t \<notin> touched c s" using f by (simp_all add: fair_def)
  moreover obtain u where "do_call c s = Some u" "effect (touched c s) s u" using calls_ok [OF s \<open>allowed c s\<close>] .
  ultimately show ?thesis using a r Call by (simp add: kstep_def effect_def)
next
  case Clock
  obtain u where "rt_tick_increase cb s = Some u" "\<And>t. able u t \<longleftrightarrow> able s t \<or> t \<in> expired (rt_tick s) s"
    using tick_sys_ok [OF s] by metis
  then show ?thesis using a r Clock by (simp add: kstep_def)
qed

lemma able_run: "sys_ok s \<Longrightarrow> lawful {t} cb es s \<Longrightarrow> able s t \<Longrightarrow> \<exists>s'. krun cb es s = Some s' \<and> sys_ok s' \<and> able s' t"
proof (induction es arbitrary: s)
  case (Cons e es)
  have f: "fair {t} e s" using Cons.prems(2) by simp
  obtain u where u: "kstep cb e s = Some u" "sys_ok u" using kstep_ok [OF Cons.prems(1) f] .
  show ?case using Cons.IH [OF u(2)] Cons.prems u(1) able_step [OF Cons.prems(1) f u(1)] by simp
qed simp

lemma asleep_run:
  assumes "sys_ok s" and "lawful {t} cb es s" and "asleep t k s"
  shows "\<exists>s'. krun cb es s = Some s' \<and> sys_ok s' \<and> (able s' t \<longleftrightarrow> max 1 k \<le> clocks es)"
  using assms
proof (induction es arbitrary: s k)
  case Nil
  then show ?case using asleep_not_able by auto
next
  case (Cons e es)
  have f: "fair {t} e s" using Cons.prems(2) by simp
  obtain u where u: "kstep cb e s = Some u" "sys_ok u" using kstep_ok [OF Cons.prems(1) f] .
  have l: "lawful {t} cb es u" using Cons.prems(2) u(1) by simp
  show ?case
  proof (cases e)
    case (Call c)
    then have "asleep t k u" using asleep_call [OF Cons.prems(1) _ _ Cons.prems(3), of c u] f u(1)
      by (simp add: fair_def kstep_def)
    then show ?thesis using Cons.IH [OF u(2) l] u(1) Call by simp
  next
    case Clock
    then have a: "if k \<le> 1 then able u t else asleep t (k - 1) u"
      using asleep_tick [OF Cons.prems(1,3), of cb u] u(1) by (simp add: kstep_def)
    show ?thesis
    proof (cases "k \<le> 1")
      case True
      then show ?thesis using able_run [OF u(2) l] a u(1) Clock by auto
    next
      case False
      then have eq: "max 1 (k - 1) \<le> clocks es \<longleftrightarrow> max 1 k \<le> clocks (e # es)" using Clock by auto
      have "asleep t (k - 1) u" using a False by simp
      then have "\<exists>s'. krun cb es u = Some s' \<and> sys_ok s' \<and> (able s' t \<longleftrightarrow> max 1 (k - 1) \<le> clocks es)"
        by (rule Cons.IH [OF u(2) l])
      then show ?thesis unfolding eq using u(1) by simp
    qed
  qed
qed

section \<open>The start of the system\<close>

text \<open>
  The memory before the start is zero. \<open>Callback 0\<close> stands for the zero function pointer. The IPC
  objects of the model are the ones the application initialises: free mutexes, semaphores and
  event sets without a value.
\<close>

definition bss :: ipc where
  "bss = \<lparr>rt_tick = 0,
     rt_threads = (\<lambda>_. \<lparr>th_error = 0, th_stat = 0, th_current_priority = 0, th_init_priority = 0, th_number_mask = 0,
       th_event_set = 0, th_event_info = 0, th_init_tick = 0, th_remaining_tick = 0\<rparr>),
     tlists = (\<lambda>_. []), rt_thread_ready_priority_group = 0, rt_current_thread = None, rt_current_priority = 0,
     rt_scheduler_lock_nest = 0,
     rt_timers = (\<lambda>_. \<lparr>tm_flag = 0, tm_func = Callback 0, tm_init_tick = 0, tm_timeout_tick = 0\<rparr>),
     rows = (\<lambda>_. []), soft_timer_busy = False,
     sems = (\<lambda>_. \<lparr>sem_value = 0, sem_flag = RT_IPC_FLAG_PRIO\<rparr>),
     mutexes = (\<lambda>_. \<lparr>mx_value = 1, mx_owner = None, mx_original_priority = 0xFF, mx_hold = 0, mx_flag = RT_IPC_FLAG_PRIO\<rparr>),
     events = (\<lambda>_. \<lparr>ev_set = 0, ev_flag = RT_IPC_FLAG_PRIO\<rparr>)\<rparr>"

abbreviation (input) main_thread :: nat where "main_thread \<equiv> 2"

definition thread_start :: "nat \<Rightarrow> u8 \<Rightarrow> u32 \<Rightarrow> 'a kernel_scheme \<Rightarrow> 'a kernel_scheme option" where
  "thread_start t priority tick s = Option.bind (thread_init t priority tick s) (rt_thread_startup t)"

definition rt_system_timer_init :: "'a kernel_scheme \<Rightarrow> 'a kernel_scheme" where
  "rt_system_timer_init s = s\<lparr>rows := (rows s)(Hard := [])\<rparr>"

definition rt_application_init :: "'a kernel_scheme \<Rightarrow> 'a kernel_scheme option" where
  "rt_application_init s = thread_start main_thread 10 20 s"

definition rt_system_timer_thread_init :: "'a kernel_scheme \<Rightarrow> 'a kernel_scheme option" where
  "rt_system_timer_thread_init s = thread_start timer_thread 4 10 (s\<lparr>rows := (rows s)(Soft := [])\<rparr>)"

definition rt_thread_idle_init :: "'a kernel_scheme \<Rightarrow> 'a kernel_scheme option" where
  "rt_thread_idle_init s = thread_start idle_thread 31 32 s"

definition rtthread_startup :: "'a kernel_scheme \<Rightarrow> 'a kernel_scheme option" where
  "rtthread_startup s = do {
     s \<leftarrow> rt_application_init (rt_system_scheduler_init (rt_system_timer_init s));
     s \<leftarrow> rt_system_timer_thread_init s;
     s \<leftarrow> rt_thread_idle_init s;
     rt_system_scheduler_start s
   }"

lemma kernel_ok_bss: "kernel_ok bss"
  by (simp add: kernel_ok_def bss_def kernel_wf_def table_wf_def lists_wf_def current_ok_def timers_wf_def tm_wf_def
      thread_timers_ok_def th_state_def th_mask_def tm_active_def)

lemma thread_start_none:
  assumes k: "kernel_ok s" and c: "rt_current_thread s = None" and p: "p < 32"
    and t: "th_state s t = RT_THREAD_INIT" "\<And>h. Thread_timer t \<notin> set (rows s h)" and s: "thread_start t p tick s = Some s'"
  shows "kernel_ok s'" and "rt_current_thread s' = None"
proof -
  let ?th = "\<lambda>th. th\<lparr>th_init_priority := p, th_current_priority := p, th_number_mask := 0,
    th_init_tick := tick, th_remaining_tick := tick, th_error := RT_EOK, th_stat := RT_THREAD_INIT\<rparr>"
  let ?u = "timer_init (Thread_timer t) (Thread_timeout t) 0 0 (th_upd t ?th s)"
  have i: "thread_init t p tick s = Some ?u" using p by (simp add: thread_init_def Let_def)
  have r: "rt_thread_startup t ?u = Some s'" using s i by (simp add: thread_start_def)
  have "rt_current_thread ?u = None" using c by (simp add: timer_init_def)
  then show "rt_current_thread s' = None" using startup_cases(2) [OF r] by (simp add: resume_views)
  show "kernel_ok s'"
    by (rule kernel_ok_startup [OF kernel_ok_thread_init [OF k i t] r])
      (use p in \<open>simp_all add: timer_init_def th_upd_def tm_upd_def tm_periodic_def tm_soft_def\<close>)
qed

text \<open>\<open>rt_system_scheduler_start\<close> makes the most urgent ready thread the running one.\<close>

lemma scheduler_start_ok:
  assumes k: "kernel_ok s" and c: "rt_current_thread s = None" and g: "rt_thread_ready_priority_group s \<noteq> 0"
    and s: "rt_system_scheduler_start s = Some s'"
  shows "kernel_ok s'" and "cur_running s'" and "urgent s'"
proof -
  have w: "kernel_wf s" using k by (simp add: kernel_ok_def)
  obtain t p where t: "scheduler_get_highest_priority_thread s = Some (t, p)" "th_state s t = RT_THREAD_READY" "th_prio s t = p"
    "\<And>u. th_state s u = RT_THREAD_READY \<Longrightarrow> p \<le> th_prio s u" using highest_priority_thread [OF w g] by metis
  let ?u = "rt_schedule_remove_thread t (s\<lparr>rt_current_thread := Some t\<rparr>)"
  let ?run = "\<lambda>th. th\<lparr>th_stat := RT_THREAD_RUNNING\<rparr>"
  have s': "s' = th_upd t ?run ?u" using s t(1) by (simp add: rt_system_scheduler_start_def)
  have cv: "th_state (s\<lparr>rt_current_thread := Some t\<rparr>) = th_state s" "th_prio (s\<lparr>rt_current_thread := Some t\<rparr>) = th_prio s"
    "th_mask (s\<lparr>rt_current_thread := Some t\<rparr>) = th_mask s"
    by (simp_all add: th_state_def th_prio_def th_mask_def fun_eq_iff)
  have v: "th_state s' = (th_state s)(t := RT_THREAD_RUNNING)" "th_prio s' = th_prio s" "th_mask s' = th_mask s"
    "rt_current_thread s' = Some t"
    by (auto simp: s' th_views_upd cv)
      (auto simp: th_prio_def th_mask_def)
  have m: "th_mask s t \<noteq> 0" using kernel_wf_mask [OF w] t(2) by simp
  have "table_wf (th_state s) (th_prio s) (th_mask s) (tlists s) (rt_thread_ready_priority_group s)"
    using w by (simp add: kernel_wf_def)
  then have "table_wf ((th_state s)(t := RT_THREAD_RUNNING)) (th_prio s) (th_mask s) (tlists s') (rt_thread_ready_priority_group s')"
    using table_wf_remove [of "th_state s" "th_prio s" "th_mask s" "tlists s" "rt_thread_ready_priority_group s" RT_THREAD_RUNNING t] m
    by (simp add: s' remove_views cv split: if_splits)
  moreover have only: "th_state s u \<noteq> RT_THREAD_RUNNING" for u using kernel_wf_running [OF w, of u] c by auto
  ultimately have "kernel_wf s'" unfolding kernel_wf_def v by (auto simp: current_ok_def)
  moreover have "rt_timers s' = rt_timers s" "rows s' = rows s" by (simp_all add: s')
  ultimately show "kernel_ok s'"
    using k t(2) v by (auto simp: kernel_ok_def timers_wf_def thread_timers_ok_def)
  show "cur_running s'" "urgent s'"
    using v t(3,4) only by (auto simp: cur_running_def urgent_def most_urgent_def)
qed

definition boot :: ipc where
  "boot = the (rtthread_startup bss)"

text \<open>
  The start returns: the timer thread runs, the main thread and the idle thread are ready. The
  lemma evaluates the four stages.
\<close>

abbreviation (input) boot1 :: "ipc option" where
  "boot1 \<equiv> rt_application_init (rt_system_scheduler_init (rt_system_timer_init bss))"
abbreviation (input) boot2 :: "ipc option" where "boot2 \<equiv> Option.bind boot1 rt_system_timer_thread_init"
abbreviation (input) boot3 :: "ipc option" where "boot3 \<equiv> Option.bind boot2 rt_thread_idle_init"

lemma boot_views:
  "rt_current_thread boot = Some timer_thread" "th_state boot idle_thread = RT_THREAD_READY"
  "rt_scheduler_lock_nest boot = 0" "rt_tick boot = 0"
  "(rows boot Hard, rows boot Hard_temp) = ([], [])"
  "map_option (tlists boot) (Some (Ready 10)) = Some [main_thread]"
  by code_simp+

lemma boot_ipc:
  "sems boot i = \<lparr>sem_value = 0, sem_flag = RT_IPC_FLAG_PRIO\<rparr>"
  "mutexes boot i = \<lparr>mx_value = 1, mx_owner = None, mx_original_priority = 0xFF, mx_hold = 0, mx_flag = RT_IPC_FLAG_PRIO\<rparr>"
  "tlists boot (Wait l) = []"
  by code_simp+

lemma boot_stages:
  "map_option (\<lambda>s. (th_state s timer_thread, rows s Hard, rows s Soft, rows s Hard_temp, rows s Soft_temp)) boot1 = Some (0, [], [], [], [])"
  "map_option (\<lambda>s. (th_state s idle_thread, rows s Hard, rows s Soft, rows s Hard_temp, rows s Soft_temp)) boot2 = Some (0, [], [], [], [])"
  "map_option (\<lambda>s. rt_thread_ready_priority_group s) boot3 = Some 0x80000410"
  by code_simp+

lemma boot_ok: "sys_ok boot" and boot_urgent: "urgent boot" and boot_starts: "rtthread_startup bss = Some boot"
proof -
  have empty: "x \<notin> set (rows s h)" if "rows s Hard = []" "rows s Soft = []" "rows s Hard_temp = []" "rows s Soft_temp = []"
    for x h and s :: ipc using that by (cases h) simp_all
  obtain a where a: "boot1 = Some a" "th_state a timer_thread = 0" "\<And>x h. x \<notin> set (rows a h)"
    using boot_stages(1) empty by auto
  obtain b where b: "rt_system_timer_thread_init a = Some b" "th_state b idle_thread = 0" "\<And>x h. x \<notin> set (rows b h)"
    using boot_stages(2) a(1) empty by auto
  obtain c where c: "rt_thread_idle_init b = Some c" "rt_thread_ready_priority_group c \<noteq> 0"
    using boot_stages(3) a(1) b(1) by auto
  have z: "rt_system_scheduler_init (rt_system_timer_init bss) = bss"
    by (simp add: rt_system_scheduler_init_def rt_system_timer_init_def bss_def fun_eq_iff split: thread_head.splits)
  have soft: "a\<lparr>rows := (rows a)(Soft := [])\<rparr> = a" 
  proof -
    have "rows a Soft = []" using a(3) by (metis last_in_set)
    then show ?thesis by (simp add: fun_upd_idem)
  qed
  have bss: "rt_current_thread bss = None" "th_state bss main_thread = 0" "\<And>x h. x \<notin> set (rows bss h)"
    by (simp_all add: bss_def th_state_def)
  note ka = thread_start_none [OF kernel_ok_bss bss(1) _ bss(2,3), of 10 20 a]
  have ka: "kernel_ok a" "rt_current_thread a = None" using ka a(1) z by (simp_all add: rt_application_init_def)
  have kb: "kernel_ok b" "rt_current_thread b = None"
    using thread_start_none [OF ka _ a(2,3), of 4 10 b] b(1) soft by (simp_all add: rt_system_timer_thread_init_def)
  have kc: "kernel_ok c" "rt_current_thread c = None"
    using thread_start_none [OF kb _ b(2,3), of 31 32 c] c(1) by (simp_all add: rt_thread_idle_init_def)
  have "rtthread_startup bss = rt_system_scheduler_start c" using a b c by (simp add: rtthread_startup_def)
  moreover obtain d where d: "rt_system_scheduler_start c = Some d"
  proof -
    have "kernel_wf c" using kc(1) by (simp add: kernel_ok_def)
    from highest_priority_thread [OF this c(2)] obtain t p where "scheduler_get_highest_priority_thread c = Some (t, p)" .
    then show ?thesis using that by (simp add: rt_system_scheduler_start_def)
  qed
  ultimately show e: "rtthread_startup bss = Some boot" by (simp add: boot_def)
  then have "rt_system_scheduler_start c = Some boot" using d a b c by (simp add: rtthread_startup_def)
  note s = scheduler_start_ok [OF kc c(2) this]
  show "urgent boot" by (rule s)
  have w: "kernel_wf boot" using s(1) by (simp add: kernel_ok_def)
  show "sys_ok boot"
    using s boot_views boot_ipc
    by (auto simp: sys_ok_def able_def hard_ready_def hard_threads_def sem_ok_def mutex_ok_def event_ok_def)
qed

section \<open>Properties\<close>

text \<open>
  C2. From the start of the system on, every sequence of clock interrupts and of calls that the
  application may make returns: no assertion of the kernel fails, no loop of it is endless, and
  the kernel data stays well formed.
\<close>

theorem system_never_stops:
  assumes "lawful {} cb es boot"
  shows "\<exists>s'. krun cb es boot = Some s' \<and> sys_ok s'"
  using krun_ok [OF boot_ok assms] .

text \<open>
  C3. A thread that sleeps \<open>n\<close> ticks is able to run again after the \<open>n\<close>-th clock interrupt (the
  first one for \<open>n = 0\<close>) and not before, whatever calls that do not wake it the other threads
  make in between, also when the tick counter wraps round.
\<close>

theorem sleep_wakes_on_time:
  assumes "sys_ok s" and "allowed (Sleep n) s" and "rt_current_thread s = Some t" and "do_call (Sleep n) s = Some s1"
    and "lawful {t} cb es s1"
  shows "\<exists>s'. krun cb es s1 = Some s' \<and> (able s' t \<longleftrightarrow> max 1 (unat n) \<le> clocks es)"
proof -
  obtain u where "do_call (Sleep n) s = Some u" "sys_ok u" using calls_ok [OF assms(1,2)] .
  then have "sys_ok s1" using assms(4) by simp
  then show ?thesis using asleep_run [OF _ assms(5) sleep_asleep [OF assms(1-4)]] by blast
qed

text \<open>
  The application registers four time-out functions (\<open>one_msecond_timeout\<close>,
  \<open>hundreds_millisecond_timeout\<close>, \<open>supply_voltage_timeout\<close>, \<open>RGB_timer_timeout\<close>). All of them are
  soft and touch variables of the application only, so to the kernel they are the identity.
\<close>

definition app_callbacks :: "unit ipc_ext callbacks" where
  "app_callbacks n s = Some s"

interpretation app: timer_callbacks app_callbacks
  by unfold_locales (auto simp: app_callbacks_def)

theorem sleep_wakes_on_time_witness:
  "\<exists>s1 s'. do_call (Sleep 3) boot = Some s1 \<and> able s' timer_thread \<and>
     krun app_callbacks [Clock, Call Yield, Clock, Call Unlock, Clock] s1 = Some s'"
proof -
  have a: "allowed (Sleep 3) boot" by (simp add: may_block_def boot_views timer_thread_def idle_thread_def)
  obtain s1 where s1: "do_call (Sleep 3) boot = Some s1" using calls_ok [OF boot_ok a] .
  have "lawful {timer_thread} app_callbacks [Clock, Call Yield, Clock, Call Unlock, Clock] s1"
    by (simp add: fair_def split: option.split)
  from sleep_wakes_on_time [OF boot_ok a boot_views(1) s1 this] s1 show ?thesis by auto
qed

theorem system_never_stops_witness:
  "\<exists>s'. krun app_callbacks [Call (Sleep 3), Clock, Call Yield, Call (Event_send 0 1), Clock] boot = Some s' \<and> sys_ok s'"
  by (rule system_never_stops)
    (simp add: fair_def kstep_def may_block_def boot_views timer_thread_def idle_thread_def split: option.split)

text \<open>The timer check with the time-out functions of the application keeps the kernel in order.\<close>

lemma app_soft_check_ok:
  "rt_soft_timer_check app_callbacks s = Some s' \<Longrightarrow> kernel_ok s \<Longrightarrow> rt_current_thread s \<noteq> None \<Longrightarrow>
    kernel_ok s' \<and> rt_current_thread s' \<noteq> None"
  by (rule app.soft_timer_check_ok)

section \<open>Well-formed kernel data\<close>

text \<open>
  C21. In every state a run from the start of the system reaches, the kernel data is well formed:
  a thread is queued in at most one list, exactly the ready threads are in the ready table, at
  their priority, a waiting thread is suspended, the bitmap has exactly the bits of the non-empty
  ready lists, a timer is queued in at most one list, and the timers that wait for their time-out
  are active.
\<close>

theorem kernel_data_well_formed:
  assumes "lawful {} cb es boot"
  shows "\<exists>s'. krun cb es boot = Some s' \<and>
    (\<forall>h. distinct (tlists s' h)) \<and> (\<forall>t h h'. t \<in> set (tlists s' h) \<and> t \<in> set (tlists s' h') \<longrightarrow> h = h') \<and>
    (\<forall>t p. t \<in> set (tlists s' (Ready p)) \<longleftrightarrow> th_state s' t = RT_THREAD_READY \<and> th_prio s' t = p) \<and>
    (\<forall>t l. t \<in> set (tlists s' (Wait l)) \<longrightarrow> th_state s' t = RT_THREAD_SUSPEND) \<and>
    (\<forall>p<32. bit (rt_thread_ready_priority_group s') p \<longleftrightarrow> tlists s' (Ready p) \<noteq> []) \<and>
    (\<forall>x h h'. x \<in> set (rows s' h) \<and> x \<in> set (rows s' h') \<longrightarrow> h = h') \<and>
    (\<forall>x. x \<in> set (rows s' Hard) \<union> set (rows s' Soft) \<longrightarrow> tm_active (rt_timers s' x))"
proof -
  obtain s' where s': "krun cb es boot = Some s'" "sys_ok s'" using krun_ok [OF boot_ok assms] by blast
  then have w: "lists_wf (th_state s') (th_prio s') (tlists s')" "timers_wf s'"
    "table_wf (th_state s') (th_prio s') (th_mask s') (tlists s') (rt_thread_ready_priority_group s')"
    by (simp_all add: sys_ok_def kernel_ok_def kernel_wf_def table_wf_def)
  have "t \<in> set (tlists s' (Ready p)) \<longleftrightarrow> th_state s' t = RT_THREAD_READY \<and> th_prio s' t = p" for t p
    using lists_wf_state(1) [OF w(1)] w(1) by (auto simp: lists_wf_def)
  moreover have "t \<in> set (tlists s' (Wait l)) \<longrightarrow> th_state s' t = RT_THREAD_SUSPEND" for t l
    using lists_wf_state(2) [OF w(1)] by blast
  moreover have "\<forall>h. distinct (tlists s' h)" "\<forall>t h h'. t \<in> set (tlists s' h) \<and> t \<in> set (tlists s' h') \<longrightarrow> h = h'"
    using w(1) by (auto simp: lists_wf_def)
  moreover have "\<forall>p<32. bit (rt_thread_ready_priority_group s') p \<longleftrightarrow> tlists s' (Ready p) \<noteq> []"
    using w(3) by (simp add: table_wf_def)
  moreover have "\<forall>x h h'. x \<in> set (rows s' h) \<and> x \<in> set (rows s' h') \<longrightarrow> h = h'"
    "\<forall>x. x \<in> set (rows s' Hard) \<union> set (rows s' Soft) \<longrightarrow> tm_active (rt_timers s' x)"
    using w(2) by (auto simp: timers_wf_def tm_wf_def)
  ultimately show ?thesis using s'(1) by blast
qed

theorem kernel_data_well_formed_witness:
  "\<exists>s'. krun app_callbacks [Call (Sleep 3), Clock, Call Yield] boot = Some s' \<and>
    (\<forall>p<32. bit (rt_thread_ready_priority_group s') p \<longleftrightarrow> tlists s' (Ready p) \<noteq> [])"
proof -
  have "lawful {} app_callbacks [Call (Sleep 3), Clock, Call Yield] boot"
    by (simp add: fair_def may_block_def boot_views timer_thread_def idle_thread_def split: option.split)
  from kernel_data_well_formed [OF this] show ?thesis by blast
qed

section \<open>Mutual exclusion and events\<close>

text \<open>
  C14. A call of \<open>rt_mutex_take\<close> returns with the mutex only if it was free or the caller had it,
  and then the caller owns it. A caller that waits is suspended in the list of the mutex, and
  after the call the owner, another thread, is at least as urgent as the caller.
\<close>

theorem mutex_excludes_and_inherits:
  assumes "sys_ok s" and "allowed (Mutex_take i time) s" and "rt_current_thread s = Some t"
  shows "\<exists>e s'. rt_mutex_take i time s = Some (e, s') \<and> sys_ok s' \<and>
    (e = Some RT_EOK \<longrightarrow> mx_owner (mutexes s i) \<in> {None, Some t} \<and> mx_owner (mutexes s' i) = Some t) \<and>
    (e = None \<longrightarrow> th_state s' t = RT_THREAD_SUSPEND \<and> t \<in> set (tlists s' (Wait (Mutex_list i))) \<and>
      (\<exists>w. mx_owner (mutexes s' i) = Some w \<and> w \<noteq> t \<and> th_prio s' w \<le> th_prio s t))"
proof -
  have k: "kernel_ok s" "mutex_ok s" "th_state s t = RT_THREAD_RUNNING" using assms(1,3) by (auto simp: sys_ok_def cur_running_def)
  obtain s' where "do_call (Mutex_take i time) s = Some s'" "sys_ok s'" using calls_ok [OF assms(1,2)] .
  then obtain e where e: "rt_mutex_take i time s = Some (e, s')" "sys_ok s'" by auto
  show ?thesis using mutex_take_ok(5,6) [OF k(1,2) assms(3) k(3) e(1)] e by auto
qed

theorem mutex_excludes_and_inherits_witness:
  "\<exists>e s'. rt_mutex_take 0 5 boot = Some (e, s') \<and> sys_ok s' \<and> (e = Some RT_EOK \<longrightarrow> mx_owner (mutexes s' 0) = Some timer_thread)"
proof -
  have "allowed (Mutex_take 0 5) boot"
    by (simp add: may_wait_def may_block_def boot_views boot_ipc timer_thread_def idle_thread_def word_sless_alt)
  from mutex_excludes_and_inherits [OF boot_ok this boot_views(1)] show ?thesis by blast
qed

text \<open>
  C15. Sending bits to an event set succeeds and keeps the kernel in order. Exactly waiters of this
  event set are woken by it; each of them receives bits that satisfy its request, out of the bits that were
  set or sent, and no thread whose request the remaining bits satisfy is left waiting.
\<close>

theorem event_send_serves:
  assumes "sys_ok s" and "bits \<noteq> 0"
  shows "\<exists>s'. rt_event_send i bits s = Some (RT_EOK, s') \<and> sys_ok s' \<and>
    (\<forall>t. t \<in> set (tlists s (Wait (Event_list i))) \<and> t \<notin> set (tlists s' (Wait (Event_list i))) \<longrightarrow> event_served i bits s s' t) \<and>
    (\<forall>t. able s' t \<and> \<not> able s t \<longrightarrow> t \<in> set (tlists s (Wait (Event_list i)))) \<and>
    (\<forall>t. t \<in> set (tlists s' (Wait (Event_list i))) \<longrightarrow>
      event_match (snd (ev_info s' t)) (fst (ev_info s' t)) (ev_set (events s' i)) = Some None)"
proof -
  obtain cur where c: "rt_current_thread s = Some cur" "kernel_ok s" using sys_running [OF assms(1)] .
  have ev: "event_ok s" using assms(1) by (simp add: sys_ok_def)
  obtain s' where s': "rt_event_send i bits s = Some (RT_EOK, s')" "event_ok s'"
    "\<And>t. t \<in> set (tlists s (Wait (Event_list i))) \<Longrightarrow> t \<notin> set (tlists s' (Wait (Event_list i))) \<Longrightarrow> event_served i bits s s' t"
    "\<And>t. able s' t \<Longrightarrow> \<not> able s t \<Longrightarrow> t \<in> set (tlists s (Wait (Event_list i)))"
    using event_send_ok [OF c(2) ev c(1) assms(2), of i] by metis
  have a: "allowed (Event_send i bits) s" by simp
  obtain u where "do_call (Event_send i bits) s = Some u" "sys_ok u" using calls_ok [OF assms(1) a] .
  then have "sys_ok s'" using s'(1) by simp
  then show ?thesis using s' unfolding event_ok_def by blast
qed

theorem event_send_serves_witness:
  "\<exists>s'. rt_event_send 2 5 boot = Some (RT_EOK, s') \<and> sys_ok s'"
  using event_send_serves [OF boot_ok, of 5 2] by auto
end
