(* ===== verification/KPriority.thy ===== *)
theory KPriority
  imports KSystem
begin

text \<open>
  The promise of a priority scheduler: as long as the scheduler is not locked, no ready thread is
  more urgent than the running one. It holds after every call of a thread and after every clock
  interrupt (\<open>most_urgent_thread_runs\<close>). Three calls may break it until the next
  call of \<open>rt_schedule\<close>, because they change priorities or make a thread ready and do not
  reschedule: \<open>rt_thread_resume\<close>, \<open>rt_thread_control\<close> with a new priority, and
  \<open>rt_mutex_release\<close> of a mutex nobody waits for, which takes back an inherited priority
  (\<open>mutex_release_keeps_running\<close> in theory \<open>KFaults\<close> is such a run).
\<close>

section \<open>Calls that end in a rescheduling and calls that change no ready thread\<close>

definition rescheduled :: "'a kernel_scheme \<Rightarrow> bool" where
  "rescheduled s' \<longleftrightarrow> (\<exists>u cur. kernel_ok u \<and> rt_current_thread u = Some cur \<and> rt_schedule u = Some s')"

definition in_place :: "'a kernel_scheme \<Rightarrow> 'a kernel_scheme \<Rightarrow> bool" where
  "in_place s s' \<longleftrightarrow>
     rt_current_thread s' = rt_current_thread s \<and> rt_scheduler_lock_nest s' = rt_scheduler_lock_nest s \<and>
     (\<forall>t. th_state s' t = RT_THREAD_READY \<longrightarrow> th_state s t = RT_THREAD_READY \<and> th_prio s' t = th_prio s t) \<and>
     (\<forall>t. th_state s t = RT_THREAD_RUNNING \<longrightarrow> th_prio s' t = th_prio s t)"

definition settled :: "'a kernel_scheme \<Rightarrow> 'a kernel_scheme \<Rightarrow> bool" where
  "settled s s' \<longleftrightarrow> rescheduled s' \<or> in_place s s' \<or> rt_scheduler_lock_nest s' \<noteq> 0"

lemma settledI:
  "kernel_ok u \<Longrightarrow> rt_current_thread u = Some cur \<Longrightarrow> rt_schedule u = Some s' \<Longrightarrow> settled s s'"
  by (auto simp: settled_def rescheduled_def)

lemma in_placeI:
  "th_state s' = th_state s \<Longrightarrow> th_prio s' = th_prio s \<Longrightarrow> rt_current_thread s' = rt_current_thread s \<Longrightarrow>
    rt_scheduler_lock_nest s' = rt_scheduler_lock_nest s \<Longrightarrow> settled s s'"
  by (simp add: settled_def in_place_def)

lemma settled_urgent:
  assumes st: "settled s s'" and r: "cur_running s'" and u: "urgent s"
  shows "urgent s'"
proof (cases "rescheduled s'")
  case True
  then show ?thesis using schedule_urgent [OF _ _ _ r] by (auto simp: rescheduled_def kernel_ok_def)
next
  case False
  show ?thesis
  proof (cases "rt_scheduler_lock_nest s' = 0")
    case True
    then have p: "in_place s s'" using st False by (simp add: settled_def)
    obtain c where c: "rt_current_thread s' = Some c" "th_state s' c = RT_THREAD_RUNNING" using r by (auto simp: cur_running_def)
    then have "th_state s c = RT_THREAD_RUNNING" "most_urgent s c" using u p True by (auto simp: urgent_def in_place_def)
    then have "most_urgent s' c" using p by (auto simp: most_urgent_def in_place_def)
    then show ?thesis using c by (auto simp: urgent_def)
  qed (simp add: urgent_def)
qed

section \<open>The calls\<close>

lemma steps_settled:
  assumes k: "kernel_ok s" and c: "rt_current_thread s = Some t" and s1: "rt_thread_suspend t s = Some (e, s1)"
    and r: "th_state s t = RT_THREAD_RUNNING" and s2: "start_thread_timer t time s1 = Some s2"
  shows "kernel_ok s1" and "rt_current_thread s1 = Some t" and "kernel_ok s2" and "rt_current_thread s2 = Some t"
proof -
  show k1: "kernel_ok s1" using kernel_ok_suspend [OF k s1] .
  have t1: "th_state s1 t = RT_THREAD_SUSPEND" using suspend_state [OF s1] r by simp
  show c1: "rt_current_thread s1 = Some t" using suspend_views [OF s1] c by simp
  show "kernel_ok s2" using kernel_ok_start_thread_timer [OF k1 t1 s2] .
  have m: "th_mask s1 t \<noteq> 0" using k1 t1 kernel_wf_mask by (auto simp: kernel_ok_def)
  show "rt_current_thread s2 = Some t" using arm_views [OF s2 [unfolded start_thread_timer_eq [OF k1 m]]] c1 by simp
qed

lemma sleep_settled:
  assumes "kernel_ok s" and "rt_current_thread s = Some t" and "th_state s t = RT_THREAD_RUNNING" and "rt_thread_sleep n s = Some s'"
  shows "settled s s'"
  using assms sleep_cases [OF assms(1,2,4,3)] settledI by metis

lemma delay_until_settled:
  assumes k: "kernel_ok s" and c: "rt_current_thread s = Some t" and r: "th_state s t = RT_THREAD_RUNNING"
    and s: "rt_thread_delay_until tick n s = Some (tk, s')"
  shows "settled s s'"
proof (cases "rt_tick s - tick < n")
  case False
  then show ?thesis using s c by (auto simp: rt_thread_delay_until_def Let_def intro!: in_placeI)
next
  case True
  then obtain e s1 s2 where p: "rt_thread_suspend t s = Some (e, s1)" "start_thread_timer t (tick + n - rt_tick s) s1 = Some s2"
    "rt_schedule s2 = Some s'"
    using s c by (auto simp: rt_thread_delay_until_def Let_def bind_eq_Some_conv split: prod.splits)
  then show ?thesis using steps_settled [OF k c p(1) r p(2)] settledI by blast
qed

lemma block_settled:
  assumes k: "kernel_ok s" and c: "rt_current_thread s = Some t" and r: "th_state s t = RT_THREAD_RUNNING"
    and b: "ipc_block l t flag time s = Some s'"
  shows "rescheduled s'"
proof -
  obtain s1 s2 where s1: "ipc_list_suspend l t flag s = Some s1"
    and s2: "(if 0 <s time then start_thread_timer t time s1 else Some s1) = Some s2" and sch: "rt_schedule s2 = Some s'"
    using b by (auto simp: ipc_block_def bind_eq_Some_conv)
  note v = ipc_suspend_cases [OF k r s1]
  have t1: "th_state s1 t = RT_THREAD_SUSPEND" using v(2) by simp
  have m: "th_mask s1 t \<noteq> 0" using v(1) t1 kernel_wf_mask by (auto simp: kernel_ok_def)
  have "kernel_ok s2 \<and> rt_current_thread s2 = Some t"
  proof (cases "0 <s time")
    case True
    then have st: "start_thread_timer t time s1 = Some s2" using s2 by simp
    then show ?thesis
      using kernel_ok_start_thread_timer [OF v(1) t1 st] arm_views [OF st [unfolded start_thread_timer_eq [OF v(1) m]]] v(3) c by simp
  next
    case False
    then show ?thesis using s2 v(1,3) c by simp
  qed
  then show ?thesis using sch by (auto simp: rescheduled_def)
qed

lemma wake_settled:
  assumes k: "kernel_ok s" and c: "rt_current_thread s = Some cur" and s: "rt_schedule (snd (rt_thread_resume t s)) = Some s'"
  shows "rescheduled s'"
proof -
  have "rt_current_thread (snd (rt_thread_resume t s)) = Some cur" using c by (simp add: resume_views)
  then show ?thesis using kernel_ok_resume [OF k] s unfolding rescheduled_def by blast
qed

lemma timer_start_settled:
  assumes k: "kernel_ok s" and c: "rt_current_thread s = Some cur" and s: "rt_timer_start (Timer n) s = Some s'"
  shows "settled s s'"
  using s
proof (cases rule: start_cases)
  case (1 s1)
  then show ?thesis using arm_views [OF 1(1)] by (auto intro!: in_placeI)
next
  case (2 s1)
  have k1: "kernel_ok s1" using kernel_ok_arm [OF k 2(1)] by simp
  have "rt_current_thread s1 = Some cur" using arm_views [OF 2(1)] c by simp
  then have "rescheduled s'" using wake_settled [OF k1 _ 2(5)] by blast
  then show ?thesis by (simp add: settled_def)
qed

text \<open>The calls that keep the promise; the other three are named in the header.\<close>

fun prompt :: "call \<Rightarrow> bool" where
  "prompt (Resume t) = False"
| "prompt (Change_priority t p) = False"
| "prompt (Mutex_release i) = False"
| "prompt _ = True"

lemma exit_settled:
  assumes k: "kernel_ok s" and c: "rt_current_thread s = Some t" and s: "thread_exit s = Some s'"
  shows "settled s s'"
proof -
  have c0: "rt_current_thread s \<noteq> None" using c by simp
  have f: "True \<or> (\<forall>h. t \<notin> set (tlists s h))" by simp
  note e = effect_close [OF k c0 f]
  have "rt_schedule (closed t True s) = Some s'" using s c by (simp add: thread_exit_def)
  then show ?thesis using effect_ok(1) [OF e(1)] e(3) c settledI by metis
qed

lemma delete_settled:
  assumes k: "kernel_ok s" and c: "rt_current_thread s = Some cur" and t: "cur \<noteq> t"
  shows "settled s (rt_thread_delete t s)"
proof (cases "th_state s t = RT_THREAD_CLOSE")
  case True
  then show ?thesis by (auto simp: rt_thread_delete_def intro!: in_placeI)
next
  case False
  have w: "kernel_wf s" using k by (simp add: kernel_ok_def)
  have c0: "rt_current_thread s \<noteq> None" using c by simp
  have f: "th_state s t \<noteq> RT_THREAD_INIT \<or> (\<forall>h. t \<notin> set (tlists s h))" using kernel_wf_free [OF w] by auto
  note e = effect_close [OF k c0 f]
  let ?u = "closed t (th_state s t \<noteq> RT_THREAD_INIT) s"
  have d: "rt_thread_delete t s = ?u" using False by (simp add: rt_thread_delete_def Let_def)
  have "th_prio ?u = th_prio s"
    using th_views_close(2) [of t "rt_timer_detach (Thread_timer t) (if th_state s t \<noteq> RT_THREAD_INIT then rt_schedule_remove_thread t s else s)"]
    by (simp add: rt_thread_defunct_enqueue_def)
  then have "in_place s ?u" using e(3,4,5) by (auto simp: in_place_def)
  then show ?thesis using d by (simp add: settled_def)
qed

lemma startup_settled:
  assumes k: "kernel_ok s" and c: "rt_current_thread s = Some cur" and a: "startable t s" and s: "rt_thread_startup t s = Some s'"
  shows "settled s s'"
proof -
  let ?u = "th_upd t (\<lambda>th. th\<lparr>th_current_priority := th_init_priority th,
      th_number_mask := prio_mask (th_init_priority th), th_stat := RT_THREAD_SUSPEND\<rparr>) s"
  have ku: "kernel_ok ?u" using kernel_ok_started [OF k] a by (simp add: startable_def)
  have "rt_schedule (snd (rt_thread_resume t ?u)) = Some s'" using startup_cases(2) [OF s] c by simp
  then have "rescheduled s'" using wake_settled [OF ku, of cur] c by simp
  then show ?thesis by (simp add: settled_def)
qed

lemma unlock_settled:
  assumes k: "kernel_ok s" and c: "rt_current_thread s = Some cur" and s: "rt_exit_critical s = Some s'"
  shows "settled s s'"
proof (cases "sint (rt_scheduler_lock_nest s - 1) \<le> 0")
  case True
  have c0: "rt_current_thread s \<noteq> None" using c by simp
  have "rt_schedule (s\<lparr>rt_scheduler_lock_nest := 0\<rparr>) = Some s'" using s c True by (simp add: rt_exit_critical_def)
  then show ?thesis using effect_ok(1) [OF lock_effect(1) [OF k c0, of 0]] c settledI [of "s\<lparr>rt_scheduler_lock_nest := 0\<rparr>" cur] by simp
next
  case False
  then have "s' = s\<lparr>rt_scheduler_lock_nest := rt_scheduler_lock_nest s - 1\<rparr>" using s by (simp add: rt_exit_critical_def)
  moreover have "rt_scheduler_lock_nest s - 1 \<noteq> 0" using False by auto
  ultimately show ?thesis by (simp add: settled_def)
qed

lemma timer_wait_settled:
  assumes k: "kernel_ok s" and c: "rt_current_thread s = Some t" and r: "th_state s t = RT_THREAD_RUNNING"
    and s: "timer_thread_wait s = Some s'"
  shows "settled s s'"
proof (cases "timer_list_next_timeout Soft s = RT_TICK_MAX")
  case True
  then obtain e s1 where p: "rt_thread_suspend t s = Some (e, s1)" "rt_schedule s1 = Some s'"
    using s c by (auto simp: timer_thread_wait_def Let_def bind_eq_Some_conv split: prod.splits)
  then show ?thesis using kernel_ok_suspend [OF k p(1)] suspend_views(1) [OF p(1)] c settledI by metis
next
  case False
  then show ?thesis
    using s sleep_settled [OF k c r] in_placeI [of s s] by (auto simp: timer_thread_wait_def Let_def split: if_splits)
qed

lemma soft_end_settled:
  assumes k: "kernel_ok s" and c: "rt_current_thread s = Some cur" and s: "do_call (Soft_end n) s = Some s'"
  shows "settled s s'"
proof -
  let ?b = "s\<lparr>soft_timer_busy := False\<rparr>"
  let ?u = "tm_upd (Timer n) (clear_flag RT_TIMER_FLAG_ACTIVATED) (timer_remove (Timer n) ?b)"
  have kb: "kernel_ok ?b" using k by (simp add: kernel_ok_busy)
  have c0: "rt_current_thread ?b \<noteq> None" using c by simp
  have ku: "kernel_ok ?u" using effect_ok(1) [OF unqueue_effect(3) [OF kb c0]] .
  show ?thesis
  proof (cases "rt_timer_start (Timer n) ?u = Some s'")
    case True
    then have "settled ?u s'" using timer_start_settled [OF ku _ True, of cur] c by simp
    then show ?thesis by (simp add: settled_def in_place_def)
  next
    case False
    then have "s' = ?b \<or> s' = timer_remove (Timer n) ?b" using s by (auto simp: end_fire_def Let_def split: if_splits)
    then show ?thesis by (auto intro!: in_placeI)
  qed
qed

section \<open>The IPC calls\<close>

lemma rescheduled_settled: "rescheduled s' \<Longrightarrow> settled s s'"
  by (simp add: settled_def)

lemma set_error_block:
  assumes k: "kernel_ok s" and c: "rt_current_thread s = Some t" and r: "th_state s t = RT_THREAD_RUNNING"
    and b: "ipc_block l t flag time (th_upd t (\<lambda>th. th\<lparr>th_error := e\<rparr>) s) = Some s'"
  shows "settled s s'"
  using block_settled [OF kernel_ok_set_error [OF k] _ _ b] c r by (auto intro: rescheduled_settled)

lemma sem_take_settled:
  assumes k: "kernel_ok s" and c: "rt_current_thread s = Some t" and r: "th_state s t = RT_THREAD_RUNNING"
    and s: "rt_sem_take i time s = Some (e, s')"
  shows "settled s s'"
proof (cases "sem_value (sems s i) > 0 \<or> time = 0")
  case True
  then show ?thesis using s by (auto simp: rt_sem_take_def split: if_splits intro!: in_placeI)
next
  case False
  then have "ipc_block (Sem_list i) t (sem_flag (sems s i)) time (th_upd t (\<lambda>th. th\<lparr>th_error := RT_EOK\<rparr>) s) = Some s'"
    using s c by (auto simp: rt_sem_take_def Let_def bind_eq_Some_conv)
  then show ?thesis by (rule set_error_block [OF k c r])
qed

lemma sem_release_settled:
  assumes k: "kernel_ok s" and c: "rt_current_thread s = Some cur" and s: "rt_sem_release i s = Some (e, s')"
  shows "settled s s'"
proof (cases "tlists s (Wait (Sem_list i))")
  case Nil
  then show ?thesis using s by (auto simp: rt_sem_release_def split: if_splits intro!: in_placeI)
next
  case (Cons u us)
  then have "rt_schedule (snd (rt_thread_resume u s)) = Some s'"
    using s ipc_list_resume_eq(1) [OF k Cons] by (auto simp: rt_sem_release_def bind_eq_Some_conv)
  then show ?thesis using wake_settled [OF k c] rescheduled_settled by blast
qed

lemma mutex_take_settled:
  assumes ok: "sys_ok s" and c: "rt_current_thread s = Some t" and s: "rt_mutex_take i time s = Some (e, s')"
  shows "settled s s'"
proof -
  let ?u = "th_upd t (\<lambda>th. th\<lparr>th_error := RT_EOK\<rparr>) s"
  have k: "kernel_ok s" and r: "th_state s t = RT_THREAD_RUNNING" and m: "mutex_ok s"
    using ok c by (auto simp: sys_ok_def cur_running_def)
  have ku: "kernel_ok ?u" using kernel_ok_set_error [OF k] .
  note eq = mutex_take_eq [OF m c, of i time]
  show ?thesis
  proof (cases "\<exists>w. mx_owner (mutexes s i) = Some w \<and> w \<noteq> t \<and> time \<noteq> 0")
    case False
    then show ?thesis using s eq by (auto split: option.splits if_splits intro!: in_placeI)
  next
    case True
    then obtain w where w: "mx_owner (mutexes s i) = Some w" "w \<noteq> t" "time \<noteq> 0" by blast
    have mw: "th_mask ?u w \<noteq> 0" "th_mask ?u t \<noteq> 0"
      using mutex_ok_D(3) [OF m w(1)] kernel_wf_mask [of s t] k r by (auto simp: kernel_ok_def)
    note b = boost_ok [OF ku mw(2,1)]
    have "ipc_block (Mutex_list i) t RT_IPC_FLAG_PRIO time (boost t w ?u) = Some s'" using s eq w by auto
    then show ?thesis using block_settled [OF b(1)] b(2,3) c r by (auto intro: rescheduled_settled)
  qed
qed

lemma walk_served: "event_walk i ts True x \<noteq> (Some False, z)"
  by (induction ts arbitrary: x) (auto split: option.split)

lemma walk_unserved: "event_walk i ts need s = (Some False, s') \<Longrightarrow> s' = s"
  by (induction ts arbitrary: need s) (auto simp: walk_served split: option.splits)

lemma event_send_settled:
  assumes ok: "sys_ok s" and c: "rt_current_thread s = Some cur" and s: "rt_event_send i bits s = Some (e, s')"
  shows "settled s s'"
proof (cases "bits = 0")
  case True
  then show ?thesis using s by (auto simp: rt_event_send_def intro!: in_placeI)
next
  case b: False
  let ?u = "ev_upd i (\<lambda>e. e\<lparr>ev_set := ev_set e OR bits\<rparr>) s"
  have k: "kernel_ok s" "event_ok s" and r: "th_state s cur = RT_THREAD_RUNNING"
    using ok c by (auto simp: sys_ok_def cur_running_def)
  have ku: "kernel_ok ?u" using effect_ok(1) [OF ev_upd_effect [OF k(1)]] c by simp
  obtain v where "rt_event_send i bits s = Some (RT_EOK, v)" using event_send_ok [OF k c b] by metis
  then have e: "e = RT_EOK" using s by simp
  obtain x v where w: "event_walk i (tlists s (Wait (Event_list i))) False ?u = (x, v)" by fastforce
  have v: "kernel_ok v" "rt_current_thread v = Some cur" using walk_effect [OF w ku] c r effect_ok(1) by auto
  have "x = Some True \<and> rt_schedule v = Some s' \<or> x = Some False \<and> s' = v"
    using s b w e by (auto simp: rt_event_send_def Let_def bind_eq_Some_conv split: option.splits bool.splits)
  then show ?thesis
  proof
    assume "x = Some True \<and> rt_schedule v = Some s'"
    then show ?thesis using v settledI by blast
  next
    assume "x = Some False \<and> s' = v"
    then have "s' = ?u" using walk_unserved [of i _ False ?u v] w by blast
    then show ?thesis by (auto intro!: in_placeI)
  qed
qed

lemma event_recv_settled:
  assumes ok: "sys_ok s" and c: "rt_current_thread s = Some t" and s: "rt_event_recv i bits opt time s = Some (e, s')"
  shows "settled s s'"
proof (cases "bits = 0")
  case True
  then show ?thesis using s by (auto simp: rt_event_recv_def intro!: in_placeI)
next
  case b: False
  let ?u = "th_upd t (\<lambda>th. th\<lparr>th_error := RT_EOK\<rparr>) s"
  let ?v = "\<lambda>x. th_upd t (\<lambda>th. th\<lparr>th_event_set := x, th_event_info := opt\<rparr>) ?u"
  have k: "kernel_ok s" and r: "th_state s t = RT_THREAD_RUNNING" using ok c by (auto simp: sys_ok_def cur_running_def)
  have c0: "rt_current_thread s \<noteq> None" using c by simp
  note ou = effect_ok [OF set_error_effect [OF k c0, of "{}" t RT_EOK]]
  have kv: "kernel_ok (?v x)" for x using effect_ok(1) [OF set_event_effect(2) [OF ou, of "{}"]] .
  have st: "th_state (?v x) = th_state s" "th_prio (?v x) = th_prio s" for x
  proof -
    have "th_state (?v x) = th_state ?u" using set_event_info(1) [where t = t and a = x and b = opt and z = ?u] .
    then show "th_state (?v x) = th_state s" by simp
    show "th_prio (?v x) = th_prio s" by (auto simp: fun_eq_iff th_prio_def th_upd_def)
  qed
  show ?thesis
  proof (cases "event_match opt bits (ev_set (events s i)) = Some None \<and> time \<noteq> 0")
    case True
    then have "ipc_block (Event_list i) t (ev_flag (events s i)) time (?v bits) = Some s'"
      using s event_recv_eq [OF b c, of i opt time] by auto
    then show ?thesis using block_settled [OF kv] st c r by (auto intro: rescheduled_settled)
  next
    case False
    then show ?thesis
      using s event_recv_eq [OF b c, of i opt time] st
      by (auto simp: Let_def split: option.splits if_splits intro!: in_placeI)
  qed
qed

section \<open>The promise\<close>

lemma thread_init_settled:
  assumes i: "th_state s t = RT_THREAD_INIT" and s: "thread_init t p tick s = Some s'"
  shows "settled s s'"
proof -
  let ?th = "\<lambda>th. th\<lparr>th_init_priority := p, th_current_priority := p, th_number_mask := 0,
    th_init_tick := tick, th_remaining_tick := tick, th_error := RT_EOK, th_stat := RT_THREAD_INIT\<rparr>"
  let ?tm = "\<lparr>tm_flag = 0, tm_func = Thread_timeout t, tm_init_tick = 0, tm_timeout_tick = 0\<rparr>"
  have e: "s' = tm_upd (Thread_timer t) (\<lambda>_. ?tm) (th_upd t ?th s)"
    using s by (auto simp: thread_init_def timer_init_def Let_def split: if_splits)
  have "th_state s' = th_state s" using i unfolding e by (auto simp: th_views_upd)
  moreover have "th_prio s' u = th_prio s u" if "th_state s u \<noteq> RT_THREAD_INIT" for u
    using that i by (auto simp: e th_prio_def th_upd_def tm_upd_def)
  moreover have "rt_current_thread s' = rt_current_thread s" "rt_scheduler_lock_nest s' = rt_scheduler_lock_nest s" by (simp_all add: e)
  ultimately have "in_place s s'" by (simp add: in_place_def)
  then show ?thesis by (simp add: settled_def)
qed

lemma calls_settled:
  assumes s: "sys_ok s" and a: "allowed c s" and p: "prompt c" and d: "do_call c s = Some s'"
  shows "settled s s'"
proof -
  obtain cur where c: "rt_current_thread s = Some cur" "th_state s cur = RT_THREAD_RUNNING" "kernel_ok s" using sys_running [OF s] .
  show ?thesis
  proof (cases c)
    case (Sleep n)
    then show ?thesis using sleep_settled [OF c(3,1,2)] d by simp
  next
    case (Delay_until tick n)
    then show ?thesis using delay_until_settled [OF c(3,1,2)] d by auto
  next
    case Yield
    then have "rt_schedule (th_upd cur (\<lambda>th. th\<lparr>th_remaining_tick := th_init_tick th, th_stat := th_stat th OR RT_THREAD_STAT_YIELD\<rparr>) s) = Some s'"
      using d c(1) by (simp add: rt_thread_yield_def)
    then show ?thesis by (rule settledI [OF yield_ok [OF c(3)], rotated]) (simp add: c(1))
  next
    case Exit
    then show ?thesis using exit_settled [OF c(3,1)] d by simp
  next
    case Reschedule
    then show ?thesis using settledI [OF c(3,1)] d by simp
  next
    case (Delete t)
    then show ?thesis using delete_settled [OF c(3,1)] d a c(1) by auto
  next
    case (Startup t)
    then show ?thesis using startup_settled [OF c(3,1)] d a by simp
  next
    case Lock
    then show ?thesis using d a by (auto simp: settled_def rt_enter_critical_def)
  next
    case Unlock
    then show ?thesis using unlock_settled [OF c(3,1)] d by simp
  next
    case (Sem_take i time)
    then show ?thesis using sem_take_settled [OF c(3,1,2)] d by auto
  next
    case (Sem_release i)
    then show ?thesis using sem_release_settled [OF c(3,1)] d by auto
  next
    case (Mutex_take i time)
    then show ?thesis using mutex_take_settled [OF s c(1)] d by auto
  next
    case (Event_send i bits)
    then show ?thesis using event_send_settled [OF s c(1)] d by auto
  next
    case (Event_recv i bits opt time)
    then show ?thesis using event_recv_settled [OF s c(1)] d by auto
  next
    case (Thread_init t q tick)
    then show ?thesis using thread_init_settled d a by auto
  next
    case (Timer_init n time flag)
    then show ?thesis using d by (auto simp: timer_init_def intro!: in_placeI)
  next
    case (Timer_start n)
    then show ?thesis using timer_start_settled [OF c(3,1)] d by simp
  next
    case (Timer_stop n)
    then show ?thesis using d by (auto intro!: in_placeI)
  next
    case Timer_wait
    then show ?thesis using timer_wait_settled [OF c(3,1,2)] d by simp
  next
    case Soft_begin
    then show ?thesis using d by (auto split: list.splits if_splits intro!: in_placeI)
  next
    case (Soft_end n)
    then show ?thesis using soft_end_settled [OF c(3,1)] d by simp
  qed (use p in simp_all)
qed

text \<open>A run whose calls are all prompt.\<close>

definition prompt_run :: "kevent list \<Rightarrow> bool" where
  "prompt_run es = list_all (\<lambda>e. case e of Call c \<Rightarrow> prompt c | Clock \<Rightarrow> True) es"

lemma urgent_run:
  assumes "sys_ok s" and "urgent s" and "lawful T cb es s" and "prompt_run es"
  shows "\<exists>s'. krun cb es s = Some s' \<and> sys_ok s' \<and> urgent s'"
  using assms
proof (induction es arbitrary: s)
  case (Cons e es)
  have f: "fair T e s" and pr: "prompt_run es" using Cons.prems(3,4) by (simp_all add: prompt_run_def)
  obtain u where u: "kstep cb e s = Some u" "sys_ok u" using kstep_ok [OF Cons.prems(1) f] .
  have l: "lawful T cb es u" using Cons.prems(3) u(1) by simp
  have "urgent u"
  proof (cases e)
    case (Call c)
    have "settled s u"
      by (rule calls_settled [OF Cons.prems(1)])
        (use Call f Cons.prems(4) u(1) in \<open>simp_all add: fair_def prompt_run_def kstep_def\<close>)
    moreover have "cur_running u" using u(2) by (simp add: sys_ok_def)
    ultimately show ?thesis using settled_urgent Cons.prems(2) by blast
  next
    case Clock
    obtain v where "rt_tick_increase cb s = Some v" "urgent s \<longrightarrow> urgent v" using tick_sys_ok [OF Cons.prems(1)] by metis
    then show ?thesis using u(1) Clock Cons.prems(2) by (simp add: kstep_def)
  qed
  then show ?case using Cons.IH [OF u(2) _ l pr] u(1) by simp
qed simp

text \<open>
  C7. At every point of every run from the start of the system on in which the threads make only
  the calls that reschedule when they have to, no ready thread is more urgent than the thread that
  runs, as long as the scheduler is not locked.
\<close>

theorem most_urgent_thread_runs:
  assumes "lawful {} cb es boot" and "prompt_run es"
  shows "\<exists>s'. krun cb es boot = Some s' \<and> (rt_scheduler_lock_nest s' = 0 \<longrightarrow>
    (\<exists>c. rt_current_thread s' = Some c \<and> th_state s' c = RT_THREAD_RUNNING \<and>
      (\<forall>t. th_state s' t = RT_THREAD_READY \<longrightarrow> th_prio s' c \<le> th_prio s' t)))"
  using urgent_run [OF boot_ok boot_urgent assms] by (auto simp: urgent_def most_urgent_def)

theorem most_urgent_thread_runs_witness:
  "\<exists>s'. krun app_callbacks [Call (Sleep 3), Clock, Call Yield, Call Unlock, Clock] boot = Some s' \<and>
    (rt_scheduler_lock_nest s' = 0 \<longrightarrow>
    (\<exists>c. rt_current_thread s' = Some c \<and> th_state s' c = RT_THREAD_RUNNING \<and>
      (\<forall>t. th_state s' t = RT_THREAD_READY \<longrightarrow> th_prio s' c \<le> th_prio s' t)))"
proof (rule most_urgent_thread_runs)
  show "lawful {} app_callbacks [Call (Sleep 3), Clock, Call Yield, Call Unlock, Clock] boot"
    by (simp add: fair_def may_block_def boot_views timer_thread_def idle_thread_def split: option.split)
qed (simp add: prompt_run_def)
end
