(* ===== verification/KFaults.thy ===== *)
theory KFaults
  imports KPriority
begin

text \<open>
  What the kernel does at the edges: sleeps that are too long, the timer thread when the next soft
  time-out is the largest tick, an overflow of the count of \<open>rt_enter_critical\<close>, and two cases of
  priority inheritance: a release that does not reschedule, and two mutexes, where the order of the
  releases decides whether an inherited priority is given back. The state \<open>held\<close> is the concrete state of the
  witnesses: thread 3, of priority 20, owns mutex 0 and has inherited priority 10 from the main
  thread, whose waiting time for the mutex is over.
\<close>

section \<open>A state with an inherited priority\<close>

definition held_threads :: "nat \<Rightarrow> rt_thread" where
  "held_threads t =
     (let th = \<lparr>th_error = 0, th_stat = RT_THREAD_INIT, th_current_priority = 0, th_init_priority = 0, th_number_mask = 0,
        th_event_set = 0, th_event_info = 0, th_init_tick = 10, th_remaining_tick = 10\<rparr>
      in if t = timer_thread then th\<lparr>th_stat := RT_THREAD_SUSPEND, th_current_priority := 4, th_init_priority := 4, th_number_mask := prio_mask 4\<rparr>
         else if t = idle_thread then th\<lparr>th_stat := RT_THREAD_READY, th_current_priority := 31, th_init_priority := 31, th_number_mask := prio_mask 31\<rparr>
         else if t = main_thread then th\<lparr>th_error := - RT_ETIMEOUT, th_stat := RT_THREAD_READY, th_current_priority := 10, th_init_priority := 10,
             th_number_mask := prio_mask 10\<rparr>
         else if t = 3 then th\<lparr>th_stat := RT_THREAD_RUNNING, th_current_priority := 10, th_init_priority := 20, th_number_mask := prio_mask 10\<rparr>
         else th)"

definition held :: ipc where
  "held = bss\<lparr>rt_threads := held_threads, tlists := (\<lambda>_. [])(Ready 10 := [main_thread], Ready 31 := [idle_thread]),
     rt_thread_ready_priority_group := 0x80000400, rt_current_thread := Some 3, rt_current_priority := 10,
     rt_timers := (\<lambda>t. case t of
        Thread_timer n \<Rightarrow> \<lparr>tm_flag = 0, tm_func = Thread_timeout n, tm_init_tick = 0, tm_timeout_tick = 0\<rparr>
      | Timer n \<Rightarrow> \<lparr>tm_flag = 0, tm_func = Callback n, tm_init_tick = 0, tm_timeout_tick = 0\<rparr>),
     mutexes := (mutexes bss)(0 := \<lparr>mx_value = 0, mx_owner = Some 3, mx_original_priority = 20, mx_hold = 1, mx_flag = RT_IPC_FLAG_PRIO\<rparr>)\<rparr>"

lemma held_views:
  "th_state held t = (if t = timer_thread then RT_THREAD_SUSPEND else if t = idle_thread \<or> t = main_thread then RT_THREAD_READY
     else if t = 3 then RT_THREAD_RUNNING else RT_THREAD_INIT)"
  "th_prio held t = (if t = timer_thread then 4 else if t = idle_thread then 31 else if t = main_thread \<or> t = 3 then 10 else 0)"
  "th_mask held t = (if t = timer_thread then push_bit 4 1 else if t = idle_thread then push_bit 31 1
     else if t = main_thread \<or> t = 3 then push_bit 10 1 else 0)"
  by (auto simp: held_def bss_def held_threads_def th_state_def th_prio_def th_mask_def prio_mask_def Let_def
      timer_thread_def idle_thread_def)

lemma held_group: "p < 32 \<Longrightarrow> bit (0x80000400 :: u32) p \<longleftrightarrow> p = 10 \<or> p = 31"
proof -
  have "\<forall>p\<in>set [0..<32]. bit (0x80000400 :: u32) p \<longleftrightarrow> p = 10 \<or> p = 31" by code_simp
  then show "p < 32 \<Longrightarrow> ?thesis" by simp
qed

lemma held_kernel_ok: "kernel_ok held"
proof -
  have L: "tlists held = (\<lambda>_. [])(Ready 10 := [main_thread], Ready 31 := [idle_thread])" by (simp add: held_def)
  have "lists_wf (th_state held) (th_prio held) (tlists held)"
    unfolding lists_wf_def L by (auto simp: held_views timer_thread_def idle_thread_def)
  moreover have "\<forall>p<32. bit (rt_thread_ready_priority_group held) p \<longleftrightarrow> tlists held (Ready p) \<noteq> []"
  proof (intro allI impI)
    fix p :: nat
    assume p: "p < 32"
    have "rt_thread_ready_priority_group held = 0x80000400" by (simp add: held_def)
    then show "bit (rt_thread_ready_priority_group held) p \<longleftrightarrow> tlists held (Ready p) \<noteq> []"
      by (simp only: held_group [OF p] L) simp
  qed
  moreover have "\<forall>t. th_mask held t = 0 \<or> mask_ok (th_prio held t) (th_mask held t)"
    "\<forall>t. th_state held t \<in> {RT_THREAD_READY, RT_THREAD_SUSPEND, RT_THREAD_RUNNING} \<longrightarrow> th_mask held t \<noteq> 0"
    by (auto simp: held_views mask_ok_def timer_thread_def idle_thread_def)
  ultimately have "table_wf (th_state held) (th_prio held) (th_mask held) (tlists held) (rt_thread_ready_priority_group held)"
    unfolding table_wf_def by blast
  then have "kernel_wf held"
    by (auto simp: kernel_wf_def current_ok_def held_views timer_thread_def idle_thread_def) (auto simp: held_def)
  moreover have "timers_wf held" by (auto simp: timers_wf_def tm_wf_def held_def bss_def tm_active_def split: timer_id.split)
  moreover have "thread_timers_ok held"
    by (auto simp: thread_timers_ok_def held_def bss_def tm_active_def tm_periodic_def tm_soft_def split: timer_id.split)
  ultimately show ?thesis by (simp add: kernel_ok_def)
qed

lemma held_fields:
  "rt_current_thread held = Some 3" "rt_scheduler_lock_nest held = 0" "rows held h = []" "tlists held (Wait l) = []"
  "mutexes held i = (if i = 0 then \<lparr>mx_value = 0, mx_owner = Some 3, mx_original_priority = 20, mx_hold = 1, mx_flag = RT_IPC_FLAG_PRIO\<rparr>
     else \<lparr>mx_value = 1, mx_owner = None, mx_original_priority = 0xFF, mx_hold = 0, mx_flag = RT_IPC_FLAG_PRIO\<rparr>)"
  by (simp_all add: held_def bss_def)

lemma held_ok: "sys_ok held"
  using held_kernel_ok
  by (auto simp: sys_ok_def cur_running_def able_def hard_ready_def hard_threads_def sem_ok_def mutex_ok_def event_ok_def
      held_views held_fields Let_def timer_thread_def idle_thread_def)

section \<open>Priority inheritance\<close>

text \<open>
  The last release of a mutex nobody waits for takes an inherited priority back and does not
  reschedule: the caller goes on although a more urgent thread is ready, which then waits for the
  end of the time slice or the next call of the scheduler.
\<close>

theorem mutex_release_keeps_running:
  assumes "sys_ok s" and "rt_current_thread s = Some t" and "mx_owner (mutexes s i) = Some t" and "mx_hold (mutexes s i) = 1"
    and "tlists s (Wait (Mutex_list i)) = []" and "th_state s u = RT_THREAD_READY"
    and "th_prio s u < unat (mx_original_priority (mutexes s i))"
  shows "\<exists>s'. rt_mutex_release i s = Some (RT_EOK, s') \<and> rt_current_thread s' = Some t \<and> th_state s' t = RT_THREAD_RUNNING \<and>
    th_state s' u = RT_THREAD_READY \<and> th_prio s' u < th_prio s' t"
proof -
  have k: "kernel_ok s" and m: "mutex_ok s" and r: "th_state s t = RT_THREAD_RUNNING" and c0: "rt_current_thread s \<noteq> None"
    using assms(1,2) by (auto simp: sys_ok_def cur_running_def)
  note st = release_steps [OF k m assms(3)] and e = released_effect [OF k c0 m assms(3)]
  have "rt_mutex_release i s = Some (RT_EOK, set_free i t s)" using mutex_release_eq [OF k m assms(2,3)] assms(4,5) by simp
  moreover have "u \<noteq> t" using assms(6) r by auto
  ultimately show ?thesis using st(2,4) e(7) assms(2,6,7) r by simp
qed

theorem mutex_release_keeps_running_witness:
  "\<exists>s'. rt_mutex_release 0 held = Some (RT_EOK, s') \<and> rt_current_thread s' = Some 3 \<and> th_state s' 3 = RT_THREAD_RUNNING \<and>
    th_state s' main_thread = RT_THREAD_READY \<and> th_prio s' main_thread < th_prio s' 3"
  by (rule mutex_release_keeps_running [OF held_ok])
    (simp_all add: held_fields held_views timer_thread_def idle_thread_def)

text \<open>
  A mutex nobody waits for, held once: its release takes the priority the mutex recorded, and nothing
  else about the other mutexes or the caller changes.
\<close>

lemma last_release:
  assumes k: "kernel_ok s" and m: "mutex_ok s" and c: "rt_current_thread s = Some t"
    and o: "mx_owner (mutexes s i) = Some t" "mx_hold (mutexes s i) = 1" "tlists s (Wait (Mutex_list i)) = []"
  obtains s' where "rt_mutex_release i s = Some (RT_EOK, s')" "kernel_ok s'" "mutex_ok s'" "rt_current_thread s' = Some t"
    "th_prio s' t = unat (mx_original_priority (mutexes s i))" "mx_owner (mutexes s' i) = None"
    "\<And>j. j \<noteq> i \<Longrightarrow> mutexes s' j = mutexes s j" "\<And>l. tlists s' (Wait l) = tlists s (Wait l)"
proof -
  have r: "rt_mutex_release i s = Some (RT_EOK, set_free i t s)" using mutex_release_eq [OF k m c o(1)] o(2,3) by simp
  note ok = mutex_release_ok [OF k m c r] and st = release_steps [OF k m o(1)]
  show ?thesis
  proof (rule that [OF r])
    show "kernel_ok (set_free i t s)" "mutex_ok (set_free i t s)" using ok(1,2) .
  qed (use st(2,4,5,7) c in auto)
qed

text \<open>
  C36. A mutex records the priority its owner runs with when it is taken, inherited or not. So for a thread
  that holds a mutex under an inherited priority, whose waiter has gone, and takes a second mutex, the order
  of the two releases decides: released in the order they were taken, the first gives the priority back and
  the second takes it again, and the thread keeps the inherited priority without holding any of the two;
  released in reverse order the thread ends with the priority it had before.
\<close>

theorem nested_mutex_keeps_priority:
  assumes "sys_ok s" and "rt_current_thread s = Some t" and "mx_owner (mutexes s i) = Some t" and "mx_hold (mutexes s i) = 1"
    and "mx_owner (mutexes s j) = None" and "i \<noteq> j" and "tlists s (Wait (Mutex_list i)) = []"
  shows "\<exists>s1. rt_mutex_take j time s = Some (Some RT_EOK, s1) \<and> th_prio s1 t = th_prio s t \<and>
    (\<exists>s2 s3. rt_mutex_release i s1 = Some (RT_EOK, s2) \<and> th_prio s2 t = unat (mx_original_priority (mutexes s i)) \<and>
       rt_mutex_release j s2 = Some (RT_EOK, s3) \<and> mx_owner (mutexes s3 i) = None \<and> mx_owner (mutexes s3 j) = None \<and>
       th_prio s3 t = th_prio s t) \<and>
    (\<exists>s2 s3. rt_mutex_release j s1 = Some (RT_EOK, s2) \<and> th_prio s2 t = th_prio s t \<and>
       rt_mutex_release i s2 = Some (RT_EOK, s3) \<and> mx_owner (mutexes s3 i) = None \<and> mx_owner (mutexes s3 j) = None \<and>
       th_prio s3 t = unat (mx_original_priority (mutexes s i)))"
proof -
  have k: "kernel_ok s" and m: "mutex_ok s" and r: "th_state s t = RT_THREAD_RUNNING"
    using assms(1,2) by (auto simp: sys_ok_def cur_running_def)
  define s1 where "s1 = mx_upd j (\<lambda>m. m\<lparr>mx_value := 0, mx_owner := Some t,
      mx_original_priority := th_current_priority (rt_threads s t), mx_hold := 1\<rparr>) (th_upd t (\<lambda>th. th\<lparr>th_error := RT_EOK\<rparr>) s)"
  have t1: "rt_mutex_take j time s = Some (Some RT_EOK, s1)" using mutex_take_eq [OF m assms(2)] assms(5) by (simp add: s1_def)
  note ok1 = mutex_take_ok [OF k m assms(2) r t1]
  have v1: "mutexes s1 i = mutexes s i" "mx_owner (mutexes s1 j) = Some t" "mx_hold (mutexes s1 j) = 1" "th_prio s1 t = th_prio s t"
    "unat (mx_original_priority (mutexes s1 j)) = th_prio s t" "rt_current_thread s1 = Some t" "tlists s1 = tlists s"
    using assms(2,6) by (simp_all add: s1_def th_prio_def)
  have i1: "mx_owner (mutexes s1 i) = Some t" "mx_hold (mutexes s1 i) = 1" "tlists s1 (Wait (Mutex_list i)) = []"
    using v1 assms(3,4,7) by simp_all
  have j1: "tlists s1 (Wait (Mutex_list j)) = []" using mutex_ok_D(2) [OF m assms(5)] v1(7) by simp
  have fifo: "\<exists>s2 s3. rt_mutex_release i s1 = Some (RT_EOK, s2) \<and> th_prio s2 t = unat (mx_original_priority (mutexes s i)) \<and>
       rt_mutex_release j s2 = Some (RT_EOK, s3) \<and> mx_owner (mutexes s3 i) = None \<and> mx_owner (mutexes s3 j) = None \<and>
       th_prio s3 t = th_prio s t"
  proof (rule last_release [OF ok1(1,2) v1(6) i1])
    fix s2 assume a: "rt_mutex_release i s1 = Some (RT_EOK, s2)" "kernel_ok s2" "mutex_ok s2" "rt_current_thread s2 = Some t"
      "th_prio s2 t = unat (mx_original_priority (mutexes s1 i))" "mx_owner (mutexes s2 i) = None"
      "\<And>j. j \<noteq> i \<Longrightarrow> mutexes s2 j = mutexes s1 j" "\<And>l. tlists s2 (Wait l) = tlists s1 (Wait l)"
    show ?thesis
      by (rule last_release [OF a(2-4), of j]) (use a v1 j1 assms(6) in auto)
  qed
  have lifo: "\<exists>s2 s3. rt_mutex_release j s1 = Some (RT_EOK, s2) \<and> th_prio s2 t = th_prio s t \<and>
       rt_mutex_release i s2 = Some (RT_EOK, s3) \<and> mx_owner (mutexes s3 i) = None \<and> mx_owner (mutexes s3 j) = None \<and>
       th_prio s3 t = unat (mx_original_priority (mutexes s i))"
  proof (rule last_release [OF ok1(1,2) v1(6,2,3) j1])
    fix s2 assume a: "rt_mutex_release j s1 = Some (RT_EOK, s2)" "kernel_ok s2" "mutex_ok s2" "rt_current_thread s2 = Some t"
      "th_prio s2 t = unat (mx_original_priority (mutexes s1 j))" "mx_owner (mutexes s2 j) = None"
      "\<And>i. i \<noteq> j \<Longrightarrow> mutexes s2 i = mutexes s1 i" "\<And>l. tlists s2 (Wait l) = tlists s1 (Wait l)"
    show ?thesis
      by (rule last_release [OF a(2-4), of i]) (use a v1 i1 assms(6) in auto)
  qed
  show ?thesis using t1 v1(4) fifo lifo by blast
qed

theorem nested_mutex_keeps_priority_witness:
  "th_prio held 3 = 10 \<and> th_init_priority (rt_threads held 3) = 20 \<and>
   (\<exists>s1 s2 s3. rt_mutex_take 1 (- 1) held = Some (Some RT_EOK, s1) \<and> rt_mutex_release 0 s1 = Some (RT_EOK, s2) \<and>
    th_prio s2 3 = 20 \<and> rt_mutex_release 1 s2 = Some (RT_EOK, s3) \<and> th_prio s3 3 = 10) \<and>
   (\<exists>s1 s2 s3. rt_mutex_take 1 (- 1) held = Some (Some RT_EOK, s1) \<and> rt_mutex_release 1 s1 = Some (RT_EOK, s2) \<and>
    th_prio s2 3 = 10 \<and> rt_mutex_release 0 s2 = Some (RT_EOK, s3) \<and> th_prio s3 3 = 20)"
proof -
  have p: "th_prio held 3 = 10" "unat (mx_original_priority (mutexes held 0)) = 20"
    by (simp_all add: held_views held_fields timer_thread_def idle_thread_def)
  have i: "th_init_priority (rt_threads held 3) = 20" by (simp add: held_def held_threads_def timer_thread_def idle_thread_def)
  have h: "mx_owner (mutexes held 0) = Some 3" "mx_hold (mutexes held 0) = 1" "mx_owner (mutexes held 1) = None" "(0 :: nat) \<noteq> 1"
    by (simp_all add: held_fields)
  note n = nested_mutex_keeps_priority [OF held_ok held_fields(1) h held_fields(4), of "- 1", unfolded p]
  then show ?thesis using i p by metis
qed

section \<open>Too long a sleep and an overflow\<close>

text \<open>
  A sleep returns to the scheduler exactly for less than \<open>2 ^ 31 - 1\<close> ticks. A longer one,
  \<open>rt_thread_mdelay (-1)\<close> among them, fails the assertion of the timer start.
\<close>

theorem sleep_bound:
  assumes "sys_ok s" and "may_block s"
  shows "do_call (Sleep n) s \<noteq> None \<longleftrightarrow> n < 0x7FFFFFFF"
proof (cases "n < 0x7FFFFFFF")
  case True
  then have "allowed (Sleep n) s" using assms(2) by simp
  then obtain u where "do_call (Sleep n) s = Some u" using calls_ok [OF assms(1)] by metis
  then show ?thesis using True by simp
next
  case False
  obtain cur where c: "rt_current_thread s = Some cur" using sys_running [OF assms(1)] .
  obtain s1 where s1: "rt_thread_suspend cur s = Some (RT_EOK, s1)" "effect {cur} s s1" "th_state s1 cur = RT_THREAD_SUSPEND"
    using suspend_self [OF assms(1) c] by metis
  have k1: "kernel_ok s1" using effect_ok [OF s1(2)] by simp
  have m: "th_mask s1 cur \<noteq> 0" using kernel_wf_mask [of s1 cur] k1 s1(3) by (simp add: kernel_ok_def)
  have "start_thread_timer cur n s1 = None" using start_thread_timer_eq [OF k1 m] False by (simp add: timer_arm_eq)
  then show ?thesis using c s1(1) False by (simp add: rt_thread_sleep_def)
qed

theorem sleep_bound_witness: "do_call (Sleep (rt_tick_from_millisecond (- 1))) boot = None"
proof -
  have "may_block boot" by (simp add: may_block_def boot_views timer_thread_def idle_thread_def)
  from sleep_bound [OF boot_ok this, of "rt_tick_from_millisecond (- 1)"]
  show ?thesis by (simp add: rt_tick_from_millisecond_def)
qed

text \<open>
  The count of \<open>rt_enter_critical\<close> is a signed 16-bit number, so the documented depth of 65535 is
  not reached: one step past 32767 the next \<open>rt_exit_critical\<close> unlocks the scheduler at once.
\<close>

lemma critical_nest_overflow:
  assumes s: "sys_ok s" and n: "rt_scheduler_lock_nest s = 0x7FFF"
  shows "\<exists>s'. rt_exit_critical (rt_enter_critical (rt_enter_critical s)) = Some s' \<and> rt_scheduler_lock_nest s' = 0"
proof -
  obtain cur where c: "rt_current_thread s = Some cur" "kernel_ok s" using sys_running [OF s] .
  have c0: "rt_current_thread s \<noteq> None" using c by simp
  let ?u = "s\<lparr>rt_scheduler_lock_nest := 0\<rparr>"
  have "kernel_ok ?u" using effect_ok(1) [OF lock_effect(1) [OF c(2) c0, of 0]] .
  then obtain s' where s': "rt_schedule ?u = Some s'" using schedule_total [of ?u cur] c by (auto simp: kernel_ok_def)
  have "rt_exit_critical (rt_enter_critical (rt_enter_critical s)) = rt_schedule ?u"
    using n c by (simp add: rt_exit_critical_def rt_enter_critical_def)
  then show ?thesis using s' schedule_frame(5) [OF s'] by simp
qed

section \<open>The timer thread\<close>

definition parked :: "nat \<Rightarrow> 'a kernel_scheme \<Rightarrow> bool" where
  "parked t s \<longleftrightarrow> \<not> able s t \<and> Thread_timer t \<notin> set (rows s Hard)"

lemma parked_step:
  assumes s: "sys_ok s" and f: "fair {t} e s" and r: "kstep cb e s = Some s'" and p: "parked t s"
  shows "parked t s'"
proof (cases e)
  case (Call c)
  then have a: "allowed c s" "t \<notin> touched c s" using f by (simp_all add: fair_def)
  obtain u where "do_call c s = Some u" "effect (touched c s) s u" using calls_ok [OF s a(1)] .
  then show ?thesis using a(2) p r Call by (auto simp: kstep_def effect_def parked_def same_thread_def)
next
  case Clock
  obtain u where u: "rt_tick_increase cb s = Some u" "\<And>t. able u t \<longleftrightarrow> able s t \<or> t \<in> expired (rt_tick s) s"
    "\<And>t. \<not> able u t \<Longrightarrow> same_thread t s u" using tick_sys_ok [OF s] by metis
  have "t \<notin> expired (rt_tick s) s" using p by (simp add: parked_def expired_def)
  then have n: "\<not> able u t" using u(2) p by (simp add: parked_def)
  then show ?thesis using u(1,3) p r Clock by (auto simp: kstep_def parked_def same_thread_def)
qed

lemma parked_run:
  assumes "sys_ok s" and "lawful {t} cb es s" and "parked t s"
  shows "\<exists>s'. krun cb es s = Some s' \<and> parked t s'"
  using assms
proof (induction es arbitrary: s)
  case (Cons e es)
  have f: "fair {t} e s" using Cons.prems(2) by simp
  obtain u where u: "kstep cb e s = Some u" "sys_ok u" using kstep_ok [OF Cons.prems(1) f] .
  show ?case using Cons.IH [OF u(2) _ parked_step [OF Cons.prems(1) f u(1) Cons.prems(3)]] Cons.prems(2) u(1) by simp
qed simp

text \<open>
  C35. When the next soft time-out is the largest tick, the timer thread takes it for an empty list
  and suspends itself without a timer: it does not run again, and the soft timers do not
  fire, however many ticks pass, until a thread starts another soft timer.
\<close>

theorem timer_thread_sleeps_for_ever:
  assumes "sys_ok s" and "may_block s" and "rt_current_thread s = Some timer_thread" and "rows s Soft = x # xs"
    and "tm_timeout_tick (rt_timers s x) = RT_TICK_MAX" and "do_call Timer_wait s = Some s1" and "lawful {timer_thread} cb es s1"
  shows "\<exists>s'. krun cb es s1 = Some s' \<and> \<not> able s' timer_thread"
proof -
  have a: "allowed Timer_wait s" using assms(2) by simp
  obtain u where u: "do_call Timer_wait s = Some u" "sys_ok u" using calls_ok [OF assms(1) a] .
  obtain e v where v: "rt_thread_suspend timer_thread s = Some (e, v)" "rt_schedule v = Some s1"
    using assms(3-6) by (auto simp: timer_thread_wait_def timer_list_next_timeout_def Let_def bind_eq_Some_conv split: prod.splits)
  have k: "kernel_ok s" and r: "th_state s timer_thread = RT_THREAD_RUNNING" using assms(1,3) by (auto simp: sys_ok_def cur_running_def)
  have kv: "kernel_ok v" "kernel_wf v" using kernel_ok_suspend [OF k v(1)] by (simp_all add: kernel_ok_def)
  have st: "th_state v timer_thread = RT_THREAD_SUSPEND" using suspend_state [OF v(1)] r by simp
  have cv: "rt_current_thread v = Some timer_thread" using suspend_views [OF v(1)] assms(3) by simp
  have "Thread_timer timer_thread \<notin> set (rows v Hard)"
  proof -
    have "\<not> tm_active (rt_timers v (Thread_timer timer_thread))"
      using v(1) by (cases rule: suspend_cases) (use r in \<open>simp_all add: stop_inactive\<close>)
    then show ?thesis using timers_wf_free kv(1) by (auto simp: kernel_ok_def)
  qed
  moreover have "\<not> able s1 timer_thread" using schedule_able(1) [OF kv(2) cv v(2)] st by (simp add: able_def)
  ultimately have "parked timer_thread s1" using schedule_frame(1) [OF v(2)] by (simp add: parked_def)
  then show ?thesis using parked_run [OF _ assms(7)] u assms(6) by (auto simp: parked_def)
qed

text \<open>The witness: at the start of the system a soft timer waits for the largest tick.\<close>

definition late :: ipc where
  "late = boot\<lparr>rt_tick := 0xFFFFFF9B, rt_timers := (rt_timers boot)(Timer 0 := \<lparr>tm_flag = 7, tm_func = Callback 0,
     tm_init_tick = 100, tm_timeout_tick = RT_TICK_MAX\<rparr>), rows := (rows boot)(Soft := [Timer 0])\<rparr>"

lemma late_ok: "sys_ok late"
proof -
  have k: "kernel_ok boot" "timers_wf boot" "kernel_wf boot" "thread_timers_ok boot" using boot_ok by (simp_all add: sys_ok_def kernel_ok_def)
  have "(rows boot Soft, rows boot Soft_temp) = ([], [])" by code_simp
  then have empty: "rows boot h = []" for h using boot_views(5) by (cases h) simp_all
  have rows: "rows late = (rows boot)(Soft := [Timer 0])" "rt_tick late = 0xFFFFFF9B"
    "rt_timers late = (rt_timers boot)(Timer 0 := \<lparr>tm_flag = 7, tm_func = Callback 0, tm_init_tick = 100, tm_timeout_tick = RT_TICK_MAX\<rparr>)"
    "tlists late = tlists boot" "rt_current_thread late = rt_current_thread boot" "rt_threads late = rt_threads boot"
    "rt_thread_ready_priority_group late = rt_thread_ready_priority_group boot" "sems late = sems boot" "mutexes late = mutexes boot"
    "events late = events boot" by (simp_all add: late_def)
  have st: "th_state late = th_state boot" "th_prio late = th_prio boot" "th_mask late = th_mask boot" "ev_info late = ev_info boot"
    by (simp_all add: fun_eq_iff th_state_def th_prio_def th_mask_def ev_info_def rows)
  have "kernel_wf late" using k(3) kernel_wf_cong [OF st(1-3) rows(4,7,5)] by simp
  moreover have "timers_wf late"
    using k(2) by (auto simp: empty timers_wf_def tm_wf_def rows tm_active_def tm_soft_def split: if_splits)
  moreover have "thread_timers_ok late" using k(4) by (auto simp: thread_timers_ok_def rows st)
  moreover have "hard_ready (rt_tick late) late"
    using boot_views(5) by (auto simp: hard_ready_def hard_threads_def rows)
  moreover have "mutex_ok late" using boot_ok by (simp add: sys_ok_def mutex_ok_def rows st cong: option.case_cong)
  ultimately show ?thesis
    using boot_ok by (auto simp: sys_ok_def kernel_ok_def cur_running_def able_def sem_ok_def event_ok_def rows st)
qed

theorem timer_thread_sleeps_for_ever_witness:
  "\<exists>s1 s'. do_call Timer_wait late = Some s1 \<and> krun app_callbacks (replicate 1000 Clock) s1 = Some s' \<and> \<not> able s' timer_thread"
proof -
  have b: "may_block late" using boot_views by (simp add: may_block_def late_def timer_thread_def idle_thread_def)
  then have a: "allowed Timer_wait late" by simp
  obtain s1 where s1: "do_call Timer_wait late = Some s1" using calls_ok [OF late_ok a] .
  have l: "lawful {timer_thread} app_callbacks (replicate n Clock) s" for n s
    by (induction n arbitrary: s) (simp_all add: fair_def split: option.split)
  have x: "rows late Soft = Timer 0 # []" "tm_timeout_tick (rt_timers late (Timer 0)) = RT_TICK_MAX"
    "rt_current_thread late = Some timer_thread" using boot_views(1) by (simp_all add: late_def)
  from timer_thread_sleeps_for_ever [OF late_ok b x(3,1,2) s1 l] s1 show ?thesis by blast
qed
end
