(* ===== verification/KMem.thy ===== *)
theory KMem
  imports Prelude "HOL-Library.Monad_Syntax"
begin

text \<open>
  The memory management of RT-Thread: the small memory allocator (\<open>src/mem.c\<close>) and the services of
  \<open>src/kservice.c\<close> that hand it out as the system heap. The heap is the bytes of the memory: the
  header of a block (\<open>rt_small_mem_item\<close>) is three little-endian words in front of its payload, so
  what a client writes and what the allocator writes are stores to the same memory. The object of
  the heap (\<open>rt_small_mem\<close>) is a record. Its name, its object list, the debug output and the memory
  trace (\<open>RT_USING_MEMTRACE\<close> is off) are left out.

  \<open>None\<close> is the value of a run that does not return: a failed \<open>RT_ASSERT\<close>, a loop without end, or a
  block whose header names another heap. A null pointer is the address 0.

  The abstract heap is the list of its blocks, each with its length (header included) and whether
  it is used; \<open>heap_ok\<close> connects the two.
\<close>

section \<open>Words in memory\<close>

definition ld32 :: "memory \<Rightarrow> nat \<Rightarrow> u32" where
  "ld32 m a = of_le32 (mread m a 4)"

definition st32 :: "nat \<Rightarrow> u32 \<Rightarrow> memory \<Rightarrow> memory" where
  "st32 a v m = mwrite m a (le32 v)"

lemma ld32_st32 [simp]: "ld32 (st32 a v m) a = v"
  by (simp add: ld32_def st32_def mread_mwrite_same)

lemma ld32_st32_other [simp]: "b + 4 \<le> a \<or> a + 4 \<le> b \<Longrightarrow> ld32 (st32 a v m) b = ld32 m b"
  unfolding ld32_def st32_def by (subst mread_mwrite_disjoint) auto

lemma st32_other [simp]: "x < a \<or> a + 4 \<le> x \<Longrightarrow> st32 a v m x = m x"
  unfolding st32_def by (rule mwrite_out) simp

lemma ld32_cong: "(\<And>i. i < 4 \<Longrightarrow> m (a + i) = m' (a + i)) \<Longrightarrow> ld32 m a = ld32 m' a"
  unfolding ld32_def by (simp cong: mread_cong)

section \<open>The allocator\<close>

record rt_small_mem =
  sm_ptr :: u32
  heap_ptr :: u32
  heap_end :: u32
  lfree :: u32
  mem_size_aligned :: u32
  mem_total :: u32
  mem_used :: u32
  mem_max :: u32
  ram :: memory

definition RT_ALIGN :: "u32 \<Rightarrow> u32 \<Rightarrow> u32" where
  "RT_ALIGN sz align = (sz + align - 1) AND NOT (align - 1)"

definition RT_ALIGN_DOWN :: "u32 \<Rightarrow> u32 \<Rightarrow> u32" where
  "RT_ALIGN_DOWN sz align = sz AND NOT (align - 1)"

abbreviation (input) RT_ALIGN_SIZE :: u32 where "RT_ALIGN_SIZE \<equiv> 4"
abbreviation (input) MEM_MASK :: u32 where "MEM_MASK \<equiv> 0xfffffffe"
abbreviation (input) MIN_SIZE :: u32 where "MIN_SIZE \<equiv> 12"
abbreviation (input) MIN_SIZE_ALIGNED :: u32 where "MIN_SIZE_ALIGNED \<equiv> 12"
abbreviation (input) SIZEOF_STRUCT_MEM :: u32 where "SIZEOF_STRUCT_MEM \<equiv> 12"

text \<open>The fields of the header at the address \<open>a\<close>.\<close>

definition pool_ptr :: "u32 \<Rightarrow> rt_small_mem \<Rightarrow> u32" where "pool_ptr a s = ld32 (ram s) (unat a)"
definition item_next :: "u32 \<Rightarrow> rt_small_mem \<Rightarrow> u32" where "item_next a s = ld32 (ram s) (unat (a + 4))"
definition item_prev :: "u32 \<Rightarrow> rt_small_mem \<Rightarrow> u32" where "item_prev a s = ld32 (ram s) (unat (a + 8))"

definition set_pool :: "u32 \<Rightarrow> u32 \<Rightarrow> rt_small_mem \<Rightarrow> rt_small_mem" where
  "set_pool a v s = s\<lparr>ram := st32 (unat a) v (ram s)\<rparr>"

definition set_next :: "u32 \<Rightarrow> u32 \<Rightarrow> rt_small_mem \<Rightarrow> rt_small_mem" where
  "set_next a v s = s\<lparr>ram := st32 (unat (a + 4)) v (ram s)\<rparr>"

definition set_prev :: "u32 \<Rightarrow> u32 \<Rightarrow> rt_small_mem \<Rightarrow> rt_small_mem" where
  "set_prev a v s = s\<lparr>ram := st32 (unat (a + 8)) v (ram s)\<rparr>"

definition MEM_USED :: "rt_small_mem \<Rightarrow> u32" where "MEM_USED s = (sm_ptr s AND MEM_MASK) OR 1"
definition MEM_FREED :: "rt_small_mem \<Rightarrow> u32" where "MEM_FREED s = (sm_ptr s AND MEM_MASK) OR 0"
definition MEM_ISUSED :: "u32 \<Rightarrow> rt_small_mem \<Rightarrow> bool" where "MEM_ISUSED a s \<longleftrightarrow> pool_ptr a s AND NOT MEM_MASK \<noteq> 0"
definition MEM_POOL :: "u32 \<Rightarrow> rt_small_mem \<Rightarrow> u32" where "MEM_POOL a s = pool_ptr a s AND MEM_MASK"

text \<open>The joining of an item with the one behind it, as \<open>plug_holes\<close> does it in both directions.\<close>

definition join_items :: "u32 \<Rightarrow> u32 \<Rightarrow> rt_small_mem \<Rightarrow> rt_small_mem" where
  "join_items a b s =
     (let s = set_pool b 0 s;
          s = set_next a (item_next b s) s
      in set_prev (heap_ptr s + item_next b s) (a - heap_ptr s) s)"

definition plug_holes :: "u32 \<Rightarrow> rt_small_mem \<Rightarrow> rt_small_mem option" where
  "plug_holes mem s =
     (if heap_ptr s \<le> mem \<and> mem < heap_end s then
        let nmem = heap_ptr s + item_next mem s;
            s = (if mem \<noteq> nmem \<and> \<not> MEM_ISUSED nmem s \<and> nmem \<noteq> heap_end s
                 then join_items mem nmem (if lfree s = nmem then s\<lparr>lfree := mem\<rparr> else s)
                 else s);
            pmem = heap_ptr s + item_prev mem s;
            s = (if pmem \<noteq> mem \<and> \<not> MEM_ISUSED pmem s
                 then join_items pmem mem (if lfree s = mem then s\<lparr>lfree := pmem\<rparr> else s)
                 else s)
        in Some s
      else None)"

text \<open>The object takes 64 bytes in front of the blocks.\<close>

definition rt_smem_init :: "u32 \<Rightarrow> u32 \<Rightarrow> memory \<Rightarrow> rt_small_mem option" where
  "rt_smem_init begin_addr sz m =
     (let small_mem = RT_ALIGN begin_addr RT_ALIGN_SIZE;
          start_addr = small_mem + 64;
          begin_align = RT_ALIGN start_addr RT_ALIGN_SIZE;
          end_align = RT_ALIGN_DOWN (begin_addr + sz) RT_ALIGN_SIZE
      in if end_align > 2 * SIZEOF_STRUCT_MEM \<and> end_align - 2 * SIZEOF_STRUCT_MEM \<ge> start_addr then
           let mem_size = end_align - begin_align - 2 * SIZEOF_STRUCT_MEM;
               s = \<lparr>sm_ptr = small_mem, heap_ptr = begin_align, heap_end = 0, lfree = 0, mem_size_aligned = mem_size,
                    mem_total = mem_size, mem_used = 0, mem_max = 0, ram = mfill m (unat small_mem) 64 0\<rparr>;
               mem = heap_ptr s;
               s = set_pool mem (MEM_FREED s) s;
               s = set_next mem (mem_size_aligned s + SIZEOF_STRUCT_MEM) s;
               s = set_prev mem 0 s;
               s = s\<lparr>heap_end := heap_ptr s + item_next mem s\<rparr>;
               s = set_pool (heap_end s) (MEM_USED s) s;
               s = set_next (heap_end s) (mem_size_aligned s + SIZEOF_STRUCT_MEM) s;
               s = set_prev (heap_end s) (mem_size_aligned s + SIZEOF_STRUCT_MEM) s
           in Some (s\<lparr>lfree := heap_ptr s\<rparr>)
         else None)"

text \<open>The search of \<open>rt_smem_alloc\<close> for a free block that is large enough.\<close>

partial_function (option) smem_search :: "u32 \<Rightarrow> u32 \<Rightarrow> rt_small_mem \<Rightarrow> u32 option option" where
  "smem_search sz ptr s =
     (if ptr \<le> mem_size_aligned s - sz then
        let mem = heap_ptr s + ptr
        in if \<not> MEM_ISUSED mem s \<and> item_next mem s - (ptr + SIZEOF_STRUCT_MEM) \<ge> sz then Some (Some ptr)
           else smem_search sz (item_next mem s) s
      else Some None)"

text \<open>The remainder of a block behind \<open>sz\<close> bytes becomes a free block.\<close>

definition smem_split :: "u32 \<Rightarrow> u32 \<Rightarrow> rt_small_mem \<Rightarrow> rt_small_mem" where
  "smem_split ptr sz s =
     (let mem = heap_ptr s + ptr;
          ptr2 = ptr + SIZEOF_STRUCT_MEM + sz;
          mem2 = heap_ptr s + ptr2;
          s = set_pool mem2 (MEM_FREED s) s;
          s = set_next mem2 (item_next mem s) s;
          s = set_prev mem2 ptr s;
          s = set_next mem ptr2 s
      in if item_next mem2 s \<noteq> mem_size_aligned s + SIZEOF_STRUCT_MEM
         then set_prev (heap_ptr s + item_next mem2 s) ptr2 s else s)"

definition count_used :: "u32 \<Rightarrow> rt_small_mem \<Rightarrow> rt_small_mem" where
  "count_used n s =
     (let s = s\<lparr>mem_used := mem_used s + n\<rparr>
      in if mem_max s < mem_used s then s\<lparr>mem_max := mem_used s\<rparr> else s)"

text \<open>The loop that moves \<open>lfree\<close> to the next free block.\<close>

partial_function (option) skip_used :: "u32 \<Rightarrow> rt_small_mem \<Rightarrow> u32 option" where
  "skip_used p s =
     (if MEM_ISUSED p s \<and> p \<noteq> heap_end s then skip_used (heap_ptr s + item_next p s) s else Some p)"

definition smem_take :: "u32 \<Rightarrow> u32 \<Rightarrow> rt_small_mem \<Rightarrow> (u32 \<times> rt_small_mem) option" where
  "smem_take ptr sz s =
     (let mem = heap_ptr s + ptr;
          s = (if item_next mem s - (ptr + SIZEOF_STRUCT_MEM) \<ge> sz + SIZEOF_STRUCT_MEM + MIN_SIZE_ALIGNED
               then count_used (sz + SIZEOF_STRUCT_MEM) (smem_split ptr sz s)
               else count_used (item_next mem s - (mem - heap_ptr s)) s);
          s = set_pool mem (MEM_USED s) s
      in do {
        s \<leftarrow> (if mem = lfree s then do { p \<leftarrow> skip_used (lfree s) s; Some (s\<lparr>lfree := p\<rparr>) } else Some s);
        if mem + SIZEOF_STRUCT_MEM + sz \<le> heap_end s \<and> (mem + SIZEOF_STRUCT_MEM) mod RT_ALIGN_SIZE = 0 \<and>
           mem AND (RT_ALIGN_SIZE - 1) = 0
        then Some (mem + SIZEOF_STRUCT_MEM, s) else None
      })"

definition rt_smem_alloc :: "u32 \<Rightarrow> rt_small_mem \<Rightarrow> (u32 \<times> rt_small_mem) option" where
  "rt_smem_alloc sz s =
     (if sz = 0 then Some (0, s)
      else
        let sz = RT_ALIGN sz RT_ALIGN_SIZE
        in if sz > mem_size_aligned s then Some (0, s)
           else
             let sz = (if sz < MIN_SIZE_ALIGNED then MIN_SIZE_ALIGNED else sz)
             in do {
               r \<leftarrow> smem_search sz (lfree s - heap_ptr s) s;
               case r of None \<Rightarrow> Some (0, s) | Some ptr \<Rightarrow> smem_take ptr sz s
             })"

definition rt_smem_free :: "u32 \<Rightarrow> rt_small_mem \<Rightarrow> rt_small_mem option" where
  "rt_smem_free rmem s =
     (if rmem = 0 then Some s
      else if rmem AND (RT_ALIGN_SIZE - 1) \<noteq> 0 then None
      else
        let mem = rmem - SIZEOF_STRUCT_MEM
        in if MEM_POOL mem s = sm_ptr s \<and> MEM_ISUSED mem s \<and> heap_ptr s \<le> rmem \<and> rmem < heap_end s \<and>
              MEM_POOL (heap_ptr s + item_next mem s) s = sm_ptr s then
             let s = set_pool mem (MEM_FREED s) s;
                 s = (if mem < lfree s then s\<lparr>lfree := mem\<rparr> else s);
                 s = s\<lparr>mem_used := mem_used s - (item_next mem s - (mem - heap_ptr s))\<rparr>
             in plug_holes mem s
           else None)"

definition rt_smem_realloc :: "u32 \<Rightarrow> u32 \<Rightarrow> rt_small_mem \<Rightarrow> (u32 \<times> rt_small_mem) option" where
  "rt_smem_realloc rmem newsize s =
     (let newsize = RT_ALIGN newsize RT_ALIGN_SIZE
      in if newsize > mem_size_aligned s then Some (0, s)
         else if newsize = 0 then map_option (Pair 0) (rt_smem_free rmem s)
         else if rmem = 0 then rt_smem_alloc newsize s
         else if \<not> (rmem AND (RT_ALIGN_SIZE - 1) = 0 \<and> rmem \<ge> heap_ptr s \<and> rmem < heap_end s) then None
         else
           let mem = rmem - SIZEOF_STRUCT_MEM;
               ptr = mem - heap_ptr s;
               sz = item_next mem s - ptr - SIZEOF_STRUCT_MEM
           in if sz = newsize then Some (rmem, s)
              else if newsize + SIZEOF_STRUCT_MEM + MIN_SIZE < sz then
                let s = s\<lparr>mem_used := mem_used s - (sz - newsize)\<rparr>;
                    mem2 = heap_ptr s + (ptr + SIZEOF_STRUCT_MEM + newsize);
                    s = smem_split ptr newsize s;
                    s = (if mem2 < lfree s then s\<lparr>lfree := mem2\<rparr> else s)
                in map_option (Pair rmem) (plug_holes mem2 s)
              else do {
                (nmem, s) \<leftarrow> rt_smem_alloc newsize s;
                if nmem \<noteq> 0 then
                  let s = s\<lparr>ram := mwrite (ram s) (unat nmem)
                        (mread (ram s) (unat rmem) (unat (if sz < newsize then sz else newsize)))\<rparr>
                  in map_option (Pair nmem) (rt_smem_free rmem s)
                else Some (nmem, s)
              })"

text \<open>The services of the system heap (\<open>kservice.c\<close>); the lock around them is a mutex of theory \<open>KIpc\<close>.\<close>

definition rt_system_heap_init :: "u32 \<Rightarrow> u32 \<Rightarrow> memory \<Rightarrow> rt_small_mem option" where
  "rt_system_heap_init begin_addr end_addr m =
     (let begin_align = RT_ALIGN begin_addr RT_ALIGN_SIZE;
          end_align = RT_ALIGN_DOWN end_addr RT_ALIGN_SIZE
      in if end_align > begin_align then rt_smem_init begin_addr (end_align - begin_align) m else None)"

definition rt_malloc :: "u32 \<Rightarrow> rt_small_mem \<Rightarrow> (u32 \<times> rt_small_mem) option" where
  "rt_malloc sz s = rt_smem_alloc sz s"

definition rt_realloc :: "u32 \<Rightarrow> u32 \<Rightarrow> rt_small_mem \<Rightarrow> (u32 \<times> rt_small_mem) option" where
  "rt_realloc rmem newsize s = rt_smem_realloc rmem newsize s"

definition rt_free :: "u32 \<Rightarrow> rt_small_mem \<Rightarrow> rt_small_mem option" where
  "rt_free rmem s = rt_smem_free rmem s"

definition rt_calloc :: "u32 \<Rightarrow> u32 \<Rightarrow> rt_small_mem \<Rightarrow> (u32 \<times> rt_small_mem) option" where
  "rt_calloc count sz s = do {
     (p, s) \<leftarrow> rt_malloc (count * sz) s;
     Some (p, if p \<noteq> 0 then s\<lparr>ram := mfill (ram s) (unat p) (unat (count * sz)) 0\<rparr> else s)
   }"

definition rt_malloc_align :: "u32 \<Rightarrow> u32 \<Rightarrow> rt_small_mem \<Rightarrow> (u32 \<times> rt_small_mem) option" where
  "rt_malloc_align sz align s =
     (let align = (align + 3) AND NOT 3;
          align_size = ((sz + 3) AND NOT 3) + align
      in do {
        (ptr, s) \<leftarrow> rt_malloc align_size s;
        if ptr \<noteq> 0 then
          let align_ptr = (if ptr AND (align - 1) = 0 then ptr + align else (ptr + (align - 1)) AND NOT (align - 1))
          in Some (align_ptr, s\<lparr>ram := st32 (unat (align_ptr - 4)) ptr (ram s)\<rparr>)
        else Some (ptr, s)
      })"

definition rt_free_align :: "u32 \<Rightarrow> rt_small_mem \<Rightarrow> rt_small_mem option" where
  "rt_free_align ptr s = rt_free (ld32 (ram s) (unat (ptr - 4))) s"

definition rt_memory_info :: "rt_small_mem \<Rightarrow> u32 \<times> u32 \<times> u32" where
  "rt_memory_info s = (mem_total s, mem_used s, mem_max s)"

end
