(* ===== verification/KHeap.thy ===== *)
theory KHeap
  imports KMem
begin

text \<open>
  What the allocator of theory \<open>KMem\<close> promises, in terms of the list of its blocks.
\<close>

section \<open>The chain of the headers\<close>

text \<open>Offsets in the heap are words.\<close>

definition off :: "nat \<Rightarrow> u32" where
  "off q = of_nat q"

text \<open>A block is its length, header included, and whether it is used.\<close>

type_synonym blocks = "(nat \<times> bool) list"

definition extent :: "blocks \<Rightarrow> nat" where
  "extent bs = sum_list (map fst bs)"

lemma extent_simps [simp]:
  "extent [] = 0" "extent (b # bs) = fst b + extent bs" "extent (bs @ cs) = extent bs + extent cs"
  by (simp_all add: extent_def)

definition tag :: "u32 \<Rightarrow> bool \<Rightarrow> u32" where
  "tag w u = (if u then w OR 1 else w)"

text \<open>
  \<open>seg m B w p q bs\<close>: from the offset \<open>q\<close> of the heap at \<open>B\<close> the memory holds the headers of the
  blocks \<open>bs\<close>, the first of them pointing back to the offset \<open>p\<close>; \<open>w\<close> is the address of the object.
\<close>

fun seg :: "memory \<Rightarrow> nat \<Rightarrow> u32 \<Rightarrow> nat \<Rightarrow> nat \<Rightarrow> blocks \<Rightarrow> bool" where
  "seg m B w p q [] \<longleftrightarrow> True"
| "seg m B w p q ((n, u) # bs) \<longleftrightarrow>
     ld32 m (B + q) = tag w u \<and> ld32 m (B + q + 4) = off (q + n) \<and> ld32 m (B + q + 8) = off p \<and>
     12 \<le> n \<and> seg m B w q (q + n) bs"

definition last_start :: "nat \<Rightarrow> nat \<Rightarrow> blocks \<Rightarrow> nat" where
  "last_start p q bs = (if bs = [] then p else q + extent (butlast bs))"

lemma seg_append:
  "seg m B w p q (us @ vs) \<longleftrightarrow> seg m B w p q us \<and> seg m B w (last_start p q us) (q + extent us) vs"
  by (induction us arbitrary: p q) (auto simp: last_start_def add.assoc)

lemma seg_frame:
  assumes "seg m B w p q bs" and "\<And>x. B + q \<le> x \<Longrightarrow> x < B + q + extent bs \<Longrightarrow> m' x = m x"
  shows "seg m' B w p q bs"
  using assms
proof (induction bs arbitrary: p q)
  case (Cons b bs)
  obtain n u where b: "b = (n, u)" by force
  with Cons.prems have n: "12 \<le> n" by simp
  have "ld32 m' (B + q + i) = ld32 m (B + q + i)" if "i \<le> 8" for i
    using Cons.prems(2) n that b by (intro ld32_cong) simp
  from this [of 0] this [of 4] this [of 8] show ?case
    using Cons.prems b by (auto intro!: Cons.IH)
qed simp

lemma seg_retarget: "seg m B w p q bs \<Longrightarrow> seg (st32 (B + q + 8) (off p') m) B w p' q bs"
proof (cases bs)
  case (Cons b cs)
  assume s: "seg m B w p q bs"
  obtain n u where b: "b = (n, u)" by force
  have "seg (st32 (B + q + 8) (off p') m) B w q (q + n) cs"
    by (rule seg_frame [where m = m]) (use s Cons b in auto)
  then show ?thesis using s Cons b by simp
qed simp

lemma seg_lengths: "seg m B w p q bs \<Longrightarrow> \<forall>b\<in>set bs. 12 \<le> fst b"
  by (induction m B w p q bs rule: seg.induct) auto

definition tiled :: "memory \<Rightarrow> nat \<Rightarrow> u32 \<Rightarrow> blocks \<Rightarrow> bool" where
  "tiled m B w bs \<longleftrightarrow> seg m B w 0 0 bs \<and> ld32 m (B + extent bs) = tag w True \<and>
     ld32 m (B + extent bs + 4) = off (extent bs)"

lemma tiled_split:
  "tiled m B w (us @ (n, u) # vs) \<longleftrightarrow>
     seg m B w 0 0 us \<and> ld32 m (B + extent us) = tag w u \<and> ld32 m (B + extent us + 4) = off (extent us + n) \<and>
     ld32 m (B + extent us + 8) = off (last_start 0 0 us) \<and> 12 \<le> n \<and>
     seg m B w (extent us) (extent us + n) vs \<and>
     ld32 m (B + extent us + n + extent vs) = tag w True \<and>
     ld32 m (B + extent us + n + extent vs + 4) = off (extent us + n + extent vs)"
  by (auto simp: tiled_def seg_append add.assoc)

text \<open>Changing the tag of a block.\<close>

lemma tiled_tag:
  assumes "tiled m B w (us @ (n, u) # vs)"
  shows "tiled (st32 (B + extent us) (tag w u') m) B w (us @ (n, u') # vs)"
proof -
  have "seg (st32 (B + extent us) (tag w u') m) B w 0 0 us" "seg (st32 (B + extent us) (tag w u') m) B w (extent us) (extent us + n) vs"
    by (rule seg_frame [where m = m]; use assms in \<open>auto simp: tiled_split\<close>)+
  then show ?thesis using assms by (simp add: tiled_split)
qed

text \<open>Splitting a block.\<close>

definition split_mem :: "nat \<Rightarrow> u32 \<Rightarrow> nat \<Rightarrow> nat \<Rightarrow> nat \<Rightarrow> memory \<Rightarrow> memory" where
  "split_mem B w q k n m =
     st32 (B + q + 4) (off (q + k)) (st32 (B + (q + k) + 8) (off q)
       (st32 (B + (q + k) + 4) (off (q + n)) (st32 (B + (q + k)) w m)))"

lemma tiled_cut:
  assumes t: "tiled m B w (us @ (n, u) # vs)" and k: "12 \<le> k" "k + 12 \<le> n"
  defines "m' \<equiv> split_mem B w (extent us) k n m"
  shows "tiled (if vs = [] then m' else st32 (B + (extent us + n) + 8) (off (extent us + k)) m') B w
      (us @ (k, u) # (n - k, False) # vs)"
proof -
  let ?m = "if vs = [] then m' else st32 (B + (extent us + n) + 8) (off (extent us + k)) m'"
  have other: "?m x = m x" if "x < B + extent us \<or> B + extent us + n + 12 \<le> x" for x
    using that k by (auto simp: m'_def split_mem_def)
  have us: "seg ?m B w 0 0 us" by (rule seg_frame [where m = m]) (use t other in \<open>auto simp: tiled_split\<close>)
  have m': "seg m' B w (extent us) (extent us + n) vs"
    by (rule seg_frame [where m = m]) (use t k in \<open>auto simp: tiled_split m'_def split_mem_def\<close>)
  have vs: "seg ?m B w (extent us + k) (extent us + n) vs"
    using seg_retarget [OF m', of "extent us + k"] by (cases "vs = []") (simp_all add: add.assoc)
  have ends: "ld32 ?m (B + extent us + n + extent vs) = tag w True"
    "ld32 ?m (B + extent us + n + extent vs + 4) = off (extent us + n + extent vs)"
    using t k by (cases vs; force simp: tiled_split m'_def split_mem_def)+
  have "ld32 ?m (B + extent us) = tag w u" "ld32 ?m (B + extent us + 4) = off (extent us + k)"
    "ld32 ?m (B + extent us + 8) = off (last_start 0 0 us)" "ld32 ?m (B + (extent us + k)) = w"
    "ld32 ?m (B + (extent us + k) + 4) = off (extent us + n)" "ld32 ?m (B + (extent us + k) + 8) = off (extent us)"
    using t k by (simp_all add: tiled_split m'_def split_mem_def)
  then show ?thesis
    using us vs ends k by (simp add: tiled_split tag_def add.assoc)
qed

text \<open>Joining two neighbours.\<close>

definition join_mem :: "nat \<Rightarrow> nat \<Rightarrow> nat \<Rightarrow> nat \<Rightarrow> memory \<Rightarrow> memory" where
  "join_mem B q n k m = st32 (B + (q + n + k) + 8) (off q) (st32 (B + q + 4) (off (q + n + k)) (st32 (B + (q + n)) 0 m))"

lemma tiled_join:
  assumes t: "tiled m B w (us @ (n, u) # (k, v) # vs)"
  shows "tiled (join_mem B (extent us) n k m) B w (us @ (n + k, u) # vs)"
proof -
  let ?m = "st32 (B + extent us + 4) (off (extent us + n + k)) (st32 (B + (extent us + n)) 0 m)"
  have nk: "12 \<le> n" "12 \<le> k" using t by (auto simp: tiled_split)
  have us: "seg (join_mem B (extent us) n k m) B w 0 0 us"
    by (rule seg_frame [where m = m]) (use t nk in \<open>auto simp: tiled_split join_mem_def\<close>)
  have "seg ?m B w (extent us + n) (extent us + n + k) vs"
    by (rule seg_frame [where m = m]) (use t nk in \<open>auto simp: tiled_split add.assoc\<close>)
  from seg_retarget [OF this, where p' = "extent us"]
  have vs: "seg (join_mem B (extent us) n k m) B w (extent us) (extent us + n + k) vs"
    by (simp add: join_mem_def add.assoc)
  have ext: "vs = [] \<or> 12 \<le> extent vs"
    using t by (cases vs) (auto simp: tiled_split)
  have ends: "ld32 (join_mem B (extent us) n k m) (B + extent us + n + k + extent vs) = tag w True"
    "ld32 (join_mem B (extent us) n k m) (B + extent us + n + k + extent vs + 4) = off (extent us + n + k + extent vs)"
    using t nk ext by (auto simp: tiled_split join_mem_def add.assoc)
  show ?thesis
    using us vs ends t nk by (simp add: tiled_split join_mem_def add.assoc)
qed

section \<open>Offsets and addresses\<close>

definition blk :: "rt_small_mem \<Rightarrow> nat \<Rightarrow> u32" where
  "blk s q = heap_ptr s + of_nat q"

named_theorems heap_words

lemma off_add [heap_words]:
  "off a + off b = off (a + b)" "off a + numeral k = off (a + numeral k)" "heap_ptr s + off a = blk s a"
  "blk s a + numeral k = blk s (a + numeral k)" "blk s a + off b = blk s (a + b)" "blk s a - heap_ptr s = off a" "off 0 = 0" "blk s 0 = heap_ptr s"
  by (simp_all add: off_def blk_def)

lemma off_diff [heap_words]: "b \<le> a \<Longrightarrow> off a - off b = off (a - b)" "numeral k \<le> a \<Longrightarrow> off a - numeral k = off (a - numeral k)"
  "numeral k \<le> a \<Longrightarrow> blk s a - numeral k = blk s (a - numeral k)"
  by (simp_all add: off_def blk_def)

lemma unat_off: "a < 4294967296 \<Longrightarrow> unat (off a) = a"
  by (simp add: off_def unat_of_nat_u32)

lemma off_compare:
  assumes "a < 4294967296" "b < 4294967296"
  shows "off a \<le> off b \<longleftrightarrow> a \<le> b" "off a < off b \<longleftrightarrow> a < b" "off a = off b \<longleftrightarrow> a = b"
  using assms by (simp_all add: word_le_nat_alt word_less_nat_alt word32_eq_iff_unat unat_off)

lemma unat_blk: "unat (heap_ptr s) + q < 4294967296 \<Longrightarrow> unat (blk s q) = unat (heap_ptr s) + q"
  unfolding blk_def by (rule unat_add_of_nat)

lemma unat_blk_field:
  assumes "unat (heap_ptr s) + q + 12 < 4294967296"
  shows "unat (blk s q + 4) = unat (heap_ptr s) + q + 4" "unat (blk s q + 8) = unat (heap_ptr s) + q + 8"
  using unat_blk [of s "q + 4"] unat_blk [of s "q + 8"] assms by (simp_all add: heap_words)

lemma blk_compare:
  assumes "unat (heap_ptr s) + a < 4294967296" "unat (heap_ptr s) + b < 4294967296"
  shows "blk s a \<le> blk s b \<longleftrightarrow> a \<le> b" "blk s a < blk s b \<longleftrightarrow> a < b" "blk s a = blk s b \<longleftrightarrow> a = b"
  using assms by (simp_all add: word_le_nat_alt word_less_nat_alt word32_eq_iff_unat unat_blk)

lemma item_fields:
  assumes "unat (heap_ptr s) + q + 12 < 4294967296"
  shows "pool_ptr (blk s q) t = ld32 (ram t) (unat (heap_ptr s) + q)"
    "item_next (blk s q) t = ld32 (ram t) (unat (heap_ptr s) + q + 4)"
    "item_prev (blk s q) t = ld32 (ram t) (unat (heap_ptr s) + q + 8)"
    "set_pool (blk s q) v t = t\<lparr>ram := st32 (unat (heap_ptr s) + q) v (ram t)\<rparr>"
    "set_next (blk s q) v t = t\<lparr>ram := st32 (unat (heap_ptr s) + q + 4) v (ram t)\<rparr>"
    "set_prev (blk s q) v t = t\<lparr>ram := st32 (unat (heap_ptr s) + q + 8) v (ram t)\<rparr>"
  using assms by (simp_all add: pool_ptr_def item_next_def item_prev_def set_pool_def set_next_def set_prev_def unat_blk unat_blk_field)

lemma blk_upd [simp]:
  "blk (s\<lparr>ram := m\<rparr>) q = blk s q" "blk (s\<lparr>lfree := p\<rparr>) q = blk s q" "blk (s\<lparr>mem_used := u\<rparr>) q = blk s q" "blk (s\<lparr>mem_max := u\<rparr>) q = blk s q"
  by (simp_all add: blk_def)

section \<open>The blocks of a heap\<close>

definition chained :: "rt_small_mem \<Rightarrow> blocks \<Rightarrow> bool" where
  "chained s bs \<longleftrightarrow> tiled (ram s) (unat (heap_ptr s)) (sm_ptr s) bs \<and> bs \<noteq> [] \<and>
     sm_ptr s AND MEM_MASK = sm_ptr s \<and> sm_ptr s \<noteq> 0 \<and> unat (heap_ptr s) mod 4 = 0 \<and>
     unat (heap_ptr s) + extent bs + 12 < 4294967296 \<and>
     heap_end s = blk s (extent bs) \<and> mem_size_aligned s = off (extent bs - 12)"

text \<open>The offset of the first free block, or of the end.\<close>

definition low :: "blocks \<Rightarrow> nat" where
  "low bs = extent (takeWhile snd bs)"

definition heap_ok :: "rt_small_mem \<Rightarrow> blocks \<Rightarrow> bool" where
  "heap_ok s bs \<longleftrightarrow> chained s bs \<and> (\<forall>b\<in>set bs. 4 dvd fst b \<and> (snd b \<longrightarrow> 16 \<le> fst b)) \<and>
     successively (\<lambda>b c. snd b \<or> snd c) bs \<and>
     lfree s = blk s (low bs) \<and> mem_used s = off (extent (filter snd bs)) \<and> mem_used s \<le> mem_max s"

lemma tag_mask:
  assumes "w AND MEM_MASK = (w :: u32)"
  shows "tag w u AND NOT MEM_MASK \<noteq> 0 \<longleftrightarrow> u" "tag w u AND MEM_MASK = w" "(w AND MEM_MASK) OR 0 = tag w False" "(w AND MEM_MASK) OR 1 = tag w True"
proof -
  have n: "NOT MEM_MASK = (1 :: u32)" by simp
  have "\<not> bit (w AND MEM_MASK) 0" by (simp add: bit_and_iff)
  then have b: "\<not> bit w 0" using assms by simp
  have u: "(w OR 1) AND 1 = 1" "w AND 1 = 0"
    by (rule bit_word_eqI; use b in \<open>auto simp: bit_and_iff bit_or_iff bit_1_iff intro!: gr0I\<close>)+
  have "(w OR 1) AND MEM_MASK = (w AND MEM_MASK) OR (1 AND MEM_MASK)"
    by (simp only: bit.conj_disj_distrib2)
  then have m: "(w OR 1) AND MEM_MASK = w" using assms by simp
  show "tag w u AND NOT MEM_MASK \<noteq> 0 \<longleftrightarrow> u" "tag w u AND MEM_MASK = w" "(w AND MEM_MASK) OR 0 = tag w False" "(w AND MEM_MASK) OR 1 = tag w True"
    unfolding n using assms u m by (simp_all add: tag_def)
qed

lemma chained_bounds:
  assumes "chained s (us @ (n, u) # vs)"
  shows "12 \<le> n" "extent us + n + extent vs + unat (heap_ptr s) + 12 < 4294967296" "vs = [] \<or> 12 \<le> extent vs"
    "us = [] \<or> 12 \<le> extent us"
proof -
  have t: "tiled (ram s) (unat (heap_ptr s)) (sm_ptr s) (us @ (n, u) # vs)" using assms by (simp add: chained_def)
  show "12 \<le> n" using t by (simp add: tiled_split)
  show "extent us + n + extent vs + unat (heap_ptr s) + 12 < 4294967296" using assms by (simp add: chained_def)
  show "vs = [] \<or> 12 \<le> extent vs" using t by (cases vs) (auto simp: tiled_split)
  have "seg (ram s) (unat (heap_ptr s)) (sm_ptr s) 0 0 us" using t by (simp add: tiled_split)
  from seg_lengths [OF this] show "us = [] \<or> 12 \<le> extent us" by (cases us) auto
qed

text \<open>What the headers say.\<close>

lemma block_fields:
  assumes "chained s (us @ (n, u) # vs)"
  shows "MEM_ISUSED (blk s (extent us)) s \<longleftrightarrow> u" "MEM_POOL (blk s (extent us)) s = sm_ptr s"
    "item_next (blk s (extent us)) s = off (extent us + n)" "item_prev (blk s (extent us)) s = off (last_start 0 0 us)"
    "item_next (blk s (extent us)) s - (off (extent us) + 12) = off (n - 12)"
proof -
  note b = chained_bounds [OF assms]
  have t: "tiled (ram s) (unat (heap_ptr s)) (sm_ptr s) (us @ (n, u) # vs)" and w: "sm_ptr s AND MEM_MASK = sm_ptr s"
    using assms by (simp_all add: chained_def)
  note t = t [unfolded tiled_split]
  have bound: "unat (heap_ptr s) + extent us + 12 < 4294967296" using b by simp
  note f = item_fields [OF bound]
  have p: "pool_ptr (blk s (extent us)) s = tag (sm_ptr s) u" using t f by simp
  then show "MEM_ISUSED (blk s (extent us)) s \<longleftrightarrow> u" "MEM_POOL (blk s (extent us)) s = sm_ptr s"
    using tag_mask [OF w] by (simp_all add: MEM_ISUSED_def MEM_POOL_def)
  show n: "item_next (blk s (extent us)) s = off (extent us + n)" and "item_prev (blk s (extent us)) s = off (last_start 0 0 us)"
    unfolding f using t by (simp_all add: add.assoc)
  show "item_next (blk s (extent us)) s - (off (extent us) + 12) = off (n - 12)"
    unfolding n using b by (simp add: heap_words)
qed

lemma end_fields:
  assumes "chained s bs"
  shows "MEM_ISUSED (blk s (extent bs)) s" "MEM_POOL (blk s (extent bs)) s = sm_ptr s" "item_next (blk s (extent bs)) s = off (extent bs)"
    "heap_end s = blk s (extent bs)"
proof -
  have t: "tiled (ram s) (unat (heap_ptr s)) (sm_ptr s) bs" and w: "sm_ptr s AND MEM_MASK = sm_ptr s"
    and b: "unat (heap_ptr s) + extent bs + 12 < 4294967296"
    using assms by (simp_all add: chained_def)
  note f = item_fields [OF b]
  have p: "pool_ptr (blk s (extent bs)) s = tag (sm_ptr s) True" using t f by (simp add: tiled_def)
  then show "MEM_ISUSED (blk s (extent bs)) s" "MEM_POOL (blk s (extent bs)) s = sm_ptr s"
    using tag_mask [OF w] by (simp_all add: MEM_ISUSED_def MEM_POOL_def)
  show "item_next (blk s (extent bs)) s = off (extent bs)" unfolding f using t by (simp add: tiled_def add.assoc)
  show "heap_end s = blk s (extent bs)" using assms by (simp add: chained_def)
qed

lemma chained_ram:
  "chained s bs \<Longrightarrow> tiled m (unat (heap_ptr s)) (sm_ptr s) cs \<Longrightarrow> cs \<noteq> [] \<Longrightarrow> extent cs = extent bs \<Longrightarrow> chained (s\<lparr>ram := m\<rparr>) cs"
  by (simp add: chained_def)

lemma chained_tag:
  assumes "chained s (us @ (n, u) # vs)"
  shows "chained (set_pool (blk s (extent us)) (tag (sm_ptr s) u') s) (us @ (n, u') # vs)"
proof -
  have bound: "unat (heap_ptr s) + extent us + 12 < 4294967296" using chained_bounds [OF assms] by simp
  show ?thesis
    unfolding item_fields [OF bound] using assms
    by (intro chained_ram [OF assms] tiled_tag [where u = u]) (simp_all add: chained_def)
qed

text \<open>The bytes of the heap outside a set of offsets are not touched.\<close>

definition only :: "nat set \<Rightarrow> rt_small_mem \<Rightarrow> memory \<Rightarrow> bool" where
  "only T s m \<longleftrightarrow> (\<forall>x. m x \<noteq> ram s x \<longrightarrow> (\<exists>q\<in>T. x = unat (heap_ptr s) + q))"

lemma only_st32: "only T s m \<Longrightarrow> {q..<q + 4} \<subseteq> T \<Longrightarrow> only T s (st32 (unat (heap_ptr s) + q) v m)"
proof -
  assume o: "only T s m" and q: "{q..<q + 4} \<subseteq> T"
  have "\<exists>p\<in>T. x = unat (heap_ptr s) + p" if x: "st32 (unat (heap_ptr s) + q) v m x \<noteq> ram s x" for x
  proof (cases "x < unat (heap_ptr s) + q \<or> unat (heap_ptr s) + q + 4 \<le> x")
    case True
    then show ?thesis using o x by (simp add: only_def)
  next
    case False
    then have "x - unat (heap_ptr s) \<in> {q..<q + 4}" by auto
    then show ?thesis using q False by (intro bexI [where x = "x - unat (heap_ptr s)"]) auto
  qed
  then show ?thesis by (simp add: only_def)
qed

lemma chained_split:
  assumes c: "chained s (us @ (n, u) # vs)" and k: "12 + k + 12 \<le> n"
  obtains m where "smem_split (off (extent us)) (off k) s = s\<lparr>ram := m\<rparr>"
    "chained (s\<lparr>ram := m\<rparr>) (us @ (12 + k, u) # (n - (12 + k), False) # vs)"
    "only ({extent us..<extent us + 12} \<union> {extent us + 12 + k..<extent us + n + 12}) s m"
proof -
  let ?B = "unat (heap_ptr s)" and ?q = "extent us" and ?m = "split_mem (unat (heap_ptr s)) (sm_ptr s) (extent us) (12 + k) n (ram s)"
  note b = chained_bounds [OF c]
  have t: "tiled (ram s) ?B (sm_ptr s) (us @ (n, u) # vs)" and w: "sm_ptr s AND MEM_MASK = sm_ptr s"
    and size: "mem_size_aligned s = off (?q + n + extent vs - 12)"
    using c by (simp_all add: chained_def add.assoc)
  have ba: "?B + ?q + 12 < 4294967296" "?B + (?q + (12 + k)) + 12 < 4294967296" "?B + (?q + n) + 12 < 4294967296"
    using b k by simp_all
  have next_m: "ld32 (ram s) (?B + ?q + 4) = off (?q + n)" using t by (simp add: tiled_split add.assoc)
  define m where "m = (if vs = [] then ?m else st32 (?B + (?q + n) + 8) (off (?q + (12 + k))) ?m)"
  have ne: "off (?q + n) = off (?q + n + extent vs) \<longleftrightarrow> vs = []" using b by (subst off_compare) auto
  have "smem_split (off ?q) (off k) s = s\<lparr>ram := m\<rparr>"
    using b k ba ne next_m w
    by (simp add: smem_split_def m_def split_mem_def heap_words add.assoc size item_fields Let_def MEM_FREED_def)
  moreover have "chained (s\<lparr>ram := m\<rparr>) (us @ (12 + k, u) # (n - (12 + k), False) # vs)"
    using tiled_cut [OF t, of "12 + k"] k unfolding m_def by (intro chained_ram [OF c]) simp_all
  moreover have "only ({?q..<?q + 12} \<union> {?q + 12 + k..<?q + n + 12}) s m"
    unfolding only_def
  proof (intro allI impI)
    fix x assume x: "m x \<noteq> ram s x"
    have "\<not> (x < ?B + ?q \<or> ?B + ?q + 12 \<le> x \<and> x < ?B + (?q + 12 + k) \<or> ?B + ?q + n + 12 \<le> x)"
      using x k by (auto simp: m_def split_mem_def split: if_splits)
    then show "\<exists>q\<in>{?q..<?q + 12} \<union> {?q + 12 + k..<?q + n + 12}. x = ?B + q"
      by (intro bexI [where x = "x - ?B"]) auto
  qed
  ultimately show thesis by (rule that)
qed

lemma chained_join:
  assumes c: "chained s (us @ (n, u) # (k, v) # vs)"
  obtains m where "join_items (blk s (extent us)) (blk s (extent us + n)) s = s\<lparr>ram := m\<rparr>"
    "chained (s\<lparr>ram := m\<rparr>) (us @ (n + k, u) # vs)"
    "only ({extent us..<extent us + 12} \<union> {extent us + n..<extent us + n + 12} \<union> {extent us + n + k..<extent us + n + k + 12}) s m"
proof -
  let ?B = "unat (heap_ptr s)" and ?q = "extent us"
  define m where "m = join_mem ?B ?q n k (ram s)"
  have c2: "chained s ((us @ [(n, u)]) @ (k, v) # vs)" using c by simp
  note b = chained_bounds [OF c] and b2 = chained_bounds [OF c2]
  have t: "tiled (ram s) ?B (sm_ptr s) (us @ (n, u) # (k, v) # vs)" using c by (simp add: chained_def)
  have ba: "?B + ?q + 12 < 4294967296" "?B + (?q + n) + 12 < 4294967296" "?B + (?q + n + k) + 12 < 4294967296"
    using b by simp_all
  have next_m: "ld32 (ram s) (?B + (?q + n) + 4) = off (?q + n + k)" using t by (simp add: tiled_split add.assoc)
  have "join_items (blk s ?q) (blk s (?q + n)) s = s\<lparr>ram := m\<rparr>"
    using b b2 ba next_m
    by (simp add: join_items_def m_def join_mem_def heap_words item_fields Let_def add.assoc)
  moreover have "chained (s\<lparr>ram := m\<rparr>) (us @ (n + k, u) # vs)"
    using tiled_join [OF t] unfolding m_def by (intro chained_ram [OF c]) simp_all
  moreover have "only ({?q..<?q + 12} \<union> {?q + n..<?q + n + 12} \<union> {?q + n + k..<?q + n + k + 12}) s m"
    unfolding only_def
  proof (intro allI impI)
    fix x assume x: "m x \<noteq> ram s x"
    have "\<not> (x < ?B + ?q \<or> ?B + ?q + 12 \<le> x \<and> x < ?B + (?q + n) \<or> ?B + ?q + n + 12 \<le> x \<and> x < ?B + ?q + n + k \<or> ?B + ?q + n + k + 12 \<le> x)"
      using x by (auto simp: m_def join_mem_def)
    then show "\<exists>q\<in>{?q..<?q + 12} \<union> {?q + n..<?q + n + 12} \<union> {?q + n + k..<?q + n + k + 12}. x = ?B + q"
      by (intro bexI [where x = "x - ?B"]) auto
  qed
  ultimately show thesis by (rule that)
qed

section \<open>Searching\<close>

text \<open>The first free block with room for \<open>k\<close> bytes, with the blocks in front of it and behind it.\<close>

fun first_fit :: "nat \<Rightarrow> blocks \<Rightarrow> (blocks \<times> nat \<times> blocks) option" where
  "first_fit k [] = None"
| "first_fit k ((n, u) # bs) =
     (if \<not> u \<and> 12 + k \<le> n then Some ([], n, bs)
      else map_option (\<lambda>(us, m, vs). ((n, u) # us, m, vs)) (first_fit k bs))"

lemma first_fit_small: "extent bs < 12 + k \<Longrightarrow> first_fit k bs = None"
  by (induction bs) auto

lemma first_fit_used:
  "\<forall>b\<in>set us. snd b \<Longrightarrow> first_fit k (us @ bs) = map_option (\<lambda>(ws, m, vs). (us @ ws, m, vs)) (first_fit k bs)"
  by (induction us) (auto simp: option.map_comp o_def split_def option.map_ident)

lemma first_fit_Some:
  "first_fit k bs = Some (us, n, vs) \<Longrightarrow> bs = us @ (n, False) # vs \<and> 12 + k \<le> n \<and> (\<forall>b\<in>set us. snd b \<or> fst b < 12 + k)"
  by (induction k bs arbitrary: us rule: first_fit.induct) (fastforce split: if_splits)+

lemma first_fit_None: "first_fit k bs = None \<longleftrightarrow> (\<forall>b\<in>set bs. snd b \<or> fst b < 12 + k)"
  by (induction k bs rule: first_fit.induct) (simp_all add: not_le)

lemma search_fit:
  assumes "chained s (us @ vs)" and "k + 12 \<le> extent (us @ vs)"
  shows "smem_search (off k) (off (extent us)) s = Some (map_option (\<lambda>(ws, n, zs). off (extent us + extent ws)) (first_fit k vs))"
  using assms
proof (induction vs arbitrary: us)
  case Nil
  have "mem_size_aligned s = off (extent us - 12)" "unat (heap_ptr s) + extent us + 12 < 4294967296" using Nil by (simp_all add: chained_def)
  moreover then have "\<not> off (extent us) \<le> off (extent us - 12) - off k" using Nil by (simp add: heap_words off_compare)
  ultimately show ?case by (subst smem_search.simps) simp
next
  case (Cons b vs)
  obtain n u where b: "b = (n, u)" by force
  have c: "chained s (us @ (n, u) # vs)" using Cons.prems b by simp
  note bd = chained_bounds [OF c] and f = block_fields [OF c]
  have size: "mem_size_aligned s = off (extent us + n + extent vs - 12)" using c by (simp add: chained_def add.assoc)
  have le: "off (extent us) \<le> mem_size_aligned s - off k \<longleftrightarrow> extent us + 12 + k \<le> extent us + n + extent vs"
    using Cons.prems bd b by (auto simp: size heap_words off_compare)
  have fit: "off k \<le> off (n - 12) \<longleftrightarrow> 12 + k \<le> n" using Cons.prems bd b by (auto simp: off_compare)
  show ?case
  proof (cases "extent us + 12 + k \<le> extent us + n + extent vs")
    case False
    then have "first_fit k (b # vs) = None" using b by (intro first_fit_small) auto
    then show ?thesis using False le by (subst smem_search.simps) simp
  next
    case room: True
    show ?thesis
    proof (cases "\<not> u \<and> 12 + k \<le> n")
      case True
      then show ?thesis using room le fit f b by (subst smem_search.simps) (simp add: heap_words)
    next
      case False
      then have "smem_search (off k) (off (extent us)) s = smem_search (off k) (off (extent (us @ [b]))) s"
        using room le fit f b by (subst smem_search.simps) (auto simp: heap_words)
      moreover have "smem_search (off k) (off (extent (us @ [b]))) s = Some (map_option (\<lambda>(ws, n, zs). off (extent (us @ [b]) + extent ws)) (first_fit k vs))"
        by (rule Cons.IH) (use Cons.prems in auto)
      moreover have "first_fit k (b # vs) = map_option (\<lambda>(ws, m, zs). (b # ws, m, zs)) (first_fit k vs)"
        using False b by auto
      ultimately show ?thesis
        by (simp add: option.map_comp o_def split_def add.assoc)
    qed
  qed
qed

lemma low_append: "low (us @ vs) = (if \<forall>b\<in>set us. snd b then extent us + low vs else low us)"
  by (induction us) (auto simp: low_def)

lemma low_simps [simp]: "low [] = 0" "low ((n, u) # bs) = (if u then n + low bs else 0)"
  by (simp_all add: low_def)

lemma low_le: "low bs \<le> extent bs"
  by (induction bs) (auto simp: low_def)

lemma skip_used_low:
  assumes "chained s (us @ vs)"
  shows "skip_used (blk s (extent us)) s = Some (blk s (extent us + low vs))"
  using assms
proof (induction vs arbitrary: us)
  case Nil
  then show ?case using end_fields [OF Nil] by (subst skip_used.simps) (simp add: low_def)
next
  case (Cons b vs)
  obtain n u where b: "b = (n, u)" by force
  have c: "chained s (us @ (n, u) # vs)" using Cons.prems b by simp
  note bd = chained_bounds [OF c] and f = block_fields [OF c]
  have ne: "blk s (extent us) \<noteq> heap_end s"
    unfolding end_fields(4) [OF c] using bd by (subst blk_compare) auto
  have "skip_used (blk s (extent us)) s = (if u then skip_used (blk s (extent (us @ [b]))) s else Some (blk s (extent us)))"
    using f ne b by (subst skip_used.simps) (simp add: heap_words)
  moreover have "skip_used (blk s (extent (us @ [b]))) s = Some (blk s (extent (us @ [b]) + low vs))"
    by (rule Cons.IH) (use Cons.prems in simp)
  ultimately show ?case using b by (simp add: low_def add.assoc)
qed

lemma low_less: "\<forall>b\<in>set us. 12 \<le> fst b \<Longrightarrow> \<not> (\<forall>x\<in>set us. snd x) \<Longrightarrow> low us + 12 \<le> extent us"
  by (induction us) (auto simp: low_def)

lemma chained_lengths: "chained s bs \<Longrightarrow> \<forall>b\<in>set bs. 12 \<le> fst b"
  using seg_lengths [of "ram s" "unat (heap_ptr s)" "sm_ptr s" 0 0 bs] by (simp add: chained_def tiled_def)

lemma dvd_extent: "\<forall>b\<in>set bs. 4 dvd fst b \<Longrightarrow> 4 dvd extent bs"
  by (induction bs) auto

section \<open>Payloads and alignment\<close>

text \<open>The offsets of the bytes of the used blocks; they belong to the clients.\<close>

fun payload :: "nat \<Rightarrow> blocks \<Rightarrow> nat set" where
  "payload q [] = {}"
| "payload q ((n, u) # bs) = (if u then {q + 12..<q + n} else {}) \<union> payload (q + n) bs"

lemma payload_append: "payload q (us @ vs) = payload q us \<union> payload (q + extent us) vs"
  by (induction q us rule: payload.induct) (auto simp: add.assoc)

lemma payload_bounds: "x \<in> payload q bs \<Longrightarrow> q + 12 \<le> x \<and> x < q + extent bs"
  by (induction q bs rule: payload.induct) (auto split: if_splits)

lemma payload_split:
  "x \<in> payload 0 (us @ (n, u) # vs) \<Longrightarrow> x < extent us \<or> (u \<and> extent us + 12 \<le> x \<and> x < extent us + n) \<or> extent us + n + 12 \<le> x"
  using payload_bounds [of x 0 us] payload_bounds [of x "extent us + n" vs] by (auto simp: payload_append split: if_splits)

definition keeps :: "nat set \<Rightarrow> rt_small_mem \<Rightarrow> rt_small_mem \<Rightarrow> bool" where
  "keeps X s s' \<longleftrightarrow> heap_ptr s' = heap_ptr s \<and> sm_ptr s' = sm_ptr s \<and> mem_size_aligned s' = mem_size_aligned s \<and>
     heap_end s' = heap_end s \<and> (\<forall>q\<in>X. ram s' (unat (heap_ptr s) + q) = ram s (unat (heap_ptr s) + q)) \<and>
     (\<forall>x. x < unat (heap_ptr s) \<or> unat (heap_end s) + 12 \<le> x \<longrightarrow> ram s' x = ram s x)"

text \<open>The size of a request, rounded up to words.\<close>

definition round4 :: "nat \<Rightarrow> nat" where
  "round4 n = (n + 3) div 4 * 4"

lemma round4_props: "n \<le> round4 n" "round4 n < n + 4" "4 dvd round4 n" "n mod 4 = 0 \<Longrightarrow> round4 n = n"
  unfolding round4_def by presburger+

lemma RT_ALIGN_round4:
  assumes "unat n + 3 < 4294967296"
  shows "RT_ALIGN n 4 = off (round4 (unat n))"
proof -
  have "unat (n + 3) = unat n + 3" using unat_add_of_nat [of n 3] assms by simp
  moreover have "NOT 3 = NOT (mask 2 :: u32)" by (simp add: mask_eq_exp_minus_1)
  ultimately have "unat ((n + 3) AND NOT 3) = round4 (unat n)"
    using unat_and_high [of "n + 3" 2] by (simp add: round4_def)
  moreover have "round4 (unat n) < 4294967296" using round4_props(2) [of "unat n"] assms unfolding round4_def by linarith
  ultimately show ?thesis
    by (simp add: RT_ALIGN_def word32_eq_iff_unat unat_off add.commute)
qed

lemma and_3: "(w :: u32) AND 3 = 0 \<longleftrightarrow> unat w mod 4 = 0"
  using unat_and_mask [of w 2] by (simp add: mask_eq_exp_minus_1 word32_eq_iff_unat)

lemma mod_4: "(w :: u32) mod 4 = 0 \<longleftrightarrow> unat w mod 4 = 0"
  by (simp add: word32_eq_iff_unat unat_mod_distrib)

section \<open>Allocation\<close>

text \<open>
  First fit: the block is split when the rest holds a header and 12 bytes. The result is the offset
  of the block and the new list of blocks.
\<close>

definition alloc_blocks :: "nat \<Rightarrow> blocks \<Rightarrow> (nat \<times> blocks) option" where
  "alloc_blocks k bs = map_option (\<lambda>(us, n, vs). (extent us,
     us @ (if 12 + k + 24 \<le> n then (12 + k, True) # (n - (12 + k), False) # vs else (n, True) # vs))) (first_fit k bs)"

lemma chained_upd [simp]:
  "chained (s\<lparr>lfree := p\<rparr>) bs = chained s bs" "chained (s\<lparr>mem_used := u\<rparr>) bs = chained s bs" "chained (s\<lparr>mem_max := u\<rparr>) bs = chained s bs"
  by (simp_all add: chained_def)

lemma count_used_fields [simp]:
  "ram (count_used n s) = ram s" "heap_ptr (count_used n s) = heap_ptr s" "heap_end (count_used n s) = heap_end s"
  "lfree (count_used n s) = lfree s" "sm_ptr (count_used n s) = sm_ptr s" "mem_size_aligned (count_used n s) = mem_size_aligned s"
  "mem_used (count_used n s) = mem_used s + n" "mem_used s + n \<le> mem_max (count_used n s)"
  "chained (count_used n s) bs = chained s bs"
  by (auto simp: count_used_def Let_def)

lemma set_pool_fields [simp]:
  "heap_ptr (set_pool a v s) = heap_ptr s" "heap_end (set_pool a v s) = heap_end s" "lfree (set_pool a v s) = lfree s"
  "sm_ptr (set_pool a v s) = sm_ptr s" "mem_size_aligned (set_pool a v s) = mem_size_aligned s"
  "mem_used (set_pool a v s) = mem_used s" "mem_max (set_pool a v s) = mem_max s"
  by (simp_all add: set_pool_def)

lemma keepsI:
  assumes c: "chained s (us @ (n, u) # vs)" and o: "only T s m" and T: "\<And>q. q \<in> T \<Longrightarrow> q < extent us + n + 12" "X \<inter> T = {}"
    and s': "ram s' = m" "heap_ptr s' = heap_ptr s" "sm_ptr s' = sm_ptr s" "mem_size_aligned s' = mem_size_aligned s" "heap_end s' = heap_end s"
  shows "keeps X s s'"
proof -
  have out: "ram s' x = ram s x" if "\<And>q. x = unat (heap_ptr s) + q \<Longrightarrow> q \<notin> T" for x
    using o that unfolding only_def s' by blast
  have e: "unat (heap_end s) = unat (heap_ptr s) + (extent us + n + extent vs)"
    using end_fields(4) [OF c] chained_bounds [OF c] by (simp add: unat_blk)
  have high: "ram s' x = ram s x" if "x < unat (heap_ptr s) \<or> unat (heap_end s) + 12 \<le> x" for x
  proof (rule out)
    fix q assume "x = unat (heap_ptr s) + q"
    then show "q \<notin> T" using that e T(1) [of q] by auto
  qed
  have "ram s' (unat (heap_ptr s) + q) = ram s (unat (heap_ptr s) + q)" if "q \<in> X" for q
    by (rule out) (use that T(2) in auto)
  then show ?thesis using high s' by (simp add: keeps_def)
qed

lemma take_start:
  assumes c: "chained s (us @ (n, False) # vs)" and k: "12 \<le> k" "12 + k \<le> n"
  defines "l \<equiv> (if 12 + k + 24 \<le> n then 12 + k else n)" and "rest \<equiv> (if 12 + k + 24 \<le> n then (n - (12 + k), False) # vs else vs)"
  obtains m where "chained (s\<lparr>ram := m\<rparr>) (us @ (l, False) # rest)"
    "(if item_next (blk s (extent us)) s - (off (extent us) + 12) \<ge> off k + 12 + 12
      then count_used (off k + 12) (smem_split (off (extent us)) (off k) s)
      else count_used (item_next (blk s (extent us)) s - (blk s (extent us) - heap_ptr s)) s) = count_used (off l) (s\<lparr>ram := m\<rparr>)"
    "only {extent us..<extent us + n + 12} s m"
proof -
  note b = chained_bounds [OF c] and f = block_fields [OF c]
  have if_split: "item_next (blk s (extent us)) s - (off (extent us) + 12) \<ge> off k + 12 + 12 \<longleftrightarrow> 12 + k + 24 \<le> n"
    unfolding f using b k by (auto simp: heap_words off_compare)
  have len: "item_next (blk s (extent us)) s - (blk s (extent us) - heap_ptr s) = off n"
    unfolding f using b by (simp add: heap_words)
  show thesis
  proof (cases "12 + k + 24 \<le> n")
    case True
    then obtain m where "smem_split (off (extent us)) (off k) s = s\<lparr>ram := m\<rparr>"
      "chained (s\<lparr>ram := m\<rparr>) (us @ (12 + k, False) # (n - (12 + k), False) # vs)"
      "only ({extent us..<extent us + 12} \<union> {extent us + 12 + k..<extent us + n + 12}) s m"
      using chained_split [OF c, of k] by auto
    moreover from this(3) have "only {extent us..<extent us + n + 12} s m" using True by (force simp: only_def)
    ultimately show thesis using if_split True by (intro that [of m]) (simp_all add: l_def rest_def heap_words add.commute)
  next
    case False
    then show thesis using if_split len c by (intro that [of "ram s"]) (simp_all add: l_def rest_def only_def)
  qed
qed

lemma take_refines:
  assumes h: "heap_ok s (us @ (n, False) # vs)" and k: "12 \<le> k" "12 + k \<le> n" "4 dvd k"
  defines "l \<equiv> (if 12 + k + 24 \<le> n then 12 + k else n)" and "rest \<equiv> (if 12 + k + 24 \<le> n then (n - (12 + k), False) # vs else vs)"
  shows "\<exists>s'. smem_take (off (extent us)) (off k) s = Some (blk s (extent us + 12), s') \<and>
    heap_ok s' (us @ (l, True) # rest) \<and> keeps (payload 0 (us @ (n, False) # vs)) s s'"
proof -
  have c: "chained s (us @ (n, False) # vs)" using h by (simp add: heap_ok_def)
  obtain m where m: "chained (s\<lparr>ram := m\<rparr>) (us @ (l, False) # rest)" "only {extent us..<extent us + n + 12} s m"
    "(if item_next (blk s (extent us)) s - (off (extent us) + 12) \<ge> off k + 12 + 12
      then count_used (off k + 12) (smem_split (off (extent us)) (off k) s)
      else count_used (item_next (blk s (extent us)) s - (blk s (extent us) - heap_ptr s)) s) = count_used (off l) (s\<lparr>ram := m\<rparr>)"
    using take_start [OF c k(1,2)] unfolding l_def rest_def by blast
  define t where "t = set_pool (blk s (extent us)) (tag (sm_ptr s) True) (count_used (off l) (s\<lparr>ram := m\<rparr>))"
  have w: "sm_ptr s AND MEM_MASK = sm_ptr s" using c by (simp add: chained_def)
  note b = chained_bounds [OF c]
  have ct: "chained t (us @ (l, True) # rest)"
    using chained_tag [of "count_used (off l) (s\<lparr>ram := m\<rparr>)" us l False rest True] m(1) unfolding t_def by (simp add: blk_def)
  have blk: "blk t = blk s" by (simp add: t_def blk_def fun_eq_iff)
  define p where "p = (if \<forall>x\<in>set us. snd x then blk s (extent us + low ((l, True) # rest)) else lfree s)"
  have low: "p = blk s (low (us @ (l, True) # rest))"
    using h by (simp add: p_def low_append heap_ok_def)
  have first: "blk s (extent us) = lfree s \<longleftrightarrow> (\<forall>x\<in>set us. snd x)"
  proof -
    have l: "lfree s = blk s (if \<forall>x\<in>set us. snd x then extent us else low us)"
      using h by (simp add: heap_ok_def low_append)
    show ?thesis
    proof (cases "\<forall>x\<in>set us. snd x")
      case False
      then have "low us + 12 \<le> extent us" using low_less chained_lengths [OF c] by auto
      then have ne: "blk s (extent us) \<noteq> blk s (low us)" using b by (subst blk_compare) auto
      have "lfree s = blk s (low us)" unfolding l by (simp only: False if_False)
      then show ?thesis by (simp only: ne False)
    qed (simp add: l)
  qed
  have skip: "skip_used (lfree t) t = Some p" if "\<forall>x\<in>set us. snd x"
  proof -
    have "lfree t = blk t (extent us)" using first that by (simp add: t_def blk_def)
    then show ?thesis using skip_used_low [OF ct] that by (simp add: p_def blk)
  qed
  have E: "heap_end t = blk s (extent us + l + extent rest)" using end_fields(4) [OF ct] blk by (simp add: add.assoc)
  have lk: "12 + k \<le> l" using k by (simp add: l_def)
  note bt = chained_bounds [OF ct]
  have hp: "heap_ptr t = heap_ptr s" by (simp add: t_def)
  have d4: "4 dvd extent us" "unat (heap_ptr s) mod 4 = 0"
    using h by (auto simp: heap_ok_def chained_def intro!: dvd_extent)
  have "smem_take (off (extent us)) (off k) s = Some (blk s (extent us + 12), t\<lparr>lfree := p\<rparr>)"
  proof -
    have mused: "MEM_USED (count_used (off l) (s\<lparr>ram := m\<rparr>)) = tag (sm_ptr s) True" by (simp add: MEM_USED_def tag_mask(4) [OF w])
    have "blk s (extent us + (12 + k)) \<le> heap_end t" unfolding E using lk bt hp by (subst blk_compare) auto
    moreover have "blk s (extent us + 12) mod 4 = 0" "blk s (extent us) AND 3 = 0"
      unfolding mod_4 and_3 using d4 b by (auto simp: unat_blk)
    moreover have "lfree t = lfree s" by (simp add: t_def)
    moreover have "p = lfree t" if "blk s (extent us) \<noteq> lfree t"
    proof -
      have "\<not> (\<forall>x\<in>set us. snd x)" using that first \<open>lfree t = lfree s\<close> by metis
      then show ?thesis unfolding p_def \<open>lfree t = lfree s\<close> by (simp only: if_False simp_thms)
    qed
    moreover have "(if blk s (extent us) = lfree t then do { p \<leftarrow> skip_used (lfree t) t; Some (t\<lparr>lfree := p\<rparr>) } else Some t) = Some (t\<lparr>lfree := p\<rparr>)"
      using skip first \<open>lfree t = lfree s\<close> calculation(5) by (cases "blk s (extent us) = lfree t") simp_all
    ultimately show ?thesis
      unfolding smem_take_def Let_def off_add(3) m(3) mused t_def [symmetric]
      by (simp add: heap_words add.assoc del: Set.ball_simps)
  qed
  moreover have "heap_ok (t\<lparr>lfree := p\<rparr>) (us @ (l, True) # rest)"
  proof -
    have "successively (\<lambda>b c. snd b \<or> snd c) (us @ (l, True) # rest)"
      using h by (cases vs) (auto simp: heap_ok_def rest_def successively_append_iff successively_Cons)
    moreover have "\<forall>b\<in>set (us @ (l, True) # rest). 4 dvd fst b \<and> (snd b \<longrightarrow> 16 \<le> fst b)"
      using h k by (auto simp: heap_ok_def rest_def l_def)
    moreover have "mem_used t \<le> mem_max t"
      using count_used_fields(8) [of "s\<lparr>ram := m\<rparr>" "off l"] by (simp add: t_def)
    moreover have "mem_used t = off (extent (filter snd (us @ (l, True) # rest)))"
      using h by (auto simp: t_def heap_ok_def heap_words rest_def add.commute add.left_commute)
    ultimately show ?thesis using ct low blk by (simp add: heap_ok_def)
  qed
  moreover have "keeps (payload 0 (us @ (n, False) # vs)) s (t\<lparr>lfree := p\<rparr>)"
  proof (rule keepsI [OF c])
    have "unat (heap_ptr s) + extent us + 12 < 4294967296" using b by simp
    then show "only {extent us..<extent us + n + 12} s (ram t)"
      using only_st32 [OF m(2), of "extent us"] b unfolding t_def by (simp add: item_fields)
    show "payload 0 (us @ (n, False) # vs) \<inter> {extent us..<extent us + n + 12} = {}"
      by (auto dest: payload_split)
  qed (simp_all add: t_def)
  ultimately show ?thesis by blast
qed

lemma alloc_refines:
  assumes h: "heap_ok s bs" and n: "0 < unat n" "unat n + 3 < 4294967296" and E: "24 \<le> extent bs"
  defines "k \<equiv> max 12 (round4 (unat n))"
  shows "case alloc_blocks k bs of None \<Rightarrow> rt_smem_alloc n s = Some (0, s)
    | Some (q, cs) \<Rightarrow> \<exists>s'. rt_smem_alloc n s = Some (blk s (q + 12), s') \<and> heap_ok s' cs \<and> keeps (payload 0 bs) s s'"
proof -
  have c: "chained s bs" using h by (simp add: heap_ok_def)
  have r: "round4 (unat n) < 4294967296" "4 dvd k" "12 \<le> k"
    using n round4_props [of "unat n"] unfolding k_def by (auto simp: round4_def max_def)
  have size: "mem_size_aligned s = off (extent bs - 12)" "extent bs < 4294967296" using c by (auto simp: chained_def)
  have big: "off (round4 (unat n)) > mem_size_aligned s \<longleftrightarrow> extent bs - 12 < round4 (unat n)"
    using size r by (simp add: off_compare)
  have k: "(if off (round4 (unat n)) < 12 then 12 else off (round4 (unat n))) = off k"
    using off_compare(2) [of "round4 (unat n)" 12] r unfolding k_def by (auto simp: off_def max_def)
  show ?thesis
  proof (cases "extent bs - 12 < round4 (unat n)")
    case True
    then have "first_fit k bs = None" using E by (intro first_fit_small) (auto simp: k_def)
    then show ?thesis using True n RT_ALIGN_round4 [OF n(2)] big by (simp add: rt_smem_alloc_def alloc_blocks_def)
  next
    case False
    then have kE: "k + 12 \<le> extent bs" using E by (simp add: k_def)
    have l: "lfree s - heap_ptr s = off (low bs)" using h by (simp add: heap_ok_def heap_words)
    define us where "us = takeWhile snd bs"
    define vs where "vs = dropWhile snd bs"
    have bs: "bs = us @ vs" "\<forall>b\<in>set us. snd b" "low bs = extent us"
      by (auto simp: us_def vs_def low_def dest: set_takeWhileD)
    have "smem_search (off k) (off (low bs)) s = Some (map_option (\<lambda>(ws, n, zs). off (extent us + extent ws)) (first_fit k vs))"
      unfolding bs(3) by (rule search_fit) (use c kE bs(1) in auto)
    moreover have "first_fit k bs = map_option (\<lambda>(ws, m, zs). (us @ ws, m, zs)) (first_fit k vs)"
      unfolding bs(1) by (rule first_fit_used [OF bs(2)])
    ultimately have search: "smem_search (off k) (lfree s - heap_ptr s) s = Some (map_option (\<lambda>(ws, n, zs). off (extent ws)) (first_fit k bs))"
      unfolding l by (simp add: option.map_comp o_def split_def)
    have step: "rt_smem_alloc n s = (case first_fit k bs of None \<Rightarrow> Some (0, s) | Some (ws, m, zs) \<Rightarrow> smem_take (off (extent ws)) (off k) s)"
      using n False big search unfolding rt_smem_alloc_def RT_ALIGN_round4 [OF n(2)] Let_def k
      by (auto split: option.splits)
    show ?thesis
    proof (cases "first_fit k bs")
      case None
      then show ?thesis by (simp add: step alloc_blocks_def)
    next
      case (Some a)
      then obtain ws m zs where a: "first_fit k bs = Some (ws, m, zs)" by (cases a) auto
      note ff = first_fit_Some [OF a]
      have "heap_ok s (ws @ (m, False) # zs)" using h ff by simp
      note t = take_refines [OF this r(3) _ r(2)]
      have al: "alloc_blocks k bs = Some (extent ws, ws @ (if 36 + k \<le> m then (12 + k, True) # (m - (12 + k), False) # zs else (m, True) # zs))"
        by (simp add: alloc_blocks_def a)
      have st: "rt_smem_alloc n s = smem_take (off (extent ws)) (off k) s" by (simp add: step a)
      show ?thesis
        using t ff unfolding al st by (cases "36 + k \<le> m") simp_all
    qed
  qed
qed

section \<open>Release\<close>

text \<open>A released block is joined with a free neighbour behind it and one in front of it.\<close>

definition join_next :: "nat \<Rightarrow> blocks \<Rightarrow> nat \<times> blocks" where
  "join_next n vs = (case vs of (k, False) # ws \<Rightarrow> (n + k, ws) | _ \<Rightarrow> (n, vs))"

definition release_block :: "blocks \<Rightarrow> nat \<Rightarrow> blocks \<Rightarrow> blocks" where
  "release_block us n vs =
     (case join_next n vs of (m, ws) \<Rightarrow>
        if us \<noteq> [] \<and> \<not> snd (last us) then butlast us @ (fst (last us) + m, False) # ws else us @ (m, False) # ws)"

lemma keeps_trans: "keeps X s t \<Longrightarrow> keeps X t u \<Longrightarrow> keeps X s u"
  by (simp add: keeps_def)

lemma payload_join: "payload q (us @ (n, False) # (k, False) # vs) = payload q (us @ (n + k, False) # vs)"
  by (simp add: payload_append add.assoc)

lemma join_keeps:
  assumes c: "chained s (us @ (n, False) # (k, False) # vs)"
  shows "\<exists>m. join_items (blk s (extent us)) (blk s (extent us + n)) s = s\<lparr>ram := m\<rparr> \<and>
    chained (s\<lparr>ram := m\<rparr>) (us @ (n + k, False) # vs) \<and> keeps (payload 0 (us @ (n, False) # (k, False) # vs)) s (s\<lparr>ram := m\<rparr>)"
proof -
  obtain m where m: "join_items (blk s (extent us)) (blk s (extent us + n)) s = s\<lparr>ram := m\<rparr>"
    "chained (s\<lparr>ram := m\<rparr>) (us @ (n + k, False) # vs)"
    "only ({extent us..<extent us + 12} \<union> {extent us + n..<extent us + n + 12} \<union> {extent us + n + k..<extent us + n + k + 12}) s m"
    using chained_join [OF c] by blast
  have n: "12 \<le> n" "12 \<le> k"
    using chained_lengths [OF c] by auto
  have "keeps (payload 0 (us @ (n, False) # (k, False) # vs)) s (s\<lparr>ram := m\<rparr>)"
    unfolding payload_join
  proof (rule keepsI [where us = "us @ [(n, False)]" and n = k and u = False and vs = vs])
    show "payload 0 (us @ (n + k, False) # vs) \<inter>
      ({extent us..<extent us + 12} \<union> {extent us + n..<extent us + n + 12} \<union> {extent us + n + k..<extent us + n + k + 12}) = {}"
      using n by (auto dest!: payload_split)
  qed (use c m(3) n in auto)
  then show ?thesis using m by blast
qed

text \<open>\<open>plug_holes\<close> on a free block whose neighbours may be free, \<open>lfree\<close> not being behind it.\<close>

lemma plug_refines:
  assumes c: "chained s (us @ (n, False) # vs)" and l: "lfree s = blk s q" "q \<le> extent us"
    and q: "us \<noteq> [] \<and> \<not> snd (last us) \<longrightarrow> q < extent us"
  shows "\<exists>m. plug_holes (blk s (extent us)) s = Some (s\<lparr>ram := m\<rparr>) \<and> chained (s\<lparr>ram := m\<rparr>) (release_block us n vs) \<and>
    keeps (payload 0 (us @ (n, False) # vs)) s (s\<lparr>ram := m\<rparr>)"
proof -
  note b = chained_bounds [OF c] and f = block_fields [OF c]
  obtain n' vs' where j: "join_next n vs = (n', vs')" by force
  define nmem where "nmem = blk s (extent us + n)"
  have nmem: "heap_ptr s + item_next (blk s (extent us)) s = nmem" "blk s (extent us) \<noteq> nmem" "lfree s \<noteq> nmem"
    unfolding f nmem_def l using b l(2) by (auto simp: heap_words blk_compare)
  have "\<exists>m. (if blk s (extent us) \<noteq> nmem \<and> \<not> MEM_ISUSED nmem s \<and> nmem \<noteq> heap_end s
      then join_items (blk s (extent us)) nmem (if lfree s = nmem then s\<lparr>lfree := blk s (extent us)\<rparr> else s) else s) = s\<lparr>ram := m\<rparr> \<and>
    chained (s\<lparr>ram := m\<rparr>) (us @ (n', False) # vs') \<and> keeps (payload 0 (us @ (n, False) # vs)) s (s\<lparr>ram := m\<rparr>) \<and>
    payload 0 (us @ (n, False) # vs) = payload 0 (us @ (n', False) # vs')"
  proof (cases "\<exists>k ws. vs = (k, False) # ws")
    case True
    then obtain k ws where vs: "vs = (k, False) # ws" by blast
    have c2: "chained s ((us @ [(n, False)]) @ (k, False) # ws)" using c vs by simp
    have "\<not> MEM_ISUSED nmem s" using block_fields(1) [OF c2] by (simp add: nmem_def)
    moreover have "nmem \<noteq> heap_end s"
      using end_fields(1) [OF c2] end_fields(4) [OF c2] \<open>\<not> MEM_ISUSED nmem s\<close> by metis
    ultimately show ?thesis
      using join_keeps [OF c [unfolded vs]] nmem j payload_join [of 0 us n k ws] vs
      by (auto simp: join_next_def nmem_def)
  next
    case False
    then have j: "n' = n" "vs' = vs" using j by (auto simp: join_next_def split: list.splits prod.splits bool.splits)
    have "MEM_ISUSED nmem s \<or> nmem = heap_end s"
    proof (cases vs)
      case Nil
      then show ?thesis using end_fields(4) [OF c] by (simp add: nmem_def)
    next
      case (Cons v ws)
      then obtain k where "v = (k, True)" using False by (cases v) auto
      then have "chained s ((us @ [(n, False)]) @ (k, True) # ws)" using c Cons by simp
      from block_fields(1) [OF this] show ?thesis by (simp add: nmem_def)
    qed
    then show ?thesis using c j by (intro exI [where x = "ram s"]) (auto simp: keeps_def)
  qed
  then obtain m where m: "(if blk s (extent us) \<noteq> nmem \<and> \<not> MEM_ISUSED nmem s \<and> nmem \<noteq> heap_end s
      then join_items (blk s (extent us)) nmem (if lfree s = nmem then s\<lparr>lfree := blk s (extent us)\<rparr> else s) else s) = s\<lparr>ram := m\<rparr>"
    "chained (s\<lparr>ram := m\<rparr>) (us @ (n', False) # vs')" "keeps (payload 0 (us @ (n, False) # vs)) s (s\<lparr>ram := m\<rparr>)"
    "payload 0 (us @ (n, False) # vs) = payload 0 (us @ (n', False) # vs')"
    by blast
  define t where "t = s\<lparr>ram := m\<rparr>"
  define pmem where "pmem = blk s (last_start 0 0 us)"
  have tf: "heap_ptr t = heap_ptr s" "lfree t = lfree s" "blk t = blk s" by (simp_all add: t_def fun_eq_iff)
  have ct: "chained t (us @ (n', False) # vs')" using m(2) by (simp add: t_def)
  have pmem: "heap_ptr t + item_prev (blk s (extent us)) t = pmem"
    using block_fields(4) [OF ct] tf by (simp add: heap_words pmem_def)
  have behind: "\<exists>m'. (if pmem \<noteq> blk s (extent us) \<and> \<not> MEM_ISUSED pmem t
      then join_items pmem (blk s (extent us)) (if lfree t = blk s (extent us) then t\<lparr>lfree := pmem\<rparr> else t) else t) = s\<lparr>ram := m'\<rparr> \<and>
    chained (s\<lparr>ram := m'\<rparr>) (release_block us n vs) \<and> keeps (payload 0 (us @ (n', False) # vs')) t (s\<lparr>ram := m'\<rparr>)"
  proof (cases us rule: rev_cases)
    case Nil
    then have "pmem = blk s (extent us)" by (simp add: pmem_def last_start_def)
    then show ?thesis using ct Nil j by (intro exI [where x = m]) (simp add: t_def release_block_def keeps_def)
  next
    case (snoc ws w)
    obtain k u where w: "w = (k, u)" by force
    have cw: "chained t (ws @ (k, u) # (n', False) # vs')" using ct snoc w by simp
    have p: "pmem = blk t (extent ws)" using snoc by (simp add: pmem_def last_start_def tf)
    have bw: "12 \<le> k" using chained_bounds [OF cw] by simp
    have ne: "pmem \<noteq> blk s (extent us)"
      using chained_bounds [OF cw] snoc w p tf by (simp add: blk_compare)
    have used: "MEM_ISUSED pmem t \<longleftrightarrow> u" using block_fields(1) [OF cw] p by simp
    show ?thesis
    proof (cases u)
      case True
      then show ?thesis using used ct j snoc w by (intro exI [where x = m]) (simp add: t_def release_block_def keeps_def)
    next
      case False
      have "lfree t \<noteq> blk s (extent us)"
        using q False snoc w tf l b by (simp add: blk_compare)
      moreover have "join_items pmem (blk s (extent us)) t = join_items (blk t (extent ws)) (blk t (extent ws + k)) t"
        using p snoc w tf by simp
      moreover obtain m' where "join_items (blk t (extent ws)) (blk t (extent ws + k)) t = t\<lparr>ram := m'\<rparr>"
        "chained (t\<lparr>ram := m'\<rparr>) (ws @ (k + n', False) # vs')" "keeps (payload 0 (ws @ (k, False) # (n', False) # vs')) t (t\<lparr>ram := m'\<rparr>)"
        using join_keeps [of t ws k n' vs'] cw False by auto
      ultimately show ?thesis
        using ne used False j snoc w by (intro exI [where x = m']) (simp add: t_def release_block_def)
    qed
  qed
  have "heap_ptr s \<le> blk s (extent us)" "blk s (extent us) < heap_end s"
    using blk_compare(1) [of s 0 "extent us"] b end_fields(4) [OF c] by (simp_all add: heap_words blk_compare)
  then have "plug_holes (blk s (extent us)) s = Some
     (if pmem \<noteq> blk s (extent us) \<and> \<not> MEM_ISUSED pmem t
      then join_items pmem (blk s (extent us)) (if lfree t = blk s (extent us) then t\<lparr>lfree := pmem\<rparr> else t) else t)"
    unfolding plug_holes_def Let_def nmem(1) m(1) t_def [symmetric] pmem by simp
  then show ?thesis using behind m(3,4) keeps_trans unfolding t_def by fastforce
qed

lemma release_facts:
  shows release_extent: "extent (release_block us n vs) = extent us + n + extent vs"
    and release_used: "filter snd (release_block us n vs) = filter snd us @ filter snd vs"
    and release_low: "low (release_block us n vs) = (if \<forall>b\<in>set us. snd b then extent us else low us)"
    and release_calm: "successively (\<lambda>b c. snd b \<or> snd c) (us @ (n, True) # vs) \<Longrightarrow>
      successively (\<lambda>b c. snd b \<or> snd c) (release_block us n vs)"
    and release_lengths: "\<forall>b\<in>set (us @ (n, True) # vs). 4 dvd fst b \<and> (snd b \<longrightarrow> 16 \<le> fst b) \<Longrightarrow>
      \<forall>b\<in>set (release_block us n vs). 4 dvd fst b \<and> (snd b \<longrightarrow> 16 \<le> fst b)"
proof -
  obtain m ws where j: "join_next n vs = (m, ws)" by force
  then have next_cases: "(\<exists>k. vs = (k, False) # ws \<and> m = n + k) \<or> (m = n \<and> ws = vs \<and> (vs = [] \<or> snd (hd vs)))"
    by (auto simp: join_next_def split: list.splits prod.splits bool.splits)
  have prev_cases: "(\<exists>us' k. us = us' @ [(k, False)] \<and> release_block us n vs = us' @ (k + m, False) # ws) \<or>
      (us = [] \<or> snd (last us)) \<and> release_block us n vs = us @ (m, False) # ws"
    by (cases us rule: rev_cases) (auto simp: release_block_def j)
  show "extent (release_block us n vs) = extent us + n + extent vs"
    using next_cases prev_cases by auto
  show "filter snd (release_block us n vs) = filter snd us @ filter snd vs"
    using next_cases prev_cases by auto
  show "low (release_block us n vs) = (if \<forall>b\<in>set us. snd b then extent us else low us)"
    using prev_cases by (elim disjE exE conjE) (simp_all add: low_append)
  show "successively (\<lambda>b c. snd b \<or> snd c) (us @ (n, True) # vs) \<Longrightarrow>
      successively (\<lambda>b c. snd b \<or> snd c) (release_block us n vs)"
    using next_cases prev_cases by (elim disjE exE conjE) (auto simp: successively_append_iff successively_Cons)
  show "\<forall>b\<in>set (us @ (n, True) # vs). 4 dvd fst b \<and> (snd b \<longrightarrow> 16 \<le> fst b) \<Longrightarrow>
      \<forall>b\<in>set (release_block us n vs). 4 dvd fst b \<and> (snd b \<longrightarrow> 16 \<le> fst b)"
    using next_cases prev_cases by (elim disjE exE conjE) auto
qed

lemma extent_filter: "extent (filter P bs) \<le> extent bs"
  by (induction bs) auto

text \<open>
  A new hole behind the blocks \<open>us\<close>: \<open>lfree\<close> moves to it when it is in front of the first free block,
  and \<open>plug_holes\<close> joins it with its neighbours.
\<close>

definition hole_low :: "blocks \<Rightarrow> nat" where
  "hole_low us = (if \<forall>x\<in>set us. snd x then extent us else low us)"

lemma hole_lfree:
  assumes c: "chained t (us @ (n, False) # vs)"
    and l: "lfree t = blk t (if \<forall>x\<in>set us. snd x then extent us + n + low vs else low us)"
  shows "(if blk t (extent us) < lfree t then t\<lparr>lfree := blk t (extent us)\<rparr> else t) = t\<lparr>lfree := blk t (hole_low us)\<rparr>"
proof (cases "\<forall>x\<in>set us. snd x")
  case True
  have "blk t (extent us) < blk t (extent us + n + low vs)"
    using chained_bounds [OF c] low_le [of vs] by (subst blk_compare) auto
  moreover have "lfree t = blk t (extent us + n + low vs)" "hole_low us = extent us"
    unfolding l hole_low_def by (simp_all only: if_P [OF True])
  ultimately show ?thesis by simp
next
  case False
  have "low us + 12 \<le> extent us" using low_less [OF _ False] chained_lengths [OF c] by auto
  then have "\<not> blk t (extent us) < blk t (low us)"
    using chained_bounds [OF c] by (subst blk_compare) auto
  moreover have "lfree t = blk t (low us)" "hole_low us = low us" unfolding l hole_low_def by (simp_all only: False if_False)
  moreover have "t\<lparr>lfree := lfree t\<rparr> = t" by simp
  ultimately show ?thesis by metis
qed

lemma hole_plug:
  assumes c: "chained u (us @ (n, False) # vs)" and l: "lfree u = blk u (hole_low us)"
  shows "\<exists>m. plug_holes (blk u (extent us)) u = Some (u\<lparr>ram := m\<rparr>) \<and> chained (u\<lparr>ram := m\<rparr>) (release_block us n vs) \<and>
    keeps (payload 0 (us @ (n, False) # vs)) u (u\<lparr>ram := m\<rparr>) \<and> lfree u = blk u (low (release_block us n vs))"
proof -
  have low: "low us \<le> extent us" "\<not> (\<forall>x\<in>set us. snd x) \<Longrightarrow> low us + 12 \<le> extent us"
    using low_le low_less chained_lengths [OF c] by auto
  have "\<exists>m. plug_holes (blk u (extent us)) u = Some (u\<lparr>ram := m\<rparr>) \<and> chained (u\<lparr>ram := m\<rparr>) (release_block us n vs) \<and>
      keeps (payload 0 (us @ (n, False) # vs)) u (u\<lparr>ram := m\<rparr>)"
  proof (rule plug_refines [OF c l])
    show "hole_low us \<le> extent us" using low by (simp add: hole_low_def)
    show "us \<noteq> [] \<and> \<not> snd (last us) \<longrightarrow> hole_low us < extent us"
    proof
      assume "us \<noteq> [] \<and> \<not> snd (last us)"
      then have n: "\<not> (\<forall>x\<in>set us. snd x)" by (meson last_in_set)
      then have "hole_low us = low us" unfolding hole_low_def by (simp only: if_False)
      then show "hole_low us < extent us" using low(2) [OF n] by linarith
    qed
  qed
  moreover have "lfree u = blk u (low (release_block us n vs))"
    unfolding l release_low hole_low_def ..
  ultimately show ?thesis by blast
qed

lemma free_refines:
  assumes h: "heap_ok s (us @ (n, True) # vs)"
  shows "\<exists>s'. rt_smem_free (blk s (extent us + 12)) s = Some s' \<and> heap_ok s' (release_block us n vs) \<and>
    keeps (payload 0 (us @ (n, False) # vs)) s s'"
proof -
  have c: "chained s (us @ (n, True) # vs)" using h by (simp add: heap_ok_def)
  have w: "sm_ptr s AND MEM_MASK = sm_ptr s" using c by (simp add: chained_def)
  have n: "16 \<le> n" using h by (simp add: heap_ok_def)
  note b = chained_bounds [OF c] and f = block_fields [OF c]
  have d4: "4 dvd extent us" "unat (heap_ptr s) mod 4 = 0"
    using h by (auto simp: heap_ok_def chained_def intro!: dvd_extent)
  define t where "t = set_pool (blk s (extent us)) (tag (sm_ptr s) False) s"
  have ct: "chained t (us @ (n, False) # vs)" using chained_tag [OF c] by (simp add: t_def)
  have tf: "blk t = blk s" "heap_ptr t = heap_ptr s" "sm_ptr t = sm_ptr s" "lfree t = lfree s" "mem_used t = mem_used s"
    by (simp_all add: t_def blk_def fun_eq_iff)
  have lf: "lfree s = blk s (if \<forall>x\<in>set us. snd x then extent us + n + low vs else low us)"
    using h by (simp add: heap_ok_def low_append add.assoc)
  define u where "u = t\<lparr>lfree := blk s (hole_low us), mem_used := mem_used s - off n\<rparr>"
  have lfree: "(if blk s (extent us) < lfree t then t\<lparr>lfree := blk s (extent us)\<rparr> else t) = t\<lparr>lfree := blk s (hole_low us)\<rparr>"
    using hole_lfree [OF ct] lf unfolding tf by simp
  have cu: "chained u (us @ (n, False) # vs)" using ct by (simp add: u_def)
  have uf: "blk u = blk s" "lfree u = blk u (hole_low us)" by (simp_all add: u_def tf fun_eq_iff)
  obtain m where m: "plug_holes (blk s (extent us)) u = Some (u\<lparr>ram := m\<rparr>)" "chained (u\<lparr>ram := m\<rparr>) (release_block us n vs)"
    "keeps (payload 0 (us @ (n, False) # vs)) u (u\<lparr>ram := m\<rparr>)" "lfree u = blk u (low (release_block us n vs))"
    using hole_plug [OF cu uf(2)] unfolding uf(1) by blast
  have "rt_smem_free (blk s (extent us + 12)) s = plug_holes (blk s (extent us)) u"
  proof -
    have "blk s (extent us + 12) \<noteq> 0" using b n by (simp add: word32_eq_iff_unat unat_blk)
    moreover have "blk s (extent us + 12) AND 3 = 0" unfolding and_3 using b n d4 by (simp add: unat_blk mod_add_eq [symmetric] flip: mod_eq_0_iff_dvd)
    moreover have "heap_ptr s \<le> blk s (extent us + 12)"
      using blk_compare(1) [of s 0 "extent us + 12"] b n by (simp add: heap_words)
    moreover have "blk s (extent us + 12) < heap_end s"
      unfolding end_fields(4) [OF c] using b n by (subst blk_compare) auto
    ultimately have r: "blk s (extent us + 12) \<noteq> 0" "blk s (extent us + 12) AND 3 = 0" "heap_ptr s \<le> blk s (extent us + 12)"
      "blk s (extent us + 12) < heap_end s" by blast+
    have pool: "MEM_POOL (heap_ptr s + item_next (blk s (extent us)) s) s = sm_ptr s"
    proof (cases vs)
      case Nil
      then show ?thesis using end_fields(2) [OF c] f by (simp add: heap_words)
    next
      case (Cons v ws)
      then have "chained s ((us @ [(n, True)]) @ (fst v, snd v) # ws)" using c by simp
      from block_fields(2) [OF this] f show ?thesis by (simp add: heap_words)
    qed
    have mem: "blk s (extent us + 12) - 12 = blk s (extent us)" by (simp add: heap_words)
    have freed: "MEM_FREED s = tag (sm_ptr s) False" by (simp add: MEM_FREED_def w tag_def)
    have len: "item_next (blk s (extent us)) (t\<lparr>lfree := blk s (hole_low us)\<rparr>) - (blk s (extent us) - heap_ptr (t\<lparr>lfree := blk s (hole_low us)\<rparr>)) = off n"
      using block_fields(3) [OF ct] tf by (simp add: heap_words item_next_def)
    show ?thesis
      unfolding rt_smem_free_def Let_def mem freed t_def [symmetric] lfree len
      using r pool f by (simp add: u_def tf)
  qed
  then have "rt_smem_free (blk s (extent us + 12)) s = Some (u\<lparr>ram := m\<rparr>)" using m by simp
  moreover have "heap_ok (u\<lparr>ram := m\<rparr>) (release_block us n vs)"
  proof -
    let ?e = "extent (filter snd us) + extent (filter snd vs)"
    have e: "?e \<le> extent us + extent vs" using extent_filter [of snd us] extent_filter [of snd vs] by simp
    have mu: "mem_used s = off (?e + n)" using h by (simp add: heap_ok_def add.commute add.left_commute)
    have "mem_used u = off ?e" "mem_max u = mem_max s"
      using mu by (simp_all add: u_def t_def heap_words)
    moreover have "off ?e \<le> mem_used s" unfolding mu using e b by (subst off_compare) auto
    moreover have "mem_used s \<le> mem_max s" using h unfolding heap_ok_def by blast
    ultimately have "mem_used u = off ?e" "mem_used u \<le> mem_max u" by auto
    moreover have "lfree (u\<lparr>ram := m\<rparr>) = blk (u\<lparr>ram := m\<rparr>) (low (release_block us n vs))"
      using m(4) by simp
    moreover have "successively (\<lambda>b c. snd b \<or> snd c) (release_block us n vs)"
      using h by (intro release_calm) (simp add: heap_ok_def)
    moreover have "\<forall>b\<in>set (release_block us n vs). 4 dvd fst b \<and> (snd b \<longrightarrow> 16 \<le> fst b)"
      using h unfolding heap_ok_def by (intro release_lengths) blast
    moreover have "extent (filter snd (release_block us n vs)) = ?e" by (simp add: release_used)
    moreover have "mem_used (u\<lparr>ram := m\<rparr>) = mem_used u" "mem_max (u\<lparr>ram := m\<rparr>) = mem_max u" by simp_all
    ultimately show ?thesis
      using m(2) unfolding heap_ok_def by metis
  qed
  moreover have "keeps (payload 0 (us @ (n, False) # vs)) s u"
  proof (rule keepsI [OF c])
    have "unat (heap_ptr s) + extent us + 12 < 4294967296" using b by simp
    then show "only {extent us..<extent us + 4} s (ram u)"
      using only_st32 [of "{extent us..<extent us + 4}" s "ram s" "extent us"] by (simp add: u_def t_def item_fields only_def)
    show "payload 0 (us @ (n, False) # vs) \<inter> {extent us..<extent us + 4} = {}"
      by (auto dest!: payload_split)
  qed (simp_all add: u_def t_def)
  ultimately show ?thesis using m(3) keeps_trans by blast
qed

end
