(* ===== verification/KMalloc.thy ===== *)
theory KMalloc
  imports KHeap
begin

text \<open>
  The system heap as its clients see it: what they may write, what the heap keeps for them over
  sequences of calls, and what reallocation does to the contents of a block.
\<close>

section \<open>The bytes of the clients\<close>

lemma seg_payload:
  assumes "seg m B w p q bs" and "\<And>x. B + q \<le> x \<Longrightarrow> x - B \<notin> payload q bs \<Longrightarrow> m' x = m x"
  shows "seg m' B w p q bs"
  using assms
proof (induction bs arbitrary: p q)
  case (Cons b bs)
  obtain n u where b: "b = (n, u)" by force
  have "ld32 m' (B + q + i) = ld32 m (B + q + i)" if "i \<le> 8" for i
  proof (rule ld32_cong)
    fix j :: nat assume "j < 4"
    then have "B + q + i + j - B \<notin> payload q (b # bs)" using that payload_bounds [of "q + (i + j)" q "b # bs"] by auto
    then show "m' (B + q + i + j) = m (B + q + i + j)" using Cons.prems(2) by simp
  qed
  from this [of 0] this [of 4] this [of 8]
  have "ld32 m' (B + q) = ld32 m (B + q)" "ld32 m' (B + q + 4) = ld32 m (B + q + 4)" "ld32 m' (B + q + 8) = ld32 m (B + q + 8)"
    by simp_all
  moreover have "seg m' B w q (q + n) bs"
  proof (rule Cons.IH)
    show "seg m B w q (q + n) bs" using Cons.prems(1) b by simp
    fix x assume x: "B + (q + n) \<le> x" "x - B \<notin> payload (q + n) bs"
    then have "x - B \<notin> payload q (b # bs)" using b by auto
    then show "m' x = m x" using Cons.prems(2) x by simp
  qed
  ultimately show ?case using Cons.prems(1) b by simp
qed simp

lemma heap_ok_write:
  assumes h: "heap_ok s bs" and m: "\<And>x. x < unat (heap_ptr s) \<or> x - unat (heap_ptr s) \<notin> payload 0 bs \<Longrightarrow> m x = ram s x"
  shows "heap_ok (s\<lparr>ram := m\<rparr>) bs"
proof -
  have c: "chained s bs" using h by (simp add: heap_ok_def)
  have "seg m (unat (heap_ptr s)) (sm_ptr s) 0 0 bs"
    by (rule seg_payload [where m = "ram s"]) (use c m in \<open>auto simp: chained_def tiled_def\<close>)
  moreover have "ld32 m (unat (heap_ptr s) + extent bs + i) = ld32 (ram s) (unat (heap_ptr s) + extent bs + i)" for i
  proof (rule ld32_cong)
    fix j
    have "unat (heap_ptr s) + extent bs + i + j - unat (heap_ptr s) \<notin> payload 0 bs"
      using payload_bounds [of "extent bs + i + j" 0 bs] by (auto simp: add.assoc)
    then show "m (unat (heap_ptr s) + extent bs + i + j) = ram s (unat (heap_ptr s) + extent bs + i + j)" by (intro m) blast
  qed
  from this [of 0] this [of 4]
  have "ld32 m (unat (heap_ptr s) + extent bs) = ld32 (ram s) (unat (heap_ptr s) + extent bs)"
    "ld32 m (unat (heap_ptr s) + extent bs + 4) = ld32 (ram s) (unat (heap_ptr s) + extent bs + 4)" by simp_all
  ultimately have "tiled m (unat (heap_ptr s)) (sm_ptr s) bs" using c by (simp add: chained_def tiled_def)
  then have "chained (s\<lparr>ram := m\<rparr>) bs" using c by (auto simp: chained_def)
  then show ?thesis using h by (auto simp: heap_ok_def)
qed

text \<open>The headers determine the blocks.\<close>

lemma seg_unique:
  assumes "seg m B w p q bs" "seg m B w p q cs" "extent bs = extent cs" "q + extent bs < 4294967296" "w AND MEM_MASK = w"
  shows "bs = cs"
  using assms
proof (induction bs arbitrary: p q cs)
  case Nil
  then show ?case by (cases cs) auto
next
  case (Cons b bs)
  obtain n u where b: "b = (n, u)" by force
  obtain c cs' where cs: "cs = c # cs'" using Cons.prems b by (cases cs) auto
  obtain k v where c: "c = (k, v)" by force
  have "tag w u = tag w v" "off (q + n) = off (q + k)" using Cons.prems b c cs by auto
  then have "u = v" "n = k"
    using tag_mask(1) [OF Cons.prems(5)] Cons.prems b c cs off_compare(3) [of "q + n" "q + k"] by (metis, auto)
  moreover have "bs = cs'"
    by (rule Cons.IH [of q "q + n"]) (use Cons.prems b c cs \<open>n = k\<close> in auto)
  ultimately show ?case using b c cs by simp
qed

lemma blocks_unique:
  assumes "heap_ok s bs" "heap_ok s cs"
  shows "bs = cs"
proof (rule seg_unique)
  show "seg (ram s) (unat (heap_ptr s)) (sm_ptr s) 0 0 bs" "seg (ram s) (unat (heap_ptr s)) (sm_ptr s) 0 0 cs"
    "0 + extent bs < 4294967296" "sm_ptr s AND MEM_MASK = sm_ptr s"
    using assms by (simp_all add: heap_ok_def chained_def tiled_def)
  have "blk s (extent bs) = blk s (extent cs)" using assms by (simp add: heap_ok_def chained_def)
  then show "extent bs = extent cs" using assms by (simp add: heap_ok_def chained_def blk_compare)
qed

section \<open>Live blocks\<close>

text \<open>\<open>live s p n\<close>: the address \<open>p\<close> has been handed out with \<open>n\<close> bytes.\<close>

definition live :: "rt_small_mem \<Rightarrow> u32 \<Rightarrow> nat \<Rightarrow> bool" where
  "live s p n \<longleftrightarrow> (\<exists>us vs. heap_ok s (us @ (n + 12, True) # vs) \<and> p = blk s (extent us + 12))"

text \<open>The offsets and lengths of the used blocks.\<close>

fun spots :: "nat \<Rightarrow> blocks \<Rightarrow> (nat \<times> nat) set" where
  "spots q [] = {}"
| "spots q ((n, u) # bs) = (if u then {(q, n)} else {}) \<union> spots (q + n) bs"

lemma spots_append: "spots q (us @ vs) = spots q us \<union> spots (q + extent us) vs"
  by (induction q us rule: spots.induct) (auto simp: add.assoc)

lemma spots_split: "(p, n) \<in> spots q bs \<Longrightarrow> \<exists>us vs. bs = us @ (n, True) # vs \<and> p = q + extent us"
proof (induction q bs rule: spots.induct)
  case (2 q k u bs)
  show ?case
  proof (cases "(p, n) \<in> spots (q + k) bs")
    case True
    then obtain us vs where "bs = us @ (n, True) # vs" "p = q + k + extent us" using 2 by blast
    then show ?thesis by (intro exI [where x = "(k, u) # us"] exI [where x = vs]) simp
  next
    case False
    then show ?thesis using 2 by (intro exI [where x = "[]"] exI [where x = bs]) (auto split: if_splits)
  qed
qed simp

lemma spots_payload: "(p, n) \<in> spots q bs \<Longrightarrow> p + 12 \<le> x \<Longrightarrow> x < p + n \<Longrightarrow> x \<in> payload q bs"
  by (induction q bs rule: spots.induct) (auto split: if_splits)

lemma payload_spot: "x \<in> payload q bs \<Longrightarrow> \<exists>p n. (p, n) \<in> spots q bs \<and> p + 12 \<le> x \<and> x < p + n"
  by (induction q bs rule: spots.induct) (force split: if_splits)+

lemma spots_bounds: "(p, n) \<in> spots q bs \<Longrightarrow> q \<le> p \<and> p + n \<le> q + extent bs"
  by (induction q bs rule: spots.induct) (auto split: if_splits)

text \<open>Used blocks do not overlap.\<close>

lemma spots_disjoint:
  "(p, n) \<in> spots q bs \<Longrightarrow> (r, k) \<in> spots q bs \<Longrightarrow> (p, n) = (r, k) \<or> p + n \<le> r \<or> r + k \<le> p"
  by (induction q bs rule: spots.induct) (auto dest: spots_bounds split: if_splits)

lemma live_spot:
  assumes "heap_ok s bs"
  shows "live s p n \<longleftrightarrow> (\<exists>q. (q, n + 12) \<in> spots 0 bs \<and> p = blk s (q + 12))"
proof
  assume "live s p n"
  then obtain us vs where l: "heap_ok s (us @ (n + 12, True) # vs)" "p = blk s (extent us + 12)" by (auto simp: live_def)
  then have "bs = us @ (n + 12, True) # vs" using blocks_unique assms by blast
  then show "\<exists>q. (q, n + 12) \<in> spots 0 bs \<and> p = blk s (q + 12)" using l(2) by (auto simp: spots_append)
next
  assume "\<exists>q. (q, n + 12) \<in> spots 0 bs \<and> p = blk s (q + 12)"
  then show "live s p n" using assms by (auto simp: live_def dest!: spots_split)
qed

lemma alloc_spots:
  assumes "alloc_blocks k bs = Some (q, cs)"
  shows "\<exists>l. 12 + k \<le> l \<and> spots 0 cs = insert (q, l) (spots 0 bs) \<and> payload 0 bs \<inter> {q..<q + l} = {}"
    and "extent cs = extent bs"
proof -
  obtain us n vs where f: "first_fit k bs = Some (us, n, vs)" and q: "q = extent us"
    and cs: "cs = us @ (if 12 + k + 24 \<le> n then (12 + k, True) # (n - (12 + k), False) # vs else (n, True) # vs)"
    using assms by (auto simp: alloc_blocks_def)
  have bs: "bs = us @ (n, False) # vs" "12 + k \<le> n" using first_fit_Some [OF f] by auto
  have "payload 0 bs \<inter> {q..<q + (if 12 + k + 24 \<le> n then 12 + k else n)} = {}"
    using bs q by (auto dest!: payload_split)
  then show "\<exists>l. 12 + k \<le> l \<and> spots 0 cs = insert (q, l) (spots 0 bs) \<and> payload 0 bs \<inter> {q..<q + l} = {}"
    using bs unfolding cs q by (intro exI [where x = "if 12 + k + 24 \<le> n then 12 + k else n"]) (auto simp: spots_append)
  show "extent cs = extent bs" using bs unfolding cs by auto
qed

lemma release_spots: "spots 0 (release_block us n vs) = spots 0 (us @ (n, False) # vs)"
proof -
  obtain m ws where j: "join_next n vs = (m, ws)" by force
  have a: "spots q ((n, False) # vs) = spots q ((m, False) # ws)" for q
    using j by (auto simp: join_next_def add.assoc split: list.splits prod.splits bool.splits)
  then have "spots 0 (us @ (n, False) # vs) = spots 0 (us @ (m, False) # ws)" by (simp add: spots_append)
  also have "\<dots> = spots 0 (release_block us n vs)"
    by (cases us rule: rev_cases) (auto simp: release_block_def j spots_append add.assoc)
  finally show ?thesis by simp
qed

section \<open>The services\<close>

lemma heap_ok_range:
  assumes "heap_ok s bs"
  shows "unat (heap_ptr s) + extent bs + 12 < 4294967296" "unat (heap_end s) = unat (heap_ptr s) + extent bs" "extent bs < 4294967296"
  using assms by (auto simp: heap_ok_def chained_def unat_blk)

lemma blk_nonzero: "heap_ok s bs \<Longrightarrow> q < extent bs \<Longrightarrow> blk s (q + 12) \<noteq> 0"
  using heap_ok_range [of s bs] by (simp add: word32_eq_iff_unat unat_blk)

lemma malloc_ok:
  assumes h: "heap_ok s bs" and E: "24 \<le> extent bs" and n: "unat n + 3 < 4294967296"
  shows "\<exists>r s' cs. rt_malloc n s = Some (r, s') \<and> heap_ok s' cs \<and> extent cs = extent bs \<and> keeps (payload 0 bs) s s' \<and>
    (r = 0 \<and> s' = s \<and> cs = bs \<or>
     (\<exists>q l. n \<noteq> 0 \<and> r = blk s (q + 12) \<and> r \<noteq> 0 \<and> 12 + max 12 (round4 (unat n)) \<le> l \<and> spots 0 cs = insert (q, l) (spots 0 bs) \<and>
        payload 0 bs \<inter> {q..<q + l} = {}))"
proof (cases "n = 0")
  case True
  then show ?thesis using h by (auto simp: rt_malloc_def rt_smem_alloc_def keeps_def)
next
  case False
  then have "0 < unat n" by (simp add: word32_eq_iff_unat)
  note a = alloc_refines [OF h this n E]
  show ?thesis
  proof (cases "alloc_blocks (max 12 (round4 (unat n))) bs")
    case None
    then show ?thesis using a h by (auto simp: rt_malloc_def keeps_def)
  next
    case (Some x)
    then obtain q cs where x: "alloc_blocks (max 12 (round4 (unat n))) bs = Some (q, cs)" by (cases x) auto
    obtain s' where s': "rt_smem_alloc n s = Some (blk s (q + 12), s')" "heap_ok s' cs" "keeps (payload 0 bs) s s'"
      using a x by auto
    obtain l where l: "12 + max 12 (round4 (unat n)) \<le> l" "spots 0 cs = insert (q, l) (spots 0 bs)" "payload 0 bs \<inter> {q..<q + l} = {}"
      using alloc_spots(1) [OF x] by blast
    have "q < extent bs" using spots_bounds [of q l 0 cs] l alloc_spots(2) [OF x] by auto
    then show ?thesis using s' l alloc_spots(2) [OF x] blk_nonzero [OF h] False unfolding rt_malloc_def by blast
  qed
qed

lemma free_ok:
  assumes h: "heap_ok s bs" and q: "(q, n) \<in> spots 0 bs"
  shows "\<exists>s' cs. rt_free (blk s (q + 12)) s = Some s' \<and> heap_ok s' cs \<and> extent cs = extent bs \<and>
    spots 0 cs = spots 0 bs - {(q, n)} \<and> keeps (payload 0 bs - {q + 12..<q + n}) s s'"
proof -
  obtain us vs where bs: "bs = us @ (n, True) # vs" "q = extent us" using spots_split [OF q] by auto
  obtain s' where s': "rt_smem_free (blk s (q + 12)) s = Some s'" "heap_ok s' (release_block us n vs)"
    "keeps (payload 0 (us @ (n, False) # vs)) s s'"
    using free_refines [of s us n vs] h bs by auto
  have n: "16 \<le> n" using h bs by (simp add: heap_ok_def)
  have "spots 0 (us @ (n, False) # vs) = spots 0 bs - {(q, n)}"
    using n unfolding bs by (auto simp: spots_append dest: spots_bounds)
  moreover have "payload 0 bs - {q + 12..<q + n} \<subseteq> payload 0 (us @ (n, False) # vs)"
    unfolding bs by (auto simp: payload_append)
  then have "keeps (payload 0 bs - {q + 12..<q + n}) s s'" using s'(3) by (auto simp: keeps_def)
  ultimately show ?thesis using s' bs release_spots [of us n vs] release_extent [of us n vs] unfolding rt_free_def by auto
qed

section \<open>Reallocation\<close>

text \<open>A block that shrinks by more than a header and 12 bytes stays where it is; the rest is released.\<close>

lemma shrink_refines:
  assumes h: "heap_ok s (us @ (n, True) # vs)" and k: "4 \<le> k" "4 dvd k" "k + 24 < n - 12"
  defines "ws \<equiv> us @ [(12 + k, True)]" and "r \<equiv> n - (12 + k)"
  shows "\<exists>s'. map_option (Pair p) (plug_holes (blk s (extent us + 12 + k))
      (let t = smem_split (off (extent us)) (off k) (s\<lparr>mem_used := mem_used s - off r\<rparr>)
       in if blk s (extent us + 12 + k) < lfree t then t\<lparr>lfree := blk s (extent us + 12 + k)\<rparr> else t)) = Some (p, s') \<and>
    heap_ok s' (release_block ws r vs) \<and> keeps (payload 0 (ws @ (r, False) # vs)) s s'"
proof -
  have c: "chained s (us @ (n, True) # vs)" using h by (simp add: heap_ok_def)
  note b = chained_bounds [OF c]
  define s1 where "s1 = s\<lparr>mem_used := mem_used s - off r\<rparr>"
  have s1: "chained s1 (us @ (n, True) # vs)" "blk s1 = blk s" "heap_ptr s1 = heap_ptr s" "lfree s1 = lfree s" "ram s1 = ram s"
    using c by (simp_all add: s1_def fun_eq_iff)
  have kn: "12 + k + 12 \<le> n" using k by simp
  obtain m where m: "smem_split (off (extent us)) (off k) s1 = s1\<lparr>ram := m\<rparr>"
    "chained (s1\<lparr>ram := m\<rparr>) (us @ (12 + k, True) # (n - (12 + k), False) # vs)"
    "only ({extent us..<extent us + 12} \<union> {extent us + 12 + k..<extent us + n + 12}) s1 m"
    using chained_split [OF s1(1) kn] by blast
  define t where "t = s1\<lparr>ram := m\<rparr>"
  have ct: "chained t (ws @ (r, False) # vs)" using m(2) by (simp add: t_def ws_def r_def)
  have tf: "blk t = blk s" "lfree t = lfree s" by (simp_all add: t_def s1 fun_eq_iff)
  have mem2: "blk s (extent us + 12 + k) = blk t (extent ws)"
    unfolding tf ws_def by (simp add: heap_words add.assoc)
  have "lfree s = blk s (if \<forall>x\<in>set us. snd x then extent us + n + low vs else low us)"
    using h by (simp add: heap_ok_def low_append add.assoc)
  moreover have "n = 12 + (k + r)" using k by (simp add: r_def)
  ultimately have "lfree t = blk t (if \<forall>x\<in>set ws. snd x then extent ws + r + low vs else low ws)"
    by (simp add: ws_def tf low_append add.assoc)
  note lfree = hole_lfree [OF ct this]
  define u where "u = t\<lparr>lfree := blk t (hole_low ws)\<rparr>"
  have cu: "chained u (ws @ (r, False) # vs)" using ct by (simp add: u_def)
  have uf: "blk u = blk t" "lfree u = blk u (hole_low ws)" by (simp_all add: u_def fun_eq_iff)
  obtain m' where m': "plug_holes (blk t (extent ws)) u = Some (u\<lparr>ram := m'\<rparr>)" "chained (u\<lparr>ram := m'\<rparr>) (release_block ws r vs)"
    "keeps (payload 0 (ws @ (r, False) # vs)) u (u\<lparr>ram := m'\<rparr>)" "lfree u = blk u (low (release_block ws r vs))"
    using hole_plug [OF cu uf(2)] unfolding uf(1) by blast
  have "plug_holes (blk s (extent us + 12 + k))
      (let t = smem_split (off (extent us)) (off k) (s\<lparr>mem_used := mem_used s - off r\<rparr>)
       in if blk s (extent us + 12 + k) < lfree t then t\<lparr>lfree := blk s (extent us + 12 + k)\<rparr> else t) = Some (u\<lparr>ram := m'\<rparr>)"
    unfolding s1_def [symmetric] m(1) t_def [symmetric] mem2 Let_def lfree u_def [symmetric] by (rule m'(1))
  moreover have "heap_ok (u\<lparr>ram := m'\<rparr>) (release_block ws r vs)"
  proof -
    let ?e = "extent (filter snd us) + (12 + k) + extent (filter snd vs)"
    have e: "?e \<le> extent us + (12 + k) + extent vs" using extent_filter [of snd us] extent_filter [of snd vs] by simp
    have mu: "mem_used s = off (?e + r)" using h k by (simp add: heap_ok_def r_def add.commute add.left_commute)
    have "mem_used u = off ?e" "mem_max u = mem_max s"
      using mu by (simp_all add: u_def t_def s1_def heap_words)
    moreover have "off ?e \<le> mem_used s" unfolding mu using e b k by (subst off_compare) (auto simp: r_def)
    moreover have "mem_used s \<le> mem_max s" using h unfolding heap_ok_def by blast
    ultimately have "mem_used (u\<lparr>ram := m'\<rparr>) = off ?e" "mem_used (u\<lparr>ram := m'\<rparr>) \<le> mem_max (u\<lparr>ram := m'\<rparr>)" by auto
    moreover have "lfree (u\<lparr>ram := m'\<rparr>) = blk (u\<lparr>ram := m'\<rparr>) (low (release_block ws r vs))" using m'(4) by simp
    moreover have "successively (\<lambda>b c. snd b \<or> snd c) (release_block ws r vs)"
      using h by (intro release_calm) (auto simp: heap_ok_def ws_def successively_append_iff successively_Cons)
    moreover have "\<forall>b\<in>set (release_block ws r vs). 4 dvd fst b \<and> (snd b \<longrightarrow> 16 \<le> fst b)"
      using h k by (intro release_lengths) (auto simp: heap_ok_def ws_def r_def)
    moreover have "extent (filter snd (release_block ws r vs)) = ?e" by (simp add: release_used ws_def)
    ultimately show ?thesis
      using m'(2) unfolding heap_ok_def by metis
  qed
  moreover have "keeps (payload 0 (ws @ (r, False) # vs)) s u"
  proof (rule keepsI [OF c])
    show "only ({extent us..<extent us + 12} \<union> {extent us + 12 + k..<extent us + n + 12}) s (ram u)"
      using m(3) s1 by (simp add: u_def t_def only_def)
    show "payload 0 (ws @ (r, False) # vs) \<inter> ({extent us..<extent us + 12} \<union> {extent us + 12 + k..<extent us + n + 12}) = {}"
      using k by (auto simp: ws_def r_def payload_append dest!: payload_bounds)
  qed (use k in \<open>auto simp: u_def t_def s1_def\<close>)
  ultimately show ?thesis using keeps_trans m'(3) by fastforce
qed

lemma spots_length: "heap_ok s bs \<Longrightarrow> (q, n) \<in> spots 0 bs \<Longrightarrow> 16 \<le> n \<and> 4 dvd n \<and> 4 dvd q"
proof -
  assume h: "heap_ok s bs" and q: "(q, n) \<in> spots 0 bs"
  then obtain us vs where "bs = us @ (n, True) # vs" "q = extent us" using spots_split [OF q] by auto
  then show ?thesis using h by (auto simp: heap_ok_def intro!: dvd_extent)
qed

lemma payload_spots: "spots 0 bs \<subseteq> spots 0 cs \<Longrightarrow> payload 0 bs \<subseteq> payload 0 cs"
  using payload_spot spots_payload by blast

text \<open>Copying a block to a new one and releasing the old.\<close>

lemma move_ok:
  assumes h: "heap_ok s bs" and h1: "heap_ok s1 cs" and ext: "extent cs = extent bs" and k1: "keeps (payload 0 bs) s s1"
    and new: "spots 0 cs = insert (p, l) (spots 0 bs)" "payload 0 bs \<inter> {p..<p + l} = {}"
    and q: "(q, n) \<in> spots 0 bs" and c: "c \<le> n - 12" "c \<le> l - 12" "16 \<le> l"
  shows "\<exists>s' ds. rt_free (blk s (q + 12)) (s1\<lparr>ram := mwrite (ram s1) (unat (blk s (p + 12))) (mread (ram s1) (unat (blk s (q + 12))) c)\<rparr>) = Some s' \<and>
    heap_ok s' ds \<and> extent ds = extent bs \<and> keeps (payload 0 bs - {q + 12..<q + n}) s s' \<and>
    spots 0 ds = insert (p, l) (spots 0 bs - {(q, n)}) \<and>
    (\<forall>i<c. ram s' (unat (heap_ptr s) + p + 12 + i) = ram s (unat (heap_ptr s) + q + 12 + i))"
proof -
  let ?B = "unat (heap_ptr s)"
  define s2 where "s2 = s1\<lparr>ram := mwrite (ram s1) (unat (blk s (p + 12))) (mread (ram s1) (unat (blk s (q + 12))) c)\<rparr>"
  have n: "16 \<le> n" using spots_length [OF h q] by blast
  have pin: "(p, l) \<in> spots 0 cs" "(q, n) \<in> spots 0 cs" using new q by auto
  have pb: "p + l \<le> extent bs" "q + n \<le> extent bs" using spots_bounds [OF pin(1)] spots_bounds [OF pin(2)] ext by auto
  have addr: "unat (blk s (p + 12)) = ?B + p + 12" "unat (blk s (q + 12)) = ?B + q + 12"
    using heap_ok_range [OF h] pb c n by (simp_all add: unat_blk)
  have hp: "heap_ptr s1 = heap_ptr s" "sm_ptr s1 = sm_ptr s" "heap_end s1 = heap_end s" using k1 by (simp_all add: keeps_def)
  have writes: "ram s2 x = ram s1 x" if "x < ?B + p + 12 \<or> ?B + p + 12 + c \<le> x" for x
    using that by (simp add: s2_def addr mwrite_out)
  have h2: "heap_ok s2 cs"
    unfolding s2_def
  proof (rule heap_ok_write [OF h1])
    fix x assume x: "x < unat (heap_ptr s1) \<or> x - unat (heap_ptr s1) \<notin> payload 0 cs"
    have "x < ?B + p + 12 \<or> ?B + p + 12 + c \<le> x"
    proof (rule ccontr)
      assume "\<not> ?thesis"
      then have "p + 12 \<le> x - ?B" "x - ?B < p + l" "?B \<le> x" using c by auto
      then show False using spots_payload [OF pin(1)] x hp by auto
    qed
    then show "mwrite (ram s1) (unat (blk s (p + 12))) (mread (ram s1) (unat (blk s (q + 12))) c) x = ram s1 x"
      by (simp add: addr mwrite_out)
  qed
  obtain s' ds where f: "rt_free (blk s2 (q + 12)) s2 = Some s'" "heap_ok s' ds" "extent ds = extent cs" "spots 0 ds = spots 0 cs - {(q, n)}"
    "keeps (payload 0 cs - {q + 12..<q + n}) s2 s'"
    using free_ok [OF h2 pin(2)] by blast
  have b2: "blk s2 = blk s" by (simp add: s2_def blk_def hp fun_eq_iff)
  have disj: "x \<notin> {p..<p + l}" if "x \<in> payload 0 bs" for x using new(2) that by auto
  have old: "q + 12 + i \<in> payload 0 bs" if "i < n - 12" for i using spots_payload [OF q, of "q + 12 + i"] that by simp
  have ne: "(p, l) \<noteq> (q, n)" using disj [OF old, of 0] n by auto
  have sub: "payload 0 bs \<subseteq> payload 0 cs" using new by (intro payload_spots) auto
  have keep: "keeps (payload 0 bs - {q + 12..<q + n}) s s'"
    unfolding keeps_def
  proof (intro conjI ballI allI impI)
    show "heap_ptr s' = heap_ptr s" "sm_ptr s' = sm_ptr s" "mem_size_aligned s' = mem_size_aligned s" "heap_end s' = heap_end s"
      using f(5) k1 by (simp_all add: keeps_def s2_def)
    fix x assume x: "x \<in> payload 0 bs - {q + 12..<q + n}"
    have "ram s' (?B + x) = ram s2 (?B + x)" using f(5) x sub by (auto simp: keeps_def s2_def hp)
    also have "\<dots> = ram s1 (?B + x)" using disj [of x] x c by (intro writes) auto
    also have "\<dots> = ram s (?B + x)" using k1 x by (auto simp: keeps_def)
    finally show "ram s' (?B + x) = ram s (?B + x)" .
  next
    fix x assume x: "x < ?B \<or> unat (heap_end s) + 12 \<le> x"
    have "ram s' x = ram s2 x" using f(5) x by (auto simp: keeps_def s2_def hp)
    also have "\<dots> = ram s1 x" using x heap_ok_range [OF h] pb c by (intro writes) auto
    also have "\<dots> = ram s x" using k1 x by (auto simp: keeps_def)
    finally show "ram s' x = ram s x" .
  qed
  have copy: "ram s' (?B + p + 12 + i) = ram s (?B + q + 12 + i)" if i: "i < c" for i
  proof -
    have "p + 12 + i \<in> payload 0 cs" using spots_payload [OF pin(1)] i c by simp
    moreover have "p + 12 + i \<notin> {q + 12..<q + n}"
    proof
      assume a: "p + 12 + i \<in> {q + 12..<q + n}"
      then have "p + 12 + i \<in> payload 0 bs" using spots_payload [OF q] by simp
      then show False using disj [of "p + 12 + i"] i c by simp
    qed
    ultimately have "ram s' (?B + (p + 12 + i)) = ram s2 (?B + (p + 12 + i))" using f(5) by (simp add: keeps_def s2_def hp)
    also have "\<dots> = mread (ram s1) (?B + q + 12) c ! i"
      using i mwrite_in [of i "mread (ram s1) (?B + q + 12) c" "ram s1" "?B + p + 12"] by (simp add: s2_def addr add.assoc)
    also have "\<dots> = ram s1 (?B + (q + 12 + i))" using i by (simp add: add.assoc)
    also have "\<dots> = ram s (?B + (q + 12 + i))" using k1 old [of i] i c by (simp add: keeps_def)
    finally show ?thesis by (simp add: add.assoc)
  qed
  have "spots 0 ds = insert (p, l) (spots 0 bs - {(q, n)})" using f(4) new ne by auto
  then show ?thesis
    unfolding s2_def [symmetric] using f(1) [unfolded b2] f(2,3) ext keep copy
    by (intro exI [where x = s'] exI [where x = ds] conjI) simp_all
qed

lemma realloc_ok:
  assumes h: "heap_ok s bs" and E: "24 \<le> extent bs" and m: "unat m + 3 < 4294967296" and q: "(q, n) \<in> spots 0 bs"
  shows "\<exists>r s' cs. rt_realloc (blk s (q + 12)) m s = Some (r, s') \<and> heap_ok s' cs \<and> extent cs = extent bs \<and>
    keeps (payload 0 bs - {q + 12..<q + n}) s s' \<and>
    (r = 0 \<and> (if m = 0 then spots 0 cs = spots 0 bs - {(q, n)} else s' = s \<and> cs = bs) \<or>
     (\<exists>p l. m \<noteq> 0 \<and> r \<noteq> 0 \<and> r = blk s (p + 12) \<and> 12 + unat m \<le> l \<and> spots 0 cs = insert (p, l) (spots 0 bs - {(q, n)}) \<and>
        (\<forall>i<min (n - 12) (unat m). ram s' (unat (heap_ptr s) + p + 12 + i) = ram s (unat (heap_ptr s) + q + 12 + i))))"
proof -
  define k where "k = round4 (unat m)"
  have k: "RT_ALIGN m 4 = off k" "k < 4294967296" "4 dvd k" "unat m \<le> k" "m = 0 \<longleftrightarrow> k = 0"
    using RT_ALIGN_round4 [OF m] round4_props [of "unat m"] m unfolding k_def
    by (auto simp: word32_eq_iff_unat round4_def)
  obtain us vs where bs: "bs = us @ (n, True) # vs" "q = extent us" using spots_split [OF q] by auto
  have c: "chained s (us @ (n, True) # vs)" using h bs by (simp add: heap_ok_def)
  note b = chained_bounds [OF c] and f = block_fields [OF c]
  have n: "16 \<le> n" "4 dvd n" "4 dvd q" using spots_length [OF h q] by auto
  have qb: "q + n \<le> extent bs" using spots_bounds [OF q] by simp
  have size: "mem_size_aligned s = off (extent bs - 12)" using h by (simp add: heap_ok_def chained_def)
  have range: "extent bs < 4294967296" using heap_ok_range [OF h] by simp
  have big: "off k > mem_size_aligned s \<longleftrightarrow> extent bs - 12 < k" using k range by (simp add: size off_compare)
  have nz: "blk s (q + 12) \<noteq> 0" using blk_nonzero [OF h] qb n by simp
  have check: "blk s (q + 12) AND 3 = 0" "heap_ptr s \<le> blk s (q + 12)" "blk s (q + 12) < heap_end s"
  proof -
    have "unat (heap_ptr s) mod 4 = 0" using c by (simp add: chained_def)
    then show "blk s (q + 12) AND 3 = 0" unfolding and_3 using n b bs
      by (simp add: unat_blk mod_add_eq [symmetric] flip: mod_eq_0_iff_dvd)
    show "heap_ptr s \<le> blk s (q + 12)"
      using blk_compare(1) [of s 0 "q + 12"] b n bs by (simp add: heap_words)
    show "blk s (q + 12) < heap_end s"
      unfolding end_fields(4) [OF c] using b n bs by (subst blk_compare) auto
  qed
  have fields: "blk s (q + 12) - 12 = blk s q" "blk s q - heap_ptr s = off q"
    "item_next (blk s q) s - off q - 12 = off (n - 12)"
    using f bs n by (simp_all add: heap_words)
  consider "extent bs - 12 < k" | "k = 0" | "k \<noteq> 0" "k = n - 12" | "k \<noteq> 0" "k + 24 < n - 12"
    | "k \<noteq> 0" "k \<le> extent bs - 12" "k \<noteq> n - 12" "n - 12 \<le> k + 24" by linarith
  then show ?thesis
  proof cases
    case 1
    then have "rt_realloc (blk s (q + 12)) m s = Some (0, s)" using k big by (simp add: rt_realloc_def rt_smem_realloc_def)
    moreover have "m \<noteq> 0" using 1 k by auto
    ultimately show ?thesis using h by (intro exI [where x = 0] exI [where x = s] exI [where x = bs]) (simp add: keeps_def)
  next
    case 2
    obtain s' cs where "rt_free (blk s (q + 12)) s = Some s'" "heap_ok s' cs" "extent cs = extent bs"
      "spots 0 cs = spots 0 bs - {(q, n)}" "keeps (payload 0 bs - {q + 12..<q + n}) s s'"
      using free_ok [OF h q] by blast
    moreover have "\<not> off k > mem_size_aligned s" using 2 big by simp
    ultimately have "rt_realloc (blk s (q + 12)) m s = Some (0, s')"
      using 2 k by (simp add: rt_realloc_def rt_smem_realloc_def rt_free_def off_def)
    then show ?thesis using \<open>heap_ok s' cs\<close> \<open>extent cs = extent bs\<close> \<open>spots 0 cs = _\<close> \<open>keeps _ s s'\<close> 2 k by auto
  next
    case 3
    have "off k \<noteq> 0" using 3 k off_compare(3) [of k 0] by (simp add: heap_words)
    moreover have "\<not> off k > mem_size_aligned s" using 3 big qb by simp
    ultimately have "rt_realloc (blk s (q + 12)) m s = Some (blk s (q + 12), s)"
      using 3 k nz check fields by (simp add: rt_realloc_def rt_smem_realloc_def Let_def)
    then show ?thesis using h q 3 k nz n
      by (intro exI [where x = "blk s (q + 12)"] exI [where x = s] exI [where x = bs] conjI disjI2 exI [where x = q] exI [where x = n])
        (auto simp: keeps_def)
  next
    case 4
    have k4: "4 \<le> k" using 4 k(3) by auto
    define ws where "ws = us @ [(12 + k, True)]"
    define r where "r = n - (12 + k)"
    obtain s' where s': "map_option (Pair (blk s (q + 12))) (plug_holes (blk s (q + 12 + k))
      (let t = smem_split (off q) (off k) (s\<lparr>mem_used := mem_used s - off r\<rparr>)
       in if blk s (q + 12 + k) < lfree t then t\<lparr>lfree := blk s (q + 12 + k)\<rparr> else t)) = Some (blk s (q + 12), s')"
      "heap_ok s' (release_block ws r vs)" "keeps (payload 0 (ws @ (r, False) # vs)) s s'"
      using shrink_refines [OF h [unfolded bs(1)] k4 k(3) 4(2), of "blk s (q + 12)"] unfolding bs(2) ws_def r_def by blast
    have no: "off k \<noteq> 0" "off (n - 12) \<noteq> off k" "off k + 12 + 12 < off (n - 12)" "\<not> off k > mem_size_aligned s" "off (n - 12) - off k = off r"
      using 4 k qb range big off_compare(3) [of k 0] by (simp_all add: heap_words off_compare r_def)
    have "rt_realloc (blk s (q + 12)) m s = Some (blk s (q + 12), s')"
      unfolding rt_realloc_def rt_smem_realloc_def k(1) Let_def fields
      using no nz check s'(1) by (simp add: heap_words Let_def split: if_splits)
    moreover have "extent (release_block ws r vs) = extent bs" using 4 by (simp add: release_extent bs ws_def r_def)
    moreover have "spots 0 (release_block ws r vs) = insert (q, 12 + k) (spots 0 bs - {(q, n)})"
      unfolding release_spots using 4 n by (auto simp: bs ws_def r_def spots_append dest: spots_bounds)
    moreover have sub: "payload 0 bs - {q + 12..<q + n} \<union> {q + 12..<q + 12 + k} \<subseteq> payload 0 (ws @ (r, False) # vs)"
      using 4 by (auto simp: bs ws_def r_def payload_append)
    then have "keeps (payload 0 bs - {q + 12..<q + n}) s s'" using s'(3) by (auto simp: keeps_def)
    moreover have "\<forall>i<min (n - 12) (unat m). ram s' (unat (heap_ptr s) + q + 12 + i) = ram s (unat (heap_ptr s) + q + 12 + i)"
    proof (intro allI impI)
      fix i assume "i < min (n - 12) (unat m)"
      then have "q + 12 + i \<in> payload 0 (ws @ (r, False) # vs)" using sub k(4) by auto
      then have "ram s' (unat (heap_ptr s) + (q + 12 + i)) = ram s (unat (heap_ptr s) + (q + 12 + i))" using s'(3) by (simp add: keeps_def)
      then show "ram s' (unat (heap_ptr s) + q + 12 + i) = ram s (unat (heap_ptr s) + q + 12 + i)" by (simp add: add.assoc)
    qed
    moreover have "m \<noteq> 0" "12 + unat m \<le> 12 + k" using 4 k by auto
    ultimately show ?thesis using s'(2) nz by blast
  next
    case 5
    have no: "off k \<noteq> 0" "off (n - 12) \<noteq> off k" "\<not> off k + 12 + 12 < off (n - 12)" "\<not> off k > mem_size_aligned s"
      using 5 k qb E range big heap_ok_range(1) [OF h] off_compare(3) [of k 0] by (simp_all add: heap_words off_compare)
    have uk: "unat (off k) = k" "unat (off k) + 3 < 4294967296" "round4 k = k"
      using k 5 range heap_ok_range [OF h] E by (auto simp: unat_off round4_props(4))
    have cnt: "unat (if off (n - 12) < off k then off (n - 12) else off k) = min (n - 12) k"
      using k qb range by (auto simp: off_compare unat_off)
    have re: "rt_realloc (blk s (q + 12)) m s = do {
        (nmem, s1) \<leftarrow> rt_malloc (off k) s;
        if nmem \<noteq> 0 then
          map_option (Pair nmem) (rt_free (blk s (q + 12)) (s1\<lparr>ram := mwrite (ram s1) (unat nmem)
                (mread (ram s1) (unat (blk s (q + 12))) (min (n - 12) k))\<rparr>))
        else Some (nmem, s1)
      }"
      unfolding rt_realloc_def rt_smem_realloc_def k(1) Let_def fields cnt rt_malloc_def rt_free_def
      using no nz check by (simp add: heap_words)
    obtain r1 s1 cs where m1: "rt_malloc (off k) s = Some (r1, s1)" "heap_ok s1 cs" "extent cs = extent bs" "keeps (payload 0 bs) s s1"
      "r1 = 0 \<and> s1 = s \<and> cs = bs \<or>
       (\<exists>q l. off k \<noteq> 0 \<and> r1 = blk s (q + 12) \<and> r1 \<noteq> 0 \<and> 12 + max 12 k \<le> l \<and> spots 0 cs = insert (q, l) (spots 0 bs) \<and>
          payload 0 bs \<inter> {q..<q + l} = {})"
      using malloc_ok [OF h E uk(2)] unfolding uk(1,3) by blast
    have m0: "m \<noteq> 0" using 5 k by auto
    from m1(5) show ?thesis
    proof (elim disjE exE conjE)
      assume "r1 = 0" "s1 = s" "cs = bs"
      then show ?thesis using re m1 m0 h by (intro exI [where x = 0] exI [where x = s] exI [where x = bs]) (simp add: keeps_def)
    next
      fix p l assume p: "r1 = blk s (p + 12)" "r1 \<noteq> 0" "12 + max 12 k \<le> l" "spots 0 cs = insert (p, l) (spots 0 bs)" "payload 0 bs \<inter> {p..<p + l} = {}"
      have c1: "min (n - 12) k \<le> l - 12" and c2: "16 \<le> l" using p(3) by auto
      obtain s' ds where d: "rt_free (blk s (q + 12)) (s1\<lparr>ram := mwrite (ram s1) (unat (blk s (p + 12))) (mread (ram s1) (unat (blk s (q + 12))) (min (n - 12) k))\<rparr>) = Some s'"
        "heap_ok s' ds" "extent ds = extent bs" "keeps (payload 0 bs - {q + 12..<q + n}) s s'"
        "spots 0 ds = insert (p, l) (spots 0 bs - {(q, n)})"
        "\<forall>i<min (n - 12) k. ram s' (unat (heap_ptr s) + p + 12 + i) = ram s (unat (heap_ptr s) + q + 12 + i)"
        using move_ok [OF h m1(2,3,4) p(4,5) q min.cobounded1 c1 c2] by blast
      have "rt_realloc (blk s (q + 12)) m s = Some (r1, s')" using re m1(1) d(1) p(1,2) by simp
      moreover have "12 + unat m \<le> l" "\<forall>i<min (n - 12) (unat m). ram s' (unat (heap_ptr s) + p + 12 + i) = ram s (unat (heap_ptr s) + q + 12 + i)"
        using p(3) k(4) d(6) by auto
      ultimately show ?thesis using d p(1,2) m0 by blast
    qed
  qed
qed

end
