(* ===== verification/KHeapRun.thy ===== *)
theory KHeapRun
  imports KMalloc
begin

text \<open>
  The system heap over time: its start, and sequences of calls of clients that keep to the rules,
  that is, release and reallocate only what they were given and write only inside it.
\<close>

section \<open>The start\<close>

lemma set_item_fields [simp]:
  "heap_ptr (set_next a v s) = heap_ptr s" "heap_end (set_next a v s) = heap_end s" "mem_size_aligned (set_next a v s) = mem_size_aligned s"
  "heap_ptr (set_prev a v s) = heap_ptr s" "heap_end (set_prev a v s) = heap_end s" "mem_size_aligned (set_prev a v s) = mem_size_aligned s"
  by (simp_all add: set_next_def set_prev_def)

lemma RT_ALIGN_DOWN_off: "RT_ALIGN_DOWN w 4 = off (unat w div 4 * 4)"
proof -
  have "NOT 3 = NOT (mask 2 :: u32)" by (simp add: mask_eq_exp_minus_1)
  then have "unat (w AND NOT 3) = unat w div 4 * 4" using unat_and_high [of w 2] by simp
  moreover have "unat w div 4 * 4 < 4294967296" using unat_u32_lt [of w] by presburger
  ultimately show ?thesis by (simp add: RT_ALIGN_DOWN_def word32_eq_iff_unat unat_off)
qed

definition pool_start :: "u32 \<Rightarrow> nat" where
  "pool_start begin_addr = round4 (unat begin_addr)"

definition pool_end :: "u32 \<Rightarrow> u32 \<Rightarrow> nat" where
  "pool_end begin_addr n = (unat begin_addr + unat n) div 4 * 4"

text \<open>A pool with room for the object, two headers and 12 bytes, inside the address space.\<close>

definition pool_ok :: "u32 \<Rightarrow> u32 \<Rightarrow> bool" where
  "pool_ok begin_addr n \<longleftrightarrow> begin_addr \<noteq> 0 \<and> unat begin_addr + unat n < 4294967296 \<and>
     pool_start begin_addr + 100 \<le> pool_end begin_addr n"

lemma heap_init:
  assumes "begin_addr \<noteq> 0" "unat begin_addr + unat n < 4294967296" "pool_start begin_addr + 88 \<le> pool_end begin_addr n"
  shows "\<exists>s. rt_smem_init begin_addr n m = Some s \<and> heap_ok s [(pool_end begin_addr n - pool_start begin_addr - 76, False)] \<and>
    unat (heap_ptr s) = pool_start begin_addr + 64 \<and> mem_used s = 0"
proof -
  define A where "A = pool_start begin_addr"
  define F where "F = pool_end begin_addr n"
  define N where "N = F - A - 88"
  have F: "F = A + N + 88" "F < 4294967296" "A mod 4 = 0" "A \<noteq> 0" "F mod 4 = 0"
    using assms round4_props [of "unat begin_addr"] unfolding N_def A_def F_def pool_start_def pool_end_def
    by (auto simp: word32_eq_iff_unat)
  have b3: "unat begin_addr + 3 < 4294967296"
    using assms(3) round4_props(1) [of "unat begin_addr"] F(2) unfolding pool_start_def F_def by linarith
  have a1: "RT_ALIGN begin_addr 4 = off A" using RT_ALIGN_round4 [OF b3] by (simp add: A_def pool_start_def)
  have a2: "RT_ALIGN (off A + 64) 4 = off (A + 64)"
  proof -
    have "(A + 64) mod 4 = 0" using F by presburger
    then show ?thesis using RT_ALIGN_round4 [of "off (A + 64)"] F round4_props(4) [of "A + 64"] by (simp add: heap_words unat_off)
  qed
  have "unat (begin_addr + n) = unat begin_addr + unat n" by (rule unat_add_no_wrap [OF assms(2)])
  then have a3: "RT_ALIGN_DOWN (begin_addr + n) 4 = off F" by (simp add: RT_ALIGN_DOWN_off F_def pool_end_def)
  have a4: "off F - off (A + 64) - 24 = off N" "off F > 24" "off F - 24 \<ge> off A + 64"
  proof -
    have "off 24 = 24" by (simp add: off_def)
    then show "off F > 24" using off_compare(2) [of 24 F] F by simp
  qed (use F in \<open>simp_all add: heap_words off_compare\<close>)
  define s0 where "s0 = \<lparr>sm_ptr = off A, heap_ptr = off (A + 64), heap_end = 0, lfree = 0, mem_size_aligned = off N,
      mem_total = off N, mem_used = 0, mem_max = 0, ram = mfill m A 64 0\<rparr>"
  have hp: "unat (heap_ptr s0) = A + 64" using F by (simp add: s0_def unat_off)
  have f1: "unat (heap_ptr s0) + 0 + 12 < 4294967296" and f2: "unat (heap_ptr s0) + (N + 12) + 12 < 4294967296"
    using F hp by simp_all
  have w: "off A AND MEM_MASK = off A"
  proof -
    have m: "MEM_MASK = NOT (mask 1 :: u32)" by (simp add: mask_eq_exp_minus_1)
    have "A div 2 * 2 = A" using F by presburger
    then have "unat (off A AND NOT (mask 1)) = A" using F by (subst unat_and_high) (simp add: unat_off)
    then show ?thesis unfolding m word32_eq_iff_unat using F by (simp only: unat_off)
  qed
  define m1 where "m1 = st32 (A + 64 + 8) 0 (st32 (A + 64 + 4) (off (N + 12)) (st32 (A + 64) (off A) (mfill m A 64 0)))"
  define m2 where "m2 = st32 (A + 64 + (N + 12) + 8) (off (N + 12)) (st32 (A + 64 + (N + 12) + 4) (off (N + 12))
      (st32 (A + 64 + (N + 12)) (off A OR 1) m1))"
  define s where "s = s0\<lparr>heap_end := blk s0 (N + 12), lfree := heap_ptr s0, ram := m2\<rparr>"
  have b0: "heap_ptr s0 = blk s0 0" by (simp add: heap_words)
  have "rt_smem_init begin_addr n m = Some s"
  proof -
    have 1: "set_prev (heap_ptr s0) 0 (set_next (heap_ptr s0) (off N + 12) (set_pool (heap_ptr s0) (off A) s0)) = s0\<lparr>ram := m1\<rparr>"
      unfolding b0 using item_fields [OF f1] by (simp add: m1_def hp heap_words) (simp add: s0_def)
    have 2: "item_next (heap_ptr s0) (s0\<lparr>ram := m1\<rparr>) = off (N + 12)"
      unfolding b0 using item_fields [OF f1] by (simp add: m1_def hp)
    define s1 where "s1 = s0\<lparr>ram := m1, heap_end := blk s0 (N + 12)\<rparr>"
    have 3: "set_prev (blk s0 (N + 12)) (off N + 12) (set_next (blk s0 (N + 12)) (off N + 12) (set_pool (blk s0 (N + 12)) (off A OR 1) s1)) = s1\<lparr>ram := m2\<rparr>"
      using item_fields [OF f2] by (simp add: m2_def hp heap_words s1_def)
    have fields: "MEM_FREED s0 = off A" "mem_size_aligned s0 = off N" "MEM_USED s1 = off A OR 1" "mem_size_aligned s1 = off N"
      "sm_ptr s0 = off A"
      using w by (simp_all add: MEM_FREED_def MEM_USED_def s0_def s1_def)
    have base: "\<lparr>sm_ptr = off A, heap_ptr = off (A + 64), heap_end = 0, lfree = 0, mem_size_aligned = off F - off (A + 64) - 2 * 12,
        mem_total = off F - off (A + 64) - 2 * 12, mem_used = 0, mem_max = 0, ram = mfill m (unat (off A)) 64 0\<rparr> = s0"
      using a4(1) F by (simp add: s0_def unat_off)
    have s1: "heap_ptr s0 + item_next (heap_ptr s0) (s0\<lparr>ram := m1\<rparr>) = blk s0 (N + 12)"
      "s0\<lparr>ram := m1, heap_end := blk s0 (N + 12)\<rparr> = s1" "heap_end s1 = blk s0 (N + 12)" "heap_ptr s1 = heap_ptr s0"
      unfolding 2 by (simp_all add: s1_def heap_words)
    have 4: "s1\<lparr>ram := m2, lfree := heap_ptr s0\<rparr> = s" by (simp add: s1_def s_def)
    show ?thesis
      unfolding rt_smem_init_def Let_def a1 a2 a3 base using a4 by (simp add: fields 1 s1 3 4)
  qed
  moreover have "heap_ok s [(N + 12, False)]"
  proof -
    have sf: "heap_ptr s = off (A + 64)" "sm_ptr s = off A" "ram s = m2" "unat (heap_ptr s) = A + 64" "blk s = blk s0"
      using hp by (simp_all add: s_def s0_def blk_def fun_eq_iff)
    have t: "tiled (ram s) (unat (heap_ptr s)) (sm_ptr s) [(N + 12, False)]"
      unfolding tiled_def sf(2,3,4) by (simp add: m2_def m1_def tag_def add.assoc) (simp add: off_def)
    have "chained s [(N + 12, False)]"
      unfolding chained_def using t w F sf by (simp add: s_def s0_def off_compare(3) [of A 0, unfolded off_add(7)]) presburger
    moreover have "lfree s = blk s (low [(N + 12, False)])" by (simp add: s_def heap_words blk_def)
    moreover have "4 dvd N + 12" using F by presburger
    moreover have "mem_used s = off 0" "mem_used s \<le> mem_max s" by (simp_all add: s_def s0_def off_def)
    ultimately show ?thesis using F by (simp add: heap_ok_def)
  qed
  moreover have "N + 12 = pool_end begin_addr n - pool_start begin_addr - 76" using assms by (simp add: N_def F_def A_def)
  ultimately show ?thesis using hp by (auto simp: s_def s0_def A_def)
qed

section \<open>Calls of the clients\<close>

datatype heap_call = Malloc u32 | Calloc u32 u32 | Realloc u32 u32 | Free u32 | Store u32 nat u8

fun heap_do :: "heap_call \<Rightarrow> rt_small_mem \<Rightarrow> (u32 \<times> rt_small_mem) option" where
  "heap_do (Malloc n) s = rt_malloc n s"
| "heap_do (Calloc c n) s = rt_calloc c n s"
| "heap_do (Realloc p n) s = rt_realloc p n s"
| "heap_do (Free p) s = map_option (Pair 0) (rt_free p s)"
| "heap_do (Store p i v) s = Some (0, s\<lparr>ram := (ram s)(unat p + i := v)\<rparr>)"

text \<open>
  The rules for the clients: a size that the rounding to words does not wrap, and only pointers the
  heap has handed out.
\<close>

definition is_live :: "rt_small_mem \<Rightarrow> u32 \<Rightarrow> bool" where
  "is_live s p \<longleftrightarrow> (\<exists>n. live s p n)"

fun heap_may :: "heap_call \<Rightarrow> rt_small_mem \<Rightarrow> bool" where
  "heap_may (Malloc n) s \<longleftrightarrow> unat n + 3 < 4294967296"
| "heap_may (Calloc c n) s \<longleftrightarrow> unat c * unat n + 3 < 4294967296"
| "heap_may (Realloc p n) s \<longleftrightarrow> (p = 0 \<or> is_live s p) \<and> unat n + 3 < 4294967296"
| "heap_may (Free p) s \<longleftrightarrow> p = 0 \<or> is_live s p"
| "heap_may (Store p i v) s \<longleftrightarrow> (\<exists>n. live s p n \<and> i < n)"

fun touches :: "heap_call \<Rightarrow> u32 \<Rightarrow> bool" where
  "touches (Realloc p n) q \<longleftrightarrow> p = q"
| "touches (Free p) q \<longleftrightarrow> p = q"
| "touches (Store p i v) q \<longleftrightarrow> p = q"
| "touches _ q \<longleftrightarrow> False"

text \<open>What a call leaves behind: the heap in order, the other blocks in place with their contents.\<close>

definition heap_after :: "heap_call \<Rightarrow> rt_small_mem \<Rightarrow> blocks \<Rightarrow> rt_small_mem \<Rightarrow> blocks \<Rightarrow> bool" where
  "heap_after c s bs s' cs \<longleftrightarrow> heap_ok s' cs \<and> extent cs = extent bs \<and> keeps {} s s' \<and>
     (\<forall>q n. (q, n) \<in> spots 0 bs \<longrightarrow> \<not> touches c (blk s (q + 12)) \<longrightarrow>
        (q, n) \<in> spots 0 cs \<and> (\<forall>x. q + 12 \<le> x \<longrightarrow> x < q + n \<longrightarrow> ram s' (unat (heap_ptr s) + x) = ram s (unat (heap_ptr s) + x)))"

lemma heap_afterI:
  assumes "heap_ok s' cs" "extent cs = extent bs" "keeps X s s'" "payload 0 bs \<subseteq> X" "spots 0 bs \<subseteq> spots 0 cs"
  shows "heap_after c s bs s' cs"
  using assms spots_payload unfolding heap_after_def keeps_def by blast

lemma heap_after_spot:
  assumes h: "heap_ok s bs" and q: "(q, n) \<in> spots 0 bs" and t: "\<And>p. touches c p \<longleftrightarrow> p = blk s (q + 12)"
    and s': "heap_ok s' cs" "extent cs = extent bs" "keeps (payload 0 bs - {q + 12..<q + n}) s s'" "spots 0 bs - {(q, n)} \<subseteq> spots 0 cs"
  shows "heap_after c s bs s' cs"
  unfolding heap_after_def
proof (intro conjI allI impI)
  show "keeps {} s s'" using s'(3) by (simp add: keeps_def)
  fix r k assume r: "(r, k) \<in> spots 0 bs" "\<not> touches c (blk s (r + 12))"
  then have ne: "r \<noteq> q" using t by auto
  then show "(r, k) \<in> spots 0 cs" using r s'(4) by auto
  fix x assume x: "r + 12 \<le> x" "x < r + k"
  have "x \<notin> {q + 12..<q + n}" using spots_disjoint [OF r(1) q] ne x by auto
  then show "ram s' (unat (heap_ptr s) + x) = ram s (unat (heap_ptr s) + x)"
    using s'(3) spots_payload [OF r(1) x] by (simp add: keeps_def)
qed (rule s'(1,2))+

lemma heap_after_malloc:
  assumes h: "heap_ok s bs" and E: "24 \<le> extent bs" and n: "unat n + 3 < 4294967296"
  shows "\<exists>r s' cs. rt_malloc n s = Some (r, s') \<and> heap_after c s bs s' cs \<and>
    (r \<noteq> 0 \<longrightarrow> (\<exists>q l. r = blk s (q + 12) \<and> (q, l) \<in> spots 0 cs \<and> 12 + unat n \<le> l \<and> payload 0 bs \<inter> {q..<q + l} = {} \<and> (\<forall>k. (q, k) \<notin> spots 0 bs)))"
proof -
  obtain r s' cs where m: "rt_malloc n s = Some (r, s')" "heap_ok s' cs" "extent cs = extent bs" "keeps (payload 0 bs) s s'"
    "r = 0 \<and> s' = s \<and> cs = bs \<or>
     (\<exists>q l. n \<noteq> 0 \<and> r = blk s (q + 12) \<and> r \<noteq> 0 \<and> 12 + max 12 (round4 (unat n)) \<le> l \<and> spots 0 cs = insert (q, l) (spots 0 bs) \<and>
        payload 0 bs \<inter> {q..<q + l} = {})"
    using malloc_ok [OF assms] by blast
  have a: "heap_after c s bs s' cs" by (rule heap_afterI [OF m(2,3,4)]) (use m(5) in auto)
  have "\<exists>q l. r = blk s (q + 12) \<and> (q, l) \<in> spots 0 cs \<and> 12 + unat n \<le> l \<and> payload 0 bs \<inter> {q..<q + l} = {} \<and> (\<forall>k. (q, k) \<notin> spots 0 bs)" if "r \<noteq> 0"
  proof -
    obtain q l where q: "r = blk s (q + 12)" "12 + max 12 (round4 (unat n)) \<le> l" "spots 0 cs = insert (q, l) (spots 0 bs)" "payload 0 bs \<inter> {q..<q + l} = {}"
      using m(5) \<open>r \<noteq> 0\<close> by blast
    have "(q, k) \<notin> spots 0 bs" for k
    proof
      assume k: "(q, k) \<in> spots 0 bs"
      then have "q + 12 \<in> payload 0 bs" using spots_payload [OF k, of "q + 12"] spots_length [OF h k] by simp
      then show False using q(2,4) by auto
    qed
    then show ?thesis using q round4_props(1) [of "unat n"] by (intro exI [where x = q] exI [where x = l]) auto
  qed
  then show ?thesis using m(1) a by blast
qed

lemma heap_after_any: "heap_after (Malloc n) s bs s' cs \<Longrightarrow> heap_after c s bs s' cs"
  by (auto simp: heap_after_def)

lemma heap_after_refl: "heap_ok s bs \<Longrightarrow> heap_after c s bs s bs"
  by (simp add: heap_after_def keeps_def)

lemma heap_after_write:
  assumes h: "heap_ok s bs" and q: "(q, n) \<in> spots 0 bs"
    and m: "\<And>x. x < unat (heap_ptr s) + q + 12 \<or> unat (heap_ptr s) + q + n \<le> x \<Longrightarrow> m x = ram s x"
  shows "heap_ok (s\<lparr>ram := m\<rparr>) bs" "keeps (payload 0 bs - {q + 12..<q + n}) s (s\<lparr>ram := m\<rparr>)"
proof -
  have b: "q + n \<le> extent bs" using spots_bounds [OF q] by simp
  show "heap_ok (s\<lparr>ram := m\<rparr>) bs"
  proof (rule heap_ok_write [OF h])
    fix x assume x: "x < unat (heap_ptr s) \<or> x - unat (heap_ptr s) \<notin> payload 0 bs"
    have "x < unat (heap_ptr s) + q + 12 \<or> unat (heap_ptr s) + q + n \<le> x"
    proof (rule ccontr)
      assume "\<not> ?thesis"
      then have "q + 12 \<le> x - unat (heap_ptr s)" "x - unat (heap_ptr s) < q + n" "unat (heap_ptr s) \<le> x" by auto
      then show False using x spots_payload [OF q] by auto
    qed
    then show "m x = ram s x" by (rule m)
  qed
  show "keeps (payload 0 bs - {q + 12..<q + n}) s (s\<lparr>ram := m\<rparr>)"
    unfolding keeps_def using b heap_ok_range [OF h] by (auto intro!: m)
qed

lemma heap_step_ok:
  assumes h: "heap_ok s bs" and E: "24 \<le> extent bs" and c: "heap_may c s"
  shows "\<exists>r s' cs. heap_do c s = Some (r, s') \<and> heap_after c s bs s' cs"
proof (cases c)
  case (Malloc n)
  then show ?thesis using heap_after_malloc [OF h E, of n c] c by (simp only: heap_do.simps heap_may.simps) blast
next
  case (Calloc k n)
  have kn: "unat (k * n) = unat k * unat n"
    using c Calloc by (simp add: unat_word_ariths)
  then have small: "unat (k * n) + 3 < 4294967296" using c Calloc by simp
  obtain r s1 cs where m: "rt_malloc (k * n) s = Some (r, s1)" "heap_after c s bs s1 cs"
    "r \<noteq> 0 \<longrightarrow> (\<exists>q l. r = blk s (q + 12) \<and> (q, l) \<in> spots 0 cs \<and> 12 + unat (k * n) \<le> l \<and> payload 0 bs \<inter> {q..<q + l} = {} \<and> (\<forall>k. (q, k) \<notin> spots 0 bs))"
    using heap_after_malloc [OF h E small] heap_after_any by blast
  show ?thesis
  proof (cases "r = 0")
    case True
    then show ?thesis using m Calloc by (auto simp: rt_calloc_def)
  next
    case False
    then obtain q l where q: "r = blk s (q + 12)" "(q, l) \<in> spots 0 cs" "12 + unat (k * n) \<le> l" "payload 0 bs \<inter> {q..<q + l} = {}"
      using m(3) by blast
    have h1: "heap_ok s1 cs" "heap_ptr s1 = heap_ptr s" using m(2) by (simp_all add: heap_after_def keeps_def)
    have "q + l \<le> extent cs" using spots_bounds [OF q(2)] by simp
    then have a: "unat r = unat (heap_ptr s) + q + 12" using heap_ok_range [OF h1(1)] q(3) h1(2)
      spots_length [OF h1(1) q(2)] unfolding q(1) by (simp add: unat_blk)
    define m2 where "m2 = mfill (ram s1) (unat r) (unat (k * n)) 0"
    have "m2 x = ram s1 x" if "x < unat (heap_ptr s1) + q + 12 \<or> unat (heap_ptr s1) + q + l \<le> x" for x
      using that q(3) h1(2) unfolding m2_def a by (intro mfill_out) auto
    note w = heap_after_write [OF h1(1) q(2) this]
    have "heap_after c s bs (s1\<lparr>ram := m2\<rparr>) cs"
      unfolding heap_after_def
    proof (intro conjI allI impI)
      show "heap_ok (s1\<lparr>ram := m2\<rparr>) cs" by (rule w(1)) 
      show "extent cs = extent bs" using m(2) by (simp add: heap_after_def)
      show "keeps {} s (s1\<lparr>ram := m2\<rparr>)"
        using m(2) w(2) keeps_trans [of "{}" s s1] by (auto simp: heap_after_def keeps_def)
      fix p j assume p: "(p, j) \<in> spots 0 bs" "\<not> touches c (blk s (p + 12))"
      then show "(p, j) \<in> spots 0 cs" using m(2) by (simp add: heap_after_def)
      fix x assume x: "p + 12 \<le> x" "x < p + j"
      then have "x \<notin> {q..<q + l}" using spots_payload [OF p(1) x] q(4) by auto
      then have "x \<in> payload 0 cs - {q + 12..<q + l}" using spots_payload [OF \<open>(p, j) \<in> spots 0 cs\<close> x] by auto
      then have "ram (s1\<lparr>ram := m2\<rparr>) (unat (heap_ptr s) + x) = ram s1 (unat (heap_ptr s) + x)"
        using w(2) h1(2) by (simp add: keeps_def)
      then show "ram (s1\<lparr>ram := m2\<rparr>) (unat (heap_ptr s) + x) = ram s (unat (heap_ptr s) + x)"
        using m(2) p x by (simp add: heap_after_def)
    qed
    then show ?thesis using m(1) False Calloc by (auto simp: rt_calloc_def m2_def)
  qed
next
  case (Realloc p n)
  show ?thesis
  proof (cases "p = 0")
    case True
    define k where "k = round4 (unat n)"
    have n: "unat n + 3 < 4294967296" using c Realloc by simp
    have k: "RT_ALIGN n 4 = off k" "k < 4294967296" using RT_ALIGN_round4 [OF n] n round4_props(2) [of "unat n"] by (auto simp: k_def round4_def)
    show ?thesis
    proof (cases "off k > mem_size_aligned s \<or> k = 0")
      case True
      then have "rt_realloc 0 n s = Some (0, s)"
        using k by (auto simp: rt_realloc_def rt_smem_realloc_def rt_smem_free_def off_def)
      then show ?thesis using Realloc \<open>p = 0\<close> heap_after_refl [OF h] by auto
    next
      case False
      have "mem_size_aligned s = off (extent bs - 12)" using h by (simp add: heap_ok_def chained_def)
      then have "k \<le> extent bs - 12" using False k heap_ok_range [OF h] by (simp add: off_compare)
      then have "unat (off k) + 3 < 4294967296" using heap_ok_range [OF h] E by (simp add: unat_off)
      from heap_after_malloc [OF h E this] obtain r s' cs where "rt_malloc (off k) s = Some (r, s')" "heap_after c s bs s' cs"
        using heap_after_any by blast
      moreover have "rt_realloc 0 n s = rt_malloc (off k) s"
        using False k off_compare(3) [of k 0] by (simp add: rt_realloc_def rt_smem_realloc_def rt_malloc_def heap_words)
      ultimately show ?thesis using Realloc \<open>p = 0\<close> by auto
    qed
  next
    case False
    then obtain l where "live s p l" using c Realloc by (auto simp: is_live_def)
    then obtain q where q: "(q, l + 12) \<in> spots 0 bs" "p = blk s (q + 12)" using live_spot [OF h] by blast
    have n: "unat n + 3 < 4294967296" using c Realloc by simp
    obtain r s' cs where r: "rt_realloc p n s = Some (r, s')" "heap_ok s' cs" "extent cs = extent bs"
      "keeps (payload 0 bs - {q + 12..<q + (l + 12)}) s s'" "spots 0 bs - {(q, l + 12)} \<subseteq> spots 0 cs"
      using realloc_ok [OF h E n q(1)] unfolding q(2) [symmetric] by (auto split: if_splits)
    have "heap_after c s bs s' cs"
      by (rule heap_after_spot [OF h q(1) _ r(2-5)]) (use Realloc q(2) in auto)
    then show ?thesis using r(1) Realloc by auto
  qed
next
  case (Free p)
  show ?thesis
  proof (cases "p = 0")
    case True
    then show ?thesis using Free heap_after_refl [OF h] by (auto simp: rt_free_def rt_smem_free_def)
  next
    case False
    then obtain l where "live s p l" using c Free by (auto simp: is_live_def)
    then obtain q where q: "(q, l + 12) \<in> spots 0 bs" "p = blk s (q + 12)" using live_spot [OF h] by blast
    obtain s' cs where r: "rt_free p s = Some s'" "heap_ok s' cs" "extent cs = extent bs" "spots 0 cs = spots 0 bs - {(q, l + 12)}"
      "keeps (payload 0 bs - {q + 12..<q + (l + 12)}) s s'"
      using free_ok [OF h q(1)] unfolding q(2) by blast
    have "heap_after c s bs s' cs"
      by (rule heap_after_spot [OF h q(1) _ r(2,3,5)]) (use Free q(2) r(4) in auto)
    then show ?thesis using r(1) Free by auto
  qed
next
  case (Store p i v)
  then obtain l where l: "live s p l" "i < l" using c by auto
  then obtain q where q: "(q, l + 12) \<in> spots 0 bs" "p = blk s (q + 12)" using live_spot [OF h] by blast
  have "q + (l + 12) \<le> extent bs" using spots_bounds [OF q(1)] by simp
  then have a: "unat p = unat (heap_ptr s) + q + 12" using heap_ok_range [OF h] unfolding q(2) by (simp add: unat_blk)
  have "((ram s)(unat p + i := v)) x = ram s x" if "x < unat (heap_ptr s) + q + 12 \<or> unat (heap_ptr s) + q + (l + 12) \<le> x" for x
    using that a l(2) by auto
  note w = heap_after_write [OF h q(1) this]
  have "heap_after c s bs (s\<lparr>ram := (ram s)(unat p + i := v)\<rparr>) bs"
    by (rule heap_after_spot [OF h q(1) _ w(1) refl w(2)]) (use Store q(2) in auto)
  then show ?thesis using Store by auto
qed

section \<open>Sequences of calls\<close>

inductive heap_reach :: "rt_small_mem \<Rightarrow> bool" where
  start: "rt_smem_init begin_addr n m = Some s \<Longrightarrow> pool_ok begin_addr n \<Longrightarrow> heap_reach s"
| step: "heap_reach s \<Longrightarrow> heap_may c s \<Longrightarrow> heap_do c s = Some (r, s') \<Longrightarrow> heap_reach s'"

fun heap_run :: "heap_call list \<Rightarrow> rt_small_mem \<Rightarrow> rt_small_mem option" where
  "heap_run [] s = Some s"
| "heap_run (c # cs) s = do { (r, s) \<leftarrow> heap_do c s; heap_run cs s }"

fun heap_lawful :: "heap_call list \<Rightarrow> rt_small_mem \<Rightarrow> bool" where
  "heap_lawful [] s \<longleftrightarrow> True"
| "heap_lawful (c # cs) s \<longleftrightarrow> heap_may c s \<and> (\<forall>r s'. heap_do c s = Some (r, s') \<longrightarrow> heap_lawful cs s')"

lemma heap_reach_ok: "heap_reach s \<Longrightarrow> \<exists>bs. heap_ok s bs \<and> 24 \<le> extent bs"
proof (induction rule: heap_reach.induct)
  case (start begin_addr n m s)
  have "begin_addr \<noteq> 0" "unat begin_addr + unat n < 4294967296" "pool_start begin_addr + 88 \<le> pool_end begin_addr n"
    using start(2) by (simp_all add: pool_ok_def)
  from heap_init [OF this, where m = m] start show ?case
    by (intro exI [where x = "[(pool_end begin_addr n - pool_start begin_addr - 76, False)]"]) (auto simp: pool_ok_def)
next
  case (step s c r s')
  then obtain bs where bs: "heap_ok s bs" "24 \<le> extent bs" by blast
  from heap_step_ok [OF this step(2)] obtain r0 s0 cs where "heap_do c s = Some (r0, s0)" "heap_after c s bs s0 cs" by blast
  then have "heap_after c s bs s' cs" using step(3) by simp
  then show ?case using bs by (intro exI [where x = cs]) (simp add: heap_after_def)
qed

lemma heap_run_ok:
  assumes "heap_ok s bs" "24 \<le> extent bs" "heap_lawful cs s"
  shows "\<exists>s' ds. heap_run cs s = Some s' \<and> heap_ok s' ds \<and> extent ds = extent bs \<and> keeps {} s s' \<and>
    (\<forall>q n. (q, n) \<in> spots 0 bs \<longrightarrow> (\<forall>c\<in>set cs. \<not> touches c (blk s (q + 12))) \<longrightarrow>
       (q, n) \<in> spots 0 ds \<and> (\<forall>x. q + 12 \<le> x \<longrightarrow> x < q + n \<longrightarrow> ram s' (unat (heap_ptr s) + x) = ram s (unat (heap_ptr s) + x)))"
  using assms
proof (induction cs arbitrary: s bs)
  case Nil
  then show ?case by (auto simp: keeps_def)
next
  case (Cons c cs)
  obtain r s1 b1 where c: "heap_do c s = Some (r, s1)" "heap_after c s bs s1 b1"
    using heap_step_ok [OF Cons.prems(1,2), of c] Cons.prems(3) by (simp only: heap_lawful.simps) blast
  then have ok1: "heap_ok s1 b1" "extent b1 = extent bs" "keeps {} s s1" by (simp_all add: heap_after_def)
  have "24 \<le> extent b1" "heap_lawful cs s1" using Cons.prems c ok1 by auto
  from Cons.IH [OF ok1(1) this] obtain s' ds where s': "heap_run cs s1 = Some s'" "heap_ok s' ds" "extent ds = extent b1" "keeps {} s1 s'"
    "\<forall>q n. (q, n) \<in> spots 0 b1 \<longrightarrow> (\<forall>c\<in>set cs. \<not> touches c (blk s1 (q + 12))) \<longrightarrow>
       (q, n) \<in> spots 0 ds \<and> (\<forall>x. q + 12 \<le> x \<longrightarrow> x < q + n \<longrightarrow> ram s' (unat (heap_ptr s1) + x) = ram s1 (unat (heap_ptr s1) + x))"
    by blast
  have hp: "heap_ptr s1 = heap_ptr s" "blk s1 = blk s" using ok1(3) by (simp_all add: keeps_def blk_def fun_eq_iff)
  show ?case
  proof (intro exI conjI allI impI)
    show "heap_run (c # cs) s = Some s'" using c s'(1) by simp
    show "keeps {} s s'" by (rule keeps_trans [OF ok1(3) s'(4)])
    show "extent ds = extent bs" using s'(3) ok1(2) by simp
    fix q n assume q: "(q, n) \<in> spots 0 bs" "\<forall>d\<in>set (c # cs). \<not> touches d (blk s (q + 12))"
    then have 1: "(q, n) \<in> spots 0 b1" "\<forall>x. q + 12 \<le> x \<longrightarrow> x < q + n \<longrightarrow> ram s1 (unat (heap_ptr s) + x) = ram s (unat (heap_ptr s) + x)"
      using c(2) by (simp_all add: heap_after_def)
    with s'(5) q(2) hp have 2: "(q, n) \<in> spots 0 ds"
      "\<forall>x. q + 12 \<le> x \<longrightarrow> x < q + n \<longrightarrow> ram s' (unat (heap_ptr s) + x) = ram s1 (unat (heap_ptr s) + x)" by auto
    show "(q, n) \<in> spots 0 ds" by (rule 2)
    fix x assume "q + 12 \<le> x" "x < q + n"
    then show "ram s' (unat (heap_ptr s) + x) = ram s (unat (heap_ptr s) + x)" using 1 2 by simp
  qed (rule s'(2))
qed

lemma live_range:
  assumes h: "heap_ok s bs" and q: "(q, n + 12) \<in> spots 0 bs"
  shows "unat (blk s (q + 12)) = unat (heap_ptr s) + q + 12" "4 dvd unat (blk s (q + 12))" "unat (blk s (q + 12)) + n \<le> unat (heap_end s)"
proof -
  have b: "q + (n + 12) \<le> extent bs" using spots_bounds [OF q] by simp
  then show a: "unat (blk s (q + 12)) = unat (heap_ptr s) + q + 12" using heap_ok_range [OF h] by (simp add: unat_blk)
  have "unat (heap_ptr s) mod 4 = 0" using h by (simp add: heap_ok_def chained_def)
  then show "4 dvd unat (blk s (q + 12))" unfolding a using spots_length [OF h q] by (simp add: mod_eq_0_iff_dvd add.assoc)
  show "unat (blk s (q + 12)) + n \<le> unat (heap_end s)" unfolding a using b heap_ok_range [OF h] by simp
qed

text \<open>
  C4. The heap is private to its clients: from any state of the heap after its start and any calls by
  clients that keep to the rules, every further such sequence of allocations, reallocations, releases
  and stores returns (no assertion of the allocator fails and no loop of it hangs), and a block that is
  in use and that none of these calls names is still in use afterwards, at its address, with its
  length and with every byte of its contents.
\<close>

theorem heap_blocks_private:
  assumes "heap_reach s" and "heap_lawful cs s" and "live s p n" and "\<forall>c\<in>set cs. \<not> touches c p"
  shows "\<exists>s'. heap_run cs s = Some s' \<and> live s' p n \<and> (\<forall>i<n. ram s' (unat p + i) = ram s (unat p + i))"
proof -
  obtain bs where h: "heap_ok s bs" "24 \<le> extent bs" using heap_reach_ok [OF assms(1)] by blast
  obtain q where q: "(q, n + 12) \<in> spots 0 bs" "p = blk s (q + 12)" using live_spot [OF h(1)] assms(3) by blast
  obtain s' ds where s': "heap_run cs s = Some s'" "heap_ok s' ds" "keeps {} s s'" "(q, n + 12) \<in> spots 0 ds"
    "\<forall>x. q + 12 \<le> x \<longrightarrow> x < q + (n + 12) \<longrightarrow> ram s' (unat (heap_ptr s) + x) = ram s (unat (heap_ptr s) + x)"
    using heap_run_ok [OF h assms(2)] q assms(4) by blast
  have "blk s' = blk s" using s'(3) by (simp add: keeps_def blk_def fun_eq_iff)
  then have "live s' p n" using live_spot [OF s'(2)] s'(4) q(2) by auto
  moreover have "ram s' (unat p + i) = ram s (unat p + i)" if "i < n" for i
    using s'(5) that live_range(1) [OF h(1) q(1)] unfolding q(2) by (simp add: add.assoc)
  ultimately show ?thesis using s'(1) by blast
qed

text \<open>A pool of 512 bytes and its first block.\<close>

lemma fresh_pool:
  "\<exists>s. rt_smem_init 0x1FFF9000 0x200 (\<lambda>_. 0) = Some s \<and> heap_reach s \<and> heap_ok s [(436, False)] \<and> unat (heap_ptr s) = 0x1FFF9040"
proof -
  have p: "(0x1FFF9000 :: u32) \<noteq> 0" "unat (0x1FFF9000 :: u32) + unat (0x200 :: u32) < 4294967296"
    "pool_start 0x1FFF9000 + 88 \<le> pool_end 0x1FFF9000 0x200" "pool_ok 0x1FFF9000 0x200"
    "pool_end 0x1FFF9000 0x200 - pool_start 0x1FFF9000 - 76 = 436" "pool_start 0x1FFF9000 + 64 = 0x1FFF9040"
    by (simp_all add: pool_ok_def pool_start_def pool_end_def round4_def)
  from heap_init [OF p(1-3), where m = "\<lambda>_. 0"] obtain s where
    "rt_smem_init 0x1FFF9000 0x200 (\<lambda>_. 0) = Some s" "heap_ok s [(436, False)]" "unat (heap_ptr s) = 0x1FFF9040"
    unfolding p(5,6) by blast
  then show ?thesis using heap_reach.start [OF _ p(4)] by blast
qed

lemma used_pool:
  "\<exists>s. heap_reach s \<and> heap_ok s [(24, True), (412, False)] \<and> live s (blk s 12) 12 \<and> blk s 12 \<noteq> 0"
proof -
  obtain s where s: "heap_reach s" "heap_ok s [(436, False)]" using fresh_pool by blast
  have "alloc_blocks (max 12 (round4 (unat (10 :: u32)))) [(436, False)] = Some (0, [(24, True), (412, False)])"
    by (simp add: alloc_blocks_def round4_def)
  with alloc_refines [OF s(2), of 10] obtain s' where s': "rt_smem_alloc 10 s = Some (blk s 12, s')" "heap_ok s' [(24, True), (412, False)]"
    by auto
  have "heap_reach s'" using heap_reach.step [OF s(1), of "Malloc 10" "blk s 12" s'] s'(1) by (simp add: rt_malloc_def)
  moreover have "live s' (blk s' 12) 12" using live_spot [OF s'(2)] by auto
  moreover have "blk s' 12 \<noteq> 0" using blk_nonzero [OF s'(2), of 0] by simp
  ultimately show ?thesis using s' by blast
qed

theorem heap_blocks_private_witness:
  "\<exists>s s'. heap_reach s \<and> heap_run [Malloc 20, Calloc 3 8, Free 0] s = Some s' \<and> live s' (blk s 12) 12 \<and>
    ram s' (unat (blk s 12) + 5) = ram s (unat (blk s 12) + 5)"
proof -
  obtain s where s: "heap_reach s" "live s (blk s 12) 12" "blk s 12 \<noteq> 0" using used_pool by blast
  from heap_blocks_private [OF s(1) _ s(2), of "[Malloc 20, Calloc 3 8, Free 0]"] s(3)
  have "\<exists>s'. heap_run [Malloc 20, Calloc 3 8, Free 0] s = Some s' \<and> live s' (blk s 12) 12 \<and>
      (\<forall>i<12. ram s' (unat (blk s 12) + i) = ram s (unat (blk s 12) + i))"
    by simp
  then show ?thesis using s(1) by force
qed

text \<open>
  C17. Allocation is first fit and safe: a request is refused exactly when no free block has room for
  its size, rounded up to words and to at least 12 bytes, behind a header, and a refused request changes
  nothing. Otherwise the result is an address divisible by four with at least the requested bytes
  inside the pool, which overlap no block in use, and every block in use stays in use.
\<close>

theorem malloc_finds_room:
  assumes "heap_reach s" and bs: "heap_ok s bs" and n: "n \<noteq> 0" "unat n + 3 < 4294967296"
  shows "\<exists>r s'. rt_malloc n s = Some (r, s') \<and>
    (if \<exists>b\<in>set bs. \<not> snd b \<and> 12 + max 12 (round4 (unat n)) \<le> fst b
     then r \<noteq> 0 \<and> 4 dvd unat r \<and> (\<exists>l\<ge>unat n. live s' r l \<and> unat (heap_ptr s) + 12 \<le> unat r \<and> unat r + l \<le> unat (heap_end s) \<and>
         (\<forall>p k. live s p k \<longrightarrow> live s' p k \<and> (unat p + k \<le> unat r \<or> unat r + l \<le> unat p)))
     else r = 0 \<and> s' = s)"
proof -
  have E: "24 \<le> extent bs" using heap_reach_ok [OF assms(1)] blocks_unique [OF bs] by blast
  have n0: "0 < unat n" using n(1) by (simp add: word32_eq_iff_unat)
  let ?room = "\<exists>b\<in>set bs. \<not> snd b \<and> 12 + max 12 (round4 (unat n)) \<le> fst b"
  have room: "?room \<longleftrightarrow> first_fit (max 12 (round4 (unat n))) bs \<noteq> None" unfolding first_fit_None by (auto simp: not_less)
  show ?thesis
  proof (cases ?room)
    case False
    then have "alloc_blocks (max 12 (round4 (unat n))) bs = None" unfolding room alloc_blocks_def option.map_disc_iff by (simp only: not_not)
    then have "rt_malloc n s = Some (0, s)" using alloc_refines [OF bs n0 n(2) E] by (simp add: rt_malloc_def)
    then show ?thesis using False by (intro exI [where x = 0] exI [where x = s]) simp
  next
    case True
    then have "alloc_blocks (max 12 (round4 (unat n))) bs \<noteq> None" unfolding room alloc_blocks_def option.map_disc_iff .
    then obtain q cs where a: "alloc_blocks (max 12 (round4 (unat n))) bs = Some (q, cs)" by auto
    obtain s' where s': "rt_smem_alloc n s = Some (blk s (q + 12), s')" "heap_ok s' cs" "keeps (payload 0 bs) s s'"
      using alloc_refines [OF bs n0 n(2) E] a by auto
    obtain l where l: "12 + max 12 (round4 (unat n)) \<le> l" "spots 0 cs = insert (q, l) (spots 0 bs)" "payload 0 bs \<inter> {q..<q + l} = {}"
      using alloc_spots(1) [OF a] by blast
    have b: "blk s' = blk s" "heap_ptr s' = heap_ptr s" "heap_end s' = heap_end s" using s'(3) by (simp_all add: keeps_def blk_def fun_eq_iff)
    have q: "(q, l - 12 + 12) \<in> spots 0 cs" using l by simp
    note r = live_range [OF s'(2) q, unfolded b]
    have nl: "unat n \<le> l - 12" using l(1) round4_props(1) [of "unat n"] by simp
    have "live s' (blk s (q + 12)) (l - 12)" using live_spot [OF s'(2)] q b by auto
    moreover have "live s' p k \<and> (unat p + k \<le> unat (blk s (q + 12)) \<or> unat (blk s (q + 12)) + (l - 12) \<le> unat p)" if lv: "live s p k" for p k
    proof -
      obtain j where j: "(j, k + 12) \<in> spots 0 bs" "p = blk s (j + 12)" using live_spot [OF bs, THEN iffD1, OF lv] by (elim exE conjE)
      then have j': "(j, k + 12) \<in> spots 0 cs" using l(2) by simp
      have "(j, k + 12) \<noteq> (q, l)"
      proof
        assume eq: "(j, k + 12) = (q, l)"
        have "j + 12 \<in> payload 0 bs" using spots_payload [OF j(1), of "j + 12"] spots_length [OF bs j(1)] by simp
        moreover have "j + 12 \<in> {q..<q + l}" using l(1) eq by simp
        ultimately show False using l(3) by blast
      qed
      then have "j + (k + 12) \<le> q \<or> q + l \<le> j" using spots_disjoint [OF j' q] l(1) by auto
      moreover have "unat p = unat (heap_ptr s) + j + 12" using live_range(1) [OF bs j(1)] j(2) by simp
      moreover have "live s' p k" using live_spot [OF s'(2)] j' j(2) b by auto
      ultimately show ?thesis using r(1) by auto
    qed
    moreover have "blk s (q + 12) \<noteq> 0" using r(1) by (auto simp: word32_eq_iff_unat)
    ultimately have "blk s (q + 12) \<noteq> 0 \<and> 4 dvd unat (blk s (q + 12)) \<and> (\<exists>l\<ge>unat n. live s' (blk s (q + 12)) l \<and>
        unat (heap_ptr s) + 12 \<le> unat (blk s (q + 12)) \<and> unat (blk s (q + 12)) + l \<le> unat (heap_end s) \<and>
        (\<forall>p k. live s p k \<longrightarrow> live s' p k \<and> (unat p + k \<le> unat (blk s (q + 12)) \<or> unat (blk s (q + 12)) + l \<le> unat p)))"
      using nl r by (intro conjI exI [where x = "l - 12"]) auto
    then show ?thesis using True s'(1) by (intro exI [where x = "blk s (q + 12)"] exI [where x = s']) (simp only: rt_malloc_def if_True simp_thms)
  qed
qed

theorem malloc_finds_room_witness:
  "\<exists>s r s' l. heap_reach s \<and> rt_malloc 100 s = Some (r, s') \<and> live s' r l \<and> 100 \<le> l \<and>
    (unat (blk s 12) + 12 \<le> unat r \<or> unat r + l \<le> unat (blk s 12))"
proof -
  obtain s where s: "heap_reach s" "heap_ok s [(24, True), (412, False)]" "live s (blk s 12) 12" using used_pool by blast
  have "\<exists>b\<in>set [(24, True), (412 :: nat, False)]. \<not> snd b \<and> 12 + max 12 (round4 (unat (100 :: u32))) \<le> fst b"
    by (simp add: round4_def)
  with malloc_finds_room [OF s(1,2), of 100] obtain r s' l where
    "rt_malloc 100 s = Some (r, s')" "unat (100 :: u32) \<le> l" "live s' r l"
    "\<forall>p k. live s p k \<longrightarrow> live s' p k \<and> (unat p + k \<le> unat r \<or> unat r + l \<le> unat p)"
    by auto
  then show ?thesis using s(1,3) by fastforce
qed

lemma all_free:
  assumes "\<forall>b\<in>set bs. \<not> snd b" "successively (\<lambda>b c. snd b \<or> snd c) bs" "bs \<noteq> []"
  shows "\<exists>n. bs = [(n, False)]"
proof (cases bs)
  case (Cons b cs)
  then show ?thesis using assms by (cases cs; cases b) auto
qed (use assms in simp)

text \<open>
  C18. Nothing of the heap is lost: in every reachable state in which no block is in use the heap is one
  free block again, as after its start: nothing is counted as used and every request up to the size of
  the pool succeeds.
\<close>

theorem freed_heap_is_whole:
  assumes "heap_reach s" and "\<forall>p. \<not> is_live s p"
  shows "mem_used s = 0 \<and> (\<exists>n. heap_ok s [(n, False)]) \<and>
    (\<forall>n. n \<noteq> 0 \<longrightarrow> n \<le> mem_size_aligned s \<longrightarrow> (\<exists>r s'. rt_malloc n s = Some (r, s') \<and> r \<noteq> 0))"
proof -
  obtain bs where h: "heap_ok s bs" "24 \<le> extent bs" using heap_reach_ok [OF assms(1)] by blast
  have "\<not> snd b" if b: "b \<in> set bs" for b
  proof
    assume "snd b"
    with b obtain us vs where bs: "bs = us @ (fst b, True) # vs" by (metis prod.collapse split_list)
    then have "16 \<le> fst b" using h(1) by (simp add: heap_ok_def)
    then have "live s (blk s (extent us + 12)) (fst b - 12)" using h(1) bs by (auto simp: live_def)
    then show False using assms(2) by (auto simp: is_live_def)
  qed
  then obtain n where bs: "bs = [(n, False)]"
    using all_free [of bs] h(1) by (auto simp: heap_ok_def chained_def)
  have n: "24 \<le> n" "4 dvd n" "n < 4294967296 - 12" "mem_size_aligned s = off (n - 12)" "mem_used s = 0"
    using h heap_ok_range(1) [OF h(1)] unfolding bs by (auto simp: heap_ok_def chained_def off_def)
  have "\<exists>r s'. rt_malloc k s = Some (r, s') \<and> r \<noteq> 0" if k: "k \<noteq> 0" "k \<le> mem_size_aligned s" for k
  proof -
    have kn: "unat k \<le> n - 12" using k(2) n by (simp add: word_le_nat_alt unat_off)
    then have "round4 (unat k) \<le> n - 12" using n(2) unfolding round4_def by presburger
    then have "alloc_blocks (max 12 (round4 (unat k))) bs \<noteq> None" using n(1) by (auto simp: alloc_blocks_def bs)
    moreover have "0 < unat k" "unat k + 3 < 4294967296" using k kn n by (auto simp: word32_eq_iff_unat)
    note a = alloc_refines [OF h(1) this h(2)]
    ultimately obtain q cs s' where "rt_smem_alloc k s = Some (blk s (q + 12), s')" "heap_ok s' cs" "keeps (payload 0 bs) s s'"
      "alloc_blocks (max 12 (round4 (unat k))) bs = Some (q, cs)" by auto
    moreover from alloc_spots(1,2) [OF this(4)] have "q < extent bs" using spots_bounds [of q _ 0 cs] by fastforce
    ultimately show ?thesis using blk_nonzero [OF h(1)] by (auto simp: rt_malloc_def)
  qed
  then show ?thesis using n h(1) bs by blast
qed

theorem freed_heap_is_whole_witness:
  "\<exists>s s' r. heap_reach s \<and> mem_used s = 0 \<and> rt_malloc 424 s = Some (r, s') \<and> r \<noteq> 0"
proof -
  obtain s where s: "heap_reach s" "heap_ok s [(436, False)]" using fresh_pool by blast
  have "\<not> is_live s p" for p using live_spot [OF s(2)] by (simp add: is_live_def)
  moreover have "(424 :: u32) \<le> mem_size_aligned s" using s(2) by (simp add: heap_ok_def chained_def off_def)
  ultimately have "mem_used s = 0" "\<exists>r s'. rt_malloc 424 s = Some (r, s') \<and> r \<noteq> 0"
    using freed_heap_is_whole [OF s(1)] by simp_all
  then show ?thesis using s(1) by blast
qed

text \<open>
  C16. Reallocation keeps the contents: for a block in use and a new size that is not zero the call
  either refuses and changes nothing, or returns a block in use with at least the new size that begins
  with the bytes of the old block, as many as both have room for; every other block in use stays in use
  with its contents.
\<close>

theorem realloc_keeps_contents:
  assumes "heap_reach s" and "live s p k" and "m \<noteq> 0" "unat m + 3 < 4294967296"
  shows "\<exists>r s'. rt_realloc p m s = Some (r, s') \<and>
    (r = 0 \<and> s' = s \<or>
     r \<noteq> 0 \<and> (\<exists>l\<ge>unat m. live s' r l) \<and> (\<forall>i<min k (unat m). ram s' (unat r + i) = ram s (unat p + i)) \<and>
     (\<forall>q j. live s q j \<and> q \<noteq> p \<longrightarrow> live s' q j \<and> (\<forall>i<j. ram s' (unat q + i) = ram s (unat q + i))))"
proof -
  obtain bs where h: "heap_ok s bs" "24 \<le> extent bs" using heap_reach_ok [OF assms(1)] by blast
  obtain q where q: "(q, k + 12) \<in> spots 0 bs" "p = blk s (q + 12)" using live_spot [OF h(1)] assms(2) by blast
  have "\<exists>r s' cs. rt_realloc p m s = Some (r, s') \<and> heap_ok s' cs \<and> extent cs = extent bs \<and>
    keeps (payload 0 bs - {q + 12..<q + (k + 12)}) s s' \<and>
    (r = 0 \<and> s' = s \<and> cs = bs \<or>
     (\<exists>p l. r \<noteq> 0 \<and> r = blk s (p + 12) \<and> 12 + unat m \<le> l \<and> spots 0 cs = insert (p, l) (spots 0 bs - {(q, k + 12)}) \<and>
        (\<forall>i<min k (unat m). ram s' (unat (heap_ptr s) + p + 12 + i) = ram s (unat (heap_ptr s) + q + 12 + i))))"
    using realloc_ok [OF h assms(4) q(1)] unfolding q(2) [symmetric]
    by (simp only: assms(3) if_False diff_add_inverse2 simp_thms)
  then obtain r s' cs where r: "rt_realloc p m s = Some (r, s')" "heap_ok s' cs" "extent cs = extent bs"
    "keeps (payload 0 bs - {q + 12..<q + (k + 12)}) s s'"
    "r = 0 \<and> s' = s \<and> cs = bs \<or>
     (\<exists>p l. r \<noteq> 0 \<and> r = blk s (p + 12) \<and> 12 + unat m \<le> l \<and> spots 0 cs = insert (p, l) (spots 0 bs - {(q, k + 12)}) \<and>
        (\<forall>i<min k (unat m). ram s' (unat (heap_ptr s) + p + 12 + i) = ram s (unat (heap_ptr s) + q + 12 + i)))"
    by (elim exE conjE)
  from r(5) show ?thesis
  proof (elim disjE exE conjE)
    assume "r = 0" "s' = s"
    then show ?thesis using r(1) by blast
  next
    fix t l assume t: "r \<noteq> 0" "r = blk s (t + 12)" "12 + unat m \<le> l" "spots 0 cs = insert (t, l) (spots 0 bs - {(q, k + 12)})"
      "\<forall>i<min k (unat m). ram s' (unat (heap_ptr s) + t + 12 + i) = ram s (unat (heap_ptr s) + q + 12 + i)"
    have b: "blk s' = blk s" "heap_ptr s' = heap_ptr s" using r(4) by (simp_all add: keeps_def blk_def fun_eq_iff)
    have tl: "(t, l - 12 + 12) \<in> spots 0 cs" using t(3,4) by simp
    have "live s' r (l - 12)" using live_spot [OF r(2)] tl t(2) b by auto
    moreover have "ram s' (unat r + i) = ram s (unat p + i)" if "i < min k (unat m)" for i
      using t(5) that live_range(1) [OF r(2) tl] live_range(1) [OF h(1) q(1)] b t(2) q(2) by simp
    moreover have "live s' u j \<and> (\<forall>i<j. ram s' (unat u + i) = ram s (unat u + i))" if u: "live s u j" "u \<noteq> p" for u j
    proof -
      obtain v where v: "(v, j + 12) \<in> spots 0 bs" "u = blk s (v + 12)" using live_spot [OF h(1), of u j] u(1) by blast
      have ne: "v \<noteq> q" using v(2) u(2) q(2) by auto
      then have "(v, j + 12) \<in> spots 0 cs" using v(1) t(4) by auto
      then have "live s' u j" using live_spot [OF r(2), of u j] v(2) b by auto
      moreover have "ram s' (unat u + i) = ram s (unat u + i)" if i: "i < j" for i
      proof -
        have "v + 12 + i \<in> payload 0 bs" using spots_payload [OF v(1)] i by simp
        moreover have "v + 12 + i \<notin> {q + 12..<q + (k + 12)}" using spots_disjoint [OF v(1) q(1)] ne i by auto
        ultimately have "ram s' (unat (heap_ptr s) + (v + 12 + i)) = ram s (unat (heap_ptr s) + (v + 12 + i))"
          using r(4) by (simp add: keeps_def)
        then show ?thesis using live_range(1) [OF h(1) v(1)] v(2) by (simp add: add.assoc)
      qed
      ultimately show ?thesis by blast
    qed
    moreover have "unat m \<le> l - 12" using t(3) by simp
    ultimately show ?thesis using r(1) t(1) by blast
  qed
qed

theorem realloc_keeps_contents_witness:
  "\<exists>s r s'. heap_reach s \<and> live s (blk s 12) 12 \<and> rt_realloc (blk s 12) 200 s = Some (r, s') \<and>
    (r = 0 \<and> s' = s \<or> (\<forall>i<12. ram s' (unat r + i) = ram s (unat (blk s 12) + i)))"
proof -
  obtain s where s: "heap_reach s" "live s (blk s 12) 12" using used_pool by blast
  have m: "(200 :: u32) \<noteq> 0" "unat (200 :: u32) + 3 < 4294967296" "min 12 (unat (200 :: u32)) = 12" by simp_all
  from realloc_keeps_contents [OF s m(1,2)] s show ?thesis unfolding m(3) by blast
qed

section \<open>Faults\<close>

lemma RT_ALIGN_wraps:
  assumes "4294967296 \<le> unat n + 3"
  shows "RT_ALIGN n 4 = 0"
proof -
  have "unat (n + 3) = (unat n + 3) mod 4294967296" by (simp add: unat_word_ariths)
  also have "\<dots> = unat n + 3 - 4294967296" using assms unat_u32_lt [of n] by (subst le_mod_geq) auto
  finally have "unat (n + 3) div 4 = 0" using unat_u32_lt [of n] by simp
  moreover have "NOT 3 = NOT (mask 2 :: u32)" by (simp add: mask_eq_exp_minus_1)
  ultimately have "unat ((n + 3) AND NOT 3) = 0" using unat_and_high [of "n + 3" 2] by simp
  then show ?thesis by (simp add: RT_ALIGN_def word32_eq_iff_unat add.commute)
qed

lemma alloc_spot_size:
  assumes "alloc_blocks k bs = Some (q, cs)"
  shows "\<exists>l. (q, l) \<in> spots 0 cs \<and> 12 + k \<le> l \<and> l < 36 + k"
proof -
  obtain us n vs where f: "first_fit k bs = Some (us, n, vs)" and q: "q = extent us"
    and cs: "cs = us @ (if 12 + k + 24 \<le> n then (12 + k, True) # (n - (12 + k), False) # vs else (n, True) # vs)"
    using assms by (auto simp: alloc_blocks_def)
  have "12 + k \<le> n" using first_fit_Some [OF f] by simp
  then show ?thesis unfolding cs q
    by (intro exI [where x = "if 12 + k + 24 \<le> n then 12 + k else n"]) (auto simp: spots_append)
qed

text \<open>
  C37. A request close to the size of the address space is served with a few bytes: rounding a size of
  more than 2^32 - 4 up to words wraps to zero, which is raised to the least block size, so that the
  caller gets a block of less than 36 bytes instead of a null pointer; and reallocating a block to such
  a size releases it.
\<close>

theorem huge_request_served_small:
  assumes "heap_reach s" and bs: "heap_ok s bs" and b: "(b, False) \<in> set bs" "24 \<le> b" and n: "0xFFFFFFFD \<le> n"
  shows "(\<exists>r s' l. rt_malloc n s = Some (r, s') \<and> r \<noteq> 0 \<and> live s' r l \<and> l < 36) \<and>
    (\<forall>p k. live s p k \<longrightarrow> (\<exists>s'. rt_realloc p n s = Some (0, s') \<and> \<not> is_live s' p))"
proof (intro conjI allI impI)
  have E: "24 \<le> extent bs" using heap_reach_ok [OF assms(1)] blocks_unique [OF bs] by blast
  have wrap: "RT_ALIGN n 4 = 0" using n by (intro RT_ALIGN_wraps) (simp add: word_le_nat_alt)
  have size: "\<not> 12 > mem_size_aligned s"
    using E bs heap_ok_range [OF bs] off_compare(2) [of "extent bs - 12" 12] by (simp add: heap_ok_def chained_def) (simp add: off_def)
  have n0: "n \<noteq> 0" using n by auto
  have "rt_malloc n s = rt_malloc 12 s"
    using wrap n0 size by (simp add: rt_malloc_def rt_smem_alloc_def) (simp add: RT_ALIGN_def)
  moreover have k: "max 12 (round4 (unat (12 :: u32))) = 12" by (simp add: round4_def)
  have "first_fit 12 bs \<noteq> None" unfolding first_fit_None using b by force
  then have "alloc_blocks 12 bs \<noteq> None" unfolding alloc_blocks_def option.map_disc_iff .
  then obtain q cs where a: "alloc_blocks 12 bs = Some (q, cs)" by auto
  obtain s' where s': "rt_smem_alloc 12 s = Some (blk s (q + 12), s')" "heap_ok s' cs" "keeps (payload 0 bs) s s'"
    using alloc_refines [OF bs _ _ E, of 12] a unfolding k by auto
  obtain l where l: "(q, l) \<in> spots 0 cs" "24 \<le> l" "l < 48" using alloc_spot_size [OF a] by auto
  have "blk s' = blk s" using s'(3) by (simp add: keeps_def blk_def fun_eq_iff)
  then have "live s' (blk s (q + 12)) (l - 12)" using live_spot [OF s'(2)] l by auto
  moreover have "blk s' (q + 12) \<noteq> 0" using blk_nonzero [OF s'(2)] spots_bounds [OF l(1)] l(2) by simp
  ultimately show "\<exists>r s' l. rt_malloc n s = Some (r, s') \<and> r \<noteq> 0 \<and> live s' r l \<and> l < 36"
    using s'(1) l(3) \<open>blk s' = blk s\<close> unfolding rt_malloc_def by (intro exI [where x = "blk s (q + 12)"] exI [where x = s'] exI [where x = "l - 12"]) auto
next
  fix p k assume "live s p k"
  then obtain q where q: "(q, k + 12) \<in> spots 0 bs" "p = blk s (q + 12)" using live_spot [OF bs, of p k] by blast
  obtain s' cs where s': "rt_free p s = Some s'" "heap_ok s' cs" "spots 0 cs = spots 0 bs - {(q, k + 12)}" "extent cs = extent bs"
    "keeps (payload 0 bs - {q + 12..<q + (k + 12)}) s s'"
    using free_ok [OF bs q(1)] unfolding q(2) by blast
  have "rt_realloc p n s = Some (0, s')"
    using RT_ALIGN_wraps [of n] n s'(1) by (simp add: rt_realloc_def rt_smem_realloc_def rt_free_def word_le_nat_alt)
  moreover have "\<not> is_live s' p"
  proof
    assume "is_live s' p"
    then obtain j v where v: "(v, j + 12) \<in> spots 0 cs" "p = blk s' (v + 12)" unfolding is_live_def live_spot [OF s'(2)] by blast
    have "blk s' = blk s" using s'(5) by (simp add: keeps_def blk_def fun_eq_iff)
    then have "v = q" using v q(2) live_range(1) [OF s'(2) v(1)] live_range(1) [OF bs q(1)] s'(5) by (simp add: keeps_def)
    then have "(q, j + 12) \<in> spots 0 bs" "(q, j + 12) \<noteq> (q, k + 12)" using v(1) s'(3) by auto
    then show False using spots_disjoint [OF _ q(1), of q "j + 12"] by auto
  qed
  ultimately show "\<exists>s'. rt_realloc p n s = Some (0, s') \<and> \<not> is_live s' p" by blast
qed

theorem huge_request_served_small_witness:
  "\<exists>s r s' l. heap_reach s \<and> rt_malloc 0xFFFFFFFF s = Some (r, s') \<and> r \<noteq> 0 \<and> live s' r l \<and> l < 36"
proof -
  obtain s where s: "heap_reach s" "heap_ok s [(24, True), (412, False)]" using used_pool by blast
  from huge_request_served_small [OF s, of 412 "0xFFFFFFFF"] s(1) show ?thesis by auto
qed

text \<open>The search of an allocation in a pool with less than 12 bytes comes to the end of the pool and stays there.\<close>

lemma search_hangs:
  assumes "MEM_ISUSED (heap_ptr s + e) s" "item_next (heap_ptr s + e) s = e" "e \<le> mem_size_aligned s - sz"
  shows "smem_search sz e s = None"
proof -
  have "False" if y: "smem_search sz e s = Some y" for y
  proof -
    have "(sz, e, s) \<noteq> (sz, e, s)"
    proof (rule smem_search.raw_induct [where P = "\<lambda>z p t y. (z, p, t) \<noteq> (sz, e, s)", OF _ y])
      fix f :: "u32 \<Rightarrow> u32 \<Rightarrow> rt_small_mem \<Rightarrow> u32 option option" and z p t r
      assume ih: "\<And>z p t r. f z p t = Some r \<Longrightarrow> (z, p, t) \<noteq> (sz, e, s)"
        and r: "(if p \<le> mem_size_aligned t - z
          then let mem = heap_ptr t + p
               in if \<not> MEM_ISUSED mem t \<and> z \<le> item_next mem t - (p + 12) then Some (Some p) else f z (item_next mem t) t
          else Some None) = Some r"
      show "(z, p, t) \<noteq> (sz, e, s)"
      proof
        assume "(z, p, t) = (sz, e, s)"
        with r assms have "f sz e s = Some r" by simp
        from ih [OF this] show False by simp
      qed
    qed
    then show False by simp
  qed
  then show ?thesis by (cases "smem_search sz e s") auto
qed

text \<open>
  A pool with room for four or eight bytes is accepted, but the first allocation in it does not
  return: the least block size is larger than the pool, so the bound of the search loop wraps around.
\<close>

theorem tiny_pool_hangs:
  assumes "begin_addr \<noteq> 0" "unat begin_addr + unat len < 4294967296"
    and "pool_start begin_addr + 88 \<le> pool_end begin_addr len" "pool_end begin_addr len < pool_start begin_addr + 100"
    and "n \<noteq> 0" "unat n \<le> pool_end begin_addr len - pool_start begin_addr - 88"
  shows "\<exists>s. rt_smem_init begin_addr len m = Some s \<and> rt_malloc n s = None"
proof -
  define e where "e = pool_end begin_addr len - pool_start begin_addr - 76"
  obtain s where s: "rt_smem_init begin_addr len m = Some s" "heap_ok s [(e, False)]"
    using heap_init [OF assms(1-3), of m] unfolding e_def by blast
  have e: "12 < e" "e < 24" "unat n \<le> e - 12" "4 dvd e"
    using assms(3-6) s(2) by (auto simp: e_def heap_ok_def word32_eq_iff_unat)
  have n: "unat n + 3 < 4294967296" "round4 (unat n) \<le> e - 12" "round4 (unat n) < 12" "RT_ALIGN n 4 = off (round4 (unat n))"
  proof -
    show b: "unat n + 3 < 4294967296" using e by simp
    show r: "round4 (unat n) \<le> e - 12" using e unfolding round4_def by presburger
    show "round4 (unat n) < 12" using r e by linarith
    show "RT_ALIGN n 4 = off (round4 (unat n))" by (rule RT_ALIGN_round4 [OF b])
  qed
  have c: "chained s ([] @ (e, False) # [])" and l: "lfree s = heap_ptr s" and ms: "mem_size_aligned s = off (e - 12)"
    using s(2) by (simp_all add: heap_ok_def heap_words) (simp_all add: chained_def)
  note f = block_fields [OF c, simplified] and g = end_fields [OF c, simplified]
  have big: "p \<le> off (e - 12) - 12" if "p \<le> 24" for p
  proof -
    have "e = 16 \<or> e = 20" using e by presburger
    then have "24 \<le> off (e - 12) - 12" by (auto simp: off_def)
    then show ?thesis using that by simp
  qed
  have e12: "\<not> 12 \<le> e - 12" using e by linarith
  have "smem_search 12 0 s = smem_search 12 (off e) s"
    using f big [of 0] e e12 ms off_compare(1) [of 12 "e - 12"] by (subst smem_search.simps) (simp add: heap_words off_def)
  also have "\<dots> = None"
    by (rule search_hangs) (use g big [of "off e"] ms e off_compare(1) [of e 24] in \<open>simp_all add: heap_words\<close>, simp add: off_def)
  finally have "smem_search 12 0 s = None" .
  moreover have "off (round4 (unat n)) < 12" "\<not> off (round4 (unat n)) > mem_size_aligned s"
  proof -
    have "off 12 = 12" by (simp add: off_def)
    then show "off (round4 (unat n)) < 12" using n off_compare(2) [of "round4 (unat n)" 12] by simp
  qed (use n e in \<open>simp add: ms off_compare\<close>)
  ultimately have "rt_malloc n s = None"
    using assms(5) l n(4) by (simp add: rt_malloc_def rt_smem_alloc_def)
  then show ?thesis using s(1) by blast
qed

theorem tiny_pool_hangs_witness:
  "\<exists>s. rt_smem_init 0x20000000 92 (\<lambda>_. 0) = Some s \<and> rt_malloc 4 s = None"
  by (rule tiny_pool_hangs) (simp_all add: pool_start_def pool_end_def round4_def)

section \<open>Aligned blocks\<close>

lemma and_power_mask: "unat ((w :: u32) AND (2 ^ j - 1)) = unat w mod 2 ^ j"
  using unat_and_mask [of w j] by (simp add: mask_eq_exp_minus_1)

lemma and_power_high: "unat ((w :: u32) AND NOT (2 ^ j - 1)) = unat w div 2 ^ j * 2 ^ j"
  using unat_and_high [of w j] by (simp add: mask_eq_exp_minus_1)

lemma align_up:
  fixes p j :: nat
  assumes "4 dvd p" "2 \<le> j" "p mod 2 ^ j \<noteq> 0"
  shows "p + 4 \<le> (p + (2 ^ j - 1)) div 2 ^ j * 2 ^ j" "(p + (2 ^ j - 1)) div 2 ^ j * 2 ^ j \<le> p + 2 ^ j"
proof -
  have j: "(2 :: nat) ^ j = 4 * 2 ^ (j - 2)"
  proof -
    obtain i where "j = 2 + i" using assms(2) le_Suc_ex by blast
    then show ?thesis by (simp add: power_add)
  qed
  define b d r where "b = (2 :: nat) ^ j" and "d = p div 2 ^ j" and "r = p mod 2 ^ j"
  have r: "0 < r" "r < b" using assms(3) by (simp_all add: r_def b_def)
  have p: "p = d * b + r" unfolding d_def b_def r_def by (rule div_mult_mod_eq [symmetric])
  have "(p + (b - 1)) div b = d + 1"
    by (rule div_nat_eqI) (use p r in \<open>simp_all add: algebra_simps\<close>)
  then have e: "(p + (b - 1)) div b * b = p + (b - r)" using p r by (simp add: algebra_simps)
  have "4 dvd b" using j by (simp add: b_def)
  moreover have "4 dvd r" using assms(1) \<open>4 dvd b\<close> unfolding r_def b_def by (simp add: dvd_mod)
  ultimately have "4 dvd b - r" by (rule dvd_diff_nat)
  then have "4 \<le> b - r" using r by (auto dest: dvd_imp_le)
  then show "p + 4 \<le> (p + (2 ^ j - 1)) div 2 ^ j * 2 ^ j" "(p + (2 ^ j - 1)) div 2 ^ j * 2 ^ j \<le> p + 2 ^ j"
    using e unfolding b_def by simp_all
qed

text \<open>
  C19. Aligned allocation and its release fit together: for an alignment that is a power of two the
  result of \<open>rt_malloc_align\<close> is divisible by it, lies with the requested bytes inside a block handed
  out for it, behind the word that remembers this block, and \<open>rt_free_align\<close> releases this block and no
  other: afterwards the blocks in use are those from before the allocation.
\<close>

theorem aligned_block_roundtrip:
  assumes "heap_reach s" and j: "2 \<le> j" "j < 32" and n: "unat n + 2 ^ j + 6 < 4294967296"
  shows "\<exists>p s'. rt_malloc_align n (2 ^ j) s = Some (p, s') \<and>
    (p = 0 \<and> s' = s \<or>
     2 ^ j dvd unat p \<and> (\<exists>b l. live s' b l \<and> \<not> is_live s b \<and> unat b + 4 \<le> unat p \<and> unat p + unat n \<le> unat b + l) \<and>
     (\<exists>s''. rt_free_align p s' = Some s'' \<and> (\<forall>q k. live s'' q k \<longleftrightarrow> live s q k)))"
proof -
  obtain bs where h: "heap_ok s bs" "24 \<le> extent bs" using heap_reach_ok [OF assms(1)] by blast
  have a: "unat (2 ^ j :: u32) = 2 ^ j"
    using power_strict_increasing [OF j(2), of "2 :: nat"] unat_of_nat_u32 [of "2 ^ j"] by simp
  have j4: "(2 :: nat) ^ j mod 4 = 0" using j(1) le_imp_power_dvd [of 2 j "2 :: nat"] by (simp add: mod_eq_0_iff_dvd)
  have up: "(w + 3) AND NOT 3 = RT_ALIGN w 4" for w :: u32 by (simp add: RT_ALIGN_def add.commute)
  have al: "RT_ALIGN (2 ^ j) 4 = off (2 ^ j)" "RT_ALIGN n 4 = off (round4 (unat n))"
    using RT_ALIGN_round4 [of "2 ^ j"] RT_ALIGN_round4 [of n] n round4_props(4) [OF j4] unfolding a by auto
  have off_j: "off (2 ^ j) = 2 ^ j" by (simp add: off_def)
  define z where "z = off (round4 (unat n) + 2 ^ j)"
  have z: "unat z = round4 (unat n) + 2 ^ j" "unat z + 3 < 4294967296" "round4 (unat z) = unat z"
    using n round4_props(2,3) [of "unat n"] j4 by (auto simp: z_def unat_off intro!: round4_props(4) simp: mod_eq_0_iff_dvd)
  obtain r s1 cs where m: "rt_malloc z s = Some (r, s1)" "heap_ok s1 cs" "extent cs = extent bs" "keeps (payload 0 bs) s s1"
    "r = 0 \<and> s1 = s \<and> cs = bs \<or>
     (\<exists>q l. z \<noteq> 0 \<and> r = blk s (q + 12) \<and> r \<noteq> 0 \<and> 12 + max 12 (unat z) \<le> l \<and> spots 0 cs = insert (q, l) (spots 0 bs) \<and>
        payload 0 bs \<inter> {q..<q + l} = {})"
    using malloc_ok [OF h z(2)] unfolding z(3) by blast
  have def: "rt_malloc_align n (2 ^ j) s = (if r \<noteq> 0 then
      let p = (if r AND (2 ^ j - 1) = 0 then r + 2 ^ j else (r + (2 ^ j - 1)) AND NOT (2 ^ j - 1))
      in Some (p, s1\<lparr>ram := st32 (unat (p - 4)) r (ram s1)\<rparr>) else Some (r, s1))"
    unfolding rt_malloc_align_def up al Let_def off_add(1) z_def [symmetric] m(1) by (simp add: off_j)
  from m(5) show ?thesis
  proof (elim disjE exE conjE)
    assume "r = 0" "s1 = s"
    then show ?thesis by (simp add: def)
  next
    fix q l assume q: "r = blk s (q + 12)" "r \<noteq> 0" "12 + max 12 (unat z) \<le> l" "spots 0 cs = insert (q, l) (spots 0 bs)" "payload 0 bs \<inter> {q..<q + l} = {}"
    have b1: "blk s1 = blk s" "heap_ptr s1 = heap_ptr s" using m(4) by (simp_all add: keeps_def blk_def fun_eq_iff)
    have ql: "(q, l - 12 + 12) \<in> spots 0 cs" "(q, l) \<in> spots 0 cs" using q(3,4) by simp_all
    note r = live_range [OF m(2) ql(1), unfolded b1, folded q(1)]
    have fresh: "(q, k) \<notin> spots 0 bs" for k
    proof
      assume k: "(q, k) \<in> spots 0 bs"
      then have "q + 12 \<in> payload 0 bs" using spots_payload [OF k, of "q + 12"] spots_length [OF h(1) k] by simp
      then show False using q(3,5) by auto
    qed
    define p where "p = (if r AND (2 ^ j - 1) = 0 then r + 2 ^ j else (r + (2 ^ j - 1)) AND NOT (2 ^ j - 1 :: u32))"
    have room: "unat r + 2 ^ j + unat n \<le> unat r + (l - 12)" using q(3) z(1) round4_props(1) [of "unat n"] by simp
    have top: "unat r + (l - 12) < 4294967296" using r(3) unat_u32_lt [of "heap_end s1"] by linarith
    have p: "2 ^ j dvd unat p" "unat r + 4 \<le> unat p" "unat p \<le> unat r + 2 ^ j"
    proof -
      have m1: "unat (2 ^ j - 1 :: u32) = 2 ^ j - 1" using a by (simp add: unat_sub word_le_nat_alt)
      have c: "r AND (2 ^ j - 1) = 0 \<longleftrightarrow> unat r mod 2 ^ j = 0" by (simp add: word32_eq_iff_unat and_power_mask)
      have s1: "unat (r + 2 ^ j) = unat r + 2 ^ j" "unat (r + (2 ^ j - 1)) = unat r + (2 ^ j - 1)"
        using room top a m1 by (simp_all add: unat_add_no_wrap)
      have p4: "(4 :: nat) \<le> 2 ^ j" using power_increasing [OF j(1), of "2 :: nat"] by simp
      have "2 ^ j dvd unat p \<and> unat r + 4 \<le> unat p \<and> unat p \<le> unat r + 2 ^ j"
      proof (cases "unat r mod 2 ^ j = 0")
        case True
        then have "p = r + 2 ^ j" unfolding p_def c by simp
        then show ?thesis using True s1 p4 by (simp add: mod_eq_0_iff_dvd)
      next
        case False
        then have "unat p = (unat r + (2 ^ j - 1)) div 2 ^ j * 2 ^ j" unfolding p_def c by (simp only: if_False and_power_high s1)
        then show ?thesis using align_up [OF r(2) j(1) False] by simp
      qed
      then show "2 ^ j dvd unat p" "unat r + 4 \<le> unat p" "unat p \<le> unat r + 2 ^ j" by blast+
    qed
    have p4: "unat (p - 4) = unat p - 4" using p(2) by (simp add: unat_sub word_le_nat_alt)
    define s2 where "s2 = s1\<lparr>ram := st32 (unat (p - 4)) r (ram s1)\<rparr>"
    have "st32 (unat (p - 4)) r (ram s1) x = ram s1 x" if "x < unat (heap_ptr s1) + q + 12 \<or> unat (heap_ptr s1) + q + l \<le> x" for x
      unfolding p4 using that p r(1) b1 room q(3) by (intro st32_other) auto
    note w = heap_after_write [OF m(2) ql(2) this, folded s2_def]
    have b2: "blk s2 = blk s" using b1(2) by (simp add: s2_def blk_def fun_eq_iff)
    have "live s2 r (l - 12)" using live_spot [OF w(1)] ql(1) q(1) b2 by auto
    moreover have "\<not> is_live s r"
    proof
      assume "is_live s r"
      then obtain k v where v: "(v, k + 12) \<in> spots 0 bs" "r = blk s (v + 12)" unfolding is_live_def live_spot [OF h(1)] by blast
      then have "v = q" using live_range(1) [OF h(1) v(1)] r(1) b1 by simp
      then show False using v(1) fresh by simp
    qed
    moreover obtain s3 ds where f: "rt_free (blk s2 (q + 12)) s2 = Some s3" "heap_ok s3 ds" "spots 0 ds = spots 0 cs - {(q, l)}"
      "keeps (payload 0 cs - {q + 12..<q + l}) s2 s3"
      using free_ok [OF w(1) ql(2)] by blast
    have ld: "ld32 (ram s2) (unat (p - 4)) = blk s (q + 12)" using q(1) by (simp add: s2_def)
    have "rt_free_align p s2 = Some s3"
      unfolding rt_free_align_def ld using f(1) unfolding b2 .
    moreover have "live s3 v k \<longleftrightarrow> live s v k" for v k
    proof -
      have "blk s3 = blk s" using f(4) b2 by (simp add: keeps_def blk_def fun_eq_iff s2_def b1)
      moreover have "spots 0 ds = spots 0 bs" using f(3) q(4) fresh by auto
      ultimately show ?thesis using live_spot [OF f(2)] live_spot [OF h(1)] by simp
    qed
    moreover have "rt_malloc_align n (2 ^ j) s = Some (p, s2)" using q(2) by (simp add: def p_def s2_def Let_def)
    moreover have "unat p + unat n \<le> unat r + (l - 12)" using p room by linarith
    ultimately show ?thesis using p(1,2) by blast
  qed
qed

theorem aligned_block_roundtrip_witness:
  "\<exists>s p s'. heap_reach s \<and> rt_malloc_align 40 64 s = Some (p, s') \<and> (p = 0 \<and> s' = s \<or> 64 dvd unat p)"
proof -
  obtain s where s: "heap_reach s" using used_pool by blast
  have "(2 :: u32) ^ 6 = 64" "(2 :: nat) ^ 6 = 64" by simp_all
  with aligned_block_roundtrip [OF s, of 6 40] s show ?thesis by auto
qed

end
