(* ===== verification/Spec2Isabelle.thy ===== *)
theory Spec2Isabelle
  imports SysTask AdcPins FotaPower IapTransfer BootTask KFaults KHeapRun
begin

text \<open>
  The firmware of a battery-driven floor cleaning machine with an HC32F460 processor: an application
  on RT-Thread (\<open>P2001-app/bsp/hc32f460/applications\<close>), with the kernel's sources in the repository
  (\<open>P2001-app/src\<close>), and a bootloader without an operating system (\<open>P2001-bootload/source\<close>). This
  development translates the programs' own code and the kernel and proves what they promise; where
  the code does something else than it means to, the theorem states what it does.

  The two programs. The bootloader starts first. Its main loop (\<open>main.c\<close>, \<open>task.c\<close>) schedules the
  firmware updater (\<open>tnd_fota.c\<close>), which checks the image in the download area of the flash, copies it
  over the application, forwards it, or starts the application, and the Y-modem receiver
  (\<open>ymodem_ota.c\<close>), which fills the download area from the serial line. A protocol over CAN
  (\<open>can.c\<close>, \<open>Board2Board.c\<close>, \<open>can_iap.c\<close>) forwards an image to another board. The application is a set
  of threads that share their state without locks: the system task (\<open>app_task.c\<close>), the flash thread
  with the log of the operating hours (\<open>flash.c\<close>), the display (\<open>app_display.c\<close>, \<open>lcd1602.c\<close>,
  \<open>pcf8574.c\<close>, \<open>myiic.c\<close>), the keys (\<open>app_key.c\<close>), the motors and the light (\<open>app_motor.c\<close>, \<open>timea.c\<close>),
  the analog inputs (\<open>adc.c\<close>), the battery faults (\<open>app_error.c\<close>), the network reports
  (\<open>app_IOT2Board.c\<close>) and the update link (\<open>app_OTA.c\<close>); two timer callbacks of \<open>main.c\<close> drive the
  software timers and the clock. An update request of the link saves the hours and resets the
  processor, and the bootloader takes over.

  Theories and what they translate.
  \<^item> \<open>Prelude\<close>: words of 8, 16 and 32 bits, little-endian bytes, memories.
  \<^item> \<open>SwTimer\<close>, \<open>Clock\<close>: the software timers of both programs (\<open>main.c\<close>; \<open>sw_timer.c\<close>), with their
    contract as the locale \<open>countdown\<close>; the operating-hours clock.
  \<^item> \<open>FlashDev\<close>, \<open>FlashIo\<close>: the vendor's flash controller routines the programs call and the byte-level
    access of both programs; the locale \<open>nv_store\<close> is the contract the rest relies on.
  \<^item> \<open>FlashLog\<close>: the log of the operating hours, \<open>flash.c\<close> of the application.
  \<^item> \<open>Crc\<close>: the checksum tables, against a bitwise reference (locales \<open>crc_table\<close>, \<open>crc_odd\<close>).
  \<^item> \<open>Ymodem\<close>: the Y-modem receiver. \<open>Ring\<close>: the receive queues (locale \<open>rx_queue\<close>). \<open>CanIap\<close>: the CAN
    stack and both roles of the programming protocol; \<open>IapTransfer\<close>: two boards connected.
  \<^item> \<open>Fota\<close>, \<open>FotaPower\<close>: the firmware updater, and its behaviour under power loss. \<open>BootTask\<close>: the task
    table and the main loop, with all bootloader tasks together.
  \<^item> \<open>Float32\<close>: single-precision rounding. \<open>Adc\<close>, \<open>AdcPins\<close>: the analog inputs. \<open>ErrorCodes\<close>: battery
    faults. \<open>Key\<close>, \<open>Motor\<close>: keys, motors and light.
  \<^item> \<open>Iic\<close>, \<open>Lcd\<close>, \<open>Display\<close>: the bit-banged bus with the port expander, the character display, the
    display task. \<open>Iot\<close>, \<open>Ota\<close>: network reports and update link.
  \<^item> \<open>SysTask\<close>: the system task and all application tasks as events of one transition function.
  \<^item> \<open>KList\<close>: the kernel's doubly linked lists on a heap of pointers, and their refinement to the
    abstract lists the other kernel theories use. \<open>KSched\<close>: the kernel state and the scheduler
    (\<open>scheduler.c\<close>, \<open>cpuport.c\<close>). \<open>KTimer\<close>, \<open>KThread\<close>: timers, threads, the tick (\<open>timer.c\<close>,
    \<open>thread.c\<close>, \<open>clock.c\<close>, \<open>idle.c\<close>). \<open>KSleep\<close>: sleeping threads and the clock interrupt. \<open>KIpc\<close>,
    \<open>KEvent\<close>: semaphores, mutexes and event sets (\<open>ipc.c\<close>).
  \<^item> \<open>KEffect\<close>, \<open>KCalls\<close>: all calls of the kernel as one transition function and their common
    invariant. \<open>KSystem\<close>: the start of the kernel (\<open>components.c\<close>) and runs of calls and clock
    interrupts. \<open>KPriority\<close>: the most urgent thread runs. \<open>KFaults\<close>: bounds and faults.
  \<^item> \<open>KMem\<close>: the memory allocator (\<open>mem.c\<close>) and the services of the system heap (\<open>kservice.c\<close>), on
    the bytes of the memory. \<open>KHeap\<close>: the list of blocks it implements, and the refinement of every
    operation. \<open>KMalloc\<close>, \<open>KHeapRun\<close>: what the clients may rely on, over sequences of calls.

  How state and operations correspond. A group of static variables is a record with the source's field
  names (suffixed or prefixed where two files use one name); a function is a definition with the
  source's name; a thread's endless loop is the definition of one iteration, and the composition
  theories run iterations in any order. A call of the kernel is one step up to the point where it
  gives the processor away, and what a blocked call does when its thread runs again is a definition of
  its own (\<open>wait_result\<close>, \<open>event_result\<close>, \<open>rt_thread_sleep_return\<close>); the kernel runs its operations with
  interrupts disabled, so a clock interrupt is a step between two calls. Integers are words of their width and wrap as in C. Floats are
  rationals rounded after each operation. An access outside an array, or a loop that never ends, is
  \<open>None\<close> where it matters. Interrupts are events between iterations.

  What the lemmas show. Timers expire after exactly their ticks and the clock counts seconds. A save
  of the hours survives a power cycle, a boot ends its search in at most 1026 iterations, and the two
  windows in which a power cut loses hours are exhibited. The checksum tables implement their
  polynomials and detect every one-byte error. A Y-modem session stores the file; corrupted packets are
  rejected; the packets the code wrongly accepts are named. The CAN queues keep order up to seven
  frames and lose them at eight; an image is copied from board to board. The updater changes nothing
  but the download area while checking, installs exactly a valid image, and repeats an update that a
  power failure broke off. Keys are debounced, motors follow them within bounds and stop, the analog
  value is the trimmed mean. The bus driver's waveform is decoded by a listener written independently
  of it, and the hours arrive in the display's memory. A report is decoded by an independent decoder.
  The supply is cut only after the hours are in the log, in every interleaving of the tasks, and no run of
  the tasks ends in the endless loop of a failed flash write, unless the handshake of the update link is
  faster than the search of the log, which is exhibited. Forwarding an image does not end in the
  configuration as it is, except by a reset.
  The kernel never stops: from its start every sequence of allowed calls and clock interrupts returns
  and keeps its data well formed; a sleep of \<open>n\<close> ticks ends with the \<open>n\<close>-th interrupt, across the wrap of
  the tick; no ready thread is more urgent than the running one; mutexes exclude and inherit
  priorities, event sets serve every waiter they can. Its faults are exhibited in \<open>KFaults\<close>.
  The heap is private to its clients, serves every request it has room for, keeps contents over a
  reallocation and is whole again when everything is released; two requests it mishandles are named.

  Bounds and fuel. No definition uses fuel, except \<open>flash_thread\<close> and the runs of the composition
  theories, whose number of steps is what the theorems state (1026 iterations of a boot: two state
  changes and one step for each of the 1024 slots). Polling loops of the code that count (250 polls of
  the bus acknowledge) are functions with a termination proof.

  Assumptions. \<open>flash_chip_ok\<close> (theory \<open>FlashDev\<close>) is the documented behaviour of the flash: erase sets
  bytes to 255, programming an erased word stores it, nothing else changes; \<open>nor_chip\<close> satisfies it.
  \<open>answering\<close> (theory \<open>Iic\<close>) is a device on the bus that acknowledges before the polls run out. The CRC
  unit is an arbitrary function. A time-out function of the application is an arbitrary function that
  keeps the kernel's invariant (locale \<open>timer_callbacks\<close>); \<open>app_callbacks\<close> are the program's. Each has a concrete instance in the witnesses.

  Configuration of the kernel (\<open>rtconfig.h\<close>): one processor, 32 priorities, 100 ticks a second, one
  level in the timer lists, soft timers, the small memory management. What is switched off there is
  not translated.

  Not modelled: of the kernel mailboxes and message queues, memory pools, the other heaps, signals, devices,
  the console, the stacks of the threads and the hooks (none is set); its components (shell, file
  systems, networks), the vendor's register drivers and start-up code, and the programs' own register
  set-up (pins, DMA, serial ports, watchdog): they are not used, third-party, or write registers
  without keeping state. Delays are left out. The application theories take the order of the threads'
  iterations as arbitrary and do not cut an iteration in two, so data races finer than one iteration
  are out of reach of their theorems. The older receiver \<open>ymodem.c\<close> of the bootloader is not called.
\<close>

section \<open>From the serial line to the running application\<close>

text \<open>
  C1. An update over the serial line, across both resets and any power failure: a Y-modem session whose
  file is a valid image for this device ends with a request for a reset; from the flash as it is then,
  whichever number \<open>k\<close> of the update's flash operations were done when the supply failed, the next
  start installs the bytes of the file behind its header at the application's address and jumps to
  them, and nothing outside the application and download areas (the bootloader, the log of the
  operating hours) differs from before the session.
\<close>

theorem update_over_the_wire:
  fixes s :: "'a fota_scheme" and bs :: "(bytes \<times> nat) list"
  defines "m \<equiv> mwrite (mfill (b_mem s) 0x22000 0x1A000 255) 0x22000 (file_of bs)"
  assumes "flash_chip_ok c" "receiver_ready s" "i < 400"
    and "block_ok hp" "header_size hp = Some v" "0 \<le> v" "v \<le> 0x1A000"
    and "\<forall>b \<in> set bs. block_ok (fst b)" "length (file_of bs) \<le> 0x1A000" "length fp = 128"
    and "image_ok crc32b m" "unat (image_size m) = n" "8 \<le> n" "n + 32 \<le> length (file_of bs)"
    and "word_at m 0x22020 AND 0xffff0000 = 0x1fff0000"
  shows "\<exists>s1. ym_run c junk (session i hp bs fp) s = Some s1 \<and> b_reset s1 \<and>
    (\<forall>d k (t :: 'a fota_scheme). flash_mem d = b_mem s1 \<and> FOTA_tTaskState t = FOTA_TASK_CHECK_FW \<and>
        b_mem t = flash_mem (fold (op_run c) (take k (update_ops (b_mem s1) n)) d) \<longrightarrow>
      (\<exists>t' t''. fota_boot c crc32b t = Some t' \<and> FOTA_vTaskHandler c crc32b t' = Some t'' \<and>
        mread (b_mem t'') 0x8000 n = take n (drop 32 (file_of bs)) \<and>
        fota_started t'' = Some \<lparr>app_msp = word_at m 0x22020, app_entry = word_at m 0x22024, app_vtor = 0x8000\<rparr> \<and>
        (\<forall>x. x < 0x8000 \<or> 0x3C000 \<le> x \<longrightarrow> b_mem t'' x = b_mem s x)))"
proof -
  obtain s1 where s1: "ym_run c junk (session i hp bs fp) s = Some s1" "b_reset s1" "b_mem s1 = m"
    using session_stores [OF assms(2-11), where junk = junk] unfolding m_def by blast
  have n: "n \<le> 0x19FE0" using assms(10,15) by simp
  have image: "mread m 0x22020 n = take n (drop 32 (file_of bs))"
    using assms(15) by (intro nth_equalityI) (simp_all add: m_def mwrite_def)
  have outside: "m x = b_mem s x" if "x < 0x8000 \<or> 0x3C000 \<le> x" for x
    using that assms(10) by (auto simp: m_def mwrite_def mfill_def)
  have "\<exists>t' t''. fota_boot c crc32b t = Some t' \<and> FOTA_vTaskHandler c crc32b t' = Some t'' \<and>
      mread (b_mem t'') 0x8000 n = take n (drop 32 (file_of bs)) \<and>
      fota_started t'' = Some \<lparr>app_msp = word_at m 0x22020, app_entry = word_at m 0x22024, app_vtor = 0x8000\<rparr> \<and>
      (\<forall>x. x < 0x8000 \<or> 0x3C000 \<le> x \<longrightarrow> b_mem t'' x = b_mem s x)"
    if t: "flash_mem d = m" "b_mem t = flash_mem (fold (op_run c) (take k (update_ops m n)) d)"
      "FOTA_tTaskState t = FOTA_TASK_CHECK_FW" for d k and t :: "'a fota_scheme"
  proof -
    obtain t' where t': "fota_boot c crc32b t = Some t'" "FOTA_tTaskState t' = FOTA_TASK_START_APP"
      "\<forall>x. x < 0x22000 \<or> 0x3C000 \<le> x \<longrightarrow> b_mem t' x = installed m n x"
      using update_resumes [OF assms(2,12,13) n t] by blast
    have app: "mread (b_mem t') 0x8000 n = mread m 0x22020 n"
      using mread_cong [where a = "0x8000" and n = n and m = "b_mem t'" and m' = "installed m n"] t'(3) n installed_parts(1) [OF n, where m = m] by simp
    note start = started_application [OF t'(2) app assms(14) n assms(16)]
    have "b_mem t' x = b_mem s x" if "x < 0x8000 \<or> 0x3C000 \<le> x" for x
      using that t'(3) installed_parts(4) [OF n, where m = m and x = x] outside by auto
    then show ?thesis using t'(1) start app image by fastforce
  qed
  then show ?thesis using s1 by blast
qed

text \<open>The image of theory \<open>Fota\<close>, padded to a block, over an erased flash; the supply fails at the 15th operation.\<close>

theorem update_over_the_wire_witness:
  "\<exists>s1 t' t''. ym_run nor_chip 0 (session 5 example_header [(example_image @ replicate 88 255, 0)] (replicate 128 0))
      (ymodem_start_ota (fota_init (\<lambda>_. 255))) = Some s1 \<and>
    fota_boot nor_chip xor_unit (example_fota (flash_mem (fold (op_run nor_chip)
      (take 14 (update_ops (b_mem s1) 8)) (efm_reset (b_mem s1), 0)))) = Some t' \<and>
    FOTA_vTaskHandler nor_chip xor_unit t' = Some t'' \<and>
    fota_started t'' = Some \<lparr>app_msp = 0x1FFF8000, app_entry = 0x8101, app_vtor = 0x8000\<rparr>"
proof -
  let ?s = "ymodem_start_ota (fota_init (\<lambda>_. 255))" and ?b = "example_image @ replicate 88 255"
  have r: "receiver_ready ?s" "b_mem ?s = (\<lambda>_. 255)"
    by (simp_all add: receiver_ready_def ymodem_start_ota_def fota_init_def canstack_init_def ymodem_init_def
        ymodem.defs canstack.defs fota.defs efm_reset_def boot_timers_wf_def boot_TMR_bIsTimeExpired_def boot_TMR_NUM_def)
  have m: "mwrite (mfill (b_mem ?s) 0x22000 0x1A000 255) 0x22000 (file_of [(?b, 0 :: nat)]) = example_flash"
    unfolding r(2)
  proof (rule ext)
    fix x :: nat
    consider "x < 0x22000" | "0x22000 \<le> x" "x < 0x22028" | "0x22028 \<le> x" "x < 0x22080" | "0x22080 \<le> x" by linarith
    then show "mwrite (mfill (\<lambda>_. 255) 0x22000 0x1A000 255) 0x22000 (file_of [(?b, 0 :: nat)]) x = example_flash x"
      by cases (simp_all add: example_flash_def mwrite_def mfill_def length_example_image nth_append less_diff_conv2)
  qed
  have mem: "flash_mem (efm_reset x, 0 :: nat) = x" for x by (simp add: efm_reset_def)
  note u = update_over_the_wire [OF nor_chip_ok r(1), where i = 5 and hp = example_header and v = 128 and n = 8
      and bs = "[(?b, 0)]" and fp = "replicate 128 0" and crc32b = xor_unit and junk = 0, unfolded m]
  have "block_ok ?b" "length ?b = 128" by (simp_all add: block_ok_def length_example_image)
  then obtain s1 where s1: "ym_run nor_chip 0 (session 5 example_header [(?b, 0)] (replicate 128 0)) ?s = Some s1"
    "\<forall>d k (t :: fota). flash_mem d = b_mem s1 \<and> FOTA_tTaskState t = FOTA_TASK_CHECK_FW \<and>
        b_mem t = flash_mem (fold (op_run nor_chip) (take k (update_ops (b_mem s1) 8)) d) \<longrightarrow>
      (\<exists>t' t''. fota_boot nor_chip xor_unit t = Some t' \<and> FOTA_vTaskHandler nor_chip xor_unit t' = Some t'' \<and>
        fota_started t'' = Some \<lparr>app_msp = 0x1FFF8000, app_entry = 0x8101, app_vtor = 0x8000\<rparr>)"
    using u [OF _ example_header] example_image_ok by (auto simp: example_words) metis
  show ?thesis using s1(1) s1(2) [rule_format, OF conjI [OF mem conjI [OF example_fota(1) example_fota(2)]], of 14] by blast
qed

end
